(* ===== verification/JS_Prelude.thy ===== *)
theory JS_Prelude
  imports Complex_Main "HOL-Library.AList"
begin

text \<open>
  The vocabulary the components share: the JavaScript containers the sources use, as ordered
  association lists and duplicate-free lists, numbers, and the generic facts about them.
\<close>

section \<open>Collections of facts\<close>

named_theorems js_map_simps \<open>rewrite rules for insertion-ordered maps\<close>
named_theorems js_set_simps \<open>rewrite rules for insertion-ordered sets\<close>

section \<open>Insertion-ordered maps\<close>

text \<open>
  A JavaScript \<open>Map\<close> iterates its entries in insertion order; \<open>set\<close> on a present key keeps
  the key's place, on a new key appends it, and \<open>delete\<close> removes it. \<open>AList.update\<close> and
  \<open>AList.delete\<close> behave so on association lists.
\<close>

type_synonym ('k, 'v) js_map = "('k \<times> 'v) list"

abbreviation map_get :: "('k, 'v) js_map \<Rightarrow> 'k \<Rightarrow> 'v option" where
  "map_get m k \<equiv> map_of m k"

abbreviation map_set :: "'k \<Rightarrow> 'v \<Rightarrow> ('k, 'v) js_map \<Rightarrow> ('k, 'v) js_map" where
  "map_set k v m \<equiv> AList.update k v m"

abbreviation map_del :: "'k \<Rightarrow> ('k, 'v) js_map \<Rightarrow> ('k, 'v) js_map" where
  "map_del k m \<equiv> AList.delete k m"

abbreviation map_has :: "('k, 'v) js_map \<Rightarrow> 'k \<Rightarrow> bool" where
  "map_has m k \<equiv> map_of m k \<noteq> None"

abbreviation map_keys :: "('k, 'v) js_map \<Rightarrow> 'k list" where
  "map_keys m \<equiv> map fst m"

abbreviation map_values :: "('k, 'v) js_map \<Rightarrow> 'v list" where
  "map_values m \<equiv> map snd m"

definition map_wf :: "('k, 'v) js_map \<Rightarrow> bool" where
  "map_wf m \<longleftrightarrow> distinct (map_keys m)"


text \<open>\<open>map_touch\<close> is \<open>delete\<close> followed by \<open>set\<close>: the key becomes the most recently inserted one.\<close>

definition map_touch :: "'k \<Rightarrow> ('k, 'v) js_map \<Rightarrow> ('k, 'v) js_map" where
  "map_touch k m = (case map_get m k of None \<Rightarrow> m | Some v \<Rightarrow> map_set k v (map_del k m))"

text \<open>A weight summed over the values of a map: counts and byte totals are instances.\<close>

definition map_sum :: "('v \<Rightarrow> int) \<Rightarrow> ('k, 'v) js_map \<Rightarrow> int" where
  "map_sum w m = sum_list (map (\<lambda>(k, v). w v) m)"

lemma map_of_map_entry [js_map_simps]:
  "map_of (AList.map_entry k f m) k' = (if k' = k then map_option f (map_of m k) else map_of m k')"
  by (induction m) auto

lemma map_entry_cong:
  "(\<And>v. map_of m k = Some v \<Longrightarrow> f v = g v) \<Longrightarrow> AList.map_entry k f m = AList.map_entry k g m"
  by (induction m) auto

lemma map_entry_same: "(\<And>v. map_of m k = Some v \<Longrightarrow> f v = v) \<Longrightarrow> AList.map_entry k f m = m"
  by (induction m) auto

lemma map_entry_absent [simp]: "map_of m k = None \<Longrightarrow> AList.map_entry k f m = m"
  by (induction m) auto

lemma map_entry_map_entry [simp]:
  "AList.map_entry k f (AList.map_entry k g m) = AList.map_entry k (\<lambda>v. f (g v)) m"
  by (induction m) auto

lemma map_keys_map_entry [simp]: "map_keys (AList.map_entry k f m) = map_keys m"
  by (induction m) auto

lemma map_wf_map_entry [simp]: "map_wf (AList.map_entry k f m) = map_wf m"
  by (simp add: map_wf_def)

lemma map_wf_Nil [simp]: "map_wf []"
  by (simp add: map_wf_def)

lemma map_wf_set [simp]: "map_wf m \<Longrightarrow> map_wf (map_set k v m)"
  by (simp add: map_wf_def distinct_update)

lemma map_wf_del [simp]: "map_wf m \<Longrightarrow> map_wf (map_del k m)"
  by (simp add: map_wf_def distinct_delete)

lemma map_wf_touch [simp]: "map_wf m \<Longrightarrow> map_wf (map_touch k m)"
  by (simp add: map_touch_def split: option.split)

lemma map_of_map_set [js_map_simps]: "map_of (map_set k v m) k' = (if k' = k then Some v else map_of m k')"
  by (auto simp: update_conv')

lemma map_of_map_del [js_map_simps]: "map_of (map_del k m) k' = (if k' = k then None else map_of m k')"
  by (auto simp: delete_conv')

lemma map_of_map_touch [js_map_simps]: "map_of (map_touch k m) k' = map_of m k'"
  by (auto simp: map_touch_def js_map_simps split: option.split)

lemma map_set_absent: "map_of m k = None \<Longrightarrow> map_set k v m = m @ [(k, v)]"
  by (induction m) (auto split: if_splits)

lemma map_del_absent: "map_of m k = None \<Longrightarrow> map_del k m = m"
  by (simp add: delete_idem map_of_eq_None_iff)

lemma map_touch_last: "map_of m k = Some v \<Longrightarrow> map_touch k m = map_del k m @ [(k, v)]"
  by (simp add: map_touch_def map_set_absent js_map_simps)

lemma map_sum_Nil [simp]: "map_sum w [] = 0"
  by (simp add: map_sum_def)

lemma map_sum_map_entry [js_map_simps]:
  "map_sum w (AList.map_entry k f m) =
     map_sum w m + (case map_of m k of None \<Rightarrow> 0 | Some v \<Rightarrow> w (f v) - w v)"
  by (induction m) (auto simp: map_sum_def split: option.splits)

lemma map_sum_set [js_map_simps]:
  "map_sum w (map_set k v m) = map_sum w m + w v - (case map_of m k of None \<Rightarrow> 0 | Some v' \<Rightarrow> w v')"
  by (induction m) (auto simp: map_sum_def split: option.splits)

lemma map_sum_del [js_map_simps]:
  "map_wf m \<Longrightarrow> map_sum w (map_del k m) =
     map_sum w m - (case map_of m k of None \<Rightarrow> 0 | Some v \<Rightarrow> w v)"
proof (induction m)
  case (Cons a m)
  then show ?case
    by (cases a) (auto simp: map_sum_def map_wf_def delete_simps map_of_eq_None_iff delete_idem split: option.splits)
qed simp

lemma map_sum_touch [js_map_simps]: "map_wf m \<Longrightarrow> map_sum w (map_touch k m) = map_sum w m"
  by (auto simp: map_touch_def js_map_simps split: option.split)

lemma map_sum_nonneg: "(\<And>k v. (k, v) \<in> set m \<Longrightarrow> 0 \<le> w v) \<Longrightarrow> 0 \<le> map_sum w m"
  by (auto simp: map_sum_def intro!: sum_list_nonneg)

lemma map_wf_in_set: "map_wf m \<Longrightarrow> (k, v) \<in> set m \<longleftrightarrow> map_of m k = Some v"
  by (simp add: map_wf_def)

section \<open>Insertion-ordered sets\<close>

text \<open>A JavaScript \<open>Set\<close>: a duplicate-free list in insertion order.\<close>

definition set_add :: "'a \<Rightarrow> 'a list \<Rightarrow> 'a list" where
  "set_add x xs = (if x \<in> set xs then xs else xs @ [x])"

definition set_del :: "'a \<Rightarrow> 'a list \<Rightarrow> 'a list" where
  "set_del x xs = filter (\<lambda>y. y \<noteq> x) xs"

lemma set_set_add [js_set_simps, simp]: "set (set_add x xs) = insert x (set xs)"
  by (auto simp: set_add_def)

lemma set_set_del [js_set_simps, simp]: "set (set_del x xs) = set xs - {x}"
  by (auto simp: set_del_def)

lemma distinct_set_add [simp]: "distinct xs \<Longrightarrow> distinct (set_add x xs)"
  by (simp add: set_add_def)

lemma distinct_set_del [simp]: "distinct xs \<Longrightarrow> distinct (set_del x xs)"
  by (simp add: set_del_def)

lemma set_del_absent [simp]: "x \<notin> set xs \<Longrightarrow> set_del x xs = xs"
  by (auto simp: set_del_def filter_id_conv)

section \<open>Numbers and errors\<close>

text \<open>
  A JavaScript number is a finite value or one of the three non-finite ones. Finite values are
  exact rationals: rounding to 53 bits is not modelled.
\<close>

datatype js_num = Fin rat | NaN | PosInf | NegInf

definition MAX_SAFE_INTEGER :: int where
  "MAX_SAFE_INTEGER = 9007199254740991"

fun isFinite :: "js_num \<Rightarrow> bool" where
  "isFinite (Fin _) = True"
| "isFinite _ = False"

text \<open>What the sources read of a thrown value: its \<open>name\<close> and \<open>message\<close>.\<close>

record js_error =
  err_name :: string
  err_message :: string

end
