(* ===== verification/Min_Heap.thy ===== *)
theory Min_Heap
  imports JS_Prelude "HOL-Library.Multiset"
begin

text \<open>
  The binary min-heap of \<open>packages/client-core/src/artwork/heap.ts\<close>: the array operations as
  written (append and sift up, take the root and sift the last item down, filter and rebuild),
  and the priority-queue contract they keep for every strict weak order.
\<close>

section \<open>The operations\<close>

text \<open>The pair assignment \<open>[items[i], items[j]] = [items[j], items[i]]\<close>.\<close>

definition swap_items :: "'a list \<Rightarrow> nat \<Rightarrow> nat \<Rightarrow> 'a list" where
  "swap_items xs i j = xs[i := xs ! j, j := xs ! i]"

lemma length_swap_items [simp]: "length (swap_items xs i j) = length xs"
  by (simp add: swap_items_def)

text \<open>The loop of \<open>push\<close>: move the item at \<open>i\<close> up while it comes before its parent.\<close>

function sift_up :: "('a \<Rightarrow> 'a \<Rightarrow> bool) \<Rightarrow> 'a list \<Rightarrow> nat \<Rightarrow> 'a list" where
  "sift_up before items i =
     (if i > 0
      then (let parent = (i - 1) div 2
            in if \<not> before (items ! i) (items ! parent) then items
               else sift_up before (swap_items items i parent) parent)
      else items)"
  by pat_completeness auto
termination
  by (relation "measure (\<lambda>(before, items, i). i)") auto

declare sift_up.simps [simp del]

text \<open>
  The loop of \<open>pop\<close>: at each index the better of the two children, if it comes before the item,
  moves up. \<open>best_child\<close> is the loop's choice of \<open>best\<close>.
\<close>

definition best_child :: "('a \<Rightarrow> 'a \<Rightarrow> bool) \<Rightarrow> 'a list \<Rightarrow> nat \<Rightarrow> nat" where
  "best_child before items i =
     (let l = 2 * i + 1; r = l + 1;
          best = (if l < length items \<and> before (items ! l) (items ! i) then l else i)
      in if r < length items \<and> before (items ! r) (items ! best) then r else best)"

lemma best_child_cases:
  "best_child before items i = i \<or>
   (best_child before items i < length items
    \<and> (best_child before items i = 2 * i + 1 \<or> best_child before items i = 2 * i + 2))"
  by (auto simp: best_child_def Let_def)

function sift_down :: "('a \<Rightarrow> 'a \<Rightarrow> bool) \<Rightarrow> 'a list \<Rightarrow> nat \<Rightarrow> 'a list" where
  "sift_down before items i =
     (let best = best_child before items i
      in if best = i then items
         else sift_down before (swap_items items i best) best)"
  by pat_completeness auto
termination
proof (relation "measure (\<lambda>(before, items, i). length items - i)", goal_cases)
  case 1
  then show ?case by simp
next
  case (2 before items i x)
  then show ?case using best_child_cases [of before items i] by auto
qed

declare sift_down.simps [simp del]

definition heap_size :: "'a list \<Rightarrow> nat" where
  "heap_size items = length items"

definition heap_peek :: "'a list \<Rightarrow> 'a option" where
  "heap_peek items = (case items of [] \<Rightarrow> None | x # _ \<Rightarrow> Some x)"

definition heap_push :: "('a \<Rightarrow> 'a \<Rightarrow> bool) \<Rightarrow> 'a \<Rightarrow> 'a list \<Rightarrow> 'a list" where
  "heap_push before item items = sift_up before (items @ [item]) (length items)"

definition heap_pop :: "('a \<Rightarrow> 'a \<Rightarrow> bool) \<Rightarrow> 'a list \<Rightarrow> 'a option \<times> 'a list" where
  "heap_pop before items =
     (if items = [] then (None, items)
      else (let top = items ! 0; lst = last items; rest = butlast items
            in if rest = [] then (Some top, rest)
               else (Some top, sift_down before (rest[0 := lst]) 0)))"

definition heap_retain :: "('a \<Rightarrow> 'a \<Rightarrow> bool) \<Rightarrow> ('a \<Rightarrow> bool) \<Rightarrow> 'a list \<Rightarrow> 'a list" where
  "heap_retain before keep items =
     foldl (\<lambda>acc item. heap_push before item acc) [] (filter keep items)"

definition heap_clear :: "'a list \<Rightarrow> 'a list" where
  "heap_clear items = []"

section \<open>The contract of a priority queue\<close>

text \<open>
  What a client relies on: the items as a multiset, a root that nothing comes before, and pushes
  and pops that keep both. \<open>before\<close> is a strict weak order.
\<close>

locale weak_order =
  fixes before :: "'a \<Rightarrow> 'a \<Rightarrow> bool"
  assumes before_asym: "before a b \<Longrightarrow> \<not> before b a"
    and not_before_trans: "\<not> before b a \<Longrightarrow> \<not> before c b \<Longrightarrow> \<not> before c a"
begin

lemma before_irrefl [simp]: "\<not> before a a"
  using before_asym by blast

end

locale priority_queue = weak_order before
  for before :: "'a \<Rightarrow> 'a \<Rightarrow> bool" +
  fixes peek :: "'q \<Rightarrow> 'a option"
    and push :: "'a \<Rightarrow> 'q \<Rightarrow> 'q"
    and pop :: "'q \<Rightarrow> 'a option \<times> 'q"
    and content :: "'q \<Rightarrow> 'a multiset"
    and invar :: "'q \<Rightarrow> bool"
  assumes peek_None: "peek q = None \<longleftrightarrow> content q = {#}"
    and peek_in: "peek q = Some x \<Longrightarrow> x \<in># content q"
    and peek_min: "invar q \<Longrightarrow> peek q = Some x \<Longrightarrow> y \<in># content q \<Longrightarrow> \<not> before y x"
    and content_push: "content (push x q) = content q + {#x#}"
    and invar_push: "invar q \<Longrightarrow> invar (push x q)"
    and pop_fst: "fst (pop q) = peek q"
    and content_pop: "peek q = Some x \<Longrightarrow> content (snd (pop q)) = content q - {#x#}"
    and invar_pop: "invar q \<Longrightarrow> invar (snd (pop q))"
begin

lemma pop_smaller: "peek q = Some x \<Longrightarrow> size (content (snd (pop q))) < size (content q)"
  by (simp add: content_pop peek_in size_Diff1_less)

text \<open>A client that keeps pushing and popping sees the items in order: the popped item is not
  after any item that stays.\<close>

lemma pop_before_rest:
  "invar q \<Longrightarrow> peek q = Some x \<Longrightarrow> y \<in># content (snd (pop q)) \<Longrightarrow> \<not> before y x"
  by (metis content_pop in_diffD peek_min)

end

section \<open>The heap shape\<close>

abbreviation parent_of :: "nat \<Rightarrow> nat" where
  "parent_of i \<equiv> (i - 1) div 2"

text \<open>No item comes before its parent.\<close>

definition is_heap :: "('a \<Rightarrow> 'a \<Rightarrow> bool) \<Rightarrow> 'a list \<Rightarrow> bool" where
  "is_heap before xs \<longleftrightarrow> (\<forall>i < length xs. 0 < i \<longrightarrow> \<not> before (xs ! i) (xs ! parent_of i))"

text \<open>The shape with one defect: at \<open>i\<close> towards its parent, or at \<open>i\<close> towards its children.\<close>

definition up_defect :: "('a \<Rightarrow> 'a \<Rightarrow> bool) \<Rightarrow> 'a list \<Rightarrow> nat \<Rightarrow> bool" where
  "up_defect before xs i \<longleftrightarrow> i < length xs
     \<and> (\<forall>j < length xs. 0 < j \<longrightarrow> j \<noteq> i \<longrightarrow> \<not> before (xs ! j) (xs ! parent_of j))
     \<and> (\<forall>j < length xs. 0 < j \<longrightarrow> parent_of j = i \<longrightarrow> 0 < i \<longrightarrow> \<not> before (xs ! j) (xs ! parent_of i))"

definition down_defect :: "('a \<Rightarrow> 'a \<Rightarrow> bool) \<Rightarrow> 'a list \<Rightarrow> nat \<Rightarrow> bool" where
  "down_defect before xs i \<longleftrightarrow>
     (\<forall>j < length xs. 0 < j \<longrightarrow> parent_of j \<noteq> i \<longrightarrow> \<not> before (xs ! j) (xs ! parent_of j))
     \<and> (\<forall>j < length xs. 0 < j \<longrightarrow> parent_of j = i \<longrightarrow> 0 < i \<longrightarrow> \<not> before (xs ! j) (xs ! parent_of i))"

lemma nth_swap_items:
  "i < length xs \<Longrightarrow> j < length xs \<Longrightarrow> k < length xs \<Longrightarrow>
   swap_items xs i j ! k = (if k = i then xs ! j else if k = j then xs ! i else xs ! k)"
  by (auto simp: swap_items_def nth_list_update)

lemma mset_swap_items [simp]:
  "i < length xs \<Longrightarrow> j < length xs \<Longrightarrow> mset (swap_items xs i j) = mset xs"
  by (simp add: swap_items_def mset_swap)

lemma is_heap_Nil [simp]: "is_heap before []"
  by (simp add: is_heap_def)

lemma parent_less: "0 < i \<Longrightarrow> parent_of i < i"
  by auto

lemma parent_of_iff: "0 < j \<Longrightarrow> parent_of j = i \<longleftrightarrow> j = 2 * i + 1 \<or> j = 2 * i + 2"
  by auto

context weak_order
begin

lemma up_defect_swap:
  assumes d: "up_defect before xs i" and i: "0 < i" and b: "before (xs ! i) (xs ! parent_of i)"
  shows "up_defect before (swap_items xs i (parent_of i)) (parent_of i)"
proof -
  let ?p = "parent_of i" let ?ys = "swap_items xs i ?p"
  have len: "i < length xs" "?p < length xs" and pi: "?p \<noteq> i"
    using d i by (auto simp: up_defect_def)
  have nth: "k < length xs \<Longrightarrow> ?ys ! k = (if k = i then xs ! ?p else if k = ?p then xs ! i else xs ! k)" for k
    using len nth_swap_items by blast
  have ok: "j < length xs \<Longrightarrow> 0 < j \<Longrightarrow> j \<noteq> i \<Longrightarrow> \<not> before (xs ! j) (xs ! parent_of j)" for j
    using d by (auto simp: up_defect_def)
  have gp: "j < length xs \<Longrightarrow> 0 < j \<Longrightarrow> parent_of j = i \<Longrightarrow> \<not> before (xs ! j) (xs ! ?p)" for j
    using d i by (auto simp: up_defect_def)
  have "\<not> before (?ys ! j) (?ys ! parent_of j)" if "j < length xs" "0 < j" "j \<noteq> ?p" for j
  proof -
    have "parent_of j < length xs" using that parent_less by (meson less_trans)
    show ?thesis
    proof (cases "j = i")
      case True
      then show ?thesis using nth len pi b before_asym by simp
    next
      case False
      then have "?ys ! j = xs ! j" using nth that by simp
      moreover have "\<not> before (xs ! j) (xs ! i)" if "parent_of j = ?p"
        using ok [OF \<open>j < length xs\<close> \<open>0 < j\<close> False] that b before_asym not_before_trans by metis
      moreover have "\<not> before (xs ! j) (xs ! ?p)" if "parent_of j = i"
        using gp \<open>j < length xs\<close> \<open>0 < j\<close> that by blast
      ultimately show ?thesis
        using nth [OF \<open>parent_of j < length xs\<close>] ok [OF \<open>j < length xs\<close> \<open>0 < j\<close> False] by auto
    qed
  qed
  moreover have "\<not> before (?ys ! j) (?ys ! parent_of ?p)"
    if "j < length xs" "0 < j" "parent_of j = ?p" "0 < ?p" for j
  proof -
    have q: "parent_of ?p < length xs" "parent_of ?p \<noteq> ?p" "parent_of ?p \<noteq> i"
      using len parent_less [OF \<open>0 < ?p\<close>] parent_less [OF i] by auto
    have top: "\<not> before (xs ! ?p) (xs ! parent_of ?p)" using ok [of ?p] len that pi by auto
    have "j \<noteq> ?p" using that by auto
    show ?thesis
    proof (cases "j = i")
      case True
      then show ?thesis using nth [OF q(1)] nth [OF len(1)] q top by simp
    next
      case False
      then have "\<not> before (xs ! j) (xs ! ?p)" using ok [OF that(1,2)] that(3) by simp
      then have "\<not> before (xs ! j) (xs ! parent_of ?p)" using top not_before_trans by blast
      moreover have "?ys ! j = xs ! j" using nth [OF that(1)] False \<open>j \<noteq> ?p\<close> by presburger
      moreover have "?ys ! parent_of ?p = xs ! parent_of ?p" using nth [OF q(1)] q(2,3) by presburger
      ultimately show ?thesis by simp
    qed
  qed
  ultimately show ?thesis using len by (auto simp: up_defect_def)
qed

lemma sift_up_heap: "up_defect before xs i \<Longrightarrow> is_heap before (sift_up before xs i)"
proof (induction i arbitrary: xs rule: less_induct)
  case (less i)
  show ?case
  proof (cases "0 < i \<and> before (xs ! i) (xs ! parent_of i)")
    case True
    then have "is_heap before (sift_up before (swap_items xs i (parent_of i)) (parent_of i))"
      using less up_defect_swap parent_less by blast
    then show ?thesis using True by (simp add: sift_up.simps [of before xs i] Let_def)
  next
    case False
    then have "is_heap before xs"
      using less.prems by (auto simp: up_defect_def is_heap_def)
    then show ?thesis using False by (auto simp: sift_up.simps [of before xs i] Let_def)
  qed
qed

lemma best_child_min:
  assumes "i < length xs" "j < length xs" "j = i \<or> j = 2 * i + 1 \<or> j = 2 * i + 2"
  shows "\<not> before (xs ! j) (xs ! best_child before xs i)"
proof -
  let ?l = "2 * i + 1" let ?r = "2 * i + 2"
  let ?b = "if ?l < length xs \<and> before (xs ! ?l) (xs ! i) then ?l else i"
  have "\<not> before (xs ! i) (xs ! ?b)" "?l < length xs \<Longrightarrow> \<not> before (xs ! ?l) (xs ! ?b)"
    using before_asym by auto
  then have b: "\<not> before (xs ! j) (xs ! ?b)" if "j \<noteq> ?r" using assms that by blast
  show ?thesis
  proof (cases "?r < length xs \<and> before (xs ! ?r) (xs ! ?b)")
    case True
    then have "best_child before xs i = ?r" by (auto simp: best_child_def Let_def split: if_splits)
    then show ?thesis using True b before_asym not_before_trans by (metis before_irrefl)
  next
    case False
    then have e: "best_child before xs i = ?b" by (auto simp: best_child_def Let_def split: if_splits)
    show ?thesis
    proof (cases "j = ?r")
      case True
      then show ?thesis using False assms(2) unfolding e by blast
    next
      case False
      then show ?thesis unfolding e by (rule b)
    qed
  qed
qed

lemma down_defect_swap:
  assumes d: "down_defect before xs i" and i: "i < length xs"
    and b: "best_child before xs i = c" "c \<noteq> i"
  shows "down_defect before (swap_items xs i c) c"
proof -
  let ?ys = "swap_items xs i c"
  have c: "c < length xs" "c = 2 * i + 1 \<or> c = 2 * i + 2" "0 < c" "parent_of c = i"
    using best_child_cases [of before xs i] b by auto
  have nth: "k < length xs \<Longrightarrow> ?ys ! k = (if k = i then xs ! c else if k = c then xs ! i else xs ! k)" for k
    using i c nth_swap_items by blast
  have ok: "j < length xs \<Longrightarrow> 0 < j \<Longrightarrow> parent_of j \<noteq> i \<Longrightarrow> \<not> before (xs ! j) (xs ! parent_of j)" for j
    using d by (auto simp: down_defect_def)
  have gp: "j < length xs \<Longrightarrow> 0 < j \<Longrightarrow> parent_of j = i \<Longrightarrow> 0 < i \<Longrightarrow> \<not> before (xs ! j) (xs ! parent_of i)" for j
    using d by (auto simp: down_defect_def)
  have "\<not> before (?ys ! j) (?ys ! parent_of j)" if j: "j < length xs" "0 < j" "parent_of j \<noteq> c" for j
  proof -
    have p: "parent_of j < length xs" "parent_of j \<noteq> j"
      using j parent_less [of j] by auto
    consider "j = i" | "parent_of j = i" | "j \<noteq> i" "parent_of j \<noteq> i" by blast
    then show ?thesis
    proof cases
      case 1
      then show ?thesis using nth [OF j(1)] nth [OF p(1)] p j gp [of c] c by auto
    next
      case 2
      then have "\<not> before (xs ! j) (xs ! c)" and "\<not> before (xs ! i) (xs ! c)"
        using best_child_min [OF i j(1)] best_child_min [OF i i] b j parent_of_iff by auto
      then show ?thesis using nth [OF j(1)] nth [OF p(1)] p 2 by auto
    next
      case 3
      then have "j \<noteq> c" using c by auto
      then show ?thesis using nth [OF j(1)] nth [OF p(1)] p 3 ok j by auto
    qed
  qed
  moreover have "\<not> before (?ys ! j) (?ys ! parent_of c)"
    if j: "j < length xs" "0 < j" "parent_of j = c" for j
  proof -
    have "j \<noteq> i" "j \<noteq> c" using j c by auto
    moreover have "\<not> before (xs ! j) (xs ! c)" using ok [OF j(1,2)] j c by auto
    ultimately show ?thesis using nth [OF j(1)] nth [OF i] c by auto
  qed
  ultimately show ?thesis by (auto simp: down_defect_def)
qed

lemma sift_down_heap:
  "down_defect before xs i \<Longrightarrow> i < length xs \<Longrightarrow> is_heap before (sift_down before xs i)"
proof (induction "length xs - i" arbitrary: xs i rule: less_induct)
  case less
  let ?c = "best_child before xs i"
  show ?case
  proof (cases "?c = i")
    case True
    have "\<not> before (xs ! j) (xs ! parent_of j)" if j: "j < length xs" "0 < j" for j
      using best_child_min [OF less.prems(2) j(1)] less.prems(1) j True parent_of_iff [OF j(2)]
      by (cases "parent_of j = i") (auto simp: down_defect_def)
    then show ?thesis using True by (simp add: sift_down.simps [of before xs i] is_heap_def)
  next
    case False
    then have "?c < length xs" "i < ?c" using best_child_cases [of before xs i] by auto
    then have "is_heap before (sift_down before (swap_items xs i ?c) ?c)"
      using less down_defect_swap [OF less.prems refl False] by auto
    then show ?thesis using False by (simp add: sift_down.simps [of before xs i] Let_def)
  qed
qed

lemma is_heap_root: "is_heap before xs \<Longrightarrow> i < length xs \<Longrightarrow> \<not> before (xs ! i) (xs ! 0)"
proof (induction i rule: less_induct)
  case (less i)
  show ?case
  proof (cases "i = 0")
    case False
    then have "parent_of i < length xs" using less.prems parent_less [of i] by auto
    then have "\<not> before (xs ! parent_of i) (xs ! 0)" using less parent_less False by blast
    moreover have "\<not> before (xs ! i) (xs ! parent_of i)"
      using less.prems False by (auto simp: is_heap_def)
    ultimately show ?thesis using not_before_trans by blast
  qed simp
qed

lemma heap_push_heap: "is_heap before xs \<Longrightarrow> is_heap before (heap_push before x xs)"
  unfolding heap_push_def
  by (rule sift_up_heap) (auto simp: up_defect_def is_heap_def nth_append)

end

section \<open>Multiset facts\<close>

lemma mset_sift_up [simp]: "i < length xs \<Longrightarrow> mset (sift_up before xs i) = mset xs"
proof (induction i arbitrary: xs rule: less_induct)
  case (less i)
  have "0 < i \<Longrightarrow> parent_of i < length xs" using less.prems parent_less [of i] by simp
  then show ?case
    using less parent_less [of i] by (simp add: sift_up.simps [of before xs i] Let_def)
qed

lemma mset_sift_down [simp]: "i < length xs \<Longrightarrow> mset (sift_down before xs i) = mset xs"
proof (induction "length xs - i" arbitrary: xs i rule: less_induct)
  case less
  then show ?case
    using best_child_cases [of before xs i]
    by (auto simp: sift_down.simps [of before xs i] Let_def)
qed

lemma mset_heap_push [simp]: "mset (heap_push before x xs) = mset xs + {#x#}"
  by (simp add: heap_push_def)

lemma heap_pop_empty [simp]: "heap_pop before [] = (None, [])"
  by (simp add: heap_pop_def)

lemma heap_peek_eq: "heap_peek xs = (if xs = [] then None else Some (xs ! 0))"
  by (simp add: heap_peek_def split: list.split)

lemma fst_heap_pop: "fst (heap_pop before xs) = heap_peek xs"
  by (simp add: heap_pop_def heap_peek_eq Let_def)

lemma mset_heap_pop:
  assumes "heap_peek xs = Some x"
  shows "mset (snd (heap_pop before xs)) = mset xs - {#x#}"
proof -
  obtain y ys where xs: "xs = y # ys" using assms by (auto simp: heap_peek_def split: list.splits)
  then have [simp]: "x = y" using assms by (simp add: heap_peek_def)
  show ?thesis
  proof (cases ys rule: rev_cases)
    case (snoc zs z)
    then show ?thesis using xs by (simp add: heap_pop_def Let_def)
  qed (simp add: xs heap_pop_def)
qed

lemma length_heap_pop: "xs \<noteq> [] \<Longrightarrow> length (snd (heap_pop before xs)) < length xs"
proof -
  assume "xs \<noteq> []"
  then have "mset (snd (heap_pop before xs)) = mset xs - {#xs ! 0#}"
    by (simp add: mset_heap_pop heap_peek_eq)
  then have "size (mset (snd (heap_pop before xs))) < size (mset xs)"
    using \<open>xs \<noteq> []\<close> by (simp add: size_Diff1_less del: size_mset)
  then show ?thesis by simp
qed

lemma set_heap_pop: "set (snd (heap_pop before xs)) \<subseteq> set xs"
proof (cases "xs = []")
  case False
  then have "mset (snd (heap_pop before xs)) \<subseteq># mset xs"
    by (simp add: mset_heap_pop heap_peek_eq)
  from set_mset_mono [OF this] show ?thesis by simp
qed simp

lemma mset_heap_retain [simp]: "mset (heap_retain before keep xs) = filter_mset keep (mset xs)"
proof -
  have "mset (foldl (\<lambda>acc item. heap_push before item acc) acc ys) = mset acc + mset ys" for acc ys
    by (induction ys arbitrary: acc) auto
  then show ?thesis by (simp add: heap_retain_def)
qed

context weak_order
begin

lemma heap_pop_heap:
  assumes h: "is_heap before xs"
  shows "is_heap before (snd (heap_pop before xs))"
proof (cases "butlast xs = []")
  case False
  let ?ys = "(butlast xs)[0 := last xs]"
  have "down_defect before ?ys 0"
    using h by (auto simp: down_defect_def is_heap_def nth_list_update nth_butlast)
  then have "is_heap before (sift_down before ?ys 0)"
    using False by (intro sift_down_heap) (auto simp flip: length_greater_0_conv)
  then show ?thesis using False by (auto simp: heap_pop_def Let_def)
qed (simp add: heap_pop_def)

lemma heap_retain_heap: "is_heap before (heap_retain before keep xs)"
proof -
  have "is_heap before acc \<Longrightarrow> is_heap before (foldl (\<lambda>acc item. heap_push before item acc) acc ys)"
    for acc ys by (induction ys arbitrary: acc) (auto intro: heap_push_heap)
  then show ?thesis by (simp add: heap_retain_def)
qed

sublocale heap: priority_queue before heap_peek "heap_push before" "heap_pop before" mset "is_heap before"
proof
  fix q x y
  assume "is_heap before q" and p: "heap_peek q = Some x" and y: "y \<in># mset q"
  then obtain i where "i < length q" "q ! i = y" by (auto simp: in_set_conv_nth)
  then show "\<not> before y x"
    using is_heap_root [OF \<open>is_heap before q\<close>] p by (auto simp: heap_peek_eq split: if_splits)
qed (auto simp: heap_peek_eq fst_heap_pop mset_heap_pop split: if_splits
      intro: heap_push_heap heap_pop_heap)

end

end
