(* ===== verification/Artwork_Scheduler.thy ===== *)
theory Artwork_Scheduler
  imports Min_Heap
begin

text \<open>
  The artwork loading policy of \<open>packages/client-core/src/artwork/scheduler.ts\<close>: the state of
  \<open>ArtworkScheduler\<close> as a record, and one definition per method and per callback it registers
  (the loader's settlement, its \<open>finally\<close>, the two timers, the abort listener, the flush
  microtask). A promise, timer or callback outside the scheduler appears as an effect in the
  order the code performs it.

  Object identity: an \<open>Entry\<close> object that a callback holds is found in \<open>entries\<close> by what only
  it carries: the controller of its attempt, its retry timer, or the waiter. That an entry with
  any of these is never removed from the map is part of what is proved about the model.
\<close>

section \<open>Data\<close>

type_synonym art_key = string

text \<open>\<open>ArtworkFailure\<close>.\<close>

record art_failure =
  retryable :: bool
  retryAfterSeconds :: "int option"

text \<open>\<open>ArtworkSchedulerOptions\<close>, the values the constructor reads; \<open>None\<close> is an absent option.\<close>

record 'v art_options =
  o_classify :: "(js_error \<Rightarrow> art_failure) option"
  o_concurrency :: "int option"
  o_priorityExtra :: "int option"
  o_maxEntries :: "int option"
  o_maxBytes :: "int option"
  o_sizeOf :: "('v \<Rightarrow> int) option"
  o_isPinned :: "('v \<Rightarrow> bool) option"
  o_isLargeKey :: "(art_key \<Rightarrow> bool) option"
  o_maxLargeEntries :: "int option"
  o_backoffMs :: "int list option"
  o_failedCooldownMs :: "int option"
  o_timeoutMs :: "int option"

text \<open>The fields the constructor sets once.\<close>

record 'v art_config =
  c_classify :: "js_error \<Rightarrow> art_failure"
  c_concurrency :: int
  c_priorityExtra :: int
  c_maxEntries :: int
  c_maxBytes :: int
  c_sizeOf :: "'v \<Rightarrow> int"
  c_isPinned :: "('v \<Rightarrow> bool) option"
  c_isLargeKey :: "(art_key \<Rightarrow> bool) option"
  c_maxLargeEntries :: int
  c_backoffMs :: "int list"
  c_failedCooldownMs :: int
  c_timeoutMs :: int

text \<open>\<open>ArtworkRequestOptions\<close>; of the signal only whether it is aborted is read.\<close>

record art_request =
  q_aborted :: bool
  q_high :: bool
  q_order :: "js_num option"
  q_group :: "string option"
  q_large :: "bool option"

definition abortError :: "string \<Rightarrow> js_error" where
  "abortError message = \<lparr>err_name = ''AbortError'', err_message = message\<rparr>"

definition ArtworkUnavailableError :: js_error where
  "ArtworkUnavailableError =
     \<lparr>err_name = ''ArtworkUnavailableError'', err_message = ''Artwork unavailable.''\<rparr>"

definition isAbort :: "js_error \<Rightarrow> bool" where
  "isAbort e \<longleftrightarrow> err_name e = ''AbortError''"

definition UNORDERED :: rat where
  "UNORDERED = of_int MAX_SAFE_INTEGER"

text \<open>
  \<open>Entry\<close>. \<open>hasValue\<close> is \<open>e_value \<noteq> None\<close>: the code sets both together. A waiter, a timer handle
  and an abort controller are numbers allocated by the scheduler.
\<close>

record 'v art_entry =
  e_value :: "'v option"
  e_size :: int
  e_large :: bool
  e_waiters :: "nat list"
  e_attempts :: nat
  e_queued :: bool
  e_timer :: "nat option"
  e_inFlight :: "nat option"
  e_failedAt :: "int option"
  e_priority :: bool
  e_order :: rat
  e_seq :: nat
  e_group :: "string option"
  e_token :: nat

text \<open>\<open>Node\<close>, \<open>Group\<close>, \<open>Screen\<close> and \<open>ArtworkScreenStats\<close>.\<close>

record art_node =
  n_key :: art_key
  n_token :: nat
  n_rank :: nat
  n_order :: rat
  n_seq :: nat

record art_group =
  g_started :: bool
  g_queued :: "art_key list"
  g_inFlight :: int

record art_screen =
  scr_label :: string
  scr_startedAt :: int
  scr_requested :: nat
  scr_cached :: nat
  scr_failed :: nat
  scr_pending :: "art_key list"
  scr_firstImageAt :: "int option"
  scr_allVisibleAt :: "int option"

record art_stats =
  st_label :: string
  st_requested :: nat
  st_cached :: nat
  st_failed :: nat
  st_pending :: nat
  st_firstImageMs :: "int option"
  st_allVisibleMs :: "int option"

definition nodeBefore :: "art_node \<Rightarrow> art_node \<Rightarrow> bool" where
  "nodeBefore a b =
     (if n_rank a \<noteq> n_rank b then n_rank a < n_rank b
      else if n_order a \<noteq> n_order b then n_order a < n_order b
      else n_seq a < n_seq b)"

text \<open>What the scheduler does to the world outside, in order.\<close>

datatype 'v art_effect =
    Resolve nat 'v
  | Reject nat js_error
  | Release 'v
  | SetTimer nat int
  | ClearTimer nat
  | CallLoad art_key nat
  | AbortLoad nat
  | NotifyListener nat
  | ScreenSettled art_stats

text \<open>
  One call of \<open>start\<close> whose promise chain is not finished: the controller, the key, the timeout
  timer, the closure's \<open>timedOut\<close> flag, and whether the \<open>then\<close> handler has run (\<open>finally\<close> is
  still to run).
\<close>

record art_attempt =
  at_ref :: nat
  at_key :: art_key
  at_timer :: nat
  at_timedOut :: bool
  at_settled :: bool

text \<open>\<open>ArtworkScheduler\<close>. The last four fields are the outstanding callbacks, the waiters that a
  disposal is about to reject, the allocator of handles and the effects so far.\<close>

record 'v sched =
  s_entries :: "(art_key, 'v art_entry) js_map"
  s_high :: "art_node list"
  s_normal :: "art_node list"
  s_groups :: "(string, art_group) js_map"
  s_queuedCount :: int
  s_active :: int
  s_nextToken :: nat
  s_nextSeq :: nat
  s_flushScheduled :: bool
  s_disposed :: bool
  s_screen :: "art_screen option"
  s_listeners :: "nat list"
  s_byteTotal :: int
  s_attempts :: "art_attempt list"
  s_teardown :: "nat list"
  s_nextRef :: nat
  s_effects :: "'v art_effect list"

definition artwork_config :: "'v art_options \<Rightarrow> 'v art_config" where
  "artwork_config o' =
     \<lparr>c_classify = (case o_classify o' of Some f \<Rightarrow> f
                    | None \<Rightarrow> (\<lambda>e. \<lparr>retryable = \<not> isAbort e, retryAfterSeconds = None\<rparr>)),
      c_concurrency = max 1 (case o_concurrency o' of None \<Rightarrow> 6 | Some n \<Rightarrow> n),
      c_priorityExtra = max 0 (case o_priorityExtra o' of None \<Rightarrow> 2 | Some n \<Rightarrow> n),
      c_maxEntries = max 1 (case o_maxEntries o' of None \<Rightarrow> 600 | Some n \<Rightarrow> n),
      c_maxBytes = max 1 (case o_maxBytes o' of None \<Rightarrow> MAX_SAFE_INTEGER | Some n \<Rightarrow> n),
      c_sizeOf = (case o_sizeOf o' of None \<Rightarrow> (\<lambda>_. 0) | Some f \<Rightarrow> f),
      c_isPinned = o_isPinned o',
      c_isLargeKey = o_isLargeKey o',
      c_maxLargeEntries = max 1 (case o_maxLargeEntries o' of None \<Rightarrow> 4 | Some n \<Rightarrow> n),
      c_backoffMs = (case o_backoffMs o' of None \<Rightarrow> [5000, 15000, 45000] | Some b \<Rightarrow> b),
      c_failedCooldownMs = (case o_failedCooldownMs o' of None \<Rightarrow> 60000 | Some n \<Rightarrow> n),
      c_timeoutMs = (case o_timeoutMs o' of None \<Rightarrow> 8000 | Some n \<Rightarrow> n)\<rparr>"

definition new_scheduler :: "'v sched" where
  "new_scheduler =
     \<lparr>s_entries = [], s_high = [], s_normal = [], s_groups = [], s_queuedCount = 0, s_active = 0,
      s_nextToken = 0, s_nextSeq = 0, s_flushScheduled = False, s_disposed = False, s_screen = None,
      s_listeners = [], s_byteTotal = 0, s_attempts = [], s_teardown = [], s_nextRef = 0,
      s_effects = []\<rparr>"

definition new_entry :: "bool \<Rightarrow> 'v art_entry" where
  "new_entry large =
     \<lparr>e_value = None, e_size = 0, e_large = large, e_waiters = [], e_attempts = 0,
      e_queued = False, e_timer = None, e_inFlight = None, e_failedAt = None, e_priority = False,
      e_order = UNORDERED, e_seq = 0, e_group = None, e_token = 0\<rparr>"

section \<open>Private operations\<close>

definition emit :: "'v art_effect \<Rightarrow> 'v sched \<Rightarrow> 'v sched" where
  "emit f s = s\<lparr>s_effects := s_effects s @ [f]\<rparr>"

definition emit_all :: "'v art_effect list \<Rightarrow> 'v sched \<Rightarrow> 'v sched" where
  "emit_all fs s = s\<lparr>s_effects := s_effects s @ fs\<rparr>"

definition upd_entry :: "art_key \<Rightarrow> ('v art_entry \<Rightarrow> 'v art_entry) \<Rightarrow> 'v sched \<Rightarrow> 'v sched" where
  "upd_entry k f s = s\<lparr>s_entries := AList.map_entry k f (s_entries s)\<rparr>"

definition del_entry :: "art_key \<Rightarrow> 'v sched \<Rightarrow> 'v sched" where
  "del_entry k s = s\<lparr>s_entries := map_del k (s_entries s)\<rparr>"

definition touch :: "art_key \<Rightarrow> 'v sched \<Rightarrow> 'v sched" where
  "touch k s = s\<lparr>s_entries := map_touch k (s_entries s)\<rparr>"

definition upd_group :: "string \<Rightarrow> (art_group \<Rightarrow> art_group) \<Rightarrow> 'v sched \<Rightarrow> 'v sched" where
  "upd_group g f s = s\<lparr>s_groups := AList.map_entry g f (s_groups s)\<rparr>"

definition groupFor :: "string \<Rightarrow> 'v sched \<Rightarrow> 'v sched" where
  "groupFor g s =
     (if map_has (s_groups s) g then s
      else s\<lparr>s_groups := map_set g \<lparr>g_started = False, g_queued = [], g_inFlight = 0\<rparr> (s_groups s)\<rparr>)"

definition dropGroupIfIdle :: "string \<Rightarrow> 'v sched \<Rightarrow> 'v sched" where
  "dropGroupIfIdle g s =
     (case map_get (s_groups s) g of
        None \<Rightarrow> s
      | Some r \<Rightarrow> if g_queued r = [] \<and> g_inFlight r = 0
                 then s\<lparr>s_groups := map_del g (s_groups s)\<rparr> else s)"

definition scheduleFlush :: "'v sched \<Rightarrow> 'v sched" where
  "scheduleFlush s = (if s_flushScheduled s \<or> s_disposed s then s else s\<lparr>s_flushScheduled := True\<rparr>)"

text \<open>\<open>screen?.pending.delete(key)\<close>: whether the key was there, and the screen without it.\<close>

definition pending_delete :: "art_key \<Rightarrow> 'v sched \<Rightarrow> bool \<times> 'v sched" where
  "pending_delete k s =
     (case s_screen s of
        None \<Rightarrow> (False, s)
      | Some sc \<Rightarrow> (k \<in> set (scr_pending sc),
                   s\<lparr>s_screen := Some (sc\<lparr>scr_pending := set_del k (scr_pending sc)\<rparr>)\<rparr>))"

definition upd_screen :: "(art_screen \<Rightarrow> art_screen) \<Rightarrow> 'v sched \<Rightarrow> 'v sched" where
  "upd_screen f s = s\<lparr>s_screen := map_option f (s_screen s)\<rparr>"

text \<open>A heap node is live when its entry is queued under the node's token.\<close>

definition live_node :: "'v sched \<Rightarrow> art_node \<Rightarrow> bool" where
  "live_node s n =
     (case map_get (s_entries s) (n_key n) of
        None \<Rightarrow> False | Some e \<Rightarrow> e_queued e \<and> e_token e = n_token n)"

definition node_rank :: "'v sched \<Rightarrow> 'v art_entry \<Rightarrow> nat" where
  "node_rank s e =
     (case e_group e of
        None \<Rightarrow> 1
      | Some g \<Rightarrow> (case map_get (s_groups s) g of
                    None \<Rightarrow> 1 | Some r \<Rightarrow> if g_started r then 0 else 1))"

definition compact :: "'v sched \<Rightarrow> 'v sched" where
  "compact s =
     (if int (heap_size (s_high s) + heap_size (s_normal s)) > 2 * s_queuedCount s + 256
      then s\<lparr>s_high := heap_retain nodeBefore (live_node s) (s_high s),
             s_normal := heap_retain nodeBefore (live_node s) (s_normal s)\<rparr>
      else s)"

definition pushNode :: "art_key \<Rightarrow> 'v sched \<Rightarrow> 'v sched" where
  "pushNode k s =
     (case map_get (s_entries s) k of
        None \<Rightarrow> s
      | Some e \<Rightarrow>
          let t = Suc (s_nextToken s);
              s1 = upd_entry k (\<lambda>e. e\<lparr>e_token := t\<rparr>) (s\<lparr>s_nextToken := t\<rparr>);
              n = \<lparr>n_key = k, n_token = t, n_rank = node_rank s e, n_order = e_order e, n_seq = e_seq e\<rparr>;
              s2 = (if e_priority e then s1\<lparr>s_high := heap_push nodeBefore n (s_high s1)\<rparr>
                    else s1\<lparr>s_normal := heap_push nodeBefore n (s_normal s1)\<rparr>)
          in compact s2)"

definition enqueue :: "art_key \<Rightarrow> 'v sched \<Rightarrow> 'v sched" where
  "enqueue k s =
     (case map_get (s_entries s) k of
        None \<Rightarrow> s
      | Some e \<Rightarrow>
          let s1 = upd_entry k (\<lambda>e. e\<lparr>e_queued := True\<rparr>) (s\<lparr>s_queuedCount := s_queuedCount s + 1\<rparr>);
              s2 = (if e_seq e = 0
                    then upd_entry k (\<lambda>e. e\<lparr>e_seq := Suc (s_nextSeq s)\<rparr>) (s1\<lparr>s_nextSeq := Suc (s_nextSeq s)\<rparr>)
                    else s1);
              s3 = (case e_group e of
                      None \<Rightarrow> s2
                    | Some g \<Rightarrow> upd_group g (\<lambda>r. r\<lparr>g_queued := set_add k (g_queued r)\<rparr>) (groupFor g s2))
          in scheduleFlush (pushNode k s3))"

definition dequeue :: "art_key \<Rightarrow> 'v sched \<Rightarrow> 'v sched" where
  "dequeue k s =
     (case map_get (s_entries s) k of
        None \<Rightarrow> s
      | Some e \<Rightarrow>
          let s1 = upd_entry k (\<lambda>e. e\<lparr>e_queued := False, e_token := 0\<rparr>) s;
              s2 = s1\<lparr>s_queuedCount := s_queuedCount s1 - 1\<rparr>
          in (case e_group e of
                None \<Rightarrow> s2
              | Some g \<Rightarrow> dropGroupIfIdle g (upd_group g (\<lambda>r. r\<lparr>g_queued := set_del k (g_queued r)\<rparr>) s2)))"

text \<open>\<open>place\<close>: apply a new order and group; true when either changed.\<close>

definition place_order :: "art_key \<Rightarrow> js_num option \<Rightarrow> 'v sched \<Rightarrow> bool \<times> 'v sched" where
  "place_order k order s =
     (case map_get (s_entries s) k of
        None \<Rightarrow> (False, s)
      | Some e \<Rightarrow>
          (case order of
             Some (Fin x) \<Rightarrow> if x \<noteq> e_order e then (True, upd_entry k (\<lambda>e. e\<lparr>e_order := x\<rparr>) s) else (False, s)
           | _ \<Rightarrow> (False, s)))"

definition leave_group :: "art_key \<Rightarrow> 'v art_entry \<Rightarrow> 'v sched \<Rightarrow> 'v sched" where
  "leave_group k e s =
     (case e_group e of
        None \<Rightarrow> s
      | Some old \<Rightarrow>
          if map_has (s_groups s) old
          then dropGroupIfIdle old
                 (upd_group old (\<lambda>r. r\<lparr>g_queued := set_del k (g_queued r),
                                       g_inFlight := g_inFlight r - (if e_inFlight e \<noteq> None then 1 else 0)\<rparr>) s)
          else s)"

definition join_group :: "art_key \<Rightarrow> 'v art_entry \<Rightarrow> string \<Rightarrow> 'v sched \<Rightarrow> 'v sched" where
  "join_group k e g s =
     (if e_queued e \<or> e_inFlight e \<noteq> None
      then upd_group g (\<lambda>r. r\<lparr>g_queued := (if e_queued e then set_add k (g_queued r) else g_queued r),
                              g_inFlight := g_inFlight r + (if e_inFlight e \<noteq> None then 1 else 0)\<rparr>)
             (groupFor g s)
      else s)"

definition place_group :: "art_key \<Rightarrow> string option \<Rightarrow> 'v sched \<Rightarrow> bool \<times> 'v sched" where
  "place_group k grp s =
     (case map_get (s_entries s) k of
        None \<Rightarrow> (False, s)
      | Some e \<Rightarrow>
          (case grp of
             None \<Rightarrow> (False, s)
           | Some g \<Rightarrow>
               if e_group e = Some g then (False, s)
               else (True, join_group k e g (upd_entry k (\<lambda>e. e\<lparr>e_group := Some g\<rparr>) (leave_group k e s)))))"

definition place :: "art_key \<Rightarrow> js_num option \<Rightarrow> string option \<Rightarrow> 'v sched \<Rightarrow> bool \<times> 'v sched" where
  "place k order grp s =
     (let (c1, s1) = place_order k order s; (c2, s2) = place_group k grp s1 in (c1 \<or> c2, s2))"

definition abandonIfUnwanted :: "art_key \<Rightarrow> 'v sched \<Rightarrow> 'v sched" where
  "abandonIfUnwanted k s =
     (case map_get (s_entries s) k of
        None \<Rightarrow> s
      | Some e \<Rightarrow>
          if e_waiters e \<noteq> [] \<or> e_value e \<noteq> None then s
          else
            let s1 = (case e_timer e of
                        None \<Rightarrow> s
                      | Some t \<Rightarrow> upd_entry k (\<lambda>e. e\<lparr>e_timer := None\<rparr>) (emit (ClearTimer t) s));
                s2 = (if e_queued e then dequeue k s1 else s1);
                s3 = (if e_inFlight e = None then del_entry k s2 else s2);
                (there, s4) = pending_delete k s3
            in if there then scheduleFlush s4 else s4)"

text \<open>\<open>finishAttempt\<close>: the entry is no longer in flight.\<close>

definition finishAttempt :: "art_key \<Rightarrow> 'v sched \<Rightarrow> 'v sched" where
  "finishAttempt k s =
     (case map_get (s_entries s) k of
        None \<Rightarrow> s
      | Some e \<Rightarrow>
          if e_inFlight e = None then s
          else
            let s1 = upd_entry k (\<lambda>e. e\<lparr>e_inFlight := None\<rparr>) s
            in (case e_group e of
                  None \<Rightarrow> s1
                | Some g \<Rightarrow> dropGroupIfIdle g (upd_group g (\<lambda>r. r\<lparr>g_inFlight := g_inFlight r - 1\<rparr>) s1)))"

definition notify :: "'v sched \<Rightarrow> 'v sched" where
  "notify s = emit_all (map NotifyListener (s_listeners s)) s"

section \<open>Choosing and starting work\<close>

definition lane :: "bool \<Rightarrow> 'v sched \<Rightarrow> art_node list" where
  "lane hi s = (if hi then s_high s else s_normal s)"

definition set_lane :: "bool \<Rightarrow> art_node list \<Rightarrow> 'v sched \<Rightarrow> 'v sched" where
  "set_lane hi h s = (if hi then s\<lparr>s_high := h\<rparr> else s\<lparr>s_normal := h\<rparr>)"

definition pop_lane :: "bool \<Rightarrow> 'v sched \<Rightarrow> 'v sched" where
  "pop_lane hi s = set_lane hi (snd (heap_pop nodeBefore (lane hi s))) s"

text \<open>The test of \<open>headOf\<close>: the node is live and in the lane of its entry's priority.\<close>

definition usable_node :: "bool \<Rightarrow> 'v sched \<Rightarrow> art_node \<Rightarrow> bool" where
  "usable_node hi s n =
     (case map_get (s_entries s) (n_key n) of
        None \<Rightarrow> False
      | Some e \<Rightarrow> e_queued e \<and> e_token e = n_token n \<and> (hi \<longleftrightarrow> e_priority e))"

lemma lane_set_lane [simp]: "lane hi (set_lane hi h s) = h"
  by (simp add: lane_def set_lane_def)

text \<open>\<open>headOf\<close>: drop stale nodes from the front of a lane until a usable one is there.\<close>

function headOf :: "bool \<Rightarrow> 'v sched \<Rightarrow> art_node option \<times> 'v sched" where
  "headOf hi s =
     (case heap_peek (lane hi s) of
        None \<Rightarrow> (None, s)
      | Some n \<Rightarrow> if usable_node hi s n then (Some n, s) else headOf hi (pop_lane hi s))"
  by pat_completeness auto
termination
  by (relation "measure (\<lambda>(hi, s). length (lane hi s))")
    (auto simp: pop_lane_def heap_peek_eq intro!: length_heap_pop split: if_splits)

declare headOf.simps [simp del]

text \<open>The waiting items of a group that has just started go ahead of groups that have not.\<close>

definition promote_group :: "art_key list \<Rightarrow> 'v sched \<Rightarrow> 'v sched" where
  "promote_group members s =
     foldl (\<lambda>t m. case map_get (s_entries t) m of
                    None \<Rightarrow> t | Some e \<Rightarrow> if e_queued e then pushNode m t else t) s members"

definition start_group :: "string \<Rightarrow> 'v sched \<Rightarrow> 'v sched" where
  "start_group g s =
     (let s1 = upd_group g (\<lambda>r. r\<lparr>g_inFlight := g_inFlight r + 1\<rparr>) (groupFor g s)
      in (case map_get (s_groups s1) g of
            None \<Rightarrow> s1
          | Some r \<Rightarrow>
              if g_started r then s1
              else promote_group (g_queued r) (upd_group g (\<lambda>r. r\<lparr>g_started := True\<rparr>) s1)))"

text \<open>\<open>start\<close>: the controller, the timeout timer and the call of the loader.\<close>

definition start_load :: "'v art_config \<Rightarrow> art_key \<Rightarrow> 'v sched \<Rightarrow> 'v sched" where
  "start_load c k s =
     (case map_get (s_entries s) k of
        None \<Rightarrow> s
      | Some e \<Rightarrow>
          if s_disposed s then s
          else if e_waiters e = [] then (if e_value e = None then del_entry k s else s)
          else
            let a = s_nextRef s; t = Suc a;
                s1 = upd_entry k (\<lambda>e. e\<lparr>e_attempts := Suc (e_attempts e), e_inFlight := Some a\<rparr>)
                       (s\<lparr>s_active := s_active s + 1, s_nextRef := Suc t\<rparr>);
                s2 = (case e_group e of None \<Rightarrow> s1 | Some g \<Rightarrow> start_group g s1);
                att = \<lparr>at_ref = a, at_key = k, at_timer = t, at_timedOut = False, at_settled = False\<rparr>
            in emit_all [SetTimer t (c_timeoutMs c), CallLoad k a]
                 (s2\<lparr>s_attempts := s_attempts s2 @ [att]\<rparr>))"

definition begin_load :: "'v art_config \<Rightarrow> art_key \<Rightarrow> 'v sched \<Rightarrow> 'v sched" where
  "begin_load c k s = start_load c k (dequeue k s)"

definition queued_entries :: "'v sched \<Rightarrow> nat" where
  "queued_entries s = length (filter (\<lambda>(k, e). e_queued e) (s_entries s))"

subsection \<open>Termination of the pump\<close>

lemma headOf_entries: "s_entries (snd (headOf hi s)) = s_entries s"
proof (induction hi s rule: headOf.induct)
  case (1 hi s)
  then show ?case
    by (simp add: headOf.simps [of hi s] pop_lane_def set_lane_def split: option.split)
qed

lemma headOf_usable: "headOf hi s = (Some n, s') \<Longrightarrow> usable_node hi s' n"
proof (induction hi s rule: headOf.induct)
  case (1 hi s)
  then show ?case
    by (simp add: headOf.simps [of hi s] split: option.splits if_splits)
qed

lemma filter_map_entry_le:
  assumes "\<And>e. P (f e) \<Longrightarrow> P e"
  shows "length (filter (\<lambda>(k, e). P e) (AList.map_entry k f m)) \<le> length (filter (\<lambda>(k, e). P e) m)"
  using assms by (induction m) auto

lemma filter_map_entry_less:
  assumes "map_of m k = Some e" "P e" "\<And>e. \<not> P (f e)"
  shows "length (filter (\<lambda>(k, e). P e) (AList.map_entry k f m)) < length (filter (\<lambda>(k, e). P e) m)"
  using assms by (induction m) auto

lemma filter_map_del_le:
  "length (filter (\<lambda>(k, e). P e) (map_del k m)) \<le> length (filter (\<lambda>(k, e). P e) m)"
  by (induction m) (auto simp: delete_simps)

lemma group_ops_entries [simp]:
  "s_entries (upd_group g f s) = s_entries s"
  "s_entries (groupFor g s) = s_entries s"
  "s_entries (dropGroupIfIdle g s) = s_entries s"
  "s_entries (scheduleFlush s) = s_entries s"
  "s_entries (compact s) = s_entries s"
  by (auto simp: upd_group_def groupFor_def dropGroupIfIdle_def scheduleFlush_def compact_def
      split: option.split)

lemma pushNode_entries:
  "s_entries (pushNode k s) =
     (if map_has (s_entries s) k
      then AList.map_entry k (\<lambda>e. e\<lparr>e_token := Suc (s_nextToken s)\<rparr>) (s_entries s) else s_entries s)"
  by (auto simp: pushNode_def upd_entry_def Let_def split: option.split)

lemma queued_pushNode [simp]: "queued_entries (pushNode k s) = queued_entries s"
proof -
  have "length (filter (\<lambda>(k, e). e_queued e) (AList.map_entry k (\<lambda>e. e\<lparr>e_token := t\<rparr>) m)) =
        length (filter (\<lambda>(k, e). e_queued e) m)" for m :: "(art_key, 'a art_entry) js_map" and t
    by (induction m) auto
  then show ?thesis by (simp add: queued_entries_def pushNode_entries)
qed

lemma queued_promote_group [simp]: "queued_entries (promote_group ms s) = queued_entries s"
  unfolding promote_group_def
  by (induction ms arbitrary: s) (auto split: option.split)

lemma queued_start_group [simp]: "queued_entries (start_group g s) = queued_entries s"
proof -
  have frame: "queued_entries (upd_group g f s) = queued_entries s"
    "queued_entries (groupFor g s) = queued_entries s" for f and s :: "'a sched"
    by (simp_all add: queued_entries_def)
  show ?thesis
    by (auto simp: start_group_def Let_def frame split: option.split)
qed

lemma queued_start_load: "queued_entries (start_load c k s) \<le> queued_entries s"
proof -
  have frame: "queued_entries (s\<lparr>s_attempts := x\<rparr>) = queued_entries s"
    "queued_entries (emit_all fs s) = queued_entries s" for x fs and s :: "'a sched"
    by (simp_all add: queued_entries_def emit_all_def)
  have "queued_entries (upd_entry k (\<lambda>e. e\<lparr>e_attempts := Suc (e_attempts e), e_inFlight := a\<rparr>)
          (s\<lparr>s_active := x, s_nextRef := y\<rparr>)) \<le> queued_entries s" for a x y
    by (auto simp: queued_entries_def upd_entry_def intro!: filter_map_entry_le)
  moreover have "queued_entries (del_entry k s) \<le> queued_entries s"
    by (simp add: queued_entries_def del_entry_def filter_map_del_le)
  ultimately show ?thesis
    by (auto simp: start_load_def Let_def frame split: option.split)
qed

lemma queued_dequeue:
  assumes "map_of (s_entries s) k = Some e" "e_queued e"
  shows "queued_entries (dequeue k s) < queued_entries s"
proof -
  have "s_entries (dequeue k s) =
        AList.map_entry k (\<lambda>e. e\<lparr>e_queued := False, e_token := 0\<rparr>) (s_entries s)"
    using assms by (simp add: dequeue_def upd_entry_def Let_def split: option.split)
  then show ?thesis
    using filter_map_entry_less [where P = e_queued, OF assms] by (simp add: queued_entries_def)
qed

lemma pop_lane_entries [simp]: "s_entries (pop_lane hi s) = s_entries s"
  by (simp add: pop_lane_def set_lane_def)

lemma begin_load_decreases:
  assumes "headOf hi s = (Some n, s')"
  shows "queued_entries (begin_load c (n_key n) (pop_lane hi s')) < queued_entries s'"
proof -
  obtain e where e: "map_of (s_entries s') (n_key n) = Some e" "e_queued e"
    using headOf_usable [OF assms] by (auto simp: usable_node_def split: option.splits)
  have "queued_entries (dequeue (n_key n) (pop_lane hi s')) < queued_entries (pop_lane hi s')"
    using e by (intro queued_dequeue [where e = e]) auto
  also have "\<dots> = queued_entries s'" by (simp add: queued_entries_def)
  finally show ?thesis
    using queued_start_load [of c "n_key n" "dequeue (n_key n) (pop_lane hi s')"]
    by (simp add: begin_load_def)
qed

text \<open>
  One turn of the loop of \<open>pump\<close>: the key to begin, with its node popped, or nothing when
  neither lane may start its head.
\<close>

definition pump_pick :: "'v art_config \<Rightarrow> 'v sched \<Rightarrow> art_key option \<times> 'v sched" where
  "pump_pick c s =
     (let (h, s1) = headOf True s
      in if h \<noteq> None \<and> s_active s1 < c_concurrency c + c_priorityExtra c
         then (Some (n_key (the h)), pop_lane True s1)
         else let (m, s2) = headOf False s1
              in if m \<noteq> None \<and> s_active s2 < c_concurrency c
                 then (Some (n_key (the m)), pop_lane False s2)
                 else (None, s2))"

lemma pump_pick_decreases:
  assumes "pump_pick c s = (Some k, s')"
  shows "queued_entries (begin_load c k s') < queued_entries s"
proof -
  obtain h s1 where h: "headOf True s = (h, s1)" by fastforce
  obtain m s2 where m: "headOf False s1 = (m, s2)" by fastforce
  have same: "queued_entries s1 = queued_entries s" "queued_entries s2 = queued_entries s"
    using headOf_entries [of True s] headOf_entries [of False s1] h m
    by (simp_all add: queued_entries_def)
  show ?thesis
    using assms h m same
      begin_load_decreases [of True s] begin_load_decreases [of False s1]
    by (auto simp: pump_pick_def split: if_splits)
qed

text \<open>\<open>pump\<close>: fill the slots, the high lane first.\<close>

function pump :: "'v art_config \<Rightarrow> 'v sched \<Rightarrow> 'v sched" where
  "pump c s =
     (if s_disposed s then s
      else case pump_pick c s of
             (None, s') \<Rightarrow> s'
           | (Some k, s') \<Rightarrow> pump c (begin_load c k s'))"
  by pat_completeness auto
termination
  by (relation "measure (\<lambda>(c, s). queued_entries s)") (auto intro: pump_pick_decreases)

declare pump.simps [simp del]

section \<open>Eviction\<close>

definition within_budget :: "'v art_config \<Rightarrow> int \<Rightarrow> int \<Rightarrow> int \<Rightarrow> bool" where
  "within_budget c large normal bytes \<longleftrightarrow>
     large \<le> c_maxLargeEntries c \<and> bytes \<le> c_maxBytes c \<and> normal \<le> c_maxEntries c"

definition busy :: "'v art_entry \<Rightarrow> bool" where
  "busy e \<longleftrightarrow> e_waiters e \<noteq> [] \<or> e_queued e \<or> e_inFlight e \<noteq> None \<or> e_timer e \<noteq> None"

definition pinned :: "'v art_config \<Rightarrow> 'v \<Rightarrow> bool" where
  "pinned c v = (case c_isPinned c of None \<Rightarrow> False | Some f \<Rightarrow> f v)"

text \<open>
  The loop of \<open>trim\<close> over the map in recency order: the entries kept, the values released in
  order, and the byte total.
\<close>

fun trim_loop :: "'v art_config \<Rightarrow> int \<Rightarrow> int \<Rightarrow> int \<Rightarrow> (art_key, 'v art_entry) js_map
    \<Rightarrow> (art_key, 'v art_entry) js_map \<times> 'v list \<times> int" where
  "trim_loop c large normal bytes [] = ([], [], bytes)"
| "trim_loop c large normal bytes ((k, e) # rest) =
     (if within_budget c large normal bytes then ((k, e) # rest, [], bytes)
      else
        let keep = (case trim_loop c large normal bytes rest of (r, v, b) \<Rightarrow> ((k, e) # r, v, b))
        in if busy e then keep
           else case e_value e of
             None \<Rightarrow> if e_failedAt e = None then keep else trim_loop c large normal bytes rest
           | Some v \<Rightarrow>
               if pinned c v then keep
               else if e_large e
                    then (if large \<le> c_maxLargeEntries c then keep
                          else case trim_loop c (large - 1) normal bytes rest of
                                 (r, vs, b) \<Rightarrow> (r, v # vs, b))
                    else (if bytes \<le> c_maxBytes c \<and> normal \<le> c_maxEntries c then keep
                          else case trim_loop c large (normal - 1) (max 0 (bytes - e_size e)) rest of
                                 (r, vs, b) \<Rightarrow> (r, v # vs, b)))"

definition settled_large :: "'v art_entry \<Rightarrow> int" where
  "settled_large e = of_bool (e_value e \<noteq> None \<and> e_large e)"

definition settled_normal :: "'v art_entry \<Rightarrow> int" where
  "settled_normal e = of_bool (e_value e \<noteq> None \<and> \<not> e_large e)"

definition trim :: "'v art_config \<Rightarrow> 'v sched \<Rightarrow> 'v sched" where
  "trim c s =
     (case trim_loop c (map_sum settled_large (s_entries s)) (map_sum settled_normal (s_entries s))
             (s_byteTotal s) (s_entries s) of
        (kept, released, bytes) \<Rightarrow>
          emit_all (map Release released) (s\<lparr>s_entries := kept, s_byteTotal := bytes\<rparr>))"

section \<open>Screens\<close>

definition screenStats :: "'v sched \<Rightarrow> art_stats option" where
  "screenStats s =
     map_option (\<lambda>sc.
       \<lparr>st_label = scr_label sc, st_requested = scr_requested sc, st_cached = scr_cached sc,
        st_failed = scr_failed sc, st_pending = length (scr_pending sc),
        st_firstImageMs = map_option (\<lambda>t. t - scr_startedAt sc) (scr_firstImageAt sc),
        st_allVisibleMs = map_option (\<lambda>t. t - scr_startedAt sc) (scr_allVisibleAt sc)\<rparr>) (s_screen s)"

definition checkScreen :: "int \<Rightarrow> 'v sched \<Rightarrow> 'v sched" where
  "checkScreen now s =
     (case s_screen s of
        None \<Rightarrow> s
      | Some sc \<Rightarrow>
          if scr_allVisibleAt sc \<noteq> None \<or> scr_requested sc = 0 \<or> scr_pending sc \<noteq> [] then s
          else let s1 = upd_screen (\<lambda>sc. sc\<lparr>scr_allVisibleAt := Some now\<rparr>) s
               in emit (ScreenSettled (the (screenStats s1))) s1)"

definition first_image :: "int \<Rightarrow> art_screen \<Rightarrow> art_screen" where
  "first_image now sc =
     (if scr_firstImageAt sc = None then sc\<lparr>scr_firstImageAt := Some now\<rparr> else sc)"

section \<open>Public operations\<close>

definition peek :: "art_key \<Rightarrow> 'v sched \<Rightarrow> 'v option \<times> 'v sched" where
  "peek k s =
     (case map_get (s_entries s) k of
        None \<Rightarrow> (None, s)
      | Some e \<Rightarrow> (case e_value e of None \<Rightarrow> (None, s) | Some v \<Rightarrow> (Some v, touch k s)))"

definition subscribe :: "nat \<Rightarrow> 'v sched \<Rightarrow> 'v sched" where
  "subscribe l s = s\<lparr>s_listeners := set_add l (s_listeners s)\<rparr>"

definition unsubscribe :: "nat \<Rightarrow> 'v sched \<Rightarrow> 'v sched" where
  "unsubscribe l s = s\<lparr>s_listeners := set_del l (s_listeners s)\<rparr>"

text \<open>\<open>stats\<close>: entries, queued, active, the screen's timings, bytes, settled large images.\<close>

definition stats :: "'v sched \<Rightarrow> nat \<times> int \<times> int \<times> art_stats option \<times> int \<times> int" where
  "stats s = (length (s_entries s), s_queuedCount s, s_active s, screenStats s, s_byteTotal s,
              map_sum settled_large (s_entries s))"

definition beginScreen :: "int \<Rightarrow> string \<Rightarrow> 'v sched \<Rightarrow> 'v sched" where
  "beginScreen now label s =
     s\<lparr>s_screen := Some \<lparr>scr_label = label, scr_startedAt = now, scr_requested = 0, scr_cached = 0,
        scr_failed = 0, scr_pending = [], scr_firstImageAt = None, scr_allVisibleAt = None\<rparr>\<rparr>"

text \<open>What \<open>load\<close> answers: a settled promise, or one that waits under a waiter.\<close>

datatype 'v load_answer = Rejected js_error | Resolved 'v | Waiting nat

text \<open>A cached value: it counts as use and as a hit of the current screen.\<close>

definition load_cached :: "int \<Rightarrow> art_key \<Rightarrow> 'v sched \<Rightarrow> 'v sched" where
  "load_cached now k s =
     (let s1 = touch k s
      in case s_screen s1 of
           None \<Rightarrow> s1
         | Some sc \<Rightarrow>
             scheduleFlush (upd_screen (\<lambda>sc. first_image now
               (sc\<lparr>scr_requested := Suc (scr_requested sc), scr_cached := Suc (scr_cached sc)\<rparr>)) s1))"

text \<open>The entry is remembered as failed and nothing is under way for it.\<close>

definition failed_idle :: "'v art_entry \<Rightarrow> bool" where
  "failed_idle e \<longleftrightarrow> e_failedAt e \<noteq> None \<and> \<not> busy e"

definition entry_large :: "'v art_config \<Rightarrow> art_request \<Rightarrow> art_key \<Rightarrow> bool" where
  "entry_large c q k =
     (case q_large q of
        Some b \<Rightarrow> b
      | None \<Rightarrow> (case c_isLargeKey c of Some f \<Rightarrow> f k | None \<Rightarrow> False))"

text \<open>The entry a waiting \<open>load\<close> joins, created if need be, and the screen's count of it.\<close>

definition load_entry :: "'v art_config \<Rightarrow> art_request \<Rightarrow> art_key \<Rightarrow> 'v sched \<Rightarrow> 'v sched" where
  "load_entry c q k s =
     upd_screen (\<lambda>sc. if k \<in> set (scr_pending sc) then sc
                 else sc\<lparr>scr_requested := Suc (scr_requested sc), scr_pending := set_add k (scr_pending sc)\<rparr>)
       (if map_has (s_entries s) k then s
        else s\<lparr>s_entries := map_set k (new_entry (entry_large c q k)) (s_entries s)\<rparr>)"

text \<open>Joining the wait for a key: the waiter, the promotion, the place, and the queue.\<close>

definition load_wait :: "'v art_config \<Rightarrow> art_request \<Rightarrow> art_key \<Rightarrow> 'v sched \<Rightarrow> nat \<times> 'v sched" where
  "load_wait c q k s =
     (let s2 = load_entry c q k s;
          w = s_nextRef s2;
          s3 = upd_entry k (\<lambda>e. e\<lparr>e_waiters := set_add w (e_waiters e)\<rparr>) (s2\<lparr>s_nextRef := Suc w\<rparr>);
          e = the (map_get (s_entries s3) k);
          promote = (q_high q \<and> \<not> e_priority e);
          s4 = (if promote then upd_entry k (\<lambda>e. e\<lparr>e_priority := True\<rparr>) s3 else s3);
          (moved, s5) = place k (q_order q) (q_group q) s4
      in (w, if \<not> e_queued e \<and> e_inFlight e = None \<and> e_timer e = None then enqueue k s5
             else if e_queued e \<and> (moved \<or> promote) then scheduleFlush (pushNode k s5)
             else s5))"

definition load :: "'v art_config \<Rightarrow> int \<Rightarrow> art_request \<Rightarrow> art_key \<Rightarrow> 'v sched \<Rightarrow> 'v load_answer \<times> 'v sched" where
  "load c now q k s =
     (if s_disposed s then (Rejected (abortError ''Artwork scheduler disposed''), s)
      else if q_aborted q then (Rejected (abortError ''Aborted''), s)
      else
        case map_get (s_entries s) k of
          None \<Rightarrow> (case load_wait c q k s of (w, s') \<Rightarrow> (Waiting w, s'))
        | Some e \<Rightarrow>
            (case e_value e of
               Some v \<Rightarrow> (Resolved v, load_cached now k s)
             | None \<Rightarrow>
                 if failed_idle e
                 then (if now - the (e_failedAt e) < c_failedCooldownMs c
                       then (Rejected ArtworkUnavailableError, s)
                       else case load_wait c q k (del_entry k s) of (w, s') \<Rightarrow> (Waiting w, s'))
                 else (case load_wait c q k s of (w, s') \<Rightarrow> (Waiting w, s'))))"

definition reorder :: "art_key \<Rightarrow> js_num \<Rightarrow> string option \<Rightarrow> 'v sched \<Rightarrow> 'v sched" where
  "reorder k order grp s =
     (case map_get (s_entries s) k of
        None \<Rightarrow> s
      | Some e \<Rightarrow>
          if s_disposed s then s
          else case place k (Some order) grp s of
                 (moved, s1) \<Rightarrow> if moved \<and> e_queued e then scheduleFlush (pushNode k s1) else s1)"

section \<open>Callbacks\<close>

text \<open>The abort listener of a waiter: the entry is the one that still lists the waiter.\<close>

definition abort_waiter :: "nat \<Rightarrow> 'v sched \<Rightarrow> 'v sched" where
  "abort_waiter w s =
     (case find (\<lambda>(k, e). w \<in> set (e_waiters e)) (s_entries s) of
        None \<Rightarrow> s
      | Some (k, e) \<Rightarrow>
          abandonIfUnwanted k
            (emit (Reject w (abortError ''Aborted''))
              (upd_entry k (\<lambda>e. e\<lparr>e_waiters := set_del w (e_waiters e)\<rparr>) s)))"

text \<open>The microtask of \<open>scheduleFlush\<close>.\<close>

definition flush :: "'v art_config \<Rightarrow> int \<Rightarrow> 'v sched \<Rightarrow> 'v sched" where
  "flush c now s = checkScreen now (pump c (s\<lparr>s_flushScheduled := False\<rparr>))"

definition upd_attempt :: "nat \<Rightarrow> (art_attempt \<Rightarrow> art_attempt) \<Rightarrow> 'v sched \<Rightarrow> 'v sched" where
  "upd_attempt a f s = s\<lparr>s_attempts := map (\<lambda>x. if at_ref x = a then f x else x) (s_attempts s)\<rparr>"

text \<open>The timeout timer of an attempt.\<close>

definition on_timeout :: "nat \<Rightarrow> 'v sched \<Rightarrow> 'v sched" where
  "on_timeout a s = emit (AbortLoad a) (upd_attempt a (\<lambda>x. x\<lparr>at_timedOut := True\<rparr>) s)"

text \<open>The entry an attempt loads for.\<close>

definition entry_of_attempt :: "nat \<Rightarrow> 'v sched \<Rightarrow> (art_key \<times> 'v art_entry) option" where
  "entry_of_attempt a s = find (\<lambda>(k, e). e_inFlight e = Some a) (s_entries s)"

text \<open>The fulfilment handler of \<open>start\<close>.\<close>

definition settle_value :: "'v art_config \<Rightarrow> 'v \<Rightarrow> 'v art_entry \<Rightarrow> 'v art_entry" where
  "settle_value c v e =
     e\<lparr>e_value := Some v, e_failedAt := None,
       e_size := (if e_large e then 0 else max 0 (c_sizeOf c v)), e_waiters := []\<rparr>"

definition on_loaded :: "'v art_config \<Rightarrow> int \<Rightarrow> nat \<Rightarrow> 'v \<Rightarrow> 'v sched \<Rightarrow> 'v sched" where
  "on_loaded c now a v s0 =
     (let s = upd_attempt a (\<lambda>x. x\<lparr>at_settled := True\<rparr>) s0
      in if s_disposed s then emit (Release v) s
         else case entry_of_attempt a s of
           None \<Rightarrow> s
         | Some (k, e) \<Rightarrow>
             let s1 = finishAttempt k s;
                 s2 = upd_entry k (settle_value c v) s1;
                 s3 = emit_all (map (\<lambda>w. Resolve w v) (e_waiters e)) s2;
                 s4 = (if e_large e then s3
                       else s3\<lparr>s_byteTotal := s_byteTotal s3 + e_size (settle_value c v e)\<rparr>);
                 s5 = touch k s4;
                 (there, s6) = pending_delete k s5;
                 s7 = (if there then upd_screen (first_image now) s6 else s6)
             in notify (trim c s7))"

text \<open>The rejection handler of \<open>start\<close>: unwanted, retried after a wait, or failed.\<close>

definition retry_delay :: "'v art_config \<Rightarrow> nat \<Rightarrow> art_failure \<Rightarrow> int" where
  "retry_delay c attempts f =
     max (if attempts - 1 < length (c_backoffMs c) then c_backoffMs c ! (attempts - 1) else 0)
         (case retryAfterSeconds f of None \<Rightarrow> 0 | Some t \<Rightarrow> t * 1000)"

definition fail_unwanted :: "art_key \<Rightarrow> 'v sched \<Rightarrow> 'v sched" where
  "fail_unwanted k s =
     (case pending_delete k (del_entry k s) of
        (there, s1) \<Rightarrow> notify (if there then scheduleFlush s1 else s1))"

definition fail_retry :: "'v art_config \<Rightarrow> art_key \<Rightarrow> nat \<Rightarrow> art_failure \<Rightarrow> 'v sched \<Rightarrow> 'v sched" where
  "fail_retry c k attempts f s =
     (let t = s_nextRef s
      in emit (SetTimer t (retry_delay c attempts f))
           (upd_entry k (\<lambda>e. e\<lparr>e_timer := Some t\<rparr>) (s\<lparr>s_nextRef := Suc t\<rparr>)))"

definition fail_final :: "int \<Rightarrow> art_key \<Rightarrow> nat list \<Rightarrow> js_error \<Rightarrow> 'v sched \<Rightarrow> 'v sched" where
  "fail_final now k waiters err s =
     (let s1 = upd_entry k (\<lambda>e. e\<lparr>e_failedAt := Some now, e_waiters := []\<rparr>) s;
          s2 = emit_all (map (\<lambda>w. Reject w err) waiters) s1;
          (there, s3) = pending_delete k s2
      in notify (if there then upd_screen (\<lambda>sc. sc\<lparr>scr_failed := Suc (scr_failed sc)\<rparr>) s3 else s3))"

definition on_failed :: "'v art_config \<Rightarrow> int \<Rightarrow> nat \<Rightarrow> js_error \<Rightarrow> 'v sched \<Rightarrow> 'v sched" where
  "on_failed c now a err s0 =
     (let s = upd_attempt a (\<lambda>x. x\<lparr>at_settled := True\<rparr>) s0;
          timedOut = (\<exists>x \<in> set (s_attempts s0). at_ref x = a \<and> at_timedOut x)
      in if s_disposed s then s
         else case entry_of_attempt a s of
           None \<Rightarrow> s
         | Some (k, e) \<Rightarrow>
             let s1 = finishAttempt k s;
                 f = (if timedOut then \<lparr>retryable = True, retryAfterSeconds = None\<rparr> else c_classify c err)
             in if e_waiters e = [] then fail_unwanted k s1
                else if retryable f \<and> e_attempts e \<le> length (c_backoffMs c)
                     then fail_retry c k (e_attempts e) f s1
                     else fail_final now k (e_waiters e) err s1)"

text \<open>
  The \<open>finally\<close> of \<open>start\<close>. It runs in the microtask after the handler, before any timer, so
  the only entry that can still carry the attempt's controller is one the handler skipped.
\<close>

definition on_finally :: "nat \<Rightarrow> 'v sched \<Rightarrow> 'v sched" where
  "on_finally a s =
     (case find (\<lambda>x. at_ref x = a) (s_attempts s) of
        None \<Rightarrow> s
      | Some x \<Rightarrow>
          let s1 = emit (ClearTimer (at_timer x)) (s\<lparr>s_attempts := filter (\<lambda>y. at_ref y \<noteq> a) (s_attempts s)\<rparr>);
              s2 = (case entry_of_attempt a s1 of None \<Rightarrow> s1 | Some (k, e) \<Rightarrow> finishAttempt k s1)
          in scheduleFlush (s2\<lparr>s_active := s_active s2 - 1\<rparr>))"

text \<open>The retry timer of an entry.\<close>

definition on_retry :: "nat \<Rightarrow> 'v sched \<Rightarrow> 'v sched" where
  "on_retry t s =
     (case find (\<lambda>(k, e). e_timer e = Some t) (s_entries s) of
        None \<Rightarrow> s
      | Some (k, e) \<Rightarrow>
          let s1 = upd_entry k (\<lambda>e. e\<lparr>e_timer := None\<rparr>) s
          in if s_disposed s1 then s1
             else if e_waiters e = []
                  then (case pending_delete k (del_entry k s1) of
                          (there, s2) \<Rightarrow> if there then scheduleFlush s2 else s2)
                  else enqueue k s1)"

section \<open>Disposal\<close>

definition dispose_entry :: "'v art_entry \<Rightarrow> 'v art_effect list" where
  "dispose_entry e =
     (case e_timer e of None \<Rightarrow> [] | Some t \<Rightarrow> [ClearTimer t])
     @ (case e_inFlight e of None \<Rightarrow> [] | Some a \<Rightarrow> [AbortLoad a])
     @ (case e_value e of None \<Rightarrow> [] | Some v \<Rightarrow> [Release v])"

definition dispose :: "'v sched \<Rightarrow> 'v sched" where
  "dispose s =
     (if s_disposed s then s
      else emit_all (concat (map dispose_entry (map_values (s_entries s))))
             (s\<lparr>s_disposed := True, s_high := heap_clear (s_high s), s_normal := heap_clear (s_normal s),
                s_groups := [], s_queuedCount := 0, s_byteTotal := 0, s_entries := [], s_listeners := [],
                s_teardown := concat (map e_waiters (map_values (s_entries s)))\<rparr>))"

text \<open>The microtask that rejects what a disposal left waiting.\<close>

definition run_teardown :: "'v sched \<Rightarrow> 'v sched" where
  "run_teardown s =
     emit_all (map (\<lambda>w. Reject w (abortError ''Artwork scheduler disposed'')) (s_teardown s))
       (s\<lparr>s_teardown := []\<rparr>)"

section \<open>Runs\<close>

text \<open>
  Everything that can happen to a scheduler between two turns of the event loop: a call of a
  public method, or a callback that is due. A timer or a promise fires at most once and only
  while it is outstanding.
\<close>

inductive art_step :: "'v art_config \<Rightarrow> 'v sched \<Rightarrow> 'v sched \<Rightarrow> bool" for c where
  step_load: "load c now q k s = (answer, s') \<Longrightarrow> art_step c s s'"
| step_peek: "peek k s = (answer, s') \<Longrightarrow> art_step c s s'"
| step_reorder: "art_step c s (reorder k order grp s)"
| step_beginScreen: "art_step c s (beginScreen now label s)"
| step_subscribe: "art_step c s (subscribe l s)"
| step_unsubscribe: "art_step c s (unsubscribe l s)"
| step_abort: "art_step c s (abort_waiter w s)"
| step_flush: "s_flushScheduled s \<Longrightarrow> art_step c s (flush c now s)"
| step_timeout: "x \<in> set (s_attempts s) \<Longrightarrow> art_step c s (on_timeout (at_ref x) s)"
| step_loaded: "x \<in> set (s_attempts s) \<Longrightarrow> \<not> at_settled x \<Longrightarrow> art_step c s (on_loaded c now (at_ref x) v s)"
| step_failed: "x \<in> set (s_attempts s) \<Longrightarrow> \<not> at_settled x \<Longrightarrow> art_step c s (on_failed c now (at_ref x) err s)"
| step_finally: "x \<in> set (s_attempts s) \<Longrightarrow> at_settled x \<Longrightarrow> art_step c s (on_finally (at_ref x) s)"
| step_retry: "art_step c s (on_retry t s)"
| step_dispose: "art_step c s (dispose s)"
| step_teardown: "art_step c s (run_teardown s)"

inductive art_reachable :: "'v art_config \<Rightarrow> 'v sched \<Rightarrow> bool" for c where
  art_init: "art_reachable c new_scheduler"
| art_next: "art_reachable c s \<Longrightarrow> art_step c s s' \<Longrightarrow> art_reachable c s'"

end
