(* ===== verification/Artwork_Frame.thy ===== *)
theory Artwork_Frame
  imports Artwork_Scheduler
begin

text \<open>
  What each operation of the artwork scheduler writes: the fields it leaves alone, and the
  entries it produces as one update of the map. The invariant proofs rest on these equations.
\<close>

named_theorems art_frame \<open>fields an operation leaves unchanged, and the entries it produces\<close>

lemma emit_frame [art_frame]:
  "s_entries (emit f s) = s_entries s" "s_high (emit f s) = s_high s" "s_normal (emit f s) = s_normal s"
  "s_groups (emit f s) = s_groups s" "s_queuedCount (emit f s) = s_queuedCount s"
  "s_active (emit f s) = s_active s" "s_nextToken (emit f s) = s_nextToken s"
  "s_nextSeq (emit f s) = s_nextSeq s" "s_flushScheduled (emit f s) = s_flushScheduled s"
  "s_disposed (emit f s) = s_disposed s" "s_byteTotal (emit f s) = s_byteTotal s"
  "s_attempts (emit f s) = s_attempts s" "s_nextRef (emit f s) = s_nextRef s"
  by (simp_all add: emit_def)

lemma emit_all_frame [art_frame]:
  "s_entries (emit_all f s) = s_entries s" "s_high (emit_all f s) = s_high s" "s_normal (emit_all f s) = s_normal s"
  "s_groups (emit_all f s) = s_groups s" "s_queuedCount (emit_all f s) = s_queuedCount s"
  "s_active (emit_all f s) = s_active s" "s_nextToken (emit_all f s) = s_nextToken s"
  "s_nextSeq (emit_all f s) = s_nextSeq s" "s_flushScheduled (emit_all f s) = s_flushScheduled s"
  "s_disposed (emit_all f s) = s_disposed s" "s_byteTotal (emit_all f s) = s_byteTotal s"
  "s_attempts (emit_all f s) = s_attempts s" "s_nextRef (emit_all f s) = s_nextRef s"
  by (simp_all add: emit_all_def)

lemma notify_frame [art_frame]:
  "s_entries (notify s) = s_entries s" "s_high (notify s) = s_high s" "s_normal (notify s) = s_normal s"
  "s_groups (notify s) = s_groups s" "s_queuedCount (notify s) = s_queuedCount s"
  "s_active (notify s) = s_active s" "s_nextToken (notify s) = s_nextToken s"
  "s_nextSeq (notify s) = s_nextSeq s" "s_flushScheduled (notify s) = s_flushScheduled s"
  "s_disposed (notify s) = s_disposed s" "s_byteTotal (notify s) = s_byteTotal s"
  "s_attempts (notify s) = s_attempts s" "s_nextRef (notify s) = s_nextRef s"
  by (simp_all add: notify_def emit_all_frame)

lemma upd_entry_frame [art_frame]:
  "s_entries (upd_entry k f s) = AList.map_entry k f (s_entries s)" "s_high (upd_entry k f s) = s_high s"
  "s_normal (upd_entry k f s) = s_normal s"
  "s_groups (upd_entry k f s) = s_groups s" "s_queuedCount (upd_entry k f s) = s_queuedCount s"
  "s_active (upd_entry k f s) = s_active s" "s_nextToken (upd_entry k f s) = s_nextToken s"
  "s_nextSeq (upd_entry k f s) = s_nextSeq s" "s_flushScheduled (upd_entry k f s) = s_flushScheduled s"
  "s_disposed (upd_entry k f s) = s_disposed s" "s_byteTotal (upd_entry k f s) = s_byteTotal s"
  "s_attempts (upd_entry k f s) = s_attempts s" "s_nextRef (upd_entry k f s) = s_nextRef s"
  by (simp_all add: upd_entry_def)

lemma del_entry_frame [art_frame]:
  "s_entries (del_entry k s) = map_del k (s_entries s)" "s_high (del_entry k s) = s_high s"
  "s_normal (del_entry k s) = s_normal s"
  "s_groups (del_entry k s) = s_groups s" "s_queuedCount (del_entry k s) = s_queuedCount s"
  "s_active (del_entry k s) = s_active s" "s_nextToken (del_entry k s) = s_nextToken s"
  "s_nextSeq (del_entry k s) = s_nextSeq s" "s_flushScheduled (del_entry k s) = s_flushScheduled s"
  "s_disposed (del_entry k s) = s_disposed s" "s_byteTotal (del_entry k s) = s_byteTotal s"
  "s_attempts (del_entry k s) = s_attempts s" "s_nextRef (del_entry k s) = s_nextRef s"
  by (simp_all add: del_entry_def)

lemma touch_frame [art_frame]:
  "s_entries (touch k s) = map_touch k (s_entries s)" "s_high (touch k s) = s_high s"
  "s_normal (touch k s) = s_normal s"
  "s_groups (touch k s) = s_groups s" "s_queuedCount (touch k s) = s_queuedCount s"
  "s_active (touch k s) = s_active s" "s_nextToken (touch k s) = s_nextToken s"
  "s_nextSeq (touch k s) = s_nextSeq s" "s_flushScheduled (touch k s) = s_flushScheduled s"
  "s_disposed (touch k s) = s_disposed s" "s_byteTotal (touch k s) = s_byteTotal s"
  "s_attempts (touch k s) = s_attempts s" "s_nextRef (touch k s) = s_nextRef s"
  by (simp_all add: touch_def)

lemma upd_group_frame [art_frame]:
  "s_entries (upd_group g f s) = s_entries s" "s_high (upd_group g f s) = s_high s"
  "s_normal (upd_group g f s) = s_normal s"
  "s_groups (upd_group g f s) = AList.map_entry g f (s_groups s)" "s_queuedCount (upd_group g f s) = s_queuedCount s"
  "s_active (upd_group g f s) = s_active s" "s_nextToken (upd_group g f s) = s_nextToken s"
  "s_nextSeq (upd_group g f s) = s_nextSeq s" "s_flushScheduled (upd_group g f s) = s_flushScheduled s"
  "s_disposed (upd_group g f s) = s_disposed s" "s_byteTotal (upd_group g f s) = s_byteTotal s"
  "s_attempts (upd_group g f s) = s_attempts s" "s_nextRef (upd_group g f s) = s_nextRef s"
  by (simp_all add: upd_group_def)

lemma groupFor_frame [art_frame]:
  "s_entries (groupFor g s) = s_entries s" "s_high (groupFor g s) = s_high s"
  "s_normal (groupFor g s) = s_normal s" "s_queuedCount (groupFor g s) = s_queuedCount s"
  "s_active (groupFor g s) = s_active s" "s_nextToken (groupFor g s) = s_nextToken s"
  "s_nextSeq (groupFor g s) = s_nextSeq s" "s_flushScheduled (groupFor g s) = s_flushScheduled s"
  "s_disposed (groupFor g s) = s_disposed s" "s_byteTotal (groupFor g s) = s_byteTotal s"
  "s_attempts (groupFor g s) = s_attempts s" "s_nextRef (groupFor g s) = s_nextRef s"
  by (simp_all add: groupFor_def)

lemma dropGroupIfIdle_frame [art_frame]:
  "s_entries (dropGroupIfIdle g s) = s_entries s" "s_high (dropGroupIfIdle g s) = s_high s"
  "s_normal (dropGroupIfIdle g s) = s_normal s" "s_queuedCount (dropGroupIfIdle g s) = s_queuedCount s"
  "s_active (dropGroupIfIdle g s) = s_active s" "s_nextToken (dropGroupIfIdle g s) = s_nextToken s"
  "s_nextSeq (dropGroupIfIdle g s) = s_nextSeq s" "s_flushScheduled (dropGroupIfIdle g s) = s_flushScheduled s"
  "s_disposed (dropGroupIfIdle g s) = s_disposed s" "s_byteTotal (dropGroupIfIdle g s) = s_byteTotal s"
  "s_attempts (dropGroupIfIdle g s) = s_attempts s" "s_nextRef (dropGroupIfIdle g s) = s_nextRef s"
  by (simp_all add: dropGroupIfIdle_def split: option.split)

lemma scheduleFlush_frame [art_frame]:
  "s_entries (scheduleFlush s) = s_entries s" "s_high (scheduleFlush s) = s_high s"
  "s_normal (scheduleFlush s) = s_normal s" "s_groups (scheduleFlush s) = s_groups s"
  "s_queuedCount (scheduleFlush s) = s_queuedCount s"
  "s_active (scheduleFlush s) = s_active s" "s_nextToken (scheduleFlush s) = s_nextToken s"
  "s_nextSeq (scheduleFlush s) = s_nextSeq s"
  "s_flushScheduled (scheduleFlush s) \<longleftrightarrow> s_flushScheduled s \<or> \<not> s_disposed s"
  "s_disposed (scheduleFlush s) = s_disposed s" "s_byteTotal (scheduleFlush s) = s_byteTotal s"
  "s_attempts (scheduleFlush s) = s_attempts s" "s_nextRef (scheduleFlush s) = s_nextRef s"
  by (simp_all add: scheduleFlush_def)

lemma upd_screen_frame [art_frame]:
  "s_entries (upd_screen f s) = s_entries s" "s_high (upd_screen f s) = s_high s"
  "s_normal (upd_screen f s) = s_normal s" "s_groups (upd_screen f s) = s_groups s"
  "s_queuedCount (upd_screen f s) = s_queuedCount s"
  "s_active (upd_screen f s) = s_active s" "s_nextToken (upd_screen f s) = s_nextToken s"
  "s_nextSeq (upd_screen f s) = s_nextSeq s" "s_flushScheduled (upd_screen f s) = s_flushScheduled s"
  "s_disposed (upd_screen f s) = s_disposed s" "s_byteTotal (upd_screen f s) = s_byteTotal s"
  "s_attempts (upd_screen f s) = s_attempts s" "s_nextRef (upd_screen f s) = s_nextRef s"
  by (simp_all add: upd_screen_def)

lemma pending_delete_frame:
  assumes "pending_delete k s = (b, s')"
  shows "s_entries s' = s_entries s" "s_high s' = s_high s" "s_normal s' = s_normal s"
    "s_groups s' = s_groups s" "s_queuedCount s' = s_queuedCount s" "s_active s' = s_active s"
    "s_nextToken s' = s_nextToken s" "s_nextSeq s' = s_nextSeq s"
    "s_flushScheduled s' = s_flushScheduled s" "s_disposed s' = s_disposed s"
    "s_byteTotal s' = s_byteTotal s" "s_attempts s' = s_attempts s" "s_nextRef s' = s_nextRef s"
  using assms by (auto simp: pending_delete_def split: option.splits)

lemma upd_attempt_frame [art_frame]:
  "s_entries (upd_attempt a f s) = s_entries s" "s_high (upd_attempt a f s) = s_high s"
  "s_normal (upd_attempt a f s) = s_normal s" "s_groups (upd_attempt a f s) = s_groups s"
  "s_queuedCount (upd_attempt a f s) = s_queuedCount s"
  "s_active (upd_attempt a f s) = s_active s" "s_nextToken (upd_attempt a f s) = s_nextToken s"
  "s_nextSeq (upd_attempt a f s) = s_nextSeq s" "s_flushScheduled (upd_attempt a f s) = s_flushScheduled s"
  "s_disposed (upd_attempt a f s) = s_disposed s" "s_byteTotal (upd_attempt a f s) = s_byteTotal s"
  "s_nextRef (upd_attempt a f s) = s_nextRef s"
  by (simp_all add: upd_attempt_def)

lemma compact_frame [art_frame]:
  "s_entries (compact s) = s_entries s" "s_groups (compact s) = s_groups s"
  "s_queuedCount (compact s) = s_queuedCount s"
  "s_active (compact s) = s_active s" "s_nextToken (compact s) = s_nextToken s"
  "s_nextSeq (compact s) = s_nextSeq s" "s_flushScheduled (compact s) = s_flushScheduled s"
  "s_disposed (compact s) = s_disposed s" "s_byteTotal (compact s) = s_byteTotal s"
  "s_attempts (compact s) = s_attempts s" "s_nextRef (compact s) = s_nextRef s"
  by (simp_all add: compact_def)

lemma pushNode_frame [art_frame]:
  "s_groups (pushNode k s) = s_groups s" "s_queuedCount (pushNode k s) = s_queuedCount s"
  "s_active (pushNode k s) = s_active s"
  "s_nextSeq (pushNode k s) = s_nextSeq s" "s_flushScheduled (pushNode k s) = s_flushScheduled s"
  "s_disposed (pushNode k s) = s_disposed s" "s_byteTotal (pushNode k s) = s_byteTotal s"
  "s_attempts (pushNode k s) = s_attempts s" "s_nextRef (pushNode k s) = s_nextRef s"
  by (simp_all add: pushNode_def Let_def compact_frame upd_entry_frame split: option.split)

lemma pop_lane_frame [art_frame]:
  "s_entries (pop_lane h s) = s_entries s" "s_groups (pop_lane h s) = s_groups s"
  "s_queuedCount (pop_lane h s) = s_queuedCount s"
  "s_active (pop_lane h s) = s_active s" "s_nextToken (pop_lane h s) = s_nextToken s"
  "s_nextSeq (pop_lane h s) = s_nextSeq s" "s_flushScheduled (pop_lane h s) = s_flushScheduled s"
  "s_disposed (pop_lane h s) = s_disposed s" "s_byteTotal (pop_lane h s) = s_byteTotal s"
  "s_attempts (pop_lane h s) = s_attempts s" "s_nextRef (pop_lane h s) = s_nextRef s"
  by (simp_all add: pop_lane_def set_lane_def)

lemma headOf_frame [art_frame]:
  "s_entries (snd (headOf h s)) = s_entries s" "s_groups (snd (headOf h s)) = s_groups s"
  "s_queuedCount (snd (headOf h s)) = s_queuedCount s"
  "s_active (snd (headOf h s)) = s_active s" "s_nextToken (snd (headOf h s)) = s_nextToken s"
  "s_nextSeq (snd (headOf h s)) = s_nextSeq s" "s_flushScheduled (snd (headOf h s)) = s_flushScheduled s"
  "s_disposed (snd (headOf h s)) = s_disposed s" "s_byteTotal (snd (headOf h s)) = s_byteTotal s"
  "s_attempts (snd (headOf h s)) = s_attempts s" "s_nextRef (snd (headOf h s)) = s_nextRef s"
  by (induction h s rule: headOf.induct; subst headOf.simps; simp add: pop_lane_frame split: option.split)+

text \<open>One turn of the pump picks a queued key of a lane that has a free slot.\<close>

lemma pump_pick_frame:
  assumes "pump_pick c s = (r, s')"
  shows "s_entries s' = s_entries s" "s_groups s' = s_groups s" "s_queuedCount s' = s_queuedCount s"
    "s_active s' = s_active s" "s_nextToken s' = s_nextToken s" "s_nextSeq s' = s_nextSeq s"
    "s_flushScheduled s' = s_flushScheduled s" "s_disposed s' = s_disposed s"
    "s_byteTotal s' = s_byteTotal s" "s_attempts s' = s_attempts s" "s_nextRef s' = s_nextRef s"
proof -
  obtain h s1 m s2 where hm: "headOf True s = (h, s1)" "headOf False s1 = (m, s2)" by fastforce
  then have s1: "s1 = snd (headOf True s)" and s2: "s2 = snd (headOf False s1)" by simp_all
  have "s' = pop_lane True s1 \<or> s' = pop_lane False s2 \<or> s' = s2"
    using assms hm by (auto simp: pump_pick_def split: if_splits)
  then show "s_entries s' = s_entries s" "s_groups s' = s_groups s" "s_queuedCount s' = s_queuedCount s"
    "s_active s' = s_active s" "s_nextToken s' = s_nextToken s" "s_nextSeq s' = s_nextSeq s"
    "s_flushScheduled s' = s_flushScheduled s" "s_disposed s' = s_disposed s"
    "s_byteTotal s' = s_byteTotal s" "s_attempts s' = s_attempts s" "s_nextRef s' = s_nextRef s"
    by (auto simp: s1 s2 pop_lane_frame headOf_frame)
qed

lemma pump_pick_queued:
  assumes "pump_pick c s = (Some k, s')"
  obtains e where "map_of (s_entries s) k = Some e" "e_queued e"
    "s_active s < c_concurrency c + (if e_priority e then c_priorityExtra c else 0)"
proof -
  obtain h s1 m s2 where hm: "headOf True s = (h, s1)" "headOf False s1 = (m, s2)" by fastforce
  have e: "s_entries s1 = s_entries s" "s_entries s2 = s_entries s" "s_active s1 = s_active s" "s_active s2 = s_active s"
    using headOf_frame [of True s] headOf_frame [of False s1] hm by simp_all
  from assms hm consider n where "h = Some n" "k = n_key n" "s_active s1 < c_concurrency c + c_priorityExtra c"
    | n where "m = Some n" "k = n_key n" "s_active s2 < c_concurrency c"
    by (auto simp: pump_pick_def split: if_splits)
  then show thesis
  proof cases
    case 1
    then show ?thesis using headOf_usable [of True s n s1] hm e that
      by (auto simp: usable_node_def split: option.splits)
  next
    case 2
    then show ?thesis using headOf_usable [of False s1 n s2] hm e that
      by (auto simp: usable_node_def split: option.splits)
  qed
qed

section \<open>Composite operations as one update of the entries\<close>

definition enqueued :: "'v sched \<Rightarrow> 'v art_entry \<Rightarrow> 'v art_entry" where
  "enqueued s e = e\<lparr>e_queued := True, e_seq := (if e_seq e = 0 then Suc (s_nextSeq s) else e_seq e),
                    e_token := Suc (s_nextToken s)\<rparr>"

definition place_entry :: "js_num option \<Rightarrow> string option \<Rightarrow> 'v art_entry \<Rightarrow> 'v art_entry" where
  "place_entry order grp e =
     e\<lparr>e_order := (case order of Some (Fin x) \<Rightarrow> x | _ \<Rightarrow> e_order e),
       e_group := (case grp of Some g \<Rightarrow> Some g | None \<Rightarrow> e_group e)\<rparr>"

lemma enqueue_frame [art_frame]:
  "s_entries (enqueue k s) = AList.map_entry k (enqueued s) (s_entries s)"
  "s_queuedCount (enqueue k s) = s_queuedCount s + (if map_has (s_entries s) k then 1 else 0)"
  "s_active (enqueue k s) = s_active s" "s_disposed (enqueue k s) = s_disposed s"
  "s_byteTotal (enqueue k s) = s_byteTotal s" "s_attempts (enqueue k s) = s_attempts s"
  "s_nextRef (enqueue k s) = s_nextRef s"
  "map_has (s_entries s) k \<Longrightarrow> \<not> s_disposed s \<Longrightarrow> s_flushScheduled (enqueue k s)"
  "s_flushScheduled s \<Longrightarrow> s_flushScheduled (enqueue k s)"
  by (auto simp: enqueue_def Let_def scheduleFlush_frame pushNode_frame upd_entry_frame upd_group_frame
      groupFor_frame pushNode_entries enqueued_def map_of_map_entry pushNode_def compact_frame
      intro!: map_entry_cong split: option.split)

lemma dequeue_frame [art_frame]:
  "s_entries (dequeue k s) = AList.map_entry k (\<lambda>e. e\<lparr>e_queued := False, e_token := 0\<rparr>) (s_entries s)"
  "s_queuedCount (dequeue k s) = s_queuedCount s - (if map_has (s_entries s) k then 1 else 0)"
  "s_high (dequeue k s) = s_high s" "s_normal (dequeue k s) = s_normal s"
  "s_nextToken (dequeue k s) = s_nextToken s"
  "s_active (dequeue k s) = s_active s" "s_disposed (dequeue k s) = s_disposed s"
  "s_byteTotal (dequeue k s) = s_byteTotal s" "s_attempts (dequeue k s) = s_attempts s"
  "s_nextRef (dequeue k s) = s_nextRef s" "s_flushScheduled (dequeue k s) = s_flushScheduled s"
  by (auto simp: dequeue_def Let_def upd_entry_frame upd_group_frame dropGroupIfIdle_frame split: option.split)

lemma place_order_frame:
  assumes "place_order k order s = (b, s')"
  shows "s_entries s' = AList.map_entry k (place_entry order None) (s_entries s)"
    "s_queuedCount s' = s_queuedCount s" "s_high s' = s_high s" "s_normal s' = s_normal s"
    "s_nextToken s' = s_nextToken s" "s_nextSeq s' = s_nextSeq s" "s_groups s' = s_groups s"
    "s_active s' = s_active s" "s_disposed s' = s_disposed s"
    "s_byteTotal s' = s_byteTotal s" "s_attempts s' = s_attempts s"
    "s_nextRef s' = s_nextRef s" "s_flushScheduled s' = s_flushScheduled s"
  using assms
  by (auto simp: place_order_def upd_entry_frame place_entry_def
      intro!: map_entry_cong map_entry_same [symmetric] split: option.splits js_num.splits if_splits)

lemma leave_join_frame:
  "s_entries (leave_group k e s) = s_entries s" "s_entries (join_group k e g s) = s_entries s"
  "s_queuedCount (leave_group k e s) = s_queuedCount s" "s_queuedCount (join_group k e g s) = s_queuedCount s"
  "s_high (leave_group k e s) = s_high s" "s_high (join_group k e g s) = s_high s"
  "s_normal (leave_group k e s) = s_normal s" "s_normal (join_group k e g s) = s_normal s"
  "s_nextToken (leave_group k e s) = s_nextToken s" "s_nextToken (join_group k e g s) = s_nextToken s"
  "s_nextSeq (leave_group k e s) = s_nextSeq s" "s_nextSeq (join_group k e g s) = s_nextSeq s"
  "s_active (leave_group k e s) = s_active s" "s_active (join_group k e g s) = s_active s"
  "s_disposed (leave_group k e s) = s_disposed s" "s_disposed (join_group k e g s) = s_disposed s"
  "s_byteTotal (leave_group k e s) = s_byteTotal s" "s_byteTotal (join_group k e g s) = s_byteTotal s"
  "s_attempts (leave_group k e s) = s_attempts s" "s_attempts (join_group k e g s) = s_attempts s"
  "s_nextRef (leave_group k e s) = s_nextRef s" "s_nextRef (join_group k e g s) = s_nextRef s"
  "s_flushScheduled (leave_group k e s) = s_flushScheduled s" "s_flushScheduled (join_group k e g s) = s_flushScheduled s"
  by (simp_all add: leave_group_def join_group_def upd_group_frame groupFor_frame dropGroupIfIdle_frame
      split: option.split)

lemma place_group_frame:
  assumes "place_group k grp s = (b, s')"
  shows "s_entries s' = AList.map_entry k (place_entry None grp) (s_entries s)"
    "s_queuedCount s' = s_queuedCount s" "s_high s' = s_high s" "s_normal s' = s_normal s"
    "s_nextToken s' = s_nextToken s" "s_nextSeq s' = s_nextSeq s"
    "s_active s' = s_active s" "s_disposed s' = s_disposed s"
    "s_byteTotal s' = s_byteTotal s" "s_attempts s' = s_attempts s"
    "s_nextRef s' = s_nextRef s" "s_flushScheduled s' = s_flushScheduled s"
  using assms
  by (auto simp: place_group_def upd_entry_frame leave_join_frame place_entry_def
      intro!: map_entry_cong map_entry_same [symmetric] split: option.splits if_splits)

lemma place_frame:
  assumes "place k order grp s = (b, s')"
  shows "s_entries s' = AList.map_entry k (place_entry order grp) (s_entries s)"
    "s_queuedCount s' = s_queuedCount s" "s_high s' = s_high s" "s_normal s' = s_normal s"
    "s_nextToken s' = s_nextToken s" "s_nextSeq s' = s_nextSeq s"
    "s_active s' = s_active s" "s_disposed s' = s_disposed s"
    "s_byteTotal s' = s_byteTotal s" "s_attempts s' = s_attempts s"
    "s_nextRef s' = s_nextRef s" "s_flushScheduled s' = s_flushScheduled s"
proof -
  obtain c1 s1 c2 where p: "place_order k order s = (c1, s1)" "place_group k grp s1 = (c2, s')"
    using assms by (auto simp: place_def split: prod.splits)
  note f = place_order_frame [OF p(1)] place_group_frame [OF p(2)]
  show "s_entries s' = AList.map_entry k (place_entry order grp) (s_entries s)"
    by (auto simp: f place_entry_def intro!: map_entry_cong split: option.split js_num.split)
  show "s_queuedCount s' = s_queuedCount s" "s_high s' = s_high s" "s_normal s' = s_normal s"
    "s_nextToken s' = s_nextToken s" "s_nextSeq s' = s_nextSeq s"
    "s_active s' = s_active s" "s_disposed s' = s_disposed s"
    "s_byteTotal s' = s_byteTotal s" "s_attempts s' = s_attempts s"
    "s_nextRef s' = s_nextRef s" "s_flushScheduled s' = s_flushScheduled s"
    by (simp_all add: f)
qed

text \<open>\<open>place\<close> reports a change exactly when the entry it wrote differs.\<close>

lemma place_changed:
  assumes "place k order grp s = (b, s')" "map_of (s_entries s) k = Some e"
  shows "b \<longleftrightarrow> place_entry order grp e \<noteq> e"
proof -
  obtain c1 s1 c2 where p: "place_order k order s = (c1, s1)" "place_group k grp s1 = (c2, s')" "b \<longleftrightarrow> c1 \<or> c2"
    using assms(1) by (auto simp: place_def split: prod.splits)
  have "map_of (s_entries s1) k = Some (place_entry order None e)"
    using assms(2) by (simp add: place_order_frame [OF p(1)] map_of_map_entry)
  moreover have "c1 \<longleftrightarrow> e_order (place_entry order grp e) \<noteq> e_order e"
    using p(1) assms(2)
    by (auto simp: place_order_def place_entry_def split: option.splits js_num.splits if_splits)
  ultimately have "c2 \<longleftrightarrow> e_group (place_entry order grp e) \<noteq> e_group e"
    using p(2) by (auto simp: place_group_def place_entry_def split: option.splits if_splits)
  moreover have "place_entry order grp e = e \<longleftrightarrow>
      e_order (place_entry order grp e) = e_order e \<and> e_group (place_entry order grp e) = e_group e"
    by (cases e) (auto simp: place_entry_def)
  ultimately show ?thesis
    using p(3) \<open>c1 \<longleftrightarrow> _\<close> by auto
qed

section \<open>Starting work, up to tokens\<close>

text \<open>Restarting a group gives its waiting entries new tokens and changes nothing else of them.\<close>

definition untoken :: "(art_key, 'v art_entry) js_map \<Rightarrow> (art_key, 'v art_entry) js_map" where
  "untoken m = map (\<lambda>(k, e). (k, e\<lparr>e_token := 0\<rparr>)) m"

lemma untoken_map_entry_token [simp]:
  "untoken (AList.map_entry k (\<lambda>e. e\<lparr>e_token := t\<rparr>) m) = untoken m"
  by (induction m) (auto simp: untoken_def)

lemma untoken_keys: "untoken m = untoken m' \<Longrightarrow> map_keys m = map_keys m'"
proof -
  have "map_keys (untoken m) = map_keys m" for m :: "(art_key, 'a art_entry) js_map"
    by (induction m) (auto simp: untoken_def)
  then show "untoken m = untoken m' \<Longrightarrow> map_keys m = map_keys m'" by metis
qed

lemma map_of_untoken: "map_of (untoken m) k = map_option (\<lambda>e. e\<lparr>e_token := 0\<rparr>) (map_of m k)"
  by (induction m) (auto simp: untoken_def)

lemma map_sum_untoken:
  assumes "\<And>e t. w (e\<lparr>e_token := t\<rparr>) = w e" "untoken m = untoken m'"
  shows "map_sum w m = map_sum w m'"
proof -
  have "map_sum w (untoken m) = map_sum w m" for m
    by (induction m) (auto simp: untoken_def map_sum_def assms(1))
  then show ?thesis using assms(2) by metis
qed

lemma untoken_lookup:
  assumes "untoken m = untoken m'" "map_of m k = Some e"
  obtains e' where "map_of m' k = Some e'" "e' = e\<lparr>e_token := e_token e'\<rparr>"
proof -
  have "map_option (\<lambda>e. e\<lparr>e_token := 0\<rparr>) (map_of m' k) = Some (e\<lparr>e_token := 0\<rparr>)"
    using assms by (metis map_of_untoken option.simps(9))
  then obtain e' where e': "map_of m' k = Some e'" "e'\<lparr>e_token := 0\<rparr> = e\<lparr>e_token := 0\<rparr>" by auto
  then have "e' = e\<lparr>e_token := e_token e'\<rparr>"
    by (cases e; cases e') (auto simp: art_entry.defs)
  then show thesis using that e' by blast
qed

lemma promote_group_frame [art_frame]:
  "untoken (s_entries (promote_group ms s)) = untoken (s_entries s)"
  "s_groups (promote_group ms s) = s_groups s" "s_queuedCount (promote_group ms s) = s_queuedCount s"
  "s_active (promote_group ms s) = s_active s" "s_nextSeq (promote_group ms s) = s_nextSeq s"
  "s_flushScheduled (promote_group ms s) = s_flushScheduled s" "s_disposed (promote_group ms s) = s_disposed s"
  "s_byteTotal (promote_group ms s) = s_byteTotal s" "s_attempts (promote_group ms s) = s_attempts s"
  "s_nextRef (promote_group ms s) = s_nextRef s"
  unfolding promote_group_def
  by (induction ms arbitrary: s) (simp_all add: pushNode_frame pushNode_entries split: option.split)

lemma start_group_frame [art_frame]:
  "untoken (s_entries (start_group g s)) = untoken (s_entries s)"
  "s_queuedCount (start_group g s) = s_queuedCount s"
  "s_active (start_group g s) = s_active s" "s_nextSeq (start_group g s) = s_nextSeq s"
  "s_flushScheduled (start_group g s) = s_flushScheduled s" "s_disposed (start_group g s) = s_disposed s"
  "s_byteTotal (start_group g s) = s_byteTotal s" "s_attempts (start_group g s) = s_attempts s"
  "s_nextRef (start_group g s) = s_nextRef s"
  by (simp_all add: start_group_def Let_def promote_group_frame upd_group_frame groupFor_frame split: option.split)

end
