(* ===== verification/Artwork_Invariant.thy ===== *)
theory Artwork_Invariant
  imports Artwork_Frame
begin

text \<open>
  The invariants of the artwork scheduler and their preservation by every step: the phases of
  an entry with the counters kept beside the map, the outstanding attempts with the slot limit,
  and the heap nodes with the promise that queued work is started.
\<close>

section \<open>Entries and counters\<close>

text \<open>
  An entry is settled, queued, in flight, waiting for a retry, or idle, and never two of these
  at once; while somebody waits for it, work is under way.
\<close>

definition entry_ok :: "'v art_entry \<Rightarrow> bool" where
  "entry_ok e \<longleftrightarrow>
     (e_value e \<noteq> None \<longrightarrow> \<not> busy e)
     \<and> (e_queued e \<longrightarrow> e_inFlight e = None \<and> e_timer e = None)
     \<and> (e_inFlight e \<noteq> None \<longrightarrow> e_timer e = None)
     \<and> (e_waiters e \<noteq> [] \<longrightarrow> e_queued e \<or> e_inFlight e \<noteq> None \<or> e_timer e \<noteq> None)
     \<and> 0 \<le> e_size e"

definition queued_weight :: "'v art_entry \<Rightarrow> int" where
  "queued_weight e = of_bool (e_queued e)"

definition byte_weight :: "'v art_entry \<Rightarrow> int" where
  "byte_weight e = (if e_value e \<noteq> None \<and> \<not> e_large e then e_size e else 0)"

definition entries_ok :: "(art_key, 'v art_entry) js_map \<Rightarrow> int \<Rightarrow> int \<Rightarrow> bool" where
  "entries_ok m queued bytes \<longleftrightarrow>
     map_wf m \<and> (\<forall>k e. map_of m k = Some e \<longrightarrow> entry_ok e)
     \<and> queued = map_sum queued_weight m \<and> bytes = map_sum byte_weight m"

definition inv_entries :: "'v sched \<Rightarrow> bool" where
  "inv_entries s \<longleftrightarrow> entries_ok (s_entries s) (s_queuedCount s) (s_byteTotal s)"

lemma inv_entriesD:
  "inv_entries s \<Longrightarrow> map_wf (s_entries s)"
  "inv_entries s \<Longrightarrow> map_of (s_entries s) k = Some e \<Longrightarrow> entry_ok e"
  by (auto simp: inv_entries_def entries_ok_def)

lemma entries_ok_map_entry:
  assumes "entries_ok m q b" "map_of m k = Some e" "entry_ok (f e)"
    "q' = q + queued_weight (f e) - queued_weight e" "b' = b + byte_weight (f e) - byte_weight e"
  shows "entries_ok (AList.map_entry k f m) q' b'"
  using assms by (auto simp: entries_ok_def js_map_simps)

lemma entries_ok_same:
  assumes "entries_ok m q b"
    "\<And>e. map_of m k = Some e \<Longrightarrow> entry_ok e \<Longrightarrow>
       entry_ok (f e) \<and> queued_weight (f e) = queued_weight e \<and> byte_weight (f e) = byte_weight e"
  shows "entries_ok (AList.map_entry k f m) q b"
proof (cases "map_of m k")
  case (Some e)
  then have "entry_ok e" using assms(1) by (auto simp: entries_ok_def)
  then show ?thesis using assms Some by (intro entries_ok_map_entry [OF assms(1) Some]) auto
qed (use assms(1) in simp)

lemma entries_ok_del:
  assumes "entries_ok m q b" "map_of m k = Some e"
    "q' = q - queued_weight e" "b' = b - byte_weight e"
  shows "entries_ok (map_del k m) q' b'"
  using assms by (auto simp: entries_ok_def js_map_simps)

lemma entries_ok_touch: "entries_ok m q b \<Longrightarrow> entries_ok (map_touch k m) q b"
  by (auto simp: entries_ok_def js_map_simps)

lemma entries_ok_new:
  assumes "entries_ok m q b" "map_of m k = None" "entry_ok e" "q' = q + queued_weight e" "b' = b + byte_weight e"
  shows "entries_ok (map_set k e m) q' b'"
  using assms by (auto simp: entries_ok_def js_map_simps)

lemma entries_ok_untoken:
  assumes "entries_ok m q b" "untoken m' = untoken m"
  shows "entries_ok m' q b"
proof -
  have "map_wf m'" using assms untoken_keys [OF assms(2)] by (simp add: entries_ok_def map_wf_def)
  moreover have "entry_ok e" if l: "map_of m' k = Some e" for k e
  proof -
    obtain e' where "map_of m k = Some e'" "e' = e\<lparr>e_token := e_token e'\<rparr>"
      using untoken_lookup [OF assms(2) l] by blast
    moreover have "entry_ok (e\<lparr>e_token := t\<rparr>) \<longleftrightarrow> entry_ok e" for t
      by (simp add: entry_ok_def busy_def)
    ultimately show ?thesis using assms(1) by (metis entries_ok_def)
  qed
  moreover have "map_sum queued_weight m' = map_sum queued_weight m"
    by (rule map_sum_untoken [OF _ assms(2)]) (simp add: queued_weight_def)
  moreover have "map_sum byte_weight m' = map_sum byte_weight m"
    by (rule map_sum_untoken [OF _ assms(2)]) (simp add: byte_weight_def)
  ultimately show ?thesis using assms(1) by (auto simp: entries_ok_def)
qed

lemmas weight_defs = queued_weight_def byte_weight_def entry_ok_def busy_def

subsection \<open>Primitive operations\<close>

lemma inv_pushNode: "inv_entries s \<Longrightarrow> inv_entries (pushNode k s)"
  by (auto simp: inv_entries_def pushNode_frame pushNode_entries weight_defs intro!: entries_ok_same)

lemma inv_abandon:
  assumes "inv_entries s"
  shows "inv_entries (abandonIfUnwanted k s)"
proof (cases "map_of (s_entries s) k")
  case (Some e)
  have ok: "entry_ok e" and o: "entries_ok (s_entries s) (s_queuedCount s) (s_byteTotal s)"
    using assms Some by (auto simp: inv_entries_def entries_ok_def)
  show ?thesis
  proof (cases "e_waiters e \<noteq> [] \<or> e_value e \<noteq> None")
    case False
    let ?s1 = "case e_timer e of None \<Rightarrow> s | Some t \<Rightarrow> upd_entry k (\<lambda>e. e\<lparr>e_timer := None\<rparr>) (emit (ClearTimer t) s)"
    let ?s2 = "if e_queued e then dequeue k ?s1 else ?s1"
    have "inv_entries ?s1"
      using o False Some
      by (auto simp: inv_entries_def art_frame weight_defs intro!: entries_ok_same split: option.split)
    moreover have l: "map_of (s_entries ?s1) k = Some (e\<lparr>e_timer := None\<rparr>)"
      using Some by (cases e) (auto simp: art_frame js_map_simps split: option.split)
    ultimately have i2: "inv_entries ?s2"
      using ok False
      by (auto simp: inv_entries_def dequeue_frame weight_defs intro!: entries_ok_map_entry [where e = "e\<lparr>e_timer := None\<rparr>"])
    have "map_of (s_entries ?s2) k = Some (e\<lparr>e_timer := None, e_queued := False, e_token := (if e_queued e then 0 else e_token e)\<rparr>)"
      using l by (cases e) (auto simp: dequeue_frame js_map_simps)
    then have "inv_entries (if e_inFlight e = None then del_entry k ?s2 else ?s2)"
      using i2 False by (auto simp: inv_entries_def del_entry_frame weight_defs intro!: entries_ok_del)
    then show ?thesis
      using Some False
      by (auto simp: abandonIfUnwanted_def Let_def inv_entries_def scheduleFlush_frame pending_delete_frame
          split: prod.split)
  qed (use assms Some in \<open>simp add: abandonIfUnwanted_def\<close>)
qed (use assms in \<open>simp add: abandonIfUnwanted_def\<close>)

lemma finishAttempt_frame [art_frame]:
  "s_entries (finishAttempt k s) = AList.map_entry k (\<lambda>e. e\<lparr>e_inFlight := None\<rparr>) (s_entries s)"
  "s_queuedCount (finishAttempt k s) = s_queuedCount s" "s_byteTotal (finishAttempt k s) = s_byteTotal s"
  "s_high (finishAttempt k s) = s_high s" "s_normal (finishAttempt k s) = s_normal s"
  "s_nextToken (finishAttempt k s) = s_nextToken s" "s_nextSeq (finishAttempt k s) = s_nextSeq s"
  "s_active (finishAttempt k s) = s_active s" "s_disposed (finishAttempt k s) = s_disposed s"
  "s_attempts (finishAttempt k s) = s_attempts s" "s_nextRef (finishAttempt k s) = s_nextRef s"
  "s_flushScheduled (finishAttempt k s) = s_flushScheduled s"
  by (auto simp: finishAttempt_def Let_def upd_entry_frame upd_group_frame dropGroupIfIdle_frame
      intro!: map_entry_same [symmetric] split: option.split)

subsection \<open>Starting\<close>

lemma start_load_frame:
  assumes "map_of (s_entries s) k = Some e" "\<not> s_disposed s" "e_waiters e \<noteq> []"
  shows "untoken (s_entries (start_load c k s)) =
      untoken (AList.map_entry k (\<lambda>e. e\<lparr>e_attempts := Suc (e_attempts e), e_inFlight := Some (s_nextRef s)\<rparr>) (s_entries s))"
    "s_queuedCount (start_load c k s) = s_queuedCount s" "s_byteTotal (start_load c k s) = s_byteTotal s"
    "s_active (start_load c k s) = s_active s + 1" "s_disposed (start_load c k s) = s_disposed s"
    "s_flushScheduled (start_load c k s) = s_flushScheduled s"
    "s_nextRef (start_load c k s) = Suc (Suc (s_nextRef s))"
    "s_attempts (start_load c k s) = s_attempts s @
       [\<lparr>at_ref = s_nextRef s, at_key = k, at_timer = Suc (s_nextRef s), at_timedOut = False, at_settled = False\<rparr>]"
  using assms
  by (simp_all add: start_load_def Let_def emit_all_frame start_group_frame upd_entry_frame split: option.split)

lemma inv_begin_load:
  assumes "inv_entries s" "map_of (s_entries s) k = Some e" "e_queued e" "\<not> s_disposed s"
  shows "inv_entries (begin_load c k s)"
proof -
  let ?d = "dequeue k s" let ?e = "e\<lparr>e_queued := False, e_token := 0\<rparr>"
  have ok: "entry_ok e" and o: "entries_ok (s_entries s) (s_queuedCount s) (s_byteTotal s)"
    using assms by (auto simp: inv_entries_def entries_ok_def)
  have d: "map_of (s_entries ?d) k = Some ?e" "\<not> s_disposed ?d"
    using assms(2,4) by (simp_all add: dequeue_frame js_map_simps)
  have v: "e_value e = None" "e_inFlight e = None" "e_timer e = None" "0 \<le> e_size e"
    using ok assms(3) by (auto simp: weight_defs)
  show ?thesis
  proof (cases "e_waiters e = []")
    case True
    have "inv_entries (del_entry k ?d)"
      using o assms(2,3) v
      by (auto simp: inv_entries_def art_frame js_map_simps entries_ok_def weight_defs)
    then show ?thesis using True d v by (simp add: begin_load_def start_load_def)
  next
    case False
    have "entries_ok (AList.map_entry k (\<lambda>e. e\<lparr>e_attempts := Suc (e_attempts e), e_inFlight := Some (s_nextRef ?d)\<rparr>)
            (s_entries ?d)) (s_queuedCount ?d) (s_byteTotal ?d)"
      unfolding dequeue_frame map_entry_map_entry
      using v assms(2,3) by (intro entries_ok_map_entry [OF o assms(2)]) (auto simp: weight_defs)
    then show ?thesis
      using start_load_frame [OF d] False
      by (auto simp: begin_load_def inv_entries_def intro: entries_ok_untoken)
  qed
qed

lemma begin_load_disposed: "s_disposed (begin_load c k s) = s_disposed s"
proof (cases "map_of (s_entries (dequeue k s)) k")
  case (Some e)
  then show ?thesis
    using start_load_frame(5) [OF Some]
    by (cases "s_disposed s \<or> e_waiters e = []") (auto simp: begin_load_def start_load_def dequeue_frame del_entry_frame)
qed (simp add: begin_load_def start_load_def dequeue_frame)

lemma inv_pump: "inv_entries s \<Longrightarrow> inv_entries (pump c s)"
proof (induction c s rule: pump.induct)
  case (1 c s)
  obtain r s' where p: "pump_pick c s = (r, s')" by fastforce
  have i: "inv_entries s'" using "1.prems" by (simp add: inv_entries_def pump_pick_frame [OF p])
  show ?case
  proof (cases "s_disposed s \<or> r = None")
    case True
    then show ?thesis using 1 p i by (auto simp: pump.simps [of c s])
  next
    case False
    then obtain k where r: "r = Some k" by auto
    obtain e where e: "map_of (s_entries s') k = Some e" "e_queued e"
      using pump_pick_queued [OF p [unfolded r]] pump_pick_frame(1) [OF p] by metis
    have "inv_entries (begin_load c k s')"
      using i e False pump_pick_frame(8) [OF p] by (intro inv_begin_load) auto
    then show ?thesis using "1.IH" [OF _ p [symmetric] r] False p r
      by (simp add: pump.simps [of c s])
  qed
qed

subsection \<open>Eviction\<close>

text \<open>What the loop does with one entry: stop, keep, forget a failure, or evict from a pool.\<close>

lemma trim_loop_cases [consumes 1, case_names stop keep forget evict_large evict_normal]:
  assumes "trim_loop c large normal bytes ((k, e) # rest) = (kept, vs, b)"
  obtains
    (stop) "within_budget c large normal bytes" "kept = (k, e) # rest" "vs = []" "b = bytes"
  | (keep) r where "\<not> within_budget c large normal bytes" "kept = (k, e) # r"
      "trim_loop c large normal bytes rest = (r, vs, b)"
      "busy e \<or> (case e_value e of None \<Rightarrow> e_failedAt e = None
        | Some v \<Rightarrow> pinned c v \<or> (if e_large e then large \<le> c_maxLargeEntries c
                                  else bytes \<le> c_maxBytes c \<and> normal \<le> c_maxEntries c))"
  | (forget) "\<not> busy e" "e_value e = None" "e_failedAt e \<noteq> None"
      "trim_loop c large normal bytes rest = (kept, vs, b)"
  | (evict_large) v vs' where "\<not> busy e" "e_value e = Some v" "\<not> pinned c v" "e_large e"
      "c_maxLargeEntries c < large" "vs = v # vs'"
      "trim_loop c (large - 1) normal bytes rest = (kept, vs', b)"
  | (evict_normal) v vs' where "\<not> busy e" "e_value e = Some v" "\<not> pinned c v" "\<not> e_large e"
      "\<not> (bytes \<le> c_maxBytes c \<and> normal \<le> c_maxEntries c)" "vs = v # vs'"
      "trim_loop c large (normal - 1) (max 0 (bytes - e_size e)) rest = (kept, vs', b)"
  using assms by (auto simp: Let_def split: prod.splits option.splits if_splits)

declare trim_loop.simps(2) [simp del]

lemma trim_loop_subset:
  "trim_loop c large normal bytes m = (kept, vs, b) \<Longrightarrow>
     set kept \<subseteq> set m \<and> (distinct (map_keys m) \<longrightarrow> distinct (map_keys kept))
     \<and> (\<forall>(k, e) \<in> set m. busy e \<longrightarrow> (k, e) \<in> set kept)"
proof (induction m arbitrary: large normal bytes kept vs b)
  case (Cons a m)
  obtain k e where a: "a = (k, e)" by fastforce
  from Cons.prems [unfolded a] show ?case
  proof (cases rule: trim_loop_cases)
    case keep
    from Cons.IH [OF keep(3)] show ?thesis by (auto simp: a keep(2))
  next
    case forget
    from Cons.IH [OF forget(4)] forget(1) show ?thesis by (auto simp: a)
  next
    case evict_large
    from Cons.IH [OF evict_large(7)] evict_large(1) show ?thesis by (auto simp: a)
  next
    case evict_normal
    from Cons.IH [OF evict_normal(7)] evict_normal(1) show ?thesis by (auto simp: a)
  qed (auto simp: a)
qed simp

lemma byte_weight_nonneg: "entry_ok e \<Longrightarrow> 0 \<le> byte_weight e"
  by (simp add: weight_defs)

lemma trim_loop_weights:
  "trim_loop c large normal bytes m = (kept, vs, b) \<Longrightarrow> (\<forall>(k, e) \<in> set m. entry_ok e) \<Longrightarrow>
     map_sum byte_weight m \<le> bytes \<Longrightarrow>
     b - map_sum byte_weight kept = bytes - map_sum byte_weight m
     \<and> map_sum queued_weight kept = map_sum queued_weight m"
proof (induction m arbitrary: large normal bytes kept vs b)
  case (Cons a m)
  obtain k e where a: "a = (k, e)" by fastforce
  have ok: "entry_ok e" "\<forall>(k, e) \<in> set m. entry_ok e" using Cons.prems a by auto
  have sum: "map_sum w (a # xs) = w e + map_sum w xs" for w xs by (simp add: map_sum_def a)
  have pos: "0 \<le> map_sum byte_weight m"
    using ok(2) by (auto intro!: map_sum_nonneg byte_weight_nonneg)
  from Cons.prems(1) [unfolded a] show ?case
  proof (cases rule: trim_loop_cases)
    case stop
    then show ?thesis by (simp add: a)
  next
    case keep
    have "map_sum byte_weight m \<le> bytes" using Cons.prems(3) ok sum byte_weight_nonneg by fastforce
    from Cons.IH [OF keep(3) ok(2) this] show ?thesis by (simp add: keep(2) a [symmetric] sum)
  next
    case forget
    then have "byte_weight e = 0" "queued_weight e = 0" by (simp_all add: weight_defs)
    then show ?thesis using Cons.IH [OF forget(4) ok(2)] Cons.prems(3) by (simp add: sum)
  next
    case evict_large
    then have "byte_weight e = 0" "queued_weight e = 0" by (simp_all add: weight_defs)
    then show ?thesis using Cons.IH [OF evict_large(7) ok(2)] Cons.prems(3) by (simp add: sum)
  next
    case evict_normal
    then have w: "byte_weight e = e_size e" "queued_weight e = 0" by (simp_all add: weight_defs)
    then have "max 0 (bytes - e_size e) = bytes - e_size e" using Cons.prems(3) pos by (simp add: sum)
    then show ?thesis using Cons.IH [OF evict_normal(7) ok(2)] Cons.prems(3) w by (simp add: sum)
  qed
qed simp

lemma inv_trim:
  assumes "inv_entries s"
  shows "inv_entries (trim c s)"
proof -
  obtain kept vs b where t: "trim_loop c (map_sum settled_large (s_entries s)) (map_sum settled_normal (s_entries s))
      (s_byteTotal s) (s_entries s) = (kept, vs, b)" by (metis prod_cases3)
  have wf: "map_wf (s_entries s)" and ok: "\<forall>(k, e) \<in> set (s_entries s). entry_ok e"
    and eq: "s_queuedCount s = map_sum queued_weight (s_entries s)" "s_byteTotal s = map_sum byte_weight (s_entries s)"
    using assms map_wf_in_set by (fastforce simp: inv_entries_def entries_ok_def)+
  have "b = map_sum byte_weight kept" "map_sum queued_weight kept = s_queuedCount s"
    using trim_loop_weights [OF t ok] eq by simp_all
  moreover have "map_wf kept" "\<forall>k e. map_of kept k = Some e \<longrightarrow> entry_ok e"
    using trim_loop_subset [OF t] wf ok by (auto simp: map_wf_def dest!: map_of_SomeD)
  ultimately show ?thesis
    by (simp add: trim_def t inv_entries_def entries_ok_def emit_all_frame)
qed

subsection \<open>Callbacks and public operations\<close>

lemma entry_found:
  assumes "find (\<lambda>(k, e). P e) m = Some (k, e)" "map_wf m"
  shows "map_of m k = Some e" "P e"
  using assms by (auto simp: find_Some_iff map_wf_in_set [symmetric] in_set_conv_nth)

lemma inv_cong:
  "s_entries s' = s_entries s \<Longrightarrow> s_queuedCount s' = s_queuedCount s \<Longrightarrow> s_byteTotal s' = s_byteTotal s
   \<Longrightarrow> inv_entries s' = inv_entries s"
  by (simp add: inv_entries_def)

lemma inv_notify: "inv_entries (notify s) = inv_entries s"
  by (rule inv_cong) (simp_all add: notify_frame)

lemma inv_on_loaded:
  assumes "inv_entries s"
  shows "inv_entries (on_loaded c now a v s)"
proof -
  let ?s = "upd_attempt a (\<lambda>x. x\<lparr>at_settled := True\<rparr>) s"
  have i: "inv_entries ?s" using assms by (simp add: inv_entries_def upd_attempt_frame)
  show ?thesis
  proof (cases "s_disposed ?s \<or> entry_of_attempt a ?s = None")
    case True
    then show ?thesis using i
      by (auto simp: on_loaded_def Let_def inv_entries_def emit_frame upd_attempt_frame)
  next
    case False
    then obtain k e where f: "entry_of_attempt a ?s = Some (k, e)" by auto
    have e: "map_of (s_entries s) k = Some e" "e_inFlight e = Some a"
      using entry_found [OF f [unfolded entry_of_attempt_def]] inv_entriesD(1) [OF i]
      by (auto simp: upd_attempt_frame)
    have ok: "entry_ok e" using inv_entriesD(2) [OF assms e(1)] .
    let ?f = "\<lambda>e. settle_value c v (e\<lparr>e_inFlight := None\<rparr>)"
    have o: "entries_ok (s_entries s) (s_queuedCount s) (s_byteTotal s)"
      using assms by (simp add: inv_entries_def)
    have "entries_ok (AList.map_entry k ?f (s_entries s)) (s_queuedCount s)
        (s_byteTotal s + (if e_large e then 0 else e_size (settle_value c v e)))"
      using ok e by (intro entries_ok_map_entry [OF o e(1)]) (auto simp: settle_value_def weight_defs)
    then have t: "entries_ok (map_touch k (AList.map_entry k ?f (s_entries s))) (s_queuedCount s)
        (s_byteTotal s + (if e_large e then 0 else e_size (settle_value c v e)))"
      by (rule entries_ok_touch)
    let ?s3 = "emit_all (map (\<lambda>w. Resolve w v) (e_waiters e)) (upd_entry k (settle_value c v) (finishAttempt k ?s))"
    let ?s4 = "if e_large e then ?s3 else ?s3\<lparr>s_byteTotal := s_byteTotal ?s3 + e_size (settle_value c v e)\<rparr>"
    obtain there s6 where p: "pending_delete k (touch k ?s4) = (there, s6)" by fastforce
    have "inv_entries (if there then upd_screen (first_image now) s6 else s6)"
      using t by (auto simp: inv_entries_def upd_screen_frame pending_delete_frame [OF p] art_frame)
    from inv_trim [OF this] show ?thesis
      using False f p by (simp add: on_loaded_def Let_def inv_notify)
  qed
qed

lemma inv_on_failed:
  assumes "inv_entries s"
  shows "inv_entries (on_failed c now a err s)"
proof -
  let ?s = "upd_attempt a (\<lambda>x. x\<lparr>at_settled := True\<rparr>) s"
  have i: "inv_entries ?s" using assms by (simp add: inv_entries_def upd_attempt_frame)
  show ?thesis
  proof (cases "s_disposed ?s \<or> entry_of_attempt a ?s = None")
    case True
    then show ?thesis using i by (auto simp: on_failed_def Let_def)
  next
    case False
    then obtain k e where f: "entry_of_attempt a ?s = Some (k, e)" by auto
    have e: "map_of (s_entries s) k = Some e" "e_inFlight e = Some a"
      using entry_found [OF f [unfolded entry_of_attempt_def]] inv_entriesD(1) [OF i]
      by (auto simp: upd_attempt_frame)
    have ok: "entry_ok e" using inv_entriesD(2) [OF assms e(1)] .
    then have w: "e_value e = None" "\<not> e_queued e" "e_timer e = None" "0 \<le> e_size e"
      using e(2) by (auto simp: weight_defs)
    have o: "entries_ok (s_entries s) (s_queuedCount s) (s_byteTotal s)"
      using assms by (simp add: inv_entries_def)
    let ?s1 = "finishAttempt k ?s"
    have unwanted: "inv_entries (fail_unwanted k ?s1)" if "e_waiters e = []"
    proof -
      have "entries_ok (map_del k (AList.map_entry k (\<lambda>e. e\<lparr>e_inFlight := None\<rparr>) (s_entries s)))
          (s_queuedCount s) (s_byteTotal s)"
        using o e w by (auto simp: entries_ok_def js_map_simps weight_defs)
      moreover obtain there s2 where p: "pending_delete k (del_entry k ?s1) = (there, s2)" by fastforce
      ultimately show ?thesis
        by (auto simp: fail_unwanted_def inv_notify p inv_entries_def art_frame pending_delete_frame [OF p])
    qed
    have retry: "inv_entries (fail_retry c k n f ?s1)" if "e_waiters e \<noteq> []" for n f
      using w e(1) that
      by (auto simp: fail_retry_def Let_def inv_entries_def art_frame weight_defs intro!: entries_ok_map_entry [OF o e(1)])
    have final: "inv_entries (fail_final now k ws err ?s1)" for ws
    proof -
      have "entries_ok (AList.map_entry k (\<lambda>e. e\<lparr>e_inFlight := None, e_failedAt := Some now, e_waiters := []\<rparr>) (s_entries s))
          (s_queuedCount s) (s_byteTotal s)"
        using w by (auto simp: weight_defs intro!: entries_ok_map_entry [OF o e(1)])
      moreover obtain there s2 where p: "pending_delete k (emit_all (map (\<lambda>w. Reject w err) ws)
          (upd_entry k (\<lambda>e. e\<lparr>e_failedAt := Some now, e_waiters := []\<rparr>) ?s1)) = (there, s2)" by fastforce
      ultimately show ?thesis
        by (auto simp: fail_final_def Let_def inv_notify p inv_entries_def art_frame pending_delete_frame [OF p])
    qed
    show ?thesis using False f unwanted retry final by (simp add: on_failed_def Let_def)
  qed
qed

lemma inv_on_finally:
  assumes "inv_entries s" "entry_of_attempt a s = None"
  shows "inv_entries (on_finally a s)"
  using assms
  by (auto simp: on_finally_def Let_def inv_entries_def entry_of_attempt_def art_frame split: option.split)

lemma inv_on_retry:
  assumes "inv_entries s" "s_disposed s \<longrightarrow> s_entries s = []"
  shows "inv_entries (on_retry t s)"
proof (cases "find (\<lambda>(k, e). e_timer e = Some t) (s_entries s)")
  case (Some r)
  obtain k e where r: "r = (k, e)" by fastforce
  have e: "map_of (s_entries s) k = Some e" "e_timer e = Some t"
    using entry_found [OF Some [unfolded r]] inv_entriesD(1) [OF assms(1)] by auto
  have w: "e_value e = None" "\<not> e_queued e" "e_inFlight e = None" "0 \<le> e_size e"
    using inv_entriesD(2) [OF assms(1) e(1)] e(2) by (auto simp: weight_defs)
  have "\<not> s_disposed s" using assms(2) e(1) by auto
  have o: "entries_ok (s_entries s) (s_queuedCount s) (s_byteTotal s)"
    using assms by (simp add: inv_entries_def)
  let ?s1 = "upd_entry k (\<lambda>e. e\<lparr>e_timer := None\<rparr>) s"
  have "inv_entries (enqueue k ?s1)"
    using w e(1)
    by (auto simp: inv_entries_def art_frame js_map_simps enqueued_def weight_defs intro!: entries_ok_map_entry [OF o e(1)])
  moreover have "inv_entries (if there then scheduleFlush s2 else s2)"
    if p: "pending_delete k (del_entry k ?s1) = (there, s2)" for there s2
  proof -
    have "entries_ok (map_del k (AList.map_entry k (\<lambda>e. e\<lparr>e_timer := None\<rparr>) (s_entries s))) (s_queuedCount s) (s_byteTotal s)"
      using o e w by (auto simp: entries_ok_def js_map_simps weight_defs)
    then show ?thesis by (auto simp: inv_entries_def scheduleFlush_frame pending_delete_frame [OF p] art_frame)
  qed
  ultimately show ?thesis
    using Some r \<open>\<not> s_disposed s\<close> by (auto simp: on_retry_def Let_def upd_entry_frame split: prod.split)
qed (use assms in \<open>simp add: on_retry_def\<close>)

lemma inv_abort_waiter:
  assumes "inv_entries s"
  shows "inv_entries (abort_waiter w s)"
proof (cases "find (\<lambda>(k, e). w \<in> set (e_waiters e)) (s_entries s)")
  case (Some r)
  obtain k e where r: "r = (k, e)" by fastforce
  let ?s1 = "emit (Reject w (abortError ''Aborted'')) (upd_entry k (\<lambda>e. e\<lparr>e_waiters := set_del w (e_waiters e)\<rparr>) s)"
  have o: "entries_ok (s_entries s) (s_queuedCount s) (s_byteTotal s)"
    using assms by (simp add: inv_entries_def)
  have "inv_entries ?s1"
    using o by (auto simp: inv_entries_def art_frame weight_defs intro!: entries_ok_same)
  from inv_abandon [OF this] show ?thesis using Some r by (simp add: abort_waiter_def)
qed (use assms in \<open>simp add: abort_waiter_def\<close>)

subsection \<open>Loading\<close>

text \<open>The entry a waiting \<open>load\<close> leaves: the waiter added, promoted, placed, and queued if idle.\<close>

definition waited :: "art_request \<Rightarrow> nat \<Rightarrow> 'v art_entry \<Rightarrow> 'v art_entry" where
  "waited q w e =
     place_entry (q_order q) (q_group q)
       (e\<lparr>e_waiters := set_add w (e_waiters e), e_priority := e_priority e \<or> q_high q\<rparr>)"

lemma waited_fields [simp]:
  "e_value (waited q w e) = e_value e" "e_size (waited q w e) = e_size e" "e_large (waited q w e) = e_large e"
  "e_queued (waited q w e) = e_queued e" "e_timer (waited q w e) = e_timer e"
  "e_inFlight (waited q w e) = e_inFlight e" "e_waiters (waited q w e) = set_add w (e_waiters e)"
  "e_token (waited q w e) = e_token e" "e_attempts (waited q w e) = e_attempts e"
  "e_priority (waited q w e) \<longleftrightarrow> e_priority e \<or> q_high q" "e_seq (waited q w e) = e_seq e"
  by (simp_all add: waited_def place_entry_def)

definition idle :: "'v art_entry \<Rightarrow> bool" where
  "idle e \<longleftrightarrow> \<not> e_queued e \<and> e_inFlight e = None \<and> e_timer e = None"

definition load_base :: "'v art_config \<Rightarrow> art_request \<Rightarrow> art_key \<Rightarrow> 'v sched \<Rightarrow> (art_key, 'v art_entry) js_map" where
  "load_base c q k s =
     (if map_has (s_entries s) k then s_entries s
      else map_set k (new_entry (entry_large c q k)) (s_entries s))"

lemma load_entry_frame:
  "s_entries (load_entry c q k s) = load_base c q k s"
  "s_queuedCount (load_entry c q k s) = s_queuedCount s" "s_byteTotal (load_entry c q k s) = s_byteTotal s"
  "s_active (load_entry c q k s) = s_active s" "s_disposed (load_entry c q k s) = s_disposed s"
  "s_attempts (load_entry c q k s) = s_attempts s" "s_nextRef (load_entry c q k s) = s_nextRef s"
  "s_flushScheduled (load_entry c q k s) = s_flushScheduled s" "s_groups (load_entry c q k s) = s_groups s"
  "s_high (load_entry c q k s) = s_high s" "s_normal (load_entry c q k s) = s_normal s"
  "s_nextToken (load_entry c q k s) = s_nextToken s" "s_nextSeq (load_entry c q k s) = s_nextSeq s"
  by (simp_all add: load_entry_def load_base_def upd_screen_frame)

lemma load_wait_frame:
  assumes l: "load_wait c q k s = (w, s')" and e: "map_of (load_base c q k s) k = Some e"
  obtains t sq where "w = s_nextRef s"
    "s_entries s' = AList.map_entry k (\<lambda>e. (waited q w e)\<lparr>e_queued := e_queued e \<or> idle e, e_seq := sq, e_token := t\<rparr>) (load_base c q k s)"
    "s_queuedCount s' = s_queuedCount s + (if idle e then 1 else 0)"
    "s_byteTotal s' = s_byteTotal s" "s_active s' = s_active s" "s_disposed s' = s_disposed s"
    "s_attempts s' = s_attempts s" "s_nextRef s' = Suc (s_nextRef s)"
    "s_flushScheduled s \<longrightarrow> s_flushScheduled s'"
    "\<not> s_disposed s \<longrightarrow> idle e \<longrightarrow> s_flushScheduled s'"
proof -
  let ?s2 = "load_entry c q k s"
  let ?s3 = "upd_entry k (\<lambda>e. e\<lparr>e_waiters := set_add (s_nextRef s) (e_waiters e)\<rparr>) (?s2\<lparr>s_nextRef := Suc (s_nextRef s)\<rparr>)"
  let ?e3 = "e\<lparr>e_waiters := set_add (s_nextRef s) (e_waiters e)\<rparr>"
  let ?pr = "q_high q \<and> \<not> e_priority e"
  let ?s4 = "if ?pr then upd_entry k (\<lambda>e. e\<lparr>e_priority := True\<rparr>) ?s3 else ?s3"
  have e3: "map_of (s_entries ?s3) k = Some ?e3" using e by (simp add: load_entry_frame art_frame js_map_simps)
  obtain moved s5 where p: "place k (q_order q) (q_group q) ?s4 = (moved, s5)" by fastforce
  note f = place_frame [OF p]
  have s5: "s_entries s5 = AList.map_entry k (waited q (s_nextRef s)) (load_base c q k s)"
    unfolding f using e by (cases e) (auto simp: load_entry_frame art_frame waited_def intro!: map_entry_cong)
  have l': "w = s_nextRef s" "s' = (if idle e then enqueue k s5
      else if e_queued e \<and> (moved \<or> ?pr) then scheduleFlush (pushNode k s5) else s5)"
    using l p unfolding load_wait_def Let_def load_entry_frame(7) e3 option.sel
    by (auto simp: idle_def split: if_splits)
  have has: "map_has (s_entries s5) k" using e by (simp add: s5 js_map_simps)
  have s5': "s_queuedCount s5 = s_queuedCount s" "s_byteTotal s5 = s_byteTotal s" "s_active s5 = s_active s"
    "s_disposed s5 = s_disposed s" "s_attempts s5 = s_attempts s" "s_nextRef s5 = Suc (s_nextRef s)"
    "s_flushScheduled s5 = s_flushScheduled s"
    by (simp_all add: f art_frame load_entry_frame)
  let ?sq = "if idle e \<and> e_seq e = 0 then Suc (s_nextSeq s5) else e_seq e"
  let ?t = "if idle e \<or> e_queued e \<and> (moved \<or> ?pr) then Suc (s_nextToken s5) else e_token e"
  show thesis
  proof (rule that [of ?t ?sq])
    show "s_entries s' = AList.map_entry k (\<lambda>e'. (waited q w e')\<lparr>e_queued := e_queued e' \<or> idle e', e_seq := ?sq, e_token := ?t\<rparr>)
        (load_base c q k s)"
    proof -
      have at_e: "AList.map_entry k f (load_base c q k s) = AList.map_entry k g (load_base c q k s)" if "f e = g e" for f g
        using e that by (intro map_entry_cong) simp
      consider "idle e" | "\<not> idle e" "e_queued e \<and> (moved \<or> ?pr)" | "\<not> idle e" "\<not> (e_queued e \<and> (moved \<or> ?pr))"
        by blast
      then show ?thesis
      proof cases
        case 1
        then show ?thesis
          by (simp add: l' enqueue_frame s5) (auto simp: enqueued_def idle_def intro!: at_e)
      next
        case 2
        then show ?thesis using has
          by (simp add: l' scheduleFlush_frame pushNode_entries s5) (auto simp: idle_def intro!: at_e)
      next
        case 3
        then show ?thesis by (simp add: l' s5) (auto simp: idle_def intro!: at_e)
      qed
    qed
  qed (use l' has e in \<open>auto simp: art_frame s5' idle_def\<close>)
qed

lemma load_base_ok:
  assumes "entries_ok (s_entries s) q' b"
  shows "entries_ok (load_base c q k s) q' b" "\<exists>e. map_of (load_base c q k s) k = Some e"
proof -
  have "entry_ok (new_entry x)" and [simp]: "queued_weight (new_entry x) = 0" "byte_weight (new_entry x) = 0"
    for x :: bool by (simp_all add: new_entry_def weight_defs)
  then show "entries_ok (load_base c q k s) q' b"
    using assms by (auto simp: load_base_def intro!: entries_ok_new)
  show "\<exists>e. map_of (load_base c q k s) k = Some e"
    by (auto simp: load_base_def js_map_simps)
qed

lemma inv_load_wait:
  assumes "inv_entries s" "load_wait c q k s = (w, s')"
    "\<And>e. map_of (s_entries s) k = Some e \<Longrightarrow> e_value e = None"
  shows "inv_entries s'"
proof -
  have o: "entries_ok (load_base c q k s) (s_queuedCount s) (s_byteTotal s)"
    using assms(1) load_base_ok(1) by (auto simp: inv_entries_def)
  obtain e where e: "map_of (load_base c q k s) k = Some e"
    using assms(1) load_base_ok(2) [of s] unfolding inv_entries_def by blast
  have ok: "entry_ok e" "e_value e = None"
    using o e assms(3) by (auto simp: entries_ok_def load_base_def js_map_simps new_entry_def split: if_splits)
  from assms(2) e show ?thesis
  proof (rule load_wait_frame)
    fix t sq
    assume "s_entries s' = AList.map_entry k (\<lambda>e. (waited q w e)\<lparr>e_queued := e_queued e \<or> idle e, e_seq := sq, e_token := t\<rparr>) (load_base c q k s)"
      "s_queuedCount s' = s_queuedCount s + (if idle e then 1 else 0)" "s_byteTotal s' = s_byteTotal s"
    moreover have "entry_ok ((waited q w e)\<lparr>e_queued := e_queued e \<or> idle e, e_seq := sq, e_token := t\<rparr>)"
      using ok by (auto simp: weight_defs idle_def)
    ultimately show ?thesis
      using ok by (auto simp: inv_entries_def idle_def queued_weight_def byte_weight_def intro!: entries_ok_map_entry [OF o e])
  qed
qed

lemma inv_load:
  assumes "inv_entries s" "load c now q k s = (r, s')"
  shows "inv_entries s'"
proof (cases "map_of (s_entries s) k")
  case None
  then show ?thesis
    using assms by (auto simp: load_def intro: inv_load_wait [OF assms(1)] split: if_splits prod.splits)
next
  case (Some e)
  have o: "entries_ok (s_entries s) (s_queuedCount s) (s_byteTotal s)"
    using assms by (simp add: inv_entries_def)
  have c: "inv_entries (load_cached now k s)"
    using entries_ok_touch [OF o] by (auto simp: load_cached_def Let_def inv_entries_def art_frame split: option.split)
  have d: "inv_entries (del_entry k s)" if "failed_idle e" "e_value e = None"
    using that by (auto simp: inv_entries_def del_entry_frame failed_idle_def weight_defs intro!: entries_ok_del [OF o Some])
  have n: "map_of (s_entries (del_entry k s)) k = None" by (simp add: del_entry_frame js_map_simps)
  show ?thesis
    using assms Some c d n
    by (auto simp: load_def intro: inv_load_wait [OF assms(1)] inv_load_wait [OF d]
        split: if_splits prod.splits option.splits)
qed

lemma inv_reorder:
  assumes "inv_entries s"
  shows "inv_entries (reorder k order grp s)"
proof (cases "map_of (s_entries s) k")
  case (Some e)
  obtain b s1 where p: "place k (Some order) grp s = (b, s1)" by fastforce
  have "inv_entries s1"
    using assms unfolding inv_entries_def place_frame [OF p]
    by (auto simp: place_entry_def weight_defs intro!: entries_ok_same)
  then have "inv_entries (scheduleFlush (pushNode k s1))" "inv_entries s1"
    using inv_pushNode by (auto simp: inv_entries_def scheduleFlush_frame)
  then show ?thesis using assms Some p by (simp add: reorder_def)
qed (use assms in \<open>simp add: reorder_def\<close>)

lemma inv_flush: "inv_entries s \<Longrightarrow> inv_entries (flush c now s)"
proof -
  assume "inv_entries s"
  then have "inv_entries (pump c (s\<lparr>s_flushScheduled := False\<rparr>))"
    by (intro inv_pump) (simp add: inv_entries_def)
  then show ?thesis
    by (auto simp: flush_def checkScreen_def Let_def inv_entries_def emit_frame upd_screen_frame split: option.split)
qed

lemma inv_dispose: "inv_entries s \<Longrightarrow> inv_entries (dispose s)"
  by (auto simp: dispose_def inv_entries_def emit_all_frame entries_ok_def)

end
