(* ===== verification/Artwork_Slots.thy ===== *)
theory Artwork_Slots
  imports Artwork_Invariant
begin

text \<open>
  The attempts of the artwork scheduler: the entry an attempt belongs to stays in the map until
  the attempt settles, \<open>active\<close> counts the unfinished attempts, and it never passes the slot limit.
\<close>

section \<open>The invariant\<close>

text \<open>The controller in flight for a key.\<close>

definition inflight :: "(art_key, 'v art_entry) js_map \<Rightarrow> art_key \<Rightarrow> nat option" where
  "inflight m k = Option.bind (map_of m k) e_inFlight"

definition inv_attempts :: "'v sched \<Rightarrow> bool" where
  "inv_attempts s \<longleftrightarrow>
     distinct (map at_ref (s_attempts s))
     \<and> (\<forall>x \<in> set (s_attempts s). at_ref x < s_nextRef s)
     \<and> s_active s = int (length (s_attempts s))
     \<and> (\<forall>k a. inflight (s_entries s) k = Some a \<longrightarrow>
          (\<exists>x \<in> set (s_attempts s). at_ref x = a \<and> at_key x = k \<and> \<not> at_settled x))
     \<and> (\<not> s_disposed s \<longrightarrow> (\<forall>x \<in> set (s_attempts s). \<not> at_settled x \<longrightarrow>
          inflight (s_entries s) (at_key x) = Some (at_ref x)))
     \<and> (s_disposed s \<longrightarrow> s_entries s = [])"

lemma inv_attempts_cong:
  assumes "inv_attempts s" "inflight (s_entries s') = inflight (s_entries s)"
    "s_attempts s' = s_attempts s" "s_nextRef s \<le> s_nextRef s'" "s_active s' = s_active s"
    "s_disposed s' = s_disposed s" "s_disposed s \<longrightarrow> s_entries s' = []"
  shows "inv_attempts s'"
proof -
  have "at_ref x < s_nextRef s'" if "x \<in> set (s_attempts s)" for x
    using that assms(1,4) by (auto simp: inv_attempts_def)
  then show ?thesis using assms by (auto simp: inv_attempts_def)
qed

text \<open>Settling an attempt takes its controller from the one entry that carries it.\<close>

lemma inv_attempts_settle:
  assumes "inv_attempts s"
    "\<And>k. inflight (s_entries s') k = (if inflight (s_entries s) k = Some a then None else inflight (s_entries s) k)"
    "s_attempts s' = map (\<lambda>x. if at_ref x = a then x\<lparr>at_settled := True\<rparr> else x) (s_attempts s)"
    "s_nextRef s \<le> s_nextRef s'" "s_active s' = s_active s" "s_disposed s' = s_disposed s"
    "s_disposed s \<longrightarrow> s_entries s' = []"
  shows "inv_attempts s'"
proof -
  let ?f = "\<lambda>x. if at_ref x = a then x\<lparr>at_settled := True\<rparr> else x"
  have refs: "map at_ref (map ?f xs) = map at_ref xs" for xs by (induction xs) auto
  have "\<exists>x \<in> set (s_attempts s'). at_ref x = b \<and> at_key x = k \<and> \<not> at_settled x"
    if "inflight (s_entries s') k = Some b" for k b
  proof -
    have b: "b \<noteq> a" "inflight (s_entries s) k = Some b"
      using that assms(2) [of k] by (auto split: if_splits)
    then obtain x where "x \<in> set (s_attempts s)" "at_ref x = b" "at_key x = k" "\<not> at_settled x"
      using assms(1) unfolding inv_attempts_def by blast
    then show ?thesis using b assms(3) by (auto intro!: bexI [of _ x] image_eqI [of _ _ x])
  qed
  moreover have "inflight (s_entries s') (at_key y) = Some (at_ref y)"
    if y: "y \<in> set (s_attempts s')" "\<not> at_settled y" "\<not> s_disposed s'" for y
  proof -
    obtain x where "x \<in> set (s_attempts s)" "y = ?f x" using y(1) unfolding assms(3) by auto
    then have "y = x" "at_ref x \<noteq> a" using y(2) by (auto split: if_splits)
    then show ?thesis
      using assms y \<open>x \<in> set (s_attempts s)\<close> by (auto simp: inv_attempts_def)
  qed
  moreover have "at_ref y < s_nextRef s'" if "y \<in> set (s_attempts s')" for y
    using that assms by (fastforce simp: inv_attempts_def)
  moreover have "distinct (map at_ref (s_attempts s'))" "s_active s' = int (length (s_attempts s'))"
    using assms(1,5) by (simp_all only: assms(3) refs inv_attempts_def length_map)
  moreover have "s_disposed s' \<longrightarrow> s_entries s' = []" using assms(6,7) by simp
  ultimately show ?thesis unfolding inv_attempts_def by blast
qed

lemma inflight_simps:
  "inflight (AList.map_entry k f m) k' = (if k' = k then Option.bind (map_of m k) (\<lambda>e. e_inFlight (f e)) else inflight m k')"
  "inflight (map_del k m) k' = (if k' = k then None else inflight m k')"
  "inflight (map_set k e m) k' = (if k' = k then e_inFlight e else inflight m k')"
  "inflight (map_touch k m) = inflight m"
  "inflight [] = (\<lambda>_. None)"
  by (auto simp: inflight_def js_map_simps fun_eq_iff split: Option.bind_splits)

lemma inflight_untoken: "untoken m = untoken m' \<Longrightarrow> inflight m = inflight m'"
proof -
  have "inflight (untoken m) = inflight m" for m :: "(art_key, 'a art_entry) js_map"
    by (auto simp: inflight_def map_of_untoken fun_eq_iff split: Option.bind_splits)
  then show "untoken m = untoken m' \<Longrightarrow> inflight m = inflight m'" by metis
qed

lemma inflight_keep:
  assumes "\<And>e. e_inFlight (f e) = e_inFlight e"
  shows "inflight (AList.map_entry k f m) = inflight m"
proof
  show "inflight (AList.map_entry k f m) k' = inflight m k'" for k'
    by (cases "map_of m k'") (auto simp: inflight_def js_map_simps assms)
qed

lemma inflight_trim:
  assumes "map_wf (s_entries s)"
  shows "inflight (s_entries (trim c s)) = inflight (s_entries s)"
proof
  fix k
  obtain kept vs b where t: "trim_loop c (map_sum settled_large (s_entries s)) (map_sum settled_normal (s_entries s))
      (s_byteTotal s) (s_entries s) = (kept, vs, b)" by (metis prod_cases3)
  have k: "s_entries (trim c s) = kept" by (simp add: trim_def t emit_all_frame)
  have wf: "map_wf kept" using trim_loop_subset [OF t] assms by (simp add: map_wf_def)
  have iff: "(j, e) \<in> set kept \<longleftrightarrow> map_of kept j = Some e" "(j, e) \<in> set (s_entries s) \<longleftrightarrow> map_of (s_entries s) j = Some e" for j e
    using wf assms by (simp_all add: map_wf_in_set)
  have "map_of (s_entries s) k = Some e \<Longrightarrow> e_inFlight e \<noteq> None \<Longrightarrow> map_of kept k = Some e" for e
    using trim_loop_subset [OF t] iff by (fastforce simp: busy_def)
  moreover have "map_of kept k = Some e \<Longrightarrow> map_of (s_entries s) k = Some e" for e
    using trim_loop_subset [OF t] iff by blast
  ultimately show "inflight (s_entries (trim c s)) k = inflight (s_entries s) k"
    unfolding k inflight_def by (cases "map_of (s_entries s) k"; cases "map_of kept k") force+
qed

lemma trim_frame:
  "s_queuedCount (trim c s) = s_queuedCount s" "s_active (trim c s) = s_active s"
  "s_high (trim c s) = s_high s" "s_normal (trim c s) = s_normal s" "s_groups (trim c s) = s_groups s"
  "s_nextToken (trim c s) = s_nextToken s" "s_nextSeq (trim c s) = s_nextSeq s"
  "s_flushScheduled (trim c s) = s_flushScheduled s" "s_disposed (trim c s) = s_disposed s"
  "s_attempts (trim c s) = s_attempts s" "s_nextRef (trim c s) = s_nextRef s"
  by (simp_all add: trim_def emit_all_frame split: prod.split)

section \<open>Preservation\<close>

lemma entry_of_attempt_inflight:
  assumes "map_wf (s_entries s)"
  shows "entry_of_attempt a s = None \<longleftrightarrow> (\<forall>k. inflight (s_entries s) k \<noteq> Some a)"
    and "entry_of_attempt a s = Some (k, e) \<Longrightarrow> map_of (s_entries s) k = Some e \<and> inflight (s_entries s) k = Some a"
proof -
  show "entry_of_attempt a s = Some (k, e) \<Longrightarrow> map_of (s_entries s) k = Some e \<and> inflight (s_entries s) k = Some a"
    using entry_found [OF _ assms] by (simp add: entry_of_attempt_def inflight_def)
  show "entry_of_attempt a s = None \<longleftrightarrow> (\<forall>k. inflight (s_entries s) k \<noteq> Some a)"
    using map_wf_in_set [OF assms]
    by (fastforce simp: entry_of_attempt_def inflight_def find_None_iff split: Option.bind_splits)
qed

lemma attempt_unique:
  "inv_attempts s \<Longrightarrow> x \<in> set (s_attempts s) \<Longrightarrow> y \<in> set (s_attempts s) \<Longrightarrow> at_ref x = at_ref y \<Longrightarrow> x = y"
  by (auto simp: inv_attempts_def distinct_map inj_on_def)

lemma inflight_attempt:
  assumes "inv_attempts s" "inflight (s_entries s) k = Some a"
  obtains x where "x \<in> set (s_attempts s)" "at_ref x = a" "at_key x = k" "\<not> at_settled x"
  using assms unfolding inv_attempts_def by blast

lemma inflight_inj:
  assumes i: "inv_attempts s" and k: "inflight (s_entries s) k = Some a" "inflight (s_entries s) k' = Some a"
  shows "k = k'"
proof -
  obtain x y where "x \<in> set (s_attempts s)" "y \<in> set (s_attempts s)" "at_ref x = a" "at_ref y = a" "at_key x = k" "at_key y = k'"
    using inflight_attempt [OF i k(1)] inflight_attempt [OF i k(2)] by metis
  then show ?thesis using attempt_unique [OF i] by metis
qed

lemma settled_no_entry:
  assumes "inv_attempts s" "x \<in> set (s_attempts s)" "at_settled x"
  shows "inflight (s_entries s) k \<noteq> Some (at_ref x)"
  using assms attempt_unique [OF assms(1)] by (metis inflight_attempt)

text \<open>Where the two settlement handlers agree: everything but the entry of the attempt.\<close>

lemma inv_attempts_handler:
  assumes i: "inv_attempts s" and wf: "map_wf (s_entries s)"
    and f: "entry_of_attempt a s = Some (k, e)" and nd: "\<not> s_disposed s"
    and s': "s_attempts s' = map (\<lambda>x. if at_ref x = a then x\<lparr>at_settled := True\<rparr> else x) (s_attempts s)"
      "s_nextRef s \<le> s_nextRef s'" "s_active s' = s_active s" "s_disposed s' = s_disposed s"
    and fl: "inflight (s_entries s') = (inflight (s_entries s))(k := None)"
  shows "inv_attempts s'"
proof (rule inv_attempts_settle [OF i _ s'])
  have k: "inflight (s_entries s) k = Some a" using entry_of_attempt_inflight(2) [OF wf f] by simp
  show "inflight (s_entries s') k' = (if inflight (s_entries s) k' = Some a then None else inflight (s_entries s) k')" for k'
    unfolding fl fun_upd_apply using inflight_inj [OF i k] k by metis
qed (use nd in simp)

lemma upd_attempt_list: "s_attempts (upd_attempt a f s) = map (\<lambda>x. if at_ref x = a then f x else x) (s_attempts s)"
  by (simp add: upd_attempt_def)

lemma entry_of_attempt_upd [simp]: "entry_of_attempt a (upd_attempt b f s) = entry_of_attempt a s"
  by (simp add: entry_of_attempt_def upd_attempt_frame)

lemma attempts_on_loaded:
  assumes i: "inv_attempts s" and w: "inv_entries s"
  shows "inv_attempts (on_loaded c now a v s)"
proof -
  let ?s = "upd_attempt a (\<lambda>x. x\<lparr>at_settled := True\<rparr>) s"
  have wf: "map_wf (s_entries s)" using inv_entriesD(1) [OF w] .
  show ?thesis
  proof (cases "s_disposed s \<or> entry_of_attempt a s = None")
    case True
    then have "inflight (s_entries s) k \<noteq> Some a" for k
      using i entry_of_attempt_inflight(1) [OF wf] by (auto simp: inv_attempts_def inflight_simps)
    then have "inv_attempts ?s"
      using i by (intro inv_attempts_settle [OF i, of _ a]) (auto simp: upd_attempt_frame upd_attempt_list inv_attempts_def)
    then have "inv_attempts (emit (Release v) ?s)" "inv_attempts ?s"
      by (auto simp: inv_attempts_def emit_frame)
    then show ?thesis
      using True by (auto simp: on_loaded_def Let_def upd_attempt_frame)
  next
    case False
    then obtain k e where f: "entry_of_attempt a s = Some (k, e)" by auto
    let ?s3 = "emit_all (map (\<lambda>w. Resolve w v) (e_waiters e)) (upd_entry k (settle_value c v) (finishAttempt k ?s))"
    let ?s4 = "if e_large e then ?s3 else ?s3\<lparr>s_byteTotal := s_byteTotal ?s3 + e_size (settle_value c v e)\<rparr>"
    obtain there s6 where p: "pending_delete k (touch k ?s4) = (there, s6)" by fastforce
    let ?s7 = "if there then upd_screen (first_image now) s6 else s6"
    have eq: "on_loaded c now a v s = notify (trim c ?s7)"
      using False f p by (simp add: on_loaded_def Let_def upd_attempt_frame)
    have e7: "s_entries ?s7 = map_touch k (AList.map_entry k (\<lambda>e. settle_value c v (e\<lparr>e_inFlight := None\<rparr>)) (s_entries s))"
      by (auto simp: art_frame pending_delete_frame [OF p])
    have "map_wf (s_entries ?s7)" unfolding e7 using wf by simp
    then have "inflight (s_entries (on_loaded c now a v s)) = inflight (s_entries ?s7)"
      by (simp add: eq notify_frame inflight_trim)
    also have "\<dots> = (inflight (s_entries s))(k := None)"
      using entry_of_attempt_inflight(2) [OF wf f] unfolding e7
      by (auto simp: inflight_simps settle_value_def)
    finally show ?thesis
      by (rule inv_attempts_handler [OF i wf f, rotated -1])
        (use False in \<open>auto simp: eq notify_frame trim_frame art_frame pending_delete_frame [OF p] upd_attempt_list\<close>)
  qed
qed

lemma attempts_on_failed:
  assumes i: "inv_attempts s" and w: "inv_entries s"
  shows "inv_attempts (on_failed c now a err s)"
proof -
  let ?s = "upd_attempt a (\<lambda>x. x\<lparr>at_settled := True\<rparr>) s"
  have wf: "map_wf (s_entries s)" using inv_entriesD(1) [OF w] .
  show ?thesis
  proof (cases "s_disposed s \<or> entry_of_attempt a s = None")
    case True
    then have "inflight (s_entries s) k \<noteq> Some a" for k
      using i entry_of_attempt_inflight(1) [OF wf] by (auto simp: inv_attempts_def inflight_simps)
    then have "inv_attempts ?s"
      using i by (intro inv_attempts_settle [OF i, of _ a]) (auto simp: upd_attempt_frame upd_attempt_list inv_attempts_def)
    then show ?thesis
      using True by (auto simp: on_failed_def Let_def upd_attempt_frame)
  next
    case False
    then obtain k e where f: "entry_of_attempt a s = Some (k, e)" by auto
    have e: "map_of (s_entries s) k = Some e" using entry_of_attempt_inflight(2) [OF wf f] by simp
    let ?s1 = "finishAttempt k ?s"
    note rule = inv_attempts_handler [OF i wf f]
    have "inv_attempts (fail_unwanted k ?s1)"
    proof -
      obtain there s2 where p: "pending_delete k (del_entry k ?s1) = (there, s2)" by fastforce
      show ?thesis
        by (rule rule) (use False in \<open>auto simp: fail_unwanted_def p notify_frame scheduleFlush_frame
          pending_delete_frame [OF p] art_frame upd_attempt_list inflight_simps fun_eq_iff\<close>)
    qed
    moreover have "inv_attempts (fail_retry c k n fl ?s1)" for n fl
      by (rule rule) (use False e in \<open>auto simp: fail_retry_def Let_def art_frame upd_attempt_list inflight_simps fun_eq_iff\<close>)
    moreover have "inv_attempts (fail_final now k ws err ?s1)" for ws
    proof -
      obtain there s2 where p: "pending_delete k (emit_all (map (\<lambda>w. Reject w err) ws)
          (upd_entry k (\<lambda>e. e\<lparr>e_failedAt := Some now, e_waiters := []\<rparr>) ?s1)) = (there, s2)" by fastforce
      show ?thesis
        by (rule rule) (use False e in \<open>auto simp: fail_final_def Let_def p notify_frame upd_screen_frame
          pending_delete_frame [OF p] art_frame upd_attempt_list inflight_simps fun_eq_iff\<close>)
    qed
    ultimately show ?thesis using False f by (auto simp: on_failed_def Let_def upd_attempt_frame)
  qed
qed

lemma length_filter_ref:
  "distinct (map at_ref xs) \<Longrightarrow> x \<in> set xs \<Longrightarrow> length (filter (\<lambda>y. at_ref y \<noteq> at_ref x) xs) = length xs - 1"
proof (induction xs)
  case (Cons y ys)
  show ?case
  proof (cases "x = y")
    case True
    then have "filter (\<lambda>z. at_ref z \<noteq> at_ref x) ys = ys"
      using Cons.prems by (auto simp: filter_id_conv image_iff)
    then show ?thesis using True by simp
  next
    case False
    then have "x \<in> set ys" "at_ref y \<noteq> at_ref x" using Cons.prems by (auto simp: image_iff)
    then show ?thesis using Cons by (cases ys) auto
  qed
qed simp

lemma finally_entry_None:
  assumes "inv_attempts s" "inv_entries s" "x \<in> set (s_attempts s)" "at_settled x"
  shows "entry_of_attempt (at_ref x) s = None"
  using settled_no_entry [OF assms(1,3,4)] entry_of_attempt_inflight(1) [OF inv_entriesD(1) [OF assms(2)]] by blast

lemma attempts_on_finally:
  assumes i: "inv_attempts s" and w: "inv_entries s" and x: "x \<in> set (s_attempts s)" "at_settled x"
  shows "inv_attempts (on_finally (at_ref x) s)"
proof -
  have d: "distinct (map at_ref (s_attempts s))" using i by (simp add: inv_attempts_def)
  have "find (\<lambda>y. at_ref y = at_ref x) (s_attempts s) \<noteq> None"
    using x by (auto simp: find_None_iff)
  then obtain y where y: "find (\<lambda>y. at_ref y = at_ref x) (s_attempts s) = Some y" by auto
  let ?s1 = "emit (ClearTimer (at_timer y)) (s\<lparr>s_attempts := filter (\<lambda>y. at_ref y \<noteq> at_ref x) (s_attempts s)\<rparr>)"
  have "entry_of_attempt (at_ref x) ?s1 = None"
    using finally_entry_None [OF i w x] by (simp add: entry_of_attempt_def emit_frame)
  then have eq: "on_finally (at_ref x) s = scheduleFlush (?s1\<lparr>s_active := s_active ?s1 - 1\<rparr>)"
    by (simp add: on_finally_def y Let_def)
  have "int (length (filter (\<lambda>y. at_ref y \<noteq> at_ref x) (s_attempts s))) = int (length (s_attempts s)) - 1"
    using length_filter_ref [OF d x(1)] x(1) by (cases "s_attempts s") auto
  moreover have "distinct (map at_ref (filter (\<lambda>y. at_ref y \<noteq> at_ref x) (s_attempts s)))"
    using d by (simp add: distinct_map_filter)
  moreover have "\<exists>y \<in> set (filter (\<lambda>y. at_ref y \<noteq> at_ref x) (s_attempts s)). at_ref y = a \<and> at_key y = k \<and> \<not> at_settled y"
    if "inflight (s_entries s) k = Some a" for k a
    using inflight_attempt [OF i that] settled_no_entry [OF i x, of k] that by fastforce
  ultimately show ?thesis
    using i unfolding eq inv_attempts_def by (auto simp: scheduleFlush_frame emit_frame)
qed

subsection \<open>Starting\<close>

lemma attempts_begin_load:
  assumes i: "inv_attempts s" and w: "inv_entries s" and e: "map_of (s_entries s) k = Some e" "e_queued e"
    and nd: "\<not> s_disposed s"
  shows "inv_attempts (begin_load c k s)" "s_active (begin_load c k s) \<le> s_active s + 1"
proof -
  let ?d = "dequeue k s" let ?e = "e\<lparr>e_queued := False, e_token := 0\<rparr>"
  have v: "e_inFlight e = None" "e_value e = None"
    using inv_entriesD(2) [OF w e(1)] e(2) by (auto simp: weight_defs)
  have fl: "inflight (s_entries ?d) = inflight (s_entries s)"
    unfolding dequeue_frame by (rule inflight_keep) simp
  have id: "inv_attempts ?d"
    by (rule inv_attempts_cong [OF i fl]) (use nd in \<open>auto simp: dequeue_frame\<close>)
  have d: "map_of (s_entries ?d) k = Some ?e" "\<not> s_disposed ?d"
    using e nd by (simp_all add: dequeue_frame js_map_simps)
  have none: "inflight (s_entries ?d) k = None" using d v by (simp add: inflight_def)
  have "inv_attempts (begin_load c k s) \<and> s_active (begin_load c k s) \<le> s_active s + 1"
  proof (cases "e_waiters e = []")
    case True
    then have eq: "begin_load c k s = del_entry k ?d"
      using d v by (simp add: begin_load_def start_load_def)
    have "inflight (s_entries (del_entry k ?d)) = inflight (s_entries ?d)"
      using none by (auto simp: del_entry_frame inflight_simps)
    then show ?thesis
      unfolding eq using d(2)
      by (auto simp: del_entry_frame dequeue_frame intro!: inv_attempts_cong [OF id])
  next
    case False
    then have nw: "e_waiters ?e \<noteq> []" by simp
    note f = start_load_frame [OF d nw, of c]
    let ?a = "s_nextRef ?d"
    let ?x = "\<lparr>at_ref = ?a, at_key = k, at_timer = Suc ?a, at_timedOut = False, at_settled = False\<rparr>"
    have fl': "inflight (s_entries (begin_load c k s)) = (inflight (s_entries ?d))(k \<mapsto> ?a)"
      unfolding begin_load_def inflight_untoken [OF f(1)] using d by (auto simp: inflight_simps)
    have fresh: "at_ref x < ?a" if "x \<in> set (s_attempts ?d)" for x
      using id that by (simp add: inv_attempts_def)
    have other: "inflight (s_entries ?d) (at_key x) = Some (at_ref x)" "at_key x \<noteq> k"
      if "x \<in> set (s_attempts ?d)" "\<not> at_settled x" for x
      using id that d(2) none by (auto simp: inv_attempts_def)
    have "?a \<notin> at_ref ` set (s_attempts ?d)" using fresh by fastforce
    then have "distinct (map at_ref (s_attempts ?d @ [?x]))"
      using id by (simp add: inv_attempts_def)
    moreover have "\<exists>x \<in> set (s_attempts ?d @ [?x]). at_ref x = b \<and> at_key x = k' \<and> \<not> at_settled x"
      if "((inflight (s_entries ?d))(k \<mapsto> ?a)) k' = Some b" for k' b
    proof (cases "k' = k")
      case True
      then show ?thesis using that by auto
    next
      case False
      then show ?thesis using inflight_attempt [OF id, of k' b] that by fastforce
    qed
    ultimately have "inv_attempts (begin_load c k s)"
      using id fresh other d(2)
      unfolding inv_attempts_def fl' by (auto simp: begin_load_def f less_SucI)
    then show ?thesis by (simp add: begin_load_def f dequeue_frame)
  qed
  then show "inv_attempts (begin_load c k s)" "s_active (begin_load c k s) \<le> s_active s + 1" by auto
qed

definition slots_ok :: "'v art_config \<Rightarrow> 'v sched \<Rightarrow> bool" where
  "slots_ok c s \<longleftrightarrow> s_active s \<le> c_concurrency c + c_priorityExtra c"

lemma attempts_pump:
  "inv_attempts s \<Longrightarrow> inv_entries s \<Longrightarrow> slots_ok c s \<Longrightarrow> 0 \<le> c_priorityExtra c \<Longrightarrow>
     inv_attempts (pump c s) \<and> slots_ok c (pump c s)"
proof (induction c s rule: pump.induct)
  case (1 c s)
  obtain r s' where p: "pump_pick c s = (r, s')" by fastforce
  note f = pump_pick_frame [OF p]
  have i: "inv_attempts s'" by (rule inv_attempts_cong [OF "1.prems"(1)]) (use "1.prems"(1) in \<open>auto simp: f inv_attempts_def\<close>)
  have w: "inv_entries s'" "slots_ok c s'" using "1.prems" by (simp_all add: inv_entries_def slots_ok_def f)
  show ?case
  proof (cases "s_disposed s \<or> r = None")
    case True
    then show ?thesis using 1 p i w by (auto simp: pump.simps [of c s])
  next
    case False
    then obtain k where r: "r = Some k" by auto
    obtain e where e: "map_of (s_entries s') k = Some e" "e_queued e"
      "s_active s' < c_concurrency c + (if e_priority e then c_priorityExtra c else 0)"
      using pump_pick_queued [OF p [unfolded r]] f by metis
    have nd: "\<not> s_disposed s'" using False f by simp
    note b = attempts_begin_load [OF i w(1) e(1,2) nd, of c]
    have "slots_ok c (begin_load c k s')" using b(2) e(3) "1.prems"(4) by (auto simp: slots_ok_def split: if_splits)
    then show ?thesis
      using "1.IH" [OF _ p [symmetric] r b(1) inv_begin_load [OF w(1) e(1,2) nd]] "1.prems" False p r
      by (simp add: pump.simps [of c s])
  qed
qed

subsection \<open>The other steps\<close>

lemma checkScreen_frame:
  "s_entries (checkScreen now s) = s_entries s" "s_active (checkScreen now s) = s_active s"
  "s_attempts (checkScreen now s) = s_attempts s" "s_nextRef (checkScreen now s) = s_nextRef s"
  "s_disposed (checkScreen now s) = s_disposed s" "s_flushScheduled (checkScreen now s) = s_flushScheduled s"
  "s_high (checkScreen now s) = s_high s" "s_normal (checkScreen now s) = s_normal s"
  "s_groups (checkScreen now s) = s_groups s" "s_nextToken (checkScreen now s) = s_nextToken s"
  "s_queuedCount (checkScreen now s) = s_queuedCount s" "s_byteTotal (checkScreen now s) = s_byteTotal s"
  by (auto simp: checkScreen_def Let_def emit_frame upd_screen_frame split: option.split)

lemma attempts_load_wait:
  assumes i: "inv_attempts s" and nd: "\<not> s_disposed s" and l: "load_wait c q k s = (w, s')"
  shows "inv_attempts s'" "s_active s' = s_active s"
proof -
  obtain e where e: "map_of (load_base c q k s) k = Some e"
    by (cases "map_of (s_entries s) k") (auto simp: load_base_def js_map_simps)
  have b: "inflight (load_base c q k s) = inflight (s_entries s)"
    by (cases "map_of (s_entries s) k") (auto simp: load_base_def inflight_def js_map_simps new_entry_def fun_eq_iff)
  have "inv_attempts s' \<and> s_active s' = s_active s"
    using l e
  proof (rule load_wait_frame)
    fix t sq
    assume f: "s_entries s' = AList.map_entry k (\<lambda>e. (waited q w e)\<lparr>e_queued := e_queued e \<or> idle e, e_seq := sq, e_token := t\<rparr>) (load_base c q k s)"
      "s_active s' = s_active s" "s_disposed s' = s_disposed s" "s_attempts s' = s_attempts s" "s_nextRef s' = Suc (s_nextRef s)"
    have "inflight (s_entries s') = inflight (s_entries s)"
      unfolding f b [symmetric] by (rule inflight_keep) simp
    then show ?thesis using f nd by (auto intro!: inv_attempts_cong [OF i])
  qed
  then show "inv_attempts s'" "s_active s' = s_active s" by simp_all
qed

lemma attempts_load:
  assumes i: "inv_attempts s" and w: "inv_entries s" and l: "load c now q k s = (r, s')"
  shows "inv_attempts s'" "s_active s' = s_active s"
proof -
  have c: "inv_attempts (load_cached now k s)" "s_active (load_cached now k s) = s_active s" if "\<not> s_disposed s"
    using that by (auto simp: load_cached_def Let_def art_frame inflight_simps intro!: inv_attempts_cong [OF i] split: option.split)
  have d: "inv_attempts (del_entry k s)" "s_active (del_entry k s) = s_active s" "s_disposed (del_entry k s) = s_disposed s"
    if "map_of (s_entries s) k = Some e" "failed_idle e" "\<not> s_disposed s" for e
    using that by (auto simp: del_entry_frame js_map_simps inflight_def fun_eq_iff failed_idle_def busy_def intro!: inv_attempts_cong [OF i])
  have "inv_attempts s' \<and> s_active s' = s_active s"
    using l i c d attempts_load_wait [OF i] attempts_load_wait [OF d(1)]
    by (auto simp: load_def split: if_splits prod.splits option.splits)
  then show "inv_attempts s'" "s_active s' = s_active s" by simp_all
qed

lemma abandon_frame:
  "inflight (s_entries (abandonIfUnwanted k s)) = inflight (s_entries s)"
  "s_active (abandonIfUnwanted k s) = s_active s" "s_attempts (abandonIfUnwanted k s) = s_attempts s"
  "s_nextRef (abandonIfUnwanted k s) = s_nextRef s" "s_disposed (abandonIfUnwanted k s) = s_disposed s"
proof -
  have "inflight (s_entries (abandonIfUnwanted k s)) = inflight (s_entries s) \<and>
     s_active (abandonIfUnwanted k s) = s_active s \<and> s_attempts (abandonIfUnwanted k s) = s_attempts s \<and>
     s_nextRef (abandonIfUnwanted k s) = s_nextRef s \<and> s_disposed (abandonIfUnwanted k s) = s_disposed s"
  proof (cases "map_of (s_entries s) k")
    case None
    then show ?thesis by (simp add: abandonIfUnwanted_def)
  next
    case (Some e)
    define s1 where "s1 = (case e_timer e of None \<Rightarrow> s
        | Some t \<Rightarrow> upd_entry k (\<lambda>e. e\<lparr>e_timer := None\<rparr>) (emit (ClearTimer t) s))"
    define s2 where "s2 = (if e_queued e then dequeue k s1 else s1)"
    define s3 where "s3 = (if e_inFlight e = None then del_entry k s2 else s2)"
    obtain b s4 where p: "pending_delete k s3 = (b, s4)" by fastforce
    have 1: "inflight (s_entries s1) = inflight (s_entries s)" "s_active s1 = s_active s" "s_attempts s1 = s_attempts s"
        "s_nextRef s1 = s_nextRef s" "s_disposed s1 = s_disposed s"
      by (auto simp: s1_def upd_entry_frame emit_frame intro!: inflight_keep split: option.split)
    have 2: "inflight (s_entries s2) = inflight (s_entries s)" "s_active s2 = s_active s" "s_attempts s2 = s_attempts s"
        "s_nextRef s2 = s_nextRef s" "s_disposed s2 = s_disposed s"
      unfolding 1 [symmetric] by (auto simp: s2_def dequeue_frame intro!: inflight_keep)
    have "inflight (s_entries s) k = e_inFlight e" using Some by (simp add: inflight_def)
    then have 3: "inflight (s_entries s3) = inflight (s_entries s)" "s_active s3 = s_active s" "s_attempts s3 = s_attempts s"
        "s_nextRef s3 = s_nextRef s" "s_disposed s3 = s_disposed s"
      unfolding 2 [symmetric] using 2(1) by (auto simp: s3_def del_entry_frame inflight_simps fun_eq_iff)
    have "abandonIfUnwanted k s = (if e_waiters e \<noteq> [] \<or> e_value e \<noteq> None then s else if b then scheduleFlush s4 else s4)"
      by (simp only: abandonIfUnwanted_def Some option.case Let_def s1_def [symmetric] s2_def [symmetric]
          s3_def [symmetric] p prod.case)
    then show ?thesis using 3 by (simp add: pending_delete_frame [OF p] scheduleFlush_frame)
  qed
  then show "inflight (s_entries (abandonIfUnwanted k s)) = inflight (s_entries s)"
    "s_active (abandonIfUnwanted k s) = s_active s" "s_attempts (abandonIfUnwanted k s) = s_attempts s"
    "s_nextRef (abandonIfUnwanted k s) = s_nextRef s" "s_disposed (abandonIfUnwanted k s) = s_disposed s"
    by simp_all
qed

lemma attempts_abort_waiter:
  assumes i: "inv_attempts s"
  shows "inv_attempts (abort_waiter w s)" "s_active (abort_waiter w s) = s_active s"
proof -
  have "inv_attempts (abort_waiter w s) \<and> s_active (abort_waiter w s) = s_active s"
  proof (cases "find (\<lambda>(k, e). w \<in> set (e_waiters e)) (s_entries s)")
    case None
    then show ?thesis using i by (simp add: abort_waiter_def)
  next
    case (Some p)
    then have "s_entries s \<noteq> []" by auto
    then have nd: "\<not> s_disposed s" using i by (auto simp: inv_attempts_def)
    obtain k e where p: "p = (k, e)" by fastforce
    let ?t = "emit (Reject w (abortError ''Aborted'')) (upd_entry k (\<lambda>e. e\<lparr>e_waiters := set_del w (e_waiters e)\<rparr>) s)"
    have "abort_waiter w s = abandonIfUnwanted k ?t" using Some p by (simp add: abort_waiter_def)
    moreover have "inflight (s_entries ?t) = inflight (s_entries s)"
      unfolding emit_frame upd_entry_frame by (rule inflight_keep) simp
    ultimately show ?thesis using nd
      by (auto simp: abandon_frame emit_frame upd_entry_frame intro!: inv_attempts_cong [OF i])
  qed
  then show "inv_attempts (abort_waiter w s)" "s_active (abort_waiter w s) = s_active s" by simp_all
qed

lemma attempts_reorder:
  assumes i: "inv_attempts s"
  shows "inv_attempts (reorder k order grp s)" "s_active (reorder k order grp s) = s_active s"
proof -
  obtain b s1 where p: "place k (Some order) grp s = (b, s1)" by fastforce
  note f = place_frame [OF p]
  have 1: "inflight (s_entries s1) = inflight (s_entries s)"
    unfolding f by (rule inflight_keep) (simp add: place_entry_def)
  have 2: "inflight (s_entries (pushNode k s1)) = inflight (s_entries s)"
    unfolding 1 [symmetric] pushNode_entries by (auto intro!: inflight_keep)
  have 3: "inv_attempts s1" "inv_attempts (scheduleFlush (pushNode k s1))" if "\<not> s_disposed s"
    using that 1 2 by (auto simp: scheduleFlush_frame pushNode_frame f intro!: inv_attempts_cong [OF i])
  have "inv_attempts (reorder k order grp s) \<and> s_active (reorder k order grp s) = s_active s"
    using p i 3 by (auto simp: reorder_def scheduleFlush_frame pushNode_frame f split: option.split)
  then show "inv_attempts (reorder k order grp s)" "s_active (reorder k order grp s) = s_active s" by simp_all
qed

lemma attempts_on_retry:
  assumes i: "inv_attempts s" and w: "inv_entries s"
  shows "inv_attempts (on_retry t s)" "s_active (on_retry t s) = s_active s"
proof -
  have "inv_attempts (on_retry t s) \<and> s_active (on_retry t s) = s_active s"
  proof (cases "find (\<lambda>(k, e). e_timer e = Some t) (s_entries s)")
    case None
    then show ?thesis using i by (simp add: on_retry_def)
  next
    case (Some p)
    obtain k e where p: "p = (k, e)" by fastforce
    have "s_entries s \<noteq> []" using Some by auto
    then have nd: "\<not> s_disposed s" using i by (auto simp: inv_attempts_def)
    have e: "map_of (s_entries s) k = Some e" "e_timer e = Some t"
      using entry_found [OF Some [unfolded p] inv_entriesD(1) [OF w]] by auto
    have none: "e_inFlight e = None" using inv_entriesD(2) [OF w e(1)] e(2) by (auto simp: weight_defs)
    let ?u = "upd_entry k (\<lambda>e. e\<lparr>e_timer := None\<rparr>) s"
    obtain b s2 where d: "pending_delete k (del_entry k ?u) = (b, s2)" by fastforce
    have 1: "inflight (s_entries ?u) = inflight (s_entries s)"
      unfolding upd_entry_frame by (rule inflight_keep) simp
    have 2: "inflight (s_entries (del_entry k ?u)) = inflight (s_entries s)"
      using e none by (auto simp: del_entry_frame upd_entry_frame inflight_def js_map_simps fun_eq_iff)
    have 3: "inflight (s_entries (enqueue k ?u)) = inflight (s_entries s)"
      unfolding 1 [symmetric] enqueue_frame by (rule inflight_keep) (simp add: enqueued_def)
    have "on_retry t s = (if e_waiters e = [] then if b then scheduleFlush s2 else s2 else enqueue k ?u)"
      using Some p d nd by (simp add: on_retry_def upd_entry_frame)
    then show ?thesis using nd 2 3
      by (auto simp: scheduleFlush_frame pending_delete_frame [OF d] del_entry_frame upd_entry_frame enqueue_frame
          intro!: inv_attempts_cong [OF i])
  qed
  then show "inv_attempts (on_retry t s)" "s_active (on_retry t s) = s_active s" by simp_all
qed

lemma attempts_cong_touch:
  assumes i: "inv_attempts s"
  shows "inv_attempts (touch k s)"
proof -
  have "s_disposed s \<longrightarrow> map_touch k (s_entries s) = []"
    using i by (auto simp: inv_attempts_def map_touch_def)
  moreover have "inflight (s_entries (touch k s)) = inflight (s_entries s)"
    by (simp only: touch_frame inflight_simps)
  ultimately show ?thesis by (intro inv_attempts_cong [OF i]) (simp_all add: touch_frame)
qed

lemma attempts_flush:
  assumes "inv_attempts s" "inv_entries s" "slots_ok c s" "0 \<le> c_priorityExtra c"
  shows "inv_attempts (flush c now s)" "slots_ok c (flush c now s)"
proof -
  let ?s = "s\<lparr>s_flushScheduled := False\<rparr>"
  have "inv_attempts ?s" "inv_entries ?s" "slots_ok c ?s"
    using assms by (simp_all add: inv_attempts_def inv_entries_def slots_ok_def)
  then have "inv_attempts (pump c ?s)" "slots_ok c (pump c ?s)" using attempts_pump assms(4) by blast+
  then show "inv_attempts (flush c now s)" "slots_ok c (flush c now s)"
    by (simp_all add: flush_def checkScreen_frame inv_attempts_def slots_ok_def)
qed

lemma attempts_dispose:
  assumes i: "inv_attempts s"
  shows "inv_attempts (dispose s)"
  using i by (auto simp: dispose_def emit_all_frame inv_attempts_def inflight_def)

lemma attempts_on_timeout:
  assumes i: "inv_attempts s"
  shows "inv_attempts (on_timeout a s)"
proof -
  define f where "f = (\<lambda>x :: art_attempt. if at_ref x = a then x\<lparr>at_timedOut := True\<rparr> else x)"
  have f: "at_ref (f x) = at_ref x" "at_key (f x) = at_key x" "at_settled (f x) = at_settled x" for x
    by (simp_all add: f_def)
  have "s_attempts (on_timeout a s) = map f (s_attempts s)"
    by (simp add: on_timeout_def emit_frame upd_attempt_list f_def)
  then show ?thesis
    using i by (simp add: inv_attempts_def on_timeout_def emit_frame upd_attempt_frame f comp_def)
qed

lemma trim_active: "s_active (trim c s) = s_active s"
  by (simp add: trim_def emit_all_frame split: prod.split)

lemma on_loaded_active: "s_active (on_loaded c now a v s) = s_active s"
  by (auto simp: on_loaded_def Let_def pending_delete_def trim_active finishAttempt_frame emit_frame emit_all_frame
      notify_frame upd_entry_frame touch_frame upd_screen_frame upd_attempt_frame split: option.split)

lemma on_failed_active: "s_active (on_failed c now a err s) = s_active s"
  by (auto simp: on_failed_def fail_unwanted_def fail_retry_def fail_final_def Let_def pending_delete_def
      finishAttempt_frame emit_frame emit_all_frame scheduleFlush_frame del_entry_frame
      notify_frame upd_entry_frame upd_screen_frame upd_attempt_frame split: option.split)

lemma on_finally_active: "entry_of_attempt a s = None \<Longrightarrow> s_active (on_finally a s) \<le> s_active s"
  by (auto simp: on_finally_def Let_def entry_of_attempt_def emit_frame scheduleFlush_frame split: option.split)

lemma bystander_frame:
  "inv_entries (beginScreen now l s) = inv_entries s" "inv_entries (subscribe i s) = inv_entries s"
  "inv_entries (unsubscribe i s) = inv_entries s" "inv_entries (run_teardown s) = inv_entries s"
  "inv_attempts (beginScreen now l s) = inv_attempts s" "inv_attempts (subscribe i s) = inv_attempts s"
  "inv_attempts (unsubscribe i s) = inv_attempts s" "inv_attempts (run_teardown s) = inv_attempts s"
  "s_active (beginScreen now l s) = s_active s" "s_active (subscribe i s) = s_active s"
  "s_active (unsubscribe i s) = s_active s" "s_active (run_teardown s) = s_active s"
  by (simp_all add: beginScreen_def subscribe_def unsubscribe_def run_teardown_def emit_all_def inv_entries_def inv_attempts_def)

section \<open>Every reachable state\<close>

definition art_ok :: "'v art_config \<Rightarrow> 'v sched \<Rightarrow> bool" where
  "art_ok c s \<longleftrightarrow> inv_entries s \<and> inv_attempts s \<and> slots_ok c s"

lemma art_ok_step:
  assumes "art_step c s s'" "art_ok c s" "0 \<le> c_priorityExtra c"
  shows "art_ok c s'"
proof -
  have i: "inv_entries s" "inv_attempts s" and sl: "slots_ok c s" using assms(2) by (simp_all add: art_ok_def)
  have same: "slots_ok c s'" if "s_active s' \<le> s_active s" using sl that by (simp add: slots_ok_def)
  have dis: "s_disposed s \<longrightarrow> s_entries s = []" using i(2) by (simp add: inv_attempts_def)
  from assms(1) show ?thesis
  proof cases
    case (step_load now q k answer)
    then show ?thesis using inv_load [OF i(1)] attempts_load [OF i(2,1)] same by (simp add: art_ok_def)
  next
    case (step_peek k answer)
    then have "s' = s \<or> s' = touch k s" by (auto simp: peek_def split: option.splits)
    then show ?thesis
      using i sl same attempts_cong_touch [OF i(2)] entries_ok_touch
      by (auto simp: art_ok_def inv_entries_def touch_frame)
  next
    case (step_finally x)
    then show ?thesis
      using inv_on_finally [OF i(1)] attempts_on_finally [OF i(2,1)] finally_entry_None [OF i(2,1)]
        on_finally_active [of "at_ref x" s] same by (auto simp: art_ok_def)
  next
    case step_retry
    then show ?thesis using inv_on_retry [OF i(1) dis] attempts_on_retry [OF i(2,1)] same by (auto simp: art_ok_def)
  next
    case step_flush
    then show ?thesis using inv_flush [OF i(1)] attempts_flush [OF i(2,1) sl assms(3)] by (auto simp: art_ok_def)
  next
    case step_dispose
    then show ?thesis
      using inv_dispose [OF i(1)] attempts_dispose [OF i(2)] same by (auto simp: art_ok_def dispose_def emit_all_frame)
  next
    case step_timeout
    then show ?thesis
      using i same attempts_on_timeout [OF i(2)]
      by (auto simp: art_ok_def on_timeout_def inv_entries_def emit_frame upd_attempt_frame)
  qed (use i same in \<open>auto simp: art_ok_def inv_reorder attempts_reorder inv_abort_waiter attempts_abort_waiter
      inv_on_loaded attempts_on_loaded on_loaded_active inv_on_failed attempts_on_failed on_failed_active
      bystander_frame\<close>)
qed

lemma art_reachable_ok:
  assumes "art_reachable c s" "0 \<le> c_priorityExtra c" "0 \<le> c_concurrency c"
  shows "art_ok c s"
  using assms(1)
proof induction
  case art_init
  show ?case
    using assms(2,3)
    by (simp add: art_ok_def new_scheduler_def inv_entries_def entries_ok_def inv_attempts_def slots_ok_def inflight_def)
next
  case art_next
  then show ?case using art_ok_step assms(2) by blast
qed

end
