(* ===== verification/Artwork_Order.thy ===== *)
theory Artwork_Order
  imports Artwork_Slots
begin

text \<open>
  The order in which the artwork scheduler starts work. Both lanes are heaps for
  \<open>nodeBefore\<close>; every queued entry has exactly one live node, in the lane of its priority and
  with the entry's own rank, order and sequence; nodes left behind by a re-placement are stale
  and are skipped. So the pump starts the least queued entry, and no work is forgotten.
\<close>

section \<open>The order of nodes\<close>

interpretation nodes: weak_order nodeBefore
proof
  show "nodeBefore a b \<Longrightarrow> \<not> nodeBefore b a" for a b
    by (auto simp: nodeBefore_def split: if_splits)
  show "\<not> nodeBefore b a \<Longrightarrow> \<not> nodeBefore c b \<Longrightarrow> \<not> nodeBefore c a" for a b c
    by (auto simp: nodeBefore_def split: if_splits)
qed

section \<open>The invariant of the lanes\<close>

definition node_of :: "'v sched \<Rightarrow> art_key \<Rightarrow> 'v art_entry \<Rightarrow> art_node" where
  "node_of s k e = \<lparr>n_key = k, n_token = e_token e, n_rank = node_rank s e, n_order = e_order e, n_seq = e_seq e\<rparr>"

text \<open>The keys of \<open>X\<close> are about to be pushed and are exempt.\<close>

definition nodes_ok :: "art_key set \<Rightarrow> 'v sched \<Rightarrow> bool" where
  "nodes_ok X s \<longleftrightarrow>
     (\<forall>hi. is_heap nodeBefore (lane hi s))
     \<and> (\<forall>hi. \<forall>n \<in> set (lane hi s). n_token n \<le> s_nextToken s)
     \<and> (\<forall>k e. map_of (s_entries s) k = Some e \<longrightarrow> e_queued e \<longrightarrow> k \<notin> X \<longrightarrow>
          node_of s k e \<in> set (lane (e_priority e) s)
          \<and> (\<forall>hi. \<forall>n \<in> set (lane hi s). n_key n = k \<longrightarrow> n_token n = e_token e \<longrightarrow>
               hi = e_priority e \<and> n = node_of s k e))"

definition groups_ok :: "'v sched \<Rightarrow> bool" where
  "groups_ok s \<longleftrightarrow>
     (\<forall>k e g. map_of (s_entries s) k = Some e \<longrightarrow> e_queued e \<longrightarrow> e_group e = Some g \<longrightarrow>
        (\<exists>r. map_of (s_groups s) g = Some r \<and> k \<in> set (g_queued r)))"

definition order_ok :: "art_key set \<Rightarrow> 'v sched \<Rightarrow> bool" where
  "order_ok X s \<longleftrightarrow> nodes_ok X s \<and> groups_ok s"

definition sched_key :: "'v art_entry \<Rightarrow> nat \<times> bool \<times> rat \<times> nat \<times> string option" where
  "sched_key e = (e_token e, e_priority e, e_order e, e_seq e, e_group e)"

text \<open>The group that lists a key survives with its \<open>started\<close> flag.\<close>

definition keeps :: "art_key \<Rightarrow> 'v sched \<Rightarrow> 'v sched \<Rightarrow> bool" where
  "keeps k s s' \<longleftrightarrow>
     (\<forall>g r. map_of (s_groups s) g = Some r \<longrightarrow> k \<in> set (g_queued r) \<longrightarrow>
        (\<exists>r'. map_of (s_groups s') g = Some r' \<and> g_started r' = g_started r \<and> k \<in> set (g_queued r')))"

lemma node_of_groups: "s_groups s' = s_groups s \<Longrightarrow> node_of s' k e = node_of s k e"
proof -
  assume "s_groups s' = s_groups s"
  then show ?thesis unfolding node_of_def node_rank_def by (simp only:)
qed

lemma keeps_same: "s_groups s' = s_groups s \<Longrightarrow> keeps k s s'"
  by (simp add: keeps_def)

lemma keeps_trans: "keeps k s s' \<Longrightarrow> keeps k s' s'' \<Longrightarrow> keeps k s s''"
  unfolding keeps_def by metis

lemma node_of_keeps:
  assumes "groups_ok s" "map_of (s_entries s) k = Some e" "e_queued e" "sched_key e' = sched_key e" "keeps k s s'"
  shows "node_of s' k e' = node_of s k e"
proof -
  have "node_rank s' e' = node_rank s e"
  proof (cases "e_group e")
    case None
    then show ?thesis using assms(4) by (simp add: node_rank_def sched_key_def)
  next
    case (Some g)
    then obtain r where r: "map_of (s_groups s) g = Some r" "k \<in> set (g_queued r)"
      using assms(1-3) unfolding groups_ok_def by blast
    then obtain r' where "map_of (s_groups s') g = Some r'" "g_started r' = g_started r"
      using assms(5) unfolding keeps_def by blast
    then show ?thesis using r Some assms(4) by (simp add: node_rank_def sched_key_def)
  qed
  then show ?thesis using assms(4) by (simp add: node_of_def sched_key_def)
qed

text \<open>A step that leaves the lanes alone and may only unqueue entries or change exempt ones.\<close>

lemma order_ok_step:
  assumes o: "order_ok X s"
    and hl: "s_high s' = s_high s" "s_normal s' = s_normal s" "s_nextToken s' = s_nextToken s"
    and keep: "\<And>k e'. map_of (s_entries s') k = Some e' \<Longrightarrow> e_queued e' \<Longrightarrow> k \<notin> Y \<Longrightarrow>
        k \<notin> X \<and> keeps k s s' \<and>
        (\<exists>e. map_of (s_entries s) k = Some e \<and> e_queued e \<and> sched_key e' = sched_key e)"
    and exempt: "\<And>k e' g. map_of (s_entries s') k = Some e' \<Longrightarrow> e_queued e' \<Longrightarrow> k \<in> Y \<Longrightarrow> e_group e' = Some g \<Longrightarrow>
        \<exists>r. map_of (s_groups s') g = Some r \<and> k \<in> set (g_queued r)"
  shows "order_ok Y s'"
proof -
  have n: "nodes_ok X s" and g: "groups_ok s" using o by (simp_all add: order_ok_def)
  have l: "lane hi s' = lane hi s" for hi using hl by (simp add: lane_def)
  have "node_of s' k e' \<in> set (lane (e_priority e') s') \<and>
      (\<forall>hi. \<forall>n \<in> set (lane hi s'). n_key n = k \<longrightarrow> n_token n = e_token e' \<longrightarrow> hi = e_priority e' \<and> n = node_of s' k e')"
    if e': "map_of (s_entries s') k = Some e'" "e_queued e'" "k \<notin> Y" for k e'
  proof -
    obtain e where e: "k \<notin> X" "keeps k s s'" "map_of (s_entries s) k = Some e" "e_queued e" "sched_key e' = sched_key e"
      using keep [OF e'] by blast
    have "node_of s' k e' = node_of s k e" by (rule node_of_keeps [OF g e(3,4,5,2)])
    moreover have "e_priority e' = e_priority e" "e_token e' = e_token e" using e(5) by (simp_all add: sched_key_def)
    ultimately show ?thesis using n e(1,3,4) by (simp add: nodes_ok_def l)
  qed
  then have "nodes_ok Y s'" using n by (simp add: nodes_ok_def l hl)
  moreover have "\<exists>r. map_of (s_groups s') gr = Some r \<and> k \<in> set (g_queued r)"
    if e': "map_of (s_entries s') k = Some e'" "e_queued e'" "e_group e' = Some gr" for k e' gr
  proof (cases "k \<in> Y")
    case True
    then show ?thesis using exempt e' by blast
  next
    case False
    then obtain e where e: "keeps k s s'" "map_of (s_entries s) k = Some e" "e_queued e" "sched_key e' = sched_key e"
      using keep [OF e'(1,2)] by blast
    then have "e_group e = Some gr" using e'(3) by (simp add: sched_key_def)
    then show ?thesis using e g unfolding groups_ok_def keeps_def by metis
  qed
  ultimately show ?thesis by (simp add: order_ok_def groups_ok_def)
qed

text \<open>The common case: groups untouched, every queued entry as it was.\<close>

lemma order_ok_same:
  fixes s s' :: "'v sched"
  assumes "order_ok X s" "s_high s' = s_high s" "s_normal s' = s_normal s" "s_nextToken s' = s_nextToken s"
    "s_groups s' = s_groups s"
    "\<And>k e'. map_of (s_entries s') k = Some e' \<Longrightarrow> e_queued e' \<Longrightarrow>
        (\<exists>e. map_of (s_entries s) k = Some e \<and> e_queued e \<and> sched_key e' = sched_key e)"
  shows "order_ok X s'"
proof (rule order_ok_step [OF assms(1-4)])
  show "\<exists>r. map_of (s_groups s') g = Some r \<and> k \<in> set (g_queued r)"
    if t: "map_of (s_entries s') k = Some e'" "e_queued e'" "e_group e' = Some g" for k e' g
  proof -
    obtain e where "map_of (s_entries s) k = Some e" "e_queued e" "sched_key e' = sched_key e"
      using assms(6) t(1,2) by blast
    then show ?thesis
      using assms(1) t(3) unfolding order_ok_def groups_ok_def assms(5) by (simp add: sched_key_def)
  qed
qed (use assms(5,6) keeps_same in auto)

section \<open>Pushing and popping\<close>

lemma lane_simps:
  "lane hi (s\<lparr>s_high := h\<rparr>) = (if hi then h else s_normal s)"
  "lane hi (s\<lparr>s_normal := h\<rparr>) = (if hi then s_high s else h)"
  by (simp_all add: lane_def)

lemma order_ok_compact: "order_ok X s \<Longrightarrow> order_ok X (compact s)"
proof -
  assume o: "order_ok X s"
  have ret: "set (heap_retain nodeBefore P xs) = {n \<in> set xs. P n}" for P xs
    using mset_heap_retain [of nodeBefore P xs] by (metis mset_filter set_filter set_mset_mset)
  have l: "set (lane hi (compact s)) = set (lane hi s) \<or> set (lane hi (compact s)) = {n \<in> set (lane hi s). live_node s n}" for hi
    by (simp add: compact_def lane_def ret)
  have "is_heap nodeBefore (lane hi s)" for hi using o by (simp add: order_ok_def nodes_ok_def)
  from this [of True] this [of False] have h: "is_heap nodeBefore (lane hi (compact s))" for hi
    using nodes.heap_retain_heap by (auto simp: compact_def lane_def)
  have r: "node_of (compact s) k e = node_of s k e" for k e
    by (rule node_of_groups) (rule compact_frame)
  have sub: "set (lane hi (compact s)) \<subseteq> set (lane hi s)" for hi using l [of hi] by auto
  have live: "node_of s k e \<in> set (lane hi (compact s))"
    if "node_of s k e \<in> set (lane hi s)" "map_of (s_entries s) k = Some e" "e_queued e" for k e hi
  proof -
    have "live_node s (node_of s k e)" using that(2,3) by (simp add: live_node_def node_of_def)
    then show ?thesis using l [of hi] that(1) by blast
  qed
  have "n_token n \<le> s_nextToken s" if "n \<in> set (lane hi (compact s))" for n hi
    using o sub that unfolding order_ok_def nodes_ok_def by blast
  moreover have "node_of s k e \<in> set (lane (e_priority e) (compact s)) \<and>
     (\<forall>hi. \<forall>n \<in> set (lane hi (compact s)). n_key n = k \<longrightarrow> n_token n = e_token e \<longrightarrow> hi = e_priority e \<and> n = node_of s k e)"
    if e: "map_of (s_entries s) k = Some e" "e_queued e" "k \<notin> X" for k e
  proof -
    have "node_of s k e \<in> set (lane (e_priority e) s)"
      "\<forall>hi. \<forall>n \<in> set (lane hi s). n_key n = k \<longrightarrow> n_token n = e_token e \<longrightarrow> hi = e_priority e \<and> n = node_of s k e"
      using o e unfolding order_ok_def nodes_ok_def by blast+
    then show ?thesis using live e(1,2) sub by blast
  qed
  ultimately have "nodes_ok X (compact s)"
    using h unfolding nodes_ok_def r compact_frame by blast
  then show ?thesis using o by (simp add: order_ok_def groups_ok_def compact_frame)
qed

lemma order_ok_pushNode:
  assumes o: "order_ok X s" and e: "map_of (s_entries s) k = Some e"
  shows "order_ok (X - {k}) (pushNode k s)"
proof -
  let ?t = "Suc (s_nextToken s)"
  let ?n = "\<lparr>n_key = k, n_token = ?t, n_rank = node_rank s e, n_order = e_order e, n_seq = e_seq e\<rparr>"
  let ?s1 = "upd_entry k (\<lambda>e. e\<lparr>e_token := ?t\<rparr>) (s\<lparr>s_nextToken := ?t\<rparr>)"
  let ?s2 = "if e_priority e then ?s1\<lparr>s_high := heap_push nodeBefore ?n (s_high ?s1)\<rparr>
             else ?s1\<lparr>s_normal := heap_push nodeBefore ?n (s_normal ?s1)\<rparr>"
  have n: "nodes_ok X s" and g: "groups_ok s" using o by (simp_all add: order_ok_def)
  have lane: "lane hi ?s2 = (if hi = e_priority e then heap_push nodeBefore ?n (lane hi s) else lane hi s)" for hi
    by (auto simp: lane_def upd_entry_frame)
  have set_push: "set (heap_push nodeBefore x xs) = insert x (set xs)" for x xs
    using mset_heap_push [of nodeBefore x xs] by (metis insert_DiffM2 set_mset_add_mset_insert set_mset_mset union_mset_add_mset_right add.right_neutral)
  have f: "s_entries ?s2 = AList.map_entry k (\<lambda>e. e\<lparr>e_token := ?t\<rparr>) (s_entries s)" "s_groups ?s2 = s_groups s"
      "s_nextToken ?s2 = ?t"
    by (simp_all add: upd_entry_frame)
  have rank: "node_of ?s2 k' e' = node_of s k' e'" for k' e' by (rule node_of_groups) (rule f)
  have old: "n_token m \<le> s_nextToken s" if "m \<in> set (lane hi s)" for m hi using n that by (auto simp: nodes_ok_def)
  have "is_heap nodeBefore (lane hi ?s2)" for hi
    using n nodes.heap_push_heap by (auto simp: lane nodes_ok_def)
  moreover have "n_token m \<le> s_nextToken ?s2" if "m \<in> set (lane hi ?s2)" for m hi
    using that old unfolding lane f by (auto simp: set_push le_Suc_eq split: if_splits)
  moreover have "node_of ?s2 k' e' \<in> set (lane (e_priority e') ?s2) \<and>
      (\<forall>hi. \<forall>m \<in> set (lane hi ?s2). n_key m = k' \<longrightarrow> n_token m = e_token e' \<longrightarrow> hi = e_priority e' \<and> m = node_of ?s2 k' e')"
    if e': "map_of (s_entries ?s2) k' = Some e'" "e_queued e'" "k' \<notin> X - {k}" for k' e'
  proof (cases "k' = k")
    case True
    then have e'': "e' = e\<lparr>e_token := ?t\<rparr>" using e' e by (auto simp: f(1) js_map_simps)
    then have "node_of s k' e' = ?n" "e_priority e' = e_priority e" "e_token e' = ?t"
      using True by (auto simp: node_of_def node_rank_def)
    moreover have "m \<in> set (lane hi s) \<Longrightarrow> n_token m \<noteq> ?t" for m hi using old [of m hi] by simp
    ultimately show ?thesis unfolding rank lane by (auto simp: set_push split: if_splits)
  next
    case False
    then have "map_of (s_entries s) k' = Some e'" "k' \<notin> X" using e' by (auto simp: f(1) js_map_simps)
    then have "node_of s k' e' \<in> set (lane (e_priority e') s)"
      "\<forall>hi. \<forall>m \<in> set (lane hi s). n_key m = k' \<longrightarrow> n_token m = e_token e' \<longrightarrow> hi = e_priority e' \<and> m = node_of s k' e'"
      using n e'(2) by (auto simp: nodes_ok_def)
    then show ?thesis unfolding rank lane using False by (auto simp: set_push)
  qed
  ultimately have "nodes_ok (X - {k}) ?s2" unfolding nodes_ok_def by blast
  moreover have "groups_ok ?s2" using g e by (auto simp: groups_ok_def f js_map_simps split: if_splits)
  ultimately have "order_ok (X - {k}) (compact ?s2)" by (intro order_ok_compact) (simp add: order_ok_def)
  then show ?thesis using e by (simp add: pushNode_def Let_def)
qed

lemma order_ok_mono: "order_ok X s \<Longrightarrow> X \<subseteq> Y \<Longrightarrow> order_ok Y s"
  unfolding order_ok_def nodes_ok_def by blast

lemma lane_pop_lane: "lane h (pop_lane hi s) = (if h = hi then snd (heap_pop nodeBefore (lane hi s)) else lane h s)"
  by (auto simp: pop_lane_def set_lane_def lane_def)

lemma set_pop_lane:
  "set (lane h (pop_lane hi s)) \<subseteq> set (lane h s)"
  "heap_peek (lane hi s) = Some n \<Longrightarrow> m \<in> set (lane h s) \<Longrightarrow> m \<noteq> n \<or> h \<noteq> hi \<Longrightarrow> m \<in> set (lane h (pop_lane hi s))"
proof -
  show "set (lane h (pop_lane hi s)) \<subseteq> set (lane h s)"
    using set_heap_pop [of nodeBefore "lane hi s"] by (simp add: lane_pop_lane)
  assume n: "heap_peek (lane hi s) = Some n" "m \<in> set (lane h s)" "m \<noteq> n \<or> h \<noteq> hi"
  then have "m \<in># mset (lane hi s) - {#n#}" if "h = hi"
    using that by (auto simp: in_diff_count)
  then show "m \<in> set (lane h (pop_lane hi s))"
    using n(2) mset_heap_pop [OF n(1), of nodeBefore] by (auto simp: lane_pop_lane simp flip: set_mset_mset)
qed

text \<open>Popping a node exempts the key it was the live node of, if any.\<close>

lemma order_ok_pop:
  assumes o: "order_ok X s" and p: "heap_peek (lane hi s) = Some n"
    and Y: "X \<subseteq> Y" "usable_node hi s n \<Longrightarrow> n_key n \<in> Y"
  shows "order_ok Y (pop_lane hi s)"
proof -
  have r: "node_of (pop_lane hi s) k e = node_of s k e" for k e
    by (rule node_of_groups) (rule pop_lane_frame)
  have nd: "nodes_ok X s" using o by (simp add: order_ok_def)
  have "is_heap nodeBefore (lane h (pop_lane hi s))" for h
    using nd nodes.heap_pop_heap by (simp add: lane_pop_lane nodes_ok_def)
  moreover have "n_token m \<le> s_nextToken s" if "m \<in> set (lane h (pop_lane hi s))" for m h
    using nd set_pop_lane(1) that unfolding nodes_ok_def by blast
  moreover have "node_of s k e \<in> set (lane (e_priority e) (pop_lane hi s)) \<and>
     (\<forall>h. \<forall>m \<in> set (lane h (pop_lane hi s)). n_key m = k \<longrightarrow> n_token m = e_token e \<longrightarrow> h = e_priority e \<and> m = node_of s k e)"
    if e: "map_of (s_entries s) k = Some e" "e_queued e" "k \<notin> Y" for k e
  proof -
    have "usable_node hi s n \<and> n_key n = k" if "node_of s k e = n" "e_priority e = hi"
      using e that by (auto simp: usable_node_def node_of_def)
    then have ne: "node_of s k e \<noteq> n \<or> e_priority e \<noteq> hi" using Y(2) e(3) by metis
    have "node_of s k e \<in> set (lane (e_priority e) s)"
      "\<forall>h. \<forall>m \<in> set (lane h s). n_key m = k \<longrightarrow> n_token m = e_token e \<longrightarrow> h = e_priority e \<and> m = node_of s k e"
      using nd e Y(1) unfolding nodes_ok_def by blast+
    then show ?thesis using set_pop_lane(1) set_pop_lane(2) [OF p _ ne] by blast
  qed
  ultimately have "nodes_ok Y (pop_lane hi s)"
    unfolding nodes_ok_def r pop_lane_frame by blast
  then show ?thesis using o by (simp add: order_ok_def groups_ok_def pop_lane_frame)
qed

lemma order_ok_headOf: "order_ok X s \<Longrightarrow> order_ok X (snd (headOf hi s))"
proof (induction hi s rule: headOf.induct)
  case (1 hi s)
  show ?case
  proof (cases "heap_peek (lane hi s)")
    case None
    then show ?thesis using 1 by (simp add: headOf.simps [of hi s])
  next
    case (Some n)
    show ?thesis
    proof (cases "usable_node hi s n")
      case True
      then show ?thesis using 1(2) Some by (simp add: headOf.simps [of hi s])
    next
      case False
      then have "order_ok X (pop_lane hi s)" using order_ok_pop [OF 1(2) Some, of X] by simp
      then show ?thesis using 1(1) Some False by (simp add: headOf.simps [of hi s])
    qed
  qed
qed

lemma headOf_peek:
  "fst (headOf hi s) = heap_peek (lane hi (snd (headOf hi s)))"
  "lane (\<not> hi) (snd (headOf hi s)) = lane (\<not> hi) s"
proof (induction hi s rule: headOf.induct)
  case (1 hi s)
  { case 1 then show ?case using "1.IH" by (auto simp: headOf.simps [of hi s] split: option.split) next
    case 2 then show ?case using "1.IH" by (auto simp: headOf.simps [of hi s] lane_pop_lane split: option.split) }
qed

section \<open>Operations\<close>

lemma keeps_upd_group:
  "(\<And>r. map_of (s_groups s) g = Some r \<Longrightarrow> g_started (f r) = g_started r \<and> (k \<in> set (g_queued r) \<longrightarrow> k \<in> set (g_queued (f r)))) \<Longrightarrow>
   keeps k s (upd_group g f s)"
  by (auto simp: keeps_def upd_group_frame js_map_simps)

lemma keeps_dropGroupIfIdle: "keeps k s (dropGroupIfIdle g s)"
  by (auto simp: keeps_def dropGroupIfIdle_def js_map_simps split: option.split)

lemma keeps_groupFor: "keeps k s (groupFor g s)"
  by (auto simp: keeps_def groupFor_def js_map_simps)

lemma keeps_upd_entry: "keeps k s (upd_entry k' f s)"
  by (rule keeps_same) (simp add: upd_entry_frame)

lemma keeps_dequeue: "k' \<noteq> k \<Longrightarrow> keeps k' s (dequeue k s)"
proof (cases "map_of (s_entries s) k")
  case (Some e)
  assume n: "k' \<noteq> k"
  let ?s2 = "(upd_entry k (\<lambda>e. e\<lparr>e_queued := False, e_token := 0\<rparr>) s)\<lparr>s_queuedCount := s_queuedCount s - 1\<rparr>"
  have 2: "keeps k' s ?s2" by (rule keeps_same) (simp add: upd_entry_frame)
  have "keeps k' s (dropGroupIfIdle g (upd_group g (\<lambda>r. r\<lparr>g_queued := set_del k (g_queued r)\<rparr>) ?s2))" for g
    by (rule keeps_trans [OF keeps_trans [OF 2 keeps_upd_group] keeps_dropGroupIfIdle]) (simp add: n)
  then show ?thesis using Some 2 by (auto simp: dequeue_def Let_def upd_entry_frame split: option.split)
qed (simp add: dequeue_def keeps_same)

lemma order_ok_dequeue:
  assumes o: "order_ok X s"
  shows "order_ok (X - {k}) (dequeue k s)"
proof (rule order_ok_step [OF o])
  fix k' e'
  assume e': "map_of (s_entries (dequeue k s)) k' = Some e'" "e_queued e'"
  then have ne: "k' \<noteq> k" "map_of (s_entries s) k' = Some e'"
    by (auto simp: dequeue_frame js_map_simps split: if_splits)
  { assume "k' \<notin> X - {k}"
    then show "k' \<notin> X \<and> keeps k' s (dequeue k s) \<and>
        (\<exists>e. map_of (s_entries s) k' = Some e \<and> e_queued e \<and> sched_key e' = sched_key e)"
      using ne e' keeps_dequeue by auto }
  fix g assume "e_group e' = Some g"
  then obtain r where "map_of (s_groups s) g = Some r" "k' \<in> set (g_queued r)"
    using o ne e'(2) unfolding order_ok_def groups_ok_def by blast
  then show "\<exists>r. map_of (s_groups (dequeue k s)) g = Some r \<and> k' \<in> set (g_queued r)"
    using keeps_dequeue [OF ne(1)] unfolding keeps_def by blast
qed (simp_all add: dequeue_frame)

lemma keeps_leave: "k' \<noteq> k \<Longrightarrow> keeps k' s (leave_group k e s)"
proof -
  assume n: "k' \<noteq> k"
  have "keeps k' s (dropGroupIfIdle g (upd_group g (\<lambda>r. r\<lparr>g_queued := set_del k (g_queued r),
                                       g_inFlight := f r\<rparr>) s))" for g f
    by (rule keeps_trans [OF keeps_upd_group keeps_dropGroupIfIdle]) (simp add: n)
  note * = this [of _ "\<lambda>r. g_inFlight r - (if e_inFlight e \<noteq> None then 1 else 0)"]
  show ?thesis
  proof (cases "e_group e")
    case (Some g)
    then show ?thesis
      by (cases "map_has (s_groups s) g")
        (simp_all only: leave_group_def Some option.case if_True if_False * keeps_same simp_thms)
  qed (simp add: leave_group_def keeps_same)
qed

lemma keeps_join: "keeps k' s (join_group k e g s)"
proof -
  have "keeps k' s (upd_group g (\<lambda>r. r\<lparr>g_queued := (if e_queued e then set_add k (g_queued r) else g_queued r),
       g_inFlight := f r\<rparr>) (groupFor g s))" for f
    by (rule keeps_trans [OF keeps_groupFor keeps_upd_group]) auto
  then show ?thesis by (simp add: join_group_def keeps_same)
qed

lemma order_ok_place_order:
  assumes o: "order_ok X s" and p: "place_order k order s = (b, s')"
  shows "order_ok (insert k X) s'"
proof (rule order_ok_step [OF o])
  note f = place_order_frame [OF p]
  fix k' e'
  assume e': "map_of (s_entries s') k' = Some e'" "e_queued e'"
  { assume "k' \<notin> insert k X"
    then show "k' \<notin> X \<and> keeps k' s s' \<and>
        (\<exists>e. map_of (s_entries s) k' = Some e \<and> e_queued e \<and> sched_key e' = sched_key e)"
      using e' by (auto simp: f js_map_simps keeps_same) }
  fix g assume g: "e_group e' = Some g"
  obtain e where "map_of (s_entries s) k' = Some e" "e_queued e" "e_group e = Some g"
    using e' g by (auto simp: f js_map_simps place_entry_def split: if_splits)
  then show "\<exists>r. map_of (s_groups s') g = Some r \<and> k' \<in> set (g_queued r)"
    using o unfolding order_ok_def groups_ok_def f by blast
qed (simp_all add: place_order_frame [OF p])

lemma order_ok_place_group:
  assumes o: "order_ok X s" and p: "place_group k grp s = (b, s')"
  shows "order_ok (insert k X) s'"
proof (cases "s' = s")
  case True
  then show ?thesis using order_ok_mono [OF o] by blast
next
  case False
  then obtain e g where e: "map_of (s_entries s) k = Some e"
    and s': "s' = join_group k e g (upd_entry k (\<lambda>e. e\<lparr>e_group := Some g\<rparr>) (leave_group k e s))"
    using p by (auto simp: place_group_def split: option.splits if_splits)
  note f = place_group_frame [OF p]
  have en: "s_entries s' = AList.map_entry k (\<lambda>e. e\<lparr>e_group := Some g\<rparr>) (s_entries s)"
    by (simp add: s' leave_join_frame upd_entry_frame)
  have keep: "keeps k' s s'" if "k' \<noteq> k" for k'
    unfolding s' using keeps_trans [OF keeps_trans [OF keeps_leave [OF that] keeps_upd_entry] keeps_join] .
  have joined: "\<exists>r. map_of (s_groups s') g = Some r \<and> k \<in> set (g_queued r)" if "e_queued e"
    using that by (auto simp: s' join_group_def upd_group_frame groupFor_def js_map_simps)
  show ?thesis
  proof (rule order_ok_step [OF o])
    fix k' e'
    assume e': "map_of (s_entries s') k' = Some e'" "e_queued e'"
    { assume "k' \<notin> insert k X"
      then show "k' \<notin> X \<and> keeps k' s s' \<and>
          (\<exists>e. map_of (s_entries s) k' = Some e \<and> e_queued e \<and> sched_key e' = sched_key e)"
        using e' keep by (auto simp: en js_map_simps) }
    fix g' assume g: "e_group e' = Some g'"
    show "\<exists>r. map_of (s_groups s') g' = Some r \<and> k' \<in> set (g_queued r)"
    proof (cases "k' = k")
      case True
      then show ?thesis using e' g e joined by (auto simp: en js_map_simps)
    next
      case False
      then have "map_of (s_entries s) k' = Some e'" using e' by (simp add: en js_map_simps)
      then obtain r where "map_of (s_groups s) g' = Some r" "k' \<in> set (g_queued r)"
        using o e' g unfolding order_ok_def groups_ok_def by blast
      then show ?thesis using keep [OF False] unfolding keeps_def by blast
    qed
  qed (simp_all add: f)
qed

lemma order_ok_place:
  assumes o: "order_ok X s" and p: "place k order grp s = (b, s')"
  shows "order_ok (insert k X) s'"
proof -
  obtain c1 s1 c2 where p: "place_order k order s = (c1, s1)" "place_group k grp s1 = (c2, s')"
    using p by (auto simp: place_def split: prod.splits)
  show ?thesis using order_ok_place_group [OF order_ok_place_order [OF o p(1)] p(2)] by simp
qed

lemma place_same: "place k order grp s = (False, s') \<Longrightarrow> s' = s"
  by (auto simp: place_def place_order_def place_group_def split: prod.splits option.splits js_num.splits if_splits)

text \<open>An exempt key that is not queued need not be exempt.\<close>

lemma order_ok_unqueued:
  assumes "order_ok X s" "\<And>e. map_of (s_entries s) k = Some e \<Longrightarrow> \<not> e_queued e"
  shows "order_ok (X - {k}) s"
proof -
  have "k' \<notin> X" if "map_of (s_entries s) k' = Some e" "e_queued e" "k' \<notin> X - {k}" for k' e
    using assms(2) [of e] that by blast
  then show ?thesis using assms(1) unfolding order_ok_def nodes_ok_def by blast
qed

lemma order_ok_scheduleFlush: "order_ok X s \<Longrightarrow> order_ok X (scheduleFlush s)"
  by (rule order_ok_same) (auto simp: scheduleFlush_frame)

lemma order_ok_enqueue:
  assumes o: "order_ok X s" and e: "map_of (s_entries s) k = Some e"
  shows "order_ok (X - {k}) (enqueue k s)"
proof -
  define s2 where "s2 = (let s1 = upd_entry k (\<lambda>e. e\<lparr>e_queued := True\<rparr>) (s\<lparr>s_queuedCount := s_queuedCount s + 1\<rparr>)
     in if e_seq e = 0
        then upd_entry k (\<lambda>e. e\<lparr>e_seq := Suc (s_nextSeq s)\<rparr>) (s1\<lparr>s_nextSeq := Suc (s_nextSeq s)\<rparr>) else s1)"
  define s3 where "s3 = (case e_group e of None \<Rightarrow> s2
     | Some g \<Rightarrow> upd_group g (\<lambda>r. r\<lparr>g_queued := set_add k (g_queued r)\<rparr>) (groupFor g s2))"
  have 2: "map_of (s_entries s2) k' = (if k' = k then Some (e\<lparr>e_queued := True, e_seq := (if e_seq e = 0 then Suc (s_nextSeq s) else e_seq e)\<rparr>)
      else map_of (s_entries s) k')" "s_groups s2 = s_groups s" "s_high s2 = s_high s" "s_normal s2 = s_normal s"
      "s_nextToken s2 = s_nextToken s" for k'
    using e by (auto simp: s2_def Let_def upd_entry_frame js_map_simps)
  have 3: "s_entries s3 = s_entries s2" "s_high s3 = s_high s" "s_normal s3 = s_normal s" "s_nextToken s3 = s_nextToken s"
    by (auto simp: s3_def upd_group_frame groupFor_frame 2 split: option.split)
  have keep: "keeps k' s s3" for k'
  proof -
    have "keeps k' s s2" by (rule keeps_same) (rule 2)
    moreover have "keeps k' s2 (upd_group g (\<lambda>r. r\<lparr>g_queued := set_add k (g_queued r)\<rparr>) (groupFor g s2))" for g
      by (rule keeps_trans [OF keeps_groupFor keeps_upd_group]) simp
    ultimately show ?thesis by (cases "e_group e") (auto simp: s3_def intro: keeps_trans)
  qed
  have "order_ok (insert k X) s3"
  proof (rule order_ok_step [OF o])
    fix k' e'
    assume e': "map_of (s_entries s3) k' = Some e'" "e_queued e'"
    { assume "k' \<notin> insert k X"
      then show "k' \<notin> X \<and> keeps k' s s3 \<and>
          (\<exists>e. map_of (s_entries s) k' = Some e \<and> e_queued e \<and> sched_key e' = sched_key e)"
        using e' keep by (auto simp: 3 2) }
    fix g assume g: "e_group e' = Some g"
    show "\<exists>r. map_of (s_groups s3) g = Some r \<and> k' \<in> set (g_queued r)"
    proof (cases "k' = k")
      case True
      then have "e_group e = Some g" using e' g by (auto simp: 3 2)
      then show ?thesis using True by (auto simp: s3_def upd_group_frame groupFor_def js_map_simps)
    next
      case False
      then have "map_of (s_entries s) k' = Some e'" using e' by (simp add: 3 2)
      then obtain r where "map_of (s_groups s) g = Some r" "k' \<in> set (g_queued r)"
        using o e' g unfolding order_ok_def groups_ok_def by blast
      then show ?thesis using keep [of k'] unfolding keeps_def by blast
    qed
  qed (simp_all add: 3)
  moreover obtain e3 where "map_of (s_entries s3) k = Some e3" by (simp add: 3 2)
  ultimately have "order_ok (insert k X - {k}) (pushNode k s3)" by (rule order_ok_pushNode)
  moreover have "enqueue k s = scheduleFlush (pushNode k s3)"
    unfolding s3_def s2_def enqueue_def e option.case Let_def by (rule refl)
  ultimately show ?thesis using order_ok_scheduleFlush by (simp add: insert_Diff_if)
qed

lemma order_ok_promote_group:
  "order_ok X s \<Longrightarrow> order_ok (X - set ms) (promote_group ms s)"
proof (induction ms arbitrary: X s)
  case Nil
  then show ?case by (simp add: promote_group_def)
next
  case (Cons m ms)
  let ?t = "case map_of (s_entries s) m of None \<Rightarrow> s | Some e \<Rightarrow> if e_queued e then pushNode m s else s"
  have "order_ok (X - {m}) ?t"
    using order_ok_pushNode [OF Cons.prems] order_ok_unqueued [OF Cons.prems, of m]
    by (cases "map_of (s_entries s) m") auto
  from Cons.IH [OF this] have "order_ok (X - {m} - set ms) (promote_group ms ?t)" .
  moreover have "promote_group (m # ms) s = promote_group ms ?t" by (simp add: promote_group_def)
  moreover have "X - set (m # ms) = X - {m} - set ms" by auto
  ultimately show ?case by (simp only:)
qed

lemma order_ok_start_group:
  assumes o: "order_ok {} s"
  shows "order_ok {} (start_group g s)"
proof -
  define s1 where "s1 = upd_group g (\<lambda>r. r\<lparr>g_inFlight := g_inFlight r + 1\<rparr>) (groupFor g s)"
  have f: "s_entries s1 = s_entries s" "s_high s1 = s_high s" "s_normal s1 = s_normal s" "s_nextToken s1 = s_nextToken s"
    by (simp_all add: s1_def upd_group_frame groupFor_frame)
  have keep: "keeps k s s1" for k unfolding s1_def by (rule keeps_trans [OF keeps_groupFor keeps_upd_group]) simp
  have 1: "order_ok {} s1"
    by (rule order_ok_step [OF o]) (use f keep in auto)
  have "map_has (s_groups s1) g" by (simp add: s1_def upd_group_frame groupFor_def js_map_simps)
  then obtain r where r: "map_of (s_groups s1) g = Some r" by blast
  let ?s2 = "upd_group g (\<lambda>r. r\<lparr>g_started := True\<rparr>) s1"
  have g1: "groups_ok s1" using 1 by (simp add: order_ok_def)
  have "order_ok (set (g_queued r)) ?s2"
  proof (rule order_ok_step [OF 1])
    fix k' e'
    assume e': "map_of (s_entries ?s2) k' = Some e'" "e_queued e'"
    then have e1: "map_of (s_entries s1) k' = Some e'" by (simp add: upd_group_frame)
    { assume k: "k' \<notin> set (g_queued r)"
      have "keeps k' s1 ?s2" using k r by (auto simp: keeps_def upd_group_frame js_map_simps)
      then show "k' \<notin> {} \<and> keeps k' s1 ?s2 \<and>
          (\<exists>e. map_of (s_entries s1) k' = Some e \<and> e_queued e \<and> sched_key e' = sched_key e)"
        using e1 e'(2) by blast }
    fix g' assume "e_group e' = Some g'"
    then obtain r' where "map_of (s_groups s1) g' = Some r'" "k' \<in> set (g_queued r')"
      using g1 e1 e'(2) unfolding groups_ok_def by blast
    then show "\<exists>r. map_of (s_groups ?s2) g' = Some r \<and> k' \<in> set (g_queued r)"
      by (auto simp: upd_group_frame js_map_simps)
  qed (simp_all add: upd_group_frame)
  from order_ok_promote_group [OF this, of "g_queued r"]
  have "order_ok {} (promote_group (g_queued r) ?s2)" by simp
  then show ?thesis using 1 r by (simp add: start_group_def s1_def Let_def)
qed

lemma order_ok_start_load:
  assumes o: "order_ok {} s" and e: "\<And>e. map_of (s_entries s) k = Some e \<Longrightarrow> \<not> e_queued e"
  shows "order_ok {} (start_load c k s)"
proof (cases "map_of (s_entries s) k")
  case None
  then show ?thesis using o by (simp add: start_load_def)
next
  case (Some x)
  let ?s1 = "upd_entry k (\<lambda>e. e\<lparr>e_attempts := Suc (e_attempts e), e_inFlight := Some (s_nextRef s)\<rparr>)
       (s\<lparr>s_active := s_active s + 1, s_nextRef := Suc (Suc (s_nextRef s))\<rparr>)"
  let ?s2 = "case e_group x of None \<Rightarrow> ?s1 | Some g \<Rightarrow> start_group g ?s1"
  have nq: "\<not> e_queued x" using e Some by simp
  have "order_ok {} ?s1"
    by (rule order_ok_same [OF o]) (use nq Some in \<open>auto simp: upd_entry_frame js_map_simps split: if_splits\<close>)
  then have 2: "order_ok {} ?s2" by (cases "e_group x") (simp_all add: order_ok_start_group)
  have "order_ok {} (emit_all fs (?s2\<lparr>s_attempts := at'\<rparr>))" for fs at'
    by (rule order_ok_same [OF 2]) (simp_all add: emit_all_frame)
  moreover have "order_ok {} (del_entry k s)"
    by (rule order_ok_same [OF o]) (auto simp: del_entry_frame js_map_simps split: if_splits)
  ultimately show ?thesis using Some o by (simp add: start_load_def Let_def)
qed

lemma order_ok_begin_load: "order_ok {k} s \<Longrightarrow> order_ok {} (begin_load c k s)"
  unfolding begin_load_def
  by (rule order_ok_start_load) (use order_ok_dequeue [of "{k}" s k] in \<open>auto simp: dequeue_frame js_map_simps\<close>)

lemma pump_pick_cases:
  assumes "pump_pick c s = (r, s')"
  obtains (high) n t where "r = Some (n_key n)" "headOf True s = (Some n, t)" "s' = pop_lane True t"
      "s_active s < c_concurrency c + c_priorityExtra c"
    | (normal) n h t t' where "r = Some (n_key n)" "headOf True s = (h, t)" "headOf False t = (Some n, t')"
      "s' = pop_lane False t'" "h \<noteq> None \<Longrightarrow> s_active s \<ge> c_concurrency c + c_priorityExtra c" "s_active s < c_concurrency c"
    | (none) h t m where "r = None" "headOf True s = (h, t)" "headOf False t = (m, s')"
      "h \<noteq> None \<Longrightarrow> s_active s \<ge> c_concurrency c + c_priorityExtra c"
      "m \<noteq> None \<Longrightarrow> s_active s \<ge> c_concurrency c"
proof -
  obtain h t m t' where hm: "headOf True s = (h, t)" "headOf False t = (m, t')" by fastforce
  have "s_active t = s_active s" "s_active t' = s_active s"
    using headOf_frame [of True s] headOf_frame [of False t] hm by simp_all
  then show thesis
    using assms hm high [of _ t] normal [of _ h t t'] none [of h t m]
    by (auto simp: pump_pick_def split: if_splits)
qed

lemma order_ok_pump_pick:
  assumes "order_ok {} s" "pump_pick c s = (r, s')"
  shows "order_ok (set_option r) s'"
  using assms(2)
proof (cases rule: pump_pick_cases)
  case (high n t)
  then have "order_ok {} t" "heap_peek (lane True t) = Some n"
    using order_ok_headOf [OF assms(1), of True] headOf_peek(1) [of True s] by simp_all
  then show ?thesis using high order_ok_pop [of "{}" t True n "{n_key n}"] by simp
next
  case (normal n h t t')
  then have "order_ok {} t" using order_ok_headOf [OF assms(1), of True] by simp
  then have "order_ok {} t'" "heap_peek (lane False t') = Some n"
    using normal order_ok_headOf [of "{}" t False] headOf_peek(1) [of False t] by simp_all
  then show ?thesis using normal order_ok_pop [of "{}" t' False n "{n_key n}"] by simp
next
  case (none h t m)
  then have "order_ok {} t" using order_ok_headOf [OF assms(1), of True] by simp
  then show ?thesis using none order_ok_headOf [of "{}" t False] by simp
qed

lemma order_ok_pump: "order_ok {} s \<Longrightarrow> order_ok {} (pump c s)"
proof (induction c s rule: pump.induct)
  case (1 c s)
  obtain r s' where p: "pump_pick c s = (r, s')" by fastforce
  note q = order_ok_pump_pick [OF "1.prems" p]
  show ?case
  proof (cases "s_disposed s \<or> r = None")
    case True
    then show ?thesis using "1.prems" p q by (auto simp: pump.simps [of c s])
  next
    case False
    then obtain k where r: "r = Some k" by auto
    then have "order_ok {} (begin_load c k s')" using q by (intro order_ok_begin_load) simp
    then show ?thesis using "1.IH" [OF _ p [symmetric] r] False p r by (simp add: pump.simps [of c s])
  qed
qed

end
