(* ===== verification/Artwork_Runs.thy ===== *)
theory Artwork_Runs
  imports Artwork_Order
begin

text \<open>
  Runs of the artwork scheduler: the lanes stay in order through every step, the pump leaves
  nothing that could start, and queued work that could start always has a flush ahead of it.
\<close>

section \<open>Steps that only take entries out of the queue\<close>

definition limit :: "'v art_config \<Rightarrow> 'v art_entry \<Rightarrow> int" where
  "limit c e = c_concurrency c + (if e_priority e then c_priorityExtra c else 0)"

text \<open>Queued work that has a free slot is about to be flushed.\<close>

definition wake :: "'v art_config \<Rightarrow> 'v sched \<Rightarrow> bool" where
  "wake c s \<longleftrightarrow> s_disposed s \<or> s_flushScheduled s \<or>
     (\<forall>k e. map_of (s_entries s) k = Some e \<longrightarrow> e_queued e \<longrightarrow> limit c e \<le> s_active s)"

definition shrinks :: "'v sched \<Rightarrow> 'v sched \<Rightarrow> bool" where
  "shrinks s s' \<longleftrightarrow>
     s_high s' = s_high s \<and> s_normal s' = s_normal s \<and> s_nextToken s' = s_nextToken s
     \<and> s_active s' = s_active s \<and> s_disposed s' = s_disposed s
     \<and> (s_flushScheduled s \<longrightarrow> s_flushScheduled s')
     \<and> (\<forall>k e'. map_of (s_entries s') k = Some e' \<longrightarrow> e_queued e' \<longrightarrow>
          keeps k s s' \<and> (\<exists>e. map_of (s_entries s) k = Some e \<and> e_queued e \<and> sched_key e' = sched_key e))"

lemma shrinks_order_ok:
  assumes "shrinks s s'" "order_ok X s"
  shows "order_ok X s'"
proof (rule order_ok_step [OF assms(2)])
  fix k e' g
  assume e': "map_of (s_entries s') k = Some e'" "e_queued e'" and g: "e_group e' = Some g"
  then obtain e where e: "keeps k s s'" "map_of (s_entries s) k = Some e" "e_queued e" "sched_key e' = sched_key e"
    using assms(1) unfolding shrinks_def by blast
  then have "e_group e = Some g" using g by (simp add: sched_key_def)
  then show "\<exists>r. map_of (s_groups s') g = Some r \<and> k \<in> set (g_queued r)"
    using e assms(2) unfolding order_ok_def groups_ok_def keeps_def by metis
qed (use assms(1) in \<open>auto simp: shrinks_def\<close>)

lemma wake_sub:
  assumes "wake c s" "s_active s' = s_active s" "s_disposed s' = s_disposed s" "s_flushScheduled s \<longrightarrow> s_flushScheduled s'"
    "\<And>k e'. map_of (s_entries s') k = Some e' \<Longrightarrow> e_queued e' \<Longrightarrow>
       \<exists>e. map_of (s_entries s) k = Some e \<and> e_queued e \<and> limit c e' = limit c e"
  shows "wake c s'"
proof (cases "s_disposed s \<or> s_flushScheduled s")
  case False
  have "limit c e' \<le> s_active s'" if e': "map_of (s_entries s') k = Some e'" "e_queued e'" for k e'
  proof -
    obtain e where "map_of (s_entries s) k = Some e" "e_queued e" "limit c e' = limit c e"
      using assms(5) [OF e'] by blast
    then show ?thesis using assms(1,2) False by (auto simp: wake_def)
  qed
  then show ?thesis by (simp add: wake_def)
qed (use assms in \<open>auto simp: wake_def\<close>)

lemma shrinks_wake: "shrinks s s' \<Longrightarrow> wake c s \<Longrightarrow> wake c s'"
  by (rule wake_sub [of c s]) (fastforce simp: shrinks_def sched_key_def limit_def)+

lemma shrinks_trans: "shrinks s s' \<Longrightarrow> shrinks s' s'' \<Longrightarrow> shrinks s s''"
proof -
  assume a: "shrinks s s'" "shrinks s' s''"
  have "keeps k s s'' \<and> (\<exists>e. map_of (s_entries s) k = Some e \<and> e_queued e \<and> sched_key e2 = sched_key e)"
    if e2: "map_of (s_entries s'') k = Some e2" "e_queued e2" for k e2
  proof -
    obtain e1 where e1: "keeps k s' s''" "map_of (s_entries s') k = Some e1" "e_queued e1" "sched_key e2 = sched_key e1"
      using a(2) e2 unfolding shrinks_def by blast
    then obtain e where "keeps k s s'" "map_of (s_entries s) k = Some e" "e_queued e" "sched_key e1 = sched_key e"
      using a(1) unfolding shrinks_def by blast
    then show ?thesis using e1 keeps_trans by fastforce
  qed
  then show "shrinks s s''" using a by (simp add: shrinks_def)
qed

lemma shrinks_refl: "shrinks s s"
  by (auto simp: shrinks_def keeps_same)

text \<open>No group changes and no entry gains a place in the queue.\<close>

lemma shrinks_plain:
  fixes s s' :: "'v sched"
  assumes "s_high s' = s_high s" "s_normal s' = s_normal s" "s_nextToken s' = s_nextToken s"
    "s_active s' = s_active s" "s_disposed s' = s_disposed s" "s_flushScheduled s \<Longrightarrow> s_flushScheduled s'"
    "s_groups s' = s_groups s"
    "\<And>k e'. map_of (s_entries s') k = Some e' \<Longrightarrow> e_queued e' \<Longrightarrow>
        (\<exists>e. map_of (s_entries s) k = Some e \<and> e_queued e \<and> sched_key e' = sched_key e)"
  shows "shrinks s s'"
  using assms by (auto simp: shrinks_def keeps_same)

lemma shrinks_upd_entry:
  assumes "\<And>e. map_of (s_entries s) k = Some e \<Longrightarrow> e_queued (f e) \<Longrightarrow> e_queued e \<and> sched_key (f e) = sched_key e"
  shows "shrinks s (upd_entry k f s)"
  by (rule shrinks_plain) (use assms in \<open>auto simp: upd_entry_frame js_map_simps split: if_splits\<close>)

lemma shrinks_simple [intro]:
  "shrinks s (emit f s)" "shrinks s (emit_all fs s)" "shrinks s (notify s)" "shrinks s (del_entry k s)"
  "shrinks s (touch k s)" "shrinks s (scheduleFlush s)" "shrinks s (upd_screen u s)" "shrinks s (upd_attempt a h s)"
  by (rule shrinks_plain; auto simp: art_frame js_map_simps split: if_splits)+

lemma shrinks_pending_delete: "pending_delete k s = (b, s') \<Longrightarrow> shrinks s s'"
  by (rule shrinks_plain) (auto simp: pending_delete_frame)

lemma shrinks_finishAttempt: "shrinks s (finishAttempt k s)"
proof (cases "map_of (s_entries s) k")
  case (Some e)
  let ?s1 = "upd_entry k (\<lambda>e. e\<lparr>e_inFlight := None\<rparr>) s"
  have "keeps k' s (finishAttempt k s)" for k'
  proof -
    have "keeps k' s (dropGroupIfIdle g (upd_group g (\<lambda>r. r\<lparr>g_inFlight := g_inFlight r - 1\<rparr>) ?s1))" for g
      by (rule keeps_trans [OF keeps_trans [OF keeps_upd_entry keeps_upd_group] keeps_dropGroupIfIdle]) simp
    then show ?thesis
      using Some by (cases "e_group e") (auto simp: finishAttempt_def Let_def keeps_upd_entry keeps_same)
  qed
  then show ?thesis
    using Some by (auto simp: shrinks_def finishAttempt_frame js_map_simps sched_key_def split: if_splits)
qed (simp add: finishAttempt_def shrinks_refl)

lemma shrinks_dequeue: "shrinks s (dequeue k s)"
  using keeps_dequeue [of _ k s]
  by (auto simp: shrinks_def dequeue_frame js_map_simps split: if_splits)

lemma shrinks_trim:
  assumes "map_wf (s_entries s)"
  shows "shrinks s (trim c s)"
proof -
  obtain kept rel b where t: "trim_loop c (map_sum settled_large (s_entries s)) (map_sum settled_normal (s_entries s))
      (s_byteTotal s) (s_entries s) = (kept, rel, b)" by (metis prod_cases3)
  have "map_of (s_entries s) k = Some e" if "map_of kept k = Some e" for k e
    using trim_loop_subset [OF t] map_of_SomeD [OF that] map_wf_in_set [OF assms] by blast
  then show ?thesis
    by (intro shrinks_plain) (auto simp: trim_def t emit_all_frame)
qed

section \<open>Callbacks\<close>

lemma shrinks_on_loaded:
  assumes w: "inv_entries s"
  shows "shrinks s (on_loaded c now a v s)"
proof -
  let ?s = "upd_attempt a (\<lambda>x. x\<lparr>at_settled := True\<rparr>) s"
  show ?thesis
  proof (cases "s_disposed ?s \<or> entry_of_attempt a ?s = None")
    case True
    then have "on_loaded c now a v s = ?s \<or> on_loaded c now a v s = emit (Release v) ?s"
      by (auto simp: on_loaded_def Let_def)
    then show ?thesis using shrinks_trans [OF shrinks_simple(8) shrinks_simple(1)] shrinks_simple(8) by metis
  next
    case False
    then obtain k e where f: "entry_of_attempt a ?s = Some (k, e)" by auto
    define s4 where "s4 = (let s3 = emit_all (map (\<lambda>w. Resolve w v) (e_waiters e)) (upd_entry k (settle_value c v) (finishAttempt k ?s))
      in if e_large e then s3 else s3\<lparr>s_byteTotal := s_byteTotal s3 + e_size (settle_value c v e)\<rparr>)"
    obtain b s6 where d: "pending_delete k (touch k s4) = (b, s6)" by fastforce
    let ?s7 = "if b then upd_screen (first_image now) s6 else s6"
    have "shrinks ?s (upd_entry k (settle_value c v) (finishAttempt k ?s))"
      by (rule shrinks_trans [OF shrinks_finishAttempt shrinks_upd_entry])
        (simp add: settle_value_def sched_key_def)
    moreover have "shrinks (upd_entry k (settle_value c v) (finishAttempt k ?s)) s4"
      by (cases "e_large e"; rule shrinks_plain) (auto simp: s4_def Let_def emit_all_frame)
    ultimately have 4: "shrinks s s4" using shrinks_trans shrinks_simple(8) by blast
    have 6: "shrinks s s6"
      by (rule shrinks_trans [OF shrinks_trans [OF 4 shrinks_simple(5)] shrinks_pending_delete [OF d]])
    then have 7: "shrinks s ?s7" using shrinks_trans [OF 6 shrinks_simple(7)] by simp
    have "map_wf (s_entries s4)"
      using inv_entriesD(1) [OF w] by (simp add: s4_def Let_def emit_all_frame upd_entry_frame finishAttempt_frame upd_attempt_frame)
    then have wf: "map_wf (s_entries ?s7)" by (simp add: upd_screen_frame pending_delete_frame [OF d] touch_frame)
    have "on_loaded c now a v s = notify (trim c ?s7)"
      using False f d by (simp add: on_loaded_def Let_def s4_def)
    then show ?thesis using shrinks_trans [OF shrinks_trans [OF 7 shrinks_trim [OF wf]] shrinks_simple(3)] by simp
  qed
qed

lemma shrinks_fail_unwanted: "shrinks s (fail_unwanted k s)"
proof -
  obtain b s1 where d: "pending_delete k (del_entry k s) = (b, s1)" by fastforce
  have 1: "shrinks s s1" by (rule shrinks_trans [OF shrinks_simple(4) shrinks_pending_delete [OF d]])
  have "fail_unwanted k s = notify (if b then scheduleFlush s1 else s1)" using d by (simp add: fail_unwanted_def)
  then show ?thesis
    using shrinks_trans [OF 1 shrinks_simple(3)] shrinks_trans [OF shrinks_trans [OF 1 shrinks_simple(6)] shrinks_simple(3)]
    by simp
qed

lemma shrinks_fail_retry: "shrinks s (fail_retry c k n f s)"
  by (rule shrinks_plain)
    (auto simp: fail_retry_def Let_def emit_frame upd_entry_frame js_map_simps sched_key_def split: if_splits)

lemma shrinks_fail_final: "shrinks s (fail_final now k ws err s)"
proof -
  let ?s2 = "emit_all (map (\<lambda>w. Reject w err) ws) (upd_entry k (\<lambda>e. e\<lparr>e_failedAt := Some now, e_waiters := []\<rparr>) s)"
  obtain b s3 where d: "pending_delete k ?s2 = (b, s3)" by fastforce
  have "shrinks s (upd_entry k (\<lambda>e. e\<lparr>e_failedAt := Some now, e_waiters := []\<rparr>) s)"
    by (rule shrinks_upd_entry) (simp add: sched_key_def)
  from shrinks_trans [OF shrinks_trans [OF this shrinks_simple(2)] shrinks_pending_delete [OF d]]
  have 3: "shrinks s s3" .
  have "fail_final now k ws err s = notify (if b then upd_screen (\<lambda>sc. sc\<lparr>scr_failed := Suc (scr_failed sc)\<rparr>) s3 else s3)"
    using d by (simp add: fail_final_def Let_def)
  then show ?thesis
    using shrinks_trans [OF 3 shrinks_simple(3)] shrinks_trans [OF shrinks_trans [OF 3 shrinks_simple(7)] shrinks_simple(3)]
    by simp
qed

lemma shrinks_on_failed: "shrinks s (on_failed c now a err s)"
proof -
  let ?s = "upd_attempt a (\<lambda>x. x\<lparr>at_settled := True\<rparr>) s"
  have 1: "shrinks s ?s" by (rule shrinks_simple)
  have "shrinks s (finishAttempt k ?s)" for k by (rule shrinks_trans [OF 1 shrinks_finishAttempt])
  note 2 = shrinks_trans [OF this shrinks_fail_unwanted] shrinks_trans [OF this shrinks_fail_retry]
    shrinks_trans [OF this shrinks_fail_final]
  show ?thesis using 1 2 by (auto simp: on_failed_def Let_def split: option.split)
qed

lemma shrinks_abandon: "shrinks s (abandonIfUnwanted k s)"
proof (cases "map_of (s_entries s) k")
  case (Some e)
  define s1 where "s1 = (case e_timer e of None \<Rightarrow> s
        | Some t \<Rightarrow> upd_entry k (\<lambda>e. e\<lparr>e_timer := None\<rparr>) (emit (ClearTimer t) s))"
  define s2 where "s2 = (if e_queued e then dequeue k s1 else s1)"
  define s3 where "s3 = (if e_inFlight e = None then del_entry k s2 else s2)"
  obtain b s4 where p: "pending_delete k s3 = (b, s4)" by fastforce
  have "shrinks x (upd_entry k (\<lambda>e. e\<lparr>e_timer := None\<rparr>) x)" for x :: "'a sched"
    by (rule shrinks_upd_entry) (simp add: sched_key_def)
  then have 1: "shrinks s s1"
    unfolding s1_def by (cases "e_timer e") (auto intro: shrinks_refl shrinks_trans [OF shrinks_simple(1)])
  then have 2: "shrinks s s2" unfolding s2_def using shrinks_trans [OF 1 shrinks_dequeue] by simp
  then have "shrinks s s3" unfolding s3_def using shrinks_trans [OF 2 shrinks_simple(4)] by simp
  then have 4: "shrinks s s4" using shrinks_trans shrinks_pending_delete [OF p] by blast
  have "abandonIfUnwanted k s = (if e_waiters e \<noteq> [] \<or> e_value e \<noteq> None then s else if b then scheduleFlush s4 else s4)"
    by (simp only: abandonIfUnwanted_def Some option.case Let_def s1_def [symmetric] s2_def [symmetric]
        s3_def [symmetric] p prod.case)
  then show ?thesis using shrinks_refl [of s] 4 shrinks_trans [OF 4 shrinks_simple(6)] by simp
qed (simp add: abandonIfUnwanted_def shrinks_refl)

lemma shrinks_abort_waiter: "shrinks s (abort_waiter w s)"
proof -
  have "shrinks x (upd_entry k (\<lambda>e. e\<lparr>e_waiters := set_del w (e_waiters e)\<rparr>) x)" for k and x :: "'a sched"
    by (rule shrinks_upd_entry) (simp add: sched_key_def)
  from shrinks_trans [OF shrinks_trans [OF this shrinks_simple(1)] shrinks_abandon]
  show ?thesis by (auto simp: abort_waiter_def shrinks_refl split: option.split)
qed

section \<open>Loading and reordering\<close>

lemma load_wait_shape:
  assumes l: "load_wait c q k s = (w, s')" and e: "map_of (load_base c q k s) k = Some e"
  obtains s4 s5 moved where "place k (q_order q) (q_group q) s4 = (moved, s5)"
    "s_entries s4 = AList.map_entry k (\<lambda>e. e\<lparr>e_waiters := set_add (s_nextRef s) (e_waiters e),
       e_priority := e_priority e \<or> q_high q\<rparr>) (load_base c q k s)"
    "s_high s4 = s_high s" "s_normal s4 = s_normal s" "s_nextToken s4 = s_nextToken s" "s_groups s4 = s_groups s"
    "s_active s4 = s_active s" "s_disposed s4 = s_disposed s" "s_flushScheduled s4 = s_flushScheduled s"
    "s' = (if idle e then enqueue k s5
           else if e_queued e \<and> (moved \<or> q_high q \<and> \<not> e_priority e) then scheduleFlush (pushNode k s5) else s5)"
proof -
  let ?s2 = "load_entry c q k s"
  let ?s3 = "upd_entry k (\<lambda>e. e\<lparr>e_waiters := set_add (s_nextRef s) (e_waiters e)\<rparr>) (?s2\<lparr>s_nextRef := Suc (s_nextRef s)\<rparr>)"
  let ?pr = "q_high q \<and> \<not> e_priority e"
  let ?s4 = "if ?pr then upd_entry k (\<lambda>e. e\<lparr>e_priority := True\<rparr>) ?s3 else ?s3"
  have e3: "map_of (s_entries ?s3) k = Some (e\<lparr>e_waiters := set_add (s_nextRef s) (e_waiters e)\<rparr>)"
    using e by (simp add: load_entry_frame art_frame js_map_simps)
  obtain moved s5 where p: "place k (q_order q) (q_group q) ?s4 = (moved, s5)" by fastforce
  have "s' = (if idle e then enqueue k s5
      else if e_queued e \<and> (moved \<or> ?pr) then scheduleFlush (pushNode k s5) else s5)"
    using l p unfolding load_wait_def Let_def load_entry_frame(7) e3 option.sel
    by (auto simp: idle_def split: if_splits)
  moreover have "s_entries ?s4 = AList.map_entry k (\<lambda>e. e\<lparr>e_waiters := set_add (s_nextRef s) (e_waiters e),
       e_priority := e_priority e \<or> q_high q\<rparr>) (load_base c q k s)"
    using e by (cases e) (auto simp: load_entry_frame art_frame intro!: map_entry_cong)
  ultimately show thesis using that [OF p] by (simp add: load_entry_frame art_frame)
qed

lemma order_ok_load_wait:
  assumes o: "order_ok {} s" and l: "load_wait c q k s = (w, s')"
  shows "order_ok {} s'"
proof -
  obtain e where e: "map_of (load_base c q k s) k = Some e"
    by (cases "map_of (s_entries s) k") (auto simp: load_base_def js_map_simps)
  have base: "map_of (s_entries s) k' = Some e'" if "map_of (load_base c q k s) k' = Some e'" "e_queued e'" for k' e'
    using that by (auto simp: load_base_def js_map_simps new_entry_def split: if_splits)
  from l e show ?thesis
  proof (rule load_wait_shape)
    fix s4 s5 moved
    let ?pr = "q_high q \<and> \<not> e_priority e"
    assume p: "place k (q_order q) (q_group q) s4 = (moved, s5)"
      and f: "s_entries s4 = AList.map_entry k (\<lambda>e. e\<lparr>e_waiters := set_add (s_nextRef s) (e_waiters e),
          e_priority := e_priority e \<or> q_high q\<rparr>) (load_base c q k s)"
        "s_high s4 = s_high s" "s_normal s4 = s_normal s" "s_nextToken s4 = s_nextToken s" "s_groups s4 = s_groups s"
      and s': "s' = (if idle e then enqueue k s5 else if e_queued e \<and> (moved \<or> ?pr) then scheduleFlush (pushNode k s5) else s5)"
    have 4: "order_ok (if e_queued e \<and> ?pr then {k} else {}) s4"
    proof (rule order_ok_step [OF o f(2,3,4)])
      fix k' e'
      assume e': "map_of (s_entries s4) k' = Some e'" "e_queued e'"
      { assume "k' \<notin> (if e_queued e \<and> ?pr then {k} else {})"
        then show "k' \<notin> {} \<and> keeps k' s s4 \<and>
            (\<exists>e. map_of (s_entries s) k' = Some e \<and> e_queued e \<and> sched_key e' = sched_key e)"
          using e' e base by (auto simp: f js_map_simps keeps_same sched_key_def split: if_splits) }
      fix g assume "e_group e' = Some g"
      then have "\<exists>e. map_of (s_entries s) k' = Some e \<and> e_queued e \<and> e_group e = Some g"
        using e' e base by (auto simp: f js_map_simps split: if_splits)
      then show "\<exists>r. map_of (s_groups s4) g = Some r \<and> k' \<in> set (g_queued r)"
        using o unfolding order_ok_def groups_ok_def f by blast
    qed
    then have 5: "order_ok {k} s5" using order_ok_place [OF 4 p] order_ok_mono by (auto split: if_splits)
    have k5: "map_of (s_entries s5) k = Some (place_entry (q_order q) (q_group q)
        (e\<lparr>e_waiters := set_add (s_nextRef s) (e_waiters e), e_priority := e_priority e \<or> q_high q\<rparr>))"
      using e by (simp add: place_frame [OF p] f js_map_simps)
    consider "idle e" | "\<not> idle e" "e_queued e" "moved \<or> ?pr" | "\<not> idle e" "\<not> e_queued e"
      | "\<not> idle e" "e_queued e" "\<not> moved" "\<not> ?pr" by blast
    then show ?thesis
    proof cases
      case 1
      then show ?thesis using order_ok_enqueue [OF 5 k5] s' by simp
    next
      case 2
      then show ?thesis using order_ok_scheduleFlush [OF order_ok_pushNode [OF 5 k5]] s' by simp
    next
      case 3
      then show ?thesis using order_ok_unqueued [OF 5, of k] s' k5 by (simp add: place_entry_def)
    next
      case 4
      then show ?thesis using \<open>order_ok _ s4\<close> place_same [of k "q_order q" "q_group q" s4 s5] p s' by auto
    qed
  qed
qed

lemma wake_load_wait:
  assumes w: "wake c s" and l: "load_wait c q k s = (w', s')"
  shows "wake c s'"
proof -
  obtain e where e: "map_of (load_base c q k s) k = Some e"
    by (cases "map_of (s_entries s) k") (auto simp: load_base_def js_map_simps)
  from l e show ?thesis
  proof (rule load_wait_shape)
    fix s4 s5 moved
    let ?pr = "q_high q \<and> \<not> e_priority e"
    assume p: "place k (q_order q) (q_group q) s4 = (moved, s5)"
      and f: "s_entries s4 = AList.map_entry k (\<lambda>e. e\<lparr>e_waiters := set_add (s_nextRef s) (e_waiters e),
          e_priority := e_priority e \<or> q_high q\<rparr>) (load_base c q k s)"
        "s_active s4 = s_active s" "s_disposed s4 = s_disposed s" "s_flushScheduled s4 = s_flushScheduled s"
      and s': "s' = (if idle e then enqueue k s5 else if e_queued e \<and> (moved \<or> ?pr) then scheduleFlush (pushNode k s5) else s5)"
    note f5 = place_frame [OF p]
    have k5: "map_has (s_entries s5) k" using e by (simp add: f5 f js_map_simps)
    show ?thesis
    proof (cases "s_disposed s \<or> idle e \<or> e_queued e \<and> (moved \<or> ?pr)")
      case True
      then show ?thesis
        using k5 by (auto simp: s' wake_def enqueue_frame scheduleFlush_frame pushNode_frame f5 f)
    next
      case False
      have base: "map_of (s_entries s) k' = Some e'" if "map_of (load_base c q k s) k' = Some e'" "e_queued e'" for k' e'
        using that by (auto simp: load_base_def js_map_simps new_entry_def split: if_splits)
      have "\<exists>x. map_of (s_entries s) k' = Some x \<and> e_queued x \<and> limit c e' = limit c x"
        if e': "map_of (s_entries s5) k' = Some e'" "e_queued e'" for k' e'
      proof (cases "k' = k")
        case True
        then show ?thesis using e' e base [of k e] False by (auto simp: f5 f js_map_simps place_entry_def limit_def)
      next
        case False
        then show ?thesis using e' base [of k' e'] by (auto simp: f5 f js_map_simps)
      qed
      then have "wake c s5" by (intro wake_sub [OF w]) (simp_all add: f5 f)
      then show ?thesis using False by (auto simp: s')
    qed
  qed
qed

lemma order_ok_reorder:
  assumes o: "order_ok {} s"
  shows "order_ok {} (reorder k order grp s)"
proof (cases "map_of (s_entries s) k = None \<or> s_disposed s")
  case True
  then show ?thesis using o by (auto simp: reorder_def split: option.split)
next
  case False
  then obtain e where e: "map_of (s_entries s) k = Some e" by auto
  obtain b s1 where p: "place k (Some order) grp s = (b, s1)" by fastforce
  note 1 = order_ok_place [OF o p]
  have k1: "map_of (s_entries s1) k = Some (place_entry (Some order) grp e)"
    using e by (simp add: place_frame [OF p] js_map_simps)
  have eq: "reorder k order grp s = (if b \<and> e_queued e then scheduleFlush (pushNode k s1) else s1)"
    using False e p by (simp add: reorder_def)
  consider "b" "e_queued e" | "\<not> b" | "\<not> e_queued e" by blast
  then show ?thesis
  proof cases
    case 1
    then show ?thesis
      using order_ok_scheduleFlush [OF order_ok_pushNode [OF \<open>order_ok {k} s1\<close> k1]] eq by simp
  next
    case 2
    then show ?thesis using place_same [of k "Some order" grp s s1] p eq o by simp
  next
    case 3
    then show ?thesis using order_ok_unqueued [OF \<open>order_ok {k} s1\<close>, of k] k1 eq by (simp add: place_entry_def)
  qed
qed

lemma wake_reorder:
  assumes w: "wake c s"
  shows "wake c (reorder k order grp s)"
proof -
  obtain b s1 where p: "place k (Some order) grp s = (b, s1)" by fastforce
  note f = place_frame [OF p]
  have "\<exists>x. map_of (s_entries s) k' = Some x \<and> e_queued x \<and> limit c e' = limit c x"
    if "map_of (s_entries s1) k' = Some e'" "e_queued e'" for k' e'
    using that by (auto simp: f js_map_simps place_entry_def limit_def split: if_splits)
  then have "wake c s1" by (intro wake_sub [OF w]) (simp_all add: f)
  moreover have "wake c (scheduleFlush t)" for t :: "'a sched" by (auto simp: wake_def scheduleFlush_frame)
  ultimately show ?thesis using p w by (auto simp: reorder_def split: option.split)
qed

section \<open>The pump\<close>

lemma headOf_least:
  assumes o: "order_ok {} s" and h: "headOf hi s = (r, t)"
    and e: "map_of (s_entries s) k = Some e" "e_queued e" "e_priority e = hi"
  shows "\<exists>n. r = Some n \<and> \<not> nodeBefore (node_of s k e) n"
proof -
  have t: "t = snd (headOf hi s)" "s_entries t = s_entries s" "s_groups t = s_groups s"
    using h headOf_frame [of hi s] by simp_all
  have ot: "order_ok {} t" using order_ok_headOf [OF o] t(1) by blast
  then have m: "node_of t k e \<in> set (lane hi t)" and hp: "is_heap nodeBefore (lane hi t)"
    using e t(2) unfolding order_ok_def nodes_ok_def by auto
  have r: "r = heap_peek (lane hi t)" using headOf_peek(1) [of hi s] h by simp
  have "lane hi t \<noteq> []" using m by auto
  then obtain n where n: "r = Some n" "heap_peek (lane hi t) = Some n" using r by (simp add: heap_peek_eq)
  have "\<not> nodeBefore (node_of t k e) n"
    using nodes.heap.peek_min [OF hp n(2)] m by simp
  then show ?thesis using n node_of_groups [OF t(3)] by simp
qed

lemma order_ok_node:
  assumes "order_ok {} t" "map_of (s_entries t) k = Some e" "e_queued e" "m \<in> set (lane h t)"
    "n_key m = k" "n_token m = e_token e"
  shows "node_of t k e = m"
proof -
  have "\<forall>hi. \<forall>n \<in> set (lane hi t). n_key n = k \<longrightarrow> n_token n = e_token e \<longrightarrow> hi = e_priority e \<and> n = node_of t k e"
    using assms(1-3) unfolding order_ok_def nodes_ok_def by blast
  then show ?thesis using assms(4-6) by simp
qed

text \<open>The node the head of a lane stands for is that of its entry.\<close>

lemma headOf_entry:
  assumes o: "order_ok {} s" and h: "headOf hi s = (Some n, t)"
  obtains e where "map_of (s_entries s) (n_key n) = Some e" "e_queued e" "e_priority e = hi" "node_of s (n_key n) e = n"
proof -
  have t: "t = snd (headOf hi s)" "s_entries t = s_entries s" "s_groups t = s_groups s"
    using h headOf_frame [of hi s] by simp_all
  have ot: "order_ok {} t" using order_ok_headOf [OF o] t(1) by blast
  obtain e where e: "map_of (s_entries s) (n_key n) = Some e" "e_queued e" "e_token e = n_token n" "e_priority e = hi"
    using headOf_usable [OF h] t(2) by (auto simp: usable_node_def split: option.splits)
  have "n \<in> set (lane hi t)" using headOf_peek(1) [of hi s] h by (auto simp: heap_peek_eq split: if_splits)
  from order_ok_node [OF ot _ e(2) this refl e(3) [symmetric]] e(1) t(2) have "node_of t (n_key n) e = n" by simp
  then show thesis using that e node_of_groups [OF t(3)] by metis
qed

lemma order_ok_headOf': "order_ok X s \<Longrightarrow> headOf hi s = (r, t) \<Longrightarrow> order_ok X t"
  using order_ok_headOf [of X s hi] by simp

lemma pump_pick_least:
  assumes o: "order_ok {} s" and x: "0 \<le> c_priorityExtra c" and p: "pump_pick c s = (Some k, s')"
  obtains e where "map_of (s_entries s) k = Some e" "e_queued e" "s_active s < limit c e"
    "\<And>k' e'. map_of (s_entries s) k' = Some e' \<Longrightarrow> e_queued e' \<Longrightarrow>
       (e_priority e' \<longrightarrow> e_priority e) \<and>
       (e_priority e' = e_priority e \<longrightarrow> \<not> nodeBefore (node_of s k' e') (node_of s k e))"
  using p
proof (cases rule: pump_pick_cases)
  case (high n t)
  have k: "k = n_key n" using high(1) by simp
  obtain e where e: "map_of (s_entries s) k = Some e" "e_queued e" "e_priority e" "node_of s k e = n"
    using headOf_entry [OF o high(2)] unfolding k by blast
  then show ?thesis
  proof (intro that [of e])
    show "(e_priority e' \<longrightarrow> e_priority e) \<and>
       (e_priority e' = e_priority e \<longrightarrow> \<not> nodeBefore (node_of s k' e') (node_of s k e))"
      if "map_of (s_entries s) k' = Some e'" "e_queued e'" for k' e'
      using headOf_least [OF o high(2) that] e(3,4) by auto
  qed (use high(4) e in \<open>simp_all add: limit_def\<close>)
next
  case (normal n h t t')
  have ot: "order_ok {} t" by (rule order_ok_headOf' [OF o normal(2)])
  have t: "s_entries t = s_entries s" "s_groups t = s_groups s" using normal(2) headOf_frame [of True s] by simp_all
  have k: "k = n_key n" using normal(1) by simp
  obtain e where e: "map_of (s_entries s) k = Some e" "e_queued e" "\<not> e_priority e" "node_of t k e = n"
    using headOf_entry [OF ot normal(3)] unfolding k t by blast
  have nohigh: "\<not> e_priority e'" if "map_of (s_entries s) k' = Some e'" "e_queued e'" for k' e'
    using headOf_least [OF o normal(2) that] normal(5,6) x by auto
  have "\<not> nodeBefore (node_of s k' e') (node_of s k e)" if "map_of (s_entries s) k' = Some e'" "e_queued e'" for k' e'
    using headOf_least [OF ot normal(3), of k' e'] that nohigh [OF that] e(4) node_of_groups [OF t(2)] t(1) by auto
  then show ?thesis using that [of e] e nohigh normal(6) by (auto simp: limit_def)
qed simp

lemma pump_saturates:
  "order_ok {} s \<Longrightarrow> \<not> s_disposed s \<Longrightarrow> map_of (s_entries (pump c s)) k = Some e \<Longrightarrow> e_queued e \<Longrightarrow>
     limit c e \<le> s_active (pump c s)"
proof (induction c s rule: pump.induct)
  case (1 c s)
  obtain r s' where p: "pump_pick c s = (r, s')" by fastforce
  note q = order_ok_pump_pick [OF "1.prems"(1) p]
  show ?case
  proof (cases r)
    case None
    then have eq: "pump c s = s'" using "1.prems"(2) p by (simp add: pump.simps [of c s])
    from p show ?thesis
    proof (cases rule: pump_pick_cases)
      case (none h t m)
      have ot: "order_ok {} t" by (rule order_ok_headOf' [OF "1.prems"(1) none(2)])
      have f: "s_entries t = s_entries s" "s_entries s' = s_entries s" "s_active s' = s_active s"
        using none(2) headOf_frame [of True s] pump_pick_frame [OF p] by simp_all
      have e: "map_of (s_entries s) k = Some e" "map_of (s_entries t) k = Some e" using "1.prems"(3) eq f by simp_all
      then show ?thesis
        using headOf_least [OF "1.prems"(1) none(2) e(1) "1.prems"(4)] headOf_least [OF ot none(3) e(2) "1.prems"(4)]
          none(4,5) f eq by (cases "e_priority e") (auto simp: limit_def)
    qed (use None in auto)
  next
    case (Some k')
    have "order_ok {} (begin_load c k' s')" using q Some by (intro order_ok_begin_load) simp
    moreover have "\<not> s_disposed (begin_load c k' s')"
      using "1.prems"(2) pump_pick_frame [OF p] by (simp add: begin_load_disposed)
    moreover have eq: "pump c s = pump c (begin_load c k' s')" using "1.prems"(2) p Some by (simp add: pump.simps [of c s])
    ultimately show ?thesis using "1.IH" [OF "1.prems"(2) p [symmetric] Some] "1.prems"(3,4) by simp
  qed
qed

lemma flush_ok:
  assumes o: "order_ok {} s"
  shows "order_ok {} (flush c now s)" "wake c (flush c now s)"
proof -
  let ?s = "s\<lparr>s_flushScheduled := False\<rparr>"
  have o': "order_ok {} ?s" by (rule order_ok_same [OF o]) auto
  show "order_ok {} (flush c now s)"
    unfolding flush_def by (rule order_ok_same [OF order_ok_pump [OF o', of c]]) (auto simp: checkScreen_frame)
  have "s_disposed (pump c ?s)" if "s_disposed s" using that by (simp add: pump.simps [of c ?s])
  then show "wake c (flush c now s)"
    using pump_saturates [OF o', of c] by (auto simp: wake_def flush_def checkScreen_frame)
qed

section \<open>Every run\<close>

lemma retry_ok:
  assumes o: "order_ok {} s" and w: "wake c s" and wf: "map_wf (s_entries s)"
  shows "order_ok {} (on_retry t s)" "wake c (on_retry t s)"
proof -
  have "order_ok {} (on_retry t s) \<and> wake c (on_retry t s)"
  proof (cases "find (\<lambda>(k, e). e_timer e = Some t) (s_entries s)")
    case None
    then show ?thesis using o w by (simp add: on_retry_def)
  next
    case (Some p)
    obtain k e where p: "p = (k, e)" by fastforce
    have e: "map_of (s_entries s) k = Some e" using entry_found [OF Some [unfolded p] wf] by blast
    let ?u = "upd_entry k (\<lambda>e. e\<lparr>e_timer := None\<rparr>) s"
    have u: "shrinks s ?u" by (rule shrinks_upd_entry) (simp add: sched_key_def)
    obtain b s2 where d: "pending_delete k (del_entry k ?u) = (b, s2)" by fastforce
    have s2: "shrinks s s2" by (rule shrinks_trans [OF shrinks_trans [OF u shrinks_simple(4)] shrinks_pending_delete [OF d]])
    have has: "map_of (s_entries ?u) k = Some (e\<lparr>e_timer := None\<rparr>)" using e by (simp add: upd_entry_frame js_map_simps)
    have eq: "on_retry t s = (if s_disposed s then ?u else if e_waiters e = [] then if b then scheduleFlush s2 else s2
        else enqueue k ?u)"
      using Some p d by (simp add: on_retry_def upd_entry_frame)
    have "order_ok {} (enqueue k ?u)" using order_ok_enqueue [OF shrinks_order_ok [OF u o] has] by simp
    moreover have "wake c (enqueue k ?u)" if "\<not> s_disposed s"
      using that has by (simp add: wake_def enqueue_frame upd_entry_frame)
    ultimately show ?thesis
      using shrinks_order_ok [OF u o] shrinks_wake [OF u w] shrinks_order_ok [OF s2 o] shrinks_wake [OF s2 w]
        shrinks_order_ok [OF shrinks_trans [OF s2 shrinks_simple(6)] o] shrinks_wake [OF shrinks_trans [OF s2 shrinks_simple(6)] w]
      unfolding eq by simp
  qed
  then show "order_ok {} (on_retry t s)" "wake c (on_retry t s)" by simp_all
qed

lemma finally_ok:
  assumes o: "order_ok {} s" and w: "wake c s"
  shows "order_ok {} (on_finally a s)" "wake c (on_finally a s)"
proof -
  have "order_ok {} (on_finally a s) \<and> wake c (on_finally a s)"
  proof (cases "find (\<lambda>x. at_ref x = a) (s_attempts s)")
    case None
    then show ?thesis using o w by (simp add: on_finally_def)
  next
    case (Some x)
    let ?s1 = "emit (ClearTimer (at_timer x)) (s\<lparr>s_attempts := filter (\<lambda>y. at_ref y \<noteq> a) (s_attempts s)\<rparr>)"
    let ?s2 = "case entry_of_attempt a ?s1 of None \<Rightarrow> ?s1 | Some (k, e) \<Rightarrow> finishAttempt k ?s1"
    have "shrinks s ?s1" by (rule shrinks_plain) (simp_all add: emit_frame)
    then have "shrinks s ?s2"
      using shrinks_trans [OF _ shrinks_finishAttempt] by (auto split: option.split)
    then have 2: "order_ok {} ?s2" using shrinks_order_ok o by blast
    have "order_ok {} (scheduleFlush (?s2\<lparr>s_active := s_active ?s2 - 1\<rparr>))"
      by (rule order_ok_same [OF 2]) (simp_all add: scheduleFlush_frame)
    moreover have "wake c (scheduleFlush (?s2\<lparr>s_active := s_active ?s2 - 1\<rparr>))"
      by (simp add: wake_def scheduleFlush_frame)
    moreover have "on_finally a s = scheduleFlush (?s2\<lparr>s_active := s_active ?s2 - 1\<rparr>)"
      by (simp only: on_finally_def Some option.case Let_def)
    ultimately show ?thesis by simp
  qed
  then show "order_ok {} (on_finally a s)" "wake c (on_finally a s)" by simp_all
qed

lemma load_ok:
  assumes o: "order_ok {} s" and w: "wake c s" and l: "load c now q k s = (r, s')"
  shows "order_ok {} s'" "wake c s'"
proof -
  have cached: "shrinks s (load_cached now k s)"
    using shrinks_trans [OF shrinks_trans [OF shrinks_simple(5) shrinks_simple(7)] shrinks_simple(6)]
    by (auto simp: load_cached_def Let_def split: option.split)
  have d: "shrinks s (del_entry k s)" by (rule shrinks_simple)
  have "order_ok {} s' \<and> wake c s'"
    using l o w shrinks_order_ok [OF cached o] shrinks_wake [OF cached w]
      order_ok_load_wait [OF o] wake_load_wait [OF w]
      order_ok_load_wait [OF shrinks_order_ok [OF d o]] wake_load_wait [OF shrinks_wake [OF d w]]
    by (auto simp: load_def split: if_splits prod.splits option.splits)
  then show "order_ok {} s'" "wake c s'" by simp_all
qed

lemma run_step:
  assumes st: "art_step c s s'" and i: "inv_entries s" and o: "order_ok {} s" and w: "wake c s"
  shows "order_ok {} s' \<and> wake c s'"
proof -
  have sh: ?thesis if "shrinks s s'" using shrinks_order_ok [OF that o] shrinks_wake [OF that w] by blast
  from st show ?thesis
  proof cases
    case (step_load now q k answer)
    then show ?thesis using load_ok [OF o w] by blast
  next
    case (step_peek k answer)
    then have "s' = s \<or> s' = touch k s" by (auto simp: peek_def split: option.splits)
    then show ?thesis using sh shrinks_refl shrinks_simple(5) by blast
  next
    case step_reorder
    then show ?thesis using order_ok_reorder [OF o] wake_reorder [OF w] by simp
  next
    case step_flush
    then show ?thesis using flush_ok [OF o] by simp
  next
    case step_finally
    then show ?thesis using finally_ok [OF o w] by simp
  next
    case step_retry
    then show ?thesis using retry_ok [OF o w inv_entriesD(1) [OF i]] by simp
  next
    case step_dispose
    then show ?thesis using o w
      by (auto simp: dispose_def emit_all_frame order_ok_def nodes_ok_def groups_ok_def wake_def lane_def heap_clear_def)
  next
    case step_abort
    then show ?thesis using sh shrinks_abort_waiter by blast
  next
    case step_loaded
    then show ?thesis using sh shrinks_on_loaded [OF i] by simp
  next
    case step_failed
    then show ?thesis using sh shrinks_on_failed by blast
  next
    case step_timeout
    then show ?thesis using sh shrinks_trans [OF shrinks_simple(8) shrinks_simple(1)] unfolding on_timeout_def by blast
  next
    case step_beginScreen
    then show ?thesis by (intro sh shrinks_plain) (auto simp: beginScreen_def)
  next
    case step_subscribe
    then show ?thesis by (intro sh shrinks_plain) (auto simp: subscribe_def)
  next
    case step_unsubscribe
    then show ?thesis by (intro sh shrinks_plain) (auto simp: unsubscribe_def)
  next
    case step_teardown
    then show ?thesis by (intro sh shrinks_plain) (auto simp: run_teardown_def emit_all_frame)
  qed
qed

lemma art_reachable_order:
  assumes "art_reachable c s" "0 \<le> c_priorityExtra c" "0 \<le> c_concurrency c"
  shows "order_ok {} s \<and> wake c s"
  using assms(1)
proof induction
  case art_init
  show ?case by (simp add: new_scheduler_def order_ok_def nodes_ok_def groups_ok_def wake_def lane_def)
next
  case (art_next s s')
  have "inv_entries s" using art_reachable_ok [OF art_next(1) assms(2,3)] by (simp add: art_ok_def)
  then show ?case using run_step [OF art_next(2)] art_next(3) by blast
qed

end
