(* ===== verification/Artwork_Eviction.thy ===== *)
theory Artwork_Eviction
  imports Artwork_Runs
begin

text \<open>
  What \<open>trim\<close> promises: work under way and pinned values stay, each pool ends within its budget
  or holds nothing that could go, and within a pool the values at the front of the map go first.
\<close>

definition pool_ok :: "'v art_config \<Rightarrow> bool \<Rightarrow> int \<Rightarrow> int \<Rightarrow> int \<Rightarrow> bool" where
  "pool_ok c large_pool large normal bytes \<longleftrightarrow>
     (if large_pool then large \<le> c_maxLargeEntries c else bytes \<le> c_maxBytes c \<and> normal \<le> c_maxEntries c)"

definition evictable :: "'v art_config \<Rightarrow> 'v art_entry \<Rightarrow> bool" where
  "evictable c e \<longleftrightarrow> \<not> busy e \<and> (case e_value e of None \<Rightarrow> False | Some v \<Rightarrow> \<not> pinned c v)"

lemma map_sum_Cons: "map_sum w ((k, e) # m) = w e + map_sum w m"
  by (simp add: map_sum_def)

lemmas trim_sums = map_sum_Cons settled_large_def settled_normal_def

text \<open>The counters and the byte total only go down.\<close>

lemma trim_loop_decreases:
  "trim_loop c large normal bytes m = (kept, vs, b) \<Longrightarrow> \<forall>(k, e) \<in> set m. 0 \<le> e_size e \<Longrightarrow> 0 \<le> bytes \<Longrightarrow>
     map_sum settled_large kept \<le> map_sum settled_large m \<and> map_sum settled_normal kept \<le> map_sum settled_normal m
     \<and> b \<le> bytes \<and> 0 \<le> b"
proof (induction m arbitrary: large normal bytes kept vs b)
  case (Cons a m)
  obtain k e where a: "a = (k, e)" by fastforce
  have sz: "0 \<le> e_size e" "\<forall>(k, e) \<in> set m. 0 \<le> e_size e" using Cons.prems(2) a by auto
  from Cons.prems(1) [unfolded a] show ?case
  proof (cases rule: trim_loop_cases)
    case keep
    from Cons.IH [OF keep(3) sz(2) Cons.prems(3)] show ?thesis by (simp add: a keep(2) map_sum_Cons)
  next
    case forget
    from Cons.IH [OF forget(4) sz(2) Cons.prems(3)] show ?thesis by (auto simp: a trim_sums)
  next
    case evict_large
    from Cons.IH [OF evict_large(7) sz(2) Cons.prems(3)] show ?thesis by (auto simp: a trim_sums)
  next
    case evict_normal
    from Cons.IH [OF evict_normal(7) sz(2)] show ?thesis using Cons.prems(3) sz(1) by (auto simp: a trim_sums)
  qed (use Cons.prems in \<open>auto simp: a\<close>)
qed simp

text \<open>What a pool counts after the loop, from what it counted before.\<close>

abbreviation left_large :: "(art_key, 'v art_entry) js_map \<Rightarrow> (art_key, 'v art_entry) js_map \<Rightarrow> int \<Rightarrow> int" where
  "left_large m kept n \<equiv> n - map_sum settled_large m + map_sum settled_large kept"

abbreviation left_normal :: "(art_key, 'v art_entry) js_map \<Rightarrow> (art_key, 'v art_entry) js_map \<Rightarrow> int \<Rightarrow> int" where
  "left_normal m kept n \<equiv> n - map_sum settled_normal m + map_sum settled_normal kept"

lemma trim_loop_pools:
  "trim_loop c large normal bytes m = (kept, vs, b) \<Longrightarrow> \<forall>(k, e) \<in> set m. 0 \<le> e_size e \<Longrightarrow> 0 \<le> bytes \<Longrightarrow>
     (k, e) \<in> set kept \<Longrightarrow> evictable c e \<Longrightarrow>
     pool_ok c (e_large e) (left_large m kept large) (left_normal m kept normal) b"
proof (induction m arbitrary: large normal bytes kept vs b)
  case (Cons a m)
  obtain k' e' where a: "a = (k', e')" by fastforce
  have sz: "0 \<le> e_size e'" "\<forall>(k, e) \<in> set m. 0 \<le> e_size e" using Cons.prems(2) a by auto
  from Cons.prems(1) [unfolded a] show ?case
  proof (cases rule: trim_loop_cases)
    case stop
    then show ?thesis by (simp add: a pool_ok_def within_budget_def)
  next
    case (keep r)
    note d = trim_loop_decreases [OF keep(3) sz(2) Cons.prems(3)]
    show ?thesis
    proof (cases "(k, e) \<in> set r")
      case True
      from Cons.IH [OF keep(3) sz(2) Cons.prems(3) True Cons.prems(5)]
      show ?thesis by (simp add: a keep(2) map_sum_Cons algebra_simps)
    next
      case False
      then have "e = e'" using Cons.prems(4) keep(2) by simp
      then have "pool_ok c (e_large e) large normal bytes"
        using keep(4) Cons.prems(5) by (auto simp: evictable_def pool_ok_def split: option.splits if_splits)
      then show ?thesis using d by (auto simp: pool_ok_def a keep(2) map_sum_Cons)
    qed
  next
    case forget
    from Cons.IH [OF forget(4) sz(2) Cons.prems(3-5)] forget show ?thesis by (simp add: a trim_sums algebra_simps)
  next
    case evict_large
    from Cons.IH [OF evict_large(7) sz(2) Cons.prems(3-5)] evict_large show ?thesis by (simp add: a trim_sums algebra_simps)
  next
    case evict_normal
    from Cons.IH [OF evict_normal(7) sz(2) _ Cons.prems(4,5)] evict_normal show ?thesis by (simp add: a trim_sums algebra_simps)
  qed
qed simp

text \<open>A pool within its budget loses nothing.\<close>

lemma trim_loop_pool_kept:
  "trim_loop c large normal bytes m = (kept, vs, b) \<Longrightarrow> \<forall>(k, e) \<in> set m. 0 \<le> e_size e \<Longrightarrow> 0 \<le> bytes \<Longrightarrow>
     pool_ok c p large normal bytes \<Longrightarrow> (k, e) \<in> set m \<Longrightarrow> e_value e \<noteq> None \<Longrightarrow> e_large e = p \<Longrightarrow> (k, e) \<in> set kept"
proof (induction m arbitrary: large normal bytes kept vs b)
  case (Cons a m)
  obtain k' e' where a: "a = (k', e')" by fastforce
  have sz: "0 \<le> e_size e'" "\<forall>(k, e) \<in> set m. 0 \<le> e_size e" using Cons.prems(2) a by auto
  from Cons.prems(1) [unfolded a] show ?case
  proof (cases rule: trim_loop_cases)
    case stop
    then show ?thesis using Cons.prems(5) a by simp
  next
    case (keep r)
    from Cons.IH [OF keep(3) sz(2) Cons.prems(3,4) _ Cons.prems(6,7)] Cons.prems(5)
    show ?thesis by (auto simp: a keep(2))
  next
    case forget
    from Cons.IH [OF forget(4) sz(2) Cons.prems(3,4) _ Cons.prems(6,7)] Cons.prems(5,6) forget
    show ?thesis by (auto simp: a)
  next
    case evict_large
    from Cons.prems(4) evict_large(5) have p: "\<not> p" by (auto simp: pool_ok_def)
    then have "pool_ok c p (large - 1) normal bytes" using Cons.prems(4) by (simp add: pool_ok_def)
    from Cons.IH [OF evict_large(7) sz(2) Cons.prems(3) this _ Cons.prems(6,7)] Cons.prems(5,7) evict_large(4) p
    show ?thesis by (auto simp: a)
  next
    case evict_normal
    from Cons.prems(4) evict_normal(5) have p: p by (auto simp: pool_ok_def split: if_splits)
    then have "pool_ok c p large (normal - 1) (max 0 (bytes - e_size e'))" using Cons.prems(4) by (simp add: pool_ok_def)
    from Cons.IH [OF evict_normal(7) sz(2) _ this _ Cons.prems(6,7)] Cons.prems(5,7) evict_normal(4) p
    show ?thesis by (auto simp: a)
  qed
qed simp

lemma trim_loop_lru:
  "trim_loop c large normal bytes (xs @ (k, e) # ys) = (kept, vs, b) \<Longrightarrow>
     \<forall>(k, e) \<in> set (xs @ (k, e) # ys). 0 \<le> e_size e \<Longrightarrow> 0 \<le> bytes \<Longrightarrow>
     distinct (map_keys (xs @ (k, e) # ys)) \<Longrightarrow>
     (k, e) \<in> set kept \<Longrightarrow> evictable c e \<Longrightarrow>
     (k', e') \<in> set ys \<Longrightarrow> e_value e' \<noteq> None \<Longrightarrow> e_large e' = e_large e \<Longrightarrow> (k', e') \<in> set kept"
proof (induction xs arbitrary: large normal bytes kept vs b)
  case Nil
  have sz: "0 \<le> e_size e" "\<forall>(k, e) \<in> set ys. 0 \<le> e_size e" using Nil.prems(2) by auto
  have nk: "(k, e) \<notin> set r" if "trim_loop c l n b' ys = (r, vs', b'')" for l n b' r vs' b''
    using trim_loop_subset [OF that] Nil.prems(4) by force
  from Nil.prems(1) have "trim_loop c large normal bytes ((k, e) # ys) = (kept, vs, b)" by simp
  then show ?case
  proof (cases rule: trim_loop_cases)
    case stop
    then show ?thesis using Nil.prems(7) by simp
  next
    case (keep r)
    have "pool_ok c (e_large e') large normal bytes"
      using keep(4) Nil.prems(6,9) by (auto simp: evictable_def pool_ok_def split: option.splits if_splits)
    from trim_loop_pool_kept [OF keep(3) sz(2) Nil.prems(3) this Nil.prems(7,8) refl] show ?thesis by (simp add: keep(2))
  qed (use nk Nil.prems(5) in blast)+
next
  case (Cons a xs)
  obtain k0 e0 where a: "a = (k0, e0)" by fastforce
  let ?m = "xs @ (k, e) # ys"
  have sz: "0 \<le> e_size e0" "\<forall>(k, e) \<in> set ?m. 0 \<le> e_size e" using Cons.prems(2) a by auto
  have d: "distinct (map_keys ?m)" "k0 \<noteq> k" using Cons.prems(4) a by auto
  from Cons.prems(1) have "trim_loop c large normal bytes ((k0, e0) # ?m) = (kept, vs, b)" using a by simp
  then show ?case
  proof (cases rule: trim_loop_cases)
    case stop
    then show ?thesis using Cons.prems(7) by simp
  next
    case (keep r)
    have "(k, e) \<in> set r" using Cons.prems(5) keep(2) d(2) by simp
    from Cons.IH [OF keep(3) sz(2) Cons.prems(3) d(1) this Cons.prems(6-9)] show ?thesis by (simp add: keep(2))
  next
    case forget
    from Cons.IH [OF forget(4) sz(2) Cons.prems(3) d(1) Cons.prems(5-9)] show ?thesis .
  next
    case evict_large
    from Cons.IH [OF evict_large(7) sz(2) Cons.prems(3) d(1) Cons.prems(5-9)] show ?thesis .
  next
    case evict_normal
    from Cons.IH [OF evict_normal(7) sz(2) _ d(1) Cons.prems(5-9)] show ?thesis by simp
  qed
qed

lemma trim_loop_evictable:
  "trim_loop c large normal bytes m = (kept, vs, b) \<Longrightarrow> (k, e) \<in> set m \<Longrightarrow> (k, e) \<notin> set kept \<Longrightarrow>
     evictable c e \<or> e_value e = None \<and> e_failedAt e \<noteq> None \<and> \<not> busy e"
proof (induction m arbitrary: large normal bytes kept vs b)
  case (Cons a m)
  obtain k' e' where a: "a = (k', e')" by fastforce
  from Cons.prems(1) [unfolded a] show ?case
  proof (cases rule: trim_loop_cases)
    case stop
    then show ?thesis using Cons.prems a by auto
  next
    case (keep r)
    from Cons.IH [OF keep(3)] Cons.prems(2,3) show ?thesis by (auto simp: a keep(2))
  next
    case forget
    from Cons.IH [OF forget(4) _ Cons.prems(3)] Cons.prems(2) forget(1-3) show ?thesis by (auto simp: a)
  next
    case evict_large
    from Cons.IH [OF evict_large(7) _ Cons.prems(3)] Cons.prems(2) evict_large(1-3) show ?thesis by (auto simp: a evictable_def)
  next
    case evict_normal
    from Cons.IH [OF evict_normal(7) _ Cons.prems(3)] Cons.prems(2) evict_normal(1-3) show ?thesis by (auto simp: a evictable_def)
  qed
qed simp

lemma trim_loop_released:
  "trim_loop c large normal bytes m = (kept, vs, b) \<Longrightarrow>
     mset (List.map_filter (e_value \<circ> snd) m) = mset (List.map_filter (e_value \<circ> snd) kept) + mset vs"
proof (induction m arbitrary: large normal bytes kept vs b)
  case (Cons a m)
  obtain k' e' where a: "a = (k', e')" by fastforce
  from Cons.prems [unfolded a] show ?case
  proof (cases rule: trim_loop_cases)
    case (keep r)
    from Cons.IH [OF keep(3)] show ?thesis by (simp add: a keep(2) map_filter_simps split: option.split)
  next
    case forget
    from Cons.IH [OF forget(4)] forget(2) show ?thesis by (simp add: a map_filter_simps)
  next
    case evict_large
    from Cons.IH [OF evict_large(7)] evict_large(2,6) show ?thesis by (simp add: a map_filter_simps)
  next
    case evict_normal
    from Cons.IH [OF evict_normal(7)] evict_normal(2,6) show ?thesis by (simp add: a map_filter_simps)
  qed (simp add: a)
qed (simp add: map_filter_simps)

end
