(* ===== verification/Artwork_Recency.thy ===== *)
theory Artwork_Recency
  imports Artwork_Eviction "HOL-Library.Sublist"
begin

text \<open>
  The order of the artwork map is the order of use: the keys of the settled entries appear in the order of their
  last uses, in every run. A use is a \<open>peek\<close> or a \<open>load\<close> that is answered from the map, or the arrival
  of a loaded value. With it \<open>trim\<close>, which goes through the map in order, evicts the least recently used values first.
\<close>

section \<open>The uses of a run\<close>

text \<open>A step, with the key it uses.\<close>

inductive art_use :: "'v art_config \<Rightarrow> 'v sched \<Rightarrow> art_key option \<Rightarrow> 'v sched \<Rightarrow> bool" for c where
  use_load: "load c now q k s = (answer, s') \<Longrightarrow> art_use c s (case answer of Resolved v \<Rightarrow> Some k | _ \<Rightarrow> None) s'"
| use_peek: "peek k s = (answer, s') \<Longrightarrow> art_use c s (case answer of Some v \<Rightarrow> Some k | None \<Rightarrow> None) s'"
| use_loaded: "x \<in> set (s_attempts s) \<Longrightarrow> \<not> at_settled x \<Longrightarrow>
    art_use c s (map_option fst (entry_of_attempt (at_ref x) s)) (on_loaded c now (at_ref x) v s)"
| use_reorder: "art_use c s None (reorder k order grp s)"
| use_beginScreen: "art_use c s None (beginScreen now label s)"
| use_subscribe: "art_use c s None (subscribe l s)"
| use_unsubscribe: "art_use c s None (unsubscribe l s)"
| use_abort: "art_use c s None (abort_waiter w s)"
| use_flush: "s_flushScheduled s \<Longrightarrow> art_use c s None (flush c now s)"
| use_timeout: "x \<in> set (s_attempts s) \<Longrightarrow> art_use c s None (on_timeout (at_ref x) s)"
| use_failed: "x \<in> set (s_attempts s) \<Longrightarrow> \<not> at_settled x \<Longrightarrow> art_use c s None (on_failed c now (at_ref x) err s)"
| use_finally: "x \<in> set (s_attempts s) \<Longrightarrow> at_settled x \<Longrightarrow> art_use c s None (on_finally (at_ref x) s)"
| use_retry: "art_use c s None (on_retry t s)"
| use_dispose: "art_use c s None (dispose s)"
| use_teardown: "art_use c s None (run_teardown s)"

text \<open>The steps are those of the scheduler, so every run has a history of uses (oldest first).\<close>

lemma art_step_use: "art_step c s s' \<longleftrightarrow> (\<exists>u. art_use c s u s')"
proof
  assume "art_step c s s'"
  then show "\<exists>u. art_use c s u s'" by cases (blast intro: art_use.intros)+
next
  assume "\<exists>u. art_use c s u s'"
  then obtain u where "art_use c s u s'" ..
  then show "art_step c s s'" by cases (blast intro: art_step.intros)+
qed

inductive art_history :: "'v art_config \<Rightarrow> 'v sched \<Rightarrow> art_key list \<Rightarrow> bool" for c where
  history_new: "art_history c new_scheduler []"
| history_next: "art_history c s us \<Longrightarrow> art_use c s u s' \<Longrightarrow> art_history c s' (us @ (case u of Some k \<Rightarrow> [k] | None \<Rightarrow> []))"

lemma art_reachable_history: "art_reachable c s \<longleftrightarrow> (\<exists>us. art_history c s us)"
proof
  assume "art_reachable c s"
  then show "\<exists>us. art_history c s us"
    by induction (use art_step_use in \<open>blast intro: art_history.intros\<close>)+
next
  assume "\<exists>us. art_history c s us"
  then obtain us where "art_history c s us" ..
  then show "art_reachable c s"
    by induction (use art_step_use in \<open>blast intro: art_reachable.intros\<close>)+
qed

section \<open>The settled keys\<close>

definition settled_in :: "(art_key, 'v art_entry) js_map \<Rightarrow> art_key list" where
  "settled_in m = map fst (filter (\<lambda>(k, e). e_value e \<noteq> None) m)"

abbreviation settled_keys :: "'v sched \<Rightarrow> art_key list" where
  "settled_keys s \<equiv> settled_in (s_entries s)"

lemma settled_in_iff: "map_wf m \<Longrightarrow> k \<in> set (settled_in m) \<longleftrightarrow> (\<exists>e. map_of m k = Some e \<and> e_value e \<noteq> None)"
  by (force simp: settled_in_def map_wf_in_set)

lemma settled_map_entry:
  "(\<And>e. map_of m k = Some e \<Longrightarrow> e_value (f e) = e_value e) \<Longrightarrow> settled_in (AList.map_entry k f m) = settled_in m"
  by (induction m) (auto simp: settled_in_def split: if_splits)

lemma settled_del: "settled_in (map_del k m) = filter (\<lambda>k'. k' \<noteq> k) (settled_in m)"
  by (induction m) (auto simp: settled_in_def AList.delete_eq)

lemma settled_append: "settled_in (m @ m') = settled_in m @ settled_in m'"
  by (simp add: settled_in_def)

lemma settled_touch:
  "map_of m k = Some e \<Longrightarrow> settled_in (map_touch k m) = filter (\<lambda>k'. k' \<noteq> k) (settled_in m) @ (if e_value e = None then [] else [k])"
  by (simp add: map_touch_last settled_append settled_del) (simp add: settled_in_def)

lemma settled_untoken: "untoken m = untoken m' \<Longrightarrow> settled_in m = settled_in m'"
proof -
  have "settled_in (untoken m) = settled_in m" for m :: "(art_key, 'a art_entry) js_map"
    by (induction m) (auto simp: untoken_def settled_in_def)
  then show "untoken m = untoken m' \<Longrightarrow> settled_in m = settled_in m'" by metis
qed

lemma settled_subseq: "subseq m' m \<Longrightarrow> subseq (settled_in m') (settled_in m)"
  unfolding settled_in_def by (intro subseq_map subseq_filter)

lemma trim_loop_subseq: "trim_loop c large normal bytes m = (kept, vs, b) \<Longrightarrow> subseq kept m"
proof (induction m arbitrary: large normal bytes kept vs b)
  case (Cons a m)
  obtain k e where a: "a = (k, e)" by fastforce
  from Cons.prems [unfolded a] show ?case
    by (cases rule: trim_loop_cases) (use Cons.IH in \<open>auto simp: a\<close>)
qed simp

section \<open>Operations that use nothing\<close>

text \<open>Settled entries are at most removed.\<close>

definition forgets :: "'v sched \<Rightarrow> 'v sched \<Rightarrow> bool" where
  "forgets s s' \<longleftrightarrow> subseq (settled_keys s') (settled_keys s)"

lemma forgets_refl [simp]: "forgets s s"
  by (simp add: forgets_def)

lemma forgets_trans: "forgets s s' \<Longrightarrow> forgets s' s'' \<Longrightarrow> forgets s s''"
  unfolding forgets_def by (rule subseq_order.order_trans)

lemma forgets_same: "settled_keys s' = settled_keys s \<Longrightarrow> forgets s s'"
  by (simp add: forgets_def)

lemma forgets_del: "forgets s (del_entry k s)"
  by (simp add: forgets_def del_entry_frame settled_del subseq_filter_left)

lemma forgets_trim: "forgets s (trim c s)"
proof -
  obtain kept rel b where t: "trim_loop c (map_sum settled_large (s_entries s)) (map_sum settled_normal (s_entries s))
      (s_byteTotal s) (s_entries s) = (kept, rel, b)" by (metis prod_cases3)
  show ?thesis using settled_subseq [OF trim_loop_subseq [OF t]] by (simp add: forgets_def trim_def t emit_all_frame)
qed

lemma forgets_pushNode: "forgets s (pushNode k s)"
  by (rule forgets_same) (simp add: pushNode_entries settled_map_entry)

lemma forgets_enqueue: "forgets s (enqueue k s)"
  by (rule forgets_same) (simp add: enqueue_frame settled_map_entry enqueued_def)

lemma forgets_place: "place k order grp s = (b, s') \<Longrightarrow> forgets s s'"
  by (rule forgets_same) (simp add: place_frame settled_map_entry place_entry_def)

lemma forgets_pending: "pending_delete k s = (b, s') \<Longrightarrow> forgets s s'"
  by (rule forgets_same) (simp add: pending_delete_frame)

lemma forgets_upd: "(\<And>e. e_value (f e) = e_value e) \<Longrightarrow> forgets s (upd_entry k f s)"
  by (rule forgets_same) (simp add: upd_entry_frame settled_map_entry)

lemma forgets_simple [simp]:
  "forgets s (emit f s)" "forgets s (emit_all fs s)" "forgets s (notify s)" "forgets s (scheduleFlush s)" "forgets s (upd_screen u s)"
  "forgets s (upd_attempt a h s)" "forgets s (dequeue k s)" "forgets s (finishAttempt k s)" "forgets s (pop_lane hi s)"
  by (rule forgets_same; simp add: art_frame settled_map_entry)+

lemma forgets_begin_load: "forgets s (begin_load c k s)"
proof -
  have start: "forgets t (start_load c k t)" for t :: "'a sched"
  proof (cases "map_of (s_entries t) k")
    case (Some e)
    show ?thesis
    proof (cases "s_disposed t \<or> e_waiters e = []")
      case True
      then show ?thesis using Some forgets_del by (auto simp: start_load_def split: option.split)
    next
      case False
      then show ?thesis
        using settled_untoken [OF start_load_frame(1) [OF Some, of c]] by (intro forgets_same) (simp add: settled_map_entry)
    qed
  qed (simp add: start_load_def)
  show ?thesis unfolding begin_load_def by (rule forgets_trans [OF forgets_simple(7) start])
qed

lemma forgets_pump: "forgets s (pump c s)"
proof (induction c s rule: pump.induct)
  case (1 c s)
  obtain r s' where p: "pump_pick c s = (r, s')" by fastforce
  have pick: "forgets s s'" by (rule forgets_same) (simp add: pump_pick_frame [OF p])
  show ?case
  proof (cases "s_disposed s \<or> r = None")
    case True
    then show ?thesis using p pick by (auto simp: pump.simps [of c s])
  next
    case False
    then obtain k where r: "r = Some k" by auto
    have "forgets (begin_load c k s') (pump c (begin_load c k s'))" using "1.IH" [OF _ p [symmetric] r] False by simp
    then have "forgets s (pump c (begin_load c k s'))"
      using forgets_trans [OF forgets_trans [OF pick forgets_begin_load]] by blast
    then show ?thesis using False p r by (simp add: pump.simps [of c s])
  qed
qed

lemma forgets_load_wait:
  assumes "load_wait c q k s = (w, s')"
  shows "forgets s s'"
proof -
  obtain e where e: "map_of (load_base c q k s) k = Some e"
    by (cases "map_of (s_entries s) k") (auto simp: load_base_def js_map_simps)
  have base: "settled_in (load_base c q k s) = settled_keys s"
    by (auto simp: load_base_def map_set_absent settled_append) (simp add: settled_in_def new_entry_def)
  show ?thesis
  proof (rule load_wait_frame [OF assms e])
    fix t sq
    assume "s_entries s' = AList.map_entry k (\<lambda>e. (waited q w e)\<lparr>e_queued := e_queued e \<or> idle e, e_seq := sq, e_token := t\<rparr>) (load_base c q k s)"
    then show ?thesis by (intro forgets_same) (simp add: settled_map_entry base)
  qed
qed

lemma forgets_flush: "forgets s (flush c now s)"
proof -
  have "forgets (s\<lparr>s_flushScheduled := False\<rparr>) (pump c (s\<lparr>s_flushScheduled := False\<rparr>))" by (rule forgets_pump)
  then show ?thesis by (simp add: forgets_def flush_def checkScreen_frame)
qed

lemma forgets_abandon: "forgets s (abandonIfUnwanted k s)"
proof (cases "map_of (s_entries s) k")
  case (Some e)
  define s1 where "s1 = (case e_timer e of None \<Rightarrow> s | Some t \<Rightarrow> upd_entry k (\<lambda>e. e\<lparr>e_timer := None\<rparr>) (emit (ClearTimer t) s))"
  define s2 where "s2 = (if e_queued e then dequeue k s1 else s1)"
  define s3 where "s3 = (if e_inFlight e = None then del_entry k s2 else s2)"
  obtain b s4 where p: "pending_delete k s3 = (b, s4)" by fastforce
  have "forgets s s1" unfolding s1_def
    by (cases "e_timer e") (simp_all add: forgets_trans [OF forgets_simple(1) forgets_upd])
  then have "forgets s s2" unfolding s2_def using forgets_trans forgets_simple(7) by (metis (full_types))
  then have "forgets s s3" unfolding s3_def using forgets_trans forgets_del by (metis (full_types))
  then have 4: "forgets s s4" using forgets_trans forgets_pending [OF p] by blast
  have "abandonIfUnwanted k s = (if e_waiters e \<noteq> [] \<or> e_value e \<noteq> None then s else if b then scheduleFlush s4 else s4)"
    by (simp only: abandonIfUnwanted_def Some option.case Let_def s1_def [symmetric] s2_def [symmetric] s3_def [symmetric] p prod.case)
  then show ?thesis using 4 forgets_trans [OF 4 forgets_simple(4)] by simp
qed (simp add: abandonIfUnwanted_def)

lemma forgets_abort: "forgets s (abort_waiter w s)"
proof -
  have "forgets s (abandonIfUnwanted k (emit f (upd_entry k (\<lambda>e. e\<lparr>e_waiters := set_del w (e_waiters e)\<rparr>) s)))" for k f
    by (rule forgets_trans [OF forgets_trans [OF forgets_upd forgets_simple(1)] forgets_abandon]) simp
  then show ?thesis by (auto simp: abort_waiter_def split: option.split)
qed

lemma forgets_fail:
  "forgets s (fail_unwanted k s)" "forgets s (fail_retry c k n f s)" "forgets s (fail_final now k ws err s)"
proof -
  obtain b s1 where d: "pending_delete k (del_entry k s) = (b, s1)" by fastforce
  have 1: "forgets s s1" by (rule forgets_trans [OF forgets_del forgets_pending [OF d]])
  then show "forgets s (fail_unwanted k s)"
    using d by (simp add: fail_unwanted_def forgets_def art_frame)
  show "forgets s (fail_retry c k n f s)"
    by (rule forgets_same) (simp add: fail_retry_def Let_def emit_frame upd_entry_frame settled_map_entry)
  let ?s2 = "emit_all (map (\<lambda>w. Reject w err) ws) (upd_entry k (\<lambda>e. e\<lparr>e_failedAt := Some now, e_waiters := []\<rparr>) s)"
  obtain b s3 where d: "pending_delete k ?s2 = (b, s3)" by fastforce
  have "settled_keys ?s2 = settled_keys s" by (simp add: art_frame settled_map_entry)
  then show "forgets s (fail_final now k ws err s)"
    using d by (simp add: fail_final_def Let_def forgets_def art_frame pending_delete_frame [OF d])
qed

lemma forgets_failed: "forgets s (on_failed c now a err s)"
proof -
  let ?s = "upd_attempt a (\<lambda>x. x\<lparr>at_settled := True\<rparr>) s"
  have "forgets s (finishAttempt k ?s)" for k by (rule forgets_trans [OF forgets_simple(6) forgets_simple(8)])
  note 2 = forgets_trans [OF this forgets_fail(1)] forgets_trans [OF this forgets_fail(2)] forgets_trans [OF this forgets_fail(3)]
  show ?thesis using 2 by (auto simp: on_failed_def Let_def split: option.split)
qed

lemma forgets_finally: "forgets s (on_finally a s)"
  by (rule forgets_same) (auto simp: on_finally_def Let_def art_frame settled_map_entry split: option.split)

lemma forgets_retry: "forgets s (on_retry t s)"
proof -
  have 1: "forgets s (upd_entry k (\<lambda>e. e\<lparr>e_timer := None\<rparr>) s)" for k by (rule forgets_upd) simp
  have "forgets s s2" if "pending_delete k (del_entry k (upd_entry k (\<lambda>e. e\<lparr>e_timer := None\<rparr>) s)) = (b, s2)" for k b s2
    by (rule forgets_trans [OF forgets_trans [OF 1 forgets_del] forgets_pending [OF that]])
  then have "forgets s s2" "forgets s (scheduleFlush s2)" if "pending_delete k (del_entry k (upd_entry k (\<lambda>e. e\<lparr>e_timer := None\<rparr>) s)) = (b, s2)" for k b s2
    using that forgets_trans [OF _ forgets_simple(4)] by blast+
  then show ?thesis
    using 1 forgets_trans [OF 1 forgets_enqueue]
    by (auto simp: on_retry_def Let_def split: option.split prod.split)
qed

lemma forgets_reorder: "forgets s (reorder k order grp s)"
proof -
  obtain b s1 where p: "place k (Some order) grp s = (b, s1)" by fastforce
  note 1 = forgets_place [OF p]
  show ?thesis using p 1 forgets_trans [OF forgets_trans [OF 1 forgets_pushNode] forgets_simple(4)]
    by (auto simp: reorder_def split: option.split)
qed

section \<open>The order of use\<close>

text \<open>A step that uses \<open>k\<close> makes it the newest of the settled keys; otherwise keys are only removed.\<close>

definition used_step :: "art_key option \<Rightarrow> 'v sched \<Rightarrow> 'v sched \<Rightarrow> bool" where
  "used_step u s s' \<longleftrightarrow>
     subseq (settled_keys s') (case u of None \<Rightarrow> settled_keys s | Some k \<Rightarrow> filter (\<lambda>k'. k' \<noteq> k) (settled_keys s) @ [k])"

lemma touch_used: "map_of (s_entries s) k = Some e \<Longrightarrow> e_value e \<noteq> None \<Longrightarrow> used_step (Some k) s (touch k s)"
  by (cases "e_value e") (simp_all add: used_step_def touch_frame settled_touch)

lemma load_used:
  assumes "load c now q k s = (answer, s')"
  shows "used_step (case answer of Resolved v \<Rightarrow> Some k | _ \<Rightarrow> None) s s'"
proof -
  have wait: "forgets s t" if "load_wait c q k s = (w, t)" for w t by (rule forgets_load_wait [OF that])
  have again: "forgets s t" if "load_wait c q k (del_entry k s) = (w, t)" for w t
    by (rule forgets_trans [OF forgets_del forgets_load_wait [OF that]])
  have "s_entries (load_cached now k s) = map_touch k (s_entries s)"
    by (simp add: load_cached_def Let_def art_frame split: option.split)
  then have cached: "used_step (Some k) s (load_cached now k s)" if "map_of (s_entries s) k = Some e" "e_value e \<noteq> None" for e
    using that by (cases "e_value e") (simp_all add: used_step_def settled_touch)
  show ?thesis
    using assms wait again cached
    by (auto simp: load_def used_step_def forgets_def split: if_splits option.splits prod.splits)
qed

text \<open>What the map is when a loaded value has been stored, before the eviction.\<close>

lemma on_loaded_shape:
  assumes ok: "inv_entries s" and live: "\<not> s_disposed s" and f: "entry_of_attempt a s = Some (k, e)"
  obtains s7 where "on_loaded c now a v s = notify (trim c s7)" "inv_entries s7"
    "s_entries s7 = map_touch k (AList.map_entry k (\<lambda>e. settle_value c v (e\<lparr>e_inFlight := None\<rparr>)) (s_entries s))"
proof -
  let ?s = "upd_attempt a (\<lambda>x. x\<lparr>at_settled := True\<rparr>) s"
  let ?s3 = "emit_all (map (\<lambda>w. Resolve w v) (e_waiters e)) (upd_entry k (settle_value c v) (finishAttempt k ?s))"
  let ?s4 = "if e_large e then ?s3 else ?s3\<lparr>s_byteTotal := s_byteTotal ?s3 + e_size (settle_value c v e)\<rparr>"
  obtain there s6 where p: "pending_delete k (touch k ?s4) = (there, s6)" by fastforce
  let ?s7 = "if there then upd_screen (first_image now) s6 else s6"
  have e: "map_of (s_entries s) k = Some e" "e_inFlight e = Some a"
    using entry_found [OF f [unfolded entry_of_attempt_def]] inv_entriesD(1) [OF ok] by auto
  have o: "entries_ok (s_entries s) (s_queuedCount s) (s_byteTotal s)" using ok by (simp add: inv_entries_def)
  have "entries_ok (AList.map_entry k (\<lambda>e. settle_value c v (e\<lparr>e_inFlight := None\<rparr>)) (s_entries s)) (s_queuedCount s)
      (s_byteTotal s + (if e_large e then 0 else e_size (settle_value c v e)))"
    using inv_entriesD(2) [OF ok e(1)] e by (intro entries_ok_map_entry [OF o e(1)]) (auto simp: settle_value_def weight_defs)
  from entries_ok_touch [OF this] have "inv_entries ?s7"
    by (auto simp: inv_entries_def upd_screen_frame pending_delete_frame [OF p] art_frame)
  moreover have "on_loaded c now a v s = notify (trim c ?s7)"
    using live f p by (simp add: on_loaded_def Let_def upd_attempt_frame)
  moreover have "s_entries ?s7 = map_touch k (AList.map_entry k (\<lambda>e. settle_value c v (e\<lparr>e_inFlight := None\<rparr>)) (s_entries s))"
    by (auto simp: art_frame pending_delete_frame [OF p])
  ultimately show thesis using that by blast
qed

lemma settled_arrival:
  assumes "map_of m k = Some e" "e_value (f e) \<noteq> None"
  shows "settled_in (map_touch k (AList.map_entry k f m)) = filter (\<lambda>k'. k' \<noteq> k) (settled_in m) @ [k]"
proof -
  have "map_del k (AList.map_entry k f m) = map_del k m" by (induction m) auto
  then have "filter (\<lambda>k'. k' \<noteq> k) (settled_in (AList.map_entry k f m)) = filter (\<lambda>k'. k' \<noteq> k) (settled_in m)"
    unfolding settled_del [symmetric] by simp
  then show ?thesis using settled_touch [of "AList.map_entry k f m" k "f e"] assms by (simp add: js_map_simps)
qed

lemma loaded_used:
  assumes "art_ok c s"
  shows "used_step (map_option fst (entry_of_attempt a s)) s (on_loaded c now a v s)"
proof (cases "entry_of_attempt a s")
  case None
  then show ?thesis by (simp add: used_step_def on_loaded_def Let_def art_frame entry_of_attempt_def)
next
  case (Some r)
  obtain k e where f: "entry_of_attempt a s = Some (k, e)" using Some by (cases r) simp
  have ok: "inv_entries s" and live: "\<not> s_disposed s"
    using assms f by (auto simp: art_ok_def inv_attempts_def entry_of_attempt_def)
  have e: "map_of (s_entries s) k = Some e" using entry_found [OF f [unfolded entry_of_attempt_def]] inv_entriesD(1) [OF ok] by simp
  show ?thesis
  proof (rule on_loaded_shape [OF ok live f, of c now v])
    fix s7
    assume s7: "on_loaded c now a v s = notify (trim c s7)"
      "s_entries s7 = map_touch k (AList.map_entry k (\<lambda>e. settle_value c v (e\<lparr>e_inFlight := None\<rparr>)) (s_entries s))"
    have "settled_keys s7 = filter (\<lambda>k'. k' \<noteq> k) (settled_keys s) @ [k]"
      unfolding s7(2) using e by (rule settled_arrival) (simp add: settle_value_def)
    then show ?thesis using forgets_trim [of s7 c] f unfolding s7(1) by (simp add: used_step_def forgets_def notify_frame)
  qed
qed

lemma use_used:
  assumes "art_use c s u s'" "art_ok c s"
  shows "used_step u s s'"
proof -
  have plain: "used_step None s t \<longleftrightarrow> forgets s t" for t by (simp add: used_step_def forgets_def)
  have fields: "settled_keys (on_timeout a s) = settled_keys s" "settled_keys (beginScreen now label s) = settled_keys s"
      "settled_keys (subscribe l s) = settled_keys s" "settled_keys (unsubscribe l s) = settled_keys s" "settled_keys (run_teardown s) = settled_keys s" for a now label l
    by (simp_all add: on_timeout_def beginScreen_def subscribe_def unsubscribe_def run_teardown_def art_frame)
  from assms(1) show ?thesis
  proof cases
    case use_load
    then show ?thesis using load_used by blast
  next
    case (use_peek k answer)
    then show ?thesis using touch_used by (auto simp: peek_def used_step_def split: option.splits)
  next
    case use_loaded
    then show ?thesis using loaded_used [OF assms(2)] by simp
  next
    case use_dispose
    then show ?thesis by (auto simp: used_step_def dispose_def settled_in_def emit_all_frame)
  qed (simp_all add: plain forgets_same [OF fields(1)] forgets_same [OF fields(2)] forgets_same [OF fields(3)] forgets_same [OF fields(4)]
      forgets_same [OF fields(5)] forgets_reorder forgets_flush forgets_abort forgets_failed forgets_finally forgets_retry)
qed

lemma remdups_append_filter: "remdups (xs @ ys) = filter (\<lambda>x. x \<notin> set ys) (remdups xs) @ remdups ys"
  by (induction xs) simp_all

lemma remdups_snoc: "remdups (xs @ [x]) = filter (\<lambda>y. y \<noteq> x) (remdups xs) @ [x]"
proof -
  have "remdups (xs @ [x]) = filter (\<lambda>y. y \<notin> set [x]) (remdups xs) @ remdups [x]" by (rule remdups_append_filter)
  then show ?thesis by simp
qed

lemma history_order:
  assumes "art_history c s us" "0 \<le> c_priorityExtra c" "0 \<le> c_concurrency c"
  shows "subseq (settled_keys s) (remdups us)"
  using assms(1)
proof induction
  case history_new
  show ?case by (simp add: new_scheduler_def settled_in_def)
next
  case (history_next s us u s')
  have "art_ok c s" using history_next(1) art_reachable_history art_reachable_ok [OF _ assms(2,3)] by blast
  note step = use_used [OF history_next(2) this]
  show ?case
  proof (cases u)
    case None
    then show ?thesis using step history_next(3) by (auto simp: used_step_def intro: subseq_order.order_trans)
  next
    case (Some k)
    have "subseq (filter (\<lambda>k'. k' \<noteq> k) (settled_keys s) @ [k]) (filter (\<lambda>k'. k' \<noteq> k) (remdups us) @ [k])"
      using history_next(3) by (intro list_emb_append_mono subseq_filter) simp_all
    moreover have "subseq (settled_keys s') (filter (\<lambda>k'. k' \<noteq> k) (settled_keys s) @ [k])" using step Some by (simp add: used_step_def)
    ultimately have "subseq (settled_keys s') (remdups (us @ [k]))" unfolding remdups_snoc by (metis subseq_order.order_trans)
    then show ?thesis using Some by simp
  qed
qed

section \<open>Eviction in the order of use\<close>

lemma trim_shape:
  obtains kept vs b where
    "trim_loop c (map_sum settled_large (s_entries s)) (map_sum settled_normal (s_entries s)) (s_byteTotal s) (s_entries s) = (kept, vs, b)"
    "s_entries (trim c s) = kept" "s_byteTotal (trim c s) = b" "s_effects (trim c s) = s_effects s @ map Release vs"
  by (cases "trim_loop c (map_sum settled_large (s_entries s)) (map_sum settled_normal (s_entries s)) (s_byteTotal s) (s_entries s)")
    (auto simp: trim_def emit_all_def intro: that)

lemma sizes_ok:
  assumes "inv_entries s"
  shows "\<forall>(k, e) \<in> set (s_entries s). 0 \<le> e_size e" "0 \<le> s_byteTotal s" "distinct (map_keys (s_entries s))"
proof -
  have wf: "map_wf (s_entries s)" by (rule inv_entriesD(1) [OF assms])
  have ok: "entry_ok e" if "(k, e) \<in> set (s_entries s)" for k e
    using inv_entriesD(2) [OF assms] that map_wf_in_set [OF wf] by blast
  from wf ok show "\<forall>(k, e) \<in> set (s_entries s). 0 \<le> e_size e" "distinct (map_keys (s_entries s))"
    by (auto simp: entry_ok_def map_wf_def)
  show "0 \<le> s_byteTotal s"
    using assms ok byte_weight_nonneg by (auto simp: inv_entries_def entries_ok_def intro!: map_sum_nonneg)
qed

text \<open>Of two keys in a sequence without repetitions, the one before the other in a subsequence is before it.\<close>

lemma subseq_before:
  assumes "subseq (as @ k # bs) (xs @ k # ys)" "k \<notin> set xs" "k \<notin> set ys"
  shows "set as \<subseteq> set xs"
proof -
  obtain us vs where s: "xs @ k # ys = us @ vs" "subseq as us" "subseq (k # bs) vs"
    using list_emb_appendD [OF assms(1)] by blast
  have "k \<in> set vs" by (rule list_emb_set [OF s(3), of k]) auto
  obtain zs where "xs @ zs = us \<and> k # ys = zs @ vs \<or> xs = us @ zs"
    using s(1) [unfolded append_eq_append_conv2 [of xs]] by blast
  then have "set us \<subseteq> set xs"
  proof
    assume zs: "xs @ zs = us \<and> k # ys = zs @ vs"
    show ?thesis using zs \<open>k \<in> set vs\<close> assms(3) by (cases zs) auto
  next
    assume "xs = us @ zs"
    then show ?thesis by simp
  qed
  moreover have "x \<in> set us" if "x \<in> set as" for x by (rule list_emb_set [OF s(2) that]) simp
  ultimately show ?thesis by blast
qed

lemma used_after:
  assumes "subseq (as @ k # bs) (remdups (past @ k # since))" "k \<notin> set since" "k' \<in> set since"
  shows "k' \<notin> set as"
proof -
  have "remdups (past @ k # since) = filter (\<lambda>x. x \<notin> set (k # since)) (remdups past) @ k # remdups since"
    using assms(2) by (simp add: remdups_append_filter)
  from subseq_before [OF assms(1) [unfolded this]] show ?thesis using assms(2,3) by auto
qed

text \<open>When the value of \<open>k0\<close> arrives: what was used after a value that could have gone stays with it.\<close>

lemma arrival_evicts_oldest:
  assumes h: "art_history c s us" and c: "0 \<le> c_priorityExtra c" "0 \<le> c_concurrency c"
    and f: "entry_of_attempt a s = Some (k0, e0)"
    and uses: "us @ [k0] = past @ k # since" "k \<notin> set since" "k' \<in> set since"
    and k: "map_get (s_entries (on_loaded c now a v s)) k = Some e" "evictable c e"
    and k': "map_get (s_entries s) k' = Some e'" "k' = k0 \<or> e_value e' \<noteq> None" "e_large e' = e_large e"
  shows "\<exists>e''. map_get (s_entries (on_loaded c now a v s)) k' = Some e'' \<and> e_value e'' \<noteq> None"
proof -
  have ok: "art_ok c s" using h art_reachable_history art_reachable_ok [OF _ c] by blast
  then have i: "inv_entries s" "\<not> s_disposed s" using f by (auto simp: art_ok_def inv_attempts_def entry_of_attempt_def)
  have e0: "map_of (s_entries s) k0 = Some e0" using entry_found [OF f [unfolded entry_of_attempt_def]] inv_entriesD(1) [OF i(1)] by simp
  let ?f = "\<lambda>e. settle_value c v (e\<lparr>e_inFlight := None\<rparr>)"
  obtain s7 where s7: "on_loaded c now a v s = notify (trim c s7)" "inv_entries s7" "s_entries s7 = map_touch k0 (AList.map_entry k0 ?f (s_entries s))"
    by (rule on_loaded_shape [OF i f])
  have wf: "map_wf (s_entries s7)" by (rule inv_entriesD(1) [OF s7(2)])
  obtain kept vs b where t: "trim_loop c (map_sum settled_large (s_entries s7)) (map_sum settled_normal (s_entries s7)) (s_byteTotal s7) (s_entries s7) = (kept, vs, b)"
      "s_entries (on_loaded c now a v s) = kept"
    by (rule trim_shape [of c s7]) (simp add: s7(1) notify_frame)
  have sub: "set kept \<subseteq> set (s_entries s7)" "distinct (map_keys kept)" using trim_loop_subset [OF t(1)] wf by (auto simp: map_wf_def)
  have in_kept: "(k, e) \<in> set kept" using k(1) unfolding t(2) by (rule map_of_SomeD)
  obtain xs ys where split: "s_entries s7 = xs @ (k, e) # ys" using in_kept sub(1) by (meson split_list subsetD)
  define e7 where "e7 = (if k' = k0 then ?f e' else e')"
  have e7: "map_of (s_entries s7) k' = Some e7" "e_value e7 \<noteq> None" "e_large e7 = e_large e"
    using k' by (auto simp: s7(3) js_map_simps e7_def settle_value_def)
  have "settled_keys s7 = filter (\<lambda>k'. k' \<noteq> k0) (settled_keys s) @ [k0]" unfolding s7(3) using e0 by (rule settled_arrival) (simp add: settle_value_def)
  then have "subseq (settled_keys s7) (remdups (us @ [k0]))"
    unfolding remdups_snoc using history_order [OF h c] by (simp add: list_emb_append_mono subseq_filter)
  moreover have "e_value e \<noteq> None" using k(2) by (auto simp: evictable_def split: option.splits)
  then have "settled_keys s7 = settled_in xs @ k # settled_in ys" by (simp add: split settled_in_def)
  ultimately have "k' \<notin> set (settled_in xs)" using used_after uses by metis
  then have "(k', e7) \<notin> set xs" using e7(2) by (force simp: settled_in_def)
  moreover have "k' \<noteq> k" using uses(2,3) by blast
  ultimately have later: "(k', e7) \<in> set ys" using map_of_SomeD [OF e7(1)] by (auto simp: split)
  note z = sizes_ok [OF s7(2), unfolded split]
  have "0 \<le> s_byteTotal s7" by (rule sizes_ok(2) [OF s7(2)])
  from trim_loop_lru [OF t(1) [unfolded split] z(1) this z(3) in_kept k(2) later e7(2,3)]
  have "(k', e7) \<in> set kept" .
  then show ?thesis using e7(2) sub(2) by (auto simp: t(2))
qed

end
