(* ===== verification/Artwork_Properties.thy ===== *)
theory Artwork_Properties
  imports Artwork_Recency
begin

text \<open>
  The promises of the artwork scheduler, stated over the model of \<open>heap.ts\<close> and \<open>scheduler.ts\<close>,
  with a concrete scheduler on which each is applied.
\<close>

section \<open>A concrete scheduler\<close>

definition demo_options :: "string art_options" where
  "demo_options =
     \<lparr>o_classify = None, o_concurrency = Some 1, o_priorityExtra = None, o_maxEntries = None,
      o_maxBytes = None, o_sizeOf = None, o_isPinned = None, o_isLargeKey = None,
      o_maxLargeEntries = None, o_backoffMs = None, o_failedCooldownMs = None, o_timeoutMs = None\<rparr>"

definition demo_request :: art_request where
  "demo_request = \<lparr>q_aborted = False, q_high = False, q_order = None, q_group = Some ''row'', q_large = None\<rparr>"

text \<open>Two images of a row are asked for; the one slot takes the first.\<close>

definition demo_asked :: "string sched" where
  "demo_asked =
     (let c = artwork_config demo_options
      in snd (load c 0 demo_request ''b'' (snd (load c 0 demo_request ''a'' new_scheduler))))"

definition demo_running :: "string sched" where
  "demo_running = flush (artwork_config demo_options) 1 demo_asked"

lemma config_bounds: "0 \<le> c_priorityExtra (artwork_config o')" "0 \<le> c_concurrency (artwork_config o')"
  by (simp_all add: artwork_config_def)

lemma demo_asked_reachable: "art_reachable (artwork_config demo_options) demo_asked"
  unfolding demo_asked_def Let_def
  by (intro art_next [OF art_next [OF art_init]] step_load) (rule prod.collapse [symmetric])+

lemma demo_running_reachable: "art_reachable (artwork_config demo_options) demo_running"
  unfolding demo_running_def
proof (rule art_next [OF demo_asked_reachable step_flush])
  show "s_flushScheduled demo_asked" by code_simp
qed

lemma lookup_holds: "case_option False P x \<Longrightarrow> \<exists>e. x = Some e \<and> P e"
  by (cases x) auto

section \<open>The heap\<close>

text \<open>
  C30. \<open>MinHeap.pop\<close> on a heap returns an item no other item comes before, removes exactly that
  item, and leaves a heap; on an empty heap it returns nothing.
\<close>

theorem heap_pop_correct:
  assumes "is_heap nodeBefore h"
  shows "is_heap nodeBefore (snd (heap_pop nodeBefore h))
     \<and> (case fst (heap_pop nodeBefore h) of
          None \<Rightarrow> h = []
        | Some x \<Rightarrow> mset h = add_mset x (mset (snd (heap_pop nodeBefore h))) \<and> (\<forall>y \<in> set h. \<not> nodeBefore y x))"
proof (cases "heap_peek h")
  case None
  then show ?thesis using assms by (simp add: fst_heap_pop heap_peek_eq split: if_splits)
next
  case (Some x)
  have "x \<in># mset h" using nodes.heap.peek_in [OF Some] by simp
  then show ?thesis
    using Some assms nodes.heap_pop_heap mset_heap_pop [OF Some] nodes.heap.peek_min [OF assms Some]
    by (simp add: fst_heap_pop)
qed

theorem heap_pop_correct_witness:
  "is_heap nodeBefore (snd (heap_pop nodeBefore (s_normal demo_asked))) \<and> heap_size (s_normal demo_asked) = 2"
proof -
  have "is_heap nodeBefore (lane False demo_asked)"
    using art_reachable_order [OF demo_asked_reachable config_bounds]
    unfolding order_ok_def nodes_ok_def by blast
  then have "is_heap nodeBefore (s_normal demo_asked)" by (simp add: lane_def)
  moreover have "heap_size (s_normal demo_asked) = 2" by code_simp
  ultimately show ?thesis using heap_pop_correct by blast
qed

section \<open>The state of an image\<close>

text \<open>
  C3. In every reachable state of the scheduler, an image is in at most one of the states settled,
  queued, in flight and waiting for its retry; whenever somebody waits for it, it is in one of the
  last three, so no waiter is left behind; and a settled image has no waiter.
\<close>

theorem art_entry_states:
  assumes "art_reachable (artwork_config o') s" "map_get (s_entries s) k = Some e"
  shows "(e_value e \<noteq> None \<longrightarrow> \<not> e_queued e \<and> e_inFlight e = None \<and> e_timer e = None \<and> e_waiters e = [])
     \<and> (e_queued e \<longrightarrow> e_inFlight e = None \<and> e_timer e = None)
     \<and> (e_inFlight e \<noteq> None \<longrightarrow> e_timer e = None)
     \<and> (e_waiters e \<noteq> [] \<longrightarrow> e_queued e \<or> e_inFlight e \<noteq> None \<or> e_timer e \<noteq> None)"
proof -
  have "inv_entries s" using art_reachable_ok [OF assms(1) config_bounds] by (simp add: art_ok_def)
  from inv_entriesD(2) [OF this assms(2)] show ?thesis by (auto simp: weight_defs)
qed

theorem art_entry_states_witness:
  "\<exists>e. map_get (s_entries demo_running) ''b'' = Some e \<and> e_queued e \<and> e_waiters e \<noteq> []
      \<and> e_inFlight e = None \<and> e_timer e = None \<and> e_value e = None"
proof -
  have "case_option False (\<lambda>e. e_queued e \<and> e_waiters e \<noteq> []) (map_get (s_entries demo_running) ''b'')"
    by code_simp
  then have "\<exists>e. map_get (s_entries demo_running) ''b'' = Some e \<and> e_queued e \<and> e_waiters e \<noteq> []"
    by (rule lookup_holds)
  then show ?thesis using art_entry_states [OF demo_running_reachable] by blast
qed

text \<open>
  C17. In every reachable state \<open>queuedCount\<close> is the number of queued images and \<open>byteTotal\<close> the
  bytes of the settled images of the normal pool: the two running totals never drift.
\<close>

theorem art_totals_exact:
  assumes "art_reachable (artwork_config o') s"
  shows "s_queuedCount s = int (length (filter (\<lambda>(k, e). e_queued e) (s_entries s)))
     \<and> s_byteTotal s = (\<Sum>(k, e) \<leftarrow> s_entries s. if e_value e \<noteq> None \<and> \<not> e_large e then e_size e else 0)"
proof -
  have count: "map_sum queued_weight m = int (length (filter (\<lambda>(k, e). e_queued e) m))"
    for m :: "(art_key, 'a art_entry) js_map"
    by (induction m) (auto simp: map_sum_def queued_weight_def)
  have "inv_entries s" using art_reachable_ok [OF assms config_bounds] by (simp add: art_ok_def)
  then show ?thesis by (simp add: inv_entries_def entries_ok_def count) (simp add: map_sum_def byte_weight_def)
qed

theorem art_totals_exact_witness:
  "s_queuedCount demo_running = int (length (filter (\<lambda>(k, e). e_queued e) (s_entries demo_running)))
     \<and> s_queuedCount demo_running = 1"
proof -
  have "s_queuedCount demo_running = 1" by code_simp
  then show ?thesis using art_totals_exact [OF demo_running_reachable] by blast
qed

section \<open>Slots and attempts\<close>

text \<open>
  C14. In every reachable state \<open>active\<close> is the number of loads that have not finished, and it
  never exceeds the configured concurrency plus the slots reserved for high priority.
\<close>

theorem art_slots_bounded:
  assumes "art_reachable (artwork_config o') s"
  shows "s_active s = int (length (s_attempts s))
     \<and> s_active s \<le> c_concurrency (artwork_config o') + c_priorityExtra (artwork_config o')"
  using art_reachable_ok [OF assms config_bounds] by (simp add: art_ok_def inv_attempts_def slots_ok_def)

theorem art_slots_bounded_witness:
  "s_active demo_running = int (length (s_attempts demo_running)) \<and> s_active demo_running = 1"
proof -
  have "s_active demo_running = 1" by code_simp
  then show ?thesis using art_slots_bounded [OF demo_running_reachable] by blast
qed

text \<open>
  C19. Until the scheduler is disposed, the entry an unsettled load belongs to is still in the map
  and carries that load's controller, and no other entry carries it: when the load settles, the
  callback reaches the entry it started from.
\<close>

theorem art_attempt_entry:
  assumes "art_reachable (artwork_config o') s" "\<not> s_disposed s" "x \<in> set (s_attempts s)" "\<not> at_settled x"
  shows "\<exists>e. map_get (s_entries s) (at_key x) = Some e \<and> e_inFlight e = Some (at_ref x)
     \<and> (\<forall>k e'. map_get (s_entries s) k = Some e' \<and> e_inFlight e' = Some (at_ref x) \<longrightarrow> k = at_key x)"
proof -
  have i: "inv_attempts s" using art_reachable_ok [OF assms(1) config_bounds] by (simp add: art_ok_def)
  have fl: "inflight (s_entries s) (at_key x) = Some (at_ref x)" using i assms(2-4) by (simp add: inv_attempts_def)
  then obtain e where "map_get (s_entries s) (at_key x) = Some e" "e_inFlight e = Some (at_ref x)"
    by (auto simp: inflight_def bind_eq_Some_conv)
  moreover have "k = at_key x" if "map_get (s_entries s) k = Some e'" "e_inFlight e' = Some (at_ref x)" for k e'
    using inflight_inj [OF i _ fl, of k] that by (simp add: inflight_def)
  ultimately show ?thesis by blast
qed

theorem art_attempt_entry_witness:
  "\<exists>e. map_get (s_entries demo_running) ''a'' = Some e \<and> e_inFlight e = Some 2"
proof -
  let ?x = "\<lparr>at_ref = 2, at_key = ''a'', at_timer = 3, at_timedOut = False, at_settled = False\<rparr>"
  have "?x \<in> set (s_attempts demo_running)" "\<not> s_disposed demo_running" by code_simp+
  from art_attempt_entry [OF demo_running_reachable this(2,1)] show ?thesis by auto
qed

section \<open>The order of loading\<close>

text \<open>
  C6. The image the pump starts next has a free slot, is of high priority whenever a high-priority
  image is queued, and among the queued images of its priority none has a smaller rank (its group
  has started), then visual order, then sequence, taken from the entries as they are now.
\<close>

theorem pump_starts_least:
  assumes "art_reachable (artwork_config o') s" "pump_pick (artwork_config o') s = (Some k, s')"
  shows "\<exists>e. map_get (s_entries s) k = Some e \<and> e_queued e
     \<and> s_active s < c_concurrency (artwork_config o') + (if e_priority e then c_priorityExtra (artwork_config o') else 0)
     \<and> (\<forall>k' e'. map_get (s_entries s) k' = Some e' \<and> e_queued e' \<longrightarrow>
          (e_priority e' \<longrightarrow> e_priority e)
          \<and> (e_priority e' = e_priority e \<longrightarrow>
               node_rank s e < node_rank s e'
               \<or> node_rank s e = node_rank s e'
                 \<and> (e_order e < e_order e' \<or> e_order e = e_order e' \<and> e_seq e \<le> e_seq e')))"
proof -
  have o: "order_ok {} s" using art_reachable_order [OF assms(1) config_bounds] by blast
  obtain e where e: "map_of (s_entries s) k = Some e" "e_queued e" "s_active s < limit (artwork_config o') e"
    and least: "\<And>k' e'. map_of (s_entries s) k' = Some e' \<Longrightarrow> e_queued e' \<Longrightarrow>
       (e_priority e' \<longrightarrow> e_priority e) \<and>
       (e_priority e' = e_priority e \<longrightarrow> \<not> nodeBefore (node_of s k' e') (node_of s k e))"
    using pump_pick_least [OF o config_bounds(1) assms(2)] by blast
  have "node_rank s e < node_rank s e' \<or> node_rank s e = node_rank s e'
      \<and> (e_order e < e_order e' \<or> e_order e = e_order e' \<and> e_seq e \<le> e_seq e')"
    if "\<not> nodeBefore (node_of s k' e') (node_of s k e)" for k' e'
    using that by (auto simp: nodeBefore_def node_of_def split: if_splits)
  then show ?thesis using e least by (auto simp: limit_def)
qed

theorem pump_starts_least_witness:
  "\<exists>e. map_get (s_entries demo_asked) ''a'' = Some e \<and> e_queued e \<and> e_seq e \<le> 2"
proof -
  let ?c = "artwork_config demo_options"
  have p: "pump_pick ?c demo_asked = (Some ''a'', snd (pump_pick ?c demo_asked))" by code_simp
  have "case_option False (\<lambda>e. e_seq e \<le> 2) (map_get (s_entries demo_asked) ''a'')" by code_simp
  from lookup_holds [OF this] show ?thesis using pump_starts_least [OF demo_asked_reachable p] by auto
qed

text \<open>
  C11. After a flush of a live scheduler every image still queued finds its slots taken: nothing
  that could start is left waiting.
\<close>

theorem flush_saturates:
  assumes "art_reachable (artwork_config o') s" "\<not> s_disposed s"
    "map_get (s_entries (flush (artwork_config o') now s)) k = Some e" "e_queued e"
  shows "c_concurrency (artwork_config o') + (if e_priority e then c_priorityExtra (artwork_config o') else 0)
     \<le> s_active (flush (artwork_config o') now s)"
proof -
  let ?s = "s\<lparr>s_flushScheduled := False\<rparr>"
  have "order_ok {} s" using art_reachable_order [OF assms(1) config_bounds] by blast
  then have "order_ok {} ?s" by (rule order_ok_same) auto
  from pump_saturates [OF this, of "artwork_config o'" k e] show ?thesis
    using assms(2-4) by (simp add: flush_def checkScreen_frame limit_def)
qed

theorem flush_saturates_witness:
  "c_concurrency (artwork_config demo_options) \<le> s_active (flush (artwork_config demo_options) 1 demo_asked)"
proof -
  have d: "\<not> s_disposed demo_asked"
    and "case_option False (\<lambda>e. e_queued e \<and> \<not> e_priority e)
      (map_get (s_entries (flush (artwork_config demo_options) 1 demo_asked)) ''b'')"
    by code_simp+
  from lookup_holds [OF this(2)] show ?thesis using flush_saturates [OF demo_asked_reachable d] by fastforce
qed

text \<open>
  C1. No wake-up is lost: in every reachable state of a live scheduler, a queued image that a free
  slot could take has a flush scheduled.
\<close>

theorem art_no_lost_wakeup:
  assumes "art_reachable (artwork_config o') s" "\<not> s_disposed s"
    "map_get (s_entries s) k = Some e" "e_queued e"
    "s_active s < c_concurrency (artwork_config o') + (if e_priority e then c_priorityExtra (artwork_config o') else 0)"
  shows "s_flushScheduled s"
  using art_reachable_order [OF assms(1) config_bounds] assms(2-5) by (fastforce simp: wake_def limit_def)

theorem art_no_lost_wakeup_witness: "s_flushScheduled demo_asked"
proof -
  have "\<not> s_disposed demo_asked" "s_active demo_asked = 0" "c_concurrency (artwork_config demo_options) = 1"
    and e: "case_option False (\<lambda>e. e_queued e \<and> \<not> e_priority e) (map_get (s_entries demo_asked) ''a'')"
    by code_simp+
  then show ?thesis using lookup_holds [OF e] art_no_lost_wakeup [OF demo_asked_reachable] by fastforce
qed

section \<open>Eviction\<close>

text \<open>
  C21. Eviction never removes an image somebody waits for, that is queued, loading or about to be
  retried, nor a pinned value; and afterwards each pool (large images by count, the others by
  count and bytes) is within its budget unless every value left in it is busy or pinned.
\<close>

theorem trim_within_budget:
  assumes "art_reachable (artwork_config o') s"
  shows "(\<forall>(k, e) \<in> set (s_entries s).
            busy e \<or> (case e_value e of None \<Rightarrow> e_failedAt e = None | Some v \<Rightarrow> pinned (artwork_config o') v)
            \<longrightarrow> (k, e) \<in> set (s_entries (trim (artwork_config o') s)))
     \<and> (\<forall>(k, e) \<in> set (s_entries (trim (artwork_config o') s)).
            evictable (artwork_config o') e \<longrightarrow>
            pool_ok (artwork_config o') (e_large e)
              (map_sum settled_large (s_entries (trim (artwork_config o') s)))
              (map_sum settled_normal (s_entries (trim (artwork_config o') s)))
              (s_byteTotal (trim (artwork_config o') s)))"
proof -
  let ?c = "artwork_config o'"
  have i: "inv_entries s" using art_reachable_ok [OF assms config_bounds] by (simp add: art_ok_def)
  note z = sizes_ok [OF i]
  show ?thesis
  proof (rule trim_shape [of ?c s])
    fix kept vs b
    assume t: "trim_loop ?c (map_sum settled_large (s_entries s)) (map_sum settled_normal (s_entries s)) (s_byteTotal s)
        (s_entries s) = (kept, vs, b)" "s_entries (trim ?c s) = kept" "s_byteTotal (trim ?c s) = b"
    show ?thesis
      unfolding t(2,3) using trim_loop_evictable [OF t(1)] trim_loop_pools [OF t(1) z(1,2)]
      by (fastforce simp: evictable_def split: option.splits)
  qed
qed

theorem trim_within_budget_witness:
  "\<exists>e. busy e \<and> (''b'', e) \<in> set (s_entries (trim (artwork_config demo_options) demo_running))"
proof -
  have "case_option False busy (map_get (s_entries demo_running) ''b'')" by code_simp
  from lookup_holds [OF this] obtain e where e: "map_get (s_entries demo_running) ''b'' = Some e" "busy e" by blast
  then show ?thesis using trim_within_budget [OF demo_running_reachable] map_of_SomeD [OF e(1)] by fast
qed

text \<open>Two images, two slots, both loads under way.\<close>

definition wide_options :: "string art_options" where
  "wide_options = demo_options\<lparr>o_concurrency := Some 2\<rparr>"

definition wide_running :: "string sched" where
  "wide_running =
     (let c = artwork_config wide_options
      in flush c 1 (snd (load c 0 demo_request ''b'' (snd (load c 0 demo_request ''a'' new_scheduler)))))"

abbreviation wide_attempt :: "nat \<Rightarrow> art_key \<Rightarrow> art_attempt" where
  "wide_attempt a k \<equiv> \<lparr>at_ref = a, at_key = k, at_timer = Suc a, at_timedOut = False, at_settled = False\<rparr>"

lemma wide_running_reachable: "art_reachable (artwork_config wide_options) wide_running"
proof -
  let ?c = "artwork_config wide_options"
  have "art_reachable ?c (snd (load ?c 0 demo_request ''b'' (snd (load ?c 0 demo_request ''a'' new_scheduler))))"
    by (intro art_next [OF art_next [OF art_init]] step_load) (rule prod.collapse [symmetric])+
  moreover have "s_flushScheduled (snd (load ?c 0 demo_request ''b'' (snd (load ?c 0 demo_request ''a'' new_scheduler))))"
    by code_simp
  ultimately show ?thesis unfolding wide_running_def Let_def by (intro art_next [OF _ step_flush])
qed





section \<open>Settlement\<close>

lemma attempt_found:
  assumes "art_reachable (artwork_config o') s" "\<not> s_disposed s" "x \<in> set (s_attempts s)" "\<not> at_settled x"
    "map_get (s_entries s) (at_key x) = Some e"
  shows "entry_of_attempt (at_ref x) s = Some (at_key x, e)" "e_inFlight e = Some (at_ref x)"
proof -
  have i: "inv_attempts s" "map_wf (s_entries s)"
    using art_reachable_ok [OF assms(1) config_bounds] inv_entriesD(1) by (auto simp: art_ok_def)
  have fl: "inflight (s_entries s) (at_key x) = Some (at_ref x)" using i assms(2-4) by (simp add: inv_attempts_def)
  then show e: "e_inFlight e = Some (at_ref x)" using assms(5) by (simp add: inflight_def)
  have "entry_of_attempt (at_ref x) s \<noteq> None"
    using map_of_SomeD [OF assms(5)] e by (auto simp: entry_of_attempt_def find_None_iff)
  then obtain k' e' where f: "entry_of_attempt (at_ref x) s = Some (k', e')" by auto
  then have "map_of (s_entries s) k' = Some e'" "e_inFlight e' = Some (at_ref x)"
    using entry_found [of "\<lambda>e. e_inFlight e = Some (at_ref x)" "s_entries s" k' e'] i(2) by (simp_all add: entry_of_attempt_def)
  moreover have "k' = at_key x"
    using inflight_inj [OF i(1) _ fl, of k'] calculation by (simp add: inflight_def)
  ultimately show "entry_of_attempt (at_ref x) s = Some (at_key x, e)" using f assms(5) by simp
qed

text \<open>
  C24. When a load fails: with nobody waiting the entry is dropped and nothing is rejected; a
  retryable failure (a timeout always is) with attempts left keeps every waiter and sets one
  retry timer, no earlier than the back-off and the server's \<open>Retry-After\<close>; otherwise every
  waiter is rejected with the error and the failure is remembered.
\<close>

theorem on_failed_outcome:
  fixes s :: "'v sched"
  assumes "art_reachable (artwork_config o') s" "\<not> s_disposed s" "x \<in> set (s_attempts s)" "\<not> at_settled x"
    "map_get (s_entries s) (at_key x) = Some e"
    and c: "c = artwork_config o'" and s': "s' = on_failed c now (at_ref x) err s"
    and failure: "failure = (if at_timedOut x then \<lparr>retryable = True, retryAfterSeconds = None\<rparr> else c_classify c err)"
  shows "if e_waiters e = []
     then map_get (s_entries s') (at_key x) = None \<and> s_effects s' = s_effects s @ map NotifyListener (s_listeners s)
     else if retryable failure \<and> e_attempts e \<le> length (c_backoffMs c)
     then \<exists>t d. map_get (s_entries s') (at_key x) = Some (e\<lparr>e_inFlight := None, e_timer := Some t\<rparr>)
        \<and> s_effects s' = s_effects s @ [SetTimer t d]
        \<and> (\<forall>r. retryAfterSeconds failure = Some r \<longrightarrow> r * 1000 \<le> d)
        \<and> (0 < e_attempts e \<longrightarrow> c_backoffMs c ! (e_attempts e - 1) \<le> d)
     else map_get (s_entries s') (at_key x) = Some (e\<lparr>e_inFlight := None, e_failedAt := Some now, e_waiters := []\<rparr>)
        \<and> s_effects s' = s_effects s @ map (\<lambda>w. Reject w err) (e_waiters e) @ map NotifyListener (s_listeners s)"
proof -
  let ?k = "at_key x" and ?a = "at_ref x"
  let ?u = "upd_attempt ?a (\<lambda>x. x\<lparr>at_settled := True\<rparr>) s"
  note f = attempt_found [OF assms(1-5)]
  have i: "inv_attempts s" using art_reachable_ok [OF assms(1) config_bounds] by (simp add: art_ok_def)
  have timed: "(\<exists>y \<in> set (s_attempts s). at_ref y = ?a \<and> at_timedOut y) = at_timedOut x"
    using assms(3) i by (auto simp: inv_attempts_def distinct_map inj_on_def)
  define s1 where "s1 = finishAttempt ?k ?u"
  have fe: "s_effects s1 = s_effects s" "s_listeners s1 = s_listeners s"
    by (auto simp: s1_def finishAttempt_def upd_attempt_def upd_entry_def upd_group_def dropGroupIfIdle_def Let_def split: option.split)
  have k1: "map_of (s_entries s1) ?k = Some (e\<lparr>e_inFlight := None\<rparr>)"
    using assms(5) by (simp add: s1_def finishAttempt_frame upd_attempt_frame js_map_simps)
  have eq: "s' = (if e_waiters e = [] then fail_unwanted ?k s1
      else if retryable failure \<and> e_attempts e \<le> length (c_backoffMs c) then fail_retry c ?k (e_attempts e) failure s1
      else fail_final now ?k (e_waiters e) err s1)"
    using f assms(2) by (simp add: s' on_failed_def Let_def upd_attempt_frame failure timed s1_def)
  have pd: "s_effects t = s_effects r \<and> s_listeners t = s_listeners r" if "pending_delete k r = (b, t)" for k b and r t :: "'v sched"
    using that by (auto simp: pending_delete_def split: option.splits)
  consider "e_waiters e = []" | "e_waiters e \<noteq> []" "retryable failure \<and> e_attempts e \<le> length (c_backoffMs c)"
    | "e_waiters e \<noteq> []" "\<not> (retryable failure \<and> e_attempts e \<le> length (c_backoffMs c))" by blast
  then show ?thesis
  proof cases
    case 1
    obtain b s2 where p: "pending_delete ?k (del_entry ?k s1) = (b, s2)" by fastforce
    then have "s_effects s2 = s_effects s" "s_listeners s2 = s_listeners s" using pd [OF p] fe by (simp_all add: del_entry_def)
    then show ?thesis
      using 1 p by (auto simp: eq fail_unwanted_def notify_def emit_all_def scheduleFlush_def pending_delete_frame [OF p] del_entry_frame js_map_simps)
  next
    case 2
    have "e_attempts e - 1 < length (c_backoffMs c)" if "0 < e_attempts e" using that 2(2) by auto
    then show ?thesis
      using 2 k1 fe by (auto simp: eq fail_retry_def retry_delay_def Let_def emit_def upd_entry_def js_map_simps)
  next
    case 3
    obtain b s2 where p: "pending_delete ?k (emit_all (map (\<lambda>w. Reject w err) (e_waiters e))
        (upd_entry ?k (\<lambda>e. e\<lparr>e_failedAt := Some now, e_waiters := []\<rparr>) s1)) = (b, s2)" by fastforce
    then have "s_effects s2 = s_effects s @ map (\<lambda>w. Reject w err) (e_waiters e)" "s_listeners s2 = s_listeners s"
      using pd [OF p] fe by (simp_all add: emit_all_def upd_entry_def)
    then show ?thesis
      using 3 p k1 by (auto simp: eq fail_final_def Let_def notify_def emit_all_def upd_screen_def
          pending_delete_frame [OF p] upd_entry_def js_map_simps)
  qed
qed

theorem on_failed_outcome_witness:
  "\<exists>t d. s_effects (on_failed (artwork_config demo_options) 9 2 ArtworkUnavailableError demo_running) =
     s_effects demo_running @ [SetTimer t d] \<and> 5000 \<le> d"
proof -
  let ?c = "artwork_config demo_options" and ?x = "wide_attempt 2 ''a''"
  obtain e where e: "map_get (s_entries demo_running) ''a'' = Some e" "e_waiters e \<noteq> []" "e_attempts e = 1"
  proof -
    have "case_option False (\<lambda>e. e_waiters e \<noteq> [] \<and> e_attempts e = 1) (map_get (s_entries demo_running) ''a'')" by code_simp
    from lookup_holds [OF this] show thesis using that by blast
  qed
  have x: "?x \<in> set (s_attempts demo_running)" "\<not> s_disposed demo_running"
    "c_backoffMs ?c = [5000, 15000, 45000]" "retryable (c_classify ?c ArtworkUnavailableError)"
    by code_simp+
  have "map_get (s_entries demo_running) (at_key ?x) = Some e" "\<not> at_settled ?x" using e(1) by simp_all
  from on_failed_outcome [OF demo_running_reachable x(2,1) this(2,1) refl refl refl, of 9 ArtworkUnavailableError]
  show ?thesis using e(2,3) x(3,4) by auto
qed

text \<open>
  Disposal answers everybody: after the teardown turn every waiter of every entry has been
  rejected, every cached value released, every running load aborted; nothing is left in the map,
  the lanes, the groups or the totals, and every later \<open>load\<close> is rejected without effect.
\<close>

theorem dispose_answers_all:
  assumes "\<not> s_disposed s" "(k, e) \<in> set (s_entries s)"
  shows "(\<forall>w \<in> set (e_waiters e). Reject w (abortError ''Artwork scheduler disposed'') \<in> set (s_effects (run_teardown (dispose s))))
     \<and> (\<forall>v. e_value e = Some v \<longrightarrow> Release v \<in> set (s_effects (run_teardown (dispose s))))
     \<and> (\<forall>a. e_inFlight e = Some a \<longrightarrow> AbortLoad a \<in> set (s_effects (run_teardown (dispose s))))
     \<and> stats (run_teardown (dispose s)) = (0, 0, s_active s, screenStats s, 0, 0)
     \<and> load c now q k' (run_teardown (dispose s)) = (Rejected (abortError ''Artwork scheduler disposed''), run_teardown (dispose s))"
proof -
  have eff: "s_effects (run_teardown (dispose s)) = s_effects s @ concat (map dispose_entry (map_values (s_entries s)))
      @ map (\<lambda>w. Reject w (abortError ''Artwork scheduler disposed'')) (concat (map e_waiters (map_values (s_entries s))))"
    using assms(1) by (simp add: dispose_def run_teardown_def emit_all_def)
  have e: "e \<in> set (map_values (s_entries s))" using assms(2) by force
  have "set (dispose_entry e) \<subseteq> set (s_effects (run_teardown (dispose s)))" using e by (auto simp: eff)
  moreover have "Reject w (abortError ''Artwork scheduler disposed'') \<in> set (s_effects (run_teardown (dispose s)))"
    if "w \<in> set (e_waiters e)" for w
    using e that unfolding eff set_append set_map set_concat by blast
  moreover have "stats (run_teardown (dispose s)) = (0, 0, s_active s, screenStats s, 0, 0)"
    "s_disposed (run_teardown (dispose s))"
    using assms(1) by (simp_all add: dispose_def run_teardown_def emit_all_def stats_def screenStats_def)
  ultimately show ?thesis by (auto simp: dispose_entry_def load_def)
qed

theorem dispose_answers_all_witness:
  "Reject 1 (abortError ''Artwork scheduler disposed'') \<in> set (s_effects (run_teardown (dispose demo_running)))"
proof -
  have nd: "\<not> s_disposed demo_running"
    and "case_option False (\<lambda>e. 1 \<in> set (e_waiters e)) (map_get (s_entries demo_running) ''b'')" by code_simp+
  from lookup_holds [OF this(2)] obtain e where e: "map_get (s_entries demo_running) ''b'' = Some e" "1 \<in> set (e_waiters e)" by blast
  from dispose_answers_all [OF nd map_of_SomeD [OF e(1)]] e(2) show ?thesis by blast
qed

end
