(* ===== verification/JS_Value.thy ===== *)
theory JS_Value
  imports JS_Prelude "HOL-Library.Char_ord"
begin

text \<open>
  Values the clients read from outside (a decoded JSON body or an argument of type \<open>unknown\<close>),
  and the tests the sources apply to them. Strings are lists of code units.
\<close>

section \<open>Values\<close>

datatype jsval =
    JUndef
  | JNull
  | JBool bool
  | JNum js_num
  | JStr string
  | JArr "jsval list"
  | JObj "(string \<times> jsval) list"

text \<open>Reading a property of a value already known to be an object; a missing one is \<open>undefined\<close>.\<close>

definition fld :: "(string \<times> jsval) list \<Rightarrow> string \<Rightarrow> jsval" where
  "fld o' k = (case map_of o' k of Some v \<Rightarrow> v | None \<Rightarrow> JUndef)"

text \<open>\<open>Object.keys(v).some(k => !names.includes(k))\<close> is false.\<close>

definition only_keys :: "(string \<times> jsval) list \<Rightarrow> string list \<Rightarrow> bool" where
  "only_keys o' names \<longleftrightarrow> (\<forall>k \<in> set (map fst o'). k \<in> set names)"

section \<open>Reading unknown values\<close>

definition is_record :: "jsval \<Rightarrow> bool" where
  "is_record v = (case v of JObj _ \<Rightarrow> True | _ \<Rightarrow> False)"

definition is_array :: "jsval \<Rightarrow> bool" where
  "is_array v = (case v of JArr _ \<Rightarrow> True | _ \<Rightarrow> False)"

definition obj_of :: "jsval \<Rightarrow> (string \<times> jsval) list" where
  "obj_of v = (case v of JObj o' \<Rightarrow> o' | _ \<Rightarrow> [])"

definition arr_of :: "jsval \<Rightarrow> jsval list" where
  "arr_of v = (case v of JArr xs \<Rightarrow> xs | _ \<Rightarrow> [])"

definition str_of :: "jsval \<Rightarrow> string" where
  "str_of v = (case v of JStr s \<Rightarrow> s | _ \<Rightarrow> [])"

definition count_of :: "jsval \<Rightarrow> int" where
  "count_of v = (case v of JNum (Fin r) \<Rightarrow> \<lfloor>r\<rfloor> | _ \<Rightarrow> 0)"

text \<open>\<open>value.k\<close> of a value already known to be an object.\<close>

definition at_key :: "jsval \<Rightarrow> string \<Rightarrow> jsval" where
  "at_key v k = fld (obj_of v) k"

definition has_key :: "jsval \<Rightarrow> string \<Rightarrow> bool" where
  "has_key v k \<longleftrightarrow> map_of (obj_of v) k \<noteq> None"

definition opt_of :: "('a \<Rightarrow> 'b) \<Rightarrow> (jsval \<Rightarrow> 'a) \<Rightarrow> jsval \<Rightarrow> 'b option" where
  "opt_of f g v = (if v = JUndef then None else Some (f (g v)))"

text \<open>
  \<open>String(v)\<close> where it can be a word of letters and digits that starts with a letter: a text, or an array of
  one element with that text. Numbers, objects and longer arrays print as other texts; booleans, null and
  undefined print as words of their own, which no caller accepts.
\<close>

fun string_text :: "jsval \<Rightarrow> string option" where
  "string_text (JStr s) = Some s"
| "string_text (JArr [v]) = string_text v"
| "string_text _ = None"

section \<open>Character classes and numerals\<close>

definition is_control :: "char \<Rightarrow> bool" where
  "is_control c \<longleftrightarrow> (of_char c :: nat) < 32 \<or> (of_char c :: nat) = 127"

definition is_digit :: "char \<Rightarrow> bool" where
  "is_digit c \<longleftrightarrow> CHR ''0'' \<le> c \<and> c \<le> CHR ''9''"

definition is_lower_hex :: "char \<Rightarrow> bool" where
  "is_lower_hex c \<longleftrightarrow> is_digit c \<or> (CHR ''a'' \<le> c \<and> c \<le> CHR ''f'')"

definition is_lower :: "char \<Rightarrow> bool" where
  "is_lower c \<longleftrightarrow> CHR ''a'' \<le> c \<and> c \<le> CHR ''z''"

definition is_upper :: "char \<Rightarrow> bool" where
  "is_upper c \<longleftrightarrow> CHR ''A'' \<le> c \<and> c \<le> CHR ''Z''"

definition is_word_char :: "char \<Rightarrow> bool" where
  "is_word_char c \<longleftrightarrow> is_lower c \<or> is_upper c \<or> is_digit c \<or> c = CHR ''_'' \<or> c = CHR ''-''"

text \<open>The value of a decimal numeral, as \<open>BigInt\<close> and \<open>Number\<close> read it.\<close>

definition numeral_value :: "string \<Rightarrow> nat" where
  "numeral_value s = foldl (\<lambda>n c. 10 * n + (of_char c - 48)) 0 s"

definition sizedWithin :: "nat \<Rightarrow> nat \<Rightarrow> string \<Rightarrow> bool" where
  "sizedWithin lo hi s \<longleftrightarrow> lo \<le> length s \<and> length s \<le> hi"

section \<open>Numbers\<close>

definition is_integer :: "rat \<Rightarrow> bool" where
  "is_integer r \<longleftrightarrow> of_int \<lfloor>r\<rfloor> = r"

definition isSafeInteger :: "js_num \<Rightarrow> bool" where
  "isSafeInteger n = (case n of Fin r \<Rightarrow> is_integer r \<and> \<bar>r\<bar> \<le> of_int MAX_SAFE_INTEGER | _ \<Rightarrow> False)"

text \<open>The integer a number stands for, where it is one.\<close>

definition int_of :: "js_num \<Rightarrow> int" where
  "int_of n = (case n of Fin r \<Rightarrow> \<lfloor>r\<rfloor> | _ \<Rightarrow> 0)"

lemma int_of_Fin [simp]: "int_of (Fin (of_int i)) = i"
  by (simp add: int_of_def)

text \<open>\<open>Math.round\<close>: ties go up.\<close>

definition js_round :: "rat \<Rightarrow> int" where
  "js_round r = \<lfloor>r + 1 / 2\<rfloor>"

lemma js_round_near: "\<bar>of_int (js_round r) - r\<bar> \<le> 1 / 2"
  unfolding js_round_def by linarith

lemma js_round_int [simp]: "js_round (of_int n) = n"
  unfolding js_round_def by linarith

lemma is_integer_of_int [simp]: "is_integer (of_int n)"
  by (simp add: is_integer_def)

end
