(* ===== verification/Player_Quality.thy ===== *)
theory Player_Quality
  imports JS_Value
begin

text \<open>
  Playback quality: the ladder (\<open>packages/player-core/src/quality-ladder.ts\<close>), the server's
  vocabulary (\<open>quality.ts\<close>), the viewer's choices and the measuring state machine
  \<open>AutomaticQuality\<close> (\<open>choices.ts\<close>). Bit rates are rationals, times integers in milliseconds;
  \<open>-Infinity\<close> as a time is \<open>None\<close>.
\<close>

text \<open>The one error the player core throws (\<open>validation.ts\<close>).\<close>

datatype player_error = invalid_player_state

section \<open>The ladder\<close>

record ladder_row =
  r_audioKbps :: int
  r_dataGBPerHour :: "rat option"
  r_height :: int
  r_id :: string
  r_label :: string
  r_videoKbps :: int

definition canonicalQualityLadder :: "ladder_row list" where
  "canonicalQualityLadder =
     [\<lparr>r_audioKbps = 0, r_dataGBPerHour = None, r_height = 0, r_id = ''original'', r_label = ''Original'', r_videoKbps = 0\<rparr>,
      \<lparr>r_audioKbps = 0, r_dataGBPerHour = None, r_height = 0, r_id = ''automatic'', r_label = ''Automatic'', r_videoKbps = 0\<rparr>,
      \<lparr>r_audioKbps = 192, r_dataGBPerHour = Some 18, r_height = 2160, r_id = ''2160p'', r_label = ''4K'', r_videoKbps = 40000\<rparr>,
      \<lparr>r_audioKbps = 192, r_dataGBPerHour = Some 9, r_height = 1080, r_id = ''1080p-high'', r_label = ''1080p High'', r_videoKbps = 20000\<rparr>,
      \<lparr>r_audioKbps = 192, r_dataGBPerHour = Some (36 / 10), r_height = 1080, r_id = ''1080p-low'', r_label = ''1080p Low'', r_videoKbps = 8000\<rparr>,
      \<lparr>r_audioKbps = 128, r_dataGBPerHour = Some (18 / 10), r_height = 720, r_id = ''720p-high'', r_label = ''720p High'', r_videoKbps = 4000\<rparr>,
      \<lparr>r_audioKbps = 128, r_dataGBPerHour = Some (9 / 10), r_height = 720, r_id = ''720p-low'', r_label = ''720p Low'', r_videoKbps = 2000\<rparr>,
      \<lparr>r_audioKbps = 96, r_dataGBPerHour = Some (675 / 1000), r_height = 480, r_id = ''480p'', r_label = ''480p'', r_videoKbps = 1500\<rparr>,
      \<lparr>r_audioKbps = 96, r_dataGBPerHour = Some (225 / 1000), r_height = 240, r_id = ''240p'', r_label = ''240p'', r_videoKbps = 500\<rparr>]"

record music_row =
  mr_id :: string
  mr_audioKbps :: int
  mr_dataMBPerHour :: rat

definition canonicalMusicQualityLadder :: "music_row list" where
  "canonicalMusicQualityLadder =
     [\<lparr>mr_id = ''original'', mr_audioKbps = 0, mr_dataMBPerHour = 0\<rparr>,
      \<lparr>mr_id = ''cd-quality'', mr_audioKbps = 0, mr_dataMBPerHour = 0\<rparr>,
      \<lparr>mr_id = ''320'', mr_audioKbps = 320, mr_dataMBPerHour = 144\<rparr>,
      \<lparr>mr_id = ''96'', mr_audioKbps = 96, mr_dataMBPerHour = 432 / 10\<rparr>]"

section \<open>The server's vocabulary\<close>

datatype quality_mode = Mode_original | Mode_cd_quality | Mode_fixed | Mode_automatic | Mode_limit

datatype quality_step = Step_down | Step_up

text \<open>\<open>QualityRequest\<close>; the numbers of a limit are video, height and audio.\<close>

datatype quality_request =
    QOriginal
  | QCdQuality
  | QFixed string
  | QAutomatic "string option" "quality_step option"
  | QLimit "rat option" "rat option" "rat option"

record quality_in_force =
  if_mode :: quality_mode
  if_id :: "string option"
  if_maxVideo :: "rat option"
  if_maxHeight :: "rat option"
  if_maxAudio :: "rat option"

record quality_option =
  op_mode :: quality_mode
  op_id :: "string option"
  op_maxHeight :: "rat option"
  op_maxVideo :: "rat option"
  op_maxAudio :: "rat option"
  op_sameAsOriginal :: "bool option"
  op_dataGBPerHour :: "rat option"
  op_applicable :: "bool option"

definition savedQualities :: "string list" where
  "savedQualities = map r_id canonicalQualityLadder"

definition qualityLadder :: "ladder_row list" where
  "qualityLadder = filter (\<lambda>r. r_height r > 0) canonicalQualityLadder"

definition isQualityId :: "string option \<Rightarrow> bool" where
  "isQualityId v \<longleftrightarrow> (\<exists>r \<in> set qualityLadder. Some (r_id r) = v)"

definition savedQualityRequest :: "string option \<Rightarrow> quality_request" where
  "savedQualityRequest saved =
     (if saved = Some ''automatic'' then QAutomatic None None
      else if isQualityId saved then QFixed (the saved)
      else QOriginal)"

text \<open>A number a limit keeps: absent and 0 are dropped.\<close>

definition truthy_num :: "rat option \<Rightarrow> rat option" where
  "truthy_num n = (case n of Some x \<Rightarrow> if x = 0 then None else Some x | None \<Rightarrow> None)"

definition requestInForce :: "quality_in_force \<Rightarrow> quality_request" where
  "requestInForce q =
     (if if_mode q = Mode_cd_quality then QCdQuality
      else if if_mode q = Mode_fixed \<and> isQualityId (if_id q) then QFixed (the (if_id q))
      else if if_mode q = Mode_automatic then QAutomatic (if isQualityId (if_id q) then if_id q else None) None
      else if if_mode q = Mode_limit
           then QLimit (truthy_num (if_maxVideo q)) (truthy_num (if_maxHeight q)) (truthy_num (if_maxAudio q))
      else QOriginal)"

definition truthy_str :: "string option \<Rightarrow> bool" where
  "truthy_str s \<longleftrightarrow> s \<noteq> None \<and> s \<noteq> Some ''''"

definition qualityOptionRequest :: "quality_option \<Rightarrow> quality_request" where
  "qualityOptionRequest q =
     (if op_mode q = Mode_cd_quality then QCdQuality
      else if op_mode q = Mode_limit then QLimit None None (op_maxAudio q)
      else if op_mode q = Mode_fixed \<and> truthy_str (op_id q) then QFixed (the (op_id q))
      else if op_mode q = Mode_automatic then QAutomatic None None else QOriginal)"

definition qualityOptionSelected :: "quality_option \<Rightarrow> quality_in_force option \<Rightarrow> bool" where
  "qualityOptionSelected q f =
     (let mode = (case f of None \<Rightarrow> Mode_original | Some x \<Rightarrow> if_mode x)
      in if op_mode q \<noteq> mode then False
         else if op_mode q = Mode_limit
              then op_maxAudio q = Option.bind f if_maxAudio
                \<and> truthy_num (Option.bind f if_maxVideo) = None \<and> truthy_num (Option.bind f if_maxHeight) = None
         else op_mode q \<noteq> Mode_fixed \<or> op_id q = Option.bind f if_id)"

text \<open>The error of a refused change: not an object is \<open>None\<close>; the answer holds the row that fits.\<close>

definition connectionTooSlow :: "jsval \<Rightarrow> ladder_row option option" where
  "connectionTooSlow e =
     (case e of
        JObj o' \<Rightarrow> if fld o' ''code'' \<noteq> JStr ''connection_too_slow'' then None
                  else Some (case fld o' ''reason'' of
                               JStr r \<Rightarrow> find (\<lambda>q. r_id q = r) qualityLadder | _ \<Rightarrow> None)
      | _ \<Rightarrow> None)"

definition savedMusicQualities :: "string list" where
  "savedMusicQualities = map mr_id canonicalMusicQualityLadder"

definition savedMusicQualityRequest :: "string option \<Rightarrow> quality_request" where
  "savedMusicQualityRequest saved =
     (if saved = Some ''cd-quality'' then QCdQuality
      else case find (\<lambda>q. Some (mr_id q) = saved) canonicalMusicQualityLadder of
             Some preset \<Rightarrow> if mr_audioKbps preset > 0 then QLimit None None (Some (of_int (mr_audioKbps preset))) else QOriginal
           | None \<Rightarrow> QOriginal)"

section \<open>Choices\<close>

record fixed_quality =
  fq_id :: string
  fq_height :: int
  fq_videoKbps :: int
  fq_audioKbps :: "int option"

definition fixedQualities :: "fixed_quality list" where
  "fixedQualities =
     map (\<lambda>r. \<lparr>fq_id = r_id r, fq_height = r_height r, fq_videoKbps = r_videoKbps r, fq_audioKbps = Some (r_audioKbps r)\<rparr>)
       qualityLadder"

definition qualityChoiceOrder :: "string list" where
  "qualityChoiceOrder = [''original'', ''automatic''] @ map fq_id fixedQualities"

definition isQualityChoice :: "jsval \<Rightarrow> bool" where
  "isQualityChoice v = (case v of JStr s \<Rightarrow> s \<in> set qualityChoiceOrder | _ \<Rightarrow> False)"

definition fixedQuality :: "string option \<Rightarrow> fixed_quality option" where
  "fixedQuality i = find (\<lambda>q. Some (fq_id q) = i) fixedQualities"

definition fq_total :: "fixed_quality \<Rightarrow> int" where
  "fq_total q = fq_videoKbps q + (case fq_audioKbps q of None \<Rightarrow> 0 | Some a \<Rightarrow> a)"

definition offeredQualities :: "rat option \<Rightarrow> rat option \<Rightarrow> fixed_quality list" where
  "offeredQualities height bitrateKbps =
     (case (height, bitrateKbps) of
        (Some h, Some b) \<Rightarrow>
          if \<not> h > 0 \<or> \<not> b > 0 then []
          else filter (\<lambda>q. (of_int (fq_height q) \<le> h
                            \<or> h < of_int (fq_height (last fixedQualities)) \<and> fq_id q = fq_id (last fixedQualities))
                           \<and> of_int (fq_total q) < b) fixedQualities
      | _ \<Rightarrow> [])"

definition heightClass :: "rat \<Rightarrow> int" where
  "heightClass height =
     (if height > 1500 then 2160 else if height > 1100 then 1440 else if height > 780 then 1080
      else if height > 520 then 720 else if height > 400 then 480 else 360)"

definition qualityRequest :: "string \<Rightarrow> fixed_quality option \<Rightarrow> player_error + quality_request" where
  "qualityRequest choice step =
     (if \<not> isQualityChoice (JStr choice) then Inl invalid_player_state
      else if choice = ''automatic''
           then Inr (QAutomatic (Some (case step of Some q \<Rightarrow> fq_id q | None \<Rightarrow> ''original'')) None)
      else case fixedQuality (Some choice) of
             Some q \<Rightarrow> Inr (QFixed (fq_id q))
           | None \<Rightarrow> Inr QOriginal)"

definition fixedQualityOf :: "quality_request option \<Rightarrow> fixed_quality option" where
  "fixedQualityOf request =
     (case request of
        Some (QFixed i) \<Rightarrow> if i \<noteq> '''' then find (\<lambda>q. fq_id q = i) fixedQualities else None
      | Some (QAutomatic (Some i) st) \<Rightarrow> if i \<noteq> '''' then find (\<lambda>q. fq_id q = i) fixedQualities else None
      | Some (QLimit v h a) \<Rightarrow>
          (case truthy_num v of
             None \<Rightarrow> None
           | Some video \<Rightarrow>
               find (\<lambda>q. of_int (fq_videoKbps q) = video
                      \<and> (case truthy_num h of None \<Rightarrow> True | Some x \<Rightarrow> of_int (fq_height q) = x)
                      \<and> (case truthy_num a of None \<Rightarrow> True | Some x \<Rightarrow> map_option of_int (fq_audioKbps q) = Some x))
                 fixedQualities)
      | _ \<Rightarrow> None)"

definition qualityChoiceOf :: "quality_request option \<Rightarrow> string option" where
  "qualityChoiceOf quality =
     (case quality of
        None \<Rightarrow> None
      | Some QOriginal \<Rightarrow> Some ''original''
      | Some (QAutomatic i s) \<Rightarrow> Some ''automatic''
      | Some q \<Rightarrow> map_option fq_id (fixedQualityOf (Some q)))"

section \<open>Automatic quality\<close>

record auto_options =
  ao_steps :: "fixed_quality list"
  ao_originalKbps :: "rat option"
  ao_startAt :: "fixed_quality option"
  ao_shortfallMs :: "int option"
  ao_headroomMs :: "int option"
  ao_stallWindowMs :: "int option"
  ao_holdMs :: "int option"

record auto_config =
  a_steps :: "fixed_quality list"
  a_originalKbps :: "rat option"
  a_shortfallMs :: int
  a_headroomMs :: int
  a_stallWindowMs :: int
  a_holdMs :: int

text \<open>The mutable fields; \<open>a_last\<close> is the \<open>last\<close> the clock closure keeps.\<close>

record auto_state =
  a_index :: int
  a_estimateKbps :: "rat option"
  a_shortSince :: "int option"
  a_roomSince :: "int option"
  a_stalls :: "int list"
  a_changedAt :: "int option"
  a_wentUpAt :: "int option"
  a_upHoldMs :: int
  a_last :: int

definition find_index :: "('a \<Rightarrow> bool) \<Rightarrow> 'a list \<Rightarrow> int" where
  "find_index P xs = (case find (\<lambda>i. P (xs ! i)) [0..<length xs] of None \<Rightarrow> -1 | Some i \<Rightarrow> int i)"

definition valid_steps :: "fixed_quality list \<Rightarrow> bool" where
  "valid_steps steps \<longleftrightarrow>
     length steps \<le> length fixedQualities \<and> distinct (map fq_id steps)
     \<and> (\<forall>s \<in> set steps. \<exists>q \<in> set fixedQualities.
           fq_id q = fq_id s \<and> fq_height q = fq_height s \<and> fq_videoKbps q = fq_videoKbps s)"

definition valid_ms :: "int option \<Rightarrow> bool" where
  "valid_ms v = (case v of None \<Rightarrow> True | Some n \<Rightarrow> 0 \<le> n \<and> n \<le> 600000)"

definition new_automatic :: "auto_options \<Rightarrow> player_error + (auto_config \<times> auto_state)" where
  "new_automatic o' =
     (if \<not> valid_steps (ao_steps o')
         \<or> \<not> valid_ms (ao_shortfallMs o') \<or> \<not> valid_ms (ao_headroomMs o')
         \<or> \<not> valid_ms (ao_stallWindowMs o') \<or> \<not> valid_ms (ao_holdMs o')
      then Inl invalid_player_state
      else
        let steps = filter (\<lambda>q. case truthy_num (ao_originalKbps o') of
                                  None \<Rightarrow> True | Some k \<Rightarrow> of_int (fq_total q) < k) (ao_steps o');
            headroom = (case ao_headroomMs o' of None \<Rightarrow> 30000 | Some n \<Rightarrow> n)
        in Inr (\<lparr>a_steps = steps,
                 a_originalKbps = (case ao_originalKbps o' of Some k \<Rightarrow> if k > 0 then Some k else None | None \<Rightarrow> None),
                 a_shortfallMs = (case ao_shortfallMs o' of None \<Rightarrow> 10000 | Some n \<Rightarrow> n),
                 a_headroomMs = headroom,
                 a_stallWindowMs = (case ao_stallWindowMs o' of None \<Rightarrow> 30000 | Some n \<Rightarrow> n),
                 a_holdMs = (case ao_holdMs o' of None \<Rightarrow> 15000 | Some n \<Rightarrow> n)\<rparr>,
                \<lparr>a_index = (case ao_startAt o' of None \<Rightarrow> -1 | Some q \<Rightarrow> find_index (\<lambda>s. fq_id s = fq_id q) steps),
                 a_estimateKbps = None, a_shortSince = None, a_roomSince = None, a_stalls = [],
                 a_changedAt = None, a_wentUpAt = None, a_upHoldMs = headroom, a_last = -1\<rparr>))"

text \<open>The checked, monotone clock; \<open>at\<close> is what \<open>options.now()\<close> returned.\<close>

definition clock_ok :: "int \<Rightarrow> bool" where
  "clock_ok t \<longleftrightarrow> 0 \<le> t \<and> t \<le> MAX_SAFE_INTEGER"

definition auto_now :: "int \<Rightarrow> auto_state \<Rightarrow> bool" where
  "auto_now t s \<longleftrightarrow> clock_ok t \<and> a_last s \<le> t"

definition auto_step :: "auto_config \<Rightarrow> auto_state \<Rightarrow> fixed_quality option" where
  "auto_step c s = (if a_index s < 0 then None
                    else if nat (a_index s) < length (a_steps c) then Some (a_steps c ! nat (a_index s)) else None)"

definition needs :: "auto_config \<Rightarrow> int \<Rightarrow> rat option" where
  "needs c i = (if i < 0 then a_originalKbps c
                else if nat i < length (a_steps c) then Some (of_int (fq_total (a_steps c ! nat i))) else None)"

definition smooth :: "rat option \<Rightarrow> rat \<Rightarrow> rat" where
  "smooth previous kbps =
     (case previous of
        None \<Rightarrow> kbps
      | Some p \<Rightarrow> if kbps < p then p * (1 / 2) + kbps * (1 / 2) else p * (8 / 10) + kbps * (2 / 10))"

text \<open>\<open>since ??= at\<close> while a condition holds, cleared when it does not.\<close>

definition since :: "bool \<Rightarrow> int option \<Rightarrow> int \<Rightarrow> int option" where
  "since holds previous t = (if holds then (case previous of None \<Rightarrow> Some t | Some u \<Rightarrow> Some u) else None)"

text \<open>The estimate is stored before the clock is read, and stays when the clock throws.\<close>

definition sample :: "auto_config \<Rightarrow> js_num \<Rightarrow> int \<Rightarrow> auto_state \<Rightarrow> (player_error + unit) \<times> auto_state" where
  "sample c kbps t s =
     (case kbps of
        Fin k \<Rightarrow>
          if k \<le> 0 then (Inr (), s)
          else
            let e = smooth (a_estimateKbps s) k; s1 = s\<lparr>a_estimateKbps := Some e\<rparr>
            in if \<not> auto_now t s then (Inl invalid_player_state, s1)
               else
                 let short = (case needs c (a_index s) of None \<Rightarrow> False | Some n \<Rightarrow> e < n);
                     above = (if 0 \<le> a_index s then needs c (a_index s - 1) else None);
                     room = (0 \<le> a_index s \<and> (case above of None \<Rightarrow> False | Some n \<Rightarrow> n * (3 / 2) \<le> e))
                 in (Inr (), s1\<lparr>a_last := t, a_shortSince := since short (a_shortSince s) t,
                                a_roomSince := since room (a_roomSince s) t\<rparr>)
      | _ \<Rightarrow> (Inr (), s))"

definition recent_stalls :: "auto_config \<Rightarrow> int \<Rightarrow> int list \<Rightarrow> int list" where
  "recent_stalls c t xs = filter (\<lambda>u. t - u \<le> a_stallWindowMs c) xs"

text \<open>\<open>slice(-2)\<close>.\<close>

definition last_two :: "'a list \<Rightarrow> 'a list" where
  "last_two xs = drop (length xs - 2) xs"

definition stalled :: "auto_config \<Rightarrow> int \<Rightarrow> auto_state \<Rightarrow> (player_error + unit) \<times> auto_state" where
  "stalled c t s =
     (if \<not> auto_now t s then (Inl invalid_player_state, s)
      else
        let s1 = s\<lparr>a_last := t, a_stalls := last_two (recent_stalls c t (a_stalls s) @ [t]), a_roomSince := None\<rparr>
        in (Inr (), case a_wentUpAt s of
                      Some u \<Rightarrow> if t - u \<le> a_stallWindowMs c
                               then s1\<lparr>a_upHoldMs := min 600000 (a_upHoldMs s * 2), a_wentUpAt := None\<rparr> else s1
                    | None \<Rightarrow> s1))"

datatype auto_decision = Stay | Back_to_original | Step_to fixed_quality

definition move :: "auto_config \<Rightarrow> int \<Rightarrow> int \<Rightarrow> auto_state \<Rightarrow> auto_decision \<times> auto_state" where
  "move c i t s =
     (if i < 0 then Back_to_original else Step_to (a_steps c ! nat i),
      s\<lparr>a_index := i, a_changedAt := Some t, a_shortSince := None, a_roomSince := None, a_stalls := []\<rparr>)"

text \<open>The inner loop of \<open>decide\<close>: on down the ladder while the step needs more than is usable.\<close>

function descend :: "auto_config \<Rightarrow> rat \<Rightarrow> int \<Rightarrow> int" where
  "descend c usable i =
     (if i < int (length (a_steps c)) - 1 \<and> (case needs c i of None \<Rightarrow> False | Some n \<Rightarrow> n > usable)
      then descend c usable (i + 1) else i)"
  by pat_completeness auto
termination
  by (relation "measure (\<lambda>(c, u, i). nat (int (length (a_steps c)) - i))") auto

declare descend.simps [simp del]

definition decide :: "auto_config \<Rightarrow> int \<Rightarrow> auto_state \<Rightarrow> (player_error + auto_decision) \<times> auto_state" where
  "decide c t s =
     (if \<not> auto_now t s then (Inl invalid_player_state, s)
      else
        let s0 = s\<lparr>a_last := t\<rparr>
        in if (case a_changedAt s of None \<Rightarrow> False | Some u \<Rightarrow> t - u < a_holdMs c) then (Inr Stay, s0)
           else
             let s1 = s0\<lparr>a_stalls := recent_stalls c t (a_stalls s)\<rparr>;
                 short = (case a_shortSince s of None \<Rightarrow> False | Some u \<Rightarrow> t - u \<ge> a_shortfallMs c)
             in if (short \<or> length (a_stalls s1) \<ge> 2) \<and> a_index s < int (length (a_steps c)) - 1
                then
                  let next = (case a_estimateKbps s of
                                None \<Rightarrow> a_index s + 1 | Some e \<Rightarrow> descend c (e * (8 / 10)) (a_index s + 1));
                      (d, s2) = move c next t s1
                  in (Inr d, s2)
                else if 0 \<le> a_index s \<and> (case a_roomSince s of None \<Rightarrow> False | Some u \<Rightarrow> t - u \<ge> a_upHoldMs s)
                        \<and> a_stalls s1 = []
                then
                  let s2 = (case a_wentUpAt s of
                              Some u \<Rightarrow> if t - u > a_stallWindowMs c then s1\<lparr>a_upHoldMs := a_headroomMs c\<rparr> else s1
                            | None \<Rightarrow> s1);
                      (d, s3) = move c (a_index s - 1) t (s2\<lparr>a_wentUpAt := Some t\<rparr>)
                  in (Inr d, s3)
                else (Inr Stay, s1))"

end
