(* ===== verification/Player_Quality_Properties.thy ===== *)
theory Player_Quality_Properties
  imports Player_Quality
begin

text \<open>
  What the quality choices and \<open>AutomaticQuality\<close> promise: requests and choices agree, changes
  keep their distance, a step down goes to the best step the connection carries, a step up is one
  step after lasting headroom.
\<close>

section \<open>Choices and requests\<close>

lemma fixedQualities_eq:
  "fixedQualities =
    [\<lparr>fq_id = ''2160p'', fq_height = 2160, fq_videoKbps = 40000, fq_audioKbps = Some 192\<rparr>,
     \<lparr>fq_id = ''1080p-high'', fq_height = 1080, fq_videoKbps = 20000, fq_audioKbps = Some 192\<rparr>,
     \<lparr>fq_id = ''1080p-low'', fq_height = 1080, fq_videoKbps = 8000, fq_audioKbps = Some 192\<rparr>,
     \<lparr>fq_id = ''720p-high'', fq_height = 720, fq_videoKbps = 4000, fq_audioKbps = Some 128\<rparr>,
     \<lparr>fq_id = ''720p-low'', fq_height = 720, fq_videoKbps = 2000, fq_audioKbps = Some 128\<rparr>,
     \<lparr>fq_id = ''480p'', fq_height = 480, fq_videoKbps = 1500, fq_audioKbps = Some 96\<rparr>,
     \<lparr>fq_id = ''240p'', fq_height = 240, fq_videoKbps = 500, fq_audioKbps = Some 96\<rparr>]"
  by (simp add: fixedQualities_def qualityLadder_def canonicalQualityLadder_def)

text \<open>
  The menu and the protocol agree: the request a menu choice stands for is read back as that
  choice, whatever step Automatic is on, and a string that is no choice is refused.
\<close>

theorem quality_choice_roundtrip:
  "case qualityRequest choice step of
     Inl e \<Rightarrow> choice \<notin> set qualityChoiceOrder
   | Inr request \<Rightarrow> choice \<in> set qualityChoiceOrder \<and> qualityChoiceOf (Some request) = Some choice"
  by (auto simp: qualityRequest_def isQualityChoice_def qualityChoiceOrder_def fixedQuality_def qualityChoiceOf_def
      fixedQualityOf_def fixedQualities_eq split: option.splits)

section \<open>Runs of automatic quality\<close>

text \<open>A playback tells \<open>AutomaticQuality\<close> about downloads and stalls and asks it to decide.\<close>

datatype auto_event = Sample js_num int | Stalled int | Decide int

definition auto_handle :: "auto_config \<Rightarrow> auto_event \<Rightarrow> auto_state \<Rightarrow> (int \<times> auto_decision) list \<times> auto_state" where
  "auto_handle c ev s =
     (case ev of
        Sample k t \<Rightarrow> ([], snd (sample c k t s))
      | Stalled t \<Rightarrow> ([], snd (stalled c t s))
      | Decide t \<Rightarrow> (case decide c t s of
                      (Inr Stay, s') \<Rightarrow> ([], s')
                    | (Inr d, s') \<Rightarrow> ([(t, d)], s')
                    | (Inl e, s') \<Rightarrow> ([], s')))"

text \<open>The changes made, in order.\<close>

fun auto_run :: "auto_config \<Rightarrow> auto_event list \<Rightarrow> auto_state \<Rightarrow> (int \<times> auto_decision) list \<times> auto_state" where
  "auto_run c [] s = ([], s)"
| "auto_run c (ev # evs) s =
     (let (d, s1) = auto_handle c ev s; (ds, s2) = auto_run c evs s1 in (d @ ds, s2))"

definition auto_inv :: "auto_config \<Rightarrow> auto_state \<Rightarrow> bool" where
  "auto_inv c s \<longleftrightarrow>
     -1 \<le> a_index s \<and> a_index s < int (length (a_steps c))
     \<and> length (a_stalls s) \<le> 2 \<and> a_headroomMs c \<le> a_upHoldMs s \<and> a_upHoldMs s \<le> 600000"

definition config_ok :: "auto_config \<Rightarrow> bool" where
  "config_ok c \<longleftrightarrow> 0 \<le> a_headroomMs c \<and> a_headroomMs c \<le> 600000 \<and> 0 \<le> a_holdMs c"

lemma find_index_bounds: "-1 \<le> find_index P xs \<and> find_index P xs < int (length xs)"
  by (auto simp: find_index_def find_Some_iff split: option.split)

lemma auto_inv_new:
  assumes "new_automatic o' = Inr (c, s)"
  shows "auto_inv c s" "config_ok c" "a_changedAt s = None"
proof -
  have v: "valid_ms (ao_headroomMs o')" "valid_ms (ao_holdMs o')"
    using assms by (auto simp: new_automatic_def split: if_splits)
  have f: "a_headroomMs c = (case ao_headroomMs o' of None \<Rightarrow> 30000 | Some n \<Rightarrow> n)"
    "a_holdMs c = (case ao_holdMs o' of None \<Rightarrow> 15000 | Some n \<Rightarrow> n)"
    "a_upHoldMs s = a_headroomMs c" "a_stalls s = []"
    and "a_changedAt s = None"
    using assms by (auto simp: new_automatic_def Let_def split: if_splits)
  then show "a_changedAt s = None" by simp
  have "0 \<le> a_headroomMs c" "a_headroomMs c \<le> 600000" "0 \<le> a_holdMs c"
    using v by (auto simp: f valid_ms_def split: option.splits)
  moreover
  have "a_index s = (case ao_startAt o' of None \<Rightarrow> -1 | Some q \<Rightarrow> find_index (\<lambda>s. fq_id s = fq_id q) (a_steps c))"
    using assms by (cases "ao_startAt o'") (auto simp: new_automatic_def Let_def split: if_splits)
  then have "-1 \<le> a_index s \<and> a_index s < int (length (a_steps c))"
    by (cases "ao_startAt o'") (simp_all add: find_index_bounds)
  ultimately show "auto_inv c s" "config_ok c" using f(3,4) by (simp_all add: auto_inv_def config_ok_def)
qed

lemma descend_bounds:
  "i \<le> descend c u i" "i < int (length (a_steps c)) \<Longrightarrow> descend c u i < int (length (a_steps c))"
proof (induction c u i rule: descend.induct)
  case (1 c u i)
  { case 1 then show ?case using "1.IH"(1) by (subst descend.simps) (auto simp: order.trans) next
    case 2 then show ?case using "1.IH"(2) by (subst descend.simps) auto }
qed

text \<open>The loop stops at the first step that fits, or at the last one.\<close>

lemma descend_spec:
  "i < int (length (a_steps c)) \<Longrightarrow>
     (descend c u i = int (length (a_steps c)) - 1 \<or> (case needs c (descend c u i) of None \<Rightarrow> True | Some n \<Rightarrow> n \<le> u))
     \<and> (\<forall>j. i \<le> j \<longrightarrow> j < descend c u i \<longrightarrow> (\<exists>n. needs c j = Some n \<and> u < n))"
proof (induction c u i rule: descend.induct)
  case (1 c u i)
  show ?case
  proof (cases "i < int (length (a_steps c)) - 1 \<and> (case needs c i of None \<Rightarrow> False | Some n \<Rightarrow> n > u)")
    case True
    then obtain n where n: "needs c i = Some n" "u < n" by (auto split: option.splits)
    have eq: "descend c u i = descend c u (i + 1)" using True by (subst descend.simps) simp
    have "\<exists>n. needs c j = Some n \<and> u < n" if "i \<le> j" "j < descend c u i" for j
      using "1.IH" [OF True] True that n eq by (cases "j = i") auto
    then show ?thesis using "1.IH" [OF True] True eq by auto
  next
    case False
    then have "descend c u i = i" by (subst descend.simps) (rule if_not_P)
    then show ?thesis using False "1.prems" by (auto split: option.splits)
  qed
qed

lemma length_last_two: "length (last_two xs) \<le> 2"
  by (simp add: last_two_def)

lemma auto_inv_sample: "auto_inv c s \<Longrightarrow> auto_inv c (snd (sample c k t s))"
  by (auto simp: sample_def auto_inv_def Let_def split: js_num.split)

lemma auto_inv_stalled: "auto_inv c s \<Longrightarrow> config_ok c \<Longrightarrow> auto_inv c (snd (stalled c t s))"
  using length_last_two by (auto simp: stalled_def auto_inv_def config_ok_def Let_def split: option.split)

lemma sample_changedAt: "a_changedAt (snd (sample c k t s)) = a_changedAt s"
  by (auto simp: sample_def Let_def split: js_num.split)

lemma stalled_changedAt: "a_changedAt (snd (stalled c t s)) = a_changedAt s"
  by (auto simp: stalled_def Let_def split: option.split)

text \<open>The four ways a decision goes.\<close>

lemma decide_cases [consumes 1, case_names refused stay down up]:
  assumes "decide c t s = (r, s')"
  obtains (refused) "r = Inl invalid_player_state" "s' = s" "\<not> auto_now t s"
  | (stay) "r = Inr Stay" "auto_now t s" "a_index s' = a_index s" "a_changedAt s' = a_changedAt s"
      "a_upHoldMs s' = a_upHoldMs s" "length (a_stalls s') \<le> length (a_stalls s)"
  | (down) nx where "auto_now t s" "\<And>u. a_changedAt s = Some u \<Longrightarrow> a_holdMs c \<le> t - u"
      "(\<exists>u. a_shortSince s = Some u \<and> a_shortfallMs c \<le> t - u) \<or> 2 \<le> length (recent_stalls c t (a_stalls s))"
      "a_index s < int (length (a_steps c)) - 1"
      "nx = (case a_estimateKbps s of None \<Rightarrow> a_index s + 1 | Some e \<Rightarrow> descend c (e * (8 / 10)) (a_index s + 1))"
      "r = Inr (if nx < 0 then Back_to_original else Step_to (a_steps c ! nat nx))"
      "a_index s' = nx" "a_changedAt s' = Some t" "a_stalls s' = []" "a_upHoldMs s' = a_upHoldMs s"
  | (up) u where "auto_now t s" "\<And>u. a_changedAt s = Some u \<Longrightarrow> a_holdMs c \<le> t - u"
      "0 \<le> a_index s" "a_roomSince s = Some u" "a_upHoldMs s \<le> t - u" "recent_stalls c t (a_stalls s) = []"
      "r = Inr (if a_index s - 1 < 0 then Back_to_original else Step_to (a_steps c ! nat (a_index s - 1)))"
      "a_index s' = a_index s - 1" "a_changedAt s' = Some t" "a_stalls s' = []"
      "a_upHoldMs s' = a_upHoldMs s \<or> a_upHoldMs s' = a_headroomMs c"
proof -
  let ?held = "case a_changedAt s of None \<Rightarrow> False | Some u \<Rightarrow> t - u < a_holdMs c"
  let ?short = "case a_shortSince s of None \<Rightarrow> False | Some u \<Rightarrow> t - u \<ge> a_shortfallMs c"
  let ?st = "recent_stalls c t (a_stalls s)"
  let ?down = "(?short \<or> length ?st \<ge> 2) \<and> a_index s < int (length (a_steps c)) - 1"
  let ?up = "0 \<le> a_index s \<and> (case a_roomSince s of None \<Rightarrow> False | Some u \<Rightarrow> t - u \<ge> a_upHoldMs s) \<and> ?st = []"
  let ?s1 = "s\<lparr>a_last := t, a_stalls := ?st\<rparr>"
  let ?nx = "case a_estimateKbps s of None \<Rightarrow> a_index s + 1 | Some e \<Rightarrow> descend c (e * (8 / 10)) (a_index s + 1)"
  let ?s2 = "case a_wentUpAt s of Some u \<Rightarrow> if t - u > a_stallWindowMs c then ?s1\<lparr>a_upHoldMs := a_headroomMs c\<rparr> else ?s1 | None \<Rightarrow> ?s1"
  have eq: "decide c t s =
      (if \<not> auto_now t s then (Inl invalid_player_state, s)
       else if ?held then (Inr Stay, s\<lparr>a_last := t\<rparr>)
       else if ?down then (case move c ?nx t ?s1 of (d, s2) \<Rightarrow> (Inr d, s2))
       else if ?up then (case move c (a_index s - 1) t (?s2\<lparr>a_wentUpAt := Some t\<rparr>) of (d, s3) \<Rightarrow> (Inr d, s3))
       else (Inr Stay, ?s1))"
    by (simp add: decide_def Let_def)
  have up2: "a_upHoldMs ?s2 = a_upHoldMs s \<or> a_upHoldMs ?s2 = a_headroomMs c" by (simp split: option.split)
  consider "\<not> auto_now t s" | "auto_now t s" "?held" | "auto_now t s" "\<not> ?held" "?down"
    | "auto_now t s" "\<not> ?held" "\<not> ?down" "?up" | "auto_now t s" "\<not> ?held" "\<not> ?down" "\<not> ?up" by blast
  then show thesis
  proof cases
    case 1
    then show ?thesis using assms refused by (simp add: decide_def)
  next
    case 2
    then have "r = Inr Stay" "s' = s\<lparr>a_last := t\<rparr>" using assms by (simp_all add: eq)
    then show ?thesis using stay 2(1) by simp
  next
    case 3
    then have "decide c t s = (case move c ?nx t ?s1 of (d, s2) \<Rightarrow> (Inr d, s2))" unfolding eq by simp
    then have "r = Inr (if ?nx < 0 then Back_to_original else Step_to (a_steps c ! nat ?nx))"
      "s' = ?s1\<lparr>a_index := ?nx, a_changedAt := Some t, a_shortSince := None, a_roomSince := None, a_stalls := []\<rparr>"
      using assms by (simp_all add: move_def)
    moreover have "a_holdMs c \<le> t - u" if "a_changedAt s = Some u" for u using 3(2) that by simp
    moreover have "(\<exists>u. a_shortSince s = Some u \<and> a_shortfallMs c \<le> t - u) \<or> 2 \<le> length ?st"
      using 3(3) by (cases "a_shortSince s") auto
    ultimately show ?thesis using 3(1,3) by (intro down [of ?nx]) simp_all
  next
    case 4
    then have "decide c t s = (case move c (a_index s - 1) t (?s2\<lparr>a_wentUpAt := Some t\<rparr>) of (d, s3) \<Rightarrow> (Inr d, s3))"
      by (simp only: eq not_True_eq_False if_False if_True simp_thms)
    then have "r = Inr (if a_index s - 1 < 0 then Back_to_original else Step_to (a_steps c ! nat (a_index s - 1)))"
      "s' = ?s2\<lparr>a_wentUpAt := Some t, a_index := a_index s - 1, a_changedAt := Some t, a_shortSince := None, a_roomSince := None, a_stalls := []\<rparr>"
      using assms by (simp_all only: move_def prod.case prod.inject)
    moreover have "a_holdMs c \<le> t - u" if "a_changedAt s = Some u" for u using 4(2) that by simp
    moreover obtain u where "a_roomSince s = Some u" "a_upHoldMs s \<le> t - u" using 4(4) by (cases "a_roomSince s") auto
    ultimately show ?thesis using 4(1,4) up2 by (intro up [of u]) simp_all
  next
    case 5
    then have "decide c t s = (Inr Stay, ?s1)" by (simp only: eq not_True_eq_False if_False if_True)
    then show ?thesis using assms stay 5(1) by (auto simp: recent_stalls_def)
  qed
qed

lemma auto_inv_decide: "auto_inv c s \<Longrightarrow> config_ok c \<Longrightarrow> decide c t s = (r, s') \<Longrightarrow> auto_inv c s'"
proof -
  assume i: "auto_inv c s" and c: "config_ok c" and d: "decide c t s = (r, s')"
  from d show ?thesis
  proof (cases rule: decide_cases)
    case refused
    then show ?thesis using i by simp
  next
    case stay
    then show ?thesis using i by (simp add: auto_inv_def)
  next
    case (down nx)
    have "a_index s + 1 \<le> nx \<and> nx < int (length (a_steps c))"
      using down(4,5) descend_bounds(1) [of "a_index s + 1" c] descend_bounds(2) [of "a_index s + 1" c]
      by (auto split: option.splits)
    then show ?thesis using i down by (simp add: auto_inv_def)
  next
    case (up u)
    then show ?thesis using i c by (auto simp: auto_inv_def config_ok_def)
  qed
qed

lemma auto_handle_inv:
  assumes "auto_inv c s" "config_ok c" "auto_handle c ev s = (d, s')"
  shows "auto_inv c s'"
  using assms auto_inv_sample auto_inv_stalled auto_inv_decide
  by (cases ev) (auto simp: auto_handle_def split: prod.splits sum.splits auto_decision.splits)

lemma auto_run_inv: "auto_inv c s \<Longrightarrow> config_ok c \<Longrightarrow> auto_run c evs s = (ds, s') \<Longrightarrow> auto_inv c s'"
proof (induction evs arbitrary: s ds)
  case (Cons ev evs)
  obtain d s1 ds' where h: "auto_handle c ev s = (d, s1)" "auto_run c evs s1 = (ds', s')"
    using Cons.prems(3) by (auto simp: Let_def split: prod.splits)
  show ?case using Cons.IH [OF auto_handle_inv [OF Cons.prems(1,2) h(1)] Cons.prems(2) h(2)] .
qed simp

lemma auto_handle_changes:
  assumes "auto_handle c ev s = (d, s')"
  shows "d = [] \<and> a_changedAt s' = a_changedAt s
    \<or> (\<exists>t x. d = [(t, x)] \<and> a_changedAt s' = Some t \<and> (\<forall>u. a_changedAt s = Some u \<longrightarrow> a_holdMs c \<le> t - u))"
proof (cases ev)
  case (Decide t)
  obtain r s2 where d: "decide c t s = (r, s2)" by fastforce
  from d show ?thesis
    using assms Decide d by (cases rule: decide_cases) (auto simp: auto_handle_def split: if_splits)
qed (use assms in \<open>auto simp: auto_handle_def sample_changedAt stalled_changedAt\<close>)

lemma auto_run_apart:
  "0 \<le> a_holdMs c \<Longrightarrow> auto_run c evs s = (ds, s') \<Longrightarrow>
     sorted_wrt (\<lambda>a b. a_holdMs c \<le> fst b - fst a) ds
     \<and> (\<forall>u. a_changedAt s = Some u \<longrightarrow> (\<forall>x \<in> set ds. a_holdMs c \<le> fst x - u))"
proof (induction evs arbitrary: s ds)
  case (Cons ev evs)
  obtain d s1 ds' where h: "auto_handle c ev s = (d, s1)" "auto_run c evs s1 = (ds', s')" "ds = d @ ds'"
    using Cons.prems(2) by (auto simp: Let_def split: prod.splits)
  note IH = Cons.IH [OF Cons.prems(1) h(2)]
  from auto_handle_changes [OF h(1)] show ?case
  proof (elim disjE exE conjE)
    fix t x
    assume "d = [(t, x)]" "a_changedAt s1 = Some t" "\<forall>u. a_changedAt s = Some u \<longrightarrow> a_holdMs c \<le> t - u"
    then show ?thesis using IH Cons.prems(1) h(3) by force
  qed (use IH h(3) in auto)
qed simp

section \<open>Properties\<close>

text \<open>A source of 20 Mbit/s offered at three steps, with the default times.\<close>

definition demo_auto_options :: auto_options where
  "demo_auto_options =
     \<lparr>ao_steps = [fixedQualities ! 2, fixedQualities ! 3, fixedQualities ! 4], ao_originalKbps = Some 20000,
      ao_startAt = None, ao_shortfallMs = None, ao_headroomMs = None, ao_stallWindowMs = None, ao_holdMs = None\<rparr>"

abbreviation demo_auto :: "auto_config \<times> auto_state" where
  "demo_auto \<equiv> case new_automatic demo_auto_options of Inr p \<Rightarrow> p"

text \<open>A slow spell with a stall pair, then a fast one.\<close>

definition demo_events :: "auto_event list" where
  "demo_events =
     [Sample (Fin 6000) 0, Sample (Fin 6000) 5000, Decide 5000, Stalled 9000, Decide 12000, Stalled 13000, Decide 28000]"

lemma demo_auto_new: "new_automatic demo_auto_options = Inr demo_auto"
proof -
  have "case new_automatic demo_auto_options of Inl e \<Rightarrow> False | Inr p \<Rightarrow> True" by code_simp
  then show ?thesis by (cases "new_automatic demo_auto_options") auto
qed

text \<open>
  C33. Automatic quality never flaps: in any sequence of samples, stalls and decisions, every two
  changes are at least the hold time apart.
\<close>

theorem auto_changes_apart:
  assumes "new_automatic o' = Inr (c, s)" "auto_run c evs s = (changes, s')"
  shows "sorted_wrt (\<lambda>a b. a_holdMs c \<le> fst b - fst a) changes"
  using auto_run_apart [OF _ assms(2)] auto_inv_new(2) [OF assms(1)] by (simp add: config_ok_def)

theorem auto_changes_apart_witness:
  "map fst (fst (auto_run (fst demo_auto) demo_events (snd demo_auto))) = [12000]
   \<and> sorted_wrt (\<lambda>a b. 15000 \<le> fst b - fst a) (fst (auto_run (fst demo_auto) demo_events (snd demo_auto)))"
proof -
  have "map fst (fst (auto_run (fst demo_auto) demo_events (snd demo_auto))) = [12000]" "a_holdMs (fst demo_auto) = 15000"
    by code_simp+
  then show ?thesis
    using auto_changes_apart [of demo_auto_options "fst demo_auto" "snd demo_auto" demo_events] demo_auto_new by auto
qed

text \<open>
  Throughout a playback Automatic is on Original or on a step it was offered, remembers at most
  two stalls, and its wait before going up stays between the headroom time and ten minutes.
\<close>

theorem auto_state_bounds:
  assumes "new_automatic o' = Inr (c, s)" "auto_run c evs s = (changes, s')"
  shows "-1 \<le> a_index s' \<and> a_index s' < int (length (a_steps c))
     \<and> set (a_steps c) \<subseteq> set (ao_steps o')
     \<and> length (a_stalls s') \<le> 2 \<and> a_headroomMs c \<le> a_upHoldMs s' \<and> a_upHoldMs s' \<le> 600000"
proof -
  have "set (a_steps c) \<subseteq> set (ao_steps o')"
    using assms(1) by (auto simp: new_automatic_def Let_def split: if_splits)
  then show ?thesis
    using auto_run_inv [OF auto_inv_new(1,2) [OF assms(1)] assms(2)] by (simp add: auto_inv_def)
qed

theorem auto_state_bounds_witness:
  "a_index (snd (auto_run (fst demo_auto) demo_events (snd demo_auto))) < 3"
proof -
  have "length (a_steps (fst demo_auto)) = 3" by code_simp
  then show ?thesis
    using auto_state_bounds [of demo_auto_options "fst demo_auto" "snd demo_auto" demo_events] demo_auto_new
    by (metis prod.collapse of_nat_numeral)
qed

text \<open>What \<open>decide\<close> may do: a move down the ladder and a move up it.\<close>

definition down_justified :: "auto_config \<Rightarrow> int \<Rightarrow> auto_state \<Rightarrow> int \<Rightarrow> bool" where
  "down_justified c t s i \<longleftrightarrow>
     a_index s < i \<and> i < int (length (a_steps c))
     \<and> ((\<exists>u. a_shortSince s = Some u \<and> a_shortfallMs c \<le> t - u) \<or> 2 \<le> length (recent_stalls c t (a_stalls s)))
     \<and> (case a_estimateKbps s of
          None \<Rightarrow> i = a_index s + 1
        | Some e \<Rightarrow>
            (i = int (length (a_steps c)) - 1 \<or> of_int (fq_total (a_steps c ! nat i)) \<le> e * (8 / 10))
            \<and> (\<forall>j. a_index s < j \<longrightarrow> j < i \<longrightarrow> e * (8 / 10) < of_int (fq_total (a_steps c ! nat j))))"

definition up_justified :: "auto_config \<Rightarrow> int \<Rightarrow> auto_state \<Rightarrow> int \<Rightarrow> bool" where
  "up_justified c t s i \<longleftrightarrow>
     i = a_index s - 1 \<and> (\<exists>u. a_roomSince s = Some u \<and> a_upHoldMs s \<le> t - u) \<and> recent_stalls c t (a_stalls s) = []"

lemma needs_step: "0 \<le> i \<Longrightarrow> i < int (length (a_steps c)) \<Longrightarrow> needs c i = Some (of_int (fq_total (a_steps c ! nat i)))"
  by (simp add: needs_def nat_less_iff)

lemma down_is_justified:
  assumes "auto_inv c s" "a_index s < int (length (a_steps c)) - 1"
    "(\<exists>u. a_shortSince s = Some u \<and> a_shortfallMs c \<le> t - u) \<or> 2 \<le> length (recent_stalls c t (a_stalls s))"
    and nx: "nx = (case a_estimateKbps s of None \<Rightarrow> a_index s + 1 | Some e \<Rightarrow> descend c (e * (8 / 10)) (a_index s + 1))"
  shows "down_justified c t s nx \<and> 0 \<le> nx"
proof (cases "a_estimateKbps s")
  case None
  then show ?thesis using assms by (simp add: down_justified_def auto_inv_def)
next
  case (Some e)
  let ?u = "e * (8 / 10)"
  have start: "a_index s + 1 < int (length (a_steps c))" "0 \<le> a_index s + 1" using assms(1,2) by (simp_all add: auto_inv_def)
  have nx: "nx = descend c ?u (a_index s + 1)" using nx Some by simp
  have range: "a_index s + 1 \<le> nx" "nx < int (length (a_steps c))" unfolding nx using descend_bounds start(1) by blast+
  note spec = descend_spec [OF start(1), of ?u, folded nx]
  have "nx = int (length (a_steps c)) - 1 \<or> of_int (fq_total (a_steps c ! nat nx)) \<le> ?u"
    using spec needs_step [of nx c] range start(2) by simp
  moreover have "?u < of_int (fq_total (a_steps c ! nat j))" if "a_index s < j" "j < nx" for j
  proof -
    have "a_index s + 1 \<le> j" using that(1) by simp
    then have "\<exists>n. needs c j = Some n \<and> ?u < n" using spec that(2) by blast
    moreover have "0 \<le> j" "j < int (length (a_steps c))" using that range(2) start(2) by simp_all
    ultimately show ?thesis by (simp add: needs_step)
  qed
  ultimately show ?thesis using assms(3) range start(2) Some by (simp add: down_justified_def)
qed

text \<open>
  C36. What Automatic decides: nothing, or a move to the step it then reports (or back to Original),
  always one it was offered. A move down happens only after a lasting shortfall or two stalls, and goes to the best step
  below the current one that fits in four fifths of the estimate (the last step when none fits, the
  next one when there is no estimate); a move up is one step, only after headroom that lasted the
  whole wait with no stall in the window.
\<close>

theorem decide_direction:
  assumes "new_automatic o' = Inr (c, s0)" "auto_run c evs s0 = (changes, s)" "decide c t s = (Inr d, s')"
  shows "case d of
      Stay \<Rightarrow> a_index s' = a_index s
    | Back_to_original \<Rightarrow> a_index s' = -1 \<and> up_justified c t s (-1)
    | Step_to q \<Rightarrow> 0 \<le> a_index s' \<and> a_index s' < int (length (a_steps c)) \<and> q = a_steps c ! nat (a_index s') \<and> q \<in> set (ao_steps o')
        \<and> (down_justified c t s (a_index s') \<or> up_justified c t s (a_index s'))"
proof -
  have inv: "auto_inv c s" using auto_run_inv [OF auto_inv_new(1,2) [OF assms(1)] assms(2)] .
  have steps: "set (a_steps c) \<subseteq> set (ao_steps o')" using assms(1) by (auto simp: new_automatic_def Let_def split: if_splits)
  have offered: "a_steps c ! nat i \<in> set (ao_steps o')" if "0 \<le> i" "i < int (length (a_steps c))" for i
    using steps nth_mem [of "nat i" "a_steps c"] that by (auto simp: nat_less_iff)
  from assms(3) show ?thesis
  proof (cases rule: decide_cases)
    case (down nx)
    have "down_justified c t s nx \<and> 0 \<le> nx" by (rule down_is_justified [OF inv down(4,3,5)])
    then show ?thesis using down(6,7) offered [of nx] by (auto simp: down_justified_def)
  next
    case (up u)
    have "up_justified c t s (a_index s - 1)" using up(4-6) by (auto simp: up_justified_def)
    moreover have "a_index s < int (length (a_steps c))" using inv by (simp add: auto_inv_def)
    ultimately show ?thesis using up(3,7,8) offered [of "a_index s - 1"] by (cases "a_index s = 0") auto
  qed auto
qed

theorem decide_direction_witness:
  "fq_total (a_steps (fst demo_auto) ! 1) = 4128 \<and>
   (let s = snd (auto_run (fst demo_auto) (take 4 demo_events) (snd demo_auto))
    in down_justified (fst demo_auto) 12000 s 1)"
proof -
  let ?c = "fst demo_auto"
  let ?s = "snd (auto_run ?c (take 4 demo_events) (snd demo_auto))"
  have d: "decide ?c 12000 ?s = (Inr (Step_to (fixedQualities ! 3)), snd (decide ?c 12000 ?s))"
    "a_index ?s = -1" "a_index (snd (decide ?c 12000 ?s)) = 1" "fq_total (a_steps ?c ! 1) = 4128"
    by code_simp+
  have new: "new_automatic demo_auto_options = Inr (?c, snd demo_auto)" using demo_auto_new by simp
  have "auto_run ?c (take 4 demo_events) (snd demo_auto) = (fst (auto_run ?c (take 4 demo_events) (snd demo_auto)), ?s)" by simp
  from decide_direction [OF new this d(1)] d(2-4) show ?thesis by (simp add: Let_def up_justified_def)
qed

end
