(* ===== verification/JS_Result.thy ===== *)
theory JS_Result
  imports JS_Value
begin

text \<open>
  Code that throws returns a sum: \<open>Inl\<close> the error, \<open>Inr\<close> the value. The combinators here are the
  sequencing of statements and the loops that stop at the first throw.
\<close>

definition and_then :: "'e + 'a \<Rightarrow> ('a \<Rightarrow> 'e + 'b) \<Rightarrow> 'e + 'b" where
  "and_then r k = (case r of Inl e \<Rightarrow> Inl e | Inr x \<Rightarrow> k x)"

definition require :: "'e \<Rightarrow> bool \<Rightarrow> 'e + unit" where
  "require e ok = (if ok then Inr () else Inl e)"

text \<open>\<open>xs.map(f)\<close> where \<open>f\<close> may throw.\<close>

primrec map_result :: "('a \<Rightarrow> 'e + 'b) \<Rightarrow> 'a list \<Rightarrow> 'e + 'b list" where
  "map_result f [] = Inr []"
| "map_result f (x # xs) = and_then (f x) (\<lambda>y. and_then (map_result f xs) (\<lambda>ys. Inr (y # ys)))"

text \<open>A \<open>for\<close> loop over a list that carries a state and may throw.\<close>

primrec fold_result :: "('a \<Rightarrow> 's \<Rightarrow> 'e + 's) \<Rightarrow> 'a list \<Rightarrow> 's \<Rightarrow> 'e + 's" where
  "fold_result f [] s = Inr s"
| "fold_result f (x # xs) s = and_then (f x s) (fold_result f xs)"

definition is_ok :: "'e + 'a \<Rightarrow> bool" where
  "is_ok r = (case r of Inl _ \<Rightarrow> False | Inr _ \<Rightarrow> True)"

named_theorems result_simps \<open>reading the outcome of fallible code\<close>

lemma and_then_Inr [result_simps]: "and_then r k = Inr y \<longleftrightarrow> (\<exists>x. r = Inr x \<and> k x = Inr y)"
  by (cases r) (simp_all add: and_then_def)

lemma and_then_Inl [result_simps]: "and_then r k = Inl e \<longleftrightarrow> r = Inl e \<or> (\<exists>x. r = Inr x \<and> k x = Inl e)"
  by (cases r) (simp_all add: and_then_def)

lemma and_then_simps [simp]: "and_then (Inl e) k = Inl e" "and_then (Inr x) k = k x"
  by (simp_all add: and_then_def)

lemma require_Inr [result_simps, simp]: "require e ok = Inr u \<longleftrightarrow> ok"
  by (simp add: require_def)

lemma require_Inl [result_simps, simp]: "require e ok = Inl e' \<longleftrightarrow> \<not> ok \<and> e' = e"
  by (auto simp: require_def)

lemma require_then [result_simps]: "and_then (require e ok) k = (if ok then k () else Inl e)"
  by (simp add: require_def)

lemma is_ok_simps [simp]: "is_ok (Inr x)" "\<not> is_ok (Inl e)"
  by (simp_all add: is_ok_def)

lemma is_ok_and_then [simp]: "is_ok (and_then r k) \<longleftrightarrow> (\<exists>x. r = Inr x \<and> is_ok (k x))"
  by (cases r) simp_all

lemma map_result_length: "map_result f xs = Inr ys \<Longrightarrow> length ys = length xs"
  by (induction xs arbitrary: ys) (auto simp: result_simps)

lemma map_result_nth: "map_result f xs = Inr ys \<Longrightarrow> i < length xs \<Longrightarrow> f (xs ! i) = Inr (ys ! i)"
  by (induction xs arbitrary: ys i) (auto simp: result_simps nth_Cons split: nat.split)

lemma map_result_in: "map_result f xs = Inr ys \<Longrightarrow> y \<in> set ys \<Longrightarrow> \<exists>x \<in> set xs. f x = Inr y"
  by (induction xs arbitrary: ys) (auto simp: result_simps)

lemma map_result_error: "map_result f xs = Inl e \<Longrightarrow> \<exists>x \<in> set xs. f x = Inl e"
  by (induction xs) (auto simp: result_simps)

lemma map_result_same: "(\<And>x. x \<in> set xs \<Longrightarrow> f x = Inr (g x)) \<Longrightarrow> map_result f xs = Inr (map g xs)"
  by (induction xs) auto

lemma fold_result_append:
  "fold_result f (xs @ ys) s = and_then (fold_result f xs s) (fold_result f ys)"
proof (induction xs arbitrary: s)
  case (Cons x xs)
  then show ?case by (cases "f x s") simp_all
qed simp

text \<open>The invariant rule of a loop: what each step keeps, the loop keeps.\<close>

lemma fold_result_invariant:
  assumes "fold_result f xs s = Inr s'" "P s"
    and "\<And>x s s'. x \<in> set xs \<Longrightarrow> P s \<Longrightarrow> f x s = Inr s' \<Longrightarrow> P s'"
  shows "P s'"
  using assms
proof (induction xs arbitrary: s)
  case (Cons x xs)
  from Cons.prems(1) obtain t where t: "f x s = Inr t" "fold_result f xs t = Inr s'"
    by (auto simp: result_simps)
  show ?case
    by (rule Cons.IH [OF t(2)]) (use Cons.prems t(1) in auto)
qed simp

lemma fold_result_error:
  assumes "fold_result f xs s = Inl e" "\<And>x s. x \<in> set xs \<Longrightarrow> f x s = Inl e \<Longrightarrow> Q"
  shows Q
  using assms
proof (induction xs arbitrary: s)
  case (Cons x xs)
  from Cons.prems(1) consider "f x s = Inl e" | t where "fold_result f xs t = Inl e"
    by (auto simp: result_simps)
  then show ?case
  proof cases
    case 1
    then show ?thesis using Cons.prems(2) [of x s] by simp
  next
    case 2
    show ?thesis by (rule Cons.IH [OF 2]) (use Cons.prems(2) in auto)
  qed
qed simp

end
