(* ===== verification/JS_JSON.thy ===== *)
theory JS_JSON
  imports JS_Value
begin

text \<open>
  \<open>JSON.stringify\<close> of an array of strings, which the sources use as a collision-free key. A
  string is quoted with the escapes of the language standard; the lemmas show that no two arrays
  have the same text.
\<close>

section \<open>Quoting\<close>

definition hex_digit :: "nat \<Rightarrow> char" where
  "hex_digit n = (if n < 10 then char_of (48 + n) else char_of (87 + n))"

definition json_char :: "char \<Rightarrow> string" where
  "json_char c = (let n = of_char c :: nat in
     if n = 34 then [CHR 0x5C, CHR 0x22]
     else if n = 92 then [CHR 0x5C, CHR 0x5C]
     else if n = 8 then [CHR 0x5C, CHR ''b'']
     else if n = 9 then [CHR 0x5C, CHR ''t'']
     else if n = 10 then [CHR 0x5C, CHR ''n'']
     else if n = 12 then [CHR 0x5C, CHR ''f'']
     else if n = 13 then [CHR 0x5C, CHR ''r'']
     else if n < 32 then [CHR 0x5C, CHR ''u'', CHR ''0'', CHR ''0'', hex_digit (n div 16), hex_digit (n mod 16)]
     else [c])"

definition json_body :: "string \<Rightarrow> string" where
  "json_body s = concat (map json_char s)"

definition json_quote :: "string \<Rightarrow> string" where
  "json_quote s = CHR 0x22 # json_body s @ [CHR 0x22]"

fun json_items :: "string list \<Rightarrow> string" where
  "json_items [] = []"
| "json_items [s] = json_quote s"
| "json_items (s # ss) = json_quote s @ CHR '','' # json_items ss"

definition json_strings :: "string list \<Rightarrow> string" where
  "json_strings ss = CHR ''['' # json_items ss @ [CHR '']'']"

section \<open>Reading the text back\<close>

definition hex_value :: "char \<Rightarrow> nat" where
  "hex_value c = (let n = of_char c :: nat in if n < 58 then n - 48 else n - 87)"

text \<open>One character of a quoted string, with the rest of the text; \<open>None\<close> at the closing quote.\<close>

definition json_uncons :: "string \<Rightarrow> (char \<times> string) option" where
  "json_uncons t = (case t of
     [] \<Rightarrow> None
   | c # r \<Rightarrow>
       if c = CHR 0x22 then None
       else if c \<noteq> CHR 0x5C then Some (c, r)
       else (case r of
         d # q \<Rightarrow>
           if d = CHR ''b'' then Some (CHR 0x08, q) else if d = CHR ''t'' then Some (CHR 0x09, q)
           else if d = CHR ''n'' then Some (CHR 0x0A, q) else if d = CHR ''f'' then Some (CHR 0x0C, q)
           else if d = CHR ''r'' then Some (CHR 0x0D, q)
           else if d = CHR ''u'' then
             (case q of _ # _ # h # l # p \<Rightarrow> Some (char_of (16 * hex_value h + hex_value l), p) | _ \<Rightarrow> None)
           else Some (d, q)
       | [] \<Rightarrow> None))"

lemma hex_value_digit: "n < 16 \<Longrightarrow> hex_value (hex_digit n) = n"
  unfolding hex_value_def hex_digit_def Let_def by (simp add: of_char_of)

lemma char_eq_code: "c = d \<longleftrightarrow> (of_char c :: nat) = of_char d"
  by (metis char_of_char)

lemma json_uncons_char: "json_uncons (json_char c @ t) = Some (c, t)"
proof -
  define n where "n = (of_char c :: nat)"
  have c: "c = char_of n" by (simp add: n_def char_of_char)
  have h: "n < 32 \<Longrightarrow> 16 * hex_value (hex_digit (n div 16)) + hex_value (hex_digit (n mod 16)) = n"
    by (subst hex_value_digit, simp)+ simp
  consider "n = 34" | "n = 92" | "n = 8" | "n = 9" | "n = 10" | "n = 12" | "n = 13"
    | "n < 32" "n \<noteq> 34" "n \<noteq> 92" "n \<noteq> 8" "n \<noteq> 9" "n \<noteq> 10" "n \<noteq> 12" "n \<noteq> 13"
    | "32 \<le> n" "n \<noteq> 34" "n \<noteq> 92" by linarith
  then show ?thesis
  proof cases
    case 8
    have e: "json_char c = [CHR 0x5C, CHR ''u'', CHR ''0'', CHR ''0'', hex_digit (n div 16), hex_digit (n mod 16)]"
      unfolding json_char_def Let_def n_def [symmetric] by (simp only: 8 if_True if_False)
    show ?thesis unfolding e json_uncons_def using h [OF 8(1)] c by simp
  next
    case 9
    have e: "json_char c = [c]"
      unfolding json_char_def Let_def n_def [symmetric] using 9 by simp
    have "c \<noteq> CHR 0x22" "c \<noteq> CHR 0x5C" using 9 by (auto simp: char_eq_code n_def)
    then show ?thesis unfolding e json_uncons_def by simp
  qed (simp_all add: json_char_def json_uncons_def n_def [symmetric] Let_def, simp_all add: c, simp_all add: char_eq_code)
qed

lemma json_uncons_quote [simp]: "json_uncons (CHR 0x22 # t) = None"
  by (simp add: json_uncons_def)

lemma json_body_simps [simp]: "json_body [] = []" "json_body (c # s) = json_char c @ json_body s"
  by (simp_all add: json_body_def)

lemma json_body_inj: "json_body s @ CHR 0x22 # t = json_body s' @ CHR 0x22 # t' \<Longrightarrow> s = s' \<and> t = t'"
proof (induction s arbitrary: s')
  case Nil
  then show ?case
    by (cases s') (auto dest: arg_cong [where f = json_uncons] simp: json_uncons_char)
next
  case (Cons c s)
  show ?case
  proof (cases s')
    case Nil
    then show ?thesis
      using Cons.prems by (auto dest: arg_cong [where f = json_uncons] simp: json_uncons_char)
  next
    case (Cons d s2)
    from Cons.prems have "json_uncons (json_char c @ json_body s @ CHR 0x22 # t)
        = json_uncons (json_char d @ json_body s2 @ CHR 0x22 # t')"
      by (simp add: Cons)
    then have "c = d" "json_body s @ CHR 0x22 # t = json_body s2 @ CHR 0x22 # t'"
      by (simp_all add: json_uncons_char)
    then show ?thesis using Cons.IH Cons by blast
  qed
qed

lemma json_quote_inj: "json_quote s @ t = json_quote s' @ t' \<longleftrightarrow> s = s' \<and> t = t'"
  using json_body_inj [of s t s' t'] by (auto simp: json_quote_def)

lemma json_items_Cons: "json_items (s # ss) = json_quote s @ (if ss = [] then [] else CHR '','' # json_items ss)"
  by (cases ss) simp_all

lemma json_quote_not_Nil [simp]: "json_quote s @ t \<noteq> CHR '']'' # u"
  by (simp add: json_quote_def)

lemma json_items_inj:
  "json_items ss @ CHR '']'' # t = json_items ss' @ CHR '']'' # t' \<Longrightarrow> ss = ss'"
proof (induction ss arbitrary: ss')
  case Nil
  then show ?case
    by (cases ss') (auto simp: json_items_Cons json_quote_def)
next
  case (Cons s ss)
  show ?case
  proof (cases ss')
    case Nil
    then show ?thesis using Cons.prems by (simp add: json_items_Cons json_quote_def)
  next
    case (Cons s2 ss2)
    from Cons.prems [unfolded Cons json_items_Cons append_assoc json_quote_inj]
    have "s = s2" "ss = [] \<longleftrightarrow> ss2 = []"
      "ss \<noteq> [] \<Longrightarrow> json_items ss @ CHR '']'' # t = json_items ss2 @ CHR '']'' # t'"
      by (auto split: if_splits)
    then show ?thesis using Cons.IH Cons by auto
  qed
qed

lemma json_strings_inj [simp]: "json_strings ss = json_strings ss' \<longleftrightarrow> ss = ss'"
  using json_items_inj [of ss "[]" ss' "[]"] by (auto simp: json_strings_def)

end
