(* ===== verification/Selection_Types.thy ===== *)
theory Selection_Types
  imports JS_Result JS_JSON
begin

text \<open>
  The data of the selection model: \<open>packages/client-core/src/selection-model/types.ts\<close>. A
  \<open>Record\<close> over the closed set of capability names is a function on \<open>capability\<close>; counts are
  integers (the validators admit safe integers only).
\<close>

section \<open>Kinds and identities\<close>

text \<open>\<open>ContentEntryKind\<close> of \<open>library-content.ts\<close>.\<close>

datatype content_kind =
    Ebook | Comic | Movie | Show | Season | Episode | Artist | Album | Song | Book
  | Audiobook_file | Chapter | Collection | Category | Author | Book_series | Disc | Extra
  | Playlist | Radio

datatype selection_kind = Entry content_kind | Channel_kind | Person_kind

fun content_name :: "content_kind \<Rightarrow> string" where
  "content_name Ebook = ''ebook''"
| "content_name Comic = ''comic''"
| "content_name Movie = ''movie''"
| "content_name Show = ''show''"
| "content_name Season = ''season''"
| "content_name Episode = ''episode''"
| "content_name Artist = ''artist''"
| "content_name Album = ''album''"
| "content_name Song = ''song''"
| "content_name Book = ''book''"
| "content_name Audiobook_file = ''audiobook_file''"
| "content_name Chapter = ''chapter''"
| "content_name Collection = ''collection''"
| "content_name Category = ''category''"
| "content_name Author = ''author''"
| "content_name Book_series = ''book_series''"
| "content_name Disc = ''disc''"
| "content_name Extra = ''extra''"
| "content_name Playlist = ''playlist''"
| "content_name Radio = ''radio''"

fun kind_name :: "selection_kind \<Rightarrow> string" where
  "kind_name (Entry k) = content_name k"
| "kind_name Channel_kind = ''channel''"
| "kind_name Person_kind = ''person''"

lemma content_name_inj [simp]: "content_name a = content_name b \<longleftrightarrow> a = b"
  by (cases a; cases b) simp_all

lemma content_name_not [simp]: "content_name a \<noteq> ''channel''" "content_name a \<noteq> ''person''"
  by (cases a; simp)+

lemma kind_name_inj [simp]: "kind_name a = kind_name b \<longleftrightarrow> a = b"
  by (cases a; cases b) (simp_all add: content_name_not [symmetric])

text \<open>A catalogue aggregate, a channel of a source, or a person.\<close>

datatype selection_identity =
    Catalogue (id_kind: content_kind) (id_library: string) (id_id: string)
  | Channel (id_source: string) (id_channel: string)
  | Person (id_person: string)

fun kind_of :: "selection_identity \<Rightarrow> selection_kind" where
  "kind_of (Catalogue k _ _) = Entry k"
| "kind_of (Channel _ _) = Channel_kind"
| "kind_of (Person _) = Person_kind"

fun library_of :: "selection_identity \<Rightarrow> string option" where
  "library_of (Catalogue _ l _) = Some l"
| "library_of _ = None"

section \<open>Contexts\<close>

datatype authority = Local_authority | Hosted_authority

fun authority_name :: "authority \<Rightarrow> string" where
  "authority_name Local_authority = ''local''"
| "authority_name Hosted_authority = ''hosted''"

lemma authority_name_inj [simp]: "authority_name a = authority_name b \<longleftrightarrow> a = b"
  by (cases a; cases b) simp_all

record selection_scope =
  sc_serverId :: string
  sc_authority :: authority
  sc_accountId :: string
  sc_profileId :: string
  sc_viewId :: string
  sc_privacyFence :: string

record selection_context =
  cx_scope :: selection_scope
  cx_catalogRevision :: string
  cx_viewerRevision :: string

record browse_scope =
  bs_serverId :: string
  bs_authority :: authority
  bs_accountId :: string
  bs_profileId :: string
  bs_viewId :: string

record browse_context =
  bx_scope :: browse_scope
  bx_pageRevision :: string

section \<open>Capabilities, items and summaries\<close>

datatype capability =
    Cap_play | Cap_queue | Cap_playlist | Cap_myList | Cap_watched | Cap_collection
  | Cap_favorite | Cap_download | Cap_edit | Cap_refresh | Cap_delete

fun capability_name :: "capability \<Rightarrow> string" where
  "capability_name Cap_play = ''play''"
| "capability_name Cap_queue = ''queue''"
| "capability_name Cap_playlist = ''playlist''"
| "capability_name Cap_myList = ''myList''"
| "capability_name Cap_watched = ''watched''"
| "capability_name Cap_collection = ''collection''"
| "capability_name Cap_favorite = ''favorite''"
| "capability_name Cap_download = ''download''"
| "capability_name Cap_edit = ''edit''"
| "capability_name Cap_refresh = ''refresh''"
| "capability_name Cap_delete = ''delete''"

text \<open>The set of names is finite, so records over it can be compared and enumerated.\<close>

instantiation capability :: enum
begin

definition enum_capability :: "capability list" where
  "enum_capability = [Cap_play, Cap_queue, Cap_playlist, Cap_myList, Cap_watched, Cap_collection,
     Cap_favorite, Cap_download, Cap_edit, Cap_refresh, Cap_delete]"

definition enum_all_capability :: "(capability \<Rightarrow> bool) \<Rightarrow> bool" where
  "enum_all_capability P = list_all P enum_class.enum"

definition enum_ex_capability :: "(capability \<Rightarrow> bool) \<Rightarrow> bool" where
  "enum_ex_capability P = list_ex P enum_class.enum"

instance
proof
  have u: "x \<in> set enum_class.enum" for x :: capability
    by (cases x) (simp_all add: enum_capability_def)
  then show "(UNIV :: capability set) = set enum_class.enum"
    by auto
  show "distinct (enum_class.enum :: capability list)"
    by (simp add: enum_capability_def)
  show "enum_class.enum_all P = Ball UNIV P" for P :: "capability \<Rightarrow> bool"
    using u by (auto simp: enum_all_capability_def list_all_iff)
  show "enum_class.enum_ex P = Bex UNIV P" for P :: "capability \<Rightarrow> bool"
    using u by (auto simp: enum_ex_capability_def list_ex_iff)
qed

end

type_synonym capabilities = "capability \<Rightarrow> bool"
type_synonym capability_counts = "capability \<Rightarrow> int"

record selection_item =
  it_identity :: selection_identity
  it_capabilities :: capabilities

abbreviation it_kind :: "selection_item \<Rightarrow> selection_kind" where
  "it_kind i \<equiv> kind_of (it_identity i)"

record type_count =
  tc_kind :: selection_kind
  tc_count :: int

datatype selection_library = No_library | Single_library string | Multiple_libraries | Unknown_library

text \<open>
  \<open>SelectionUnavailableActions\<close>: the keys present, in the order of the wire. The value of a key is
  determined by it (\<open>preview-limit\<close> for \<open>metadataPreview\<close>, \<open>unsupported-sort\<close> for the others).
\<close>

datatype unavailable_action = Una_play | Una_queue | Una_playlist | Una_delete | Una_metadataPreview

type_synonym unavailable_actions = "unavailable_action list"

record selection_summary =
  sm_count :: int
  sm_types :: "type_count list"
  sm_library :: selection_library
  sm_every :: capabilities
  sm_unavailable :: "unavailable_actions option"

section \<open>Queries and windows\<close>

record query_type =
  qt_kind :: content_kind
  qt_count :: int
  qt_capabilityCounts :: capability_counts
  qt_libraries :: "(string \<times> int) list"

datatype container_kind =
    C_show | C_season | C_album | C_artist | C_book | C_collection | C_playlist | C_library

datatype direction = Asc | Desc

record sort_key =
  so_field :: string
  so_direction :: direction

text \<open>A whole-result selector: a query or a container (\<open>JobSelector\<close> of \<open>bulk-jobs.ts\<close>).\<close>

datatype whole_selector =
    Sel_query (sq_libraryId: string) (sq_pivot: string) (sq_basis: "string option")
      (sq_filter: "jsval option") (sq_sort: "sort_key list option")
  | Sel_container container_kind string

record query_facts =
  qf_types :: "query_type list"
  qf_library :: selection_library
  qf_every :: capabilities
  qf_unavailable :: "unavailable_actions option"

record selection_query =
  q_id :: string
  q_selector :: whole_selector
  q_total :: int
  q_catalogRevision :: string
  q_summary :: query_facts

record selection_window =
  w_id :: string
  w_sectionId :: string
  w_sectionOrder :: int
  w_start :: int
  w_queryId :: "string option"
  w_items :: "selection_item list"

record selected_item =
  se_key :: string
  se_item :: selection_item

section \<open>Targets, snapshots and outcomes\<close>

text \<open>The context's type is a parameter, as in the source.\<close>

record 'c explicit_target =
  et_context :: 'c
  et_items :: "selected_item list"
  et_displayItems :: "selected_item list"

record 'c query_target =
  qg_context :: 'c
  qg_queryId :: string
  qg_selector :: whole_selector
  qg_total :: int
  qg_sourceTotal :: int
  qg_kind :: "selection_kind option"
  qg_excludedItems :: "selected_item list"
  qg_summary :: selection_summary
  qg_expected :: string

datatype 'c selection_target = Explicit "'c explicit_target" | Whole "'c query_target"

record 'c selection_snapshot =
  sn_version :: nat
  sn_context :: 'c
  sn_active :: bool
  sn_summary :: selection_summary
  sn_target :: "'c selection_target option"
  sn_selectedKeys :: "string list"
  sn_lastSectionId :: "string option"
  sn_windowCount :: nat
  sn_itemCount :: int

text \<open>Tickets and operations are compared by object identity: the first field is that identity.\<close>

record 'c read_ticket =
  tk_ref :: nat
  tk_context :: 'c

record 'c selection_operation =
  op_ref :: nat
  op_target :: "'c selection_target"

datatype selection_failure =
    Disposed | Stale_context | Unregistered | No_anchor | Different_section | Range_not_loaded
  | Not_query_member | Exclusion_limit | Unknown_query

type_synonym selection_change = "selection_failure + unit"
type_synonym selection_range = "selection_failure + string list"

record selection_limits =
  li_maxWindows :: int
  li_maxWindowItems :: int
  li_maxRegisteredItems :: int
  li_maxQueries :: int
  li_maxQueryExclusions :: int

datatype selection_platform = Desktop_web | Mobile_web | Phone_app | Tv

record selection_environment =
  en_platform :: selection_platform
  en_isOwner :: bool
  en_canEditMetadata :: bool

datatype selection_action =
    A_play | A_play_next | A_play_later | A_playlist | A_my_list | A_mark_watched | A_mark_unwatched
  | A_collection | A_favorite | A_remove_my_list | A_edit | A_download | A_refresh | A_delete

datatype action_reason =
    Not_permitted | Mixed_types | No_bulk_fields | One_library_required | Delete_limit
  | Unsupported_sort_reason | Preview_limit_reason

datatype action_rule = Hidden | Ready | Disabled action_reason | Explain action_reason

end
