(* ===== verification/Selection_Capabilities.thy ===== *)
theory Selection_Capabilities
  imports Selection_Types
begin

text \<open>
  The pure half of the selection model: what a kind may do, the keys of identities, the summary
  of explicit picks (\<open>capabilities.ts\<close>), the summary of a whole query (\<open>query-summary.ts\<close>), the
  selector guard (\<open>targets.ts\<close>) and the two closed wire vocabularies
  (\<open>unavailable-actions.ts\<close>, \<open>selection-basis.ts\<close>).
\<close>

section \<open>Kinds and capabilities\<close>

definition selectionKinds :: "selection_kind list" where
  "selectionKinds =
     [Entry Movie, Entry Show, Entry Season, Entry Episode, Entry Artist, Entry Album, Entry Song,
      Entry Book, Entry Audiobook_file, Entry Chapter, Entry Collection, Entry Playlist,
      Entry Category, Entry Author, Entry Book_series, Entry Disc, Entry Extra, Channel_kind, Person_kind]"

definition selectionCapabilityNames :: "capability list" where
  "selectionCapabilityNames =
     [Cap_play, Cap_queue, Cap_playlist, Cap_myList, Cap_watched, Cap_collection, Cap_favorite,
      Cap_download, Cap_edit, Cap_refresh, Cap_delete]"

definition selectionKindHasWatched :: "selection_kind \<Rightarrow> bool" where
  "selectionKindHasWatched k \<longleftrightarrow> k = Entry Movie \<or> k = Entry Show \<or> k = Entry Season
     \<or> k = Entry Episode \<or> k = Entry Extra"

definition selectionKindHasBulkFields :: "selection_kind \<Rightarrow> bool" where
  "selectionKindHasBulkFields k \<longleftrightarrow> k \<in> set [Entry Movie, Entry Show, Entry Episode, Entry Song,
     Entry Album, Entry Artist, Entry Book, Entry Audiobook_file]"

definition selectableSelectionKind :: "selection_kind \<Rightarrow> bool" where
  "selectableSelectionKind k \<longleftrightarrow> k \<in> set selectionKinds"

definition selectionKindAllowsCapability :: "selection_kind \<Rightarrow> capability \<Rightarrow> bool" where
  "selectionKindAllowsCapability k n =
     (if k \<notin> set selectionKinds then False
      else if k = Person_kind then False
      else if k = Channel_kind then n = Cap_play \<or> n = Cap_favorite
      else n \<noteq> Cap_watched \<or> selectionKindHasWatched k)"

text \<open>\<open>offered\<close> is a partial record read from outside: only the value \<open>true\<close> grants.\<close>

definition selectionCapabilities :: "selection_kind \<Rightarrow> (string \<times> jsval) list \<Rightarrow> capabilities" where
  "selectionCapabilities k offered = (\<lambda>n. k \<in> set selectionKinds
     \<and> fld offered (capability_name n) = JBool True \<and> selectionKindAllowsCapability k n)"

section \<open>Keys\<close>

fun identity_parts :: "selection_identity \<Rightarrow> string list" where
  "identity_parts (Channel s c) = [kind_name Channel_kind, s, c]"
| "identity_parts (Person i) = [kind_name Person_kind, i]"
| "identity_parts (Catalogue k l i) = [kind_name (Entry k), l, i]"

definition selectionKey :: "selection_scope \<Rightarrow> selection_identity \<Rightarrow> string" where
  "selectionKey s i = json_strings
     ([sc_serverId s, authority_name (sc_authority s), sc_accountId s, sc_profileId s, sc_viewId s,
       sc_privacyFence s] @ identity_parts i)"

definition browseSelectionKey :: "browse_scope \<Rightarrow> selection_identity \<Rightarrow> string" where
  "browseSelectionKey s i = json_strings
     ([''browse'', bs_serverId s, authority_name (bs_authority s), bs_accountId s, bs_profileId s,
       bs_viewId s] @ identity_parts i)"

section \<open>The summary of explicit picks\<close>

record summary_scan =
  ss_types :: "(selection_kind, int) js_map"
  ss_library :: "string option"
  ss_multiple :: bool
  ss_unbound :: bool
  ss_every :: capabilities

text \<open>\<open>map.get(k) ?? 0\<close>.\<close>

definition count_at :: "('k, int) js_map \<Rightarrow> 'k \<Rightarrow> int" where
  "count_at m k = (case map_get m k of Some n \<Rightarrow> n | None \<Rightarrow> 0)"

definition scan_item :: "selection_item \<Rightarrow> summary_scan \<Rightarrow> summary_scan" where
  "scan_item item s =
     (let t = s\<lparr>ss_types := map_set (it_kind item) (count_at (ss_types s) (it_kind item) + 1) (ss_types s),
                ss_every := (\<lambda>n. ss_every s n \<and> it_capabilities item n
                   \<and> selectionKindAllowsCapability (it_kind item) n)\<rparr>
      in case it_identity item of
           Catalogue k l i \<Rightarrow>
             (case ss_library s of
                None \<Rightarrow> t\<lparr>ss_library := Some l\<rparr>
              | Some l' \<Rightarrow> if l' \<noteq> l then t\<lparr>ss_multiple := True\<rparr> else t)
         | _ \<Rightarrow> t\<lparr>ss_unbound := True\<rparr>)"

definition scan_start :: "selection_item list \<Rightarrow> summary_scan" where
  "scan_start items = \<lparr>ss_types = [], ss_library = None, ss_multiple = False, ss_unbound = False,
     ss_every = (\<lambda>n. items \<noteq> [])\<rparr>"

definition type_counts :: "(selection_kind, int) js_map \<Rightarrow> type_count list" where
  "type_counts m = List.map_filter
     (\<lambda>k. case map_get m k of None \<Rightarrow> None | Some n \<Rightarrow> Some \<lparr>tc_kind = k, tc_count = n\<rparr>) selectionKinds"

definition summarizeSelection :: "selection_item list \<Rightarrow> selection_summary" where
  "summarizeSelection items =
     (let s = fold scan_item items (scan_start items)
      in \<lparr>sm_count = int (length items),
          sm_types = type_counts (ss_types s),
          sm_library = (if ss_unbound s \<and> ss_library s \<noteq> None then Unknown_library
                        else if ss_multiple s then Multiple_libraries
                        else case ss_library s of None \<Rightarrow> No_library | Some l \<Rightarrow> Single_library l),
          sm_every = ss_every s,
          sm_unavailable = None\<rparr>)"

section \<open>The actions of a selection\<close>

definition rule_allowed :: "selection_summary \<Rightarrow> capability \<Rightarrow> action_rule" where
  "rule_allowed s n =
     (if (sm_count s > 0 \<and> length (sm_types s) > 0) \<and> sm_every s n
         \<and> (\<forall>t \<in> set (sm_types s). selectionKindAllowsCapability (tc_kind t) n)
      then Ready else Hidden)"

definition rule_restrict :: "action_rule \<Rightarrow> action_reason option \<Rightarrow> action_rule" where
  "rule_restrict r reason = (case reason of Some x \<Rightarrow> if r = Ready then Disabled x else r | None \<Rightarrow> r)"

text \<open>\<open>summary.unavailableActions?.play\<close> and its siblings.\<close>

definition unavailable_reason :: "selection_summary \<Rightarrow> unavailable_action \<Rightarrow> action_reason option" where
  "unavailable_reason s a =
     (case sm_unavailable s of
        Some u \<Rightarrow> if a \<in> set u then Some (if a = Una_metadataPreview then Preview_limit_reason else Unsupported_sort_reason)
                  else None
      | None \<Rightarrow> None)"

definition owner_tools :: "selection_summary \<Rightarrow> bool" where
  "owner_tools s \<longleftrightarrow> (sm_count s > 0 \<and> length (sm_types s) > 0)
     \<and> (\<forall>t \<in> set (sm_types s). tc_kind t \<noteq> Channel_kind \<and> tc_kind t \<noteq> Person_kind)"

definition rule_edit :: "selection_summary \<Rightarrow> selection_environment \<Rightarrow> action_rule" where
  "rule_edit s e =
     (if owner_tools s \<and> (en_isOwner e \<or> en_canEditMetadata e) then
        (if \<not> sm_every s Cap_edit then Disabled Not_permitted
         else if length (sm_types s) \<noteq> 1 then Explain Mixed_types
         else if \<not> selectionKindHasBulkFields (tc_kind (hd (sm_types s))) then Explain No_bulk_fields
         else Ready)
      else Hidden)"

definition rule_delete :: "selection_summary \<Rightarrow> selection_environment \<Rightarrow> action_rule" where
  "rule_delete s e =
     (if owner_tools s \<and> en_isOwner e then
        (if (case sm_library s of Single_library l \<Rightarrow> False | _ \<Rightarrow> True) then Disabled One_library_required
         else if \<not> sm_every s Cap_delete then Disabled Not_permitted
         else if sm_count s > 200 then Explain Delete_limit
         else Ready)
      else Hidden)"

definition rule_watched :: "selection_summary \<Rightarrow> action_rule" where
  "rule_watched s =
     (if (sm_count s > 0 \<and> length (sm_types s) > 0) \<and> sm_every s Cap_watched
         \<and> (\<forall>t \<in> set (sm_types s). selectionKindHasWatched (tc_kind t))
      then Ready else Hidden)"

definition rule_play :: "selection_summary \<Rightarrow> action_rule" where
  "rule_play s =
     (if \<not> (\<exists>t \<in> set (sm_types s). tc_kind t = Channel_kind) \<or> sm_count s = 1
      then rule_allowed s Cap_play else Hidden)"

fun selectionActions :: "selection_summary \<Rightarrow> selection_environment \<Rightarrow> selection_action \<Rightarrow> action_rule" where
  "selectionActions s e A_play = rule_restrict (rule_play s) (unavailable_reason s Una_play)"
| "selectionActions s e A_play_next =
     rule_restrict (rule_allowed s Cap_queue) (unavailable_reason s Una_queue)"
| "selectionActions s e A_play_later =
     rule_restrict (rule_allowed s Cap_queue) (unavailable_reason s Una_queue)"
| "selectionActions s e A_playlist =
     rule_restrict (rule_allowed s Cap_playlist) (unavailable_reason s Una_playlist)"
| "selectionActions s e A_my_list = rule_allowed s Cap_myList"
| "selectionActions s e A_mark_watched = rule_watched s"
| "selectionActions s e A_mark_unwatched = rule_watched s"
| "selectionActions s e A_collection = rule_allowed s Cap_collection"
| "selectionActions s e A_favorite = rule_allowed s Cap_favorite"
| "selectionActions s e A_remove_my_list = rule_allowed s Cap_myList"
| "selectionActions s e A_edit =
     rule_restrict (rule_edit s e) (unavailable_reason s Una_metadataPreview)"
| "selectionActions s e A_download = (if en_platform e = Phone_app then rule_allowed s Cap_download else Hidden)"
| "selectionActions s e A_refresh = (if owner_tools s \<and> en_isOwner e then rule_allowed s Cap_refresh else Hidden)"
| "selectionActions s e A_delete =
     rule_restrict (rule_delete s e) (unavailable_reason s Una_delete)"

definition selectionFourthAction :: "selection_summary \<Rightarrow> selection_action" where
  "selectionFourthAction s =
     (if sm_count s > 0 \<and> length (sm_types s) = 1 \<and> tc_kind (hd (sm_types s)) = Entry Episode
         \<and> sm_every s Cap_watched then A_mark_watched else A_my_list)"

section \<open>The summary of a whole query\<close>

text \<open>
  A library count that was never a number becomes \<open>NaN\<close> when one is taken off it: \<open>None\<close> here.
\<close>

record query_scan =
  qs_types :: "(selection_kind, int) js_map"
  qs_libraries :: "(string, int option) js_map"
  qs_capabilities :: capability_counts
  qs_count :: int

definition add_library :: "string \<times> int \<Rightarrow> (string, int option) js_map \<Rightarrow> (string, int option) js_map" where
  "add_library l m =
     map_set (fst l) (case map_get m (fst l) of None \<Rightarrow> Some (snd l) | Some v \<Rightarrow> map_option (\<lambda>n. n + snd l) v) m"

definition scan_row :: "selection_kind option \<Rightarrow> query_type \<Rightarrow> query_scan \<Rightarrow> query_scan" where
  "scan_row kind row s =
     (if kind \<noteq> None \<and> kind \<noteq> Some (Entry (qt_kind row)) then s
      else s\<lparr>qs_count := qs_count s + qt_count row,
             qs_capabilities := (\<lambda>n. qs_capabilities s n + qt_capabilityCounts row n),
             qs_libraries := fold add_library (qt_libraries row) (qs_libraries s)\<rparr>)"

definition take_library :: "string \<Rightarrow> (string, int option) js_map \<Rightarrow> (string, int option) js_map" where
  "take_library l m = map_set l (Option.bind (map_get m l) (map_option (\<lambda>n. n - 1))) m"

definition scan_exclusion :: "selected_item \<Rightarrow> query_scan \<Rightarrow> query_scan" where
  "scan_exclusion x s =
     (case it_identity (se_item x) of
        Catalogue k l i \<Rightarrow>
          (case map_get (qs_types s) (Entry k) of
             None \<Rightarrow> s
           | Some t \<Rightarrow> s\<lparr>qs_count := qs_count s - 1,
                        qs_types := map_set (Entry k) (t - 1) (qs_types s),
                        qs_libraries := take_library l (qs_libraries s),
                        qs_capabilities := (\<lambda>n. if it_capabilities (se_item x) n
                          then qs_capabilities s n - 1 else qs_capabilities s n)\<rparr>)
      | _ \<Rightarrow> s)"

definition query_scan_start :: "query_type list \<Rightarrow> selection_kind option \<Rightarrow> query_scan" where
  "query_scan_start facts kind =
     \<lparr>qs_types = fold (\<lambda>row m. map_set (Entry (qt_kind row)) (qt_count row) m)
        (filter (\<lambda>row. kind = None \<or> kind = Some (Entry (qt_kind row))) facts) [],
      qs_libraries = [], qs_capabilities = (\<lambda>n. 0), qs_count = 0\<rparr>"

definition positive_types :: "(selection_kind, int) js_map \<Rightarrow> type_count list" where
  "positive_types m = List.map_filter
     (\<lambda>k. if count_at m k > 0 then Some \<lparr>tc_kind = k, tc_count = count_at m k\<rparr> else None) selectionKinds"

definition present_libraries :: "(string, int option) js_map \<Rightarrow> string list" where
  "present_libraries m = map fst (filter (\<lambda>(l, n). case n of Some t \<Rightarrow> t > 0 | None \<Rightarrow> False) m)"

definition library_summary :: "string list \<Rightarrow> selection_library" where
  "library_summary ls = (case ls of [] \<Rightarrow> No_library | [l] \<Rightarrow> Single_library l | _ \<Rightarrow> Multiple_libraries)"

definition summarizeQuerySelection ::
    "query_type list \<Rightarrow> selection_kind option \<Rightarrow> selected_item list \<Rightarrow> unavailable_actions option \<Rightarrow> selection_summary" where
  "summarizeQuerySelection facts kind exclusions unavailable =
     (let s = fold scan_exclusion exclusions (fold (scan_row kind) facts (query_scan_start facts kind))
      in \<lparr>sm_count = qs_count s,
          sm_types = positive_types (qs_types s),
          sm_library = library_summary (present_libraries (qs_libraries s)),
          sm_every = (\<lambda>n. qs_count s > 0 \<and> qs_capabilities s n = qs_count s),
          sm_unavailable = unavailable\<rparr>)"

section \<open>The selector guard\<close>

definition selectionQuerySelector :: "'c query_target \<Rightarrow> (whole_selector \<times> string) option" where
  "selectionQuerySelector t =
     (if qg_kind t \<noteq> None \<or> length (qg_excludedItems t) > 0 \<or> qg_total t \<noteq> qg_sourceTotal t then None
      else Some (qg_selector t, qg_expected t))"

section \<open>Closed wire vocabularies\<close>

definition validSelectionUnavailableActions :: "jsval \<Rightarrow> bool" where
  "validSelectionUnavailableActions v =
     (case v of
        JObj o' \<Rightarrow> (\<forall>(key, reason) \<in> set o'.
          if key \<in> set [''play'', ''queue'', ''playlist'', ''delete''] then reason = JStr ''unsupported-sort''
          else key = ''metadataPreview'' \<and> reason = JStr ''preview-limit'')
      | _ \<Rightarrow> False)"

definition validSelectionBasis :: "jsval \<Rightarrow> bool" where
  "validSelectionBasis v = (case v of JStr s \<Rightarrow> length s = 64 \<and> list_all is_lower_hex s | _ \<Rightarrow> False)"

end
