(* ===== verification/Selection_Validation.thy ===== *)
theory Selection_Validation
  imports Selection_Capabilities
begin

text \<open>
  The checks at the boundary of the selection model (\<open>validation.ts\<close>): every input is read as an
  unknown value, refused with a code or copied into the model's own data. A value is a tree, so
  the cycle check of \<open>queryJSON\<close> has nothing to reject; prototypes and getters are not modelled.
\<close>

datatype selection_error =
    Invalid_context | Invalid_item | Invalid_window | Invalid_query | Invalid_limits
  | Registration_limit | Conflicting_windows
  | Type_error \<comment> \<open>a property read of \<open>undefined\<close>; no operation of the model ends so\<close>

type_synonym 'a checked = "selection_error + 'a"

section \<open>Scalars\<close>

definition selectionID :: "jsval \<Rightarrow> bool" where
  "selectionID v = (case v of JStr s \<Rightarrow> sizedWithin 1 4096 s \<and> \<not> list_ex is_control s | _ \<Rightarrow> False)"

definition catalogueID :: "jsval \<Rightarrow> bool" where
  "catalogueID v \<longleftrightarrow> selectionID v \<and> length (str_of v) \<le> 256"

definition selectionCount :: "jsval \<Rightarrow> bool" where
  "selectionCount v = (case v of JNum n \<Rightarrow> isSafeInteger n \<and> (case n of Fin r \<Rightarrow> r \<ge> 0 | _ \<Rightarrow> False) | _ \<Rightarrow> False)"

definition authority_of :: "jsval \<Rightarrow> authority option" where
  "authority_of v = (if v = JStr ''local'' then Some Local_authority
     else if v = JStr ''hosted'' then Some Hosted_authority else None)"

section \<open>Contexts\<close>

definition checkedContext :: "jsval \<Rightarrow> selection_context checked" where
  "checkedContext input =
     and_then (require Invalid_context (is_record input \<and> is_record (at_key input ''scope'')
       \<and> is_record (at_key input ''revision''))) (\<lambda>_.
     let scope = at_key input ''scope''; revision = at_key input ''revision''
     in and_then (require Invalid_context
          (list_all (\<lambda>k. selectionID (at_key scope k)) [''serverId'', ''accountId'', ''profileId'', ''viewId'', ''privacyFence'']
           \<and> authority_of (at_key scope ''authority'') \<noteq> None
           \<and> selectionID (at_key revision ''catalogRevision'') \<and> selectionID (at_key revision ''viewerRevision''))) (\<lambda>_.
        Inr \<lparr>cx_scope = \<lparr>sc_serverId = str_of (at_key scope ''serverId''),
               sc_authority = the (authority_of (at_key scope ''authority'')),
               sc_accountId = str_of (at_key scope ''accountId''), sc_profileId = str_of (at_key scope ''profileId''),
               sc_viewId = str_of (at_key scope ''viewId''), sc_privacyFence = str_of (at_key scope ''privacyFence'')\<rparr>,
             cx_catalogRevision = str_of (at_key revision ''catalogRevision''),
             cx_viewerRevision = str_of (at_key revision ''viewerRevision'')\<rparr>))"

definition checkedBrowseContext :: "jsval \<Rightarrow> browse_context checked" where
  "checkedBrowseContext input =
     and_then (require Invalid_context (is_record input \<and> is_record (at_key input ''scope'')
       \<and> is_record (at_key input ''revision''))) (\<lambda>_.
     let scope = at_key input ''scope''; revision = at_key input ''revision''
     in and_then (require Invalid_context
          (list_all (\<lambda>k. selectionID (at_key scope k)) [''serverId'', ''accountId'', ''profileId'', ''viewId'']
           \<and> authority_of (at_key scope ''authority'') \<noteq> None
           \<and> only_keys (obj_of scope) [''serverId'', ''authority'', ''accountId'', ''profileId'', ''viewId'']
           \<and> length (obj_of revision) = 1 \<and> selectionID (at_key revision ''pageRevision''))) (\<lambda>_.
        Inr \<lparr>bx_scope = \<lparr>bs_serverId = str_of (at_key scope ''serverId''),
               bs_authority = the (authority_of (at_key scope ''authority'')),
               bs_accountId = str_of (at_key scope ''accountId''), bs_profileId = str_of (at_key scope ''profileId''),
               bs_viewId = str_of (at_key scope ''viewId'')\<rparr>,
             bx_pageRevision = str_of (at_key revision ''pageRevision'')\<rparr>))"

section \<open>Items\<close>

definition kind_of_value :: "jsval \<Rightarrow> selection_kind option" where
  "kind_of_value v = find (\<lambda>k. v = JStr (kind_name k)) selectionKinds"

definition checkedItem :: "jsval \<Rightarrow> selection_item checked" where
  "checkedItem input =
     and_then (require Invalid_item (is_record input \<and> kind_of_value (at_key input ''kind'') \<noteq> None)) (\<lambda>_.
     let kind = the (kind_of_value (at_key input ''kind''));
         capabilities = selectionCapabilities kind (obj_of (at_key input ''capabilities''))
     in case kind of
          Channel_kind \<Rightarrow>
            and_then (require Invalid_item (catalogueID (at_key input ''sourceId'') \<and> catalogueID (at_key input ''channelId'')
              \<and> \<not> has_key input ''libraryId'' \<and> \<not> has_key input ''id'')) (\<lambda>_.
            Inr \<lparr>it_identity = Channel (str_of (at_key input ''sourceId'')) (str_of (at_key input ''channelId'')),
                 it_capabilities = capabilities\<rparr>)
        | Person_kind \<Rightarrow>
            and_then (require Invalid_item (catalogueID (at_key input ''id'') \<and> \<not> has_key input ''sourceId''
              \<and> \<not> has_key input ''channelId'')) (\<lambda>_.
            and_then (require Invalid_item (\<not> has_key input ''libraryId'')) (\<lambda>_.
            Inr \<lparr>it_identity = Person (str_of (at_key input ''id'')), it_capabilities = capabilities\<rparr>))
        | Entry k \<Rightarrow>
            and_then (require Invalid_item (catalogueID (at_key input ''id'') \<and> \<not> has_key input ''sourceId''
              \<and> \<not> has_key input ''channelId'')) (\<lambda>_.
            and_then (require Invalid_item (catalogueID (at_key input ''libraryId''))) (\<lambda>_.
            Inr \<lparr>it_identity = Catalogue k (str_of (at_key input ''libraryId'')) (str_of (at_key input ''id'')),
                 it_capabilities = capabilities\<rparr>)))"

section \<open>Limits\<close>

definition defaultSelectionLimits :: selection_limits where
  "defaultSelectionLimits = \<lparr>li_maxWindows = 32, li_maxWindowItems = 256, li_maxRegisteredItems = 2048,
     li_maxQueries = 32, li_maxQueryExclusions = 2048\<rparr>"

text \<open>The caller's partial record overrides the defaults, key by key, unknown keys included.\<close>

definition limit_defaults :: "(string \<times> jsval) list" where
  "limit_defaults =
     [(''maxWindows'', JNum (Fin 32)), (''maxWindowItems'', JNum (Fin 256)), (''maxRegisteredItems'', JNum (Fin 2048)),
      (''maxQueries'', JNum (Fin 32)), (''maxQueryExclusions'', JNum (Fin 2048))]"

definition checkedLimits :: "(string \<times> jsval) list \<Rightarrow> selection_limits checked" where
  "checkedLimits input =
     (let result = fold (\<lambda>(k, v) m. map_set k v m) input limit_defaults
      in and_then (require Invalid_limits (list_all (\<lambda>(k, v). selectionCount v \<and> count_of v > 0) result)) (\<lambda>_.
         Inr \<lparr>li_maxWindows = count_of (fld result ''maxWindows''), li_maxWindowItems = count_of (fld result ''maxWindowItems''),
              li_maxRegisteredItems = count_of (fld result ''maxRegisteredItems''), li_maxQueries = count_of (fld result ''maxQueries''),
              li_maxQueryExclusions = count_of (fld result ''maxQueryExclusions'')\<rparr>))"

section \<open>Bounded copies of filter values\<close>

text \<open>
  \<open>visit\<close> threads what is left of the node budget and of the text budget. A list or an object is
  refused at once when it has more children than nodes are left.
\<close>

record json_budget =
  jb_remaining :: int
  jb_text :: int

fun visit :: "jsval \<Rightarrow> nat \<Rightarrow> json_budget \<Rightarrow> (jsval \<times> json_budget) checked"
and visit_list :: "jsval list \<Rightarrow> nat \<Rightarrow> json_budget \<Rightarrow> (jsval list \<times> json_budget) checked"
and visit_entries :: "(string \<times> jsval) list \<Rightarrow> nat \<Rightarrow> json_budget \<Rightarrow> ((string \<times> jsval) list \<times> json_budget) checked" where
  "visit v depth b =
     (let b1 = b\<lparr>jb_remaining := jb_remaining b - 1\<rparr>
      in if \<not> (jb_remaining b1 \<ge> 0 \<and> depth \<le> 24) then Inl Invalid_query
         else case v of
           JNull \<Rightarrow> Inr (v, b1)
         | JBool _ \<Rightarrow> Inr (v, b1)
         | JNum n \<Rightarrow> if isFinite n then Inr (v, b1) else Inl Invalid_query
         | JStr s \<Rightarrow> (let b2 = b1\<lparr>jb_text := jb_text b1 - int (length s)\<rparr>
                      in if jb_text b2 \<ge> 0 then Inr (v, b2) else Inl Invalid_query)
         | JUndef \<Rightarrow> Inl Invalid_query
         | JArr xs \<Rightarrow> (if \<not> int (length xs) \<le> jb_remaining b1 then Inl Invalid_query
                       else case visit_list xs (depth + 1) b1 of
                         Inl e \<Rightarrow> Inl e | Inr (ys, b2) \<Rightarrow> Inr (JArr ys, b2))
         | JObj es \<Rightarrow> (if \<not> int (length es) \<le> jb_remaining b1 then Inl Invalid_query
                       else case visit_entries es (depth + 1) b1 of
                         Inl e \<Rightarrow> Inl e | Inr (fs, b2) \<Rightarrow> Inr (JObj fs, b2)))"
| "visit_list [] depth b = Inr ([], b)"
| "visit_list (x # xs) depth b =
     (case visit x depth b of
        Inl e \<Rightarrow> Inl e
      | Inr (y, b1) \<Rightarrow> (case visit_list xs depth b1 of Inl e \<Rightarrow> Inl e | Inr (ys, b2) \<Rightarrow> Inr (y # ys, b2)))"
| "visit_entries [] depth b = Inr ([], b)"
| "visit_entries ((k, x) # es) depth b =
     (let b0 = b\<lparr>jb_text := jb_text b - int (length k)\<rparr>
      in if \<not> jb_text b0 \<ge> 0 then Inl Invalid_query
         else case visit x depth b0 of
           Inl e \<Rightarrow> Inl e
         | Inr (y, b1) \<Rightarrow> (case visit_entries es depth b1 of Inl e \<Rightarrow> Inl e | Inr (fs, b2) \<Rightarrow> Inr ((k, y) # fs, b2)))"

definition queryJSON :: "jsval \<Rightarrow> jsval checked" where
  "queryJSON input =
     (case visit input 0 \<lparr>jb_remaining = 4096, jb_text = 65536\<rparr> of Inl e \<Rightarrow> Inl e | Inr (v, _) \<Rightarrow> Inr v)"

section \<open>Selectors\<close>

definition container_kind_name :: "container_kind \<Rightarrow> string" where
  "container_kind_name k = (case k of C_show \<Rightarrow> ''show'' | C_season \<Rightarrow> ''season'' | C_album \<Rightarrow> ''album''
     | C_artist \<Rightarrow> ''artist'' | C_book \<Rightarrow> ''book'' | C_collection \<Rightarrow> ''collection''
     | C_playlist \<Rightarrow> ''playlist'' | C_library \<Rightarrow> ''library'')"

definition container_kind_of :: "jsval \<Rightarrow> container_kind option" where
  "container_kind_of v = find (\<lambda>k. v = JStr (container_kind_name k))
     [C_show, C_season, C_album, C_artist, C_book, C_collection, C_playlist, C_library]"

definition valid_sort_key :: "jsval \<Rightarrow> bool" where
  "valid_sort_key v \<longleftrightarrow> is_record v \<and> catalogueID (at_key v ''field'')
     \<and> (at_key v ''direction'' = JStr ''asc'' \<or> at_key v ''direction'' = JStr ''desc'')
     \<and> only_keys (obj_of v) [''field'', ''direction'']"

definition sort_key_of :: "jsval \<Rightarrow> sort_key" where
  "sort_key_of v = \<lparr>so_field = str_of (at_key v ''field''),
     so_direction = (if at_key v ''direction'' = JStr ''asc'' then Asc else Desc)\<rparr>"

definition checkedSelector :: "jsval \<Rightarrow> whole_selector checked" where
  "checkedSelector input =
     and_then (require Invalid_query (is_record input \<and> length (obj_of input) = 1)) (\<lambda>_.
     if has_key input ''query'' then
       (let query = at_key input ''query''; sort = at_key query ''sort''
        in and_then (require Invalid_query (is_record query \<and> catalogueID (at_key query ''libraryId'')
             \<and> catalogueID (at_key query ''pivot'')
             \<and> only_keys (obj_of query) [''libraryId'', ''pivot'', ''filter'', ''sort'', ''selectionBasis'']
             \<and> (at_key query ''selectionBasis'' = JUndef \<or> validSelectionBasis (at_key query ''selectionBasis'')))) (\<lambda>_.
           and_then (require Invalid_query (sort = JUndef \<or> (is_array sort \<and> length (arr_of sort) \<le> 32
             \<and> list_all valid_sort_key (arr_of sort)))) (\<lambda>_.
           and_then (if at_key query ''filter'' = JUndef then Inr None
                     else and_then (queryJSON (at_key query ''filter'')) (\<lambda>f. Inr (Some f))) (\<lambda>filter'.
           Inr (Sel_query (str_of (at_key query ''libraryId'')) (str_of (at_key query ''pivot''))
             (opt_of id str_of (at_key query ''selectionBasis'')) filter'
             (opt_of (map sort_key_of) arr_of sort))))))
     else
       and_then (require Invalid_query (has_key input ''container'')) (\<lambda>_.
       let container = at_key input ''container''
       in and_then (require Invalid_query (is_record container \<and> catalogueID (at_key container ''id'')
            \<and> container_kind_of (at_key container ''kind'') \<noteq> None
            \<and> only_keys (obj_of container) [''id'', ''kind''])) (\<lambda>_.
          Inr (Sel_container (the (container_kind_of (at_key container ''kind''))) (str_of (at_key container ''id''))))))"

section \<open>Queries\<close>

record rows_state =
  rs_kinds :: "content_kind list"
  rs_total :: int
  rs_libraryFacts :: int

definition safe_int :: "int \<Rightarrow> bool" where
  "safe_int n \<longleftrightarrow> \<bar>n\<bar> \<le> MAX_SAFE_INTEGER"

text \<open>One library fact: the libraries seen in this row, the running total and the facts so far.\<close>

definition library_fact :: "jsval \<Rightarrow> (string \<times> int) list \<times> int \<Rightarrow> ((string \<times> int) list \<times> int) checked" where
  "library_fact lib acc =
     and_then (require Invalid_query (is_record lib \<and> catalogueID (at_key lib ''libraryId'')
       \<and> str_of (at_key lib ''libraryId'') \<notin> set (map fst (fst acc))
       \<and> selectionCount (at_key lib ''count'') \<and> count_of (at_key lib ''count'') > 0)) (\<lambda>_.
     let n = count_of (at_key lib ''count'')
     in and_then (require Invalid_query (safe_int (snd acc + n))) (\<lambda>_.
        Inr (fst acc @ [(str_of (at_key lib ''libraryId''), n)], snd acc + n)))"

definition capability_count_ok :: "content_kind \<Rightarrow> int \<Rightarrow> jsval \<Rightarrow> capability \<Rightarrow> bool" where
  "capability_count_ok kind count counts n \<longleftrightarrow>
     (let offered = at_key counts (capability_name n)
      in selectionCount offered \<and> count_of offered \<le> count
         \<and> (selectionKindAllowsCapability (Entry kind) n \<or> count_of offered = 0))"

definition entry_kind_of :: "jsval \<Rightarrow> content_kind option" where
  "entry_kind_of v = (case kind_of_value v of Some (Entry k) \<Rightarrow> Some k | _ \<Rightarrow> None)"

definition query_row :: "jsval \<Rightarrow> query_type list \<times> rows_state \<Rightarrow> (query_type list \<times> rows_state) checked" where
  "query_row row acc =
     and_then (require Invalid_query (is_record row)) (\<lambda>_.
     let s = snd acc; count = count_of (at_key row ''count''); counts = at_key row ''capabilityCounts'';
         libs = arr_of (at_key row ''libraries'')
     in and_then (case entry_kind_of (at_key row ''kind'') of
          None \<Rightarrow> Inl Invalid_query
        | Some k \<Rightarrow> if k \<notin> set (rs_kinds s) \<and> selectionCount (at_key row ''count'') \<and> count > 0 then Inr k else Inl Invalid_query) (\<lambda>kind.
        and_then (require Invalid_query (safe_int (rs_total s + count))) (\<lambda>_.
        and_then (require Invalid_query (is_record counts \<and> is_array (at_key row ''libraries'') \<and> length libs \<le> 2048)) (\<lambda>_.
        and_then (require Invalid_query (list_all (capability_count_ok kind count counts) selectionCapabilityNames)) (\<lambda>_.
        and_then (require Invalid_query (rs_libraryFacts s + int (length libs) \<le> 2048)) (\<lambda>_.
        and_then (fold_result library_fact libs ([], 0)) (\<lambda>(facts, libraryTotal).
        and_then (require Invalid_query (libraryTotal = count)) (\<lambda>_.
        Inr (fst acc @ [\<lparr>qt_kind = kind, qt_count = count,
               qt_capabilityCounts = (\<lambda>n. count_of (at_key counts (capability_name n))), qt_libraries = facts\<rparr>],
             \<lparr>rs_kinds = set_add kind (rs_kinds s), rs_total = rs_total s + count,
              rs_libraryFacts = rs_libraryFacts s + int (length libs)\<rparr>)))))))))"

definition library_of_value :: "jsval \<Rightarrow> selection_library option" where
  "library_of_value v =
     (if at_key v ''kind'' = JStr ''none'' then Some No_library
      else if at_key v ''kind'' = JStr ''single'' then
        (if catalogueID (at_key v ''libraryId'') then Some (Single_library (str_of (at_key v ''libraryId''))) else None)
      else if at_key v ''kind'' = JStr ''multiple'' then Some Multiple_libraries
      else if at_key v ''kind'' = JStr ''unknown'' then Some Unknown_library
      else None)"

text \<open>The library a selector is confined to.\<close>

definition selector_library :: "whole_selector \<Rightarrow> string option" where
  "selector_library s = (case s of
      Sel_query l _ _ _ _ \<Rightarrow> if l = ''*'' then None else Some l
    | Sel_container k i \<Rightarrow> if k = C_library then Some i else None)"

definition unavailable_of :: "jsval \<Rightarrow> unavailable_actions" where
  "unavailable_of v = map (\<lambda>(k, _). if k = ''play'' then Una_play else if k = ''queue'' then Una_queue
     else if k = ''playlist'' then Una_playlist else if k = ''delete'' then Una_delete else Una_metadataPreview) (obj_of v)"

definition validateQuery :: "jsval \<Rightarrow> string \<Rightarrow> selection_query checked" where
  "validateQuery input expected =
     and_then (require Invalid_query (is_record input \<and> catalogueID (at_key input ''id'') \<and> selectionCount (at_key input ''total'')
       \<and> at_key input ''catalogRevision'' = JStr expected \<and> is_record (at_key input ''summary''))) (\<lambda>_.
     and_then (checkedSelector (at_key input ''selector'')) (\<lambda>selector.
     let summary = at_key input ''summary''; total = count_of (at_key input ''total'');
         rows = arr_of (at_key summary ''types''); every = at_key summary ''every'';
         unavailable = at_key summary ''unavailableActions''
     in and_then (require Invalid_query (is_array (at_key summary ''types'') \<and> length rows \<le> length selectionKinds
          \<and> is_record every \<and> list_all (\<lambda>n. \<exists>b \<in> set [True, False]. at_key every (capability_name n) = JBool b) selectionCapabilityNames
          \<and> is_record (at_key summary ''library''))) (\<lambda>_.
        and_then (require Invalid_query (unavailable = JUndef \<or> validSelectionUnavailableActions unavailable)) (\<lambda>_.
        and_then (fold_result query_row rows ([], \<lparr>rs_kinds = [], rs_total = 0, rs_libraryFacts = 0\<rparr>)) (\<lambda>(types, s).
        and_then (require Invalid_query (rs_total s = total)) (\<lambda>_.
        and_then (case library_of_value (at_key summary ''library'') of
            None \<Rightarrow> Inl Invalid_query
          | Some l \<Rightarrow> if (if total = 0 then l = No_library else l \<noteq> No_library) then Inr l else Inl Invalid_query) (\<lambda>library.
        and_then (require Invalid_query (total = 0 \<or> selector_library selector = None
          \<or> library = Single_library (the (selector_library selector)))) (\<lambda>_.
        let facts = summarizeQuerySelection types None [] None
        in and_then (require Invalid_query (sm_library facts = library
             \<and> list_all (\<lambda>n. at_key every (capability_name n) = JBool (sm_every facts n)) selectionCapabilityNames)) (\<lambda>_.
           Inr \<lparr>q_id = str_of (at_key input ''id''), q_selector = selector, q_total = total,
                q_catalogRevision = str_of (at_key input ''catalogRevision''),
                q_summary = \<lparr>qf_types = types, qf_library = sm_library facts, qf_every = sm_every facts,
                  qf_unavailable = opt_of unavailable_of id unavailable\<rparr>\<rparr>)))))))))"

definition checkedQuery :: "jsval \<Rightarrow> selection_context \<Rightarrow> selection_query checked" where
  "checkedQuery input context' = validateQuery input (cx_catalogRevision context')"

text \<open>
  The Browse context was checked when it was made (\<open>checkedBrowseContext\<close>), so the first
  requirement of \<open>checkedBrowseQuery\<close> reads a page revision that is a string.
\<close>

definition checkedBrowseQuery :: "jsval \<Rightarrow> browse_context \<Rightarrow> selection_query checked" where
  "checkedBrowseQuery input context' =
     and_then (require Invalid_query (selectionID (JStr (bx_pageRevision context')))) (\<lambda>_.
     validateQuery input (bx_pageRevision context'))"

end
