(* ===== verification/Selection_Model.thy ===== *)
theory Selection_Model
  imports Selection_Validation "HOL-Library.List_Lexorder" "HOL-Library.Product_Lexorder"
begin

text \<open>
  The selection model itself (\<open>packages/client-core/src/selection-model/model.ts\<close>). The class's
  fields are the record \<open>selection_model\<close>, the context policy is a parameter, and every method is a
  function on the state. A throwing method returns \<open>Inl\<close> together with the state it leaves. Object
  identity (tickets, operations, registrations) is a fresh number taken from \<open>m_nextRef\<close>; the
  listeners are names, and \<open>m_calls\<close> records the calls \<open>publish\<close> makes.
\<close>

section \<open>State\<close>

record position =
  pos_sectionId :: string
  pos_sectionOrder :: int
  pos_index :: int

record pick =
  pk_entry :: selected_item
  pk_position :: position

record registered_window =
  rw_ref :: nat
  rw_value :: selection_window
  rw_items :: "selected_item list"

record registry_section =
  sec_order :: int
  sec_queryId :: "string option"
  sec_positions :: "(int, selected_item) js_map"

record registry =
  rg_sections :: "(string, registry_section) js_map"
  rg_items :: "(string, selected_item) js_map"
  rg_positions :: "(string, position) js_map"
  rg_queryMembers :: "(string, string list) js_map"
  rg_itemCount :: int

record 'c selection_policy =
  pol_check :: "jsval \<Rightarrow> 'c checked"
  pol_key :: "'c \<Rightarrow> selection_identity \<Rightarrow> string"
  pol_query :: "jsval \<Rightarrow> 'c \<Rightarrow> selection_query checked"

record 'c selection_model =
  m_context :: 'c
  m_limits :: selection_limits
  m_windows :: "(string, registered_window) js_map"
  m_queries :: "(string, nat \<times> selection_query) js_map"
  m_registry :: registry
  m_chosen :: "(string, pick) js_map"
  m_whole :: "selection_query option"
  m_wholeKind :: "selection_kind option"
  m_excluded :: "(string, selected_item) js_map"
  m_anchor :: "(string \<times> position) option"
  m_lastSectionId :: "string option"
  m_disposed :: bool
  m_version :: nat
  m_readGeneration :: nat
  m_operationGeneration :: nat
  m_readTickets :: "(nat, nat) js_map"
  m_operations :: "(nat, nat) js_map"
  m_listeners :: "nat list"
  m_snapshot :: "'c selection_snapshot option"
  m_nextRef :: nat
  m_calls :: "nat list"

definition comparePosition :: "position \<Rightarrow> position \<Rightarrow> int" where
  "comparePosition a b =
     (if pos_sectionOrder a - pos_sectionOrder b \<noteq> 0 then pos_sectionOrder a - pos_sectionOrder b
      else if pos_sectionId a < pos_sectionId b then - 1
      else if pos_sectionId a > pos_sectionId b then 1
      else pos_index a - pos_index b)"

text \<open>The sort key of that order; \<open>Array.sort\<close> is stable, as \<open>sort_key\<close> is.\<close>

definition position_key :: "position \<Rightarrow> int \<times> string \<times> int" where
  "position_key p = (pos_sectionOrder p, pos_sectionId p, pos_index p)"

definition emptyRegistry :: registry where
  "emptyRegistry = \<lparr>rg_sections = [], rg_items = [], rg_positions = [], rg_queryMembers = [], rg_itemCount = 0\<rparr>"

section \<open>The registry\<close>

text \<open>One loaded entry at one position of its section.\<close>

definition register_entry ::
    "selection_window \<Rightarrow> int \<times> selected_item \<Rightarrow> registry \<Rightarrow> registry checked" where
  "register_entry value e r =
     (let index = fst e; entry = snd e; key = se_key entry
      in case map_get (rg_sections r) (w_sectionId value) of
           None \<Rightarrow> Inl Type_error
         | Some sec \<Rightarrow>
             and_then (require Conflicting_windows (case map_get (sec_positions sec) index of
                 None \<Rightarrow> True | Some occupant \<Rightarrow> se_key occupant = key)) (\<lambda>_.
             and_then (require Conflicting_windows (case map_get (rg_items r) key of
                 None \<Rightarrow> True | Some duplicate \<Rightarrow> se_item duplicate = se_item entry)) (\<lambda>_.
             let position = \<lparr>pos_sectionId = w_sectionId value, pos_sectionOrder = w_sectionOrder value, pos_index = index\<rparr>
             in Inr (r\<lparr>
                 rg_sections := map_set (w_sectionId value) (sec\<lparr>sec_positions := map_set index entry (sec_positions sec)\<rparr>) (rg_sections r),
                 rg_items := map_set key entry (rg_items r),
                 rg_positions := (case map_get (rg_positions r) key of
                     None \<Rightarrow> map_set key position (rg_positions r)
                   | Some first \<Rightarrow> if comparePosition position first < 0 then map_set key position (rg_positions r) else rg_positions r),
                 rg_queryMembers := (case w_queryId value of
                     None \<Rightarrow> rg_queryMembers r
                   | Some q \<Rightarrow> map_set q (set_add key (case map_get (rg_queryMembers r) q of None \<Rightarrow> [] | Some ms \<Rightarrow> ms))
                       (rg_queryMembers r))\<rparr>))))"

definition indexed :: "int \<Rightarrow> 'a list \<Rightarrow> (int \<times> 'a) list" where
  "indexed start xs = map (\<lambda>(i, x). (start + int i, x)) (List.enumerate 0 xs)"

definition register_window :: "selection_limits \<Rightarrow> registered_window \<Rightarrow> registry \<Rightarrow> registry checked" where
  "register_window limits w r0 =
     (let value = rw_value w; r1 = r0\<lparr>rg_itemCount := rg_itemCount r0 + int (length (rw_items w))\<rparr>
      in and_then (require Registration_limit (rg_itemCount r1 \<le> li_maxRegisteredItems limits)) (\<lambda>_.
         let r2 = (case map_get (rg_sections r1) (w_sectionId value) of
               None \<Rightarrow> r1\<lparr>rg_sections := map_set (w_sectionId value)
                         \<lparr>sec_order = w_sectionOrder value, sec_queryId = w_queryId value, sec_positions = []\<rparr> (rg_sections r1)\<rparr>
             | Some _ \<Rightarrow> r1)
         in and_then (require Conflicting_windows (case map_get (rg_sections r2) (w_sectionId value) of
                None \<Rightarrow> False | Some sec \<Rightarrow> sec_order sec = w_sectionOrder value \<and> sec_queryId sec = w_queryId value)) (\<lambda>_.
            fold_result (register_entry value) (indexed (w_start value) (rw_items w)) r2)))"

definition buildRegistry :: "selection_limits \<Rightarrow> (string, registered_window) js_map \<Rightarrow> registry checked" where
  "buildRegistry limits windows = fold_result (register_window limits) (map_values windows) emptyRegistry"

section \<open>Query windows against query facts\<close>

definition known_entries :: "registry \<Rightarrow> string list \<Rightarrow> ((string, selected_item) js_map) checked" where
  "known_entries r keys =
     map_result (\<lambda>k. case map_get (rg_items r) k of None \<Rightarrow> Inl Type_error | Some e \<Rightarrow> Inr (k, e)) keys"

definition library_step :: "query_type \<Rightarrow> selection_item \<Rightarrow> (string, int) js_map \<Rightarrow> ((string, int) js_map) checked" where
  "library_step type item observed =
     (case it_identity item of
        Catalogue k l i \<Rightarrow>
          (let n = count_at observed l + 1
           in and_then (require Invalid_window (n \<le> count_at (fold (\<lambda>(l', c) m. map_set l' c m) (qt_libraries type) []) l)) (\<lambda>_.
              Inr (map_set l n observed)))
      | _ \<Rightarrow> Inl Invalid_window)"

definition validate_type :: "(string, selected_item) js_map \<Rightarrow> query_type \<Rightarrow> unit checked" where
  "validate_type known type =
     (let items = filter (\<lambda>i. it_kind i = Entry (qt_kind type)) (map se_item (map_values known))
      in and_then (require Invalid_window (int (length items) \<le> qt_count type)) (\<lambda>_.
         and_then (fold_result (library_step type) items []) (\<lambda>_.
         require Invalid_window (list_all (\<lambda>n.
            let offered = int (length (filter (\<lambda>i. it_capabilities i n) items))
            in offered \<le> qt_capabilityCounts type n
               \<and> int (length items) - offered \<le> qt_count type - qt_capabilityCounts type n) selectionCapabilityNames))))"

definition validate_query_members :: "'c selection_model \<Rightarrow> registry \<Rightarrow> string \<times> string list \<Rightarrow> unit checked" where
  "validate_query_members s r m =
     (case map_get (m_queries s) (fst m) of
        None \<Rightarrow> Inl Type_error
      | Some (_, query) \<Rightarrow>
          and_then (known_entries r (snd m)) (\<lambda>known0.
          let known = (if map_option q_id (m_whole s) = Some (fst m)
                then fold (\<lambda>(k, e) m. if map_has m k then m else map_set k e m) (m_excluded s) known0
                else known0)
          in and_then (require Invalid_window (int (length known) \<le> q_total query)) (\<lambda>_.
             and_then (require Invalid_window (list_all (\<lambda>e.
                 \<exists>row \<in> set (qf_types (q_summary query)). Entry (qt_kind row) = it_kind (se_item e)) (map_values known))) (\<lambda>_.
             and_then (map_result (validate_type known) (qf_types (q_summary query))) (\<lambda>_. Inr ())))))"

definition validateQueryWindows :: "'c selection_model \<Rightarrow> registry \<Rightarrow> unit checked" where
  "validateQueryWindows s r =
     and_then (map_result (validate_query_members s r) (rg_queryMembers r)) (\<lambda>_. Inr ())"

section \<open>Private steps\<close>

definition resetPicks :: "'c selection_model \<Rightarrow> 'c selection_model" where
  "resetPicks s = s\<lparr>m_chosen := [], m_whole := None, m_wholeKind := None, m_excluded := [],
     m_anchor := None, m_lastSectionId := None\<rparr>"

definition querySummary :: "'c selection_model \<Rightarrow> selection_query \<Rightarrow> selection_summary" where
  "querySummary s query = summarizeQuerySelection (qf_types (q_summary query)) (m_wholeKind s)
     (map_values (m_excluded s)) (qf_unavailable (q_summary query))"

definition isQueryMember :: "'c selection_model \<Rightarrow> string \<Rightarrow> string \<Rightarrow> bool" where
  "isQueryMember s windowId key \<longleftrightarrow>
     Option.bind (map_get (m_windows s) windowId) (\<lambda>w. w_queryId (rw_value w)) = map_option q_id (m_whole s)
     \<and> (case map_get (rg_items (m_registry s)) key of
          None \<Rightarrow> False
        | Some e \<Rightarrow> m_wholeKind s = None \<or> Some (it_kind (se_item e)) = m_wholeKind s)"

fun find_key_index :: "selected_item list \<Rightarrow> string \<Rightarrow> nat option" where
  "find_key_index [] key = None"
| "find_key_index (e # es) key = (if se_key e = key then Some 0 else map_option Suc (find_key_index es key))"

definition windowPosition :: "'c selection_model \<Rightarrow> string \<Rightarrow> string \<Rightarrow> position option" where
  "windowPosition s windowId key =
     (case map_get (m_windows s) windowId of
        None \<Rightarrow> None
      | Some w \<Rightarrow> (case find_key_index (rw_items w) key of
            None \<Rightarrow> None
          | Some offset \<Rightarrow> Some \<lparr>pos_sectionId = w_sectionId (rw_value w), pos_sectionOrder = w_sectionOrder (rw_value w),
              pos_index = w_start (rw_value w) + int offset\<rparr>))"

text \<open>Every key picked is a registered one (\<open>Selection_Invariant\<close>); an unregistered key is left alone.\<close>

definition addPick :: "string \<Rightarrow> position \<Rightarrow> 'c selection_model \<Rightarrow> 'c selection_model" where
  "addPick key position s =
     (if map_has (m_chosen s) key then s
      else case map_get (rg_items (m_registry s)) key of
        None \<Rightarrow> s
      | Some entry \<Rightarrow> s\<lparr>m_chosen := map_set key \<lparr>pk_entry = entry, pk_position = position\<rparr> (m_chosen s)\<rparr>)"

definition reconcile_pick :: "registry \<Rightarrow> string \<times> pick \<Rightarrow> string \<times> pick" where
  "reconcile_pick r kp =
     (case (map_get (rg_items r) (fst kp), map_get (rg_positions r) (fst kp)) of
        (Some loaded, Some position) \<Rightarrow>
          if se_item loaded \<noteq> se_item (pk_entry (snd kp)) \<or> comparePosition position (pk_position (snd kp)) \<noteq> 0
          then (fst kp, \<lparr>pk_entry = loaded, pk_position = position\<rparr>) else kp
      | _ \<Rightarrow> kp)"

definition reconcile_excluded :: "registry \<Rightarrow> string \<times> selected_item \<Rightarrow> string \<times> selected_item" where
  "reconcile_excluded r ke =
     (case map_get (rg_items r) (fst ke) of
        Some loaded \<Rightarrow> if se_item loaded \<noteq> se_item (snd ke) then (fst ke, loaded) else ke
      | None \<Rightarrow> ke)"

definition anchor_holds :: "registry \<Rightarrow> string \<times> position \<Rightarrow> bool" where
  "anchor_holds r a \<longleftrightarrow>
     (case map_get (rg_sections r) (pos_sectionId (snd a)) of
        None \<Rightarrow> False
      | Some sec \<Rightarrow> map_option se_key (map_get (sec_positions sec) (pos_index (snd a))) = Some (fst a))"

definition reconcilePicks :: "'c selection_model \<Rightarrow> 'c selection_model" where
  "reconcilePicks s =
     (let r = m_registry s;
          chosen = map (reconcile_pick r) (m_chosen s);
          excluded = map (reconcile_excluded r) (m_excluded s);
          changed = (chosen \<noteq> m_chosen s \<or> excluded \<noteq> m_excluded s)
      in s\<lparr>m_chosen := chosen, m_excluded := excluded,
           m_anchor := (case m_anchor s of None \<Rightarrow> None | Some a \<Rightarrow> if anchor_holds r a then Some a else None),
           m_operationGeneration := m_operationGeneration s + (if changed then 1 else 0)\<rparr>)"

definition dropQueryWindows :: "string \<Rightarrow> 'c selection_model \<Rightarrow> 'c selection_model \<times> unit checked" where
  "dropQueryWindows queryId s =
     (let windows = filter (\<lambda>(_, w). w_queryId (rw_value w) \<noteq> Some queryId) (m_windows s)
      in case buildRegistry (m_limits s) windows of
           Inl e \<Rightarrow> (s, Inl e)
         | Inr r \<Rightarrow> (reconcilePicks (s\<lparr>m_registry := r, m_windows := windows\<rparr>), Inr ()))"

section \<open>Snapshots\<close>

definition target_of :: "'c selection_model \<Rightarrow> selection_summary \<times> 'c selection_target option" where
  "target_of s =
     (case m_whole s of
        Some query \<Rightarrow>
          (let summary = querySummary s query
           in (summary, Some (Whole \<lparr>qg_context = m_context s, qg_queryId = q_id query, qg_selector = q_selector query,
                qg_total = sm_count summary, qg_sourceTotal = q_total query, qg_kind = m_wholeKind s,
                qg_excludedItems = map_values (m_excluded s), qg_summary = summary, qg_expected = q_catalogRevision query\<rparr>)))
      | None \<Rightarrow>
          (let picks = map_values (m_chosen s); items = map pk_entry picks;
               summary = summarizeSelection (map se_item items)
           in (summary, if length items > 0
                then Some (Explicit \<lparr>et_context = m_context s, et_items = items,
                       et_displayItems = map pk_entry (sort_key (\<lambda>p. position_key (pk_position p)) picks)\<rparr>)
                else None)))"

definition publish :: "'c selection_model \<Rightarrow> 'c selection_model" where
  "publish s =
     (let st = target_of s
      in s\<lparr>m_version := m_version s + 1,
           m_snapshot := Some \<lparr>sn_version = m_version s + 1, sn_context = m_context s, sn_active = (sm_count (fst st) > 0),
             sn_summary = fst st, sn_target = snd st, sn_selectedKeys = map_keys (m_chosen s),
             sn_lastSectionId = m_lastSectionId s, sn_windowCount = length (m_windows s),
             sn_itemCount = rg_itemCount (m_registry s)\<rparr>,
           m_calls := m_calls s @ m_listeners s\<rparr>)"

definition bump_operation :: "'c selection_model \<Rightarrow> 'c selection_model" where
  "bump_operation s = s\<lparr>m_operationGeneration := m_operationGeneration s + 1\<rparr>"

definition bump_read :: "'c selection_model \<Rightarrow> 'c selection_model" where
  "bump_read s = s\<lparr>m_readGeneration := m_readGeneration s + 1\<rparr>"

end
