(* ===== verification/Selection_Operations.thy ===== *)
theory Selection_Operations
  imports Selection_Model
begin

text \<open>
  The public methods of the selection model (\<open>model.ts\<close>), the two policies
  (\<open>SelectionModel\<close>, \<open>BrowseSelectionModel\<close>) and the transitions an embedding application can make.
\<close>

section \<open>Construction, listeners and tickets\<close>

definition new_model :: "'c selection_policy \<Rightarrow> jsval \<Rightarrow> (string \<times> jsval) list \<Rightarrow> 'c selection_model checked" where
  "new_model p context' limits =
     and_then (pol_check p context') (\<lambda>c.
     and_then (checkedLimits limits) (\<lambda>l.
     Inr (publish \<lparr>m_context = c, m_limits = l, m_windows = [], m_queries = [], m_registry = emptyRegistry,
       m_chosen = [], m_whole = None, m_wholeKind = None, m_excluded = [], m_anchor = None,
       m_lastSectionId = None, m_disposed = False, m_version = 0, m_readGeneration = 0,
       m_operationGeneration = 0, m_readTickets = [], m_operations = [], m_listeners = [],
       m_snapshot = None, m_nextRef = 0, m_calls = []\<rparr>)))"

definition sel_subscribe :: "nat \<Rightarrow> 'c selection_model \<Rightarrow> 'c selection_model" where
  "sel_subscribe l s = (if m_disposed s then s else s\<lparr>m_listeners := set_add l (m_listeners s)\<rparr>)"

definition sel_unsubscribe :: "nat \<Rightarrow> 'c selection_model \<Rightarrow> 'c selection_model" where
  "sel_unsubscribe l s = s\<lparr>m_listeners := set_del l (m_listeners s)\<rparr>"

definition captureContext :: "'c selection_model \<Rightarrow> 'c selection_model \<times> 'c read_ticket" where
  "captureContext s =
     (let ticket = \<lparr>tk_ref = m_nextRef s, tk_context = m_context s\<rparr>; s1 = s\<lparr>m_nextRef := m_nextRef s + 1\<rparr>
      in (if m_disposed s then s1
          else s1\<lparr>m_readTickets := map_set (tk_ref ticket) (m_readGeneration s) (m_readTickets s1)\<rparr>, ticket))"

definition isContextCurrent :: "'c read_ticket \<Rightarrow> 'c selection_model \<Rightarrow> bool" where
  "isContextCurrent ticket s \<longleftrightarrow> \<not> m_disposed s \<and> map_get (m_readTickets s) (tk_ref ticket) = Some (m_readGeneration s)"

definition setContext :: "'c selection_policy \<Rightarrow> jsval \<Rightarrow> 'c selection_model \<Rightarrow> 'c selection_model \<times> bool checked" where
  "setContext p input s =
     (if m_disposed s then (s, Inr False)
      else case pol_check p input of
        Inl e \<Rightarrow> (s, Inl e)
      | Inr c \<Rightarrow>
          if c = m_context s then (s, Inr False)
          else (publish (resetPicks (bump_operation (bump_read
                  (s\<lparr>m_context := c, m_windows := [], m_queries := [], m_registry := emptyRegistry\<rparr>)))), Inr True))"

section \<open>Registration\<close>

text \<open>Outcome of a registration: refused, or the identity its \<open>unregister\<close> closure holds.\<close>

type_synonym registration = "selection_failure + nat"

definition window_shape :: "jsval \<Rightarrow> bool" where
  "window_shape input \<longleftrightarrow> catalogueID (at_key input ''id'') \<and> catalogueID (at_key input ''sectionId'')
     \<and> selectionCount (at_key input ''sectionOrder'') \<and> selectionCount (at_key input ''start'')
     \<and> (at_key input ''queryId'' = JUndef \<or> catalogueID (at_key input ''queryId''))
     \<and> is_array (at_key input ''items'')"

definition checked_window :: "'c selection_policy \<Rightarrow> jsval \<Rightarrow> 'c selection_model \<Rightarrow> (selection_window \<times> selected_item list) checked" where
  "checked_window p input s =
     (let items = arr_of (at_key input ''items''); start = count_of (at_key input ''start'');
          queryId = opt_of id str_of (at_key input ''queryId'')
      in and_then (require Invalid_window (window_shape input)) (\<lambda>_.
         and_then (require Registration_limit (int (length items) \<le> li_maxWindowItems (m_limits s))) (\<lambda>_.
         and_then (require Invalid_window (safe_int (start + int (length items)))) (\<lambda>_.
         and_then (require Invalid_window (case queryId of None \<Rightarrow> True | Some q \<Rightarrow> map_has (m_queries s) q)) (\<lambda>_.
         and_then (map_result (\<lambda>item. and_then (checkedItem item) (\<lambda>v.
             Inr \<lparr>se_key = pol_key p (m_context s) (it_identity v), se_item = v\<rparr>)) items) (\<lambda>entries.
         Inr (\<lparr>w_id = str_of (at_key input ''id''), w_sectionId = str_of (at_key input ''sectionId''),
               w_sectionOrder = count_of (at_key input ''sectionOrder''), w_start = start, w_queryId = queryId,
               w_items = map se_item entries\<rparr>, entries)))))))"

definition registerWindow ::
    "'c selection_policy \<Rightarrow> 'c read_ticket \<Rightarrow> jsval \<Rightarrow> 'c selection_model \<Rightarrow> 'c selection_model \<times> registration checked" where
  "registerWindow p ticket input s =
     (if m_disposed s then (s, Inr (Inl Disposed))
      else if \<not> isContextCurrent ticket s then (s, Inr (Inl Stale_context))
      else case checked_window p input s of
        Inl e \<Rightarrow> (s, Inl e)
      | Inr (value, items) \<Rightarrow>
          (let ref = m_nextRef s; registration = \<lparr>rw_ref = ref, rw_value = value, rw_items = items\<rparr>;
               windows = map_set (w_id value) registration (m_windows s)
           in if \<not> int (length windows) \<le> li_maxWindows (m_limits s) then (s, Inl Registration_limit)
              else case buildRegistry (m_limits s) windows of
                Inl e \<Rightarrow> (s, Inl e)
              | Inr r \<Rightarrow>
                  (case validateQueryWindows s r of
                     Inl e \<Rightarrow> (s, Inl e)
                   | Inr _ \<Rightarrow> (publish (reconcilePicks (s\<lparr>m_windows := windows, m_registry := r, m_nextRef := ref + 1\<rparr>)),
                               Inr (Inr ref)))))"

definition unregisterWindow :: "string \<Rightarrow> nat \<Rightarrow> 'c selection_model \<Rightarrow> 'c selection_model \<times> unit checked" where
  "unregisterWindow windowId ref s =
     (if m_disposed s \<or> map_option rw_ref (map_get (m_windows s) windowId) \<noteq> Some ref then (s, Inr ())
      else (let remaining = map_del windowId (m_windows s)
            in case buildRegistry (m_limits s) remaining of
                 Inl e \<Rightarrow> (s, Inl e)
               | Inr r \<Rightarrow> (publish (reconcilePicks (s\<lparr>m_registry := r, m_windows := remaining\<rparr>)), Inr ())))"

definition replace_whole :: "selection_query option \<Rightarrow> selection_query \<Rightarrow> 'c selection_model \<Rightarrow> 'c selection_model" where
  "replace_whole old query s =
     (if map_option q_id (m_whole s) = Some (q_id query)
      then (if old \<noteq> Some query then bump_operation (resetPicks s) else s\<lparr>m_whole := Some query\<rparr>)
      else s)"

definition registerQuery ::
    "'c selection_policy \<Rightarrow> 'c read_ticket \<Rightarrow> jsval \<Rightarrow> 'c selection_model \<Rightarrow> 'c selection_model \<times> registration checked" where
  "registerQuery p ticket input s =
     (if m_disposed s then (s, Inr (Inl Disposed))
      else if \<not> isContextCurrent ticket s then (s, Inr (Inl Stale_context))
      else case pol_query p input (m_context s) of
        Inl e \<Rightarrow> (s, Inl e)
      | Inr query \<Rightarrow>
          if \<not> (map_has (m_queries s) (q_id query) \<or> int (length (m_queries s)) < li_maxQueries (m_limits s))
          then (s, Inl Registration_limit)
          else (let old = map_option snd (map_get (m_queries s) (q_id query));
                    dropped = (if old \<noteq> None \<and> old \<noteq> Some query then dropQueryWindows (q_id query) s else (s, Inr ()))
                in case snd dropped of
                     Inl e \<Rightarrow> (fst dropped, Inl e)
                   | Inr _ \<Rightarrow>
                       (let s1 = (if old \<noteq> None \<and> old \<noteq> Some query then bump_read (fst dropped) else fst dropped);
                            s2 = replace_whole old query s1; ref = m_nextRef s2
                        in (publish (s2\<lparr>m_queries := map_set (q_id query) (ref, query) (m_queries s2), m_nextRef := ref + 1\<rparr>),
                            Inr (Inr ref)))))"

definition unregisterQuery :: "string \<Rightarrow> nat \<Rightarrow> 'c selection_model \<Rightarrow> 'c selection_model \<times> unit checked" where
  "unregisterQuery queryId ref s =
     (if m_disposed s \<or> map_option fst (map_get (m_queries s) queryId) \<noteq> Some ref then (s, Inr ())
      else (let dropped = dropQueryWindows queryId (s\<lparr>m_queries := map_del queryId (m_queries s)\<rparr>)
            in case snd dropped of
                 Inl e \<Rightarrow> (fst dropped, Inl e)
               | Inr _ \<Rightarrow>
                   (let s1 = bump_read (fst dropped);
                        s2 = (if map_option q_id (m_whole s1) = Some queryId then bump_operation (resetPicks s1) else s1)
                    in (publish s2, Inr ()))))"

definition getQuery :: "string \<Rightarrow> 'c selection_model \<Rightarrow> selection_query option" where
  "getQuery queryId s = map_option snd (map_get (m_queries s) queryId)"

section \<open>Reading the selection\<close>

definition registered_kind :: "'c selection_model \<Rightarrow> string \<Rightarrow> selection_kind option" where
  "registered_kind s key = map_option (\<lambda>e. it_kind (se_item e)) (map_get (rg_items (m_registry s)) key)"

definition query_has :: "'c selection_model \<Rightarrow> string \<Rightarrow> string \<Rightarrow> bool" where
  "query_has s queryId key \<longleftrightarrow> (case map_get (rg_queryMembers (m_registry s)) queryId of
     None \<Rightarrow> False | Some ms \<Rightarrow> key \<in> set ms)"

definition isSelected :: "string \<Rightarrow> 'c selection_model \<Rightarrow> bool" where
  "isSelected key s =
     (if m_disposed s then False
      else case m_whole s of
        None \<Rightarrow> map_has (m_chosen s) key
      | Some query \<Rightarrow> query_has s (q_id query) key
          \<and> (m_wholeKind s = None \<or> registered_kind s key = m_wholeKind s) \<and> \<not> map_has (m_excluded s) key)"

definition js_distinct :: "'a list \<Rightarrow> 'a list" where
  "js_distinct xs = fold set_add xs []"

definition previewRange :: "string \<Rightarrow> string \<Rightarrow> 'c selection_model \<Rightarrow> selection_range" where
  "previewRange windowId key s =
     (if m_disposed s then Inl Disposed
      else case windowPosition s windowId key of
        None \<Rightarrow> Inl Unregistered
      | Some target \<Rightarrow>
          if m_whole s \<noteq> None \<and> \<not> isQueryMember s windowId key then Inl Not_query_member
          else (case m_anchor s of
            None \<Rightarrow> Inl No_anchor
          | Some (anchorKey, anchorPosition) \<Rightarrow>
              if pos_sectionId anchorPosition \<noteq> pos_sectionId target then Inl Different_section
              else (case map_get (rg_sections (m_registry s)) (pos_sectionId target) of
                None \<Rightarrow> Inl No_anchor
              | Some sec \<Rightarrow>
                  if map_option se_key (map_get (sec_positions sec) (pos_index anchorPosition)) \<noteq> Some anchorKey
                  then Inl No_anchor
                  else (let low = min (pos_index anchorPosition) (pos_index target);
                            high = max (pos_index anchorPosition) (pos_index target);
                            len = high - low + 1;
                            range = sort_key fst (filter (\<lambda>(i, _). i \<ge> low \<and> i \<le> high) (sec_positions sec));
                            keys = js_distinct (map (\<lambda>(_, e). se_key e) range)
                        in if len > int (length (sec_positions sec)) then Inl Range_not_loaded
                           else if int (length range) \<noteq> len then Inl Range_not_loaded
                           else (case m_whole s of
                             None \<Rightarrow> Inr keys
                           | Some query \<Rightarrow>
                               if list_ex (\<lambda>k. \<not> query_has s (q_id query) k
                                    \<or> (m_wholeKind s \<noteq> None \<and> registered_kind s k \<noteq> m_wholeKind s)) keys
                               then Inl Not_query_member else Inr keys)))))"

section \<open>Changing the selection\<close>

definition set_anchor :: "string \<Rightarrow> position \<Rightarrow> 'c selection_model \<Rightarrow> 'c selection_model" where
  "set_anchor key position s = s\<lparr>m_anchor := Some (key, position)\<rparr>"

text \<open>The end of \<open>toggle\<close>: an empty selection is no selection.\<close>

definition query_empty :: "'c selection_model \<Rightarrow> bool" where
  "query_empty s \<longleftrightarrow> (case m_whole s of None \<Rightarrow> False | Some query \<Rightarrow> sm_count (querySummary s query) = 0)"

definition finish_whole :: "position \<Rightarrow> 'c selection_model \<Rightarrow> 'c selection_model" where
  "finish_whole position s =
     (let s1 = s\<lparr>m_lastSectionId := Some (pos_sectionId position)\<rparr>
      in publish (bump_operation (if query_empty s1 then resetPicks s1 else s1)))"

definition finish_explicit :: "position \<Rightarrow> 'c selection_model \<Rightarrow> 'c selection_model" where
  "finish_explicit position s =
     (let s1 = s\<lparr>m_lastSectionId := Some (pos_sectionId position)\<rparr>
      in publish (bump_operation (if m_chosen s1 = [] then resetPicks s1 else s1)))"

definition pick_registered :: "string \<Rightarrow> 'c selection_model \<Rightarrow> 'c selection_model" where
  "pick_registered key s = (case map_get (rg_positions (m_registry s)) key of None \<Rightarrow> s | Some position \<Rightarrow> addPick key position s)"

definition toggle :: "string \<Rightarrow> string \<Rightarrow> bool \<Rightarrow> 'c selection_model \<Rightarrow> 'c selection_model \<times> selection_change" where
  "toggle windowId key ranged s =
     (if m_disposed s then (s, Inl Disposed)
      else case windowPosition s windowId key of
        None \<Rightarrow> (s, Inl Unregistered)
      | Some position \<Rightarrow>
          if m_whole s \<noteq> None then
            (if \<not> isQueryMember s windowId key then (s, Inl Not_query_member)
             else if ranged \<and> m_anchor s \<noteq> None then
               (case previewRange windowId key s of
                  Inl f \<Rightarrow> (s, Inl f)
                | Inr keys \<Rightarrow> (finish_whole position (s\<lparr>m_excluded := fold map_del keys (m_excluded s)\<rparr>), Inr ()))
             else if map_has (m_excluded s) key then
               (finish_whole position (set_anchor key position (s\<lparr>m_excluded := map_del key (m_excluded s)\<rparr>)), Inr ())
             else if int (length (m_excluded s)) \<ge> li_maxQueryExclusions (m_limits s) then (s, Inl Exclusion_limit)
             else (case map_get (rg_items (m_registry s)) key of
                None \<Rightarrow> (s, Inl Not_query_member)
              | Some entry \<Rightarrow>
                  (finish_whole position (set_anchor key position (s\<lparr>m_excluded := map_set key entry (m_excluded s)\<rparr>)), Inr ())))
          else if ranged \<and> m_anchor s \<noteq> None then
            (case previewRange windowId key s of
               Inl f \<Rightarrow> (s, Inl f)
             | Inr keys \<Rightarrow> (finish_explicit position (fold pick_registered keys s), Inr ()))
          else (finish_explicit position (set_anchor key position
                  (if map_has (m_chosen s) key then s\<lparr>m_chosen := map_del key (m_chosen s)\<rparr>
                   else addPick key position s)), Inr ()))"

definition pick_section :: "string \<times> registry_section \<Rightarrow> 'c selection_model \<Rightarrow> 'c selection_model" where
  "pick_section sec s = fold (\<lambda>(index, entry). addPick (se_key entry)
      \<lparr>pos_sectionId = fst sec, pos_sectionOrder = sec_order (snd sec), pos_index = index\<rparr>)
     (sort_key fst (sec_positions (snd sec))) s"

definition selectLoaded :: "string option \<Rightarrow> 'c selection_model \<Rightarrow> 'c selection_model \<times> selection_change" where
  "selectLoaded sectionId s =
     (if m_disposed s then (s, Inl Disposed)
      else if sectionId \<noteq> None \<and> \<not> map_has (rg_sections (m_registry s)) (the sectionId) then (s, Inl Unregistered)
      else (let s1 = (if m_whole s \<noteq> None then resetPicks s else s);
                sections = sort_key (\<lambda>(i, sec). (sec_order sec, i))
                  (filter (\<lambda>(i, _). sectionId = None \<or> sectionId = Some i) (rg_sections (m_registry s1)));
                s2 = fold pick_section sections s1;
                s3 = (if sectionId \<noteq> None then s2\<lparr>m_lastSectionId := sectionId\<rparr> else s2)
            in (publish (bump_operation s3), Inr ())))"

definition selectRow :: "'c selection_model \<Rightarrow> 'c selection_model \<times> selection_change" where
  "selectRow s =
     (if m_disposed s then (s, Inl Disposed)
      else case m_lastSectionId s of None \<Rightarrow> (s, Inl Unregistered) | Some sectionId \<Rightarrow> selectLoaded (Some sectionId) s)"

definition selectWholeQuery :: "string \<Rightarrow> 'c selection_model \<Rightarrow> 'c selection_model \<times> selection_change" where
  "selectWholeQuery queryId s =
     (if m_disposed s then (s, Inl Disposed)
      else case map_get (m_queries s) queryId of
        None \<Rightarrow> (s, Inl Unknown_query)
      | Some (_, query) \<Rightarrow>
          (let s1 = resetPicks s
           in (publish (bump_operation (if q_total query > 0 then s1\<lparr>m_whole := Some query\<rparr> else s1)), Inr ())))"

definition keep_whole :: "selection_kind \<Rightarrow> selection_query \<Rightarrow> 'c selection_model \<Rightarrow> 'c selection_model" where
  "keep_whole kind query s =
     (if m_wholeKind s \<noteq> None \<or> \<not> (\<exists>t \<in> set (qf_types (q_summary query)). Entry (qt_kind t) = kind) then resetPicks s
      else (let s1 = s\<lparr>m_wholeKind := (if length (qf_types (q_summary query)) > 1 then Some kind else m_wholeKind s),
                      m_excluded := filter (\<lambda>(_, e). it_kind (se_item e) = kind) (m_excluded s), m_anchor := None\<rparr>
            in if query_empty s1 then resetPicks s1 else s1))"

definition keep_explicit :: "selection_kind \<Rightarrow> 'c selection_model \<Rightarrow> 'c selection_model" where
  "keep_explicit kind s =
     (let chosen = filter (\<lambda>(_, p). it_kind (se_item (pk_entry p)) = kind) (m_chosen s);
          s1 = s\<lparr>m_chosen := chosen,
                 m_anchor := (case m_anchor s of None \<Rightarrow> None | Some a \<Rightarrow> if map_has chosen (fst a) then Some a else None)\<rparr>
      in if chosen = [] then resetPicks s1 else s1)"

definition keepOnly :: "selection_kind \<Rightarrow> 'c selection_model \<Rightarrow> 'c selection_model \<times> selection_change" where
  "keepOnly kind s =
     (if m_disposed s then (s, Inl Disposed)
      else case m_whole s of
        Some query \<Rightarrow>
          if m_wholeKind s = Some kind then (s, Inr ())
          else (publish (bump_operation (keep_whole kind query s)), Inr ())
      | None \<Rightarrow> (publish (bump_operation (keep_explicit kind s)), Inr ()))"

definition clear :: "'c selection_model \<Rightarrow> 'c selection_model" where
  "clear s = (if m_disposed s then s else publish (bump_operation (resetPicks s)))"

section \<open>Operations and disposal\<close>

definition captureOperation :: "'c selection_model \<Rightarrow> 'c selection_model \<times> 'c selection_operation option" where
  "captureOperation s =
     (case (m_disposed s, Option.bind (m_snapshot s) sn_target) of
        (False, Some target) \<Rightarrow>
          (s\<lparr>m_operations := map_set (m_nextRef s) (m_operationGeneration s) (m_operations s), m_nextRef := m_nextRef s + 1\<rparr>,
           Some \<lparr>op_ref = m_nextRef s, op_target = target\<rparr>)
      | _ \<Rightarrow> (s, None))"

definition isOperationCurrent :: "'c selection_operation \<Rightarrow> 'c selection_model \<Rightarrow> bool" where
  "isOperationCurrent operation s \<longleftrightarrow>
     \<not> m_disposed s \<and> map_get (m_operations s) (op_ref operation) = Some (m_operationGeneration s)"

definition cancelPending :: "'c selection_model \<Rightarrow> 'c selection_model" where
  "cancelPending s = (if m_disposed s then s else bump_operation (bump_read s))"

definition sel_dispose :: "'c selection_model \<Rightarrow> 'c selection_model" where
  "sel_dispose s =
     (if m_disposed s then s
      else (publish (resetPicks (bump_operation (bump_read
              (s\<lparr>m_disposed := True, m_windows := [], m_queries := [], m_registry := emptyRegistry\<rparr>)))))\<lparr>m_listeners := []\<rparr>)"

section \<open>The two models\<close>

definition catalogue_policy :: "selection_context selection_policy" where
  "catalogue_policy = \<lparr>pol_check = checkedContext, pol_key = (\<lambda>c. selectionKey (cx_scope c)), pol_query = checkedQuery\<rparr>"

definition browse_policy :: "browse_context selection_policy" where
  "browse_policy = \<lparr>pol_check = checkedBrowseContext, pol_key = (\<lambda>c. browseSelectionKey (bx_scope c)), pol_query = checkedBrowseQuery\<rparr>"

section \<open>Runs\<close>

text \<open>Every transition an embedding application can make; the arguments are arbitrary.\<close>

inductive model_step :: "'c selection_policy \<Rightarrow> 'c selection_model \<Rightarrow> 'c selection_model \<Rightarrow> bool"
  for p :: "'c selection_policy" where
  step_subscribe: "model_step p s (sel_subscribe l s)"
| step_unsubscribe: "model_step p s (sel_unsubscribe l s)"
| step_captureContext: "model_step p s (fst (captureContext s))"
| step_setContext: "model_step p s (fst (setContext p input s))"
| step_registerWindow: "model_step p s (fst (registerWindow p ticket input s))"
| step_unregisterWindow: "model_step p s (fst (unregisterWindow windowId ref s))"
| step_registerQuery: "model_step p s (fst (registerQuery p ticket input s))"
| step_unregisterQuery: "model_step p s (fst (unregisterQuery queryId ref s))"
| step_toggle: "model_step p s (fst (toggle windowId key ranged s))"
| step_selectLoaded: "model_step p s (fst (selectLoaded sectionId s))"
| step_selectRow: "model_step p s (fst (selectRow s))"
| step_selectWholeQuery: "model_step p s (fst (selectWholeQuery queryId s))"
| step_keepOnly: "model_step p s (fst (keepOnly kind s))"
| step_clear: "model_step p s (clear s)"
| step_captureOperation: "model_step p s (fst (captureOperation s))"
| step_cancelPending: "model_step p s (cancelPending s)"
| step_dispose: "model_step p s (sel_dispose s)"

inductive model_reachable :: "'c selection_policy \<Rightarrow> 'c selection_model \<Rightarrow> bool"
  for p :: "'c selection_policy" where
  reach_new: "new_model p context' limits = Inr s \<Longrightarrow> model_reachable p s"
| reach_step: "model_reachable p s \<Longrightarrow> model_step p s s' \<Longrightarrow> model_reachable p s'"

end
