(* ===== verification/Selection_Summary.thy ===== *)
theory Selection_Summary
  imports Selection_Validation "HOL-Library.Multiset"
begin

text \<open>
  What a summary says. \<open>reference_summary\<close> describes a list of items directly; the scan of explicit
  picks computes it, and the arithmetic on the facts of a query computes it for the members that
  are left, without ever listing them.
\<close>

section \<open>The reference\<close>

definition kind_count :: "selection_item list \<Rightarrow> selection_kind \<Rightarrow> int" where
  "kind_count items k = int (length (filter (\<lambda>i. it_kind i = k) items))"

definition libraries_of :: "selection_item list \<Rightarrow> string set" where
  "libraries_of items = {l. \<exists>i \<in> set items. library_of (it_identity i) = Some l}"

definition reference_library :: "selection_item list \<Rightarrow> selection_library \<Rightarrow> bool" where
  "reference_library items l \<longleftrightarrow>
     (case l of
        No_library \<Rightarrow> libraries_of items = {}
      | Unknown_library \<Rightarrow> libraries_of items \<noteq> {} \<and> (\<exists>i \<in> set items. library_of (it_identity i) = None)
      | Single_library x \<Rightarrow> libraries_of items = {x} \<and> (\<forall>i \<in> set items. library_of (it_identity i) \<noteq> None)
      | Multiple_libraries \<Rightarrow> (\<exists>x \<in> libraries_of items. \<exists>y \<in> libraries_of items. x \<noteq> y)
          \<and> (\<forall>i \<in> set items. library_of (it_identity i) \<noteq> None))"

definition reference_types :: "selection_item list \<Rightarrow> type_count list" where
  "reference_types items =
     map (\<lambda>k. \<lparr>tc_kind = k, tc_count = kind_count items k\<rparr>) (filter (\<lambda>k. kind_count items k > 0) selectionKinds)"

definition reference_every :: "selection_item list \<Rightarrow> capabilities" where
  "reference_every items = (\<lambda>n. items \<noteq> []
     \<and> (\<forall>i \<in> set items. it_capabilities i n \<and> selectionKindAllowsCapability (it_kind i) n))"

definition summary_describes :: "selection_summary \<Rightarrow> selection_item list \<Rightarrow> bool" where
  "summary_describes s items \<longleftrightarrow>
     sm_count s = int (length items) \<and> sm_types s = reference_types items
     \<and> reference_library items (sm_library s) \<and> sm_every s = reference_every items"

lemma kind_count_pos: "kind_count items k > 0 \<longleftrightarrow> (\<exists>i \<in> set items. it_kind i = k)"
  by (auto simp: kind_count_def filter_empty_conv)

lemma reference_library_unique:
  "reference_library items a \<Longrightarrow> reference_library items b \<Longrightarrow> a = b"
  by (cases a; cases b) (auto simp: reference_library_def)

section \<open>Explicit picks\<close>

lemma count_at_set [simp]: "count_at (map_set k n m) k' = (if k' = k then n else count_at m k')"
  by (simp add: count_at_def js_map_simps)

lemma scan_item_fields [simp]:
  "ss_types (scan_item i s) = map_set (it_kind i) (count_at (ss_types s) (it_kind i) + 1) (ss_types s)"
  "ss_every (scan_item i s) n \<longleftrightarrow> ss_every s n \<and> it_capabilities i n \<and> selectionKindAllowsCapability (it_kind i) n"
  "ss_unbound (scan_item i s) \<longleftrightarrow> ss_unbound s \<or> library_of (it_identity i) = None"
  "ss_library (scan_item i s) = (if ss_library s = None then library_of (it_identity i) else ss_library s)"
  "ss_multiple (scan_item i s) \<longleftrightarrow> ss_multiple s
     \<or> (ss_library s \<noteq> None \<and> library_of (it_identity i) \<noteq> None \<and> library_of (it_identity i) \<noteq> ss_library s)"
  by (cases "it_identity i"; simp add: scan_item_def Let_def split: option.split)+

lemma scan_types:
  "map_get (ss_types (fold scan_item items s)) k =
     (if kind_count items k > 0 then Some (count_at (ss_types s) k + kind_count items k) else map_get (ss_types s) k)"
  by (induction items arbitrary: s) (auto simp: kind_count_def js_map_simps count_at_def split: option.splits)

lemma scan_every:
  "ss_every (fold scan_item items s) n \<longleftrightarrow>
     ss_every s n \<and> (\<forall>i \<in> set items. it_capabilities i n \<and> selectionKindAllowsCapability (it_kind i) n)"
  by (induction items arbitrary: s) auto

lemma scan_unbound:
  "ss_unbound (fold scan_item items s) \<longleftrightarrow> ss_unbound s \<or> (\<exists>i \<in> set items. library_of (it_identity i) = None)"
  by (induction items arbitrary: s) auto

lemma scan_library_some: "ss_library s = Some l \<Longrightarrow> ss_library (fold scan_item items s) = Some l"
  by (induction items arbitrary: s) auto

lemma scan_library_none:
  "ss_library (fold scan_item items s) = None \<longleftrightarrow> ss_library s = None \<and> libraries_of items = {}"
proof (induction items arbitrary: s)
  case (Cons i items)
  then show ?case
    by (cases "library_of (it_identity i)") (auto simp: libraries_of_def)
qed (simp add: libraries_of_def)

lemma scan_library_in:
  "ss_library (fold scan_item items s) = Some l \<Longrightarrow> ss_library s = Some l \<or> l \<in> libraries_of items"
proof (induction items arbitrary: s)
  case (Cons i items)
  then show ?case
    by (cases "library_of (it_identity i)"; cases "ss_library s") (fastforce simp: libraries_of_def)+
qed simp

lemma scan_multiple:
  assumes "ss_library (fold scan_item items s) = Some l"
  shows "ss_multiple (fold scan_item items s) \<longleftrightarrow> ss_multiple s \<or> (\<exists>l' \<in> libraries_of items. l' \<noteq> l)"
  using assms
proof (induction items arbitrary: s)
  case Nil
  then show ?case by (simp add: libraries_of_def)
next
  case (Cons i items)
  have ih: "ss_multiple (fold scan_item items (scan_item i s)) \<longleftrightarrow>
      ss_multiple (scan_item i s) \<or> (\<exists>l' \<in> libraries_of items. l' \<noteq> l)"
    by (rule Cons.IH) (use Cons.prems in simp)
  have own: "ss_library s = Some l" if "ss_library s \<noteq> None"
    using that scan_library_some [of "scan_item i s" _ items] Cons.prems by auto
  have new: "library_of (it_identity i) = Some l" if "ss_library s = None" "library_of (it_identity i) \<noteq> None"
    using that scan_library_some [of "scan_item i s" _ items] Cons.prems by auto
  have libs: "libraries_of (i # items) = (case library_of (it_identity i) of None \<Rightarrow> {} | Some x \<Rightarrow> {x}) \<union> libraries_of items"
    by (auto simp: libraries_of_def split: option.splits)
  have here: "ss_multiple (scan_item i s) \<longleftrightarrow> ss_multiple s
      \<or> (library_of (it_identity i) \<noteq> None \<and> library_of (it_identity i) \<noteq> Some l)"
    using own new by (cases "ss_library s") auto
  show ?case
    using ih unfolding fold_simps libs here by (auto split: option.splits)
qed

lemma map_filter_positive:
  "List.map_filter (\<lambda>k. if P k then Some (f k) else None) ks = map f (filter P ks)"
  by (induction ks) (simp_all add: List.map_filter_def)

lemma type_counts_reference:
  assumes "\<And>k. map_get m k = (if kind_count items k > 0 then Some (kind_count items k) else None)"
  shows "type_counts m = reference_types items"
proof -
  have "type_counts m = List.map_filter
      (\<lambda>k. if kind_count items k > 0 then Some \<lparr>tc_kind = k, tc_count = kind_count items k\<rparr> else None) selectionKinds"
    unfolding type_counts_def by (rule arg_cong [where f = "\<lambda>f. List.map_filter f selectionKinds"]) (auto simp: assms)
  then show ?thesis by (simp add: map_filter_positive reference_types_def)
qed

lemma summary_of_picks: "summary_describes (summarizeSelection items) items"
proof -
  let ?s = "fold scan_item items (scan_start items)"
  have types: "type_counts (ss_types ?s) = reference_types items"
    by (rule type_counts_reference) (simp add: scan_types scan_start_def count_at_def)
  have every: "ss_every ?s = reference_every items"
    by (rule ext) (simp add: scan_every scan_start_def reference_every_def)
  have lib: "ss_library ?s = None \<longleftrightarrow> libraries_of items = {}"
    by (simp add: scan_library_none scan_start_def)
  have unb: "ss_unbound ?s \<longleftrightarrow> (\<exists>i \<in> set items. library_of (it_identity i) = None)"
    by (simp add: scan_unbound scan_start_def)
  have library: "reference_library items (sm_library (summarizeSelection items))"
  proof (cases "ss_library ?s")
    case None
    have "\<not> ss_multiple ?s"
    proof -
      have "ss_library s = None \<Longrightarrow> libraries_of xs = {} \<Longrightarrow> ss_multiple (fold scan_item xs s) = ss_multiple s" for xs s
      proof (induction xs arbitrary: s)
        case (Cons x xs)
        from Cons.prems(2) have "library_of (it_identity x) = None" "libraries_of xs = {}"
          by (cases "library_of (it_identity x)"; auto simp: libraries_of_def)+
        then show ?case using Cons.IH [of "scan_item x s"] Cons.prems(1) by simp
      qed simp
      then show ?thesis using None lib by (simp add: scan_start_def)
    qed
    then show ?thesis
      using None lib by (simp add: summarizeSelection_def Let_def reference_library_def)
  next
    case (Some l)
    have l: "l \<in> libraries_of items"
      using scan_library_in [OF Some] by (simp add: scan_start_def)
    have m: "ss_multiple ?s \<longleftrightarrow> (\<exists>l' \<in> libraries_of items. l' \<noteq> l)"
      using scan_multiple [OF Some] by (simp add: scan_start_def)
    have e: "sm_library (summarizeSelection items) =
        (if ss_unbound ?s then Unknown_library else if ss_multiple ?s then Multiple_libraries else Single_library l)"
      using Some by (simp add: summarizeSelection_def Let_def)
    consider "ss_unbound ?s" | "\<not> ss_unbound ?s" "ss_multiple ?s" | "\<not> ss_unbound ?s" "\<not> ss_multiple ?s"
      by blast
    then show ?thesis
    proof cases
      case 1
      then show ?thesis using e l unb by (simp add: reference_library_def) blast
    next
      case 2
      then show ?thesis using e l m unb by (simp add: reference_library_def) blast
    next
      case 3
      then have "libraries_of items = {l}" using l m by blast
      then show ?thesis using 3 e unb by (simp add: reference_library_def)
    qed
  qed
  show ?thesis
    using types every library by (simp add: summary_describes_def summarizeSelection_def Let_def)
qed

section \<open>Whole queries\<close>

text \<open>Counting in a multiset of items.\<close>

definition tally :: "(selection_item \<Rightarrow> bool) \<Rightarrow> selection_item multiset \<Rightarrow> int" where
  "tally P M = int (size (filter_mset P M))"

lemma tally_empty [simp]: "tally P {#} = 0"
  by (simp add: tally_def)

lemma tally_add [simp]: "tally P (add_mset i M) = tally P M + (if P i then 1 else 0)"
  by (simp add: tally_def)

lemma tally_mset: "tally P (mset xs) = int (length (filter P xs))"
  by (induction xs) simp_all

lemma tally_nonneg [simp]: "0 \<le> tally P M"
  by (simp add: tally_def)

lemma tally_zero: "tally P M = 0 \<longleftrightarrow> (\<forall>i \<in># M. \<not> P i)"
proof (induction M)
  case (add i M)
  then show ?case using tally_nonneg [of P M] by (auto simp del: tally_nonneg)
qed simp

lemma tally_all: "tally P M = int (size M) \<longleftrightarrow> (\<forall>i \<in># M. P i)"
proof (induction M)
  case (add i M)
  have "tally P M \<le> int (size M)" by (simp add: tally_def size_filter_mset_lesseq)
  then show ?case using add by auto
qed simp

lemma tally_filter: "tally P (filter_mset Q M) = tally (\<lambda>i. Q i \<and> P i) M"
  by (induction M) auto

abbreviation row_items :: "query_type list \<Rightarrow> selection_item \<Rightarrow> bool" where
  "row_items rows i \<equiv> it_kind i \<in> (\<lambda>r. Entry (qt_kind r)) ` set rows"

lemma tally_rows:
  assumes "distinct (map qt_kind rows)"
  shows "sum_list (map (\<lambda>r. tally (\<lambda>i. it_kind i = Entry (qt_kind r) \<and> P i) M) rows) = tally (\<lambda>i. row_items rows i \<and> P i) M"
  using assms
proof (induction rows)
  case (Cons r rows)
  have "tally (\<lambda>i. row_items (r # rows) i \<and> P i) M
      = tally (\<lambda>i. it_kind i = Entry (qt_kind r) \<and> P i) M + tally (\<lambda>i. row_items rows i \<and> P i) M"
    using Cons.prems by (induction M) auto
  then show ?case using Cons by simp
qed (simp add: tally_zero)

definition lib_total :: "(string \<times> int) list \<Rightarrow> string \<Rightarrow> int" where
  "lib_total libs l = sum_list (map (\<lambda>(l', n). if l' = l then n else 0) libs)"

text \<open>The rows of a query count the members of each kind, of each library and with each capability.\<close>

definition row_describes :: "selection_item multiset \<Rightarrow> query_type \<Rightarrow> bool" where
  "row_describes M row \<longleftrightarrow>
     qt_count row = tally (\<lambda>i. it_kind i = Entry (qt_kind row)) M
     \<and> (\<forall>n. qt_capabilityCounts row n = tally (\<lambda>i. it_kind i = Entry (qt_kind row) \<and> it_capabilities i n) M)
     \<and> (\<forall>l. lib_total (qt_libraries row) l
            = tally (\<lambda>i. it_kind i = Entry (qt_kind row) \<and> library_of (it_identity i) = Some l) M)"

definition facts_describe :: "query_type list \<Rightarrow> selection_item multiset \<Rightarrow> bool" where
  "facts_describe facts M \<longleftrightarrow> distinct (map qt_kind facts) \<and> (\<forall>row \<in> set facts. row_describes M row)
     \<and> (\<forall>i \<in># M. row_items facts i \<and> it_kind i \<in> set selectionKinds
         \<and> (\<forall>n. it_capabilities i n \<longrightarrow> selectionKindAllowsCapability (it_kind i) n))"

text \<open>What the scan's state stands for.\<close>

definition lib_value :: "(string, int option) js_map \<Rightarrow> string \<Rightarrow> int" where
  "lib_value m l = (case map_get m l of Some (Some t) \<Rightarrow> t | _ \<Rightarrow> 0)"

definition scan_represents :: "query_scan \<Rightarrow> selection_kind set \<Rightarrow> selection_item multiset \<Rightarrow> bool" where
  "scan_represents s K M \<longleftrightarrow>
     (\<forall>k. map_has (qs_types s) k \<longleftrightarrow> k \<in> K) \<and> (\<forall>i \<in># M. it_kind i \<in> K)
     \<and> (\<forall>k. count_at (qs_types s) k = tally (\<lambda>i. it_kind i = k) M)
     \<and> qs_count s = int (size M)
     \<and> (\<forall>n. qs_capabilities s n = tally (\<lambda>i. it_capabilities i n) M)
     \<and> (\<forall>l. map_get (qs_libraries s) l \<noteq> Some None)
     \<and> (\<forall>l. lib_value (qs_libraries s) l = tally (\<lambda>i. library_of (it_identity i) = Some l) M)
     \<and> map_wf (qs_libraries s)"

lemma add_library_value:
  assumes "\<forall>l. map_get m l \<noteq> Some None" "map_wf m"
  shows "\<forall>l. map_get (fold add_library libs m) l \<noteq> Some None" (is ?a)
    and "map_wf (fold add_library libs m)" (is ?b)
    and "lib_value (fold add_library libs m) l = lib_value m l + lib_total libs l" (is ?c)
proof -
  have "?a \<and> ?b \<and> ?c"
    using assms
  proof (induction libs arbitrary: m)
    case (Cons x libs)
    have 1: "\<forall>l. map_get (add_library x m) l \<noteq> Some None"
      using Cons.prems(1) by (auto simp: add_library_def js_map_simps split: option.split) (metis not_None_eq)
    have 2: "map_wf (add_library x m)"
      using Cons.prems(2) by (simp add: add_library_def)
    have 3: "lib_value (add_library x m) l = lib_value m l + (if fst x = l then snd x else 0)"
      using Cons.prems(1) by (auto simp: add_library_def lib_value_def js_map_simps split: option.split)
    show ?case
      using Cons.IH [OF 1 2] 3 by (cases x) (simp add: lib_total_def)
  qed (simp add: lib_total_def)
  then show ?a ?b ?c by auto
qed

lemma fold_scan_rows:
  "fold (scan_row kind) facts s = fold (scan_row None) (filter (\<lambda>row. kind = None \<or> kind = Some (Entry (qt_kind row))) facts) s"
  by (induction facts arbitrary: s) (auto simp: scan_row_def)

lemma scan_rows:
  assumes "\<forall>l. map_get (qs_libraries s) l \<noteq> Some None" "map_wf (qs_libraries s)"
  shows "qs_types (fold (scan_row None) rows s) = qs_types s" (is ?a)
    and "qs_count (fold (scan_row None) rows s) = qs_count s + sum_list (map qt_count rows)" (is ?b)
    and "qs_capabilities (fold (scan_row None) rows s) n = qs_capabilities s n + sum_list (map (\<lambda>r. qt_capabilityCounts r n) rows)" (is ?c)
    and "\<forall>l. map_get (qs_libraries (fold (scan_row None) rows s)) l \<noteq> Some None" (is ?d)
    and "map_wf (qs_libraries (fold (scan_row None) rows s))" (is ?e)
    and "lib_value (qs_libraries (fold (scan_row None) rows s)) l
      = lib_value (qs_libraries s) l + sum_list (map (\<lambda>r. lib_total (qt_libraries r) l) rows)" (is ?f)
proof -
  have "?a \<and> ?b \<and> ?c \<and> ?d \<and> ?e \<and> ?f"
    using assms
  proof (induction rows arbitrary: s)
    case (Cons r rows)
    have s: "qs_types (scan_row None r s) = qs_types s" "qs_count (scan_row None r s) = qs_count s + qt_count r"
      "qs_capabilities (scan_row None r s) n = qs_capabilities s n + qt_capabilityCounts r n"
      "qs_libraries (scan_row None r s) = fold add_library (qt_libraries r) (qs_libraries s)"
      by (simp_all add: scan_row_def)
    show ?case
      using Cons.IH [of "scan_row None r s"] add_library_value [OF Cons.prems] by (simp add: s)
  qed simp
  then show ?a ?b ?c ?d ?e ?f by auto
qed

lemma fold_kinds:
  assumes "distinct (map qt_kind rows)"
  shows "map_get (fold (\<lambda>row m. map_set (Entry (qt_kind row)) (qt_count row) m) rows m) k =
    (case find (\<lambda>r. Entry (qt_kind r) = k) rows of Some r \<Rightarrow> Some (qt_count r) | None \<Rightarrow> map_get m k)"
  using assms
proof (induction rows arbitrary: m)
  case (Cons r rows)
  have "find (\<lambda>r. Entry (qt_kind r) = k) rows = None" if "Entry (qt_kind r) = k"
    using Cons.prems that by (auto simp: find_None_iff image_iff)
  then show ?case
    using Cons by (auto simp: js_map_simps split: option.split)
qed simp

lemma start_represents:
  assumes d: "facts_describe facts M"
  shows "scan_represents (fold (scan_row kind) facts (query_scan_start facts kind))
    ((\<lambda>r. Entry (qt_kind r)) ` set (filter (\<lambda>row. kind = None \<or> kind = Some (Entry (qt_kind row))) facts))
    (filter_mset (\<lambda>i. kind = None \<or> kind = Some (it_kind i)) M)"
proof -
  define rows where "rows = filter (\<lambda>row. kind = None \<or> kind = Some (Entry (qt_kind row))) facts"
  define M' where "M' = filter_mset (\<lambda>i. kind = None \<or> kind = Some (it_kind i)) M"
  define s0 where "s0 = query_scan_start facts kind"
  define s where "s = fold (scan_row kind) facts s0"
  have s: "s = fold (scan_row None) rows s0"
    unfolding s_def rows_def by (rule fold_scan_rows)
  have s0: "qs_libraries s0 = []" "qs_count s0 = 0" "\<And>n. qs_capabilities s0 n = 0"
    "qs_types s0 = fold (\<lambda>row m. map_set (Entry (qt_kind row)) (qt_count row) m) rows []"
    by (simp_all add: s0_def query_scan_start_def rows_def)
  have dist: "distinct (map qt_kind rows)"
    using d by (auto simp: facts_describe_def rows_def distinct_map intro: inj_on_subset)
  have rd: "row_describes M r" if "r \<in> set rows" for r
    using d that by (auto simp: facts_describe_def rows_def)
  have member: "row_items rows i \<longleftrightarrow> kind = None \<or> kind = Some (it_kind i)" if "i \<in># M" for i
    using d that by (auto simp: facts_describe_def rows_def)
  have tally_M': "tally P M' = tally (\<lambda>i. row_items rows i \<and> P i) M" for P
    unfolding M'_def tally_filter unfolding tally_def by (rule arg_cong [where f = "\<lambda>N. int (size N)"], rule filter_mset_cong) (auto simp: member)
  have start: "\<forall>l. map_get (qs_libraries s0) l \<noteq> Some None" "map_wf (qs_libraries s0)"
    by (simp_all add: s0)
  note rows = scan_rows [OF start, of rows, folded s]
  have kinds: "map_get (qs_types s) k = map_option qt_count (find (\<lambda>r. Entry (qt_kind r) = k) rows)" for k
    unfolding rows(1) s0 fold_kinds [OF dist] by (simp split: option.split)
  have has: "map_has (qs_types s) k \<longleftrightarrow> k \<in> (\<lambda>r. Entry (qt_kind r)) ` set rows" for k
    by (auto simp: kinds find_None_iff)
  have types: "count_at (qs_types s) k = tally (\<lambda>i. it_kind i = k) M'" for k
  proof (cases "find (\<lambda>r. Entry (qt_kind r) = k) rows")
    case None
    then have "tally (\<lambda>i. it_kind i = k) M' = 0"
      unfolding tally_M' tally_zero by (auto simp: find_None_iff)
    then show ?thesis using None by (simp add: count_at_def kinds)
  next
    case (Some r)
    then have r: "r \<in> set rows" "Entry (qt_kind r) = k"
      by (auto simp: find_Some_iff)
    have "qt_count r = tally (\<lambda>i. it_kind i = k) M"
      using rd [OF r(1)] r(2) by (simp add: row_describes_def)
    also have "\<dots> = tally (\<lambda>i. it_kind i = k) M'"
      unfolding tally_M' unfolding tally_def using r by (intro arg_cong [where f = "\<lambda>N. int (size N)"] filter_mset_cong) auto
    finally show ?thesis using Some by (simp add: count_at_def kinds)
  qed
  have sumeq: "sum_list (map f rows) = sum_list (map g rows)" if "\<And>r. r \<in> set rows \<Longrightarrow> f r = g r" for f g :: "query_type \<Rightarrow> int"
    using that by (simp cong: map_cong)
  have size: "int (size M') = tally (\<lambda>i. True) M'"
    by (simp add: tally_def)
  have count: "qs_count s = int (size M')"
    unfolding size rows(2) s0 tally_M' tally_rows [OF dist, symmetric]
    by (simp, rule sumeq) (use rd in \<open>simp add: row_describes_def\<close>)
  have caps: "qs_capabilities s n = tally (\<lambda>i. it_capabilities i n) M'" for n
    unfolding rows(3) s0 tally_M' tally_rows [OF dist, symmetric]
    by (simp, rule sumeq) (use rd in \<open>simp add: row_describes_def\<close>)
  have libs: "lib_value (qs_libraries s) l = tally (\<lambda>i. library_of (it_identity i) = Some l) M'" for l
  proof -
    have "lib_value (qs_libraries s) l = sum_list (map (\<lambda>r. lib_total (qt_libraries r) l) rows)"
      unfolding rows(6) s0 by (simp add: lib_value_def)
    also have "\<dots> = sum_list (map (\<lambda>r. tally (\<lambda>i. it_kind i = Entry (qt_kind r) \<and> library_of (it_identity i) = Some l) M) rows)"
      by (rule sumeq) (use rd in \<open>simp add: row_describes_def\<close>)
    finally show ?thesis
      unfolding tally_M' tally_rows [OF dist] .
  qed
  have "scan_represents s ((\<lambda>r. Entry (qt_kind r)) ` set rows) M'"
    unfolding scan_represents_def
    using has types count caps libs rows(4,5) member by (auto simp: M'_def)
  then show ?thesis unfolding s_def s0_def rows_def M'_def .
qed

lemma exclusion_other:
  "(\<And>k. map_has (qs_types s) k \<longleftrightarrow> k \<in> K) \<Longrightarrow> it_kind (se_item x) \<notin> K \<Longrightarrow> scan_exclusion x s = s"
proof (cases "it_identity (se_item x)")
  case (Catalogue k l d)
  assume "\<And>k. map_has (qs_types s) k \<longleftrightarrow> k \<in> K" "it_kind (se_item x) \<notin> K"
  then have "map_get (qs_types s) (Entry k) = None" using Catalogue by fastforce
  then show ?thesis using Catalogue by (simp add: scan_exclusion_def)
qed (simp_all add: scan_exclusion_def)

lemma exclusion_represents:
  assumes r: "scan_represents s K (add_mset i M)" and i: "se_item x = i" "it_identity i = Catalogue k l d"
  shows "scan_represents (scan_exclusion x s) K M"
proof -
  have k: "Entry k \<in> K" using r i(2) by (auto simp: scan_represents_def)
  have "map_has (qs_types s) (Entry k)"
    using r k unfolding scan_represents_def by blast
  then obtain t where t: "map_get (qs_types s) (Entry k) = Some t" by blast
  have "lib_value (qs_libraries s) l = tally (\<lambda>i. library_of (it_identity i) = Some l) M + 1"
    using r i(2) by (simp add: scan_represents_def)
  then have "lib_value (qs_libraries s) l > 0"
    using tally_nonneg [of "\<lambda>i. library_of (it_identity i) = Some l" M] by linarith
  then obtain n where n: "map_get (qs_libraries s) l = Some (Some n)"
    by (auto simp: lib_value_def split: option.splits)
  have e: "scan_exclusion x s = s\<lparr>qs_count := qs_count s - 1, qs_types := map_set (Entry k) (t - 1) (qs_types s),
      qs_libraries := map_set l (Some (n - 1)) (qs_libraries s),
      qs_capabilities := (\<lambda>n. if it_capabilities i n then qs_capabilities s n - 1 else qs_capabilities s n)\<rparr>"
    by (simp add: scan_exclusion_def i t take_library_def n)
  have t': "t = count_at (qs_types s) (Entry k)" and n': "n = lib_value (qs_libraries s) l"
    by (simp_all add: count_at_def t lib_value_def n)
  have lv: "lib_value (map_set l (Some v) (qs_libraries s)) l' = (if l' = l then v else lib_value (qs_libraries s) l')" for l' v
    by (simp add: lib_value_def js_map_simps)
  show ?thesis
    unfolding scan_represents_def e
    using r i(2) k by (auto simp: scan_represents_def js_map_simps lv t' n')
qed

lemma exclusions_represent:
  assumes "scan_represents s K (M + mset (filter (\<lambda>i. it_kind i \<in> K) (map se_item xs)))"
    and "\<And>x. x \<in> set xs \<Longrightarrow> it_kind (se_item x) \<in> K \<Longrightarrow> library_of (it_identity (se_item x)) \<noteq> None"
  shows "scan_represents (fold scan_exclusion xs s) K M"
  using assms
proof (induction xs arbitrary: s)
  case (Cons x xs)
  show ?case
  proof (cases "it_kind (se_item x) \<in> K")
    case True
    then obtain k l d where i: "it_identity (se_item x) = Catalogue k l d"
      using Cons.prems(2) [of x] by (cases "it_identity (se_item x)") auto
    have "scan_represents (scan_exclusion x s) K (M + mset (filter (\<lambda>i. it_kind i \<in> K) (map se_item xs)))"
      by (rule exclusion_represents [OF _ refl i]) (use Cons.prems(1) True in simp)
    then show ?thesis using Cons.IH Cons.prems(2) by simp
  next
    case False
    have "map_has (qs_types s) k \<longleftrightarrow> k \<in> K" for k
      using Cons.prems(1) unfolding scan_represents_def by blast
    from exclusion_other [of s K x, OF this False] have e: "scan_exclusion x s = s" .
    have "scan_represents s K (M + mset (filter (\<lambda>i. it_kind i \<in> K) (map se_item xs)))"
      using Cons.prems(1) False by simp
    from Cons.IH [OF this Cons.prems(2)] show ?thesis by (simp add: e)
  qed
qed simp

lemma represents_libraries:
  assumes r: "scan_represents s K (mset items)"
  shows "set (present_libraries (qs_libraries s)) = libraries_of items" "distinct (present_libraries (qs_libraries s))"
proof -
  let ?m = "qs_libraries s"
  have wf: "map_wf ?m" using r by (simp add: scan_represents_def)
  have "l \<in> set (present_libraries ?m) \<longleftrightarrow> (\<exists>t. map_get ?m l = Some (Some t) \<and> t > 0)" for l
    using wf by (force simp: present_libraries_def map_wf_in_set split: option.splits)
  also have "\<dots> l \<longleftrightarrow> lib_value ?m l > 0" for l
    by (auto simp: lib_value_def split: option.splits)
  also have "\<dots> l \<longleftrightarrow> l \<in> libraries_of items" for l
    using r by (auto simp: scan_represents_def libraries_of_def tally_mset filter_empty_conv)
  finally show "set (present_libraries ?m) = libraries_of items" by blast
  show "distinct (present_libraries ?m)"
    using wf unfolding present_libraries_def map_wf_def by (rule distinct_map_filter)
qed

lemma represents_summary:
  assumes r: "scan_represents s K (mset items)"
    and K: "\<And>k. k \<in> K \<Longrightarrow> \<exists>c. k = Entry c" and ok: "\<And>i n. i \<in> set items \<Longrightarrow> it_capabilities i n \<Longrightarrow> selectionKindAllowsCapability (it_kind i) n"
  shows "summary_describes \<lparr>sm_count = qs_count s, sm_types = positive_types (qs_types s),
      sm_library = library_summary (present_libraries (qs_libraries s)),
      sm_every = (\<lambda>n. qs_count s > 0 \<and> qs_capabilities s n = qs_count s), sm_unavailable = u\<rparr> items"
proof -
  have catalogue: "library_of (it_identity i) \<noteq> None" if "i \<in> set items" for i
  proof -
    have "it_kind i \<in> K" using r that by (auto simp: scan_represents_def)
    then show ?thesis using K by (cases "it_identity i") fastforce+
  qed
  have types: "positive_types (qs_types s) = reference_types items"
    using r unfolding positive_types_def map_filter_positive reference_types_def kind_count_def
    by (simp add: scan_represents_def tally_mset)
  have every: "(\<lambda>n. qs_count s > 0 \<and> qs_capabilities s n = qs_count s) = reference_every items"
  proof
    fix n
    have "qs_capabilities s n = qs_count s \<longleftrightarrow> (\<forall>i \<in> set items. it_capabilities i n)"
      using r tally_all [of "\<lambda>i. it_capabilities i n" "mset items"] by (simp add: scan_represents_def)
    moreover have "qs_count s > 0 \<longleftrightarrow> items \<noteq> []"
      using r by (simp add: scan_represents_def)
    ultimately show "(qs_count s > 0 \<and> qs_capabilities s n = qs_count s) = reference_every items n"
      using ok by (auto simp: reference_every_def)
  qed
  have library: "reference_library items (library_summary (present_libraries (qs_libraries s)))"
  proof -
    define ls where "ls = present_libraries (qs_libraries s)"
    have ls: "libraries_of items = set ls" "distinct ls"
      using represents_libraries [OF r] by (simp_all add: ls_def)
    consider "ls = []" | l where "ls = [l]" | l l' ls' where "ls = l # l' # ls'"
      by (cases ls rule: remdups_adj.cases) auto
    then have "reference_library items (library_summary ls)"
      by cases (use ls catalogue in \<open>auto simp: reference_library_def library_summary_def\<close>)
    then show ?thesis by (simp add: ls_def)
  qed
  show ?thesis
    using r types every library by (simp add: summary_describes_def scan_represents_def)
qed

lemma query_summary_describes:
  assumes "facts_describe facts M"
    and "mset rest + mset (filter (\<lambda>i. kind = None \<or> kind = Some (it_kind i)) (map se_item xs))
      = filter_mset (\<lambda>i. kind = None \<or> kind = Some (it_kind i)) M"
  shows "summary_describes (summarizeQuerySelection facts kind xs u) rest"
proof -
  let ?p = "\<lambda>i. kind = None \<or> kind = Some (it_kind i)"
  define K where "K = (\<lambda>r. Entry (qt_kind r)) ` set (filter (\<lambda>row. kind = None \<or> kind = Some (Entry (qt_kind row))) facts)"
  let ?s = "fold (scan_row kind) facts (query_scan_start facts kind)"
  have inM: "i \<in># M" if "i \<in> set rest \<or> (i \<in> set (map se_item xs) \<and> ?p i)" for i
  proof -
    have "i \<in># mset rest + mset (filter ?p (map se_item xs))" using that by auto
    then show ?thesis unfolding assms(2) by simp
  qed
  have K_facts: "it_kind i \<in> K \<longleftrightarrow> ?p i" if "i \<in># M" for i
    using assms(1) that by (auto simp: K_def facts_describe_def)
  have K_p: "?p i" if "it_kind i \<in> K" for i
    using that by (auto simp: K_def)
  have filt: "filter (\<lambda>i. it_kind i \<in> K) (map se_item xs) = filter ?p (map se_item xs)"
    by (rule filter_cong [OF refl]) (use inM K_facts K_p in blast)
  have start: "scan_represents ?s K (mset rest + mset (filter (\<lambda>i. it_kind i \<in> K) (map se_item xs)))"
    unfolding filt assms(2) unfolding K_def by (rule start_represents [OF assms(1)])
  have cat: "\<exists>c. k = Entry c" if "k \<in> K" for k
    using that by (auto simp: K_def)
  have "scan_represents (fold scan_exclusion xs ?s) K (mset rest)"
  proof (rule exclusions_represent [OF start])
    fix x assume "it_kind (se_item x) \<in> K"
    then show "library_of (it_identity (se_item x)) \<noteq> None"
      using cat by (cases "it_identity (se_item x)") fastforce+
  qed
  then show ?thesis
    unfolding summarizeQuerySelection_def Let_def
    by (rule represents_summary [OF _ cat]) (use inM assms(1) in \<open>auto simp: facts_describe_def\<close>)
qed

end
