(* ===== verification/Selection_Checks.thy ===== *)
theory Selection_Checks
  imports Selection_Summary
begin

text \<open>
  What the keys and the boundary checks guarantee: keys determine identities, a filter value is
  copied unchanged or refused by its size, and an admitted query's facts add up.
\<close>

section \<open>Keys\<close>

lemma identity_parts_inj: "identity_parts a = identity_parts b \<longleftrightarrow> a = b"
  by (cases a; cases b) (simp_all add: content_name_not [symmetric])

lemma selectionKey_eq: "selectionKey s a = selectionKey t b \<longleftrightarrow> s = t \<and> a = b"
  by (cases s; cases t) (auto simp: selectionKey_def identity_parts_inj)

lemma browseSelectionKey_eq: "browseSelectionKey s a = browseSelectionKey t b \<longleftrightarrow> s = t \<and> a = b"
  by (cases s; cases t) (auto simp: browseSelectionKey_def identity_parts_inj)

section \<open>Filter values\<close>

text \<open>The measures the copy is bounded by, on the value alone.\<close>

fun json_nodes :: "jsval \<Rightarrow> nat" where
  "json_nodes (JArr xs) = Suc (sum_list (map json_nodes xs))"
| "json_nodes (JObj es) = Suc (sum_list (map (\<lambda>e. json_nodes (snd e)) es))"
| "json_nodes v = 1"

fun json_text :: "jsval \<Rightarrow> nat" where
  "json_text (JStr s) = length s"
| "json_text (JArr xs) = sum_list (map json_text xs)"
| "json_text (JObj es) = sum_list (map (\<lambda>e. length (fst e) + json_text (snd e)) es)"
| "json_text v = 0"

text \<open>Plain JSON values nested at most \<open>d\<close> deep.\<close>

fun json_plain :: "nat \<Rightarrow> jsval \<Rightarrow> bool" where
  "json_plain d JUndef = False"
| "json_plain d JNull = True"
| "json_plain d (JBool b) = True"
| "json_plain d (JNum n) = isFinite n"
| "json_plain d (JStr s) = True"
| "json_plain 0 (JArr xs) = (xs = [])"
| "json_plain (Suc d) (JArr xs) = (\<forall>x \<in> set xs. json_plain d x)"
| "json_plain 0 (JObj es) = (es = [])"
| "json_plain (Suc d) (JObj es) = (\<forall>e \<in> set es. json_plain d (snd e))"

lemma json_nodes_pos: "json_nodes v \<ge> 1"
  by (cases v) auto

lemma json_nodes_length: "length xs \<le> sum_list (map json_nodes xs)"
  by (induction xs) (use json_nodes_pos in \<open>auto simp: add_mono le_add2 intro: add_le_mono [of 1, simplified]\<close>)

lemma json_nodes_entries: "length es \<le> sum_list (map (\<lambda>e. json_nodes (snd e)) es)"
  by (induction es) (use json_nodes_pos in \<open>auto intro: add_le_mono [of 1, simplified]\<close>)

text \<open>The budget that is left once \<open>n\<close> nodes and \<open>t\<close> characters are copied.\<close>

definition spend :: "json_budget \<Rightarrow> nat \<Rightarrow> nat \<Rightarrow> json_budget" where
  "spend b n t = b\<lparr>jb_remaining := jb_remaining b - int n, jb_text := jb_text b - int t\<rparr>"

definition affords :: "json_budget \<Rightarrow> nat \<Rightarrow> nat \<Rightarrow> bool" where
  "affords b n t \<longleftrightarrow> int n \<le> jb_remaining b \<and> int t \<le> jb_text b"

lemma spend_spend [simp]: "spend (spend b n t) n' t' = spend b (n + n') (t + t')"
  by (simp add: spend_def)

lemma spend_zero [simp]: "spend b 0 0 = b"
  by (simp add: spend_def)

lemma spend_fields [simp]:
  "jb_remaining (spend b n t) = jb_remaining b - int n" "jb_text (spend b n t) = jb_text b - int t"
  by (simp_all add: spend_def)

lemma spend_updates:
  "b\<lparr>jb_remaining := jb_remaining b - 1\<rparr> = spend b 1 0"
  "b\<lparr>jb_text := jb_text b - int t\<rparr> = spend b 0 t"
  by (simp_all add: spend_def)

definition copied :: "bool \<Rightarrow> 'a \<Rightarrow> json_budget \<Rightarrow> nat \<Rightarrow> nat \<Rightarrow> ('a \<times> json_budget) checked" where
  "copied ok v b n t = (if ok \<and> affords b n t then Inr (v, spend b n t) else Inl Invalid_query)"

declare visit.simps(1) [simp del]

lemma visit_leaf:
  assumes "0 \<le> jb_text b" "\<And>xs. v \<noteq> JArr xs" "\<And>es. v \<noteq> JObj es"
  shows "visit v depth b = copied (depth \<le> 24 \<and> json_plain (24 - depth) v) v b (json_nodes v) (json_text v)"
  using assms by (cases v) (auto simp: visit.simps(1) copied_def affords_def Let_def spend_def)

lemma depth_cases: "(depth = 24 \<Longrightarrow> P) \<Longrightarrow> (24 - depth = Suc (24 - (depth + 1)) \<Longrightarrow> depth < 24 \<Longrightarrow> P) \<Longrightarrow> (24 < depth \<Longrightarrow> P) \<Longrightarrow> P"
  for depth :: nat
  by (cases depth "24 :: nat" rule: linorder_cases) auto

lemma visit_array:
  assumes "0 \<le> jb_text b"
    and ih: "\<And>b. 0 \<le> jb_remaining b \<Longrightarrow> 0 \<le> jb_text b \<Longrightarrow> visit_list xs (depth + 1) b =
      copied ((xs = [] \<or> depth + 1 \<le> 24) \<and> (\<forall>x \<in> set xs. json_plain (24 - (depth + 1)) x)) xs b
        (sum_list (map json_nodes xs)) (sum_list (map json_text xs))"
  shows "visit (JArr xs) depth b =
    copied (depth \<le> 24 \<and> json_plain (24 - depth) (JArr xs)) (JArr xs) b (json_nodes (JArr xs)) (json_text (JArr xs))"
proof -
  let ?n = "sum_list (map json_nodes xs)" and ?t = "sum_list (map json_text xs)"
  have len: "length xs \<le> ?n" by (rule json_nodes_length)
  have plain: "depth \<le> 24 \<Longrightarrow> json_plain (24 - depth) (JArr xs) \<longleftrightarrow>
      (xs = [] \<or> depth + 1 \<le> 24) \<and> (\<forall>x \<in> set xs. json_plain (24 - (depth + 1)) x)"
    by (rule depth_cases [of depth]) auto
  show ?thesis
  proof (cases "1 \<le> jb_remaining b \<and> depth \<le> 24 \<and> int (length xs) \<le> jb_remaining b - 1")
    case True
    have "visit (JArr xs) depth b =
        (case visit_list xs (depth + 1) (spend b 1 0) of Inl e \<Rightarrow> Inl e | Inr (ys, b2) \<Rightarrow> Inr (JArr ys, b2))"
      using True by (simp add: visit.simps(1) Let_def spend_updates)
    also have "visit_list xs (depth + 1) (spend b 1 0) =
        copied ((xs = [] \<or> depth + 1 \<le> 24) \<and> (\<forall>x \<in> set xs. json_plain (24 - (depth + 1)) x)) xs (spend b 1 0) ?n ?t"
      by (rule ih) (use True assms(1) in simp_all)
    finally show ?thesis
      using True plain by (auto simp: copied_def affords_def)
  next
    case False
    then have "visit (JArr xs) depth b = Inl Invalid_query"
      by (auto simp: visit.simps(1) Let_def)
    moreover have "\<not> (depth \<le> 24 \<and> affords b (Suc ?n) ?t)"
      using False len by (auto simp: affords_def)
    ultimately show ?thesis by (auto simp: copied_def)
  qed
qed

lemma visit_object:
  assumes "0 \<le> jb_text b"
    and ih: "\<And>b. 0 \<le> jb_remaining b \<Longrightarrow> 0 \<le> jb_text b \<Longrightarrow> visit_entries es (depth + 1) b =
      copied ((es = [] \<or> depth + 1 \<le> 24) \<and> (\<forall>e \<in> set es. json_plain (24 - (depth + 1)) (snd e))) es b
        (sum_list (map (\<lambda>e. json_nodes (snd e)) es)) (sum_list (map (\<lambda>e. length (fst e) + json_text (snd e)) es))"
  shows "visit (JObj es) depth b =
    copied (depth \<le> 24 \<and> json_plain (24 - depth) (JObj es)) (JObj es) b (json_nodes (JObj es)) (json_text (JObj es))"
proof -
  let ?n = "sum_list (map (\<lambda>e. json_nodes (snd e)) es)" and ?t = "sum_list (map (\<lambda>e. length (fst e) + json_text (snd e)) es)"
  have len: "length es \<le> ?n" by (rule json_nodes_entries)
  have plain: "depth \<le> 24 \<Longrightarrow> json_plain (24 - depth) (JObj es) \<longleftrightarrow>
      (es = [] \<or> depth + 1 \<le> 24) \<and> (\<forall>e \<in> set es. json_plain (24 - (depth + 1)) (snd e))"
    by (rule depth_cases [of depth]) auto
  show ?thesis
  proof (cases "1 \<le> jb_remaining b \<and> depth \<le> 24 \<and> int (length es) \<le> jb_remaining b - 1")
    case True
    have "visit (JObj es) depth b =
        (case visit_entries es (depth + 1) (spend b 1 0) of Inl e \<Rightarrow> Inl e | Inr (fs, b2) \<Rightarrow> Inr (JObj fs, b2))"
      using True by (simp add: visit.simps(1) Let_def spend_updates)
    also have "visit_entries es (depth + 1) (spend b 1 0) =
        copied ((es = [] \<or> depth + 1 \<le> 24) \<and> (\<forall>e \<in> set es. json_plain (24 - (depth + 1)) (snd e))) es (spend b 1 0) ?n ?t"
      by (rule ih) (use True assms(1) in simp_all)
    finally show ?thesis
      using True plain by (auto simp: copied_def affords_def)
  next
    case False
    then have "visit (JObj es) depth b = Inl Invalid_query"
      by (auto simp: visit.simps(1) Let_def)
    moreover have "\<not> (depth \<le> 24 \<and> affords b (Suc ?n) ?t)"
      using False len by (auto simp: affords_def)
    ultimately show ?thesis by (auto simp: copied_def)
  qed
qed

lemma visit_list_copies:
  assumes "\<And>x depth b. x \<in> set xs \<Longrightarrow> 0 \<le> jb_text b \<Longrightarrow> visit x depth b =
      copied (depth \<le> 24 \<and> json_plain (24 - depth) x) x b (json_nodes x) (json_text x)"
    and "0 \<le> jb_remaining b" "0 \<le> jb_text b"
  shows "visit_list xs depth b =
     copied ((xs = [] \<or> depth \<le> 24) \<and> (\<forall>x \<in> set xs. json_plain (24 - depth) x)) xs b
       (sum_list (map json_nodes xs)) (sum_list (map json_text xs))"
  using assms
proof (induction xs arbitrary: b)
  case (Cons x xs)
  have x: "visit x depth b = copied (depth \<le> 24 \<and> json_plain (24 - depth) x) x b (json_nodes x) (json_text x)"
    by (rule Cons.prems(1)) (use Cons.prems in simp_all)
  show ?case
  proof (cases "depth \<le> 24 \<and> json_plain (24 - depth) x \<and> affords b (json_nodes x) (json_text x)")
    case True
    have "visit_list xs depth (spend b (json_nodes x) (json_text x)) =
      copied ((xs = [] \<or> depth \<le> 24) \<and> (\<forall>x \<in> set xs. json_plain (24 - depth) x)) xs (spend b (json_nodes x) (json_text x))
        (sum_list (map json_nodes xs)) (sum_list (map json_text xs))"
      by (rule Cons.IH) (use Cons.prems True in \<open>auto simp: affords_def\<close>)
    then show ?thesis using True by (auto simp: x copied_def affords_def)
  next
    case False
    then show ?thesis by (auto simp: x copied_def affords_def)
  qed
qed (simp add: copied_def affords_def)

lemma visit_entries_copies:
  assumes "\<And>e depth b. e \<in> set es \<Longrightarrow> 0 \<le> jb_text b \<Longrightarrow> visit (snd e) depth b =
      copied (depth \<le> 24 \<and> json_plain (24 - depth) (snd e)) (snd e) b (json_nodes (snd e)) (json_text (snd e))"
    and "0 \<le> jb_remaining b" "0 \<le> jb_text b"
  shows "visit_entries es depth b =
     copied ((es = [] \<or> depth \<le> 24) \<and> (\<forall>e \<in> set es. json_plain (24 - depth) (snd e))) es b
       (sum_list (map (\<lambda>e. json_nodes (snd e)) es)) (sum_list (map (\<lambda>e. length (fst e) + json_text (snd e)) es))"
  using assms
proof (induction es arbitrary: b)
  case (Cons e es)
  obtain k x where e: "e = (k, x)" by (cases e)
  define b0 where "b0 = spend b 0 (length k)"
  show ?case
  proof (cases "int (length k) \<le> jb_text b")
    case txt': True
    have x: "visit x depth b0 = copied (depth \<le> 24 \<and> json_plain (24 - depth) x) x b0 (json_nodes x) (json_text x)"
      using Cons.prems(1) [of e b0 depth] txt' by (simp add: e b0_def)
    show ?thesis
    proof (cases "depth \<le> 24 \<and> json_plain (24 - depth) x \<and> affords b0 (json_nodes x) (json_text x)")
      case True
      have "visit_entries es depth (spend b0 (json_nodes x) (json_text x)) =
        copied ((es = [] \<or> depth \<le> 24) \<and> (\<forall>e \<in> set es. json_plain (24 - depth) (snd e))) es (spend b0 (json_nodes x) (json_text x))
          (sum_list (map (\<lambda>e. json_nodes (snd e)) es)) (sum_list (map (\<lambda>e. length (fst e) + json_text (snd e)) es))"
        by (rule Cons.IH) (use Cons.prems True in \<open>auto simp: affords_def\<close>)
      then show ?thesis
        using True txt' by (auto simp: e x [unfolded b0_def] copied_def affords_def b0_def Let_def spend_updates)
    next
      case False
      then show ?thesis
        using txt' by (auto simp: e x [unfolded b0_def] copied_def affords_def b0_def Let_def spend_updates)
    qed
  next
    case False
    then show ?thesis by (auto simp: e copied_def affords_def Let_def)
  qed
qed (simp add: copied_def affords_def)

lemma visit_copies:
  "0 \<le> jb_text b \<Longrightarrow> visit v depth b =
     copied (depth \<le> 24 \<and> json_plain (24 - depth) v) v b (json_nodes v) (json_text v)"
proof (induction v arbitrary: depth b)
  case (JArr xs)
  show ?case
    by (rule visit_array [OF JArr.prems], rule visit_list_copies) (rule JArr.IH, assumption+)
next
  case (JObj es)
  have "visit (snd e) depth b =
      copied (depth \<le> 24 \<and> json_plain (24 - depth) (snd e)) (snd e) b (json_nodes (snd e)) (json_text (snd e))"
    if "e \<in> set es" "0 \<le> jb_text b" for e depth b
    by (rule JObj.IH) (use that in \<open>auto simp: snds.simps\<close>)
  then show ?case
    by (intro visit_object [OF JObj.prems] visit_entries_copies)
qed (rule visit_leaf; simp)+

lemma queryJSON_copies:
  "queryJSON v = (if json_plain 24 v \<and> json_nodes v \<le> 4096 \<and> json_text v \<le> 65536 then Inr v else Inl Invalid_query)"
  unfolding queryJSON_def
  by (subst visit_copies) (auto simp: copied_def affords_def)

section \<open>Admitted queries\<close>

definition row_ok :: "query_type \<Rightarrow> bool" where
  "row_ok row \<longleftrightarrow> Entry (qt_kind row) \<in> set selectionKinds \<and> qt_count row > 0
     \<and> distinct (map fst (qt_libraries row)) \<and> (\<forall>l \<in> set (qt_libraries row). snd l > 0)
     \<and> sum_list (map snd (qt_libraries row)) = qt_count row
     \<and> (\<forall>n. 0 \<le> qt_capabilityCounts row n \<and> qt_capabilityCounts row n \<le> qt_count row
          \<and> (selectionKindAllowsCapability (Entry (qt_kind row)) n \<or> qt_capabilityCounts row n = 0))"

definition query_ok :: "selection_query \<Rightarrow> bool" where
  "query_ok q \<longleftrightarrow>
     (let rows = qf_types (q_summary q); facts = summarizeQuerySelection rows None [] None in
       distinct (map qt_kind rows) \<and> (\<forall>row \<in> set rows. row_ok row)
       \<and> sum_list (map qt_count rows) = q_total q
       \<and> qf_library (q_summary q) = sm_library facts \<and> qf_every (q_summary q) = sm_every facts
       \<and> (q_total q = 0 \<or> selector_library (q_selector q) = None
            \<or> qf_library (q_summary q) = Single_library (the (selector_library (q_selector q)))))"

lemma capability_names [simp]: "n \<in> set selectionCapabilityNames"
  by (cases n) (simp_all add: selectionCapabilityNames_def)

lemma selectionCount_nonneg: "selectionCount v \<Longrightarrow> 0 \<le> count_of v"
  by (auto simp: selectionCount_def count_of_def split: jsval.splits js_num.splits)

lemma library_facts_ok:
  assumes "fold_result library_fact libs ([], 0) = Inr (facts, tot)"
  shows "distinct (map fst facts) \<and> (\<forall>l \<in> set facts. snd l > 0) \<and> sum_list (map snd facts) = tot"
proof -
  have "(\<lambda>(facts, tot). distinct (map fst facts) \<and> (\<forall>l \<in> set facts. snd l > 0) \<and> sum_list (map snd facts) = tot) (facts, tot)"
  proof (rule fold_result_invariant [OF assms])
    fix x and s s' :: "(string \<times> int) list \<times> int"
    assume p: "case s of (facts, tot) \<Rightarrow> distinct (map fst facts) \<and> (\<forall>l \<in> set facts. snd l > 0) \<and> sum_list (map snd facts) = tot"
      and e: "library_fact x s = Inr s'"
    from e have "s' = (fst s @ [(str_of (at_key x ''libraryId''), count_of (at_key x ''count''))], snd s + count_of (at_key x ''count''))"
      "str_of (at_key x ''libraryId'') \<notin> set (map fst (fst s))" "count_of (at_key x ''count'') > 0"
      by (auto simp: library_fact_def Let_def result_simps split: if_splits)
    then show "case s' of (facts, tot) \<Rightarrow> distinct (map fst facts) \<and> (\<forall>l \<in> set facts. snd l > 0) \<and> sum_list (map snd facts) = tot"
      using p by (cases s) auto
  qed simp
  then show ?thesis by simp
qed

definition rows_scan_ok :: "query_type list \<times> rows_state \<Rightarrow> bool" where
  "rows_scan_ok acc \<longleftrightarrow> distinct (map qt_kind (fst acc)) \<and> set (rs_kinds (snd acc)) = qt_kind ` set (fst acc)
     \<and> (\<forall>row \<in> set (fst acc). row_ok row) \<and> rs_total (snd acc) = sum_list (map qt_count (fst acc))"

lemma entry_kind_selectable: "entry_kind_of v = Some k \<Longrightarrow> Entry k \<in> set selectionKinds"
  by (auto simp: entry_kind_of_def kind_of_value_def find_Some_iff split: option.splits selection_kind.splits
      dest!: nth_mem)

lemma query_row_ok:
  assumes e: "query_row x s = Inr s'" and ok: "rows_scan_ok s"
  shows "rows_scan_ok s'"
proof -
  define count where "count = count_of (at_key x ''count'')"
  define counts where "counts = at_key x ''capabilityCounts''"
  define libs where "libs = arr_of (at_key x ''libraries'')"
  from e obtain kind facts where
    k: "entry_kind_of (at_key x ''kind'') = Some kind" "kind \<notin> set (rs_kinds (snd s))" "count > 0"
    and c: "list_all (capability_count_ok kind count counts) selectionCapabilityNames"
    and f: "fold_result library_fact libs ([], 0) = Inr (facts, count)"
    and s': "s' = (fst s @ [\<lparr>qt_kind = kind, qt_count = count,
               qt_capabilityCounts = (\<lambda>n. count_of (at_key counts (capability_name n))), qt_libraries = facts\<rparr>],
             \<lparr>rs_kinds = set_add kind (rs_kinds (snd s)), rs_total = rs_total (snd s) + count,
              rs_libraryFacts = rs_libraryFacts (snd s) + int (length libs)\<rparr>)"
    unfolding query_row_def Let_def count_def [symmetric] counts_def [symmetric] libs_def [symmetric]
    by (auto simp: result_simps split: option.splits if_splits)
  have "row_ok \<lparr>qt_kind = kind, qt_count = count,
      qt_capabilityCounts = (\<lambda>n. count_of (at_key counts (capability_name n))), qt_libraries = facts\<rparr>"
    using library_facts_ok [OF f] k(3) entry_kind_selectable [OF k(1)] c
    by (auto simp: row_ok_def capability_count_ok_def Let_def list_all_iff intro: selectionCount_nonneg)
  then show ?thesis
    using ok k(2) by (auto simp: rows_scan_ok_def s')
qed

lemma validateQuery_ok:
  assumes e: "validateQuery input expected = Inr q"
  shows "query_ok q" "q_catalogRevision q = expected"
proof -
  define summary where "summary = at_key input ''summary''"
  from e obtain types st selector library where
    rows: "fold_result query_row (arr_of (at_key summary ''types'')) ([], \<lparr>rs_kinds = [], rs_total = 0, rs_libraryFacts = 0\<rparr>) = Inr (types, st)"
    and total: "rs_total st = count_of (at_key input ''total'')"
    and confined: "count_of (at_key input ''total'') = 0 \<or> selector_library selector = None
          \<or> library = Single_library (the (selector_library selector))"
    and lib: "sm_library (summarizeQuerySelection types None [] None) = library"
    and rev: "at_key input ''catalogRevision'' = JStr expected"
    and q: "q = \<lparr>q_id = str_of (at_key input ''id''), q_selector = selector, q_total = count_of (at_key input ''total''),
                q_catalogRevision = str_of (at_key input ''catalogRevision''),
                q_summary = \<lparr>qf_types = types, qf_library = sm_library (summarizeQuerySelection types None [] None),
                  qf_every = sm_every (summarizeQuerySelection types None [] None),
                  qf_unavailable = opt_of unavailable_of id (at_key summary ''unavailableActions'')\<rparr>\<rparr>"
    unfolding validateQuery_def Let_def summary_def [symmetric]
    by (auto simp: result_simps split: option.splits if_splits)
  have "rows_scan_ok (types, st)"
    by (rule fold_result_invariant [OF rows _ query_row_ok]) (simp_all add: rows_scan_ok_def)
  then show "query_ok q"
    using total confined lib by (auto simp: query_ok_def rows_scan_ok_def q Let_def)
  show "q_catalogRevision q = expected"
    by (simp add: q rev str_of_def)
qed

end
