(* ===== verification/Selection_Registry.thy ===== *)
theory Selection_Registry
  imports Selection_Operations
begin

text \<open>
  The registry built from the registered windows (\<open>buildRegistry\<close> of \<open>model.ts\<close>): it only grows while
  windows are added, it is built for any part of the windows it was built for, and what it
  holds is what the windows hold.
\<close>

section \<open>Growth\<close>

definition section_le :: "registry_section \<Rightarrow> registry_section \<Rightarrow> bool" where
  "section_le a b \<longleftrightarrow> sec_order a = sec_order b \<and> sec_queryId a = sec_queryId b
     \<and> (\<forall>i e. map_get (sec_positions a) i = Some e \<longrightarrow>
          (\<exists>e'. map_get (sec_positions b) i = Some e' \<and> se_key e' = se_key e))"

definition registry_le :: "registry \<Rightarrow> registry \<Rightarrow> bool" where
  "registry_le a b \<longleftrightarrow>
     (\<forall>k sec. map_get (rg_sections a) k = Some sec \<longrightarrow> (\<exists>sec'. map_get (rg_sections b) k = Some sec' \<and> section_le sec sec'))
     \<and> (\<forall>k e. map_get (rg_items a) k = Some e \<longrightarrow> (\<exists>e'. map_get (rg_items b) k = Some e' \<and> se_item e' = se_item e))
     \<and> (\<forall>q ms. map_get (rg_queryMembers a) q = Some ms \<longrightarrow> (\<exists>ms'. map_get (rg_queryMembers b) q = Some ms' \<and> set ms \<subseteq> set ms'))
     \<and> rg_itemCount a \<le> rg_itemCount b"

lemma section_le_refl [simp]: "section_le a a"
  by (simp add: section_le_def)

lemma section_le_trans: "section_le a b \<Longrightarrow> section_le b c \<Longrightarrow> section_le a c"
  unfolding section_le_def by metis

lemma registry_leI:
  assumes "\<And>k sec. map_get (rg_sections a) k = Some sec \<Longrightarrow> \<exists>sec'. map_get (rg_sections b) k = Some sec' \<and> section_le sec sec'"
    and "\<And>k e. map_get (rg_items a) k = Some e \<Longrightarrow> \<exists>e'. map_get (rg_items b) k = Some e' \<and> se_item e' = se_item e"
    and "\<And>q ms. map_get (rg_queryMembers a) q = Some ms \<Longrightarrow> \<exists>ms'. map_get (rg_queryMembers b) q = Some ms' \<and> set ms \<subseteq> set ms'"
    and "rg_itemCount a \<le> rg_itemCount b"
  shows "registry_le a b"
  unfolding registry_le_def using assms by (intro conjI allI impI)

lemma registry_le_section: "registry_le a b \<Longrightarrow> map_get (rg_sections a) k = Some sec \<Longrightarrow>
    \<exists>sec'. map_get (rg_sections b) k = Some sec' \<and> section_le sec sec'"
  unfolding registry_le_def by blast

lemma registry_le_item: "registry_le a b \<Longrightarrow> map_get (rg_items a) k = Some e \<Longrightarrow>
    \<exists>e'. map_get (rg_items b) k = Some e' \<and> se_item e' = se_item e"
  unfolding registry_le_def by blast

lemma registry_le_members: "registry_le a b \<Longrightarrow> map_get (rg_queryMembers a) q = Some ms \<Longrightarrow>
    \<exists>ms'. map_get (rg_queryMembers b) q = Some ms' \<and> set ms \<subseteq> set ms'"
  unfolding registry_le_def by blast

lemma registry_le_count: "registry_le a b \<Longrightarrow> rg_itemCount a \<le> rg_itemCount b"
  unfolding registry_le_def by blast

lemma registry_le_refl [simp]: "registry_le a a"
  by (rule registry_leI) auto

lemma registry_le_trans: "registry_le a b \<Longrightarrow> registry_le b c \<Longrightarrow> registry_le a c"
proof (rule registry_leI)
  assume ab: "registry_le a b" and bc: "registry_le b c"
  show "\<exists>sec'. map_get (rg_sections c) k = Some sec' \<and> section_le sec sec'" if "map_get (rg_sections a) k = Some sec" for k sec
    using registry_le_section [OF ab that] registry_le_section [OF bc] section_le_trans by blast
  show "\<exists>e'. map_get (rg_items c) k = Some e' \<and> se_item e' = se_item e" if "map_get (rg_items a) k = Some e" for k e
    using registry_le_item [OF ab that] registry_le_item [OF bc] by fastforce
  show "\<exists>ms'. map_get (rg_queryMembers c) q = Some ms' \<and> set ms \<subseteq> set ms'" if "map_get (rg_queryMembers a) q = Some ms" for q ms
    using registry_le_members [OF ab that] registry_le_members [OF bc] by blast
  show "rg_itemCount a \<le> rg_itemCount c"
    using registry_le_count [OF ab] registry_le_count [OF bc] by simp
qed

section \<open>One entry\<close>

definition entry_position :: "selection_window \<Rightarrow> int \<Rightarrow> position" where
  "entry_position v i = \<lparr>pos_sectionId = w_sectionId v, pos_sectionOrder = w_sectionOrder v, pos_index = i\<rparr>"

definition members_of :: "registry \<Rightarrow> string \<Rightarrow> string list" where
  "members_of r q = (case map_get (rg_queryMembers r) q of None \<Rightarrow> [] | Some ms \<Rightarrow> ms)"

definition entry_added :: "selection_window \<Rightarrow> int \<times> selected_item \<Rightarrow> registry_section \<Rightarrow> registry \<Rightarrow> registry" where
  "entry_added v e sec r = r\<lparr>
     rg_sections := map_set (w_sectionId v) (sec\<lparr>sec_positions := map_set (fst e) (snd e) (sec_positions sec)\<rparr>) (rg_sections r),
     rg_items := map_set (se_key (snd e)) (snd e) (rg_items r),
     rg_positions := (case map_get (rg_positions r) (se_key (snd e)) of
         None \<Rightarrow> map_set (se_key (snd e)) (entry_position v (fst e)) (rg_positions r)
       | Some first \<Rightarrow> if comparePosition (entry_position v (fst e)) first < 0
           then map_set (se_key (snd e)) (entry_position v (fst e)) (rg_positions r) else rg_positions r),
     rg_queryMembers := (case w_queryId v of None \<Rightarrow> rg_queryMembers r
       | Some q \<Rightarrow> map_set q (set_add (se_key (snd e)) (members_of r q)) (rg_queryMembers r))\<rparr>"

definition entry_admitted :: "int \<times> selected_item \<Rightarrow> registry_section \<Rightarrow> registry \<Rightarrow> bool" where
  "entry_admitted e sec r \<longleftrightarrow>
     (\<forall>o'. map_get (sec_positions sec) (fst e) = Some o' \<longrightarrow> se_key o' = se_key (snd e))
     \<and> (\<forall>d. map_get (rg_items r) (se_key (snd e)) = Some d \<longrightarrow> se_item d = se_item (snd e))"

lemma entry_admittedD:
  assumes "entry_admitted e sec r"
  shows "map_get (sec_positions sec) (fst e) = Some o' \<Longrightarrow> se_key o' = se_key (snd e)"
    and "map_get (rg_items r) (se_key (snd e)) = Some d \<Longrightarrow> se_item d = se_item (snd e)"
  using assms unfolding entry_admitted_def by blast+

lemma register_entry_eq:
  "register_entry v e r =
     (case map_get (rg_sections r) (w_sectionId v) of
        None \<Rightarrow> Inl Type_error
      | Some sec \<Rightarrow> if entry_admitted e sec r then Inr (entry_added v e sec r) else Inl Conflicting_windows)"
  by (simp add: register_entry_def Let_def entry_admitted_def entry_added_def entry_position_def members_of_def
      require_then split: option.split)

lemma register_entry_Inr:
  "register_entry v e r = Inr r' \<longleftrightarrow>
     (\<exists>sec. map_get (rg_sections r) (w_sectionId v) = Some sec \<and> entry_admitted e sec r \<and> r' = entry_added v e sec r)"
  by (auto simp: register_entry_eq split: option.splits if_splits)

lemma entry_added_fields [simp]:
  "rg_items (entry_added v e sec r) = map_set (se_key (snd e)) (snd e) (rg_items r)"
  "rg_sections (entry_added v e sec r) =
     map_set (w_sectionId v) (sec\<lparr>sec_positions := map_set (fst e) (snd e) (sec_positions sec)\<rparr>) (rg_sections r)"
  "rg_itemCount (entry_added v e sec r) = rg_itemCount r"
  "rg_queryMembers (entry_added v e sec r) = (case w_queryId v of None \<Rightarrow> rg_queryMembers r
       | Some q \<Rightarrow> map_set q (set_add (se_key (snd e)) (members_of r q)) (rg_queryMembers r))"
  by (simp_all add: entry_added_def)

lemma entry_added_positions [simp]:
  "map_has (rg_positions (entry_added v e sec r)) k \<longleftrightarrow> k = se_key (snd e) \<or> map_has (rg_positions r) k"
  by (auto simp: entry_added_def js_map_simps split: option.split)

lemma entry_added_le:
  assumes sec: "map_get (rg_sections r) (w_sectionId v) = Some sec" and ok: "entry_admitted e sec r"
  shows "registry_le r (entry_added v e sec r)"
proof (rule registry_leI)
  have "se_key (snd e) = se_key o'" if "map_get (sec_positions sec) (fst e) = Some o'" for o'
    using entry_admittedD(1) [OF ok that] by simp
  then have s: "section_le sec (sec\<lparr>sec_positions := map_set (fst e) (snd e) (sec_positions sec)\<rparr>)"
    by (simp add: section_le_def js_map_simps)
  show "\<exists>sec'. map_get (rg_sections (entry_added v e sec r)) k = Some sec' \<and> section_le s0 sec'"
    if "map_get (rg_sections r) k = Some s0" for k s0
    using that s sec by (cases "k = w_sectionId v") (auto simp: js_map_simps)
  show "\<exists>e'. map_get (rg_items (entry_added v e sec r)) k = Some e' \<and> se_item e' = se_item x"
    if "map_get (rg_items r) k = Some x" for k x
    using that entry_admittedD(2) [OF ok, of x] by (cases "k = se_key (snd e)") (simp_all add: js_map_simps)
  show "\<exists>ms'. map_get (rg_queryMembers (entry_added v e sec r)) q = Some ms' \<and> set ms \<subseteq> set ms'"
    if "map_get (rg_queryMembers r) q = Some ms" for q ms
    using that by (cases "w_queryId v = Some q") (auto simp: js_map_simps members_of_def split: option.split)
qed simp

text \<open>The same entry is admitted by a smaller registry, and the results stay ordered.\<close>

lemma entry_added_mono:
  assumes le: "registry_le a b"
    and b: "map_get (rg_sections b) (w_sectionId v) = Some sb" "entry_admitted e sb b"
    and a: "map_get (rg_sections a) (w_sectionId v) = Some sa"
  shows "entry_admitted e sa a" "registry_le (entry_added v e sa a) (entry_added v e sb b)"
proof -
  have s: "section_le sa sb"
    using registry_le_section [OF le a] b(1) by auto
  have "se_key o' = se_key (snd e)" if "map_get (sec_positions sa) (fst e) = Some o'" for o'
    using s that b(2) unfolding section_le_def entry_admitted_def by metis
  moreover have "se_item d = se_item (snd e)" if "map_get (rg_items a) (se_key (snd e)) = Some d" for d
    using registry_le_item [OF le that] b(2) unfolding entry_admitted_def by metis
  ultimately show "entry_admitted e sa a"
    unfolding entry_admitted_def by blast
  have s': "section_le (sa\<lparr>sec_positions := map_set (fst e) (snd e) (sec_positions sa)\<rparr>)
      (sb\<lparr>sec_positions := map_set (fst e) (snd e) (sec_positions sb)\<rparr>)"
    using s by (simp add: section_le_def js_map_simps)
  have m: "set (members_of a q) \<subseteq> set (members_of b q)" for q
  proof (cases "map_get (rg_queryMembers a) q")
    case (Some ms)
    from registry_le_members [OF le this] show ?thesis using Some by (auto simp: members_of_def)
  qed (simp add: members_of_def)
  show "registry_le (entry_added v e sa a) (entry_added v e sb b)"
  proof (rule registry_leI)
    fix k sec assume k: "map_get (rg_sections (entry_added v e sa a)) k = Some sec"
    show "\<exists>sec'. map_get (rg_sections (entry_added v e sb b)) k = Some sec' \<and> section_le sec sec'"
    proof (cases "k = w_sectionId v")
      case True
      then show ?thesis using k s' by (auto simp: js_map_simps)
    next
      case False
      then show ?thesis using k registry_le_section [OF le, of k sec] by (simp add: js_map_simps)
    qed
  next
    fix k x assume k: "map_get (rg_items (entry_added v e sa a)) k = Some x"
    show "\<exists>e'. map_get (rg_items (entry_added v e sb b)) k = Some e' \<and> se_item e' = se_item x"
    proof (cases "k = se_key (snd e)")
      case True
      then show ?thesis using k by (simp add: js_map_simps)
    next
      case False
      then show ?thesis using k registry_le_item [OF le, of k x] by (simp add: js_map_simps)
    qed
  next
    fix q ms assume q: "map_get (rg_queryMembers (entry_added v e sa a)) q = Some ms"
    show "\<exists>ms'. map_get (rg_queryMembers (entry_added v e sb b)) q = Some ms' \<and> set ms \<subseteq> set ms'"
    proof (cases "w_queryId v = Some q")
      case True
      then show ?thesis using q m [of q] by (auto simp: js_map_simps)
    next
      case False
      then have "map_get (rg_queryMembers a) q = Some ms"
        using q by (cases "w_queryId v") (auto simp: js_map_simps)
      from registry_le_members [OF le this] show ?thesis
        using False by (cases "w_queryId v") (auto simp: js_map_simps)
    qed
  next
    show "rg_itemCount (entry_added v e sa a) \<le> rg_itemCount (entry_added v e sb b)"
      using registry_le_count [OF le] by simp
  qed
qed

section \<open>One window\<close>

lemma entries_le: "fold_result (register_entry v) es r = Inr r' \<Longrightarrow> registry_le r r'"
proof (induction es arbitrary: r)
  case (Cons e es)
  then obtain m where m: "register_entry v e r = Inr m" "fold_result (register_entry v) es m = Inr r'"
    by (auto simp: result_simps)
  have "registry_le r m"
    using m(1) by (auto simp: register_entry_Inr intro: entry_added_le)
  then show ?case using Cons.IH [OF m(2)] by (rule registry_le_trans)
qed simp

lemma entries_mono:
  assumes "fold_result (register_entry v) es b = Inr b'" "registry_le a b" "map_get (rg_sections a) (w_sectionId v) \<noteq> None"
  shows "\<exists>a'. fold_result (register_entry v) es a = Inr a' \<and> registry_le a' b'"
  using assms
proof (induction es arbitrary: a b)
  case (Cons e es)
  then obtain m where m: "register_entry v e b = Inr m" "fold_result (register_entry v) es m = Inr b'"
    by (auto simp: result_simps)
  obtain sa where sa: "map_get (rg_sections a) (w_sectionId v) = Some sa"
    using Cons.prems(3) by auto
  from m(1) obtain sb where sb: "map_get (rg_sections b) (w_sectionId v) = Some sb" "entry_admitted e sb b"
    "m = entry_added v e sb b" by (auto simp: register_entry_Inr)
  note step = entry_added_mono [OF Cons.prems(2) sb(1,2) sa]
  have "register_entry v e a = Inr (entry_added v e sa a)"
    using sa step(1) by (auto simp: register_entry_Inr)
  moreover have "\<exists>a'. fold_result (register_entry v) es (entry_added v e sa a) = Inr a' \<and> registry_le a' b'"
    by (rule Cons.IH [OF m(2) step(2) [folded sb(3)]]) (simp add: js_map_simps)
  ultimately show ?case by simp
qed simp

definition opened :: "registered_window \<Rightarrow> registry \<Rightarrow> registry" where
  "opened w r = (let r1 = r\<lparr>rg_itemCount := rg_itemCount r + int (length (rw_items w))\<rparr> in
     case map_get (rg_sections r) (w_sectionId (rw_value w)) of
       None \<Rightarrow> r1\<lparr>rg_sections := map_set (w_sectionId (rw_value w))
         \<lparr>sec_order = w_sectionOrder (rw_value w), sec_queryId = w_queryId (rw_value w), sec_positions = []\<rparr> (rg_sections r)\<rparr>
     | Some _ \<Rightarrow> r1)"

definition section_fits :: "selection_window \<Rightarrow> registry \<Rightarrow> bool" where
  "section_fits v r \<longleftrightarrow> (\<forall>sec. map_get (rg_sections r) (w_sectionId v) = Some sec \<longrightarrow>
     sec_order sec = w_sectionOrder v \<and> sec_queryId sec = w_queryId v)"

lemma opened_fields [simp]:
  "rg_items (opened w r) = rg_items r" "rg_positions (opened w r) = rg_positions r"
  "rg_queryMembers (opened w r) = rg_queryMembers r"
  "rg_itemCount (opened w r) = rg_itemCount r + int (length (rw_items w))"
  by (simp_all add: opened_def Let_def split: option.split)

lemma opened_section:
  "section_fits (rw_value w) r \<Longrightarrow> \<exists>sec. map_get (rg_sections (opened w r)) (w_sectionId (rw_value w)) = Some sec
     \<and> sec_order sec = w_sectionOrder (rw_value w) \<and> sec_queryId sec = w_queryId (rw_value w)"
  by (auto simp: opened_def Let_def section_fits_def js_map_simps split: option.split)

lemma register_window_eq:
  "register_window l w r =
     (if \<not> rg_itemCount r + int (length (rw_items w)) \<le> li_maxRegisteredItems l then Inl Registration_limit
      else if \<not> section_fits (rw_value w) r then Inl Conflicting_windows
      else fold_result (register_entry (rw_value w)) (indexed (w_start (rw_value w)) (rw_items w)) (opened w r))"
proof (cases "map_get (rg_sections r) (w_sectionId (rw_value w))")
  case None
  then show ?thesis
    by (simp add: register_window_def Let_def require_then opened_def section_fits_def js_map_simps)
next
  case (Some sec)
  then show ?thesis
    by (simp add: register_window_def Let_def require_then opened_def section_fits_def)
qed

lemma opened_le: "registry_le r (opened w r)"
proof (rule registry_leI)
  show "\<exists>sec'. map_get (rg_sections (opened w r)) k = Some sec' \<and> section_le s sec'"
    if "map_get (rg_sections r) k = Some s" for k s
    using that by (auto simp: opened_def Let_def js_map_simps split: option.split)
qed simp_all

lemma opened_mono:
  assumes le: "registry_le a b" and fits: "section_fits (rw_value w) b"
  shows "section_fits (rw_value w) a" "registry_le (opened w a) (opened w b)"
proof -
  show "section_fits (rw_value w) a"
    using fits registry_le_section [OF le] unfolding section_fits_def section_le_def by metis
  obtain sec where sec: "map_get (rg_sections (opened w b)) (w_sectionId (rw_value w)) = Some sec"
    "sec_order sec = w_sectionOrder (rw_value w)" "sec_queryId sec = w_queryId (rw_value w)"
    using opened_section [OF fits] by blast
  have "\<exists>sec'. map_get (rg_sections (opened w b)) k = Some sec' \<and> section_le s sec'"
    if s: "map_get (rg_sections (opened w a)) k = Some s" for k s
  proof (cases "map_get (rg_sections a) k")
    case None
    then have "k = w_sectionId (rw_value w)"
      "s = \<lparr>sec_order = w_sectionOrder (rw_value w), sec_queryId = w_queryId (rw_value w), sec_positions = []\<rparr>"
      using s by (auto simp: opened_def Let_def js_map_simps split: option.splits if_splits)
    then show ?thesis using sec by (simp add: section_le_def)
  next
    case (Some s')
    then have "s' = s"
      using s by (auto simp: opened_def Let_def js_map_simps split: option.splits if_splits)
    then show ?thesis
      using registry_le_section [OF registry_le_trans [OF le opened_le]] Some by blast
  qed
  then show "registry_le (opened w a) (opened w b)"
    by (rule registry_leI)
      (use registry_le_item [OF le] registry_le_members [OF le] registry_le_count [OF le] in simp_all)
qed

lemma window_le: "register_window l w r = Inr r' \<Longrightarrow> registry_le r r'"
  using registry_le_trans [OF opened_le entries_le]
  by (auto simp: register_window_eq split: if_splits)

lemma window_mono:
  assumes "register_window l w b = Inr b'" "registry_le a b"
  shows "\<exists>a'. register_window l w a = Inr a' \<and> registry_le a' b'"
proof -
  from assms(1) have b: "rg_itemCount b + int (length (rw_items w)) \<le> li_maxRegisteredItems l" "section_fits (rw_value w) b"
    "fold_result (register_entry (rw_value w)) (indexed (w_start (rw_value w)) (rw_items w)) (opened w b) = Inr b'"
    by (auto simp: register_window_eq split: if_splits)
  note op = opened_mono [OF assms(2) b(2)]
  have "map_get (rg_sections (opened w a)) (w_sectionId (rw_value w)) \<noteq> None"
    using opened_section [OF op(1)] by auto
  from entries_mono [OF b(3) op(2) this] show ?thesis
    using b(1) op(1) registry_le_count [OF assms(2)] by (simp add: register_window_eq)
qed

section \<open>All windows\<close>

lemma windows_mono:
  assumes "fold_result (register_window l) (map snd ws) b = Inr b'" "registry_le a b"
  shows "\<exists>a'. fold_result (register_window l) (map snd (filter P ws)) a = Inr a' \<and> registry_le a' b'"
  using assms
proof (induction ws arbitrary: a b)
  case (Cons w ws)
  then obtain m where m: "register_window l (snd w) b = Inr m" "fold_result (register_window l) (map snd ws) m = Inr b'"
    by (auto simp: result_simps)
  show ?case
  proof (cases "P w")
    case True
    obtain n where n: "register_window l (snd w) a = Inr n" "registry_le n m"
      using window_mono [OF m(1) Cons.prems(2)] by blast
    show ?thesis using Cons.IH [OF m(2) n(2)] n(1) True by simp
  next
    case False
    have "registry_le a m"
      using Cons.prems(2) window_le [OF m(1)] by (rule registry_le_trans)
    then show ?thesis using Cons.IH [OF m(2)] False by simp
  qed
qed simp

lemma buildRegistry_filter:
  "buildRegistry l ws = Inr r \<Longrightarrow> \<exists>r'. buildRegistry l (filter P ws) = Inr r' \<and> registry_le r' r"
  unfolding buildRegistry_def by (rule windows_mono [OF _ registry_le_refl])

lemma map_del_filter: "map_del k m = filter (\<lambda>(k', _). k' \<noteq> k) m"
  by (induction m) auto

lemma windows_le: "fold_result (register_window l) ws r = Inr r' \<Longrightarrow> registry_le r r'"
proof (induction ws arbitrary: r)
  case (Cons w ws)
  then show ?case using registry_le_trans [OF window_le] by (fastforce simp: result_simps)
qed simp

section \<open>Contents\<close>

text \<open>
  \<open>registry_ok E Q r\<close>: the registry holds entries of \<open>E\<close> and members of queries of \<open>Q\<close>, under their
  own keys, each with a position; positions and members are registered entries.
\<close>

definition registry_ok :: "selected_item set \<Rightarrow> string set \<Rightarrow> registry \<Rightarrow> bool" where
  "registry_ok E Q r \<longleftrightarrow>
     (\<forall>k e. map_get (rg_items r) k = Some e \<longrightarrow> se_key e = k \<and> e \<in> E \<and> map_has (rg_positions r) k)
     \<and> (\<forall>q ms. map_get (rg_queryMembers r) q = Some ms \<longrightarrow> q \<in> Q \<and> (\<forall>k \<in> set ms. map_has (rg_items r) k))
     \<and> (\<forall>k sec. map_get (rg_sections r) k = Some sec \<longrightarrow> map_wf (sec_positions sec)
          \<and> (\<forall>i e. map_get (sec_positions sec) i = Some e \<longrightarrow> map_has (rg_items r) (se_key e)))"

lemma registry_okI:
  assumes "\<And>k e. map_get (rg_items r) k = Some e \<Longrightarrow> se_key e = k \<and> e \<in> E \<and> map_has (rg_positions r) k"
    and "\<And>q ms. map_get (rg_queryMembers r) q = Some ms \<Longrightarrow> q \<in> Q"
    and "\<And>q ms k. map_get (rg_queryMembers r) q = Some ms \<Longrightarrow> k \<in> set ms \<Longrightarrow> map_has (rg_items r) k"
    and "\<And>k sec. map_get (rg_sections r) k = Some sec \<Longrightarrow> map_wf (sec_positions sec)"
    and "\<And>k sec i e. map_get (rg_sections r) k = Some sec \<Longrightarrow> map_get (sec_positions sec) i = Some e \<Longrightarrow> map_has (rg_items r) (se_key e)"
  shows "registry_ok E Q r"
  unfolding registry_ok_def using assms by blast

lemma registry_okD:
  assumes "registry_ok E Q r"
  shows "map_get (rg_items r) k = Some e \<Longrightarrow> se_key e = k"
    and "map_get (rg_items r) k = Some e \<Longrightarrow> e \<in> E"
    and "map_get (rg_items r) k = Some e \<Longrightarrow> map_has (rg_positions r) k"
    and "map_get (rg_queryMembers r) q = Some ms \<Longrightarrow> q \<in> Q"
    and "map_get (rg_queryMembers r) q = Some ms \<Longrightarrow> k \<in> set ms \<Longrightarrow> map_has (rg_items r) k"
    and "map_get (rg_sections r) x = Some sec \<Longrightarrow> map_wf (sec_positions sec)"
    and "map_get (rg_sections r) x = Some sec \<Longrightarrow> map_get (sec_positions sec) i = Some f \<Longrightarrow> map_has (rg_items r) (se_key f)"
  using assms unfolding registry_ok_def by blast+

lemma registry_ok_empty [simp]: "registry_ok E Q emptyRegistry"
  by (rule registry_okI) (simp_all add: emptyRegistry_def)

lemma entry_added_ok:
  assumes ok: "registry_ok E Q r" and sec: "map_get (rg_sections r) (w_sectionId v) = Some sec"
    and e: "snd e \<in> E" "\<And>q. w_queryId v = Some q \<Longrightarrow> q \<in> Q"
  shows "registry_ok E Q (entry_added v e sec r)"
proof (rule registry_okI)
  fix k x assume "map_get (rg_items (entry_added v e sec r)) k = Some x"
  then show "se_key x = k \<and> x \<in> E \<and> map_has (rg_positions (entry_added v e sec r)) k"
    using registry_okD(1,2,3) [OF ok, of k x] e(1)
    unfolding entry_added_positions by (simp add: js_map_simps split: if_splits)
next
  fix q ms assume q: "map_get (rg_queryMembers (entry_added v e sec r)) q = Some ms"
  show "q \<in> Q"
  proof (cases "w_queryId v = Some q")
    case False
    then have "map_get (rg_queryMembers r) q = Some ms"
      using q by (cases "w_queryId v") (auto simp: js_map_simps)
    then show ?thesis by (rule registry_okD(4) [OF ok])
  qed (rule e(2))
  fix k assume k: "k \<in> set ms"
  have "k = se_key (snd e) \<or> map_has (rg_items r) k"
  proof (cases "w_queryId v = Some q")
    case True
    then have "k = se_key (snd e) \<or> k \<in> set (members_of r q)"
      using q k by (auto simp: js_map_simps)
    then show ?thesis
      using registry_okD(5) [OF ok, of q _ k] by (cases "map_get (rg_queryMembers r) q") (auto simp: members_of_def)
  next
    case False
    then have "map_get (rg_queryMembers r) q = Some ms"
      using q by (cases "w_queryId v") (auto simp: js_map_simps)
    then show ?thesis using registry_okD(5) [OF ok] k by blast
  qed
  then show "map_has (rg_items (entry_added v e sec r)) k"
    by (auto simp: js_map_simps)
next
  fix k s assume s: "map_get (rg_sections (entry_added v e sec r)) k = Some s"
  show "map_wf (sec_positions s)"
    using s registry_okD(6) [OF ok] sec by (auto simp: js_map_simps split: if_splits)
  fix i x assume i: "map_get (sec_positions s) i = Some x"
  have "x = snd e \<or> (\<exists>s'. map_get (rg_sections r) k = Some s' \<and> map_get (sec_positions s') i = Some x)"
    using s i sec by (auto simp: js_map_simps split: if_splits)
  then show "map_has (rg_items (entry_added v e sec r)) (se_key x)"
    using registry_okD(7) [OF ok] by (auto simp: js_map_simps)
qed

lemma opened_ok:
  assumes ok: "registry_ok E Q r"
  shows "registry_ok E Q (opened w r)"
proof (rule registry_okI)
  fix k sec assume s: "map_get (rg_sections (opened w r)) k = Some sec"
  have c: "sec_positions sec = [] \<or> map_get (rg_sections r) k = Some sec"
    using s by (auto simp: opened_def Let_def js_map_simps split: option.splits if_splits)
  then show "map_wf (sec_positions sec)"
    using registry_okD(6) [OF ok] by auto
  show "map_has (rg_items (opened w r)) (se_key e)" if "map_get (sec_positions sec) i = Some e" for i e
    using c that registry_okD(7) [OF ok, of k sec i e] by auto
next
  show "se_key e = k \<and> e \<in> E \<and> map_has (rg_positions (opened w r)) k" if "map_get (rg_items (opened w r)) k = Some e" for k e
    using that registry_okD(1-3) [OF ok, of k e] by simp
  show "q \<in> Q" if "map_get (rg_queryMembers (opened w r)) q = Some ms" for q ms
    using that registry_okD(4) [OF ok] by simp
  show "map_has (rg_items (opened w r)) k" if "map_get (rg_queryMembers (opened w r)) q = Some ms" "k \<in> set ms" for q ms k
    using that registry_okD(5) [OF ok] by simp
qed

lemma sel_entries_ok:
  assumes "fold_result (register_entry v) es r = Inr r'" "registry_ok E Q r"
    "snd ` set es \<subseteq> E" "\<And>q. w_queryId v = Some q \<Longrightarrow> q \<in> Q"
  shows "registry_ok E Q r'"
proof (rule fold_result_invariant [where P = "registry_ok E Q", OF assms(1,2)])
  fix x s s' assume "x \<in> set es" "registry_ok E Q s" "register_entry v x s = Inr s'"
  then show "registry_ok E Q s'"
    using assms(3,4) by (auto simp: register_entry_Inr intro!: entry_added_ok)
qed

lemma indexed_snd [simp]: "map snd (indexed n xs) = xs"
  by (simp add: indexed_def comp_def split_def)

lemma indexed_set [simp]: "snd ` set (indexed n xs) = set xs"
  by (metis indexed_snd set_map)

lemma window_ok:
  assumes "register_window l w r = Inr r'" "registry_ok E Q r" "set (rw_items w) \<subseteq> E"
    "\<And>q. w_queryId (rw_value w) = Some q \<Longrightarrow> q \<in> Q"
  shows "registry_ok E Q r'"
proof -
  from assms(1) have "fold_result (register_entry (rw_value w)) (indexed (w_start (rw_value w)) (rw_items w)) (opened w r) = Inr r'"
    by (simp add: register_window_eq split: if_splits)
  then show ?thesis
    by (rule sel_entries_ok [OF _ opened_ok [OF assms(2)]]) (use assms(3,4) in simp_all)
qed

definition window_entries :: "(string, registered_window) js_map \<Rightarrow> selected_item set" where
  "window_entries ws = (\<Union>w \<in> snd ` set ws. set (rw_items w))"

definition window_queries :: "(string, registered_window) js_map \<Rightarrow> string set" where
  "window_queries ws = {q. \<exists>w \<in> snd ` set ws. w_queryId (rw_value w) = Some q}"

lemma buildRegistry_ok:
  "buildRegistry l ws = Inr r \<Longrightarrow> registry_ok (window_entries ws) (window_queries ws) r"
proof -
  assume e: "buildRegistry l ws = Inr r"
  show ?thesis
  proof (rule fold_result_invariant [where P = "registry_ok (window_entries ws) (window_queries ws)", OF e [unfolded buildRegistry_def]])
    fix w s s' assume w: "w \<in> set (map_values ws)" "registry_ok (window_entries ws) (window_queries ws) s"
      "register_window l w s = Inr s'"
    show "registry_ok (window_entries ws) (window_queries ws) s'"
      by (rule window_ok [OF w(3,2)]) (use w(1) in \<open>auto simp: window_entries_def window_queries_def\<close>)
  qed simp
qed

section \<open>Nothing is left out\<close>

lemma entries_present:
  assumes "fold_result (register_entry v) es r = Inr r'" "(i, e) \<in> set es"
  shows "map_has (rg_items r') (se_key e)"
    and "w_queryId v = Some q \<Longrightarrow> \<exists>ms. map_get (rg_queryMembers r') q = Some ms \<and> se_key e \<in> set ms"
    and "\<exists>sec x. map_get (rg_sections r') (w_sectionId v) = Some sec \<and> map_get (sec_positions sec) i = Some x \<and> se_key x = se_key e"
proof -
  obtain pre post where es: "es = pre @ (i, e) # post"
    using split_list [OF assms(2)] by blast
  from assms(1) obtain a b where ab: "register_entry v (i, e) a = Inr b" "fold_result (register_entry v) post b = Inr r'"
    unfolding es fold_result_append by (auto simp: result_simps)
  from ab(1) obtain sec where sec: "map_get (rg_sections a) (w_sectionId v) = Some sec" and b: "b = entry_added v (i, e) sec a"
    by (auto simp: register_entry_Inr)
  note le = entries_le [OF ab(2)]
  have "map_get (rg_items b) (se_key e) = Some e"
    by (simp add: b js_map_simps)
  from registry_le_item [OF le this] show "map_has (rg_items r') (se_key e)"
    by auto
  show "\<exists>ms. map_get (rg_queryMembers r') q = Some ms \<and> se_key e \<in> set ms" if "w_queryId v = Some q"
  proof -
    have "map_get (rg_queryMembers b) q = Some (set_add (se_key e) (members_of a q))"
      using that by (simp add: b js_map_simps)
    from registry_le_members [OF le this] show ?thesis by auto
  qed
  have "map_get (rg_sections b) (w_sectionId v) = Some (sec\<lparr>sec_positions := map_set i e (sec_positions sec)\<rparr>)"
    by (simp add: b js_map_simps)
  from registry_le_section [OF le this] obtain sec' where
    "map_get (rg_sections r') (w_sectionId v) = Some sec'" "section_le (sec\<lparr>sec_positions := map_set i e (sec_positions sec)\<rparr>) sec'"
    by blast
  moreover from this(2) have "\<exists>x. map_get (sec_positions sec') i = Some x \<and> se_key x = se_key e"
    unfolding section_le_def by (simp add: js_map_simps)
  ultimately show "\<exists>sec x. map_get (rg_sections r') (w_sectionId v) = Some sec \<and> map_get (sec_positions sec) i = Some x \<and> se_key x = se_key e"
    by blast
qed

lemma indexed_mem: "j < length xs \<Longrightarrow> (n + int j, xs ! j) \<in> set (indexed n xs)"
  by (auto simp: indexed_def in_set_enumerate_eq image_iff intro!: bexI [of _ "(j, xs ! j)"])

lemma windows_present:
  assumes "buildRegistry l ws = Inr r" "(k, w) \<in> set ws" "j < length (rw_items w)"
  shows "map_has (rg_items r) (se_key (rw_items w ! j))"
    and "w_queryId (rw_value w) = Some q \<Longrightarrow> \<exists>ms. map_get (rg_queryMembers r) q = Some ms \<and> se_key (rw_items w ! j) \<in> set ms"
    and "\<exists>sec x. map_get (rg_sections r) (w_sectionId (rw_value w)) = Some sec
      \<and> map_get (sec_positions sec) (w_start (rw_value w) + int j) = Some x \<and> se_key x = se_key (rw_items w ! j)"
proof -
  obtain pre post where ws: "ws = pre @ (k, w) # post"
    using split_list [OF assms(2)] by blast
  from assms(1) obtain a b where ab: "register_window l w a = Inr b" "fold_result (register_window l) (map snd post) b = Inr r"
    unfolding buildRegistry_def ws by (auto simp: result_simps fold_result_append)
  from ab(1) have e: "fold_result (register_entry (rw_value w)) (indexed (w_start (rw_value w)) (rw_items w)) (opened w a) = Inr b"
    by (simp add: register_window_eq split: if_splits)
  note p = entries_present [OF e indexed_mem [OF assms(3)]]
  note le = windows_le [OF ab(2)]
  show "map_has (rg_items r) (se_key (rw_items w ! j))"
    using p(1) registry_le_item [OF le] by fastforce
  show "\<exists>ms. map_get (rg_queryMembers r) q = Some ms \<and> se_key (rw_items w ! j) \<in> set ms" if "w_queryId (rw_value w) = Some q"
    using p(2) [OF that] registry_le_members [OF le] by blast
  from p(3) obtain sec x where s: "map_get (rg_sections b) (w_sectionId (rw_value w)) = Some sec"
    "map_get (sec_positions sec) (w_start (rw_value w) + int j) = Some x" "se_key x = se_key (rw_items w ! j)" by blast
  from registry_le_section [OF le s(1)] obtain sec' where
    s': "map_get (rg_sections r) (w_sectionId (rw_value w)) = Some sec'" "section_le sec sec'" by blast
  from s'(2) s(2) obtain y where "map_get (sec_positions sec') (w_start (rw_value w) + int j) = Some y" "se_key y = se_key x"
    unfolding section_le_def by blast
  then show "\<exists>sec x. map_get (rg_sections r) (w_sectionId (rw_value w)) = Some sec
      \<and> map_get (sec_positions sec) (w_start (rw_value w) + int j) = Some x \<and> se_key x = se_key (rw_items w ! j)"
    using s'(1) s(3) by auto
qed

lemma buildRegistry_count:
  assumes "buildRegistry l ws = Inr r" "ws \<noteq> [] \<or> 0 \<le> li_maxRegisteredItems l"
  shows "rg_itemCount r \<le> li_maxRegisteredItems l"
proof -
  have count: "rg_itemCount r' = rg_itemCount r + int (length (rw_items w)) \<and> rg_itemCount r' \<le> li_maxRegisteredItems l"
    if w: "register_window l w r = Inr r'" for w r r'
  proof -
    have "rg_itemCount r' = rg_itemCount (opened w r)"
      if "fold_result (register_entry (rw_value w)) es (opened w r) = Inr r'" for es
      by (rule fold_result_invariant [OF that]) (auto simp: register_entry_Inr)
    then show ?thesis using w by (auto simp: register_window_eq split: if_splits)
  qed
  show ?thesis
  proof (cases ws rule: rev_cases)
    case Nil
    then have "r = emptyRegistry" using assms(1) by (simp add: buildRegistry_def)
    then show ?thesis using Nil assms(2) by (simp add: emptyRegistry_def)
  next
    case (snoc ws' w)
    then show ?thesis using assms(1) count by (auto simp: buildRegistry_def fold_result_append result_simps)
  qed
qed

section \<open>No property of \<open>undefined\<close> is read\<close>

lemma entries_no_type_error:
  assumes "map_get (rg_sections r) (w_sectionId v) \<noteq> None"
  shows "fold_result (register_entry v) es r \<noteq> Inl Type_error"
  using assms
proof (induction es arbitrary: r)
  case (Cons e es)
  show ?case
  proof (cases "register_entry v e r")
    case (Inl x)
    then show ?thesis using Cons.prems by (auto simp: register_entry_eq split: if_splits)
  next
    case (Inr m)
    then have "map_get (rg_sections m) (w_sectionId v) \<noteq> None"
      by (auto simp: register_entry_Inr js_map_simps)
    then show ?thesis using Inr Cons.IH by simp
  qed
qed simp

lemma buildRegistry_no_type_error: "buildRegistry l ws \<noteq> Inl Type_error"
proof
  assume "buildRegistry l ws = Inl Type_error"
  then obtain w r where w: "register_window l w r = Inl Type_error"
    unfolding buildRegistry_def by (rule fold_result_error) blast
  then have fits: "section_fits (rw_value w) r"
    and e: "fold_result (register_entry (rw_value w)) (indexed (w_start (rw_value w)) (rw_items w)) (opened w r) = Inl Type_error"
    by (auto simp: register_window_eq split: if_splits)
  have "map_get (rg_sections (opened w r)) (w_sectionId (rw_value w)) \<noteq> None"
    using opened_section [OF fits] by auto
  from entries_no_type_error [OF this] e show False by blast
qed

end
