(* ===== verification/Selection_Invariant.thy ===== *)
theory Selection_Invariant
  imports Selection_Registry Selection_Checks
begin

text \<open>
  The state invariant of the selection model and its preservation by every transition. Picks and
  exclusions carry the key of their identity in the current context, a whole selection is one of
  the registered queries and has no picks, the registry is the one built from the windows, and
  the snapshot describes the state.
\<close>

section \<open>The invariant\<close>

definition keyed_entry :: "'c selection_policy \<Rightarrow> 'c \<Rightarrow> string \<Rightarrow> selected_item \<Rightarrow> bool" where
  "keyed_entry p c k e \<longleftrightarrow> se_key e = k \<and> k = pol_key p c (it_identity (se_item e))"

definition window_good :: "'c selection_policy \<Rightarrow> 'c selection_model \<Rightarrow> string \<Rightarrow> registered_window \<Rightarrow> bool" where
  "window_good p s k w \<longleftrightarrow> w_id (rw_value w) = k
     \<and> (\<forall>e \<in> set (rw_items w). keyed_entry p (m_context s) (se_key e) e)
     \<and> (\<forall>q. w_queryId (rw_value w) = Some q \<longrightarrow> map_has (m_queries s) q)"

definition windows_ok :: "'c selection_policy \<Rightarrow> 'c selection_model \<Rightarrow> bool" where
  "windows_ok p s \<longleftrightarrow> map_wf (m_windows s)
     \<and> (\<forall>k w. map_get (m_windows s) k = Some w \<longrightarrow> window_good p s k w)
     \<and> buildRegistry (m_limits s) (m_windows s) = Inr (m_registry s)
     \<and> int (length (m_windows s)) \<le> li_maxWindows (m_limits s)"

definition queries_ok :: "'c selection_model \<Rightarrow> bool" where
  "queries_ok s \<longleftrightarrow> map_wf (m_queries s)
     \<and> (\<forall>k ref q. map_get (m_queries s) k = Some (ref, q) \<longrightarrow> q_id q = k)
     \<and> int (length (m_queries s)) \<le> li_maxQueries (m_limits s)"

definition picks_ok :: "'c selection_policy \<Rightarrow> 'c selection_model \<Rightarrow> bool" where
  "picks_ok p s \<longleftrightarrow> map_wf (m_chosen s) \<and> map_wf (m_excluded s)
     \<and> (\<forall>k x. map_get (m_chosen s) k = Some x \<longrightarrow> keyed_entry p (m_context s) k (pk_entry x))
     \<and> (\<forall>k e. map_get (m_excluded s) k = Some e \<longrightarrow> keyed_entry p (m_context s) k e)
     \<and> int (length (m_excluded s)) \<le> li_maxQueryExclusions (m_limits s)"

definition whole_ok :: "'c selection_model \<Rightarrow> bool" where
  "whole_ok s \<longleftrightarrow> (m_whole s = None \<longrightarrow> m_excluded s = [] \<and> m_wholeKind s = None)
     \<and> (\<forall>q. m_whole s = Some q \<longrightarrow> m_chosen s = [] \<and> (\<exists>ref. map_get (m_queries s) (q_id q) = Some (ref, q)))"

definition limits_ok :: "'c selection_model \<Rightarrow> bool" where
  "limits_ok s \<longleftrightarrow> 0 < li_maxWindows (m_limits s) \<and> 0 < li_maxRegisteredItems (m_limits s)
     \<and> 0 < li_maxQueries (m_limits s) \<and> 0 < li_maxQueryExclusions (m_limits s)"

definition books_ok :: "'c selection_model \<Rightarrow> bool" where
  "books_ok s \<longleftrightarrow> (\<forall>t g. map_get (m_readTickets s) t = Some g \<longrightarrow> t < m_nextRef s \<and> g \<le> m_readGeneration s)
     \<and> (\<forall>t g. map_get (m_operations s) t = Some g \<longrightarrow> t < m_nextRef s \<and> g \<le> m_operationGeneration s)"

definition disposed_ok :: "'c selection_model \<Rightarrow> bool" where
  "disposed_ok s \<longleftrightarrow> (m_disposed s \<longrightarrow> m_windows s = [] \<and> m_queries s = [] \<and> m_chosen s = [] \<and> m_whole s = None)"

definition core_ok :: "'c selection_policy \<Rightarrow> 'c selection_model \<Rightarrow> bool" where
  "core_ok p s \<longleftrightarrow> windows_ok p s \<and> queries_ok s \<and> picks_ok p s \<and> whole_ok s \<and> limits_ok s \<and> books_ok s \<and> disposed_ok s"

text \<open>The snapshot \<open>publish\<close> takes of the state.\<close>

definition snapshot_at :: "'c selection_model \<Rightarrow> 'c selection_snapshot" where
  "snapshot_at s = \<lparr>sn_version = m_version s, sn_context = m_context s, sn_active = (sm_count (fst (target_of s)) > 0),
     sn_summary = fst (target_of s), sn_target = snd (target_of s), sn_selectedKeys = map_keys (m_chosen s),
     sn_lastSectionId = m_lastSectionId s, sn_windowCount = length (m_windows s), sn_itemCount = rg_itemCount (m_registry s)\<rparr>"

definition model_ok :: "'c selection_policy \<Rightarrow> 'c selection_model \<Rightarrow> bool" where
  "model_ok p s \<longleftrightarrow> core_ok p s \<and> m_snapshot s = Some (snapshot_at s)"

lemma window_good_cong:
  "m_context s = m_context t \<Longrightarrow> m_queries s = m_queries t \<Longrightarrow> window_good p s = window_good p t"
  by (simp add: window_good_def fun_eq_iff)

lemma windows_ok_cong:
  "m_context s = m_context t \<Longrightarrow> m_queries s = m_queries t \<Longrightarrow> m_windows s = m_windows t
   \<Longrightarrow> m_registry s = m_registry t \<Longrightarrow> m_limits s = m_limits t \<Longrightarrow> windows_ok p s = windows_ok p t"
  by (simp add: windows_ok_def window_good_def)

lemmas core_defs = core_ok_def windows_ok_def window_good_def queries_ok_def picks_ok_def whole_ok_def limits_ok_def
  books_ok_def disposed_ok_def

section \<open>Publishing and counting\<close>

lemma target_of_cong:
  "m_context s = m_context t \<Longrightarrow> m_whole s = m_whole t \<Longrightarrow> m_wholeKind s = m_wholeKind t
   \<Longrightarrow> m_excluded s = m_excluded t \<Longrightarrow> m_chosen s = m_chosen t \<Longrightarrow> target_of s = target_of t"
  by (cases "m_whole t") (simp_all add: target_of_def querySummary_def Let_def)

lemma publish_fields [simp]:
  "m_context (publish s) = m_context s" "m_limits (publish s) = m_limits s" "m_windows (publish s) = m_windows s"
  "m_queries (publish s) = m_queries s" "m_registry (publish s) = m_registry s" "m_chosen (publish s) = m_chosen s"
  "m_whole (publish s) = m_whole s" "m_wholeKind (publish s) = m_wholeKind s" "m_excluded (publish s) = m_excluded s"
  "m_anchor (publish s) = m_anchor s" "m_lastSectionId (publish s) = m_lastSectionId s" "m_disposed (publish s) = m_disposed s"
  "m_readGeneration (publish s) = m_readGeneration s" "m_operationGeneration (publish s) = m_operationGeneration s"
  "m_readTickets (publish s) = m_readTickets s" "m_operations (publish s) = m_operations s"
  "m_listeners (publish s) = m_listeners s" "m_nextRef (publish s) = m_nextRef s"
  "m_version (publish s) = Suc (m_version s)"
  by (simp_all add: publish_def Let_def)

lemma publish_target [simp]: "target_of (publish s) = target_of s"
  by (rule target_of_cong) simp_all

lemma publish_core [simp]: "core_ok p (publish s) = core_ok p s"
  by (simp add: core_defs)

lemma publish_model: "core_ok p s \<Longrightarrow> model_ok p (publish s)"
  unfolding model_ok_def by (simp add: snapshot_at_def) (simp add: publish_def Let_def)

lemma model_core [simp]: "model_ok p s \<Longrightarrow> core_ok p s"
  by (simp add: model_ok_def)

lemma bump_fields [simp]:
  "m_context (bump_operation s) = m_context s" "m_limits (bump_operation s) = m_limits s" "m_windows (bump_operation s) = m_windows s"
  "m_queries (bump_operation s) = m_queries s" "m_registry (bump_operation s) = m_registry s" "m_chosen (bump_operation s) = m_chosen s"
  "m_whole (bump_operation s) = m_whole s" "m_wholeKind (bump_operation s) = m_wholeKind s" "m_excluded (bump_operation s) = m_excluded s"
  "m_anchor (bump_operation s) = m_anchor s" "m_lastSectionId (bump_operation s) = m_lastSectionId s" "m_disposed (bump_operation s) = m_disposed s"
  "m_readGeneration (bump_operation s) = m_readGeneration s" "m_operationGeneration (bump_operation s) = Suc (m_operationGeneration s)"
  "m_readTickets (bump_operation s) = m_readTickets s" "m_operations (bump_operation s) = m_operations s"
  "m_listeners (bump_operation s) = m_listeners s" "m_nextRef (bump_operation s) = m_nextRef s" "m_version (bump_operation s) = m_version s"
  by (simp_all add: bump_operation_def)

lemma bump_read_fields [simp]:
  "m_context (bump_read s) = m_context s" "m_limits (bump_read s) = m_limits s" "m_windows (bump_read s) = m_windows s"
  "m_queries (bump_read s) = m_queries s" "m_registry (bump_read s) = m_registry s" "m_chosen (bump_read s) = m_chosen s"
  "m_whole (bump_read s) = m_whole s" "m_wholeKind (bump_read s) = m_wholeKind s" "m_excluded (bump_read s) = m_excluded s"
  "m_anchor (bump_read s) = m_anchor s" "m_lastSectionId (bump_read s) = m_lastSectionId s" "m_disposed (bump_read s) = m_disposed s"
  "m_readGeneration (bump_read s) = Suc (m_readGeneration s)" "m_operationGeneration (bump_read s) = m_operationGeneration s"
  "m_readTickets (bump_read s) = m_readTickets s" "m_operations (bump_read s) = m_operations s"
  "m_listeners (bump_read s) = m_listeners s" "m_nextRef (bump_read s) = m_nextRef s" "m_version (bump_read s) = m_version s"
  by (simp_all add: bump_read_def)

lemma bump_core [simp]: "core_ok p s \<Longrightarrow> core_ok p (bump_operation s)"
  by (auto simp: core_defs intro: le_SucI)

lemma bump_read_core [simp]: "core_ok p s \<Longrightarrow> core_ok p (bump_read s)"
  by (auto simp: core_defs intro: le_SucI)

lemma publish_bump: "core_ok p s \<Longrightarrow> model_ok p (publish (bump_operation s))"
  by (rule publish_model) simp

section \<open>Picks\<close>

lemma reset_fields [simp]:
  "m_context (resetPicks s) = m_context s" "m_limits (resetPicks s) = m_limits s" "m_windows (resetPicks s) = m_windows s"
  "m_queries (resetPicks s) = m_queries s" "m_registry (resetPicks s) = m_registry s" "m_chosen (resetPicks s) = []"
  "m_whole (resetPicks s) = None" "m_wholeKind (resetPicks s) = None" "m_excluded (resetPicks s) = []"
  "m_anchor (resetPicks s) = None" "m_lastSectionId (resetPicks s) = None" "m_disposed (resetPicks s) = m_disposed s"
  "m_readGeneration (resetPicks s) = m_readGeneration s" "m_operationGeneration (resetPicks s) = m_operationGeneration s"
  "m_readTickets (resetPicks s) = m_readTickets s" "m_operations (resetPicks s) = m_operations s"
  "m_listeners (resetPicks s) = m_listeners s" "m_nextRef (resetPicks s) = m_nextRef s" "m_version (resetPicks s) = m_version s"
  by (simp_all add: resetPicks_def)

lemma reset_core [simp]: "core_ok p s \<Longrightarrow> core_ok p (resetPicks s)"
  by (simp add: core_defs)

lemma registry_entry_ok:
  assumes w: "windows_ok p s" and k: "map_get (rg_items (m_registry s)) k = Some e"
  shows "keyed_entry p (m_context s) k e"
proof -
  have r: "registry_ok (window_entries (m_windows s)) (window_queries (m_windows s)) (m_registry s)"
    by (rule buildRegistry_ok [of "m_limits s"]) (use w in \<open>simp add: windows_ok_def\<close>)
  have "se_key e = k" "e \<in> window_entries (m_windows s)"
    using registry_okD(1,2) [OF r k] by auto
  then show ?thesis
    using w by (auto simp: window_entries_def windows_ok_def window_good_def map_wf_in_set)
qed

lemma addPick_core: "core_ok p s \<Longrightarrow> m_whole s = None \<Longrightarrow> \<not> m_disposed s \<Longrightarrow> core_ok p (addPick k pos s)"
proof -
  assume ok: "core_ok p s" and w: "m_whole s = None" "\<not> m_disposed s"
  show ?thesis
  proof (cases "map_has (m_chosen s) k \<or> map_get (rg_items (m_registry s)) k = None")
    case True
    then show ?thesis using ok by (auto simp: addPick_def)
  next
    case False
    then obtain e where e: "map_get (rg_items (m_registry s)) k = Some e" by auto
    have "keyed_entry p (m_context s) k e"
      using ok by (intro registry_entry_ok [OF _ e]) (simp add: core_ok_def)
    then show ?thesis
      using ok w False e by (simp add: addPick_def core_defs js_map_simps)
  qed
qed

lemma addPick_fields [simp]:
  "m_context (addPick k pos s) = m_context s" "m_limits (addPick k pos s) = m_limits s" "m_windows (addPick k pos s) = m_windows s"
  "m_queries (addPick k pos s) = m_queries s" "m_registry (addPick k pos s) = m_registry s"
  "m_whole (addPick k pos s) = m_whole s" "m_wholeKind (addPick k pos s) = m_wholeKind s" "m_excluded (addPick k pos s) = m_excluded s"
  "m_anchor (addPick k pos s) = m_anchor s" "m_lastSectionId (addPick k pos s) = m_lastSectionId s" "m_disposed (addPick k pos s) = m_disposed s"
  "m_readGeneration (addPick k pos s) = m_readGeneration s" "m_operationGeneration (addPick k pos s) = m_operationGeneration s"
  "m_readTickets (addPick k pos s) = m_readTickets s" "m_operations (addPick k pos s) = m_operations s"
  "m_listeners (addPick k pos s) = m_listeners s" "m_nextRef (addPick k pos s) = m_nextRef s" "m_version (addPick k pos s) = m_version s"
  by (simp_all add: addPick_def split: option.split)

lemma addPick_fold:
  assumes "core_ok p s" "m_whole s = None" "\<not> m_disposed s"
  shows "core_ok p (fold (\<lambda>x. addPick (f x) (g x)) xs s) \<and> m_whole (fold (\<lambda>x. addPick (f x) (g x)) xs s) = None
    \<and> \<not> m_disposed (fold (\<lambda>x. addPick (f x) (g x)) xs s)"
  using assms
proof (induction xs arbitrary: s)
  case (Cons x xs)
  show ?case
    using Cons.IH [OF addPick_core [OF Cons.prems]] Cons.prems by simp
qed simp

section \<open>Reconciling with the registry\<close>

lemma reconcile_fst [simp]: "fst (reconcile_pick r kp) = fst kp" "fst (reconcile_excluded r ke) = fst ke"
  by (auto simp: reconcile_pick_def reconcile_excluded_def split: option.split)

lemma map_of_map_fst:
  assumes "\<And>kv. fst (f kv) = fst kv"
  shows "map_of (map f m) k = map_option (\<lambda>v. snd (f (k, v))) (map_of m k)"
proof (induction m)
  case (Cons a m)
  show ?case using Cons assms [of a] by (cases a; cases "f a") auto
qed simp

lemma map_keys_map_fst: "(\<And>kv. fst (f kv) = fst kv) \<Longrightarrow> map_keys (map f m) = map_keys m"
  by (induction m) auto

lemma reconcile_fields [simp]:
  "m_context (reconcilePicks s) = m_context s" "m_limits (reconcilePicks s) = m_limits s" "m_windows (reconcilePicks s) = m_windows s"
  "m_queries (reconcilePicks s) = m_queries s" "m_registry (reconcilePicks s) = m_registry s"
  "m_whole (reconcilePicks s) = m_whole s" "m_wholeKind (reconcilePicks s) = m_wholeKind s"
  "m_lastSectionId (reconcilePicks s) = m_lastSectionId s" "m_disposed (reconcilePicks s) = m_disposed s"
  "m_readGeneration (reconcilePicks s) = m_readGeneration s"
  "m_readTickets (reconcilePicks s) = m_readTickets s" "m_operations (reconcilePicks s) = m_operations s"
  "m_listeners (reconcilePicks s) = m_listeners s" "m_nextRef (reconcilePicks s) = m_nextRef s" "m_version (reconcilePicks s) = m_version s"
  "m_chosen (reconcilePicks s) = map (reconcile_pick (m_registry s)) (m_chosen s)"
  "m_excluded (reconcilePicks s) = map (reconcile_excluded (m_registry s)) (m_excluded s)"
  "m_operationGeneration (reconcilePicks s) = m_operationGeneration s
     + (if map (reconcile_pick (m_registry s)) (m_chosen s) \<noteq> m_chosen s
          \<or> map (reconcile_excluded (m_registry s)) (m_excluded s) \<noteq> m_excluded s then 1 else 0)"
  by (simp_all add: reconcilePicks_def Let_def)

lemma reconcile_pick_ok:
  assumes "windows_ok p s" "keyed_entry p (m_context s) k (pk_entry x)"
  shows "keyed_entry p (m_context s) k (pk_entry (snd (reconcile_pick (m_registry s) (k, x))))"
  using assms registry_entry_ok [OF assms(1), of k]
  by (auto simp: reconcile_pick_def split: option.split)

lemma reconcile_excluded_ok:
  assumes "windows_ok p s" "keyed_entry p (m_context s) k e"
  shows "keyed_entry p (m_context s) k (snd (reconcile_excluded (m_registry s) (k, e)))"
  using assms registry_entry_ok [OF assms(1), of k]
  by (auto simp: reconcile_excluded_def split: option.split)

lemma reconcile_core:
  assumes ok: "core_ok p s"
  shows "core_ok p (reconcilePicks s)"
proof -
  have w: "windows_ok p s" using ok by (simp add: core_ok_def)
  have "picks_ok p (reconcilePicks s)"
    unfolding picks_ok_def
  proof (intro conjI allI impI)
    show "map_wf (m_chosen (reconcilePicks s))" "map_wf (m_excluded (reconcilePicks s))"
      using ok by (simp_all add: core_defs map_wf_def comp_def)
    show "int (length (m_excluded (reconcilePicks s))) \<le> li_maxQueryExclusions (m_limits (reconcilePicks s))"
      using ok by (simp add: core_defs)
    fix k x assume "map_get (m_chosen (reconcilePicks s)) k = Some x"
    then obtain y where y: "map_get (m_chosen s) k = Some y" "x = snd (reconcile_pick (m_registry s) (k, y))"
      by (auto simp: map_of_map_fst)
    show "keyed_entry p (m_context (reconcilePicks s)) k (pk_entry x)"
      unfolding y(2) reconcile_fields by (rule reconcile_pick_ok [OF w]) (use ok y(1) in \<open>simp add: core_defs\<close>)
  next
    fix k e assume "map_get (m_excluded (reconcilePicks s)) k = Some e"
    then obtain y where y: "map_get (m_excluded s) k = Some y" "e = snd (reconcile_excluded (m_registry s) (k, y))"
      by (auto simp: map_of_map_fst)
    show "keyed_entry p (m_context (reconcilePicks s)) k e"
      unfolding y(2) reconcile_fields by (rule reconcile_excluded_ok [OF w]) (use ok y(1) in \<open>simp add: core_defs\<close>)
  qed
  moreover have "books_ok (reconcilePicks s)"
    using ok by (auto simp: core_defs intro: le_SucI)
  ultimately show ?thesis
    using ok by (simp add: core_defs)
qed

section \<open>Construction and registration\<close>

lemma new_model_ok: "new_model p c l = Inr s \<Longrightarrow> model_ok p s"
proof -
  assume "new_model p c l = Inr s"
  then obtain c' l' where s: "s = publish \<lparr>m_context = c', m_limits = l', m_windows = [], m_queries = [], m_registry = emptyRegistry,
       m_chosen = [], m_whole = None, m_wholeKind = None, m_excluded = [], m_anchor = None,
       m_lastSectionId = None, m_disposed = False, m_version = 0, m_readGeneration = 0,
       m_operationGeneration = 0, m_readTickets = [], m_operations = [], m_listeners = [],
       m_snapshot = None, m_nextRef = 0, m_calls = []\<rparr>" and l: "checkedLimits l = Inr l'"
    by (auto simp: new_model_def result_simps)
  have keys: "map_has (fold (\<lambda>(k, v) m. map_set k v m) l m) k" if "map_has m k" for m k
    using that by (induction l arbitrary: m) (auto simp: js_map_simps)
  define result where "result = fold (\<lambda>(k, v) m. map_set k v m) l limit_defaults"
  from l have all: "list_all (\<lambda>(k, v). selectionCount v \<and> count_of v > 0) result"
    and l': "l' = \<lparr>li_maxWindows = count_of (fld result ''maxWindows''), li_maxWindowItems = count_of (fld result ''maxWindowItems''),
              li_maxRegisteredItems = count_of (fld result ''maxRegisteredItems''), li_maxQueries = count_of (fld result ''maxQueries''),
              li_maxQueryExclusions = count_of (fld result ''maxQueryExclusions'')\<rparr>"
    unfolding checkedLimits_def result_def [symmetric] Let_def by (auto simp: result_simps split: if_splits)
  have pos: "0 < count_of (fld result k)" if "map_has limit_defaults k" for k
  proof -
    have "map_has result k"
      unfolding result_def by (rule keys) (rule that)
    then obtain v where v: "map_get result k = Some v"
      by blast
    then show ?thesis
      using all map_of_SomeD [OF v] by (auto simp: list_all_iff fld_def)
  qed
  have "0 < count_of (fld result ''maxWindows'')" "0 < count_of (fld result ''maxRegisteredItems'')"
    "0 < count_of (fld result ''maxQueries'')" "0 < count_of (fld result ''maxQueryExclusions'')"
    by (rule pos, simp add: limit_defaults_def)+
  then show ?thesis
    unfolding s by (intro publish_model) (simp add: core_defs buildRegistry_def l')
qed

lemma windows_ok_filter:
  assumes w: "windows_ok p s" and b: "buildRegistry (m_limits s) (filter P (m_windows s)) = Inr r"
  shows "windows_ok p (s\<lparr>m_registry := r, m_windows := filter P (m_windows s)\<rparr>)"
proof -
  have wf: "map_wf (filter P (m_windows s))"
    using w by (auto simp: windows_ok_def map_wf_def distinct_map_filter)
  have sub: "map_get (m_windows s) k = Some x" if "map_get (filter P (m_windows s)) k = Some x" for k x
    using map_of_SomeD [OF that] w by (simp add: windows_ok_def map_wf_in_set)
  have "int (length (filter P (m_windows s))) \<le> li_maxWindows (m_limits s)"
    using w length_filter_le [of P "m_windows s"] unfolding windows_ok_def by linarith
  moreover have "window_good p (s\<lparr>m_registry := r, m_windows := filter P (m_windows s)\<rparr>) k x"
    if "map_get (filter P (m_windows s)) k = Some x" for k x
    using sub [OF that] w unfolding windows_ok_def by (simp add: window_good_def)
  ultimately show ?thesis
    using wf b unfolding windows_ok_def by simp
qed

lemma windows_build: "windows_ok p s \<Longrightarrow> buildRegistry (m_limits s) (m_windows s) = Inr (m_registry s)"
  by (simp add: windows_ok_def)

text \<open>Taking windows away can always be done.\<close>

lemma drop_windows:
  assumes "core_ok p s"
  obtains r where "buildRegistry (m_limits s) (filter P (m_windows s)) = Inr r"
    "core_ok p (s\<lparr>m_registry := r, m_windows := filter P (m_windows s)\<rparr>)"
proof -
  have w: "windows_ok p s" using assms by (simp add: core_ok_def)
  from buildRegistry_filter [OF windows_build [OF w]] obtain r where
    r: "buildRegistry (m_limits s) (filter P (m_windows s)) = Inr r" by blast
  have "windows_ok p (s\<lparr>m_registry := r, m_windows := filter P (m_windows s)\<rparr>)"
    by (rule windows_ok_filter [OF w r])
  then have "core_ok p (s\<lparr>m_registry := r, m_windows := filter P (m_windows s)\<rparr>)"
    using assms by (simp add: core_ok_def queries_ok_def picks_ok_def whole_ok_def limits_ok_def books_ok_def disposed_ok_def)
  then show ?thesis using that r by blast
qed

lemma dropQueryWindows_ok:
  assumes "core_ok p s"
  shows "snd (dropQueryWindows q s) = Inr ()" "core_ok p (fst (dropQueryWindows q s))"
proof -
  obtain r where r: "buildRegistry (m_limits s) (filter (\<lambda>(_, w). w_queryId (rw_value w) \<noteq> Some q) (m_windows s)) = Inr r"
    "core_ok p (s\<lparr>m_registry := r, m_windows := filter (\<lambda>(_, w). w_queryId (rw_value w) \<noteq> Some q) (m_windows s)\<rparr>)"
    by (rule drop_windows [OF assms])
  then show "snd (dropQueryWindows q s) = Inr ()" "core_ok p (fst (dropQueryWindows q s))"
    by (simp_all add: dropQueryWindows_def Let_def reconcile_core)
qed

lemma dropQueryWindows_gone:
  assumes "snd (dropQueryWindows q s) = Inr ()" "map_wf (m_windows s)" "map_get (m_windows (fst (dropQueryWindows q s))) k = Some w"
  shows "w_queryId (rw_value w) \<noteq> Some q" "map_get (m_windows s) k = Some w"
proof -
  from assms(1,3) have "map_get (filter (\<lambda>(_, w). w_queryId (rw_value w) \<noteq> Some q) (m_windows s)) k = Some w"
    by (auto simp: dropQueryWindows_def Let_def split: sum.splits)
  from map_of_SomeD [OF this] show "w_queryId (rw_value w) \<noteq> Some q" "map_get (m_windows s) k = Some w"
    using assms(2) by (auto simp: map_wf_in_set)
qed

lemma dropQueryWindows_fields [simp]:
  "m_context (fst (dropQueryWindows q s)) = m_context s" "m_limits (fst (dropQueryWindows q s)) = m_limits s"
  "m_queries (fst (dropQueryWindows q s)) = m_queries s" "m_whole (fst (dropQueryWindows q s)) = m_whole s"
  "m_wholeKind (fst (dropQueryWindows q s)) = m_wholeKind s" "m_disposed (fst (dropQueryWindows q s)) = m_disposed s"
  "m_readGeneration (fst (dropQueryWindows q s)) = m_readGeneration s"
  "m_readTickets (fst (dropQueryWindows q s)) = m_readTickets s" "m_operations (fst (dropQueryWindows q s)) = m_operations s"
  "m_nextRef (fst (dropQueryWindows q s)) = m_nextRef s" "m_version (fst (dropQueryWindows q s)) = m_version s"
  "m_listeners (fst (dropQueryWindows q s)) = m_listeners s"
  by (simp_all add: dropQueryWindows_def Let_def split: sum.split)

lemma unregisterWindow_ok:
  assumes "model_ok p s"
  shows "model_ok p (fst (unregisterWindow k ref s))" "snd (unregisterWindow k ref s) = Inr ()"
proof -
  obtain r where r: "buildRegistry (m_limits s) (map_del k (m_windows s)) = Inr r"
    "core_ok p (s\<lparr>m_registry := r, m_windows := map_del k (m_windows s)\<rparr>)"
    unfolding map_del_filter by (rule drop_windows [OF model_core [OF assms]])
  then show "model_ok p (fst (unregisterWindow k ref s))" "snd (unregisterWindow k ref s) = Inr ()"
    using assms by (simp_all add: unregisterWindow_def Let_def publish_model reconcile_core)
qed

lemma checked_window_ok:
  assumes "checked_window p input s = Inr (value, items)"
  shows "\<forall>e \<in> set items. keyed_entry p (m_context s) (se_key e) e"
    and "w_queryId value = Some q \<Longrightarrow> map_has (m_queries s) q"
    and "int (length items) \<le> li_maxWindowItems (m_limits s)"
proof -
  from assms obtain n where
    m: "map_result (\<lambda>item. and_then (checkedItem item) (\<lambda>v.
             Inr \<lparr>se_key = pol_key p (m_context s) (it_identity v), se_item = v\<rparr>)) (arr_of (at_key input ''items'')) = Inr items"
    and q: "case w_queryId value of None \<Rightarrow> True | Some q \<Rightarrow> map_has (m_queries s) q"
    and l: "int (length (arr_of (at_key input ''items''))) \<le> li_maxWindowItems (m_limits s)"
    unfolding checked_window_def Let_def by (auto simp: result_simps split: option.splits if_splits)
  show "\<forall>e \<in> set items. keyed_entry p (m_context s) (se_key e) e"
  proof
    fix e assume "e \<in> set items"
    from map_result_in [OF m this] show "keyed_entry p (m_context s) (se_key e) e"
      by (auto simp: result_simps keyed_entry_def)
  qed
  show "map_has (m_queries s) q" if "w_queryId value = Some q"
    using q that by simp
  show "int (length items) \<le> li_maxWindowItems (m_limits s)"
    using l map_result_length [OF m] by simp
qed

lemma registerWindow_ok:
  assumes "model_ok p s"
  shows "model_ok p (fst (registerWindow p ticket input s))"
proof (cases "fst (registerWindow p ticket input s) = s")
  case False
  then obtain v items r where
    c: "checked_window p input s = Inr (v, items)" and live: "\<not> m_disposed s"
    and n: "int (length (map_set (w_id v) \<lparr>rw_ref = m_nextRef s, rw_value = v, rw_items = items\<rparr> (m_windows s))) \<le> li_maxWindows (m_limits s)"
    and b: "buildRegistry (m_limits s) (map_set (w_id v) \<lparr>rw_ref = m_nextRef s, rw_value = v, rw_items = items\<rparr> (m_windows s)) = Inr r"
    and e: "fst (registerWindow p ticket input s) = publish (reconcilePicks (s\<lparr>m_windows :=
        map_set (w_id v) \<lparr>rw_ref = m_nextRef s, rw_value = v, rw_items = items\<rparr> (m_windows s), m_registry := r,
        m_nextRef := m_nextRef s + 1\<rparr>))"
    unfolding registerWindow_def Let_def by (auto split: sum.splits if_splits)
  let ?w = "\<lparr>rw_ref = m_nextRef s, rw_value = v, rw_items = items\<rparr>"
  let ?t = "s\<lparr>m_windows := map_set (w_id v) ?w (m_windows s), m_registry := r, m_nextRef := m_nextRef s + 1\<rparr>"
  have ok: "core_ok p s" using assms by simp
  have "window_good p s (w_id v) ?w"
    using checked_window_ok [OF c] by (simp add: window_good_def)
  then have "window_good p s k w" if "map_get (map_set (w_id v) ?w (m_windows s)) k = Some w" for k w
    using that ok by (auto simp: js_map_simps core_ok_def windows_ok_def split: if_splits)
  moreover have "window_good p ?t = window_good p s"
    by (rule window_good_cong) simp_all
  ultimately have "windows_ok p ?t"
    using ok n b by (simp add: core_ok_def windows_ok_def)
  then have "core_ok p ?t"
    using ok live by (auto simp: core_ok_def queries_ok_def picks_ok_def whole_ok_def limits_ok_def books_ok_def disposed_ok_def intro: less_SucI)
  then show ?thesis
    unfolding e by (intro publish_model reconcile_core)
qed (simp add: assms)

end
