(* ===== verification/Selection_Steps.thy ===== *)
theory Selection_Steps
  imports Selection_Invariant
begin

text \<open>The remaining transitions keep the invariant; so does every run.\<close>

section \<open>Queries\<close>

lemma windows_ok_queries:
  assumes "windows_ok p s" "\<And>k. map_has (m_queries s) k \<Longrightarrow> map_has qs k"
  shows "windows_ok p (s\<lparr>m_queries := qs, m_nextRef := n\<rparr>)"
  using assms unfolding windows_ok_def window_good_def by simp

lemma length_map_set: "length (map_set k v m) = (if map_has m k then length m else Suc (length m))"
  by (induction m) auto

lemma queries_ok_set:
  assumes "queries_ok s" "map_has (m_queries s) (q_id query) \<or> int (length (m_queries s)) < li_maxQueries (m_limits s)"
  shows "queries_ok (s\<lparr>m_queries := map_set (q_id query) (ref, query) (m_queries s), m_nextRef := n\<rparr>)"
  using assms by (auto simp: queries_ok_def js_map_simps length_map_set)

lemma replace_whole_fields [simp]:
  "m_context (replace_whole old q s) = m_context s" "m_limits (replace_whole old q s) = m_limits s"
  "m_windows (replace_whole old q s) = m_windows s" "m_registry (replace_whole old q s) = m_registry s"
  "m_queries (replace_whole old q s) = m_queries s" "m_disposed (replace_whole old q s) = m_disposed s"
  "m_readGeneration (replace_whole old q s) = m_readGeneration s" "m_readTickets (replace_whole old q s) = m_readTickets s"
  "m_operations (replace_whole old q s) = m_operations s" "m_nextRef (replace_whole old q s) = m_nextRef s"
  by (simp_all add: replace_whole_def)

text \<open>The whole selection is either untouched by the new query or already equal to it.\<close>

lemma replace_whole_core:
  assumes ok: "core_ok p s" and live: "\<not> m_disposed s" and old: "old = map_option snd (map_get (m_queries s) (q_id query))"
    and room: "map_has (m_queries s) (q_id query) \<or> int (length (m_queries s)) < li_maxQueries (m_limits s)"
  shows "core_ok p ((replace_whole old query s)\<lparr>m_queries := map_set (q_id query) (ref, query) (m_queries s), m_nextRef := m_nextRef s + 1\<rparr>)"
proof -
  let ?t = "replace_whole old query s"
  have base: "core_ok p ?t"
  proof (cases "map_option q_id (m_whole s) = Some (q_id query) \<and> old = Some query")
    case True
    then obtain w where w: "m_whole s = Some w" "q_id w = q_id query" by auto
    then have "w = query"
      using ok True old by (auto simp: core_ok_def whole_ok_def)
    then have "?t = s" using True w by (simp add: replace_whole_def)
    then show ?thesis using ok by simp
  next
    case False
    then have "?t = bump_operation (resetPicks s) \<or> ?t = s"
      by (auto simp: replace_whole_def)
    then show ?thesis using ok by auto
  qed
  have whole: "q_id w \<noteq> q_id query \<or> w = query" if "m_whole ?t = Some w" for w
    using that by (auto simp: replace_whole_def split: if_splits)
  have "windows_ok p (?t\<lparr>m_queries := map_set (q_id query) (ref, query) (m_queries s), m_nextRef := m_nextRef s + 1\<rparr>)"
    by (rule windows_ok_queries) (use base in \<open>auto simp: core_ok_def js_map_simps\<close>)
  moreover have "queries_ok (?t\<lparr>m_queries := map_set (q_id query) (ref, query) (m_queries ?t), m_nextRef := m_nextRef s + 1\<rparr>)"
    by (rule queries_ok_set) (use base room in \<open>auto simp: core_ok_def\<close>)
  moreover have "whole_ok (?t\<lparr>m_queries := map_set (q_id query) (ref, query) (m_queries s), m_nextRef := m_nextRef s + 1\<rparr>)"
    using base whole by (auto simp: core_ok_def whole_ok_def js_map_simps)
  moreover have "books_ok (?t\<lparr>m_queries := map_set (q_id query) (ref, query) (m_queries s), m_nextRef := m_nextRef s + 1\<rparr>)"
    using base by (auto simp: core_ok_def books_ok_def intro: less_SucI)
  ultimately show ?thesis
    using base live by (simp add: core_ok_def picks_ok_def limits_ok_def disposed_ok_def)
qed

lemma registerQuery_ok:
  assumes "model_ok p s"
  shows "model_ok p (fst (registerQuery p ticket input s))"
proof (cases "m_disposed s \<or> \<not> isContextCurrent ticket s")
  case False
  then have live: "\<not> m_disposed s" by simp
  show ?thesis
  proof (cases "pol_query p input (m_context s)")
    case (Inl e)
    then show ?thesis using False assms by (simp add: registerQuery_def)
  next
    case (Inr query)
    define old where "old = map_option snd (map_get (m_queries s) (q_id query))"
    define t where "t = (if old \<noteq> None \<and> old \<noteq> Some query then bump_read (fst (dropQueryWindows (q_id query) s)) else s)"
    have ok: "core_ok p s" using assms by simp
    have t: "core_ok p t" "m_queries t = m_queries s" "m_limits t = m_limits s" "\<not> m_disposed t" "m_nextRef t = m_nextRef s"
      using dropQueryWindows_ok [OF ok, of "q_id query"] ok live by (simp_all add: t_def)
    show ?thesis
    proof (cases "map_has (m_queries s) (q_id query) \<or> int (length (m_queries s)) < li_maxQueries (m_limits s)")
      case False
      then show ?thesis using \<open>\<not> (m_disposed s \<or> \<not> isContextCurrent ticket s)\<close> Inr assms
        by (simp add: registerQuery_def)
    next
      case room: True
      have "fst (registerQuery p ticket input s) =
          publish ((replace_whole old query t)\<lparr>m_queries := map_set (q_id query) (m_nextRef s, query) (m_queries s), m_nextRef := m_nextRef s + 1\<rparr>)"
        using False Inr room dropQueryWindows_ok(1) [OF ok, of "q_id query"] t(5)
        by (auto simp: registerQuery_def Let_def old_def [symmetric] t_def)
      also have "model_ok p \<dots>"
        using replace_whole_core [OF t(1,4), of old query] room t(2,3,5) by (intro publish_model) (simp add: old_def)
      finally show ?thesis .
    qed
  qed
qed (use assms in \<open>auto simp: registerQuery_def\<close>)

text \<open>Removing a query: its windows go first, and with the query the whole selection made of it.\<close>

definition without_query :: "string \<Rightarrow> 'c selection_model \<Rightarrow> 'c selection_model" where
  "without_query k s = (let t = fst (dropQueryWindows k s);
     u = bump_read (t\<lparr>m_queries := map_del k (m_queries s)\<rparr>)
   in if map_option q_id (m_whole u) = Some k then bump_operation (resetPicks u) else u)"

lemma dropQueryWindows_queries:
  "dropQueryWindows k (s\<lparr>m_queries := qs\<rparr>) = ((fst (dropQueryWindows k s))\<lparr>m_queries := qs\<rparr>, snd (dropQueryWindows k s))"
  by (simp add: dropQueryWindows_def Let_def reconcilePicks_def split: sum.split)

lemma unregisterQuery_eq:
  assumes "core_ok p s" "\<not> (m_disposed s \<or> map_option fst (map_get (m_queries s) k) \<noteq> Some ref)"
  shows "unregisterQuery k ref s = (publish (without_query k s), Inr ())"
  using assms(2) dropQueryWindows_ok(1) [OF assms(1), of k]
  by (simp add: unregisterQuery_def Let_def dropQueryWindows_queries without_query_def)

lemma without_query_core:
  assumes ok: "core_ok p s" and live: "\<not> m_disposed s"
  shows "core_ok p (without_query k s)"
proof -
  define t where "t = fst (dropQueryWindows k s)"
  define u where "u = t\<lparr>m_queries := map_del k (m_queries s)\<rparr>"
  have t: "core_ok p t" "m_queries t = m_queries s" "\<not> m_disposed t"
    using dropQueryWindows_ok [OF ok, of k] live by (simp_all add: t_def)
  have good: "window_good p u x w" if "map_get (m_windows t) x = Some w" for x w
  proof -
    have "w_queryId (rw_value w) \<noteq> Some k"
      by (rule dropQueryWindows_gone(1)) (use that dropQueryWindows_ok(1) [OF ok, of k] ok in \<open>simp_all add: t_def core_ok_def windows_ok_def\<close>)
    moreover have "window_good p t x w"
      using that t(1) by (simp add: core_ok_def windows_ok_def)
    ultimately show ?thesis
      using t(2) by (auto simp: window_good_def u_def js_map_simps)
  qed
  have w: "windows_ok p u"
    using t(1) good by (simp add: core_ok_def windows_ok_def u_def)
  have "int (length (map_del k (m_queries s))) \<le> int (length (m_queries t))"
    using t(2) by (simp add: length_delete_le)
  also have "\<dots> \<le> li_maxQueries (m_limits t)"
    using t(1) by (simp add: core_ok_def queries_ok_def)
  finally have q: "queries_ok u"
    using t(1,2) by (auto simp: core_ok_def queries_ok_def u_def js_map_simps)
  have rest: "picks_ok p u" "limits_ok u" "books_ok u" "disposed_ok u"
    using t by (simp_all add: core_ok_def picks_ok_def limits_ok_def books_ok_def disposed_ok_def u_def)
  show ?thesis
  proof (cases "map_option q_id (m_whole t) = Some k")
    case True
    have "core_ok p (resetPicks (bump_read u))"
      using w q rest by (auto simp: core_ok_def windows_ok_def window_good_def queries_ok_def picks_ok_def
          whole_ok_def limits_ok_def books_ok_def disposed_ok_def intro: le_SucI)
    then have "core_ok p (bump_operation (resetPicks (bump_read u)))"
      by (rule bump_core)
    then show ?thesis
      using True by (simp add: without_query_def Let_def t_def u_def)
  next
    case False
    have "whole_ok u"
      using t(1,2) False by (auto simp: core_ok_def whole_ok_def u_def js_map_simps)
    then have "core_ok p (bump_read u)"
      using w q rest by (intro bump_read_core) (simp add: core_ok_def)
    then show ?thesis
      using False by (simp add: without_query_def Let_def t_def u_def)
  qed
qed

lemma unregisterQuery_ok:
  assumes "model_ok p s"
  shows "model_ok p (fst (unregisterQuery k ref s))" "snd (unregisterQuery k ref s) = Inr ()"
proof -
  have ok: "core_ok p s" using assms by simp
  have "model_ok p (fst (unregisterQuery k ref s)) \<and> snd (unregisterQuery k ref s) = Inr ()"
  proof (cases "m_disposed s \<or> map_option fst (map_get (m_queries s) k) \<noteq> Some ref")
    case True
    then show ?thesis using assms by (auto simp: unregisterQuery_def)
  next
    case False
    then show ?thesis
      using unregisterQuery_eq [OF ok False] publish_model [OF without_query_core [OF ok]] by simp
  qed
  then show "model_ok p (fst (unregisterQuery k ref s))" "snd (unregisterQuery k ref s) = Inr ()" by simp_all
qed

section \<open>Selecting\<close>

lemma excluded_core:
  assumes "core_ok p s" "m_whole s \<noteq> None" "map_wf x" "int (length x) \<le> li_maxQueryExclusions (m_limits s)"
    "\<And>k e. map_get x k = Some e \<Longrightarrow> keyed_entry p (m_context s) k e"
  shows "core_ok p (s\<lparr>m_excluded := x\<rparr>)"
  using assms by (auto simp: core_defs)

lemma chosen_core:
  assumes "core_ok p s" "m_whole s = None" "\<not> m_disposed s" "map_wf x"
    "\<And>k y. map_get x k = Some y \<Longrightarrow> keyed_entry p (m_context s) k (pk_entry y)"
  shows "core_ok p (s\<lparr>m_chosen := x\<rparr>)"
  using assms by (auto simp: core_defs)

lemma anchor_core [simp]: "core_ok p (s\<lparr>m_anchor := a\<rparr>) = core_ok p s" "core_ok p (s\<lparr>m_lastSectionId := l\<rparr>) = core_ok p s"
  by (simp_all add: core_defs)

lemma set_anchor_core [simp]: "core_ok p (set_anchor k pos s) = core_ok p s"
  by (simp add: set_anchor_def)

lemma finish_whole_ok: "core_ok p s \<Longrightarrow> model_ok p (finish_whole pos s)"
  by (simp add: finish_whole_def Let_def publish_bump)

lemma finish_explicit_ok: "core_ok p s \<Longrightarrow> model_ok p (finish_explicit pos s)"
  by (simp add: finish_explicit_def Let_def publish_bump)

lemma fold_map_del:
  "map_wf m \<Longrightarrow> map_wf (fold map_del ks m) \<and> length (fold map_del ks m) \<le> length m
     \<and> (\<forall>k v. map_get (fold map_del ks m) k = Some v \<longrightarrow> map_get m k = Some v)"
proof (induction ks arbitrary: m)
  case (Cons k ks)
  have len: "length (map_del k m) \<le> length m" by (simp add: length_delete_le)
  have ih: "map_wf (fold map_del ks (map_del k m))" "length (fold map_del ks (map_del k m)) \<le> length (map_del k m)"
    "\<And>k' v. map_get (fold map_del ks (map_del k m)) k' = Some v \<Longrightarrow> map_get (map_del k m) k' = Some v"
    using Cons.IH [of "map_del k m"] Cons.prems by simp_all
  have "map_get m k' = Some v" if "map_get (fold map_del ks (map_del k m)) k' = Some v" for k' v
    using ih(3) [OF that] by (simp add: js_map_simps split: if_splits)
  then show ?case using ih(1,2) len by simp
qed simp

lemma pick_registered_ok:
  assumes "core_ok p s" "m_whole s = None" "\<not> m_disposed s"
  shows "core_ok p (fold pick_registered keys s)"
proof -
  have "core_ok p (fold pick_registered keys s) \<and> m_whole (fold pick_registered keys s) = None \<and> \<not> m_disposed (fold pick_registered keys s)"
    using assms
  proof (induction keys arbitrary: s)
    case (Cons k keys)
    have "core_ok p (pick_registered k s)" "m_whole (pick_registered k s) = None" "\<not> m_disposed (pick_registered k s)"
      using Cons.prems addPick_core [OF Cons.prems] by (simp_all add: pick_registered_def split: option.split)
    then show ?case using Cons.IH by simp
  qed simp
  then show ?thesis by simp
qed

lemma toggle_whole_ok:
  assumes ok: "core_ok p s" and w: "m_whole s \<noteq> None"
  shows "core_ok p (s\<lparr>m_excluded := fold map_del keys (m_excluded s)\<rparr>)"
    and "core_ok p (s\<lparr>m_excluded := map_del k (m_excluded s)\<rparr>)"
    and "map_get (rg_items (m_registry s)) k = Some e \<Longrightarrow> \<not> map_has (m_excluded s) k
      \<Longrightarrow> \<not> int (length (m_excluded s)) \<ge> li_maxQueryExclusions (m_limits s)
      \<Longrightarrow> core_ok p (s\<lparr>m_excluded := map_set k e (m_excluded s)\<rparr>)"
proof -
  have wf: "map_wf (m_excluded s)" and len: "int (length (m_excluded s)) \<le> li_maxQueryExclusions (m_limits s)"
    and e: "\<And>k e. map_get (m_excluded s) k = Some e \<Longrightarrow> keyed_entry p (m_context s) k e" and win: "windows_ok p s"
    using ok by (auto simp: core_ok_def picks_ok_def)
  show "core_ok p (s\<lparr>m_excluded := fold map_del keys (m_excluded s)\<rparr>)" for keys
    by (rule excluded_core [OF ok w]) (use fold_map_del [OF wf, of keys] len e in auto)
  from this [of "[k]"] show "core_ok p (s\<lparr>m_excluded := map_del k (m_excluded s)\<rparr>)" by simp
  assume a: "map_get (rg_items (m_registry s)) k = Some e" "\<not> map_has (m_excluded s) k"
    "\<not> int (length (m_excluded s)) \<ge> li_maxQueryExclusions (m_limits s)"
  show "core_ok p (s\<lparr>m_excluded := map_set k e (m_excluded s)\<rparr>)"
    by (rule excluded_core [OF ok w])
      (use wf a e registry_entry_ok [OF win a(1)] in \<open>auto simp: length_map_set js_map_simps split: if_splits\<close>)
qed

lemma toggle_ok:
  assumes m: "model_ok p s"
  shows "model_ok p (fst (toggle windowId key ranged s))"
proof (cases "m_disposed s \<or> windowPosition s windowId key = None")
  case True
  then show ?thesis using m by (auto simp: toggle_def)
next
  case False
  then obtain pos where live: "\<not> m_disposed s" and pos: "windowPosition s windowId key = Some pos" by auto
  have ok: "core_ok p s" using m by simp
  show ?thesis
  proof (cases "m_whole s = None")
    case none: True
    have one: "core_ok p (if map_has (m_chosen s) key then s\<lparr>m_chosen := map_del key (m_chosen s)\<rparr> else addPick key pos s)"
    proof (cases "map_has (m_chosen s) key")
      case True
      have "core_ok p (s\<lparr>m_chosen := map_del key (m_chosen s)\<rparr>)"
        by (rule chosen_core [OF ok none live])
          (use ok in \<open>auto simp: core_ok_def picks_ok_def js_map_simps split: if_splits\<close>)
      then show ?thesis using True by simp
    qed (use addPick_core [OF ok none live] in simp)
    show ?thesis
    proof (cases "ranged \<and> m_anchor s \<noteq> None")
      case True
      then show ?thesis
        using live pos none m finish_explicit_ok [OF pick_registered_ok [OF ok none live]]
        by (cases "previewRange windowId key s") (simp_all add: toggle_def)
    next
      case False
      then have "fst (toggle windowId key ranged s) = finish_explicit pos (set_anchor key pos
          (if map_has (m_chosen s) key then s\<lparr>m_chosen := map_del key (m_chosen s)\<rparr> else addPick key pos s))"
        using live pos none unfolding toggle_def by (simp only: option.case if_True if_False fst_conv simp_thms)
      then show ?thesis using one by (simp add: finish_explicit_ok)
    qed
  next
    case whole: False
    note parts = toggle_whole_ok [OF ok whole]
    consider "\<not> isQueryMember s windowId key"
      | f where "previewRange windowId key s = Inl f" "ranged \<and> m_anchor s \<noteq> None" "isQueryMember s windowId key"
      | keys where "previewRange windowId key s = Inr keys" "ranged \<and> m_anchor s \<noteq> None" "isQueryMember s windowId key"
      | "\<not> (ranged \<and> m_anchor s \<noteq> None)" "map_has (m_excluded s) key" "isQueryMember s windowId key"
      | "\<not> (ranged \<and> m_anchor s \<noteq> None)" "\<not> map_has (m_excluded s) key" "isQueryMember s windowId key"
      by (cases "previewRange windowId key s") blast+
    then show ?thesis
    proof cases
      case 1 then show ?thesis using live pos whole m by (simp add: toggle_def)
    next
      case 2 then show ?thesis using live pos whole m by (simp add: toggle_def)
    next
      case 3 then show ?thesis using live pos whole parts(1) by (simp add: toggle_def finish_whole_ok)
    next
      case 4
      then have "fst (toggle windowId key ranged s) = finish_whole pos (set_anchor key pos (s\<lparr>m_excluded := map_del key (m_excluded s)\<rparr>))"
        using live pos whole unfolding toggle_def by (simp only: option.case if_True if_False fst_conv simp_thms)
      then show ?thesis using parts(2) by (simp add: finish_whole_ok)
    next
      case 5
      show ?thesis
      proof (cases "int (length (m_excluded s)) \<ge> li_maxQueryExclusions (m_limits s)")
        case True
        then show ?thesis using 5 live pos whole m unfolding toggle_def by (simp only: option.case if_True if_False fst_conv simp_thms)
      next
        case False
        show ?thesis
        proof (cases "map_get (rg_items (m_registry s)) key")
          case None
          then show ?thesis using 5 False live pos whole m unfolding toggle_def by (simp only: option.case if_True if_False fst_conv simp_thms)
        next
          case (Some e)
          then have "fst (toggle windowId key ranged s) = finish_whole pos (set_anchor key pos (s\<lparr>m_excluded := map_set key e (m_excluded s)\<rparr>))"
            using 5 False live pos whole unfolding toggle_def by (simp only: option.case if_True if_False fst_conv simp_thms)
          then show ?thesis using parts(3) [OF Some 5(2) False] by (simp add: finish_whole_ok)
        qed
      qed
    qed
  qed
qed

lemma pick_section_ok:
  assumes "core_ok p s" "m_whole s = None" "\<not> m_disposed s"
  shows "core_ok p (pick_section sec s) \<and> m_whole (pick_section sec s) = None \<and> \<not> m_disposed (pick_section sec s)"
  using addPick_fold [OF assms, of "\<lambda>x. se_key (snd x)"
      "\<lambda>x. \<lparr>pos_sectionId = fst sec, pos_sectionOrder = sec_order (snd sec), pos_index = fst x\<rparr>"]
  by (simp add: pick_section_def split_def)

lemma pick_sections_ok:
  assumes "core_ok p s" "m_whole s = None" "\<not> m_disposed s"
  shows "core_ok p (fold pick_section secs s)"
proof -
  have "core_ok p (fold pick_section secs s) \<and> m_whole (fold pick_section secs s) = None \<and> \<not> m_disposed (fold pick_section secs s)"
    using assms
  proof (induction secs arbitrary: s)
    case (Cons x secs)
    show ?case using Cons.IH pick_section_ok [OF Cons.prems, of x] by simp
  qed simp
  then show ?thesis by simp
qed

lemma selectLoaded_ok:
  assumes m: "model_ok p s"
  shows "model_ok p (fst (selectLoaded sectionId s))"
proof (cases "m_disposed s \<or> (sectionId \<noteq> None \<and> \<not> map_has (rg_sections (m_registry s)) (the sectionId))")
  case True
  then show ?thesis using m by (auto simp: selectLoaded_def)
next
  case False
  define t where "t = (if m_whole s \<noteq> None then resetPicks s else s)"
  have t: "core_ok p t" "m_whole t = None" "\<not> m_disposed t"
    using m False by (auto simp: t_def)
  define u where "u = fold pick_section (sort_key (\<lambda>(i, sec). (sec_order sec, i))
                  (filter (\<lambda>(i, _). sectionId = None \<or> sectionId = Some i) (rg_sections (m_registry t)))) t"
  have "core_ok p u" unfolding u_def by (rule pick_sections_ok [OF t])
  moreover have "fst (selectLoaded sectionId s) =
      publish (bump_operation (if sectionId \<noteq> None then u\<lparr>m_lastSectionId := sectionId\<rparr> else u))"
    using False unfolding selectLoaded_def Let_def t_def [symmetric] u_def [symmetric] by auto
  ultimately show ?thesis by (simp add: publish_bump)
qed

lemma selectRow_ok: "model_ok p s \<Longrightarrow> model_ok p (fst (selectRow s))"
  by (simp add: selectRow_def selectLoaded_ok split: option.split)

lemma selectWholeQuery_ok:
  assumes m: "model_ok p s"
  shows "model_ok p (fst (selectWholeQuery k s))"
proof (cases "map_get (m_queries s) k")
  case (Some x)
  obtain ref q where x: "x = (ref, q)" by (cases x)
  have ok: "core_ok p s" using m by simp
  have q: "q_id q = k" using ok Some x by (auto simp: core_ok_def queries_ok_def)
  have "core_ok p ((resetPicks s)\<lparr>m_whole := Some q\<rparr>)" if "\<not> m_disposed s"
    using reset_core [OF ok] Some x q that by (simp add: core_defs)
  then show ?thesis
    using m Some x by (auto simp: selectWholeQuery_def Let_def publish_bump)
qed (use m in \<open>simp add: selectWholeQuery_def\<close>)

lemma filter_get: "map_wf m \<Longrightarrow> map_get (filter P m) k = Some v \<Longrightarrow> map_get m k = Some v"
  by (drule map_of_SomeD) (simp add: map_wf_in_set)

lemma filter_wf [simp]: "map_wf m \<Longrightarrow> map_wf (filter P m)"
  by (simp add: map_wf_def distinct_map_filter)

lemma keep_whole_ok:
  assumes ok: "core_ok p s" and w: "m_whole s = Some q"
  shows "core_ok p (keep_whole kind q s)"
proof -
  define t where "t = s\<lparr>m_wholeKind := (if length (qf_types (q_summary q)) > 1 then Some kind else m_wholeKind s),
      m_excluded := filter (\<lambda>(_, e). it_kind (se_item e) = kind) (m_excluded s), m_anchor := None\<rparr>"
  have wf: "map_wf (m_excluded s)" using ok by (simp add: core_ok_def picks_ok_def)
  have "int (length (filter P (m_excluded s))) \<le> li_maxQueryExclusions (m_limits s)" for P
    using ok length_filter_le [of P "m_excluded s"] unfolding core_ok_def picks_ok_def by linarith
  then have "core_ok p t"
    using ok w filter_get [OF wf] by (auto simp: core_defs t_def)
  then show ?thesis
    unfolding keep_whole_def Let_def t_def [symmetric] using ok by simp
qed

lemma if_P_or: "P a \<Longrightarrow> P b \<Longrightarrow> P (if c then a else b)"
  by simp

lemma keep_explicit_ok:
  assumes ok: "core_ok p s" and w: "m_whole s = None" "\<not> m_disposed s"
  shows "core_ok p (keep_explicit kind s)"
proof -
  have wf: "map_wf (m_chosen s)" using ok by (simp add: core_ok_def picks_ok_def)
  have "core_ok p (s\<lparr>m_chosen := filter P (m_chosen s)\<rparr>)" for P
    by (rule chosen_core [OF ok w])
      (use wf filter_get [OF wf, of P] ok in \<open>auto simp: core_ok_def picks_ok_def\<close>)
  then have t: "core_ok p (s\<lparr>m_chosen := filter P (m_chosen s), m_anchor := a\<rparr>)" for P a
    using anchor_core(1) [where s = "s\<lparr>m_chosen := filter P (m_chosen s)\<rparr>"] by simp
  show ?thesis
    unfolding keep_explicit_def Let_def by (rule if_P_or [where P = "core_ok p"], rule reset_core, rule t, rule t)
qed

lemma keepOnly_ok:
  assumes m: "model_ok p s"
  shows "model_ok p (fst (keepOnly kind s))"
proof (cases "m_whole s")
  case None
  then show ?thesis
    using m keep_explicit_ok [OF model_core [OF m] None] by (simp add: keepOnly_def publish_bump)
next
  case (Some q)
  then show ?thesis
    using m keep_whole_ok [OF model_core [OF m] Some] by (simp add: keepOnly_def publish_bump)
qed

lemma clear_ok: "model_ok p s \<Longrightarrow> model_ok p (clear s)"
  by (simp add: clear_def publish_bump)

section \<open>Tickets, contexts and the end\<close>

lemma snapshot_same:
  assumes "model_ok p s" "core_ok p t" "m_snapshot t = m_snapshot s" "m_version t = m_version s" "m_context t = m_context s"
    "m_whole t = m_whole s" "m_wholeKind t = m_wholeKind s" "m_excluded t = m_excluded s" "m_chosen t = m_chosen s"
    "m_lastSectionId t = m_lastSectionId s" "m_windows t = m_windows s" "m_registry t = m_registry s"
  shows "model_ok p t"
  using assms target_of_cong [of t s] by (simp add: model_ok_def snapshot_at_def)

lemma core_same:
  assumes "core_ok p s" "books_ok t" "m_limits t = m_limits s" "m_disposed t = m_disposed s" "m_context t = m_context s"
    "m_whole t = m_whole s" "m_wholeKind t = m_wholeKind s" "m_excluded t = m_excluded s" "m_chosen t = m_chosen s"
    "m_windows t = m_windows s" "m_registry t = m_registry s" "m_queries t = m_queries s"
  shows "core_ok p t"
  using assms windows_ok_cong [of t s p]
  by (simp add: core_ok_def queries_ok_def picks_ok_def whole_ok_def limits_ok_def disposed_ok_def)

lemma subscribe_ok:
  assumes m: "model_ok p s"
  shows "model_ok p (sel_subscribe l s)"
  by (rule snapshot_same [OF m core_same [OF model_core [OF m]]])
    (use model_core [OF m] in \<open>auto simp: sel_subscribe_def core_ok_def books_ok_def\<close>)

lemma unsubscribe_ok:
  assumes m: "model_ok p s"
  shows "model_ok p (sel_unsubscribe l s)"
  by (rule snapshot_same [OF m core_same [OF model_core [OF m]]])
    (use model_core [OF m] in \<open>auto simp: sel_unsubscribe_def core_ok_def books_ok_def\<close>)

lemma cancelPending_ok:
  assumes m: "model_ok p s"
  shows "model_ok p (cancelPending s)"
proof (rule snapshot_same [OF m])
  show "core_ok p (cancelPending s)"
    using m by (simp add: cancelPending_def)
qed (simp_all add: cancelPending_def bump_operation_def bump_read_def)

lemma captureContext_ok:
  assumes m: "model_ok p s"
  shows "model_ok p (fst (captureContext s))"
proof (rule snapshot_same [OF m])
  have "books_ok (fst (captureContext s))"
    using model_core [OF m] by (auto simp: captureContext_def Let_def core_ok_def books_ok_def js_map_simps intro: less_SucI)
  then show "core_ok p (fst (captureContext s))"
    by (rule core_same [OF model_core [OF m]]) (simp_all add: captureContext_def Let_def)
qed (simp_all add: captureContext_def Let_def)

lemma captureOperation_fst:
  "fst (captureOperation s) = (if m_disposed s \<or> Option.bind (m_snapshot s) sn_target = None then s
     else s\<lparr>m_operations := map_set (m_nextRef s) (m_operationGeneration s) (m_operations s), m_nextRef := m_nextRef s + 1\<rparr>)"
  by (auto simp: captureOperation_def split: option.split bool.split)

lemma captureOperation_ok:
  assumes m: "model_ok p s"
  shows "model_ok p (fst (captureOperation s))"
proof (rule snapshot_same [OF m])
  have "books_ok (fst (captureOperation s))"
    using model_core [OF m] by (auto simp: captureOperation_fst core_ok_def books_ok_def js_map_simps intro: less_SucI)
  then show "core_ok p (fst (captureOperation s))"
    by (rule core_same [OF model_core [OF m]]) (simp_all add: captureOperation_fst)
qed (simp_all add: captureOperation_fst)

lemma emptied_core:
  assumes "core_ok p s"
  shows "core_ok p (resetPicks (bump_operation (bump_read (s\<lparr>m_context := c, m_windows := [], m_queries := [], m_registry := emptyRegistry\<rparr>))))"
    and "core_ok p (resetPicks (bump_operation (bump_read (s\<lparr>m_disposed := True, m_windows := [], m_queries := [], m_registry := emptyRegistry\<rparr>))))"
  using assms by (auto simp: core_defs buildRegistry_def intro: le_SucI)

lemma setContext_ok:
  assumes m: "model_ok p s"
  shows "model_ok p (fst (setContext p input s))"
  using m publish_model [OF emptied_core(1) [OF model_core [OF m]]]
  by (auto simp: setContext_def split: sum.split)

lemma dispose_ok:
  assumes m: "model_ok p s"
  shows "model_ok p (sel_dispose s)"
proof (cases "m_disposed s")
  case False
  define t where "t = publish (resetPicks (bump_operation (bump_read (s\<lparr>m_disposed := True, m_windows := [], m_queries := [], m_registry := emptyRegistry\<rparr>))))"
  have t: "model_ok p t"
    unfolding t_def by (rule publish_model [OF emptied_core(2) [OF model_core [OF m]]])
  have "model_ok p (t\<lparr>m_listeners := []\<rparr>)"
    by (rule snapshot_same [OF t]) (use model_core [OF t] in \<open>simp_all add: core_defs\<close>)
  then show ?thesis using False by (simp add: sel_dispose_def t_def)
qed (use m in \<open>simp add: sel_dispose_def\<close>)

section \<open>Runs\<close>

theorem model_step_ok: "model_step p s s' \<Longrightarrow> model_ok p s \<Longrightarrow> model_ok p s'"
  by (induction rule: model_step.induct)
    (simp_all add: subscribe_ok unsubscribe_ok captureContext_ok setContext_ok registerWindow_ok unregisterWindow_ok
      registerQuery_ok unregisterQuery_ok toggle_ok selectLoaded_ok selectRow_ok selectWholeQuery_ok keepOnly_ok
      clear_ok captureOperation_ok cancelPending_ok dispose_ok)

theorem model_reachable_ok: "model_reachable p s \<Longrightarrow> model_ok p s"
  by (induction rule: model_reachable.induct) (auto intro: new_model_ok model_step_ok)

end
