(* ===== verification/Selection_Fences.thy ===== *)
theory Selection_Fences
  imports Selection_Steps
begin

text \<open>
  What generations are for: a captured operation that is still current stands for the selection
  as it is now, and a ticket captured before the context changed is never current again.
\<close>

section \<open>One transition\<close>

definition fence :: "'c selection_model \<Rightarrow> 'c selection_model \<Rightarrow> bool" where
  "fence s t \<longleftrightarrow> m_operationGeneration s \<le> m_operationGeneration t \<and> m_readGeneration s \<le> m_readGeneration t
     \<and> m_nextRef s \<le> m_nextRef t \<and> (m_disposed s \<longrightarrow> m_disposed t)
     \<and> (\<forall>x < m_nextRef s. map_get (m_operations t) x = map_get (m_operations s) x)
     \<and> (\<forall>x < m_nextRef s. map_get (m_readTickets t) x = map_get (m_readTickets s) x)
     \<and> (m_operationGeneration t = m_operationGeneration s \<longrightarrow> target_of t = target_of s)
     \<and> (m_readGeneration t = m_readGeneration s \<longrightarrow> m_context t = m_context s)"

lemma fence_refl [simp]: "fence s s"
  by (simp add: fence_def)

lemma fence_trans: "fence s t \<Longrightarrow> fence t u \<Longrightarrow> fence s u"
  unfolding fence_def by (smt (verit, ccfv_threshold) dual_order.trans le_antisym order_less_le_trans)

text \<open>The parts of the state that only tickets and captures write.\<close>

definition same_books :: "'c selection_model \<Rightarrow> 'c selection_model \<Rightarrow> bool" where
  "same_books s t \<longleftrightarrow> m_operations t = m_operations s \<and> m_readTickets t = m_readTickets s
     \<and> m_nextRef s \<le> m_nextRef t \<and> m_readGeneration s \<le> m_readGeneration t
     \<and> (m_disposed s \<longrightarrow> m_disposed t) \<and> (m_readGeneration t = m_readGeneration s \<longrightarrow> m_context t = m_context s)"

lemma fence_bumped: "same_books s t \<Longrightarrow> m_operationGeneration s < m_operationGeneration t \<Longrightarrow> fence s t"
  by (simp add: fence_def same_books_def)

lemma fence_calm:
  "same_books s t \<Longrightarrow> m_operationGeneration s \<le> m_operationGeneration t
   \<Longrightarrow> (m_operationGeneration t = m_operationGeneration s \<Longrightarrow> target_of t = target_of s) \<Longrightarrow> fence s t"
  by (simp add: fence_def same_books_def)

lemma same_books_refl [simp]: "same_books s s"
  by (simp add: same_books_def)

lemma same_books_publish [simp]: "same_books s (publish t) = same_books s t"
  by (simp add: same_books_def)

lemma same_books_bump [simp]: "same_books s (bump_operation t) = same_books s t"
  by (simp add: same_books_def)

lemma same_books_reset [simp]: "same_books s (resetPicks t) = same_books s t"
  by (simp add: same_books_def)

lemma same_books_reconcile [simp]: "same_books s (reconcilePicks t) = same_books s t"
  by (simp add: same_books_def)

lemma same_books_addPick [simp]: "same_books s (addPick k pos t) = same_books s t"
  by (simp add: same_books_def)

lemma same_books_drop [simp]: "same_books s (fst (dropQueryWindows q t)) = same_books s t"
  by (simp add: same_books_def)

lemma same_books_read: "same_books s t \<Longrightarrow> same_books s (bump_read t)"
  by (auto simp: same_books_def)

text \<open>Changes of picks alone.\<close>

lemma same_books_picks [simp]:
  "same_books s (t\<lparr>m_chosen := c\<rparr>) = same_books s t" "same_books s (t\<lparr>m_excluded := x\<rparr>) = same_books s t"
  "same_books s (t\<lparr>m_anchor := a\<rparr>) = same_books s t" "same_books s (t\<lparr>m_lastSectionId := l\<rparr>) = same_books s t"
  "same_books s (t\<lparr>m_whole := w\<rparr>) = same_books s t" "same_books s (t\<lparr>m_wholeKind := k\<rparr>) = same_books s t"
  "same_books s (t\<lparr>m_windows := ws\<rparr>) = same_books s t" "same_books s (t\<lparr>m_registry := r\<rparr>) = same_books s t"
  "same_books s (t\<lparr>m_queries := qs\<rparr>) = same_books s t" "same_books s (t\<lparr>m_listeners := ls\<rparr>) = same_books s t"
  by (simp_all add: same_books_def)

lemma same_books_fold: "(\<And>x t. same_books s (f x t) = same_books s t) \<Longrightarrow> same_books s (fold f xs t) = same_books s t"
  by (induction xs arbitrary: t) simp_all

lemma generation_fold: "(\<And>x t. m_operationGeneration (f x t) = m_operationGeneration t)
    \<Longrightarrow> m_operationGeneration (fold f xs t) = m_operationGeneration t"
  by (induction xs arbitrary: t) simp_all

lemma reconcile_target:
  assumes "m_operationGeneration (reconcilePicks t) = m_operationGeneration t"
  shows "target_of (reconcilePicks t) = target_of t"
  by (rule target_of_cong) (use assms in \<open>simp_all split: if_splits\<close>)

lemma reconcile_generation: "m_operationGeneration t \<le> m_operationGeneration (reconcilePicks t)"
  by simp

lemma windows_target [simp]:
  "target_of (t\<lparr>m_windows := ws, m_registry := r, m_nextRef := n\<rparr>) = target_of t"
  "target_of (t\<lparr>m_registry := r, m_windows := ws\<rparr>) = target_of t"
  by (rule target_of_cong; simp)+

lemma registerWindow_fence: "fence s (fst (registerWindow p ticket input s))"
proof (cases "fst (registerWindow p ticket input s) = s")
  case False
  then obtain ws r where e: "fst (registerWindow p ticket input s) =
      publish (reconcilePicks (s\<lparr>m_windows := ws, m_registry := r, m_nextRef := m_nextRef s + 1\<rparr>))"
    unfolding registerWindow_def Let_def by (auto split: sum.splits if_splits)
  let ?t = "s\<lparr>m_windows := ws, m_registry := r, m_nextRef := m_nextRef s + 1\<rparr>"
  show ?thesis
    unfolding e
  proof (rule fence_calm)
    show "same_books s (publish (reconcilePicks ?t))"
      by (simp add: same_books_def)
    show "m_operationGeneration s \<le> m_operationGeneration (publish (reconcilePicks ?t))"
      by simp
    assume "m_operationGeneration (publish (reconcilePicks ?t)) = m_operationGeneration s"
    then have "target_of (reconcilePicks ?t) = target_of ?t"
      by (intro reconcile_target) (simp only: publish_fields, simp)
    then show "target_of (publish (reconcilePicks ?t)) = target_of s" by simp
  qed
qed simp

lemma unregisterWindow_fence: "fence s (fst (unregisterWindow k ref s))"
proof (cases "fst (unregisterWindow k ref s) = s")
  case False
  then obtain ws r where e: "fst (unregisterWindow k ref s) = publish (reconcilePicks (s\<lparr>m_registry := r, m_windows := ws\<rparr>))"
    unfolding unregisterWindow_def Let_def by (auto split: sum.splits if_splits)
  let ?t = "s\<lparr>m_registry := r, m_windows := ws\<rparr>"
  show ?thesis
    unfolding e
  proof (rule fence_calm)
    assume "m_operationGeneration (publish (reconcilePicks ?t)) = m_operationGeneration s"
    then have "target_of (reconcilePicks ?t) = target_of ?t"
      by (intro reconcile_target) (simp only: publish_fields, simp)
    then show "target_of (publish (reconcilePicks ?t)) = target_of s" by simp
  qed simp_all
qed simp

lemma dropQueryWindows_fence:
  "m_operationGeneration s \<le> m_operationGeneration (fst (dropQueryWindows q s))"
  "m_operationGeneration (fst (dropQueryWindows q s)) = m_operationGeneration s \<Longrightarrow> target_of (fst (dropQueryWindows q s)) = target_of s"
proof -
  have c: "fst (dropQueryWindows q s) = s \<or> (\<exists>r ws. fst (dropQueryWindows q s) = reconcilePicks (s\<lparr>m_registry := r, m_windows := ws\<rparr>))"
    by (auto simp: dropQueryWindows_def Let_def split: sum.split)
  then show "m_operationGeneration s \<le> m_operationGeneration (fst (dropQueryWindows q s))"
    by auto
  assume g: "m_operationGeneration (fst (dropQueryWindows q s)) = m_operationGeneration s"
  from c show "target_of (fst (dropQueryWindows q s)) = target_of s"
  proof (elim disjE exE)
    fix r ws assume e: "fst (dropQueryWindows q s) = reconcilePicks (s\<lparr>m_registry := r, m_windows := ws\<rparr>)"
    let ?t = "s\<lparr>m_registry := r, m_windows := ws\<rparr>"
    have "m_operationGeneration (reconcilePicks ?t) = m_operationGeneration ?t"
      using g unfolding e by simp
    from reconcile_target [OF this] show ?thesis unfolding e by simp
  qed simp
qed

lemma replace_whole_fence:
  assumes "whole_ok s" "old = map_option snd (map_get (m_queries s) (q_id query))"
  shows "m_operationGeneration s \<le> m_operationGeneration (replace_whole old query s)"
    and "m_operationGeneration (replace_whole old query s) = m_operationGeneration s \<Longrightarrow> target_of (replace_whole old query s) = target_of s"
proof -
  show "m_operationGeneration s \<le> m_operationGeneration (replace_whole old query s)"
    by (simp add: replace_whole_def)
  assume g: "m_operationGeneration (replace_whole old query s) = m_operationGeneration s"
  have same: "m_whole s = Some query" if w: "map_option q_id (m_whole s) = Some (q_id query)" and o': "old = Some query"
  proof -
    from w obtain x where x: "m_whole s = Some x" "q_id x = q_id query" by auto
    from assms(1) x(1) obtain ref where "map_get (m_queries s) (q_id x) = Some (ref, x)"
      unfolding whole_ok_def by blast
    then have "old = Some x" using assms(2) x(2) by simp
    then show ?thesis using x(1) o' by simp
  qed
  show "target_of (replace_whole old query s) = target_of s"
  proof (cases "map_option q_id (m_whole s) = Some (q_id query)")
    case True
    then have "old = Some query" using g by (simp add: replace_whole_def split: if_splits)
    then have "replace_whole old query s = s\<lparr>m_whole := Some query\<rparr>" "m_whole s = Some query"
      using True same by (simp_all add: replace_whole_def)
    then show ?thesis by (intro target_of_cong) simp_all
  next
    case False
    then have "replace_whole old query s = s" unfolding replace_whole_def by (simp only: if_False)
    then show ?thesis by simp
  qed
qed

lemma registerQuery_fence:
  assumes m: "model_ok p s"
  shows "fence s (fst (registerQuery p ticket input s))"
proof (cases "fst (registerQuery p ticket input s) = s")
  case False
  have ok: "core_ok p s" using m by simp
  have drop: "snd (dropQueryWindows k s) = Inr ()" for k
    by (rule dropQueryWindows_ok(1) [OF ok])
  have "fst (registerQuery p ticket input s) = s" if "\<not> (\<not> m_disposed s \<and> isContextCurrent ticket s)"
    using that by (cases "m_disposed s") (simp_all add: registerQuery_def)
  with False have live: "\<not> m_disposed s \<and> isContextCurrent ticket s" by blast
  with False obtain query where query: "pol_query p input (m_context s) = Inr query"
    by (cases "pol_query p input (m_context s)") (auto simp: registerQuery_def)
  have room: "map_has (m_queries s) (q_id query) \<or> int (length (m_queries s)) < li_maxQueries (m_limits s)"
    using False live query by (rule_tac ccontr) (simp add: registerQuery_def)
  define old where "old = map_option snd (map_get (m_queries s) (q_id query))"
  define t where "t = (if old \<noteq> None \<and> old \<noteq> Some query then bump_read (fst (dropQueryWindows (q_id query) s)) else s)"
  have e: "fst (registerQuery p ticket input s) =
      publish ((replace_whole old query t)\<lparr>m_queries := map_set (q_id query) (m_nextRef s, query) (m_queries s), m_nextRef := m_nextRef s + 1\<rparr>)"
    using live query room drop [of "q_id query"]
    by (auto simp: registerQuery_def Let_def old_def [symmetric] t_def)
  let ?u = "(replace_whole old query t)\<lparr>m_queries := map_set (q_id query) (m_nextRef s, query) (m_queries s), m_nextRef := m_nextRef s + 1\<rparr>"
  have q: "m_queries t = m_queries s" by (simp add: t_def)
  have w: "whole_ok t"
    using ok dropQueryWindows_ok(2) [OF ok, of "q_id query"] by (auto simp: t_def core_ok_def whole_ok_def)
  note rep = replace_whole_fence [OF w, of old query, unfolded q, OF old_def]
  have st: "m_operationGeneration s \<le> m_operationGeneration t"
    "m_operationGeneration t = m_operationGeneration s \<Longrightarrow> target_of t = target_of s"
  proof -
    note d = dropQueryWindows_fence [where s = s and q = "q_id query"]
    show "m_operationGeneration s \<le> m_operationGeneration t"
      using d(1) by (simp add: t_def)
    have b: "target_of (bump_read (fst (dropQueryWindows (q_id query) s))) = target_of (fst (dropQueryWindows (q_id query) s))"
      by (rule target_of_cong) simp_all
    assume "m_operationGeneration t = m_operationGeneration s"
    then show "target_of t = target_of s"
    proof (cases "old \<noteq> None \<and> old \<noteq> Some query")
      case True
      then have t: "t = bump_read (fst (dropQueryWindows (q_id query) s))" by (simp add: t_def)
      show ?thesis using \<open>m_operationGeneration t = m_operationGeneration s\<close> d(2) b by (simp add: t)
    qed (auto simp: t_def)
  qed
  have target: "target_of ?u = target_of (replace_whole old query t)"
    by (rule target_of_cong) simp_all
  show ?thesis
    unfolding e
  proof (rule fence_calm)
    have "same_books s (replace_whole old query t)"
      by (simp add: replace_whole_def t_def same_books_read)
    then show "same_books s (publish ?u)"
      by (simp add: same_books_def t_def)
    show "m_operationGeneration s \<le> m_operationGeneration (publish ?u)"
      using st(1) rep(1) by simp
    assume "m_operationGeneration (publish ?u) = m_operationGeneration s"
    then have "m_operationGeneration (replace_whole old query t) = m_operationGeneration t" "m_operationGeneration t = m_operationGeneration s"
      using st(1) rep(1) by simp_all
    then show "target_of (publish ?u) = target_of s"
      using target rep(2) st(2) by simp
  qed
qed simp

lemma unregisterQuery_fence:
  assumes m: "model_ok p s"
  shows "fence s (fst (unregisterQuery k ref s))"
proof (cases "m_disposed s \<or> map_option fst (map_get (m_queries s) k) \<noteq> Some ref")
  case True
  then show ?thesis by (simp add: unregisterQuery_def)
next
  case False
  have ok: "core_ok p s" using m by simp
  define u where "u = bump_read ((fst (dropQueryWindows k s))\<lparr>m_queries := map_del k (m_queries s)\<rparr>)"
  have u: "without_query k s = (if map_option q_id (m_whole u) = Some k then bump_operation (resetPicks u) else u)"
    unfolding without_query_def Let_def u_def by (rule refl)
  have books: "same_books s u"
    by (simp add: u_def same_books_read)
  have gen: "m_operationGeneration u = m_operationGeneration (fst (dropQueryWindows k s))"
    by (simp add: u_def)
  have target: "target_of u = target_of (fst (dropQueryWindows k s))"
    by (rule target_of_cong) (simp_all add: u_def)
  show ?thesis
    unfolding unregisterQuery_eq [OF ok False] fst_conv u
  proof (cases "map_option q_id (m_whole u) = Some k")
    case True
    have "m_operationGeneration s < m_operationGeneration (bump_operation (resetPicks u))"
      using dropQueryWindows_fence(1) [where s = s and q = k] gen by simp
    then have "fence s (publish (bump_operation (resetPicks u)))"
      using books by (intro fence_bumped) simp_all
    then show "fence s (publish (if map_option q_id (m_whole u) = Some k then bump_operation (resetPicks u) else u))"
      unfolding if_P [OF True] .
  next
    case False
    have "fence s (publish u)"
      using dropQueryWindows_fence [where s = s and q = k] books gen target by (intro fence_calm) simp_all
    then show "fence s (publish (if map_option q_id (m_whole u) = Some k then bump_operation (resetPicks u) else u))"
      unfolding if_not_P [OF False] .
  qed
qed

section \<open>Every transition\<close>

lemma pick_registered_books [simp]: "same_books s (pick_registered k t) = same_books s t"
  by (simp add: pick_registered_def split: option.split)

lemma pick_section_books [simp]: "same_books s (pick_section x t) = same_books s t"
  unfolding pick_section_def by (rule same_books_fold) (simp add: split_def)

lemma pick_generation [simp]:
  "m_operationGeneration (pick_registered k t) = m_operationGeneration t"
  "m_operationGeneration (pick_section x t) = m_operationGeneration t"
proof -
  show "m_operationGeneration (pick_registered k t) = m_operationGeneration t"
    by (simp add: pick_registered_def split: option.split)
  show "m_operationGeneration (pick_section x t) = m_operationGeneration t"
    unfolding pick_section_def by (rule generation_fold) (simp add: split_def)
qed

lemma finish_fence:
  assumes "same_books s t" "m_operationGeneration t = m_operationGeneration s"
  shows "fence s (finish_whole pos t)" "fence s (finish_explicit pos t)"
  using assms by (auto simp: finish_whole_def finish_explicit_def Let_def intro!: fence_bumped)

lemma set_anchor_books [simp]: "same_books s (set_anchor k pos t) = same_books s t"
  "m_operationGeneration (set_anchor k pos t) = m_operationGeneration t"
  by (simp_all add: set_anchor_def)

lemma toggle_fence: "fence s (fst (toggle windowId key ranged s))"
  unfolding toggle_def
  by (auto simp: same_books_fold generation_fold split: option.split sum.split intro!: finish_fence)

lemma selectLoaded_fence: "fence s (fst (selectLoaded sectionId s))"
  unfolding selectLoaded_def Let_def
  by (auto simp: same_books_fold generation_fold intro!: fence_bumped)

lemma selectRow_fence: "fence s (fst (selectRow s))"
  by (simp add: selectRow_def selectLoaded_fence split: option.split)

lemma selectWholeQuery_fence: "fence s (fst (selectWholeQuery k s))"
  unfolding selectWholeQuery_def Let_def
  by (auto split: option.split intro!: fence_bumped)

lemma keep_books: "same_books s (keep_whole kind q s)" "m_operationGeneration (keep_whole kind q s) = m_operationGeneration s"
    "same_books s (keep_explicit kind s)" "m_operationGeneration (keep_explicit kind s) = m_operationGeneration s"
  by (simp_all add: keep_whole_def keep_explicit_def Let_def)

lemma keepOnly_fence: "fence s (fst (keepOnly kind s))"
  by (auto simp: keepOnly_def keep_books split: option.split intro!: fence_bumped)

lemma clear_fence: "fence s (clear s)"
  by (auto simp: clear_def intro!: fence_bumped)

lemma setContext_fence: "fence s (fst (setContext p input s))"
  by (auto simp: setContext_def same_books_def split: sum.split intro!: fence_bumped)

lemma dispose_fence: "fence s (sel_dispose s)"
  by (auto simp: sel_dispose_def same_books_def intro!: fence_bumped)

lemma cancelPending_fence: "fence s (cancelPending s)"
  by (auto simp: cancelPending_def same_books_read intro!: fence_bumped)

lemma quiet_fence: "fence s (sel_subscribe l s)" "fence s (sel_unsubscribe l s)" "fence s (fst (captureContext s))"
    "fence s (fst (captureOperation s))"
  by (auto simp: fence_def sel_subscribe_def sel_unsubscribe_def captureContext_def Let_def captureOperation_fst js_map_simps
      intro: target_of_cong)

theorem model_step_fence: "model_step p s t \<Longrightarrow> model_ok p s \<Longrightarrow> fence s t"
  by (induction rule: model_step.induct)
    (simp_all add: quiet_fence setContext_fence registerWindow_fence unregisterWindow_fence registerQuery_fence
      unregisterQuery_fence toggle_fence selectLoaded_fence selectRow_fence selectWholeQuery_fence keepOnly_fence
      clear_fence cancelPending_fence dispose_fence)

theorem model_steps_fence:
  assumes "(model_step p)\<^sup>*\<^sup>* s t" "model_ok p s"
  shows "fence s t \<and> model_ok p t"
  using assms
proof (induction rule: rtranclp_induct)
  case (step t u)
  then show ?case using model_step_fence model_step_ok fence_trans by blast
qed simp

section \<open>The two promises\<close>

lemma captureOperation_some:
  assumes "captureOperation s = (t, Some op')"
  shows "t = s\<lparr>m_operations := map_set (m_nextRef s) (m_operationGeneration s) (m_operations s), m_nextRef := m_nextRef s + 1\<rparr>"
    and "op_ref op' = m_nextRef s" and "Option.bind (m_snapshot s) sn_target = Some (op_target op')"
  using assms by (auto simp: captureOperation_def split: option.splits bool.splits)

lemma operation_stands:
  assumes m: "model_ok p s" and c: "captureOperation s = (t, Some op')" and run: "(model_step p)\<^sup>*\<^sup>* t u"
    and current: "isOperationCurrent op' u"
  shows "snd (target_of u) = Some (op_target op')"
proof -
  note cap = captureOperation_some [OF c]
  have t: "model_ok p t" "target_of t = target_of s"
  proof -
    show "model_ok p t" using captureOperation_ok [OF m] c by simp
    show "target_of t = target_of s" by (rule target_of_cong) (simp_all add: cap(1))
  qed
  have f: "fence t u" using model_steps_fence [OF run t(1)] by simp
  have "map_get (m_operations u) (op_ref op') = map_get (m_operations t) (op_ref op')"
    using f by (simp add: fence_def cap(1,2))
  then have "m_operationGeneration u = m_operationGeneration t"
    using current by (simp add: isOperationCurrent_def cap(1,2) js_map_simps)
  then have "target_of u = target_of s"
    using f t(2) by (simp add: fence_def)
  moreover have "snd (target_of s) = Some (op_target op')"
    using m cap(3) by (simp add: model_ok_def snapshot_at_def)
  ultimately show ?thesis by simp
qed

lemma ticket_context:
  assumes m: "model_ok p s" and c: "captureContext s = (t, ticket)" and run: "(model_step p)\<^sup>*\<^sup>* t u"
    and current: "isContextCurrent ticket u"
  shows "m_context u = tk_context ticket"
proof -
  have t: "model_ok p t" using captureContext_ok [OF m] c by simp
  have f: "fence t u" using model_steps_fence [OF run t] by simp
  have ref: "tk_ref ticket = m_nextRef s" "tk_context ticket = m_context s" "m_nextRef t = m_nextRef s + 1" "m_context t = m_context s"
    "m_readGeneration t = m_readGeneration s"
    using c by (auto simp: captureContext_def Let_def)
  have "map_get (m_readTickets t) (tk_ref ticket) = Some (m_readGeneration u)"
    using f current ref by (simp add: fence_def isContextCurrent_def)
  moreover have "map_get (m_readTickets t) (tk_ref ticket) = (if m_disposed s then map_get (m_readTickets s) (m_nextRef s) else Some (m_readGeneration s))"
    using c by (auto simp: captureContext_def Let_def js_map_simps)
  moreover have "map_get (m_readTickets s) (m_nextRef s) = None"
    using model_core [OF m] by (cases "map_get (m_readTickets s) (m_nextRef s)") (auto simp: core_ok_def books_ok_def)
  ultimately have "m_readGeneration u = m_readGeneration t"
    using ref by (simp split: if_splits)
  then show ?thesis
    using f ref by (simp add: fence_def)
qed

end
