(* ===== verification/Selection_Behaviour.thy ===== *)
theory Selection_Behaviour
  imports Selection_Fences
begin

text \<open>The behaviour of the methods: ranges, single picks, refusals.\<close>

section \<open>Ranges\<close>

lemma interval_list:
  fixes xs :: "int list"
  assumes "sorted xs" "distinct xs" "set xs \<subseteq> {lo..hi}" "int (length xs) = hi - lo + 1"
  shows "xs = [lo..hi]"
proof -
  have "card {lo..hi} = card (set xs)"
    using assms(4) by (simp add: distinct_card [OF assms(2)])
  then have "set xs = set [lo..hi]"
    using card_subset_eq [OF finite_atLeastAtMost_int assms(3)] by simp
  then show ?thesis
    using assms(1,2) by (intro sorted_distinct_set_unique) simp_all
qed

lemma range_entries:
  fixes m :: "(int, 'v) js_map"
  assumes "map_wf m" and "int (length (filter (\<lambda>(i, _). i \<ge> lo \<and> i \<le> hi) m)) = hi - lo + 1"
  shows "sort_key fst (filter (\<lambda>(i, _). i \<ge> lo \<and> i \<le> hi) m) = map (\<lambda>i. (i, the (map_get m i))) [lo..hi]"
    and "i \<in> {lo..hi} \<Longrightarrow> map_has m i"
proof -
  let ?r = "sort_key fst (filter (\<lambda>(i, _). i \<ge> lo \<and> i \<le> hi) m)"
  have dist: "distinct (map fst ?r)"
  proof -
    have "mset (map fst ?r) = mset (map fst (filter (\<lambda>(i, _). i \<ge> lo \<and> i \<le> hi) m))" by simp
    then have "distinct (map fst ?r) = distinct (map fst (filter (\<lambda>(i, _). i \<ge> lo \<and> i \<le> hi) m))"
      by (rule mset_eq_imp_distinct_iff)
    then show ?thesis using assms(1) by (simp add: map_wf_def distinct_map_filter)
  qed
  have keys: "map fst ?r = [lo..hi]"
    by (rule interval_list) (use dist assms(2) in \<open>auto simp: split_def\<close>)
  have val: "x = (fst x, the (map_get m (fst x)))" "map_has m (fst x)" if "x \<in> set ?r" for x
  proof -
    obtain j e where x: "x = (j, e)" by (cases x)
    have "map_get m j = Some e" using that assms(1) by (auto simp: x map_wf_in_set)
    then show "x = (fst x, the (map_get m (fst x)))" "map_has m (fst x)" by (simp_all add: x)
  qed
  have "?r = map (\<lambda>x. (fst x, the (map_get m (fst x)))) ?r"
    by (rule map_idI [symmetric], rule val(1) [symmetric])
  also have "\<dots> = map (\<lambda>i. (i, the (map_get m i))) (map fst ?r)"
    by (simp add: comp_def)
  finally show "?r = map (\<lambda>i. (i, the (map_get m i))) [lo..hi]"
    by (simp only: keys)
  assume "i \<in> {lo..hi}"
  then have "i \<in> set (map fst ?r)" unfolding keys by simp
  then obtain x where "x \<in> set ?r" "fst x = i" by auto
  then show "map_has m i" using val(2) by blast
qed

lemma registry_of_model: "model_ok p s \<Longrightarrow> registry_ok (window_entries (m_windows s)) (window_queries (m_windows s)) (m_registry s)"
  by (rule buildRegistry_ok [of "m_limits s"]) (use model_core in \<open>auto simp: core_ok_def windows_ok_def\<close>)

lemma previewRange_contiguous:
  assumes m: "model_ok p s" and r: "previewRange windowId key s = Inr keys"
  obtains anchorKey a t sec where "m_anchor s = Some (anchorKey, a)" "windowPosition s windowId key = Some t"
    "map_get (rg_sections (m_registry s)) (pos_sectionId t) = Some sec"
    "\<And>i. i \<in> {min (pos_index a) (pos_index t)..max (pos_index a) (pos_index t)} \<Longrightarrow> map_has (sec_positions sec) i"
    "keys = js_distinct (map (\<lambda>i. se_key (the (map_get (sec_positions sec) i)))
        [min (pos_index a) (pos_index t)..max (pos_index a) (pos_index t)])"
proof -
  from r obtain t where t: "windowPosition s windowId key = Some t"
    by (auto simp: previewRange_def split: option.splits if_splits)
  from r t obtain anchorKey a where a: "m_anchor s = Some (anchorKey, a)"
    by (auto simp: previewRange_def split: option.splits if_splits)
  from r t a obtain sec where sec: "map_get (rg_sections (m_registry s)) (pos_sectionId t) = Some sec"
    by (auto simp: previewRange_def split: option.splits if_splits)
  define lo hi where "lo = min (pos_index a) (pos_index t)" and "hi = max (pos_index a) (pos_index t)"
  define range' where "range' = sort_key fst (filter (\<lambda>(i, _). i \<ge> lo \<and> i \<le> hi) (sec_positions sec))"
  have len: "int (length range') = hi - lo + 1" and keys: "keys = js_distinct (map (\<lambda>(_, e). se_key e) range')"
    using r t a sec unfolding previewRange_def lo_def [symmetric] hi_def [symmetric]
    by (auto simp: Let_def lo_def [symmetric] hi_def [symmetric] range'_def [symmetric] split: option.splits if_splits)
  have wf: "map_wf (sec_positions sec)"
    using registry_okD(6) [OF registry_of_model [OF m] sec] .
  have len': "int (length (filter (\<lambda>(i, _). i \<ge> lo \<and> i \<le> hi) (sec_positions sec))) = hi - lo + 1"
    using len by (simp add: range'_def)
  note entries = range_entries [OF wf len']
  have "keys = js_distinct (map (\<lambda>i. se_key (the (map_get (sec_positions sec) i))) [lo..hi])"
    unfolding keys range'_def entries(1) by (simp add: comp_def)
  then show ?thesis
    using that [OF a t sec] entries(2) unfolding lo_def hi_def by blast
qed

section \<open>Single picks\<close>

lemma find_key_index_Some: "find_key_index es k = Some j \<Longrightarrow> j < length es \<and> se_key (es ! j) = k"
  by (induction es arbitrary: j) (auto split: if_splits)

text \<open>What a window shows is registered.\<close>

lemma windowPosition_registered:
  assumes m: "model_ok p s" and pos: "windowPosition s windowId key = Some pos"
  shows "map_has (rg_items (m_registry s)) key"
    and "isQueryMember s windowId key \<Longrightarrow> m_whole s = Some q \<Longrightarrow> query_has s (q_id q) key"
proof -
  from pos obtain w j where w: "map_get (m_windows s) windowId = Some w" and j: "find_key_index (rw_items w) key = Some j"
    by (auto simp: windowPosition_def split: option.splits)
  have b: "buildRegistry (m_limits s) (m_windows s) = Inr (m_registry s)"
    using model_core [OF m] by (simp add: core_ok_def windows_ok_def)
  note present = windows_present [OF b map_of_SomeD [OF w], of j]
  show "map_has (rg_items (m_registry s)) key"
    using present(1) find_key_index_Some [OF j] by simp
  assume member: "isQueryMember s windowId key" and whole: "m_whole s = Some q"
  then have "w_queryId (rw_value w) = Some (q_id q)"
    using w by (simp add: isQueryMember_def)
  then show "query_has s (q_id q) key"
    using present(2) find_key_index_Some [OF j] by (fastforce simp: query_has_def)
qed

lemma finish_explicit_selected [simp]:
  "m_whole s = None \<Longrightarrow> isSelected k (finish_explicit pos s) = isSelected k s"
  by (auto simp: isSelected_def finish_explicit_def Let_def)

lemma toggle_explicit:
  assumes m: "model_ok p s" and live: "\<not> m_disposed s" and w: "m_whole s = None"
    and pos: "windowPosition s windowId key = Some pos" and r: "\<not> (ranged \<and> m_anchor s \<noteq> None)"
  shows "snd (toggle windowId key ranged s) = Inr ()"
    and "isSelected k (fst (toggle windowId key ranged s)) = (if k = key then \<not> isSelected k s else isSelected k s)"
proof -
  define t where "t = set_anchor key pos (if map_has (m_chosen s) key then s\<lparr>m_chosen := map_del key (m_chosen s)\<rparr> else addPick key pos s)"
  have e: "toggle windowId key ranged s = (finish_explicit pos t, Inr ())"
    unfolding toggle_def t_def using live w pos r by (simp only: option.case if_True if_False fst_conv simp_thms)
  then show "snd (toggle windowId key ranged s) = Inr ()" by simp
  obtain x where x: "map_get (rg_items (m_registry s)) key = Some x"
    using windowPosition_registered(1) [OF m pos] by auto
  have t: "m_whole t = None" "\<not> m_disposed t"
    using w live by (simp_all add: t_def set_anchor_def)
  have "map_has (m_chosen t) k \<longleftrightarrow> (if k = key then \<not> map_has (m_chosen s) k else map_has (m_chosen s) k)"
    using x by (auto simp: t_def set_anchor_def addPick_def js_map_simps)
  then show "isSelected k (fst (toggle windowId key ranged s)) = (if k = key then \<not> isSelected k s else isSelected k s)"
    unfolding e fst_conv finish_explicit_selected [OF t(1)] using t w live by (simp add: isSelected_def)
qed

text \<open>Selecting a whole query selects every registered member of it.\<close>

lemma selectWholeQuery_selects:
  assumes live: "\<not> m_disposed s" and q: "map_get (m_queries s) queryId = Some (ref, q)" "q_id q = queryId" "q_total q > 0"
  shows "isSelected k (fst (selectWholeQuery queryId s)) \<longleftrightarrow> query_has s queryId k"
  using assms by (simp add: selectWholeQuery_def Let_def isSelected_def query_has_def)

section \<open>Refusals\<close>

lemma registerWindow_error: "registerWindow p ticket input s = (t, Inl e) \<Longrightarrow> t = s"
  by (auto simp: registerWindow_def Let_def split: sum.splits if_splits)

lemma registerQuery_error:
  assumes "model_ok p s" "registerQuery p ticket input s = (t, Inl e)"
  shows "t = s"
  using assms(2) dropQueryWindows_ok(1) [OF model_core [OF assms(1)]]
  by (auto simp: registerQuery_def Let_def split: sum.splits if_splits)

lemma register_stale:
  assumes "\<not> isContextCurrent ticket s"
  shows "fst (registerWindow p ticket input s) = s" "fst (registerQuery p ticket input s) = s"
    "snd (registerWindow p ticket input s) \<in> {Inr (Inl Disposed), Inr (Inl Stale_context)}"
    "snd (registerQuery p ticket input s) \<in> {Inr (Inl Disposed), Inr (Inl Stale_context)}"
  using assms by (simp_all add: registerWindow_def registerQuery_def)

section \<open>No property of \<open>undefined\<close> is read\<close>

lemma checkedItem_error: "checkedItem v = Inl e \<Longrightarrow> e = Invalid_item"
  by (auto simp: checkedItem_def Let_def result_simps split: selection_kind.splits if_splits)

lemma checked_window_error: "checked_window p input s \<noteq> Inl Type_error"
proof
  assume "checked_window p input s = Inl Type_error"
  then have "map_result (\<lambda>item. and_then (checkedItem item) (\<lambda>v.
      Inr \<lparr>se_key = pol_key p (m_context s) (it_identity v), se_item = v\<rparr>)) (arr_of (at_key input ''items'')) = Inl Type_error"
    by (auto simp: checked_window_def Let_def result_simps split: if_splits)
  from map_result_error [OF this] show False
    by (auto simp: result_simps dest: checkedItem_error)
qed

lemma library_step_error: "library_step ty i m \<noteq> Inl Type_error"
  by (auto simp: library_step_def Let_def result_simps split: selection_identity.split)

lemma validate_type_error: "validate_type known ty \<noteq> Inl Type_error"
proof
  assume "validate_type known ty = Inl Type_error"
  then have "fold_result (library_step ty) (filter (\<lambda>i. it_kind i = Entry (qt_kind ty)) (map se_item (map_values known))) [] = Inl Type_error"
    by (auto simp: validate_type_def Let_def result_simps split: if_splits)
  then show False
    by (rule fold_result_error) (simp add: library_step_error)
qed

lemma validate_members_error:
  assumes r: "registry_ok E Q r" and m: "map_get (rg_queryMembers r) q = Some ms" and q: "map_has (m_queries s) q"
  shows "validate_query_members s r (q, ms) \<noteq> Inl Type_error"
proof
  assume e: "validate_query_members s r (q, ms) = Inl Type_error"
  have known: "known_entries r ms \<noteq> Inl Type_error"
  proof
    assume "known_entries r ms = Inl Type_error"
    then obtain k where "k \<in> set ms" "map_get (rg_items r) k = None"
      unfolding known_entries_def by (auto dest!: map_result_error split: option.splits)
    then show False using registry_okD(5) [OF r m] by blast
  qed
  obtain ref query where query: "map_get (m_queries s) q = Some (ref, query)"
    using q by auto
  from e known obtain known' where "map_result (validate_type known') (qf_types (q_summary query)) = Inl Type_error"
    unfolding validate_query_members_def fst_conv snd_conv query option.case prod.case Let_def
    by (auto simp: and_then_Inl and_then_Inr)
  from map_result_error [OF this] show False
    by (auto simp: validate_type_error)
qed

lemma members_wf: "buildRegistry l ws = Inr r \<Longrightarrow> map_wf (rg_queryMembers r)"
proof -
  assume e: "buildRegistry l ws = Inr r"
  have entries: "map_wf (rg_queryMembers r')" if "fold_result (register_entry v) es r = Inr r'" "map_wf (rg_queryMembers r)" for v es r r'
    by (rule fold_result_invariant [where P = "\<lambda>r. map_wf (rg_queryMembers r)", OF that])
      (auto simp: register_entry_Inr split: option.split)
  show ?thesis
    by (rule fold_result_invariant [where P = "\<lambda>r. map_wf (rg_queryMembers r)", OF e [unfolded buildRegistry_def]])
      (auto simp: emptyRegistry_def register_window_eq split: if_splits intro: entries)
qed

lemma registerWindow_no_type_error:
  assumes m: "model_ok p s"
  shows "snd (registerWindow p ticket input s) \<noteq> Inl Type_error"
proof
  assume e: "snd (registerWindow p ticket input s) = Inl Type_error"
  then obtain v items where c: "checked_window p input s = Inr (v, items)"
    using checked_window_error [of p input s]
    by (auto simp: registerWindow_def split: if_splits sum.splits)
  define ws where "ws = map_set (w_id v) \<lparr>rw_ref = m_nextRef s, rw_value = v, rw_items = items\<rparr> (m_windows s)"
  from e c obtain r where b: "buildRegistry (m_limits s) ws = Inr r" and x: "validateQueryWindows s r = Inl Type_error"
    using buildRegistry_no_type_error [of "m_limits s" ws]
    by (auto simp: registerWindow_def Let_def ws_def split: if_splits sum.splits)
  note r = buildRegistry_ok [OF b]
  from x obtain q ms where qm: "(q, ms) \<in> set (rg_queryMembers r)" "validate_query_members s r (q, ms) = Inl Type_error"
    unfolding validateQueryWindows_def by (auto simp: result_simps dest!: map_result_error)
  have get: "map_get (rg_queryMembers r) q = Some ms"
    using qm(1) members_wf [OF b] by (simp add: map_wf_in_set)
  have "q \<in> window_queries ws" by (rule registry_okD(4) [OF r get])
  then obtain k w where w: "(k, w) \<in> set ws" "w_queryId (rw_value w) = Some q"
    by (auto simp: window_queries_def)
  have ok: "windows_ok p s" using model_core [OF m] by (simp add: core_ok_def)
  have "map_wf ws" using ok by (simp add: ws_def windows_ok_def)
  then have "map_get ws k = Some w" using w(1) by (simp add: map_wf_in_set)
  then have "map_has (m_queries s) q"
    using w(2) ok checked_window_ok(2) [OF c, of q]
    by (auto simp: ws_def js_map_simps windows_ok_def window_good_def split: if_splits)
  with validate_members_error [OF r get] qm(2) show False by blast
qed

section \<open>The contract of a policy\<close>

text \<open>
  What the shared model needs of a context policy: within one context, keys tell identities
  apart. Both models of the source provide it.
\<close>

locale keyed_policy =
  fixes p :: "'c selection_policy"
  assumes key_inj: "pol_key p c a = pol_key p c b \<Longrightarrow> a = b"
begin

lemma picks_distinct:
  assumes "model_reachable p s"
  shows "distinct (map (\<lambda>x. it_identity (se_item (pk_entry x))) (map_values (m_chosen s)))"
proof -
  have ok: "picks_ok p s"
    using model_reachable_ok [OF assms] by (simp add: model_ok_def core_ok_def)
  then have wf: "map_wf (m_chosen s)" by (simp add: picks_ok_def)
  have key: "fst kx = pol_key p (m_context s) (it_identity (se_item (pk_entry (snd kx))))" if "kx \<in> set (m_chosen s)" for kx
  proof -
    obtain k x where kx: "kx = (k, x)" by (cases kx)
    have "map_get (m_chosen s) k = Some x" using that wf by (simp add: kx map_wf_in_set)
    then have "keyed_entry p (m_context s) k (pk_entry x)"
      using ok by (simp add: picks_ok_def)
    then show ?thesis by (simp add: kx keyed_entry_def)
  qed
  have "inj_on (\<lambda>kx. it_identity (se_item (pk_entry (snd kx)))) (set (m_chosen s))"
  proof (rule inj_onI)
    fix a b assume ab: "a \<in> set (m_chosen s)" "b \<in> set (m_chosen s)"
      and e: "it_identity (se_item (pk_entry (snd a))) = it_identity (se_item (pk_entry (snd b)))"
    have "fst a = fst b" using key [OF ab(1)] key [OF ab(2)] e by simp
    then show "a = b" using ab wf by (cases a; cases b) (auto simp: map_wf_in_set)
  qed
  then show ?thesis
    using wf by (simp add: map_wf_def distinct_map comp_def)
qed

text \<open>An excluded title is excluded under the key of its identity, once.\<close>

lemma excluded_once:
  assumes "model_reachable p s" "map_get (m_excluded s) k = Some e" "map_get (m_excluded s) k' = Some e'"
    "it_identity (se_item e) = it_identity (se_item e')"
  shows "k = k'"
proof -
  have ok: "picks_ok p s"
    using model_reachable_ok [OF assms(1)] by (simp add: model_ok_def core_ok_def)
  have "keyed_entry p (m_context s) k e" "keyed_entry p (m_context s) k' e'"
    using ok assms(2,3) unfolding picks_ok_def by blast+
  then show ?thesis using assms(4) by (simp add: keyed_entry_def)
qed

end

interpretation catalogue: keyed_policy catalogue_policy
  by unfold_locales (simp add: catalogue_policy_def selectionKey_eq)

interpretation browse: keyed_policy browse_policy
  by unfold_locales (simp add: browse_policy_def browseSelectionKey_eq)

end
