(* ===== verification/Selection_Properties.thy ===== *)
theory Selection_Properties
  imports Selection_Behaviour
begin

text \<open>
  The properties of the selection model, each with a run of the catalogue model that meets its
  hypotheses.
\<close>

section \<open>A sample view\<close>

definition sample_context :: "string \<Rightarrow> jsval" where
  "sample_context view = JObj
     [(''scope'', JObj [(''serverId'', JStr ''s''), (''authority'', JStr ''local''), (''accountId'', JStr ''a''),
        (''profileId'', JStr ''p''), (''viewId'', JStr view), (''privacyFence'', JStr ''f'')]),
      (''revision'', JObj [(''catalogRevision'', JStr ''r1''), (''viewerRevision'', JStr ''v1'')])]"

definition sample_item :: "string \<Rightarrow> jsval" where
  "sample_item i = JObj [(''kind'', JStr ''movie''), (''libraryId'', JStr ''l''), (''id'', JStr i),
     (''capabilities'', JObj [(''play'', JBool True), (''watched'', JBool True)])]"

definition sample_window :: "string list \<Rightarrow> jsval" where
  "sample_window ids = JObj [(''id'', JStr ''w''), (''sectionId'', JStr ''m''), (''sectionOrder'', JNum (Fin 0)),
     (''start'', JNum (Fin 0)), (''items'', JArr (map sample_item ids))]"

definition sample_scope :: selection_scope where
  "sample_scope = \<lparr>sc_serverId = ''s'', sc_authority = Local_authority, sc_accountId = ''a'', sc_profileId = ''p'',
     sc_viewId = ''x'', sc_privacyFence = ''f''\<rparr>"

definition sample_key :: "string \<Rightarrow> string" where
  "sample_key i = selectionKey sample_scope (Catalogue Movie ''l'' i)"

definition sample_new :: "selection_context selection_model" where
  "sample_new = (case new_model catalogue_policy (sample_context ''x'') [] of Inr s \<Rightarrow> s | Inl _ \<Rightarrow> undefined)"

definition sample_loaded :: "selection_context selection_model" where
  "sample_loaded = fst (registerWindow catalogue_policy (snd (captureContext sample_new)) (sample_window [''1'', ''2''])
     (fst (captureContext sample_new)))"

definition sample_picked :: "selection_context selection_model" where
  "sample_picked = fst (toggle ''w'' (sample_key ''1'') False sample_loaded)"

text \<open>What the witnesses need to know of the sample state, evaluated once.\<close>

definition sample_moved_from :: "selection_context selection_model \<Rightarrow> selection_context selection_model" where
  "sample_moved_from s = fst (setContext catalogue_policy (sample_context ''y'') (fst (captureContext s)))"

definition sample_facts :: "selection_context selection_model \<Rightarrow> bool" where
  "sample_facts s \<longleftrightarrow> length (m_chosen s) = 1
     \<and> (case captureOperation s of (t, Some operation) \<Rightarrow> isOperationCurrent operation (sel_subscribe 7 t) | _ \<Rightarrow> False)
     \<and> m_context (sample_moved_from s) \<noteq> tk_context (snd (captureContext s))
     \<and> previewRange ''w'' (sample_key ''2'') s = Inr [sample_key ''1'', sample_key ''2'']
     \<and> \<not> m_disposed s \<and> m_whole s = None \<and> windowPosition s ''w'' (sample_key ''2'') \<noteq> None
     \<and> isSelected (sample_key ''1'') s \<and> \<not> isSelected (sample_key ''2'') s
     \<and> snd (registerWindow catalogue_policy (snd (captureContext s)) (JObj []) (fst (captureContext s))) = Inl Invalid_window"

lemma sample_facts_hold: "sample_facts sample_picked"
  by code_simp

lemma sample_new_reachable: "model_reachable catalogue_policy sample_new"
proof -
  have "is_ok (new_model catalogue_policy (sample_context ''x'') [])" by code_simp
  then show ?thesis
    unfolding sample_new_def
    by (cases "new_model catalogue_policy (sample_context ''x'') []") (auto intro: reach_new)
qed

lemma sample_loaded_reachable: "model_reachable catalogue_policy sample_loaded"
  unfolding sample_loaded_def
  by (rule reach_step [OF reach_step [OF sample_new_reachable step_captureContext] step_registerWindow])

lemma sample_picked_reachable: "model_reachable catalogue_policy sample_picked"
  unfolding sample_picked_def by (rule reach_step [OF sample_loaded_reachable step_toggle])

section \<open>Fences\<close>

text \<open>
  C4. A captured operation that is still current, after any further transitions of the model, has
  the target the model publishes now: nothing was picked, dropped, replaced or moved meanwhile.
\<close>
theorem operation_current_stands:
  assumes "model_reachable p s" "captureOperation s = (t, Some operation)" "(model_step p)\<^sup>*\<^sup>* t u"
    "isOperationCurrent operation u"
  shows "Option.bind (m_snapshot u) sn_target = Some (op_target operation)"
proof -
  have s: "model_ok p s" by (rule model_reachable_ok [OF assms(1)])
  have "model_ok p t" using captureOperation_ok [OF s] assms(2) by simp
  then have "model_ok p u" using model_steps_fence [OF assms(3)] by simp
  then show ?thesis
    using operation_stands [OF s assms(2-4)] by (simp add: model_ok_def snapshot_at_def)
qed

lemma sample_capture:
  obtains t operation where "captureOperation sample_picked = (t, Some operation)" "isOperationCurrent operation (sel_subscribe 7 t)"
proof -
  have "case captureOperation sample_picked of (t, Some operation) \<Rightarrow> isOperationCurrent operation (sel_subscribe 7 t) | _ \<Rightarrow> False"
    using sample_facts_hold unfolding sample_facts_def by (elim conjE) assumption
  then show ?thesis
    using that by (cases "captureOperation sample_picked") (auto split: option.splits)
qed

theorem operation_current_stands_witness:
  "\<exists>t operation. captureOperation sample_picked = (t, Some operation)
     \<and> Option.bind (m_snapshot (sel_subscribe 7 t)) sn_target = Some (op_target operation)"
proof -
  obtain t operation where c: "captureOperation sample_picked = (t, Some operation)" "isOperationCurrent operation (sel_subscribe 7 t)"
    by (rule sample_capture)
  have "(model_step catalogue_policy)\<^sup>*\<^sup>* t (sel_subscribe 7 t)"
    by (rule r_into_rtranclp) (rule step_subscribe)
  from operation_current_stands [OF sample_picked_reachable c(1) this c(2)] c(1)
  show ?thesis by blast
qed

text \<open>
  C7. A read ticket captured under one context is refused in every later state whose context is
  another one: results of an earlier view register nothing, whatever they hold.
\<close>
theorem stale_ticket_refused:
  assumes "model_reachable p s" "captureContext s = (t, ticket)" "(model_step p)\<^sup>*\<^sup>* t u"
    "m_context u \<noteq> tk_context ticket"
  shows "fst (registerWindow p ticket input u) = u \<and> fst (registerQuery p ticket input u) = u
    \<and> snd (registerWindow p ticket input u) \<in> {Inr (Inl Disposed), Inr (Inl Stale_context)}
    \<and> snd (registerQuery p ticket input u) \<in> {Inr (Inl Disposed), Inr (Inl Stale_context)}"
proof -
  have "\<not> isContextCurrent ticket u"
    using ticket_context [OF model_reachable_ok [OF assms(1)] assms(2,3)] assms(4) by blast
  then show ?thesis using register_stale [of ticket u p input] by blast
qed

theorem stale_ticket_refused_witness:
  "fst (registerWindow catalogue_policy (snd (captureContext sample_picked)) (sample_window [''3'']) (sample_moved_from sample_picked))
     = sample_moved_from sample_picked"
proof -
  have "m_context (sample_moved_from sample_picked) \<noteq> tk_context (snd (captureContext sample_picked))"
    using sample_facts_hold unfolding sample_facts_def by (elim conjE) assumption
  moreover have "(model_step catalogue_policy)\<^sup>*\<^sup>* (fst (captureContext sample_picked)) (sample_moved_from sample_picked)"
    unfolding sample_moved_from_def by (rule r_into_rtranclp) (rule step_setContext)
  ultimately show ?thesis
    using stale_ticket_refused [OF sample_picked_reachable prod.collapse [symmetric]] by blast
qed

section \<open>The state\<close>

text \<open>
  C12. In every reachable state of the catalogue model no title is picked twice, picks and a whole
  query exclude each other, and windows, registered items, queries and exclusions stay within the
  limits.
\<close>
theorem selection_unique_and_bounded:
  assumes "model_reachable catalogue_policy s"
  shows "distinct (map (\<lambda>x. it_identity (se_item (pk_entry x))) (map_values (m_chosen s)))
    \<and> (m_whole s = None \<or> m_chosen s = [])
    \<and> int (length (m_windows s)) \<le> li_maxWindows (m_limits s)
    \<and> rg_itemCount (m_registry s) \<le> li_maxRegisteredItems (m_limits s)
    \<and> int (length (m_queries s)) \<le> li_maxQueries (m_limits s)
    \<and> int (length (m_excluded s)) \<le> li_maxQueryExclusions (m_limits s)"
proof -
  have ok: "core_ok catalogue_policy s" using model_reachable_ok [OF assms] by simp
  have "rg_itemCount (m_registry s) \<le> li_maxRegisteredItems (m_limits s)"
    by (rule buildRegistry_count [of _ "m_windows s"]) (use ok in \<open>simp_all add: core_defs\<close>)
  moreover have "m_whole s = None \<or> m_chosen s = []"
    using ok by (cases "m_whole s") (simp_all add: core_ok_def whole_ok_def)
  moreover have "distinct (map (\<lambda>x. it_identity (se_item (pk_entry x))) (map_values (m_chosen s)))"
    by (rule catalogue.picks_distinct [OF assms])
  ultimately show ?thesis
    using ok by (simp add: core_ok_def windows_ok_def queries_ok_def picks_ok_def)
qed

theorem selection_unique_and_bounded_witness:
  "length (m_chosen sample_picked) = 1 \<and> rg_itemCount (m_registry sample_picked) \<le> li_maxRegisteredItems (m_limits sample_picked)"
proof
  show "length (m_chosen sample_picked) = 1"
    using sample_facts_hold unfolding sample_facts_def by (elim conjE) assumption
  show "rg_itemCount (m_registry sample_picked) \<le> li_maxRegisteredItems (m_limits sample_picked)"
    using selection_unique_and_bounded [OF sample_picked_reachable] by blast
qed

text \<open>
  C22. The published snapshot tells the truth about explicit picks: its summary describes exactly
  the picked items (their number, their kinds, their library and what every one of them allows),
  and its keys are the keys picked.
\<close>
theorem snapshot_describes_picks:
  assumes "model_reachable p s" "m_snapshot s = Some sn" "m_whole s = None"
  shows "summary_describes (sn_summary sn) (map (\<lambda>x. se_item (pk_entry x)) (map_values (m_chosen s)))
    \<and> sn_selectedKeys sn = map_keys (m_chosen s)"
proof -
  have "sn = snapshot_at s"
    using model_reachable_ok [OF assms(1)] assms(2) by (simp add: model_ok_def)
  moreover have "fst (target_of s) = summarizeSelection (map se_item (map pk_entry (map_values (m_chosen s))))"
    using assms(3) by (simp add: target_of_def Let_def comp_assoc)
  ultimately show ?thesis
    using summary_of_picks by (simp add: snapshot_at_def comp_def)
qed

theorem snapshot_describes_picks_witness:
  "\<exists>sn. m_snapshot sample_picked = Some sn
     \<and> summary_describes (sn_summary sn) (map (\<lambda>x. se_item (pk_entry x)) (map_values (m_chosen sample_picked)))"
proof -
  have "m_whole sample_picked = None"
    using sample_facts_hold unfolding sample_facts_def by (elim conjE) assumption
  moreover have "m_snapshot sample_picked = Some (snapshot_at sample_picked)"
    using model_reachable_ok [OF sample_picked_reachable] by (simp add: model_ok_def)
  ultimately show ?thesis
    using snapshot_describes_picks [OF sample_picked_reachable] by blast
qed

section \<open>Summaries\<close>

text \<open>
  C10. The summary of a whole query is exact without its members: when the query's facts count the
  members of a multiset and the exclusions are among the members of the kept kind, the arithmetic
  on the facts gives the count, the kinds, the library and the capabilities of the members left.
\<close>
theorem query_summary_exact:
  assumes "facts_describe facts M"
    and "mset rest + mset (filter (\<lambda>i. kind = None \<or> kind = Some (it_kind i)) (map se_item excluded))
      = filter_mset (\<lambda>i. kind = None \<or> kind = Some (it_kind i)) M"
  shows "summary_describes (summarizeQuerySelection facts kind excluded unavailable) rest"
  by (rule query_summary_describes [OF assms])

definition two_movies :: "selection_item list" where
  "two_movies = [\<lparr>it_identity = Catalogue Movie ''l'' ''1'', it_capabilities = (\<lambda>n. n = Cap_play)\<rparr>,
     \<lparr>it_identity = Catalogue Movie ''l'' ''2'', it_capabilities = (\<lambda>n. False)\<rparr>]"

definition two_movie_facts :: "query_type list" where
  "two_movie_facts = [\<lparr>qt_kind = Movie, qt_count = 2,
     qt_capabilityCounts = (\<lambda>n. if n = Cap_play then 1 else 0), qt_libraries = [(''l'', 2)]\<rparr>]"

theorem query_summary_exact_witness:
  "summary_describes (summarizeQuerySelection two_movie_facts None [\<lparr>se_key = ''k'', se_item = two_movies ! 1\<rparr>] None) [two_movies ! 0]"
proof (rule query_summary_exact [of _ "mset two_movies"])
  show "facts_describe two_movie_facts (mset two_movies)"
    by (simp add: facts_describe_def two_movie_facts_def two_movies_def row_describes_def lib_total_def
        selectionKinds_def selectionKindAllowsCapability_def)
qed (simp add: two_movies_def)

text \<open>The capability an action needs.\<close>

fun needed_capability :: "selection_action \<Rightarrow> capability" where
  "needed_capability A_play = Cap_play"
| "needed_capability A_play_next = Cap_queue"
| "needed_capability A_play_later = Cap_queue"
| "needed_capability A_playlist = Cap_playlist"
| "needed_capability A_my_list = Cap_myList"
| "needed_capability A_mark_watched = Cap_watched"
| "needed_capability A_mark_unwatched = Cap_watched"
| "needed_capability A_collection = Cap_collection"
| "needed_capability A_favorite = Cap_favorite"
| "needed_capability A_remove_my_list = Cap_myList"
| "needed_capability A_edit = Cap_edit"
| "needed_capability A_download = Cap_download"
| "needed_capability A_refresh = Cap_refresh"
| "needed_capability A_delete = Cap_delete"

lemma restrict_ready: "rule_restrict r x = Ready \<longleftrightarrow> r = Ready \<and> x = None"
  by (auto simp: rule_restrict_def split: option.split)

lemma ready_needs: "selectionActions s e a = Ready \<Longrightarrow> sm_every s (needed_capability a)"
  by (cases a) (auto simp: restrict_ready rule_allowed_def rule_play_def rule_watched_def rule_edit_def rule_delete_def split: if_splits)

text \<open>
  An action is offered only when every picked item backs it with the capability it needs;
  deleting also takes the owner, at most 200 items and a single library.
\<close>
theorem ready_action_backed:
  assumes "selectionActions (summarizeSelection items) e a = Ready" "i \<in> set items"
  shows "it_capabilities i (needed_capability a) \<and> selectionKindAllowsCapability (it_kind i) (needed_capability a)
    \<and> (a \<noteq> A_delete \<or> (en_isOwner e \<and> length items \<le> 200 \<and> (\<exists>l. libraries_of items = {l})))"
proof -
  let ?s = "summarizeSelection items"
  have d: "summary_describes ?s items" by (rule summary_of_picks)
  have "sm_every ?s (needed_capability a)" by (rule ready_needs [OF assms(1)])
  then have caps: "it_capabilities i (needed_capability a) \<and> selectionKindAllowsCapability (it_kind i) (needed_capability a)"
    using d assms(2) by (simp add: summary_describes_def reference_every_def)
  have "en_isOwner e \<and> length items \<le> 200 \<and> (\<exists>l. libraries_of items = {l})" if "a = A_delete"
  proof -
    from assms(1) that have r: "rule_delete ?s e = Ready" by (simp add: restrict_ready)
    then obtain l where "en_isOwner e" "sm_library ?s = Single_library l" "sm_count ?s \<le> 200"
      by (cases "sm_library ?s") (auto simp: rule_delete_def split: if_splits)
    then show ?thesis using d by (auto simp: summary_describes_def reference_library_def)
  qed
  then show ?thesis using caps by blast
qed

theorem ready_action_backed_witness:
  "it_capabilities (two_movies ! 0) (needed_capability A_play)
   \<and> selectionKindAllowsCapability (it_kind (two_movies ! 0)) (needed_capability A_play)"
proof -
  have "selectionActions (summarizeSelection [two_movies ! 0])
      \<lparr>en_platform = Tv, en_isOwner = False, en_canEditMetadata = False\<rparr> A_play = Ready"
    by code_simp
  from ready_action_backed [OF this, of "two_movies ! 0"] show ?thesis by simp
qed

section \<open>Ranges and single picks\<close>

text \<open>
  C25. A range preview is contiguous: it returns the keys at every position between the anchor and
  the target, all of them loaded, in order and without repetition.
\<close>
theorem preview_range_contiguous:
  assumes "model_reachable p s" "previewRange windowId key s = Inr keys"
  shows "\<exists>anchorKey a t sec. m_anchor s = Some (anchorKey, a) \<and> windowPosition s windowId key = Some t
    \<and> map_get (rg_sections (m_registry s)) (pos_sectionId t) = Some sec
    \<and> {min (pos_index a) (pos_index t)..max (pos_index a) (pos_index t)} \<subseteq> {i. map_has (sec_positions sec) i}
    \<and> keys = js_distinct (map (\<lambda>i. se_key (the (map_get (sec_positions sec) i)))
        [min (pos_index a) (pos_index t)..max (pos_index a) (pos_index t)])"
  by (rule previewRange_contiguous [OF model_reachable_ok [OF assms(1)] assms(2)]) blast

theorem preview_range_contiguous_witness:
  "\<exists>anchorKey a t sec. m_anchor sample_picked = Some (anchorKey, a)
    \<and> windowPosition sample_picked ''w'' (sample_key ''2'') = Some t
    \<and> map_get (rg_sections (m_registry sample_picked)) (pos_sectionId t) = Some sec
    \<and> {min (pos_index a) (pos_index t)..max (pos_index a) (pos_index t)} \<subseteq> {i. map_has (sec_positions sec) i}
    \<and> [sample_key ''1'', sample_key ''2''] = js_distinct (map (\<lambda>i. se_key (the (map_get (sec_positions sec) i)))
        [min (pos_index a) (pos_index t)..max (pos_index a) (pos_index t)])"
proof -
  have "previewRange ''w'' (sample_key ''2'') sample_picked = Inr [sample_key ''1'', sample_key ''2'']"
    using sample_facts_hold unfolding sample_facts_def by (elim conjE) assumption
  from preview_range_contiguous [OF sample_picked_reachable this] show ?thesis .
qed

text \<open>
  A toggle of one shown title flips that title and nothing else.
\<close>
theorem toggle_flips_one:
  assumes "model_reachable p s" "\<not> m_disposed s" "m_whole s = None" "windowPosition s windowId key = Some pos"
    "\<not> (ranged \<and> m_anchor s \<noteq> None)"
  shows "snd (toggle windowId key ranged s) = Inr ()
    \<and> isSelected k (fst (toggle windowId key ranged s)) = (if k = key then \<not> isSelected k s else isSelected k s)"
  using toggle_explicit [OF model_reachable_ok [OF assms(1)] assms(2-5)] by simp

theorem toggle_flips_one_witness:
  "isSelected (sample_key ''2'') (fst (toggle ''w'' (sample_key ''2'') False sample_picked))
   \<and> isSelected (sample_key ''1'') (fst (toggle ''w'' (sample_key ''2'') False sample_picked))"
proof -
  from sample_facts_hold have f: "\<not> m_disposed sample_picked" "m_whole sample_picked = None"
    "windowPosition sample_picked ''w'' (sample_key ''2'') \<noteq> None"
    "isSelected (sample_key ''1'') sample_picked" "\<not> isSelected (sample_key ''2'') sample_picked"
    by (simp_all only: sample_facts_def simp_thms)
  then obtain pos where "windowPosition sample_picked ''w'' (sample_key ''2'') = Some pos" by blast
  note t = toggle_flips_one [OF sample_picked_reachable f(1,2) this, of False]
  show ?thesis
    using t [of "sample_key ''2''"] t [of "sample_key ''1''"] f(4,5) by (simp split: if_splits)
qed

section \<open>Refusals\<close>

text \<open>
  C31. A registration that throws leaves the model as it was, and it never throws because a
  property of \<open>undefined\<close> was read.
\<close>
theorem registration_atomic:
  assumes "model_reachable p s" "snd (registerWindow p ticket input s) = Inl e"
  shows "fst (registerWindow p ticket input s) = s \<and> e \<noteq> Type_error"
  using registerWindow_no_type_error [OF model_reachable_ok [OF assms(1)], of ticket input] assms(2)
    registerWindow_error [of p ticket input s "fst (registerWindow p ticket input s)" e]
  by (metis prod.collapse)

theorem registration_atomic_witness:
  "fst (registerWindow catalogue_policy (snd (captureContext sample_picked)) (JObj []) (fst (captureContext sample_picked)))
     = fst (captureContext sample_picked)"
proof -
  have "snd (registerWindow catalogue_policy (snd (captureContext sample_picked)) (JObj []) (fst (captureContext sample_picked))) = Inl Invalid_window"
    using sample_facts_hold unfolding sample_facts_def by (elim conjE) assumption
  from registration_atomic [OF reach_step [OF sample_picked_reachable step_captureContext] this] show ?thesis ..
qed

text \<open>
  Cleaning up never throws: the registry can always be rebuilt from the windows that stay.
\<close>
theorem unregister_never_throws:
  assumes "model_reachable p s"
  shows "snd (unregisterWindow windowId ref s) = Inr () \<and> snd (unregisterQuery queryId ref s) = Inr ()"
  using unregisterWindow_ok(2) [OF model_reachable_ok [OF assms]] unregisterQuery_ok(2) [OF model_reachable_ok [OF assms]] by simp

theorem unregister_never_throws_witness: "snd (unregisterWindow ''w'' 1 sample_picked) = Inr ()"
  using unregister_never_throws [OF sample_picked_reachable] by blast

section \<open>The boundary\<close>

text \<open>
  A filter is copied unchanged exactly when it is plain JSON of at most 24 levels, 4096 nodes
  and 65536 characters; anything else is refused with \<open>invalid-query\<close>.
\<close>
theorem filter_copy_bounded:
  "queryJSON v = (if json_plain 24 v \<and> json_nodes v \<le> 4096 \<and> json_text v \<le> 65536 then Inr v else Inl Invalid_query)"
  by (rule queryJSON_copies)

text \<open>
  C39. An admitted query adds up: distinct kinds, rows whose libraries sum to their count, counts
  that sum to the total, a summary equal to the one computed from its facts, and the revision of
  the context.
\<close>
theorem admitted_query_adds_up:
  assumes "checkedQuery input context' = Inr query"
  shows "query_ok query \<and> q_catalogRevision query = cx_catalogRevision context'"
  using validateQuery_ok assms by (simp add: checkedQuery_def)

definition sample_query :: jsval where
  "sample_query = JObj [(''id'', JStr ''q''), (''total'', JNum (Fin 0)), (''catalogRevision'', JStr ''r1''),
     (''selector'', JObj [(''container'', JObj [(''kind'', JStr ''library''), (''id'', JStr ''l'')])]),
     (''summary'', JObj [(''types'', JArr []), (''library'', JObj [(''kind'', JStr ''none'')]),
        (''every'', JObj (map (\<lambda>n. (capability_name n, JBool False)) selectionCapabilityNames))])]"

theorem admitted_query_adds_up_witness:
  "\<exists>query. checkedQuery sample_query \<lparr>cx_scope = sample_scope, cx_catalogRevision = ''r1'', cx_viewerRevision = ''v''\<rparr> = Inr query
     \<and> query_ok query"
proof -
  have "is_ok (checkedQuery sample_query \<lparr>cx_scope = sample_scope, cx_catalogRevision = ''r1'', cx_viewerRevision = ''v''\<rparr>)"
    by code_simp
  then obtain query where q: "checkedQuery sample_query \<lparr>cx_scope = sample_scope, cx_catalogRevision = ''r1'', cx_viewerRevision = ''v''\<rparr> = Inr query"
    by (auto simp: is_ok_def split: sum.splits)
  from admitted_query_adds_up [OF q] q show ?thesis by blast
qed

text \<open>
  Keys are collision free: two keys agree only for the same scope and the same identity, for
  either policy.
\<close>
theorem selection_keys_injective:
  "(selectionKey s a = selectionKey t b \<longleftrightarrow> s = t \<and> a = b)
   \<and> (browseSelectionKey s' a = browseSelectionKey t' b \<longleftrightarrow> s' = t' \<and> a = b)"
  by (simp add: selectionKey_eq browseSelectionKey_eq)

end
