(* ===== verification/Windowed_Collection.thy ===== *)
theory Windowed_Collection
  imports JS_Value "HOL-Library.Product_Lexorder"
begin

text \<open>
  The windowed, sparse collection (\<open>packages/client-core/src/collections/windowed.ts\<close>): pages of a
  list of unknown length, loaded around the visible range. The closure's variables are the record
  \<open>collection\<close>; a request is an attempt that names its generation, page and abort controller, and its
  answer is a later transition. Controllers, promises and fetch functions are names; \<open>wc_aborted\<close>,
  \<open>wc_started\<close>, \<open>wc_outcomes\<close> and \<open>wc_calls\<close> record what the code does to its environment. Each
  transition reads the clock once.
\<close>

section \<open>Results, options and pages\<close>

record 'a page_result =
  pr_items :: "'a list option" \<comment> \<open>\<open>None\<close>: not an array\<close>
  pr_total :: js_num
  pr_lowerBound :: bool
  pr_index :: "(string \<times> rat) list option"

record wc_options =
  wo_pageSize :: rat
  wo_maxResidentPages :: rat
  wo_prefetchPages :: "rat option"
  wo_maxConcurrent :: "rat option"
  wo_retryAfterMs :: "rat option"

record wc_config =
  c_pageSize :: int
  c_maxResident :: int
  c_prefetch :: int
  c_maxConcurrent :: int
  c_retryAfterMs :: rat

definition windowed_config :: "wc_options \<Rightarrow> wc_config" where
  "windowed_config o' = \<lparr>c_pageSize = max 1 \<lfloor>wo_pageSize o'\<rfloor>, c_maxResident = max 1 \<lfloor>wo_maxResidentPages o'\<rfloor>,
     c_prefetch = max 0 (case wo_prefetchPages o' of Some p \<Rightarrow> \<lfloor>p\<rfloor> | None \<Rightarrow> 1),
     c_maxConcurrent = max 1 (case wo_maxConcurrent o' of Some p \<Rightarrow> \<lfloor>p\<rfloor> | None \<Rightarrow> 3),
     c_retryAfterMs = (case wo_retryAfterMs o' of Some r \<Rightarrow> r | None \<Rightarrow> 5000)\<rparr>"

text \<open>A thrown value with its object identity.\<close>

record failure =
  f_ref :: nat
  f_value :: jsval

datatype 'a page_state =
    Loading (ps_controller: nat) (ps_version: nat)
  | Ready (ps_items: "'a list") (ps_version: nat) (ps_used: nat)
  | Failed (ps_error: failure) (ps_at: rat) (ps_version: nat)

fun is_ready :: "'a page_state \<Rightarrow> bool" where
  "is_ready (Ready _ _ _) = True"
| "is_ready _ = False"

fun is_loading :: "'a page_state \<Rightarrow> bool" where
  "is_loading (Loading _ _) = True"
| "is_loading _ = False"

fun is_failed :: "'a page_state \<Rightarrow> bool" where
  "is_failed (Failed _ _ _) = True"
| "is_failed _ = False"

record quiet_reading =
  qr_promise :: nat
  qr_hold :: bool
  qr_holding :: bool

record 'a page_generation =
  g_id :: nat
  g_fetch :: nat
  g_pages :: "(int, 'a page_state) js_map"
  g_total :: "int option"
  g_lowerBound :: bool
  g_index :: "(nat \<times> (string \<times> rat) list) option"
  g_lastError :: "failure option"
  g_gate :: int
  g_quiet :: "quiet_reading option"

definition new_generation :: "nat \<Rightarrow> nat \<Rightarrow> int \<Rightarrow> quiet_reading option \<Rightarrow> 'a page_generation" where
  "new_generation i fetch gate quiet = \<lparr>g_id = i, g_fetch = fetch, g_pages = [], g_total = None, g_lowerBound = False,
     g_index = None, g_lastError = None, g_gate = gate, g_quiet = quiet\<rparr>"

datatype collection_status = Wc_idle | Wc_loading | Wc_ready | Wc_error

record collection_snapshot =
  cs_generation :: nat
  cs_total :: "int option"
  cs_lowerBound :: bool
  cs_status :: collection_status
  cs_error :: "failure option"
  cs_index :: "(nat \<times> (string \<times> rat) list) option"
  cs_refreshing :: bool

datatype reading_outcome = Resolved | Rejected failure

datatype wc_call = Page_call int nat | List_call nat

record attempt =
  at_gen :: nat
  at_page :: int
  at_controller :: nat
  at_version :: nat

record 'a collection =
  wc_config :: wc_config
  wc_nextId :: nat
  wc_current :: "'a page_generation"
  wc_pending :: "'a page_generation option"
  wc_visibleFirst :: int
  wc_visibleLast :: int
  wc_lastFirst :: int
  wc_direction :: int
  wc_pinned :: "int option"
  wc_tick :: nat
  wc_disposed :: bool
  wc_shown :: nat
  wc_waitUntil :: rat
  wc_pageListeners :: "(int, nat) js_map" \<comment> \<open>the set object of a page\<close>
  wc_listenerSets :: "(nat, nat list) js_map" \<comment> \<open>the contents of the set objects\<close>
  wc_listeners :: "nat list"
  wc_snapshot :: collection_snapshot
  wc_nextRef :: nat
  wc_aborted :: "nat list"
  wc_started :: "attempt list"
  wc_outcomes :: "(nat \<times> reading_outcome) list"
  wc_calls :: "wc_call list"

definition MAX_SERVER_WAIT_MS :: rat where
  "MAX_SERVER_WAIT_MS = 600000"

definition serverWait :: "jsval \<Rightarrow> rat" where
  "serverWait e =
     (let o' = (case e of JObj o' \<Rightarrow> o' | _ \<Rightarrow> []);
          ms = (case fld o' ''retryAfterMs'' of
                  JNum n \<Rightarrow> n
                | _ \<Rightarrow> (case fld o' ''retryAfterSeconds'' of
                          JNum (Fin r) \<Rightarrow> Fin (r * 1000) | JNum n \<Rightarrow> n | _ \<Rightarrow> Fin 0))
      in case ms of Fin r \<Rightarrow> if r > 0 then min r MAX_SERVER_WAIT_MS else 0 | _ \<Rightarrow> 0)"

definition new_collection :: "wc_options \<Rightarrow> nat \<Rightarrow> 'a collection" where
  "new_collection o' fetch = \<lparr>wc_config = windowed_config o', wc_nextId = 1, wc_current = new_generation 0 fetch 0 None,
     wc_pending = None, wc_visibleFirst = - 1, wc_visibleLast = - 1, wc_lastFirst = - 1, wc_direction = 0, wc_pinned = None,
     wc_tick = 0, wc_disposed = False, wc_shown = 0, wc_waitUntil = 0, wc_pageListeners = [], wc_listenerSets = [], wc_listeners = [],
     wc_snapshot = \<lparr>cs_generation = 0, cs_total = None, cs_lowerBound = False, cs_status = Wc_idle, cs_error = None,
       cs_index = None, cs_refreshing = False\<rparr>,
     wc_nextRef = 0, wc_aborted = [], wc_started = [], wc_outcomes = [], wc_calls = []\<rparr>"

section \<open>Reading the state\<close>

definition inFlight :: "'a page_generation \<Rightarrow> int" where
  "inFlight g = int (length (filter is_loading (map_values (g_pages g))))"

definition readyCount :: "'a page_generation \<Rightarrow> int" where
  "readyCount g = int (length (filter is_ready (map_values (g_pages g))))"

text \<open>\<open>Math.ceil(total / pageSize)\<close>.\<close>

definition pageCount :: "'a collection \<Rightarrow> 'a page_generation \<Rightarrow> int option" where
  "pageCount s g = map_option (\<lambda>t. \<lceil>of_int t / (of_int (c_pageSize (wc_config s)) :: rat)\<rceil>) (g_total g)"

definition exactEmpty :: "'a page_generation \<Rightarrow> bool" where
  "exactEmpty g \<longleftrightarrow> g_total g = Some 0 \<and> \<not> g_lowerBound g"

definition pageOfIndex :: "'a collection \<Rightarrow> int \<Rightarrow> int" where
  "pageOfIndex s i = max 0 (i div c_pageSize (wc_config s))"

definition page_status :: "'a page_generation \<Rightarrow> int \<Rightarrow> ('a page_state \<Rightarrow> bool) \<Rightarrow> bool" where
  "page_status g p f = (case map_get (g_pages g) p of Some x \<Rightarrow> f x | None \<Rightarrow> False)"

text \<open>The pinned item's page, while it is a page of this generation.\<close>

definition pinnedPage :: "'a collection \<Rightarrow> 'a page_generation \<Rightarrow> int option" where
  "pinnedPage s g =
     (case wc_pinned s of
        None \<Rightarrow> None
      | Some i \<Rightarrow>
          if exactEmpty g then None
          else case pageCount s g of
            None \<Rightarrow> Some (pageOfIndex s i)
          | Some n \<Rightarrow> if pageOfIndex s i < n then Some (pageOfIndex s i) else None)"

definition visible_pages :: "'a collection \<Rightarrow> 'a page_generation \<Rightarrow> int list" where
  "visible_pages s g =
     (if wc_visibleFirst s < 0 \<or> exactEmpty g then []
      else let clamp = (\<lambda>p. case pageCount s g of None \<Rightarrow> p | Some n \<Rightarrow> min p (max 0 (n - 1)))
           in [clamp (pageOfIndex s (wc_visibleFirst s))..clamp (pageOfIndex s (wc_visibleLast s))])"

definition wanted_pages :: "'a collection \<Rightarrow> 'a page_generation \<Rightarrow> int list" where
  "wanted_pages s g =
     (if wc_visibleFirst s < 0 \<or> exactEmpty g then []
      else let n = pageCount s g;
               clamp = (\<lambda>p. case n of None \<Rightarrow> p | Some n \<Rightarrow> min p (max 0 (n - 1)));
               firstPage = clamp (pageOfIndex s (wc_visibleFirst s)); lastPage = clamp (pageOfIndex s (wc_visibleLast s));
               visible = [firstPage..lastPage];
               ahead = c_prefetch (wc_config s) + (if wc_direction s > 0 then 1 else 0);
               behind = c_prefetch (wc_config s) + (if wc_direction s < 0 then 1 else 0);
               forward = (case n of None \<Rightarrow> [] | Some n \<Rightarrow> filter (\<lambda>p. p < n) [lastPage + 1..lastPage + ahead]);
               backward = rev [max 0 (firstPage - behind)..firstPage - 1];
               extra = (if wc_direction s < 0 then backward @ forward else forward @ backward);
               held = (case pinnedPage s g of
                   Some h \<Rightarrow> if h \<notin> set visible \<and> h \<notin> set extra then [h] else []
                 | None \<Rightarrow> [])
           in visible @ held @ extra)"

definition readyItems :: "'a collection \<Rightarrow> int \<Rightarrow> 'a list option" where
  "readyItems s page = (case map_get (g_pages (wc_current s)) page of Some (Ready items _ _) \<Rightarrow> Some items | _ \<Rightarrow> None)"

definition itemAt :: "'a collection \<Rightarrow> js_num \<Rightarrow> 'a option" where
  "itemAt s index =
     (case index of
        Fin r \<Rightarrow>
          if \<not> is_integer r \<or> r < 0 then None
          else (case readyItems s (pageOfIndex s \<lfloor>r\<rfloor>) of
                  None \<Rightarrow> None
                | Some items \<Rightarrow>
                    (let k = nat (\<lfloor>r\<rfloor> mod c_pageSize (wc_config s)) in if k < length items then Some (items ! k) else None))
      | _ \<Rightarrow> None)"

text \<open>The key and the slot of an index; the placeholder's key is made of the index.\<close>

datatype ('a, 'k) slot = Item_slot int 'k 'a | Placeholder_slot int

definition slotAt :: "('a \<Rightarrow> 'k) \<Rightarrow> 'a collection \<Rightarrow> int \<Rightarrow> ('a, 'k) slot" where
  "slotAt keyOf s index = (case itemAt s (Fin (of_int index)) of
     None \<Rightarrow> Placeholder_slot index | Some item \<Rightarrow> Item_slot index (keyOf item) item)"

definition getPageVersion :: "'a collection \<Rightarrow> int \<Rightarrow> nat \<times> nat" where
  "getPageVersion s page = (wc_shown s, case map_get (g_pages (wc_current s)) page of Some p \<Rightarrow> ps_version p | None \<Rightarrow> 0)"

text \<open>\<open>toUpperCase\<close> on the letters of the Latin alphabet.\<close>

definition upper_char :: "char \<Rightarrow> char" where
  "upper_char c = (if is_lower c then char_of (of_char c - 32 :: nat) else c)"

definition indexOfLetter :: "'a collection \<Rightarrow> string \<Rightarrow> rat option" where
  "indexOfLetter s letter =
     (case g_index (wc_current s) of
        None \<Rightarrow> None
      | Some (_, index) \<Rightarrow>
          if map_has index letter then map_get index letter else map_get index (map upper_char letter))"

definition residentItems :: "'a collection \<Rightarrow> 'a list" where
  "residentItems s = concat (map ps_items (filter is_ready (map_values (g_pages (wc_current s)))))"

definition generations :: "'a collection \<Rightarrow> 'a page_generation list" where
  "generations s = (case wc_pending s of None \<Rightarrow> [wc_current s] | Some g \<Rightarrow> [wc_current s, g])"

definition resident :: "'a collection \<Rightarrow> nat \<times> nat" where
  "resident s = (let ps = concat (map (\<lambda>g. filter is_ready (map_values (g_pages g))) (generations s))
     in (length ps, sum_list (map (length \<circ> ps_items) ps)))"

section \<open>Notifying\<close>

definition set_contents :: "nat \<Rightarrow> 'a collection \<Rightarrow> nat list" where
  "set_contents r s = (case map_get (wc_listenerSets s) r of None \<Rightarrow> [] | Some ls \<Rightarrow> ls)"

definition notifyPage :: "int \<Rightarrow> 'a collection \<Rightarrow> 'a collection" where
  "notifyPage page s = (case map_get (wc_pageListeners s) page of
     None \<Rightarrow> s | Some r \<Rightarrow> s\<lparr>wc_calls := wc_calls s @ map (Page_call page) (set_contents r s)\<rparr>)"

definition notifyAllPages :: "'a collection \<Rightarrow> 'a collection" where
  "notifyAllPages s = s\<lparr>wc_calls := wc_calls s
     @ concat (map (\<lambda>(page, r). map (Page_call page) (set_contents r s)) (wc_pageListeners s))\<rparr>"

definition next_snapshot :: "'a collection \<Rightarrow> collection_snapshot" where
  "next_snapshot s =
     (let g = wc_current s;
          pages = (if wc_visibleFirst s < 0 then []
                   else filter (\<lambda>p. case pageCount s g of None \<Rightarrow> True | Some n \<Rightarrow> p < n)
                     [pageOfIndex s (wc_visibleFirst s)..pageOfIndex s (wc_visibleLast s)]);
          failed = find (\<lambda>p. page_status g p is_failed) pages;
          status = (if failed \<noteq> None then Wc_error
                    else if g_total g = None then (if inFlight g > 0 then Wc_loading else Wc_idle)
                    else if list_ex (\<lambda>p. \<not> page_status g p is_ready) pages then Wc_loading else Wc_ready)
      in \<lparr>cs_generation = wc_shown s, cs_total = g_total g, cs_lowerBound = g_lowerBound g, cs_status = status,
          cs_error = Option.bind failed (\<lambda>p. map_option ps_error (map_get (g_pages g) p)), cs_index = g_index g,
          cs_refreshing = (case wc_pending s of None \<Rightarrow> False | Some p \<Rightarrow> g_quiet p = None)\<rparr>)"

definition wc_publish :: "'a collection \<Rightarrow> 'a collection" where
  "wc_publish s = (if next_snapshot s = wc_snapshot s then s
     else s\<lparr>wc_snapshot := next_snapshot s, wc_calls := wc_calls s @ map List_call (wc_listeners s)\<rparr>)"

section \<open>Generations in the state\<close>

text \<open>The pump works on the pending generation, then on the current one.\<close>

datatype gen_slot = Pending_slot | Current_slot

definition slot_gen :: "gen_slot \<Rightarrow> 'a collection \<Rightarrow> 'a page_generation option" where
  "slot_gen k s = (case k of Pending_slot \<Rightarrow> wc_pending s | Current_slot \<Rightarrow> Some (wc_current s))"

definition put_pages :: "gen_slot \<Rightarrow> (int, 'a page_state) js_map \<Rightarrow> 'a collection \<Rightarrow> 'a collection" where
  "put_pages k ps s = (case k of
     Pending_slot \<Rightarrow> s\<lparr>wc_pending := map_option (\<lambda>g. g\<lparr>g_pages := ps\<rparr>) (wc_pending s)\<rparr>
   | Current_slot \<Rightarrow> s\<lparr>wc_current := (wc_current s)\<lparr>g_pages := ps\<rparr>\<rparr>)"

definition notify_slot :: "gen_slot \<Rightarrow> int \<Rightarrow> 'a collection \<Rightarrow> 'a collection" where
  "notify_slot k page s = (if k = Current_slot then notifyPage page s else s)"

definition loading_controllers :: "(int, 'a page_state) js_map \<Rightarrow> nat list" where
  "loading_controllers ps = map ps_controller (filter is_loading (map_values ps))"

definition abort_loading :: "'a page_generation \<Rightarrow> 'a collection \<Rightarrow> 'a collection" where
  "abort_loading g s = s\<lparr>wc_aborted := wc_aborted s @ loading_controllers (g_pages g)\<rparr>"

section \<open>Eviction\<close>

text \<open>Least recently used first; pages outside interest before wanted ones; the kept ones never.\<close>

fun evict_loop :: "gen_slot \<Rightarrow> int \<Rightarrow> int list \<Rightarrow> int \<Rightarrow> 'a collection \<Rightarrow> 'a collection" where
  "evict_loop k limit [] n s = s"
| "evict_loop k limit (page # pages) n s =
     (if n \<le> limit then s
      else case slot_gen k s of
        None \<Rightarrow> s
      | Some g \<Rightarrow> evict_loop k limit pages (n - 1) (notify_slot k page (put_pages k (map_del page (g_pages g)) s)))"

definition evict :: "gen_slot \<Rightarrow> int list \<Rightarrow> int list \<Rightarrow> 'a collection \<Rightarrow> 'a collection" where
  "evict k keep kept s =
     (case slot_gen k s of
        None \<Rightarrow> s
      | Some g \<Rightarrow>
          if readyCount g \<le> c_maxResident (wc_config s) then s
          else let candidates = sort_key (\<lambda>(page, p). (page \<in> set keep, ps_used p))
                     (filter (\<lambda>(page, p). is_ready p \<and> page \<notin> set kept) (g_pages g))
               in evict_loop k (c_maxResident (wc_config s)) (map fst candidates) (readyCount g) s)"

section \<open>Requests\<close>

definition load_page :: "gen_slot \<Rightarrow> int \<Rightarrow> 'a collection \<Rightarrow> 'a collection" where
  "load_page k page s =
     (case slot_gen k s of
        None \<Rightarrow> s
      | Some g \<Rightarrow>
          (let version = (case map_get (g_pages g) page of Some p \<Rightarrow> ps_version p | None \<Rightarrow> 0) + 1; c = wc_nextRef s;
               s1 = put_pages k (map_set page (Loading c version) (g_pages g)) s
           in s1\<lparr>wc_nextRef := c + 1,
                 wc_started := wc_started s @ [\<lparr>at_gen = g_id g, at_page = page, at_controller = c, at_version = version\<rparr>]\<rparr>))"

text \<open>What the answer of a request does to its generation (\<open>load\<close>'s \<open>then\<close>), with the page ready.\<close>

definition absorb_result :: "'a page_result \<Rightarrow> 'a list \<Rightarrow> rat \<Rightarrow> attempt \<Rightarrow> nat \<Rightarrow> nat \<Rightarrow> int \<Rightarrow> 'a page_generation \<Rightarrow> 'a page_generation" where
  "absorb_result r items tot a tick ref psize g =
     (let g1 = (if pr_lowerBound r then
                  (if g_total g = None \<or> g_lowerBound g
                   then g\<lparr>g_total := Some (max (case g_total g of Some t \<Rightarrow> t | None \<Rightarrow> 0) \<lfloor>tot\<rfloor>), g_lowerBound := True\<rparr> else g)
                else g\<lparr>g_total := Some \<lfloor>tot\<rfloor>, g_lowerBound := False\<rparr>);
          g2 = (case pr_index r of
                  None \<Rightarrow> g1
                | Some idx \<Rightarrow> g1\<lparr>g_index := Some (ref, fold (\<lambda>(l, n) m. map_set l n m) idx
                    (case g_index g1 of Some (_, old) \<Rightarrow> old | None \<Rightarrow> []))\<rparr>)
      in g2\<lparr>g_pages := map_set (at_page a) (Ready (take (nat psize) items) (at_version a + 1) tick) (g_pages g2)\<rparr>)"

definition start_new :: "rat \<Rightarrow> 'a collection \<Rightarrow> 'a page_generation \<Rightarrow> int \<Rightarrow> bool" where
  "start_new now s g page \<longleftrightarrow>
     (case map_get (g_pages g) page of Some (Failed _ at' _) \<Rightarrow> \<not> now - at' < c_retryAfterMs (wc_config s) | _ \<Rightarrow> True)
     \<and> \<not> now < wc_waitUntil s
     \<and> (case pageCount s g of None \<Rightarrow> True | Some n \<Rightarrow> \<not> page \<ge> n)"

fun start_wanted :: "rat \<Rightarrow> gen_slot \<Rightarrow> int list \<Rightarrow> int \<Rightarrow> 'a collection \<Rightarrow> 'a collection" where
  "start_wanted now k [] active s = s"
| "start_wanted now k (page # pages) active s =
     (if active \<ge> c_maxConcurrent (wc_config s) then s
      else case slot_gen k s of
        None \<Rightarrow> s
      | Some g \<Rightarrow>
          (case map_get (g_pages g) page of
             Some (Ready items version used) \<Rightarrow>
               (let tick = wc_tick s + 1
                in start_wanted now k pages active
                     ((put_pages k (map_set page (Ready items version tick) (g_pages g)) s)\<lparr>wc_tick := tick\<rparr>))
           | Some (Loading _ _) \<Rightarrow> start_wanted now k pages active s
           | _ \<Rightarrow>
               if start_new now s g page then start_wanted now k pages (active + 1) (load_page k page s)
               else start_wanted now k pages active s))"

text \<open>Pages outside interest: a request is aborted, a failure forgotten.\<close>

definition drop_unwanted :: "gen_slot \<Rightarrow> int list \<Rightarrow> 'a collection \<Rightarrow> 'a collection" where
  "drop_unwanted k wanted s =
     (case slot_gen k s of
        None \<Rightarrow> s
      | Some g \<Rightarrow>
          (let dropped = filter (\<lambda>(page, p). page \<notin> set wanted \<and> \<not> is_ready p) (g_pages g);
               rest = filter (\<lambda>(page, p). page \<in> set wanted \<or> is_ready p) (g_pages g);
               s1 = put_pages k rest (s\<lparr>wc_aborted := wc_aborted s @ loading_controllers dropped\<rparr>)
           in fold (notify_slot k) (map fst (filter (\<lambda>(_, p). is_loading p) dropped)) s1))"

definition quiet_pending :: "'a collection \<Rightarrow> bool" where
  "quiet_pending s \<longleftrightarrow> (case wc_pending s of None \<Rightarrow> True | Some p \<Rightarrow> g_quiet p \<noteq> None)"

definition pump_slot :: "rat \<Rightarrow> gen_slot \<Rightarrow> 'a collection \<Rightarrow> 'a collection" where
  "pump_slot now k s =
     (case slot_gen k s of
        None \<Rightarrow> s
      | Some g \<Rightarrow>
          (let visible = visible_pages s g; wanted = wanted_pages s g; s1 = drop_unwanted k wanted s;
               kept = (case pinnedPage s g of None \<Rightarrow> visible | Some h \<Rightarrow> visible @ [h])
           in if k = Current_slot \<and> \<not> quiet_pending s then evict k wanted kept s1
              else (let active = (case slot_gen k s1 of Some g1 \<Rightarrow> inFlight g1 | None \<Rightarrow> 0)
                    in evict k wanted kept (start_wanted now k wanted active s1))))"

definition wc_pump :: "rat \<Rightarrow> 'a collection \<Rightarrow> 'a collection" where
  "wc_pump now s = (if wc_disposed s then s else pump_slot now Current_slot (pump_slot now Pending_slot s))"

section \<open>Swapping generations\<close>

definition dropPending :: "'a collection \<Rightarrow> 'a collection" where
  "dropPending s = (case wc_pending s of None \<Rightarrow> s | Some g \<Rightarrow> (abort_loading g s)\<lparr>wc_pending := None\<rparr>)"

definition swap :: "rat \<Rightarrow> 'a page_generation \<Rightarrow> 'a collection \<Rightarrow> 'a collection" where
  "swap now g s =
     wc_pump now (notifyAllPages ((abort_loading (wc_current s) s)\<lparr>wc_current := g, wc_pending := None, wc_shown := wc_shown s + 1\<rparr>))"

definition settle_promise :: "nat \<Rightarrow> reading_outcome \<Rightarrow> 'a collection \<Rightarrow> 'a collection" where
  "settle_promise promise out s = s\<lparr>wc_outcomes := wc_outcomes s @ [(promise, out)]\<rparr>"

definition set_holding :: "bool \<Rightarrow> 'a collection \<Rightarrow> 'a collection" where
  "set_holding h s = s\<lparr>wc_pending := map_option (\<lambda>g. g\<lparr>g_quiet := map_option (\<lambda>q. q\<lparr>qr_holding := h\<rparr>) (g_quiet g)\<rparr>) (wc_pending s)\<rparr>"

text \<open>\<open>finish\<close>: the view may have moved while the caller held the swap.\<close>

definition finish_quiet :: "rat \<Rightarrow> nat \<Rightarrow> 'a collection \<Rightarrow> 'a collection" where
  "finish_quiet now gid s =
     (case wc_pending s of
        None \<Rightarrow> s
      | Some g \<Rightarrow>
          if wc_disposed s \<or> g_id g \<noteq> gid then s
          else (case g_quiet g of
            None \<Rightarrow> s
          | Some q \<Rightarrow>
              if list_ex (\<lambda>p. \<not> page_status g p is_ready) (visible_pages s g) then wc_pump now (set_holding False s)
              else settle_promise (qr_promise q) Resolved (wc_publish (swap now g s))))"

definition quietSettled :: "rat \<Rightarrow> 'a page_generation \<Rightarrow> quiet_reading \<Rightarrow> 'a collection \<Rightarrow> 'a collection" where
  "quietSettled now g quiet s =
     (let visible = visible_pages s g;
          pages = (if exactEmpty g then [] else if visible \<noteq> [] then visible else [g_gate g])
      in case find (\<lambda>p. page_status g p is_failed) pages of
           Some p \<Rightarrow>
             (case map_get (g_pages g) p of
                Some (Failed e _ _) \<Rightarrow> settle_promise (qr_promise quiet) (Rejected e) (dropPending s)
              | _ \<Rightarrow> dropPending s)
         | None \<Rightarrow>
             if list_ex (\<lambda>p. \<not> page_status g p is_ready) pages \<or> qr_holding quiet then s
             else if \<not> qr_hold quiet then finish_quiet now (g_id g) s
             else set_holding True s)"

definition settled :: "rat \<Rightarrow> nat \<Rightarrow> int \<Rightarrow> 'a collection \<Rightarrow> 'a collection" where
  "settled now gid page s =
     (let s1 = (case wc_pending s of
                  None \<Rightarrow> s
                | Some g \<Rightarrow>
                    if g_id g \<noteq> gid then s
                    else (case g_quiet g of
                      Some quiet \<Rightarrow> quietSettled now g quiet s
                    | None \<Rightarrow> if page_status g (g_gate g) (\<lambda>p. is_ready p \<or> is_failed p) then swap now g s else s));
          s2 = (if g_id (wc_current s1) = gid then notifyPage page s1 else s1)
      in wc_publish (wc_pump now s2))"

text \<open>The generation an attempt belongs to; \<open>None\<close> when its answer no longer counts.\<close>

definition attempt_slot :: "attempt \<Rightarrow> 'a collection \<Rightarrow> gen_slot option" where
  "attempt_slot a s =
     (if wc_disposed s \<or> at_controller a \<in> set (wc_aborted s) then None
      else if g_id (wc_current s) = at_gen a \<and> page_status (wc_current s) (at_page a) is_loading then Some Current_slot
      else case wc_pending s of
        Some g \<Rightarrow> if g_id g = at_gen a \<and> page_status g (at_page a) is_loading then Some Pending_slot else None
      | None \<Rightarrow> None)"

definition put_gen :: "gen_slot \<Rightarrow> 'a page_generation \<Rightarrow> 'a collection \<Rightarrow> 'a collection" where
  "put_gen k g s = (case k of Pending_slot \<Rightarrow> s\<lparr>wc_pending := Some g\<rparr> | Current_slot \<Rightarrow> s\<lparr>wc_current := g\<rparr>)"

text \<open>The answer of a request; a malformed one is thrown and comes back as a failure.\<close>

definition page_loaded :: "rat \<Rightarrow> attempt \<Rightarrow> 'a page_result option \<Rightarrow> 'a collection \<Rightarrow> 'a collection \<times> bool" where
  "page_loaded now a result s =
     (case attempt_slot a s of
        None \<Rightarrow> (s, True)
      | Some k \<Rightarrow>
          (case (slot_gen k s, result) of
             (Some g, Some r) \<Rightarrow>
               (case (pr_items r, pr_total r) of
                  (Some items, Fin tot) \<Rightarrow>
                    if tot < 0 then (s, False)
                    else (settled now (at_gen a) (at_page a)
                      ((put_gen k (absorb_result r items tot a (wc_tick s + 1) (wc_nextRef s) (c_pageSize (wc_config s)) g) s)
                        \<lparr>wc_tick := wc_tick s + 1, wc_nextRef := wc_nextRef s + 1\<rparr>), True)
                | _ \<Rightarrow> (s, False))
           | _ \<Rightarrow> (s, False)))"

definition page_failed :: "rat \<Rightarrow> attempt \<Rightarrow> failure \<Rightarrow> 'a collection \<Rightarrow> 'a collection" where
  "page_failed now a e s =
     (case attempt_slot a s of
        None \<Rightarrow> s
      | Some k \<Rightarrow>
          (case slot_gen k s of
             None \<Rightarrow> s
           | Some g \<Rightarrow>
               (let asked = serverWait (f_value e);
                    g1 = g\<lparr>g_lastError := Some e, g_pages := map_set (at_page a) (Failed e now (at_version a + 1)) (g_pages g)\<rparr>;
                    s1 = put_gen k g1 s
                in settled now (at_gen a) (at_page a)
                     (if asked \<noteq> 0 then s1\<lparr>wc_waitUntil := max (wc_waitUntil s) (now + asked)\<rparr> else s1))))"

section \<open>The public operations\<close>

definition wc_subscribe :: "nat \<Rightarrow> 'a collection \<Rightarrow> 'a collection" where
  "wc_subscribe l s = s\<lparr>wc_listeners := set_add l (wc_listeners s)\<rparr>"

definition wc_unsubscribe :: "nat \<Rightarrow> 'a collection \<Rightarrow> 'a collection" where
  "wc_unsubscribe l s = s\<lparr>wc_listeners := set_del l (wc_listeners s)\<rparr>"

text \<open>
  A subscription of a page returns a closure over the page's set object: the set's identity is the
  second component here and an argument of \<open>unsubscribePage\<close>.
\<close>

definition subscribePage :: "int \<Rightarrow> nat \<Rightarrow> 'a collection \<Rightarrow> 'a collection \<times> nat" where
  "subscribePage page l s =
     (let r = (case map_get (wc_pageListeners s) page of Some r \<Rightarrow> r | None \<Rightarrow> wc_nextRef s);
          s1 = (if map_has (wc_pageListeners s) page then s
                else s\<lparr>wc_nextRef := wc_nextRef s + 1, wc_pageListeners := map_set page r (wc_pageListeners s)\<rparr>)
      in (s1\<lparr>wc_listenerSets := map_set r (set_add l (set_contents r s)) (wc_listenerSets s)\<rparr>, r))"

definition unsubscribePage :: "int \<Rightarrow> nat \<Rightarrow> nat \<Rightarrow> 'a collection \<Rightarrow> 'a collection" where
  "unsubscribePage page r l s =
     (let ls = set_del l (set_contents r s)
      in s\<lparr>wc_listenerSets := map_set r ls (wc_listenerSets s),
           wc_pageListeners := (if ls = [] then map_del page (wc_pageListeners s) else wc_pageListeners s)\<rparr>)"

definition ensureRange :: "rat \<Rightarrow> rat \<Rightarrow> rat \<Rightarrow> 'a collection \<Rightarrow> 'a collection" where
  "ensureRange now first last' s =
     (if wc_disposed s then s
      else let a = max 0 \<lfloor>min first last'\<rfloor>; b = max a \<lfloor>max first last'\<rfloor>
           in if a = wc_visibleFirst s \<and> b = wc_visibleLast s then wc_pump now s
              else wc_publish (wc_pump now
                (s\<lparr>wc_direction := (if wc_lastFirst s < 0 then 0 else sgn (a - wc_lastFirst s)), wc_lastFirst := a,
                   wc_visibleFirst := a, wc_visibleLast := b,
                   wc_pending := map_option (\<lambda>g. g\<lparr>g_gate := pageOfIndex s a\<rparr>) (wc_pending s)\<rparr>)))"

definition wc_pin :: "rat \<Rightarrow> js_num option \<Rightarrow> 'a collection \<Rightarrow> 'a collection" where
  "wc_pin now index s =
     (if wc_disposed s then s
      else let next' = (case index of
                 Some (Fin r) \<Rightarrow> if isSafeInteger (Fin r) \<and> r \<ge> 0 then Some \<lfloor>r\<rfloor> else None
               | _ \<Rightarrow> None)
           in if next' = wc_pinned s then s else wc_pump now (s\<lparr>wc_pinned := next'\<rparr>))"

definition revalidate :: "rat \<Rightarrow> nat option \<Rightarrow> bool \<Rightarrow> 'a collection \<Rightarrow> 'a collection \<times> nat" where
  "revalidate now fetch hold s0 =
     (let promise = wc_nextRef s0; s = s0\<lparr>wc_nextRef := promise + 1\<rparr>
      in if wc_disposed s \<or> g_total (wc_current s) = None \<or> wc_visibleFirst s < 0 \<or> \<not> quiet_pending s
         then (settle_promise promise Resolved s, promise)
         else let s1 = (case wc_pending s of
                    None \<Rightarrow> s
                  | Some g \<Rightarrow> (case g_quiet g of
                        None \<Rightarrow> s
                      | Some q \<Rightarrow> settle_promise (qr_promise q) Resolved (dropPending s)));
                  g = new_generation (wc_nextId s1) (case fetch of Some f \<Rightarrow> f | None \<Rightarrow> g_fetch (wc_current s1))
                    (pageOfIndex s1 (wc_visibleFirst s1)) (Some \<lparr>qr_promise = promise, qr_hold = hold, qr_holding = False\<rparr>)
              in (wc_pump now (s1\<lparr>wc_nextId := wc_nextId s1 + 1, wc_pending := Some g\<rparr>), promise))"

definition invalidate :: "rat \<Rightarrow> nat option \<Rightarrow> 'a collection \<Rightarrow> 'a collection" where
  "invalidate now fetch s =
     (if wc_disposed s then s
      else let s1 = s\<lparr>wc_pinned := None\<rparr>;
               s2 = (case wc_pending s1 of
                   None \<Rightarrow> s1
                 | Some g \<Rightarrow> abort_loading g (case g_quiet g of Some q \<Rightarrow> settle_promise (qr_promise q) Resolved s1 | None \<Rightarrow> s1));
               g = new_generation (wc_nextId s2) (case fetch of Some f \<Rightarrow> f | None \<Rightarrow> g_fetch (wc_current s2))
                 (if wc_visibleFirst s2 < 0 then 0 else pageOfIndex s2 (wc_visibleFirst s2)) None;
               s3 = s2\<lparr>wc_nextId := wc_nextId s2 + 1, wc_pending := Some g\<rparr>;
               s4 = (if g_pages (wc_current s3) = []
                     then notifyAllPages (s3\<lparr>wc_current := g, wc_pending := None, wc_shown := wc_shown s3 + 1\<rparr>) else s3)
           in wc_publish (wc_pump now s4))"

definition forget_failures :: "'a page_generation \<Rightarrow> 'a page_generation" where
  "forget_failures g = g\<lparr>g_pages := filter (\<lambda>(_, p). \<not> is_failed p) (g_pages g)\<rparr>"

definition wc_retry :: "rat \<Rightarrow> 'a collection \<Rightarrow> 'a collection" where
  "wc_retry now s = wc_publish (wc_pump now
     (s\<lparr>wc_waitUntil := 0, wc_current := forget_failures (wc_current s), wc_pending := map_option forget_failures (wc_pending s)\<rparr>))"

definition wc_dispose :: "'a collection \<Rightarrow> 'a collection" where
  "wc_dispose s =
     (if wc_disposed s then s
      else let s1 = s\<lparr>wc_disposed := True\<rparr>;
               s2 = (case Option.bind (wc_pending s1) g_quiet of Some q \<Rightarrow> settle_promise (qr_promise q) Resolved s1 | None \<Rightarrow> s1);
               s3 = fold abort_loading (generations s2) s2
           in s3\<lparr>wc_current := (wc_current s3)\<lparr>g_pages := []\<rparr>, wc_pending := None, wc_listeners := [], wc_pageListeners := []\<rparr>)"

section \<open>Runs\<close>

text \<open>Calls, answers in any order, and the clock: every transition takes the time it happens at.\<close>

inductive wc_step :: "'a collection \<Rightarrow> 'a collection \<Rightarrow> bool" where
  wc_step_subscribe: "wc_step s (wc_subscribe l s)"
| wc_step_unsubscribe: "wc_step s (wc_unsubscribe l s)"
| wc_step_subscribePage: "wc_step s (fst (subscribePage p l s))"
| wc_step_unsubscribePage: "wc_step s (unsubscribePage p r l s)"
| wc_step_ensureRange: "wc_step s (ensureRange now a b s)"
| wc_step_pin: "wc_step s (wc_pin now i s)"
| wc_step_revalidate: "wc_step s (fst (revalidate now f h s))"
| wc_step_invalidate: "wc_step s (invalidate now f s)"
| wc_step_retry: "wc_step s (wc_retry now s)"
| wc_step_loaded: "a \<in> set (wc_started s) \<Longrightarrow> wc_step s (fst (page_loaded now a r s))"
| wc_step_failed: "a \<in> set (wc_started s) \<Longrightarrow> wc_step s (page_failed now a e s)"
| wc_step_held: "wc_step s (finish_quiet now gid s)"
| wc_step_dispose: "wc_step s (wc_dispose s)"

inductive wc_reachable :: "'a collection \<Rightarrow> bool" where
  wc_reach_new: "wc_reachable (new_collection o' fetch)"
| wc_reach_step: "wc_reachable s \<Longrightarrow> wc_step s s' \<Longrightarrow> wc_reachable s'"

end
