(* ===== verification/Windowed_Pages.thy ===== *)
theory Windowed_Pages
  imports Windowed_Collection
begin

text \<open>
  What one pass of the pump does to the pages of a generation: the frame of every primitive
  (\<open>pages_change\<close>) and its effect on which pages are ready or loading.
\<close>

section \<open>Counting pages\<close>

definition weight_of :: "('a page_state \<Rightarrow> bool) \<Rightarrow> 'a page_state \<Rightarrow> int" where
  "weight_of f p = (if f p then 1 else 0)"

lemma weight_of_simps [simp]: "f p \<Longrightarrow> weight_of f p = 1" "\<not> f p \<Longrightarrow> weight_of f p = 0"
  by (simp_all add: weight_of_def)

lemma page_kinds [simp]:
  "is_ready p \<Longrightarrow> \<not> is_loading p" "is_ready p \<Longrightarrow> \<not> is_failed p" "is_loading p \<Longrightarrow> \<not> is_failed p"
  by (cases p; simp)+

lemma failed_kinds: "is_failed p \<Longrightarrow> \<not> is_loading p \<and> \<not> is_ready p"
  by (cases p) simp_all

lemma count_pages_sum: "int (length (filter (f \<circ> snd) ps)) = map_sum (weight_of f) ps"
  by (induction ps) (auto simp: map_sum_def weight_of_def)

lemma readyCount_sum: "readyCount g = map_sum (weight_of is_ready) (g_pages g)"
  by (simp add: readyCount_def filter_map count_pages_sum)

lemma inFlight_sum: "inFlight g = map_sum (weight_of is_loading) (g_pages g)"
  by (simp add: inFlight_def filter_map count_pages_sum)

lemma map_wf_filter [simp]: "map_wf m \<Longrightarrow> map_wf (filter f m)"
  unfolding map_wf_def by (induction m) auto

lemma map_of_filter_wf:
  "map_wf m \<Longrightarrow> map_of (filter (\<lambda>(k, v). f k v) m) k = (case map_of m k of None \<Rightarrow> None | Some v \<Rightarrow> if f k v then Some v else None)"
  unfolding map_wf_def by (induction m) (auto simp: map_of_eq_None_iff split: option.splits)

lemma map_sum_filter_le: "map_sum (weight_of f) (filter P m) \<le> map_sum (weight_of f) m"
  by (induction m) (auto simp: map_sum_def weight_of_def)

lemma map_sum_filter_same:
  "(\<And>k v. (k, v) \<in> set m \<Longrightarrow> f v \<Longrightarrow> P (k, v)) \<Longrightarrow> map_sum (weight_of f) (filter P m) = map_sum (weight_of f) m"
  by (induction m) (auto simp: map_sum_def weight_of_def)

lemma count_within:
  assumes "map_wf ps" and "\<And>p x. map_of ps p = Some x \<Longrightarrow> f x \<Longrightarrow> p \<in> K" and "finite K"
  shows "map_sum (weight_of f) ps \<le> int (card K)"
proof -
  let ?qs = "filter (\<lambda>e. f (snd e)) ps"
  have "map_sum (weight_of f) ps = int (length ?qs)"
    by (induction ps) (auto simp: map_sum_def weight_of_def)
  also have "length ?qs = card (fst ` set ?qs)"
    using map_wf_filter[OF assms(1), of "\<lambda>e. f (snd e)"] unfolding map_wf_def
    by (metis distinct_card length_map list.set_map)
  also have "\<dots> \<le> card K"
  proof (rule card_mono[OF assms(3)], rule subsetI)
    fix p assume "p \<in> fst ` set ?qs"
    then obtain x where "(p, x) \<in> set ps" "f x" by auto
    then show "p \<in> K" using assms(1,2) by (auto simp: map_wf_in_set)
  qed
  finally show ?thesis by simp
qed

section \<open>The frame of the pump\<close>

definition slot_pages :: "gen_slot \<Rightarrow> 'a collection \<Rightarrow> (int, 'a page_state) js_map" where
  "slot_pages k s = (case slot_gen k s of None \<Rightarrow> [] | Some g \<Rightarrow> g_pages g)"

definition pages_change :: "gen_slot \<Rightarrow> 'a collection \<Rightarrow> 'a collection \<Rightarrow> bool" where
  "pages_change k s s' \<longleftrightarrow> (\<exists>ps ab st r t c. s' = (put_pages k ps s)
     \<lparr>wc_aborted := ab, wc_started := st, wc_nextRef := r, wc_tick := t, wc_calls := c\<rparr>)"

lemma pages_changeI:
  "s' = (put_pages k ps s)\<lparr>wc_aborted := ab, wc_started := st, wc_nextRef := r, wc_tick := t, wc_calls := c\<rparr> \<Longrightarrow> pages_change k s s'"
  unfolding pages_change_def by blast

lemma put_pages_own [simp]: "put_pages k (slot_pages k s) s = s"
  by (cases k) (auto simp: put_pages_def slot_pages_def slot_gen_def option.map_ident split: option.split)

lemma pages_change_refl [simp]: "pages_change k s s"
  by (rule pages_changeI[where ps = "slot_pages k s" and ab = "wc_aborted s" and st = "wc_started s" and r = "wc_nextRef s"
      and t = "wc_tick s" and c = "wc_calls s"]) simp

lemma put_pages_put [simp]: "put_pages k ps (put_pages k qs s) = put_pages k ps s"
  by (cases k) (simp_all add: put_pages_def option.map_comp o_def)

lemma pages_change_trans [trans]: "pages_change k s t \<Longrightarrow> pages_change k t u \<Longrightarrow> pages_change k s u"
  unfolding pages_change_def
  by (cases k) (fastforce simp: put_pages_def option.map_comp o_def)+

lemma pages_change_frame:
  assumes "pages_change k s s'"
  shows "wc_config s' = wc_config s" "wc_visibleFirst s' = wc_visibleFirst s" "wc_visibleLast s' = wc_visibleLast s"
    "wc_pinned s' = wc_pinned s" "wc_disposed s' = wc_disposed s" "wc_direction s' = wc_direction s"
    "wc_nextId s' = wc_nextId s" "wc_shown s' = wc_shown s" "wc_outcomes s' = wc_outcomes s" "wc_waitUntil s' = wc_waitUntil s"
    "wc_pageListeners s' = wc_pageListeners s" "wc_listeners s' = wc_listeners s" "wc_snapshot s' = wc_snapshot s"
    "(wc_pending s' = None) = (wc_pending s = None)"
  using assms unfolding pages_change_def by (cases k; auto simp: put_pages_def)+

text \<open>What stays of a generation when only its pages change.\<close>

definition gen_frame :: "'a page_generation \<Rightarrow> 'a page_generation \<Rightarrow> bool" where
  "gen_frame g g' \<longleftrightarrow> g_id g' = g_id g \<and> g_total g' = g_total g \<and> g_lowerBound g' = g_lowerBound g \<and> g_gate g' = g_gate g
     \<and> g_quiet g' = g_quiet g \<and> g_index g' = g_index g"

lemma gen_frame_refl [simp]: "gen_frame g g"
  by (simp add: gen_frame_def)

lemma gen_frame_trans: "gen_frame g g' \<Longrightarrow> gen_frame g' g'' \<Longrightarrow> gen_frame g g''"
  by (simp add: gen_frame_def)

lemma pages_change_current:
  "pages_change k s s' \<Longrightarrow> gen_frame (wc_current s) (wc_current s') \<and> (k = Pending_slot \<longrightarrow> wc_current s' = wc_current s)"
  unfolding pages_change_def gen_frame_def by (cases k) (auto simp: put_pages_def)

lemma pages_change_pending:
  "pages_change k s s' \<Longrightarrow> rel_option gen_frame (wc_pending s) (wc_pending s') \<and> (k = Current_slot \<longrightarrow> wc_pending s' = wc_pending s)"
  unfolding pages_change_def gen_frame_def by (cases k; cases "wc_pending s") (auto simp: put_pages_def)

lemma put_pages_change: "pages_change k s (put_pages k ps s)"
  by (rule pages_changeI[where ps = ps and ab = "wc_aborted s" and st = "wc_started s" and r = "wc_nextRef s"
      and t = "wc_tick s" and c = "wc_calls s"]) (cases k; simp add: put_pages_def)

lemma bookkeeping_change:
  "pages_change k s (s\<lparr>wc_aborted := ab, wc_started := st, wc_nextRef := r, wc_tick := t, wc_calls := c\<rparr>)"
  by (rule pages_changeI[where ps = "slot_pages k s"]) simp

lemma bookkeeping_changes [simp]:
  "pages_change k s (s\<lparr>wc_aborted := ab\<rparr>)" "pages_change k s (s\<lparr>wc_tick := t\<rparr>)" "pages_change k s (s\<lparr>wc_calls := c\<rparr>)"
  "pages_change k s (s\<lparr>wc_nextRef := r, wc_started := st\<rparr>)"
proof -
  note own = bookkeeping_change[of k s]
  show "pages_change k s (s\<lparr>wc_aborted := ab\<rparr>)"
    using own[where ab = ab and st = "wc_started s" and r = "wc_nextRef s" and t = "wc_tick s" and c = "wc_calls s"] by simp
  show "pages_change k s (s\<lparr>wc_tick := t\<rparr>)"
    using own[where ab = "wc_aborted s" and st = "wc_started s" and r = "wc_nextRef s" and t = t and c = "wc_calls s"] by simp
  show "pages_change k s (s\<lparr>wc_calls := c\<rparr>)"
    using own[where ab = "wc_aborted s" and st = "wc_started s" and r = "wc_nextRef s" and t = "wc_tick s" and c = c] by simp
  have "s\<lparr>wc_nextRef := r, wc_started := st\<rparr> = s\<lparr>wc_started := st, wc_nextRef := r\<rparr>" by simp
  then show "pages_change k s (s\<lparr>wc_nextRef := r, wc_started := st\<rparr>)"
    using own[where ab = "wc_aborted s" and st = st and r = r and t = "wc_tick s" and c = "wc_calls s"] by (simp only:) simp
qed

lemma notifyPage_change: "pages_change k s (notifyPage p s)"
  by (simp add: notifyPage_def split: option.split)

lemma notify_slot_change: "pages_change k s (notify_slot k' p s)"
  by (simp add: notify_slot_def notifyPage_change)

lemma notifyPage_pages [simp]: "slot_pages k (notifyPage p s) = slot_pages k s" "slot_gen k (notifyPage p s) = slot_gen k s"
  by (simp_all add: notifyPage_def slot_pages_def slot_gen_def split: option.split gen_slot.split)

lemma notify_slot_pages [simp]: "slot_pages k (notify_slot k' p s) = slot_pages k s"
  by (simp add: notify_slot_def)

lemma fold_notify_pages [simp]: "slot_pages k (fold (notify_slot k') ps s) = slot_pages k s"
  by (induction ps arbitrary: s) simp_all

lemma fold_notify_change: "pages_change k s (fold (notify_slot k') ps s)"
proof (induction ps arbitrary: s)
  case (Cons p ps)
  then show ?case using pages_change_trans[OF notify_slot_change Cons.IH] by simp
qed simp

lemma slot_pages_put: "slot_gen k s \<noteq> None \<Longrightarrow> slot_pages k (put_pages k ps s) = ps"
  by (cases k) (auto simp: slot_pages_def put_pages_def slot_gen_def)

lemma slot_pages_Some [simp]: "slot_gen k s = Some g \<Longrightarrow> slot_pages k s = g_pages g"
  by (simp add: slot_pages_def)

lemma slot_pages_None [simp]: "slot_gen k s = None \<Longrightarrow> slot_pages k s = []"
  by (simp add: slot_pages_def)

lemma slot_pages_books [simp]:
  "slot_pages k (s\<lparr>wc_aborted := ab\<rparr>) = slot_pages k s" "slot_pages k (s\<lparr>wc_tick := t\<rparr>) = slot_pages k s"
  "slot_pages k (s\<lparr>wc_calls := c\<rparr>) = slot_pages k s" "slot_pages k (s\<lparr>wc_nextRef := r, wc_started := st\<rparr>) = slot_pages k s"
  by (cases k; simp add: slot_pages_def slot_gen_def)+

lemma slot_gen_books [simp]:
  "slot_gen k (s\<lparr>wc_aborted := ab\<rparr>) = slot_gen k s" "slot_gen k (s\<lparr>wc_tick := t\<rparr>) = slot_gen k s"
  by (cases k; simp add: slot_gen_def)+

section \<open>Dropping what left interest\<close>

lemma drop_unwanted_change: "pages_change k s (drop_unwanted k wanted s)"
proof (cases "slot_gen k s")
  case (Some g)
  then show ?thesis unfolding drop_unwanted_def Let_def
    by (simp only: option.case) (rule pages_change_trans[OF _ fold_notify_change], rule pages_change_trans[OF _ put_pages_change], simp)
qed (simp add: drop_unwanted_def)

lemma drop_unwanted_pages:
  "slot_pages k (drop_unwanted k wanted s) = filter (\<lambda>(page, p). page \<in> set wanted \<or> is_ready p) (slot_pages k s)"
  by (cases "slot_gen k s") (simp_all add: drop_unwanted_def Let_def slot_pages_put)

section \<open>Starting requests\<close>

lemma load_page_change: "pages_change k s (load_page k p s)"
proof (cases "slot_gen k s")
  case (Some g)
  then show ?thesis unfolding load_page_def Let_def
    by (simp only: option.case) (rule pages_change_trans[OF put_pages_change bookkeeping_changes(4)])
qed (simp add: load_page_def)

lemma load_page_pages:
  "slot_gen k s = Some g \<Longrightarrow> \<exists>c v. slot_pages k (load_page k p s) = map_set p (Loading c v) (g_pages g)"
  by (auto simp: load_page_def Let_def slot_pages_put)

definition tick_page :: "gen_slot \<Rightarrow> int \<Rightarrow> 'a list \<Rightarrow> nat \<Rightarrow> 'a page_generation \<Rightarrow> 'a collection \<Rightarrow> 'a collection" where
  "tick_page k page items version g s =
     (put_pages k (map_set page (Ready items version (wc_tick s + 1)) (g_pages g)) s)\<lparr>wc_tick := wc_tick s + 1\<rparr>"

text \<open>The rule of the loop: an assertion that its two steps keep holds at its end.\<close>

lemma start_wanted_rule:
  assumes "I active s"
    and tick: "\<And>a t g p items v u. \<lbrakk>I a t; slot_gen k t = Some g; map_of (g_pages g) p = Some (Ready items v u)\<rbrakk>
      \<Longrightarrow> I a (tick_page k p items v g t)"
    and load: "\<And>a t g p. \<lbrakk>I a t; slot_gen k t = Some g; a < c_maxConcurrent (wc_config t);
      case map_of (g_pages g) p of Some x \<Rightarrow> is_failed x | None \<Rightarrow> True\<rbrakk> \<Longrightarrow> I (a + 1) (load_page k p t)"
  shows "\<exists>a. I a (start_wanted now k pages active s)"
  using assms(1)
proof (induction pages arbitrary: active s)
  case (Cons page pages)
  show ?case
  proof (cases "active \<ge> c_maxConcurrent (wc_config s) \<or> slot_gen k s = None")
    case False
    then obtain g where g: "slot_gen k s = Some g" and a: "\<not> active \<ge> c_maxConcurrent (wc_config s)" by auto
    note steps = tick[OF Cons.prems g, THEN Cons.IH, unfolded tick_page_def] load[OF Cons.prems g _, THEN Cons.IH]
    show ?thesis
    proof (cases "map_of (g_pages g) page")
      case None
      then show ?thesis using a g steps(2)[of page] Cons.IH[OF Cons.prems] by simp
    next
      case (Some x)
      then show ?thesis using a g steps(1)[of page] steps(2)[of page] Cons.IH[OF Cons.prems]
        by (cases x) (simp_all add: Let_def)
    qed
  qed (use Cons.prems in auto)
qed auto

lemma tick_page_change: "pages_change k s (tick_page k p items v g s)"
  unfolding tick_page_def by (rule pages_change_trans[OF put_pages_change bookkeeping_changes(2)])

lemma tick_page_pages:
  "slot_gen k s = Some g \<Longrightarrow> slot_pages k (tick_page k p items v g s) = map_set p (Ready items v (wc_tick s + 1)) (g_pages g)"
  by (simp add: tick_page_def slot_pages_put)

lemma start_wanted_change: "pages_change k s (start_wanted now k pages active s)"
  using start_wanted_rule[of "\<lambda>_. pages_change k s" active s k now pages]
  by (auto intro: pages_change_trans tick_page_change load_page_change)

text \<open>The pages a pass may leave: the ready ones keep their items, the others are loading.\<close>

definition pages_kept :: "(int, 'a page_state) js_map \<Rightarrow> (int, 'a page_state) js_map \<Rightarrow> bool" where
  "pages_kept ps qs \<longleftrightarrow> (map_wf ps \<longrightarrow> map_wf qs) \<and> map_sum (weight_of is_ready) qs = map_sum (weight_of is_ready) ps
     \<and> (\<forall>p items v u. map_of ps p = Some (Ready items v u) \<longrightarrow> (\<exists>u'. map_of qs p = Some (Ready items v u')))
     \<and> (\<forall>p items v u. map_of qs p = Some (Ready items v u) \<longrightarrow> (\<exists>u'. map_of ps p = Some (Ready items v u')))"

lemma pages_kept_refl [simp]: "pages_kept ps ps"
  by (simp add: pages_kept_def)

lemma pages_kept_trans: "pages_kept ps qs \<Longrightarrow> pages_kept qs rs \<Longrightarrow> pages_kept ps rs"
  unfolding pages_kept_def by metis

lemma pages_kept_load:
  "(case map_of ps p of Some x \<Rightarrow> \<not> is_ready x | None \<Rightarrow> True) \<Longrightarrow> pages_kept ps (map_set p (Loading c v) ps)"
  unfolding pages_kept_def by (auto simp: js_map_simps split: option.splits)

lemma pages_kept_tick:
  "map_of ps p = Some (Ready items v u) \<Longrightarrow> pages_kept ps (map_set p (Ready items v u') ps)"
  unfolding pages_kept_def by (auto simp: js_map_simps split: option.splits)

lemma start_wanted_kept: "pages_kept (slot_pages k s) (slot_pages k (start_wanted now k pages active s))"
proof -
  have "\<exists>a :: int. pages_kept (slot_pages k s) (slot_pages k (start_wanted now k pages active s))"
  proof (rule start_wanted_rule[of "\<lambda>_ t. pages_kept (slot_pages k s) (slot_pages k t)"])
    fix t g p items v u
    assume "pages_kept (slot_pages k s) (slot_pages k t)" "slot_gen k t = Some g" "map_of (g_pages g) p = Some (Ready items v u)"
    then show "pages_kept (slot_pages k s) (slot_pages k (tick_page k p items v g t))"
      by (auto simp: tick_page_pages intro: pages_kept_trans pages_kept_tick)
  next
    fix t g p
    assume k: "pages_kept (slot_pages k s) (slot_pages k t)" and g: "slot_gen k t = Some g"
      and f: "case map_of (g_pages g) p of Some x \<Rightarrow> is_failed x | None \<Rightarrow> True"
    obtain c v where l: "slot_pages k (load_page k p t) = map_set p (Loading c v) (g_pages g)"
      using load_page_pages[OF g] by blast
    have "pages_kept (g_pages g) (map_set p (Loading c v) (g_pages g))"
      by (rule pages_kept_load) (use f in \<open>auto dest: failed_kinds split: option.splits\<close>)
    then show "pages_kept (slot_pages k s) (slot_pages k (load_page k p t))"
      using pages_kept_trans[OF k, of "slot_pages k (load_page k p t)"] g l by simp
  qed simp
  then show ?thesis by simp
qed

text \<open>The loop counts the requests it starts, so it never exceeds the limit.\<close>

definition loading_count :: "gen_slot \<Rightarrow> 'a collection \<Rightarrow> int" where
  "loading_count k s = map_sum (weight_of is_loading) (slot_pages k s)"

lemma start_wanted_loading:
  assumes "loading_count k s \<le> c_maxConcurrent (wc_config s)"
  shows "loading_count k (start_wanted now k pages (loading_count k s) s) \<le> c_maxConcurrent (wc_config s)"
proof -
  let ?I = "\<lambda>a t. a = loading_count k t \<and> a \<le> c_maxConcurrent (wc_config s) \<and> wc_config t = wc_config s"
  have "\<exists>a. ?I a (start_wanted now k pages (loading_count k s) s)"
  proof (rule start_wanted_rule[of ?I])
    fix a t g p items v u
    assume "?I a t" "slot_gen k t = Some g" "map_of (g_pages g) p = Some (Ready items v u)"
    then show "?I a (tick_page k p items v g t)"
      using pages_change_frame(1)[OF tick_page_change, of k p items v g t]
      by (simp add: loading_count_def tick_page_pages js_map_simps)
  next
    fix a t g p
    assume i: "?I a t" and g: "slot_gen k t = Some g" and lt: "a < c_maxConcurrent (wc_config t)"
      and f: "case map_of (g_pages g) p of Some x \<Rightarrow> is_failed x | None \<Rightarrow> True"
    obtain c v where l: "slot_pages k (load_page k p t) = map_set p (Loading c v) (g_pages g)"
      using load_page_pages[OF g] by blast
    have "loading_count k (load_page k p t) = loading_count k t + 1"
      using g f by (auto simp: loading_count_def l js_map_simps dest: failed_kinds split: option.splits)
    then show "?I (a + 1) (load_page k p t)"
      using i lt pages_change_frame(1)[OF load_page_change, of k p t] by simp
  qed (use assms in simp)
  then show ?thesis by auto
qed

end
