(* ===== verification/Windowed_Pump.thy ===== *)
theory Windowed_Pump
  imports Windowed_Pages
begin

text \<open>
  Eviction and the whole pump: what a pass guarantees of the pages it leaves behind, whatever the
  state it started from.
\<close>

section \<open>Eviction\<close>

lemma evict_loop_change: "pages_change k s (evict_loop k limit pages n s)"
proof (induction k limit pages n s rule: evict_loop.induct)
  case (2 k limit page pages n s)
  then show ?case
    by (auto split: option.split intro: pages_change_trans[OF pages_change_trans[OF put_pages_change notify_slot_change]])
qed simp

lemma evict_change: "pages_change k s (evict k keep kept s)"
  by (auto simp: evict_def Let_def intro: evict_loop_change split: option.split)

text \<open>
  What a run of evictions leaves: pages that are not candidates stay as they are, requests are not
  touched, and either the limit is met or no candidate is left.
\<close>

definition ready_in :: "(int, 'a page_state) js_map \<Rightarrow> int \<Rightarrow> bool" where
  "ready_in ps p \<longleftrightarrow> (case map_of ps p of Some x \<Rightarrow> is_ready x | None \<Rightarrow> False)"

definition evicted :: "int list \<Rightarrow> int \<Rightarrow> (int, 'a page_state) js_map \<Rightarrow> (int, 'a page_state) js_map \<Rightarrow> bool" where
  "evicted candidates limit ps qs \<longleftrightarrow> map_wf qs \<and> (\<forall>p. p \<notin> set candidates \<longrightarrow> map_of qs p = map_of ps p)
     \<and> (\<forall>p x. map_of qs p = Some x \<longrightarrow> map_of ps p = Some x)
     \<and> map_sum (weight_of is_loading) qs = map_sum (weight_of is_loading) ps
     \<and> (map_sum (weight_of is_ready) qs \<le> limit \<or> (\<forall>p \<in> set candidates. map_of qs p = None))"

lemma evictedD:
  assumes "evicted candidates limit ps qs"
  shows "map_wf qs" "p \<notin> set candidates \<Longrightarrow> map_of qs p = map_of ps p" "map_of qs p = Some x \<Longrightarrow> map_of ps p = Some x"
    "map_sum (weight_of is_loading) qs = map_sum (weight_of is_loading) ps"
    "map_sum (weight_of is_ready) qs \<le> limit \<or> (\<forall>p \<in> set candidates. map_of qs p = None)"
  using assms unfolding evicted_def by blast+

lemma evicted_stop: "map_wf ps \<Longrightarrow> map_sum (weight_of is_ready) ps \<le> limit \<or> candidates = [] \<Longrightarrow> evicted candidates limit ps ps"
  by (auto simp: evicted_def)

lemma evicted_step:
  assumes "map_wf ps" "map_of ps p = Some x" "is_ready x" "p \<notin> set candidates" "evicted candidates limit (map_del p ps) qs"
  shows "evicted (p # candidates) limit ps qs"
proof -
  note ev = evictedD[OF assms(5)]
  have sub: "q \<noteq> p \<and> map_of ps q = Some y" if "map_of qs q = Some y" for q y
    using ev(3)[OF that] by (simp add: js_map_simps split: if_splits)
  have same: "map_of qs q = map_of ps q" if "q \<notin> set (p # candidates)" for q
    using ev(2)[of q] that by (simp add: js_map_simps)
  have loading: "map_sum (weight_of is_loading) qs = map_sum (weight_of is_loading) ps"
    unfolding ev(4) using assms(1-3) by (simp add: js_map_simps)
  have "map_of qs p = None" using sub[of p] by (cases "map_of qs p") auto
  then have "map_sum (weight_of is_ready) qs \<le> limit \<or> (\<forall>q \<in> set (p # candidates). map_of qs q = None)"
    using ev(5) by auto
  then show ?thesis unfolding evicted_def using ev(1) sub same loading by blast
qed

lemma evict_loop_pages:
  "\<lbrakk>map_wf (slot_pages k s); distinct pages; \<forall>p \<in> set pages. ready_in (slot_pages k s) p;
    n = map_sum (weight_of is_ready) (slot_pages k s)\<rbrakk>
   \<Longrightarrow> evicted pages limit (slot_pages k s) (slot_pages k (evict_loop k limit pages n s))"
proof (induction k limit pages n s rule: evict_loop.induct)
  case (2 k limit page pages n s)
  show ?case
  proof (cases "n \<le> limit")
    case True
    then show ?thesis using "2.prems" by (simp add: evicted_stop)
  next
    case False
    obtain x where x: "map_of (slot_pages k s) page = Some x" "is_ready x"
      using "2.prems"(3) by (auto simp: ready_in_def split: option.splits)
    then obtain g where g: "slot_gen k s = Some g" by (cases "slot_gen k s") auto
    let ?t = "notify_slot k page (put_pages k (map_del page (g_pages g)) s)"
    have ps: "slot_pages k ?t = map_del page (slot_pages k s)" using g by (simp add: slot_pages_put)
    have "evicted pages limit (slot_pages k ?t) (slot_pages k (evict_loop k limit pages (n - 1) ?t))"
    proof (rule "2.IH"[OF False g])
      show "map_wf (slot_pages k ?t)" using "2.prems"(1) ps by simp
      show "distinct pages" using "2.prems"(2) by simp
      show "\<forall>p \<in> set pages. ready_in (slot_pages k ?t) p"
        unfolding ps using "2.prems"(2,3) by (auto simp: ready_in_def js_map_simps)
      show "n - 1 = map_sum (weight_of is_ready) (slot_pages k ?t)"
        unfolding ps using "2.prems"(1,4) x by (simp add: js_map_simps)
    qed
    then show ?thesis using evicted_step[OF "2.prems"(1) x, of pages limit] "2.prems"(2) False g ps by simp
  qed
qed (simp add: evicted_stop)

definition candidate_pages :: "int list \<Rightarrow> int list \<Rightarrow> (int, 'a page_state) js_map \<Rightarrow> int list" where
  "candidate_pages keep kept ps = map fst (sort_key (\<lambda>(page, p). (page \<in> set keep, ps_used p))
     (filter (\<lambda>(page, p). is_ready p \<and> page \<notin> set kept) ps))"

lemma set_candidate_pages: "set (candidate_pages keep kept ps) = {p. \<exists>x. (p, x) \<in> set ps \<and> is_ready x \<and> p \<notin> set kept}"
  by (force simp: candidate_pages_def)

lemma distinct_candidate_pages: "map_wf ps \<Longrightarrow> distinct (candidate_pages keep kept ps)"
  using map_wf_filter[of ps "\<lambda>(page, p). is_ready p \<and> page \<notin> set kept"]
  by (simp add: candidate_pages_def map_wf_def distinct_map)

lemma evict_unfold:
  "slot_gen k s = Some g \<Longrightarrow> evict k keep kept s =
     (if readyCount g \<le> c_maxResident (wc_config s) then s
      else evict_loop k (c_maxResident (wc_config s)) (candidate_pages keep kept (g_pages g)) (readyCount g) s)"
  by (simp add: evict_def candidate_pages_def Let_def)

lemma evict_pages:
  assumes wf: "map_wf (slot_pages k s)" and g: "slot_gen k s = Some g"
  shows "evicted (candidate_pages keep kept (slot_pages k s)) (c_maxResident (wc_config s)) (slot_pages k s) (slot_pages k (evict k keep kept s))"
proof (cases "readyCount g \<le> c_maxResident (wc_config s)")
  case True
  then show ?thesis using wf g by (simp add: evict_unfold evicted_stop readyCount_sum)
next
  case False
  have "evicted (candidate_pages keep kept (slot_pages k s)) (c_maxResident (wc_config s)) (slot_pages k s)
    (slot_pages k (evict_loop k (c_maxResident (wc_config s)) (candidate_pages keep kept (slot_pages k s)) (readyCount g) s))"
    by (rule evict_loop_pages[OF wf distinct_candidate_pages[OF wf]])
      (use g wf in \<open>auto simp: set_candidate_pages readyCount_sum map_wf_in_set ready_in_def\<close>)
  then show ?thesis using False g by (simp add: evict_unfold)
qed

text \<open>After an eviction the ready pages fit the budget, or all of them are kept ones.\<close>

lemma either_branch: "P x \<Longrightarrow> P y \<Longrightarrow> P (if c then x else y)"
  by simp

lemma evict_None: "slot_gen k s = None \<Longrightarrow> evict k keep kept s = s"
  by (simp add: evict_def)

lemma evict_bound:
  assumes wf: "map_wf (slot_pages k s)"
  shows "map_sum (weight_of is_ready) (slot_pages k (evict k keep kept s)) \<le> max (c_maxResident (wc_config s)) (int (card (set kept)))"
proof (cases "slot_gen k s")
  case None
  then have "slot_pages k (evict k keep kept s) = []" by (simp add: evict_def)
  then show ?thesis by (simp add: max_def)
next
  case (Some g)
  let ?qs = "slot_pages k (evict k keep kept s)"
  note ev = evictedD[OF evict_pages[OF wf Some, of keep kept]]
  show ?thesis
  proof (cases "map_sum (weight_of is_ready) ?qs \<le> c_maxResident (wc_config s)")
    case False
    have "p \<in> set kept" if "map_of ?qs p = Some x" "is_ready x" for p x
    proof (rule ccontr)
      assume "p \<notin> set kept"
      moreover have "map_of (slot_pages k s) p = Some x" using ev(3)[OF that(1)] .
      ultimately have "p \<in> set (candidate_pages keep kept (slot_pages k s))"
        using that(2) wf by (auto simp: set_candidate_pages map_wf_in_set)
      then show False using ev(5) False that(1) by auto
    qed
    then have "map_sum (weight_of is_ready) ?qs \<le> int (card (set kept))"
      by (intro count_within[OF ev(1)]) auto
    then show ?thesis by simp
  qed simp
qed

lemma evict_kept:
  assumes "map_wf (slot_pages k s)" "p \<in> set kept"
  shows "map_of (slot_pages k (evict k keep kept s)) p = map_of (slot_pages k s) p"
proof (cases "slot_gen k s")
  case (Some g)
  have "p \<notin> set (candidate_pages keep kept (slot_pages k s))" using assms(2) by (simp add: set_candidate_pages)
  then show ?thesis by (rule evictedD(2)[OF evict_pages[OF assms(1) Some]])
qed (simp add: evict_def)

lemma evict_wf: "map_wf (slot_pages k s) \<Longrightarrow> map_wf (slot_pages k (evict k keep kept s))"
  using evictedD(1)[OF evict_pages, of k s _ keep kept] evict_None[of k s] by (cases "slot_gen k s") simp_all

lemma evict_loading: "map_wf (slot_pages k s) \<Longrightarrow> loading_count k (evict k keep kept s) = loading_count k s"
  using evictedD(4)[OF evict_pages, of k s _ keep kept] evict_None[of k s]
  by (cases "slot_gen k s") (simp_all add: loading_count_def)

section \<open>One generation's pass\<close>

definition kept_pages :: "'a collection \<Rightarrow> 'a page_generation \<Rightarrow> int list" where
  "kept_pages s g = (case pinnedPage s g of None \<Rightarrow> visible_pages s g | Some h \<Rightarrow> visible_pages s g @ [h])"

lemma visible_kept: "set (visible_pages s g) \<subseteq> set (kept_pages s g)"
  by (auto simp: kept_pages_def split: option.split)

lemma visible_wanted: "set (visible_pages s g) \<subseteq> set (wanted_pages s g)"
  by (auto simp: visible_pages_def wanted_pages_def Let_def)

lemma pump_slot_unfold:
  "slot_gen k s = Some g \<Longrightarrow> pump_slot now k s =
     (let s1 = drop_unwanted k (wanted_pages s g) s
      in evict k (wanted_pages s g) (kept_pages s g)
        (if k = Current_slot \<and> \<not> quiet_pending s then s1
         else start_wanted now k (wanted_pages s g) (loading_count k s1) s1))"
proof -
  assume g: "slot_gen k s = Some g"
  have "(case slot_gen k s1 of Some g1 \<Rightarrow> inFlight g1 | None \<Rightarrow> 0) = loading_count k s1" for s1 :: "'a collection"
    by (simp add: loading_count_def inFlight_sum split: option.split)
  then show ?thesis using g by (simp add: pump_slot_def kept_pages_def Let_def)
qed

lemma pump_slot_change: "pages_change k s (pump_slot now k s)"
proof (cases "slot_gen k s")
  case (Some g)
  let ?s1 = "drop_unwanted k (wanted_pages s g) s"
  have "pages_change k s (if k = Current_slot \<and> \<not> quiet_pending s then ?s1
    else start_wanted now k (wanted_pages s g) (loading_count k ?s1) ?s1)"
    using pages_change_trans[OF drop_unwanted_change start_wanted_change] drop_unwanted_change by auto
  then show ?thesis using pages_change_trans[OF _ evict_change] by (auto simp: pump_slot_unfold[OF Some] Let_def)
qed (simp add: pump_slot_def)

text \<open>The pass in one lemma: budget, requests, and the kept pages that were ready.\<close>

definition pass_result :: "'a collection \<Rightarrow> int list \<Rightarrow> (int, 'a page_state) js_map \<Rightarrow> (int, 'a page_state) js_map \<Rightarrow> bool" where
  "pass_result s kept ps qs \<longleftrightarrow> map_wf qs
     \<and> map_sum (weight_of is_ready) qs \<le> max (c_maxResident (wc_config s)) (int (card (set kept)))
     \<and> (map_sum (weight_of is_loading) ps \<le> c_maxConcurrent (wc_config s) \<longrightarrow> map_sum (weight_of is_loading) qs \<le> c_maxConcurrent (wc_config s))
     \<and> (\<forall>p items v u. p \<in> set kept \<longrightarrow> map_of ps p = Some (Ready items v u) \<longrightarrow> (\<exists>u'. map_of qs p = Some (Ready items v u')))"

lemma pump_slot_pass:
  assumes wf: "map_wf (slot_pages k s)" and g: "slot_gen k s = Some g"
  shows "pass_result s (kept_pages s g) (slot_pages k s) (slot_pages k (pump_slot now k s))"
proof -
  let ?w = "wanted_pages s g" let ?kept = "kept_pages s g"
  let ?s1 = "drop_unwanted k ?w s"
  let ?s2 = "if k = Current_slot \<and> \<not> quiet_pending s then ?s1 else start_wanted now k ?w (loading_count k ?s1) ?s1"
  have ps1: "slot_pages k ?s1 = filter (\<lambda>(page, p). page \<in> set ?w \<or> is_ready p) (slot_pages k s)" by (rule drop_unwanted_pages)
  have wf1: "map_wf (slot_pages k ?s1)" using wf by (simp add: ps1)
  have kept2: "pages_kept (slot_pages k ?s1) (slot_pages k ?s2)" using start_wanted_kept by auto
  then have wf2: "map_wf (slot_pages k ?s2)" using wf1 by (simp add: pages_kept_def)
  have cfg1: "wc_config ?s1 = wc_config s" by (rule pages_change_frame(1)[OF drop_unwanted_change])
  have cfg: "wc_config ?s2 = wc_config s"
    by (rule either_branch[where P = "\<lambda>t. wc_config t = wc_config s"])
      (simp_all only: cfg1 pages_change_frame(1)[OF start_wanted_change])
  have pump: "pump_slot now k s = evict k ?w ?kept ?s2" by (simp only: pump_slot_unfold[OF g] Let_def)
  have "map_sum (weight_of is_loading) (slot_pages k (pump_slot now k s)) \<le> c_maxConcurrent (wc_config s)"
    if le: "map_sum (weight_of is_loading) (slot_pages k s) \<le> c_maxConcurrent (wc_config s)"
  proof -
    have "loading_count k ?s1 \<le> c_maxConcurrent (wc_config s)"
      unfolding loading_count_def ps1 by (rule order_trans[OF map_sum_filter_le le])
    then have "loading_count k ?s2 \<le> c_maxConcurrent (wc_config s)"
      using start_wanted_loading[of k ?s1] by (auto simp: cfg1)
    then show ?thesis using evict_loading[OF wf2] by (simp add: pump loading_count_def)
  qed
  moreover have "\<exists>u'. map_of (slot_pages k (pump_slot now k s)) p = Some (Ready items v u')"
    if "p \<in> set ?kept" "map_of (slot_pages k s) p = Some (Ready items v u)" for p items v u
  proof -
    have "map_of (slot_pages k ?s1) p = Some (Ready items v u)"
      using that(2) wf by (simp add: ps1 map_of_filter_wf)
    then show ?thesis using kept2 evict_kept[OF wf2 that(1)] by (simp add: pump pages_kept_def)
  qed
  ultimately show ?thesis
    using evict_wf[OF wf2, of ?w ?kept] evict_bound[OF wf2, of ?w ?kept] by (simp add: pass_result_def pump cfg)
qed

end
