(* ===== verification/Windowed_Invariant.thy ===== *)
theory Windowed_Invariant
  imports Windowed_Pump
begin

text \<open>
  The collection's invariant (\<open>wc_ok\<close>: well-formed pages, the request limit, distinct generations), the
  memory budget (\<open>wc_within\<close>) that every pump establishes, and their preservation by every operation.
\<close>

section \<open>The invariant\<close>

definition gen_ok :: "wc_config \<Rightarrow> 'a page_generation \<Rightarrow> bool" where
  "gen_ok c g \<longleftrightarrow> map_wf (g_pages g) \<and> map_sum (weight_of is_loading) (g_pages g) \<le> c_maxConcurrent c"

definition pending_ok :: "'a collection \<Rightarrow> 'a page_generation \<Rightarrow> bool" where
  "pending_ok s g \<longleftrightarrow> gen_ok (wc_config s) g \<and> g_id g < wc_nextId s \<and> g_id g \<noteq> g_id (wc_current s)"

definition wc_ok :: "'a collection \<Rightarrow> bool" where
  "wc_ok s \<longleftrightarrow> gen_ok (wc_config s) (wc_current s) \<and> g_id (wc_current s) < wc_nextId s
     \<and> pred_option (pending_ok s) (wc_pending s) \<and> 1 \<le> c_maxConcurrent (wc_config s)
     \<and> (wc_disposed s \<longrightarrow> g_pages (wc_current s) = [] \<and> wc_pending s = None)"

lemma wc_okD:
  assumes "wc_ok s"
  shows "gen_ok (wc_config s) (wc_current s)" "g_id (wc_current s) < wc_nextId s"
    "wc_pending s = Some g \<Longrightarrow> pending_ok s g" "1 \<le> c_maxConcurrent (wc_config s)"
    "wc_disposed s \<Longrightarrow> g_pages (wc_current s) = []" "wc_disposed s \<Longrightarrow> wc_pending s = None"
  using assms unfolding wc_ok_def by auto

definition gen_within :: "'a collection \<Rightarrow> 'a page_generation \<Rightarrow> bool" where
  "gen_within s g \<longleftrightarrow> readyCount g \<le> max (c_maxResident (wc_config s)) (int (card (set (kept_pages s g))))"

definition wc_within :: "'a collection \<Rightarrow> bool" where
  "wc_within s \<longleftrightarrow> gen_within s (wc_current s) \<and> pred_option (gen_within s) (wc_pending s)"

lemma gen_ok_books: "g_pages g' = g_pages g \<Longrightarrow> gen_ok c g' = gen_ok c g"
  by (simp add: gen_ok_def)

lemma gen_ok_empty [simp]: "1 \<le> c_maxConcurrent c \<Longrightarrow> gen_ok c (new_generation i f gt q)"
  by (simp add: gen_ok_def new_generation_def)

text \<open>Which pages are kept depends on the view and the total only.\<close>

lemma view_pages_cong:
  assumes "wc_config s' = wc_config s" "wc_visibleFirst s' = wc_visibleFirst s" "wc_visibleLast s' = wc_visibleLast s"
    and "g_total g' = g_total g" "g_lowerBound g' = g_lowerBound g"
  shows "visible_pages s' g' = visible_pages s g" "pageCount s' g' = pageCount s g" "exactEmpty g' = exactEmpty g"
    "pageOfIndex s' i = pageOfIndex s i"
  using assms by (simp_all add: visible_pages_def pageCount_def exactEmpty_def pageOfIndex_def cong: option.case_cong)

lemma kept_pages_cong:
  assumes "wc_config s' = wc_config s" "wc_visibleFirst s' = wc_visibleFirst s" "wc_visibleLast s' = wc_visibleLast s"
    and "wc_pinned s' = wc_pinned s" "g_total g' = g_total g" "g_lowerBound g' = g_lowerBound g"
  shows "kept_pages s' g' = kept_pages s g"
proof -
  note same = view_pages_cong[OF assms(1-3,5,6)]
  have "pinnedPage s' g' = pinnedPage s g" by (simp add: pinnedPage_def same assms(4) split: option.split)
  then show ?thesis by (simp add: kept_pages_def same split: option.split)
qed

definition same_view :: "'a collection \<Rightarrow> 'a collection \<Rightarrow> bool" where
  "same_view s s' \<longleftrightarrow> wc_config s' = wc_config s \<and> wc_visibleFirst s' = wc_visibleFirst s \<and> wc_visibleLast s' = wc_visibleLast s
     \<and> wc_pinned s' = wc_pinned s \<and> wc_disposed s' = wc_disposed s"

lemma same_view_refl [simp]: "same_view s s"
  by (simp add: same_view_def)

lemma same_view_trans [trans]: "same_view s t \<Longrightarrow> same_view t u \<Longrightarrow> same_view s u"
  by (simp add: same_view_def)

lemma same_view_pages:
  "same_view s s' \<Longrightarrow> gen_frame g g' \<Longrightarrow> kept_pages s' g' = kept_pages s g"
  "same_view s s' \<Longrightarrow> gen_frame g g' \<Longrightarrow> visible_pages s' g' = visible_pages s g"
  by (auto simp: same_view_def gen_frame_def intro!: kept_pages_cong view_pages_cong(1))

text \<open>What the invariant and the budget read of a state.\<close>

definition same_core :: "'a collection \<Rightarrow> 'a collection \<Rightarrow> bool" where
  "same_core s s' \<longleftrightarrow> same_view s s' \<and> wc_current s' = wc_current s \<and> wc_pending s' = wc_pending s \<and> wc_nextId s' = wc_nextId s"

lemma same_core_refl [simp]: "same_core s s"
  by (simp add: same_core_def)

lemma wc_ok_core: "same_core s s' \<Longrightarrow> wc_ok s' = wc_ok s"
  by (simp add: same_core_def same_view_def wc_ok_def pending_ok_def cong: option.pred_cong)

lemma wc_within_core:
  assumes "same_core s s'"
  shows "wc_within s' = wc_within s"
proof -
  have "gen_within s' g = gen_within s g" for g
    using assms same_view_pages(1)[OF _ gen_frame_refl, of s s' g] by (simp add: same_core_def gen_within_def same_view_def)
  then show ?thesis using assms by (simp add: wc_within_def same_core_def cong: option.pred_cong)
qed

lemma notifyAllPages_core [simp]: "same_core s (notifyAllPages s)"
  by (simp add: same_core_def same_view_def notifyAllPages_def)

lemma wc_publish_core [simp]: "same_core s (wc_publish s)"
  by (simp add: same_core_def same_view_def wc_publish_def)

lemma notifyPage_core [simp]: "same_core s (notifyPage p s)"
  by (simp add: same_core_def same_view_def notifyPage_def split: option.split)

lemma settle_promise_core [simp]: "same_core s (settle_promise p out s)"
  by (simp add: same_core_def same_view_def settle_promise_def)

lemma abort_loading_core [simp]: "same_core s (abort_loading g s)"
  by (simp add: same_core_def same_view_def abort_loading_def)

lemmas core_changes = notifyAllPages_core wc_publish_core notifyPage_core settle_promise_core abort_loading_core

section \<open>The pump\<close>

lemma pump_slot_gen: "slot_gen k' (pump_slot now k s) = None \<longleftrightarrow> slot_gen k' s = None"
  using pages_change_frame(14)[OF pump_slot_change[of k s now]] by (cases k') (auto simp: slot_gen_def)

lemma pump_slot_gens:
  assumes "pages_change k s s'"
  shows "gen_frame (wc_current s) (wc_current s')" "rel_option gen_frame (wc_pending s) (wc_pending s')"
    "k = Pending_slot \<Longrightarrow> wc_current s' = wc_current s" "k = Current_slot \<Longrightarrow> wc_pending s' = wc_pending s" "same_view s s'"
  using pages_change_current[OF assms] pages_change_pending[OF assms] pages_change_frame[OF assms]
  by (auto simp: same_view_def)

text \<open>A pass over one generation, in the terms of the invariant.\<close>

lemma pump_pending:
  assumes "wc_pending s = Some g" "map_wf (g_pages g)"
  obtains g' where "wc_pending (pump_slot now Pending_slot s) = Some g'" "gen_frame g g'"
    "pass_result s (kept_pages s g) (g_pages g) (g_pages g')" "wc_current (pump_slot now Pending_slot s) = wc_current s"
proof -
  have k: "slot_gen Pending_slot s = Some g" using assms(1) by (simp add: slot_gen_def)
  note ch = pump_slot_gens[OF pump_slot_change[of Pending_slot s now]]
  obtain g' where g': "wc_pending (pump_slot now Pending_slot s) = Some g'" "gen_frame g g'"
    using ch(2) assms(1) by (auto simp: option_rel_Some1)
  show thesis
    using that[OF g'] pump_slot_pass[OF _ k, of now] assms(2) k g'(1) ch(3) by (simp add: slot_pages_def slot_gen_def)
qed

lemma pump_current:
  assumes "map_wf (g_pages (wc_current s))"
  shows "gen_frame (wc_current s) (wc_current (pump_slot now Current_slot s))"
    "pass_result s (kept_pages s (wc_current s)) (g_pages (wc_current s)) (g_pages (wc_current (pump_slot now Current_slot s)))"
    "wc_pending (pump_slot now Current_slot s) = wc_pending s"
  using pump_slot_gens[OF pump_slot_change[of Current_slot s now]]
    pump_slot_pass[of Current_slot s "wc_current s" now] assms by (simp_all add: slot_pages_def slot_gen_def)

lemma pump_disposed [simp]: "wc_disposed s \<Longrightarrow> wc_pump now s = s"
  by (simp add: wc_pump_def)

lemma wc_pump_frame:
  shows "same_view s (wc_pump now s)" "wc_nextId (wc_pump now s) = wc_nextId s" "wc_outcomes (wc_pump now s) = wc_outcomes s"
    "gen_frame (wc_current s) (wc_current (wc_pump now s))" "rel_option gen_frame (wc_pending s) (wc_pending (wc_pump now s))"
    "wc_shown (wc_pump now s) = wc_shown s"
proof -
  let ?t = "pump_slot now Pending_slot s"
  note a = pump_slot_change[of Pending_slot s now] and b = pump_slot_change[of Current_slot ?t now]
  note ga = pump_slot_gens[OF a] and gb = pump_slot_gens[OF b] and fa = pages_change_frame[OF a] and fb = pages_change_frame[OF b]
  show "same_view s (wc_pump now s)" using same_view_trans[OF ga(5) gb(5)] by (simp add: wc_pump_def)
  show "wc_nextId (wc_pump now s) = wc_nextId s" using fa(7) fb(7) by (simp add: wc_pump_def)
  show "wc_outcomes (wc_pump now s) = wc_outcomes s" using fa(9) fb(9) by (simp add: wc_pump_def)
  show "wc_shown (wc_pump now s) = wc_shown s" using fa(8) fb(8) by (simp add: wc_pump_def)
  show "gen_frame (wc_current s) (wc_current (wc_pump now s))" using ga(3) gb(1) by (simp add: wc_pump_def)
  show "rel_option gen_frame (wc_pending s) (wc_pending (wc_pump now s))"
    using ga(2) gb(4) option.rel_refl[of gen_frame "wc_pending s"] by (auto simp: wc_pump_def)
qed

text \<open>A pass result is the budget and the request limit of the generation that carries it.\<close>

lemma pass_gen:
  assumes "pass_result s (kept_pages s g) (g_pages g) (g_pages g')" "gen_frame g g'" "gen_ok (wc_config s) g" "same_view s s'"
  shows "gen_ok (wc_config s') g'" "gen_within s' g'"
proof -
  have c: "wc_config s' = wc_config s" using assms(4) by (simp add: same_view_def)
  show "gen_ok (wc_config s') g'" using assms(1,3) c by (simp add: pass_result_def gen_ok_def)
  show "gen_within s' g'" using assms(1) c
    by (simp add: pass_result_def gen_within_def readyCount_sum same_view_pages(1)[OF assms(4,2)])
qed

lemma wc_pump_ok:
  assumes ok: "wc_ok s"
  shows "wc_ok (wc_pump now s) \<and> wc_within (wc_pump now s)"
proof (cases "wc_disposed s")
  case True
  then show ?thesis using ok wc_okD(5,6)[OF ok]
    by (simp add: wc_within_def gen_within_def readyCount_sum max_def)
next
  case False
  let ?t = "pump_slot now Pending_slot s" and ?u = "wc_pump now s"
  have u: "?u = pump_slot now Current_slot ?t" using False by (simp add: wc_pump_def)
  have vt: "same_view s ?t" by (rule pump_slot_gens(5)[OF pump_slot_change])
  have tu: "same_view ?t ?u" unfolding u by (rule pump_slot_gens(5)[OF pump_slot_change])
  have ct: "wc_current ?t = wc_current s" by (rule pump_slot_gens(3)[OF pump_slot_change refl])
  have cfg: "wc_config ?t = wc_config s" using vt by (simp add: same_view_def)
  have okt: "gen_ok (wc_config ?t) (wc_current ?t)" using wc_okD(1)[OF ok] by (simp add: ct cfg)
  note cur = pump_current[of ?t now, folded u, OF okt[unfolded gen_ok_def, THEN conjunct1]]
  note c = pass_gen[OF cur(2,1) okt tu]
  have id: "g_id (wc_current ?u) = g_id (wc_current s)" using cur(1) ct by (simp add: gen_frame_def)
  have pend: "pred_option (\<lambda>g. pending_ok ?u g \<and> gen_within ?u g) (wc_pending ?u)"
  proof (cases "wc_pending s")
    case None
    then show ?thesis using pages_change_frame(14)[OF pump_slot_change[of Pending_slot s now]] cur(3) by simp
  next
    case (Some g)
    note g = wc_okD(3)[OF ok Some, unfolded pending_ok_def]
    from g have "map_wf (g_pages g)" by (simp add: gen_ok_def)
    then obtain g' where g': "wc_pending ?t = Some g'" "gen_frame g g'" "pass_result s (kept_pages s g) (g_pages g) (g_pages g')"
      using pump_pending[OF Some] by metis
    have "gen_ok (wc_config ?u) g' \<and> gen_within ?u g'"
      using pass_gen[OF g'(3,2) _ same_view_trans[OF vt tu]] g by simp
    then show ?thesis using g g'(1,2) cur(3) id wc_pump_frame(2)[of now s] by (simp add: pending_ok_def gen_frame_def)
  qed
  have "wc_disposed ?u = wc_disposed s" "wc_config ?u = wc_config s"
    using wc_pump_frame(1)[where s = s and now = now] by (simp_all add: same_view_def)
  then show ?thesis using c pend False wc_okD(2,4)[OF ok] id wc_pump_frame(2)[of now s]
    by (auto simp: wc_ok_def wc_within_def elim: option.pred_mono_strong)
qed

lemmas pump_ok = wc_pump_ok[THEN conjunct1] and pump_within = wc_pump_ok[THEN conjunct2]

end
