(* ===== verification/Windowed_Operations.thy ===== *)
theory Windowed_Operations
  imports Windowed_Invariant
begin

text \<open>
  Every operation keeps the invariant and the budget, and what each does to the list on screen:
  \<open>stays\<close> says that ready pages keep their items, \<open>whole\<close> that every page in view is ready.
\<close>

section \<open>Changing one generation\<close>

lemma wc_ok_current:
  assumes "wc_ok s" "gen_ok (wc_config s) g" "g_id g = g_id (wc_current s)" "\<not> wc_disposed s"
  shows "wc_ok (s\<lparr>wc_current := g\<rparr>)"
  using assms by (cases "wc_pending s") (auto simp: wc_ok_def pending_ok_def)

lemma wc_ok_pending:
  assumes "wc_ok s" "gen_ok (wc_config s) g" "g_id g < wc_nextId s" "g_id g \<noteq> g_id (wc_current s)" "\<not> wc_disposed s"
  shows "wc_ok (s\<lparr>wc_pending := Some g\<rparr>)"
  using assms by (auto simp: wc_ok_def pending_ok_def)

lemma gen_ok_set:
  assumes "gen_ok c g" "map_of (g_pages g) p = Some x" "is_loading x" "\<not> is_loading y"
  shows "gen_ok c (g\<lparr>g_pages := map_set p y (g_pages g)\<rparr>)"
  using assms by (simp add: gen_ok_def js_map_simps)

lemma attempt_slot_page:
  assumes "attempt_slot a s = Some k"
  obtains g x where "slot_gen k s = Some g" "g_id g = at_gen a" "map_of (g_pages g) (at_page a) = Some x" "is_loading x" "\<not> wc_disposed s"
  using assms that unfolding attempt_slot_def page_status_def
  by (auto simp: slot_gen_def split: if_splits option.splits)

lemma put_gen_ok:
  assumes "wc_ok s" "slot_gen k s = Some g" "gen_ok (wc_config s) g'" "g_id g' = g_id g" "\<not> wc_disposed s"
  shows "wc_ok (put_gen k g' s)"
proof (cases k)
  case Pending_slot
  then have "wc_pending s = Some g" using assms(2) by (simp add: slot_gen_def)
  then have "pending_ok s g" by (rule wc_okD(3)[OF assms(1)])
  then show ?thesis using assms Pending_slot by (simp add: put_gen_def pending_ok_def wc_ok_pending)
next
  case Current_slot
  then show ?thesis using assms by (auto simp: put_gen_def slot_gen_def intro: wc_ok_current)
qed

lemma slot_gen_ok: "wc_ok s \<Longrightarrow> slot_gen k s = Some g \<Longrightarrow> gen_ok (wc_config s) g"
  using wc_okD(1,3)[of s] by (cases k) (auto simp: slot_gen_def pending_ok_def)

lemma absorb_result_gen:
  "g_id (absorb_result r items tot a tick ref psize g) = g_id g"
  "g_pages (absorb_result r items tot a tick ref psize g) = map_set (at_page a) (Ready (take (nat psize) items) (at_version a + 1) tick) (g_pages g)"
  "g_quiet (absorb_result r items tot a tick ref psize g) = g_quiet g"
  "g_gate (absorb_result r items tot a tick ref psize g) = g_gate g"
  by (simp_all add: absorb_result_def Let_def split: option.split)

lemma absorb_result_ok:
  assumes "gen_ok c g" "map_of (g_pages g) (at_page a) = Some x" "is_loading x"
  shows "gen_ok c (absorb_result r items tot a tick ref psize g)"
  using assms gen_ok_set[OF assms(1-3), of "Ready (take (nat psize) items) (at_version a + 1) tick"]
  by (simp add: gen_ok_def absorb_result_gen)

section \<open>Swapping\<close>

lemma dropPending_ok: "wc_ok s \<Longrightarrow> wc_ok (dropPending s)"
  by (cases "wc_pending s") (auto simp: dropPending_def abort_loading_def wc_ok_def)

lemma swapped_ok:
  assumes "wc_ok s" "wc_pending s = Some g" "\<not> wc_disposed s"
  shows "wc_ok (notifyAllPages ((abort_loading (wc_current s) s)\<lparr>wc_current := g, wc_pending := None, wc_shown := n\<rparr>))"
  unfolding wc_ok_core[OF notifyAllPages_core] using assms wc_okD(3)[OF assms(1,2)]
  by (auto simp: wc_ok_def pending_ok_def abort_loading_def)

lemma swap_ok:
  assumes "wc_ok s" "wc_pending s = Some g" "\<not> wc_disposed s"
  shows "wc_ok (swap now g s)" "wc_within (swap now g s)"
  using wc_pump_ok[OF swapped_ok[OF assms]] unfolding swap_def by blast+

lemma set_holding_ok: "wc_ok s \<Longrightarrow> wc_ok (set_holding h s)"
  by (cases "wc_pending s") (auto simp: set_holding_def wc_ok_def pending_ok_def gen_ok_def)

lemma finish_quiet_ok: "wc_ok s \<Longrightarrow> wc_ok (finish_quiet now gid s)"
  unfolding finish_quiet_def
  by (auto simp: wc_ok_core[OF settle_promise_core] wc_ok_core[OF wc_publish_core] swap_ok pump_ok set_holding_ok split: option.split)

lemma finish_quiet_within: "wc_ok s \<Longrightarrow> wc_within s \<Longrightarrow> wc_within (finish_quiet now gid s)"
  unfolding finish_quiet_def
  by (auto simp: wc_within_core[OF settle_promise_core] wc_within_core[OF wc_publish_core] swap_ok pump_within set_holding_ok split: option.split)

lemma quietSettled_ok: "wc_ok s \<Longrightarrow> wc_ok (quietSettled now g q s)"
  unfolding quietSettled_def Let_def
  by (auto simp: wc_ok_core[OF settle_promise_core] dropPending_ok finish_quiet_ok set_holding_ok split: option.split page_state.split)

definition settled_swap :: "rat \<Rightarrow> nat \<Rightarrow> 'a collection \<Rightarrow> 'a collection" where
  "settled_swap now gid s = (case wc_pending s of
     None \<Rightarrow> s
   | Some g \<Rightarrow>
       if g_id g \<noteq> gid then s
       else (case g_quiet g of
         Some quiet \<Rightarrow> quietSettled now g quiet s
       | None \<Rightarrow> if page_status g (g_gate g) (\<lambda>p. is_ready p \<or> is_failed p) then swap now g s else s))"

lemma settled_unfold:
  "settled now gid page s = (let s1 = settled_swap now gid s
     in wc_publish (wc_pump now (if g_id (wc_current s1) = gid then notifyPage page s1 else s1)))"
  by (simp add: settled_def settled_swap_def Let_def)

lemma settled_swap_ok: "wc_ok s \<Longrightarrow> \<not> wc_disposed s \<Longrightarrow> wc_ok (settled_swap now gid s)"
  unfolding settled_swap_def by (auto simp: quietSettled_ok swap_ok split: option.split)

lemma notified_core [simp]: "same_core s (if c then notifyPage p s else s)"
  by simp

lemma settled_ok:
  assumes "wc_ok s" "\<not> wc_disposed s"
  shows "wc_ok (settled now gid page s)" "wc_within (settled now gid page s)"
  using wc_pump_ok[of "if g_id (wc_current (settled_swap now gid s)) = gid then notifyPage page (settled_swap now gid s) else settled_swap now gid s" now]
    settled_swap_ok[OF assms, of now gid]
  by (simp_all add: settled_unfold Let_def wc_ok_core[OF wc_publish_core] wc_within_core[OF wc_publish_core] wc_ok_core[OF notified_core])

section \<open>The answers\<close>

lemma page_loaded_cases:
  obtains "fst (page_loaded now a r s) = s"
  | k g items tot r' where "attempt_slot a s = Some k" "slot_gen k s = Some g"
      "fst (page_loaded now a r s) = settled now (at_gen a) (at_page a)
         ((put_gen k (absorb_result r' items tot a (wc_tick s + 1) (wc_nextRef s) (c_pageSize (wc_config s)) g) s)
            \<lparr>wc_tick := wc_tick s + 1, wc_nextRef := wc_nextRef s + 1\<rparr>)"
proof (cases "\<exists>k g r' items tot. attempt_slot a s = Some k \<and> slot_gen k s = Some g \<and> r = Some r' \<and> pr_items r' = Some items
    \<and> pr_total r' = Fin tot \<and> \<not> tot < 0")
  case True
  then obtain k g r' items tot where c: "attempt_slot a s = Some k" "slot_gen k s = Some g" "r = Some r'" "pr_items r' = Some items"
    "pr_total r' = Fin tot" "\<not> tot < 0" by blast
  show thesis by (rule that(2)[OF c(1,2), where r' = r' and items = items and tot = tot]) (simp add: page_loaded_def c)
next
  case False
  then have "fst (page_loaded now a r s) = s" by (auto simp: page_loaded_def split: option.split js_num.split)
  then show thesis by (rule that(1))
qed

lemma page_failed_cases:
  obtains "page_failed now a e s = s"
  | k g w where "attempt_slot a s = Some k" "slot_gen k s = Some g"
      "page_failed now a e s = settled now (at_gen a) (at_page a)
         ((put_gen k (g\<lparr>g_lastError := Some e, g_pages := map_set (at_page a) (Failed e now (at_version a + 1)) (g_pages g)\<rparr>) s)
            \<lparr>wc_waitUntil := w\<rparr>)"
proof (cases "attempt_slot a s")
  case None
  then show ?thesis using that(1) by (simp add: page_failed_def)
next
  case (Some k)
  show ?thesis
  proof (cases "slot_gen k s")
    case None
    then show ?thesis using that(1) Some by (simp add: page_failed_def)
  next
    case g: (Some g)
    let ?s1 = "put_gen k (g\<lparr>g_lastError := Some e, g_pages := map_set (at_page a) (Failed e now (at_version a + 1)) (g_pages g)\<rparr>) s"
    have same: "?s1\<lparr>wc_waitUntil := wc_waitUntil ?s1\<rparr> = ?s1" by simp
    show ?thesis
      using that(2)[OF Some g, of "if serverWait (f_value e) \<noteq> 0 then max (wc_waitUntil s) (now + serverWait (f_value e)) else wc_waitUntil ?s1"]
      by (simp add: page_failed_def Some g Let_def same)
  qed
qed

lemma books_core [simp]: "same_core s (s\<lparr>wc_tick := t, wc_nextRef := r\<rparr>)" "same_core s (s\<lparr>wc_waitUntil := w\<rparr>)"
  by (simp_all add: same_core_def same_view_def)

lemma put_gen_disposed [simp]: "wc_disposed (put_gen k g s) = wc_disposed s"
  by (cases k) (simp_all add: put_gen_def)

lemma page_loaded_ok:
  assumes "wc_ok s" "wc_within s"
  shows "wc_ok (fst (page_loaded now a r s)) \<and> wc_within (fst (page_loaded now a r s))"
proof (rule page_loaded_cases[of now a r s])
  fix k g items tot r'
  assume k: "attempt_slot a s = Some k" "slot_gen k s = Some g"
    and eq: "fst (page_loaded now a r s) = settled now (at_gen a) (at_page a)
         ((put_gen k (absorb_result r' items tot a (wc_tick s + 1) (wc_nextRef s) (c_pageSize (wc_config s)) g) s)
            \<lparr>wc_tick := wc_tick s + 1, wc_nextRef := wc_nextRef s + 1\<rparr>)"
  obtain g' x where g': "slot_gen k s = Some g'" "map_of (g_pages g') (at_page a) = Some x" "is_loading x" "\<not> wc_disposed s"
    using attempt_slot_page[OF k(1)] by metis
  note ab = absorb_result_ok[OF slot_gen_ok[OF assms(1) k(2)]]
  show ?thesis unfolding eq
    by (intro conjI settled_ok)
      (use g' k assms ab in \<open>simp_all add: wc_ok_core[OF books_core(1)] put_gen_ok absorb_result_gen\<close>)
qed (use assms in simp)

lemma page_failed_ok:
  assumes "wc_ok s" "wc_within s"
  shows "wc_ok (page_failed now a e s) \<and> wc_within (page_failed now a e s)"
proof (rule page_failed_cases[of now a e s])
  fix k g w
  assume k: "attempt_slot a s = Some k" "slot_gen k s = Some g"
    and eq: "page_failed now a e s = settled now (at_gen a) (at_page a)
         ((put_gen k (g\<lparr>g_lastError := Some e, g_pages := map_set (at_page a) (Failed e now (at_version a + 1)) (g_pages g)\<rparr>) s)
            \<lparr>wc_waitUntil := w\<rparr>)"
  obtain g' x where g': "slot_gen k s = Some g'" "map_of (g_pages g') (at_page a) = Some x" "is_loading x" "\<not> wc_disposed s"
    using attempt_slot_page[OF k(1)] by metis
  have "gen_ok (wc_config s) (g\<lparr>g_lastError := Some e, g_pages := map_set (at_page a) (Failed e now (at_version a + 1)) (g_pages g)\<rparr>)"
    using gen_ok_set[OF slot_gen_ok[OF assms(1) k(2)], of "at_page a" x "Failed e now (at_version a + 1)"] g' k(2) by (simp add: gen_ok_def)
  then show ?thesis unfolding eq
    by (intro conjI settled_ok) (use g' k assms in \<open>simp_all add: wc_ok_core[OF books_core(2)] put_gen_ok\<close>)
qed (use assms in simp)

section \<open>The other operations\<close>

lemma listener_core [simp]:
  "same_core s (wc_subscribe l s)" "same_core s (wc_unsubscribe l s)" "same_core s (fst (subscribePage p l s))" "same_core s (unsubscribePage p r l s)"
  by (simp_all add: same_core_def same_view_def wc_subscribe_def wc_unsubscribe_def subscribePage_def unsubscribePage_def Let_def)

lemma publish_pump_ok:
  "wc_ok s \<Longrightarrow> wc_ok (wc_publish (wc_pump now s)) \<and> wc_within (wc_publish (wc_pump now s))"
  using wc_pump_ok[of s now] by (simp add: wc_ok_core[OF wc_publish_core] wc_within_core[OF wc_publish_core])

lemma ensureRange_ok: "wc_ok s \<Longrightarrow> wc_within s \<Longrightarrow> wc_ok (ensureRange now a b s) \<and> wc_within (ensureRange now a b s)"
  unfolding ensureRange_def Let_def
  by (auto simp: pump_ok pump_within intro!: publish_pump_ok)
    (cases "wc_pending s"; auto simp: wc_ok_def pending_ok_def gen_ok_def)+

lemma wc_pin_ok: "wc_ok s \<Longrightarrow> wc_within s \<Longrightarrow> wc_ok (wc_pin now i s) \<and> wc_within (wc_pin now i s)"
proof -
  assume ok: "wc_ok s" "wc_within s"
  have "wc_ok (s\<lparr>wc_pinned := x\<rparr>)" for x
    using ok(1) by (cases "wc_pending s") (auto simp: wc_ok_def pending_ok_def)
  then show ?thesis using ok by (simp add: wc_pin_def Let_def pump_ok pump_within)
qed

lemma new_pending_ok:
  assumes "wc_ok s" "\<not> wc_disposed s"
  shows "wc_ok (s\<lparr>wc_nextId := wc_nextId s + 1, wc_pending := Some (new_generation (wc_nextId s) f gt q)\<rparr>)"
  using assms gen_ok_empty[of "wc_config s" "wc_nextId s" f gt q]
  by (auto simp: wc_ok_def pending_ok_def new_generation_def)

lemma wc_ok_nextRef: "same_core s (s\<lparr>wc_nextRef := r\<rparr>)"
  by (simp add: same_core_def same_view_def)

lemma dropPending_disposed [simp]: "wc_disposed (dropPending s) = wc_disposed s"
  by (simp add: dropPending_def abort_loading_def split: option.split)

lemma settle_promise_disposed [simp]: "wc_disposed (settle_promise p out s) = wc_disposed s"
  by (simp add: settle_promise_def)

definition superseded :: "'a collection \<Rightarrow> 'a collection" where
  "superseded s = (case wc_pending s of
     None \<Rightarrow> s
   | Some g \<Rightarrow> (case g_quiet g of None \<Rightarrow> s | Some q \<Rightarrow> settle_promise (qr_promise q) Resolved (dropPending s)))"

lemma superseded_ok: "wc_ok s \<Longrightarrow> wc_ok (superseded s)"
  by (auto simp: superseded_def wc_ok_core[OF settle_promise_core] dropPending_ok split: option.split)

lemma superseded_disposed [simp]: "wc_disposed (superseded s) = wc_disposed s"
  by (auto simp: superseded_def split: option.split)

text \<open>\<open>revalidate\<close> either has nothing to read, or puts a new pending generation in place.\<close>

definition can_revalidate :: "'a collection \<Rightarrow> bool" where
  "can_revalidate s \<longleftrightarrow> \<not> (wc_disposed s \<or> g_total (wc_current s) = None \<or> wc_visibleFirst s < 0 \<or> \<not> quiet_pending s)"

definition begun :: "(nat \<Rightarrow> nat) \<Rightarrow> int \<Rightarrow> quiet_reading option \<Rightarrow> 'a collection \<Rightarrow> 'a collection" where
  "begun fetch gate q s = s\<lparr>wc_nextId := wc_nextId s + 1,
     wc_pending := Some (new_generation (wc_nextId s) (fetch (g_fetch (wc_current s))) gate q)\<rparr>"

definition numbered :: "'a collection \<Rightarrow> 'a collection" where
  "numbered s = s\<lparr>wc_nextRef := wc_nextRef s + 1\<rparr>"

lemma numbered_core [simp]: "same_core s (numbered s)"
  by (simp add: same_core_def same_view_def numbered_def)

lemma revalidate_unfold:
  "fst (revalidate now f h s) =
     (if can_revalidate (numbered s)
      then wc_pump now (begun (\<lambda>c. case f of Some f \<Rightarrow> f | None \<Rightarrow> c)
        (pageOfIndex (superseded (numbered s)) (wc_visibleFirst (superseded (numbered s))))
        (Some \<lparr>qr_promise = wc_nextRef s, qr_hold = h, qr_holding = False\<rparr>) (superseded (numbered s)))
      else settle_promise (wc_nextRef s) Resolved (numbered s))"
  by (simp only: revalidate_def can_revalidate_def begun_def numbered_def superseded_def Let_def if_not_P if_P fst_conv
      split: if_split) simp

lemma begun_ok: "wc_ok s \<Longrightarrow> \<not> wc_disposed s \<Longrightarrow> wc_ok (begun fetch gate q s)"
  using new_pending_ok unfolding begun_def by blast

lemma numbered_disposed [simp]: "wc_disposed (numbered s) = wc_disposed s"
  by (simp add: numbered_def)

lemma can_revalidate_alive: "can_revalidate s \<Longrightarrow> \<not> wc_disposed s"
  by (simp add: can_revalidate_def)

lemma revalidate_ok:
  assumes ok: "wc_ok s" "wc_within s"
  shows "wc_ok (fst (revalidate now f h s)) \<and> wc_within (fst (revalidate now f h s))"
proof (cases "can_revalidate (numbered s)")
  case True
  have "wc_ok (superseded (numbered s))" using ok(1) by (simp add: superseded_ok wc_ok_core[OF numbered_core])
  then have "wc_ok (begun fetch gate q (superseded (numbered s)))" for fetch gate q
    using can_revalidate_alive[OF True] by (intro begun_ok) simp_all
  then show ?thesis using True by (simp add: revalidate_unfold pump_ok pump_within)
next
  case False
  then show ?thesis using ok
    by (simp add: revalidate_unfold wc_ok_core[OF settle_promise_core] wc_within_core[OF settle_promise_core]
        wc_ok_core[OF numbered_core] wc_within_core[OF numbered_core])
qed

text \<open>\<open>invalidate\<close>: the new generation is pending, or shown at once when nothing is on screen.\<close>

definition unpinned :: "'a collection \<Rightarrow> 'a collection" where
  "unpinned s = (let s1 = s\<lparr>wc_pinned := None\<rparr>
     in case wc_pending s1 of
          None \<Rightarrow> s1
        | Some g \<Rightarrow> abort_loading g (case g_quiet g of Some q \<Rightarrow> settle_promise (qr_promise q) Resolved s1 | None \<Rightarrow> s1))"

definition shown_at_once :: "'a collection \<Rightarrow> 'a collection" where
  "shown_at_once s = (case wc_pending s of
     None \<Rightarrow> s
   | Some g \<Rightarrow> if g_pages (wc_current s) = []
       then notifyAllPages (s\<lparr>wc_current := g, wc_pending := None, wc_shown := wc_shown s + 1\<rparr>) else s)"

lemma invalidate_unfold:
  "invalidate now f s =
     (if wc_disposed s then s
      else wc_publish (wc_pump now (shown_at_once (begun (\<lambda>c. case f of Some f \<Rightarrow> f | None \<Rightarrow> c)
        (if wc_visibleFirst (unpinned s) < 0 then 0 else pageOfIndex (unpinned s) (wc_visibleFirst (unpinned s))) None (unpinned s)))))"
  unfolding invalidate_def shown_at_once_def begun_def unpinned_def Let_def by simp

lemma unpinned_ok: "wc_ok s \<Longrightarrow> wc_ok (unpinned s)"
proof -
  assume ok: "wc_ok s"
  have "wc_ok (s\<lparr>wc_pinned := None\<rparr>)"
    using ok by (cases "wc_pending s") (auto simp: wc_ok_def pending_ok_def)
  then show ?thesis
    by (auto simp: unpinned_def Let_def wc_ok_core[OF abort_loading_core] wc_ok_core[OF settle_promise_core] split: option.split)
qed

lemma unpinned_disposed [simp]: "wc_disposed (unpinned s) = wc_disposed s"
  by (auto simp: unpinned_def Let_def abort_loading_def split: option.split)

lemma begun_disposed [simp]: "wc_disposed (begun fetch gate q s) = wc_disposed s"
  by (simp add: begun_def)

lemma shown_at_once_ok:
  assumes ok: "wc_ok s" and alive: "\<not> wc_disposed s"
  shows "wc_ok (shown_at_once s)"
proof (cases "wc_pending s")
  case (Some g)
  have "wc_ok (s\<lparr>wc_current := g, wc_pending := None, wc_shown := n\<rparr>)" for n
    using ok alive wc_okD(3)[OF ok Some] by (auto simp: wc_ok_def pending_ok_def)
  then show ?thesis using Some ok by (simp add: shown_at_once_def wc_ok_core[OF notifyAllPages_core])
qed (use ok in \<open>simp add: shown_at_once_def\<close>)

lemma invalidate_ok:
  assumes ok: "wc_ok s" "wc_within s"
  shows "wc_ok (invalidate now f s) \<and> wc_within (invalidate now f s)"
proof (cases "wc_disposed s")
  case False
  have "wc_ok (shown_at_once (begun fetch gate q (unpinned s)))" for fetch gate q
    by (intro shown_at_once_ok begun_ok unpinned_ok) (use ok False in simp_all)
  then show ?thesis using False by (simp add: invalidate_unfold publish_pump_ok)
qed (use ok in \<open>simp add: invalidate_def\<close>)

lemma forget_failures_ok: "gen_ok c g \<Longrightarrow> gen_ok c (forget_failures g)"
  by (auto simp: gen_ok_def forget_failures_def intro: order_trans[OF map_sum_filter_le])

lemma forget_failures_frame [simp]: "gen_frame g (forget_failures g)"
  by (simp add: gen_frame_def forget_failures_def)

lemma wc_retry_ok: "wc_ok s \<Longrightarrow> wc_ok (wc_retry now s) \<and> wc_within (wc_retry now s)"
  unfolding wc_retry_def
proof (rule publish_pump_ok)
  assume ok: "wc_ok s"
  have ids: "g_id (forget_failures g) = g_id g" "g_pages g = [] \<Longrightarrow> g_pages (forget_failures g) = []" for g :: "'a page_generation"
    by (simp_all add: forget_failures_def)
  show "wc_ok (s\<lparr>wc_waitUntil := 0, wc_current := forget_failures (wc_current s), wc_pending := map_option forget_failures (wc_pending s)\<rparr>)"
    using ok by (cases "wc_pending s") (auto simp: wc_ok_def pending_ok_def forget_failures_ok ids) 
qed

lemma wc_dispose_ok:
  assumes "wc_ok s" "wc_within s"
  shows "wc_ok (wc_dispose s) \<and> wc_within (wc_dispose s)"
proof (cases "wc_disposed s")
  case False
  have fold_core: "same_core t (fold abort_loading gs t)" for t :: "'a collection" and gs
    by (induction gs arbitrary: t) (simp_all add: same_core_def same_view_def abort_loading_def)
  let ?s1 = "s\<lparr>wc_disposed := True\<rparr>"
  let ?s2 = "case Option.bind (wc_pending ?s1) g_quiet of Some q \<Rightarrow> settle_promise (qr_promise q) Resolved ?s1 | None \<Rightarrow> ?s1"
  have "same_core ?s1 ?s2" by (simp split: option.split)
  then have "same_core ?s1 (fold abort_loading (generations ?s2) ?s2)"
    using fold_core[of ?s2 "generations ?s2"] by (simp add: same_core_def same_view_def)
  moreover have "wc_dispose s = (\<lambda>s3. s3\<lparr>wc_current := (wc_current s3)\<lparr>g_pages := []\<rparr>, wc_pending := None, wc_listeners := [],
      wc_pageListeners := []\<rparr>) (fold abort_loading (generations ?s2) ?s2)"
    using False by (simp add: wc_dispose_def Let_def)
  ultimately obtain s3 where core: "same_core ?s1 s3"
    and d: "wc_dispose s = s3\<lparr>wc_current := (wc_current s3)\<lparr>g_pages := []\<rparr>, wc_pending := None, wc_listeners := [], wc_pageListeners := []\<rparr>"
    by meson
  show ?thesis unfolding d using core assms(1)
    by (auto simp: same_core_def same_view_def wc_ok_def gen_ok_def wc_within_def gen_within_def readyCount_sum max_def)
qed (use assms in \<open>simp add: wc_dispose_def\<close>)

section \<open>Reachable collections\<close>

lemma new_collection_ok: "wc_ok (new_collection o' fetch)" "wc_within (new_collection o' fetch)"
  by (simp_all add: wc_ok_def wc_within_def gen_ok_def gen_within_def readyCount_sum new_collection_def new_generation_def
      windowed_config_def max_def)

lemma wc_step_ok: "wc_step s s' \<Longrightarrow> wc_ok s \<Longrightarrow> wc_within s \<Longrightarrow> wc_ok s' \<and> wc_within s'"
proof (induction rule: wc_step.induct)
  case (wc_step_held s now gid)
  then show ?case by (simp add: finish_quiet_ok finish_quiet_within)
qed (simp_all add: wc_ok_core[OF listener_core(1)] wc_ok_core[OF listener_core(2)] wc_ok_core[OF listener_core(3)] wc_ok_core[OF listener_core(4)]
    wc_within_core[OF listener_core(1)] wc_within_core[OF listener_core(2)] wc_within_core[OF listener_core(3)] wc_within_core[OF listener_core(4)]
    ensureRange_ok wc_pin_ok revalidate_ok invalidate_ok wc_retry_ok page_loaded_ok page_failed_ok wc_dispose_ok)

lemma wc_reachable_ok: "wc_reachable s \<Longrightarrow> wc_ok s \<and> wc_within s"
  by (induction rule: wc_reachable.induct) (use new_collection_ok wc_step_ok in blast)+

end
