(* ===== verification/Windowed_Behaviour.thy ===== *)
theory Windowed_Behaviour
  imports Windowed_Operations
begin

text \<open>
  What the operations do to the list on screen: \<open>steady\<close> says that the pages in view (and the pinned one)
  stay while the generation does, \<open>whole\<close> that every page in view is there.
\<close>

section \<open>Pages that stay\<close>

definition stays :: "int set \<Rightarrow> (int, 'a page_state) js_map \<Rightarrow> (int, 'a page_state) js_map \<Rightarrow> bool" where
  "stays K ps qs \<longleftrightarrow> (\<forall>p \<in> K. \<forall>items v u. map_of ps p = Some (Ready items v u) \<longrightarrow> (\<exists>v' u'. map_of qs p = Some (Ready items v' u')))"

lemma stays_refl [simp]: "stays K ps ps"
  by (auto simp: stays_def)

lemma stays_trans: "stays K ps qs \<Longrightarrow> stays K qs rs \<Longrightarrow> stays K ps rs"
  unfolding stays_def by meson

lemma stays_mono: "stays L ps qs \<Longrightarrow> K \<subseteq> L \<Longrightarrow> stays K ps qs"
  unfolding stays_def by blast

definition on_screen :: "'a collection \<Rightarrow> int set" where
  "on_screen s = set (kept_pages s (wc_current s))"

definition steady :: "'a collection \<Rightarrow> 'a collection \<Rightarrow> bool" where
  "steady s s' \<longleftrightarrow> (g_id (wc_current s') = g_id (wc_current s) \<longrightarrow> \<not> wc_disposed s' \<longrightarrow>
     stays (on_screen s') (g_pages (wc_current s)) (g_pages (wc_current s')))"

lemma steady_refl [simp]: "steady s s"
  by (simp add: steady_def)

lemma on_screen_core: "same_core s s' \<Longrightarrow> on_screen s' = on_screen s"
  unfolding on_screen_def same_core_def using same_view_pages(1)[OF _ gen_frame_refl] by metis

lemma steady_core: "same_core t t' \<Longrightarrow> steady s t' = steady s t"
  using on_screen_core[of t t'] by (simp add: steady_def same_core_def same_view_def)

lemma steady_all: "stays UNIV (g_pages (wc_current s)) (g_pages (wc_current t)) \<Longrightarrow> steady s t"
  unfolding steady_def by (blast intro: stays_mono)

lemma steady_same: "g_pages (wc_current t) = g_pages (wc_current s) \<Longrightarrow> steady s t"
  by (rule steady_all) simp

text \<open>One pump keeps what is on screen.\<close>

lemma wc_pump_id [simp]: "g_id (wc_current (wc_pump now s)) = g_id (wc_current s)"
  using wc_pump_frame(4)[of s now] by (simp add: gen_frame_def)

lemma wc_pump_disposed [simp]: "wc_disposed (wc_pump now s) = wc_disposed s"
  using wc_pump_frame(1)[where s = s and now = now] by (simp add: same_view_def)

lemma wc_pump_on_screen: "on_screen (wc_pump now s) = on_screen s"
  unfolding on_screen_def by (rule arg_cong[where f = set], rule same_view_pages(1)[OF wc_pump_frame(1,4)])

lemma wc_pump_stays:
  assumes ok: "wc_ok s"
  shows "stays (on_screen s) (g_pages (wc_current s)) (g_pages (wc_current (wc_pump now s)))"
proof (cases "wc_disposed s")
  case False
  let ?t = "pump_slot now Pending_slot s"
  have ct: "wc_current ?t = wc_current s" by (rule pump_slot_gens(3)[OF pump_slot_change refl])
  have kt: "kept_pages ?t (wc_current s) = kept_pages s (wc_current s)"
    by (rule same_view_pages(1)[OF pump_slot_gens(5)[OF pump_slot_change] gen_frame_refl])
  have "map_wf (g_pages (wc_current ?t))" using wc_okD(1)[OF ok] by (simp add: ct gen_ok_def)
  note pump_current(2)[OF this, of now, unfolded pass_result_def ct kt]
  then show ?thesis using False by (simp add: wc_pump_def stays_def on_screen_def) blast
qed simp

lemma steady_pump: "steady s t \<Longrightarrow> wc_ok t \<Longrightarrow> steady s (wc_pump now t)"
  using stays_trans[OF _ wc_pump_stays[of t now]] unfolding steady_def wc_pump_on_screen by simp

lemma steady_publish_pump: "steady s t \<Longrightarrow> wc_ok t \<Longrightarrow> steady s (wc_publish (wc_pump now t))"
  by (simp add: steady_core[OF wc_publish_core] steady_pump)

lemma steady_swap:
  assumes "wc_pending t = Some g" "pending_ok t g" "g_id (wc_current t) = g_id (wc_current s)"
  shows "steady s (swap now g t)"
proof -
  have "g_id (wc_current (swap now g t)) = g_id g" by (simp add: swap_def notifyAllPages_def)
  then show ?thesis using assms by (simp add: steady_def pending_ok_def)
qed

lemma set_holding_same [simp]: "wc_current (set_holding h t) = wc_current t"
  by (simp add: set_holding_def)

lemma dropPending_same [simp]: "wc_current (dropPending t) = wc_current t"
  by (simp add: dropPending_def abort_loading_def split: option.split)

lemma steady_current: "wc_current t' = wc_current t \<Longrightarrow> wc_disposed t' = wc_disposed t \<Longrightarrow> same_view t t' \<Longrightarrow> steady s t \<Longrightarrow> steady s t'"
  using same_view_pages(1)[OF _ gen_frame_refl, of t t' "wc_current t"] by (simp add: steady_def on_screen_def)

lemma set_holding_view [simp]: "same_view t (set_holding h t)" "wc_disposed (set_holding h t) = wc_disposed t"
  by (simp_all add: same_view_def set_holding_def)

lemma dropPending_view [simp]: "same_view t (dropPending t)"
  by (simp add: same_view_def dropPending_def abort_loading_def split: option.split)

lemma steady_finish_quiet:
  assumes "steady s t" "wc_ok t" "g_id (wc_current t) = g_id (wc_current s)"
  shows "steady s (finish_quiet now gid t)"
proof (cases "wc_pending t")
  case (Some g)
  have "steady s (wc_pump now (set_holding False t))"
    using assms by (intro steady_pump steady_current[OF _ _ _ assms(1)]) (simp_all add: set_holding_ok)
  then show ?thesis
    using assms(1) steady_swap[OF Some wc_okD(3)[OF assms(2) Some] assms(3), of now]
    by (simp add: finish_quiet_def Some steady_core[OF settle_promise_core] steady_core[OF wc_publish_core] split: option.split)
qed (use assms in \<open>simp add: finish_quiet_def\<close>)

lemma steady_quietSettled:
  assumes "steady s t" "wc_ok t" "g_id (wc_current t) = g_id (wc_current s)"
  shows "steady s (quietSettled now g q t)"
proof -
  have "steady s (dropPending t)" "steady s (set_holding True t)"
    by (rule steady_current[OF _ _ _ assms(1)]; simp)+
  then show ?thesis
    using steady_finish_quiet[OF assms] assms(1)
    by (auto simp: quietSettled_def Let_def steady_core[OF settle_promise_core] split: option.split page_state.split)
qed

lemma steady_settled:
  assumes "steady s t" "wc_ok t" "\<not> wc_disposed t" "g_id (wc_current t) = g_id (wc_current s)"
  shows "steady s (settled now gid page t)"
proof -
  have "steady s (settled_swap now gid t)"
    using steady_quietSettled[OF assms(1,2,4)] steady_swap[OF _ wc_okD(3)[OF assms(2)] assms(4)] assms(1)
    by (auto simp: settled_swap_def split: option.split)
  then show ?thesis
    using settled_swap_ok[OF assms(2,3), of now gid]
    by (simp add: settled_unfold Let_def steady_publish_pump steady_core[OF notifyPage_core] wc_ok_core[OF notifyPage_core])
qed

section \<open>Every operation is steady\<close>

lemma attempt_loading:
  assumes "attempt_slot a s = Some k" "slot_gen k s = Some g"
  shows "\<exists>c v. map_of (g_pages g) (at_page a) = Some (Loading c v)"
  using attempt_slot_page[OF assms(1)] assms(2) by (metis is_loading.elims(2) option.inject)

lemma stays_set_loading:
  "map_of ps p = Some (Loading c v) \<Longrightarrow> stays K ps (map_set p x ps)"
  by (auto simp: stays_def js_map_simps)

lemma steady_put_gen:
  assumes "slot_gen k s = Some g" "map_of (g_pages g) p = Some (Loading c v)" "g_pages g' = map_set p x (g_pages g)"
  shows "steady s (put_gen k g' s)"
  using assms by (cases k) (auto simp: put_gen_def slot_gen_def intro!: steady_all stays_set_loading)

lemma put_gen_id: "slot_gen k s = Some g \<Longrightarrow> g_id g' = g_id g \<Longrightarrow> g_id (wc_current (put_gen k g' s)) = g_id (wc_current s)"
  by (cases k) (auto simp: put_gen_def slot_gen_def)

lemma steady_answer:
  assumes "wc_ok s" "attempt_slot a s = Some k" "slot_gen k s = Some g" "g_pages g' = map_set (at_page a) x (g_pages g)"
    and "gen_ok (wc_config s) g'" "g_id g' = g_id g" "same_core (put_gen k g' s) t"
  shows "steady s (settled now gid page t)"
proof (rule steady_settled)
  obtain c v where l: "map_of (g_pages g) (at_page a) = Some (Loading c v)" using attempt_loading[OF assms(2,3)] by blast
  have alive: "\<not> wc_disposed s" using attempt_slot_page[OF assms(2)] by metis
  show "steady s t" using steady_put_gen[OF assms(3) l assms(4)] by (simp add: steady_core[OF assms(7)])
  show "wc_ok t" using put_gen_ok[OF assms(1,3,5,6) alive] by (simp add: wc_ok_core[OF assms(7)])
  show "\<not> wc_disposed t" using alive assms(7) by (simp add: same_core_def same_view_def)
  show "g_id (wc_current t) = g_id (wc_current s)"
    using put_gen_id[OF assms(3,6)] assms(7) by (simp add: same_core_def)
qed

lemma answer_gen_ok:
  assumes "wc_ok s" "attempt_slot a s = Some k" "slot_gen k s = Some g" "g_pages g' = map_set (at_page a) x (g_pages g)" "\<not> is_loading x"
  shows "gen_ok (wc_config s) g'"
proof -
  obtain c v where l: "map_of (g_pages g) (at_page a) = Some (Loading c v)" using attempt_loading[OF assms(2,3)] by blast
  show ?thesis using slot_gen_ok[OF assms(1,3)] l assms(4,5) by (simp add: gen_ok_def js_map_simps)
qed

lemma steady_loaded: "wc_ok s \<Longrightarrow> steady s (fst (page_loaded now a r s))"
proof (rule page_loaded_cases[of now a r s])
  fix k g items tot r'
  assume k: "attempt_slot a s = Some k" "slot_gen k s = Some g" and ok: "wc_ok s"
    and eq: "fst (page_loaded now a r s) = settled now (at_gen a) (at_page a)
         ((put_gen k (absorb_result r' items tot a (wc_tick s + 1) (wc_nextRef s) (c_pageSize (wc_config s)) g) s)
            \<lparr>wc_tick := wc_tick s + 1, wc_nextRef := wc_nextRef s + 1\<rparr>)"
  show ?thesis unfolding eq
    by (rule steady_answer[OF ok k absorb_result_gen(2) answer_gen_ok[OF ok k absorb_result_gen(2)] absorb_result_gen(1) books_core(1)]) simp
qed simp

lemma steady_failed:
  fixes s :: "'a collection"
  shows "wc_ok s \<Longrightarrow> steady s (page_failed now a e s)"
proof (rule page_failed_cases[of now a e s])
  fix k and g :: "'a page_generation" and w
  let ?g' = "g\<lparr>g_lastError := Some e, g_pages := map_set (at_page a) (Failed e now (at_version a + 1)) (g_pages g)\<rparr>"
  assume k: "attempt_slot a s = Some k" "slot_gen k s = Some g" and ok: "wc_ok s"
    and eq: "page_failed now a e s = settled now (at_gen a) (at_page a) ((put_gen k ?g' s)\<lparr>wc_waitUntil := w\<rparr>)"
  have p: "g_pages ?g' = map_set (at_page a) (Failed e now (at_version a + 1)) (g_pages g)" "g_id ?g' = g_id g" by simp_all
  show ?thesis unfolding eq
    by (rule steady_answer[OF ok k p(1) answer_gen_ok[OF ok k p(1)] p(2) books_core(2)]) simp
qed simp

lemma steady_id: "g_id (wc_current t) \<noteq> g_id (wc_current s) \<Longrightarrow> steady s t"
  by (simp add: steady_def)

lemma superseded_current [simp]: "wc_current (superseded s) = wc_current s"
  by (simp add: superseded_def settle_promise_def split: option.split)

lemma unpinned_current [simp]: "wc_current (unpinned s) = wc_current s"
  by (simp add: unpinned_def Let_def abort_loading_def settle_promise_def split: option.split)

lemma begun_current [simp]: "wc_current (begun f gt q s) = wc_current s"
  by (simp add: begun_def)

lemma numbered_current [simp]: "wc_current (numbered s) = wc_current s"
  by (simp add: numbered_def)

lemma steady_revalidate: "wc_ok s \<Longrightarrow> steady s (fst (revalidate now f h s))"
proof (cases "can_revalidate (numbered s)")
  case True
  assume "wc_ok s"
  then have "wc_ok (superseded (numbered s))" by (simp add: superseded_ok wc_ok_core[OF numbered_core])
  then have "wc_ok (begun fetch gate q (superseded (numbered s)))" for fetch gate q
    using can_revalidate_alive[OF True] by (intro begun_ok) simp_all
  then show ?thesis using True by (simp add: revalidate_unfold steady_pump steady_same)
qed (simp add: revalidate_unfold steady_core[OF settle_promise_core] steady_same)

lemma shown_at_once_id:
  "g_pages (wc_current s) = [] \<or> shown_at_once s = s"
  by (simp add: shown_at_once_def split: option.split)

lemma steady_invalidate: "wc_ok s \<Longrightarrow> steady s (invalidate now f s)"
proof (cases "wc_disposed s")
  case False
  assume ok: "wc_ok s"
  let ?b = "begun (\<lambda>c. case f of Some f \<Rightarrow> f | None \<Rightarrow> c)
    (if wc_visibleFirst (unpinned s) < 0 then 0 else pageOfIndex (unpinned s) (wc_visibleFirst (unpinned s))) None (unpinned s)"
  have b: "wc_ok ?b" by (intro begun_ok unpinned_ok) (use ok False in simp_all)
  have "steady s (shown_at_once ?b)"
    using shown_at_once_id[of ?b] by (auto intro: steady_same steady_all simp: stays_def)
  then show ?thesis
    using False shown_at_once_ok[OF b] by (simp add: invalidate_unfold steady_publish_pump)
qed (simp add: invalidate_def)

definition looking :: "int \<Rightarrow> int \<Rightarrow> int \<Rightarrow> int \<Rightarrow> 'a collection \<Rightarrow> 'a collection" where
  "looking d a b gate s = s\<lparr>wc_direction := d, wc_lastFirst := a, wc_visibleFirst := a, wc_visibleLast := b,
     wc_pending := map_option (\<lambda>g. g\<lparr>g_gate := gate\<rparr>) (wc_pending s)\<rparr>"

lemma ensureRange_cases:
  obtains "ensureRange now a b s = s" | "ensureRange now a b s = wc_pump now s"
  | d a' b' gate where "ensureRange now a b s = wc_publish (wc_pump now (looking d a' b' gate s))"
proof -
  let ?a = "max 0 \<lfloor>min a b\<rfloor>"
  let ?b = "max ?a \<lfloor>max a b\<rfloor>"
  have eq: "ensureRange now a b s = (if wc_disposed s then s
     else if ?a = wc_visibleFirst s \<and> ?b = wc_visibleLast s then wc_pump now s
     else wc_publish (wc_pump now (looking (if wc_lastFirst s < 0 then 0 else sgn (?a - wc_lastFirst s)) ?a ?b (pageOfIndex s ?a) s)))"
    by (simp only: ensureRange_def Let_def looking_def)
  consider "wc_disposed s" | "\<not> wc_disposed s" "?a = wc_visibleFirst s \<and> ?b = wc_visibleLast s"
    | "\<not> wc_disposed s" "\<not> (?a = wc_visibleFirst s \<and> ?b = wc_visibleLast s)" by blast
  then show thesis
  proof cases
    case 1
    show thesis by (rule that(1)) (simp only: eq 1 if_True)
  next
    case 2
    show thesis by (rule that(2)) (use 2 in \<open>auto simp: eq\<close>)
  next
    case 3
    show thesis by (rule that(3), unfold eq) (use 3 in \<open>simp only: if_False\<close>)
  qed
qed

lemma looking_ok: "wc_ok s \<Longrightarrow> wc_ok (looking d a b gate s)"
  by (cases "wc_pending s") (auto simp: looking_def wc_ok_def pending_ok_def gen_ok_def)

lemma looking_current [simp]: "wc_current (looking d a b gate s) = wc_current s"
  by (simp add: looking_def)

lemma steady_ensureRange: "wc_ok s \<Longrightarrow> steady s (ensureRange now a b s)"
  by (rule ensureRange_cases[of now a b s]) (simp_all add: steady_pump steady_publish_pump looking_ok steady_same)

lemma steady_pin: "wc_ok s \<Longrightarrow> steady s (wc_pin now i s)"
proof -
  assume ok: "wc_ok s"
  have "wc_ok (s\<lparr>wc_pinned := x\<rparr>)" for x
    using ok by (cases "wc_pending s") (auto simp: wc_ok_def pending_ok_def)
  then show ?thesis by (simp add: wc_pin_def Let_def steady_pump steady_same)
qed

lemma forget_failures_stays: "map_wf (g_pages g) \<Longrightarrow> stays K (g_pages g) (g_pages (forget_failures g))"
  by (auto simp: stays_def forget_failures_def map_of_filter_wf)

lemma steady_retry: "wc_ok s \<Longrightarrow> steady s (wc_retry now s)"
  unfolding wc_retry_def
proof (rule steady_publish_pump)
  assume ok: "wc_ok s"
  have ids: "g_id (forget_failures g) = g_id g" "g_pages g = [] \<Longrightarrow> g_pages (forget_failures g) = []" for g :: "'a page_generation"
    by (simp_all add: forget_failures_def)
  let ?t = "s\<lparr>wc_waitUntil := 0, wc_current := forget_failures (wc_current s), wc_pending := map_option forget_failures (wc_pending s)\<rparr>"
  show "wc_ok ?t"
    using ok by (cases "wc_pending s") (auto simp: wc_ok_def pending_ok_def forget_failures_ok ids)
  show "steady s ?t"
    using wc_okD(1)[OF ok] by (intro steady_all) (simp add: gen_ok_def forget_failures_stays)
qed

lemma wc_dispose_disposed [simp]: "wc_disposed (wc_dispose s)"
proof -
  have "wc_disposed (fold abort_loading gs t) = wc_disposed t" for gs and t :: "'a collection"
    by (induction gs arbitrary: t) (simp_all add: abort_loading_def)
  then show ?thesis by (simp add: wc_dispose_def Let_def split: option.split)
qed

lemma steady_core_self: "same_core s t \<Longrightarrow> steady s t"
  by (simp add: steady_core)

lemma steady_step: "wc_step s s' \<Longrightarrow> wc_ok s \<Longrightarrow> steady s s'"
proof (induction rule: wc_step.induct)
  case (wc_step_dispose s)
  then show ?case by (simp add: steady_def)
qed (simp_all add: steady_core_self steady_ensureRange steady_pin steady_revalidate steady_invalidate steady_retry steady_loaded
    steady_failed steady_finish_quiet)

end
