(* ===== verification/Windowed_Readings.thy ===== *)
theory Windowed_Readings
  imports Windowed_Behaviour
begin

text \<open>
  Quiet readings (\<open>revalidate\<close>): a reading that comes on screen comes whole, and the promise of every
  reading is settled exactly once, however the reading ends.
\<close>

section \<open>A reading comes whole\<close>

definition whole :: "'a collection \<Rightarrow> bool" where
  "whole s \<longleftrightarrow> (\<forall>p \<in> set (visible_pages s (wc_current s)). page_status (wc_current s) p is_ready)"

lemma page_status_ready: "page_status g p is_ready \<longleftrightarrow> (\<exists>items v u. map_of (g_pages g) p = Some (Ready items v u))"
  by (auto simp: page_status_def elim: is_ready.elims split: option.splits)

lemma whole_core: "same_core s s' \<Longrightarrow> whole s' = whole s"
  unfolding whole_def same_core_def using same_view_pages(2)[OF _ gen_frame_refl] by metis

lemma whole_pump:
  assumes "wc_ok s" "whole s"
  shows "whole (wc_pump now s)"
proof -
  have v: "visible_pages (wc_pump now s) (wc_current (wc_pump now s)) = visible_pages s (wc_current s)"
    by (rule same_view_pages(2)[OF wc_pump_frame(1,4)])
  have "set (visible_pages s (wc_current s)) \<subseteq> on_screen s" unfolding on_screen_def by (rule visible_kept)
  then show ?thesis
    using wc_pump_stays[OF assms(1), of now] assms(2) unfolding whole_def v page_status_ready stays_def by (meson subsetD)
qed

lemma whole_swap:
  assumes "wc_ok t" "wc_pending t = Some g" "\<not> wc_disposed t" "\<forall>p \<in> set (visible_pages t g). page_status g p is_ready"
  shows "whole (swap now g t)"
proof -
  let ?u = "notifyAllPages ((abort_loading (wc_current t) t)\<lparr>wc_current := g, wc_pending := None, wc_shown := wc_shown t + 1\<rparr>)"
  have "same_view t ?u" by (simp add: same_view_def notifyAllPages_def abort_loading_def)
  then have "visible_pages ?u g = visible_pages t g" by (rule same_view_pages(2)) simp
  then have "whole ?u" using assms(4) by (simp add: whole_def notifyAllPages_def)
  then show ?thesis unfolding swap_def by (rule whole_pump[OF swapped_ok[OF assms(1-3)]])
qed

definition arrives :: "nat \<Rightarrow> 'a collection \<Rightarrow> bool" where
  "arrives gid s \<longleftrightarrow> (g_id (wc_current s) = gid \<longrightarrow> whole s)"

lemma arrives_core: "same_core s s' \<Longrightarrow> arrives gid s' = arrives gid s"
  using whole_core[of s s'] by (simp add: arrives_def same_core_def)

lemma arrives_pump: "arrives gid s \<Longrightarrow> wc_ok s \<Longrightarrow> arrives gid (wc_pump now s)"
  by (simp add: arrives_def whole_pump)

lemma arrives_publish_pump: "arrives gid s \<Longrightarrow> wc_ok s \<Longrightarrow> arrives gid (wc_publish (wc_pump now s))"
  by (simp add: arrives_core[OF wc_publish_core] arrives_pump)

lemma arrives_other: "g_id (wc_current s) \<noteq> gid \<Longrightarrow> arrives gid s"
  by (simp add: arrives_def)

lemma arrives_finish_quiet:
  assumes "wc_ok t" "wc_pending t = Some g" "g_id g = gid"
  shows "arrives gid (finish_quiet now gid' t)"
proof -
  have other: "g_id (wc_current t) \<noteq> gid" using wc_okD(3)[OF assms(1,2)] assms(3) by (auto simp: pending_ok_def)
  have "arrives gid (wc_pump now (set_holding False t))" by (rule arrives_other) (simp add: other)
  moreover have "arrives gid (swap now g t)"
    if "\<not> list_ex (\<lambda>p. \<not> page_status g p is_ready) (visible_pages t g)" "\<not> wc_disposed t"
    using whole_swap[OF assms(1,2) that(2)] that(1) by (simp add: arrives_def list_ex_iff)
  ultimately show ?thesis using arrives_other[OF other] assms(2)
    by (auto simp: finish_quiet_def arrives_core[OF settle_promise_core] arrives_core[OF wc_publish_core] split: option.split)
qed

lemma arrives_settled:
  assumes ok: "wc_ok t" and alive: "\<not> wc_disposed t" and p: "wc_pending t = Some g" "g_quiet g = Some q" "g_id g = gid"
  shows "arrives gid (settled now gid' page t)"
proof -
  have other: "g_id (wc_current t) \<noteq> gid" using wc_okD(3)[OF ok p(1)] p(3) by (auto simp: pending_ok_def)
  have "arrives gid (dropPending t)" "arrives gid (set_holding True t)" "arrives gid t"
    by (rule arrives_other, simp add: other)+
  then have "arrives gid (quietSettled now g q t)"
    using arrives_finish_quiet[OF ok p(1,3), of now "g_id g"]
    by (simp add: quietSettled_def Let_def arrives_core[OF settle_promise_core] split: option.split page_state.split)
  then have "arrives gid (settled_swap now gid' t)"
    using \<open>arrives gid t\<close> by (cases "gid' = gid") (auto simp: settled_swap_def p)
  then show ?thesis
    using settled_swap_ok[OF ok alive, of now gid']
    by (simp add: settled_unfold Let_def arrives_publish_pump arrives_core[OF notifyPage_core] wc_ok_core[OF notifyPage_core])
qed

text \<open>An answer keeps the reading it may belong to.\<close>

lemma put_gen_pending:
  assumes "slot_gen k s = Some g0" "wc_pending s = Some g" "g_id g' = g_id g0" "g_quiet g' = g_quiet g0"
  shows "\<exists>h. wc_pending (put_gen k g' s) = Some h \<and> g_id h = g_id g \<and> g_quiet h = g_quiet g"
  using assms by (cases k) (auto simp: put_gen_def slot_gen_def)

lemma arrives_answer:
  assumes "wc_ok s" "attempt_slot a s = Some k" "slot_gen k s = Some g0" "gen_ok (wc_config s) g'" "g_id g' = g_id g0" "g_quiet g' = g_quiet g0"
    and "same_core (put_gen k g' s) t" "wc_pending s = Some g" "g_quiet g = Some q"
  shows "arrives (g_id g) (settled now gid' page t)"
proof -
  have alive: "\<not> wc_disposed s" using attempt_slot_page[OF assms(2)] by metis
  obtain h where "wc_pending t = Some h" "g_quiet h = Some q" "g_id h = g_id g"
    using put_gen_pending[OF assms(3,8,5,6)] assms(7,9) by (auto simp: same_core_def)
  moreover have "wc_ok t" using put_gen_ok[OF assms(1,3,4,5) alive] by (simp add: wc_ok_core[OF assms(7)])
  moreover have "\<not> wc_disposed t" using alive assms(7) by (simp add: same_core_def same_view_def)
  ultimately show ?thesis by (intro arrives_settled)
qed

lemma arrives_loaded:
  assumes ok: "wc_ok s" and q: "wc_pending s = Some g" "g_quiet g = Some q"
  shows "arrives (g_id g) (fst (page_loaded now a r s))"
proof (rule page_loaded_cases[of now a r s])
  assume "fst (page_loaded now a r s) = s"
  then show ?thesis using wc_okD(3)[OF ok q(1)] by (simp add: arrives_def pending_ok_def)
next
  fix k g0 items tot r'
  assume k: "attempt_slot a s = Some k" "slot_gen k s = Some g0"
    and eq: "fst (page_loaded now a r s) = settled now (at_gen a) (at_page a)
         ((put_gen k (absorb_result r' items tot a (wc_tick s + 1) (wc_nextRef s) (c_pageSize (wc_config s)) g0) s)
            \<lparr>wc_tick := wc_tick s + 1, wc_nextRef := wc_nextRef s + 1\<rparr>)"
  show ?thesis unfolding eq
    by (rule arrives_answer[OF ok k answer_gen_ok[OF ok k absorb_result_gen(2)] absorb_result_gen(1,3) books_core(1) q]) simp
qed

lemma arrives_failed:
  fixes s :: "'a collection"
  assumes ok: "wc_ok s" and q: "wc_pending s = Some g" "g_quiet g = Some q"
  shows "arrives (g_id g) (page_failed now a e s)"
proof (rule page_failed_cases[of now a e s])
  assume "page_failed now a e s = s"
  then show ?thesis using wc_okD(3)[OF ok q(1)] by (simp add: arrives_def pending_ok_def)
next
  fix k and g0 :: "'a page_generation" and w
  let ?g' = "g0\<lparr>g_lastError := Some e, g_pages := map_set (at_page a) (Failed e now (at_version a + 1)) (g_pages g0)\<rparr>"
  assume k: "attempt_slot a s = Some k" "slot_gen k s = Some g0"
    and eq: "page_failed now a e s = settled now (at_gen a) (at_page a) ((put_gen k ?g' s)\<lparr>wc_waitUntil := w\<rparr>)"
  have p: "g_pages ?g' = map_set (at_page a) (Failed e now (at_version a + 1)) (g_pages g0)" "g_id ?g' = g_id g0" "g_quiet ?g' = g_quiet g0"
    by simp_all
  show ?thesis unfolding eq
    by (rule arrives_answer[OF ok k answer_gen_ok[OF ok k p(1)] p(2,3) books_core(2) q]) simp
qed

lemma arrives_invalidate:
  assumes ok: "wc_ok s" and q: "wc_pending s = Some g"
  shows "arrives (g_id g) (invalidate now f s)"
proof -
  have g: "g_id g < wc_nextId s" "g_id (wc_current s) \<noteq> g_id g" using wc_okD(3)[OF ok q] by (auto simp: pending_ok_def)
  have n: "wc_nextId (unpinned s) = wc_nextId s"
    by (simp add: unpinned_def Let_def abort_loading_def settle_promise_def split: option.split)
  have "g_id (wc_current (shown_at_once (begun ft gt q' (unpinned s)))) \<in> {wc_nextId s, g_id (wc_current s)}" for ft gt q'
    by (auto simp: shown_at_once_def notifyAllPages_def begun_def new_generation_def n split: option.split)
  then have "g_id (wc_current (invalidate now f s)) \<noteq> g_id g"
    using g by (simp add: invalidate_unfold wc_publish_def) (metis insertE less_irrefl singletonD)
  then show ?thesis by (rule arrives_other)
qed

lemma same_id_other:
  "g_id (wc_current (ensureRange now a b s)) = g_id (wc_current s)" "g_id (wc_current (wc_pin now i s)) = g_id (wc_current s)"
  "g_id (wc_current (fst (revalidate now f h s))) = g_id (wc_current s)" "g_id (wc_current (wc_retry now s)) = g_id (wc_current s)"
  "g_id (wc_current (wc_dispose s)) = g_id (wc_current s)"
proof -
  show "g_id (wc_current (ensureRange now a b s)) = g_id (wc_current s)"
    by (rule ensureRange_cases[of now a b s]) (simp_all add: wc_publish_def)
  show "g_id (wc_current (wc_pin now i s)) = g_id (wc_current s)" by (simp add: wc_pin_def Let_def)
  show "g_id (wc_current (fst (revalidate now f h s))) = g_id (wc_current s)" by (simp add: revalidate_unfold settle_promise_def)
  show "g_id (wc_current (wc_retry now s)) = g_id (wc_current s)" by (simp add: wc_retry_def wc_publish_def forget_failures_def)
  have "wc_current (fold abort_loading gs t) = wc_current t" for gs and t :: "'a collection"
    by (induction gs arbitrary: t) (simp_all add: abort_loading_def)
  then show "g_id (wc_current (wc_dispose s)) = g_id (wc_current s)"
    by (simp add: wc_dispose_def Let_def settle_promise_def split: option.split)
qed

lemma arrives_step:
  "wc_step s s' \<Longrightarrow> wc_ok s \<Longrightarrow> wc_pending s = Some g \<Longrightarrow> g_quiet g = Some q \<Longrightarrow> arrives (g_id g) s'"
proof (induction rule: wc_step.induct)
  case (wc_step_held s now gid)
  then show ?case by (intro arrives_finish_quiet) simp_all
qed (auto simp: arrives_loaded arrives_failed arrives_invalidate wc_okD(3) pending_ok_def same_id_other listener_core[unfolded same_core_def]
    intro!: arrives_other dest: wc_okD(3))

section \<open>The promise of a reading\<close>

text \<open>
  \<open>waiting\<close> is the promise of the pending reading. \<open>follows s t\<close>: outcomes are only added, and a promise that
  was waiting still waits or has been settled, once.
\<close>

definition waiting :: "'a collection \<Rightarrow> nat option" where
  "waiting s = (case wc_pending s of None \<Rightarrow> None | Some g \<Rightarrow> map_option qr_promise (g_quiet g))"

definition settled_promises :: "'a collection \<Rightarrow> nat list" where
  "settled_promises s = map fst (wc_outcomes s)"

definition promises_ok :: "'a collection \<Rightarrow> bool" where
  "promises_ok s \<longleftrightarrow> distinct (settled_promises s) \<and> (\<forall>p \<in> set (settled_promises s). p < wc_nextRef s)
     \<and> pred_option (\<lambda>p. p < wc_nextRef s \<and> p \<notin> set (settled_promises s)) (waiting s)"

definition keeps_promises :: "'a collection \<Rightarrow> 'a collection \<Rightarrow> bool" where
  "keeps_promises s t \<longleftrightarrow> wc_nextRef s \<le> wc_nextRef t \<and> wc_outcomes t = wc_outcomes s \<and> waiting t = waiting s"

lemma keeps_promises_refl [simp]: "keeps_promises s s"
  by (simp add: keeps_promises_def)

lemma keeps_promises_trans: "keeps_promises s t \<Longrightarrow> keeps_promises t u \<Longrightarrow> keeps_promises s u"
  by (simp add: keeps_promises_def)

lemma keeps_promises_ok: "keeps_promises s t \<Longrightarrow> promises_ok s \<Longrightarrow> promises_ok t"
  by (cases "waiting s") (auto simp: keeps_promises_def promises_ok_def settled_promises_def)

definition settles :: "nat \<Rightarrow> 'a collection \<Rightarrow> 'a collection \<Rightarrow> bool" where
  "settles p s t \<longleftrightarrow> (waiting s = Some p \<longrightarrow> waiting t = Some p \<or> p \<in> set (settled_promises t))"

text \<open>The pump never settles a promise.\<close>

lemma evict_loop_ref: "wc_nextRef (evict_loop k limit pages n s) = wc_nextRef s"
proof (induction k limit pages n s rule: evict_loop.induct)
  case (2 k limit page pages n s)
  have "wc_nextRef (notify_slot k page (put_pages k ps t)) = wc_nextRef t" for ps and t :: "'a collection"
    by (cases k) (simp_all add: notify_slot_def notifyPage_def put_pages_def split: option.split)
  then show ?case using 2 by (simp split: option.split)
qed simp

lemma fold_notify_ref: "wc_nextRef (fold (notify_slot k) ps s) = wc_nextRef s"
  by (induction ps arbitrary: s) (simp_all add: notify_slot_def notifyPage_def split: option.split)

lemma put_pages_ref [simp]: "wc_nextRef (put_pages k ps s) = wc_nextRef s"
  by (cases k) (simp_all add: put_pages_def)

lemma start_wanted_ref: "wc_nextRef s \<le> wc_nextRef (start_wanted now k pages active s)"
  using start_wanted_rule[of "\<lambda>_ t. wc_nextRef s \<le> wc_nextRef t" active s k now pages]
  by (simp add: tick_page_def load_page_def Let_def split: option.split)

lemma pump_slot_ref: "wc_nextRef s \<le> wc_nextRef (pump_slot now k s)"
proof (cases "slot_gen k s")
  case (Some g)
  have e: "wc_nextRef (evict k keep kept t) = wc_nextRef t" for keep kept and t :: "'a collection"
    by (simp add: evict_def Let_def evict_loop_ref split: option.split)
  have d: "wc_nextRef (drop_unwanted k' w s) = wc_nextRef s" for w k'
    by (simp add: drop_unwanted_def Let_def fold_notify_ref split: option.split)
  show ?thesis
    using start_wanted_ref[of "drop_unwanted k (wanted_pages s g) s" now k] by (simp add: pump_slot_unfold[OF Some] Let_def e d)
qed (simp add: pump_slot_def)

lemma waiting_frame: "rel_option gen_frame (wc_pending s) (wc_pending t) \<Longrightarrow> waiting t = waiting s"
  by (auto simp: waiting_def gen_frame_def elim: option.rel_cases)

lemma wc_pump_promises: "keeps_promises s (wc_pump now s)"
  unfolding keeps_promises_def
proof (intro conjI)
  show "wc_nextRef s \<le> wc_nextRef (wc_pump now s)"
    using pump_slot_ref[of s now Pending_slot] pump_slot_ref[of "pump_slot now Pending_slot s" now Current_slot]
    by (simp add: wc_pump_def)
qed (simp_all add: wc_pump_frame waiting_frame)

lemma simple_promises [simp]:
  "keeps_promises s (wc_publish s)" "keeps_promises s (notifyPage p s)" "keeps_promises s (notifyAllPages s)"
  "keeps_promises s (set_holding h s)" "keeps_promises s (abort_loading g s)"
  by (auto simp: keeps_promises_def waiting_def wc_publish_def notifyPage_def notifyAllPages_def set_holding_def abort_loading_def
      option.map_comp o_def split: option.split)

text \<open>A transition either leaves the promises alone, or settles the one that waits and then nothing waits.\<close>

definition promise_step :: "'a collection \<Rightarrow> 'a collection \<Rightarrow> bool" where
  "promise_step s t \<longleftrightarrow> (promises_ok s \<longrightarrow> promises_ok t) \<and> (\<forall>p. settles p s t)
     \<and> (\<exists>os. wc_outcomes t = wc_outcomes s @ os)"

lemma promise_step_keeps: "keeps_promises s t \<Longrightarrow> promise_step s t"
  using keeps_promises_ok[of s t] by (auto simp: promise_step_def settles_def keeps_promises_def)

lemma promise_step_trans:
  assumes "promise_step s t" "promise_step t u"
  shows "promise_step s u"
proof -
  obtain xs ys where o': "wc_outcomes t = wc_outcomes s @ xs" "wc_outcomes u = wc_outcomes t @ ys"
    using assms by (auto simp: promise_step_def)
  have "settles p s u" for p
    using assms o' by (auto simp: promise_step_def settles_def settled_promises_def)
  then show ?thesis using assms o' by (auto simp: promise_step_def)
qed

text \<open>The one way a promise is settled: the reading is gone and its outcome is recorded.\<close>

lemma promise_step_settle:
  assumes "waiting s = Some p" "waiting t = None" "wc_outcomes t = wc_outcomes s @ [(p, out)]" "wc_nextRef s \<le> wc_nextRef t"
  shows "promise_step s t"
  using assms by (auto simp: promise_step_def settles_def promises_ok_def settled_promises_def)

end
