(* ===== verification/Windowed_Promises.thy ===== *)
theory Windowed_Promises
  imports Windowed_Readings
begin

text \<open>Every operation settles the promises of readings exactly once.\<close>

section \<open>Settling\<close>

lemma waiting_quiet: "wc_pending s = Some g \<Longrightarrow> waiting s = map_option qr_promise (g_quiet g)"
  by (simp add: waiting_def)

lemma waiting_nextRef [simp]: "waiting (s\<lparr>wc_nextRef := r\<rparr>) = waiting s"
  by (simp add: waiting_def)

lemma settle_promise_books [simp]:
  "waiting (settle_promise p out s) = waiting s" "wc_nextRef (settle_promise p out s) = wc_nextRef s"
  "wc_outcomes (settle_promise p out s) = wc_outcomes s @ [(p, out)]"
  by (simp_all add: settle_promise_def waiting_def)

lemma dropPending_books [simp]:
  "wc_pending (dropPending s) = None" "wc_outcomes (dropPending s) = wc_outcomes s" "wc_nextRef (dropPending s) = wc_nextRef s"
  by (simp_all add: dropPending_def abort_loading_def split: option.split)

lemma promise_step_drop:
  assumes "waiting s = Some p"
  shows "promise_step s (settle_promise p out (dropPending s))"
  by (rule promise_step_settle[OF assms]) (simp_all add: waiting_def settle_promise_def)

lemma swap_promises:
  "waiting (swap now g s) = None" "wc_outcomes (swap now g s) = wc_outcomes s" "wc_nextRef s \<le> wc_nextRef (swap now g s)"
  using wc_pump_promises[of "notifyAllPages ((abort_loading (wc_current s) s)\<lparr>wc_current := g, wc_pending := None, wc_shown := wc_shown s + 1\<rparr>)" now]
  by (simp_all add: keeps_promises_def swap_def waiting_def notifyAllPages_def abort_loading_def)

lemma promise_step_finish_quiet: "promise_step s (finish_quiet now gid s)"
proof -
  have refl: "promise_step s s" by (simp add: promise_step_keeps)
  show ?thesis
  proof (cases "wc_pending s")
    case (Some g)
    have hold: "promise_step s (wc_pump now (set_holding False s))"
      by (intro promise_step_keeps keeps_promises_trans[OF simple_promises(4) wc_pump_promises])
    have "promise_step s (settle_promise (qr_promise q) Resolved (wc_publish (swap now g s)))" if "g_quiet g = Some q" for q
      using swap_promises[where now = now and g = g and s = s] that simple_promises(1)[of "swap now g s"]
      by (intro promise_step_settle[where out = Resolved]) (simp_all add: waiting_quiet[OF Some] keeps_promises_def)
    then show ?thesis using refl hold by (simp add: finish_quiet_def Some split: option.split)
  qed (simp add: finish_quiet_def refl)
qed

lemma find_failed:
  assumes "find (\<lambda>p. page_status g p is_failed) ps = Some p"
  shows "\<exists>e t v. map_of (g_pages g) p = Some (Failed e t v)"
proof -
  have "page_status g p is_failed" using assms by (auto simp: find_Some_iff)
  then show ?thesis by (auto simp: page_status_def elim: is_failed.elims split: option.splits)
qed

lemma promise_step_quietSettled:
  assumes "wc_pending s = Some g" "g_quiet g = Some q"
  shows "promise_step s (quietSettled now g q s)"
proof -
  have w: "waiting s = Some (qr_promise q)" using assms by (simp add: waiting_quiet)
  define pages where "pages = (if exactEmpty g then [] else if visible_pages s g \<noteq> [] then visible_pages s g else [g_gate g])"
  show ?thesis
  proof (cases "find (\<lambda>p. page_status g p is_failed) pages")
    case None
    then have "quietSettled now g q s = (if list_ex (\<lambda>p. \<not> page_status g p is_ready) pages \<or> qr_holding q then s
        else if \<not> qr_hold q then finish_quiet now (g_id g) s else set_holding True s)"
      by (simp add: quietSettled_def Let_def pages_def)
    then show ?thesis by (simp add: promise_step_finish_quiet promise_step_keeps)
  next
    case (Some p)
    then obtain e t v where f: "map_of (g_pages g) p = Some (Failed e t v)" using find_failed by blast
    have "quietSettled now g q s = settle_promise (qr_promise q) (Rejected e) (dropPending s)"
      using Some f by (simp add: quietSettled_def Let_def pages_def)
    then show ?thesis by (simp add: promise_step_drop[OF w])
  qed
qed

lemma promise_step_settled: "promise_step s (settled now gid page s)"
proof -
  have "promise_step s (settled_swap now gid s)"
  proof (cases "wc_pending s")
    case (Some g)
    have "keeps_promises s (swap now g s)" if "g_quiet g = None"
      using that swap_promises[where now = now and g = g and s = s] by (simp add: keeps_promises_def waiting_quiet[OF Some])
    then show ?thesis using promise_step_quietSettled[OF Some]
      by (auto simp: settled_swap_def Some promise_step_keeps split: option.split)
  qed (simp add: settled_swap_def promise_step_keeps)
  moreover have "keeps_promises t (wc_publish (wc_pump now (if c then notifyPage page t else t)))" for c and t :: "'a collection"
    by (intro keeps_promises_trans[OF _ simple_promises(1)] keeps_promises_trans[OF _ wc_pump_promises]) simp
  ultimately show ?thesis
    unfolding settled_unfold Let_def by (blast intro: promise_step_trans promise_step_keeps)
qed

section \<open>The operations\<close>

lemma keeps_put_gen:
  assumes "slot_gen k s = Some g" "g_quiet g' = g_quiet g" "wc_outcomes t = wc_outcomes s" "wc_nextRef s \<le> wc_nextRef t"
    "wc_pending t = wc_pending (put_gen k g' s)"
  shows "keeps_promises s t"
  using assms by (cases k) (auto simp: keeps_promises_def waiting_def put_gen_def slot_gen_def)

lemma put_gen_books [simp]: "wc_outcomes (put_gen k g s) = wc_outcomes s" "wc_nextRef (put_gen k g s) = wc_nextRef s"
  by (cases k; simp add: put_gen_def)+

lemma promise_step_loaded: "promise_step s (fst (page_loaded now a r s))"
proof (rule page_loaded_cases[of now a r s])
  fix k g items tot r'
  assume k: "slot_gen k s = Some g"
    and eq: "fst (page_loaded now a r s) = settled now (at_gen a) (at_page a)
         ((put_gen k (absorb_result r' items tot a (wc_tick s + 1) (wc_nextRef s) (c_pageSize (wc_config s)) g) s)
            \<lparr>wc_tick := wc_tick s + 1, wc_nextRef := wc_nextRef s + 1\<rparr>)"
  show ?thesis unfolding eq
    by (rule promise_step_trans[OF promise_step_keeps[OF keeps_put_gen[OF k absorb_result_gen(3)]] promise_step_settled]) simp_all
qed (simp add: promise_step_keeps)

lemma promise_step_failed:
  fixes s :: "'a collection"
  shows "promise_step s (page_failed now a e s)"
proof (rule page_failed_cases[of now a e s])
  fix k and g :: "'a page_generation" and w
  let ?g' = "g\<lparr>g_lastError := Some e, g_pages := map_set (at_page a) (Failed e now (at_version a + 1)) (g_pages g)\<rparr>"
  assume k: "slot_gen k s = Some g"
    and eq: "page_failed now a e s = settled now (at_gen a) (at_page a) ((put_gen k ?g' s)\<lparr>wc_waitUntil := w\<rparr>)"
  have q: "g_quiet ?g' = g_quiet g" by simp
  show ?thesis unfolding eq
    by (rule promise_step_trans[OF promise_step_keeps[OF keeps_put_gen[OF k q]] promise_step_settled]) simp_all
qed (simp add: promise_step_keeps)

lemma keeps_changed:
  "wc_nextRef t = wc_nextRef s \<Longrightarrow> wc_outcomes t = wc_outcomes s \<Longrightarrow> waiting t = waiting s \<Longrightarrow> promise_step s t"
  by (rule promise_step_keeps) (simp add: keeps_promises_def)

lemma promise_step_pump: "promise_step s t \<Longrightarrow> promise_step s (wc_pump now t)"
  using promise_step_trans[OF _ promise_step_keeps[OF wc_pump_promises]] .

lemma promise_step_publish: "promise_step s t \<Longrightarrow> promise_step s (wc_publish t)"
  using promise_step_trans[OF _ promise_step_keeps[OF simple_promises(1)]] .

lemma promise_step_ensureRange: "promise_step s (ensureRange now a b s)"
proof -
  have "promise_step s (looking d x y gt s)" for d x y gt
    by (rule keeps_changed) (simp_all add: looking_def waiting_def option.map_comp o_def split: option.split)
  then show ?thesis
    using ensureRange_cases[of now a b s "promise_step s (ensureRange now a b s)"]
    by (metis promise_step_pump promise_step_publish promise_step_keeps keeps_promises_refl)
qed

lemma promise_step_pin: "promise_step s (wc_pin now i s)"
proof -
  have "promise_step s (s\<lparr>wc_pinned := x\<rparr>)" for x by (rule keeps_changed) (simp_all add: waiting_def)
  then show ?thesis by (simp add: wc_pin_def Let_def promise_step_pump promise_step_keeps)
qed

lemma promise_step_retry: "promise_step s (wc_retry now s)"
  unfolding wc_retry_def
  by (intro promise_step_publish promise_step_pump keeps_changed) (simp_all add: waiting_def forget_failures_def option.map_comp o_def split: option.split)

lemma promise_step_new:
  assumes "promises_ok s \<Longrightarrow> promises_ok t" "wc_outcomes t = wc_outcomes s @ os" "waiting s = None \<or> waiting s = waiting t \<or> waiting s \<in> Some ` fst ` set os"
  shows "promise_step s t"
  using assms by (auto simp: promise_step_def settles_def settled_promises_def) force

lemma promise_step_revalidate: "promise_step s (fst (revalidate now f h s))"
proof (cases "can_revalidate (numbered s)")
  case False
  let ?t = "settle_promise (wc_nextRef s) Resolved (numbered s)"
  have w: "waiting ?t = waiting s" by (simp add: waiting_def settle_promise_def numbered_def)
  have "promises_ok ?t" if "promises_ok s"
    using that by (cases "waiting s") (auto simp: promises_ok_def w, auto simp: settle_promise_def numbered_def settled_promises_def dest: less_SucI)
  then have "promise_step s ?t"
    by (rule promise_step_new[where os = "[(wc_nextRef s, Resolved)]"]) (simp_all add: numbered_def)
  then show ?thesis using False by (simp add: revalidate_unfold)
next
  case True
  let ?t = "superseded (numbered s)"
  have step: "promise_step s ?t"
  proof (rule promise_step_trans[where t = "numbered s"])
    show "promise_step s (numbered s)"
      by (rule promise_step_keeps) (simp add: keeps_promises_def numbered_def waiting_def)
    show "promise_step (numbered s) ?t"
      by (auto simp: superseded_def promise_step_keeps waiting_quiet promise_step_drop split: option.split)
  qed
  let ?u = "begun (\<lambda>c. case f of Some f \<Rightarrow> f | None \<Rightarrow> c) (pageOfIndex ?t (wc_visibleFirst ?t))
    (Some \<lparr>qr_promise = wc_nextRef s, qr_hold = h, qr_holding = False\<rparr>) ?t"
  have none: "waiting ?t = None"
    using True by (auto simp: superseded_def can_revalidate_def quiet_pending_def waiting_def settle_promise_def split: option.splits)
  have ref: "wc_nextRef ?t = wc_nextRef s + 1"
    by (simp add: superseded_def settle_promise_def numbered_def split: option.split)
  have below: "\<forall>p \<in> set (settled_promises ?t). p < wc_nextRef s" if "promises_ok s"
    using that by (auto simp: superseded_def promises_ok_def settled_promises_def numbered_def settle_promise_def waiting_def split: option.splits)
  have "promises_ok ?u" if "promises_ok s"
    using below[OF that] step that ref by (auto simp: promises_ok_def begun_def waiting_def settled_promises_def new_generation_def promise_step_def)
  then have "promise_step s ?u"
    using step none by (auto simp: promise_step_def settles_def begun_def settled_promises_def)
  then show ?thesis using True by (simp add: revalidate_unfold promise_step_pump)
qed

lemma promise_step_invalidate: "promise_step s (invalidate now f s)"
proof (cases "wc_disposed s")
  case False
  have step: "promise_step s (begun ft gt None (unpinned s))" for ft gt
  proof (cases "waiting s")
    case None
    then have "wc_outcomes (unpinned s) = wc_outcomes s \<and> wc_nextRef (unpinned s) = wc_nextRef s"
      by (cases "wc_pending s") (auto simp: unpinned_def Let_def abort_loading_def waiting_def)
    then show ?thesis using None
      by (intro keeps_changed) (simp_all add: begun_def waiting_def new_generation_def)
  next
    case (Some p)
    then have "wc_outcomes (unpinned s) = wc_outcomes s @ [(p, Resolved)] \<and> wc_nextRef (unpinned s) = wc_nextRef s"
      by (auto simp: unpinned_def Let_def abort_loading_def waiting_def settle_promise_def split: option.splits)
    then show ?thesis
      by (intro promise_step_settle[OF Some, where out = Resolved]) (simp_all add: begun_def waiting_def new_generation_def)
  qed
  have "keeps_promises t (shown_at_once t)" if "waiting t = None" for t :: "'a collection"
    using that by (auto simp: shown_at_once_def keeps_promises_def waiting_def notifyAllPages_def split: option.split)
  moreover have "waiting (begun ft gt None t) = None" for ft gt and t :: "'a collection"
    by (simp add: begun_def waiting_def new_generation_def)
  ultimately have "promise_step s (shown_at_once (begun ft gt None (unpinned s)))" for ft gt
    using promise_step_trans[OF step] promise_step_keeps by blast
  then show ?thesis using False by (simp add: invalidate_unfold promise_step_pump promise_step_publish)
qed (simp add: invalidate_def promise_step_keeps)

lemma promise_step_dispose: "promise_step s (wc_dispose s)"
proof (cases "wc_disposed s")
  case False
  have f: "wc_outcomes (fold abort_loading gs t) = wc_outcomes t \<and> wc_nextRef (fold abort_loading gs t) = wc_nextRef t"
    for gs and t :: "'a collection"
    by (induction gs arbitrary: t) (simp_all add: abort_loading_def)
  have n: "waiting (wc_dispose s) = None" using False by (simp add: wc_dispose_def Let_def waiting_def)
  have r: "wc_nextRef (wc_dispose s) = wc_nextRef s"
    using False f by (simp add: wc_dispose_def Let_def settle_promise_def split: option.split)
  show ?thesis
  proof (cases "waiting s")
    case None
    then have "wc_outcomes (wc_dispose s) = wc_outcomes s"
      using False f by (auto simp: wc_dispose_def Let_def waiting_def split: option.splits)
    then show ?thesis using None n r by (intro keeps_changed) simp_all
  next
    case (Some p)
    then obtain g q where "wc_pending s = Some g" "g_quiet g = Some q" "p = qr_promise q"
      by (auto simp: waiting_def split: option.splits)
    then have "wc_outcomes (wc_dispose s) = wc_outcomes s @ [(p, Resolved)]"
      using False f by (simp add: wc_dispose_def Let_def settle_promise_def)
    then show ?thesis using Some n r by (intro promise_step_settle) simp_all
  qed
qed (simp add: wc_dispose_def promise_step_keeps)

lemma promise_step_listeners [simp]:
  "promise_step s (wc_subscribe l s)" "promise_step s (wc_unsubscribe l s)" "promise_step s (unsubscribePage p r l s)"
  by (rule keeps_changed; simp add: wc_subscribe_def wc_unsubscribe_def unsubscribePage_def Let_def waiting_def)+

lemma promise_step_subscribePage [simp]: "promise_step s (fst (subscribePage p l s))"
  by (rule promise_step_keeps) (simp add: keeps_promises_def subscribePage_def Let_def waiting_def)

lemma promise_step_step: "wc_step s s' \<Longrightarrow> promise_step s s'"
  by (induction rule: wc_step.induct)
    (simp_all add: promise_step_ensureRange promise_step_pin promise_step_retry promise_step_revalidate promise_step_invalidate
      promise_step_dispose promise_step_loaded promise_step_failed promise_step_finish_quiet)

lemma promises_reachable: "wc_reachable s \<Longrightarrow> promises_ok s"
proof (induction rule: wc_reachable.induct)
  case (wc_reach_new o' fetch)
  show ?case by (simp add: promises_ok_def settled_promises_def waiting_def new_collection_def)
next
  case (wc_reach_step s s')
  then show ?case using promise_step_step by (auto simp: promise_step_def)
qed

end
