(* ===== verification/Windowed_Properties.thy ===== *)
theory Windowed_Properties
  imports Windowed_Promises
begin

text \<open>
  The properties of the windowed collection, for every reachable state: memory and requests within their
  limits, no flash while a generation is shown, whole readings, and promises settled once. The witnesses
  evaluate a run that opens a list of six items, reads a page, and reads it again quietly.
\<close>

section \<open>A run\<close>

definition sample_result :: "nat list \<Rightarrow> nat page_result" where
  "sample_result items = \<lparr>pr_items = Some items, pr_total = Fin 6, pr_lowerBound = False, pr_index = None\<rparr>"

definition run_new :: "nat collection" where
  "run_new = new_collection \<lparr>wo_pageSize = 2, wo_maxResidentPages = 2, wo_prefetchPages = Some 0, wo_maxConcurrent = None, wo_retryAfterMs = None\<rparr> 7"

definition run_asked :: "nat collection" where
  "run_asked = ensureRange 10 0 1 run_new"

definition run_shown :: "nat collection" where
  "run_shown = fst (page_loaded 20 (wc_started run_asked ! 0) (Some (sample_result [11, 12])) run_asked)"

definition run_scrolled :: "nat collection" where
  "run_scrolled = ensureRange 30 0 3 run_shown"

definition run_reading :: "nat collection" where
  "run_reading = fst (revalidate 40 None False run_shown)"

definition run_read :: "nat collection" where
  "run_read = fst (page_loaded 50 (wc_started run_reading ! 1) (Some (sample_result [21, 22])) run_reading)"

definition run_facts :: bool where
  "run_facts \<longleftrightarrow> 0 < length (wc_started run_asked) \<and> 1 < length (wc_started run_reading)
     \<and> \<not> wc_disposed run_scrolled \<and> g_id (wc_current run_scrolled) = g_id (wc_current run_shown)
     \<and> List.member (kept_pages run_scrolled (wc_current run_scrolled)) 0 \<and> readyItems run_shown 0 = Some [11, 12]
     \<and> map_option g_id (wc_pending run_reading) = Some (g_id (wc_current run_read))
     \<and> (case wc_pending run_reading of None \<Rightarrow> False | Some g \<Rightarrow> map_option qr_promise (g_quiet g) = Some (snd (revalidate 40 None False run_shown)))
     \<and> List.member (visible_pages run_read (wc_current run_read)) 0"

lemma run_facts_hold: run_facts
  by code_simp

lemmas run_facts = run_facts_hold[unfolded run_facts_def]

lemma run_reachable:
  "wc_reachable run_shown" "wc_step run_shown run_scrolled" "wc_reachable run_reading" "wc_step run_reading run_read"
proof -
  have "wc_reachable run_new" unfolding run_new_def by (rule wc_reach_new)
  then have asked: "wc_reachable run_asked" unfolding run_asked_def by (rule wc_reach_step[OF _ wc_step_ensureRange])
  have "wc_step run_asked run_shown" unfolding run_shown_def by (rule wc_step_loaded) (use run_facts in simp)
  with asked show shown: "wc_reachable run_shown" by (rule wc_reach_step)
  show "wc_step run_shown run_scrolled" unfolding run_scrolled_def by (rule wc_step_ensureRange)
  show "wc_reachable run_reading" unfolding run_reading_def by (rule wc_reach_step[OF shown wc_step_revalidate])
  show "wc_step run_reading run_read" unfolding run_read_def by (rule wc_step_loaded) (use run_facts in simp)
qed

section \<open>The properties\<close>

text \<open>
  C15. Memory and requests are bounded by the options, never by the length of the list: whatever was
  scrolled, pinned, read again or answered, each generation holds at most \<open>maxResidentPages\<close> pages (or
  exactly pages in view and the pinned one, when those are more), and never has more than
  \<open>maxConcurrent\<close> requests in flight.
\<close>
theorem collection_within_limits:
  assumes "wc_reachable s" "g \<in> set (generations s)"
  shows "readyCount g \<le> max (c_maxResident (wc_config s)) (int (card (set (kept_pages s g)))) \<and> inFlight g \<le> c_maxConcurrent (wc_config s)"
proof -
  note ok = wc_reachable_ok[OF assms(1)]
  have "gen_ok (wc_config s) g \<and> gen_within s g"
    using ok assms(2) wc_okD(1,3)[of s]
    by (cases "wc_pending s") (auto simp: generations_def wc_within_def pending_ok_def)
  then show ?thesis by (simp add: gen_ok_def gen_within_def inFlight_sum)
qed

theorem collection_within_limits_witness: "inFlight (wc_current run_reading) \<le> c_maxConcurrent (wc_config run_reading)"
  by (rule collection_within_limits[OF run_reachable(3), THEN conjunct2]) (simp add: generations_def split: option.split)

text \<open>
  C8. No flash: in any step that leaves the generation on screen in place (and the collection open), a
  page in view afterwards, or the pinned one, that held items before still holds exactly those items.
  Scrolling, prefetching, eviction, failures, other answers and readings behind the list never blank it.
\<close>
theorem no_flash:
  assumes "wc_reachable s" "wc_step s s'" "g_id (wc_current s') = g_id (wc_current s)" "\<not> wc_disposed s'"
    and "p \<in> set (kept_pages s' (wc_current s'))" "readyItems s p = Some items"
  shows "readyItems s' p = Some items"
proof -
  have "stays (on_screen s') (g_pages (wc_current s)) (g_pages (wc_current s'))"
    using steady_step[OF assms(2)] wc_reachable_ok[OF assms(1)] assms(3,4) by (auto simp: steady_def)
  then show ?thesis using assms(5,6)
    by (fastforce simp: stays_def on_screen_def readyItems_def split: option.splits page_state.splits)
qed

theorem no_flash_witness: "readyItems run_scrolled 0 = Some [11, 12]"
  by (rule no_flash[OF run_reachable(1,2)]) (use run_facts in \<open>simp_all add: List.member_iff\<close>)

text \<open>
  C28. A quiet reading comes on screen whole: when a step makes the pending quiet reading the generation
  on screen, every page in view of it is there. Until then, nothing of it was shown.
\<close>
theorem reading_comes_whole:
  assumes "wc_reachable s" "wc_step s s'" "wc_pending s = Some g" "g_quiet g = Some q" "g_id (wc_current s') = g_id g"
    and "p \<in> set (visible_pages s' (wc_current s'))"
  shows "readyItems s' p \<noteq> None"
proof -
  have "whole s'" using arrives_step[OF assms(2) _ assms(3,4)] wc_reachable_ok[OF assms(1)] assms(5) by (simp add: arrives_def)
  then show ?thesis using assms(6) by (auto simp: whole_def page_status_ready readyItems_def)
qed

theorem reading_comes_whole_witness: "readyItems run_read 0 \<noteq> None"
proof -
  obtain g q where "wc_pending run_reading = Some g" "g_quiet g = Some q" "g_id (wc_current run_read) = g_id g"
    using run_facts by (auto split: option.splits)
  then show ?thesis using reading_comes_whole[OF run_reachable(3,4)] run_facts by (simp add: List.member_iff)
qed

text \<open>
  C26. The promise of a quiet reading is settled exactly once: while it waits it has no outcome, and a
  step either leaves it waiting or gives it its only outcome, whichever way the reading ends (shown,
  failed, superseded, dropped by a filter change, disposed).
\<close>
theorem reading_settles_once:
  assumes "wc_reachable s" "wc_step s s'" "wc_pending s = Some g" "g_quiet g = Some q"
  shows "(\<nexists>out. (qr_promise q, out) \<in> set (wc_outcomes s)) \<and>
    (waiting s' = Some (qr_promise q) \<and> (\<nexists>out. (qr_promise q, out) \<in> set (wc_outcomes s'))
      \<or> waiting s' \<noteq> Some (qr_promise q) \<and> (\<exists>!out. (qr_promise q, out) \<in> set (wc_outcomes s')))"
proof -
  have w: "waiting s = Some (qr_promise q)" using assms(3,4) by (simp add: waiting_quiet)
  have ok: "promises_ok s" "promises_ok s'"
    using promises_reachable wc_reach_step[OF assms(1,2)] assms(1) by blast+
  have step: "waiting s' = Some (qr_promise q) \<or> qr_promise q \<in> set (settled_promises s')"
    using promise_step_step[OF assms(2)] w by (simp add: promise_step_def settles_def)
  have absent: "waiting t = Some p \<Longrightarrow> promises_ok t \<Longrightarrow> (\<nexists>out. (p, out) \<in> set (wc_outcomes t))" for p and t :: "'a collection"
    by (force simp: promises_ok_def settled_promises_def)
  have once: "\<exists>!out. (p, out) \<in> set (wc_outcomes s')" if "p \<in> set (settled_promises s')" for p
    using that ok(2) by (auto simp: promises_ok_def settled_promises_def dest: eq_key_imp_eq_value)
  show ?thesis using absent[OF w ok(1)] absent[OF _ ok(2)] step once by blast
qed

theorem reading_settles_once_witness:
  "\<nexists>out. (snd (revalidate 40 None False run_shown), out) \<in> set (wc_outcomes run_reading)"
proof -
  obtain g q where "wc_pending run_reading = Some g" "g_quiet g = Some q" "qr_promise q = snd (revalidate 40 None False run_shown)"
    using run_facts by (auto split: option.splits)
  then show ?thesis using reading_settles_once[OF run_reachable(3,4)] by metis
qed

section \<open>A page listener lost\<close>

text \<open>
  The closure \<open>subscribePage\<close> returns deletes the page's entry whenever the set it captured is empty. Called
  a second time, after another listener has subscribed to the page, it removes that listener's set from
  the map: the second listener is subscribed but no longer notified.
\<close>

definition lost_listener :: "nat collection" where
  "lost_listener =
     (let (s1, r1) = subscribePage 0 100 run_new; s2 = unsubscribePage 0 r1 100 s1;
          (s3, r2) = subscribePage 0 200 s2; s4 = unsubscribePage 0 r1 100 s3
      in notifyPage 0 s4)"

lemma second_unsubscribe_loses_listener:
  "wc_calls (notifyPage 0 (fst (subscribePage 0 200 (unsubscribePage 0 (snd (subscribePage 0 100 run_new)) 100
     (fst (subscribePage 0 100 run_new)))))) = [Page_call 0 200] \<and> wc_calls lost_listener = []"
  by code_simp

end
