(* ===== verification/Audio_Plan.thy ===== *)
theory Audio_Plan
  imports JS_Result
begin

text \<open>
  Audio plans (\<open>packages/client-core/src/audio-selection.ts\<close>): the data of a session's audio renditions,
  the strict check of a plan received from outside, and the check of a BCP 47 language tag.
\<close>

section \<open>Data\<close>

text \<open>\<open>rd_codec\<close> is the value itself: the check reads its text, \<open>String(v.codec)\<close>.\<close>

record audio_rendition =
  rd_id :: string
  rd_sourceStreamIndex :: int
  rd_groupId :: string
  rd_name :: string
  rd_playlistFile :: string
  rd_label :: string
  rd_language :: "string option"
  rd_manifestLanguage :: "string option"
  rd_sampleRate :: "int option"
  rd_codec :: jsval
  rd_channels :: int
  rd_unavailable :: bool

record audio_plan =
  ap_policyVersion :: int
  ap_revision :: string
  ap_sessionId :: string
  ap_generation :: int
  ap_sourceId :: string
  ap_factsRevision :: int
  ap_defaultRenditionId :: string
  ap_renditions :: "audio_rendition list"

datatype audio_error = Invalid_plan | No_default_rendition | Invalid_timeout

section \<open>Language tags\<close>

definition is_alpha :: "char \<Rightarrow> bool" where
  "is_alpha c \<longleftrightarrow> is_lower c \<or> is_upper c"

definition lower_of :: "char \<Rightarrow> char" where
  "lower_of c = (if is_upper c then char_of (of_char c + 32 :: nat) else c)"

text \<open>\<open>value.split('-')\<close>.\<close>

fun split_dash :: "string \<Rightarrow> string list" where
  "split_dash [] = [[]]"
| "split_dash (c # s) =
     (if c = CHR ''-'' then [] # split_dash s
      else case split_dash s of [] \<Rightarrow> [[c]] | p # ps \<Rightarrow> (c # p) # ps)"

text \<open>\<open>/^[A-Za-z0-9]+(?:-[A-Za-z0-9]+)*$/\<close>: no part between dashes is empty.\<close>

definition tag_shape :: "string \<Rightarrow> bool" where
  "tag_shape s \<longleftrightarrow> list_all (\<lambda>p. p \<noteq> [] \<and> list_all (\<lambda>c. is_alpha c \<or> is_digit c) p) (split_dash s)"

text \<open>The tests of a part, on lower-cased text.\<close>

definition is_alnum :: "char \<Rightarrow> bool" where
  "is_alnum c \<longleftrightarrow> is_lower c \<or> is_digit c"

definition letters_part :: "nat \<Rightarrow> nat \<Rightarrow> string \<Rightarrow> bool" where
  "letters_part lo hi p \<longleftrightarrow> sizedWithin lo hi p \<and> list_all is_lower p"

definition alnum_part :: "nat \<Rightarrow> nat \<Rightarrow> string \<Rightarrow> bool" where
  "alnum_part lo hi p \<longleftrightarrow> sizedWithin lo hi p \<and> list_all is_alnum p"

definition region_part :: "string \<Rightarrow> bool" where
  "region_part p \<longleftrightarrow> letters_part 2 2 p \<or> length p = 3 \<and> list_all is_digit p"

definition variant_part :: "string \<Rightarrow> bool" where
  "variant_part p \<longleftrightarrow> alnum_part 5 8 p \<or> length p = 4 \<and> is_digit (hd p) \<and> list_all is_alnum p"

definition singleton_part :: "string \<Rightarrow> bool" where
  "singleton_part p \<longleftrightarrow> length p = 1 \<and> list_all is_alnum p \<and> p \<noteq> ''x''"

text \<open>
  The scan keeps the parts still to be read. \<open>privateUse\<close> starts at the \<open>x\<close>; \<open>skip_extlang\<close> is the loop
  with the count \<open>n\<close>; \<open>scan_variants\<close> and \<open>scan_extensions\<close> return \<open>None\<close> where the code returns false.
\<close>

definition privateUse :: "string list \<Rightarrow> bool" where
  "privateUse ps = (let rest' = dropWhile (alnum_part 1 8) (tl ps) in length rest' < length (tl ps) \<and> rest' = [])"

fun skip_extlang :: "nat \<Rightarrow> string list \<Rightarrow> string list" where
  "skip_extlang (Suc n) (p # ps) = (if letters_part 3 3 p then skip_extlang n ps else p # ps)"
| "skip_extlang _ ps = ps"

definition skip_one :: "(string \<Rightarrow> bool) \<Rightarrow> string list \<Rightarrow> string list" where
  "skip_one f ps = (case ps of [] \<Rightarrow> [] | p # qs \<Rightarrow> if f p then qs else ps)"

fun scan_variants :: "string list \<Rightarrow> string list \<Rightarrow> string list option" where
  "scan_variants seen [] = Some []"
| "scan_variants seen (p # ps) =
     (if variant_part p then (if p \<in> set seen then None else scan_variants (p # seen) ps) else Some (p # ps))"

function scan_extensions :: "string list \<Rightarrow> string list \<Rightarrow> string list option" where
  "scan_extensions seen [] = Some []"
| "scan_extensions seen (p # ps) =
     (if singleton_part p then
        (if p \<in> set seen then None
         else let rest' = dropWhile (alnum_part 2 8) ps
              in if length rest' = length ps then None else scan_extensions (p # seen) rest')
      else Some (p # ps))"
  by pat_completeness auto
termination
  by (relation "measure (\<lambda>(seen, ps). length ps)") (auto simp: le_imp_less_Suc length_dropWhile_le)

definition tag_rest :: "string list \<Rightarrow> bool" where
  "tag_rest ps = (ps = [] \<or> (hd ps = ''x'' \<and> privateUse ps))"

definition tag_parts :: "string list \<Rightarrow> bool" where
  "tag_parts parts =
     (if hd parts = ''x'' then privateUse parts
      else if \<not> letters_part 2 8 (hd parts) then False
      else let a = (if length (hd parts) \<le> 3 then skip_extlang 3 (tl parts) else tl parts);
               b = skip_one region_part (skip_one (letters_part 4 4) a)
           in case scan_variants [] b of
                None \<Rightarrow> False
              | Some c \<Rightarrow> (case scan_extensions [] c of None \<Rightarrow> False | Some d \<Rightarrow> tag_rest d))"

definition validManifestLanguage :: "jsval \<Rightarrow> bool" where
  "validManifestLanguage v = (case v of
     JStr s \<Rightarrow> sizedWithin 1 63 s \<and> tag_shape s \<and> tag_parts (split_dash (List.map lower_of s))
   | _ \<Rightarrow> False)"

section \<open>Plans\<close>

definition plan_id :: "jsval \<Rightarrow> bool" where
  "plan_id v = (case v of JStr s \<Rightarrow> sizedWithin 1 256 s \<and> list_all is_word_char s | _ \<Rightarrow> False)"

definition plan_int :: "int \<Rightarrow> jsval \<Rightarrow> bool" where
  "plan_int lo v = (case v of JNum (Fin r) \<Rightarrow> isSafeInteger (Fin r) \<and> of_int lo \<le> r | _ \<Rightarrow> False)"

definition plan_text :: "jsval \<Rightarrow> bool" where
  "plan_text v = (case v of JStr s \<Rightarrow> sizedWithin 1 256 s \<and> \<not> list_ex is_control s | _ \<Rightarrow> False)"

definition codec_ok :: "int \<Rightarrow> jsval \<Rightarrow> bool" where
  "codec_ok policy v =
     (if policy = 3 then string_text v \<in> Some ` {''aac'', ''ac3'', ''eac3'', ''mp3''} else v = JStr ''aac'')"

definition channels_ok :: "int \<Rightarrow> jsval \<Rightarrow> bool" where
  "channels_ok policy v =
     (if policy = 3 then plan_int 1 v \<and> count_of v \<le> 64 else v = JNum (Fin 2))"

text \<open>\<open>/^(?:rendition|audio)-[0-9]+\.m3u8$/\<close>.\<close>

definition numbered_file :: "string \<Rightarrow> string \<Rightarrow> bool" where
  "numbered_file prefix s =
     (take (length prefix) s = prefix \<and>
      (let t = drop (length prefix) s in takeWhile is_digit t \<noteq> [] \<and> dropWhile is_digit t = ''.m3u8''))"

definition playlist_file :: "jsval \<Rightarrow> bool" where
  "playlist_file v = (case v of JStr s \<Rightarrow> numbered_file ''rendition-'' s \<or> numbered_file ''audio-'' s | _ \<Rightarrow> False)"

definition checked_rendition :: "int \<Rightarrow> jsval \<Rightarrow> audio_error + audio_rendition" where
  "checked_rendition policy v =
     and_then (require Invalid_plan (is_record v \<and> plan_id (at_key v ''id'') \<and> plan_int 0 (at_key v ''sourceStreamIndex'')
       \<and> plan_text (at_key v ''label'') \<and> codec_ok policy (at_key v ''codec'') \<and> channels_ok policy (at_key v ''channels'')
       \<and> (at_key v ''language'' \<noteq> JUndef \<longrightarrow> plan_text (at_key v ''language'')) \<and> is_record (at_key v ''manifestIdentity''))) (\<lambda>_.
     and_then (require Invalid_plan (if policy = 2
         then validManifestLanguage (at_key v ''manifestLanguage'') \<and> at_key v ''sampleRate'' = JNum (Fin 48000)
         else at_key v ''manifestLanguage'' = JUndef \<and> at_key v ''sampleRate'' = JUndef)) (\<lambda>_.
     let m = at_key v ''manifestIdentity''
     in and_then (require Invalid_plan (plan_id (at_key m ''groupId'') \<and> plan_text (at_key m ''name'') \<and> playlist_file (at_key m ''playlistFile''))) (\<lambda>_.
        Inr \<lparr>rd_id = str_of (at_key v ''id''), rd_sourceStreamIndex = count_of (at_key v ''sourceStreamIndex''),
             rd_groupId = str_of (at_key m ''groupId''), rd_name = str_of (at_key m ''name''), rd_playlistFile = str_of (at_key m ''playlistFile''),
             rd_label = str_of (at_key v ''label''), rd_language = opt_of str_of id (at_key v ''language''),
             rd_manifestLanguage = opt_of str_of id (at_key v ''manifestLanguage''),
             rd_sampleRate = opt_of (\<lambda>_. 48000) id (at_key v ''sampleRate''),
             rd_codec = at_key v ''codec'', rd_channels = count_of (at_key v ''channels''),
             rd_unavailable = (at_key v ''unavailable'' = JBool True)\<rparr>)))"

definition distinct_renditions :: "audio_rendition list \<Rightarrow> bool" where
  "distinct_renditions rs \<longleftrightarrow> distinct (List.map rd_id rs) \<and> distinct (List.map rd_sourceStreamIndex rs) \<and> distinct (List.map rd_playlistFile rs)
     \<and> distinct (List.map (\<lambda>r. rd_groupId r @ ''|'' @ rd_name r) rs)"

definition plan_version :: "jsval \<Rightarrow> int option" where
  "plan_version v = (if v = JNum (Fin 1) then Some 1 else if v = JNum (Fin 2) then Some 2 else if v = JNum (Fin 3) then Some 3 else None)"

definition validateAudioPlan :: "jsval \<Rightarrow> audio_error + audio_plan" where
  "validateAudioPlan raw =
     and_then (require Invalid_plan (is_record raw \<and> plan_version (at_key raw ''policyVersion'') \<noteq> None \<and> plan_id (at_key raw ''revision'')
       \<and> plan_id (at_key raw ''sessionId'') \<and> plan_int 1 (at_key raw ''generation'') \<and> plan_id (at_key raw ''sourceId'')
       \<and> plan_int 1 (at_key raw ''factsRevision'') \<and> plan_id (at_key raw ''defaultRenditionId'') \<and> is_array (at_key raw ''renditions'')
       \<and> 1 \<le> length (arr_of (at_key raw ''renditions'')) \<and> length (arr_of (at_key raw ''renditions'')) \<le> 16)) (\<lambda>_.
     let policy = the (plan_version (at_key raw ''policyVersion''))
     in and_then (map_result (checked_rendition policy) (arr_of (at_key raw ''renditions''))) (\<lambda>rs.
        and_then (require Invalid_plan (distinct_renditions rs
          \<and> list_ex (\<lambda>r. rd_id r = str_of (at_key raw ''defaultRenditionId'')) rs)) (\<lambda>_.
        Inr \<lparr>ap_policyVersion = policy, ap_revision = str_of (at_key raw ''revision''), ap_sessionId = str_of (at_key raw ''sessionId''),
             ap_generation = count_of (at_key raw ''generation''), ap_sourceId = str_of (at_key raw ''sourceId''),
             ap_factsRevision = count_of (at_key raw ''factsRevision''),
             ap_defaultRenditionId = str_of (at_key raw ''defaultRenditionId''), ap_renditions = rs\<rparr>)))"

section \<open>The plan of a delivery\<close>

record delivery_rendition =
  dr_ordinal :: nat
  dr_streamIndex :: int
  dr_label :: string
  dr_language :: string
  dr_codec :: string
  dr_channels :: int
  dr_default :: bool
  dr_failure :: "string option"

fun nat_text :: "nat \<Rightarrow> string" where
  "nat_text n = (if n < 10 then [char_of (48 + n)] else nat_text (n div 10) @ [char_of (48 + n mod 10)])"

declare nat_text.simps [simp del]

text \<open>\<open>!!r.failure\<close>: an empty text is no failure.\<close>

definition delivered_failure :: "delivery_rendition \<Rightarrow> bool" where
  "delivered_failure r = (case dr_failure r of None \<Rightarrow> False | Some f \<Rightarrow> f \<noteq> [])"

definition delivered_rendition :: "delivery_rendition \<Rightarrow> jsval" where
  "delivered_rendition r = JObj
     [(''id'', JStr (''audio-'' @ nat_text (dr_ordinal r))), (''unavailable'', JBool (delivered_failure r)),
      (''sourceStreamIndex'', JNum (Fin (of_int (dr_streamIndex r)))), (''label'', JStr (dr_label r)), (''language'', JStr (dr_language r)),
      (''codec'', JStr (dr_codec r)), (''channels'', JNum (Fin (of_int (max 1 (dr_channels r))))),
      (''manifestIdentity'', JObj [(''groupId'', JStr ''audio''), (''name'', JStr (dr_label r)),
         (''playlistFile'', JStr (''audio-'' @ nat_text (dr_ordinal r) @ ''.m3u8''))])]"

definition renditionPlan :: "string \<Rightarrow> nat \<Rightarrow> string \<Rightarrow> int \<Rightarrow> delivery_rendition list \<Rightarrow> audio_error + audio_plan" where
  "renditionPlan sessionId generation sourceId factsRevision rs =
     (case find dr_default rs of
        None \<Rightarrow> Inl No_default_rendition
      | Some d \<Rightarrow> validateAudioPlan (JObj
          [(''policyVersion'', JNum (Fin 3)), (''revision'', JStr (sessionId @ ''-'' @ nat_text generation)), (''sessionId'', JStr sessionId),
           (''generation'', JNum (Fin (of_nat generation))), (''sourceId'', JStr sourceId),
           (''factsRevision'', JNum (Fin (of_int (max 1 factsRevision)))),
           (''defaultRenditionId'', JStr (''audio-'' @ nat_text (dr_ordinal d))), (''renditions'', JArr (List.map delivered_rendition rs))]))"

end
