(* ===== verification/Audio_Language.thy ===== *)
theory Audio_Language
  imports Audio_Plan
begin

text \<open>
  The language check is a greedy scan; the grammar here says which lists of parts it accepts, as the
  BCP 47 production with its optional and repeated groups. No part fits two groups in a row, so the
  greedy choice is the only one.
\<close>

section \<open>The grammar\<close>

definition private_tag :: "string list \<Rightarrow> bool" where
  "private_tag ps \<longleftrightarrow> (\<exists>qs. ps = ''x'' # qs \<and> qs \<noteq> [] \<and> list_all (alnum_part 1 8) qs)"

definition extension_group :: "string list \<Rightarrow> bool" where
  "extension_group e \<longleftrightarrow> (\<exists>p qs. e = p # qs \<and> singleton_part p \<and> qs \<noteq> [] \<and> list_all (alnum_part 2 8) qs)"

definition optional_part :: "(string \<Rightarrow> bool) \<Rightarrow> string list \<Rightarrow> bool" where
  "optional_part f ps \<longleftrightarrow> ps = [] \<or> (\<exists>p. ps = [p] \<and> f p)"

definition language_tag :: "string list \<Rightarrow> bool" where
  "language_tag ps \<longleftrightarrow> private_tag ps \<or>
     (\<exists>lang ext script region vars exts priv. ps = lang # ext @ script @ region @ vars @ concat exts @ priv
        \<and> letters_part 2 8 lang
        \<and> list_all (letters_part 3 3) ext \<and> length ext \<le> (if length lang \<le> 3 then 3 else 0)
        \<and> optional_part (letters_part 4 4) script \<and> optional_part region_part region
        \<and> list_all variant_part vars \<and> distinct vars
        \<and> list_all extension_group exts \<and> distinct (map hd exts)
        \<and> (priv = [] \<or> private_tag priv))"

section \<open>The parts that can follow\<close>

lemma lower_not_digit: "is_lower c \<Longrightarrow> \<not> is_digit c"
proof -
  have "\<not> CHR ''a'' \<le> CHR ''9''" by code_simp
  then show "is_lower c \<Longrightarrow> \<not> is_digit c" unfolding is_lower_def is_digit_def using order_trans by blast
qed

lemma parts_apart:
  "length p = 1 \<Longrightarrow> \<not> variant_part p" "length p = 1 \<Longrightarrow> \<not> region_part p" "length p = 1 \<Longrightarrow> \<not> letters_part 4 4 p"
  "length p = 1 \<Longrightarrow> \<not> letters_part 3 3 p" "length p = 1 \<Longrightarrow> \<not> alnum_part 2 8 p"
  "variant_part p \<Longrightarrow> \<not> region_part p" "variant_part p \<Longrightarrow> \<not> letters_part 4 4 p" "variant_part p \<Longrightarrow> \<not> letters_part 3 3 p"
  "region_part p \<Longrightarrow> \<not> letters_part 4 4 p" "region_part p \<Longrightarrow> \<not> letters_part 3 3 p" "letters_part 4 4 p \<Longrightarrow> \<not> letters_part 3 3 p"
  by (cases p; auto simp: variant_part_def region_part_def letters_part_def alnum_part_def sizedWithin_def dest: lower_not_digit)+

definition heads :: "(string list \<Rightarrow> bool) \<Rightarrow> (string \<Rightarrow> bool) \<Rightarrow> bool" where
  "heads G f \<longleftrightarrow> (\<forall>ps. G ps \<longrightarrow> ps = [] \<or> f (hd ps))"

lemma headsD: "heads G f \<Longrightarrow> G (p # ps) \<Longrightarrow> f p"
  by (auto simp: heads_def)

text \<open>Reading an optional part, where nothing that may follow looks like it.\<close>

lemma skip_one_iff:
  assumes "heads G (\<lambda>p. \<not> f p)"
  shows "G (skip_one f ps) \<longleftrightarrow> (\<exists>r qs. ps = r @ qs \<and> optional_part f r \<and> G qs)"
proof (cases ps)
  case Nil
  then show ?thesis by (auto simp: skip_one_def optional_part_def)
next
  case (Cons p qs)
  have no: "\<not> G (p # qs)" if "f p" using headsD[OF assms] that by blast
  have "(\<exists>r rs. p # qs = r @ rs \<and> optional_part f r \<and> G rs) \<longleftrightarrow> G (p # qs) \<or> f p \<and> G qs"
    by (auto simp: optional_part_def) (metis append_Nil append_Cons)+
  then show ?thesis using no by (auto simp: Cons skip_one_def)
qed

lemma skip_extlang_iff:
  assumes "heads G (\<lambda>p. \<not> letters_part 3 3 p)"
  shows "G (skip_extlang n ps) \<longleftrightarrow> (\<exists>ext qs. ps = ext @ qs \<and> length ext \<le> n \<and> list_all (letters_part 3 3) ext \<and> G qs)"
proof (induction n ps rule: skip_extlang.induct)
  case (1 n p ps)
  show ?case
  proof (cases "letters_part 3 3 p")
    case True
    then have no: "\<not> G (p # ps)" using headsD[OF assms] by blast
    have "(\<exists>ext qs. p # ps = ext @ qs \<and> length ext \<le> Suc n \<and> list_all (letters_part 3 3) ext \<and> G qs) \<longleftrightarrow>
      (\<exists>ext qs. ps = ext @ qs \<and> length ext \<le> n \<and> list_all (letters_part 3 3) ext \<and> G qs)"
    proof
      assume "\<exists>ext qs. p # ps = ext @ qs \<and> length ext \<le> Suc n \<and> list_all (letters_part 3 3) ext \<and> G qs"
      then obtain ext qs where e: "p # ps = ext @ qs" "length ext \<le> Suc n" "list_all (letters_part 3 3) ext" "G qs" by blast
      with no obtain ext' where "ext = p # ext'" by (cases ext) auto
      then show "\<exists>ext qs. ps = ext @ qs \<and> length ext \<le> n \<and> list_all (letters_part 3 3) ext \<and> G qs" using e by auto
    next
      assume "\<exists>ext qs. ps = ext @ qs \<and> length ext \<le> n \<and> list_all (letters_part 3 3) ext \<and> G qs"
      then obtain ext qs where e: "ps = ext @ qs" "length ext \<le> n" "list_all (letters_part 3 3) ext" "G qs" by blast
      have "p # ps = (p # ext) @ qs \<and> length (p # ext) \<le> Suc n \<and> list_all (letters_part 3 3) (p # ext) \<and> G qs" using e True by simp
      then show "\<exists>ext qs. p # ps = ext @ qs \<and> length ext \<le> Suc n \<and> list_all (letters_part 3 3) ext \<and> G qs" by blast
    qed
    then show ?thesis using 1 True by simp
  next
    case False
    then have "(\<exists>ext qs. p # ps = ext @ qs \<and> length ext \<le> Suc n \<and> list_all (letters_part 3 3) ext \<and> G qs) \<longleftrightarrow> G (p # ps)"
      by (auto simp: Cons_eq_append_conv intro: exI[of _ "[]"])
    then show ?thesis using False by simp
  qed
qed auto

section \<open>The scan, group by group\<close>

definition after_extensions :: "string list \<Rightarrow> string list \<Rightarrow> bool" where
  "after_extensions seen ps \<longleftrightarrow> (\<exists>exts priv. ps = concat exts @ priv \<and> list_all extension_group exts \<and> distinct (map hd exts)
     \<and> set (map hd exts) \<inter> set seen = {} \<and> (priv = [] \<or> private_tag priv))"

lemma dropWhile_all: "list_all P qs \<Longrightarrow> ps = [] \<or> \<not> P (hd ps) \<Longrightarrow> dropWhile P (qs @ ps) = ps"
  by (induction qs) (auto simp: dropWhile_eq_self_iff)

lemma private_iff: "privateUse ps \<and> hd ps = ''x'' \<and> ps \<noteq> [] \<longleftrightarrow> private_tag ps"
proof
  assume a: "privateUse ps \<and> hd ps = ''x'' \<and> ps \<noteq> []"
  then obtain qs where ps: "ps = ''x'' # qs" by (cases ps) auto
  have "dropWhile (alnum_part 1 8) qs = []" "qs \<noteq> []" using a ps by (auto simp: privateUse_def Let_def)
  then show "private_tag ps" using ps by (auto simp: private_tag_def dropWhile_eq_Nil_conv list_all_iff)
next
  assume "private_tag ps"
  then obtain qs where ps: "ps = ''x'' # qs" "qs \<noteq> []" "list_all (alnum_part 1 8) qs" by (auto simp: private_tag_def)
  then have "dropWhile (alnum_part 1 8) qs = []" by (simp add: dropWhile_eq_Nil_conv list_all_iff)
  then show "privateUse ps \<and> hd ps = ''x'' \<and> ps \<noteq> []" using ps(1,2) by (simp only: privateUse_def Let_def list.sel) simp
qed

lemma tag_rest_iff: "tag_rest ps \<longleftrightarrow> ps = [] \<or> private_tag ps"
  using private_iff[of ps] by (auto simp: tag_rest_def)

lemma private_head: "private_tag ps \<Longrightarrow> hd ps = ''x''"
  by (auto simp: private_tag_def)

lemma after_extensions_heads: "heads (after_extensions seen) (\<lambda>p. length p = 1)"
proof -
  have "length (hd ps) = 1" if "after_extensions seen ps" "ps \<noteq> []" for ps
  proof -
    obtain exts priv where e: "ps = concat exts @ priv" "list_all extension_group exts" "priv = [] \<or> private_tag priv"
      using \<open>after_extensions seen ps\<close> by (auto simp: after_extensions_def)
    show ?thesis
    proof (cases exts)
      case Nil
      then show ?thesis using e \<open>ps \<noteq> []\<close> private_head by auto
    next
      case (Cons x xs)
      then show ?thesis using e by (auto simp: extension_group_def singleton_part_def)
    qed
  qed
  then show ?thesis by (auto simp: heads_def)
qed

lemma after_extensions_step:
  assumes "singleton_part p"
  shows "after_extensions seen (p # ps) \<longleftrightarrow> p \<notin> set seen \<and> (\<exists>qs rest'. ps = qs @ rest' \<and> qs \<noteq> [] \<and> list_all (alnum_part 2 8) qs
     \<and> after_extensions (p # seen) rest')"
proof
  assume "after_extensions seen (p # ps)"
  then obtain exts priv where e: "p # ps = concat exts @ priv" "list_all extension_group exts" "distinct (map hd exts)"
    "set (map hd exts) \<inter> set seen = {}" "priv = [] \<or> private_tag priv" by (auto simp: after_extensions_def)
  have "exts \<noteq> []" using e(1,5) assms private_head[of "p # ps"] by (auto simp: singleton_part_def)
  then obtain x xs where x: "exts = x # xs" by (cases exts) auto
  then obtain qs where q: "x = p # qs" "qs \<noteq> []" "list_all (alnum_part 2 8) qs" using e by (auto simp: extension_group_def)
  then have "after_extensions (p # seen) (concat xs @ priv)" "ps = qs @ (concat xs @ priv)" "p \<notin> set seen"
    using e x by (auto simp: after_extensions_def)
  then show "p \<notin> set seen \<and> (\<exists>qs rest'. ps = qs @ rest' \<and> qs \<noteq> [] \<and> list_all (alnum_part 2 8) qs \<and> after_extensions (p # seen) rest')"
    using q by blast
next
  assume "p \<notin> set seen \<and> (\<exists>qs rest'. ps = qs @ rest' \<and> qs \<noteq> [] \<and> list_all (alnum_part 2 8) qs \<and> after_extensions (p # seen) rest')"
  then obtain qs exts priv where e: "p \<notin> set seen" "ps = qs @ concat exts @ priv" "qs \<noteq> []" "list_all (alnum_part 2 8) qs"
    "list_all extension_group exts" "distinct (map hd exts)" "set (map hd exts) \<inter> set (p # seen) = {}" "priv = [] \<or> private_tag priv"
    by (auto simp: after_extensions_def)
  have "p # ps = concat ((p # qs) # exts) @ priv \<and> list_all extension_group ((p # qs) # exts) \<and> distinct (map hd ((p # qs) # exts))
     \<and> set (map hd ((p # qs) # exts)) \<inter> set seen = {}"
    using e assms by (auto simp: extension_group_def)
  then show "after_extensions seen (p # ps)" using e(8) unfolding after_extensions_def by blast
qed

lemma after_extensions_other: "\<not> singleton_part p \<Longrightarrow> after_extensions seen (p # ps) \<longleftrightarrow> private_tag (p # ps)"
proof
  assume s: "\<not> singleton_part p" and "after_extensions seen (p # ps)"
  then obtain exts priv where e: "p # ps = concat exts @ priv" "list_all extension_group exts" "priv = [] \<or> private_tag priv"
    by (auto simp: after_extensions_def)
  show "private_tag (p # ps)"
    using e s by (cases exts) (auto simp: extension_group_def)
next
  assume "private_tag (p # ps)"
  then show "after_extensions seen (p # ps)"
    unfolding after_extensions_def by (intro exI[of _ "[]"] exI[of _ "p # ps"]) simp
qed

lemma scan_extensions_iff:
  "(case scan_extensions seen ps of None \<Rightarrow> False | Some d \<Rightarrow> tag_rest d) \<longleftrightarrow> after_extensions seen ps"
proof (induction seen ps rule: scan_extensions.induct)
  case (1 seen)
  have "after_extensions seen []"
    unfolding after_extensions_def by (intro exI[of _ "[]"] exI[of _ "[]"]) simp
  then show ?case by (simp add: tag_rest_iff)
next
  case (2 seen p ps)
  show ?case
  proof (cases "singleton_part p \<and> p \<notin> set seen")
    case False
    then show ?thesis
      using after_extensions_step[of p seen ps] after_extensions_other[of p seen ps] by (auto simp: tag_rest_iff)
  next
    case True
    let ?r = "dropWhile (alnum_part 2 8) ps"
    have split: "ps = takeWhile (alnum_part 2 8) ps @ ?r" by simp
    have unique: "rest' = ?r" if "ps = qs @ rest'" "list_all (alnum_part 2 8) qs" "after_extensions (p # seen) rest'" for qs rest'
    proof -
      have "rest' = [] \<or> \<not> alnum_part 2 8 (hd rest')"
        using after_extensions_heads[of "p # seen"] that(3) parts_apart(5) by (auto simp: heads_def)
      then show ?thesis using dropWhile_all[OF that(2)] that(1) by simp
    qed
    have "after_extensions seen (p # ps) \<longleftrightarrow> length ?r \<noteq> length ps \<and> after_extensions (p # seen) ?r"
    proof
      assume "after_extensions seen (p # ps)"
      then obtain qs rest' where r: "ps = qs @ rest'" "qs \<noteq> []" "list_all (alnum_part 2 8) qs" "after_extensions (p # seen) rest'"
        using after_extensions_step True by blast
      have "length rest' < length ps" using r(1,2) by simp
      then show "length ?r \<noteq> length ps \<and> after_extensions (p # seen) ?r" using unique[OF r(1,3,4)] r(4) by simp
    next
      assume a: "length ?r \<noteq> length ps \<and> after_extensions (p # seen) ?r"
      have "takeWhile (alnum_part 2 8) ps \<noteq> []" using a by (metis append_Nil split)
      moreover have "list_all (alnum_part 2 8) (takeWhile (alnum_part 2 8) ps)" by (auto simp: list_all_iff dest: set_takeWhileD)
      ultimately show "after_extensions seen (p # ps)" using after_extensions_step True a split by metis
    qed
    then show ?thesis using 2 True by (auto simp: Let_def)
  qed
qed

definition after_variants :: "string list \<Rightarrow> string list \<Rightarrow> bool" where
  "after_variants seen ps \<longleftrightarrow> (\<exists>vars qs. ps = vars @ qs \<and> list_all variant_part vars \<and> distinct vars \<and> set vars \<inter> set seen = {}
     \<and> after_extensions [] qs)"

definition scanned :: "string list option \<Rightarrow> bool" where
  "scanned r = (case r of None \<Rightarrow> False | Some c \<Rightarrow> (case scan_extensions [] c of None \<Rightarrow> False | Some d \<Rightarrow> tag_rest d))"

lemma after_variants_heads: "heads (after_variants seen) (\<lambda>p. length p = 1 \<or> variant_part p)"
proof -
  have "length (hd ps) = 1 \<or> variant_part (hd ps)" if v: "after_variants seen ps" "ps \<noteq> []" for ps
  proof -
    obtain vars qs where e: "ps = vars @ qs" "list_all variant_part vars" "after_extensions [] qs" using v(1) by (auto simp: after_variants_def)
    then show ?thesis using after_extensions_heads[of "[]"] v(2) by (cases vars) (auto simp: heads_def)
  qed
  then show ?thesis by (auto simp: heads_def)
qed

lemma after_variants_step:
  assumes "variant_part p"
  shows "after_variants seen (p # ps) \<longleftrightarrow> p \<notin> set seen \<and> after_variants (p # seen) ps"
proof
  assume "after_variants seen (p # ps)"
  then obtain vars qs where e: "p # ps = vars @ qs" "list_all variant_part vars" "distinct vars" "set vars \<inter> set seen = {}" "after_extensions [] qs"
    by (auto simp: after_variants_def)
  have "vars \<noteq> []" using e(1,5) assms headsD[OF after_extensions_heads] parts_apart(1) by (cases vars) auto
  then obtain vs where "vars = p # vs" using e(1) by (cases vars) auto
  then show "p \<notin> set seen \<and> after_variants (p # seen) ps" using e by (auto simp: after_variants_def)
next
  assume a: "p \<notin> set seen \<and> after_variants (p # seen) ps"
  then obtain vars qs where e: "ps = vars @ qs" "list_all variant_part vars" "distinct vars" "set vars \<inter> set (p # seen) = {}" "after_extensions [] qs"
    by (auto simp: after_variants_def)
  have "p # ps = (p # vars) @ qs \<and> list_all variant_part (p # vars) \<and> distinct (p # vars) \<and> set (p # vars) \<inter> set seen = {}"
    using e a assms by auto
  then show "after_variants seen (p # ps)" using e(5) unfolding after_variants_def by blast
qed

lemma after_variants_other: "\<not> variant_part p \<Longrightarrow> after_variants seen (p # ps) \<longleftrightarrow> after_extensions [] (p # ps)"
proof
  assume v: "\<not> variant_part p" and "after_variants seen (p # ps)"
  then obtain vars qs where "p # ps = vars @ qs" "list_all variant_part vars" "after_extensions [] qs" by (auto simp: after_variants_def)
  then show "after_extensions [] (p # ps)" using v by (cases vars) auto
next
  assume "after_extensions [] (p # ps)"
  then show "after_variants seen (p # ps)"
    unfolding after_variants_def by (intro exI[of _ "[]"] exI[of _ "p # ps"]) simp
qed

lemma scan_variants_iff: "scanned (scan_variants seen ps) \<longleftrightarrow> after_variants seen ps"
proof (induction seen ps rule: scan_variants.induct)
  case (1 seen)
  then show ?case using scan_extensions_iff[of "[]" "[]"] by (simp add: scanned_def after_variants_def)
next
  case (2 seen p ps)
  then show ?case
    using after_variants_step[of p seen ps] after_variants_other[of p seen ps] scan_extensions_iff[of "[]" "p # ps"]
    by (auto simp: scanned_def)
qed

section \<open>The whole tag\<close>

definition after_region :: "string list \<Rightarrow> bool" where
  "after_region ps \<longleftrightarrow> (\<exists>r qs. ps = r @ qs \<and> optional_part region_part r \<and> after_variants [] qs)"

definition after_script :: "string list \<Rightarrow> bool" where
  "after_script ps \<longleftrightarrow> (\<exists>r qs. ps = r @ qs \<and> optional_part (letters_part 4 4) r \<and> after_region qs)"

lemma optional_heads:
  assumes "heads G f" "\<And>ps. H ps \<longleftrightarrow> (\<exists>r qs. ps = r @ qs \<and> optional_part g r \<and> G qs)"
  shows "heads H (\<lambda>p. g p \<or> f p)"
  using assms(1) unfolding heads_def assms(2) optional_part_def by fastforce

lemma heads_mono: "heads G f \<Longrightarrow> (\<And>p. f p \<Longrightarrow> g p) \<Longrightarrow> heads G g"
  by (auto simp: heads_def)

lemma after_region_heads: "heads after_region (\<lambda>p. region_part p \<or> length p = 1 \<or> variant_part p)"
  by (rule optional_heads[OF after_variants_heads[of "[]"] after_region_def])

lemma after_script_heads: "heads after_script (\<lambda>p. letters_part 4 4 p \<or> region_part p \<or> length p = 1 \<or> variant_part p)"
  by (rule optional_heads[OF after_region_heads after_script_def])

lemma script_iff:
  "after_script ps \<longleftrightarrow> after_variants [] (skip_one region_part (skip_one (letters_part 4 4) ps))"
proof -
  have "heads (after_variants []) (\<lambda>p. \<not> region_part p)"
    by (rule heads_mono[OF after_variants_heads]) (use parts_apart in blast)
  note region = skip_one_iff[OF this]
  have "heads after_region (\<lambda>p. \<not> letters_part 4 4 p)"
    by (rule heads_mono[OF after_region_heads]) (use parts_apart in blast)
  note script = skip_one_iff[OF this]
  show ?thesis unfolding after_script_def script[symmetric] unfolding after_region_def region[symmetric] by simp
qed

lemma extlang_iff:
  "after_script (skip_extlang n ps) \<longleftrightarrow> (\<exists>ext qs. ps = ext @ qs \<and> length ext \<le> n \<and> list_all (letters_part 3 3) ext \<and> after_script qs)"
  by (rule skip_extlang_iff, rule heads_mono[OF after_script_heads]) (use parts_apart in blast)

lemma after_script_unfold:
  "after_script qs \<longleftrightarrow> (\<exists>script region vars exts priv. qs = script @ region @ vars @ concat exts @ priv
     \<and> optional_part (letters_part 4 4) script \<and> optional_part region_part region \<and> list_all variant_part vars \<and> distinct vars
     \<and> list_all extension_group exts \<and> distinct (map hd exts) \<and> (priv = [] \<or> private_tag priv))"
  unfolding after_script_def after_region_def after_variants_def after_extensions_def by (simp add: ex_simps[symmetric] del: ex_simps)

lemma language_tag_groups:
  "language_tag (lang # qs) \<longleftrightarrow> private_tag (lang # qs) \<or> letters_part 2 8 lang \<and>
     (\<exists>ext rs. qs = ext @ rs \<and> length ext \<le> (if length lang \<le> 3 then 3 else 0) \<and> list_all (letters_part 3 3) ext \<and> after_script rs)"
  (is "_ \<longleftrightarrow> _ \<or> ?R")
proof
  assume "language_tag (lang # qs)"
  then consider "private_tag (lang # qs)" | l ext script region vars exts priv where
    "lang # qs = l # ext @ script @ region @ vars @ concat exts @ priv" "letters_part 2 8 l" "list_all (letters_part 3 3) ext"
    "length ext \<le> (if length l \<le> 3 then 3 else 0)" "optional_part (letters_part 4 4) script" "optional_part region_part region"
    "list_all variant_part vars" "distinct vars" "list_all extension_group exts" "distinct (map hd exts)" "priv = [] \<or> private_tag priv"
    unfolding language_tag_def by - (erule disjE, blast, (erule exE)+, (erule conjE)+, blast)
  then show "private_tag (lang # qs) \<or> ?R"
  proof cases
    case 2
    have "after_script (script @ region @ vars @ concat exts @ priv)" unfolding after_script_unfold
      by (rule exI[of _ script], rule exI[of _ region], rule exI[of _ vars], rule exI[of _ exts], rule exI[of _ priv]) (use 2 in simp)
    moreover have "lang = l" "qs = ext @ (script @ region @ vars @ concat exts @ priv)" using 2(1) by simp_all
    ultimately have ?R using 2(2-4) by blast
    then show ?thesis ..
  qed blast
next
  assume "private_tag (lang # qs) \<or> ?R"
  then show "language_tag (lang # qs)"
  proof
    assume ?R
    then obtain ext rs where e: "letters_part 2 8 lang" "qs = ext @ rs" "length ext \<le> (if length lang \<le> 3 then 3 else 0)"
      "list_all (letters_part 3 3) ext" "after_script rs" by blast
    then obtain script region vars exts priv where r: "rs = script @ region @ vars @ concat exts @ priv"
      "optional_part (letters_part 4 4) script" "optional_part region_part region" "list_all variant_part vars" "distinct vars"
      "list_all extension_group exts" "distinct (map hd exts)" "priv = [] \<or> private_tag priv"
      unfolding after_script_unfold by blast
    show "language_tag (lang # qs)" unfolding language_tag_def
      by (rule disjI2, rule exI[of _ lang], rule exI[of _ ext], rule exI[of _ script], rule exI[of _ region], rule exI[of _ vars],
          rule exI[of _ exts], rule exI[of _ priv]) (use e r in simp)
  qed (simp add: language_tag_def)
qed

lemma tag_parts_iff:
  assumes "ps \<noteq> []"
  shows "tag_parts ps \<longleftrightarrow> language_tag ps"
proof -
  obtain lang qs where ps: "ps = lang # qs" using assms by (cases ps) auto
  show ?thesis
  proof (cases "lang = ''x''")
    case True
    have "\<not> letters_part 2 8 ''x''" by (simp add: letters_part_def sizedWithin_def)
    then show ?thesis using private_iff[of ps] ps True by (auto simp: tag_parts_def language_tag_def)
  next
    case False
    have np: "\<not> private_tag ps" using False ps by (auto simp: private_tag_def)
    let ?n = "if length lang \<le> 3 then 3 else 0"
    have skip: "(if length lang \<le> 3 then skip_extlang 3 qs else qs) = skip_extlang ?n qs" by simp
    have "tag_parts ps \<longleftrightarrow> letters_part 2 8 lang \<and> after_script (skip_extlang ?n qs)"
      using False unfolding ps tag_parts_def script_iff scan_variants_iff[symmetric] scanned_def Let_def by (simp add: skip)
    also have "\<dots> \<longleftrightarrow> language_tag ps"
      using np language_tag_groups[of lang qs] by (simp only: ps extlang_iff simp_thms)
    finally show ?thesis .
  qed
qed

lemma split_dash_nonempty [simp]: "split_dash s \<noteq> []"
  by (induction s) (auto split: list.split)

end
