(* ===== verification/Audio_Selection.thy ===== *)
theory Audio_Selection
  imports Audio_Plan
begin

text \<open>
  The audio selection of a playback (\<open>AudioSelection\<close> in \<open>audio-selection.ts\<close>): a plan is installed for the
  session that is playing, a player is attached and maps its tracks, the viewer selects a rendition, and the
  change is pending until the player confirms it, refuses it or the timer runs out. \<open>current()\<close>, the
  session as it is at the call, is an argument of every operation; published states are recorded. The ellipsis of
  the loading text is three dots here.
\<close>

section \<open>State\<close>

record audio_binding =
  bn_intentId :: int
  bn_sessionId :: string
  bn_generation :: int
  bn_sourceId :: string
  bn_planRevision :: string

datatype audio_availability = Audio_loading | Audio_available | Audio_unavailable

record pending_change =
  pc_revision :: nat
  pc_renditionId :: string

record failed_change =
  fc_revision :: nat
  fc_renditionId :: string
  fc_reason :: string
  fc_unavailable :: bool

record audio_snapshot =
  as_binding :: "audio_binding option"
  as_plan :: "audio_plan option"
  as_availability :: audio_availability
  as_reason :: string
  as_observed :: "string option"
  as_revision :: nat
  as_pending :: "pending_change option"
  as_unavailableIds :: "string list option"
  as_failed :: "failed_change option"

definition emptyAudio :: audio_snapshot where
  "emptyAudio = \<lparr>as_binding = None, as_plan = None, as_availability = Audio_unavailable,
     as_reason = ''Audio selection is not available for this playback.'', as_observed = None, as_revision = 0,
     as_pending = None, as_unavailableIds = None, as_failed = None\<rparr>"

record live_session =
  lv_id :: string
  lv_generation :: int
  lv_mode :: string

text \<open>What \<open>current()\<close> returns.\<close>

record audio_current =
  cu_intentId :: int
  cu_phase :: string
  cu_session :: "live_session option"

text \<open>A timer, set for \<open>tm_delayMs\<close>; one that has fired stays in the field until it is cleared.\<close>

record audio_timer =
  tm_binding :: audio_binding
  tm_epoch :: nat
  tm_revision :: nat
  tm_delayMs :: rat
  tm_live :: bool

record audio_selection =
  au_state :: audio_snapshot
  au_epoch :: nat
  au_sequence :: int
  au_timer :: "audio_timer option"
  au_timeoutMs :: rat
  au_published :: "audio_snapshot list"

definition new_audio_selection :: "js_num \<Rightarrow> audio_error + audio_selection" where
  "new_audio_selection timeoutMs = (case timeoutMs of
     Fin t \<Rightarrow> and_then (require Invalid_timeout (\<not> t < 1 \<and> \<not> t > 60000)) (\<lambda>_.
       Inr \<lparr>au_state = emptyAudio, au_epoch = 0, au_sequence = 0, au_timer = None, au_timeoutMs = t, au_published = []\<rparr>)
   | _ \<Rightarrow> Inl Invalid_timeout)"

section \<open>Private steps\<close>

definition au_update :: "(audio_snapshot \<Rightarrow> audio_snapshot) \<Rightarrow> audio_selection \<Rightarrow> audio_selection" where
  "au_update f s = s\<lparr>au_state := f (au_state s), au_published := au_published s @ [f (au_state s)]\<rparr>"

definition au_clear :: "audio_selection \<Rightarrow> audio_selection" where
  "au_clear s = s\<lparr>au_timer := None\<rparr>"

definition au_reset :: "audio_selection \<Rightarrow> audio_selection" where
  "au_reset s = (au_clear s)\<lparr>au_epoch := au_epoch s + 1, au_sequence := 0, au_state := emptyAudio\<rparr>"

definition phase_live :: "audio_current \<Rightarrow> bool" where
  "phase_live c \<longleftrightarrow> cu_phase c = ''starting'' \<or> cu_phase c = ''ready''"

definition session_is :: "audio_current \<Rightarrow> string \<Rightarrow> int \<Rightarrow> bool" where
  "session_is c sid gen = (case cu_session c of None \<Rightarrow> False | Some l \<Rightarrow> lv_id l = sid \<and> lv_generation l = gen)"

definition au_valid :: "audio_current \<Rightarrow> audio_binding \<Rightarrow> nat option \<Rightarrow> audio_selection \<Rightarrow> bool" where
  "au_valid c b epoch s \<longleftrightarrow>
     cu_intentId c = bn_intentId b \<and> session_is c (bn_sessionId b) (bn_generation b) \<and> phase_live c
     \<and> as_binding (au_state s) = Some b
     \<and> (case epoch of None \<Rightarrow> True | Some e \<Rightarrow> e = au_epoch s)"

definition plan_renditions :: "audio_selection \<Rightarrow> audio_rendition list" where
  "plan_renditions s = (case as_plan (au_state s) of None \<Rightarrow> [] | Some p \<Rightarrow> ap_renditions p)"

definition has_rendition :: "audio_selection \<Rightarrow> string \<Rightarrow> bool" where
  "has_rendition s i \<longleftrightarrow> list_ex (\<lambda>r. rd_id r = i) (plan_renditions s)"

definition unavailable_ids :: "audio_snapshot \<Rightarrow> string list" where
  "unavailable_ids st = (case as_unavailableIds st of None \<Rightarrow> [] | Some ids \<Rightarrow> ids)"

section \<open>Operations\<close>

text \<open>Two validated plans have the same JSON text when they are equal.\<close>

definition install :: "audio_current \<Rightarrow> int \<Rightarrow> jsval \<Rightarrow> audio_selection \<Rightarrow> audio_selection \<times> bool" where
  "install c intentId raw s =
     (case validateAudioPlan raw of
        Inl _ \<Rightarrow> (s, False)
      | Inr plan \<Rightarrow>
          if cu_intentId c \<noteq> intentId \<or> \<not> session_is c (ap_sessionId plan) (ap_generation plan)
             \<or> (case cu_session c of None \<Rightarrow> True | Some l \<Rightarrow> lv_mode l \<noteq> ''hls'') \<or> \<not> phase_live c
          then (s, False)
          else let b = \<lparr>bn_intentId = intentId, bn_sessionId = ap_sessionId plan, bn_generation = ap_generation plan,
                        bn_sourceId = ap_sourceId plan, bn_planRevision = ap_revision plan\<rparr>
               in if as_binding (au_state s) \<noteq> None then (s, au_valid c b None s \<and> as_plan (au_state s) = Some plan)
                  else (au_update (\<lambda>st. st\<lparr>as_binding := Some b, as_plan := Some plan, as_availability := Audio_loading,
                          as_reason := ''Checking available audio...''\<rparr>) (au_reset s), True))"

definition audio_invalidate :: "audio_current \<Rightarrow> int \<Rightarrow> string \<Rightarrow> audio_selection \<Rightarrow> audio_selection" where
  "audio_invalidate c intentId reason s =
     (if cu_intentId c \<noteq> intentId then s
      else au_update (\<lambda>st. st\<lparr>as_availability := Audio_unavailable, as_reason := reason\<rparr>) (au_reset s))"

definition audio_unavailable :: "audio_current \<Rightarrow> int \<Rightarrow> string \<Rightarrow> audio_selection \<Rightarrow> audio_selection" where
  "audio_unavailable c intentId reason s =
     (if cu_intentId c \<noteq> intentId \<or> as_plan (au_state s) \<noteq> None then s
      else au_update (\<lambda>st. st\<lparr>as_availability := Audio_unavailable, as_reason := reason\<rparr>) (au_reset s))"

definition next_epoch :: "audio_selection \<Rightarrow> audio_selection" where
  "next_epoch s = (au_clear s)\<lparr>au_epoch := au_epoch s + 1, au_sequence := 0\<rparr>"

definition attach :: "audio_current \<Rightarrow> audio_binding \<Rightarrow> audio_selection \<Rightarrow> audio_selection \<times> nat option" where
  "attach c b s =
     (if \<not> au_valid c b None s then (s, None)
      else (au_update (\<lambda>st. st\<lparr>as_availability := Audio_loading, as_observed := None, as_pending := None, as_failed := None\<rparr>) (next_epoch s),
            Some (au_epoch s + 1)))"

definition detach :: "audio_current \<Rightarrow> audio_binding \<Rightarrow> nat \<Rightarrow> audio_selection \<Rightarrow> audio_selection" where
  "detach c b epoch s =
     (if \<not> au_valid c b (Some epoch) s then s
      else au_update (\<lambda>st. st\<lparr>as_availability := Audio_loading, as_reason := ''Checking available audio...'', as_observed := None,
             as_pending := None, as_failed := None\<rparr>) (next_epoch s))"

definition mapped :: "audio_current \<Rightarrow> audio_binding \<Rightarrow> nat \<Rightarrow> string list \<Rightarrow> audio_selection \<Rightarrow> audio_selection \<times> bool" where
  "mapped c b epoch ids s =
     (if \<not> au_valid c b (Some epoch) s then (s, False)
      else let expected = List.map rd_id (plan_renditions s)
           in if length ids \<noteq> length expected \<or> length (remdups ids) \<noteq> length ids \<or> list_ex (\<lambda>i. i \<notin> set expected) ids
              then (au_update (\<lambda>st. st\<lparr>as_availability := Audio_unavailable,
                      as_reason := ''This player could not identify these audio tracks.'', as_pending := None, as_observed := None\<rparr>) (au_clear s), False)
              else (if as_availability (au_state s) \<noteq> Audio_available
                    then au_update (\<lambda>st. st\<lparr>as_availability := Audio_available, as_reason := []\<rparr>) s else s, True))"

definition audio_select :: "audio_current \<Rightarrow> string \<Rightarrow> audio_selection \<Rightarrow> audio_selection \<times> bool" where
  "audio_select c i s =
     (case as_binding (au_state s) of
        None \<Rightarrow> (s, False)
      | Some b \<Rightarrow>
          if \<not> au_valid c b None s \<or> as_availability (au_state s) \<noteq> Audio_available \<or> i \<in> set (unavailable_ids (au_state s))
             \<or> \<not> list_ex (\<lambda>r. rd_id r = i \<and> \<not> rd_unavailable r) (plan_renditions s)
          then (s, False)
          else if map_option pc_renditionId (as_pending (au_state s)) = Some i then (s, True)
          else let revision = as_revision (au_state s) + 1;
                   s1 = (au_clear s)\<lparr>au_timer := Some \<lparr>tm_binding = b, tm_epoch = au_epoch s, tm_revision = revision, tm_delayMs = au_timeoutMs s, tm_live = True\<rparr>\<rparr>
               in (au_update (\<lambda>st. st\<lparr>as_revision := revision, as_pending := Some \<lparr>pc_revision = revision, pc_renditionId = i\<rparr>, as_failed := None\<rparr>) s1, True))"

definition observed :: "audio_current \<Rightarrow> audio_binding \<Rightarrow> nat \<Rightarrow> js_num \<Rightarrow> string option \<Rightarrow> audio_selection \<Rightarrow> audio_selection \<times> bool" where
  "observed c b epoch seq i s =
     (case seq of
        Fin q \<Rightarrow>
          if \<not> au_valid c b (Some epoch) s \<or> \<not> isSafeInteger (Fin q) \<or> q \<le> of_int (au_sequence s)
             \<or> (case i of None \<Rightarrow> False | Some i \<Rightarrow> \<not> has_rendition s i)
          then (s, False)
          else let s1 = s\<lparr>au_sequence := \<lfloor>q\<rfloor>\<rparr>
               in (if as_observed (au_state s) \<noteq> i then au_update (\<lambda>st. st\<lparr>as_observed := i\<rparr>) s1 else s1, True)
      | _ \<Rightarrow> (s, False))"

definition applied :: "audio_current \<Rightarrow> audio_binding \<Rightarrow> nat \<Rightarrow> nat \<Rightarrow> string \<Rightarrow> audio_selection \<Rightarrow> audio_selection \<times> bool" where
  "applied c b epoch revision i s =
     (if \<not> au_valid c b (Some epoch) s \<or> as_pending (au_state s) \<noteq> Some \<lparr>pc_revision = revision, pc_renditionId = i\<rparr>
         \<or> as_observed (au_state s) \<noteq> Some i
      then (s, False)
      else (au_update (\<lambda>st. st\<lparr>as_pending := None, as_failed := None\<rparr>) (au_clear s), True))"

definition safe_reason :: "string \<Rightarrow> string" where
  "safe_reason reason =
     (if length reason \<le> 256 \<and> \<not> list_ex is_control reason then reason
      else ''The audio change could not be confirmed. Try again.'')"

definition add_unavailable :: "string \<Rightarrow> audio_snapshot \<Rightarrow> audio_snapshot" where
  "add_unavailable i st = st\<lparr>as_unavailableIds := Some (set_add i (unavailable_ids st))\<rparr>"

definition audio_failed :: "audio_current \<Rightarrow> audio_binding \<Rightarrow> nat \<Rightarrow> nat \<Rightarrow> string \<Rightarrow> bool \<Rightarrow> audio_selection \<Rightarrow> audio_selection \<times> bool" where
  "audio_failed c b epoch revision reason unavailable s =
     (case as_pending (au_state s) of
        None \<Rightarrow> (s, False)
      | Some p \<Rightarrow>
          if \<not> au_valid c b (Some epoch) s \<or> pc_revision p \<noteq> revision then (s, False)
          else (au_update (\<lambda>st. (if unavailable then add_unavailable (pc_renditionId p) st else st)
                  \<lparr>as_failed := Some \<lparr>fc_revision = pc_revision p, fc_renditionId = pc_renditionId p, fc_reason = safe_reason reason,
                     fc_unavailable = unavailable\<rparr>, as_pending := None\<rparr>) (au_clear s), True))"

definition renditionUnavailable :: "audio_current \<Rightarrow> audio_binding \<Rightarrow> nat \<Rightarrow> string \<Rightarrow> audio_selection \<Rightarrow> audio_selection \<times> bool" where
  "renditionUnavailable c b epoch i s =
     (if \<not> au_valid c b (Some epoch) s \<or> \<not> has_rendition s i then (s, False)
      else case as_pending (au_state s) of
        Some p \<Rightarrow> if pc_renditionId p = i then audio_failed c b epoch (pc_revision p) ''This audio track is unavailable.'' True s
                  else (au_update (add_unavailable i) s, True)
      | None \<Rightarrow> (au_update (add_unavailable i) s, True))"

text \<open>The timer set by \<open>audio_select\<close> fires.\<close>

definition timeout_reason :: string where
  "timeout_reason = ''The player did not confirm the audio change in time. Try again.''"

definition timer_fires :: "audio_current \<Rightarrow> audio_selection \<Rightarrow> audio_selection" where
  "timer_fires c s =
     (case au_timer s of
        None \<Rightarrow> s
      | Some t \<Rightarrow>
          if tm_live t
          then fst (audio_failed c (tm_binding t) (tm_epoch t) (tm_revision t) timeout_reason False (s\<lparr>au_timer := Some (t\<lparr>tm_live := False\<rparr>)\<rparr>))
          else s)"

section \<open>Runs\<close>

text \<open>Any operation, at any time, whatever session is current then.\<close>

datatype audio_event =
  Audio_resets
| Plan_installed audio_current int jsval
| Plan_invalidated audio_current int string
| Plan_unavailable audio_current int string
| Player_attached audio_current audio_binding
| Player_detached audio_current audio_binding nat
| Tracks_mapped audio_current audio_binding nat "string list"
| Viewer_selects audio_current string
| Track_observed audio_current audio_binding nat js_num "string option"
| Change_applied audio_current audio_binding nat nat string
| Track_unavailable audio_current audio_binding nat string
| Change_failed audio_current audio_binding nat nat string bool
| Deadline_passes audio_current

fun audio_do :: "audio_event \<Rightarrow> audio_selection \<Rightarrow> audio_selection" where
  "audio_do Audio_resets s = au_reset s"
| "audio_do (Plan_installed c intent raw) s = fst (install c intent raw s)"
| "audio_do (Plan_invalidated c intent reason) s = audio_invalidate c intent reason s"
| "audio_do (Plan_unavailable c intent reason) s = audio_unavailable c intent reason s"
| "audio_do (Player_attached c b) s = fst (attach c b s)"
| "audio_do (Player_detached c b e) s = detach c b e s"
| "audio_do (Tracks_mapped c b e ids) s = fst (mapped c b e ids s)"
| "audio_do (Viewer_selects c i) s = fst (audio_select c i s)"
| "audio_do (Track_observed c b e q i) s = fst (observed c b e q i s)"
| "audio_do (Change_applied c b e rv i) s = fst (applied c b e rv i s)"
| "audio_do (Track_unavailable c b e i) s = fst (renditionUnavailable c b e i s)"
| "audio_do (Change_failed c b e rv reason u) s = fst (audio_failed c b e rv reason u s)"
| "audio_do (Deadline_passes c) s = timer_fires c s"

definition audio_run :: "audio_event list \<Rightarrow> audio_selection \<Rightarrow> audio_selection" where
  "audio_run events s = fold audio_do events s"

text \<open>
  The one way a timer is spent without effect: it fires while the session that is current is not the one the
  change is for. Whether that happened to the request \<open>r\<close> in a run.
\<close>

definition fires_in_vain :: "nat \<Rightarrow> audio_event \<Rightarrow> audio_selection \<Rightarrow> bool" where
  "fires_in_vain r e s =
     (case (e, au_timer s) of
        (Deadline_passes c, Some t) \<Rightarrow> tm_live t \<and> tm_revision t = r \<and> \<not> au_valid c (tm_binding t) (Some (tm_epoch t)) s
      | _ \<Rightarrow> False)"

fun fired_in_vain :: "nat \<Rightarrow> audio_event list \<Rightarrow> audio_selection \<Rightarrow> bool" where
  "fired_in_vain r [] s = False"
| "fired_in_vain r (e # events) s = (fires_in_vain r e s \<or> fired_in_vain r events (audio_do e s))"

end
