(* ===== verification/Audio_Properties.thy ===== *)
theory Audio_Properties
  imports Audio_Selection Audio_Language
begin

text \<open>
  What the checks of a plan accept, and the invariant of the audio selection: a pending change is always the
  newest request, for a rendition the viewer may have, and has a deadline that is armed, or has fired after
  the session was replaced.
\<close>

section \<open>Accepted plans\<close>

definition rendition_wf :: "int \<Rightarrow> audio_rendition \<Rightarrow> bool" where
  "rendition_wf policy r \<longleftrightarrow> sizedWithin 1 256 (rd_id r) \<and> list_all is_word_char (rd_id r) \<and> 0 \<le> rd_sourceStreamIndex r
     \<and> sizedWithin 1 256 (rd_label r) \<and> 1 \<le> rd_channels r \<and> rd_channels r \<le> 64
     \<and> string_text (rd_codec r) \<in> Some ` {''aac'', ''ac3'', ''eac3'', ''mp3''}
     \<and> (policy \<noteq> 3 \<longrightarrow> rd_codec r = JStr ''aac'' \<and> rd_channels r = 2)
     \<and> (if policy = 2 then (\<exists>l. rd_manifestLanguage r = Some l \<and> validManifestLanguage (JStr l)) \<and> rd_sampleRate r = Some 48000
        else rd_manifestLanguage r = None \<and> rd_sampleRate r = None)
     \<and> (numbered_file ''rendition-'' (rd_playlistFile r) \<or> numbered_file ''audio-'' (rd_playlistFile r))"

definition plan_wf :: "audio_plan \<Rightarrow> bool" where
  "plan_wf p \<longleftrightarrow> ap_policyVersion p \<in> {1, 2, 3} \<and> 1 \<le> ap_generation p \<and> 1 \<le> ap_factsRevision p
     \<and> 1 \<le> length (ap_renditions p) \<and> length (ap_renditions p) \<le> 16
     \<and> distinct (List.map rd_id (ap_renditions p)) \<and> distinct (List.map rd_sourceStreamIndex (ap_renditions p))
     \<and> distinct (List.map rd_playlistFile (ap_renditions p))
     \<and> distinct (List.map (\<lambda>r. (rd_groupId r, rd_name r)) (ap_renditions p))
     \<and> ap_defaultRenditionId p \<in> rd_id ` set (ap_renditions p)
     \<and> list_all (rendition_wf (ap_policyVersion p)) (ap_renditions p)"

lemma plan_id_str: "plan_id v \<Longrightarrow> v = JStr (str_of v) \<and> sizedWithin 1 256 (str_of v) \<and> list_all is_word_char (str_of v)"
  by (cases v) (auto simp: plan_id_def str_of_def)

lemma plan_text_str: "plan_text v \<Longrightarrow> v = JStr (str_of v) \<and> sizedWithin 1 256 (str_of v)"
  by (cases v) (auto simp: plan_text_def str_of_def)

lemma plan_int_count: "plan_int lo v \<Longrightarrow> lo \<le> count_of v"
proof -
  assume a: "plan_int lo v"
  then obtain r where "v = JNum (Fin r)" "of_int lo \<le> r" by (auto simp: plan_int_def split: jsval.splits js_num.splits)
  then show ?thesis by (simp add: count_of_def le_floor_iff)
qed

lemma playlist_file_str: "playlist_file v \<Longrightarrow> numbered_file ''rendition-'' (str_of v) \<or> numbered_file ''audio-'' (str_of v)"
  by (cases v) (auto simp: playlist_file_def str_of_def)

lemma valid_language_str: "validManifestLanguage v \<Longrightarrow> v = JStr (str_of v)"
  by (cases v) (auto simp: validManifestLanguage_def str_of_def)

lemma codec_ok_text: "codec_ok policy v \<Longrightarrow> string_text v \<in> Some ` {''aac'', ''ac3'', ''eac3'', ''mp3''} \<and> (policy \<noteq> 3 \<longrightarrow> v = JStr ''aac'')"
  by (auto simp: codec_ok_def split: if_splits)

lemma channels_ok_count: "channels_ok policy v \<Longrightarrow> 1 \<le> count_of v \<and> count_of v \<le> 64 \<and> (policy \<noteq> 3 \<longrightarrow> count_of v = 2)"
  using plan_int_count[of 1 v] by (auto simp: channels_ok_def count_of_def split: if_splits)

lemma plan_version_known: "plan_version v \<noteq> None \<Longrightarrow> the (plan_version v) \<in> {1, 2, 3}"
  by (simp add: plan_version_def split: if_splits)

lemma checked_rendition_wf:
  assumes "checked_rendition policy v = Inr r"
  shows "rendition_wf policy r"
proof -
  let ?m = "at_key v ''manifestIdentity''"
  have c: "plan_id (at_key v ''id'')" "plan_int 0 (at_key v ''sourceStreamIndex'')" "plan_text (at_key v ''label'')"
    "codec_ok policy (at_key v ''codec'')" "channels_ok policy (at_key v ''channels'')"
    "if policy = 2 then validManifestLanguage (at_key v ''manifestLanguage'') \<and> at_key v ''sampleRate'' = JNum (Fin 48000)
     else at_key v ''manifestLanguage'' = JUndef \<and> at_key v ''sampleRate'' = JUndef"
    "plan_id (at_key ?m ''groupId'')" "playlist_file (at_key ?m ''playlistFile'')"
    "r = \<lparr>rd_id = str_of (at_key v ''id''), rd_sourceStreamIndex = count_of (at_key v ''sourceStreamIndex''),
             rd_groupId = str_of (at_key ?m ''groupId''), rd_name = str_of (at_key ?m ''name''), rd_playlistFile = str_of (at_key ?m ''playlistFile''),
             rd_label = str_of (at_key v ''label''), rd_language = opt_of str_of id (at_key v ''language''),
             rd_manifestLanguage = opt_of str_of id (at_key v ''manifestLanguage''),
             rd_sampleRate = opt_of (\<lambda>_. 48000) id (at_key v ''sampleRate''),
             rd_codec = at_key v ''codec'', rd_channels = count_of (at_key v ''channels''),
             rd_unavailable = (at_key v ''unavailable'' = JBool True)\<rparr>"
    using assms by (simp_all only: checked_rendition_def Let_def result_simps require_Inr split: if_splits) auto
  have lang: "if policy = 2 then (\<exists>l. rd_manifestLanguage r = Some l \<and> validManifestLanguage (JStr l)) \<and> rd_sampleRate r = Some 48000
        else rd_manifestLanguage r = None \<and> rd_sampleRate r = None"
  proof (cases "policy = 2")
    case True
    then have "validManifestLanguage (at_key v ''manifestLanguage'')" "at_key v ''sampleRate'' = JNum (Fin 48000)" using c(6) by simp_all
    moreover from this(1) obtain l where "at_key v ''manifestLanguage'' = JStr l" using valid_language_str by metis
    ultimately show ?thesis using True c(9) by (simp add: opt_of_def str_of_def)
  next
    case False
    then show ?thesis using c(6,9) by (simp add: opt_of_def)
  qed
  show ?thesis unfolding rendition_wf_def
    using lang plan_id_str[OF c(1)] plan_int_count[OF c(2)] plan_text_str[OF c(3)] codec_ok_text[OF c(4)] channels_ok_count[OF c(5)]
      playlist_file_str[OF c(8)] c(9) by simp
qed

text \<open>Distinct joined texts have distinct pairs.\<close>

lemma plan_pairs_distinct:
  assumes "distinct (List.map (\<lambda>r. rd_groupId r @ ''|'' @ rd_name r) rs)"
  shows "distinct (List.map (\<lambda>r. (rd_groupId r, rd_name r)) rs)"
  using assms by (auto simp: distinct_map inj_on_def)

text \<open>
  Every plan the check lets through is well formed: one to sixteen renditions with distinct ids, streams,
  playlist files and manifest identities, the default among them, and for each policy version exactly the
  codecs, channel counts, languages and sample rates it allows. Anything else is refused.
\<close>
theorem accepted_plan_wf: "case validateAudioPlan raw of Inl e \<Rightarrow> e = Invalid_plan | Inr p \<Rightarrow> plan_wf p"
proof (cases "validateAudioPlan raw")
  case (Inl e)
  have "checked_rendition policy v = Inl e' \<Longrightarrow> e' = Invalid_plan" for policy v e'
    by (auto simp: checked_rendition_def Let_def result_simps split: if_splits)
  then have m: "map_result (checked_rendition policy) vs = Inl e' \<Longrightarrow> e' = Invalid_plan" for policy vs e'
    using map_result_error by fastforce
  have "e = Invalid_plan" using Inl m by (auto simp: validateAudioPlan_def Let_def result_simps split: if_splits)
  then show ?thesis by (simp add: Inl)
next
  case (Inr p)
  let ?policy = "the (plan_version (at_key raw ''policyVersion''))"
  obtain rs where c: "plan_version (at_key raw ''policyVersion'') \<noteq> None" "plan_int 1 (at_key raw ''generation'')"
    "plan_int 1 (at_key raw ''factsRevision'')" "1 \<le> length (arr_of (at_key raw ''renditions''))" "length (arr_of (at_key raw ''renditions'')) \<le> 16"
    and rs: "map_result (checked_rendition ?policy) (arr_of (at_key raw ''renditions'')) = Inr rs" "distinct_renditions rs"
      "list_ex (\<lambda>r. rd_id r = str_of (at_key raw ''defaultRenditionId'')) rs"
    and p: "p = \<lparr>ap_policyVersion = ?policy, ap_revision = str_of (at_key raw ''revision''), ap_sessionId = str_of (at_key raw ''sessionId''),
             ap_generation = count_of (at_key raw ''generation''), ap_sourceId = str_of (at_key raw ''sourceId''),
             ap_factsRevision = count_of (at_key raw ''factsRevision''),
             ap_defaultRenditionId = str_of (at_key raw ''defaultRenditionId''), ap_renditions = rs\<rparr>"
    using Inr by (auto simp: validateAudioPlan_def Let_def result_simps split: if_splits)
  have wf: "list_all (rendition_wf ?policy) rs"
    unfolding list_all_iff
  proof
    fix r assume "r \<in> set rs"
    then obtain v where "checked_rendition ?policy v = Inr r" using map_result_in[OF rs(1)] by blast
    then show "rendition_wf ?policy r" by (rule checked_rendition_wf)
  qed
  have version: "?policy \<in> {1, 2, 3}" by (rule plan_version_known[OF c(1)])
  obtain r where r: "r \<in> set rs" "rd_id r = str_of (at_key raw ''defaultRenditionId'')" using rs(3) by (auto simp: list_ex_iff)
  have "str_of (at_key raw ''defaultRenditionId'') \<in> rd_id ` set rs" unfolding r(2)[symmetric] by (rule imageI[OF r(1)])
  then have "plan_wf p" unfolding plan_wf_def p
    using version wf map_result_length[OF rs(1)] c plan_int_count[OF c(2)] plan_int_count[OF c(3)] rs(2)
      plan_pairs_distinct[of rs] by (simp add: distinct_renditions_def)
  then show ?thesis by (simp add: Inr)
qed

text \<open>
  C37. The scan of a language tag accepts exactly the tags of the BCP 47 production: a private-use tag, or a
  language with its extlangs, an optional script and region, distinct variants, extensions with distinct
  singletons and an optional private-use part. The greedy loops lose no tag and let none through.
\<close>
theorem language_scan_is_grammar:
  "validManifestLanguage (JStr s) \<longleftrightarrow> sizedWithin 1 63 s \<and> tag_shape s \<and> language_tag (split_dash (List.map lower_of s))"
  by (simp add: validManifestLanguage_def tag_parts_iff)

section \<open>The invariant of a selection\<close>

definition pending_backed :: "audio_selection \<Rightarrow> pending_change \<Rightarrow> bool" where
  "pending_backed s p \<longleftrightarrow> as_availability (au_state s) = Audio_available \<and> pc_revision p = as_revision (au_state s)
     \<and> pc_renditionId p \<notin> set (unavailable_ids (au_state s))
     \<and> list_ex (\<lambda>r. rd_id r = pc_renditionId p \<and> \<not> rd_unavailable r) (plan_renditions s) \<and> as_failed (au_state s) = None
     \<and> (case (as_binding (au_state s), au_timer s) of
          (Some b, Some t) \<Rightarrow> tm_binding t = b \<and> tm_epoch t = au_epoch s \<and> tm_revision t = pc_revision p
        | _ \<Rightarrow> False)"

definition au_ok :: "audio_selection \<Rightarrow> bool" where
  "au_ok s \<longleftrightarrow> (as_binding (au_state s) = None) = (as_plan (au_state s) = None)
     \<and> (case as_pending (au_state s) of None \<Rightarrow> au_timer s = None | Some p \<Rightarrow> pending_backed s p)
     \<and> (case as_observed (au_state s) of None \<Rightarrow> True | Some i \<Rightarrow> has_rendition s i)"

lemma has_rendition_plan: "as_plan (au_state t) = as_plan (au_state s) \<Longrightarrow> has_rendition t i = has_rendition s i"
  by (simp add: has_rendition_def plan_renditions_def)

lemmas au_defs = au_ok_def pending_backed_def au_update_def au_clear_def next_epoch_def has_rendition_def plan_renditions_def

lemma au_reset_ok: "au_ok (au_reset s)"
  by (simp add: au_reset_def au_defs emptyAudio_def)

lemma reset_update_ok:
  "au_ok (au_update (\<lambda>st. st\<lparr>as_availability := a, as_reason := r\<rparr>) (au_reset s))"
  by (simp add: au_reset_def au_defs emptyAudio_def)

lemma install_ok: "au_ok s \<Longrightarrow> au_ok (fst (install c i raw s))"
  unfolding install_def
  by (simp add: Let_def split: sum.split) (simp add: au_reset_def au_defs emptyAudio_def)

lemma attach_ok: "au_ok s \<Longrightarrow> au_ok (fst (attach c b s))"
  by (cases "au_valid c b None s") (simp_all add: attach_def au_defs)

lemma detach_ok: "au_ok s \<Longrightarrow> au_ok (detach c b e s)"
  by (cases "au_valid c b (Some e) s") (simp_all add: detach_def au_defs)

lemma mapped_ok: "au_ok s \<Longrightarrow> au_ok (fst (mapped c b e ids s))"
proof -
  assume ok: "au_ok s"
  have "au_ok (au_update (\<lambda>st. st\<lparr>as_availability := Audio_unavailable, as_reason := r, as_pending := None, as_observed := None\<rparr>) (au_clear s))" for r
    using ok by (simp add: au_defs)
  moreover have "au_ok (au_update (\<lambda>st. st\<lparr>as_availability := Audio_available, as_reason := r\<rparr>) s)"
    if "as_availability (au_state s) \<noteq> Audio_available" for r
    using ok that by (cases "as_pending (au_state s)") (auto simp: au_defs split: option.splits)
  ultimately show ?thesis using ok by (simp add: mapped_def Let_def)
qed

lemma audio_select_ok: "au_ok s \<Longrightarrow> au_ok (fst (audio_select c i s))"
proof (cases "as_binding (au_state s)")
  case (Some b)
  assume ok: "au_ok s"
  have "au_ok (au_update (\<lambda>st. st\<lparr>as_revision := n, as_pending := Some \<lparr>pc_revision = n, pc_renditionId = i\<rparr>, as_failed := None\<rparr>)
      ((au_clear s)\<lparr>au_timer := Some \<lparr>tm_binding = b, tm_epoch = au_epoch s, tm_revision = n, tm_delayMs = d, tm_live = True\<rparr>\<rparr>))"
    if "as_availability (au_state s) = Audio_available" "i \<notin> set (unavailable_ids (au_state s))"
      "list_ex (\<lambda>r. rd_id r = i \<and> \<not> rd_unavailable r) (plan_renditions s)" for n d
    using ok that Some by (cases "as_observed (au_state s)") (auto simp: au_defs unavailable_ids_def split: option.splits)
  then show ?thesis using ok by (simp add: audio_select_def Let_def Some)
qed (simp add: audio_select_def)

lemma observed_ok: "au_ok s \<Longrightarrow> au_ok (fst (observed c b e q i s))"
proof -
  assume ok: "au_ok s"
  have seq: "au_ok (s\<lparr>au_sequence := n\<rparr>)" for n
    using ok by (cases "as_pending (au_state s)") (auto simp: au_defs split: option.splits)
  have "au_ok (au_update (\<lambda>st. st\<lparr>as_observed := i\<rparr>) t)" if "au_ok t" "case i of None \<Rightarrow> True | Some i \<Rightarrow> has_rendition t i" for t
    using that by (cases "as_pending (au_state t)"; cases i) (auto simp: au_defs unavailable_ids_def split: option.splits)
  moreover have "has_rendition (s\<lparr>au_sequence := n\<rparr>) j = has_rendition s j" for n j
    by (simp add: has_rendition_def plan_renditions_def)
  ultimately show ?thesis using ok seq
    by (cases q) (auto simp: observed_def Let_def split: option.splits)
qed

lemma applied_ok: "au_ok s \<Longrightarrow> au_ok (fst (applied c b e rv i s))"
  by (auto simp: applied_def au_defs split: option.splits)

lemma audio_failed_ok: "au_ok s \<Longrightarrow> au_ok (fst (audio_failed c b e rv reason u s))"
  by (cases "as_pending (au_state s)") (auto simp: audio_failed_def au_defs add_unavailable_def split: option.splits)

lemma unavailable_ids_add [simp]: "set (unavailable_ids (add_unavailable i st)) = insert i (set (unavailable_ids st))"
  by (auto simp: add_unavailable_def unavailable_ids_def split: option.split)

lemma add_unavailable_fields [simp]:
  "as_binding (add_unavailable i st) = as_binding st" "as_plan (add_unavailable i st) = as_plan st"
  "as_availability (add_unavailable i st) = as_availability st" "as_revision (add_unavailable i st) = as_revision st"
  "as_pending (add_unavailable i st) = as_pending st" "as_observed (add_unavailable i st) = as_observed st" "as_failed (add_unavailable i st) = as_failed st"
  by (simp_all add: add_unavailable_def)

lemma renditionUnavailable_ok: "au_ok s \<Longrightarrow> au_ok (fst (renditionUnavailable c b e i s))"
proof (cases "as_pending (au_state s)")
  case None
  assume "au_ok s"
  then show ?thesis using None by (auto simp: renditionUnavailable_def au_defs split: option.splits)
next
  case (Some p)
  assume ok: "au_ok s"
  have "au_ok (au_update (add_unavailable i) s)" if "pc_renditionId p \<noteq> i"
    using ok Some that by (auto simp: au_defs split: option.splits)
  then show ?thesis using ok Some audio_failed_ok[OF ok] by (simp add: renditionUnavailable_def)
qed

lemma timer_dead_ok: "au_ok s \<Longrightarrow> au_timer s = Some t \<Longrightarrow> au_ok (s\<lparr>au_timer := Some (t\<lparr>tm_live := False\<rparr>)\<rparr>)"
  by (cases "as_pending (au_state s)") (auto simp: au_defs split: option.splits)

lemma timer_fires_ok: "au_ok s \<Longrightarrow> au_ok (timer_fires c s)"
  unfolding timer_fires_def using timer_dead_ok audio_failed_ok by (simp split: option.split)

lemma audio_do_ok: "au_ok s \<Longrightarrow> au_ok (audio_do e s)"
  by (cases e)
    (simp_all add: au_reset_ok install_ok attach_ok detach_ok mapped_ok audio_select_ok observed_ok applied_ok audio_failed_ok
      renditionUnavailable_ok timer_fires_ok audio_invalidate_def audio_unavailable_def reset_update_ok)

lemma new_audio_ok: "new_audio_selection timeoutMs = Inr s \<Longrightarrow> au_ok s \<and> au_timer s = None \<and> 1 \<le> au_timeoutMs s \<and> au_timeoutMs s \<le> 60000"
  by (auto simp: new_audio_selection_def result_simps au_defs emptyAudio_def split: js_num.splits if_splits)

section \<open>Deadlines\<close>

text \<open>An event leaves the timer, takes it away, sets a new one, or spends it in vain.\<close>

definition timer_moves :: "audio_event \<Rightarrow> audio_selection \<Rightarrow> audio_selection \<Rightarrow> bool" where
  "timer_moves e s s' \<longleftrightarrow> au_timeoutMs s' = au_timeoutMs s \<and>
     (case au_timer s' of
        None \<Rightarrow> True
      | Some t' \<Rightarrow> tm_live t' \<and> tm_delayMs t' = au_timeoutMs s \<or> au_timer s = Some t'
          \<or> (\<exists>t. au_timer s = Some t \<and> t' = t\<lparr>tm_live := False\<rparr> \<and> (tm_live t \<longrightarrow> fires_in_vain (tm_revision t) e s)))"

lemmas timer_defs = timer_moves_def au_update_def au_clear_def next_epoch_def au_reset_def

lemma timer_same [simp]: "timer_moves e s s"
  by (simp add: timer_moves_def split: option.split)

lemma failed_timer: "timer_moves e s (fst (audio_failed c b ep rv reason u s))"
  by (cases "as_pending (au_state s)") (simp_all add: audio_failed_def timer_defs split: option.split)

text \<open>A pending change is refused by its own timer unless the session is another one.\<close>

lemma fires_timer:
  assumes "au_ok s"
  shows "timer_moves (Deadline_passes c) s (timer_fires c s)"
proof (cases "au_timer s")
  case (Some t)
  then obtain p where p: "as_pending (au_state s) = Some p" "tm_revision t = pc_revision p"
    using assms by (auto simp: au_ok_def pending_backed_def split: option.splits)
  show ?thesis
  proof (cases "tm_live t")
    case live: True
    let ?s = "s\<lparr>au_timer := Some (t\<lparr>tm_live := False\<rparr>)\<rparr>"
    have same: "au_valid c b e ?s = au_valid c b e s" for b e by (simp add: au_valid_def split: option.split)
    show ?thesis
    proof (cases "au_valid c (tm_binding t) (Some (tm_epoch t)) s")
      case True
      then show ?thesis using Some live p same by (simp add: timer_fires_def audio_failed_def timer_defs)
    next
      case False
      then have "timer_fires c s = ?s" using Some live p same by (simp add: timer_fires_def audio_failed_def)
      then show ?thesis using Some live False by (simp add: timer_moves_def fires_in_vain_def)
    qed
  qed (simp add: timer_fires_def Some)
qed (simp add: timer_fires_def)

lemma audio_do_timer: "au_ok s \<Longrightarrow> timer_moves e s (audio_do e s)"
proof (cases e)
  case (Deadline_passes c)
  assume "au_ok s"
  then show ?thesis unfolding Deadline_passes audio_do.simps by (rule fires_timer)
next
  case (Track_unavailable c b ep i)
  have "timer_moves e s (au_update f s)" for f by (simp add: timer_defs split: option.split)
  then show ?thesis using Track_unavailable failed_timer by (simp add: renditionUnavailable_def split: option.split)
next
  case (Change_failed c b ep rv reason u)
  then show ?thesis using failed_timer by simp
qed (auto simp: audio_invalidate_def audio_unavailable_def install_def attach_def detach_def mapped_def audio_select_def observed_def applied_def timer_defs Let_def
    split: option.splits sum.splits js_num.splits)

lemma fired_in_vain_append: "fired_in_vain r (es @ [e]) s \<longleftrightarrow> fired_in_vain r es s \<or> fires_in_vain r e (audio_run es s)"
  by (induction es arbitrary: s) (auto simp: audio_run_def)

text \<open>In every run a timer is live unless it was spent in vain, and set for the configured time.\<close>

lemma audio_run_deadlines:
  assumes "new_audio_selection timeoutMs = Inr s0"
  shows "au_ok (audio_run events s0) \<and> au_timeoutMs (audio_run events s0) = au_timeoutMs s0
    \<and> (\<forall>t. au_timer (audio_run events s0) = Some t \<longrightarrow>
         tm_delayMs t = au_timeoutMs s0 \<and> (tm_live t \<or> fired_in_vain (tm_revision t) events s0))"
proof (induction events rule: rev_induct)
  case Nil
  then show ?case using new_audio_ok [OF assms] by (simp add: audio_run_def)
next
  case (snoc e events)
  let ?s = "audio_run events s0"
  have next': "audio_run (events @ [e]) s0 = audio_do e ?s" by (simp add: audio_run_def)
  have ok: "au_ok ?s" using snoc by blast
  have moves: "timer_moves e ?s (audio_do e ?s)" by (rule audio_do_timer [OF ok])
  have "tm_delayMs t = au_timeoutMs s0 \<and> (tm_live t \<or> fired_in_vain (tm_revision t) (events @ [e]) s0)"
    if "au_timer (audio_do e ?s) = Some t" for t
    using moves snoc that unfolding timer_moves_def fired_in_vain_append by auto
  then show ?case using moves audio_do_ok [OF ok] snoc unfolding next' by (simp add: timer_moves_def)
qed

section \<open>A run\<close>

definition sample_raw :: jsval where
  "sample_raw = JObj
     [(''policyVersion'', JNum (Fin 3)), (''revision'', JStr ''s-1''), (''sessionId'', JStr ''s''), (''generation'', JNum (Fin 1)),
      (''sourceId'', JStr ''src''), (''factsRevision'', JNum (Fin 1)), (''defaultRenditionId'', JStr ''audio-0''),
      (''renditions'', JArr [JObj
         [(''id'', JStr ''audio-0''), (''sourceStreamIndex'', JNum (Fin 1)), (''label'', JStr ''English''), (''codec'', JArr [JStr ''aac'']),
          (''channels'', JNum (Fin 2)),
          (''manifestIdentity'', JObj [(''groupId'', JStr ''audio''), (''name'', JStr ''English''), (''playlistFile'', JStr ''audio-0.m3u8'')])]])]"

definition sample_current :: audio_current where
  "sample_current = \<lparr>cu_intentId = 4, cu_phase = ''ready'', cu_session = Some \<lparr>lv_id = ''s'', lv_generation = 1, lv_mode = ''hls''\<rparr>\<rparr>"

definition sample_binding :: audio_binding where
  "sample_binding = \<lparr>bn_intentId = 4, bn_sessionId = ''s'', bn_generation = 1, bn_sourceId = ''src'', bn_planRevision = ''s-1''\<rparr>"

definition sample_events :: "audio_event list" where
  "sample_events =
     [Plan_installed sample_current 4 sample_raw, Player_attached sample_current sample_binding,
      Tracks_mapped sample_current sample_binding 2 [''audio-0''], Viewer_selects sample_current ''audio-0'']"

definition sample_audio_new :: audio_selection where
  "sample_audio_new = \<lparr>au_state = emptyAudio, au_epoch = 0, au_sequence = 0, au_timer = None, au_timeoutMs = 15000, au_published = []\<rparr>"

lemma sample_audio_made: "new_audio_selection (Fin 15000) = Inr sample_audio_new"
  by (simp add: new_audio_selection_def require_def sample_audio_new_def)

lemma sample_selects:
  "as_pending (au_state (audio_run sample_events sample_audio_new)) = Some \<lparr>pc_revision = 1, pc_renditionId = ''audio-0''\<rparr>
   \<and> \<not> fired_in_vain 1 sample_events sample_audio_new \<and> au_timeoutMs sample_audio_new = 15000"
  by code_simp

text \<open>
  C13. A pending change is always the newest request, for a rendition of the plan that is not known to be
  unavailable, and always has a timer of its own, set for the configured time (and nothing else has one). The timer is
  still running, unless it already fired while another session was current. If the player never answers, the
  timer ends the change: when it fires while the session is the one the plan is for, the change is no longer
  pending and is reported as failed, with the rendition that was asked for. While the session is another one, and when it
  has fired before, it does nothing.
\<close>
theorem pending_change_ends:
  assumes "new_audio_selection timeoutMs = Inr s0" and s: "s = audio_run events s0"
  shows "1 \<le> au_timeoutMs s0 \<and> au_timeoutMs s0 \<le> 60000 \<and>
    (case as_pending (au_state s) of
      None \<Rightarrow> au_timer s = None
    | Some p \<Rightarrow> pc_revision p = as_revision (au_state s) \<and> pc_renditionId p \<notin> set (unavailable_ids (au_state s)) \<and>
        list_ex (\<lambda>r. rd_id r = pc_renditionId p \<and> \<not> rd_unavailable r) (plan_renditions s) \<and>
        (\<exists>t b. au_timer s = Some t \<and> as_binding (au_state s) = Some b \<and> tm_revision t = pc_revision p \<and> tm_delayMs t = au_timeoutMs s0 \<and>
           (tm_live t \<or> fired_in_vain (pc_revision p) events s0) \<and>
           (\<forall>c. if tm_live t \<and> au_valid c b None s
                then as_pending (au_state (timer_fires c s)) = None \<and> au_timer (timer_fires c s) = None \<and>
                  as_failed (au_state (timer_fires c s)) = Some \<lparr>fc_revision = pc_revision p, fc_renditionId = pc_renditionId p,
                    fc_reason = timeout_reason, fc_unavailable = False\<rparr>
                else au_state (timer_fires c s) = au_state s)))"
proof -
  note run = audio_run_deadlines [OF assms(1), of events, folded s]
  note bounds = new_audio_ok [OF assms(1)]
  show ?thesis
  proof (cases "as_pending (au_state s)")
    case None
    then show ?thesis using run bounds by (simp add: au_ok_def)
  next
    case (Some p)
    have "pending_backed s p" using run Some by (simp add: au_ok_def)
    then obtain b t where t: "as_binding (au_state s) = Some b" "au_timer s = Some t" "tm_binding t = b" "tm_epoch t = au_epoch s"
      "tm_revision t = pc_revision p" and rest: "pc_revision p = as_revision (au_state s)" "pc_renditionId p \<notin> set (unavailable_ids (au_state s))"
      "list_ex (\<lambda>r. rd_id r = pc_renditionId p \<and> \<not> rd_unavailable r) (plan_renditions s)"
      by (auto simp: pending_backed_def split: option.splits)
    have safe: "safe_reason timeout_reason = timeout_reason" by code_simp
    have fires: "if tm_live t \<and> au_valid c b None s
        then as_pending (au_state (timer_fires c s)) = None \<and> au_timer (timer_fires c s) = None \<and>
          as_failed (au_state (timer_fires c s)) = Some \<lparr>fc_revision = pc_revision p, fc_renditionId = pc_renditionId p,
            fc_reason = timeout_reason, fc_unavailable = False\<rparr>
        else au_state (timer_fires c s) = au_state s" for c
      using t Some safe by (auto simp: timer_fires_def audio_failed_def au_valid_def au_update_def au_clear_def)
    have "tm_delayMs t = au_timeoutMs s0" "tm_live t \<or> fired_in_vain (pc_revision p) events s0" using run t(2,5) by auto
    then show ?thesis using Some t(1,2,5) rest fires bounds by simp
  qed
qed

theorem pending_change_ends_witness:
  "\<exists>t. au_timer (audio_run sample_events sample_audio_new) = Some t \<and> tm_live t \<and> tm_delayMs t = 15000"
  using pending_change_ends [OF sample_audio_made refl, of sample_events] sample_selects by auto

section \<open>Two gaps in the checks\<close>

text \<open>
  A policy-3 codec is compared as text, \<open>String(v.codec)\<close>: an array of one codec name passes, and the plan
  carries the array as its codec.
\<close>

lemma codec_array_accepted:
  "(case validateAudioPlan sample_raw of Inr p \<Rightarrow> List.map rd_codec (ap_renditions p) = [JArr [JStr ''aac'']] | Inl _ \<Rightarrow> False)"
  by code_simp

definition sample_delivery :: "string \<Rightarrow> string \<Rightarrow> delivery_rendition list" where
  "sample_delivery second language =
     [\<lparr>dr_ordinal = 0, dr_streamIndex = 1, dr_label = ''English'', dr_language = language, dr_codec = ''aac'', dr_channels = 2, dr_default = True, dr_failure = None\<rparr>,
      \<lparr>dr_ordinal = 1, dr_streamIndex = 2, dr_label = second, dr_language = ''en'', dr_codec = ''aac'', dr_channels = 6, dr_default = False, dr_failure = None\<rparr>]"

text \<open>
  The labels of a delivery become manifest names, which must differ: a delivery with two tracks of one label
  has no plan, and neither has one with a track of no known language (an empty text).
\<close>

lemma shared_label_refused:
  "is_ok (renditionPlan ''s'' 1 ''src'' 1 (sample_delivery ''Commentary'' ''en''))
   \<and> renditionPlan ''s'' 1 ''src'' 1 (sample_delivery ''English'' ''en'') = Inl Invalid_plan
   \<and> renditionPlan ''s'' 1 ''src'' 1 (sample_delivery ''Commentary'' []) = Inl Invalid_plan"
  by code_simp

end
