(* ===== verification/JS_Int32.thy ===== *)
theory JS_Int32
  imports JS_Prelude "HOL-Library.Word"
begin

unbundle bit_operations_syntax

text \<open>
  JavaScript's 32-bit operators on numbers that are integers. \<open>^\<close> and \<open>&\<close> convert both operands
  to signed 32-bit words and give a signed result, \<open>>>>\<close> gives an unsigned one, and \<open>Math.imul\<close>
  is the low word of a product, signed.
\<close>

section \<open>The operators\<close>

definition js_word :: "int \<Rightarrow> 32 word" where
  "js_word a = word_of_int a"

definition js_xor :: "int \<Rightarrow> int \<Rightarrow> int" where
  "js_xor a b = sint (js_word a XOR js_word b)"

definition js_and :: "int \<Rightarrow> int \<Rightarrow> int" where
  "js_and a b = sint (js_word a AND js_word b)"

definition js_ushr :: "int \<Rightarrow> nat \<Rightarrow> int" where
  "js_ushr a k = uint (drop_bit k (js_word a))"

definition imul :: "int \<Rightarrow> int \<Rightarrow> int" where
  "imul a b = sint (js_word a * js_word b)"

section \<open>Facts\<close>

lemma js_word_results [simp]:
  "js_word (js_xor a b) = js_word a XOR js_word b"
  "js_word (js_and a b) = js_word a AND js_word b"
  "js_word (js_ushr a k) = drop_bit k (js_word a)"
  "js_word (imul a b) = js_word a * js_word b"
  by (simp_all add: js_word_def js_xor_def js_and_def js_ushr_def imul_def)

text \<open>Masking with \<open>h\<close> low bits, \<open>h < 32\<close>, keeps those bits, and the result is not negative.\<close>

lemma js_and_mask: "h < 32 \<Longrightarrow> js_and a (2 ^ h - 1) = take_bit h (uint (js_word a))"
proof -
  assume h: "h < 32"
  have mask: "js_word (2 ^ h - 1) = mask h"
    by (simp add: js_word_def mask_eq_exp_minus_1)
  have "sint (take_bit h (js_word a)) = take_bit h (uint (js_word a))"
    using h by (simp add: sint_uint unsigned_take_bit_eq signed_take_bit_eq_if_positive bit_take_bit_iff)
  then show ?thesis
    by (simp add: js_and_def mask take_bit_eq_mask)
qed

lemma js_and_mask_bounds: "h < 32 \<Longrightarrow> 0 \<le> js_and a (2 ^ h - 1) \<and> js_and a (2 ^ h - 1) < 2 ^ h"
  by (simp add: js_and_mask)

lemma js_and_mask_same: "h < 32 \<Longrightarrow> 0 \<le> a \<Longrightarrow> a < 2 ^ h \<Longrightarrow> js_and a (2 ^ h - 1) = a"
proof -
  assume a: "h < 32" "0 \<le> a" "a < 2 ^ h"
  have "(2::int) ^ h \<le> 2 ^ 32" using a(1) by (intro power_increasing) auto
  then have "a < 2 ^ 32" using a(3) by linarith
  then have "uint (js_word a) = a"
    using a(2) by (simp add: js_word_def uint_word_of_int take_bit_eq_mod)
  then show ?thesis using a by (simp add: js_and_mask take_bit_int_eq_self)
qed

text \<open>Mixing a masked number in by exclusive or, twice, gives back its low bits.\<close>

lemma js_xor_mask_twice:
  assumes h: "h < 32" and a: "0 \<le> a" "a < 2 ^ h"
  shows "js_and (js_ushr (js_xor (js_and (js_ushr (js_xor a b) 0) (2 ^ h - 1)) b) 0) (2 ^ h - 1) = a"
proof -
  have mask: "js_word (2 ^ h - 1) = mask h"
    by (simp add: js_word_def mask_eq_exp_minus_1)
  have "((js_word a XOR js_word b) AND mask h XOR js_word b) AND mask h = js_word a AND mask h"
    by (rule bit_word_eqI) (auto simp: bit_and_iff bit_xor_iff)
  then have "js_and (js_ushr (js_xor (js_and (js_ushr (js_xor a b) 0) (2 ^ h - 1)) b) 0) (2 ^ h - 1) = js_and a (2 ^ h - 1)"
    by (simp add: js_and_def [of _ "2 ^ h - 1"] mask) (simp add: js_and_def mask js_word_def)
  then show ?thesis using js_and_mask_same [OF h a] by simp
qed

end
