(* ===== verification/Shuffle.thy ===== *)
theory Shuffle
  imports JS_Int32 JS_Value "HOL-Library.While_Combinator"
begin

text \<open>
  The seeded shuffle of playback-v1/shuffle.ts: a keyed bijection over the positions below
  \<open>n\<close>, made of a four-round Feistel network on the smallest even-bit domain that holds \<open>n\<close> and
  a walk along its cycle until the result is below \<open>n\<close>. The seed and the lap are integers.
\<close>

section \<open>The class\<close>

datatype shuffle_error = Count_out_of_range | Position_out_of_range

definition mix :: "int \<Rightarrow> int \<Rightarrow> int" where
  "mix x key =
     (let h = js_ushr (js_xor x key) 0;
          h = js_ushr (imul (js_xor h (js_ushr h 16)) 0x7feb352d) 0;
          h = js_ushr (imul (js_xor h (js_ushr h 15)) 0x846ca68b) 0
      in js_ushr (js_xor h (js_ushr h 16)) 0)"

definition roundKeys :: "int \<Rightarrow> int \<Rightarrow> int list" where
  "roundKeys seed lap =
     (let base = mix (js_ushr seed 0) (js_xor 0x9e3779b9 lap)
      in map (\<lambda>i. mix base (0x85ebca6b * (i + 1))) [0, 1, 2, 3])"

record shuffle_permutation =
  sp_n :: int
  sp_halfBits :: nat
  sp_mask :: int
  sp_keys :: "int list"

lemma power_add_two_less: "(2::int) ^ bits < 2 ^ (bits + 2)"
  by (intro power_strict_increasing) auto

text \<open>The loop of the constructor: the smallest even number of bits whose domain holds \<open>n\<close>.\<close>

function domain_bits :: "int \<Rightarrow> nat \<Rightarrow> nat" where
  "domain_bits n bits = (if 2 ^ bits < n then domain_bits n (bits + 2) else bits)"
  by pat_completeness auto
termination
  by (relation "measure (\<lambda>(n, bits). nat (n - 2 ^ bits))") (simp_all add: power_add_two_less)

declare domain_bits.simps [simp del]

definition new_shuffle :: "js_num \<Rightarrow> int \<Rightarrow> int \<Rightarrow> shuffle_error + shuffle_permutation" where
  "new_shuffle n seed lap =
     (if \<not> isSafeInteger n \<or> int_of n < 1 \<or> int_of n > 2 ^ 40 then Inl Count_out_of_range
      else let half = domain_bits (int_of n) 2 div 2
           in Inr \<lparr>sp_n = int_of n, sp_halfBits = half, sp_mask = 2 ^ half - 1, sp_keys = roundKeys seed lap\<rparr>)"

definition split_half :: "shuffle_permutation \<Rightarrow> int \<Rightarrow> int \<times> int" where
  "split_half sp x = (let r = x mod (sp_mask sp + 1) in ((x - r) div (sp_mask sp + 1), r))"

definition join_half :: "shuffle_permutation \<Rightarrow> int \<Rightarrow> int \<Rightarrow> int" where
  "join_half sp l r = l * (sp_mask sp + 1) + r"

definition round_f :: "shuffle_permutation \<Rightarrow> int \<Rightarrow> int \<Rightarrow> int" where
  "round_f sp r k = js_and (mix r k) (sp_mask sp)"

definition forward_round :: "shuffle_permutation \<Rightarrow> int \<Rightarrow> int \<times> int \<Rightarrow> int \<times> int" where
  "forward_round sp k = (\<lambda>(l, r). (r, js_and (js_ushr (js_xor l (round_f sp r k)) 0) (sp_mask sp)))"

definition backward_round :: "shuffle_permutation \<Rightarrow> int \<Rightarrow> int \<times> int \<Rightarrow> int \<times> int" where
  "backward_round sp k = (\<lambda>(l, r). (js_and (js_ushr (js_xor r (round_f sp l k)) 0) (sp_mask sp), l))"

definition forward :: "shuffle_permutation \<Rightarrow> int \<Rightarrow> int" where
  "forward sp x = (case fold (forward_round sp) (sp_keys sp) (split_half sp x) of (l, r) \<Rightarrow> join_half sp l r)"

definition backward :: "shuffle_permutation \<Rightarrow> int \<Rightarrow> int" where
  "backward sp x = (case fold (backward_round sp) (rev (sp_keys sp)) (split_half sp x) of (l, r) \<Rightarrow> join_half sp l r)"

text \<open>
  The two public methods. The outer option is the walk: None would be a loop that never ends.
\<close>

definition bad_position :: "shuffle_permutation \<Rightarrow> js_num \<Rightarrow> bool" where
  "bad_position sp i \<longleftrightarrow> \<not> isSafeInteger i \<or> int_of i < 0 \<or> int_of i \<ge> sp_n sp"

definition shuffle_at :: "shuffle_permutation \<Rightarrow> js_num \<Rightarrow> (shuffle_error + int) option" where
  "shuffle_at sp i =
     (if bad_position sp i then Some (Inl Position_out_of_range)
      else map_option Inr (while_option (\<lambda>x. x \<ge> sp_n sp) (forward sp) (forward sp (int_of i))))"

definition indexOf :: "shuffle_permutation \<Rightarrow> js_num \<Rightarrow> (shuffle_error + int) option" where
  "indexOf sp s =
     (if bad_position sp s then Some (Inl Position_out_of_range)
      else map_option Inr (while_option (\<lambda>x. x \<ge> sp_n sp) (backward sp) (backward sp (int_of s))))"

section \<open>The network is a bijection\<close>

text \<open>What the constructor gives.\<close>

definition shuffle_wf :: "shuffle_permutation \<Rightarrow> bool" where
  "shuffle_wf sp \<longleftrightarrow> 1 \<le> sp_n sp \<and> sp_n sp \<le> 2 ^ 40 \<and> sp_halfBits sp < 32 \<and> sp_mask sp = 2 ^ sp_halfBits sp - 1
     \<and> sp_n sp \<le> (sp_mask sp + 1) * (sp_mask sp + 1) \<and> length (sp_keys sp) = 4"

lemma domain_bits_holds: "n \<le> 2 ^ domain_bits n bits"
  by (induction n bits rule: domain_bits.induct) (subst domain_bits.simps, simp)

lemma domain_bits_even: "even bits \<Longrightarrow> even (domain_bits n bits)"
  by (induction n bits rule: domain_bits.induct) (subst domain_bits.simps, simp)

lemma domain_bits_le: "n \<le> 2 ^ m \<Longrightarrow> even m \<Longrightarrow> even bits \<Longrightarrow> bits \<le> m \<Longrightarrow> domain_bits n bits \<le> m"
proof (induction n bits rule: domain_bits.induct)
  case (1 n bits)
  show ?case
  proof (cases "2 ^ bits < n")
    case True
    then have "(2::int) ^ bits < 2 ^ m" using "1.prems"(1) by linarith
    then have "bits < m" by simp
    with "1.prems" have "bits + 2 \<le> m" by presburger
    with "1.IH" [OF True] "1.prems" True show ?thesis by (subst domain_bits.simps) simp
  next
    case False
    with "1.prems" show ?thesis by (subst domain_bits.simps) simp
  qed
qed

lemma new_shuffle_wf: "new_shuffle n seed lap = Inr sp \<Longrightarrow> shuffle_wf sp \<and> sp_n sp = int_of n"
proof -
  assume new: "new_shuffle n seed lap = Inr sp"
  let ?b = "domain_bits (int_of n) 2"
  have n: "1 \<le> int_of n" "int_of n \<le> 2 ^ 40"
    using new by (auto simp: new_shuffle_def split: if_splits)
  have even: "?b = ?b div 2 + ?b div 2"
    using domain_bits_even [of 2 "int_of n"] by presburger
  have "?b \<le> 40" using domain_bits_le [of "int_of n" 40 2] n by simp
  moreover have "int_of n \<le> 2 ^ (?b div 2) * 2 ^ (?b div 2)"
    using domain_bits_holds [of "int_of n" 2] even by (simp flip: power_add)
  ultimately show ?thesis
    using new n by (auto simp: new_shuffle_def shuffle_wf_def roundKeys_def Let_def split: if_splits)
qed

abbreviation halves :: "shuffle_permutation \<Rightarrow> (int \<times> int) set" where
  "halves sp \<equiv> {0..sp_mask sp} \<times> {0..sp_mask sp}"

abbreviation network :: "shuffle_permutation \<Rightarrow> int set" where
  "network sp \<equiv> {0..<(sp_mask sp + 1) * (sp_mask sp + 1)}"

lemma shuffle_mask: "shuffle_wf sp \<Longrightarrow> 0 \<le> sp_mask sp"
  by (simp add: shuffle_wf_def)

lemma js_and_halves: "shuffle_wf sp \<Longrightarrow> js_and a (sp_mask sp) \<in> {0..sp_mask sp}"
  using js_and_mask_bounds [of "sp_halfBits sp" a] by (simp add: shuffle_wf_def)

lemma forward_round_halves: "shuffle_wf sp \<Longrightarrow> p \<in> halves sp \<Longrightarrow> forward_round sp k p \<in> halves sp"
  using js_and_halves by (auto simp: forward_round_def split: prod.splits)

lemma backward_round_halves: "shuffle_wf sp \<Longrightarrow> p \<in> halves sp \<Longrightarrow> backward_round sp k p \<in> halves sp"
  using js_and_halves by (auto simp: backward_round_def split: prod.splits)

lemma xor_round: "shuffle_wf sp \<Longrightarrow> 0 \<le> a \<Longrightarrow> a \<le> sp_mask sp \<Longrightarrow>
   js_and (js_ushr (js_xor (js_and (js_ushr (js_xor a b) 0) (sp_mask sp)) b) 0) (sp_mask sp) = a"
  by (simp add: shuffle_wf_def js_xor_mask_twice)

lemma backward_forward_round: "shuffle_wf sp \<Longrightarrow> p \<in> halves sp \<Longrightarrow> backward_round sp k (forward_round sp k p) = p"
  by (auto simp: forward_round_def backward_round_def xor_round split: prod.splits)

lemma forward_backward_round: "shuffle_wf sp \<Longrightarrow> p \<in> halves sp \<Longrightarrow> forward_round sp k (backward_round sp k p) = p"
  by (auto simp: forward_round_def backward_round_def xor_round split: prod.splits)

text \<open>Rounds in sequence, undone in the reverse order.\<close>

lemma fold_undone:
  assumes keep: "\<And>k p. p \<in> A \<Longrightarrow> f k p \<in> A" and undo: "\<And>k p. p \<in> A \<Longrightarrow> g k (f k p) = p"
  shows "p \<in> A \<Longrightarrow> fold f ks p \<in> A \<and> fold g (rev ks) (fold f ks p) = p"
proof (induction ks arbitrary: p)
  case (Cons k ks)
  then have "fold f ks (f k p) \<in> A \<and> fold g (rev ks) (fold f ks (f k p)) = f k p" using keep by blast
  then show ?case using undo [OF Cons.prems] by simp
qed simp

lemma split_join: "p \<in> halves sp \<Longrightarrow> split_half sp (join_half sp (fst p) (snd p)) = p \<and> join_half sp (fst p) (snd p) \<in> network sp"
proof -
  assume p: "p \<in> halves sp"
  obtain l r where lr: "p = (l, r)" by fastforce
  have bounds: "0 \<le> l" "l \<le> sp_mask sp" "0 \<le> r" "r < sp_mask sp + 1" using p lr by auto
  then have "(l * (sp_mask sp + 1) + r) mod (sp_mask sp + 1) = r" by simp
  moreover have "l * (sp_mask sp + 1) + r < (sp_mask sp + 1) * (sp_mask sp + 1)"
  proof -
    have "l * (sp_mask sp + 1) \<le> sp_mask sp * (sp_mask sp + 1)" using bounds by (intro mult_right_mono) auto
    then show ?thesis using bounds by (simp add: algebra_simps)
  qed
  moreover have "0 \<le> l * (sp_mask sp + 1)" using bounds by (intro mult_nonneg_nonneg) auto
  ultimately show ?thesis using bounds lr by (simp add: split_half_def join_half_def Let_def)
qed

lemma div_square_less: "0 < b \<Longrightarrow> y < b * b \<Longrightarrow> y div b < (b :: int)"
  by (smt (verit, best) pos_imp_zdiv_neg_iff zdiv_eq_0_iff zdiv_zmult2_eq)

lemma join_split: "x \<in> network sp \<Longrightarrow> 0 \<le> sp_mask sp \<Longrightarrow> split_half sp x \<in> halves sp \<and> join_half sp (fst (split_half sp x)) (snd (split_half sp x)) = x"
proof -
  assume x: "x \<in> network sp" "0 \<le> sp_mask sp"
  have q: "(x - x mod (sp_mask sp + 1)) div (sp_mask sp + 1) = x div (sp_mask sp + 1)"
    by (simp add: minus_mod_eq_mult_div)
  have r: "0 \<le> x mod (sp_mask sp + 1)" "x mod (sp_mask sp + 1) \<le> sp_mask sp"
    using x pos_mod_bound [of "sp_mask sp + 1" x] by (simp, linarith)
  have "0 \<le> x div (sp_mask sp + 1)" using x by (simp add: pos_imp_zdiv_nonneg_iff)
  moreover have "x div (sp_mask sp + 1) < sp_mask sp + 1"
    by (rule div_square_less) (use x in auto)
  ultimately show ?thesis
    using r div_mult_mod_eq [of x "sp_mask sp + 1"] by (simp only: split_half_def join_half_def Let_def q fst_conv snd_conv) simp
qed

lemma network_inverse:
  assumes wf: "shuffle_wf sp" and x: "x \<in> network sp"
  shows "forward sp x \<in> network sp \<and> backward sp x \<in> network sp \<and> backward sp (forward sp x) = x \<and> forward sp (backward sp x) = x"
proof -
  let ?p = "split_half sp x" and ?ks = "sp_keys sp"
  have p: "?p \<in> halves sp" "join_half sp (fst ?p) (snd ?p) = x"
    using join_split [OF x shuffle_mask [OF wf]] by auto
  let ?q = "fold (forward_round sp) ?ks ?p" and ?q' = "fold (backward_round sp) (rev ?ks) ?p"
  have q: "?q \<in> halves sp" "fold (backward_round sp) (rev ?ks) ?q = ?p"
    using fold_undone [of "halves sp" "forward_round sp" "backward_round sp" ?p ?ks]
      forward_round_halves [OF wf] backward_forward_round [OF wf] p(1) by blast+
  have q': "?q' \<in> halves sp" "fold (forward_round sp) ?ks ?q' = ?p"
    using fold_undone [of "halves sp" "backward_round sp" "forward_round sp" ?p "rev ?ks"]
      backward_round_halves [OF wf] forward_backward_round [OF wf] p(1) unfolding rev_rev_ident by blast+
  show ?thesis
    using split_join [OF q(1)] split_join [OF q'(1)] q(2) q'(2) p(2)
    by (simp add: forward_def backward_def case_prod_beta)
qed

section \<open>Walking a cycle\<close>

text \<open>On a finite set a bijection returns to where it started, so the walk ends.\<close>

lemma while_option_first:
  "(\<And>j. j < m \<Longrightarrow> b ((f ^^ j) s)) \<Longrightarrow> \<not> b ((f ^^ m) s) \<Longrightarrow> while_option b f s = Some ((f ^^ m) s)"
proof (induction m arbitrary: s)
  case 0
  then show ?case by (simp add: while_option_unfold)
next
  case (Suc m)
  have "b s" using Suc.prems(1) [of 0] by simp
  moreover have "while_option b f (f s) = Some ((f ^^ m) (f s))"
    using Suc.prems(1) [of "Suc j" for j] Suc.prems(2) by (intro Suc.IH) (simp_all add: funpow_swap1)
  ultimately show ?case by (subst while_option_unfold) (simp add: funpow_swap1)
qed

lemma funpow_in: "(\<And>x. x \<in> A \<Longrightarrow> f x \<in> A) \<Longrightarrow> x \<in> A \<Longrightarrow> (f ^^ k) x \<in> A"
  by (induction k) auto

lemma funpow_undo:
  assumes "\<And>x. x \<in> A \<Longrightarrow> f x \<in> A" "\<And>x. x \<in> A \<Longrightarrow> g (f x) = x"
  shows "x \<in> A \<Longrightarrow> (g ^^ k) ((f ^^ (k + m)) x) = (f ^^ m) x"
proof (induction k)
  case (Suc k)
  have "(f ^^ (k + m)) x \<in> A" using funpow_in [of A f] assms(1) Suc.prems by blast
  then have "g ((f ^^ Suc (k + m)) x) = (f ^^ (k + m)) x" using assms(2) by simp
  then have "(g ^^ Suc k) ((f ^^ (Suc k + m)) x) = (g ^^ k) ((f ^^ (k + m)) x)"
    by (simp only: funpow_Suc_right o_apply add_Suc)
  then show ?case using Suc by simp
qed simp

lemma cycle_returns:
  assumes "finite A" and keep: "\<And>x. x \<in> A \<Longrightarrow> f x \<in> A" and undo: "\<And>x. x \<in> A \<Longrightarrow> g (f x) = x" and i: "i \<in> A"
  shows "\<exists>k. (f ^^ Suc k) i = i"
proof -
  have "\<not> inj (\<lambda>k. (f ^^ k) i)"
  proof
    assume "inj (\<lambda>k. (f ^^ k) i)"
    moreover have "range (\<lambda>k. (f ^^ k) i) \<subseteq> A" using funpow_in [of A f] keep i by blast
    ultimately show False using assms(1) finite_subset finite_imageD infinite_UNIV_nat by blast
  qed
  then obtain j k where "j < k" "(f ^^ j) i = (f ^^ k) i"
    unfolding inj_def by (metis linorder_neqE_nat)
  then have "(f ^^ (j + (k - j))) i = (f ^^ (j + 0)) i" by simp
  then have "(f ^^ (k - j)) i = i"
    using funpow_undo [of A f g i j, OF keep undo i] by (metis funpow_0)
  then show ?thesis using \<open>j < k\<close> by (metis Suc_diff_Suc)
qed

lemma cycle_walk:
  assumes fin: "finite A" and f: "\<And>x. x \<in> A \<Longrightarrow> f x \<in> A" "\<And>x. x \<in> A \<Longrightarrow> g (f x) = x" and i: "i \<in> A" "\<not> out i"
  shows "\<exists>x \<in> A. \<not> out x \<and> while_option out f (f i) = Some x \<and> while_option out g (g x) = Some i"
proof -
  obtain k where k: "(f ^^ Suc k) i = i" using cycle_returns [OF fin f i(1)] by blast
  define m where "m = (LEAST m. \<not> out ((f ^^ Suc m) i))"
  have "\<not> out ((f ^^ Suc k) i)" using k i by (simp only: not_False_eq_True)
  then have m: "\<not> out ((f ^^ Suc m) i)" unfolding m_def by (rule LeastI)
  have before: "out ((f ^^ Suc j) i)" if "j < m" for j
    using not_less_Least that unfolding m_def by blast
  let ?x = "(f ^^ Suc m) i"
  have "while_option out f (f i) = Some ((f ^^ m) (f i))"
    using before m by (intro while_option_first) (simp_all add: funpow_swap1)
  moreover have "while_option out g (g ?x) = Some ((g ^^ m) (g ?x))"
  proof (rule while_option_first)
    have undone: "(g ^^ j) (g ?x) = (f ^^ (m - j)) i" if "j \<le> m" for j
      using funpow_undo [of A f g i "Suc j" "m - j", OF f i(1)] that by (simp add: funpow_swap1)
    fix j assume j: "j < m"
    then have "out ((f ^^ (m - j)) i)" using before [of "m - Suc j"] by (simp add: Suc_diff_Suc del: funpow.simps)
    then show "out ((g ^^ j) (g ?x))" using undone j by simp
  next
    show "\<not> out ((g ^^ m) (g ?x))"
      using funpow_undo [of A f g i "Suc m" 0, OF f i(1)] i(2) by (simp add: funpow_swap1)
  qed
  moreover have "(g ^^ m) (g ?x) = i"
    using funpow_undo [of A f g i "Suc m" 0, OF f i(1)] by (simp add: funpow_swap1)
  moreover have "?x \<in> A" using funpow_in [of A f] f(1) i(1) by blast
  ultimately show ?thesis using m by (intro bexI [of _ ?x]) (simp_all add: funpow_swap1)
qed

section \<open>Positions\<close>

abbreviation at_position :: "int \<Rightarrow> js_num" where
  "at_position i \<equiv> Fin (of_int i)"

lemma position_cases: "\<not> bad_position sp i \<Longrightarrow> i = at_position (int_of i) \<and> 0 \<le> int_of i \<and> int_of i < sp_n sp"
  by (cases i) (auto simp: bad_position_def isSafeInteger_def is_integer_def int_of_def)

lemma position_good: "shuffle_wf sp \<Longrightarrow> 0 \<le> i \<Longrightarrow> i < sp_n sp \<Longrightarrow> \<not> bad_position sp (at_position i)"
  by (auto simp: bad_position_def isSafeInteger_def shuffle_wf_def MAX_SAFE_INTEGER_def simp flip: of_int_abs of_int_le_iff)

lemma positions_in_network: "shuffle_wf sp \<Longrightarrow> 0 \<le> i \<Longrightarrow> i < sp_n sp \<Longrightarrow> i \<in> network sp"
  unfolding shuffle_wf_def atLeastLessThan_iff by linarith

lemma shuffle_at_walk:
  assumes wf: "shuffle_wf sp" and i: "0 \<le> i" "i < sp_n sp"
  shows "\<exists>x. 0 \<le> x \<and> x < sp_n sp \<and> shuffle_at sp (at_position i) = Some (Inr x) \<and> indexOf sp (at_position x) = Some (Inr i)"
proof -
  have "\<exists>x \<in> network sp. \<not> x \<ge> sp_n sp \<and> while_option (\<lambda>x. x \<ge> sp_n sp) (forward sp) (forward sp i) = Some x
      \<and> while_option (\<lambda>x. x \<ge> sp_n sp) (backward sp) (backward sp x) = Some i"
    by (rule cycle_walk) (use network_inverse [OF wf] positions_in_network [OF wf i] i in auto)
  then obtain x where x: "0 \<le> x" "x < sp_n sp"
    and walks: "while_option (\<lambda>x. x \<ge> sp_n sp) (forward sp) (forward sp i) = Some x"
      "while_option (\<lambda>x. x \<ge> sp_n sp) (backward sp) (backward sp x) = Some i"
    by auto
  then show ?thesis
    using position_good [OF wf i] position_good [OF wf, of x]
    by (intro exI [of _ x]) (simp add: shuffle_at_def indexOf_def)
qed

lemma indexOf_walk:
  assumes wf: "shuffle_wf sp" and i: "0 \<le> i" "i < sp_n sp"
  shows "\<exists>x. 0 \<le> x \<and> x < sp_n sp \<and> indexOf sp (at_position i) = Some (Inr x) \<and> shuffle_at sp (at_position x) = Some (Inr i)"
proof -
  have "\<exists>x \<in> network sp. \<not> x \<ge> sp_n sp \<and> while_option (\<lambda>x. x \<ge> sp_n sp) (backward sp) (backward sp i) = Some x
      \<and> while_option (\<lambda>x. x \<ge> sp_n sp) (forward sp) (forward sp x) = Some i"
    by (rule cycle_walk) (use network_inverse [OF wf] positions_in_network [OF wf i] i in auto)
  then obtain x where x: "0 \<le> x" "x < sp_n sp"
    and walks: "while_option (\<lambda>x. x \<ge> sp_n sp) (backward sp) (backward sp i) = Some x"
      "while_option (\<lambda>x. x \<ge> sp_n sp) (forward sp) (forward sp x) = Some i"
    by auto
  then show ?thesis
    using position_good [OF wf i] position_good [OF wf, of x]
    by (intro exI [of _ x]) (simp add: shuffle_at_def indexOf_def)
qed

text \<open>The answer of either walk.\<close>

definition walk_answers :: "shuffle_permutation \<Rightarrow> js_num \<Rightarrow> (shuffle_error + int) option \<Rightarrow> bool" where
  "walk_answers sp i answer \<longleftrightarrow>
     (if bad_position sp i then answer = Some (Inl Position_out_of_range)
      else \<exists>x. answer = Some (Inr x) \<and> 0 \<le> x \<and> x < sp_n sp)"

lemma walk_answers_both: "shuffle_wf sp \<Longrightarrow> walk_answers sp i (shuffle_at sp i) \<and> walk_answers sp i (indexOf sp i)"
proof (cases "bad_position sp i")
  case False
  assume "shuffle_wf sp"
  then show ?thesis
    using position_cases [OF False] shuffle_at_walk [of sp "int_of i"] indexOf_walk [of sp "int_of i"] False
    unfolding walk_answers_def by metis
qed (simp add: shuffle_at_def indexOf_def walk_answers_def)

text \<open>C38. Both walks of a shuffle end, whatever the seed and the lap: for a position below the count
  the answer is a position below the count, for anything else it is the range error.\<close>
theorem shuffle_walks_end:
  assumes "new_shuffle n seed lap = Inr sp"
  shows "sp_n sp = int_of n \<and> walk_answers sp i (shuffle_at sp i) \<and> walk_answers sp i (indexOf sp i)"
  using new_shuffle_wf [OF assms] walk_answers_both by blast

text \<open>A shuffle of ten positions.\<close>

definition sample_shuffle :: shuffle_permutation where
  "sample_shuffle = \<lparr>sp_n = 10, sp_halfBits = 2, sp_mask = 3, sp_keys = roundKeys 7 0\<rparr>"

lemma sample_shuffle_new: "new_shuffle (Fin 10) 7 0 = Inr sample_shuffle"
  by (simp add: new_shuffle_def sample_shuffle_def isSafeInteger_def is_integer_def MAX_SAFE_INTEGER_def int_of_def domain_bits.simps Let_def)

lemma shuffle_walks_end_witness:
  "new_shuffle (Fin 10) 7 0 = Inr sample_shuffle \<and> walk_answers sample_shuffle (Fin 3) (shuffle_at sample_shuffle (Fin 3))
     \<and> walk_answers sample_shuffle (Fin 10) (indexOf sample_shuffle (Fin 10))"
  using shuffle_walks_end [OF sample_shuffle_new] sample_shuffle_new by blast

text \<open>C32. The order is a permutation: \<open>at\<close> and \<open>indexOf\<close> are inverse to each other on the positions
  below the count, so no position is shown twice and none is missing.\<close>
theorem shuffle_roundtrip:
  assumes "new_shuffle n seed lap = Inr sp" and "0 \<le> i" "i < sp_n sp"
  shows "(\<exists>x. 0 \<le> x \<and> x < sp_n sp \<and> shuffle_at sp (at_position i) = Some (Inr x) \<and> indexOf sp (at_position x) = Some (Inr i))
    \<and> (\<exists>x. 0 \<le> x \<and> x < sp_n sp \<and> indexOf sp (at_position i) = Some (Inr x) \<and> shuffle_at sp (at_position x) = Some (Inr i))"
  using shuffle_at_walk indexOf_walk new_shuffle_wf [OF assms(1)] assms(2,3) by blast

lemma shuffle_roundtrip_witness:
  "\<exists>x. 0 \<le> x \<and> x < 10 \<and> shuffle_at sample_shuffle (at_position 3) = Some (Inr x) \<and> indexOf sample_shuffle (at_position x) = Some (Inr 3)"
  using shuffle_roundtrip [OF sample_shuffle_new, of 3] by (simp add: sample_shuffle_def)

end
