(* ===== verification/Guide_Programs.thy ===== *)
theory Guide_Programs
  imports JS_Value "HOL-Library.List_Lexorder" "HOL-Library.Product_Lexorder"
begin

text \<open>
  The programs of the guide (guide/types.ts), their normal form (guide/layout.ts) and what a
  channel shows now and next (guide/now-next.ts). Times are finite numbers.
\<close>

section \<open>The shared shapes\<close>

datatype channel_kind = Live_channel | Library_channel

datatype source_type = From_m3u | From_xtream | From_hdhomerun | From_tuner | From_library | From_live

datatype guide_state = Guide_ready | Guide_refreshing | Guide_stale | Guide_none

record channel_source =
  chs_id :: string
  chs_name :: string
  chs_type :: source_type
  chs_position :: rat
  chs_recordAvailable :: bool
  chs_guideState :: "guide_state option"
  chs_availableStart :: "rat option"
  chs_availableEnd :: "rat option"
  chs_guideDays :: "rat option"

record guide_episode =
  ge_season :: "rat option"
  ge_number :: "rat option"
  ge_display :: "string option"

record guide_flags =
  gf_live :: "bool option"
  gf_new :: "bool option"
  gf_premiere :: "bool option"
  gf_repeat :: "bool option"
  gf_finale :: "bool option"

record guide_program =
  gp_id :: string
  gp_channelId :: string
  gp_title :: string
  gp_start :: rat
  gp_end :: rat
  gp_subtitle :: "string option"
  gp_episode :: "guide_episode option"
  gp_categories :: "string list option"
  gp_rating :: "string option"
  gp_year :: "rat option"
  gp_starRating :: "string option"
  gp_image :: "string option"
  gp_flags :: "guide_flags option"
  gp_seriesId :: "string option"
  gp_recording :: "(string \<times> string) option"
  gp_description :: "string option"
  gp_native :: "jsval option"

section \<open>Normal form\<close>

text \<open>
  The sort compares starts, then ends, then ids, and is stable. For two programs alike in all
  three (duplicates, of which one is kept) the comparator is not consistent; the stable order is
  the one taken here.
\<close>

definition sorted_programs :: "guide_program list \<Rightarrow> guide_program list" where
  "sorted_programs = sort_key (\<lambda>p. (gp_start p, gp_end p, gp_id p))"

text \<open>The loop's state: the ids seen, and the end of the last program kept (None is \<open>-Infinity\<close>).\<close>

fun keep_programs :: "string set \<Rightarrow> rat option \<Rightarrow> guide_program list \<Rightarrow> guide_program list" where
  "keep_programs seen cursor [] = []"
| "keep_programs seen cursor (p # ps) =
    (if gp_id p \<in> seen \<or> \<not> gp_end p > gp_start p then keep_programs seen cursor ps
     else let seen = insert (gp_id p) seen;
              start = (case cursor of None \<Rightarrow> gp_start p | Some c \<Rightarrow> max (gp_start p) c)
          in if gp_end p \<le> start then keep_programs seen cursor ps
             else (if start = gp_start p then p else p\<lparr>gp_start := start\<rparr>) # keep_programs seen (Some (gp_end p)) ps)"

definition normalizePrograms :: "guide_program list \<Rightarrow> guide_program list" where
  "normalizePrograms programs = keep_programs {} None (sorted_programs programs)"

text \<open>What the readers of a row rely on: each program takes time, and it ends before the following one starts.\<close>

definition normalized :: "guide_program list \<Rightarrow> bool" where
  "normalized ps \<longleftrightarrow> (\<forall>p \<in> set ps. gp_start p < gp_end p) \<and> sorted_wrt (\<lambda>p q. gp_end p \<le> gp_start q) ps"

lemma normalized_simps [simp]:
  "normalized []"
  "normalized (p # ps) \<longleftrightarrow> gp_start p < gp_end p \<and> (\<forall>q \<in> set ps. gp_end p \<le> gp_start q) \<and> normalized ps"
  by (auto simp: normalized_def)

lemma keep_programs_after:
  "q \<in> set (keep_programs seen cursor ps) \<Longrightarrow> gp_start q < gp_end q \<and> (\<forall>c. cursor = Some c \<longrightarrow> c \<le> gp_start q)"
proof (induction seen cursor ps rule: keep_programs.induct)
  case (2 seen cursor p ps)
  then show ?case
    by (auto simp: Let_def split: if_splits option.splits) fastforce+
qed simp

lemma keep_programs_normalized: "normalized (keep_programs seen cursor ps)"
proof (induction seen cursor ps rule: keep_programs.induct)
  case (2 seen cursor p ps)
  then show ?case
    using keep_programs_after [of _ "insert (gp_id p) seen" "Some (gp_end p)" ps]
    by (auto simp: Let_def split: option.splits)
qed simp

lemma keep_programs_ids:
  "gp_id ` set (keep_programs seen cursor ps) \<subseteq> gp_id ` set ps - seen \<and> distinct (map gp_id (keep_programs seen cursor ps))"
proof (induction seen cursor ps rule: keep_programs.induct)
  case (2 seen cursor p ps)
  let ?seen = "insert (gp_id p) seen" and ?start = "case cursor of None \<Rightarrow> gp_start p | Some c \<Rightarrow> max (gp_start p) c"
  consider "gp_id p \<in> seen \<or> \<not> gp_start p < gp_end p"
    | "gp_id p \<notin> seen" "gp_start p < gp_end p" "gp_end p \<le> ?start"
    | "gp_id p \<notin> seen" "gp_start p < gp_end p" "\<not> gp_end p \<le> ?start" by blast
  then show ?case
  proof cases
    case 1
    then have "keep_programs seen cursor (p # ps) = keep_programs seen cursor ps" by simp
    with "2.IH"(1) 1 show ?thesis by auto
  next
    case 2
    then have "keep_programs seen cursor (p # ps) = keep_programs ?seen cursor ps" by (simp add: Let_def)
    with "2.IH"(2) 2 show ?thesis by auto
  next
    case 3
    let ?q = "if ?start = gp_start p then p else p\<lparr>gp_start := ?start\<rparr>"
    have "gp_id ?q = gp_id p \<and> keep_programs seen cursor (p # ps) = ?q # keep_programs ?seen (Some (gp_end p)) ps"
      using 3 by (simp add: Let_def)
    then obtain q where "gp_id q = gp_id p" "keep_programs seen cursor (p # ps) = q # keep_programs ?seen (Some (gp_end p)) ps"
      by blast
    moreover have "gp_id ` set (keep_programs ?seen (Some (gp_end p)) ps) \<subseteq> gp_id ` set ps - ?seen
        \<and> distinct (map gp_id (keep_programs ?seen (Some (gp_end p)) ps))"
      using "2.IH"(3) 3 by blast
    ultimately show ?thesis using 3(1) by (simp add: subset_iff image_iff) blast
  qed
qed simp

lemma normalizePrograms_normalized [simp]: "normalized (normalizePrograms ps)"
  by (simp add: normalizePrograms_def keep_programs_normalized)

lemma normalizePrograms_ids: "distinct (map gp_id (normalizePrograms ps))"
  using keep_programs_ids by (simp add: normalizePrograms_def)

text \<open>Nothing is made up: a kept program is one of the given ones, at most with a later start.\<close>

lemma keep_programs_origin:
  "q \<in> set (keep_programs seen cursor ps) \<Longrightarrow> \<exists>p \<in> set ps. q = p\<lparr>gp_start := gp_start q\<rparr> \<and> gp_start p \<le> gp_start q"
proof (induction seen cursor ps rule: keep_programs.induct)
  case (2 seen cursor p ps)
  then show ?case
    by (auto simp: Let_def split: if_splits option.splits)
qed simp

section \<open>Binary search\<close>

text \<open>The first index whose end is after \<open>t\<close>.\<close>

function ending_search :: "guide_program list \<Rightarrow> rat \<Rightarrow> nat \<Rightarrow> nat \<Rightarrow> nat" where
  "ending_search programs t lo hi =
     (if lo < hi then
        let mid = (lo + hi) div 2
        in if gp_end (programs ! mid) \<le> t then ending_search programs t (mid + 1) hi
           else ending_search programs t lo mid
      else lo)"
  by pat_completeness auto
termination
  by (relation "measure (\<lambda>(programs, t, lo, hi). hi - lo)") auto

declare ending_search.simps [simp del]

definition firstEndingAfter :: "guide_program list \<Rightarrow> rat \<Rightarrow> nat" where
  "firstEndingAfter programs t = ending_search programs t 0 (length programs)"

lemma normalized_ends: "normalized ps \<Longrightarrow> i \<le> j \<Longrightarrow> j < length ps \<Longrightarrow> gp_end (ps ! i) \<le> gp_end (ps ! j)"
proof (cases "i = j")
  case False
  assume ps: "normalized ps" "i \<le> j" "j < length ps"
  then have "gp_end (ps ! i) \<le> gp_start (ps ! j)" "gp_start (ps ! j) < gp_end (ps ! j)"
    using False by (auto simp: normalized_def sorted_wrt_iff_nth_less)
  then show ?thesis by simp
qed simp

lemma ending_search_between:
  "normalized ps \<Longrightarrow> lo \<le> hi \<Longrightarrow> hi \<le> length ps \<Longrightarrow> \<forall>i < lo. gp_end (ps ! i) \<le> t \<Longrightarrow> \<forall>i. hi \<le> i \<and> i < length ps \<longrightarrow> gp_end (ps ! i) > t
    \<Longrightarrow> ending_search ps t lo hi \<le> length ps \<and> (\<forall>i < length ps. gp_end (ps ! i) \<le> t \<longleftrightarrow> i < ending_search ps t lo hi)"
proof (induction ps t lo hi rule: ending_search.induct)
  case (1 ps t lo hi)
  show ?case
  proof (cases "lo < hi")
    case False
    then have "ending_search ps t lo hi = lo" by (subst ending_search.simps) simp
    moreover have "lo = hi" using "1.prems"(2) False by simp
    ultimately show ?thesis using "1.prems" by (metis linorder_not_less)
  next
    case True
    let ?m = "(lo + hi) div 2"
    have m: "lo \<le> ?m" "?m < hi" using True by auto
    show ?thesis
    proof (cases "gp_end (ps ! ?m) \<le> t")
      case low: True
      have "ending_search ps t lo hi = ending_search ps t (?m + 1) hi"
        using True low by (subst ending_search.simps) (simp add: Let_def)
      moreover have "\<forall>i < ?m + 1. gp_end (ps ! i) \<le> t"
      proof (intro allI impI)
        fix i assume "i < ?m + 1"
        then have "gp_end (ps ! i) \<le> gp_end (ps ! ?m)"
          using normalized_ends [OF "1.prems"(1), of i ?m] "1.prems"(3) m by simp
        then show "gp_end (ps ! i) \<le> t" using low by (rule order_trans)
      qed
      ultimately show ?thesis using "1.IH"(1) [OF True refl low] "1.prems" m by simp
    next
      case high: False
      have "ending_search ps t lo hi = ending_search ps t lo ?m"
        using True high by (subst ending_search.simps) (simp add: Let_def)
      moreover have "\<forall>i. ?m \<le> i \<and> i < length ps \<longrightarrow> gp_end (ps ! i) > t"
      proof (intro allI impI, elim conjE)
        fix i assume "?m \<le> i" "i < length ps"
        then have "gp_end (ps ! ?m) \<le> gp_end (ps ! i)" by (rule normalized_ends [OF "1.prems"(1)])
        then show "t < gp_end (ps ! i)" using high by linarith
      qed
      ultimately show ?thesis using "1.IH"(2) [OF True refl high] "1.prems" m by simp
    qed
  qed
qed

lemma firstEndingAfter_iff:
  assumes "normalized ps"
  shows "firstEndingAfter ps t \<le> length ps \<and> (\<forall>i < length ps. gp_end (ps ! i) \<le> t \<longleftrightarrow> i < firstEndingAfter ps t)"
  unfolding firstEndingAfter_def by (rule ending_search_between) (use assms in auto)

text \<open>The search gives what a scan from the left gives.\<close>

lemma firstEndingAfter_scan: "normalized ps \<Longrightarrow> drop (firstEndingAfter ps t) ps = dropWhile (\<lambda>p. gp_end p \<le> t) ps"
proof -
  assume ps: "normalized ps"
  have iff: "firstEndingAfter ps t \<le> length ps" "\<And>i. i < length ps \<Longrightarrow> gp_end (ps ! i) \<le> t \<longleftrightarrow> i < firstEndingAfter ps t"
    using firstEndingAfter_iff [OF ps, of t] by auto
  have "takeWhile (\<lambda>p. gp_end p \<le> t) ps = take (firstEndingAfter ps t) ps"
    by (rule takeWhile_eq_take_P_nth) (use iff in auto)
  then show ?thesis using iff(1) by (simp add: dropWhile_eq_drop)
qed

section \<open>Now and next\<close>

record now_next =
  nn_now :: "guide_program option"
  nn_next :: "guide_program option"
  nn_progress :: rat
  nn_remainingMs :: "rat option"
  nn_gap :: bool

definition item_at :: "'a list \<Rightarrow> nat \<Rightarrow> 'a option" where
  "item_at xs i = (if i < length xs then Some (xs ! i) else None)"

definition nowNext :: "guide_program list \<Rightarrow> rat \<Rightarrow> now_next" where
  "nowNext programs now =
     (let i = firstEndingAfter programs now; candidate = item_at programs i
      in case candidate of
           Some p \<Rightarrow>
             if gp_start p \<le> now
             then \<lparr>nn_now = Some p, nn_next = item_at programs (i + 1), nn_progress = (now - gp_start p) / (gp_end p - gp_start p),
                   nn_remainingMs = Some (gp_end p - now), nn_gap = False\<rparr>
             else \<lparr>nn_now = None, nn_next = Some p, nn_progress = 0, nn_remainingMs = Some (gp_start p - now), nn_gap = True\<rparr>
         | None \<Rightarrow> \<lparr>nn_now = None, nn_next = None, nn_progress = 0, nn_remainingMs = None, nn_gap = True\<rparr>)"

definition nextChange :: "guide_program list \<Rightarrow> rat \<Rightarrow> rat option" where
  "nextChange programs now =
     (case item_at programs (firstEndingAfter programs now) of
        None \<Rightarrow> None
      | Some p \<Rightarrow> Some (if gp_start p > now then gp_start p else gp_end p))"

text \<open>What is shown, without the clock: the program on the air and the one after it.\<close>

definition shown_now :: "guide_program list \<Rightarrow> rat \<Rightarrow> guide_program option \<times> guide_program option" where
  "shown_now programs t = (nn_now (nowNext programs t), nn_next (nowNext programs t))"

definition airs :: "guide_program \<Rightarrow> rat \<Rightarrow> bool" where
  "airs p t \<longleftrightarrow> gp_start p \<le> t \<and> t < gp_end p"

lemma item_at_simps [simp]:
  "item_at [] i = None"
  "item_at (x # xs) 0 = Some x"
  "item_at (x # xs) (Suc i) = item_at xs i"
  by (simp_all add: item_at_def)

lemma item_at_drop: "item_at xs i = (case drop i xs of [] \<Rightarrow> None | x # _ \<Rightarrow> Some x)"
  by (induction xs arbitrary: i) (simp, case_tac i, simp_all)

lemma item_at_next: "item_at xs (Suc i) = (case drop i xs of x # y # _ \<Rightarrow> Some y | _ \<Rightarrow> None)"
proof (induction xs arbitrary: i)
  case (Cons x xs)
  then show ?case by (cases i) (simp_all add: item_at_drop [of xs 0])
qed simp

text \<open>Both readings, as a scan from the left.\<close>

lemma nowNext_scan:
  "normalized ps \<Longrightarrow> nowNext ps t =
     (case dropWhile (\<lambda>p. gp_end p \<le> t) ps of
        [] \<Rightarrow> \<lparr>nn_now = None, nn_next = None, nn_progress = 0, nn_remainingMs = None, nn_gap = True\<rparr>
      | p # rest \<Rightarrow>
          if gp_start p \<le> t
          then \<lparr>nn_now = Some p, nn_next = (case rest of [] \<Rightarrow> None | q # _ \<Rightarrow> Some q),
                nn_progress = (t - gp_start p) / (gp_end p - gp_start p), nn_remainingMs = Some (gp_end p - t), nn_gap = False\<rparr>
          else \<lparr>nn_now = None, nn_next = Some p, nn_progress = 0, nn_remainingMs = Some (gp_start p - t), nn_gap = True\<rparr>)"
  unfolding firstEndingAfter_scan [symmetric]
  by (cases "drop (firstEndingAfter ps t) ps")
    (simp_all add: nowNext_def Let_def item_at_drop [of _ "firstEndingAfter ps t"] item_at_next del: drop_eq_Nil)

lemma nextChange_scan:
  "normalized ps \<Longrightarrow> nextChange ps t =
     (case dropWhile (\<lambda>p. gp_end p \<le> t) ps of [] \<Rightarrow> None | p # _ \<Rightarrow> Some (if gp_start p > t then gp_start p else gp_end p))"
  unfolding firstEndingAfter_scan [symmetric] nextChange_def item_at_drop
  by (cases "drop (firstEndingAfter ps t) ps") (simp_all del: drop_eq_Nil)

lemma ended_split:
  assumes "normalized ps"
  obtains before where "ps = before @ dropWhile (\<lambda>p. gp_end p \<le> t) ps" "\<forall>p \<in> set before. gp_end p \<le> t" "normalized (dropWhile (\<lambda>p. gp_end p \<le> t) ps)"
proof
  show "ps = takeWhile (\<lambda>p. gp_end p \<le> t) ps @ dropWhile (\<lambda>p. gp_end p \<le> t) ps" by simp
  show "\<forall>p \<in> set (takeWhile (\<lambda>p. gp_end p \<le> t) ps). gp_end p \<le> t" by (auto dest: set_takeWhileD)
  show "normalized (dropWhile (\<lambda>p. gp_end p \<le> t) ps)"
    using assms unfolding normalized_def by (simp add: sorted_wrt_dropWhile) (meson set_dropWhileD)
qed

lemma ended_head: "dropWhile (\<lambda>p. gp_end p \<le> t) ps = p # rest \<Longrightarrow> t < gp_end p"
  by (metis hd_dropWhile linorder_not_less list.distinct(1) list.sel(1))

text \<open>The rest of the row is the same until its first program ends.\<close>

lemma ended_later:
  assumes ps: "normalized ps" and rest: "dropWhile (\<lambda>p. gp_end p \<le> t) ps = p # rest" and t: "t \<le> u" "u < gp_end p"
  shows "dropWhile (\<lambda>p. gp_end p \<le> u) ps = p # rest"
proof -
  obtain before where before: "ps = before @ p # rest" "\<forall>p \<in> set before. gp_end p \<le> t"
    using ended_split [OF ps, of t] rest by metis
  then show ?thesis using t by (subst before(1), subst dropWhile_append2) auto
qed

lemma ended_all: "normalized ps \<Longrightarrow> dropWhile (\<lambda>p. gp_end p \<le> t) ps = [] \<Longrightarrow> t \<le> u \<Longrightarrow> dropWhile (\<lambda>p. gp_end p \<le> u) ps = []"
  by (auto simp: dropWhile_eq_Nil_conv)

text \<open>What is on the air, and what follows: the facts the scan gives.\<close>

lemma airing_program:
  assumes ps: "normalized ps"
  shows "nn_now (nowNext ps t) = Some p \<longleftrightarrow> p \<in> set ps \<and> airs p t"
proof -
  obtain before where before: "ps = before @ dropWhile (\<lambda>p. gp_end p \<le> t) ps" "\<forall>p \<in> set before. gp_end p \<le> t"
      and rest: "normalized (dropWhile (\<lambda>p. gp_end p \<le> t) ps)"
    using ended_split [OF ps, of t] .
  have member: "p \<in> set ps \<and> airs p t \<longleftrightarrow> p \<in> set (dropWhile (\<lambda>p. gp_end p \<le> t) ps) \<and> airs p t"
    using before(2) by (subst (1) before(1)) (auto simp: airs_def)
  show ?thesis
  proof (cases "dropWhile (\<lambda>p. gp_end p \<le> t) ps")
    case Nil
    show ?thesis unfolding member nowNext_scan [OF ps] Nil by simp
  next
    case (Cons q qs)
    have "t < gp_end q" using ended_head [OF Cons] .
    moreover have "\<forall>r \<in> set qs. gp_end q \<le> gp_start r" using rest Cons by simp
    ultimately have "p \<in> set (q # qs) \<and> airs p t \<longleftrightarrow> p = q \<and> gp_start q \<le> t" by (auto simp: airs_def)
    then show ?thesis unfolding member nowNext_scan [OF ps] Cons by auto
  qed
qed

lemma following_program:
  assumes ps: "normalized ps" and q: "nn_next (nowNext ps t) = Some q"
  shows "q \<in> set ps \<and> t < gp_start q \<and> (\<forall>r \<in> set ps. t < gp_start r \<longrightarrow> gp_start q \<le> gp_start r)"
proof -
  obtain before where before: "ps = before @ dropWhile (\<lambda>p. gp_end p \<le> t) ps" "\<forall>p \<in> set before. gp_end p \<le> t"
      and rest: "normalized (dropWhile (\<lambda>p. gp_end p \<le> t) ps)"
    using ended_split [OF ps, of t] .
  have early: "r \<in> set before \<Longrightarrow> \<not> t < gp_start r" for r
  proof -
    assume r: "r \<in> set before"
    then have "r \<in> set ps" using before(1) by (metis UnI1 set_append)
    then show "\<not> t < gp_start r" using ps before(2) r by (force simp: normalized_def)
  qed
  obtain p ys where p: "dropWhile (\<lambda>p. gp_end p \<le> t) ps = p # ys"
    using q by (cases "dropWhile (\<lambda>p. gp_end p \<le> t) ps") (simp_all add: nowNext_scan [OF ps])
  have set_ps: "set ps = set before \<union> set (p # ys)" using before(1) p by (metis set_append)
  have "t < gp_end p" using ended_head [OF p] .
  moreover have "normalized (p # ys)" using rest p by simp
  ultimately show ?thesis
    using q early unfolding set_ps nowNext_scan [OF ps] p
    by (cases ys) (fastforce split: if_splits)+
qed

lemma no_following_program:
  assumes ps: "normalized ps" and "nn_next (nowNext ps t) = None" and r: "r \<in> set ps"
  shows "\<not> t < gp_start r"
proof -
  obtain before where before: "ps = before @ dropWhile (\<lambda>p. gp_end p \<le> t) ps" "\<forall>p \<in> set before. gp_end p \<le> t"
    using ended_split [OF ps, of t] .
  consider "r \<in> set before" | "r \<in> set (dropWhile (\<lambda>p. gp_end p \<le> t) ps)"
    using r before(1) by (metis UnE set_append)
  then show ?thesis
  proof cases
    case 1
    then show ?thesis using before(2) ps r by (force simp: normalized_def)
  next
    case 2
    then show ?thesis using assms(2) unfolding nowNext_scan [OF ps]
      by (auto split: list.splits if_splits)
  qed
qed

lemma shown_until_change:
  assumes ps: "normalized ps"
  shows "case nextChange ps t of None \<Rightarrow> \<forall>u \<ge> t. shown_now ps u = (None, None)
     | Some c \<Rightarrow> t < c \<and> (\<forall>u. t \<le> u \<and> u < c \<longrightarrow> shown_now ps u = shown_now ps t) \<and> shown_now ps c \<noteq> shown_now ps t"
proof (cases "dropWhile (\<lambda>p. gp_end p \<le> t) ps")
  case Nil
  then show ?thesis using ended_all [OF ps Nil] by (simp add: nextChange_scan [OF ps] shown_now_def nowNext_scan [OF ps] del: dropWhile_eq_Nil_conv)
next
  case (Cons p rest)
  have ends: "t < gp_end p" using ended_head [OF Cons] .
  have p: "gp_start p < gp_end p"
    using ps Cons by (metis list.set_intros(1) normalized_def set_dropWhileD)
  have same: "dropWhile (\<lambda>p. gp_end p \<le> u) ps = p # rest" if "t \<le> u" "u < gp_end p" for u
    using ended_later [OF ps Cons] that by blast
  show ?thesis
  proof (cases "gp_start p > t")
    case True
    then show ?thesis using same p by (simp add: nextChange_scan [OF ps] shown_now_def nowNext_scan [OF ps] Cons)
  next
    case False
    have "nn_now (nowNext ps (gp_end p)) \<noteq> Some p" using airing_program [OF ps] by (simp add: airs_def)
    then show ?thesis using same False ends by (simp add: nextChange_scan [OF ps] shown_now_def nowNext_scan [OF ps] Cons)
  qed
qed

lemma progress_bounds:
  assumes ps: "normalized ps"
  shows "0 \<le> nn_progress (nowNext ps t) \<and> nn_progress (nowNext ps t) < 1"
proof (cases "dropWhile (\<lambda>p. gp_end p \<le> t) ps")
  case Nil
  show ?thesis unfolding nowNext_scan [OF ps] Nil by simp
next
  case (Cons p rest)
  show ?thesis
    using ended_head [OF Cons] unfolding nowNext_scan [OF ps] Cons by (simp add: divide_simps)
qed

text \<open>C40. What a channel shows now and next is right, and \<open>nextChange\<close> says exactly how long it stays
  so: now is the program on the air, next is the first to start later, nothing changes before the
  boundary, and at the boundary something does. Without a boundary nothing is on the air or will be.\<close>
theorem shown_until_boundary:
  assumes ps: "ps = normalizePrograms raw"
  shows "(\<forall>p. nn_now (nowNext ps t) = Some p \<longleftrightarrow> p \<in> set ps \<and> airs p t)
    \<and> (case nn_next (nowNext ps t) of
         None \<Rightarrow> \<not> (\<exists>r \<in> set ps. t < gp_start r)
       | Some q \<Rightarrow> q \<in> set ps \<and> t < gp_start q \<and> (\<forall>r \<in> set ps. t < gp_start r \<longrightarrow> gp_start q \<le> gp_start r))
    \<and> (case nextChange ps t of
         None \<Rightarrow> \<forall>u \<ge> t. shown_now ps u = (None, None)
       | Some c \<Rightarrow> t < c \<and> (\<forall>u. t \<le> u \<and> u < c \<longrightarrow> shown_now ps u = shown_now ps t) \<and> shown_now ps c \<noteq> shown_now ps t)
    \<and> 0 \<le> nn_progress (nowNext ps t) \<and> nn_progress (nowNext ps t) < 1"
proof -
  have ps: "normalized ps" by (simp add: ps)
  show ?thesis
    using airing_program [OF ps] following_program [OF ps, of t] no_following_program [OF ps, of t]
      shown_until_change [OF ps, of t] progress_bounds [OF ps, of t]
    by (cases "nn_next (nowNext ps t)") auto
qed

text \<open>A day with an overlap, a duplicate and a hole.\<close>

definition sample_program :: "string \<Rightarrow> rat \<Rightarrow> rat \<Rightarrow> guide_program" where
  "sample_program i a b = \<lparr>gp_id = i, gp_channelId = ''c'', gp_title = i, gp_start = a, gp_end = b, gp_subtitle = None, gp_episode = None,
     gp_categories = None, gp_rating = None, gp_year = None, gp_starRating = None, gp_image = None, gp_flags = None, gp_seriesId = None,
     gp_recording = None, gp_description = None, gp_native = None\<rparr>"

definition sample_day :: "guide_program list" where
  "sample_day = [sample_program ''b'' 20 40, sample_program ''a'' 0 30, sample_program ''b'' 20 40, sample_program ''c'' 50 60]"

lemma sample_day_normalized:
  "normalizePrograms sample_day = [sample_program ''a'' 0 30, sample_program ''b'' 30 40, sample_program ''c'' 50 60]"
  by (simp add: normalizePrograms_def sorted_programs_def sample_day_def sample_program_def)

lemma shown_until_boundary_witness:
  "nextChange (normalizePrograms sample_day) 45 = Some 50 \<and> shown_now (normalizePrograms sample_day) 47 = shown_now (normalizePrograms sample_day) 45"
proof -
  have change: "nextChange (normalizePrograms sample_day) 45 = Some 50"
    by (subst nextChange_scan [OF normalizePrograms_normalized]) (simp add: sample_day_normalized sample_program_def)
  have "\<forall>u. 45 \<le> u \<and> u < 50 \<longrightarrow> shown_now (normalizePrograms sample_day) u = shown_now (normalizePrograms sample_day) 45"
    using shown_until_boundary [OF refl, of sample_day 45] unfolding change option.case by (elim conjE)
  then have "shown_now (normalizePrograms sample_day) 47 = shown_now (normalizePrograms sample_day) 45"
    by (rule allE [of _ 47]) simp
  with change show ?thesis by blast
qed

end
