(* ===== verification/Guide_Layout.thy ===== *)
theory Guide_Layout
  imports Guide_Programs
begin

text \<open>
  The cells of one row of the guide (guide/layout.ts): where each program starts and how wide it
  is in the visible span, the text that fits, and how focus moves between rows.
\<close>

section \<open>Cells\<close>

datatype text_tier = Tier_full | Tier_title2 | Tier_title | Tier_sliver

datatype cell_state = Cell_past | Cell_now | Cell_future

datatype cell_kind = Program_cell | Gap_cell

record guide_cell =
  gc_kind :: cell_kind
  gc_start :: rat
  gc_end :: rat
  gc_x :: rat
  gc_width :: rat
  gc_clippedStart :: bool
  gc_clippedEnd :: bool
  gc_tier :: text_tier
  gc_state :: cell_state
  gc_program :: "guide_program option"

record tier_thresholds =
  th_full :: rat
  th_title2 :: rat
  th_title :: rat

definition tiers_standard :: tier_thresholds where
  "tiers_standard = \<lparr>th_full = 200, th_title2 = 96, th_title = 32\<rparr>"

definition tiers_tv :: tier_thresholds where
  "tiers_tv = \<lparr>th_full = 300, th_title2 = 150, th_title = 32\<rparr>"

record row_options =
  ro_viewStart :: rat
  ro_viewEnd :: rat
  ro_pxPerMs :: rat
  ro_now :: rat
  ro_gapPx :: "rat option"
  ro_tiers :: "tier_thresholds option"
  ro_rangeStart :: "rat option"
  ro_rangeEnd :: "rat option"

definition tierFor :: "rat \<Rightarrow> tier_thresholds \<Rightarrow> text_tier" where
  "tierFor width t =
     (if width \<ge> th_full t then Tier_full else if width \<ge> th_title2 t then Tier_title2
      else if width \<ge> th_title t then Tier_title else Tier_sliver)"

abbreviation or_else :: "'a option \<Rightarrow> 'a \<Rightarrow> 'a" where
  "or_else v d \<equiv> (case v of Some x \<Rightarrow> x | None \<Rightarrow> d)"

definition cell_from :: "row_options \<Rightarrow> rat \<Rightarrow> rat" where
  "cell_from o' start = max start (ro_viewStart o')"

definition cell_to :: "row_options \<Rightarrow> rat \<Rightarrow> rat" where
  "cell_to o' e = min e (ro_viewEnd o')"

definition range_start :: "row_options \<Rightarrow> rat" where
  "range_start o' = max (ro_viewStart o') (or_else (ro_rangeStart o') (ro_viewStart o'))"

definition range_end :: "row_options \<Rightarrow> rat" where
  "range_end o' = min (ro_viewEnd o') (or_else (ro_rangeEnd o') (ro_viewEnd o'))"

text \<open>The inner function \<open>push\<close>: the cell appended, if any of it is visible.\<close>

definition push_cell :: "row_options \<Rightarrow> cell_kind \<Rightarrow> rat \<Rightarrow> rat \<Rightarrow> guide_program option \<Rightarrow> guide_cell list" where
  "push_cell o' kind start e program =
     (let from = cell_from o' start; to = cell_to o' e
      in if to \<le> from then []
         else let width = max 0 ((to - from) * ro_pxPerMs o' - or_else (ro_gapPx o') 2)
              in [\<lparr>gc_kind = kind, gc_start = start, gc_end = e, gc_x = (from - ro_viewStart o') * ro_pxPerMs o',
                   gc_width = width, gc_clippedStart = start < ro_viewStart o', gc_clippedEnd = e > ro_viewEnd o',
                   gc_tier = tierFor width (or_else (ro_tiers o') tiers_standard),
                   gc_state = (if e \<le> ro_now o' then Cell_past else if start \<le> ro_now o' then Cell_now else Cell_future),
                   gc_program = program\<rparr>])"

fun row_cells :: "row_options \<Rightarrow> rat \<Rightarrow> guide_program list \<Rightarrow> guide_cell list" where
  "row_cells o' cursor [] = (if cursor < range_end o' then push_cell o' Gap_cell cursor (range_end o') None else [])"
| "row_cells o' cursor (p # ps) =
     (if gp_start p \<ge> ro_viewEnd o'
      then (if cursor < range_end o' then push_cell o' Gap_cell cursor (range_end o') None else [])
      else (if gp_start p > cursor \<and> cursor < range_end o' then push_cell o' Gap_cell cursor (min (gp_start p) (range_end o')) None else [])
           @ push_cell o' Program_cell (gp_start p) (gp_end p) (Some p)
           @ row_cells o' (max cursor (gp_end p)) ps)"

definition layoutRow :: "guide_program list \<Rightarrow> row_options \<Rightarrow> guide_cell list" where
  "layoutRow programs o' = row_cells o' (range_start o') (drop (firstEndingAfter programs (ro_viewStart o')) programs)"

section \<open>Focus\<close>

text \<open>The best cell so far with its distance; None is \<open>Infinity\<close>, before any cell was measured.\<close>

fun focus_scan :: "guide_cell list \<Rightarrow> rat \<Rightarrow> nat \<Rightarrow> nat \<Rightarrow> rat option \<Rightarrow> nat" where
  "focus_scan [] focusTime i best bestDistance = best"
| "focus_scan (c # cs) focusTime i best bestDistance =
     (if gc_start c \<le> focusTime \<and> focusTime < gc_end c then i
      else let d = \<bar>gc_start c - focusTime\<bar>
           in if (case bestDistance of None \<Rightarrow> True | Some b \<Rightarrow> d < b) then focus_scan cs focusTime (i + 1) i (Some d)
              else focus_scan cs focusTime (i + 1) best bestDistance)"

definition focusTarget :: "guide_cell list \<Rightarrow> rat \<Rightarrow> int" where
  "focusTarget cells focusTime = (if cells = [] then -1 else int (focus_scan cells focusTime 0 0 None))"

definition neighbor :: "guide_cell list \<Rightarrow> int \<Rightarrow> int \<Rightarrow> int" where
  "neighbor cells index direction =
     (let n = index + direction in if n \<ge> 0 \<and> n < int (length cells) then n else -1)"

definition focusTimeOf :: "guide_cell \<Rightarrow> rat \<Rightarrow> rat \<Rightarrow> rat" where
  "focusTimeOf cell viewStart viewEnd = min (max (gc_start cell) viewStart) (viewEnd - 1)"

section \<open>The cells of a row\<close>

text \<open>An instant lies in a cell if it lies in its visible part.\<close>

definition covers :: "row_options \<Rightarrow> guide_cell \<Rightarrow> rat \<Rightarrow> bool" where
  "covers o' c t \<longleftrightarrow> cell_from o' (gc_start c) \<le> t \<and> t < cell_to o' (gc_end c)"

definition in_view :: "row_options \<Rightarrow> rat \<Rightarrow> bool" where
  "in_view o' t \<longleftrightarrow> ro_viewStart o' \<le> t \<and> t < ro_viewEnd o'"

definition covered :: "row_options \<Rightarrow> guide_program option \<Rightarrow> guide_cell list \<Rightarrow> rat \<Rightarrow> bool" where
  "covered o' q cells t \<longleftrightarrow> (\<exists>c \<in> set cells. gc_program c = q \<and> covers o' c t)"

lemma covered_simps [simp]:
  "\<not> covered o' q [] t"
  "covered o' q (xs @ ys) t \<longleftrightarrow> covered o' q xs t \<or> covered o' q ys t"
  "covered o' q (push_cell o' kind a b program) t \<longleftrightarrow> program = q \<and> in_view o' t \<and> a \<le> t \<and> t < b"
  by (auto simp: covered_def push_cell_def Let_def covers_def in_view_def cell_from_def cell_to_def)

text \<open>Cells made from a cursor on lie after it, and in order.\<close>

abbreviation after :: "row_options \<Rightarrow> guide_cell \<Rightarrow> guide_cell \<Rightarrow> bool" where
  "after o' c d \<equiv> cell_to o' (gc_end c) \<le> cell_from o' (gc_start d)"

lemma push_cell_cases: "c \<in> set (push_cell o' kind a b program) \<Longrightarrow>
   push_cell o' kind a b program = [c] \<and> gc_start c = a \<and> gc_end c = b \<and> cell_from o' a < cell_to o' b \<and> gc_program c = program \<and> gc_kind c = kind
     \<and> gc_x c = (cell_from o' a - ro_viewStart o') * ro_pxPerMs o'
     \<and> gc_width c = max 0 ((cell_to o' b - cell_from o' a) * ro_pxPerMs o' - or_else (ro_gapPx o') 2)"
  by (auto simp: push_cell_def Let_def split: if_splits)

lemma sorted_wrt_push_cell [simp]: "sorted_wrt P (push_cell o' kind a b program)"
  by (simp add: push_cell_def Let_def)

lemma row_cells_from:
  assumes "b \<le> cursor" "\<forall>p \<in> set ps. b \<le> gp_start p" "c \<in> set (row_cells o' cursor ps)"
  shows "b \<le> gc_start c \<and> cell_from o' (gc_start c) < cell_to o' (gc_end c)"
  using assms
proof (induction ps arbitrary: cursor)
  case (Cons p ps)
  show ?case
  proof (cases "c \<in> set (row_cells o' (max cursor (gp_end p)) ps)")
    case True
    moreover have "b \<le> max cursor (gp_end p)" using Cons.prems(1) by simp
    ultimately show ?thesis using Cons by simp
  next
    case False
    then show ?thesis using Cons.prems by (auto split: if_splits dest!: push_cell_cases)
  qed
qed (auto split: if_splits dest!: push_cell_cases)

lemma cell_bounds: "e \<le> s \<Longrightarrow> cell_to o' e \<le> cell_from o' s"
  by (simp add: cell_to_def cell_from_def)

lemma row_cells_in_order: "normalized ps \<Longrightarrow> sorted_wrt (after o') (row_cells o' cursor ps)"
proof (induction ps arbitrary: cursor)
  case (Cons p ps)
  let ?gap = "if gp_start p > cursor \<and> cursor < range_end o' then push_cell o' Gap_cell cursor (min (gp_start p) (range_end o')) None else []"
  let ?cell = "push_cell o' Program_cell (gp_start p) (gp_end p) (Some p)"
  let ?rest = "row_cells o' (max cursor (gp_end p)) ps"
  have rest: "gp_end p \<le> gc_start d" if "d \<in> set ?rest" for d
    using row_cells_from [of "gp_end p" "max cursor (gp_end p)" ps d o'] Cons.prems that by simp
  have gap: "gc_end c \<le> gp_start p" if "c \<in> set ?gap" for c
    using that by (auto split: if_splits dest!: push_cell_cases)
  have cell: "gc_start c = gp_start p \<and> gc_end c = gp_end p" if "c \<in> set ?cell" for c
    using that by (auto dest!: push_cell_cases)
  have "sorted_wrt (after o') (?gap @ ?cell @ ?rest)"
    unfolding sorted_wrt_append
  proof (intro conjI ballI)
    show "sorted_wrt (after o') ?gap" "sorted_wrt (after o') ?cell" "sorted_wrt (after o') ?rest"
      using Cons by simp_all
    fix c d assume "c \<in> set ?gap" "d \<in> set (?cell @ ?rest)"
    then have "gc_end c \<le> gc_start d"
      using gap [of c] cell [of d] rest [of d] Cons.prems by auto
    then show "after o' c d" by (rule cell_bounds)
  next
    fix c d assume "c \<in> set ?cell" "d \<in> set ?rest"
    then have "gc_end c \<le> gc_start d" using cell [of c] rest [of d] by simp
    then show "after o' c d" by (rule cell_bounds)
  qed
  then show ?case by simp
qed simp

lemma normalized_starts: "normalized (p # ps) \<Longrightarrow> q \<in> set ps \<Longrightarrow> gp_start p \<le> gp_start q"
  by force

lemma row_cells_program:
  "normalized ps \<Longrightarrow> covered o' (Some q) (row_cells o' cursor ps) t \<longleftrightarrow> q \<in> set ps \<and> in_view o' t \<and> airs q t"
proof (induction ps arbitrary: cursor)
  case Nil
  then show ?case by simp
next
  case (Cons p ps)
  show ?case
  proof (cases "gp_start p \<ge> ro_viewEnd o'")
    case True
    then have "\<not> (in_view o' t \<and> airs q t)" if "q \<in> set (p # ps)"
      using normalized_starts [OF Cons.prems, of q] that by (auto simp: in_view_def airs_def)
    then show ?thesis using True by auto
  next
    case False
    then show ?thesis
      using Cons by (auto simp: airs_def)
  qed
qed

lemma row_cells_gap:
  "normalized ps \<Longrightarrow> covered o' None (row_cells o' cursor ps) t
     \<longleftrightarrow> in_view o' t \<and> cursor \<le> t \<and> t < range_end o' \<and> \<not> (\<exists>p \<in> set ps. airs p t)"
proof (induction ps arbitrary: cursor)
  case Nil
  then show ?case by auto
next
  case (Cons p ps)
  show ?case
  proof (cases "gp_start p \<ge> ro_viewEnd o'")
    case True
    then have "\<not> (in_view o' t \<and> airs q t)" if "q \<in> set (p # ps)" for q
      using normalized_starts [OF Cons.prems, of q] that by (auto simp: in_view_def airs_def)
    then show ?thesis using True by auto
  next
    case False
    have later: "\<not> airs q t" if "t < gp_end p" "q \<in> set ps" for q
      using Cons.prems that by (fastforce simp: airs_def)
    have "gp_start p < gp_end p" using Cons.prems by simp
    then show ?thesis
      using Cons False later by (auto simp: airs_def)
  qed
qed

text \<open>Where a cell is drawn.\<close>

definition drawn :: "row_options \<Rightarrow> guide_cell \<Rightarrow> bool" where
  "drawn o' c \<longleftrightarrow> cell_from o' (gc_start c) < cell_to o' (gc_end c)
     \<and> gc_x c = (cell_from o' (gc_start c) - ro_viewStart o') * ro_pxPerMs o'
     \<and> gc_width c = max 0 ((cell_to o' (gc_end c) - cell_from o' (gc_start c)) * ro_pxPerMs o' - or_else (ro_gapPx o') 2)"

lemma push_cell_drawn: "c \<in> set (push_cell o' kind a b program) \<Longrightarrow> drawn o' c"
  by (auto simp: drawn_def dest!: push_cell_cases)

lemma row_cells_drawn: "c \<in> set (row_cells o' cursor ps) \<Longrightarrow> drawn o' c"
  by (induction ps arbitrary: cursor) (auto intro: push_cell_drawn split: if_splits)

lemma drawn_right:
  assumes "drawn o' c" "0 \<le> ro_pxPerMs o'" "0 \<le> or_else (ro_gapPx o') 2"
  shows "0 \<le> gc_x c \<and> gc_x c + gc_width c \<le> (cell_to o' (gc_end c) - ro_viewStart o') * ro_pxPerMs o'"
proof -
  let ?a = "cell_from o' (gc_start c) - ro_viewStart o'" and ?d = "cell_to o' (gc_end c) - cell_from o' (gc_start c)"
  have "0 \<le> ?a" by (simp add: cell_from_def)
  then have x: "0 \<le> ?a * ro_pxPerMs o'" using assms(2) by simp
  have d: "0 \<le> ?d * ro_pxPerMs o'" using assms(1,2) by (simp add: drawn_def)
  have "(cell_to o' (gc_end c) - ro_viewStart o') * ro_pxPerMs o' = ?a * ro_pxPerMs o' + ?d * ro_pxPerMs o'"
    by (simp add: algebra_simps)
  then show ?thesis using assms x d by (simp add: drawn_def)
qed

lemma drawn_apart:
  assumes "drawn o' c" "drawn o' d" "after o' c d" "0 \<le> ro_pxPerMs o'" "0 \<le> or_else (ro_gapPx o') 2"
  shows "gc_x c + gc_width c \<le> gc_x d"
proof -
  have "gc_x c + gc_width c \<le> (cell_to o' (gc_end c) - ro_viewStart o') * ro_pxPerMs o'"
    using drawn_right [OF assms(1,4,5)] by simp
  also have "\<dots> \<le> (cell_from o' (gc_start d) - ro_viewStart o') * ro_pxPerMs o'"
    using assms(3,4) by (intro mult_right_mono) auto
  finally show ?thesis using assms(2) by (simp add: drawn_def)
qed

text \<open>C34. The cells of a row tile the visible span: they come in order and do not overlap, in time or in
  pixels, and stay inside the span; an instant that is seen lies in the cell of a program exactly when
  that program airs then, and in a gap cell exactly when nothing airs and the guide has data for it.\<close>
theorem row_tiles_span:
  assumes ps: "ps = normalizePrograms raw" and px: "0 \<le> ro_pxPerMs o'" "0 \<le> or_else (ro_gapPx o') 2"
  shows "sorted_wrt (\<lambda>c d. after o' c d \<and> gc_x c + gc_width c \<le> gc_x d) (layoutRow ps o')
    \<and> (\<forall>c \<in> set (layoutRow ps o'). 0 \<le> gc_x c \<and> gc_x c + gc_width c \<le> (ro_viewEnd o' - ro_viewStart o') * ro_pxPerMs o')
    \<and> (\<forall>t. in_view o' t \<longrightarrow> (\<forall>q. covered o' (Some q) (layoutRow ps o') t \<longleftrightarrow> q \<in> set ps \<and> airs q t))
    \<and> (\<forall>t. in_view o' t \<longrightarrow> (covered o' None (layoutRow ps o') t \<longleftrightarrow> range_start o' \<le> t \<and> t < range_end o' \<and> \<not> (\<exists>p \<in> set ps. airs p t)))"
proof -
  have norm: "normalized ps" by (simp add: ps)
  let ?rest = "dropWhile (\<lambda>p. gp_end p \<le> ro_viewStart o') ps"
  have row: "layoutRow ps o' = row_cells o' (range_start o') ?rest"
    by (simp add: layoutRow_def firstEndingAfter_scan [OF norm])
  obtain before where before: "ps = before @ ?rest" "\<forall>p \<in> set before. gp_end p \<le> ro_viewStart o'" and rest: "normalized ?rest"
    using ended_split [OF norm] by metis
  have same: "q \<in> set ?rest \<and> airs q t \<longleftrightarrow> q \<in> set ps \<and> airs q t" if "in_view o' t" for q t
  proof -
    have "set ps = set before \<union> set ?rest" using before(1) by (metis set_append)
    then show ?thesis using before(2) that by (auto simp: airs_def in_view_def)
  qed
  have drawn: "\<forall>c \<in> set (layoutRow ps o'). drawn o' c" unfolding row using row_cells_drawn by blast
  have "sorted_wrt (after o') (layoutRow ps o')" unfolding row by (rule row_cells_in_order [OF rest])
  then have "sorted_wrt (\<lambda>c d. after o' c d \<and> gc_x c + gc_width c \<le> gc_x d) (layoutRow ps o')"
    by (rule sorted_wrt_mono_rel [rotated]) (use drawn drawn_apart px in blast)
  moreover have "0 \<le> gc_x c \<and> gc_x c + gc_width c \<le> (ro_viewEnd o' - ro_viewStart o') * ro_pxPerMs o'" if "c \<in> set (layoutRow ps o')" for c
  proof -
    have "(cell_to o' (gc_end c) - ro_viewStart o') * ro_pxPerMs o' \<le> (ro_viewEnd o' - ro_viewStart o') * ro_pxPerMs o'"
      using px(1) by (intro mult_right_mono) (simp_all add: cell_to_def)
    then show ?thesis using drawn_right [OF _ px, of c] drawn that by fastforce
  qed
  moreover have "covered o' (Some q) (layoutRow ps o') t \<longleftrightarrow> q \<in> set ps \<and> airs q t" if "in_view o' t" for q t
    unfolding row row_cells_program [OF rest] using same [OF that] that by blast
  moreover have "covered o' None (layoutRow ps o') t \<longleftrightarrow> range_start o' \<le> t \<and> t < range_end o' \<and> \<not> (\<exists>p \<in> set ps. airs p t)" if "in_view o' t" for t
    unfolding row row_cells_gap [OF rest] using same [OF that] that by blast
  ultimately show ?thesis by blast
qed

definition sample_options :: row_options where
  "sample_options = \<lparr>ro_viewStart = 10, ro_viewEnd = 55, ro_pxPerMs = 4, ro_now = 32, ro_gapPx = None, ro_tiers = None, ro_rangeStart = None, ro_rangeEnd = None\<rparr>"

lemma row_tiles_span_witness:
  "length (layoutRow (normalizePrograms sample_day) sample_options) = 4
     \<and> sorted_wrt (after sample_options) (layoutRow (normalizePrograms sample_day) sample_options)"
proof -
  have "length (layoutRow (normalizePrograms sample_day) sample_options) = 4"
    unfolding layoutRow_def
    by (subst firstEndingAfter_scan [OF normalizePrograms_normalized], subst sample_day_normalized)
      (simp add: sample_program_def sample_options_def push_cell_def range_start_def range_end_def cell_from_def cell_to_def Let_def)
  moreover have "sorted_wrt (\<lambda>c d. after sample_options c d \<and> gc_x c + gc_width c \<le> gc_x d) (layoutRow (normalizePrograms sample_day) sample_options)"
    using row_tiles_span [OF refl, of sample_options sample_day] by (simp add: sample_options_def)
  ultimately show ?thesis by (auto elim: sorted_wrt_mono_rel [rotated])
qed

section \<open>Where focus goes\<close>

text \<open>The scan keeps the first cell whose start is nearest, unless a cell holds the focus time.\<close>

lemma focus_scan_nearest:
  assumes "best < i" "d = \<bar>gc_start (cells ! best) - t\<bar>" "i \<le> length cells" "\<forall>j < i. d \<le> \<bar>gc_start (cells ! j) - t\<bar> \<and> \<not> (gc_start (cells ! j) \<le> t \<and> t < gc_end (cells ! j))"
  defines "k \<equiv> focus_scan (drop i cells) t i best (Some d)"
  shows "k < length cells \<and> ((gc_start (cells ! k) \<le> t \<and> t < gc_end (cells ! k))
     \<or> (\<forall>j < length cells. \<bar>gc_start (cells ! k) - t\<bar> \<le> \<bar>gc_start (cells ! j) - t\<bar> \<and> \<not> (gc_start (cells ! j) \<le> t \<and> t < gc_end (cells ! j))))"
  using assms(1-4) unfolding k_def
proof (induction "length cells - i" arbitrary: i best d)
  case 0
  then show ?case by auto
next
  case (Suc n)
  then have i: "i < length cells" by linarith
  then have cells: "drop i cells = cells ! i # drop (Suc i) cells" by (simp add: Cons_nth_drop_Suc)
  have n: "n = length cells - Suc i" using Suc.hyps(2) by linarith
  let ?e = "\<bar>gc_start (cells ! i) - t\<bar>"
  show ?case
  proof (cases "gc_start (cells ! i) \<le> t \<and> t < gc_end (cells ! i)")
    case True
    then show ?thesis using i by (simp add: cells)
  next
    case False
    show ?thesis
    proof (cases "?e < d")
      case True
      have "\<forall>j < Suc i. ?e \<le> \<bar>gc_start (cells ! j) - t\<bar> \<and> \<not> (gc_start (cells ! j) \<le> t \<and> t < gc_end (cells ! j))"
        using Suc.prems(4) True False by (auto simp: less_Suc_eq)
      with Suc.hyps(1) [OF n, of i ?e] i False True show ?thesis by (simp add: cells Let_def)
    next
      case False': False
      have "\<forall>j < Suc i. d \<le> \<bar>gc_start (cells ! j) - t\<bar> \<and> \<not> (gc_start (cells ! j) \<le> t \<and> t < gc_end (cells ! j))"
        using Suc.prems(4) False False' by (auto simp: less_Suc_eq)
      with Suc.hyps(1) [OF n, of best d] Suc.prems i False False' show ?thesis by (simp add: cells Let_def)
    qed
  qed
qed

lemma focusTarget_nearest:
  assumes "cells \<noteq> []"
  obtains k where "focusTarget cells t = int k" "k < length cells"
    "(gc_start (cells ! k) \<le> t \<and> t < gc_end (cells ! k))
     \<or> (\<forall>j < length cells. \<bar>gc_start (cells ! k) - t\<bar> \<le> \<bar>gc_start (cells ! j) - t\<bar> \<and> \<not> (gc_start (cells ! j) \<le> t \<and> t < gc_end (cells ! j)))"
proof (cases cells)
  case (Cons c cs)
  show ?thesis
  proof (cases "gc_start c \<le> t \<and> t < gc_end c")
    case True
    then show ?thesis using that [of 0] Cons by (simp add: focusTarget_def)
  next
    case False
    then have "focusTarget cells t = int (focus_scan (drop 1 cells) t 1 0 (Some \<bar>gc_start c - t\<bar>))"
      using Cons by (simp only: focusTarget_def Let_def focus_scan.simps option.case if_True list.distinct if_False drop_Suc_Cons drop_0 One_nat_def add_0)
    then show ?thesis
      using focus_scan_nearest [of 0 1 "\<bar>gc_start c - t\<bar>" cells t] that False Cons by simp
  qed
qed (use assms in simp)

end
