(* ===== verification/Guide_Time.thy ===== *)
theory Guide_Time
  imports JS_Prelude
begin

text \<open>
  The guide's time arithmetic (guide/time.ts). Times are milliseconds, as finite numbers; the offset
  of the viewer's time zone from UTC at an instant (\<open>Intl.DateTimeFormat\<close>) is the parameter
  \<open>zone\<close>. A calendar date is its day number, counted from the epoch: the year, month and day that
  \<open>localDate\<close> takes apart are put together again by \<open>Date.UTC\<close> or compared as a whole.
\<close>

section \<open>Constants\<close>

definition MINUTE_MS :: rat where "MINUTE_MS = 60000"
definition SLOT_MS :: rat where "SLOT_MS = 30 * MINUTE_MS"
definition HOUR_MS :: rat where "HOUR_MS = 60 * MINUTE_MS"
definition BLOCK_MS :: rat where "BLOCK_MS = 3 * HOUR_MS"
definition DAY_MS :: rat where "DAY_MS = 24 * HOUR_MS"

lemmas guide_constants = MINUTE_MS_def SLOT_MS_def HOUR_MS_def BLOCK_MS_def DAY_MS_def

section \<open>Steps and blocks\<close>

definition floorTo :: "rat \<Rightarrow> rat \<Rightarrow> rat" where
  "floorTo ms step = of_int \<lfloor>ms / step\<rfloor> * step"

definition ceilTo :: "rat \<Rightarrow> rat \<Rightarrow> rat" where
  "ceilTo ms step = of_int \<lceil>ms / step\<rceil> * step"

text \<open>
  The loop of \<open>blocksCovering\<close>. With a negative block it never ends (None); with a zero block
  \<open>floorTo\<close> is not a number and the loop does not start.
\<close>

partial_function (option) blocks_from :: "rat \<Rightarrow> rat \<Rightarrow> rat \<Rightarrow> rat list option" where
  "blocks_from t stop blockMs =
     (if t < stop then Option.bind (blocks_from (t + blockMs) stop blockMs) (\<lambda>rest. Some (t # rest)) else Some [])"

declare blocks_from.simps [code]

definition blocksCovering :: "rat \<Rightarrow> rat \<Rightarrow> rat \<Rightarrow> rat list option" where
  "blocksCovering start stop blockMs =
     (if \<not> stop > start \<or> blockMs = 0 then Some [] else blocks_from (floorTo start blockMs) stop blockMs)"

definition pxPerMsFor :: "rat \<Rightarrow> rat \<Rightarrow> rat" where
  "pxPerMsFor columnPx slotMs = columnPx / slotMs"

definition nowX :: "rat \<Rightarrow> rat \<Rightarrow> rat \<Rightarrow> rat \<Rightarrow> rat option" where
  "nowX now viewStart viewEnd pxPerMs =
     (if now < viewStart \<or> now \<ge> viewEnd then None else Some ((now - viewStart) * pxPerMs))"

section \<open>Local days\<close>

definition localDate :: "(rat \<Rightarrow> rat) \<Rightarrow> rat \<Rightarrow> int" where
  "localDate zone ms = \<lfloor>(ms + zone ms) / DAY_MS\<rfloor>"

definition localDayStart :: "(rat \<Rightarrow> rat) \<Rightarrow> rat \<Rightarrow> rat" where
  "localDayStart zone ms =
     (let day = localDate zone ms;
          wall = of_int day * DAY_MS;
          guess = wall - zone wall;
          guess = wall - zone guess
      in if localDate zone guess \<noteq> day then guess + HOUR_MS else guess)"

text \<open>The loop of \<open>dayStarts\<close>, with the number of days already listed.\<close>

function day_starts_from :: "(rat \<Rightarrow> rat) \<Rightarrow> nat \<Rightarrow> rat \<Rightarrow> rat \<Rightarrow> rat list" where
  "day_starts_from zone listed t stop =
     (if t < stop \<and> listed < 400 then t # day_starts_from zone (listed + 1) (localDayStart zone (t + 26 * HOUR_MS)) stop else [])"
  by pat_completeness auto
termination
  by (relation "measure (\<lambda>(zone, listed, t, stop). 400 - listed)") auto

declare day_starts_from.simps [simp del]

definition dayStarts :: "(rat \<Rightarrow> rat) \<Rightarrow> rat \<Rightarrow> rat \<Rightarrow> rat list" where
  "dayStarts zone from stop = day_starts_from zone 0 (localDayStart zone from) stop"

section \<open>The ruler and the span\<close>

datatype tick_kind = Hour_tick | Half_tick | Day_tick

record ruler_tick =
  rt_atMs :: rat
  rt_x :: rat
  rt_kind :: tick_kind

definition js_rem :: "rat \<Rightarrow> rat \<Rightarrow> rat" where
  "js_rem a b = a - b * (if a / b \<ge> 0 then of_int \<lfloor>a / b\<rfloor> else of_int \<lceil>a / b\<rceil>)"

definition ruler_tick_at :: "(rat \<Rightarrow> rat) \<Rightarrow> rat \<Rightarrow> rat \<Rightarrow> rat \<Rightarrow> ruler_tick" where
  "ruler_tick_at zone viewStart pxPerMs t =
     (let local = t + zone t;
          minuteOfDay = js_rem (js_rem local DAY_MS + DAY_MS) DAY_MS
      in \<lparr>rt_atMs = t, rt_x = (t - viewStart) * pxPerMs,
          rt_kind = (if minuteOfDay = 0 then Day_tick else if js_rem minuteOfDay HOUR_MS = 0 then Hour_tick else Half_tick)\<rparr>)"

lemma fewer_steps: "0 < step \<Longrightarrow> t < stop \<Longrightarrow> nat \<lceil>(stop - (t + step)) / step\<rceil> < nat \<lceil>(stop - t) / step\<rceil>"
  for step :: rat
proof -
  assume step: "0 < step" "t < stop"
  have "(stop - (t + step)) / step = (stop - t) / step - 1" using step by (simp add: field_simps)
  moreover have "0 < (stop - t) / step" using step by simp
  ultimately show ?thesis by (simp add: ceiling_diff_one)
qed

function ruler_from :: "(rat \<Rightarrow> ruler_tick) \<Rightarrow> rat \<Rightarrow> rat \<Rightarrow> rat \<Rightarrow> ruler_tick list" where
  "ruler_from tick slotMs t viewEnd =
     (if 0 < slotMs \<and> t < viewEnd then tick t # ruler_from tick slotMs (t + slotMs) viewEnd else [])"
  by pat_completeness auto
termination
  by (relation "measure (\<lambda>(tick, slotMs, t, viewEnd). nat \<lceil>(viewEnd - t) / slotMs\<rceil>)") (simp_all only: fewer_steps wf_measure in_measure split_conv)

declare ruler_from.simps [simp del]

definition rulerTicks :: "(rat \<Rightarrow> rat) \<Rightarrow> rat \<Rightarrow> rat \<Rightarrow> rat \<Rightarrow> js_num \<Rightarrow> ruler_tick list" where
  "rulerTicks zone viewStart viewEnd pxPerMs slotMs =
     (case slotMs of
        Fin slot \<Rightarrow>
          if slot \<le> 0 then []
          else let offset = zone viewStart
               in ruler_from (ruler_tick_at zone viewStart pxPerMs) slot (ceilTo (viewStart + offset) slot - offset) viewEnd
      | _ \<Rightarrow> [])"

definition spanAt :: "rat \<Rightarrow> rat \<Rightarrow> rat \<Rightarrow> rat \<times> rat" where
  "spanAt anchor spanMs lead = (let start = floorTo (anchor - spanMs * lead) MINUTE_MS in (start, start + spanMs))"

definition clampSpan :: "rat \<Rightarrow> rat \<Rightarrow> rat \<Rightarrow> rat \<Rightarrow> rat \<times> rat" where
  "clampSpan start spanMs rangeStart rangeEnd =
     (let s = max rangeStart (min start (rangeEnd - spanMs)) in (s, s + spanMs))"

section \<open>Facts\<close>

lemma floorTo_bounds: "0 < step \<Longrightarrow> floorTo ms step \<le> ms \<and> ms < floorTo ms step + step"
proof -
  assume step: "0 < step"
  have "of_int \<lfloor>ms / step\<rfloor> \<le> ms / step" "ms / step < of_int \<lfloor>ms / step\<rfloor> + 1" by linarith+
  then have "of_int \<lfloor>ms / step\<rfloor> * step \<le> ms" "ms < (of_int \<lfloor>ms / step\<rfloor> + 1) * step"
    using step by (simp_all add: le_divide_eq divide_less_eq)
  then show ?thesis by (simp add: floorTo_def distrib_right)
qed

text \<open>With a positive block the loop ends, and lists the starts of the blocks from \<open>t\<close> on.\<close>

lemma blocks_from_lists:
  "0 < b \<Longrightarrow> \<exists>n. blocks_from t stop b = Some (map (\<lambda>i. t + of_nat i * b) [0..<n]) \<and> stop \<le> t + of_nat n * b \<and> (\<forall>i < n. t + of_nat i * b < stop)"
proof (induction "nat \<lceil>(stop - t) / b\<rceil>" arbitrary: t rule: less_induct)
  case less
  show ?case
  proof (cases "t < stop")
    case False
    then show ?thesis by (intro exI [of _ 0]) (subst blocks_from.simps, simp)
  next
    case True
    obtain n where n: "blocks_from (t + b) stop b = Some (map (\<lambda>i. t + b + of_nat i * b) [0..<n])"
        "stop \<le> t + b + of_nat n * b" "\<forall>i < n. t + b + of_nat i * b < stop"
      using less.hyps [OF fewer_steps [OF less.prems True] less.prems] by blast
    have "t # map (\<lambda>i. t + b + of_nat i * b) [0..<n] = map (\<lambda>i. t + of_nat i * b) [0..<Suc n]"
      by (simp add: upt_conv_Cons map_Suc_upt [symmetric] distrib_right add.assoc del: upt_Suc)
    moreover have "blocks_from t stop b = Some (t # map (\<lambda>i. t + b + of_nat i * b) [0..<n])"
      using True n(1) by (subst blocks_from.simps) simp
    moreover have "\<forall>i < Suc n. t + of_nat i * b < stop"
      using n(3) True by (auto simp: less_Suc_eq_0_disj distrib_right add.assoc)
    moreover have "stop \<le> t + of_nat (Suc n) * b" using n(2) by (simp add: distrib_right add.assoc)
    ultimately show ?thesis by (intro exI [of _ "Suc n"]) simp
  qed
qed

text \<open>The blocks listed are the aligned ones that meet the interval, and together they cover it.\<close>

lemma blocksCovering_covers:
  assumes "0 < b" "start < stop"
  shows "\<exists>blocks. blocksCovering start stop b = Some blocks
    \<and> (\<forall>t \<in> set blocks. (\<exists>k :: int. t = of_int k * b) \<and> t < stop \<and> start < t + b)
    \<and> (\<forall>u. start \<le> u \<and> u < stop \<longrightarrow> (\<exists>t \<in> set blocks. t \<le> u \<and> u < t + b))"
proof -
  let ?t = "floorTo start b"
  obtain n where n: "blocks_from ?t stop b = Some (map (\<lambda>i. ?t + of_nat i * b) [0..<n])" "stop \<le> ?t + of_nat n * b" "\<forall>i < n. ?t + of_nat i * b < stop"
    using blocks_from_lists [OF assms(1)] by blast
  have t: "?t \<le> start" "start < ?t + b" using floorTo_bounds [OF assms(1)] by auto
  have aligned: "\<exists>k :: int. ?t + of_nat i * b = of_int k * b" for i
    by (rule exI [of _ "\<lfloor>start / b\<rfloor> + int i"]) (simp add: floorTo_def distrib_right)
  have late: "start < ?t + of_nat i * b + b" for i
  proof -
    have "0 \<le> of_nat i * b" using assms(1) by simp
    then show ?thesis using t(2) by linarith
  qed
  have found: "\<exists>i < n. ?t + of_nat i * b \<le> u \<and> u < ?t + of_nat i * b + b" if u: "start \<le> u" "u < stop" for u
  proof -
    let ?i = "nat \<lfloor>(u - ?t) / b\<rfloor>"
    have "0 \<le> (u - ?t) / b" using t(1) u(1) assms(1) by simp
    then have i: "(of_nat ?i :: rat) = of_int \<lfloor>(u - ?t) / b\<rfloor>" by simp
    have within: "of_nat ?i * b \<le> u - ?t" "u - ?t < of_nat ?i * b + b"
      using floorTo_bounds [OF assms(1), of "u - ?t"] unfolding i floorTo_def [of "u - ?t"] by (rule conjunct1, rule conjunct2)
    then have "of_nat ?i * b < of_nat n * b" using n(2) u(2) by linarith
    then have "?i < n" using assms(1) by (simp add: mult_less_cancel_right)
    then show ?thesis using within by (intro exI [of _ ?i]) linarith
  qed
  let ?blocks = "map (\<lambda>i. ?t + of_nat i * b) [0..<n]"
  have "blocksCovering start stop b = Some ?blocks" using assms n(1) by (simp add: blocksCovering_def)
  moreover have "\<forall>t \<in> set ?blocks. (\<exists>k :: int. t = of_int k * b) \<and> t < stop \<and> start < t + b"
    using n(3) aligned late by auto
  moreover have "\<exists>t \<in> set ?blocks. t \<le> u \<and> u < t + b" if "start \<le> u" "u < stop" for u
    using found [OF that] by (simp add: image_iff Bex_def) blast
  ultimately show ?thesis by blast
qed

lemma clampSpan_within: "spanMs \<le> rangeEnd - rangeStart \<Longrightarrow>
   rangeStart \<le> fst (clampSpan start spanMs rangeStart rangeEnd) \<and> snd (clampSpan start spanMs rangeStart rangeEnd) \<le> rangeEnd"
  by (simp add: clampSpan_def Let_def)

lemma day_starts_from_bounded: "listed \<le> 400 \<Longrightarrow> length (day_starts_from zone listed t stop) \<le> 400 - listed \<and> (\<forall>u \<in> set (day_starts_from zone listed t stop). u < stop)"
proof (induction zone listed t stop rule: day_starts_from.induct)
  case (1 zone listed t stop)
  then show ?case
    by (cases "t < stop \<and> listed < 400") (subst (1 2) day_starts_from.simps; auto)+
qed

text \<open>In a zone with a fixed offset the day starts at local midnight, and the next start is a day later.\<close>

lemma localDayStart_fixed: "localDayStart (\<lambda>_. z) ms = of_int \<lfloor>(ms + z) / DAY_MS\<rfloor> * DAY_MS - z"
  by (simp add: localDayStart_def localDate_def Let_def guide_constants)

lemma localDayStart_next: "localDayStart (\<lambda>_. z) (localDayStart (\<lambda>_. z) ms + 26 * HOUR_MS) = localDayStart (\<lambda>_. z) ms + DAY_MS"
proof -
  let ?k = "\<lfloor>(ms + z) / DAY_MS\<rfloor>"
  have "\<lfloor>(of_int ?k * DAY_MS + 26 * HOUR_MS) / DAY_MS\<rfloor> = ?k + 1"
    by (rule floor_unique) (simp_all add: guide_constants divide_simps)
  then show ?thesis by (simp add: localDayStart_fixed algebra_simps)
qed

end
