(* ===== verification/Guide_Retry.thy ===== *)
theory Guide_Retry
  imports JS_Value
begin

text \<open>
  How long a guide load waits after a 429 answer (guide/rate-limit.ts). \<open>Date.parse\<close> is the
  parameter \<open>date_parse\<close>, the clock and the random source are values read once.
\<close>

section \<open>The functions\<close>

definition isRateLimited :: "jsval \<Rightarrow> bool" where
  "isRateLimited e \<longleftrightarrow> is_record e \<and> at_key e ''status'' = JNum (Fin 429)"

fun first_text_or_number :: "jsval \<Rightarrow> string list \<Rightarrow> jsval" where
  "first_text_or_number h [] = JUndef"
| "first_text_or_number h (k # ks) =
     (case at_key h k of JStr s \<Rightarrow> JStr s | JNum n \<Rightarrow> JNum n | _ \<Rightarrow> first_text_or_number h ks)"

definition headerValue :: "jsval \<Rightarrow> jsval" where
  "headerValue headers =
     (if \<not> is_record headers then JUndef
      else first_text_or_number headers [''Retry-After'', ''retry-after'', ''RETRY-AFTER''])"

definition is_space :: "char \<Rightarrow> bool" where
  "is_space c \<longleftrightarrow> (of_char c :: nat) \<in> {9, 10, 11, 12, 13, 32, 160}"

definition js_trim :: "string \<Rightarrow> string" where
  "js_trim s = rev (dropWhile is_space (rev (dropWhile is_space s)))"

definition parseRetryAfter :: "(string \<Rightarrow> js_num) \<Rightarrow> rat \<Rightarrow> jsval \<Rightarrow> rat option" where
  "parseRetryAfter date_parse now v =
     (case v of
        JNum (Fin r) \<Rightarrow> if r < 0 then None else Some (min (r * 1000) 30000)
      | JStr s \<Rightarrow>
          if s = [] then None
          else let trimmed = js_trim s
               in if trimmed \<noteq> [] \<and> list_all is_digit trimmed then Some (min (of_nat (numeral_value trimmed) * 1000) 30000)
                  else case date_parse trimmed of
                         Fin time \<Rightarrow> Some (min (max (time - now) 0) 30000)
                       | _ \<Rightarrow> None
      | _ \<Rightarrow> None)"

definition retryAfterMs :: "(string \<Rightarrow> js_num) \<Rightarrow> rat \<Rightarrow> jsval \<Rightarrow> rat option" where
  "retryAfterMs date_parse now e =
     (if \<not> isRateLimited e then None
      else case parseRetryAfter date_parse now (at_key e ''retryAfterSeconds'') of
             Some ms \<Rightarrow> Some ms
           | None \<Rightarrow>
               (case parseRetryAfter date_parse now (at_key e ''retryAfter'') of
                  Some ms \<Rightarrow> Some ms
                | None \<Rightarrow> parseRetryAfter date_parse now (headerValue (at_key e ''headers''))))"

definition rateLimitDelay :: "(string \<Rightarrow> js_num) \<Rightarrow> rat \<Rightarrow> jsval \<Rightarrow> int \<Rightarrow> rat \<Rightarrow> rat" where
  "rateLimitDelay date_parse now e attempt random =
     (case retryAfterMs date_parse now e of
        Some directed \<Rightarrow> min (directed + of_int \<lfloor>random * 250\<rfloor>) 30000
      | None \<Rightarrow>
          let backoff = min (500 * 2 ^ nat (max (attempt - 1) 0)) 10000
          in backoff + of_int \<lfloor>random * 250\<rfloor>)"

definition GUIDE_RATE_LIMIT_ATTEMPTS :: nat where
  "GUIDE_RATE_LIMIT_ATTEMPTS = 3"

section \<open>Bounds\<close>

lemma parseRetryAfter_bounds: "parseRetryAfter date_parse now v = Some ms \<Longrightarrow> 0 \<le> ms \<and> ms \<le> 30000"
  by (auto simp: parseRetryAfter_def Let_def split: jsval.splits js_num.splits if_splits)

lemma retryAfterMs_bounds: "retryAfterMs date_parse now e = Some ms \<Longrightarrow> 0 \<le> ms \<and> ms \<le> 30000"
  by (auto simp: retryAfterMs_def dest: parseRetryAfter_bounds split: if_splits option.splits)

lemma jitter_bounds: "0 \<le> random \<Longrightarrow> random < 1 \<Longrightarrow> 0 \<le> \<lfloor>random * 250\<rfloor> \<and> \<lfloor>random * 250\<rfloor> < 250" for random :: rat
  by (auto simp: floor_less_iff)

text \<open>A retry waits half a second to ten and a quarter seconds, or at least what the server asked
  for and never more than half a minute.\<close>

lemma rateLimitDelay_bounds:
  assumes "0 \<le> random" "random < 1"
  shows "case retryAfterMs date_parse now e of
      Some ms \<Rightarrow> ms \<le> rateLimitDelay date_parse now e attempt random \<and> rateLimitDelay date_parse now e attempt random \<le> 30000
    | None \<Rightarrow> 500 \<le> rateLimitDelay date_parse now e attempt random \<and> rateLimitDelay date_parse now e attempt random < 10250"
proof -
  have j: "0 \<le> (of_int \<lfloor>random * 250\<rfloor> :: rat)" "(of_int \<lfloor>random * 250\<rfloor> :: rat) < 250"
    using jitter_bounds [OF assms] by (simp_all only: of_int_0_le_iff) (metis of_int_less_iff of_int_numeral)
  have "(1::rat) \<le> 2 ^ nat (max (attempt - 1) 0)" by simp
  then have "(500::rat) \<le> min (500 * 2 ^ nat (max (attempt - 1) 0)) 10000" by simp
  then have backoff: "500 \<le> min (500 * 2 ^ nat (max (attempt - 1) 0)) (10000::rat)"
    "min (500 * 2 ^ nat (max (attempt - 1) 0)) (10000::rat) \<le> 10000" by simp_all
  show ?thesis
  proof (cases "retryAfterMs date_parse now e")
    case None
    have "rateLimitDelay date_parse now e attempt random = min (500 * 2 ^ nat (max (attempt - 1) 0)) 10000 + of_int \<lfloor>random * 250\<rfloor>"
      by (simp add: rateLimitDelay_def None)
    then show ?thesis using j backoff unfolding None option.case by linarith
  next
    case (Some ms)
    then show ?thesis using j retryAfterMs_bounds [OF Some] by (simp add: rateLimitDelay_def)
  qed
qed

end
