(* ===== verification/Server_Clock.thy ===== *)
theory Server_Clock
  imports JS_Prelude
begin

text \<open>
  The estimate of the server's clock for group playback, and the correction of a member that
  drifts (playback-v1/clock.ts). The client's clock is an argument of each operation that reads it.
\<close>

section \<open>The clock\<close>

fun js_sub :: "js_num \<Rightarrow> js_num \<Rightarrow> js_num" where
  "js_sub (Fin a) (Fin b) = Fin (a - b)"
| "js_sub NaN _ = NaN"
| "js_sub _ NaN = NaN"
| "js_sub PosInf PosInf = NaN"
| "js_sub NegInf NegInf = NaN"
| "js_sub PosInf _ = PosInf"
| "js_sub NegInf _ = NegInf"
| "js_sub (Fin _) PosInf = NegInf"
| "js_sub (Fin _) NegInf = PosInf"

definition js_add :: "js_num \<Rightarrow> js_num \<Rightarrow> js_num" where
  "js_add a b = js_sub a (js_sub (Fin 0) b)"

record clock_sample =
  cs_t0 :: js_num
  cs_t1 :: js_num
  cs_t2 :: js_num
  cs_t3 :: js_num

record clock_entry =
  ce_offset :: rat
  ce_rtt :: rat
  ce_at :: rat

record clock_estimate =
  est_offsetMs :: rat
  est_rttMs :: rat
  est_samples :: nat

record server_clock =
  sc_window :: "clock_entry list"
  sc_size :: rat
  sc_maxAgeMs :: rat

definition new_clock :: "rat option \<Rightarrow> rat option \<Rightarrow> server_clock" where
  "new_clock window maxAgeMs =
     \<lparr>sc_window = [],
      sc_size = max 1 (case window of Some w \<Rightarrow> w | None \<Rightarrow> 8),
      sc_maxAgeMs = (case maxAgeMs of Some m \<Rightarrow> m | None \<Rightarrow> 10 * 60000)\<rparr>"

definition clock_add :: "clock_sample \<Rightarrow> server_clock \<Rightarrow> bool \<times> server_clock" where
  "clock_add s c =
     (case (js_sub (js_sub (cs_t3 s) (cs_t0 s)) (js_sub (cs_t2 s) (cs_t1 s)),
            js_add (js_sub (cs_t1 s) (cs_t0 s)) (js_sub (cs_t2 s) (cs_t3 s)), cs_t1 s, cs_t2 s, cs_t3 s) of
        (Fin rtt, Fin twice, Fin t1, Fin t2, Fin t3) \<Rightarrow>
          if rtt < 0 \<or> t2 < t1 then (False, c)
          else let w = sc_window c @ [\<lparr>ce_offset = twice / 2, ce_rtt = rtt, ce_at = t3\<rparr>]
               in (True, c\<lparr>sc_window := (if of_nat (length w) > sc_size c then tl w else w)\<rparr>)
      | _ \<Rightarrow> (False, c))"

definition fresh_samples :: "rat \<Rightarrow> server_clock \<Rightarrow> clock_entry list" where
  "fresh_samples now c = filter (\<lambda>w. now - ce_at w \<le> sc_maxAgeMs c) (sc_window c)"

definition estimate :: "rat \<Rightarrow> server_clock \<Rightarrow> clock_estimate option" where
  "estimate now c =
     (case fresh_samples now c of
        [] \<Rightarrow> None
      | w # ws \<Rightarrow>
          let best = foldl (\<lambda>a b. if ce_rtt b < ce_rtt a then b else a) w ws
          in Some \<lparr>est_offsetMs = ce_offset best, est_rttMs = ce_rtt best, est_samples = length (w # ws)\<rparr>)"

definition estimated_offset :: "rat \<Rightarrow> server_clock \<Rightarrow> rat" where
  "estimated_offset now c = (case estimate now c of Some e \<Rightarrow> est_offsetMs e | None \<Rightarrow> 0)"

definition serverNow :: "rat \<Rightarrow> server_clock \<Rightarrow> rat" where
  "serverNow now c = now + estimated_offset now c"

definition toClient :: "rat \<Rightarrow> rat \<Rightarrow> server_clock \<Rightarrow> rat" where
  "toClient serverMs now c = serverMs - estimated_offset now c"

section \<open>The shared timeline\<close>

record shared_timeline =
  tl_state :: string
  tl_positionMs :: rat
  tl_rate :: rat
  tl_atServerTimeMs :: rat

definition timelinePosition :: "shared_timeline \<Rightarrow> rat \<Rightarrow> rat" where
  "timelinePosition t now =
     (if tl_state t \<noteq> ''playing'' then tl_positionMs t
      else tl_positionMs t + max 0 (now - tl_atServerTimeMs t) * tl_rate t)"

datatype drift_correction = No_correction | Rate_correction rat | Seek_correction rat

definition driftCorrection :: "rat \<Rightarrow> rat \<Rightarrow> rat \<Rightarrow> rat option \<Rightarrow> rat option \<Rightarrow> rat option \<Rightarrow> drift_correction" where
  "driftCorrection localMs targetMs baseRate toleranceMs seekAboveMs maxNudge =
     (let tolerance = (case toleranceMs of Some v \<Rightarrow> v | None \<Rightarrow> 40);
          seekAbove = (case seekAboveMs of Some v \<Rightarrow> v | None \<Rightarrow> 500);
          nudgeMax = (case maxNudge of Some v \<Rightarrow> v | None \<Rightarrow> 5 / 100);
          drift = targetMs - localMs
      in if \<bar>drift\<bar> \<le> tolerance then No_correction
         else if \<bar>drift\<bar> > seekAbove then Seek_correction (max 0 targetMs)
         else let nudge = max (- nudgeMax) (min nudgeMax (drift / 2000))
              in Rate_correction (baseRate * (1 + nudge)))"

section \<open>Facts\<close>

text \<open>The window holds samples that are possible, and no more of them than its size.\<close>

definition clock_wf :: "server_clock \<Rightarrow> bool" where
  "clock_wf c \<longleftrightarrow> 1 \<le> sc_size c \<and> of_nat (length (sc_window c)) \<le> sc_size c \<and> (\<forall>w \<in> set (sc_window c). 0 \<le> ce_rtt w)"

lemma new_clock_wf: "clock_wf (new_clock window maxAgeMs)"
  by (simp add: clock_wf_def new_clock_def)

lemma window_push:
  "clock_wf c \<Longrightarrow> 0 \<le> ce_rtt w \<Longrightarrow>
   clock_wf (c\<lparr>sc_window := (if of_nat (length (sc_window c @ [w])) > sc_size c then tl (sc_window c @ [w]) else sc_window c @ [w])\<rparr>)"
  by (cases "sc_window c") (auto simp: clock_wf_def)

lemma clock_add_wf: "clock_wf c \<Longrightarrow> clock_wf (snd (clock_add s c))"
  using window_push [of c] by (auto simp: clock_add_def Let_def split: js_num.split)

lemma js_sub_finite: "js_sub a b = Fin r \<longleftrightarrow> (\<exists>x y. a = Fin x \<and> b = Fin y \<and> r = x - y)"
  by (cases a; cases b) auto

text \<open>A sample counts exactly when its four times are finite, the server did not answer before it
  was asked and the round trip is not negative.\<close>

lemma clock_add_accepts:
  "fst (clock_add s c) \<longleftrightarrow> (\<exists>t0 t1 t2 t3. cs_t0 s = Fin t0 \<and> cs_t1 s = Fin t1 \<and> cs_t2 s = Fin t2 \<and> cs_t3 s = Fin t3
     \<and> t1 \<le> t2 \<and> t2 - t1 \<le> t3 - t0)"
  by (cases "cs_t0 s"; cases "cs_t1 s"; cases "cs_t2 s"; cases "cs_t3 s") (auto simp: clock_add_def js_add_def Let_def)

abbreviation best_of :: "clock_entry \<Rightarrow> clock_entry list \<Rightarrow> clock_entry" where
  "best_of w ws \<equiv> foldl (\<lambda>a b. if ce_rtt b < ce_rtt a then b else a) w ws"

lemma best_sample: "best_of w ws \<in> set (w # ws) \<and> (\<forall>v \<in> set (w # ws). ce_rtt (best_of w ws) \<le> ce_rtt v)"
proof (induction ws arbitrary: w)
  case (Cons v ws)
  show ?case
    using Cons [of w] Cons [of v] by (cases "ce_rtt v < ce_rtt w") (auto simp del: foldl_Cons simp: foldl_Cons [of _ _ v] intro: order_trans)
qed simp

text \<open>The estimate is the fresh sample with the smallest round trip.\<close>

lemma estimate_best:
  assumes "estimate now c = Some e"
  shows "\<exists>w \<in> set (fresh_samples now c). est_offsetMs e = ce_offset w \<and> est_rttMs e = ce_rtt w
    \<and> (\<forall>v \<in> set (fresh_samples now c). ce_rtt w \<le> ce_rtt v)"
proof (cases "fresh_samples now c")
  case (Cons w ws)
  have "est_offsetMs e = ce_offset (best_of w ws)" "est_rttMs e = ce_rtt (best_of w ws)"
    using assms unfolding estimate_def Cons by (auto simp: Let_def)
  then show ?thesis using best_sample [of w ws] unfolding Cons by blast
qed (use assms in \<open>simp add: estimate_def\<close>)

text \<open>With the defaults a correction nudges the rate by at most five percent, towards the target,
  and a seek is made only for more than half a second.\<close>

lemma driftCorrection_bounds:
  "case driftCorrection l t rate None None None of
     No_correction \<Rightarrow> \<bar>t - l\<bar> \<le> 40
   | Rate_correction r \<Rightarrow> \<bar>t - l\<bar> \<le> 500 \<and> (\<exists>n. r = rate * (1 + n) \<and> \<bar>n\<bar> \<le> 5 / 100 \<and> (0 < n \<longleftrightarrow> l < t))
   | Seek_correction p \<Rightarrow> 500 < \<bar>t - l\<bar> \<and> p = max 0 t"
proof -
  let ?n = "max (- (5 / 100)) (min (5 / 100) ((t - l) / 2000))"
  have "\<bar>?n\<bar> \<le> 5 / 100" by (simp add: abs_le_iff)
  moreover have "0 < ?n \<longleftrightarrow> l < t" by (simp add: max_def min_def)
  ultimately show ?thesis by (auto simp: driftCorrection_def Let_def intro!: exI [of _ ?n])
qed

end
