(* ===== verification/Manual_Order.thy ===== *)
theory Manual_Order
  imports JS_Prelude
begin

text \<open>
  Moving one entry of a list that keeps its own order (presentation/manual-order.ts): the moves
  offered, the request the server is sent, and the order shown before the server has answered.
\<close>

section \<open>The functions\<close>

datatype manual_move = Move_top | Move_up | Move_down | Move_bottom

definition manualMoves :: "int \<Rightarrow> int \<Rightarrow> bool \<Rightarrow> manual_move list" where
  "manualMoves index count whole =
     (if index < 0 \<or> index \<ge> count \<or> count < 2 then []
      else (if index > 0 then [Move_top, Move_up] else [])
         @ (if index < count - 1 then [Move_down] else [])
         @ (if index < count - 1 \<and> whole then [Move_bottom] else []))"

definition moveTarget :: "manual_move \<Rightarrow> int \<Rightarrow> int \<Rightarrow> int" where
  "moveTarget move from count =
     (case move of
        Move_top \<Rightarrow> 0
      | Move_up \<Rightarrow> max 0 (from - 1)
      | Move_down \<Rightarrow> min (count - 1) (from + 1)
      | Move_bottom \<Rightarrow> count - 1)"

record move_request =
  mr_entryId :: string
  mr_afterEntryId :: string

definition index_ok :: "'a list \<Rightarrow> int \<Rightarrow> bool" where
  "index_ok xs i \<longleftrightarrow> 0 \<le> i \<and> i < int (length xs)"

definition without :: "'a list \<Rightarrow> int \<Rightarrow> 'a list" where
  "without xs i = take (nat i) xs @ drop (Suc (nat i)) xs"

definition moveRequest :: "string list \<Rightarrow> int \<Rightarrow> int \<Rightarrow> move_request option" where
  "moveRequest ids from target =
     (if \<not> index_ok ids from \<or> target < 0 \<or> target \<ge> int (length ids) \<or> target = from then None
      else Some \<lparr>mr_entryId = ids ! nat from, mr_afterEntryId = (if target = 0 then [] else without ids from ! nat (target - 1))\<rparr>)"

definition movedOrder :: "'a list \<Rightarrow> int \<Rightarrow> int \<Rightarrow> 'a list" where
  "movedOrder items from target =
     (if from < 0 \<or> from \<ge> int (length items) \<or> target < 0 \<or> target \<ge> int (length items) \<or> from = target then items
      else take (nat target) (without items from) @ [items ! nat from] @ drop (nat target) (without items from))"

definition moveRequestAt :: "(int \<Rightarrow> string option) \<Rightarrow> int \<Rightarrow> int \<Rightarrow> int \<Rightarrow> move_request option" where
  "moveRequestAt idAt count from target =
     (if from < 0 \<or> from \<ge> count \<or> target < 0 \<or> target \<ge> count \<or> target = from then None
      else case (idAt from, if target = 0 then Some [] else idAt (if target < from then target - 1 else target)) of
             (Some entry, Some previous) \<Rightarrow> Some \<lparr>mr_entryId = entry, mr_afterEntryId = previous\<rparr>
           | _ \<Rightarrow> None)"

text \<open>One turn of the loop of \<open>placeBeforeMoves\<close>; it runs from the newest move to the oldest.\<close>

definition place_before :: "int \<times> int \<Rightarrow> int \<Rightarrow> int" where
  "place_before move p =
     (case move of (from, target) \<Rightarrow>
        if p = target then from
        else if from < target \<and> p \<ge> from \<and> p < target then p + 1
        else if target < from \<and> p > target \<and> p \<le> from then p - 1
        else p)"

definition placeBeforeMoves :: "int \<Rightarrow> (int \<times> int) list \<Rightarrow> int" where
  "placeBeforeMoves index moves = fold place_before (rev moves) index"

section \<open>They agree with each other\<close>

lemma length_without: "index_ok xs i \<Longrightarrow> length (without xs i) = length xs - 1"
  by (auto simp: without_def index_ok_def)

lemma nth_without: "index_ok xs i \<Longrightarrow> j < length xs - 1 \<Longrightarrow> without xs i ! j = (if j < nat i then xs ! j else xs ! Suc j)"
  by (auto simp: without_def index_ok_def nth_append)

lemma length_movedOrder [simp]: "length (movedOrder xs a b) = length xs"
  using length_without [of xs a] by (auto simp: movedOrder_def index_ok_def)

text \<open>What \<open>placeBeforeMoves\<close> says of one move: the entry now at a place stood where it answers.\<close>

lemma movedOrder_nth:
  assumes "index_ok xs p" and "index_ok xs a" and "index_ok xs b"
  shows "index_ok xs (place_before (a, b) p) \<and> movedOrder xs a b ! nat p = xs ! nat (place_before (a, b) p)"
proof (cases "a = b")
  case True
  then show ?thesis using assms by (auto simp: movedOrder_def place_before_def)
next
  case False
  have len: "length (without xs a) = length xs - 1" by (rule length_without [OF assms(2)])
  have moved: "movedOrder xs a b = take (nat b) (without xs a) @ [xs ! nat a] @ drop (nat b) (without xs a)"
    using assms False by (auto simp: movedOrder_def index_ok_def)
  have b: "nat b \<le> length xs - 1" using assms(3) by (auto simp: index_ok_def)
  consider "p < b" | "p = b" | "b < p" by linarith
  then show ?thesis
  proof cases
    case 1
    then have "movedOrder xs a b ! nat p = without xs a ! nat p"
      using assms b len by (simp add: moved nth_append index_ok_def)
    also have "\<dots> = (if nat p < nat a then xs ! nat p else xs ! Suc (nat p))"
      using assms b 1 by (intro nth_without) (auto simp: index_ok_def)
    finally show ?thesis using assms 1 by (auto simp: place_before_def index_ok_def Suc_nat_eq_nat_zadd1 add.commute)
  next
    case 2
    then show ?thesis using assms b len by (simp add: moved nth_append place_before_def index_ok_def)
  next
    case 3
    then have "movedOrder xs a b ! nat p = without xs a ! (nat p - 1)"
      using assms b len by (auto simp: moved nth_append index_ok_def nth_Cons' min_def)
    also have "\<dots> = (if nat p - 1 < nat a then xs ! (nat p - 1) else xs ! Suc (nat p - 1))"
      using assms 3 by (intro nth_without) (auto simp: index_ok_def)
    finally show ?thesis using assms 3 by (auto simp: place_before_def index_ok_def nat_diff_distrib')
  qed
qed

text \<open>And of any number of moves, oldest first.\<close>

lemma placeBeforeMoves_correct:
  "index_ok xs p \<Longrightarrow> \<forall>(a, b) \<in> set moves. index_ok xs a \<and> index_ok xs b \<Longrightarrow>
   index_ok xs (placeBeforeMoves p moves) \<and> fold (\<lambda>(a, b) ys. movedOrder ys a b) moves xs ! nat p = xs ! nat (placeBeforeMoves p moves)"
proof (induction moves arbitrary: xs)
  case Nil
  then show ?case by (simp add: placeBeforeMoves_def)
next
  case (Cons m moves)
  obtain a b where m: "m = (a, b)" by fastforce
  let ?ys = "movedOrder xs a b"
  have ok: "index_ok ?ys i \<longleftrightarrow> index_ok xs i" for i by (simp add: index_ok_def)
  have "index_ok ?ys (placeBeforeMoves p moves)
      \<and> fold (\<lambda>(a, b) ys. movedOrder ys a b) moves ?ys ! nat p = ?ys ! nat (placeBeforeMoves p moves)"
    using Cons.prems by (intro Cons.IH) (auto simp: ok)
  moreover have "placeBeforeMoves p (m # moves) = place_before (a, b) (placeBeforeMoves p moves)"
    by (simp add: placeBeforeMoves_def m)
  ultimately show ?case
    using movedOrder_nth [of xs "placeBeforeMoves p moves" a b] Cons.prems by (simp add: m ok)
qed

text \<open>The request names the entry that moved and the one it follows in the order shown at once.\<close>

lemma moveRequest_movedOrder:
  assumes "moveRequest ids a b = Some r"
  shows "movedOrder ids a b ! nat b = mr_entryId r
    \<and> mr_afterEntryId r = (if b = 0 then [] else movedOrder ids a b ! nat (b - 1))"
proof -
  have ok: "index_ok ids a" "index_ok ids b" "a \<noteq> b"
    using assms by (auto simp: moveRequest_def index_ok_def split: if_splits)
  have r: "r = \<lparr>mr_entryId = ids ! nat a, mr_afterEntryId = (if b = 0 then [] else without ids a ! nat (b - 1))\<rparr>"
    using assms by (auto simp: moveRequest_def split: if_splits)
  have len: "length (without ids a) = length ids - 1" by (rule length_without [OF ok(1)])
  have "nat b \<le> length ids - 1" using ok(2) by (auto simp: index_ok_def)
  then show ?thesis using ok len by (auto simp: movedOrder_def r nth_append index_ok_def)
qed

text \<open>The request made from a partly loaded list is the one made from the whole list.\<close>

lemma moveRequestAt_whole:
  "moveRequestAt (\<lambda>i. if index_ok ids i then Some (ids ! nat i) else None) (int (length ids)) a b = moveRequest ids a b"
proof (cases "moveRequest ids a b")
  case None
  then show ?thesis by (auto simp: moveRequest_def moveRequestAt_def index_ok_def split: if_splits)
next
  case (Some r)
  then have ok: "index_ok ids a" "index_ok ids b" "a \<noteq> b"
    by (auto simp: moveRequest_def index_ok_def split: if_splits)
  then show ?thesis
    using nth_without [OF ok(1), of "nat (b - 1)"] Some
    by (auto simp: moveRequest_def moveRequestAt_def index_ok_def Suc_nat_eq_nat_zadd1)
qed

text \<open>The moves offered are the ones that change something.\<close>

lemma manualMoves_change: "m \<in> set (manualMoves index count whole) \<Longrightarrow>
   moveTarget m index count \<noteq> index \<and> 0 \<le> moveTarget m index count \<and> moveTarget m index count < count"
  by (auto simp: manualMoves_def moveTarget_def split: if_splits)

end
