(* ===== verification/Guide_Store.thy ===== *)
theory Guide_Store
  imports Guide_Programs Guide_Time Guide_Retry
begin

text \<open>
  The windowed guide (guide/store.ts): pages of channels and, for each page, tiles of programs over
  time blocks. A page or tile object is known by its reference, which also names its abort controller
  and its request. Promises and timers settle in steps of their own; what the source answers is an
  argument of those steps. Listeners are names, and the calls to them are recorded.
\<close>

section \<open>State\<close>

datatype entry_status = Entry_loading | Entry_ready | Entry_error

datatype guide_extent = Guide_full | Guide_partial | Guide_missing

record guide_channel_row =
  gr_id :: string
  gr_sourceId :: "string option"
  gr_kind :: channel_kind
  gr_number :: string
  gr_name :: string
  gr_group :: string
  gr_logoUrl :: "string option"
  gr_mark :: "jsval option"
  gr_favorite :: bool
  gr_tuneAvailable :: bool
  gr_tuneUnavailableReason :: "string option"
  gr_recordAvailable :: bool
  gr_guide :: guide_extent
  gr_native :: "jsval option"

type_synonym tile_key = "int \<times> rat"
type_synonym tile_data = "(string, guide_program list) js_map"

record guide_page =
  pg_ref :: nat
  pg_status :: entry_status
  pg_items :: "guide_channel_row list"
  pg_controller :: bool
  pg_used :: nat
  pg_attempts :: nat
  pg_timer :: "nat option"

record guide_tile =
  ti_ref :: nat
  ti_status :: entry_status
  ti_stale :: bool
  ti_data :: "tile_data option"
  ti_controller :: bool
  ti_used :: nat
  ti_attempts :: nat
  ti_timer :: "nat option"
  ti_generation :: nat

datatype guide_task = Page_task int | Tile_task int rat

record guide_viewport =
  vp_firstRow :: int
  vp_lastRow :: int
  vp_start :: rat
  vp_end :: rat

record guide_config =
  go_pageSize :: int
  go_blockMs :: rat
  go_maxChannelPages :: int
  go_maxTiles :: int
  go_maxInFlight :: int
  go_marginPages :: int
  go_marginBlocks :: int
  go_retryMs :: "rat list"

definition guide_config_default :: guide_config where
  "guide_config_default = \<lparr>go_pageSize = 50, go_blockMs = BLOCK_MS, go_maxChannelPages = 6, go_maxTiles = 24, go_maxInFlight = 4,
     go_marginPages = 1, go_marginBlocks = 1, go_retryMs = [5000, 15000, 45000]\<rparr>"

text \<open>A request waits for its answer, then for its \<open>finally\<close>.\<close>

record guide_request =
  rq_ref :: nat
  rq_task :: guide_task
  rq_ids :: "string list"
  rq_generation :: nat
  rq_aborted :: bool
  rq_handled :: bool

datatype timer_action = Page_rate int nat | Page_retry int nat | Tile_rate tile_key nat | Tile_retry tile_key nat

record guide_timer =
  gt_id :: nat
  gt_ms :: rat
  gt_action :: timer_action

record guide_snapshot =
  gsn_version :: nat
  gsn_total :: "int option"
  gsn_channelsError :: bool

record guide_store =
  gs_pages :: "(int, guide_page) js_map"
  gs_tiles :: "(tile_key, guide_tile) js_map"
  gs_total :: "int option"
  gs_channelsError :: bool
  gs_viewport :: "guide_viewport option"
  gs_interestPages :: "int list"
  gs_interestTiles :: "tile_key list"
  gs_queue :: "guide_task list"
  gs_inFlight :: int
  gs_clock :: nat
  gs_generation :: nat
  gs_version :: nat
  gs_snapshot :: guide_snapshot
  gs_listeners :: "nat list"
  gs_pageListeners :: "(int, nat list) js_map"
  gs_disposed :: bool
  gs_rateLimitPages :: "(int, nat) js_map"
  gs_requests :: "guide_request list"
  gs_timers :: "guide_timer list"
  gs_nextRef :: nat
  gs_calls :: "nat list"

definition new_guide_store :: guide_store where
  "new_guide_store = \<lparr>gs_pages = [], gs_tiles = [], gs_total = None, gs_channelsError = False, gs_viewport = None, gs_interestPages = [],
     gs_interestTiles = [], gs_queue = [], gs_inFlight = 0, gs_clock = 0, gs_generation = 0, gs_version = 0,
     gs_snapshot = \<lparr>gsn_version = 0, gsn_total = None, gsn_channelsError = False\<rparr>, gs_listeners = [], gs_pageListeners = [], gs_disposed = False,
     gs_rateLimitPages = [], gs_requests = [], gs_timers = [], gs_nextRef = 0, gs_calls = []\<rparr>"

section \<open>Small updates\<close>

text \<open>\<open>++this.clock\<close> as the \<open>used\<close> mark of a page or a tile.\<close>

definition use_page :: "int \<Rightarrow> guide_store \<Rightarrow> guide_store" where
  "use_page p s = (let clock = gs_clock s + 1
     in s\<lparr>gs_clock := clock, gs_pages := AList.map_entry p (\<lambda>page. page\<lparr>pg_used := clock\<rparr>) (gs_pages s)\<rparr>)"

definition use_tile :: "tile_key \<Rightarrow> guide_store \<Rightarrow> guide_store" where
  "use_tile k s = (let clock = gs_clock s + 1
     in s\<lparr>gs_clock := clock, gs_tiles := AList.map_entry k (\<lambda>tile. tile\<lparr>ti_used := clock\<rparr>) (gs_tiles s)\<rparr>)"

definition abort_request :: "bool \<Rightarrow> nat \<Rightarrow> guide_store \<Rightarrow> guide_store" where
  "abort_request controller r s =
     (if controller then s\<lparr>gs_requests := List.map (\<lambda>q. if rq_ref q = r then q\<lparr>rq_aborted := True\<rparr> else q) (gs_requests s)\<rparr> else s)"

definition clear_timer :: "nat option \<Rightarrow> guide_store \<Rightarrow> guide_store" where
  "clear_timer timer s =
     (case timer of None \<Rightarrow> s | Some i \<Rightarrow> s\<lparr>gs_timers := filter (\<lambda>t. gt_id t \<noteq> i) (gs_timers s)\<rparr>)"

definition set_timer :: "rat \<Rightarrow> timer_action \<Rightarrow> guide_store \<Rightarrow> nat \<times> guide_store" where
  "set_timer ms action s =
     (gs_nextRef s, s\<lparr>gs_timers := gs_timers s @ [\<lparr>gt_id = gs_nextRef s, gt_ms = ms, gt_action = action\<rparr>], gs_nextRef := gs_nextRef s + 1\<rparr>)"

definition gs_changed :: "int option \<Rightarrow> guide_store \<Rightarrow> guide_store" where
  "gs_changed page s =
     (let version = gs_version s + 1;
          called = (case page of
                      Some p \<Rightarrow> (case map_get (gs_pageListeners s) p of Some ls \<Rightarrow> ls | None \<Rightarrow> [])
                    | None \<Rightarrow> concat (map_values (gs_pageListeners s)))
      in s\<lparr>gs_version := version,
           gs_snapshot := \<lparr>gsn_version = version, gsn_total = gs_total s, gsn_channelsError = gs_channelsError s\<rparr>,
           gs_calls := gs_calls s @ called @ gs_listeners s\<rparr>)"

section \<open>Eviction\<close>

definition forget_page :: "int \<Rightarrow> guide_store \<Rightarrow> guide_store" where
  "forget_page p s =
     (case map_get (gs_pages s) p of
        None \<Rightarrow> s
      | Some page \<Rightarrow> (clear_timer (pg_timer page) (abort_request (pg_controller page) (pg_ref page) s))\<lparr>gs_pages := map_del p (gs_pages s)\<rparr>)"

definition forget_tile :: "tile_key \<Rightarrow> guide_store \<Rightarrow> guide_store" where
  "forget_tile k s =
     (case map_get (gs_tiles s) k of
        None \<Rightarrow> s
      | Some tile \<Rightarrow> (clear_timer (ti_timer tile) (abort_request (ti_controller tile) (ti_ref tile) s))\<lparr>gs_tiles := map_del k (gs_tiles s)\<rparr>)"

text \<open>\<open>lru\<close>: what is not kept, least recently used first, until the cap holds.\<close>

definition lru_candidates :: "('v \<Rightarrow> nat) \<Rightarrow> 'k list \<Rightarrow> ('k, 'v) js_map \<Rightarrow> 'k list" where
  "lru_candidates used keep m = map fst (sort_key (\<lambda>(k, v). used v) (filter (\<lambda>(k, v). k \<notin> set keep) m))"

fun lru_pages :: "int \<Rightarrow> int list \<Rightarrow> guide_store \<Rightarrow> guide_store" where
  "lru_pages cap [] s = s"
| "lru_pages cap (p # ps) s = (if int (length (gs_pages s)) \<le> cap then s else lru_pages cap ps (forget_page p s))"

fun lru_tiles :: "int \<Rightarrow> tile_key list \<Rightarrow> guide_store \<Rightarrow> guide_store" where
  "lru_tiles cap [] s = s"
| "lru_tiles cap (k # ks) s = (if int (length (gs_tiles s)) \<le> cap then s else lru_tiles cap ks (forget_tile k s))"

definition forget_orphans :: "guide_store \<Rightarrow> guide_store" where
  "forget_orphans s = fold forget_tile (filter (\<lambda>(p, b). \<not> map_has (gs_pages s) p) (map_keys (gs_tiles s))) s"

definition gs_evict :: "guide_config \<Rightarrow> guide_store \<Rightarrow> guide_store" where
  "gs_evict o' s =
     (let s1 = lru_pages (go_maxChannelPages o') (lru_candidates pg_used (gs_interestPages s) (gs_pages s)) s;
          s2 = forget_orphans s1
      in lru_tiles (go_maxTiles o') (lru_candidates ti_used (gs_interestTiles s2) (gs_tiles s2)) s2)"

section \<open>Requests\<close>

definition start_request :: "guide_task \<Rightarrow> string list \<Rightarrow> nat \<Rightarrow> guide_store \<Rightarrow> guide_store" where
  "start_request task ids r s =
     s\<lparr>gs_inFlight := gs_inFlight s + 1,
       gs_requests := gs_requests s @ [\<lparr>rq_ref = r, rq_task = task, rq_ids = ids, rq_generation = gs_generation s, rq_aborted = False, rq_handled = False\<rparr>]\<rparr>"

definition fetchPage :: "guide_config \<Rightarrow> int \<Rightarrow> guide_store \<Rightarrow> guide_store" where
  "fetchPage o' p s =
     (let existing = map_get (gs_pages s) p
      in if (case existing of Some e \<Rightarrow> pg_status e \<noteq> Entry_error | None \<Rightarrow> False) then s
         else let clock = gs_clock s + 1; r = gs_nextRef s;
                  page = \<lparr>pg_ref = r, pg_status = Entry_loading, pg_items = [], pg_controller = True, pg_used = clock,
                          pg_attempts = (case existing of Some e \<Rightarrow> pg_attempts e | None \<Rightarrow> 0), pg_timer = None\<rparr>
              in start_request (Page_task p) [] r
                   (gs_evict o' (s\<lparr>gs_clock := clock, gs_nextRef := r + 1, gs_pages := map_set p page (gs_pages s)\<rparr>)))"

definition fetchTile :: "guide_config \<Rightarrow> int \<Rightarrow> rat \<Rightarrow> guide_store \<Rightarrow> guide_store" where
  "fetchTile o' p b s =
     (let existing = map_get (gs_tiles s) (p, b)
      in if (case map_get (gs_pages s) p of Some page \<Rightarrow> pg_status page \<noteq> Entry_ready | None \<Rightarrow> True)
            \<or> (case existing of Some e \<Rightarrow> ti_status e = Entry_loading \<or> (ti_status e = Entry_ready \<and> \<not> ti_stale e) | None \<Rightarrow> False)
         then s
         else let clock = gs_clock s + 1; r = gs_nextRef s;
                  tile = \<lparr>ti_ref = r, ti_status = Entry_loading, ti_stale = (case existing of Some e \<Rightarrow> ti_stale e | None \<Rightarrow> False),
                          ti_data = (case existing of Some e \<Rightarrow> ti_data e | None \<Rightarrow> None), ti_controller = True, ti_used = clock,
                          ti_attempts = (case existing of Some e \<Rightarrow> ti_attempts e | None \<Rightarrow> 0), ti_timer = None, ti_generation = gs_generation s\<rparr>
              in start_request (Tile_task p b) (case map_get (gs_pages s) p of Some page \<Rightarrow> List.map gr_id (pg_items page) | None \<Rightarrow> []) r
                   (gs_evict o' (s\<lparr>gs_clock := clock, gs_nextRef := r + 1, gs_tiles := map_set (p, b) tile (gs_tiles s)\<rparr>)))"

definition fetch_task :: "guide_config \<Rightarrow> guide_task \<Rightarrow> guide_store \<Rightarrow> guide_store" where
  "fetch_task o' task s = (case task of Page_task p \<Rightarrow> fetchPage o' p s | Tile_task p b \<Rightarrow> fetchTile o' p b s)"

section \<open>The pump\<close>

lemma forget_queue [simp]: "gs_queue (forget_page p s) = gs_queue s" "gs_queue (forget_tile k s) = gs_queue s"
  by (simp_all add: forget_page_def forget_tile_def clear_timer_def abort_request_def split: option.split)

lemma lru_queue [simp]: "gs_queue (lru_pages cap ps s) = gs_queue s" "gs_queue (lru_tiles cap ks s) = gs_queue s"
  by (induction ps arbitrary: s, simp_all) (induction ks arbitrary: s, simp_all)

lemma orphans_queue [simp]: "gs_queue (fold forget_tile ks s) = gs_queue s"
  by (induction ks arbitrary: s) simp_all

lemma fetch_queue [simp]: "gs_queue (fetch_task o' task s) = gs_queue s"
  by (simp add: fetch_task_def fetchPage_def fetchTile_def start_request_def gs_evict_def forget_orphans_def Let_def split: guide_task.split)

function gs_pump :: "guide_config \<Rightarrow> guide_store \<Rightarrow> guide_store" where
  "gs_pump o' s =
     (if \<not> gs_disposed s \<and> gs_inFlight s < go_maxInFlight o'
      then (case gs_queue s of
              [] \<Rightarrow> s
            | task # rest \<Rightarrow> gs_pump o' (fetch_task o' task (s\<lparr>gs_queue := rest\<rparr>)))
      else s)"
  by pat_completeness auto
termination
  by (relation "measure (\<lambda>(o', s). length (gs_queue s))") auto

declare gs_pump.simps [simp del]

section \<open>The plan\<close>

definition pageOf :: "guide_config \<Rightarrow> int \<Rightarrow> int" where
  "pageOf o' row = row div go_pageSize o'"

text \<open>\<open>lastPage\<close>: None is \<open>Infinity\<close>, while the total is not known.\<close>

definition lastPage :: "guide_config \<Rightarrow> guide_store \<Rightarrow> int option" where
  "lastPage o' s = (case gs_total s of None \<Rightarrow> None | Some count \<Rightarrow> Some (max 0 (\<lceil>of_int count / (of_int (go_pageSize o') :: rat)\<rceil> - 1)))"

definition upto_last :: "int \<Rightarrow> int option \<Rightarrow> int" where
  "upto_last p final = (case final of None \<Rightarrow> p | Some l \<Rightarrow> min p l)"

definition visiblePages :: "guide_config \<Rightarrow> guide_viewport \<Rightarrow> guide_store \<Rightarrow> int list" where
  "visiblePages o' v s =
     [pageOf o' (max 0 (vp_firstRow v)) .. upto_last (pageOf o' (max (vp_firstRow v) (vp_lastRow v))) (lastPage o' s)]"

definition planned_pages :: "guide_config \<Rightarrow> guide_viewport \<Rightarrow> guide_store \<Rightarrow> int list" where
  "planned_pages o' v s =
     (let visible = visiblePages o' v s;
          first = (if visible = [] then 0 else hd visible);
          final = (if visible = [] then 0 else last visible)
      in filter (\<lambda>p. p \<ge> 0 \<and> (case lastPage o' s of None \<Rightarrow> True | Some l \<Rightarrow> p \<le> l))
           [first - go_marginPages o' .. final + go_marginPages o'])"

text \<open>Blocks are positive, so the loop of \<open>blocksCovering\<close> ends.\<close>

definition blocks_in :: "guide_config \<Rightarrow> rat \<Rightarrow> rat \<Rightarrow> rat list" where
  "blocks_in o' start stop = (case blocksCovering start stop (go_blockMs o') of Some bs \<Rightarrow> bs | None \<Rightarrow> [])"

definition visibleBlocks :: "guide_config \<Rightarrow> guide_viewport \<Rightarrow> rat list" where
  "visibleBlocks o' v = blocks_in o' (vp_start v) (vp_end v)"

definition planned_blocks :: "guide_config \<Rightarrow> guide_viewport \<Rightarrow> rat list" where
  "planned_blocks o' v =
     blocks_in o' (vp_start v - of_int (go_marginBlocks o') * go_blockMs o') (vp_end v + of_int (go_marginBlocks o') * go_blockMs o')"

definition task_wanted :: "int list \<Rightarrow> tile_key list \<Rightarrow> guide_task \<Rightarrow> bool" where
  "task_wanted pages tiles task = (case task of Page_task p \<Rightarrow> p \<in> set pages | Tile_task p b \<Rightarrow> (p, b) \<in> set tiles)"

text \<open>Aborting and dropping a load that left the interest; its timer, if any, stays.\<close>

definition drop_page :: "int \<Rightarrow> guide_store \<Rightarrow> guide_store" where
  "drop_page p s =
     (case map_get (gs_pages s) p of
        None \<Rightarrow> s
      | Some page \<Rightarrow> (abort_request (pg_controller page) (pg_ref page) s)\<lparr>gs_pages := map_del p (gs_pages s)\<rparr>)"

definition drop_tile :: "tile_key \<Rightarrow> guide_store \<Rightarrow> guide_store" where
  "drop_tile k s =
     (case map_get (gs_tiles s) k of
        None \<Rightarrow> s
      | Some tile \<Rightarrow> (abort_request (ti_controller tile) (ti_ref tile) s)\<lparr>gs_tiles := map_del k (gs_tiles s)\<rparr>)"

definition set_interest :: "guide_config \<Rightarrow> guide_viewport \<Rightarrow> guide_store \<Rightarrow> guide_store" where
  "set_interest o' v s =
     (let pages = planned_pages o' v s; tiles = List.product pages (planned_blocks o' v)
      in s\<lparr>gs_interestPages := pages, gs_interestTiles := tiles, gs_queue := filter (task_wanted pages tiles) (gs_queue s)\<rparr>)"

definition drop_left :: "guide_store \<Rightarrow> guide_store" where
  "drop_left s =
     (let s1 = fold drop_page (map fst (filter (\<lambda>(p, page). p \<notin> set (gs_interestPages s) \<and> pg_status page = Entry_loading) (gs_pages s))) s
      in fold drop_tile (map fst (filter (\<lambda>(k, tile). k \<notin> set (gs_interestTiles s1) \<and> ti_status tile = Entry_loading) (gs_tiles s1))) s1)"

definition task_rank :: "int list \<Rightarrow> rat list \<Rightarrow> int \<Rightarrow> rat option \<Rightarrow> rat" where
  "task_rank vpages vblocks page block =
     (if page \<in> set vpages \<and> (case block of None \<Rightarrow> True | Some b \<Rightarrow> b \<in> set vblocks) then 0 else 1)"

text \<open>What is missing, in the order of the loops, with the marks the loops set.\<close>

fun want_tiles :: "int list \<Rightarrow> rat list \<Rightarrow> int \<Rightarrow> rat list \<Rightarrow> guide_store \<Rightarrow> (rat \<times> guide_task) list \<times> guide_store" where
  "want_tiles vpages vblocks p [] s = ([], s)"
| "want_tiles vpages vblocks p (b # bs) s =
     (let tile = map_get (gs_tiles s) (p, b);
          s1 = (if tile = None then s else use_tile (p, b) s);
          skip = (case tile of None \<Rightarrow> False | Some t \<Rightarrow> \<not> ti_stale t \<or> ti_status t = Entry_loading);
          new = (if skip \<or> Tile_task p b \<in> set (gs_queue s) then [] else [(task_rank vpages vblocks p (Some b), Tile_task p b)])
      in case want_tiles vpages vblocks p bs s1 of (rest, s2) \<Rightarrow> (new @ rest, s2))"

fun want_pages :: "int list \<Rightarrow> rat list \<Rightarrow> rat list \<Rightarrow> int list \<Rightarrow> guide_store \<Rightarrow> (rat \<times> guide_task) list \<times> guide_store" where
  "want_pages vpages vblocks blocks [] s = ([], s)"
| "want_pages vpages vblocks blocks (p # ps) s =
     (case map_get (gs_pages s) p of
        None \<Rightarrow>
          (case want_pages vpages vblocks blocks ps s of
             (rest, s1) \<Rightarrow>
               ((if Page_task p \<in> set (gs_queue s) then [] else [(task_rank vpages vblocks p None - 1 / 2, Page_task p)]) @ rest, s1))
      | Some page \<Rightarrow>
          (case (if pg_status page = Entry_ready then want_tiles vpages vblocks p blocks (use_page p s) else ([], use_page p s)) of
             (new, s1) \<Rightarrow> (case want_pages vpages vblocks blocks ps s1 of (rest, s2) \<Rightarrow> (new @ rest, s2))))"

definition task_priority :: "int list \<Rightarrow> rat list \<Rightarrow> guide_task \<Rightarrow> nat" where
  "task_priority vpages vblocks task =
     (case task of
        Page_task p \<Rightarrow> if p \<in> set vpages then 0 else 2
      | Tile_task p b \<Rightarrow> if p \<in> set vpages \<and> b \<in> set vblocks then 1 else 3)"

definition gs_plan :: "guide_config \<Rightarrow> guide_store \<Rightarrow> guide_store" where
  "gs_plan o' s =
     (if gs_disposed s then s
      else case gs_viewport s of
        None \<Rightarrow> s
      | Some v \<Rightarrow>
          let vpages = visiblePages o' v s; vblocks = visibleBlocks o' v;
              s1 = drop_left (set_interest o' v s)
          in case want_pages vpages vblocks (planned_blocks o' v) (gs_interestPages s1) s1 of
               (wanted, s2) \<Rightarrow>
                 gs_pump o' (gs_evict o'
                   (s2\<lparr>gs_queue := sort_key (task_priority vpages vblocks) (map snd (sort_key fst wanted) @ gs_queue s2)\<rparr>)))"

section \<open>Reading\<close>

definition channelAt :: "guide_config \<Rightarrow> int \<Rightarrow> guide_store \<Rightarrow> guide_store \<times> guide_channel_row option" where
  "channelAt o' row s =
     (let p = pageOf o' row
      in case map_get (gs_pages s) p of
           None \<Rightarrow> (s, None)
         | Some page \<Rightarrow>
             if pg_status page \<noteq> Entry_ready then (s, None)
             else (use_page p s,
                   let i = row - p * go_pageSize o'
                   in if 0 \<le> i \<and> i < int (length (pg_items page)) then Some (pg_items page ! nat i) else None))"

record row_programs =
  rp_programs :: "guide_program list"
  rp_complete :: bool
  rp_failed :: bool

text \<open>The loop of \<open>programsFor\<close>, over the blocks of the span.\<close>

fun merge_blocks :: "int \<Rightarrow> string \<Rightarrow> rat \<Rightarrow> rat \<Rightarrow> rat list \<Rightarrow> guide_store \<Rightarrow> guide_store \<times> row_programs" where
  "merge_blocks p channel start stop [] s = (s, \<lparr>rp_programs = [], rp_complete = True, rp_failed = False\<rparr>)"
| "merge_blocks p channel start stop (b # bs) s =
     (let tile = map_get (gs_tiles s) (p, b)
      in case Option.bind tile ti_data of
           None \<Rightarrow>
             (case merge_blocks p channel start stop bs s of
                (s1, r) \<Rightarrow> (s1, r\<lparr>rp_complete := False, rp_failed := rp_failed r \<or> map_option ti_status tile = Some Entry_error\<rparr>))
         | Some data \<Rightarrow>
             (case merge_blocks p channel start stop bs (use_tile (p, b) s) of
                (s1, r) \<Rightarrow>
                  (s1, r\<lparr>rp_programs := filter (\<lambda>q. gp_end q > start \<and> gp_start q < stop)
                            (case map_get data channel of Some ps \<Rightarrow> ps | None \<Rightarrow> []) @ rp_programs r\<rparr>)))"

definition programsFor :: "guide_config \<Rightarrow> int \<Rightarrow> rat \<Rightarrow> rat \<Rightarrow> guide_store \<Rightarrow> guide_store \<times> row_programs" where
  "programsFor o' row start stop s =
     (case channelAt o' row s of
        (s1, None) \<Rightarrow> (s1, \<lparr>rp_programs = [], rp_complete = False, rp_failed = False\<rparr>)
      | (s1, Some channel) \<Rightarrow>
          (case merge_blocks (pageOf o' row) (gr_id channel) start stop (blocks_in o' start stop) s1 of
             (s2, r) \<Rightarrow> (s2, r\<lparr>rp_programs := normalizePrograms (rp_programs r)\<rparr>)))"

record guide_resident =
  res_channelPages :: nat
  res_tiles :: nat
  res_programs :: nat
  res_inFlight :: int
  res_queued :: nat

definition guide_counts :: "guide_store \<Rightarrow> guide_resident" where
  "guide_counts s =
     \<lparr>res_channelPages = length (gs_pages s), res_tiles = length (gs_tiles s),
      res_programs = sum_list (List.map (\<lambda>t. case ti_data t of None \<Rightarrow> 0 | Some d \<Rightarrow> sum_list (List.map length (map_values d))) (map_values (gs_tiles s))),
      res_inFlight = gs_inFlight s, res_queued = length (gs_queue s)\<rparr>"

definition gs_subscribe :: "nat \<Rightarrow> guide_store \<Rightarrow> guide_store" where
  "gs_subscribe l s = s\<lparr>gs_listeners := set_add l (gs_listeners s)\<rparr>"

definition gs_unsubscribe :: "nat \<Rightarrow> guide_store \<Rightarrow> guide_store" where
  "gs_unsubscribe l s = s\<lparr>gs_listeners := set_del l (gs_listeners s)\<rparr>"

definition gs_subscribePage :: "int \<Rightarrow> nat \<Rightarrow> guide_store \<Rightarrow> guide_store" where
  "gs_subscribePage p l s =
     s\<lparr>gs_pageListeners := map_set p (set_add l (case map_get (gs_pageListeners s) p of Some ls \<Rightarrow> ls | None \<Rightarrow> [])) (gs_pageListeners s)\<rparr>"

definition gs_unsubscribePage :: "int \<Rightarrow> nat \<Rightarrow> guide_store \<Rightarrow> guide_store" where
  "gs_unsubscribePage p l s = s\<lparr>gs_pageListeners := AList.map_entry p (set_del l) (gs_pageListeners s)\<rparr>"

section \<open>Operations\<close>

definition setViewport :: "guide_config \<Rightarrow> guide_viewport \<Rightarrow> guide_store \<Rightarrow> guide_store" where
  "setViewport o' v s = (if gs_disposed s then s else gs_plan o' (s\<lparr>gs_viewport := Some v\<rparr>))"

definition retry_pages :: "guide_store \<Rightarrow> guide_store" where
  "retry_pages s =
     fold (\<lambda>p s. case map_get (gs_pages s) p of
              None \<Rightarrow> s
            | Some page \<Rightarrow> (clear_timer (pg_timer page) s)\<lparr>gs_pages := map_del p (gs_pages s)\<rparr>)
       (map fst (filter (\<lambda>(p, page). pg_status page = Entry_error) (gs_pages s))) s"

definition retry_tiles :: "guide_store \<Rightarrow> guide_store" where
  "retry_tiles s =
     fold (\<lambda>k s. case map_get (gs_tiles s) k of
              None \<Rightarrow> s
            | Some tile \<Rightarrow> (clear_timer (ti_timer tile) s)\<lparr>gs_tiles := AList.map_entry k (\<lambda>t. t\<lparr>ti_attempts := 0, ti_stale := True\<rparr>) (gs_tiles s)\<rparr>)
       (map fst (filter (\<lambda>(k, tile). ti_status tile = Entry_error) (gs_tiles s))) s"

definition gs_retry :: "guide_config \<Rightarrow> guide_store \<Rightarrow> guide_store" where
  "gs_retry o' s = gs_plan o' (retry_tiles (retry_pages s))"

definition make_stale :: "guide_store \<Rightarrow> guide_store" where
  "make_stale s =
     (fold (\<lambda>t s. if ti_status t = Entry_loading then abort_request (ti_controller t) (ti_ref t) s else s) (map_values (gs_tiles s)) s)
       \<lparr>gs_tiles := map (\<lambda>(k, t). (k, if ti_status t = Entry_loading
                                        then t\<lparr>ti_stale := True, ti_status := (if ti_data t = None then Entry_error else Entry_ready)\<rparr>
                                        else t\<lparr>ti_stale := True\<rparr>)) (gs_tiles s)\<rparr>"

definition gs_invalidate :: "guide_config \<Rightarrow> guide_store \<Rightarrow> guide_store" where
  "gs_invalidate o' s =
     (let s1 = make_stale (s\<lparr>gs_generation := gs_generation s + 1\<rparr>)
      in gs_plan o' (s1\<lparr>gs_tiles := filter (\<lambda>(k, t). ti_data t \<noteq> None) (gs_tiles s1)\<rparr>))"

definition gs_reset :: "guide_config \<Rightarrow> guide_store \<Rightarrow> guide_store" where
  "gs_reset o' s =
     (let s1 = fold (\<lambda>p s. clear_timer (pg_timer p) (abort_request (pg_controller p) (pg_ref p) s)) (map_values (gs_pages s)) s;
          s2 = fold (\<lambda>t s. clear_timer (ti_timer t) (abort_request (ti_controller t) (ti_ref t) s)) (map_values (gs_tiles s1)) s1
      in gs_plan o' (gs_changed None
           (s2\<lparr>gs_pages := [], gs_tiles := [], gs_queue := [], gs_rateLimitPages := [], gs_total := None,
               gs_channelsError := False, gs_generation := gs_generation s2 + 1\<rparr>)))"

definition gs_dispose :: "guide_config \<Rightarrow> guide_store \<Rightarrow> guide_store" where
  "gs_dispose o' s = gs_reset o' (s\<lparr>gs_disposed := True, gs_listeners := [], gs_pageListeners := []\<rparr>)"

section \<open>Answers\<close>

definition request_handled :: "nat \<Rightarrow> guide_store \<Rightarrow> guide_store" where
  "request_handled r s = s\<lparr>gs_requests := List.map (\<lambda>q. if rq_ref q = r then q\<lparr>rq_handled := True\<rparr> else q) (gs_requests s)\<rparr>"

definition retryLater :: "guide_config \<Rightarrow> nat \<Rightarrow> timer_action \<Rightarrow> guide_store \<Rightarrow> nat option \<times> guide_store" where
  "retryLater o' attempts action s =
     (if attempts > length (go_retryMs o') then (None, s)
      else case set_timer (go_retryMs o' ! min (attempts - 1) (length (go_retryMs o') - 1)) action s of (i, s1) \<Rightarrow> (Some i, s1))"

definition put_page :: "int \<Rightarrow> guide_page \<Rightarrow> guide_store \<Rightarrow> guide_store" where
  "put_page p page s = s\<lparr>gs_pages := map_set p page (gs_pages s)\<rparr>"

definition put_tile :: "tile_key \<Rightarrow> guide_tile \<Rightarrow> guide_store \<Rightarrow> guide_store" where
  "put_tile k tile s = s\<lparr>gs_tiles := map_set k tile (gs_tiles s)\<rparr>"

definition page_answered :: "guide_config \<Rightarrow> int \<Rightarrow> nat \<Rightarrow> guide_channel_row list \<Rightarrow> int \<Rightarrow> guide_store \<Rightarrow> guide_store" where
  "page_answered o' p r items total' s =
     (case map_get (gs_pages s) p of
        None \<Rightarrow> s
      | Some page \<Rightarrow>
          if pg_ref page \<noteq> r then s
          else gs_plan o' (gs_changed (Some p)
                 ((put_page p (page\<lparr>pg_status := Entry_ready, pg_items := items, pg_controller := False, pg_attempts := 0\<rparr>) s)
                    \<lparr>gs_rateLimitPages := map_del p (gs_rateLimitPages s), gs_total := Some total', gs_channelsError := False\<rparr>)))"

definition error_code :: "jsval \<Rightarrow> jsval" where
  "error_code e = (if is_record e then at_key e ''code'' else JUndef)"

text \<open>\<open>delay\<close> is what \<open>rateLimitDelay\<close> answers for the error and the attempt.\<close>

definition page_refused :: "guide_config \<Rightarrow> (jsval \<Rightarrow> int \<Rightarrow> rat) \<Rightarrow> int \<Rightarrow> nat \<Rightarrow> nat \<Rightarrow> jsval \<Rightarrow> guide_store \<Rightarrow> guide_store" where
  "page_refused o' delay p r generation e s =
     (case map_get (gs_pages s) p of
        None \<Rightarrow> s
      | Some page \<Rightarrow>
          if pg_ref page \<noteq> r then s
          else if error_code e = JStr ''guide_refresh_required'' then gs_reset o' s
          else
            let seen = (case map_get (gs_rateLimitPages s) p of Some n \<Rightarrow> n | None \<Rightarrow> 0)
            in if isRateLimited e \<and> seen < GUIDE_RATE_LIMIT_ATTEMPTS - 1 \<and> generation = gs_generation s
               then (case set_timer (delay e (int seen + 1)) (Page_rate p r) (s\<lparr>gs_rateLimitPages := map_set p (seen + 1) (gs_rateLimitPages s)\<rparr>) of
                       (i, s1) \<Rightarrow> put_page p (page\<lparr>pg_controller := False, pg_timer := Some i\<rparr>) s1)
               else
                 let page1 = page\<lparr>pg_status := Entry_error, pg_controller := False, pg_attempts := pg_attempts page + 1\<rparr>;
                     s1 = gs_changed (Some p) ((put_page p page1 s)\<lparr>gs_rateLimitPages := map_del p (gs_rateLimitPages s), gs_channelsError := True\<rparr>)
                 in case retryLater o' (pg_attempts page1) (Page_retry p r) s1 of
                      (timer, s2) \<Rightarrow> (case timer of None \<Rightarrow> s2 | Some i \<Rightarrow> put_page p (page1\<lparr>pg_timer := Some i\<rparr>) s2))"

definition tile_answered :: "tile_key \<Rightarrow> nat \<Rightarrow> tile_data \<Rightarrow> guide_store \<Rightarrow> guide_store" where
  "tile_answered k r data s =
     (case map_get (gs_tiles s) k of
        None \<Rightarrow> s
      | Some tile \<Rightarrow>
          if ti_ref tile \<noteq> r then s
          else gs_changed (Some (fst k))
                 (put_tile k (tile\<lparr>ti_status := Entry_ready, ti_stale := (ti_generation tile \<noteq> gs_generation s), ti_data := Some data,
                                  ti_controller := False, ti_attempts := 0\<rparr>) s))"

definition tile_refused :: "guide_config \<Rightarrow> (jsval \<Rightarrow> int \<Rightarrow> rat) \<Rightarrow> tile_key \<Rightarrow> nat \<Rightarrow> jsval \<Rightarrow> guide_store \<Rightarrow> guide_store" where
  "tile_refused o' delay k r e s =
     (case map_get (gs_tiles s) k of
        None \<Rightarrow> s
      | Some tile \<Rightarrow>
          if ti_ref tile \<noteq> r then s
          else let tile1 = tile\<lparr>ti_controller := False, ti_attempts := ti_attempts tile + 1\<rparr>
               in if isRateLimited e \<and> ti_attempts tile < GUIDE_RATE_LIMIT_ATTEMPTS - 1
                  then (case set_timer (delay e (int (ti_attempts tile1))) (Tile_rate k r) s of
                          (i, s1) \<Rightarrow> put_tile k (tile1\<lparr>ti_timer := Some i\<rparr>) s1)
                  else
                    let tile2 = tile1\<lparr>ti_status := Entry_error\<rparr>;
                        s1 = gs_changed (Some (fst k)) (put_tile k tile2 s)
                    in case retryLater o' (ti_attempts tile2) (Tile_retry k r) s1 of
                         (timer, s2) \<Rightarrow> (case timer of None \<Rightarrow> s2 | Some i \<Rightarrow> put_tile k (tile2\<lparr>ti_timer := Some i\<rparr>) s2))"

text \<open>A request that answered runs one of the handlers, unless it was aborted; its \<open>finally\<close> runs later.\<close>

datatype guide_answer =
  Page_arrives "guide_channel_row list" int
| Tile_arrives tile_data
| Request_fails jsval

definition request_answers :: "guide_config \<Rightarrow> (jsval \<Rightarrow> int \<Rightarrow> rat) \<Rightarrow> guide_answer \<Rightarrow> guide_request \<Rightarrow> guide_store \<Rightarrow> guide_store" where
  "request_answers o' delay answer q s =
     (let s1 = request_handled (rq_ref q) s
      in if rq_aborted q then s1
         else case rq_task q of
                Page_task p \<Rightarrow>
                  (case answer of
                     Page_arrives items total' \<Rightarrow> page_answered o' p (rq_ref q) items total' s1
                   | Request_fails e \<Rightarrow> page_refused o' delay p (rq_ref q) (rq_generation q) e s1
                   | _ \<Rightarrow> s1)
              | Tile_task p b \<Rightarrow>
                  (case answer of
                     Tile_arrives data \<Rightarrow> tile_answered (p, b) (rq_ref q) data s1
                   | Request_fails e \<Rightarrow> tile_refused o' delay (p, b) (rq_ref q) e s1
                   | _ \<Rightarrow> s1))"

definition request_finishes :: "guide_config \<Rightarrow> nat \<Rightarrow> guide_store \<Rightarrow> guide_store" where
  "request_finishes o' r s =
     gs_pump o' (s\<lparr>gs_inFlight := gs_inFlight s - 1, gs_requests := filter (\<lambda>q. rq_ref q \<noteq> r) (gs_requests s)\<rparr>)"

section \<open>Timers\<close>

definition page_timer_off :: "int \<Rightarrow> nat \<Rightarrow> guide_store \<Rightarrow> guide_store" where
  "page_timer_off p r s =
     s\<lparr>gs_pages := AList.map_entry p (\<lambda>page. if pg_ref page = r then page\<lparr>pg_timer := None\<rparr> else page) (gs_pages s)\<rparr>"

definition tile_timer_off :: "tile_key \<Rightarrow> nat \<Rightarrow> guide_store \<Rightarrow> guide_store" where
  "tile_timer_off k r s =
     s\<lparr>gs_tiles := AList.map_entry k (\<lambda>tile. if ti_ref tile = r then tile\<lparr>ti_timer := None\<rparr> else tile) (gs_tiles s)\<rparr>"

definition page_again :: "guide_config \<Rightarrow> int \<Rightarrow> nat \<Rightarrow> guide_store \<Rightarrow> guide_store" where
  "page_again o' p r s =
     (let s1 = page_timer_off p r s
      in if gs_disposed s1 \<or> map_option pg_ref (map_get (gs_pages s1) p) \<noteq> Some r then s1
         else gs_plan o' (s1\<lparr>gs_pages := map_del p (gs_pages s1)\<rparr>))"

definition tile_again :: "guide_config \<Rightarrow> (guide_tile \<Rightarrow> guide_tile) \<Rightarrow> tile_key \<Rightarrow> nat \<Rightarrow> guide_store \<Rightarrow> guide_store" where
  "tile_again o' f k r s =
     (let s1 = tile_timer_off k r s
      in if gs_disposed s1 \<or> map_option ti_ref (map_get (gs_tiles s1) k) \<noteq> Some r then s1
         else gs_plan o' (s1\<lparr>gs_tiles := AList.map_entry k f (gs_tiles s1)\<rparr>))"

definition guide_timer_fires :: "guide_config \<Rightarrow> guide_timer \<Rightarrow> guide_store \<Rightarrow> guide_store" where
  "guide_timer_fires o' t s =
     (let s1 = s\<lparr>gs_timers := filter (\<lambda>u. gt_id u \<noteq> gt_id t) (gs_timers s)\<rparr>
      in case gt_action t of
           Page_rate p r \<Rightarrow> page_again o' p r s1
         | Page_retry p r \<Rightarrow> page_again o' p r s1
         | Tile_rate k r \<Rightarrow> tile_again o' (\<lambda>tile. tile\<lparr>ti_status := Entry_ready, ti_stale := True\<rparr>) k r s1
         | Tile_retry k r \<Rightarrow> tile_again o' (\<lambda>tile. tile\<lparr>ti_stale := True\<rparr>) k r s1)"

end
