(* ===== verification/Guide_Resources.thy ===== *)
theory Guide_Resources
  imports Guide_Store
begin

text \<open>
  What the guide store holds is sound: every load in progress has a request or a timer that will
  end it, references are not shared, and tiles belong to loaded pages. The primitive updates keep this.
\<close>

section \<open>The invariant\<close>

fun action_ref :: "timer_action \<Rightarrow> nat" where
  "action_ref (Page_rate p r) = r"
| "action_ref (Page_retry p r) = r"
| "action_ref (Tile_rate k r) = r"
| "action_ref (Tile_retry k r) = r"

definition live_request :: "guide_store \<Rightarrow> guide_task \<Rightarrow> nat \<Rightarrow> bool" where
  "live_request s task r \<longleftrightarrow> (\<exists>q \<in> set (gs_requests s). rq_ref q = r \<and> rq_task q = task \<and> \<not> rq_aborted q \<and> \<not> rq_handled q)"

definition live_timer :: "guide_store \<Rightarrow> nat option \<Rightarrow> timer_action \<Rightarrow> bool" where
  "live_timer s timer action \<longleftrightarrow> (\<exists>t \<in> set (gs_timers s). timer = Some (gt_id t) \<and> gt_action t = action)"

text \<open>The timer an entry names, while it runs, is that entry's own.\<close>

definition own_timer :: "guide_store \<Rightarrow> nat option \<Rightarrow> nat \<Rightarrow> bool" where
  "own_timer s timer r \<longleftrightarrow> (\<forall>i. timer = Some i \<longrightarrow> i < gs_nextRef s \<and> (\<forall>t \<in> set (gs_timers s). gt_id t = i \<longrightarrow> action_ref (gt_action t) = r))"

definition page_ok :: "guide_config \<Rightarrow> guide_store \<Rightarrow> int \<Rightarrow> guide_page \<Rightarrow> bool" where
  "page_ok o' s p page \<longleftrightarrow> pg_ref page < gs_nextRef s \<and> own_timer s (pg_timer page) (pg_ref page) \<and> pg_attempts page \<le> 1
     \<and> (case pg_status page of
          Entry_loading \<Rightarrow> pg_attempts page = 0
            \<and> (if pg_controller page then live_request s (Page_task p) (pg_ref page) else live_timer s (pg_timer page) (Page_rate p (pg_ref page)))
        | Entry_error \<Rightarrow> live_timer s (pg_timer page) (Page_retry p (pg_ref page)) \<or> pg_attempts page > length (go_retryMs o')
        | Entry_ready \<Rightarrow> True)"

definition tile_ok :: "guide_config \<Rightarrow> guide_store \<Rightarrow> tile_key \<Rightarrow> guide_tile \<Rightarrow> bool" where
  "tile_ok o' s k tile \<longleftrightarrow> ti_ref tile < gs_nextRef s \<and> own_timer s (ti_timer tile) (ti_ref tile)
     \<and> (case ti_status tile of
          Entry_loading \<Rightarrow> if ti_controller tile then live_request s (Tile_task (fst k) (snd k)) (ti_ref tile) else live_timer s (ti_timer tile) (Tile_rate k (ti_ref tile))
        | Entry_error \<Rightarrow> ti_stale tile \<or> live_timer s (ti_timer tile) (Tile_retry k (ti_ref tile)) \<or> ti_attempts tile > length (go_retryMs o')
        | Entry_ready \<Rightarrow> True)"

abbreviation page_at :: "guide_store \<Rightarrow> int \<Rightarrow> guide_page \<Rightarrow> bool" where
  "page_at s p page \<equiv> map_of (gs_pages s) p = Some page"

abbreviation tile_at :: "guide_store \<Rightarrow> tile_key \<Rightarrow> guide_tile \<Rightarrow> bool" where
  "tile_at s k tile \<equiv> map_of (gs_tiles s) k = Some tile"

definition refs_apart :: "guide_store \<Rightarrow> bool" where
  "refs_apart s \<longleftrightarrow>
     (\<forall>p p' page page'. page_at s p page \<and> page_at s p' page' \<and> pg_ref page = pg_ref page' \<longrightarrow> p = p')
     \<and> (\<forall>k k' tile tile'. tile_at s k tile \<and> tile_at s k' tile' \<and> ti_ref tile = ti_ref tile' \<longrightarrow> k = k')
     \<and> (\<forall>p k page tile. page_at s p page \<and> tile_at s k tile \<longrightarrow> pg_ref page \<noteq> ti_ref tile)"

definition page_ready :: "guide_store \<Rightarrow> int \<Rightarrow> bool" where
  "page_ready s p \<longleftrightarrow> (\<exists>page. page_at s p page \<and> pg_status page = Entry_ready)"

definition tiles_paged :: "guide_store \<Rightarrow> bool" where
  "tiles_paged s \<longleftrightarrow> (\<forall>k tile. tile_at s k tile \<longrightarrow> page_ready s (fst k))"

definition guide_books_ok :: "guide_store \<Rightarrow> bool" where
  "guide_books_ok s \<longleftrightarrow> gs_inFlight s = int (length (gs_requests s)) \<and> distinct (List.map rq_ref (gs_requests s))
     \<and> (\<forall>q \<in> set (gs_requests s). rq_ref q < gs_nextRef s) \<and> (\<forall>t \<in> set (gs_timers s). gt_id t < gs_nextRef s)"

definition res_ok :: "guide_config \<Rightarrow> guide_store \<Rightarrow> bool" where
  "res_ok o' s \<longleftrightarrow> map_wf (gs_pages s) \<and> map_wf (gs_tiles s)
     \<and> (\<forall>p page. page_at s p page \<longrightarrow> page_ok o' s p page) \<and> (\<forall>k tile. tile_at s k tile \<longrightarrow> tile_ok o' s k tile)
     \<and> refs_apart s \<and> guide_books_ok s"

lemma res_okI:
  "map_wf (gs_pages s) \<Longrightarrow> map_wf (gs_tiles s) \<Longrightarrow> (\<And>p page. page_at s p page \<Longrightarrow> page_ok o' s p page)
   \<Longrightarrow> (\<And>k tile. tile_at s k tile \<Longrightarrow> tile_ok o' s k tile) \<Longrightarrow> refs_apart s \<Longrightarrow> guide_books_ok s \<Longrightarrow> res_ok o' s"
  unfolding res_ok_def by blast

lemma res_ok_parts: "res_ok o' s \<Longrightarrow> map_wf (gs_pages s) \<and> map_wf (gs_tiles s) \<and> refs_apart s \<and> guide_books_ok s"
  unfolding res_ok_def by blast

lemma res_ok_empty: "res_ok o' new_guide_store"
  by (simp add: res_ok_def guide_books_ok_def new_guide_store_def refs_apart_def)

lemma tiles_paged_empty: "tiles_paged new_guide_store"
  by (simp add: tiles_paged_def new_guide_store_def)

lemma res_ok_page: "res_ok o' s \<Longrightarrow> page_at s p page \<Longrightarrow> page_ok o' s p page"
  unfolding res_ok_def by blast

lemma res_ok_tile: "res_ok o' s \<Longrightarrow> tile_at s k tile \<Longrightarrow> tile_ok o' s k tile"
  unfolding res_ok_def by blast

section \<open>What an update may do to the others\<close>

text \<open>An update is harmless for an entry if it keeps the requests and timers of that entry.\<close>

definition spares :: "nat \<Rightarrow> guide_store \<Rightarrow> guide_store \<Rightarrow> bool" where
  "spares r s s' \<longleftrightarrow> gs_nextRef s \<le> gs_nextRef s'
     \<and> (\<forall>task. live_request s task r \<longrightarrow> live_request s' task r)
     \<and> (\<forall>t \<in> set (gs_timers s). action_ref (gt_action t) = r \<longrightarrow> t \<in> set (gs_timers s'))
     \<and> (\<forall>t \<in> set (gs_timers s'). t \<in> set (gs_timers s) \<or> gs_nextRef s \<le> gt_id t)"

lemma spares_refl: "spares r s s"
  by (simp add: spares_def)

lemma spares_trans: "spares r s s' \<Longrightarrow> spares r s' s'' \<Longrightarrow> spares r s s''"
  unfolding spares_def by (meson le_trans)

lemma spares_core:
  "gs_requests s' = gs_requests s \<Longrightarrow> gs_timers s' = gs_timers s \<Longrightarrow> gs_nextRef s \<le> gs_nextRef s' \<Longrightarrow> spares r s s'"
  by (simp add: spares_def live_request_def)

lemma spares_live_timer: "spares r s s' \<Longrightarrow> action_ref action = r \<Longrightarrow> live_timer s timer action \<Longrightarrow> live_timer s' timer action"
  by (auto simp: spares_def live_timer_def)

lemma spares_own_timer: "spares r s s' \<Longrightarrow> own_timer s timer r \<Longrightarrow> own_timer s' timer r"
  by (fastforce simp: spares_def own_timer_def)

lemma spares_page_ok: "spares (pg_ref page) s s' \<Longrightarrow> page_ok o' s p page \<Longrightarrow> page_ok o' s' p page"
  using spares_live_timer [of "pg_ref page" s s'] spares_own_timer [of "pg_ref page" s s']
  by (auto simp: page_ok_def spares_def split: entry_status.splits)

lemma spares_tile_ok: "spares (ti_ref tile) s s' \<Longrightarrow> tile_ok o' s k tile \<Longrightarrow> tile_ok o' s' k tile"
  using spares_live_timer [of "ti_ref tile" s s'] spares_own_timer [of "ti_ref tile" s s']
  by (auto simp: tile_ok_def spares_def split: entry_status.splits)

text \<open>Marks of use do not matter.\<close>

lemma page_ok_used [simp]: "page_ok o' s p (page\<lparr>pg_used := u\<rparr>) = page_ok o' s p page"
  by (cases "pg_status page") (simp_all add: page_ok_def)

lemma tile_ok_used [simp]: "tile_ok o' s k (tile\<lparr>ti_used := u\<rparr>) = tile_ok o' s k tile"
  by (cases "ti_status tile") (simp_all add: tile_ok_def)

section \<open>Giving up an entry\<close>

lemma live_request_abort: "r \<noteq> r' \<Longrightarrow> live_request (abort_request c r' s) task r = live_request s task r"
  by (auto simp: live_request_def abort_request_def)

lemma map_rq_ref [simp]:
  "List.map rq_ref (List.map (\<lambda>q. if rq_ref q = r then q\<lparr>rq_aborted := b\<rparr> else q) qs) = List.map rq_ref qs"
  "List.map rq_ref (List.map (\<lambda>q. if rq_ref q = r then q\<lparr>rq_handled := b\<rparr> else q) qs) = List.map rq_ref qs"
  by (induction qs) simp_all

lemma abort_request_frame [simp]:
  "gs_pages (abort_request c r s) = gs_pages s" "gs_tiles (abort_request c r s) = gs_tiles s" "gs_timers (abort_request c r s) = gs_timers s"
  "gs_nextRef (abort_request c r s) = gs_nextRef s" "gs_inFlight (abort_request c r s) = gs_inFlight s" "gs_queue (abort_request c r s) = gs_queue s"
  "gs_interestPages (abort_request c r s) = gs_interestPages s" "gs_interestTiles (abort_request c r s) = gs_interestTiles s"
  "gs_disposed (abort_request c r s) = gs_disposed s" "gs_viewport (abort_request c r s) = gs_viewport s" "gs_total (abort_request c r s) = gs_total s"
  "gs_generation (abort_request c r s) = gs_generation s"
  "length (gs_requests (abort_request c r s)) = length (gs_requests s)"
  by (simp_all add: abort_request_def)

lemma abort_request_refs [simp]: "List.map rq_ref (gs_requests (abort_request c r s)) = List.map rq_ref (gs_requests s)"
  by (cases c) (simp_all add: abort_request_def del: map_map)

lemma clear_timer_frame [simp]:
  "gs_pages (clear_timer i s) = gs_pages s" "gs_tiles (clear_timer i s) = gs_tiles s" "gs_requests (clear_timer i s) = gs_requests s"
  "gs_nextRef (clear_timer i s) = gs_nextRef s" "gs_inFlight (clear_timer i s) = gs_inFlight s" "gs_queue (clear_timer i s) = gs_queue s"
  "gs_interestPages (clear_timer i s) = gs_interestPages s" "gs_interestTiles (clear_timer i s) = gs_interestTiles s"
  "gs_disposed (clear_timer i s) = gs_disposed s" "gs_viewport (clear_timer i s) = gs_viewport s" "gs_total (clear_timer i s) = gs_total s"
  "gs_generation (clear_timer i s) = gs_generation s"
  by (simp_all add: clear_timer_def split: option.split)

lemma refs_map:
  assumes "List.map rq_ref xs = List.map rq_ref ys"
  shows "(\<forall>q \<in> set xs. rq_ref q < n) \<longleftrightarrow> (\<forall>q \<in> set ys. rq_ref q < n)"
proof -
  have image: "rq_ref ` set xs = rq_ref ` set ys" using assms by (metis list.set_map)
  have "(\<forall>q \<in> set xs. rq_ref q < n) \<longleftrightarrow> (\<forall>i \<in> rq_ref ` set xs. i < n)" by blast
  also have "\<dots> \<longleftrightarrow> (\<forall>q \<in> set ys. rq_ref q < n)" unfolding image by blast
  finally show ?thesis .
qed

lemma spares_release:
  assumes "r \<noteq> r'" "own_timer s timer r'"
  shows "spares r s (clear_timer timer (abort_request c r' s))"
proof -
  have "spares r s (abort_request c r' s)"
    using assms(1) by (simp add: spares_def live_request_abort)
  moreover have "spares r (abort_request c r' s) (clear_timer timer (abort_request c r' s))"
    using assms by (auto simp: spares_def clear_timer_def live_request_def own_timer_def split: option.split)
  ultimately show ?thesis by (rule spares_trans)
qed

text \<open>The invariant after entries were removed and the rest spared.\<close>

definition fewer :: "guide_store \<Rightarrow> guide_store \<Rightarrow> bool" where
  "fewer s s' \<longleftrightarrow> (\<forall>p page. page_at s' p page \<longrightarrow> (\<exists>page0 u. page_at s p page0 \<and> page = page0\<lparr>pg_used := u\<rparr>))
     \<and> (\<forall>k tile. tile_at s' k tile \<longrightarrow> (\<exists>tile0 u. tile_at s k tile0 \<and> tile = tile0\<lparr>ti_used := u\<rparr>))"

lemma fewer_refs:
  assumes "fewer s s'"
  shows "page_at s' p page \<Longrightarrow> \<exists>page0. page_at s p page0 \<and> pg_ref page0 = pg_ref page"
    and "tile_at s' k tile \<Longrightarrow> \<exists>tile0. tile_at s k tile0 \<and> ti_ref tile0 = ti_ref tile"
  using assms unfolding fewer_def by fastforce+

lemma fewer_refs_apart: "fewer s s' \<Longrightarrow> refs_apart s \<Longrightarrow> refs_apart s'"
  unfolding refs_apart_def
proof (intro conjI allI impI; elim conjE)
  assume fewer: "fewer s s'"
    and pages: "\<forall>p p' page page'. page_at s p page \<and> page_at s p' page' \<and> pg_ref page = pg_ref page' \<longrightarrow> p = p'"
    and tiles: "\<forall>k k' tile tile'. tile_at s k tile \<and> tile_at s k' tile' \<and> ti_ref tile = ti_ref tile' \<longrightarrow> k = k'"
    and both: "\<forall>p k page tile. page_at s p page \<and> tile_at s k tile \<longrightarrow> pg_ref page \<noteq> ti_ref tile"
  show "p = p'" if h: "page_at s' p page" "page_at s' p' page'" "pg_ref page = pg_ref page'" for p p' page page'
  proof -
    obtain a b where "page_at s p a" "pg_ref a = pg_ref page" "page_at s p' b" "pg_ref b = pg_ref page'"
      using fewer_refs(1) [OF fewer] h(1,2) by blast
    then show ?thesis using pages h(3) by simp
  qed
  show "k = k'" if h: "tile_at s' k tile" "tile_at s' k' tile'" "ti_ref tile = ti_ref tile'" for k k' tile tile'
  proof -
    obtain a b where "tile_at s k a" "ti_ref a = ti_ref tile" "tile_at s k' b" "ti_ref b = ti_ref tile'"
      using fewer_refs(2) [OF fewer] h(1,2) by blast
    then show ?thesis using tiles [rule_format, of k a k' b] h(3) by simp
  qed
  show "pg_ref page \<noteq> ti_ref tile" if h: "page_at s' p page" "tile_at s' k tile" for p k page tile
  proof -
    obtain a b where "page_at s p a" "pg_ref a = pg_ref page" "tile_at s k b" "ti_ref b = ti_ref tile"
      using fewer_refs [OF fewer] h by blast
    then show ?thesis using both by metis
  qed
qed

lemma res_ok_fewer:
  assumes ok: "res_ok o' s" and fewer: "fewer s s'" and wf: "map_wf (gs_pages s')" "map_wf (gs_tiles s')"
    and spare: "\<And>p page. page_at s' p page \<Longrightarrow> spares (pg_ref page) s s'" "\<And>k tile. tile_at s' k tile \<Longrightarrow> spares (ti_ref tile) s s'"
    and rest: "gs_inFlight s' = gs_inFlight s" "List.map rq_ref (gs_requests s') = List.map rq_ref (gs_requests s)"
      "gs_nextRef s' = gs_nextRef s" "\<forall>t \<in> set (gs_timers s'). t \<in> set (gs_timers s)"
  shows "res_ok o' s'"
proof -
  have pages: "page_ok o' s' p page" if at: "page_at s' p page" for p page
  proof -
    obtain page0 u where "page_at s p page0" "page = page0\<lparr>pg_used := u\<rparr>" using fewer at unfolding fewer_def by blast
    then have "page_ok o' s p page" using res_ok_page [OF ok] by simp
    then show ?thesis using spares_page_ok spare(1) [OF at] by blast
  qed
  have tiles: "tile_ok o' s' k tile" if at: "tile_at s' k tile" for k tile
  proof -
    obtain tile0 u where "tile_at s k tile0" "tile = tile0\<lparr>ti_used := u\<rparr>" using fewer at unfolding fewer_def by blast
    then have "tile_ok o' s k tile" using res_ok_tile [OF ok] by simp
    then show ?thesis using spares_tile_ok spare(2) [OF at] by blast
  qed
  have length: "length (gs_requests s') = length (gs_requests s)" using rest(2) by (metis length_map)
  have "guide_books_ok s'"
    using res_ok_parts [OF ok] rest(3,4) unfolding guide_books_ok_def rest(1,2) length refs_map [OF rest(2)] by auto
  then show ?thesis
    using res_okI [OF wf pages tiles] fewer_refs_apart [OF fewer] res_ok_parts [OF ok] by blast
qed

section \<open>Removing entries\<close>

text \<open>The part of the state that removals and marks leave alone.\<close>

definition steady_part :: "guide_store \<Rightarrow> _" where
  "steady_part s = (gs_queue s, gs_interestPages s, gs_interestTiles s, gs_disposed s, gs_viewport s, gs_total s, gs_generation s, gs_inFlight s, gs_nextRef s)"

lemma steady_partD:
  assumes "steady_part s' = steady_part s"
  shows "gs_queue s' = gs_queue s" "gs_interestPages s' = gs_interestPages s" "gs_interestTiles s' = gs_interestTiles s"
    "gs_disposed s' = gs_disposed s" "gs_viewport s' = gs_viewport s" "gs_total s' = gs_total s" "gs_generation s' = gs_generation s"
    "gs_inFlight s' = gs_inFlight s" "gs_nextRef s' = gs_nextRef s"
  using assms by (simp_all add: steady_part_def)

lemma same_used [simp]: "\<exists>u. page = page\<lparr>pg_used := u\<rparr>" "\<exists>u. tile = tile\<lparr>ti_used := u\<rparr>"
  by (rule exI [of _ "pg_used page"], simp) (rule exI [of _ "ti_used tile"], simp)

lemma own_timer_None [simp]: "own_timer s None r"
  by (simp add: own_timer_def)

lemma page_own_timer: "res_ok o' s \<Longrightarrow> page_at s p page \<Longrightarrow> own_timer s (pg_timer page) (pg_ref page)"
  by (drule (1) res_ok_page) (simp add: page_ok_def)

lemma tile_own_timer: "res_ok o' s \<Longrightarrow> tile_at s k tile \<Longrightarrow> own_timer s (ti_timer tile) (ti_ref tile)"
  by (drule (1) res_ok_tile) (simp add: tile_ok_def)

lemma refs_apartD:
  assumes "res_ok o' s"
  shows "page_at s p page \<Longrightarrow> page_at s p' page' \<Longrightarrow> pg_ref page = pg_ref page' \<Longrightarrow> p = p'"
    and "tile_at s k tile \<Longrightarrow> tile_at s k' tile' \<Longrightarrow> ti_ref tile = ti_ref tile' \<Longrightarrow> k = k'"
    and "page_at s p page \<Longrightarrow> tile_at s k tile \<Longrightarrow> pg_ref page \<noteq> ti_ref tile"
  using assms unfolding res_ok_def refs_apart_def by blast+

lemma set_clear_timer: "t \<in> set (gs_timers (clear_timer i s)) \<Longrightarrow> t \<in> set (gs_timers s)"
  by (simp add: clear_timer_def split: option.splits)

lemma spares_pages: "spares r s (s'\<lparr>gs_pages := m\<rparr>) = spares r s s'"
  by (simp add: spares_def live_request_def)

lemma spares_tiles: "spares r s (s'\<lparr>gs_tiles := m\<rparr>) = spares r s s'"
  by (simp add: spares_def live_request_def)

lemma release_page_ok:
  assumes ok: "res_ok o' s" and at: "page_at s p page" and timer: "own_timer s timer (pg_ref page)"
  shows "res_ok o' ((clear_timer timer (abort_request c (pg_ref page) s))\<lparr>gs_pages := map_del p (gs_pages s)\<rparr>)" (is "res_ok o' ?s")
proof (rule res_ok_fewer [OF ok])
  show "fewer s ?s" by (auto simp: fewer_def map_of_map_del split: if_splits)
  show "map_wf (gs_pages ?s)" "map_wf (gs_tiles ?s)" using ok by (simp_all add: res_ok_def)
  show "spares (pg_ref page') s ?s" if "page_at ?s p' page'" for p' page'
  proof -
    have "page_at s p' page'" "p' \<noteq> p" using that by (auto simp: map_of_map_del split: if_splits)
    then have "pg_ref page' \<noteq> pg_ref page" using refs_apartD(1) [OF ok at] by metis
    then show ?thesis unfolding spares_pages by (rule spares_release [OF _ timer])
  qed
  show "spares (ti_ref tile) s ?s" if "tile_at ?s k tile" for k tile
  proof -
    have "ti_ref tile \<noteq> pg_ref page" using refs_apartD(3) [OF ok at, of k tile] that by simp
    then show ?thesis unfolding spares_pages by (rule spares_release [OF _ timer])
  qed
qed (auto dest: set_clear_timer)

lemma release_tile_ok:
  assumes ok: "res_ok o' s" and at: "tile_at s k tile" and timer: "own_timer s timer (ti_ref tile)"
  shows "res_ok o' ((clear_timer timer (abort_request c (ti_ref tile) s))\<lparr>gs_tiles := map_del k (gs_tiles s)\<rparr>)" (is "res_ok o' ?s")
proof (rule res_ok_fewer [OF ok])
  show "fewer s ?s" by (auto simp: fewer_def map_of_map_del split: if_splits)
  show "map_wf (gs_pages ?s)" "map_wf (gs_tiles ?s)" using ok by (simp_all add: res_ok_def)
  show "spares (ti_ref tile') s ?s" if "tile_at ?s k' tile'" for k' tile'
  proof -
    have "tile_at s k' tile'" "k' \<noteq> k" using that by (auto simp: map_of_map_del split: if_splits)
    then have "ti_ref tile' \<noteq> ti_ref tile" using refs_apartD(2) [OF ok at] by metis
    then show ?thesis unfolding spares_tiles by (rule spares_release [OF _ timer])
  qed
  show "spares (pg_ref page) s ?s" if "page_at ?s p page" for p page
  proof -
    have "pg_ref page \<noteq> ti_ref tile" using refs_apartD(3) [OF ok _ at, of p page] that by simp
    then show ?thesis unfolding spares_tiles by (rule spares_release [OF _ timer])
  qed
qed (auto dest: set_clear_timer)

lemma forget_page_ok: "res_ok o' s \<Longrightarrow> res_ok o' (forget_page p s)"
  by (cases "map_of (gs_pages s) p") (simp_all add: forget_page_def release_page_ok page_own_timer)

lemma forget_tile_ok: "res_ok o' s \<Longrightarrow> res_ok o' (forget_tile k s)"
  by (cases "map_of (gs_tiles s) k") (simp_all add: forget_tile_def release_tile_ok tile_own_timer)

lemma drop_page_ok: "res_ok o' s \<Longrightarrow> res_ok o' (drop_page p s)"
  using release_page_ok [of o' s p _ None True]
  by (cases "map_of (gs_pages s) p") (auto simp: drop_page_def clear_timer_def release_page_ok [where timer = None, simplified clear_timer_def option.case])

lemma drop_tile_ok: "res_ok o' s \<Longrightarrow> res_ok o' (drop_tile k s)"
  by (cases "map_of (gs_tiles s) k") (auto simp: drop_tile_def release_tile_ok [where timer = None, simplified clear_timer_def option.case])

lemma removal_part [simp]:
  "steady_part (forget_page p s) = steady_part s" "steady_part (forget_tile k s) = steady_part s"
  "steady_part (drop_page p s) = steady_part s" "steady_part (drop_tile k s) = steady_part s"
  "steady_part (use_page p s) = steady_part s" "steady_part (use_tile k s) = steady_part s"
  by (simp_all add: steady_part_def forget_page_def forget_tile_def drop_page_def drop_tile_def use_page_def use_tile_def Let_def split: option.split)

lemma removal_maps [simp]:
  "map_of (gs_pages (forget_page p s)) = (map_of (gs_pages s))(p := None)" "gs_tiles (forget_page p s) = gs_tiles s"
  "map_of (gs_tiles (forget_tile k s)) = (map_of (gs_tiles s))(k := None)" "gs_pages (forget_tile k s) = gs_pages s"
  "map_of (gs_pages (drop_page p s)) = (map_of (gs_pages s))(p := None)" "gs_tiles (drop_page p s) = gs_tiles s"
  "map_of (gs_tiles (drop_tile k s)) = (map_of (gs_tiles s))(k := None)" "gs_pages (drop_tile k s) = gs_pages s"
  by (auto simp: forget_page_def forget_tile_def drop_page_def drop_tile_def map_of_map_del fun_eq_iff split: option.splits)

text \<open>Marks of use.\<close>

lemma use_page_ok: "res_ok o' s \<Longrightarrow> res_ok o' (use_page p s)"
  by (rule res_ok_fewer) (auto simp: use_page_def Let_def res_ok_def guide_books_ok_def fewer_def map_of_map_entry spares_core spares_refl)

lemma use_tile_ok: "res_ok o' s \<Longrightarrow> res_ok o' (use_tile k s)"
  by (rule res_ok_fewer) (auto simp: use_tile_def Let_def res_ok_def guide_books_ok_def fewer_def map_of_map_entry spares_core spares_refl)

end
