(* ===== verification/Guide_Keeping.thy ===== *)
theory Guide_Keeping
  imports Guide_Resources
begin

text \<open>
  What eviction and the loads of the pump keep: soundness, the entries of interest, and the caps.
\<close>

section \<open>Eviction\<close>

text \<open>Tiles whose page is still there belong to a ready page.\<close>

definition tiles_of_ready :: "guide_store \<Rightarrow> bool" where
  "tiles_of_ready s \<longleftrightarrow> (\<forall>k tile page. tile_at s k tile \<and> page_at s (fst k) page \<longrightarrow> pg_status page = Entry_ready)"

lemma tiles_paged_of_ready: "tiles_paged s \<Longrightarrow> tiles_of_ready s"
  by (fastforce simp: tiles_paged_def tiles_of_ready_def page_ready_def)

lemma lru_pages_ok: "res_ok o' s \<Longrightarrow> res_ok o' (lru_pages cap ps s)"
  by (induction ps arbitrary: s) (simp_all add: forget_page_ok)

lemma lru_tiles_ok: "res_ok o' s \<Longrightarrow> res_ok o' (lru_tiles cap ks s)"
  by (induction ks arbitrary: s) (simp_all add: forget_tile_ok)

lemma forget_tiles_ok: "res_ok o' s \<Longrightarrow> res_ok o' (fold forget_tile ks s)"
  by (induction ks arbitrary: s) (simp_all add: forget_tile_ok)

lemma lru_part [simp]:
  "steady_part (lru_pages cap ps s) = steady_part s" "steady_part (lru_tiles cap ks s) = steady_part s"
  "steady_part (fold forget_tile ks s) = steady_part s"
  by (induction ps arbitrary: s, simp_all) (induction ks arbitrary: s, simp_all)+

lemma lru_maps [simp]:
  "gs_tiles (lru_pages cap ps s) = gs_tiles s" "gs_pages (lru_tiles cap ks s) = gs_pages s" "gs_pages (fold forget_tile ks s) = gs_pages s"
  by (induction ps arbitrary: s, simp_all) (induction ks arbitrary: s, simp_all)+

lemma lru_pages_at: "page_at (lru_pages cap ps s) p page \<Longrightarrow> page_at s p page"
proof (induction ps arbitrary: s)
  case (Cons q qs)
  then show ?case using Cons.IH [of "forget_page q s"] by (auto split: if_splits)
qed simp

lemma lru_pages_keep: "p \<notin> set ps \<Longrightarrow> map_of (gs_pages (lru_pages cap ps s)) p = map_of (gs_pages s) p"
  by (induction ps arbitrary: s) auto

lemma lru_tiles_at: "tile_at (lru_tiles cap ks s) k tile \<Longrightarrow> tile_at s k tile"
proof (induction ks arbitrary: s)
  case (Cons q qs)
  then show ?case using Cons.IH [of "forget_tile q s"] by (auto split: if_splits)
qed simp

lemma lru_tiles_keep: "k \<notin> set ks \<Longrightarrow> map_of (gs_tiles (lru_tiles cap ks s)) k = map_of (gs_tiles s) k"
  by (induction ks arbitrary: s) auto

lemma forget_tiles_at: "map_of (gs_tiles (fold forget_tile ks s)) k = (if k \<in> set ks then None else map_of (gs_tiles s) k)"
  by (induction ks arbitrary: s) auto

lemma set_lru_candidates: "set (lru_candidates used keep m) = set (map_keys m) - set keep"
  by (force simp: lru_candidates_def)

lemma orphans_at:
  "map_of (gs_tiles (forget_orphans s)) k = (if map_has (gs_pages s) (fst k) then map_of (gs_tiles s) k else None)"
proof -
  have "k \<in> set (filter (\<lambda>(p, b). \<not> map_has (gs_pages s) p) (map_keys (gs_tiles s))) \<longleftrightarrow> \<not> map_has (gs_pages s) (fst k) \<and> map_has (gs_tiles s) k"
    by (cases k) (auto simp: map_of_eq_None_iff image_iff split: prod.splits)
  then show ?thesis unfolding forget_orphans_def forget_tiles_at by auto
qed

lemma orphans_pages [simp]: "gs_pages (forget_orphans s) = gs_pages s"
  by (simp add: forget_orphans_def)

lemma evict_ok: "res_ok o' s \<Longrightarrow> res_ok o' (gs_evict o' s)"
  by (simp add: gs_evict_def Let_def lru_pages_ok lru_tiles_ok forget_tiles_ok forget_orphans_def)

lemma evict_part [simp]: "steady_part (gs_evict o' s) = steady_part s"
  by (simp add: gs_evict_def Let_def forget_orphans_def)

lemma evict_page_at: "page_at (gs_evict o' s) p page \<Longrightarrow> page_at s p page"
  by (simp add: gs_evict_def Let_def forget_orphans_def) (rule lru_pages_at)

lemma evict_tile_at: "tile_at (gs_evict o' s) k tile \<Longrightarrow> tile_at s k tile \<and> map_has (gs_pages (gs_evict o' s)) (fst k)"
  unfolding gs_evict_def Let_def by (drule lru_tiles_at) (auto simp: orphans_at split: if_splits)

lemma evict_keeps_page: "p \<in> set (gs_interestPages s) \<Longrightarrow> map_of (gs_pages (gs_evict o' s)) p = map_of (gs_pages s) p"
  by (simp add: gs_evict_def Let_def forget_orphans_def) (rule lru_pages_keep, simp add: set_lru_candidates)

lemma evict_keeps_tile:
  assumes "k \<in> set (gs_interestTiles s)" "fst k \<in> set (gs_interestPages s)" "map_has (gs_pages s) (fst k)"
  shows "map_of (gs_tiles (gs_evict o' s)) k = map_of (gs_tiles s) k"
proof -
  let ?s1 = "lru_pages (go_maxChannelPages o') (lru_candidates pg_used (gs_interestPages s) (gs_pages s)) s"
  let ?s2 = "forget_orphans ?s1"
  have part: "steady_part ?s2 = steady_part s" by (simp add: forget_orphans_def)
  have "map_of (gs_pages ?s1) (fst k) = map_of (gs_pages s) (fst k)"
    using assms(2) by (intro lru_pages_keep) (simp add: set_lru_candidates)
  then have "map_of (gs_tiles ?s2) k = map_of (gs_tiles s) k" using assms(3) by (simp add: orphans_at)
  moreover have "map_of (gs_tiles (gs_evict o' s)) k = map_of (gs_tiles ?s2) k"
    unfolding gs_evict_def Let_def using assms(1) steady_partD(3) [OF part] by (intro lru_tiles_keep) (simp add: set_lru_candidates)
  ultimately show ?thesis by simp
qed

lemma evict_paged: "tiles_of_ready s \<Longrightarrow> tiles_paged (gs_evict o' s)"
  unfolding tiles_paged_def page_ready_def
proof (intro allI impI)
  fix k tile
  assume ready: "tiles_of_ready s" and at: "tile_at (gs_evict o' s) k tile"
  obtain page where "page_at (gs_evict o' s) (fst k) page" using evict_tile_at [OF at] by blast
  then show "\<exists>page. page_at (gs_evict o' s) (fst k) page \<and> pg_status page = Entry_ready"
    using ready evict_tile_at [OF at] evict_page_at unfolding tiles_of_ready_def by blast
qed

section \<open>The caps\<close>

lemma map_wf_forget:
  "map_wf (gs_pages s) \<Longrightarrow> map_wf (gs_pages (forget_page p s))" "map_wf (gs_tiles s) \<Longrightarrow> map_wf (gs_tiles (forget_tile k s))"
  by (simp_all add: forget_page_def forget_tile_def split: option.split)

lemma lru_pages_cap:
  "map_wf (gs_pages s) \<Longrightarrow> set (map_keys (gs_pages s)) \<subseteq> set ps \<union> keep \<Longrightarrow> finite keep
   \<Longrightarrow> int (length (gs_pages (lru_pages cap ps s))) \<le> max cap (int (card keep))"
proof (induction ps arbitrary: s)
  case Nil
  have "length (gs_pages s) = card (set (map_keys (gs_pages s)))"
    using Nil(1) by (metis distinct_card length_map map_wf_def)
  also have "\<dots> \<le> card keep" using Nil by (intro card_mono) auto
  finally show ?case by simp
next
  case (Cons p ps)
  have "set (map_keys (gs_pages (forget_page p s))) \<subseteq> set ps \<union> keep"
  proof
    fix q assume "q \<in> set (map_keys (gs_pages (forget_page p s)))"
    then obtain page where "page_at (forget_page p s) q page" by (metis map_of_eq_None_iff option.exhaust set_map)
    then have "q \<noteq> p" "map_has (gs_pages s) q" by (auto split: if_splits)
    then show "q \<in> set ps \<union> keep" using Cons.prems(2) by (auto simp: map_of_eq_None_iff)
  qed
  then show ?case using Cons map_wf_forget(1) by (simp add: le_max_iff_disj)
qed

lemma lru_tiles_cap:
  "map_wf (gs_tiles s) \<Longrightarrow> set (map_keys (gs_tiles s)) \<subseteq> set ks \<union> keep \<Longrightarrow> finite keep
   \<Longrightarrow> int (length (gs_tiles (lru_tiles cap ks s))) \<le> max cap (int (card keep))"
proof (induction ks arbitrary: s)
  case Nil
  have "length (gs_tiles s) = card (set (map_keys (gs_tiles s)))"
    using Nil(1) by (metis distinct_card length_map map_wf_def)
  also have "\<dots> \<le> card keep" using Nil by (intro card_mono) auto
  finally show ?case by simp
next
  case (Cons k ks)
  have "set (map_keys (gs_tiles (forget_tile k s))) \<subseteq> set ks \<union> keep"
  proof
    fix q assume "q \<in> set (map_keys (gs_tiles (forget_tile k s)))"
    then obtain tile where "tile_at (forget_tile k s) q tile" by (metis map_of_eq_None_iff option.exhaust set_map)
    then have "q \<noteq> k" "map_has (gs_tiles s) q" by (auto split: if_splits)
    then show "q \<in> set ks \<union> keep" using Cons.prems(2) by (auto simp: map_of_eq_None_iff)
  qed
  then show ?case using Cons map_wf_forget(2) by (simp add: le_max_iff_disj)
qed

definition caps_ok :: "guide_config \<Rightarrow> guide_store \<Rightarrow> bool" where
  "caps_ok o' s \<longleftrightarrow> int (length (gs_pages s)) \<le> max (go_maxChannelPages o') (int (card (set (gs_interestPages s))))
     \<and> int (length (gs_tiles s)) \<le> max (go_maxTiles o') (int (card (set (gs_interestTiles s))))"

lemma evict_caps: "res_ok o' s \<Longrightarrow> caps_ok o' (gs_evict o' s)"
proof -
  assume ok: "res_ok o' s"
  let ?s1 = "lru_pages (go_maxChannelPages o') (lru_candidates pg_used (gs_interestPages s) (gs_pages s)) s"
  let ?s2 = "forget_orphans ?s1"
  have wf: "map_wf (gs_pages s)" "map_wf (gs_tiles ?s2)"
    using ok forget_tiles_ok [OF lru_pages_ok [OF ok]] unfolding forget_orphans_def res_ok_def by blast+
  have "int (length (gs_pages ?s1)) \<le> max (go_maxChannelPages o') (int (card (set (gs_interestPages s))))"
    using wf(1) by (intro lru_pages_cap) (auto simp: set_lru_candidates)
  moreover have "gs_pages (gs_evict o' s) = gs_pages ?s1" by (simp add: gs_evict_def Let_def forget_orphans_def)
  moreover have "int (length (gs_tiles (gs_evict o' s))) \<le> max (go_maxTiles o') (int (card (set (gs_interestTiles ?s2))))"
    unfolding gs_evict_def Let_def using wf(2) by (intro lru_tiles_cap) (auto simp: set_lru_candidates)
  moreover have "gs_interestTiles ?s2 = gs_interestTiles s" "gs_interestPages (gs_evict o' s) = gs_interestPages s" "gs_interestTiles (gs_evict o' s) = gs_interestTiles s"
    using steady_partD [of ?s2 s] steady_partD [of "gs_evict o' s" s] by (simp_all add: forget_orphans_def)
  ultimately show ?thesis by (simp add: caps_ok_def)
qed

end
