(* ===== verification/Guide_Loads.thy ===== *)
theory Guide_Loads
  imports Guide_Keeping
begin

text \<open>
  The loads of the pump: each keeps the store sound, keeps the entries of interest and makes the
  entry it was asked for resident, so that nothing wanted is ever missing.
\<close>

section \<open>Keeping what is of interest\<close>

text \<open>The entries of interest stay as they are, with their requests and timers; \<open>k\<close> in \<open>X\<close> may be replaced.\<close>

definition entries_kept :: "tile_key set \<Rightarrow> guide_store \<Rightarrow> guide_store \<Rightarrow> bool" where
  "entries_kept X s s' \<longleftrightarrow> gs_interestPages s' = gs_interestPages s \<and> gs_interestTiles s' = gs_interestTiles s
     \<and> gs_disposed s' = gs_disposed s \<and> gs_viewport s' = gs_viewport s \<and> gs_total s' = gs_total s \<and> gs_generation s' = gs_generation s
     \<and> (\<forall>p \<in> set (gs_interestPages s). \<forall>page. page_at s p page \<longrightarrow> page_at s' p page)
     \<and> (\<forall>p \<in> set (gs_interestPages s). page_ready s' p \<longrightarrow> page_ready s p)
     \<and> (\<forall>k \<in> set (gs_interestTiles s) - X. \<forall>tile. fst k \<in> set (gs_interestPages s) \<and> page_ready s (fst k) \<and> tile_at s k tile
           \<longrightarrow> tile_at s' k tile \<and> spares (ti_ref tile) s s')"

lemma lru_pages_spares:
  "res_ok o' s \<Longrightarrow> tile_at s k tile \<Longrightarrow> spares (ti_ref tile) s (lru_pages cap ps s)"
proof (induction ps arbitrary: s)
  case (Cons p ps)
  show ?case
  proof (cases "map_of (gs_pages s) p")
    case None
    then show ?thesis using Cons by (simp add: forget_page_def spares_refl)
  next
    case (Some page)
    have "ti_ref tile \<noteq> pg_ref page" using refs_apartD(3) [OF Cons.prems(1) Some Cons.prems(2)] by simp
    then have "spares (ti_ref tile) s (forget_page p s)"
      using spares_release [OF _ page_own_timer [OF Cons.prems(1) Some]] Some by (simp add: forget_page_def spares_pages)
    then show ?thesis
      using Cons.IH [OF forget_page_ok [OF Cons.prems(1)]] Cons.prems by (auto intro: spares_trans spares_refl)
  qed
qed (simp add: spares_refl)

lemma forget_tile_spares:
  assumes ok: "res_ok o' s" and at: "tile_at (forget_tile k' s) k tile"
  shows "spares (ti_ref tile) s (forget_tile k' s)"
proof (cases "map_of (gs_tiles s) k'")
  case None
  then show ?thesis by (simp add: forget_tile_def spares_refl)
next
  case (Some tile')
  have "k \<noteq> k'" "tile_at s k tile" using at by (auto split: if_splits)
  then have "ti_ref tile \<noteq> ti_ref tile'" using refs_apartD(2) [OF ok _ Some] by metis
  then show ?thesis
    using spares_release [OF _ tile_own_timer [OF ok Some]] Some by (simp add: forget_tile_def spares_tiles)
qed

lemma forget_tiles_spares: "res_ok o' s \<Longrightarrow> tile_at (fold forget_tile ks s) k tile \<Longrightarrow> spares (ti_ref tile) s (fold forget_tile ks s)"
proof (induction ks arbitrary: s)
  case (Cons k' ks)
  have "tile_at (forget_tile k' s) k tile" using Cons.prems(2) by (simp add: forget_tiles_at split: if_splits)
  then have "spares (ti_ref tile) s (forget_tile k' s)" by (rule forget_tile_spares [OF Cons.prems(1)])
  moreover have "spares (ti_ref tile) (forget_tile k' s) (fold forget_tile ks (forget_tile k' s))"
    using Cons.IH [OF forget_tile_ok [OF Cons.prems(1)]] Cons.prems(2) by simp
  ultimately show ?case using spares_trans by simp
qed (simp add: spares_refl)

lemma lru_tiles_spares: "res_ok o' s \<Longrightarrow> tile_at (lru_tiles cap ks s) k tile \<Longrightarrow> spares (ti_ref tile) s (lru_tiles cap ks s)"
proof (induction ks arbitrary: s)
  case (Cons k' ks)
  show ?case
  proof (cases "int (length (gs_tiles s)) \<le> cap")
    case False
    then have at: "tile_at (lru_tiles cap ks (forget_tile k' s)) k tile" using Cons.prems(2) by simp
    have "spares (ti_ref tile) s (forget_tile k' s)"
      using forget_tile_spares [OF Cons.prems(1) lru_tiles_at [OF at]] .
    then show ?thesis
      using Cons.IH [OF forget_tile_ok [OF Cons.prems(1)] at] False by (auto intro: spares_trans)
  qed (simp add: spares_refl)
qed (simp add: spares_refl)

lemma evict_spares:
  assumes ok: "res_ok o' s" and at: "tile_at (gs_evict o' s) k tile"
  shows "spares (ti_ref tile) s (gs_evict o' s)"
proof -
  let ?s1 = "lru_pages (go_maxChannelPages o') (lru_candidates pg_used (gs_interestPages s) (gs_pages s)) s"
  let ?ks = "filter (\<lambda>(p, b). \<not> map_has (gs_pages ?s1) p) (map_keys (gs_tiles ?s1))"
  let ?s2 = "fold forget_tile ?ks ?s1"
  have ok1: "res_ok o' ?s1" by (rule lru_pages_ok [OF ok])
  have ok2: "res_ok o' ?s2" by (rule forget_tiles_ok [OF ok1])
  have evict: "gs_evict o' s = lru_tiles (go_maxTiles o') (lru_candidates ti_used (gs_interestTiles ?s2) (gs_tiles ?s2)) ?s2"
    by (simp only: gs_evict_def Let_def forget_orphans_def)
  have at2: "tile_at ?s2 k tile" using at unfolding evict by (rule lru_tiles_at)
  then have at1: "tile_at ?s1 k tile" unfolding forget_tiles_at by (simp split: if_splits)
  have "spares (ti_ref tile) s ?s1" using lru_pages_spares [OF ok, of k tile] at1 by simp
  moreover have "spares (ti_ref tile) ?s1 ?s2" by (rule forget_tiles_spares [OF ok1 at2])
  moreover have "spares (ti_ref tile) ?s2 (gs_evict o' s)"
    unfolding evict using at unfolding evict by (rule lru_tiles_spares [OF ok2])
  ultimately show ?thesis by (meson spares_trans)
qed

lemma evict_keeps: "res_ok o' s \<Longrightarrow> entries_kept X s (gs_evict o' s)"
proof -
  assume ok: "res_ok o' s"
  have pages: "map_of (gs_pages (gs_evict o' s)) p = map_of (gs_pages s) p" if "p \<in> set (gs_interestPages s)" for p
    using evict_keeps_page that by blast
  have tiles: "tile_at (gs_evict o' s) k tile \<and> spares (ti_ref tile) s (gs_evict o' s)"
    if "k \<in> set (gs_interestTiles s)" "fst k \<in> set (gs_interestPages s)" "page_ready s (fst k)" "tile_at s k tile" for k tile
  proof -
    have "map_has (gs_pages s) (fst k)" using that(3) by (auto simp: page_ready_def)
    then have "tile_at (gs_evict o' s) k tile" using evict_keeps_tile [OF that(1,2), of o'] that(4) by simp
    then show ?thesis using evict_spares [OF ok] by blast
  qed
  note part = steady_partD [OF evict_part [of o' s]]
  show ?thesis
    unfolding entries_kept_def part
  proof (intro conjI ballI allI impI refl)
    show "page_at (gs_evict o' s) p page" if "p \<in> set (gs_interestPages s)" "page_at s p page" for p page
      using pages that by simp
    show "page_ready s p" if "p \<in> set (gs_interestPages s)" "page_ready (gs_evict o' s) p" for p
      using pages that by (simp add: page_ready_def)
  qed (use tiles in blast)+
qed

lemma keeps_before:
  assumes keep: "entries_kept X s1 s'"
    and part: "gs_interestPages s1 = gs_interestPages s" "gs_interestTiles s1 = gs_interestTiles s" "gs_disposed s1 = gs_disposed s"
      "gs_viewport s1 = gs_viewport s" "gs_total s1 = gs_total s" "gs_generation s1 = gs_generation s"
    and pages: "\<And>p page. page_at s p page \<Longrightarrow> page_at s1 p page" and ready: "\<And>p. page_ready s1 p = page_ready s p"
    and tiles: "\<And>k tile. k \<notin> X \<Longrightarrow> tile_at s k tile \<Longrightarrow> tile_at s1 k tile \<and> spares (ti_ref tile) s s1"
  shows "entries_kept X s s'"
proof -
  have kept: "\<forall>p \<in> set (gs_interestPages s). \<forall>page. page_at s1 p page \<longrightarrow> page_at s' p page"
    "\<forall>p \<in> set (gs_interestPages s). page_ready s' p \<longrightarrow> page_ready s p"
    "\<forall>k \<in> set (gs_interestTiles s) - X. \<forall>tile. fst k \<in> set (gs_interestPages s) \<and> page_ready s (fst k) \<and> tile_at s1 k tile
       \<longrightarrow> tile_at s' k tile \<and> spares (ti_ref tile) s1 s'"
    using keep unfolding entries_kept_def part ready by blast+
  have "tile_at s' k tile \<and> spares (ti_ref tile) s s'"
    if "k \<in> set (gs_interestTiles s) - X" "fst k \<in> set (gs_interestPages s)" "page_ready s (fst k)" "tile_at s k tile" for k tile
  proof -
    have s1: "tile_at s1 k tile" "spares (ti_ref tile) s s1" using tiles that(1,4) by blast+
    then have "tile_at s' k tile" "spares (ti_ref tile) s1 s'" using kept(3) that(1-3) by blast+
    then show ?thesis using spares_trans [OF s1(2)] by blast
  qed
  then show ?thesis using keep kept pages unfolding entries_kept_def part ready by blast
qed

section \<open>A request and the eviction before it\<close>

lemma abort_start: "r \<noteq> r' \<Longrightarrow> abort_request c r' (start_request task ids r s) = start_request task ids r (abort_request c r' s)"
  by (simp add: abort_request_def start_request_def)

lemma clear_start: "clear_timer i (start_request task ids r s) = start_request task ids r (clear_timer i s)"
  by (simp add: clear_timer_def start_request_def split: option.split)

lemma start_frame [simp]:
  "gs_pages (start_request task ids r s) = gs_pages s" "gs_tiles (start_request task ids r s) = gs_tiles s"
  "gs_queue (start_request task ids r s) = gs_queue s" "gs_interestPages (start_request task ids r s) = gs_interestPages s"
  "gs_interestTiles (start_request task ids r s) = gs_interestTiles s" "gs_timers (start_request task ids r s) = gs_timers s"
  "gs_nextRef (start_request task ids r s) = gs_nextRef s" "gs_disposed (start_request task ids r s) = gs_disposed s"
  "gs_viewport (start_request task ids r s) = gs_viewport s" "gs_total (start_request task ids r s) = gs_total s"
  "gs_generation (start_request task ids r s) = gs_generation s" "gs_inFlight (start_request task ids r s) = gs_inFlight s + 1"
  by (simp_all add: start_request_def)

lemma start_update:
  "(start_request task ids r s)\<lparr>gs_pages := m\<rparr> = start_request task ids r (s\<lparr>gs_pages := m\<rparr>)"
  "(start_request task ids r s)\<lparr>gs_tiles := n\<rparr> = start_request task ids r (s\<lparr>gs_tiles := n\<rparr>)"
  by (simp_all add: start_request_def)

lemma forget_page_start:
  "(\<And>page. page_at s p page \<Longrightarrow> pg_ref page \<noteq> r) \<Longrightarrow> forget_page p (start_request task ids r s) = start_request task ids r (forget_page p s)"
  by (cases "map_of (gs_pages s) p") (simp_all add: forget_page_def abort_start clear_start start_update not_sym)

lemma forget_tile_start:
  "(\<And>tile. tile_at s k tile \<Longrightarrow> ti_ref tile \<noteq> r) \<Longrightarrow> forget_tile k (start_request task ids r s) = start_request task ids r (forget_tile k s)"
  by (cases "map_of (gs_tiles s) k") (simp_all add: forget_tile_def abort_start clear_start start_update not_sym)

lemma lru_pages_start:
  "(\<And>p page. p \<in> set ps \<Longrightarrow> page_at s p page \<Longrightarrow> pg_ref page \<noteq> r)
   \<Longrightarrow> lru_pages cap ps (start_request task ids r s) = start_request task ids r (lru_pages cap ps s)"
proof (induction ps arbitrary: s)
  case (Cons p ps)
  have "forget_page p (start_request task ids r s) = start_request task ids r (forget_page p s)"
    using Cons.prems by (intro forget_page_start) auto
  moreover have "lru_pages cap ps (start_request task ids r (forget_page p s)) = start_request task ids r (lru_pages cap ps (forget_page p s))"
    by (rule Cons.IH) (rule Cons.prems, auto split: if_splits)
  ultimately show ?case by simp
qed simp

lemma lru_tiles_start:
  "(\<And>k tile. k \<in> set ks \<Longrightarrow> tile_at s k tile \<Longrightarrow> ti_ref tile \<noteq> r)
   \<Longrightarrow> lru_tiles cap ks (start_request task ids r s) = start_request task ids r (lru_tiles cap ks s)"
proof (induction ks arbitrary: s)
  case (Cons k ks)
  have "forget_tile k (start_request task ids r s) = start_request task ids r (forget_tile k s)"
    by (rule forget_tile_start) (rule Cons.prems, simp_all)
  moreover have "lru_tiles cap ks (start_request task ids r (forget_tile k s)) = start_request task ids r (lru_tiles cap ks (forget_tile k s))"
  proof (rule Cons.IH)
    fix k' tile assume "k' \<in> set ks" "tile_at (forget_tile k s) k' tile"
    then show "ti_ref tile \<noteq> r" by (intro Cons.prems [of k']) (simp_all split: if_splits)
  qed
  ultimately show ?case by simp
qed simp

lemma forget_tiles_start:
  "(\<And>k tile. k \<in> set ks \<Longrightarrow> tile_at s k tile \<Longrightarrow> ti_ref tile \<noteq> r)
   \<Longrightarrow> fold forget_tile ks (start_request task ids r s) = start_request task ids r (fold forget_tile ks s)"
proof (induction ks arbitrary: s)
  case (Cons k ks)
  have "forget_tile k (start_request task ids r s) = start_request task ids r (forget_tile k s)"
    by (rule forget_tile_start) (rule Cons.prems, simp_all)
  moreover have "fold forget_tile ks (start_request task ids r (forget_tile k s)) = start_request task ids r (fold forget_tile ks (forget_tile k s))"
  proof (rule Cons.IH)
    fix k' tile assume "k' \<in> set ks" "tile_at (forget_tile k s) k' tile"
    then show "ti_ref tile \<noteq> r" by (intro Cons.prems [of k']) (simp_all split: if_splits)
  qed
  ultimately show ?case by simp
qed simp

text \<open>An eviction that spares the entry of a request may as well come after it.\<close>

lemma evict_start:
  assumes page: "\<And>p page. page_at s p page \<Longrightarrow> pg_ref page = r \<Longrightarrow> p \<in> set (gs_interestPages s)"
    and tile: "\<And>k tile. tile_at s k tile \<Longrightarrow> ti_ref tile = r \<Longrightarrow> k \<in> set (gs_interestTiles s) \<and> fst k \<in> set (gs_interestPages s) \<and> map_has (gs_pages s) (fst k)"
  shows "gs_evict o' (start_request task ids r s) = start_request task ids r (gs_evict o' s)"
proof -
  let ?cs = "lru_candidates pg_used (gs_interestPages s) (gs_pages s)"
  let ?s1 = "lru_pages (go_maxChannelPages o') ?cs s"
  let ?ks = "filter (\<lambda>(p, b). \<not> map_has (gs_pages ?s1) p) (map_keys (gs_tiles s))"
  let ?s2 = "fold forget_tile ?ks ?s1"
  have s1: "lru_pages (go_maxChannelPages o') ?cs (start_request task ids r s) = start_request task ids r ?s1"
    by (rule lru_pages_start) (use page in \<open>auto simp: set_lru_candidates\<close>)
  have kept: "map_has (gs_pages ?s1) (fst k)" if "tile_at s k tile" "ti_ref tile = r" for k tile
    using tile [OF that] lru_pages_keep [of "fst k" ?cs] by (simp add: set_lru_candidates)
  have s2: "fold forget_tile ?ks (start_request task ids r ?s1) = start_request task ids r ?s2"
  proof (rule forget_tiles_start)
    fix k t assume "k \<in> set ?ks" "tile_at ?s1 k t"
    then show "ti_ref t \<noteq> r" using kept [of k t] by (simp add: case_prod_beta) blast
  qed
  have interest: "gs_interestTiles ?s2 = gs_interestTiles s"
    using steady_partD(3) [of ?s2 s] by simp
  have "lru_tiles (go_maxTiles o') (lru_candidates ti_used (gs_interestTiles ?s2) (gs_tiles ?s2)) (start_request task ids r ?s2)
      = start_request task ids r (lru_tiles (go_maxTiles o') (lru_candidates ti_used (gs_interestTiles ?s2) (gs_tiles ?s2)) ?s2)"
  proof (rule lru_tiles_start)
    fix k t assume k: "k \<in> set (lru_candidates ti_used (gs_interestTiles ?s2) (gs_tiles ?s2))" and t: "tile_at ?s2 k t"
    have "tile_at s k t" using t by (simp add: forget_tiles_at split: if_splits)
    then show "ti_ref t \<noteq> r" using tile [of k t] k unfolding set_lru_candidates interest by blast
  qed
  then show ?thesis
    unfolding gs_evict_def Let_def forget_orphans_def start_frame s1 lru_maps s2 .
qed

section \<open>Loading a page\<close>

lemma tiles_pagedD: "tiles_paged s \<Longrightarrow> tile_at s k tile \<Longrightarrow> page_ready s (fst k)"
  unfolding tiles_paged_def by blast

lemma spares_start: "r \<noteq> r' \<Longrightarrow> spares r s (start_request task ids r' s)"
  by (auto simp: spares_def live_request_def start_request_def)

lemma live_request_start: "live_request (start_request task ids r s) task r"
  by (auto simp: live_request_def start_request_def)

lemma start_requests: "gs_requests (start_request task ids r s) =
    gs_requests s @ [\<lparr>rq_ref = r, rq_task = task, rq_ids = ids, rq_generation = gs_generation s, rq_aborted = False, rq_handled = False\<rparr>]"
  by (simp add: start_request_def)

lemma books_start:
  assumes "guide_books_ok s" "gs_requests s1 = gs_requests s" "gs_timers s1 = gs_timers s" "gs_inFlight s1 = gs_inFlight s" "gs_nextRef s1 = gs_nextRef s + 1"
  shows "guide_books_ok (start_request task ids (gs_nextRef s) s1)"
  using assms by (auto simp: guide_books_ok_def start_requests less_Suc_eq)

definition fresh_page :: "guide_store \<Rightarrow> guide_page" where
  "fresh_page s = \<lparr>pg_ref = gs_nextRef s, pg_status = Entry_loading, pg_items = [], pg_controller = True, pg_used = gs_clock s + 1, pg_attempts = 0, pg_timer = None\<rparr>"

definition with_page :: "int \<Rightarrow> guide_store \<Rightarrow> guide_store" where
  "with_page p s = s\<lparr>gs_clock := gs_clock s + 1, gs_nextRef := gs_nextRef s + 1, gs_pages := map_set p (fresh_page s) (gs_pages s)\<rparr>"

lemma fetchPage_new:
  "map_of (gs_pages s) p = None \<Longrightarrow> fetchPage o' p s = start_request (Page_task p) [] (gs_nextRef s) (gs_evict o' (with_page p s))"
  by (simp add: fetchPage_def with_page_def fresh_page_def Let_def)

lemma spares_with_page: "spares r s (with_page p s)"
  by (rule spares_core) (simp_all add: with_page_def)

lemma with_page_frame [simp]:
  "map_of (gs_pages (with_page p s)) = (map_of (gs_pages s))(p \<mapsto> fresh_page s)" "gs_tiles (with_page p s) = gs_tiles s"
  "gs_interestPages (with_page p s) = gs_interestPages s" "gs_interestTiles (with_page p s) = gs_interestTiles s"
  "gs_nextRef (with_page p s) = gs_nextRef s + 1" "gs_requests (with_page p s) = gs_requests s" "gs_timers (with_page p s) = gs_timers s"
  "gs_inFlight (with_page p s) = gs_inFlight s" "gs_disposed (with_page p s) = gs_disposed s" "gs_viewport (with_page p s) = gs_viewport s"
  "gs_total (with_page p s) = gs_total s" "gs_generation (with_page p s) = gs_generation s" "gs_queue (with_page p s) = gs_queue s"
  by (simp_all add: with_page_def map_of_map_set fun_eq_iff)

lemma old_refs: "res_ok o' s \<Longrightarrow> page_at s p page \<Longrightarrow> pg_ref page < gs_nextRef s" "res_ok o' s \<Longrightarrow> tile_at s k tile \<Longrightarrow> ti_ref tile < gs_nextRef s"
  by (drule (1) res_ok_page, simp add: page_ok_def) (drule (1) res_ok_tile, simp add: tile_ok_def)

lemma refs_apart_page:
  assumes apart: "refs_apart s" and page: "page_at s' p page"
    and pages: "\<And>q. q \<noteq> p \<Longrightarrow> map_of (gs_pages s') q = map_of (gs_pages s) q" and tiles: "gs_tiles s' = gs_tiles s"
    and new: "\<And>q page'. page_at s q page' \<Longrightarrow> pg_ref page' \<noteq> pg_ref page" "\<And>k tile. tile_at s k tile \<Longrightarrow> ti_ref tile \<noteq> pg_ref page"
  shows "refs_apart s'"
  unfolding refs_apart_def tiles
proof (intro conjI allI impI; elim conjE)
  fix q q' a b assume at: "page_at s' q a" "page_at s' q' b" "pg_ref a = pg_ref b"
  have other: "q = p \<or> page_at s q a" "q' = p \<or> page_at s q' b"
    using at(1,2) pages [of q] pages [of q'] by (simp, metis, simp, metis)
  then consider "q = p" "q' = p" | "q = p" "page_at s q' b" | "page_at s q a" "q' = p" | "page_at s q a" "page_at s q' b" by blast
  then show "q = q'"
  proof cases
    case 2
    then show ?thesis using at page new(1) by auto
  next
    case 3
    then show ?thesis using at page new(1) by auto
  next
    case 4
    then show ?thesis using apart at(3) unfolding refs_apart_def by blast
  qed simp
next
  fix k k' a b assume "tile_at s k a" "tile_at s k' b" "ti_ref a = ti_ref b"
  then show "k = k'" using apart unfolding refs_apart_def by blast
next
  fix q k a b assume at: "page_at s' q a" "tile_at s k b"
  show "pg_ref a \<noteq> ti_ref b"
  proof (cases "q = p")
    case True
    then show ?thesis using at page new(2) [OF at(2)] by auto
  next
    case False
    then have "page_at s q a" using at(1) pages by simp
    then show ?thesis using apart at(2) unfolding refs_apart_def by blast
  qed
qed

lemma with_page_ok:
  assumes ok: "res_ok o' s" and none: "map_of (gs_pages s) p = None"
  shows "res_ok o' (start_request (Page_task p) [] (gs_nextRef s) (with_page p s))" (is "res_ok o' ?s")
proof -
  have spare: "spares r s ?s" if "r \<noteq> gs_nextRef s" for r
    using spares_trans [OF spares_with_page spares_start [OF that]] .
  have page: "page_ok o' ?s q page" if at: "page_at ?s q page" for q page
  proof (cases "q = p")
    case True
    then show ?thesis using at live_request_start by (auto simp: page_ok_def fresh_page_def)
  next
    case False
    then have "page_at s q page" using at by simp
    then show ?thesis using spares_page_ok [OF spare] res_ok_page [OF ok] old_refs(1) [OF ok] by (metis less_irrefl)
  qed
  have tile: "tile_ok o' ?s k tile" if "tile_at ?s k tile" for k tile
  proof -
    have "tile_at s k tile" using that by simp
    then show ?thesis using spares_tile_ok [OF spare] res_ok_tile [OF ok] old_refs(2) [OF ok] by (metis less_irrefl)
  qed
  have "refs_apart ?s"
  proof (rule refs_apart_page [of s ?s p "fresh_page s"])
    show "pg_ref page \<noteq> pg_ref (fresh_page s)" if "page_at s q page" for q page
      using old_refs(1) [OF ok that] by (simp add: fresh_page_def)
    show "ti_ref tile \<noteq> pg_ref (fresh_page s)" if "tile_at s k tile" for k tile
      using old_refs(2) [OF ok that] by (simp add: fresh_page_def)
  qed (use ok in \<open>simp_all add: res_ok_def\<close>)
  moreover have "map_wf (gs_pages ?s)" "map_wf (gs_tiles ?s)" using res_ok_parts [OF ok] by (simp_all add: with_page_def start_request_def)
  moreover have "guide_books_ok ?s" using res_ok_parts [OF ok] by (intro books_start) simp_all
  ultimately show ?thesis using res_okI page tile by blast
qed

text \<open>What loading a page that is wanted and not resident does.\<close>

lemma fetchPage_keeps:
  assumes ok: "res_ok o' s" and none: "map_of (gs_pages s) p = None" and wanted: "p \<in> set (gs_interestPages s)" and paged: "tiles_paged s"
  shows "res_ok o' (fetchPage o' p s) \<and> tiles_paged (fetchPage o' p s) \<and> caps_ok o' (fetchPage o' p s)
    \<and> entries_kept X s (fetchPage o' p s) \<and> map_has (gs_pages (fetchPage o' p s)) p \<and> gs_inFlight (fetchPage o' p s) = gs_inFlight s + 1
    \<and> (\<forall>q. map_has (gs_pages (fetchPage o' p s)) q \<longrightarrow> q = p \<or> map_has (gs_pages s) q)"
proof -
  let ?r = "gs_nextRef s"
  let ?s1 = "start_request (Page_task p) [] ?r (with_page p s)"
  have fetch: "fetchPage o' p s = gs_evict o' ?s1"
    unfolding fetchPage_new [OF none]
  proof (rule evict_start [symmetric])
    show "q \<in> set (gs_interestPages (with_page p s))" if "page_at (with_page p s) q page" "pg_ref page = ?r" for q page
    proof (cases "q = p")
      case False
      then have "page_at s q page" using that(1) by simp
      then show ?thesis using old_refs(1) [OF ok] that(2) by fastforce
    qed (simp add: wanted)
    show "k \<in> set (gs_interestTiles (with_page p s)) \<and> fst k \<in> set (gs_interestPages (with_page p s)) \<and> map_has (gs_pages (with_page p s)) (fst k)"
      if "tile_at (with_page p s) k tile" "ti_ref tile = ?r" for k tile
      using old_refs(2) [OF ok, of k tile] that by simp
  qed
  have ok1: "res_ok o' ?s1" by (rule with_page_ok [OF ok none])
  have no_tiles: "\<not> page_ready s p" using none by (simp add: page_ready_def)
  have ready1: "page_ready ?s1 q = page_ready s q" for q
    using none by (auto simp: page_ready_def fresh_page_def)
  have "tiles_of_ready ?s1"
    unfolding tiles_of_ready_def
  proof (intro allI impI, elim conjE)
    fix k tile page assume tile: "tile_at ?s1 k tile" and at: "page_at ?s1 (fst k) page"
    have "page_ready s (fst k)" by (rule tiles_pagedD [OF paged]) (use tile in simp)
    then show "pg_status page = Entry_ready" using at no_tiles by (auto simp: page_ready_def split: if_splits)
  qed
  then have "tiles_paged (gs_evict o' ?s1)" by (rule evict_paged)
  moreover have "entries_kept X s (gs_evict o' ?s1)"
  proof -
    show ?thesis
    proof (rule keeps_before [OF evict_keeps [OF ok1]])
      show "page_at ?s1 q page" if "page_at s q page" for q page using that none by auto
      show "page_ready ?s1 q = page_ready s q" for q by (rule ready1)
      show "tile_at ?s1 k tile \<and> spares (ti_ref tile) s ?s1" if "tile_at s k tile" for k tile
      proof -
        have "ti_ref tile \<noteq> ?r" using old_refs(2) [OF ok that] by simp
        then show ?thesis using spares_trans [OF spares_with_page spares_start] that by simp
      qed
    qed simp_all
  qed
  moreover have "map_has (gs_pages (gs_evict o' ?s1)) p"
    using evict_keeps_page [of p ?s1 o'] wanted by simp
  moreover have "q = p \<or> map_has (gs_pages s) q" if "map_has (gs_pages (gs_evict o' ?s1)) q" for q
    using that evict_page_at [of o' ?s1 q] by (cases "q = p") auto
  moreover have "gs_inFlight (gs_evict o' ?s1) = gs_inFlight s + 1"
    using steady_partD(8) [OF evict_part [of o' ?s1]] by simp
  ultimately show ?thesis
    unfolding fetch using evict_ok [OF ok1] evict_caps [OF ok1] by blast
qed

section \<open>Loading a tile\<close>

definition fresh_tile :: "guide_tile option \<Rightarrow> guide_store \<Rightarrow> guide_tile" where
  "fresh_tile existing s = \<lparr>ti_ref = gs_nextRef s, ti_status = Entry_loading, ti_stale = (case existing of Some e \<Rightarrow> ti_stale e | None \<Rightarrow> False),
     ti_data = (case existing of Some e \<Rightarrow> ti_data e | None \<Rightarrow> None), ti_controller = True, ti_used = gs_clock s + 1,
     ti_attempts = (case existing of Some e \<Rightarrow> ti_attempts e | None \<Rightarrow> 0), ti_timer = None, ti_generation = gs_generation s\<rparr>"

definition with_tile :: "tile_key \<Rightarrow> guide_store \<Rightarrow> guide_store" where
  "with_tile k s = s\<lparr>gs_clock := gs_clock s + 1, gs_nextRef := gs_nextRef s + 1,
     gs_tiles := map_set k (fresh_tile (map_of (gs_tiles s) k) s) (gs_tiles s)\<rparr>"

text \<open>A tile is loaded if its page is ready and it is not loading or up to date.\<close>

definition tile_needed :: "guide_store \<Rightarrow> tile_key \<Rightarrow> bool" where
  "tile_needed s k \<longleftrightarrow> (\<forall>tile. tile_at s k tile \<longrightarrow> ti_status tile \<noteq> Entry_loading \<and> (ti_status tile = Entry_ready \<longrightarrow> ti_stale tile))"

lemma fetchTile_new:
  assumes "page_ready s p" "tile_needed s (p, b)"
  shows "\<exists>ids. fetchTile o' p b s = start_request (Tile_task p b) ids (gs_nextRef s) (gs_evict o' (with_tile (p, b) s))"
  using assms by (cases "map_of (gs_tiles s) (p, b)") (auto simp: fetchTile_def tile_needed_def page_ready_def with_tile_def fresh_tile_def Let_def)

lemma fetchTile_skip: "\<not> (page_ready s p \<and> tile_needed s (p, b)) \<Longrightarrow> fetchTile o' p b s = s"
  by (cases "map_of (gs_tiles s) (p, b)"; cases "map_of (gs_pages s) p") (auto simp: fetchTile_def tile_needed_def page_ready_def Let_def)

lemma spares_with_tile: "spares r s (with_tile k s)"
  by (rule spares_core) (simp_all add: with_tile_def)

lemma with_tile_frame [simp]:
  "map_of (gs_tiles (with_tile k s)) = (map_of (gs_tiles s))(k \<mapsto> fresh_tile (map_of (gs_tiles s) k) s)" "gs_pages (with_tile k s) = gs_pages s"
  "gs_interestPages (with_tile k s) = gs_interestPages s" "gs_interestTiles (with_tile k s) = gs_interestTiles s"
  "gs_nextRef (with_tile k s) = gs_nextRef s + 1" "gs_requests (with_tile k s) = gs_requests s" "gs_timers (with_tile k s) = gs_timers s"
  "gs_inFlight (with_tile k s) = gs_inFlight s" "gs_disposed (with_tile k s) = gs_disposed s" "gs_viewport (with_tile k s) = gs_viewport s"
  "gs_total (with_tile k s) = gs_total s" "gs_generation (with_tile k s) = gs_generation s" "gs_queue (with_tile k s) = gs_queue s"
  by (simp_all add: with_tile_def map_of_map_set fun_eq_iff)

lemma refs_apart_tile:
  assumes apart: "refs_apart s" and tile: "tile_at s' k tile"
    and tiles: "\<And>q. q \<noteq> k \<Longrightarrow> map_of (gs_tiles s') q = map_of (gs_tiles s) q" and pages: "gs_pages s' = gs_pages s"
    and new: "\<And>q tile'. tile_at s q tile' \<Longrightarrow> ti_ref tile' \<noteq> ti_ref tile" "\<And>p page. page_at s p page \<Longrightarrow> pg_ref page \<noteq> ti_ref tile"
  shows "refs_apart s'"
  unfolding refs_apart_def pages
proof (intro conjI allI impI; elim conjE)
  fix q q' a b assume at: "tile_at s' q a" "tile_at s' q' b" "ti_ref a = ti_ref b"
  have other: "q = k \<or> tile_at s q a" "q' = k \<or> tile_at s q' b"
    using at(1,2) tiles [of q] tiles [of q'] by (simp, metis, simp, metis)
  then consider "q = k" "q' = k" | "q = k" "tile_at s q' b" | "tile_at s q a" "q' = k" | "tile_at s q a" "tile_at s q' b" by blast
  then show "q = q'"
  proof cases
    case 2
    then show ?thesis using at tile new(1) [of q' b] by simp
  next
    case 3
    then show ?thesis using at tile new(1) [of q a] by simp
  next
    case 4
    then show ?thesis using apart at(3) unfolding refs_apart_def by blast
  qed simp
next
  fix p p' a b assume "page_at s p a" "page_at s p' b" "pg_ref a = pg_ref b"
  then show "p = p'" using apart unfolding refs_apart_def by blast
next
  fix p q a b assume at: "page_at s p a" "tile_at s' q b"
  show "pg_ref a \<noteq> ti_ref b"
  proof (cases "q = k")
    case True
    then show ?thesis using at tile new(2) [OF at(1)] by simp
  next
    case False
    then have "tile_at s q b" using at(2) tiles by simp
    then show ?thesis using apart at(1) unfolding refs_apart_def by blast
  qed
qed

lemma with_tile_ok:
  assumes ok: "res_ok o' s"
  shows "res_ok o' (start_request (Tile_task (fst k) (snd k)) ids (gs_nextRef s) (with_tile k s))" (is "res_ok o' ?s")
proof -
  have spare: "spares r s ?s" if "r \<noteq> gs_nextRef s" for r
    using spares_trans [OF spares_with_tile spares_start [OF that]] .
  have tile: "tile_ok o' ?s q tile" if at: "tile_at ?s q tile" for q tile
  proof (cases "q = k")
    case True
    then have "tile = fresh_tile (map_of (gs_tiles s) k) s" using at by simp
    then show ?thesis using live_request_start True by (simp add: tile_ok_def fresh_tile_def)
  next
    case False
    then have "tile_at s q tile" using at by simp
    then show ?thesis using spares_tile_ok [OF spare] res_ok_tile [OF ok] old_refs(2) [OF ok] by (metis less_irrefl)
  qed
  have page: "page_ok o' ?s p page" if "page_at ?s p page" for p page
  proof -
    have "page_at s p page" using that by simp
    then show ?thesis using spares_page_ok [OF spare] res_ok_page [OF ok] old_refs(1) [OF ok] by (metis less_irrefl)
  qed
  have "refs_apart ?s"
  proof (rule refs_apart_tile [of s ?s k "fresh_tile (map_of (gs_tiles s) k) s"])
    show "ti_ref tile \<noteq> ti_ref (fresh_tile (map_of (gs_tiles s) k) s)" if "tile_at s q tile" for q tile
      using old_refs(2) [OF ok that] by (simp add: fresh_tile_def)
    show "pg_ref page \<noteq> ti_ref (fresh_tile (map_of (gs_tiles s) k) s)" if "page_at s p page" for p page
      using old_refs(1) [OF ok that] by (simp add: fresh_tile_def)
  qed (use ok in \<open>simp_all add: res_ok_def\<close>)
  moreover have "map_wf (gs_pages ?s)" "map_wf (gs_tiles ?s)" using res_ok_parts [OF ok] by (simp_all add: with_tile_def start_request_def)
  moreover have "guide_books_ok ?s" using res_ok_parts [OF ok] by (intro books_start) simp_all
  ultimately show ?thesis using res_okI page tile by blast
qed

lemma fetchTile_keeps:
  assumes ok: "res_ok o' s" and ready: "page_ready s p" and needed: "tile_needed s (p, b)" and paged: "tiles_paged s"
    and wanted: "(p, b) \<in> set (gs_interestTiles s)" "p \<in> set (gs_interestPages s)"
  shows "res_ok o' (fetchTile o' p b s) \<and> tiles_paged (fetchTile o' p b s) \<and> caps_ok o' (fetchTile o' p b s)
    \<and> entries_kept {(p, b)} s (fetchTile o' p b s) \<and> gs_inFlight (fetchTile o' p b s) = gs_inFlight s + 1
    \<and> (\<exists>tile. tile_at (fetchTile o' p b s) (p, b) tile \<and> ti_status tile = Entry_loading \<and> ti_data tile = Option.bind (map_of (gs_tiles s) (p, b)) ti_data)
    \<and> (\<forall>q. map_has (gs_pages (fetchTile o' p b s)) q \<longrightarrow> map_has (gs_pages s) q)"
proof -
  let ?r = "gs_nextRef s" and ?k = "(p, b)"
  obtain ids where new: "fetchTile o' p b s = start_request (Tile_task p b) ids ?r (gs_evict o' (with_tile ?k s))"
    using fetchTile_new [OF ready needed] by blast
  let ?s1 = "start_request (Tile_task p b) ids ?r (with_tile ?k s)"
  have has: "map_has (gs_pages s) p" using ready by (auto simp: page_ready_def)
  have fetch: "fetchTile o' p b s = gs_evict o' ?s1"
    unfolding new
  proof (rule evict_start [symmetric])
    show "q \<in> set (gs_interestPages (with_tile ?k s))" if "page_at (with_tile ?k s) q page" "pg_ref page = ?r" for q page
      using old_refs(1) [OF ok, of q page] that by simp
    show "k \<in> set (gs_interestTiles (with_tile ?k s)) \<and> fst k \<in> set (gs_interestPages (with_tile ?k s)) \<and> map_has (gs_pages (with_tile ?k s)) (fst k)"
      if "tile_at (with_tile ?k s) k tile" "ti_ref tile = ?r" for k tile
    proof (cases "k = ?k")
      case False
      then have "tile_at s k tile" using that(1) by simp
      then show ?thesis using old_refs(2) [OF ok] that(2) by fastforce
    qed (simp add: wanted has)
  qed
  have ok1: "res_ok o' ?s1" using with_tile_ok [OF ok, of ?k ids] by simp
  have ready1: "page_ready ?s1 q = page_ready s q" for q by (simp add: page_ready_def)
  have "tiles_of_ready ?s1"
    unfolding tiles_of_ready_def
  proof (intro allI impI, elim conjE)
    fix k tile page assume tile: "tile_at ?s1 k tile" and at: "page_at ?s1 (fst k) page"
    have "page_ready s (fst k)"
    proof (cases "k = ?k")
      case False
      show ?thesis by (rule tiles_pagedD [OF paged]) (use tile False in simp)
    qed (simp add: ready)
    then show "pg_status page = Entry_ready" using at by (auto simp: page_ready_def)
  qed
  then have "tiles_paged (gs_evict o' ?s1)" by (rule evict_paged)
  moreover have "entries_kept {?k} s (gs_evict o' ?s1)"
  proof -
    show ?thesis
    proof (rule keeps_before [OF evict_keeps [OF ok1]])
      show "page_ready ?s1 q = page_ready s q" for q by (rule ready1)
      show "tile_at ?s1 k tile \<and> spares (ti_ref tile) s ?s1" if "k \<notin> {?k}" "tile_at s k tile" for k tile
      proof -
        have "ti_ref tile \<noteq> ?r" using old_refs(2) [OF ok that(2)] by simp
        then show ?thesis using spares_trans [OF spares_with_tile spares_start] that by simp
      qed
    qed simp_all
  qed
  moreover have "map_has (gs_pages s) q" if "map_has (gs_pages (gs_evict o' ?s1)) q" for q
    using that evict_page_at [of o' ?s1 q] by auto
  moreover have "gs_inFlight (gs_evict o' ?s1) = gs_inFlight s + 1"
    using steady_partD(8) [OF evict_part [of o' ?s1]] by simp
  moreover have "tile_at (gs_evict o' ?s1) ?k (fresh_tile (map_of (gs_tiles s) ?k) s)"
    using evict_keeps_tile [of ?k ?s1 o'] wanted has by simp
  ultimately show ?thesis
    unfolding fetch using evict_ok [OF ok1] evict_caps [OF ok1]
    by (intro conjI exI [of _ "fresh_tile (map_of (gs_tiles s) ?k) s"]) (auto simp: fresh_tile_def split: option.split)
qed

end
