(* ===== verification/Guide_Invariant.thy ===== *)
theory Guide_Invariant
  imports Guide_Loads
begin

text \<open>
  The invariant of the guide store: sound holdings, and nothing wanted forgotten. Whatever is of
  interest is resident, on its way, waiting for a retry or queued, and work is queued only while
  every request slot is taken.
\<close>

section \<open>Nothing is missing\<close>

definition queue_ok :: "guide_store \<Rightarrow> bool" where
  "queue_ok s \<longleftrightarrow> distinct (gs_queue s) \<and> (\<forall>task \<in> set (gs_queue s).
     case task of
       Page_task p \<Rightarrow> p \<in> set (gs_interestPages s) \<and> \<not> map_has (gs_pages s) p
     | Tile_task p b \<Rightarrow> (p, b) \<in> set (gs_interestTiles s) \<and> p \<in> set (gs_interestPages s) \<and> page_ready s p)"

text \<open>A tile that needs nothing done now: on its way, up to date, waiting for its retry, or given up.\<close>

definition tile_settled :: "guide_config \<Rightarrow> guide_store \<Rightarrow> tile_key \<Rightarrow> guide_tile \<Rightarrow> bool" where
  "tile_settled o' s k tile \<longleftrightarrow> ti_status tile = Entry_loading \<or> (ti_status tile = Entry_ready \<and> \<not> ti_stale tile)
     \<or> (ti_status tile = Entry_error \<and> (live_timer s (ti_timer tile) (Tile_retry k (ti_ref tile)) \<or> ti_attempts tile > length (go_retryMs o')))"

definition pages_served :: "guide_store \<Rightarrow> bool" where
  "pages_served s \<longleftrightarrow> (\<forall>p \<in> set (gs_interestPages s). map_has (gs_pages s) p \<or> Page_task p \<in> set (gs_queue s))"

definition tiles_served :: "guide_config \<Rightarrow> guide_store \<Rightarrow> bool" where
  "tiles_served o' s \<longleftrightarrow> (\<forall>k \<in> set (gs_interestTiles s). fst k \<in> set (gs_interestPages s) \<and>
     (page_ready s (fst k) \<longrightarrow> (\<exists>tile. tile_at s k tile \<and> tile_settled o' s k tile) \<or> Tile_task (fst k) (snd k) \<in> set (gs_queue s)))"

definition pump_ready :: "guide_config \<Rightarrow> guide_store \<Rightarrow> bool" where
  "pump_ready o' s \<longleftrightarrow> res_ok o' s \<and> tiles_paged s \<and> caps_ok o' s \<and> queue_ok s \<and> pages_served s \<and> tiles_served o' s
     \<and> gs_inFlight s \<le> go_maxInFlight o'"

lemma with_queue [simp]:
  "res_ok o' (s\<lparr>gs_queue := q\<rparr>) = res_ok o' s" "tiles_paged (s\<lparr>gs_queue := q\<rparr>) = tiles_paged s" "caps_ok o' (s\<lparr>gs_queue := q\<rparr>) = caps_ok o' s"
  "page_ready (s\<lparr>gs_queue := q\<rparr>) p = page_ready s p" "tile_needed (s\<lparr>gs_queue := q\<rparr>) k = tile_needed s k"
  "tile_settled o' (s\<lparr>gs_queue := q\<rparr>) k tile = tile_settled o' s k tile"
  "spares r (s\<lparr>gs_queue := q\<rparr>) s' = spares r s s'"
  by (simp_all add: res_ok_def page_ok_def tile_ok_def own_timer_def live_request_def live_timer_def refs_apart_def guide_books_ok_def tiles_paged_def caps_ok_def
      page_ready_def tile_needed_def tile_settled_def spares_def cong: entry_status.case_cong)

lemma keeps_queue [simp]: "entries_kept X (s\<lparr>gs_queue := q\<rparr>) s' = entries_kept X s s'"
  by (simp add: entries_kept_def)

lemma spares_settled: "spares (ti_ref tile) s s' \<Longrightarrow> tile_settled o' s k tile \<Longrightarrow> tile_settled o' s' k tile"
  using spares_live_timer [of "ti_ref tile" s s'] by (auto simp: tile_settled_def)

text \<open>What is served stays served by an update that keeps the entries of interest.\<close>

lemma pages_served_keeps:
  assumes keep: "entries_kept X s s'" and served: "pages_served s" and q: "\<And>p. Page_task p \<in> set (gs_queue s) \<Longrightarrow> map_has (gs_pages s') p \<or> Page_task p \<in> set (gs_queue s')"
  shows "pages_served s'"
  unfolding pages_served_def
proof
  fix p assume p: "p \<in> set (gs_interestPages s')"
  then have p': "p \<in> set (gs_interestPages s)" using keep unfolding entries_kept_def by simp
  show "map_has (gs_pages s') p \<or> Page_task p \<in> set (gs_queue s')"
  proof (cases "map_of (gs_pages s) p")
    case None
    then show ?thesis using served p' q unfolding pages_served_def by blast
  next
    case (Some page)
    then have "page_at s' p page" using keep p' unfolding entries_kept_def by blast
    then show ?thesis by simp
  qed
qed

lemma tiles_served_keeps:
  assumes keep: "entries_kept X s s'" and served: "tiles_served o' s"
    and q: "\<And>k. k \<in> set (gs_interestTiles s) \<Longrightarrow> Tile_task (fst k) (snd k) \<in> set (gs_queue s) \<or> k \<in> X
      \<Longrightarrow> (\<exists>tile. tile_at s' k tile \<and> tile_settled o' s' k tile) \<or> Tile_task (fst k) (snd k) \<in> set (gs_queue s')"
  shows "tiles_served o' s'"
  unfolding tiles_served_def
proof (intro ballI conjI impI)
  fix k assume "k \<in> set (gs_interestTiles s')"
  then have k: "k \<in> set (gs_interestTiles s)" using keep unfolding entries_kept_def by simp
  then have fst: "fst k \<in> set (gs_interestPages s)" using served unfolding tiles_served_def by blast
  then show "fst k \<in> set (gs_interestPages s')" using keep unfolding entries_kept_def by simp
  assume "page_ready s' (fst k)"
  then have ready: "page_ready s (fst k)" using keep fst unfolding entries_kept_def by blast
  consider "Tile_task (fst k) (snd k) \<in> set (gs_queue s) \<or> k \<in> X" | tile where "k \<notin> X" "tile_at s k tile" "tile_settled o' s k tile"
    using served k ready unfolding tiles_served_def by blast
  then show "(\<exists>tile. tile_at s' k tile \<and> tile_settled o' s' k tile) \<or> Tile_task (fst k) (snd k) \<in> set (gs_queue s')"
  proof cases
    case 1
    then show ?thesis using q k by blast
  next
    case 2
    then have "tile_at s' k tile \<and> spares (ti_ref tile) s s'" using keep k fst ready unfolding entries_kept_def by blast
    then show ?thesis using spares_settled 2(3) by blast
  qed
qed

lemma queue_ok_keeps:
  assumes keep: "entries_kept X s s'" and ok: "queue_ok s" and sub: "set (gs_queue s') \<subseteq> set (gs_queue s)" "distinct (gs_queue s')"
    and pages: "\<And>p. Page_task p \<in> set (gs_queue s') \<Longrightarrow> map_has (gs_pages s') p \<Longrightarrow> map_has (gs_pages s) p"
  shows "queue_ok s'"
  unfolding queue_ok_def
proof (intro conjI ballI)
  fix task assume task: "task \<in> set (gs_queue s')"
  have same: "gs_interestPages s' = gs_interestPages s" "gs_interestTiles s' = gs_interestTiles s" using keep unfolding entries_kept_def by simp_all
  have old: "task \<in> set (gs_queue s)" using task sub(1) by blast
  show "case task of Page_task p \<Rightarrow> p \<in> set (gs_interestPages s') \<and> \<not> map_has (gs_pages s') p
      | Tile_task p b \<Rightarrow> (p, b) \<in> set (gs_interestTiles s') \<and> p \<in> set (gs_interestPages s') \<and> page_ready s' p"
  proof (cases task)
    case (Page_task p)
    then have "p \<in> set (gs_interestPages s) \<and> \<not> map_has (gs_pages s) p" using ok old unfolding queue_ok_def by fastforce
    then show ?thesis using pages [of p] task by (cases "map_of (gs_pages s') p") (simp_all add: Page_task same)
  next
    case (Tile_task p b)
    then have t: "(p, b) \<in> set (gs_interestTiles s) \<and> p \<in> set (gs_interestPages s) \<and> page_ready s p" using ok old unfolding queue_ok_def by fastforce
    then have "page_ready s' p" using keep unfolding entries_kept_def page_ready_def by blast
    then show ?thesis using t by (simp add: Tile_task same)
  qed
qed (rule sub(2))

section \<open>The pump\<close>

lemma fetch_task_ready:
  assumes ready: "pump_ready o' s" and queue: "gs_queue s = task # rest" and room: "gs_inFlight s < go_maxInFlight o'"
  shows "pump_ready o' (fetch_task o' task (s\<lparr>gs_queue := rest\<rparr>)) \<and> entries_kept UNIV s (fetch_task o' task (s\<lparr>gs_queue := rest\<rparr>))"
proof -
  let ?s0 = "s\<lparr>gs_queue := rest\<rparr>"
  let ?s' = "fetch_task o' task ?s0"
  note parts = ready [unfolded pump_ready_def]
  have q': "gs_queue ?s' = rest" by simp
  have dist: "task \<notin> set rest" "distinct rest" using parts queue unfolding queue_ok_def by simp_all
  show ?thesis
  proof (cases task)
    case (Page_task p)
    have p: "p \<in> set (gs_interestPages s)" "map_of (gs_pages s) p = None"
      using parts queue Page_task unfolding queue_ok_def by simp_all
    have s': "?s' = fetchPage o' p ?s0" by (simp add: fetch_task_def Page_task)
    have fetched: "res_ok o' ?s' \<and> tiles_paged ?s' \<and> caps_ok o' ?s' \<and> entries_kept {} s ?s' \<and> map_has (gs_pages ?s') p \<and> gs_inFlight ?s' = gs_inFlight s + 1
        \<and> (\<forall>q. map_has (gs_pages ?s') q \<longrightarrow> q = p \<or> map_has (gs_pages s) q)"
      unfolding s' using fetchPage_keeps [of o' ?s0 p "{}"] parts p by simp
    then have keep: "entries_kept {} s ?s'" by blast
    have "pages_served ?s'"
      by (rule pages_served_keeps [OF keep]) (use parts queue fetched Page_task in auto)
    moreover have "tiles_served o' ?s'"
      by (rule tiles_served_keeps [OF keep]) (use parts queue Page_task in auto)
    moreover have "queue_ok ?s'"
      by (rule queue_ok_keeps [OF keep]) (use parts queue dist fetched Page_task in \<open>auto simp: queue_ok_def\<close>)
    moreover have "entries_kept UNIV s ?s'" using keep unfolding entries_kept_def by blast
    ultimately show ?thesis using fetched room unfolding pump_ready_def by auto
  next
    case (Tile_task p b)
    have t: "(p, b) \<in> set (gs_interestTiles s)" "p \<in> set (gs_interestPages s)" "page_ready s p"
      using parts queue Tile_task unfolding queue_ok_def by simp_all
    have s': "?s' = fetchTile o' p b ?s0" by (simp add: fetch_task_def Tile_task)
    show ?thesis
    proof (cases "tile_needed s (p, b)")
      case True
      have fetched: "res_ok o' ?s' \<and> tiles_paged ?s' \<and> caps_ok o' ?s' \<and> entries_kept {(p, b)} s ?s' \<and> gs_inFlight ?s' = gs_inFlight s + 1
          \<and> (\<exists>tile. tile_at ?s' (p, b) tile \<and> ti_status tile = Entry_loading) \<and> (\<forall>q. map_has (gs_pages ?s') q \<longrightarrow> map_has (gs_pages s) q)"
        unfolding s' using fetchTile_keeps [of o' ?s0 p b] parts t True by simp blast
      then have keep: "entries_kept {(p, b)} s ?s'" by blast
      have "pages_served ?s'"
        by (rule pages_served_keeps [OF keep]) (use parts queue Tile_task in auto)
      moreover have "tiles_served o' ?s'"
        by (rule tiles_served_keeps [OF keep]) (use parts queue fetched Tile_task in \<open>auto simp: tile_settled_def\<close>)
      moreover have "queue_ok ?s'"
        by (rule queue_ok_keeps [OF keep]) (use parts queue dist fetched in auto)
      moreover have "entries_kept UNIV s ?s'" using keep unfolding entries_kept_def by blast
      ultimately show ?thesis using fetched room unfolding pump_ready_def by auto
    next
      case False
      then have same: "?s' = ?s0" unfolding s' by (intro fetchTile_skip) simp
      have settled: "\<exists>tile. tile_at s (p, b) tile \<and> tile_settled o' s (p, b) tile"
        using False by (auto simp: tile_needed_def tile_settled_def)
      have keep: "entries_kept {} s ?s0" by (simp add: entries_kept_def page_ready_def spares_core)
      have "pages_served ?s0"
        by (rule pages_served_keeps [OF keep]) (use parts queue Tile_task in auto)
      moreover have "tiles_served o' ?s0"
        by (rule tiles_served_keeps [OF keep]) (use parts queue settled Tile_task in auto)
      moreover have "queue_ok ?s0"
        by (rule queue_ok_keeps [OF keep]) (use parts queue dist in auto)
      moreover have "entries_kept UNIV s ?s0" using keep unfolding entries_kept_def by blast
      ultimately show ?thesis unfolding same using parts by (simp add: pump_ready_def)
    qed
  qed
qed

definition saturated :: "guide_config \<Rightarrow> guide_store \<Rightarrow> bool" where
  "saturated o' s \<longleftrightarrow> gs_queue s = [] \<or> gs_disposed s \<or> gs_inFlight s \<ge> go_maxInFlight o'"

lemma keeps_UNIV_trans: "entries_kept UNIV s s' \<Longrightarrow> entries_kept UNIV s' s'' \<Longrightarrow> entries_kept UNIV s s''"
  unfolding entries_kept_def by simp

lemma keeps_UNIV_refl: "entries_kept UNIV s s"
  by (simp add: entries_kept_def)

lemma pump_ready_pump: "pump_ready o' s \<Longrightarrow> pump_ready o' (gs_pump o' s) \<and> saturated o' (gs_pump o' s) \<and> entries_kept UNIV s (gs_pump o' s)"
proof (induction o' s rule: gs_pump.induct)
  case (1 o' s)
  show ?case
  proof (cases "\<not> gs_disposed s \<and> gs_inFlight s < go_maxInFlight o' \<and> gs_queue s \<noteq> []")
    case True
    then obtain task rest where queue: "gs_queue s = task # rest" by (cases "gs_queue s") auto
    let ?s' = "fetch_task o' task (s\<lparr>gs_queue := rest\<rparr>)"
    have step: "pump_ready o' ?s' \<and> entries_kept UNIV s ?s'" using fetch_task_ready [OF 1(2) queue] True by blast
    have pump: "gs_pump o' s = gs_pump o' ?s'" using True queue by (subst gs_pump.simps) simp
    have "pump_ready o' (gs_pump o' ?s') \<and> saturated o' (gs_pump o' ?s') \<and> entries_kept UNIV ?s' (gs_pump o' ?s')"
      using 1(1) [of task rest] True queue step by simp
    then show ?thesis unfolding pump using step keeps_UNIV_trans by blast
  next
    case False
    then have "gs_pump o' s = s" by (subst gs_pump.simps) (auto split: list.split)
    moreover have "saturated o' s" using False by (auto simp: saturated_def)
    ultimately show ?thesis using 1(2) by (simp add: keeps_UNIV_refl)
  qed
qed

end
