(* ===== verification/Guide_Plan.thy ===== *)
theory Guide_Plan
  imports Guide_Invariant
begin

text \<open>
  The plan: from a sound store it makes the new interest, drops what left it and queues what is
  missing; afterwards everything of interest is served and the pump is saturated.
\<close>

section \<open>The interest\<close>

definition guide_config_ok :: "guide_config \<Rightarrow> bool" where
  "guide_config_ok o' \<longleftrightarrow> 0 < go_blockMs o' \<and> 0 < go_maxInFlight o'"

definition plan_ready :: "guide_config \<Rightarrow> guide_store \<Rightarrow> bool" where
  "plan_ready o' s \<longleftrightarrow> res_ok o' s \<and> tiles_paged s \<and> queue_ok s \<and> gs_inFlight s \<le> go_maxInFlight o'"

lemma pump_plan_ready: "pump_ready o' s \<Longrightarrow> plan_ready o' s"
  by (simp add: pump_ready_def plan_ready_def)

lemma blocks_in_distinct: "0 < go_blockMs o' \<Longrightarrow> distinct (blocks_in o' a b)"
proof (cases "a < b")
  case True
  assume o: "0 < go_blockMs o'"
  obtain n where "blocks_from (floorTo a (go_blockMs o')) b (go_blockMs o') = Some (map (\<lambda>i. floorTo a (go_blockMs o') + of_nat i * go_blockMs o') [0..<n])"
    using blocks_from_lists [OF o] by blast
  then show ?thesis using o True
    by (auto simp: blocks_in_def blocksCovering_def distinct_map inj_on_def)
qed (simp add: blocks_in_def blocksCovering_def)

lemma planned_distinct: "distinct (planned_pages o' v s)" "guide_config_ok o' \<Longrightarrow> distinct (planned_blocks o' v)"
  by (simp add: planned_pages_def Let_def) (simp add: planned_blocks_def blocks_in_distinct guide_config_ok_def)

lemma with_interest [simp]:
  "res_ok o' (s\<lparr>gs_interestPages := a, gs_interestTiles := b, gs_queue := q\<rparr>) = res_ok o' s"
  "tiles_paged (s\<lparr>gs_interestPages := a, gs_interestTiles := b, gs_queue := q\<rparr>) = tiles_paged s"
  "page_ready (s\<lparr>gs_interestPages := a, gs_interestTiles := b, gs_queue := q\<rparr>) p = page_ready s p"
  by (simp_all add: res_ok_def page_ok_def tile_ok_def own_timer_def live_request_def live_timer_def refs_apart_def guide_books_ok_def tiles_paged_def
      page_ready_def cong: entry_status.case_cong)

lemma with_interest_only [simp]:
  "res_ok o' (s\<lparr>gs_interestPages := a, gs_interestTiles := b\<rparr>) = res_ok o' s"
  "tiles_paged (s\<lparr>gs_interestPages := a, gs_interestTiles := b\<rparr>) = tiles_paged s"
  "page_ready (s\<lparr>gs_interestPages := a, gs_interestTiles := b\<rparr>) p = page_ready s p"
  by (simp_all add: res_ok_def page_ok_def tile_ok_def own_timer_def live_request_def live_timer_def refs_apart_def guide_books_ok_def tiles_paged_def
      page_ready_def cong: entry_status.case_cong)

lemma set_interest_frame [simp]:
  "gs_interestPages (set_interest o' v s) = planned_pages o' v s"
  "gs_interestTiles (set_interest o' v s) = List.product (planned_pages o' v s) (planned_blocks o' v)"
  "gs_pages (set_interest o' v s) = gs_pages s" "gs_tiles (set_interest o' v s) = gs_tiles s" "gs_inFlight (set_interest o' v s) = gs_inFlight s"
  "gs_disposed (set_interest o' v s) = gs_disposed s" "gs_viewport (set_interest o' v s) = gs_viewport s"
  by (simp_all add: set_interest_def Let_def)

lemma set_interest_ready: "plan_ready o' s \<Longrightarrow> plan_ready o' (set_interest o' v s)"
  unfolding plan_ready_def set_interest_def Let_def
  by (auto simp: queue_ok_def task_wanted_def split: guide_task.splits)

section \<open>What left the interest\<close>

lemma drop_pages_frame:
  "map_of (gs_pages (fold drop_page ps s)) p = (if p \<in> set ps then None else map_of (gs_pages s) p)"
  "gs_tiles (fold drop_page ps s) = gs_tiles s" "steady_part (fold drop_page ps s) = steady_part s"
  by (induction ps arbitrary: s) auto

lemma drop_tiles_frame:
  "map_of (gs_tiles (fold drop_tile ks s)) k = (if k \<in> set ks then None else map_of (gs_tiles s) k)"
  "gs_pages (fold drop_tile ks s) = gs_pages s" "steady_part (fold drop_tile ks s) = steady_part s"
  by (induction ks arbitrary: s) auto

lemma drop_pages_ok: "res_ok o' s \<Longrightarrow> res_ok o' (fold drop_page ps s)"
  by (induction ps arbitrary: s) (simp_all add: drop_page_ok)

lemma drop_tiles_ok: "res_ok o' s \<Longrightarrow> res_ok o' (fold drop_tile ks s)"
  by (induction ks arbitrary: s) (simp_all add: drop_tile_ok)

lemma in_filter_map: "map_wf m \<Longrightarrow> k \<in> set (map fst (filter (\<lambda>(k, v). P k v) m)) \<longleftrightarrow> (\<exists>v. map_of m k = Some v \<and> P k v)"
  by (force simp: map_wf_def)

definition left_page :: "guide_store \<Rightarrow> int \<Rightarrow> bool" where
  "left_page s p \<longleftrightarrow> p \<notin> set (gs_interestPages s) \<and> (\<exists>page. page_at s p page \<and> pg_status page = Entry_loading)"

definition left_tile :: "guide_store \<Rightarrow> tile_key \<Rightarrow> bool" where
  "left_tile s k \<longleftrightarrow> k \<notin> set (gs_interestTiles s) \<and> (\<exists>tile. tile_at s k tile \<and> ti_status tile = Entry_loading)"

lemma drop_left_frame:
  assumes "res_ok o' s"
  shows "map_of (gs_pages (drop_left s)) p = (if left_page s p then None else map_of (gs_pages s) p)"
    and "map_of (gs_tiles (drop_left s)) k = (if left_tile s k then None else map_of (gs_tiles s) k)"
    and "steady_part (drop_left s) = steady_part s" and "res_ok o' (drop_left s)"
proof -
  let ?ps = "map fst (filter (\<lambda>(p, page). p \<notin> set (gs_interestPages s) \<and> pg_status page = Entry_loading) (gs_pages s))"
  let ?s1 = "fold drop_page ?ps s"
  have wf: "map_wf (gs_pages s)" "map_wf (gs_tiles s)" using res_ok_parts [OF assms] by blast+
  have interest: "gs_interestTiles ?s1 = gs_interestTiles s" by (rule steady_partD(3)) (rule drop_pages_frame(3))
  let ?ks = "map fst (filter (\<lambda>(k, tile). k \<notin> set (gs_interestTiles s) \<and> ti_status tile = Entry_loading) (gs_tiles s))"
  have left: "drop_left s = fold drop_tile ?ks ?s1" by (simp only: drop_left_def Let_def interest drop_pages_frame(2))
  have "p \<in> set ?ps \<longleftrightarrow> left_page s p" unfolding left_page_def in_filter_map [OF wf(1)] by blast
  then show "map_of (gs_pages (drop_left s)) p = (if left_page s p then None else map_of (gs_pages s) p)"
    unfolding left drop_tiles_frame drop_pages_frame by simp
  have "k \<in> set ?ks \<longleftrightarrow> left_tile s k" unfolding left_tile_def in_filter_map [OF wf(2)] by blast
  then show "map_of (gs_tiles (drop_left s)) k = (if left_tile s k then None else map_of (gs_tiles s) k)"
    unfolding left drop_tiles_frame drop_pages_frame by simp
  show "steady_part (drop_left s) = steady_part s" unfolding left drop_tiles_frame drop_pages_frame by simp
  show "res_ok o' (drop_left s)" unfolding left by (intro drop_tiles_ok drop_pages_ok assms)
qed

lemma drop_left_page_ready: "res_ok o' s \<Longrightarrow> page_ready (drop_left s) p = page_ready s p"
  by (auto simp: page_ready_def drop_left_frame(1) left_page_def)

lemma drop_left_ready:
  assumes "plan_ready o' s"
  shows "plan_ready o' (drop_left s)"
proof -
  note parts = assms [unfolded plan_ready_def]
  note frame = drop_left_frame [of o' s]
  have ok: "res_ok o' s" using parts by blast
  have "tiles_paged (drop_left s)"
    unfolding tiles_paged_def drop_left_page_ready [OF ok]
  proof (intro allI impI)
    fix k tile assume "tile_at (drop_left s) k tile"
    then have "tile_at s k tile" using frame(2) [OF ok, of k] by (simp split: if_splits)
    then show "page_ready s (fst k)" using parts tiles_pagedD by blast
  qed
  moreover have "queue_ok (drop_left s)"
    using parts steady_partD [OF frame(3) [OF ok]] frame(1) [OF ok]
    unfolding queue_ok_def drop_left_page_ready [OF ok] by (auto split: guide_task.splits)
  ultimately show ?thesis
    using parts frame(4) [OF ok] steady_partD(8) [OF frame(3) [OF ok]] unfolding plan_ready_def by simp
qed

section \<open>What is wanted\<close>

text \<open>Marks of use change nothing else.\<close>

definition page_facts :: "guide_store \<Rightarrow> int \<Rightarrow> guide_page option" where
  "page_facts s p = map_option (pg_used_update (\<lambda>_. 0)) (map_of (gs_pages s) p)"

definition tile_facts :: "guide_store \<Rightarrow> tile_key \<Rightarrow> guide_tile option" where
  "tile_facts s k = map_option (ti_used_update (\<lambda>_. 0)) (map_of (gs_tiles s) k)"

definition touched :: "guide_store \<Rightarrow> guide_store \<Rightarrow> bool" where
  "touched s s' \<longleftrightarrow> steady_part s' = steady_part s \<and> page_facts s' = page_facts s \<and> tile_facts s' = tile_facts s"

lemma touched_refl: "touched s s"
  by (simp add: touched_def)

lemma map_entry_masked: "(\<And>v. f (g v) = f v) \<Longrightarrow> map_option f (map_of (AList.map_entry k g m) k') = map_option f (map_of m k')"
  by (simp add: map_of_map_entry option.map_comp o_def)

lemma use_facts [simp]:
  "page_facts (use_page p s) = page_facts s" "tile_facts (use_page p s) = tile_facts s"
  "page_facts (use_tile k s) = page_facts s" "tile_facts (use_tile k s) = tile_facts s"
  by (rule ext, simp add: page_facts_def tile_facts_def use_page_def use_tile_def Let_def map_entry_masked)+

lemma touched_use: "touched s s' \<Longrightarrow> touched s (use_page p s')" "touched s s' \<Longrightarrow> touched s (use_tile k s')"
  by (simp_all add: touched_def)

lemma want_tiles_induct:
  "(\<And>k s. Q s \<Longrightarrow> Q (use_tile k s)) \<Longrightarrow> Q s \<Longrightarrow> Q (snd (want_tiles vp vb p bs s))"
  by (induction bs arbitrary: s) (auto simp: Let_def case_prod_beta)

lemma want_pages_induct:
  assumes use: "\<And>p s. Q s \<Longrightarrow> Q (use_page p s)" "\<And>k s. Q s \<Longrightarrow> Q (use_tile k s)"
  shows "Q s \<Longrightarrow> Q (snd (want_pages vp vb blocks ps s))"
proof (induction ps arbitrary: s)
  case (Cons p ps)
  then show ?case
    using use want_tiles_induct [of Q "use_page p s"] by (auto simp: case_prod_beta split: option.split)
qed simp

text \<open>A tile task is wanted where there is no tile, or a stale one that is not on its way.\<close>

definition tile_lacking :: "guide_store \<Rightarrow> tile_key \<Rightarrow> bool" where
  "tile_lacking s k \<longleftrightarrow> (\<forall>tile. tile_at s k tile \<longrightarrow> ti_stale tile \<and> ti_status tile \<noteq> Entry_loading)"

definition tile_tasks :: "guide_store \<Rightarrow> rat list \<Rightarrow> int \<Rightarrow> guide_task list" where
  "tile_tasks s bs p = map (Tile_task p) (filter (\<lambda>b. tile_lacking s (p, b) \<and> Tile_task p b \<notin> set (gs_queue s)) bs)"

definition page_tasks :: "guide_store \<Rightarrow> rat list \<Rightarrow> int \<Rightarrow> guide_task list" where
  "page_tasks s blocks p =
     (if map_has (gs_pages s) p then (if page_ready s p then tile_tasks s blocks p else [])
      else if Page_task p \<in> set (gs_queue s) then [] else [Page_task p])"

lemma facts_page:
  assumes "page_facts s' = page_facts s"
  shows "page_at s' p page \<Longrightarrow> \<exists>page0. page_at s p page0 \<and> pg_status page0 = pg_status page"
    and "map_has (gs_pages s') p = map_has (gs_pages s) p" and "page_ready s' p = page_ready s p"
proof -
  have eq: "map_option (pg_used_update (\<lambda>_. 0)) (map_of (gs_pages s') p) = map_option (pg_used_update (\<lambda>_. 0)) (map_of (gs_pages s) p)"
    using assms unfolding page_facts_def by meson
  have status: "map_option pg_status (map_option (pg_used_update (\<lambda>_. 0)) m) = map_option pg_status m" for m by (cases m) simp_all
  have same: "map_option pg_status (map_of (gs_pages s') p) = map_option pg_status (map_of (gs_pages s) p)"
    using arg_cong [OF eq, of "map_option pg_status"] unfolding status .
  then show "page_at s' p page \<Longrightarrow> \<exists>page0. page_at s p page0 \<and> pg_status page0 = pg_status page"
    and "map_has (gs_pages s') p = map_has (gs_pages s) p"
    by (cases "map_of (gs_pages s) p"; cases "map_of (gs_pages s') p"; simp)+
  show "page_ready s' p = page_ready s p"
    using same by (cases "map_of (gs_pages s) p"; cases "map_of (gs_pages s') p") (simp_all add: page_ready_def)
qed

lemma facts_tile:
  assumes "tile_facts s' = tile_facts s" and at: "tile_at s' k tile"
  obtains tile0 u where "tile_at s k tile0" "tile = tile0\<lparr>ti_used := u\<rparr>"
proof -
  have "tile_facts s k = Some (tile\<lparr>ti_used := 0\<rparr>)" unfolding assms(1) [symmetric] tile_facts_def by (simp add: at)
  then obtain tile0 where tile0: "tile_at s k tile0" "tile0\<lparr>ti_used := 0\<rparr> = tile\<lparr>ti_used := 0\<rparr>" by (auto simp: tile_facts_def)
  have "tile = (tile\<lparr>ti_used := 0\<rparr>)\<lparr>ti_used := ti_used tile\<rparr>" by simp
  also have "\<dots> = tile0\<lparr>ti_used := ti_used tile\<rparr>" unfolding tile0(2) [symmetric] by simp
  finally show ?thesis by (rule that [OF tile0(1)])
qed

lemma facts_tile_status:
  assumes "tile_facts s' = tile_facts s" and at: "tile_at s' k tile"
  shows "\<exists>tile0. tile_at s k tile0 \<and> ti_status tile0 = ti_status tile \<and> ti_stale tile0 = ti_stale tile"
proof -
  obtain tile0 u where tile0: "tile_at s k tile0" and tile: "tile = tile0\<lparr>ti_used := u\<rparr>" by (rule facts_tile [OF assms])
  show ?thesis by (rule exI [of _ tile0]) (simp add: tile0 tile)
qed

lemma facts_lacking_le: "tile_facts s' = tile_facts s \<Longrightarrow> tile_lacking s k \<Longrightarrow> tile_lacking s' k"
  unfolding tile_lacking_def
proof (intro allI impI)
  fix tile assume all: "\<forall>tile. tile_at s k tile \<longrightarrow> ti_stale tile \<and> ti_status tile \<noteq> Entry_loading"
    and facts: "tile_facts s' = tile_facts s" and at: "tile_at s' k tile"
  then obtain tile0 where "tile_at s k tile0" "ti_status tile0 = ti_status tile" "ti_stale tile0 = ti_stale tile"
    using facts_tile_status [OF facts at] by blast
  then show "ti_stale tile \<and> ti_status tile \<noteq> Entry_loading" using all by metis
qed

lemma facts_lacking: "tile_facts s' = tile_facts s \<Longrightarrow> tile_lacking s' k = tile_lacking s k"
  by (rule iffI) (erule facts_lacking_le [OF sym], assumption, erule facts_lacking_le, assumption)

lemma touchedD:
  assumes "touched s s'"
  shows "steady_part s' = steady_part s" "page_facts s' = page_facts s" "tile_facts s' = tile_facts s"
proof -
  note parts = assms [unfolded touched_def]
  show "steady_part s' = steady_part s" by (rule conjunct1 [OF parts])
  show "page_facts s' = page_facts s" by (rule conjunct1 [OF conjunct2 [OF parts]])
  show "tile_facts s' = tile_facts s" by (rule conjunct2 [OF conjunct2 [OF parts]])
qed

lemma touched_tasks:
  assumes "touched s s'"
  shows "tile_tasks s' bs p = tile_tasks s bs p" "page_tasks s' blocks p = page_tasks s blocks p"
proof -
  note facts = touchedD(3,2) [OF assms] and queue = steady_partD(1) [OF touchedD(1) [OF assms]]
  show tiles: "tile_tasks s' bs p = tile_tasks s bs p" for bs
    by (simp only: tile_tasks_def facts_lacking [OF facts(1)] queue)
  show "page_tasks s' blocks p = page_tasks s blocks p"
    by (simp only: page_tasks_def tiles queue facts_page(2,3) [OF facts(2)])
qed

end
