(* ===== verification/Guide_Wanted.thy ===== *)
theory Guide_Wanted
  imports Guide_Plan "HOL-Library.Multiset"
begin

text \<open>
  What the loops of the plan queue, and the plan as a whole: from a sound store it makes one in
  which everything of interest is served and every request slot is used; and the programs on screen
  stay while their tile is loaded again.
\<close>

section \<open>The tasks of the loops\<close>

lemma want_tiles_touched: "touched s (snd (want_tiles vp vb p bs s))"
  by (rule want_tiles_induct) (rule touched_use(2), assumption, rule touched_refl)

lemma want_pages_touched: "touched s (snd (want_pages vp vb blocks ps s))"
  by (rule want_pages_induct) (rule touched_use(1), assumption, rule touched_use(2), assumption, rule touched_refl)

lemma want_pages_ok: "res_ok o' s \<Longrightarrow> res_ok o' (snd (want_pages vp vb blocks ps s))"
  by (rule want_pages_induct [of "res_ok o'"]) (simp_all add: use_page_ok use_tile_ok)

lemma want_tiles_tasks: "List.map snd (fst (want_tiles vp vb p bs s)) = tile_tasks s bs p"
proof (induction bs arbitrary: s)
  case (Cons b bs)
  let ?s1 = "if map_of (gs_tiles s) (p, b) = None then s else use_tile (p, b) s"
  have touched: "touched s ?s1" by (simp add: touched_refl touched_use)
  have rest: "List.map snd (fst (want_tiles vp vb p bs ?s1)) = tile_tasks s bs p"
    unfolding Cons.IH touched_tasks(1) [OF touched] ..
  have skip: "tile_lacking s (p, b) \<longleftrightarrow> \<not> (case map_of (gs_tiles s) (p, b) of None \<Rightarrow> False | Some t \<Rightarrow> \<not> ti_stale t \<or> ti_status t = Entry_loading)"
    by (auto simp: tile_lacking_def split: option.splits)
  have one: "tile_tasks s (b # bs) p = (if tile_lacking s (p, b) \<and> Tile_task p b \<notin> set (gs_queue s) then [Tile_task p b] else []) @ tile_tasks s bs p"
    by (simp add: tile_tasks_def)
  show ?case
    unfolding one skip want_tiles.simps Let_def case_prod_beta fst_conv map_append rest by simp
qed (simp add: tile_tasks_def)

lemma want_pages_tasks: "List.map snd (fst (want_pages vp vb blocks ps s)) = concat (List.map (page_tasks s blocks) ps)"
proof (induction ps arbitrary: s)
  case (Cons p ps)
  have rest: "List.map snd (fst (want_pages vp vb blocks ps s1)) = concat (List.map (page_tasks s blocks) ps)" if "touched s s1" for s1
    unfolding Cons.IH touched_tasks(2) [OF that] ..
  show ?case
  proof (cases "map_of (gs_pages s) p")
    case None
    have "page_tasks s blocks p = (if Page_task p \<in> set (gs_queue s) then [] else [Page_task p])"
      using None by (simp add: page_tasks_def)
    then show ?thesis using None rest [OF touched_refl] by (simp add: case_prod_beta)
  next
    case (Some page)
    have used: "touched s (use_page p s)" by (rule touched_use(1) [OF touched_refl])
    show ?thesis
    proof (cases "pg_status page = Entry_ready")
      case True
      have touched: "touched s (snd (want_tiles vp vb p blocks (use_page p s)))"
        by (rule want_tiles_induct) (rule touched_use(2), assumption, rule used)
      have "page_tasks s blocks p = tile_tasks s blocks p" using Some True by (simp add: page_tasks_def page_ready_def)
      then show ?thesis
        using Some True rest [OF touched] touched_tasks(1) [OF used] by (simp add: case_prod_beta want_tiles_tasks)
    next
      case False
      then have "page_tasks s blocks p = []" using Some by (simp add: page_tasks_def page_ready_def)
      then show ?thesis using Some False rest [OF used] by (simp add: case_prod_beta)
    qed
  qed
qed simp

fun task_page :: "guide_task \<Rightarrow> int" where
  "task_page (Page_task p) = p"
| "task_page (Tile_task p b) = p"

lemma page_tasks_page: "task \<in> set (page_tasks s blocks p) \<Longrightarrow> task_page task = p"
  by (auto simp: page_tasks_def tile_tasks_def split: if_splits)

lemma page_tasks_distinct: "distinct blocks \<Longrightarrow> distinct (page_tasks s blocks p)"
  by (auto simp: page_tasks_def tile_tasks_def distinct_map inj_on_def)

lemma tasks_distinct: "distinct blocks \<Longrightarrow> distinct ps \<Longrightarrow> distinct (concat (List.map (page_tasks s blocks) ps))"
proof (induction ps)
  case (Cons p ps)
  have "set (page_tasks s blocks p) \<inter> set (concat (List.map (page_tasks s blocks) ps)) = {}"
  proof (rule ccontr)
    assume "set (page_tasks s blocks p) \<inter> set (concat (List.map (page_tasks s blocks) ps)) \<noteq> {}"
    then obtain task q where "task \<in> set (page_tasks s blocks p)" "q \<in> set ps" "task \<in> set (page_tasks s blocks q)" by auto
    then show False using page_tasks_page Cons.prems(2) by (metis distinct.simps(2))
  qed
  then show ?case using Cons page_tasks_distinct [OF Cons.prems(1)] by (simp add: distinct_append)
qed simp

lemma page_task_wanted: "Page_task q \<in> set (page_tasks s blocks p) \<longleftrightarrow> q = p \<and> \<not> map_has (gs_pages s) p \<and> Page_task p \<notin> set (gs_queue s)"
  by (auto simp: page_tasks_def tile_tasks_def)

lemma tile_task_wanted:
  "Tile_task q b \<in> set (page_tasks s blocks p) \<longleftrightarrow> q = p \<and> page_ready s p \<and> b \<in> set blocks \<and> tile_lacking s (p, b) \<and> Tile_task p b \<notin> set (gs_queue s)"
  by (auto simp: page_tasks_def tile_tasks_def page_ready_def)

section \<open>The new queue\<close>

lemma touched_ready:
  assumes touched: "touched s s'" and ok: "res_ok o' s'" and ready: "plan_ready o' s"
  shows "plan_ready o' s'"
proof -
  note part = steady_partD [OF touchedD(1) [OF touched]] and pages = facts_page [OF touchedD(2) [OF touched]]
  note parts = ready [unfolded plan_ready_def]
  have "tiles_paged s'"
    unfolding tiles_paged_def pages(3)
  proof (intro allI impI)
    fix k tile assume "tile_at s' k tile"
    then obtain tile0 where "tile_at s k tile0" using facts_tile_status [OF touchedD(3) [OF touched]] by blast
    then show "page_ready s (fst k)" using parts tiles_pagedD by blast
  qed
  moreover have "queue_ok s'" using parts unfolding queue_ok_def part pages(2,3) by blast
  ultimately show ?thesis using parts ok unfolding plan_ready_def part(8) by blast
qed

lemma set_sorted_tasks: "set (sort_key f (map snd (sort_key g wanted) @ q)) = set (List.map snd wanted) \<union> set q"
  by simp

lemma distinct_sorted_tasks:
  assumes "distinct (List.map snd wanted)" "distinct q" "set (List.map snd wanted) \<inter> set q = {}"
  shows "distinct (sort_key f (map snd (sort_key g wanted) @ q))"
proof -
  have "mset (map snd (sort_key g wanted)) = mset (List.map snd wanted)" by (simp only: mset_map mset_sort)
  then have "distinct (map snd (sort_key g wanted))" using assms(1) mset_eq_imp_distinct_iff by blast
  moreover have "set (map snd (sort_key g wanted)) = set (List.map snd wanted)" by simp
  ultimately show ?thesis using assms(2,3) by simp
qed

text \<open>Where the tasks of all pages of interest are queued, everything of interest is served.\<close>

lemma queued_ready:
  assumes ready: "plan_ready o' s" and tiles: "gs_interestTiles s = List.product (gs_interestPages s) blocks"
    and queue: "set q = set (concat (List.map (page_tasks s blocks) (gs_interestPages s))) \<union> set (gs_queue s)" "distinct q"
  shows "queue_ok (s\<lparr>gs_queue := q\<rparr>) \<and> pages_served (s\<lparr>gs_queue := q\<rparr>) \<and> tiles_served o' (s\<lparr>gs_queue := q\<rparr>)"
proof (intro conjI)
  note parts = ready [unfolded plan_ready_def]
  have page: "Page_task p \<in> set q \<longleftrightarrow> (p \<in> set (gs_interestPages s) \<and> \<not> map_has (gs_pages s) p) \<or> Page_task p \<in> set (gs_queue s)" for p
    unfolding queue(1) by (auto simp: page_task_wanted)
  have tile: "Tile_task p b \<in> set q \<longleftrightarrow> (p \<in> set (gs_interestPages s) \<and> b \<in> set blocks \<and> page_ready s p \<and> tile_lacking s (p, b)) \<or> Tile_task p b \<in> set (gs_queue s)" for p b
    unfolding queue(1) by (auto simp: tile_task_wanted)
  have old: "Page_task p \<in> set (gs_queue s) \<Longrightarrow> p \<in> set (gs_interestPages s) \<and> \<not> map_has (gs_pages s) p"
    "Tile_task p b \<in> set (gs_queue s) \<Longrightarrow> (p, b) \<in> set (gs_interestTiles s) \<and> p \<in> set (gs_interestPages s) \<and> page_ready s p" for p b
    using parts unfolding queue_ok_def by fastforce+
  show "queue_ok (s\<lparr>gs_queue := q\<rparr>)"
    unfolding queue_ok_def
  proof (intro conjI ballI)
    fix task assume "task \<in> set (gs_queue (s\<lparr>gs_queue := q\<rparr>))"
    then have task: "task \<in> set q" by simp
    show "case task of Page_task p \<Rightarrow> p \<in> set (gs_interestPages (s\<lparr>gs_queue := q\<rparr>)) \<and> \<not> map_has (gs_pages (s\<lparr>gs_queue := q\<rparr>)) p
        | Tile_task p b \<Rightarrow> (p, b) \<in> set (gs_interestTiles (s\<lparr>gs_queue := q\<rparr>)) \<and> p \<in> set (gs_interestPages (s\<lparr>gs_queue := q\<rparr>)) \<and> page_ready (s\<lparr>gs_queue := q\<rparr>) p"
    proof (cases task)
      case (Page_task p)
      have "p \<in> set (gs_interestPages s) \<and> \<not> map_has (gs_pages s) p" using task page [of p] old(1) [of p] unfolding Page_task by blast
      then show ?thesis unfolding Page_task by simp
    next
      case (Tile_task p b)
      have "(p, b) \<in> set (gs_interestTiles s) \<and> p \<in> set (gs_interestPages s) \<and> page_ready s p"
        using task tile [of p b] old(2) [of p b] unfolding Tile_task tiles set_product by blast
      then show ?thesis unfolding Tile_task by simp
    qed
  qed (simp add: queue(2))
  show "pages_served (s\<lparr>gs_queue := q\<rparr>)"
    unfolding pages_served_def
  proof
    fix p assume "p \<in> set (gs_interestPages (s\<lparr>gs_queue := q\<rparr>))"
    then have "map_has (gs_pages s) p \<or> Page_task p \<in> set q" using page [of p] by (cases "map_of (gs_pages s) p") simp_all
    then show "map_has (gs_pages (s\<lparr>gs_queue := q\<rparr>)) p \<or> Page_task p \<in> set (gs_queue (s\<lparr>gs_queue := q\<rparr>))" by simp
  qed
  show "tiles_served o' (s\<lparr>gs_queue := q\<rparr>)"
    unfolding tiles_served_def
  proof (intro ballI conjI impI)
    fix k assume "k \<in> set (gs_interestTiles (s\<lparr>gs_queue := q\<rparr>))"
    then have k: "fst k \<in> set (gs_interestPages s)" "snd k \<in> set blocks" by (auto simp: tiles)
    then show "fst k \<in> set (gs_interestPages (s\<lparr>gs_queue := q\<rparr>))" by simp
    assume "page_ready (s\<lparr>gs_queue := q\<rparr>) (fst k)"
    then have r: "page_ready s (fst k)" by simp
    show "(\<exists>tile. tile_at (s\<lparr>gs_queue := q\<rparr>) k tile \<and> tile_settled o' (s\<lparr>gs_queue := q\<rparr>) k tile) \<or> Tile_task (fst k) (snd k) \<in> set (gs_queue (s\<lparr>gs_queue := q\<rparr>))"
    proof (cases "tile_lacking s k")
      case True
      then show ?thesis using tile [of "fst k" "snd k"] k r by simp
    next
      case False
      then obtain t where t: "tile_at s k t" "\<not> ti_stale t \<or> ti_status t = Entry_loading" unfolding tile_lacking_def by blast
      then have "tile_settled o' s k t"
        using res_ok_tile [of o' s k t] parts by (cases "ti_status t") (auto simp: tile_settled_def tile_ok_def)
      then show ?thesis using t(1) by simp
    qed
  qed
qed

section \<open>Serving\<close>

lemma evict_pump_ready:
  assumes ok: "res_ok o' s" "tiles_paged s" and served: "queue_ok s" "pages_served s" "tiles_served o' s" and room: "gs_inFlight s \<le> go_maxInFlight o'"
  shows "pump_ready o' (gs_evict o' s)"
proof -
  have keep: "entries_kept {} s (gs_evict o' s)" by (rule evict_keeps [OF ok(1)])
  note part = steady_partD [OF evict_part [of o' s]]
  have "pages_served (gs_evict o' s)" by (rule pages_served_keeps [OF keep served(2)]) (simp add: part(1))
  moreover have "tiles_served o' (gs_evict o' s)" by (rule tiles_served_keeps [OF keep served(3)]) (simp add: part(1))
  moreover have "queue_ok (gs_evict o' s)"
  proof (rule queue_ok_keeps [OF keep served(1)])
    show "map_has (gs_pages s) p" if "map_has (gs_pages (gs_evict o' s)) p" for p
      using that evict_page_at [of o' s p] by auto
  qed (use served(1) in \<open>simp_all add: part(1) queue_ok_def\<close>)
  moreover have "tiles_paged (gs_evict o' s)" by (rule evict_paged [OF tiles_paged_of_ready [OF ok(2)]])
  ultimately show ?thesis using evict_ok [OF ok(1)] evict_caps [OF ok(1)] room unfolding pump_ready_def part(8) by blast
qed

section \<open>What is shown\<close>

definition shown :: "guide_store \<Rightarrow> tile_key \<Rightarrow> tile_data option" where
  "shown s k = Option.bind (map_of (gs_tiles s) k) ti_data"

definition guide_on_screen :: "guide_store \<Rightarrow> tile_key \<Rightarrow> bool" where
  "guide_on_screen s k \<longleftrightarrow> k \<in> set (gs_interestTiles s) \<and> fst k \<in> set (gs_interestPages s) \<and> page_ready s (fst k)"

lemma keeps_on_screen: "entries_kept X s s' \<Longrightarrow> guide_on_screen s k \<Longrightarrow> guide_on_screen s' k"
  unfolding guide_on_screen_def entries_kept_def page_ready_def by metis

lemma evict_shows:
  assumes "guide_on_screen s k"
  shows "shown (gs_evict o' s) k = shown s k"
proof -
  have "map_has (gs_pages s) (fst k)" using assms by (auto simp: guide_on_screen_def page_ready_def)
  then have "map_of (gs_tiles (gs_evict o' s)) k = map_of (gs_tiles s) k"
    using assms unfolding guide_on_screen_def by (intro evict_keeps_tile) blast+
  then show ?thesis by (simp add: shown_def)
qed

lemma touched_shows:
  assumes "touched s s'"
  shows "shown s' k = shown s k"
proof -
  have eq: "map_option (ti_used_update (\<lambda>_. 0)) (map_of (gs_tiles s') k) = map_option (ti_used_update (\<lambda>_. 0)) (map_of (gs_tiles s) k)"
    using touchedD(3) [OF assms] unfolding tile_facts_def by meson
  have data: "Option.bind (map_option (ti_used_update (\<lambda>_. 0)) m) ti_data = Option.bind m ti_data" for m by (cases m) simp_all
  show ?thesis using arg_cong [OF eq, of "\<lambda>m. Option.bind m ti_data"] unfolding data shown_def .
qed

lemma start_shows [simp]: "shown (start_request task ids r s) k = shown s k"
  by (simp add: shown_def)

lemma with_shows: "shown (with_page p s) k = shown s k" "shown (with_tile q s) k = shown s k"
  by (simp add: shown_def) (cases "k = q"; cases "map_of (gs_tiles s) q"; simp add: shown_def fresh_tile_def)

lemma with_on_screen:
  assumes "guide_on_screen s k"
  shows "map_of (gs_pages s) p = None \<Longrightarrow> guide_on_screen (with_page p s) k" "guide_on_screen (with_tile q s) k"
  using assms by (auto simp: guide_on_screen_def page_ready_def)

lemma fetchTile_shows:
  assumes "guide_on_screen s k"
  shows "shown (fetchTile o' p b s) k = shown s k"
proof (cases "page_ready s p \<and> tile_needed s (p, b)")
  case True
  then obtain ids where "fetchTile o' p b s = start_request (Tile_task p b) ids (gs_nextRef s) (gs_evict o' (with_tile (p, b) s))"
    using fetchTile_new by blast
  then show ?thesis using evict_shows [OF with_on_screen(2) [OF assms]] by (simp add: with_shows)
qed (simp add: fetchTile_skip)

lemma fetch_task_shows:
  assumes ready: "pump_ready o' s" and queue: "gs_queue s = task # rest" and on: "guide_on_screen s k"
  shows "shown (fetch_task o' task (s\<lparr>gs_queue := rest\<rparr>)) k = shown s k"
proof -
  let ?s0 = "s\<lparr>gs_queue := rest\<rparr>"
  have on0: "guide_on_screen ?s0 k" using on by (simp add: guide_on_screen_def)
  have s0: "shown ?s0 k = shown s k" by (simp add: shown_def)
  show ?thesis
  proof (cases task)
    case (Page_task p)
    have "map_of (gs_pages s) p = None" using ready queue Page_task by (simp add: pump_ready_def queue_ok_def)
    then have none: "map_of (gs_pages ?s0) p = None" by simp
    have "fetch_task o' task ?s0 = start_request (Page_task p) [] (gs_nextRef ?s0) (gs_evict o' (with_page p ?s0))"
      unfolding Page_task fetch_task_def guide_task.case by (rule fetchPage_new [OF none])
    then show ?thesis using evict_shows [OF with_on_screen(1) [OF on0 none]] s0 by (simp add: with_shows)
  next
    case (Tile_task p b)
    have "fetch_task o' task ?s0 = fetchTile o' p b ?s0" by (simp add: fetch_task_def Tile_task)
    then show ?thesis using fetchTile_shows [OF on0] s0 by simp
  qed
qed

lemma pump_shows: "pump_ready o' s \<Longrightarrow> guide_on_screen s k \<Longrightarrow> shown (gs_pump o' s) k = shown s k"
proof (induction o' s rule: gs_pump.induct)
  case (1 o' s)
  show ?case
  proof (cases "\<not> gs_disposed s \<and> gs_inFlight s < go_maxInFlight o' \<and> gs_queue s \<noteq> []")
    case True
    then obtain task rest where queue: "gs_queue s = task # rest" by (cases "gs_queue s") auto
    let ?s' = "fetch_task o' task (s\<lparr>gs_queue := rest\<rparr>)"
    have step: "pump_ready o' ?s' \<and> entries_kept UNIV s ?s'" using fetch_task_ready [OF 1(2) queue] True by blast
    then have on: "guide_on_screen ?s' k" using keeps_on_screen 1(3) by blast
    have pump: "gs_pump o' s = gs_pump o' ?s'" using True queue by (subst gs_pump.simps) simp
    have "shown (gs_pump o' ?s') k = shown ?s' k"
      using 1(1) [of task rest] True queue step on by simp
    then show ?thesis unfolding pump using fetch_task_shows [OF 1(2) queue 1(3)] by simp
  next
    case False
    then have "gs_pump o' s = s" by (subst gs_pump.simps) (auto split: list.split)
    then show ?thesis by simp
  qed
qed

section \<open>The plan\<close>

definition plan_base :: "guide_config \<Rightarrow> guide_viewport \<Rightarrow> guide_store \<Rightarrow> guide_store" where
  "plan_base o' v s = drop_left (set_interest o' v s)"

text \<open>The state of the plan before it evicts and pumps.\<close>

definition plan_queued :: "guide_config \<Rightarrow> guide_viewport \<Rightarrow> guide_store \<Rightarrow> guide_store" where
  "plan_queued o' v s =
     (let vpages = visiblePages o' v s; vblocks = visibleBlocks o' v; s1 = plan_base o' v s
      in case want_pages vpages vblocks (planned_blocks o' v) (gs_interestPages s1) s1 of
           (wanted, s2) \<Rightarrow> s2\<lparr>gs_queue := sort_key (task_priority vpages vblocks) (map snd (sort_key fst wanted) @ gs_queue s2)\<rparr>)"

lemma plan_split:
  "\<not> gs_disposed s \<Longrightarrow> gs_viewport s = Some v \<Longrightarrow> gs_plan o' s = gs_pump o' (gs_evict o' (plan_queued o' v s))"
  by (simp add: gs_plan_def plan_queued_def plan_base_def Let_def case_prod_beta)

lemma plan_idle: "gs_disposed s \<or> gs_viewport s = None \<Longrightarrow> gs_plan o' s = s"
  by (auto simp: gs_plan_def)

lemma plan_base_frame:
  assumes "res_ok o' s"
  shows "gs_interestPages (plan_base o' v s) = planned_pages o' v s"
    and "gs_interestTiles (plan_base o' v s) = List.product (planned_pages o' v s) (planned_blocks o' v)"
    and "gs_disposed (plan_base o' v s) = gs_disposed s" and "gs_viewport (plan_base o' v s) = gs_viewport s"
    and "page_ready (plan_base o' v s) p = page_ready s p"
    and "k \<in> set (gs_interestTiles (plan_base o' v s)) \<Longrightarrow> map_of (gs_tiles (plan_base o' v s)) k = map_of (gs_tiles s) k"
proof -
  let ?s = "set_interest o' v s"
  have ok: "res_ok o' ?s" using assms by (simp add: set_interest_def Let_def)
  note part = steady_partD [OF drop_left_frame(3) [OF ok]]
  show "gs_interestPages (plan_base o' v s) = planned_pages o' v s"
    "gs_interestTiles (plan_base o' v s) = List.product (planned_pages o' v s) (planned_blocks o' v)"
    "gs_disposed (plan_base o' v s) = gs_disposed s" "gs_viewport (plan_base o' v s) = gs_viewport s"
    unfolding plan_base_def part by simp_all
  show "page_ready (plan_base o' v s) p = page_ready s p"
    unfolding plan_base_def drop_left_page_ready [OF ok] by (simp add: page_ready_def)
  show "map_of (gs_tiles (plan_base o' v s)) k = map_of (gs_tiles s) k" if "k \<in> set (gs_interestTiles (plan_base o' v s))"
    using that drop_left_frame(2) [OF ok, of k] unfolding plan_base_def part by (simp add: left_tile_def)
qed

lemma plan_queued_ready:
  assumes ready: "plan_ready o' s" and config: "guide_config_ok o'"
  shows "\<exists>s2. touched (plan_base o' v s) s2 \<and> plan_ready o' s2 \<and> plan_queued o' v s = s2\<lparr>gs_queue := gs_queue (plan_queued o' v s)\<rparr>
    \<and> queue_ok (plan_queued o' v s) \<and> pages_served (plan_queued o' v s) \<and> tiles_served o' (plan_queued o' v s)"
proof -
  let ?s1 = "plan_base o' v s" and ?blocks = "planned_blocks o' v"
  have ok: "res_ok o' s" using ready unfolding plan_ready_def by blast
  have ready1: "plan_ready o' ?s1" unfolding plan_base_def by (intro drop_left_ready set_interest_ready ready)
  obtain wanted s2 where want: "want_pages (visiblePages o' v s) (visibleBlocks o' v) ?blocks (gs_interestPages ?s1) ?s1 = (wanted, s2)" by force
  have touched: "touched ?s1 s2"
    using want_pages_touched [of ?s1 "visiblePages o' v s" "visibleBlocks o' v" ?blocks "gs_interestPages ?s1"] unfolding want snd_conv .
  note part = steady_partD [OF touchedD(1) [OF touched]]
  have "res_ok o' s2"
    using want_pages_ok [of o' ?s1 "visiblePages o' v s" "visibleBlocks o' v" ?blocks "gs_interestPages ?s1"] ready1 unfolding want snd_conv plan_ready_def by blast
  then have ready2: "plan_ready o' s2" by (rule touched_ready [OF touched _ ready1])
  have tasks: "List.map snd wanted = concat (List.map (page_tasks s2 ?blocks) (gs_interestPages s2))"
    using want_pages_tasks [of "visiblePages o' v s" "visibleBlocks o' v" ?blocks "gs_interestPages ?s1" ?s1]
    unfolding want fst_conv part touched_tasks(2) [OF touched] .
  let ?q = "sort_key (task_priority (visiblePages o' v s) (visibleBlocks o' v)) (map snd (sort_key fst wanted) @ gs_queue s2)"
  have queued: "plan_queued o' v s = s2\<lparr>gs_queue := ?q\<rparr>" by (simp add: plan_queued_def Let_def want)
  have pages: "gs_interestPages s2 = planned_pages o' v s" "gs_interestTiles s2 = List.product (gs_interestPages s2) ?blocks"
    unfolding part plan_base_frame(1,2) [OF ok] by (rule refl)+
  have "distinct ?q"
  proof (rule distinct_sorted_tasks)
    show "distinct (List.map snd wanted)" unfolding tasks pages(1) using planned_distinct config by (intro tasks_distinct) blast+
    show "distinct (gs_queue s2)" using ready2 unfolding plan_ready_def queue_ok_def by blast
    show "set (List.map snd wanted) \<inter> set (gs_queue s2) = {}" unfolding tasks by (auto simp: page_tasks_def tile_tasks_def split: if_splits)
  qed
  moreover have "set ?q = set (concat (List.map (page_tasks s2 ?blocks) (gs_interestPages s2))) \<union> set (gs_queue s2)"
    unfolding set_sorted_tasks tasks ..
  ultimately have "queue_ok (s2\<lparr>gs_queue := ?q\<rparr>) \<and> pages_served (s2\<lparr>gs_queue := ?q\<rparr>) \<and> tiles_served o' (s2\<lparr>gs_queue := ?q\<rparr>)"
    by (intro queued_ready [OF ready2 pages(2)])
  then show ?thesis using touched ready2 unfolding queued by (intro exI [of _ s2]) simp
qed

end
