(* ===== verification/Guide_Calls.thy ===== *)
theory Guide_Calls
  imports Guide_Wanted
begin

text \<open>
  Which requests and timers may still answer: only an entry that is loading has a request of its own,
  and only an entry that is not has a timer. Eviction, the loads, the pump and the plan keep this.
\<close>

section \<open>Requests, timers and entries\<close>

fun page_timer :: "timer_action \<Rightarrow> (int \<times> nat) option" where
  "page_timer (Page_rate p r) = Some (p, r)"
| "page_timer (Page_retry p r) = Some (p, r)"
| "page_timer _ = None"

fun tile_timer :: "timer_action \<Rightarrow> (tile_key \<times> nat) option" where
  "tile_timer (Tile_rate k r) = Some (k, r)"
| "tile_timer (Tile_retry k r) = Some (k, r)"
| "tile_timer _ = None"

definition page_calls :: "guide_store \<Rightarrow> int \<Rightarrow> guide_page \<Rightarrow> bool" where
  "page_calls s p page \<longleftrightarrow>
     (live_request s (Page_task p) (pg_ref page) \<longrightarrow> pg_status page = Entry_loading \<and> pg_controller page)
     \<and> (\<forall>t \<in> set (gs_timers s). page_timer (gt_action t) = Some (p, pg_ref page) \<longrightarrow> pg_status page \<noteq> Entry_ready \<and> \<not> pg_controller page)"

definition tile_calls :: "guide_store \<Rightarrow> tile_key \<Rightarrow> guide_tile \<Rightarrow> bool" where
  "tile_calls s k tile \<longleftrightarrow>
     (live_request s (Tile_task (fst k) (snd k)) (ti_ref tile) \<longrightarrow> ti_status tile = Entry_loading \<and> ti_controller tile \<and> ti_generation tile = gs_generation s)
     \<and> (\<forall>t \<in> set (gs_timers s). tile_timer (gt_action t) = Some (k, ti_ref tile) \<longrightarrow> \<not> ti_controller tile)
     \<and> (\<forall>t \<in> set (gs_timers s). (gt_action t = Tile_retry k (ti_ref tile) \<longrightarrow> ti_status tile = Entry_error)
           \<and> (gt_action t = Tile_rate k (ti_ref tile) \<longrightarrow> ti_status tile \<noteq> Entry_error))"

definition timers_ok :: "guide_store \<Rightarrow> bool" where
  "timers_ok s \<longleftrightarrow> distinct (List.map gt_id (gs_timers s)) \<and> (\<forall>t \<in> set (gs_timers s). action_ref (gt_action t) < gs_nextRef s)"

definition calls_ok :: "guide_store \<Rightarrow> bool" where
  "calls_ok s \<longleftrightarrow> timers_ok s \<and> (\<forall>p page. page_at s p page \<longrightarrow> page_calls s p page) \<and> (\<forall>k tile. tile_at s k tile \<longrightarrow> tile_calls s k tile)"

lemma calls_okI:
  "timers_ok s \<Longrightarrow> (\<And>p page. page_at s p page \<Longrightarrow> page_calls s p page) \<Longrightarrow> (\<And>k tile. tile_at s k tile \<Longrightarrow> tile_calls s k tile) \<Longrightarrow> calls_ok s"
  unfolding calls_ok_def by blast

lemma calls_okD:
  assumes "calls_ok s"
  shows "timers_ok s" "page_at s p page \<Longrightarrow> page_calls s p page" "tile_at s k tile \<Longrightarrow> tile_calls s k tile"
  using assms unfolding calls_ok_def by blast+

lemma page_timer_ref: "page_timer a = Some (p, r) \<Longrightarrow> action_ref a = r"
  by (cases a) simp_all

lemma tile_timer_ref: "tile_timer a = Some (k, r) \<Longrightarrow> action_ref a = r"
  by (cases a) simp_all

section \<open>Quiet updates\<close>

text \<open>What matters here of a page and of a tile.\<close>

definition page_core :: "guide_page \<Rightarrow> _" where
  "page_core page = (pg_ref page, pg_status page, pg_controller page)"

definition tile_core :: "guide_tile \<Rightarrow> _" where
  "tile_core tile = (ti_ref tile, ti_status tile, ti_controller tile, ti_generation tile)"

lemma core_used [simp]: "page_core (page\<lparr>pg_used := u\<rparr>) = page_core page" "tile_core (tile\<lparr>ti_used := u\<rparr>) = tile_core tile"
  by (simp_all add: page_core_def tile_core_def)

definition fewer_calls :: "guide_store \<Rightarrow> guide_store \<Rightarrow> bool" where
  "fewer_calls s s' \<longleftrightarrow> gs_nextRef s \<le> gs_nextRef s' \<and> gs_generation s' = gs_generation s \<and> set (gs_timers s') \<subseteq> set (gs_timers s)
     \<and> (distinct (List.map gt_id (gs_timers s)) \<longrightarrow> distinct (List.map gt_id (gs_timers s')))
     \<and> (\<forall>task r. live_request s' task r \<longrightarrow> live_request s task r \<or> gs_nextRef s \<le> r)"

definition calm_page :: "guide_store \<Rightarrow> int \<Rightarrow> guide_page \<Rightarrow> bool" where
  "calm_page s p page \<longleftrightarrow> (\<exists>page0. page_at s p page0 \<and> page_core page0 = page_core page)
     \<or> (gs_nextRef s \<le> pg_ref page \<and> pg_status page = Entry_loading \<and> pg_controller page)"

definition calm_tile :: "guide_store \<Rightarrow> tile_key \<Rightarrow> guide_tile \<Rightarrow> bool" where
  "calm_tile s k tile \<longleftrightarrow> (\<exists>tile0. tile_at s k tile0 \<and> tile_core tile0 = tile_core tile)
     \<or> (gs_nextRef s \<le> ti_ref tile \<and> ti_status tile = Entry_loading \<and> ti_controller tile \<and> ti_generation tile = gs_generation s)"

definition calm :: "guide_store \<Rightarrow> guide_store \<Rightarrow> bool" where
  "calm s s' \<longleftrightarrow> fewer_calls s s' \<and> (\<forall>p page. page_at s' p page \<longrightarrow> calm_page s p page) \<and> (\<forall>k tile. tile_at s' k tile \<longrightarrow> calm_tile s k tile)"

lemma calmI:
  "fewer_calls s s' \<Longrightarrow> (\<And>p page. page_at s' p page \<Longrightarrow> calm_page s p page) \<Longrightarrow> (\<And>k tile. tile_at s' k tile \<Longrightarrow> calm_tile s k tile) \<Longrightarrow> calm s s'"
  unfolding calm_def by blast

lemma calmD:
  assumes "calm s s'"
  shows "fewer_calls s s'" "page_at s' p page \<Longrightarrow> calm_page s p page" "tile_at s' k tile \<Longrightarrow> calm_tile s k tile"
  using assms unfolding calm_def by blast+

lemma calm_old: "page_at s p page \<Longrightarrow> calm_page s p page" "tile_at s k tile \<Longrightarrow> calm_tile s k tile"
  unfolding calm_page_def calm_tile_def by blast+

lemma fewer_calls_refl: "fewer_calls s s"
  by (simp add: fewer_calls_def)

lemma fewer_callsD:
  assumes "fewer_calls s s'"
  shows "gs_nextRef s \<le> gs_nextRef s'" "gs_generation s' = gs_generation s" "set (gs_timers s') \<subseteq> set (gs_timers s)"
    "distinct (List.map gt_id (gs_timers s)) \<Longrightarrow> distinct (List.map gt_id (gs_timers s'))"
    "live_request s' task r \<Longrightarrow> live_request s task r \<or> gs_nextRef s \<le> r"
proof -
  note parts = assms [unfolded fewer_calls_def]
  show "gs_nextRef s \<le> gs_nextRef s'" "gs_generation s' = gs_generation s" "set (gs_timers s') \<subseteq> set (gs_timers s)"
    by (rule parts [THEN conjunct1], rule parts [THEN conjunct2, THEN conjunct1], rule parts [THEN conjunct2, THEN conjunct2, THEN conjunct1])
  show "distinct (List.map gt_id (gs_timers s'))" if "distinct (List.map gt_id (gs_timers s))" using parts that by (elim conjE mp)
  show "live_request s task r \<or> gs_nextRef s \<le> r" if "live_request s' task r" using parts that by blast
qed

lemma fewer_calls_trans:
  assumes a: "fewer_calls s s'" and b: "fewer_calls s' s''"
  shows "fewer_calls s s''"
  unfolding fewer_calls_def
proof (intro conjI allI impI)
  show "gs_nextRef s \<le> gs_nextRef s''" using fewer_callsD(1) [OF a] fewer_callsD(1) [OF b] by (rule le_trans)
  show "gs_generation s'' = gs_generation s" using fewer_callsD(2) [OF b] fewer_callsD(2) [OF a] by (rule trans)
  show "set (gs_timers s'') \<subseteq> set (gs_timers s)" using fewer_callsD(3) [OF b] fewer_callsD(3) [OF a] by (rule subset_trans)
  show "distinct (List.map gt_id (gs_timers s''))" if "distinct (List.map gt_id (gs_timers s))"
    by (rule fewer_callsD(4) [OF b fewer_callsD(4) [OF a that]])
  show "live_request s task r \<or> gs_nextRef s \<le> r" if "live_request s'' task r" for task r
    using fewer_callsD(5) [OF b that] fewer_callsD(5) [OF a, of task r] fewer_callsD(1) [OF a] by linarith
qed

lemma calm_refl: "calm s s"
  by (intro calmI fewer_calls_refl calm_old)

lemma calm_trans:
  assumes "calm s s'" "calm s' s''"
  shows "calm s s''"
proof (rule calmI)
  show fewer: "fewer_calls s s''" using calmD(1) [OF assms(1)] calmD(1) [OF assms(2)] by (rule fewer_calls_trans)
  have le: "gs_nextRef s \<le> gs_nextRef s'" and gen: "gs_generation s' = gs_generation s"
    using calmD(1) [OF assms(1)] unfolding fewer_calls_def by blast+
  show "calm_page s p page" if "page_at s'' p page" for p page
    using calmD(2) [OF assms(2) that] unfolding calm_page_def
  proof (elim disjE exE conjE)
    fix page0 assume p0: "page_at s' p page0" "page_core page0 = page_core page"
    show "(\<exists>page0. page_at s p page0 \<and> page_core page0 = page_core page) \<or> gs_nextRef s \<le> pg_ref page \<and> pg_status page = Entry_loading \<and> pg_controller page"
      using calmD(2) [OF assms(1) p0(1)] p0(2) unfolding calm_page_def by (simp add: page_core_def)
  qed (use le in simp)
  show "calm_tile s k tile" if "tile_at s'' k tile" for k tile
    using calmD(3) [OF assms(2) that] unfolding calm_tile_def
  proof (elim disjE exE conjE)
    fix tile0 assume t0: "tile_at s' k tile0" "tile_core tile0 = tile_core tile"
    show "(\<exists>tile0. tile_at s k tile0 \<and> tile_core tile0 = tile_core tile) \<or>
        gs_nextRef s \<le> ti_ref tile \<and> ti_status tile = Entry_loading \<and> ti_controller tile \<and> ti_generation tile = gs_generation s"
      using calmD(3) [OF assms(1) t0(1)] t0(2) unfolding calm_tile_def by (simp add: tile_core_def)
  qed (use le gen in simp)
qed

lemma calm_calls_ok:
  assumes calm: "calm s s'" and res: "res_ok o' s" and calls: "calls_ok s"
  shows "calls_ok s'"
proof (rule calls_okI)
  note fewer = calmD(1) [OF calm, unfolded fewer_calls_def]
  have live: "live_request s task r" if "live_request s' task r" "r < gs_nextRef s" for task r using fewer that by fastforce
  have timers: "t \<in> set (gs_timers s)" "action_ref (gt_action t) < gs_nextRef s" if "t \<in> set (gs_timers s')" for t
    using that fewer calls_okD(1) [OF calls] unfolding timers_ok_def by blast+
  show "timers_ok s'" using fewer timers calls_okD(1) [OF calls] unfolding timers_ok_def by (meson order.strict_trans2)
  show "page_calls s' p page" if at: "page_at s' p page" for p page
    using calmD(2) [OF calm at] unfolding calm_page_def
  proof (elim disjE exE conjE)
    fix page0 assume p0: "page_at s p page0" "page_core page0 = page_core page"
    then show ?thesis
      using calls_okD(2) [OF calls p0(1)] old_refs(1) [OF res p0(1)] live timers(1) unfolding page_calls_def page_core_def by fastforce
  next
    assume new: "gs_nextRef s \<le> pg_ref page" "pg_status page = Entry_loading" "pg_controller page"
    have "page_timer (gt_action t) \<noteq> Some (p, pg_ref page)" if "t \<in> set (gs_timers s')" for t
      using timers(2) [OF that] page_timer_ref [of "gt_action t" p "pg_ref page"] new(1) by auto
    then show ?thesis using new unfolding page_calls_def by blast
  qed
  show "tile_calls s' k tile" if at: "tile_at s' k tile" for k tile
    using calmD(3) [OF calm at] unfolding calm_tile_def
  proof (elim disjE exE conjE)
    fix tile0 assume t0: "tile_at s k tile0" "tile_core tile0 = tile_core tile"
    have core: "ti_ref tile0 = ti_ref tile" "ti_status tile0 = ti_status tile" "ti_controller tile0 = ti_controller tile" "ti_generation tile0 = ti_generation tile"
      using t0(2) by (simp_all add: tile_core_def)
    have "gs_generation s' = gs_generation s" using fewer by blast
    then show ?thesis
      using calls_okD(3) [OF calls t0(1)] old_refs(2) [OF res t0(1)] live timers(1) unfolding tile_calls_def core by metis
  next
    assume new: "gs_nextRef s \<le> ti_ref tile" "ti_status tile = Entry_loading" "ti_controller tile" "ti_generation tile = gs_generation s"
    have "tile_timer (gt_action t) \<noteq> Some (k, ti_ref tile)" "gt_action t \<noteq> Tile_retry k (ti_ref tile)" "gt_action t \<noteq> Tile_rate k (ti_ref tile)" if "t \<in> set (gs_timers s')" for t
      using timers(2) [OF that] tile_timer_ref [of "gt_action t" k "ti_ref tile"] new(1) by auto
    then show ?thesis using new fewer unfolding tile_calls_def by metis
  qed
qed

section \<open>Removals and marks\<close>

lemma fewer_calls_core:
  "gs_requests s' = gs_requests s \<Longrightarrow> gs_timers s' = gs_timers s \<Longrightarrow> gs_generation s' = gs_generation s \<Longrightarrow> gs_nextRef s \<le> gs_nextRef s' \<Longrightarrow> fewer_calls s s'"
  by (simp add: fewer_calls_def live_request_def)

lemma fewer_calls_abort: "fewer_calls s (abort_request c r s)"
  by (auto simp: fewer_calls_def live_request_def abort_request_def split: if_splits)

lemma fewer_calls_clear: "fewer_calls s (clear_timer i s)"
  by (auto simp: fewer_calls_def live_request_def clear_timer_def distinct_map_filter split: option.splits)

lemma fewer_calls_maps [simp]:
  "fewer_calls s (s'\<lparr>gs_pages := m\<rparr>) = fewer_calls s s'" "fewer_calls s (s'\<lparr>gs_tiles := n\<rparr>) = fewer_calls s s'"
  by (simp_all add: fewer_calls_def live_request_def)

lemma fewer_calls_release: "fewer_calls s (clear_timer i (abort_request c r s))"
  by (rule fewer_calls_trans [OF fewer_calls_abort fewer_calls_clear])

lemma fewer_calls_removal:
  "fewer_calls s (forget_page p s)" "fewer_calls s (forget_tile k s)" "fewer_calls s (drop_page p s)" "fewer_calls s (drop_tile k s)"
  "fewer_calls s (use_page p s)" "fewer_calls s (use_tile k s)"
proof -
  show "fewer_calls s (forget_page p s)" "fewer_calls s (forget_tile k s)"
    by (simp_all add: forget_page_def forget_tile_def fewer_calls_release fewer_calls_refl split: option.split)
  show "fewer_calls s (drop_page p s)" "fewer_calls s (drop_tile k s)"
    by (simp_all add: drop_page_def drop_tile_def fewer_calls_abort fewer_calls_refl split: option.split)
  show "fewer_calls s (use_page p s)" "fewer_calls s (use_tile k s)"
    by (rule fewer_calls_core; simp add: use_page_def use_tile_def Let_def)+
qed

lemma calm_removal:
  "calm s (forget_page p s)" "calm s (forget_tile k s)" "calm s (drop_page p s)" "calm s (drop_tile k s)"
proof -
  show "calm s (forget_page p s)" by (rule calmI) (auto simp: fewer_calls_removal split: if_splits intro: calm_old)
  show "calm s (drop_page p s)" by (rule calmI) (auto simp: fewer_calls_removal split: if_splits intro: calm_old)
  show "calm s (forget_tile k s)"
    by (rule calmI) (simp_all add: fewer_calls_removal calm_old split: if_splits)
  show "calm s (drop_tile k s)"
    by (rule calmI) (simp_all add: fewer_calls_removal calm_old split: if_splits)
qed

lemma calm_use: "calm s (use_page p s)" "calm s (use_tile k s)"
proof -
  show "calm s (use_page p s)"
  proof (rule calmI)
    show "calm_page s q page" if "page_at (use_page p s) q page" for q page
      using that unfolding calm_page_def by (auto simp: use_page_def Let_def map_of_map_entry split: if_splits)
    show "calm_tile s k tile" if "tile_at (use_page p s) k tile" for k tile
      using that by (intro calm_old) (simp add: use_page_def Let_def)
  qed (rule fewer_calls_removal)
  show "calm s (use_tile k s)"
  proof (rule calmI)
    show "calm_page s q page" if "page_at (use_tile k s) q page" for q page
      using that by (intro calm_old) (simp add: use_tile_def Let_def)
    show "calm_tile s q tile" if h: "tile_at (use_tile k s) q tile" for q tile
    proof (cases "q = k")
      case True
      have "map_of (gs_tiles (use_tile k s)) k = map_option (ti_used_update (\<lambda>_. gs_clock s + 1)) (map_of (gs_tiles s) k)"
        by (simp add: use_tile_def Let_def map_of_map_entry)
      then obtain tile0 where at: "tile_at s k tile0" and tile: "tile = tile0\<lparr>ti_used := gs_clock s + 1\<rparr>"
        using h True by (cases "map_of (gs_tiles s) k") simp_all
      show ?thesis unfolding calm_tile_def True by (intro disjI1 exI [of _ tile0]) (simp add: at tile)
    next
      case False
      then show ?thesis using h by (intro calm_old) (simp add: use_tile_def Let_def map_of_map_entry)
    qed
  qed (rule fewer_calls_removal)
qed

lemma calm_fold: "(\<And>x s. calm s (f x s)) \<Longrightarrow> calm s (fold f xs s)"
proof (induction xs arbitrary: s)
  case (Cons x xs)
  show ?case using calm_trans [OF Cons.prems Cons.IH [OF Cons.prems]] by simp
qed (simp add: calm_refl)

lemma calm_lru: "calm s (lru_pages cap ps s)" "calm s (lru_tiles cap ks s)"
proof -
  show "calm s (lru_pages cap ps s)"
    by (induction ps arbitrary: s) (auto intro: calm_refl calm_trans [OF calm_removal(1)])
  show "calm s (lru_tiles cap ks s)"
  proof (induction ks arbitrary: s)
    case (Cons k ks)
    then show ?case using calm_trans [OF calm_removal(2) Cons.IH] by (simp add: calm_refl)
  qed (simp add: calm_refl)
qed

lemma calm_evict: "calm s (gs_evict o' s)"
  unfolding gs_evict_def Let_def forget_orphans_def
  by (rule calm_trans [OF calm_trans [OF calm_lru(1) calm_fold] calm_lru(2)]) (rule calm_removal)

lemma calm_fields:
  "calm s (s\<lparr>gs_interestPages := a, gs_interestTiles := b, gs_queue := q\<rparr>)" "calm s (s\<lparr>gs_queue := q\<rparr>)" "calm s (s\<lparr>gs_viewport := v\<rparr>)"
  by (rule calmI; simp add: calm_old fewer_calls_core)+

section \<open>Loads\<close>

lemma calm_with: "calm s (with_page p s)" "calm s (with_tile k s)"
proof -
  show "calm s (with_page p s)"
  proof (rule calmI)
    show "fewer_calls s (with_page p s)" by (rule fewer_calls_core) simp_all
    show "calm_page s q page" if "page_at (with_page p s) q page" for q page
    proof (cases "q = p")
      case True
      then show ?thesis using that by (auto simp: calm_page_def fresh_page_def)
    qed (use that in \<open>auto intro: calm_old\<close>)
    show "calm_tile s k tile" if "tile_at (with_page p s) k tile" for k tile
      using that by (simp add: calm_old)
  qed
  show "calm s (with_tile k s)"
  proof (rule calmI)
    show "fewer_calls s (with_tile k s)" by (rule fewer_calls_core) simp_all
    show "calm_page s q page" if "page_at (with_tile k s) q page" for q page
      using that by (simp add: calm_old)
    show "calm_tile s q tile" if "tile_at (with_tile k s) q tile" for q tile
    proof (cases "q = k")
      case True
      then have "tile = fresh_tile (map_of (gs_tiles s) k) s" using that by simp
      then show ?thesis by (simp add: calm_tile_def fresh_tile_def)
    next
      case False
      then show ?thesis using that by (simp add: calm_old)
    qed
  qed
qed

lemma calm_start:
  assumes "calm s s'" "gs_nextRef s \<le> r"
  shows "calm s (start_request task ids r s')"
proof (rule calmI)
  note fewer = fewer_callsD [OF calmD(1) [OF assms(1)]]
  have live: "live_request s task' r' \<or> gs_nextRef s \<le> r'" if "live_request (start_request task ids r s') task' r'" for task' r'
  proof (cases "r' = r")
    case False
    then have "live_request s' task' r'" using that by (auto simp: live_request_def start_requests)
    then show ?thesis by (rule fewer(5))
  qed (simp add: assms(2))
  show "fewer_calls s (start_request task ids r s')" unfolding fewer_calls_def start_frame using fewer(1-4) live by blast
  show "calm_page s p page" if "page_at (start_request task ids r s') p page" for p page using calmD(2) [OF assms(1)] that by simp
  show "calm_tile s k tile" if "tile_at (start_request task ids r s') k tile" for k tile using calmD(3) [OF assms(1)] that by simp
qed

lemma calm_fetch:
  assumes ready: "pump_ready o' s" and queue: "gs_queue s = task # rest"
  shows "calm s (fetch_task o' task (s\<lparr>gs_queue := rest\<rparr>))"
proof -
  let ?s0 = "s\<lparr>gs_queue := rest\<rparr>"
  have "calm ?s0 (fetch_task o' task ?s0)"
  proof (cases task)
    case (Page_task p)
    have "map_of (gs_pages ?s0) p = None" using ready queue Page_task by (simp add: pump_ready_def queue_ok_def)
    then have "fetch_task o' task ?s0 = start_request (Page_task p) [] (gs_nextRef ?s0) (gs_evict o' (with_page p ?s0))"
      unfolding Page_task fetch_task_def guide_task.case by (rule fetchPage_new)
    then show ?thesis by (simp only: calm_start [OF calm_trans [OF calm_with(1) calm_evict] order_refl])
  next
    case (Tile_task p b)
    show ?thesis
    proof (cases "page_ready ?s0 p \<and> tile_needed ?s0 (p, b)")
      case True
      then obtain ids where "fetchTile o' p b ?s0 = start_request (Tile_task p b) ids (gs_nextRef ?s0) (gs_evict o' (with_tile (p, b) ?s0))"
        using fetchTile_new by blast
      then have "fetch_task o' task ?s0 = start_request (Tile_task p b) ids (gs_nextRef ?s0) (gs_evict o' (with_tile (p, b) ?s0))"
        unfolding Tile_task fetch_task_def guide_task.case .
      then show ?thesis by (simp only: calm_start [OF calm_trans [OF calm_with(2) calm_evict] order_refl])
    next
      case False
      then have "fetch_task o' task ?s0 = ?s0" by (simp add: Tile_task fetch_task_def fetchTile_skip)
      then show ?thesis by (simp add: calm_refl)
    qed
  qed
  then show ?thesis by (rule calm_trans [OF calm_fields(2)])
qed

lemma calm_pump: "pump_ready o' s \<Longrightarrow> calm s (gs_pump o' s)"
proof (induction o' s rule: gs_pump.induct)
  case (1 o' s)
  show ?case
  proof (cases "\<not> gs_disposed s \<and> gs_inFlight s < go_maxInFlight o' \<and> gs_queue s \<noteq> []")
    case True
    then obtain task rest where queue: "gs_queue s = task # rest" by (cases "gs_queue s") auto
    let ?s' = "fetch_task o' task (s\<lparr>gs_queue := rest\<rparr>)"
    have step: "pump_ready o' ?s'" using fetch_task_ready [OF 1(2) queue] True by blast
    have pump: "gs_pump o' s = gs_pump o' ?s'" using True queue by (subst gs_pump.simps) simp
    have "calm ?s' (gs_pump o' ?s')" using 1(1) [of task rest] True queue step by simp
    then show ?thesis unfolding pump by (rule calm_trans [OF calm_fetch [OF 1(2) queue]])
  next
    case False
    then have "gs_pump o' s = s" by (subst gs_pump.simps) (auto split: list.split)
    then show ?thesis by (simp add: calm_refl)
  qed
qed

section \<open>The plan\<close>

lemma calm_want: "calm s (snd (want_pages vp vb blocks ps s))"
  by (rule want_pages_induct [of "calm s"]) (auto intro: calm_refl calm_trans [OF _ calm_use(1)] calm_trans [OF _ calm_use(2)])

lemma calm_plan_queued: "calm s (plan_queued o' v s)"
proof -
  have base: "calm s (plan_base o' v s)"
    unfolding plan_base_def set_interest_def drop_left_def Let_def
    by (rule calm_trans [OF calm_fields(1) calm_trans [OF calm_fold calm_fold]]) (rule calm_removal)+
  obtain wanted s2 where want: "want_pages (visiblePages o' v s) (visibleBlocks o' v) (planned_blocks o' v) (gs_interestPages (plan_base o' v s)) (plan_base o' v s) = (wanted, s2)"
    by force
  have "calm (plan_base o' v s) s2"
    using calm_want [of "plan_base o' v s" "visiblePages o' v s" "visibleBlocks o' v" "planned_blocks o' v" "gs_interestPages (plan_base o' v s)"] unfolding want snd_conv .
  then show ?thesis unfolding plan_queued_def Let_def want prod.case by (intro calm_trans [OF calm_trans [OF base] calm_fields(2)])
qed

text \<open>The plan serves everything of interest, takes every free slot and keeps what is shown.\<close>

definition active :: "guide_store \<Rightarrow> bool" where
  "active s \<longleftrightarrow> \<not> gs_disposed s \<and> gs_viewport s \<noteq> None"

lemma plan_serves:
  assumes ready: "plan_ready o' s" and config: "guide_config_ok o'" and active: "active s"
  shows "pump_ready o' (gs_plan o' s)" "saturated o' (gs_plan o' s)" "active (gs_plan o' s)" "calm s (gs_plan o' s)"
    "guide_on_screen (gs_plan o' s) k \<Longrightarrow> shown (gs_plan o' s) k = shown s k"
proof -
  obtain v where v: "\<not> gs_disposed s" "gs_viewport s = Some v" using active by (auto simp: active_def)
  let ?s3 = "plan_queued o' v s"
  let ?s4 = "gs_evict o' ?s3"
  have ok: "res_ok o' s" using ready unfolding plan_ready_def by blast
  obtain s2 where touched: "touched (plan_base o' v s) s2" and ready2: "plan_ready o' s2" and s3: "?s3 = s2\<lparr>gs_queue := gs_queue ?s3\<rparr>"
    and served: "queue_ok ?s3" "pages_served ?s3" "tiles_served o' ?s3"
    using plan_queued_ready [OF ready config] by blast
  note part = steady_partD [OF touchedD(1) [OF touched]]
  have "res_ok o' (s2\<lparr>gs_queue := gs_queue ?s3\<rparr>)" "tiles_paged (s2\<lparr>gs_queue := gs_queue ?s3\<rparr>)" "gs_inFlight (s2\<lparr>gs_queue := gs_queue ?s3\<rparr>) \<le> go_maxInFlight o'"
    using ready2 by (simp_all add: plan_ready_def)
  then have ok3: "res_ok o' ?s3" "tiles_paged ?s3" "gs_inFlight ?s3 \<le> go_maxInFlight o'"
    unfolding s3 [symmetric] .
  have ready4: "pump_ready o' ?s4" by (rule evict_pump_ready [OF ok3(1,2) served ok3(3)])
  have plan: "gs_plan o' s = gs_pump o' ?s4" by (rule plan_split [OF v])
  note pumped = pump_ready_pump [OF ready4]
  show "pump_ready o' (gs_plan o' s)" "saturated o' (gs_plan o' s)" unfolding plan using pumped by blast+
  have keep4: "entries_kept {} ?s3 ?s4" by (rule evict_keeps [OF ok3(1)])
  have "gs_disposed (s2\<lparr>gs_queue := gs_queue ?s3\<rparr>) = gs_disposed s" "gs_viewport (s2\<lparr>gs_queue := gs_queue ?s3\<rparr>) = gs_viewport s"
    using part plan_base_frame(3,4) [OF ok] by simp_all
  then have "gs_disposed ?s3 = gs_disposed s" "gs_viewport ?s3 = gs_viewport s" unfolding s3 [symmetric] .
  then show "active (gs_plan o' s)" using active pumped keep4 unfolding plan active_def entries_kept_def by metis
  show "calm s (gs_plan o' s)"
    unfolding plan by (rule calm_trans [OF calm_trans [OF calm_plan_queued calm_evict] calm_pump [OF ready4]])
  show "shown (gs_plan o' s) k = shown s k" if on: "guide_on_screen (gs_plan o' s) k"
  proof -
    have "guide_on_screen ?s4 k" using on pumped unfolding plan guide_on_screen_def entries_kept_def by metis
    then have "guide_on_screen ?s3 k" using keep4 unfolding guide_on_screen_def entries_kept_def by metis
    then have "guide_on_screen (s2\<lparr>gs_queue := gs_queue ?s3\<rparr>) k" unfolding s3 [symmetric] .
    then have "k \<in> set (gs_interestTiles (plan_base o' v s))" using part by (simp add: guide_on_screen_def)
    then have base: "shown (plan_base o' v s) k = shown s k" using plan_base_frame(6) [OF ok] by (simp add: shown_def)
    have "shown (s2\<lparr>gs_queue := gs_queue ?s3\<rparr>) k = shown s2 k" by (simp add: shown_def)
    then have "shown ?s3 k = shown s2 k" unfolding s3 [symmetric] .
    then show ?thesis
      unfolding plan pump_shows [OF ready4 \<open>guide_on_screen ?s4 k\<close>] evict_shows [OF \<open>guide_on_screen ?s3 k\<close>] using touched_shows [OF touched] base by simp
  qed
qed

end
