(* ===== verification/Guide_Answers.thy ===== *)
theory Guide_Answers
  imports Guide_Calls
begin

text \<open>
  The invariant of the whole store, and the answers of the source: each handler keeps it, whether the
  answer is awaited, late, aborted, refused for the rate or failed.
\<close>

section \<open>The invariant\<close>

text \<open>A store that is disposed or has no viewport yet holds nothing.\<close>

definition store_ok :: "guide_config \<Rightarrow> guide_store \<Rightarrow> bool" where
  "store_ok o' s \<longleftrightarrow> calls_ok s
     \<and> (if active s then pump_ready o' s \<and> saturated o' s
        else gs_pages s = [] \<and> gs_tiles s = [] \<and> gs_queue s = [] \<and> guide_books_ok s \<and> gs_inFlight s \<le> go_maxInFlight o')"

lemma store_active: "store_ok o' s \<Longrightarrow> active s \<Longrightarrow> calls_ok s \<and> pump_ready o' s \<and> saturated o' s"
  by (simp add: store_ok_def)

lemma store_idle:
  "store_ok o' s \<Longrightarrow> \<not> active s \<Longrightarrow> timers_ok s \<and> gs_pages s = [] \<and> gs_tiles s = [] \<and> gs_queue s = [] \<and> guide_books_ok s \<and> gs_inFlight s \<le> go_maxInFlight o'"
  by (simp add: store_ok_def calls_ok_def)

lemma store_idleI:
  "\<not> active s \<Longrightarrow> timers_ok s \<Longrightarrow> gs_pages s = [] \<Longrightarrow> gs_tiles s = [] \<Longrightarrow> gs_queue s = [] \<Longrightarrow> guide_books_ok s \<Longrightarrow> gs_inFlight s \<le> go_maxInFlight o'
   \<Longrightarrow> store_ok o' s"
  by (simp add: store_ok_def calls_ok_def)

lemma store_parts:
  assumes "store_ok o' s"
  shows "plan_ready o' s" "calls_ok s" "guide_books_ok s" "gs_inFlight s \<le> go_maxInFlight o'"
proof -
  have idle: "plan_ready o' s" if "\<not> active s"
    using store_idle [OF assms that] by (simp add: plan_ready_def res_ok_def refs_apart_def tiles_paged_def queue_ok_def)
  show ready: "plan_ready o' s" using assms pump_plan_ready idle unfolding store_ok_def by metis
  show "calls_ok s" using assms unfolding store_ok_def by blast
  show "guide_books_ok s" "gs_inFlight s \<le> go_maxInFlight o'" using ready unfolding plan_ready_def res_ok_def by blast+
qed

lemma store_plan: "plan_ready o' s \<Longrightarrow> guide_config_ok o' \<Longrightarrow> calls_ok s \<Longrightarrow> active s \<Longrightarrow> store_ok o' (gs_plan o' s)"
  unfolding store_ok_def using plan_serves [of o' s] calm_calls_ok [of s "gs_plan o' s" o'] unfolding plan_ready_def by simp

section \<open>Fields that do not matter\<close>

definition core_part :: "guide_store \<Rightarrow> _" where
  "core_part s = (gs_pages s, gs_tiles s, gs_viewport s, gs_interestPages s, gs_interestTiles s, gs_queue s, gs_inFlight s, gs_generation s, gs_disposed s,
     gs_requests s, gs_timers s, gs_nextRef s)"

lemma core_partD:
  assumes "core_part s' = core_part s"
  shows "gs_pages s' = gs_pages s" "gs_tiles s' = gs_tiles s" "gs_viewport s' = gs_viewport s" "gs_interestPages s' = gs_interestPages s"
    "gs_interestTiles s' = gs_interestTiles s" "gs_queue s' = gs_queue s" "gs_inFlight s' = gs_inFlight s" "gs_generation s' = gs_generation s"
    "gs_disposed s' = gs_disposed s" "gs_requests s' = gs_requests s" "gs_timers s' = gs_timers s" "gs_nextRef s' = gs_nextRef s"
  using assms by (simp_all add: core_part_def)

lemma guide_core_same:
  assumes "core_part s' = core_part s"
  shows "res_ok o' s' = res_ok o' s" "plan_ready o' s' = plan_ready o' s" "calls_ok s' = calls_ok s" "active s' = active s"
    "pump_ready o' s' = pump_ready o' s" "saturated o' s' = saturated o' s" "store_ok o' s' = store_ok o' s"
proof -
  note same = core_partD [OF assms]
  have live: "live_request s' = live_request s" "live_timer s' = live_timer s" "own_timer s' = own_timer s" "page_ready s' = page_ready s"
    unfolding live_request_def live_timer_def own_timer_def page_ready_def fun_eq_iff same by simp_all
  have ok: "page_ok o' s' = page_ok o' s" "tile_ok o' s' = tile_ok o' s" "refs_apart s' = refs_apart s" and books: "guide_books_ok s' = guide_books_ok s"
    unfolding page_ok_def tile_ok_def refs_apart_def guide_books_ok_def fun_eq_iff same live by simp_all
  show res: "res_ok o' s' = res_ok o' s" unfolding res_ok_def same ok books ..
  have paged: "tiles_paged s' = tiles_paged s" "queue_ok s' = queue_ok s" unfolding tiles_paged_def queue_ok_def same live by (rule refl)+
  show "plan_ready o' s' = plan_ready o' s" unfolding plan_ready_def res paged same ..
  have "page_calls s' = page_calls s" "tile_calls s' = tile_calls s" "timers_ok s' = timers_ok s"
    unfolding page_calls_def tile_calls_def timers_ok_def fun_eq_iff same live by simp_all
  then show calls: "calls_ok s' = calls_ok s" unfolding calls_ok_def same by simp
  show active: "active s' = active s" unfolding active_def same ..
  have settled: "tile_settled o' s' = tile_settled o' s" unfolding tile_settled_def fun_eq_iff live by simp
  have "pages_served s' = pages_served s" "tiles_served o' s' = tiles_served o' s" "caps_ok o' s' = caps_ok o' s"
    unfolding pages_served_def tiles_served_def caps_ok_def same live settled by (rule refl)+
  then show pump: "pump_ready o' s' = pump_ready o' s" unfolding pump_ready_def res paged same by simp
  show sat: "saturated o' s' = saturated o' s" unfolding saturated_def same ..
  show "store_ok o' s' = store_ok o' s" unfolding store_ok_def calls active pump sat same books ..
qed

lemma changed_core [simp]: "core_part (gs_changed page s) = core_part s"
  by (simp add: core_part_def gs_changed_def Let_def)

section \<open>One entry changes\<close>

lemma res_ok_page_update:
  assumes ok: "res_ok o' s" and at: "page_at s p page" and ref: "pg_ref page' = pg_ref page"
    and pages: "gs_pages s' = map_set p page' (gs_pages s)" and tiles: "gs_tiles s' = gs_tiles s"
    and spare: "\<And>r. r \<noteq> pg_ref page \<Longrightarrow> spares r s s'" and new: "page_ok o' s' p page'" and books: "guide_books_ok s'"
  shows "res_ok o' s'"
proof (rule res_okI)
  note apart = refs_apartD [OF ok]
  show "map_wf (gs_pages s')" "map_wf (gs_tiles s')" using res_ok_parts [OF ok] by (simp_all add: pages tiles)
  have other: "page_at s q page0" "pg_ref page0 \<noteq> pg_ref page" if "page_at s' q page0" "q \<noteq> p" for q page0
  proof -
    show at0: "page_at s q page0" using that by (simp add: pages map_of_map_set)
    show "pg_ref page0 \<noteq> pg_ref page" using apart(1) [OF at0 at] that(2) by blast
  qed
  have here: "page0 = page'" if "page_at s' p page0" for page0 using that by (simp add: pages map_of_map_set)
  show "page_ok o' s' q page0" if h: "page_at s' q page0" for q page0
  proof (cases "q = p")
    case False
    then show ?thesis using spares_page_ok [OF spare] other [OF h] res_ok_page [OF ok] by blast
  qed (use here new h in blast)
  show "tile_ok o' s' k tile" if h: "tile_at s' k tile" for k tile
  proof -
    have at': "tile_at s k tile" using h by (simp add: tiles)
    show ?thesis using spares_tile_ok [OF spare] apart(3) [OF at at'] res_ok_tile [OF ok at'] by metis
  qed
  show "refs_apart s'"
    unfolding refs_apart_def tiles
  proof (intro conjI allI impI; elim conjE)
    fix q q' a b assume h: "page_at s' q a" "page_at s' q' b" "pg_ref a = pg_ref b"
    show "q = q'"
    proof (rule ccontr)
      assume ne: "q \<noteq> q'"
      consider "q = p" "q' \<noteq> p" | "q \<noteq> p" "q' = p" | "q \<noteq> p" "q' \<noteq> p" using ne by blast
      then show False
      proof cases
        case 1
        then show ?thesis using here h other(2) [OF h(2)] ref by auto
      next
        case 2
        then show ?thesis using here h other(2) [OF h(1)] ref by auto
      next
        case 3
        then show ?thesis using apart(1) [OF other(1) [OF h(1)] other(1) [OF h(2)] h(3)] ne by blast
      qed
    qed
  next
    fix k k' a b assume "tile_at s k a" "tile_at s k' b" "ti_ref a = ti_ref b"
    then show "k = k'" by (rule apart(2))
  next
    fix q k a b assume h: "page_at s' q a" "tile_at s k b"
    show "pg_ref a \<noteq> ti_ref b"
    proof (cases "q = p")
      case True
      then show ?thesis using here h(1) ref apart(3) [OF at h(2)] by auto
    next
      case False
      then show ?thesis using apart(3) [OF other(1) [OF h(1)] h(2)] by blast
    qed
  qed
qed (rule books)

lemma res_ok_tile_update:
  assumes ok: "res_ok o' s" and at: "tile_at s k tile" and ref: "ti_ref tile' = ti_ref tile"
    and tiles: "gs_tiles s' = map_set k tile' (gs_tiles s)" and pages: "gs_pages s' = gs_pages s"
    and spare: "\<And>r. r \<noteq> ti_ref tile \<Longrightarrow> spares r s s'" and new: "tile_ok o' s' k tile'" and books: "guide_books_ok s'"
  shows "res_ok o' s'"
proof (rule res_okI)
  note apart = refs_apartD [OF ok]
  show "map_wf (gs_pages s')" "map_wf (gs_tiles s')" using res_ok_parts [OF ok] by (simp_all add: pages tiles)
  have other: "tile_at s q tile0" "ti_ref tile0 \<noteq> ti_ref tile" if "tile_at s' q tile0" "q \<noteq> k" for q tile0
  proof -
    show at0: "tile_at s q tile0" using that by (simp add: tiles map_of_map_set)
    show "ti_ref tile0 \<noteq> ti_ref tile" using apart(2) [OF at0 at] that(2) by metis
  qed
  have here: "tile0 = tile'" if "tile_at s' k tile0" for tile0 using that by (simp add: tiles map_of_map_set)
  show "tile_ok o' s' q tile0" if h: "tile_at s' q tile0" for q tile0
  proof (cases "q = k")
    case True
    then have "tile0 = tile'" using h by (intro here) simp
    then show ?thesis using True new by simp
  next
    case False
    note o = other [OF h False]
    show ?thesis by (rule spares_tile_ok [OF spare [OF o(2)] res_ok_tile [OF ok o(1)]])
  qed
  show "page_ok o' s' p page" if h: "page_at s' p page" for p page
  proof -
    have at': "page_at s p page" using h by (simp add: pages)
    show ?thesis using spares_page_ok [OF spare] apart(3) [OF at' at] res_ok_page [OF ok at'] by metis
  qed
  show "refs_apart s'"
    unfolding refs_apart_def pages
  proof (intro conjI allI impI; elim conjE)
    fix q q' a b assume h: "tile_at s' q a" "tile_at s' q' b" "ti_ref a = ti_ref b"
    show "q = q'"
    proof (rule ccontr)
      assume ne: "q \<noteq> q'"
      consider "q = k" "q' \<noteq> k" | "q \<noteq> k" "q' = k" | "q \<noteq> k" "q' \<noteq> k" using ne by metis
      then show False
      proof cases
        case 1
        have "a = tile'" by (rule here) (use h(1) 1 in simp)
        then show ?thesis using other(2) [OF h(2) 1(2)] h(3) ref by simp
      next
        case 2
        have "b = tile'" by (rule here) (use h(2) 2 in simp)
        then show ?thesis using other(2) [OF h(1) 2(1)] h(3) ref by simp
      next
        case 3
        then show ?thesis using apart(2) [OF other(1) [OF h(1) 3(1)] other(1) [OF h(2) 3(2)] h(3)] ne by metis
      qed
    qed
  next
    fix p p' a b assume "page_at s p a" "page_at s p' b" "pg_ref a = pg_ref b"
    then show "p = p'" by (rule apart(1))
  next
    fix p q a b assume h: "page_at s p a" "tile_at s' q b"
    show "pg_ref a \<noteq> ti_ref b"
    proof (cases "q = k")
      case True
      then have "b = tile'" using h(2) by (intro here) simp
      then show ?thesis using ref apart(3) [OF h(1) at] by simp
    next
      case False
      then show ?thesis using apart(3) [OF h(1) other(1) [OF h(2) False]] by simp
    qed
  qed
qed (rule books)

text \<open>The rest of the invariant, for an update that changes what an entry holds but not which entries there are.\<close>

lemma pump_ready_update:
  assumes ready: "pump_ready o' s" and ok: "res_ok o' s'"
    and same: "gs_queue s' = gs_queue s" "gs_interestPages s' = gs_interestPages s" "gs_interestTiles s' = gs_interestTiles s" "gs_inFlight s' \<le> gs_inFlight s"
      "length (gs_pages s') = length (gs_pages s)" "length (gs_tiles s') = length (gs_tiles s)"
    and pages: "\<And>p. map_has (gs_pages s') p = map_has (gs_pages s) p" "\<And>p. page_ready s' p = page_ready s p"
    and tiles: "\<And>k. map_has (gs_tiles s') k = map_has (gs_tiles s) k"
      "\<And>k tile. tile_at s k tile \<Longrightarrow> tile_settled o' s k tile \<Longrightarrow> \<exists>tile'. tile_at s' k tile' \<and> tile_settled o' s' k tile'"
  shows "pump_ready o' s'"
proof -
  note parts = ready [unfolded pump_ready_def]
  have "tiles_paged s'"
    unfolding tiles_paged_def pages(2)
  proof (intro allI impI)
    fix k tile assume "tile_at s' k tile"
    then obtain tile0 where "tile_at s k tile0" using tiles(1) [of k] by auto
    then show "page_ready s (fst k)" using parts tiles_pagedD by blast
  qed
  moreover have "tiles_served o' s'"
    unfolding tiles_served_def same(1-3) pages(2)
  proof (intro ballI conjI impI)
    fix k assume k: "k \<in> set (gs_interestTiles s)"
    then show "fst k \<in> set (gs_interestPages s)" using parts unfolding tiles_served_def by blast
    assume "page_ready s (fst k)"
    then consider tile where "tile_at s k tile" "tile_settled o' s k tile" | "Tile_task (fst k) (snd k) \<in> set (gs_queue s)"
      using parts k unfolding tiles_served_def by blast
    then show "(\<exists>tile. tile_at s' k tile \<and> tile_settled o' s' k tile) \<or> Tile_task (fst k) (snd k) \<in> set (gs_queue s)"
      by cases (use tiles(2) in blast)+
  qed
  moreover have "queue_ok s'" "pages_served s'" "caps_ok o' s'"
    using parts unfolding queue_ok_def pages_served_def caps_ok_def same(1-3,5,6) pages by blast+
  moreover have "gs_inFlight s' \<le> go_maxInFlight o'" using parts same(4) by linarith
  ultimately show ?thesis using ok unfolding pump_ready_def by blast
qed

lemma settled_timers: "gs_timers s' = gs_timers s \<Longrightarrow> tile_settled o' s' k tile = tile_settled o' s k tile"
  by (simp add: tile_settled_def live_timer_def)

section \<open>A request is handled\<close>

lemma handled_frame [simp]:
  "gs_pages (request_handled r s) = gs_pages s" "gs_tiles (request_handled r s) = gs_tiles s" "gs_viewport (request_handled r s) = gs_viewport s"
  "gs_interestPages (request_handled r s) = gs_interestPages s" "gs_interestTiles (request_handled r s) = gs_interestTiles s" "gs_queue (request_handled r s) = gs_queue s"
  "gs_inFlight (request_handled r s) = gs_inFlight s" "gs_generation (request_handled r s) = gs_generation s" "gs_disposed (request_handled r s) = gs_disposed s"
  "gs_timers (request_handled r s) = gs_timers s" "gs_nextRef (request_handled r s) = gs_nextRef s" "gs_rateLimitPages (request_handled r s) = gs_rateLimitPages s"
  "page_ready (request_handled r s) p = page_ready s p" "live_timer (request_handled r s) i a = live_timer s i a" "own_timer (request_handled r s) i r' = own_timer s i r'"
  by (simp_all add: request_handled_def page_ready_def live_timer_def own_timer_def)

lemma live_handled [simp]: "live_request (request_handled r s) task r' \<longleftrightarrow> r' \<noteq> r \<and> live_request s task r'"
  by (auto simp: live_request_def request_handled_def)

lemma live_unique: "guide_books_ok s \<Longrightarrow> q \<in> set (gs_requests s) \<Longrightarrow> live_request s task (rq_ref q) \<Longrightarrow> task = rq_task q \<and> \<not> rq_aborted q \<and> \<not> rq_handled q"
  unfolding live_request_def guide_books_ok_def by (metis distinct_map inj_onD)

lemma books_handled: "guide_books_ok s \<Longrightarrow> guide_books_ok (request_handled r s)"
proof -
  assume ok: "guide_books_ok s"
  let ?f = "\<lambda>q. if rq_ref q = r then q\<lparr>rq_handled := True\<rparr> else q"
  have refs: "List.map rq_ref (List.map ?f (gs_requests s)) = List.map rq_ref (gs_requests s)" by (rule map_rq_ref(2))
  have requests: "gs_requests (request_handled r s) = List.map ?f (gs_requests s)" by (simp add: request_handled_def)
  show ?thesis
    using ok unfolding guide_books_ok_def handled_frame requests refs refs_map [OF refs] length_map .
qed

lemma calm_handled: "calm s (request_handled r s)"
  by (rule calmI) (auto simp: fewer_calls_def calm_old)

lemma spares_handled: "r' \<noteq> r \<Longrightarrow> spares r' s (request_handled r s)"
  by (simp add: spares_def)

lemma page_ok_handled: "page_ok o' s p page \<Longrightarrow> \<not> (pg_ref page = r \<and> live_request s (Page_task p) r) \<Longrightarrow> page_ok o' (request_handled r s) p page"
  by (cases "pg_status page") (auto simp: page_ok_def)

lemma tile_ok_handled: "tile_ok o' s k tile \<Longrightarrow> \<not> (ti_ref tile = r \<and> live_request s (Tile_task (fst k) (snd k)) r) \<Longrightarrow> tile_ok o' (request_handled r s) k tile"
  by (cases "ti_status tile") (auto simp: tile_ok_def)

lemma res_ok_handled:
  assumes ok: "res_ok o' s" and idle: "\<And>p page. page_at s p page \<Longrightarrow> pg_ref page = r \<Longrightarrow> \<not> live_request s (Page_task p) r"
    "\<And>k tile. tile_at s k tile \<Longrightarrow> ti_ref tile = r \<Longrightarrow> \<not> live_request s (Tile_task (fst k) (snd k)) r"
  shows "res_ok o' (request_handled r s)"
proof (rule res_okI)
  note parts = res_ok_parts [OF ok]
  show "map_wf (gs_pages (request_handled r s))" "map_wf (gs_tiles (request_handled r s))" using parts by simp_all
  show "page_ok o' (request_handled r s) p page" if "page_at (request_handled r s) p page" for p page
    using that idle(1) res_ok_page [OF ok] by (intro page_ok_handled) auto
  show "tile_ok o' (request_handled r s) k tile" if h: "tile_at (request_handled r s) k tile" for k tile
  proof (rule tile_ok_handled)
    have at: "tile_at s k tile" using h by simp
    show "tile_ok o' s k tile" by (rule res_ok_tile [OF ok at])
    show "\<not> (ti_ref tile = r \<and> live_request s (Tile_task (fst k) (snd k)) r)" using idle(2) [OF at] by blast
  qed
  have "refs_apart (request_handled r s) = refs_apart s" by (simp only: refs_apart_def handled_frame)
  then show "refs_apart (request_handled r s)" using parts by blast
  show "guide_books_ok (request_handled r s)" using parts books_handled by blast
qed

text \<open>A handled request that no entry waits for changes nothing else.\<close>

lemma store_handled:
  assumes ok: "store_ok o' s" and idle: "\<And>p page. page_at s p page \<Longrightarrow> pg_ref page = r \<Longrightarrow> \<not> live_request s (Page_task p) r"
    "\<And>k tile. tile_at s k tile \<Longrightarrow> ti_ref tile = r \<Longrightarrow> \<not> live_request s (Tile_task (fst k) (snd k)) r"
  shows "store_ok o' (request_handled r s)"
proof (cases "active s")
  case True
  note act = store_active [OF ok True]
  have res: "res_ok o' s" using act unfolding pump_ready_def by blast
  have "calls_ok (request_handled r s)" using act by (intro calm_calls_ok [OF calm_handled res]) blast
  moreover have "pump_ready o' (request_handled r s)"
  proof (rule pump_ready_update)
    show "pump_ready o' s" using act by blast
    show "res_ok o' (request_handled r s)" by (rule res_ok_handled [OF res]) (rule idle, assumption+)+
    show "\<exists>tile'. tile_at (request_handled r s) k tile' \<and> tile_settled o' (request_handled r s) k tile'"
      if "tile_at s k tile" "tile_settled o' s k tile" for k tile
      using that by (intro exI [of _ tile]) (simp add: settled_timers [of "request_handled r s" s])
  qed simp_all
  moreover have "saturated o' (request_handled r s)" "active (request_handled r s)" using act True by (simp_all add: saturated_def active_def)
  ultimately show ?thesis by (simp add: store_ok_def)
next
  case False
  note empty = store_idle [OF ok False]
  show ?thesis
  proof (rule store_idleI)
    show "guide_books_ok (request_handled r s)" using empty books_handled by blast
  qed (use empty False in \<open>simp_all add: active_def timers_ok_def\<close>)
qed

end
