(* ===== verification/Guide_Handlers.thy ===== *)
theory Guide_Handlers
  imports Guide_Answers
begin

text \<open>
  The handlers of a request's answer keep the invariant of the store; and so does each answer that an
  entry waits for: data, a refusal for the rate, a failure.
\<close>

section \<open>Updates of one entry\<close>

lemma map_set_twice: "map_set k v (map_set k w m) = map_set k v m"
  by (induction m) auto

lemma map_set_length: "map_has m k \<Longrightarrow> length (map_set k v m) = length m"
  by (induction m) (auto split: if_splits)

lemma calls_ok_page_update:
  assumes calls: "calls_ok s" and pages: "gs_pages s' = map_set p page' (gs_pages s)"
    and same: "gs_tiles s' = gs_tiles s" "gs_generation s' = gs_generation s" and live: "\<And>task r. live_request s' task r \<Longrightarrow> live_request s task r"
    and timers: "\<And>t. t \<in> set (gs_timers s') \<Longrightarrow> t \<in> set (gs_timers s) \<or> (\<exists>r. page_timer (gt_action t) = Some (p, r))"
    and new: "page_calls s' p page'" "timers_ok s'"
  shows "calls_ok s'"
proof (rule calls_okI)
  have no_tile: "tile_timer a = None" if "page_timer a = Some x" for a x using that by (cases a) simp_all
  show "page_calls s' q page" if h: "page_at s' q page" for q page
  proof (cases "q = p")
    case True
    then show ?thesis using h new(1) by (simp add: pages map_of_map_set)
  next
    case False
    then have "page_at s q page" using h by (simp add: pages map_of_map_set)
    then have "page_calls s q page" by (rule calls_okD(2) [OF calls])
    then show ?thesis using False live timers unfolding page_calls_def by fastforce
  qed
  show "tile_calls s' k tile" if h: "tile_at s' k tile" for k tile
  proof -
    have old: "tile_calls s k tile" by (rule calls_okD(3) [OF calls]) (use h same in simp)
    have "t \<in> set (gs_timers s)" if "t \<in> set (gs_timers s')" "tile_timer (gt_action t) = Some (k, ti_ref tile)" for t
      using timers [OF that(1)] no_tile that(2) by fastforce
    moreover have "t \<in> set (gs_timers s)" if "t \<in> set (gs_timers s')" "gt_action t = Tile_retry k (ti_ref tile) \<or> gt_action t = Tile_rate k (ti_ref tile)" for t
      using timers [OF that(1)] that(2) by auto
    ultimately show ?thesis using old live unfolding tile_calls_def same by blast
  qed
qed (rule new(2))

lemma calls_ok_tile_update:
  assumes calls: "calls_ok s" and tiles: "gs_tiles s' = map_set k tile' (gs_tiles s)"
    and same: "gs_pages s' = gs_pages s" "gs_generation s' = gs_generation s" and live: "\<And>task r. live_request s' task r \<Longrightarrow> live_request s task r"
    and timers: "\<And>t. t \<in> set (gs_timers s') \<Longrightarrow> t \<in> set (gs_timers s) \<or> (\<exists>r. tile_timer (gt_action t) = Some (k, r))"
    and new: "tile_calls s' k tile'" "timers_ok s'"
  shows "calls_ok s'"
proof (rule calls_okI)
  have no_page: "page_timer a = None" if "tile_timer a = Some x" for a x using that by (cases a) simp_all
  show "page_calls s' p page" if h: "page_at s' p page" for p page
  proof -
    have old: "page_calls s p page" by (rule calls_okD(2) [OF calls]) (use h same in simp)
    have "t \<in> set (gs_timers s)" if "t \<in> set (gs_timers s')" "page_timer (gt_action t) = Some (p, pg_ref page)" for t
      using timers [OF that(1)] no_page that(2) by fastforce
    then show ?thesis using old live unfolding page_calls_def by blast
  qed
  show "tile_calls s' q tile" if h: "tile_at s' q tile" for q tile
  proof (cases "q = k")
    case True
    then show ?thesis using h new(1) by (simp add: tiles map_of_map_set)
  next
    case False
    then have "tile_at s q tile" using h by (simp add: tiles map_of_map_set)
    then have old: "tile_calls s q tile" by (rule calls_okD(3) [OF calls])
    have "t \<in> set (gs_timers s)" if "t \<in> set (gs_timers s')" "tile_timer (gt_action t) = Some (q, ti_ref tile)" for t
      using timers [OF that(1)] that(2) False by auto
    moreover have "t \<in> set (gs_timers s)" if "t \<in> set (gs_timers s')" "gt_action t = Tile_retry q (ti_ref tile) \<or> gt_action t = Tile_rate q (ti_ref tile)" for t
      using timers [OF that(1)] that(2) False by auto
    ultimately show ?thesis using old live unfolding tile_calls_def same by blast
  qed
qed (rule new(2))

section \<open>A new timer\<close>

definition with_timer :: "rat \<Rightarrow> timer_action \<Rightarrow> guide_store \<Rightarrow> guide_store" where
  "with_timer ms action s = snd (set_timer ms action s)"

lemma set_timer_eq: "set_timer ms action s = (gs_nextRef s, with_timer ms action s)"
  by (simp add: with_timer_def set_timer_def)

lemma with_timer_frame [simp]:
  "gs_pages (with_timer ms a s) = gs_pages s" "gs_tiles (with_timer ms a s) = gs_tiles s" "gs_viewport (with_timer ms a s) = gs_viewport s"
  "gs_interestPages (with_timer ms a s) = gs_interestPages s" "gs_interestTiles (with_timer ms a s) = gs_interestTiles s" "gs_queue (with_timer ms a s) = gs_queue s"
  "gs_inFlight (with_timer ms a s) = gs_inFlight s" "gs_generation (with_timer ms a s) = gs_generation s" "gs_disposed (with_timer ms a s) = gs_disposed s"
  "gs_requests (with_timer ms a s) = gs_requests s" "gs_nextRef (with_timer ms a s) = gs_nextRef s + 1"
  "gs_timers (with_timer ms a s) = gs_timers s @ [\<lparr>gt_id = gs_nextRef s, gt_ms = ms, gt_action = a\<rparr>]" "live_request (with_timer ms a s) = live_request s"
  by (simp_all add: with_timer_def set_timer_def live_request_def fun_eq_iff)

lemma spares_with_timer: "spares r s (with_timer ms a s)"
  by (simp add: spares_def)

lemma live_with_timer: "live_timer (with_timer ms a s) (Some (gs_nextRef s)) a"
  by (simp add: live_timer_def)

lemma own_with_timer: "guide_books_ok s \<Longrightarrow> action_ref a = r \<Longrightarrow> own_timer (with_timer ms a s) (Some (gs_nextRef s)) r"
  by (auto simp: own_timer_def guide_books_ok_def)

lemma books_with_timer: "guide_books_ok s \<Longrightarrow> guide_books_ok (with_timer ms a s)"
  by (auto simp: guide_books_ok_def less_Suc_eq)

lemma timers_with_timer: "guide_books_ok s \<Longrightarrow> timers_ok s \<Longrightarrow> action_ref a < gs_nextRef s \<Longrightarrow> timers_ok (with_timer ms a s)"
  by (auto simp: timers_ok_def guide_books_ok_def less_Suc_eq)

section \<open>An answer that nothing waits for\<close>

definition waits :: "guide_store \<Rightarrow> guide_request \<Rightarrow> bool" where
  "waits s q \<longleftrightarrow> \<not> rq_aborted q \<and>
     (case rq_task q of
        Page_task p \<Rightarrow> map_option pg_ref (map_of (gs_pages s) p) = Some (rq_ref q)
      | Tile_task p b \<Rightarrow> map_option ti_ref (map_of (gs_tiles s) (p, b)) = Some (rq_ref q))"

lemma handled_unawaited:
  assumes ok: "store_ok o' s" and q: "q \<in> set (gs_requests s)" and idle: "\<not> waits s q"
  shows "store_ok o' (request_handled (rq_ref q) s)"
proof (rule store_handled [OF ok])
  note unique = live_unique [OF store_parts(3) [OF ok] q]
  show "\<not> live_request s (Page_task p) (rq_ref q)" if h: "page_at s p page" "pg_ref page = rq_ref q" for p page
  proof
    assume "live_request s (Page_task p) (rq_ref q)"
    then have "rq_task q = Page_task p" "\<not> rq_aborted q" using unique [of "Page_task p"] by simp_all
    then show False using idle h by (simp add: waits_def)
  qed
  show "\<not> live_request s (Tile_task (fst k) (snd k)) (rq_ref q)" if h: "tile_at s k tile" "ti_ref tile = rq_ref q" for k tile
  proof
    assume "live_request s (Tile_task (fst k) (snd k)) (rq_ref q)"
    then have "rq_task q = Tile_task (fst k) (snd k)" "\<not> rq_aborted q" using unique [of "Tile_task (fst k) (snd k)"] by simp_all
    then show False using idle h by (simp add: waits_def)
  qed
qed

lemma request_unawaited: "\<not> waits s q \<Longrightarrow> request_answers o' delay answer q s = request_handled (rq_ref q) s"
  by (cases answer; cases "rq_task q")
    (auto simp: request_answers_def waits_def page_answered_def page_refused_def tile_answered_def tile_refused_def Let_def split: option.split)

section \<open>The state an outcome is stored in\<close>

text \<open>\<open>b\<close> is \<open>s\<close> with the request \<open>r\<close> handled and at most one new timer, whose action is in \<open>A\<close>.\<close>

definition answers_from :: "nat \<Rightarrow> timer_action set \<Rightarrow> guide_store \<Rightarrow> guide_store \<Rightarrow> bool" where
  "answers_from r A s b \<longleftrightarrow> gs_pages b = gs_pages s \<and> gs_tiles b = gs_tiles s \<and> gs_viewport b = gs_viewport s
     \<and> gs_interestPages b = gs_interestPages s \<and> gs_interestTiles b = gs_interestTiles s \<and> gs_queue b = gs_queue s \<and> gs_inFlight b = gs_inFlight s
     \<and> gs_generation b = gs_generation s \<and> gs_disposed b = gs_disposed s
     \<and> gs_nextRef s \<le> gs_nextRef b \<and> (\<forall>r'. r' \<noteq> r \<longrightarrow> spares r' s b) \<and> guide_books_ok b \<and> timers_ok b
     \<and> (\<forall>task r'. live_request b task r' \<longrightarrow> live_request s task r' \<and> r' \<noteq> r)
     \<and> (\<forall>t \<in> set (gs_timers b). t \<in> set (gs_timers s) \<or> gt_action t \<in> A) \<and> set (gs_timers s) \<subseteq> set (gs_timers b)"

lemma answers_from_handled:
  assumes "store_ok o' s"
  shows "answers_from r {} s (request_handled r s)"
  using store_parts(3) [OF assms] books_handled calls_okD(1) [OF store_parts(2) [OF assms]] spares_handled
  by (simp add: answers_from_def timers_ok_def)

lemma answers_from_timer:
  assumes ok: "store_ok o' s" and ref: "action_ref a < gs_nextRef s"
  shows "answers_from r {a} s (with_timer ms a (request_handled r s))"
proof -
  let ?b = "with_timer ms a (request_handled r s)"
  have books: "guide_books_ok (request_handled r s)" "timers_ok (request_handled r s)"
    using answers_from_handled [OF ok, of r] unfolding answers_from_def by blast+
  show ?thesis
    unfolding answers_from_def
  proof (intro conjI allI impI ballI)
    show "spares r' s ?b" if "r' \<noteq> r" for r' by (rule spares_trans [OF spares_handled [OF that] spares_with_timer])
    show "guide_books_ok ?b" by (rule books_with_timer [OF books(1)])
    show "timers_ok ?b" by (rule timers_with_timer [OF books]) (simp add: ref)
    show "t \<in> set (gs_timers s) \<or> gt_action t \<in> {a}" if "t \<in> set (gs_timers ?b)" for t using that by auto
  qed auto
qed

lemma answers_fromD:
  assumes "answers_from r A s b"
  shows "gs_pages b = gs_pages s" "gs_tiles b = gs_tiles s" "gs_viewport b = gs_viewport s" "gs_interestPages b = gs_interestPages s"
    "gs_interestTiles b = gs_interestTiles s" "gs_queue b = gs_queue s" "gs_inFlight b = gs_inFlight s" "gs_generation b = gs_generation s"
    "gs_disposed b = gs_disposed s" "r' \<noteq> r \<Longrightarrow> spares r' s b" "guide_books_ok b" "timers_ok b"
    "live_request b task r' \<Longrightarrow> live_request s task r' \<and> r' \<noteq> r" "t \<in> set (gs_timers b) \<Longrightarrow> t \<in> set (gs_timers s) \<or> gt_action t \<in> A"
    "gs_nextRef s \<le> gs_nextRef b" "set (gs_timers s) \<subseteq> set (gs_timers b)"
  using assms unfolding answers_from_def by blast+

lemma put_frame [simp]:
  "gs_pages (put_page p page s) = map_set p page (gs_pages s)" "gs_tiles (put_page p page s) = gs_tiles s" "gs_viewport (put_page p page s) = gs_viewport s"
  "gs_interestPages (put_page p page s) = gs_interestPages s" "gs_interestTiles (put_page p page s) = gs_interestTiles s" "gs_queue (put_page p page s) = gs_queue s"
  "gs_inFlight (put_page p page s) = gs_inFlight s" "gs_generation (put_page p page s) = gs_generation s" "gs_disposed (put_page p page s) = gs_disposed s"
  "gs_timers (put_page p page s) = gs_timers s" "gs_nextRef (put_page p page s) = gs_nextRef s" "gs_requests (put_page p page s) = gs_requests s"
  "gs_tiles (put_tile k tile s) = map_set k tile (gs_tiles s)" "gs_pages (put_tile k tile s) = gs_pages s" "gs_viewport (put_tile k tile s) = gs_viewport s"
  "gs_interestPages (put_tile k tile s) = gs_interestPages s" "gs_interestTiles (put_tile k tile s) = gs_interestTiles s" "gs_queue (put_tile k tile s) = gs_queue s"
  "gs_inFlight (put_tile k tile s) = gs_inFlight s" "gs_generation (put_tile k tile s) = gs_generation s" "gs_disposed (put_tile k tile s) = gs_disposed s"
  "gs_timers (put_tile k tile s) = gs_timers s" "gs_nextRef (put_tile k tile s) = gs_nextRef s" "gs_requests (put_tile k tile s) = gs_requests s"
  by (simp_all add: put_page_def put_tile_def)

lemma put_live [simp]:
  "live_request (put_page p page s) = live_request s" "live_timer (put_page p page s) = live_timer s" "own_timer (put_page p page s) = own_timer s"
  "live_request (put_tile k tile s) = live_request s" "live_timer (put_tile k tile s) = live_timer s" "own_timer (put_tile k tile s) = own_timer s"
  "guide_books_ok (put_page p page s) = guide_books_ok s" "guide_books_ok (put_tile k tile s) = guide_books_ok s"
  "timers_ok (put_page p page s) = timers_ok s" "timers_ok (put_tile k tile s) = timers_ok s"
  "spares r s0 (put_page p page s) = spares r s0 s" "spares r s0 (put_tile k tile s) = spares r s0 s"
  by (simp_all add: live_request_def live_timer_def own_timer_def guide_books_ok_def timers_ok_def spares_def fun_eq_iff)

lemma put_ok [simp]:
  "page_ok o' (put_page q page0 s) p page = page_ok o' s p page" "tile_ok o' (put_tile k0 tile0 s) k tile = tile_ok o' s k tile"
  by (simp_all only: page_ok_def tile_ok_def put_live put_frame)

section \<open>Pages\<close>

lemma awaited_page:
  assumes ok: "store_ok o' s" and q: "q \<in> set (gs_requests s)" "\<not> rq_handled q" "waits s q" and task: "rq_task q = Page_task p"
  shows "\<exists>page. page_at s p page \<and> pg_ref page = rq_ref q \<and> pg_status page = Entry_loading \<and> pg_controller page \<and> pg_attempts page = 0
    \<and> (\<forall>t \<in> set (gs_timers s). page_timer (gt_action t) \<noteq> Some (p, rq_ref q)) \<and> active s \<and> page_ok o' s p page"
proof -
  obtain page where page: "page_at s p page" "pg_ref page = rq_ref q" using q(3) task by (auto simp: waits_def)
  have "live_request s (Page_task p) (pg_ref page)" using q task page(2) unfolding waits_def live_request_def by auto
  then have calls: "pg_status page = Entry_loading" "pg_controller page" "\<forall>t \<in> set (gs_timers s). page_timer (gt_action t) \<noteq> Some (p, rq_ref q)"
    using calls_okD(2) [OF store_parts(2) [OF ok] page(1)] page(2) unfolding page_calls_def by auto
  have "page_ok o' s p page" using store_parts(1) [OF ok] res_ok_page page(1) unfolding plan_ready_def by blast
  moreover have "active s" using store_idle [OF ok] page(1) by fastforce
  moreover have "pg_attempts page = 0" using \<open>page_ok o' s p page\<close> calls(1) by (simp add: page_ok_def)
  ultimately show ?thesis using page calls by blast
qed

lemma page_outcome:
  assumes ok: "store_ok o' s" and base: "answers_from r A s b" and page: "page_at s p page" "pg_ref page = r" "pg_ref page' = r"
    and timers: "\<And>t. t \<in> set (gs_timers s) \<Longrightarrow> page_timer (gt_action t) \<noteq> Some (p, r)" "\<And>a. a \<in> A \<Longrightarrow> page_timer a = Some (p, r) \<and> pg_status page' \<noteq> Entry_ready"
    and new: "page_ok o' b p page'" "\<not> pg_controller page'"
  shows "res_ok o' (put_page p page' b)" "calls_ok (put_page p page' b)"
proof -
  note baseD = answers_fromD [OF base]
  have res: "res_ok o' s" using store_parts(1) [OF ok] unfolding plan_ready_def by blast
  show "res_ok o' (put_page p page' b)"
    by (rule res_ok_page_update [OF res page(1)]) (use baseD page new(1) in simp_all)
  show "calls_ok (put_page p page' b)"
  proof (rule calls_ok_page_update [OF store_parts(2) [OF ok]])
    show "t \<in> set (gs_timers s) \<or> (\<exists>r. page_timer (gt_action t) = Some (p, r))" if "t \<in> set (gs_timers (put_page p page' b))" for t
      using baseD(14) [of t] timers(2) that by auto
    show "page_calls (put_page p page' b) p page'"
      using baseD(13,14) timers new(2) page(3) unfolding page_calls_def by fastforce
  qed (use baseD in auto)
qed

lemma page_ready_put: "page_ready (put_page p page s) q \<longleftrightarrow> (if q = p then pg_status page = Entry_ready else page_ready s q)"
  by (auto simp: page_ready_def map_of_map_set)

text \<open>A page that did not load leaves the rest as it was.\<close>

lemma page_not_loaded:
  assumes ok: "store_ok o' s" and active: "active s" and base: "answers_from r A s b" and page: "page_at s p page" "pg_ref page = r" "pg_ref page' = r" "pg_status page = Entry_loading"
    and timers: "\<And>t. t \<in> set (gs_timers s) \<Longrightarrow> page_timer (gt_action t) \<noteq> Some (p, r)" "\<And>a. a \<in> A \<Longrightarrow> page_timer a = Some (p, r)"
    and new: "page_ok o' b p page'" "\<not> pg_controller page'" "pg_status page' \<noteq> Entry_ready"
  shows "store_ok o' (put_page p page' b)"
proof -
  note baseD = answers_fromD [OF base] and act = store_active [OF ok active]
  have outcome: "res_ok o' (put_page p page' b)" "calls_ok (put_page p page' b)"
    using page_outcome [OF ok base page(1-3) timers(1) _ new(1,2)] timers(2) new(3) by blast+
  have not_ready: "\<not> page_ready s p" using page(1,4) by (simp add: page_ready_def)
  have "pump_ready o' (put_page p page' b)"
  proof (rule pump_ready_update)
    show "pump_ready o' s" using act by blast
    show "res_ok o' (put_page p page' b)" by (rule outcome(1))
    show "page_ready (put_page p page' b) q = page_ready s q" for q
      using not_ready new(3) baseD(1) by (simp add: page_ready_put) (simp add: page_ready_def)
    show "\<exists>tile'. tile_at (put_page p page' b) k tile' \<and> tile_settled o' (put_page p page' b) k tile'" if h: "tile_at s k tile" "tile_settled o' s k tile" for k tile
    proof (intro exI conjI)
      show "tile_at (put_page p page' b) k tile" using h(1) baseD(2) by simp
      show "tile_settled o' (put_page p page' b) k tile" using h(2) baseD(16) by (auto simp: tile_settled_def live_timer_def)
    qed
  qed (use baseD page in \<open>auto simp: map_of_map_set map_set_length\<close>)
  moreover have "saturated o' (put_page p page' b)" "active (put_page p page' b)" using act active baseD by (simp_all add: saturated_def active_def)
  ultimately show ?thesis using outcome(2) by (simp add: store_ok_def)
qed

end
