(* ===== verification/Guide_Page_Answers.thy ===== *)
theory Guide_Page_Answers
  imports Guide_Handlers
begin

text \<open>Starting over, and the outcomes of a request for a page of channels.\<close>

section \<open>Starting over\<close>

definition release :: "bool \<Rightarrow> nat \<Rightarrow> nat option \<Rightarrow> guide_store \<Rightarrow> guide_store" where
  "release c r timer s = clear_timer timer (abort_request c r s)"

definition sound_base :: "guide_config \<Rightarrow> guide_store \<Rightarrow> bool" where
  "sound_base o' s \<longleftrightarrow> guide_books_ok s \<and> timers_ok s \<and> gs_inFlight s \<le> go_maxInFlight o'"

lemma books_fewer:
  assumes ok: "guide_books_ok s" and same: "gs_inFlight s' = gs_inFlight s" "List.map rq_ref (gs_requests s') = List.map rq_ref (gs_requests s)"
    "gs_nextRef s' = gs_nextRef s" "set (gs_timers s') \<subseteq> set (gs_timers s)"
  shows "guide_books_ok s'"
proof -
  have length: "length (gs_requests s') = length (gs_requests s)" using same(2) by (metis length_map)
  show ?thesis using ok same(4) unfolding guide_books_ok_def same(1-3) length refs_map [OF same(2)] by blast
qed

lemma timers_fewer: "timers_ok s \<Longrightarrow> fewer_calls s s' \<Longrightarrow> timers_ok s'"
  using fewer_callsD(1,3,4) [of s s'] unfolding timers_ok_def by (meson order.strict_trans2 subsetD)

lemma release_base: "sound_base o' s \<Longrightarrow> sound_base o' (release c r i s)"
proof -
  assume base: "sound_base o' s"
  have "guide_books_ok (release c r i s)"
  proof (rule books_fewer)
    show "guide_books_ok s" using base unfolding sound_base_def by blast
    show "set (gs_timers (release c r i s)) \<subseteq> set (gs_timers s)" unfolding release_def by (rule fewer_callsD(3) [OF fewer_calls_release])
  qed (simp_all add: release_def)
  moreover have "timers_ok (release c r i s)" using base timers_fewer [OF _ fewer_calls_release] unfolding sound_base_def release_def by blast
  ultimately show ?thesis using base by (simp add: sound_base_def release_def)
qed

lemma release_frame [simp]:
  "gs_disposed (release c r i s) = gs_disposed s" "gs_viewport (release c r i s) = gs_viewport s" "gs_tiles (release c r i s) = gs_tiles s" "gs_pages (release c r i s) = gs_pages s"
  by (simp_all add: release_def)

lemma fold_release_base:
  "sound_base o' s \<Longrightarrow> sound_base o' (fold (\<lambda>x. release (c x) (r x) (i x)) xs s)"
  "gs_disposed (fold (\<lambda>x. release (c x) (r x) (i x)) xs s) = gs_disposed s"
  "gs_viewport (fold (\<lambda>x. release (c x) (r x) (i x)) xs s) = gs_viewport s"
  by (induction xs arbitrary: s) (simp_all add: release_base)

lemma reset_plans:
  assumes base: "sound_base o' s"
  shows "\<exists>s'. gs_reset o' s = gs_plan o' s' \<and> gs_pages s' = [] \<and> plan_ready o' s' \<and> calls_ok s' \<and> (\<not> active s' \<longrightarrow> store_ok o' s')"
proof -
  let ?s1 = "fold (\<lambda>p. release (pg_controller p) (pg_ref p) (pg_timer p)) (map_values (gs_pages s)) s"
  let ?s2 = "fold (\<lambda>t. release (ti_controller t) (ti_ref t) (ti_timer t)) (map_values (gs_tiles ?s1)) ?s1"
  let ?s3 = "?s2\<lparr>gs_pages := [], gs_tiles := [], gs_queue := [], gs_rateLimitPages := [], gs_total := None, gs_channelsError := False, gs_generation := gs_generation ?s2 + 1\<rparr>"
  have reset: "gs_reset o' s = gs_plan o' (gs_changed None ?s3)" by (simp only: gs_reset_def release_def [abs_def] Let_def)
  have base2: "sound_base o' ?s2" by (intro fold_release_base base)
  have base3: "guide_books_ok ?s3" "timers_ok ?s3" "gs_inFlight ?s3 \<le> go_maxInFlight o'"
    using base2 unfolding sound_base_def guide_books_ok_def timers_ok_def by simp_all
  have empty: "gs_pages ?s3 = []" "gs_tiles ?s3 = []" "gs_queue ?s3 = []" by simp_all
  have ready: "plan_ready o' ?s3" using base3 by (simp add: plan_ready_def res_ok_def refs_apart_def tiles_paged_def queue_ok_def)
  have calls: "calls_ok ?s3" using base3(2) by (simp add: calls_ok_def)
  have idle: "\<not> active ?s3 \<longrightarrow> store_ok o' ?s3" using store_idleI [OF _ base3(2) empty base3(1,3)] by blast
  have core: "core_part (gs_changed None ?s3) = core_part ?s3" by (rule changed_core)
  have "gs_pages (gs_changed None ?s3) = []" using core_partD(1) [OF core] empty(1) by (rule trans)
  then show ?thesis
    using reset ready calls idle unfolding guide_core_same [OF core, symmetric] by blast
qed

lemma reset_ok:
  assumes base: "sound_base o' s" and config: "guide_config_ok o'"
  shows "store_ok o' (gs_reset o' s)"
proof -
  obtain s' where s': "gs_reset o' s = gs_plan o' s'" "plan_ready o' s'" "calls_ok s'" "\<not> active s' \<longrightarrow> store_ok o' s'"
    using reset_plans [OF base] by blast
  show ?thesis
  proof (cases "active s'")
    case True
    then show ?thesis unfolding s'(1) by (rule store_plan [OF s'(2) config s'(3)])
  next
    case False
    then have "gs_plan o' s' = s'" by (intro plan_idle) (auto simp: active_def)
    then show ?thesis using s'(1,4) False by simp
  qed
qed

lemma store_base: "store_ok o' s \<Longrightarrow> sound_base o' s"
  using store_parts calls_okD(1) unfolding sound_base_def by blast

section \<open>A page of channels\<close>

definition awaits_page :: "guide_store \<Rightarrow> int \<Rightarrow> guide_page \<Rightarrow> nat \<Rightarrow> bool" where
  "awaits_page s p page r \<longleftrightarrow> page_at s p page \<and> pg_ref page = r \<and> pg_status page = Entry_loading \<and> pg_controller page \<and> pg_attempts page = 0
     \<and> (\<forall>t \<in> set (gs_timers s). page_timer (gt_action t) \<noteq> Some (p, r)) \<and> active s"

lemma queue_ok_grow:
  assumes ok: "queue_ok s" and same: "gs_queue s' = gs_queue s" "gs_interestPages s' = gs_interestPages s" "gs_interestTiles s' = gs_interestTiles s"
    and pages: "\<And>p. map_has (gs_pages s') p \<Longrightarrow> map_has (gs_pages s) p" and ready: "\<And>p. page_ready s p \<Longrightarrow> page_ready s' p"
  shows "queue_ok s'"
  unfolding queue_ok_def same
proof (intro conjI ballI)
  fix task assume "task \<in> set (gs_queue s)"
  then have old: "case task of Page_task p \<Rightarrow> p \<in> set (gs_interestPages s) \<and> \<not> map_has (gs_pages s) p
      | Tile_task p b \<Rightarrow> (p, b) \<in> set (gs_interestTiles s) \<and> p \<in> set (gs_interestPages s) \<and> page_ready s p"
    using ok unfolding queue_ok_def by blast
  show "case task of Page_task p \<Rightarrow> p \<in> set (gs_interestPages s) \<and> \<not> map_has (gs_pages s') p
      | Tile_task p b \<Rightarrow> (p, b) \<in> set (gs_interestTiles s) \<and> p \<in> set (gs_interestPages s) \<and> page_ready s' p"
  proof (cases task)
    case (Page_task p)
    then show ?thesis using old pages [of p] unfolding Page_task guide_task.case by blast
  next
    case (Tile_task p b)
    then show ?thesis using old ready [of p] unfolding Tile_task guide_task.case by blast
  qed
qed (use ok in \<open>simp add: queue_ok_def\<close>)

lemma page_arrives_plans:
  assumes ok: "store_ok o' s" and awaits: "awaits_page s p page r"
  shows "\<exists>s'. page_answered o' p r items total' (request_handled r s) = gs_plan o' s' \<and> gs_tiles s' = gs_tiles s
    \<and> plan_ready o' s' \<and> calls_ok s' \<and> active s'"
proof -
  let ?page = "page\<lparr>pg_status := Entry_ready, pg_items := items, pg_controller := False, pg_attempts := 0\<rparr>"
  let ?b = "request_handled r s"
  let ?s = "put_page p ?page ?b"
  note aw = awaits [unfolded awaits_page_def]
  have page: "page_at s p page" "pg_ref page = r" "active s" using aw by blast+
  have old: "page_ok o' s p page" and parts: "tiles_paged s" "queue_ok s" "gs_inFlight s \<le> go_maxInFlight o'"
    using store_parts(1) [OF ok] res_ok_page page(1) unfolding plan_ready_def by blast+
  have new: "page_ok o' ?b p ?page" using old by (simp add: page_ok_def)
  have outcome: "res_ok o' ?s" "calls_ok ?s"
    using page_outcome [OF ok answers_from_handled [OF ok] page(1,2), of ?page] aw new by simp_all
  have ready: "page_ready s q \<Longrightarrow> page_ready ?s q" for q by (simp add: page_ready_put)
  have "tiles_paged ?s"
    unfolding tiles_paged_def
  proof (intro allI impI)
    fix k tile assume "tile_at ?s k tile"
    then have "tile_at s k tile" by simp
    then show "page_ready ?s (fst k)" by (intro ready tiles_pagedD [OF parts(1)])
  qed
  moreover have "queue_ok ?s"
  proof -
    have has: "map_has (gs_pages ?s) q \<Longrightarrow> map_has (gs_pages s) q" for q using page(1) by (auto simp: map_of_map_set split: if_splits)
    show ?thesis by (rule queue_ok_grow [OF parts(2) _ _ _ has ready]) simp_all
  qed
  ultimately have "plan_ready o' ?s" using outcome(1) parts(3) by (simp add: plan_ready_def)
  moreover have "active ?s" using page(3) by (simp add: active_def)
  moreover obtain s' where answered: "page_answered o' p r items total' ?b = gs_plan o' s'" and core: "core_part s' = core_part ?s"
    using page(1,2) by (simp add: page_answered_def core_part_def gs_changed_def Let_def)
  moreover have "gs_tiles s' = gs_tiles s" using core_partD(2) [OF core] by simp
  ultimately show ?thesis
    unfolding answered using outcome(2) by (intro exI [of _ s']) (simp only: guide_core_same [OF core] simp_thms)
qed

lemma page_arrives_ok:
  assumes "store_ok o' s" "guide_config_ok o'" "awaits_page s p page r"
  shows "store_ok o' (page_answered o' p r items total' (request_handled r s))"
  using page_arrives_plans [OF assms(1,3)] store_plan [OF _ assms(2)] by metis

lemma page_timed_ok:
  assumes ok: "store_ok o' s" and awaits: "awaits_page s p page r"
    and action: "page_timer a = Some (p, r)" and page': "pg_ref page' = r" "\<not> pg_controller page'" "pg_timer page' = Some (gs_nextRef s)" "pg_attempts page' \<le> 1"
    and status: "pg_status page' = Entry_loading \<and> pg_attempts page' = 0 \<and> a = Page_rate p r \<or> pg_status page' = Entry_error \<and> a = Page_retry p r"
  shows "store_ok o' (put_page p page' (with_timer ms a (request_handled r s)))"
proof (rule page_not_loaded [OF ok])
  note aw = awaits [unfolded awaits_page_def]
  have page: "page_at s p page" "pg_ref page = r" using aw by blast+
  have "page_ok o' s p page" using store_parts(1) [OF ok] res_ok_page page(1) unfolding plan_ready_def by blast
  then have ref: "r < gs_nextRef s" using page(2) by (simp add: page_ok_def)
  have a: "action_ref a = r" by (rule page_timer_ref [OF action])
  show "answers_from r {a} s (with_timer ms a (request_handled r s))" by (rule answers_from_timer [OF ok]) (simp add: a ref)
  show "page_at s p page" "pg_ref page = r" by (rule page)+
  have live: "live_timer (with_timer ms a (request_handled r s)) (Some (gs_nextRef s)) a"
    using live_with_timer [of ms a "request_handled r s"] by simp
  have own: "own_timer (with_timer ms a (request_handled r s)) (Some (gs_nextRef s)) r"
    using own_with_timer [OF books_handled [OF store_parts(3) [OF ok]] a] by simp
  have "\<not> pg_controller page'" by (rule page'(2))
  then show "page_ok o' (with_timer ms a (request_handled r s)) p page'"
    using status live own ref page' unfolding page_ok_def by (elim disjE conjE) (simp_all only: entry_status.case if_False with_timer_frame handled_frame, auto)
  show "pg_status page' \<noteq> Entry_ready" using status by auto
qed (use awaits action page' in \<open>auto simp: awaits_page_def\<close>)

lemma guide_page_failed_ok:
  assumes ok: "store_ok o' s" and awaits: "awaits_page s p page r" and none: "go_retryMs o' = []"
    and page': "pg_ref page' = r" "\<not> pg_controller page'" "pg_timer page' = pg_timer page" "pg_attempts page' = 1" "pg_status page' = Entry_error"
  shows "store_ok o' (put_page p page' (request_handled r s))"
proof (rule page_not_loaded [OF ok])
  note aw = awaits [unfolded awaits_page_def]
  have page: "page_at s p page" "pg_ref page = r" using aw by blast+
  show "answers_from r {} s (request_handled r s)" by (rule answers_from_handled [OF ok])
  show "page_at s p page" "pg_ref page = r" by (rule page)+
  have "page_ok o' s p page" using store_parts(1) [OF ok] res_ok_page page(1) unfolding plan_ready_def by blast
  then show "page_ok o' (request_handled r s) p page'" using page' page(2) none by (simp add: page_ok_def)
qed (use awaits page' in \<open>auto simp: awaits_page_def\<close>)

lemma page_refused_ok:
  assumes ok: "store_ok o' s" and config: "guide_config_ok o'" and awaits: "awaits_page s p page r"
  shows "store_ok o' (page_refused o' delay p r generation e (request_handled r s))"
proof -
  let ?b = "request_handled r s"
  note aw = awaits [unfolded awaits_page_def]
  have page: "page_at s p page" "pg_ref page = r" "pg_attempts page = 0" using aw by blast+
  let ?seen = "case map_of (gs_rateLimitPages s) p of Some n \<Rightarrow> n | None \<Rightarrow> 0"
  let ?page1 = "page\<lparr>pg_status := Entry_error, pg_controller := False, pg_attempts := 1\<rparr>"
  consider (again) "error_code e = JStr ''guide_refresh_required''"
    | (rate) "error_code e \<noteq> JStr ''guide_refresh_required''" "isRateLimited e \<and> ?seen < GUIDE_RATE_LIMIT_ATTEMPTS - 1 \<and> generation = gs_generation s"
    | (failed) "error_code e \<noteq> JStr ''guide_refresh_required''" "\<not> (isRateLimited e \<and> ?seen < GUIDE_RATE_LIMIT_ATTEMPTS - 1 \<and> generation = gs_generation s)"
    by blast
  then show ?thesis
  proof cases
    case again
    have "sound_base o' ?b" using store_base [OF ok] books_handled unfolding sound_base_def timers_ok_def by simp
    then show ?thesis using again page by (simp add: page_refused_def reset_ok config)
  next
    case rate
    let ?ms = "delay e (int ?seen + 1)" and ?page = "page\<lparr>pg_controller := False, pg_timer := Some (gs_nextRef s)\<rparr>"
    have "core_part (page_refused o' delay p r generation e ?b) = core_part (put_page p ?page (with_timer ?ms (Page_rate p r) ?b))"
      using rate page by (simp add: page_refused_def set_timer_eq Let_def) (simp add: core_part_def with_timer_def set_timer_def put_page_def request_handled_def)
    moreover have "store_ok o' (put_page p ?page (with_timer ?ms (Page_rate p r) ?b))"
      by (rule page_timed_ok [OF ok awaits]) (use aw in simp_all)
    ultimately show ?thesis using guide_core_same(7) by blast
  next
    case failed
    have no: "(isRateLimited e \<and> ?seen < GUIDE_RATE_LIMIT_ATTEMPTS - 1 \<and> generation = gs_generation s) = False" using failed(2) by blast
    show ?thesis
    proof (cases "go_retryMs o' = []")
      case True
      then have "core_part (page_refused o' delay p r generation e ?b) = core_part (put_page p ?page1 ?b)"
        using failed(1) page by (simp add: no page_refused_def retryLater_def Let_def gs_changed_def del: One_nat_def) (simp add: core_part_def)
      moreover have "store_ok o' (put_page p ?page1 ?b)" by (rule guide_page_failed_ok [OF ok awaits True]) (use page in simp_all)
      ultimately show ?thesis using guide_core_same(7) by blast
    next
      case False
      let ?page = "?page1\<lparr>pg_timer := Some (gs_nextRef s)\<rparr>"
      have "\<not> 1 > length (go_retryMs o')" using False by (simp add: Suc_le_eq)
      then have "core_part (page_refused o' delay p r generation e ?b) = core_part (put_page p ?page (with_timer (go_retryMs o' ! 0) (Page_retry p r) ?b))"
        using failed(1) page by (simp add: no page_refused_def retryLater_def set_timer_eq Let_def gs_changed_def del: One_nat_def)
          (simp add: core_part_def with_timer_def set_timer_def put_page_def request_handled_def map_set_twice)
      moreover have "store_ok o' (put_page p ?page (with_timer (go_retryMs o' ! 0) (Page_retry p r) ?b))"
        by (rule page_timed_ok [OF ok awaits]) (use page in simp_all)
      ultimately show ?thesis using guide_core_same(7) by blast
    qed
  qed
qed

end
