(* ===== verification/Guide_Tile_Answers.thy ===== *)
theory Guide_Tile_Answers
  imports Guide_Page_Answers
begin

text \<open>The outcomes of a request for a tile of programs, and of any request of the store.\<close>

section \<open>Tiles\<close>

definition awaits_tile :: "guide_store \<Rightarrow> tile_key \<Rightarrow> guide_tile \<Rightarrow> nat \<Rightarrow> bool" where
  "awaits_tile s k tile r \<longleftrightarrow> tile_at s k tile \<and> ti_ref tile = r \<and> ti_status tile = Entry_loading \<and> ti_controller tile \<and> ti_generation tile = gs_generation s
     \<and> (\<forall>t \<in> set (gs_timers s). tile_timer (gt_action t) \<noteq> Some (k, r)) \<and> active s"

lemma awaited_tile:
  assumes ok: "store_ok o' s" and q: "q \<in> set (gs_requests s)" "\<not> rq_handled q" "waits s q" and task: "rq_task q = Tile_task p b"
  shows "\<exists>tile. awaits_tile s (p, b) tile (rq_ref q)"
proof -
  obtain tile where tile: "tile_at s (p, b) tile" "ti_ref tile = rq_ref q" using q(3) task by (auto simp: waits_def)
  have "live_request s (Tile_task p b) (ti_ref tile)" using q task tile(2) unfolding waits_def live_request_def by auto
  then have calls: "ti_status tile = Entry_loading" "ti_controller tile" "ti_generation tile = gs_generation s"
    "\<forall>t \<in> set (gs_timers s). tile_timer (gt_action t) \<noteq> Some ((p, b), rq_ref q)"
    using calls_okD(3) [OF store_parts(2) [OF ok] tile(1)] tile(2) unfolding tile_calls_def by auto
  have "active s" using store_idle [OF ok] tile(1) by fastforce
  then show ?thesis using tile calls unfolding awaits_tile_def by blast
qed

lemma tile_outcome:
  assumes ok: "store_ok o' s" and awaits: "awaits_tile s k tile r" and base: "answers_from r A s b" and ref: "ti_ref tile' = r"
    and actions: "\<And>a. a \<in> A \<Longrightarrow> tile_timer a = Some (k, r) \<and> (a = Tile_retry k r \<longrightarrow> ti_status tile' = Entry_error) \<and> (a = Tile_rate k r \<longrightarrow> ti_status tile' \<noteq> Entry_error)"
    and new: "tile_ok o' b k tile'" "\<not> ti_controller tile'" "tile_settled o' b k tile'"
  shows "store_ok o' (put_tile k tile' b)"
proof -
  note aw = awaits [unfolded awaits_tile_def] and baseD = answers_fromD [OF base]
  have tile: "tile_at s k tile" "ti_ref tile = r" and active: "active s" and timers: "\<forall>t \<in> set (gs_timers s). tile_timer (gt_action t) \<noteq> Some (k, r)" using aw by blast+
  note act = store_active [OF ok active]
  let ?s = "put_tile k tile' b"
  have res: "res_ok o' s" using act unfolding pump_ready_def by blast
  have res': "res_ok o' ?s" by (rule res_ok_tile_update [OF res tile(1)]) (use baseD tile ref new(1) in simp_all)
  have calls: "calls_ok ?s"
  proof (rule calls_ok_tile_update [OF store_parts(2) [OF ok]])
    show "t \<in> set (gs_timers s) \<or> (\<exists>r. tile_timer (gt_action t) = Some (k, r))" if "t \<in> set (gs_timers ?s)" for t
      using baseD(14) [of t] actions that by auto
    have "ti_status tile' = Entry_error" if "t \<in> set (gs_timers b)" "gt_action t = Tile_retry k r" for t
    proof -
      have "tile_timer (gt_action t) = Some (k, r)" using that(2) by simp
      then show ?thesis using baseD(14) [OF that(1)] timers actions that(2) by metis
    qed
    moreover have "ti_status tile' \<noteq> Entry_error" if "t \<in> set (gs_timers b)" "gt_action t = Tile_rate k r" for t
    proof -
      have "tile_timer (gt_action t) = Some (k, r)" using that(2) by simp
      then show ?thesis using baseD(14) [OF that(1)] timers actions that(2) by metis
    qed
    moreover have "\<not> live_request b (Tile_task (fst k) (snd k)) r" using baseD(13) by blast
    ultimately show "tile_calls ?s k tile'" using new(2) by (simp add: tile_calls_def ref)
  qed (use baseD in auto)
  have "pump_ready o' ?s"
  proof (rule pump_ready_update)
    show "pump_ready o' s" using act by blast
    show "res_ok o' ?s" by (rule res')
    show "page_ready ?s q = page_ready s q" for q using baseD(1) by (simp add: page_ready_def)
    show "\<exists>tile''. tile_at ?s j tile'' \<and> tile_settled o' ?s j tile''" if h: "tile_at s j tile0" "tile_settled o' s j tile0" for j tile0
    proof (cases "j = k")
      case True
      then show ?thesis using new(3) by (intro exI [of _ tile']) (simp add: map_of_map_set tile_settled_def)
    next
      case False
      then show ?thesis using h baseD(2,16) by (intro exI [of _ tile0]) (auto simp: map_of_map_set tile_settled_def live_timer_def)
    qed
    show "map_has (gs_tiles ?s) j = map_has (gs_tiles s) j" for j using baseD(2) tile(1) by (cases "j = k") (simp_all add: map_of_map_set)
    show "length (gs_tiles ?s) = length (gs_tiles s)" using baseD(2) tile(1) by (simp add: map_set_length)
  qed (use baseD in simp_all)
  moreover have "saturated o' ?s" "active ?s" using act active baseD by (simp_all add: saturated_def active_def)
  ultimately show ?thesis using calls by (simp add: store_ok_def)
qed

lemma tile_arrives_ok:
  assumes ok: "store_ok o' s" and awaits: "awaits_tile s k tile r"
  shows "store_ok o' (tile_answered k r data (request_handled r s))"
proof -
  let ?tile = "tile\<lparr>ti_status := Entry_ready, ti_stale := False, ti_data := Some data, ti_controller := False, ti_attempts := 0\<rparr>"
  note aw = awaits [unfolded awaits_tile_def]
  have tile: "tile_at s k tile" "ti_ref tile = r" "ti_generation tile = gs_generation s" using aw by blast+
  have "tile_ok o' s k tile" using store_parts(1) [OF ok] res_ok_tile tile(1) unfolding plan_ready_def by blast
  then have "tile_ok o' (request_handled r s) k ?tile" by (simp add: tile_ok_def)
  then have "store_ok o' (put_tile k ?tile (request_handled r s))"
    by (intro tile_outcome [OF ok awaits answers_from_handled [OF ok]]) (simp_all add: tile(2) tile_settled_def)
  moreover have "core_part (tile_answered k r data (request_handled r s)) = core_part (put_tile k ?tile (request_handled r s))"
    using tile by (simp add: tile_answered_def)
  ultimately show ?thesis using guide_core_same(7) by blast
qed

lemma tile_timed_ok:
  assumes ok: "store_ok o' s" and awaits: "awaits_tile s k tile r" and tile': "ti_ref tile' = r" "\<not> ti_controller tile'" "ti_timer tile' = Some (gs_nextRef s)"
    and status: "ti_status tile' = Entry_loading \<and> a = Tile_rate k r \<or> ti_status tile' = Entry_error \<and> a = Tile_retry k r"
  shows "store_ok o' (put_tile k tile' (with_timer ms a (request_handled r s)))"
proof (rule tile_outcome [OF ok awaits])
  let ?b = "with_timer ms a (request_handled r s)"
  note aw = awaits [unfolded awaits_tile_def]
  have "tile_ok o' s k tile" using aw store_parts(1) [OF ok] res_ok_tile unfolding plan_ready_def by blast
  then have ref: "r < gs_nextRef s" using aw by (simp add: tile_ok_def)
  have a: "action_ref a = r" using status by auto
  show "answers_from r {a} s ?b" by (rule answers_from_timer [OF ok]) (simp add: a ref)
  have live: "live_timer ?b (Some (gs_nextRef s)) a" using live_with_timer [of ms a "request_handled r s"] by simp
  have own: "own_timer ?b (Some (gs_nextRef s)) r" using own_with_timer [OF books_handled [OF store_parts(3) [OF ok]] a] by simp
  show "tile_ok o' ?b k tile'"
    using status live own ref tile' unfolding tile_ok_def by (elim disjE conjE) (simp_all only: entry_status.case if_False with_timer_frame handled_frame, auto)
  show "tile_settled o' ?b k tile'" using status live tile' by (auto simp: tile_settled_def)
qed (use tile' status in auto)

lemma tile_refused_ok:
  assumes ok: "store_ok o' s" and awaits: "awaits_tile s k tile r"
  shows "store_ok o' (tile_refused o' delay k r e (request_handled r s))"
proof -
  let ?b = "request_handled r s"
  note aw = awaits [unfolded awaits_tile_def]
  have tile: "tile_at s k tile" "ti_ref tile = r" "ti_status tile = Entry_loading" using aw by blast+
  show ?thesis
  proof (cases "isRateLimited e \<and> ti_attempts tile < GUIDE_RATE_LIMIT_ATTEMPTS - 1")
    case True
    let ?tile = "tile\<lparr>ti_controller := False, ti_attempts := ti_attempts tile + 1, ti_timer := Some (gs_nextRef s)\<rparr>"
    have "core_part (tile_refused o' delay k r e ?b) = core_part (put_tile k ?tile (with_timer (delay e (int (ti_attempts tile + 1))) (Tile_rate k r) ?b))"
      using True tile by (simp add: tile_refused_def set_timer_eq Let_def)
    moreover have "store_ok o' (put_tile k ?tile (with_timer (delay e (int (ti_attempts tile + 1))) (Tile_rate k r) ?b))"
      by (rule tile_timed_ok [OF ok awaits]) (simp_all add: tile)
    ultimately show ?thesis using guide_core_same(7) by blast
  next
    case False
    then have no: "(isRateLimited e \<and> ti_attempts tile < GUIDE_RATE_LIMIT_ATTEMPTS - 1) = False" by blast
    let ?tile2 = "tile\<lparr>ti_controller := False, ti_attempts := ti_attempts tile + 1, ti_status := Entry_error\<rparr>"
    show ?thesis
    proof (cases "ti_attempts tile + 1 > length (go_retryMs o')")
      case True
      then have "core_part (tile_refused o' delay k r e ?b) = core_part (put_tile k ?tile2 ?b)"
        using tile by (simp add: no tile_refused_def retryLater_def Let_def del: One_nat_def)
      moreover have "store_ok o' (put_tile k ?tile2 ?b)"
      proof (rule tile_outcome [OF ok awaits answers_from_handled [OF ok]])
        have "tile_ok o' s k tile" using store_parts(1) [OF ok] res_ok_tile tile(1) unfolding plan_ready_def by blast
        then show "tile_ok o' ?b k ?tile2" using True by (simp add: tile_ok_def)
      qed (use True tile in \<open>simp_all add: tile_settled_def\<close>)
      ultimately show ?thesis using guide_core_same(7) by blast
    next
      case left: False
      let ?ms = "go_retryMs o' ! min (ti_attempts tile + 1 - 1) (length (go_retryMs o') - 1)" and ?tile = "?tile2\<lparr>ti_timer := Some (gs_nextRef s)\<rparr>"
      have "core_part (tile_refused o' delay k r e ?b) = core_part (put_tile k ?tile (with_timer ?ms (Tile_retry k r) ?b))"
        using left tile by (simp add: no tile_refused_def retryLater_def set_timer_eq Let_def gs_changed_def del: One_nat_def)
          (simp add: core_part_def with_timer_def set_timer_def put_tile_def request_handled_def map_set_twice)
      moreover have "store_ok o' (put_tile k ?tile (with_timer ?ms (Tile_retry k r) ?b))"
        by (rule tile_timed_ok [OF ok awaits]) (simp_all add: tile)
      ultimately show ?thesis using guide_core_same(7) by blast
    qed
  qed
qed

section \<open>Any answer\<close>

text \<open>The source answers a request for a page with a page and one for a tile with programs.\<close>

fun answer_fits :: "guide_task \<Rightarrow> guide_answer \<Rightarrow> bool" where
  "answer_fits (Page_task p) (Tile_arrives data) = False"
| "answer_fits (Tile_task p b) (Page_arrives items total') = False"
| "answer_fits _ _ = True"

lemma request_answers_ok:
  assumes ok: "store_ok o' s" and config: "guide_config_ok o'" and q: "q \<in> set (gs_requests s)" "\<not> rq_handled q" and fits: "answer_fits (rq_task q) answer"
  shows "store_ok o' (request_answers o' delay answer q s)"
proof (cases "waits s q")
  case True
  have live: "\<not> rq_aborted q" using True unfolding waits_def by blast
  show ?thesis
  proof (cases "rq_task q")
    case (Page_task p)
    obtain page where awaits: "awaits_page s p page (rq_ref q)"
      using awaited_page [OF ok q True Page_task] unfolding awaits_page_def by blast
    show ?thesis
      using fits live page_arrives_ok [OF ok config awaits] page_refused_ok [OF ok config awaits]
      by (cases answer) (simp_all add: request_answers_def Page_task)
  next
    case (Tile_task p b)
    obtain tile where awaits: "awaits_tile s (p, b) tile (rq_ref q)"
      using awaited_tile [OF ok q True Tile_task] by blast
    show ?thesis
      using fits live tile_arrives_ok [OF ok awaits] tile_refused_ok [OF ok awaits]
      by (cases answer) (simp_all add: request_answers_def Tile_task)
  qed
next
  case False
  then show ?thesis unfolding request_unawaited [OF False] by (rule handled_unawaited [OF ok q(1)])
qed

end
