(* ===== verification/Guide_Ends.thy ===== *)
theory Guide_Ends
  imports Guide_Tile_Answers
begin

text \<open>The end of a request, which pumps, and the timers, which plan again.\<close>

section \<open>A request ends\<close>

lemma res_ok_spared:
  assumes ok: "res_ok o' s" and same: "gs_pages s' = gs_pages s" "gs_tiles s' = gs_tiles s" and spare: "\<And>r. spares r s s'" and books: "guide_books_ok s'"
  shows "res_ok o' s'"
proof (rule res_okI)
  note parts = res_ok_parts [OF ok]
  show "map_wf (gs_pages s')" "map_wf (gs_tiles s')" using parts unfolding same by blast+
  show "page_ok o' s' p page" if "page_at s' p page" for p page
    using spares_page_ok [OF spare] res_ok_page [OF ok] that unfolding same by blast
  show "tile_ok o' s' k tile" if "tile_at s' k tile" for k tile
    by (rule spares_tile_ok [OF spare res_ok_tile [OF ok]]) (use that same in simp)
  show "refs_apart s'" using parts unfolding refs_apart_def same by (elim conjE) (intro conjI)
qed (rule books)

lemma filter_one: "distinct (List.map f xs) \<Longrightarrow> x \<in> set xs \<Longrightarrow> length (filter (\<lambda>y. f y \<noteq> f x) xs) + 1 = length xs"
proof (induction xs)
  case (Cons a xs)
  show ?case
  proof (cases "a = x")
    case True
    then have "filter (\<lambda>y. f y \<noteq> f x) xs = xs" using Cons.prems(1) by (auto simp: filter_id_conv image_iff)
    then show ?thesis using True by simp
  next
    case False
    then have "f a \<noteq> f x" "x \<in> set xs" using Cons.prems by (auto simp: image_iff)
    then show ?thesis using Cons by simp
  qed
qed simp

definition request_gone :: "nat \<Rightarrow> guide_store \<Rightarrow> guide_store" where
  "request_gone r s = s\<lparr>gs_inFlight := gs_inFlight s - 1, gs_requests := filter (\<lambda>q. rq_ref q \<noteq> r) (gs_requests s)\<rparr>"

lemma gone_frame [simp]:
  "gs_pages (request_gone r s) = gs_pages s" "gs_tiles (request_gone r s) = gs_tiles s" "gs_viewport (request_gone r s) = gs_viewport s"
  "gs_interestPages (request_gone r s) = gs_interestPages s" "gs_interestTiles (request_gone r s) = gs_interestTiles s" "gs_queue (request_gone r s) = gs_queue s"
  "gs_inFlight (request_gone r s) = gs_inFlight s - 1" "gs_generation (request_gone r s) = gs_generation s" "gs_disposed (request_gone r s) = gs_disposed s"
  "gs_timers (request_gone r s) = gs_timers s" "gs_nextRef (request_gone r s) = gs_nextRef s" "page_ready (request_gone r s) p = page_ready s p"
  by (simp_all add: request_gone_def page_ready_def)

lemma request_gone_facts:
  assumes books: "guide_books_ok s" and q: "q \<in> set (gs_requests s)" "rq_handled q"
  shows "guide_books_ok (request_gone (rq_ref q) s)" "live_request (request_gone (rq_ref q) s) task r \<longleftrightarrow> live_request s task r"
proof -
  have dist: "distinct (List.map rq_ref (gs_requests s))" using books unfolding guide_books_ok_def by blast
  have "int (length (filter (\<lambda>q'. rq_ref q' \<noteq> rq_ref q) (gs_requests s))) = int (length (gs_requests s)) - 1"
    using filter_one [OF dist q(1)] by linarith
  then show "guide_books_ok (request_gone (rq_ref q) s)"
    using books by (auto simp: guide_books_ok_def request_gone_def distinct_map_filter)
  have "q' = q" if "q' \<in> set (gs_requests s)" "rq_ref q' = rq_ref q" for q' using that dist q(1) by (auto simp: distinct_map inj_on_def)
  then show "live_request (request_gone (rq_ref q) s) task r \<longleftrightarrow> live_request s task r"
    using q(2) by (auto simp: live_request_def request_gone_def)
qed

lemma request_gone_ready:
  assumes ok: "store_ok o' s" and q: "q \<in> set (gs_requests s)" "rq_handled q" and active: "active s"
  shows "pump_ready o' (request_gone (rq_ref q) s)" (is "pump_ready o' ?s")
proof (rule pump_ready_update)
  note gone = request_gone_facts [OF store_parts(3) [OF ok] q]
  show ready: "pump_ready o' s" using store_active [OF ok active] by blast
  then have "res_ok o' s" unfolding pump_ready_def by blast
  then show "res_ok o' ?s" by (rule res_ok_spared) (simp_all add: spares_def gone)
  show "\<exists>tile'. tile_at ?s k tile' \<and> tile_settled o' ?s k tile'" if "tile_at s k tile" "tile_settled o' s k tile" for k tile
    using that by (intro exI [of _ tile]) (simp add: settled_timers [of ?s s])
qed simp_all

lemma request_finishes_ok:
  assumes ok: "store_ok o' s" and q: "q \<in> set (gs_requests s)" "rq_handled q"
  shows "store_ok o' (request_finishes o' (rq_ref q) s)"
proof -
  let ?s = "request_gone (rq_ref q) s"
  have finish: "request_finishes o' (rq_ref q) s = gs_pump o' ?s" by (simp add: request_finishes_def request_gone_def)
  note gone = request_gone_facts [OF store_parts(3) [OF ok] q]
  show ?thesis
  proof (cases "active s")
    case True
    note act = store_active [OF ok True]
    have res: "res_ok o' s" using act unfolding pump_ready_def by blast
    have ready: "pump_ready o' ?s" by (rule request_gone_ready [OF ok q True])
    then have res': "res_ok o' ?s" unfolding pump_ready_def by blast
    have calm: "calm s ?s" by (rule calmI) (simp_all add: fewer_calls_def gone calm_old)
    have calls: "calls_ok ?s" using act by (intro calm_calls_ok [OF calm res]) blast
    note pumped = pump_ready_pump [OF ready]
    have "active (gs_pump o' ?s)" using True pumped unfolding active_def entries_kept_def by simp
    then show ?thesis unfolding finish store_ok_def using pumped calm_calls_ok [OF calm_pump [OF ready] res' calls] by simp
  next
    case False
    note empty = store_idle [OF ok False]
    have "gs_pump o' ?s = ?s" using empty by (subst gs_pump.simps) simp
    moreover have "store_ok o' ?s"
    proof (rule store_idleI)
      show "guide_books_ok ?s" by (rule gone(1))
    qed (use empty False in \<open>simp_all add: active_def timers_ok_def\<close>)
    ultimately show ?thesis unfolding finish by simp
  qed
qed

section \<open>A timer ends\<close>

definition timer_gone :: "guide_timer \<Rightarrow> guide_store \<Rightarrow> guide_store" where
  "timer_gone t s = s\<lparr>gs_timers := filter (\<lambda>u. gt_id u \<noteq> gt_id t) (gs_timers s)\<rparr>"

lemma timer_gone_frame [simp]:
  "gs_pages (timer_gone t s) = gs_pages s" "gs_tiles (timer_gone t s) = gs_tiles s" "gs_viewport (timer_gone t s) = gs_viewport s"
  "gs_interestPages (timer_gone t s) = gs_interestPages s" "gs_interestTiles (timer_gone t s) = gs_interestTiles s" "gs_queue (timer_gone t s) = gs_queue s"
  "gs_inFlight (timer_gone t s) = gs_inFlight s" "gs_generation (timer_gone t s) = gs_generation s" "gs_disposed (timer_gone t s) = gs_disposed s"
  "gs_requests (timer_gone t s) = gs_requests s" "gs_nextRef (timer_gone t s) = gs_nextRef s" "page_ready (timer_gone t s) p = page_ready s p"
  "live_request (timer_gone t s) = live_request s"
  by (simp_all add: timer_gone_def page_ready_def live_request_def fun_eq_iff)

lemma timer_gone_facts:
  assumes timers: "timers_ok s" and t: "t \<in> set (gs_timers s)"
  shows "u \<in> set (gs_timers (timer_gone t s)) \<longleftrightarrow> u \<in> set (gs_timers s) \<and> u \<noteq> t" "fewer_calls s (timer_gone t s)"
    "gt_action t \<noteq> a \<Longrightarrow> live_timer s i a \<Longrightarrow> live_timer (timer_gone t s) i a" "own_timer s i r \<Longrightarrow> own_timer (timer_gone t s) i r"
    "guide_books_ok s \<Longrightarrow> guide_books_ok (timer_gone t s)" "r \<noteq> action_ref (gt_action t) \<Longrightarrow> spares r s (timer_gone t s)"
proof -
  have "u = t" if "u \<in> set (gs_timers s)" "gt_id u = gt_id t" for u
    using that t timers unfolding timers_ok_def by (auto simp: distinct_map inj_on_def)
  then show set: "u \<in> set (gs_timers (timer_gone t s)) \<longleftrightarrow> u \<in> set (gs_timers s) \<and> u \<noteq> t" for u by (auto simp: timer_gone_def)
  show "fewer_calls s (timer_gone t s)" by (auto simp: fewer_calls_def timer_gone_def distinct_map_filter live_request_def)
  show "live_timer (timer_gone t s) i a" if "gt_action t \<noteq> a" "live_timer s i a" using that by (auto simp: live_timer_def set)
  show "own_timer (timer_gone t s) i r" if "own_timer s i r" using that by (auto simp: own_timer_def set)
  show "guide_books_ok (timer_gone t s)" if "guide_books_ok s" using that by (simp add: guide_books_ok_def set)
  show "spares r s (timer_gone t s)" if "r \<noteq> action_ref (gt_action t)" using that by (auto simp: spares_def set)
qed

lemma page_ok_timer_gone:
  assumes "page_ok o' s p page" "timers_ok s" "t \<in> set (gs_timers s)" "page_timer (gt_action t) \<noteq> Some (p, pg_ref page)"
  shows "page_ok o' (timer_gone t s) p page"
proof -
  note facts = timer_gone_facts [OF assms(2,3)]
  have "gt_action t \<noteq> Page_rate p (pg_ref page)" "gt_action t \<noteq> Page_retry p (pg_ref page)" using assms(4) by auto
  then show ?thesis using assms(1) facts(3,4) by (cases "pg_status page") (auto simp: page_ok_def)
qed

lemma tile_ok_timer_gone:
  assumes "tile_ok o' s k tile" "timers_ok s" "t \<in> set (gs_timers s)" "tile_timer (gt_action t) \<noteq> Some (k, ti_ref tile)"
  shows "tile_ok o' (timer_gone t s) k tile" "tile_settled o' s k tile \<Longrightarrow> tile_settled o' (timer_gone t s) k tile"
proof -
  note facts = timer_gone_facts [OF assms(2,3)]
  have act: "gt_action t \<noteq> Tile_rate k (ti_ref tile)" "gt_action t \<noteq> Tile_retry k (ti_ref tile)" using assms(4) by auto
  then show "tile_ok o' (timer_gone t s) k tile" using assms(1) facts(3,4) by (cases "ti_status tile") (auto simp: tile_ok_def)
  show "tile_settled o' (timer_gone t s) k tile" if "tile_settled o' s k tile"
    using that facts(3) [OF act(2)] unfolding tile_settled_def by blast
qed

end
