(* ===== verification/Guide_Timers.thy ===== *)
theory Guide_Timers
  imports Guide_Ends
begin

text \<open>A timer that fires: it drops its page or marks its tile, and plans again, or finds its entry gone.\<close>

section \<open>A timer whose entry is gone\<close>

lemma entry_ok_same:
  assumes "live_request s' = live_request s" "live_timer s' = live_timer s" "own_timer s' = own_timer s" "gs_nextRef s' = gs_nextRef s"
  shows "page_ok o' s' p page = page_ok o' s p page" "tile_ok o' s' k tile = tile_ok o' s k tile"
  by (simp_all only: page_ok_def tile_ok_def assms)

definition timer_matches :: "guide_timer \<Rightarrow> guide_store \<Rightarrow> bool" where
  "timer_matches t s \<longleftrightarrow> (\<exists>p page. page_at s p page \<and> page_timer (gt_action t) = Some (p, pg_ref page))
     \<or> (\<exists>k tile. tile_at s k tile \<and> tile_timer (gt_action t) = Some (k, ti_ref tile))"

lemma timer_unmatched_ok:
  assumes ok: "store_ok o' s" and t: "t \<in> set (gs_timers s)" and none: "\<not> timer_matches t s"
  shows "store_ok o' (timer_gone t s)"
proof (cases "active s")
  case True
  note act = store_active [OF ok True] and timers = calls_okD(1) [OF store_parts(2) [OF ok]]
  note facts = timer_gone_facts [OF timers t]
  let ?s = "timer_gone t s"
  have res: "res_ok o' s" using act unfolding pump_ready_def by blast
  have page: "page_timer (gt_action t) \<noteq> Some (p, pg_ref page)" if "page_at s p page" for p page using none that unfolding timer_matches_def by blast
  have tile: "tile_timer (gt_action t) \<noteq> Some (k, ti_ref tile)" if "tile_at s k tile" for k tile using none that unfolding timer_matches_def by metis
  have res': "res_ok o' ?s"
  proof (rule res_okI)
    note parts = res_ok_parts [OF res]
    show "map_wf (gs_pages ?s)" "map_wf (gs_tiles ?s)" using parts by simp_all
    show "page_ok o' ?s p pg" if "page_at ?s p pg" for p pg
      using that page by (intro page_ok_timer_gone [OF res_ok_page [OF res] timers t]) simp_all
    show "tile_ok o' ?s k tl" if h: "tile_at ?s k tl" for k tl
    proof -
      have at: "tile_at s k tl" using h by simp
      show ?thesis by (rule tile_ok_timer_gone(1) [OF res_ok_tile [OF res at] timers t tile [OF at]])
    qed
    have "refs_apart ?s = refs_apart s" by (simp only: refs_apart_def timer_gone_frame)
    then show "refs_apart ?s" using parts by blast
    show "guide_books_ok ?s" using parts facts(5) by blast
  qed
  have settled: "\<exists>tile'. tile_at ?s k tile' \<and> tile_settled o' ?s k tile'" if h: "tile_at s k tl" "tile_settled o' s k tl" for k tl
    using tile_ok_timer_gone(2) [OF res_ok_tile [OF res h(1)] timers t tile [OF h(1)] h(2)] h(1) by (intro exI [of _ tl]) simp
  have "pump_ready o' ?s"
  proof (rule pump_ready_update [OF _ res'])
    show "pump_ready o' s" using act by blast
  qed (rule settled, assumption+ | simp)+
  moreover have "calm s ?s" by (rule calmI) (simp_all add: facts(2) calm_old)
  then have "calls_ok ?s" using act calm_calls_ok res by blast
  moreover have "active ?s" "saturated o' ?s" using True act by (simp_all add: active_def saturated_def)
  ultimately show ?thesis by (simp add: store_ok_def)
next
  case False
  note empty = store_idle [OF ok False]
  note facts = timer_gone_facts [OF empty [THEN conjunct1] t]
  show ?thesis
  proof (rule store_idleI)
    show "timers_ok (timer_gone t s)" by (rule timers_fewer [OF empty [THEN conjunct1] facts(2)])
    show "guide_books_ok (timer_gone t s)" using empty facts(5) by blast
  qed (use empty False in \<open>simp_all add: active_def\<close>)
qed

section \<open>A page's timer\<close>

lemma map_entry_set: "map_of m k = Some v \<Longrightarrow> AList.map_entry k f m = map_set k (f v) m"
  by (induction m) auto

lemma page_timer_off_same: "map_option pg_ref (map_of (gs_pages s) p) \<noteq> Some r \<Longrightarrow> core_part (page_timer_off p r s) = core_part s"
proof -
  assume "map_option pg_ref (map_of (gs_pages s) p) \<noteq> Some r"
  then have "AList.map_entry p (\<lambda>page. if pg_ref page = r then page\<lparr>pg_timer := None\<rparr> else page) (gs_pages s) = gs_pages s"
    by (intro map_entry_same) auto
  then show ?thesis by (simp add: page_timer_off_def core_part_def)
qed

lemma page_gone_ready:
  assumes ok: "store_ok o' s" and t: "t \<in> set (gs_timers s)" "page_timer (gt_action t) = Some (p, r)"
    and page: "page_at s p page" "pg_ref page = r" and pages: "map_of (gs_pages s') = (map_of (gs_pages s))(p := None)" "map_wf (gs_pages s')"
    and core: "core_part s' = core_part ((timer_gone t s)\<lparr>gs_pages := gs_pages s'\<rparr>)"
  shows "plan_ready o' s' \<and> calls_ok s' \<and> active s'"
proof -
  have active: "active s" using store_idle [OF ok] page(1) by fastforce
  note act = store_active [OF ok active] and timers = calls_okD(1) [OF store_parts(2) [OF ok]]
  note facts = timer_gone_facts [OF timers t(1)] and same = core_partD [OF core, simplified]
  have res: "res_ok o' s" and parts: "tiles_paged s" "queue_ok s" "gs_inFlight s \<le> go_maxInFlight o'" using act unfolding pump_ready_def by blast+
  have live: "live_request s' = live_request s" by (simp add: live_request_def fun_eq_iff same(10))
  have timer: "live_timer s' = live_timer (timer_gone t s)" "own_timer s' = own_timer (timer_gone t s)"
    by (simp_all add: live_timer_def own_timer_def fun_eq_iff same(11,12))
  have eok: "page_ok o' s' q pg = page_ok o' (timer_gone t s) q pg" "tile_ok o' s' k tl = tile_ok o' (timer_gone t s) k tl" for q pg k tl
    by (rule entry_ok_same; simp add: live timer same(12))+
  have not_ready: "pg_status page \<noteq> Entry_ready" using calls_okD(2) [OF store_parts(2) [OF ok] page(1)] t page(2) unfolding page_calls_def by auto
  have no_tile: "tile_timer (gt_action t) = None" using t(2) by (cases "gt_action t") simp_all
  have ready: "page_ready s q \<Longrightarrow> page_ready s' q" for q using not_ready page(1) by (auto simp: page_ready_def pages)
  have "res_ok o' s'"
  proof (rule res_okI)
    note base = res_ok_parts [OF res]
    show "map_wf (gs_pages s')" by (rule pages(2))
    show "map_wf (gs_tiles s')" using base by (simp add: same(2))
    show "page_ok o' s' q pg" if h: "page_at s' q pg" for q pg
    proof -
      have at: "page_at s q pg" "q \<noteq> p" using h by (auto simp: pages split: if_splits)
      then have "page_ok o' (timer_gone t s) q pg" by (intro page_ok_timer_gone [OF res_ok_page [OF res] timers t(1)]) (simp_all add: t(2))
      then show ?thesis unfolding eok .
    qed
    show "tile_ok o' s' k tl" if h: "tile_at s' k tl" for k tl
    proof -
      have "tile_at s k tl" using h by (simp add: same(2))
      then have "tile_ok o' (timer_gone t s) k tl" by (intro tile_ok_timer_gone(1) [OF res_ok_tile [OF res] timers t(1)]) (simp_all add: no_tile)
      then show ?thesis unfolding eok .
    qed
    have "fewer s s'"
      unfolding fewer_def
    proof (intro conjI allI impI)
      show "\<exists>page0 u. page_at s q page0 \<and> pg = page0\<lparr>pg_used := u\<rparr>" if "page_at s' q pg" for q pg
        using that by (intro exI [of _ pg]) (simp add: pages split: if_splits)
      show "\<exists>tile0 u. tile_at s k tile0 \<and> tl = tile0\<lparr>ti_used := u\<rparr>" if "tile_at s' k tl" for k tl
        using that by (intro exI [of _ tl]) (simp add: same(2))
    qed
    then show "refs_apart s'" by (rule fewer_refs_apart) (rule base [THEN conjunct2, THEN conjunct2, THEN conjunct1])
    have "guide_books_ok s' = guide_books_ok (timer_gone t s)" by (simp add: guide_books_ok_def same)
    then show "guide_books_ok s'" using base facts(5) by blast
  qed
  moreover have "tiles_paged s'" unfolding tiles_paged_def same(2) timer_gone_frame by (intro allI impI ready tiles_pagedD [OF parts(1)])
  moreover have "queue_ok s'" by (rule queue_ok_grow [OF parts(2)]) (use ready in \<open>auto simp: same pages split: if_splits\<close>)
  ultimately have plan: "plan_ready o' s'" using parts(3) by (simp add: plan_ready_def same(7))
  have "fewer_calls s s' = fewer_calls s (timer_gone t s)" by (simp add: fewer_calls_def live same)
  then have "calm s s'" using facts(2) by (intro calmI calm_old) (simp_all add: pages same(2) split: if_splits)
  then have "calls_ok s'" by (rule calm_calls_ok [OF _ res]) (rule act [THEN conjunct1])
  moreover have "active s'" using active by (simp add: active_def same)
  ultimately show ?thesis using plan by blast
qed

text \<open>The plan of a timer starts from a sound store with the programs shown before; without a plan the store is sound already.\<close>

definition replans :: "guide_config \<Rightarrow> guide_store \<Rightarrow> guide_store \<Rightarrow> bool" where
  "replans o' s s1 \<longleftrightarrow> (\<exists>s'. s1 = gs_plan o' s' \<and> plan_ready o' s' \<and> calls_ok s' \<and> active s' \<and> (\<forall>k. shown s' k = shown s k))
     \<or> (store_ok o' s1 \<and> gs_pages s1 = gs_pages s \<and> (\<forall>k. shown s1 k = shown s k))"

lemma replans_ok: "replans o' s s1 \<Longrightarrow> guide_config_ok o' \<Longrightarrow> store_ok o' s1"
  unfolding replans_def using store_plan by blast

lemma page_again_replans:
  assumes ok: "store_ok o' s" and t: "t \<in> set (gs_timers s)" "page_timer (gt_action t) = Some (p, r)"
  shows "replans o' s (page_again o' p r (timer_gone t s))"
proof (cases "map_option pg_ref (map_of (gs_pages s) p) = Some r")
  case True
  then obtain page where page: "page_at s p page" "pg_ref page = r" by auto
  let ?s = "page_timer_off p r (timer_gone t s)"
  have active: "active s" using store_idle [OF ok] page(1) by fastforce
  then have "page_again o' p r (timer_gone t s) = gs_plan o' (?s\<lparr>gs_pages := map_del p (gs_pages ?s)\<rparr>)"
    using page by (simp add: page_again_def page_timer_off_def Let_def active_def map_of_map_entry)
  moreover have "plan_ready o' (?s\<lparr>gs_pages := map_del p (gs_pages ?s)\<rparr>) \<and> calls_ok (?s\<lparr>gs_pages := map_del p (gs_pages ?s)\<rparr>) \<and> active (?s\<lparr>gs_pages := map_del p (gs_pages ?s)\<rparr>)"
  proof (rule page_gone_ready [OF ok t page])
    show "map_of (gs_pages (?s\<lparr>gs_pages := map_del p (gs_pages ?s)\<rparr>)) = (map_of (gs_pages s))(p := None)"
      by (auto simp: page_timer_off_def map_of_map_del map_of_map_entry fun_eq_iff)
    have "map_wf (gs_pages s)" using store_parts(1) [OF ok] unfolding plan_ready_def res_ok_def by blast
    then show "map_wf (gs_pages (?s\<lparr>gs_pages := map_del p (gs_pages ?s)\<rparr>))" by (simp add: page_timer_off_def)
  qed (simp add: core_part_def page_timer_off_def)
  moreover have "\<forall>k. shown (?s\<lparr>gs_pages := map_del p (gs_pages ?s)\<rparr>) k = shown s k" by (simp add: shown_def page_timer_off_def)
  ultimately show ?thesis unfolding replans_def by blast
next
  case False
  let ?s = "page_timer_off p r (timer_gone t s)"
  have core: "core_part ?s = core_part (timer_gone t s)" using False by (intro page_timer_off_same) simp
  have "tile_timer (gt_action t) = None" using t(2) by (cases "gt_action t") simp_all
  then have "\<not> timer_matches t s" using False t(2) by (auto simp: timer_matches_def)
  then have "store_ok o' ?s" using timer_unmatched_ok [OF ok t(1)] guide_core_same(7) [OF core] by blast
  moreover have "page_again o' p r (timer_gone t s) = ?s"
    using False core_partD(1) [OF core] by (simp add: page_again_def Let_def)
  ultimately show ?thesis unfolding replans_def using core_partD(1,2) [OF core] by (simp add: shown_def)
qed

section \<open>A tile's timer\<close>

lemma tile_marked_ready:
  assumes ok: "store_ok o' s" and t: "t \<in> set (gs_timers s)" "tile_timer (gt_action t) = Some (k, r)"
    and tile: "tile_at s k tile" "ti_ref tile = r" and tile': "ti_ref tile' = r" "ti_controller tile' = ti_controller tile" "ti_timer tile' = None"
    and status: "gt_action t = Tile_rate k r \<and> ti_status tile' = Entry_ready \<or> gt_action t = Tile_retry k r \<and> ti_status tile' = ti_status tile \<and> ti_stale tile'"
    and core: "core_part s' = core_part ((timer_gone t s)\<lparr>gs_tiles := map_set k tile' (gs_tiles s)\<rparr>)"
  shows "plan_ready o' s' \<and> calls_ok s' \<and> active s'"
proof -
  have active: "active s" using store_idle [OF ok] tile(1) by fastforce
  note act = store_active [OF ok active] and timers = calls_okD(1) [OF store_parts(2) [OF ok]]
  note facts = timer_gone_facts [OF timers t(1)] and same = core_partD [OF core, simplified]
  have res: "res_ok o' s" and parts: "tiles_paged s" "queue_ok s" "gs_inFlight s \<le> go_maxInFlight o'" using act unfolding pump_ready_def by blast+
  have live: "live_request s' = live_request s" by (simp add: live_request_def fun_eq_iff same(10))
  have ready: "page_ready s' = page_ready s" by (simp add: page_ready_def fun_eq_iff same(1))
  have calls: "tile_calls s k tile" by (rule calls_okD(3) [OF store_parts(2) [OF ok] tile(1)])
  have controller: "\<not> ti_controller tile" using calls t tile(2) unfolding tile_calls_def by blast
  have error: "ti_status tile = Entry_error" if "gt_action t = Tile_retry k r" using calls t(1) tile(2) that unfolding tile_calls_def by blast
  have books: "guide_books_ok s'"
  proof -
    have "guide_books_ok s' = guide_books_ok (timer_gone t s)" by (simp add: guide_books_ok_def same)
    then show ?thesis using facts(5) store_parts(3) [OF ok] by blast
  qed
  have "res_ok o' s'"
  proof (rule res_ok_tile_update [OF res tile(1)])
    show "gs_tiles s' = map_set k tile' (gs_tiles s)" "gs_pages s' = gs_pages s" by (rule same(2), rule same(1))
    show "spares r' s s'" if "r' \<noteq> ti_ref tile" for r'
    proof -
      have "spares r' s (timer_gone t s)" using that tile_timer_ref [OF t(2)] tile(2) by (intro facts(6)) simp
      then show ?thesis by (simp add: spares_def live same)
    qed
    have "r < gs_nextRef s" using old_refs(2) [OF res tile(1)] tile(2) by simp
    then show "tile_ok o' s' k tile'"
      using status error tile' same(12) by (auto simp: tile_ok_def)
  qed (use tile tile' books in simp_all)
  moreover have "tiles_paged s'"
    unfolding tiles_paged_def ready
  proof (intro allI impI)
    fix j tl assume h: "tile_at s' j tl"
    have "map_has (gs_tiles s) j" using h tile(1) by (cases "j = k") (simp_all add: same(2) map_of_map_set)
    then obtain tl0 where "tile_at s j tl0" by auto
    then show "page_ready s (fst j)" by (rule tiles_pagedD [OF parts(1)])
  qed
  moreover have "queue_ok s'" by (rule queue_ok_grow [OF parts(2)]) (simp_all add: same ready)
  ultimately have plan: "plan_ready o' s'" using parts(3) by (simp add: plan_ready_def same(7))
  have "calls_ok s'"
  proof (rule calls_ok_tile_update [OF store_parts(2) [OF ok] same(2) same(1)])
    show "timers_ok s'"
    proof -
      have "timers_ok s' = timers_ok (timer_gone t s)" by (simp add: timers_ok_def same)
      then show ?thesis using timers_fewer [OF timers facts(2)] by blast
    qed
    show "u \<in> set (gs_timers s) \<or> (\<exists>r. tile_timer (gt_action u) = Some (k, r))" if "u \<in> set (gs_timers s')" for u
      using that facts(1) by (simp add: same(11))
    have no_live: "\<not> live_request s (Tile_task (fst k) (snd k)) r" using calls controller tile(2) unfolding tile_calls_def by blast
    have "gt_action u \<noteq> Tile_retry k r" if "gt_action t = Tile_rate k r" "u \<in> set (gs_timers s)" for u
      using calls t(1) that tile(2) unfolding tile_calls_def by metis
    moreover have "gt_action u \<noteq> Tile_rate k r" if "gt_action t = Tile_retry k r" "u \<in> set (gs_timers s)" for u
      using calls t(1) that tile(2) unfolding tile_calls_def by metis
    moreover have "u \<in> set (gs_timers s)" if "u \<in> set (gs_timers s')" for u using that facts(1) by (simp add: same(11))
    ultimately show "tile_calls s' k tile'"
      using status error controller no_live unfolding tile_calls_def tile'(1,2) live by (elim disjE conjE) auto
  qed (simp_all add: same live)
  moreover have "active s'" using active by (simp add: active_def same)
  ultimately show ?thesis using plan by blast
qed

lemma tile_timer_off_same: "map_option ti_ref (map_of (gs_tiles s) k) \<noteq> Some r \<Longrightarrow> core_part (tile_timer_off k r s) = core_part s"
proof -
  assume none: "map_option ti_ref (map_of (gs_tiles s) k) \<noteq> Some r"
  have "AList.map_entry k (\<lambda>tile. if ti_ref tile = r then tile\<lparr>ti_timer := None\<rparr> else tile) (gs_tiles s) = gs_tiles s"
    by (rule map_entry_same) (use none in simp)
  then show ?thesis by (simp add: tile_timer_off_def core_part_def)
qed

lemma tile_again_replans:
  assumes ok: "store_ok o' s" and t: "t \<in> set (gs_timers s)" "tile_timer (gt_action t) = Some (k, r)"
    and f: "\<And>tile. ti_data (f tile) = ti_data tile" "\<And>tile. ti_ref (f tile) = ti_ref tile" "\<And>tile. ti_controller (f tile) = ti_controller tile" "\<And>tile. ti_timer (f tile) = ti_timer tile"
    and status: "gt_action t = Tile_rate k r \<and> (\<forall>tile. ti_status (f tile) = Entry_ready)
      \<or> gt_action t = Tile_retry k r \<and> (\<forall>tile. ti_status (f tile) = ti_status tile \<and> ti_stale (f tile))"
  shows "replans o' s (tile_again o' f k r (timer_gone t s))"
proof (cases "map_option ti_ref (map_of (gs_tiles s) k) = Some r")
  case True
  then obtain tile where tile: "tile_at s k tile" "ti_ref tile = r" by auto
  let ?s = "tile_timer_off k r (timer_gone t s)" and ?tile = "f (tile\<lparr>ti_timer := None\<rparr>)"
  have active: "active s" using store_idle [OF ok] tile(1) by fastforce
  have "gs_tiles ?s = map_set k (tile\<lparr>ti_timer := None\<rparr>) (gs_tiles s)"
    using map_entry_set [OF tile(1), of "\<lambda>tile. if ti_ref tile = r then tile\<lparr>ti_timer := None\<rparr> else tile"] tile(2) by (simp add: tile_timer_off_def)
  moreover have "AList.map_entry k f (map_set k (tile\<lparr>ti_timer := None\<rparr>) (gs_tiles s)) = map_set k ?tile (map_set k (tile\<lparr>ti_timer := None\<rparr>) (gs_tiles s))"
    by (rule map_entry_set) (simp add: map_of_map_set)
  ultimately have tiles: "AList.map_entry k f (gs_tiles ?s) = map_set k ?tile (gs_tiles s)" by (simp add: map_set_twice)
  have again: "tile_again o' f k r (timer_gone t s) = gs_plan o' (?s\<lparr>gs_tiles := AList.map_entry k f (gs_tiles ?s)\<rparr>)"
    using tile active by (simp add: tile_again_def tile_timer_off_def Let_def active_def map_of_map_entry)
  have core: "core_part (?s\<lparr>gs_tiles := map_set k ?tile (gs_tiles s)\<rparr>) = core_part ((timer_gone t s)\<lparr>gs_tiles := map_set k ?tile (gs_tiles s)\<rparr>)"
    by (simp add: core_part_def tile_timer_off_def)
  have "plan_ready o' (?s\<lparr>gs_tiles := map_set k ?tile (gs_tiles s)\<rparr>) \<and> calls_ok (?s\<lparr>gs_tiles := map_set k ?tile (gs_tiles s)\<rparr>) \<and> active (?s\<lparr>gs_tiles := map_set k ?tile (gs_tiles s)\<rparr>)"
    by (rule tile_marked_ready [OF ok t tile _ _ _ _ core]) (use f status tile(2) in auto)
  moreover have "shown (?s\<lparr>gs_tiles := map_set k ?tile (gs_tiles s)\<rparr>) j = shown s j" for j
    using tile(1) f(1) by (cases "j = k") (simp_all add: shown_def map_of_map_set)
  ultimately show ?thesis unfolding again tiles replans_def by blast
next
  case False
  let ?s = "tile_timer_off k r (timer_gone t s)"
  have core: "core_part ?s = core_part (timer_gone t s)" using False by (intro tile_timer_off_same) simp
  have "page_timer (gt_action t) = None" using t(2) by (cases "gt_action t") simp_all
  then have "\<not> timer_matches t s" using False t(2) unfolding timer_matches_def by force
  then have "store_ok o' ?s" using timer_unmatched_ok [OF ok t(1)] guide_core_same(7) [OF core] by blast
  moreover have "tile_again o' f k r (timer_gone t s) = ?s"
    using False core_partD(2) [OF core] by (simp add: tile_again_def Let_def)
  ultimately show ?thesis unfolding replans_def using core_partD(1,2) [OF core] by (simp add: shown_def)
qed

lemma guide_timer_replans:
  assumes ok: "store_ok o' s" and t: "t \<in> set (gs_timers s)"
  shows "replans o' s (guide_timer_fires o' t s)"
proof -
  have fires: "guide_timer_fires o' t s = (case gt_action t of
      Page_rate p r \<Rightarrow> page_again o' p r (timer_gone t s) | Page_retry p r \<Rightarrow> page_again o' p r (timer_gone t s)
    | Tile_rate k r \<Rightarrow> tile_again o' (\<lambda>tile. tile\<lparr>ti_status := Entry_ready, ti_stale := True\<rparr>) k r (timer_gone t s)
    | Tile_retry k r \<Rightarrow> tile_again o' (\<lambda>tile. tile\<lparr>ti_stale := True\<rparr>) k r (timer_gone t s))"
    unfolding guide_timer_fires_def timer_gone_def Let_def ..
  show ?thesis
    unfolding fires using page_again_replans [OF ok t] tile_again_replans [OF ok t] by (cases "gt_action t") simp_all
qed

lemma guide_timer_fires_ok: "store_ok o' s \<Longrightarrow> guide_config_ok o' \<Longrightarrow> t \<in> set (gs_timers s) \<Longrightarrow> store_ok o' (guide_timer_fires o' t s)"
  by (rule replans_ok [OF guide_timer_replans])

end
