(* ===== verification/Guide_Operations.thy ===== *)
theory Guide_Operations
  imports Guide_Timers
begin

text \<open>The operations of a client: readings, the viewport, retry, invalidate and dispose keep the invariant.\<close>

section \<open>Readings\<close>

lemma map_entry_length: "length (AList.map_entry k f m) = length m"
  by (induction m) auto

lemma use_frame [simp]:
  "gs_viewport (use_page p s) = gs_viewport s" "gs_interestPages (use_page p s) = gs_interestPages s" "gs_interestTiles (use_page p s) = gs_interestTiles s"
  "gs_queue (use_page p s) = gs_queue s" "gs_inFlight (use_page p s) = gs_inFlight s" "gs_disposed (use_page p s) = gs_disposed s" "gs_timers (use_page p s) = gs_timers s"
  "gs_tiles (use_page p s) = gs_tiles s" "length (gs_pages (use_page p s)) = length (gs_pages s)" "gs_requests (use_page p s) = gs_requests s" "gs_nextRef (use_page p s) = gs_nextRef s"
  "gs_viewport (use_tile k s) = gs_viewport s" "gs_interestPages (use_tile k s) = gs_interestPages s" "gs_interestTiles (use_tile k s) = gs_interestTiles s"
  "gs_queue (use_tile k s) = gs_queue s" "gs_inFlight (use_tile k s) = gs_inFlight s" "gs_disposed (use_tile k s) = gs_disposed s" "gs_timers (use_tile k s) = gs_timers s"
  "gs_pages (use_tile k s) = gs_pages s" "length (gs_tiles (use_tile k s)) = length (gs_tiles s)" "gs_requests (use_tile k s) = gs_requests s" "gs_nextRef (use_tile k s) = gs_nextRef s"
  by (simp_all add: use_page_def use_tile_def Let_def map_entry_length)

lemma store_marked:
  assumes ok: "store_ok o' s" and active: "active s' = active s"
    and empty: "gs_pages s = [] \<Longrightarrow> gs_pages s' = []" "gs_tiles s = [] \<Longrightarrow> gs_tiles s' = []"
    and same: "gs_queue s' = gs_queue s" "gs_inFlight s' = gs_inFlight s" "gs_disposed s' = gs_disposed s"
      "gs_timers s' = gs_timers s" "gs_requests s' = gs_requests s" "gs_nextRef s' = gs_nextRef s"
    and ready: "pump_ready o' s \<Longrightarrow> pump_ready o' s'" and calm: "calm s s'"
  shows "store_ok o' s'"
proof (cases "active s")
  case True
  note act = store_active [OF ok True]
  have "calls_ok s'" using act calm_calls_ok [OF calm, of o'] unfolding pump_ready_def by blast
  moreover have "saturated o' s'" using act by (simp add: saturated_def same)
  ultimately show ?thesis using act ready active True by (simp add: store_ok_def)
next
  case False
  note e = store_idle [OF ok False]
  show ?thesis by (rule store_idleI) (use e False empty active in \<open>simp_all add: timers_ok_def guide_books_ok_def same\<close>)
qed

lemma use_page_store_ok: "store_ok o' s \<Longrightarrow> store_ok o' (use_page p s)"
proof (rule store_marked [OF _ _ _ _ _ _ _ _ _ _ _ calm_use(1)])
  assume ready: "pump_ready o' s"
  have facts: "page_facts (use_page p s) = page_facts s" by simp
  show "pump_ready o' (use_page p s)"
  proof (rule pump_ready_update [OF ready])
    show "res_ok o' (use_page p s)" using ready use_page_ok unfolding pump_ready_def by blast
    show "\<exists>tile'. tile_at (use_page p s) k tile' \<and> tile_settled o' (use_page p s) k tile'" if "tile_at s k tile" "tile_settled o' s k tile" for k tile
      using that by (intro exI [of _ tile]) (simp add: settled_timers [of "use_page p s" s])
  qed (simp_all only: use_frame facts_page(2,3) [OF facts] order_refl)
qed (simp_all add: active_def, simp add: use_page_def Let_def)

lemma use_tile_store_ok: "store_ok o' s \<Longrightarrow> store_ok o' (use_tile k s)"
proof (rule store_marked [OF _ _ _ _ _ _ _ _ _ _ _ calm_use(2)])
  assume ready: "pump_ready o' s"
  have at: "map_of (gs_tiles (use_tile k s)) j = (if j = k then map_option (ti_used_update (\<lambda>_. gs_clock s + 1)) (map_of (gs_tiles s) k) else map_of (gs_tiles s) j)" for j
    by (simp add: use_tile_def Let_def map_of_map_entry)
  show "pump_ready o' (use_tile k s)"
  proof (rule pump_ready_update [OF ready])
    show "res_ok o' (use_tile k s)" using ready use_tile_ok unfolding pump_ready_def by blast
    show "\<exists>tile'. tile_at (use_tile k s) j tile' \<and> tile_settled o' (use_tile k s) j tile'" if h: "tile_at s j tile" "tile_settled o' s j tile" for j tile
    proof (intro exI conjI)
      let ?tile = "if j = k then tile\<lparr>ti_used := gs_clock s + 1\<rparr> else tile"
      show "tile_at (use_tile k s) j ?tile" using h(1) by (auto simp: at)
      show "tile_settled o' (use_tile k s) j ?tile" using h(2) by (auto simp: tile_settled_def live_timer_def)
    qed
    show "map_has (gs_tiles (use_tile k s)) j = map_has (gs_tiles s) j" for j by (cases "j = k") (auto simp: at)
  qed (simp_all add: page_ready_def)
qed (simp_all add: active_def, simp add: use_tile_def Let_def)

lemma channelAt_ok: "store_ok o' s \<Longrightarrow> store_ok o' (fst (channelAt o' row s))"
  by (simp add: channelAt_def Let_def use_page_store_ok split: option.split)

lemma merge_blocks_ok: "store_ok o' s \<Longrightarrow> store_ok o' (fst (merge_blocks p channel start stop bs s))"
  by (induction bs arbitrary: s) (simp_all add: Let_def case_prod_beta use_tile_store_ok split: option.split)

lemma programsFor_ok: "store_ok o' s \<Longrightarrow> store_ok o' (fst (programsFor o' row start stop s))"
  using channelAt_ok [of o' s row] merge_blocks_ok by (auto simp: programsFor_def case_prod_beta split: option.split)

section \<open>Listeners\<close>

lemma listeners_ok:
  "store_ok o' (gs_subscribe l s) = store_ok o' s" "store_ok o' (gs_unsubscribe l s) = store_ok o' s"
  "store_ok o' (gs_subscribePage p l s) = store_ok o' s" "store_ok o' (gs_unsubscribePage p l s) = store_ok o' s"
  by (rule guide_core_same(7), simp add: core_part_def gs_subscribe_def gs_unsubscribe_def gs_subscribePage_def gs_unsubscribePage_def)+

section \<open>The viewport\<close>

lemma viewport_ready:
  assumes ok: "store_ok o' s"
  shows "plan_ready o' (s\<lparr>gs_viewport := Some v\<rparr>)" "calls_ok (s\<lparr>gs_viewport := Some v\<rparr>)"
proof -
  let ?s = "s\<lparr>gs_viewport := Some v\<rparr>"
  note parts = store_parts [OF ok]
  have same: "page_ok o' ?s p page = page_ok o' s p page" "tile_ok o' ?s k tile = tile_ok o' s k tile" for p page k tile
    by (rule entry_ok_same; simp add: live_request_def live_timer_def own_timer_def fun_eq_iff)+
  have ready: "page_ready ?s = page_ready s" by (simp add: page_ready_def fun_eq_iff)
  have fields: "gs_pages ?s = gs_pages s" "gs_tiles ?s = gs_tiles s" "gs_queue ?s = gs_queue s" "gs_interestPages ?s = gs_interestPages s" "gs_interestTiles ?s = gs_interestTiles s"
    "gs_inFlight ?s = gs_inFlight s" "gs_requests ?s = gs_requests s" "gs_timers ?s = gs_timers s" "gs_nextRef ?s = gs_nextRef s" by simp_all
  have "plan_ready o' ?s = plan_ready o' s"
    unfolding plan_ready_def res_ok_def same refs_apart_def guide_books_ok_def tiles_paged_def queue_ok_def ready fields ..
  then show "plan_ready o' ?s" using parts(1) by simp
  show "calls_ok ?s" using parts(1,2) calm_calls_ok [OF calm_fields(3)] unfolding plan_ready_def by blast
qed

lemma setViewport_ok: "store_ok o' s \<Longrightarrow> guide_config_ok o' \<Longrightarrow> store_ok o' (setViewport o' v s)"
  by (simp add: setViewport_def store_plan viewport_ready active_def)

section \<open>Dispose\<close>

lemma gs_reset_ok: "store_ok o' s \<Longrightarrow> guide_config_ok o' \<Longrightarrow> store_ok o' (gs_reset o' s)"
  by (intro reset_ok store_base)

lemma gs_dispose_ok: "store_ok o' s \<Longrightarrow> guide_config_ok o' \<Longrightarrow> store_ok o' (gs_dispose o' s)"
  unfolding gs_dispose_def by (intro reset_ok) (drule store_base, simp add: sound_base_def guide_books_ok_def timers_ok_def)

end
