(* ===== verification/Guide_Renewal.thy ===== *)
theory Guide_Renewal
  imports Guide_Operations
begin

text \<open>Retrying what failed, and a new guide generation: each prepares a sound store and plans.\<close>

section \<open>Retry\<close>

definition retry_page :: "int \<Rightarrow> guide_store \<Rightarrow> guide_store" where
  "retry_page p s =
     (case map_of (gs_pages s) p of None \<Rightarrow> s | Some page \<Rightarrow> (clear_timer (pg_timer page) s)\<lparr>gs_pages := map_del p (gs_pages s)\<rparr>)"

definition retry_tile :: "tile_key \<Rightarrow> guide_store \<Rightarrow> guide_store" where
  "retry_tile k s =
     (case map_of (gs_tiles s) k of
        None \<Rightarrow> s
      | Some tile \<Rightarrow> (clear_timer (ti_timer tile) s)\<lparr>gs_tiles := AList.map_entry k (\<lambda>t. t\<lparr>ti_attempts := 0, ti_stale := True\<rparr>) (gs_tiles s)\<rparr>)"

lemma retry_folds:
  "retry_pages s = fold retry_page (map fst (filter (\<lambda>(p, page). pg_status page = Entry_error) (gs_pages s))) s"
  "retry_tiles s = fold retry_tile (map fst (filter (\<lambda>(k, tile). ti_status tile = Entry_error) (gs_tiles s))) s"
  unfolding retry_pages_def retry_tiles_def retry_page_def [abs_def] retry_tile_def [abs_def] by (rule refl)+

text \<open>What both loops keep of the state before them.\<close>

definition retry_kept :: "guide_config \<Rightarrow> guide_store \<Rightarrow> guide_store \<Rightarrow> bool" where
  "retry_kept o' s s' \<longleftrightarrow> plan_ready o' s' \<and> calm s s' \<and> active s' = active s"

lemma no_abort: "abort_request False r s = s"
  by (simp add: abort_request_def)

lemma retry_page_maps: "map_of (gs_pages (retry_page p s)) = (map_of (gs_pages s))(p := None)" "gs_tiles (retry_page p s) = gs_tiles s"
  by (auto simp: retry_page_def map_of_map_del fun_eq_iff split: option.split)

lemma retry_page_kept:
  assumes ready: "plan_ready o' s" and error: "\<And>page. page_at s p page \<Longrightarrow> pg_status page = Entry_error"
  shows "retry_kept o' s (retry_page p s)"
proof (cases "map_of (gs_pages s) p")
  case None
  then show ?thesis using ready by (simp add: retry_page_def retry_kept_def calm_refl)
next
  case (Some page)
  let ?s = "retry_page p s"
  note parts = ready [unfolded plan_ready_def]
  have s: "?s = (clear_timer (pg_timer page) (abort_request False (pg_ref page) s))\<lparr>gs_pages := map_del p (gs_pages s)\<rparr>"
    using Some by (simp add: retry_page_def no_abort)
  have part: "steady_part ?s = steady_part s" unfolding s by (simp add: steady_part_def)
  have ok: "res_ok o' ?s" unfolding s using parts page_own_timer Some by (intro release_page_ok) blast+
  have keep: "page_ready s q \<Longrightarrow> page_ready ?s q" for q using error by (auto simp: page_ready_def retry_page_maps)
  have "tiles_paged ?s" unfolding tiles_paged_def retry_page_maps by (intro allI impI keep tiles_pagedD) (rule parts [THEN conjunct2, THEN conjunct1])
  moreover have "queue_ok ?s"
  proof (rule queue_ok_grow)
    show "queue_ok s" using parts by blast
  qed (use keep steady_partD [OF part] in \<open>simp_all add: retry_page_maps split: if_splits\<close>)
  moreover have "calm s ?s"
  proof (rule calmI)
    show "fewer_calls s ?s" unfolding s by (simp add: fewer_calls_release)
  qed (auto simp: retry_page_maps split: if_splits intro: calm_old)
  ultimately show ?thesis using ok parts steady_partD(4,5,8) [OF part] by (simp add: retry_kept_def plan_ready_def active_def)
qed

lemma retry_kept_trans: "retry_kept o' s s' \<Longrightarrow> retry_kept o' s' s'' \<Longrightarrow> retry_kept o' s s''"
  unfolding retry_kept_def using calm_trans by blast

lemma retry_pages_kept:
  "plan_ready o' s \<Longrightarrow> (\<And>p page. p \<in> set ps \<Longrightarrow> page_at s p page \<Longrightarrow> pg_status page = Entry_error) \<Longrightarrow> retry_kept o' s (fold retry_page ps s)"
proof (induction ps arbitrary: s)
  case (Cons p ps)
  have one: "retry_kept o' s (retry_page p s)" using Cons.prems by (intro retry_page_kept) auto
  have "retry_kept o' (retry_page p s) (fold retry_page ps (retry_page p s))"
    using one Cons.prems(2) by (intro Cons.IH) (auto simp: retry_kept_def retry_page_maps split: if_splits)
  then show ?case using retry_kept_trans [OF one] by simp
qed (simp add: retry_kept_def calm_refl)

lemma retry_tile_maps:
  "map_of (gs_tiles (retry_tile k s)) j = (if j = k then map_option (\<lambda>t. t\<lparr>ti_attempts := 0, ti_stale := True\<rparr>) (map_of (gs_tiles s) k) else map_of (gs_tiles s) j)"
  "gs_pages (retry_tile k s) = gs_pages s"
  by (simp_all add: retry_tile_def map_of_map_entry split: option.split)

lemma retry_tile_kept:
  assumes ready: "plan_ready o' s" and error: "\<And>tile. tile_at s k tile \<Longrightarrow> ti_status tile = Entry_error"
  shows "retry_kept o' s (retry_tile k s)"
proof (cases "map_of (gs_tiles s) k")
  case None
  then show ?thesis using ready by (simp add: retry_tile_def retry_kept_def calm_refl)
next
  case (Some tile)
  let ?s = "retry_tile k s" and ?tile = "tile\<lparr>ti_attempts := 0, ti_stale := True\<rparr>"
  note parts = ready [unfolded plan_ready_def]
  have res: "res_ok o' s" using parts by blast
  have s: "?s = (clear_timer (ti_timer tile) (abort_request False (ti_ref tile) s))\<lparr>gs_tiles := map_set k ?tile (gs_tiles s)\<rparr>"
    using Some map_entry_set [OF Some, of "\<lambda>t. t\<lparr>ti_attempts := 0, ti_stale := True\<rparr>"] by (simp add: retry_tile_def no_abort)
  have part: "steady_part ?s = steady_part s" unfolding s by (simp add: steady_part_def)
  have fewer: "fewer_calls s ?s" unfolding s by (simp add: fewer_calls_release)
  have own: "own_timer ?s i r" if "own_timer s i r" for i r
    using that fewer_callsD(1,3) [OF fewer] by (fastforce simp: own_timer_def subset_iff)
  have old: "tile_ok o' s k tile" by (rule res_ok_tile [OF res Some])
  have "res_ok o' ?s"
  proof (rule res_ok_tile_update [OF res Some])
    show "gs_tiles ?s = map_set k ?tile (gs_tiles s)" "gs_pages ?s = gs_pages s" unfolding s by simp_all
    show "spares r s ?s" if "r \<noteq> ti_ref tile" for r unfolding s spares_tiles by (rule spares_release [OF that tile_own_timer [OF res Some]])
    show "tile_ok o' ?s k ?tile" using old own error [OF Some] steady_partD(9) [OF part] by (simp add: tile_ok_def)
    show "guide_books_ok ?s"
      by (rule books_fewer) (use res_ok_parts [OF res] steady_partD [OF part] fewer_callsD(3) [OF fewer] in \<open>simp_all add: s\<close>)
  qed simp
  moreover have ready': "page_ready ?s = page_ready s" by (simp add: page_ready_def retry_tile_maps fun_eq_iff)
  moreover have "tiles_paged ?s"
    unfolding tiles_paged_def ready'
  proof (intro allI impI)
    fix j tl assume "tile_at ?s j tl"
    then have "\<exists>tl0. tile_at s j tl0" by (simp add: retry_tile_maps split: if_splits) blast
    then show "page_ready s (fst j)" using parts tiles_pagedD by blast
  qed
  moreover have "queue_ok ?s"
  proof (rule queue_ok_grow)
    show "queue_ok s" using parts by blast
  qed (use ready' steady_partD [OF part] in \<open>simp_all add: retry_tile_maps\<close>)
  moreover have "calm s ?s"
  proof (rule calmI [OF fewer])
    show "calm_tile s j tl" if h: "tile_at ?s j tl" for j tl
    proof (cases "j = k")
      case True
      then have "tl = ?tile" using h Some by (simp add: retry_tile_maps)
      then show ?thesis using Some True by (auto simp: calm_tile_def tile_core_def)
    qed (use h in \<open>simp add: retry_tile_maps calm_old\<close>)
  qed (simp add: retry_tile_maps calm_old)
  ultimately show ?thesis using parts steady_partD(4,5,8) [OF part] by (simp add: retry_kept_def plan_ready_def active_def)
qed

lemma retry_tiles_kept:
  "plan_ready o' s \<Longrightarrow> (\<And>k tile. k \<in> set ks \<Longrightarrow> tile_at s k tile \<Longrightarrow> ti_status tile = Entry_error) \<Longrightarrow> retry_kept o' s (fold retry_tile ks s)"
proof (induction ks arbitrary: s)
  case (Cons k ks)
  have one: "retry_kept o' s (retry_tile k s)" by (rule retry_tile_kept [OF Cons.prems(1)]) (rule Cons.prems(2), simp_all)
  have "retry_kept o' (retry_tile k s) (fold retry_tile ks (retry_tile k s))"
  proof (rule Cons.IH)
    show "plan_ready o' (retry_tile k s)" using one unfolding retry_kept_def by blast
    show "ti_status tile = Entry_error" if h: "j \<in> set ks" "tile_at (retry_tile k s) j tile" for j tile
    proof (cases "j = k")
      case True
      then obtain tile0 where "tile_at s k tile0" "tile = tile0\<lparr>ti_attempts := 0, ti_stale := True\<rparr>" using h(2) by (auto simp: retry_tile_maps)
      then show ?thesis using Cons.prems(2) [of k tile0] by simp
    next
      case False
      then show ?thesis using h Cons.prems(2) [of j tile] by (simp add: retry_tile_maps)
    qed
  qed
  then show ?case using retry_kept_trans [OF one] by simp
qed (simp add: retry_kept_def calm_refl)

lemma retry_all_kept:
  assumes ok: "store_ok o' s"
  shows "retry_kept o' s (retry_tiles (retry_pages s))"
proof -
  note parts = store_parts [OF ok]
  have wf: "map_wf (gs_pages s)" using parts(1) unfolding plan_ready_def res_ok_def by blast
  have kept1: "retry_kept o' s (retry_pages s)"
    unfolding retry_folds
  proof (rule retry_pages_kept [OF parts(1)])
    fix p page assume "p \<in> set (map fst (filter (\<lambda>(p, page). pg_status page = Entry_error) (gs_pages s)))" "page_at s p page"
    then show "pg_status page = Entry_error" unfolding in_filter_map [OF wf] by auto
  qed
  then have ready1: "plan_ready o' (retry_pages s)" unfolding retry_kept_def by blast
  then have wf1: "map_wf (gs_tiles (retry_pages s))" unfolding plan_ready_def res_ok_def by blast
  have "retry_kept o' (retry_pages s) (retry_tiles (retry_pages s))"
    unfolding retry_folds(2)
  proof (rule retry_tiles_kept [OF ready1])
    fix k tile assume "k \<in> set (map fst (filter (\<lambda>(k, tile). ti_status tile = Entry_error) (gs_tiles (retry_pages s))))" "tile_at (retry_pages s) k tile"
    then show "ti_status tile = Entry_error" unfolding in_filter_map [OF wf1] by auto
  qed
  then show ?thesis by (rule retry_kept_trans [OF kept1])
qed

lemma retry_shown: "shown (retry_tiles (retry_pages s)) k = shown s k"
proof -
  have pages: "gs_tiles (fold retry_page ps s) = gs_tiles s" for ps by (induction ps arbitrary: s) (simp_all add: retry_page_maps)
  have one: "shown (retry_tile j s) k = shown s k" for j s by (cases "map_of (gs_tiles s) k") (auto simp: shown_def retry_tile_maps)
  have "shown (fold retry_tile ks s') k = shown s' k" for ks s' by (induction ks arbitrary: s') (simp_all add: one)
  then show ?thesis unfolding retry_folds by (simp add: shown_def pages)
qed

lemma gs_retry_ok:
  assumes ok: "store_ok o' s" and config: "guide_config_ok o'"
  shows "store_ok o' (gs_retry o' s)"
proof -
  note parts = store_parts [OF ok] and kept = retry_all_kept [OF ok]
  show ?thesis
  proof (cases "active s")
    case True
    have "calls_ok (retry_tiles (retry_pages s))"
      using kept parts calm_calls_ok unfolding retry_kept_def plan_ready_def by blast
    then show ?thesis using kept True unfolding gs_retry_def retry_kept_def by (intro store_plan config) blast+
  next
    case False
    then have "retry_tiles (retry_pages s) = s" using store_idle [OF ok False] by (simp add: retry_pages_def retry_tiles_def)
    then show ?thesis using ok False by (simp add: gs_retry_def plan_idle active_def)
  qed
qed

end
