(* ===== verification/Guide_Generation.thy ===== *)
theory Guide_Generation
  imports Guide_Renewal
begin

text \<open>
  A new guide generation: every load of programs is given up, every tile is stale, what was shown
  stays, and the plan loads it again.
\<close>

section \<open>Giving up the loads\<close>

definition give_up :: "guide_tile list \<Rightarrow> guide_store \<Rightarrow> guide_store" where
  "give_up ts s = fold (\<lambda>t s. if ti_status t = Entry_loading then abort_request (ti_controller t) (ti_ref t) s else s) ts s"

definition stale_tile :: "guide_tile \<Rightarrow> guide_tile" where
  "stale_tile t = (if ti_status t = Entry_loading then t\<lparr>ti_stale := True, ti_status := (if ti_data t = None then Entry_error else Entry_ready)\<rparr> else t\<lparr>ti_stale := True\<rparr>)"

lemma live_abort: "live_request (abort_request c r' s) task r \<longleftrightarrow> live_request s task r \<and> \<not> (c \<and> r = r')"
  by (auto simp: live_request_def abort_request_def)

lemma give_up_frame:
  "gs_pages (give_up ts s) = gs_pages s" "gs_tiles (give_up ts s) = gs_tiles s" "gs_timers (give_up ts s) = gs_timers s" "gs_nextRef (give_up ts s) = gs_nextRef s"
  "gs_inFlight (give_up ts s) = gs_inFlight s" "gs_queue (give_up ts s) = gs_queue s" "gs_interestPages (give_up ts s) = gs_interestPages s"
  "gs_interestTiles (give_up ts s) = gs_interestTiles s" "gs_disposed (give_up ts s) = gs_disposed s" "gs_viewport (give_up ts s) = gs_viewport s"
  "gs_generation (give_up ts s) = gs_generation s" "List.map rq_ref (gs_requests (give_up ts s)) = List.map rq_ref (gs_requests s)"
  by (induction ts arbitrary: s) (simp_all add: give_up_def del: map_map)

lemma give_up_live:
  "live_request (give_up ts s) task r \<longleftrightarrow> live_request s task r \<and> \<not> (\<exists>t \<in> set ts. ti_status t = Entry_loading \<and> ti_controller t \<and> ti_ref t = r)"
  by (induction ts arbitrary: s) (auto simp: give_up_def live_abort)

text \<open>The state that \<open>invalidate\<close> plans.\<close>

definition renewed :: "guide_store \<Rightarrow> guide_store" where
  "renewed s = (give_up (map_values (gs_tiles s)) (s\<lparr>gs_generation := gs_generation s + 1\<rparr>))
     \<lparr>gs_tiles := filter (\<lambda>(k, t). ti_data t \<noteq> None) (map (\<lambda>(k, t). (k, stale_tile t)) (gs_tiles s))\<rparr>"

lemma invalidate_plans: "gs_invalidate o' s = gs_plan o' (renewed s)"
proof -
  have "make_stale s0 = (give_up (map_values (gs_tiles s0)) s0)\<lparr>gs_tiles := map (\<lambda>(k, t). (k, stale_tile t)) (gs_tiles s0)\<rparr>" for s0
    unfolding make_stale_def give_up_def stale_tile_def ..
  then show ?thesis by (simp add: gs_invalidate_def Let_def renewed_def)
qed

lemma map_of_kept: "map_wf m \<Longrightarrow> map_of (filter (\<lambda>(k, v). P v) m) k = (case map_of m k of None \<Rightarrow> None | Some v \<Rightarrow> if P v then Some v else None)"
proof (induction m)
  case (Cons a m)
  obtain k' v where a: "a = (k', v)" by force
  have "map_wf m" "map_of m k' = None" using Cons.prems by (auto simp: map_wf_def a map_of_eq_None_iff)
  then show ?case using Cons.IH by (auto simp: a split: option.split)
qed simp

lemma stale_tile_keeps [simp]: "ti_ref (stale_tile t) = ti_ref t" "ti_data (stale_tile t) = ti_data t" "ti_controller (stale_tile t) = ti_controller t"
    "ti_timer (stale_tile t) = ti_timer t" "ti_stale (stale_tile t)" "ti_attempts (stale_tile t) = ti_attempts t"
  by (simp_all add: stale_tile_def)

lemma renewed_tiles:
  assumes "map_wf (gs_tiles s)"
  shows "map_of (gs_tiles (renewed s)) k = (case map_of (gs_tiles s) k of None \<Rightarrow> None | Some t \<Rightarrow> if ti_data t = None then None else Some (stale_tile t))"
    and "map_wf (gs_tiles (renewed s))"
proof -
  have keys: "map_keys (map (\<lambda>(k, t). (k, stale_tile t)) (gs_tiles s)) = map_keys (gs_tiles s)" by (simp add: case_prod_beta)
  then have wf: "map_wf (map (\<lambda>(k, t). (k, stale_tile t)) (gs_tiles s))" using assms by (simp only: map_wf_def)
  have "map_of (map (\<lambda>(k, t). (k, stale_tile t)) (gs_tiles s)) k = map_option stale_tile (map_of (gs_tiles s) k)"
    by (simp add: map_of_map)
  then show "map_of (gs_tiles (renewed s)) k = (case map_of (gs_tiles s) k of None \<Rightarrow> None | Some t \<Rightarrow> if ti_data t = None then None else Some (stale_tile t))"
    using map_of_kept [OF wf, of "\<lambda>t. ti_data t \<noteq> None" k] by (simp add: renewed_def split: option.split)
  show "map_wf (gs_tiles (renewed s))" using wf by (simp add: renewed_def map_wf_def distinct_map_filter)
qed

lemma renewed_at:
  assumes "map_wf (gs_tiles s)" "tile_at (renewed s) k tile"
  obtains t where "tile_at s k t" "ti_data t \<noteq> None" "tile = stale_tile t"
  using assms(2) unfolding renewed_tiles(1) [OF assms(1)] by (cases "map_of (gs_tiles s) k") (simp_all split: if_splits)

lemma renewed_frame:
  "gs_pages (renewed s) = gs_pages s" "gs_timers (renewed s) = gs_timers s" "gs_nextRef (renewed s) = gs_nextRef s"
  "gs_inFlight (renewed s) = gs_inFlight s" "gs_queue (renewed s) = gs_queue s" "gs_interestPages (renewed s) = gs_interestPages s"
  "gs_interestTiles (renewed s) = gs_interestTiles s" "gs_disposed (renewed s) = gs_disposed s" "gs_viewport (renewed s) = gs_viewport s"
  "List.map rq_ref (gs_requests (renewed s)) = List.map rq_ref (gs_requests s)" "page_ready (renewed s) = page_ready s" "active (renewed s) = active s"
  "live_timer (renewed s) = live_timer s" "own_timer (renewed s) = own_timer s" "timers_ok (renewed s) = timers_ok s"
  by (simp_all add: renewed_def give_up_frame page_ready_def active_def live_timer_def own_timer_def timers_ok_def fun_eq_iff)

lemma renewed_live:
  "live_request (renewed s) task r \<longleftrightarrow> live_request s task r \<and> \<not> (\<exists>t \<in> set (map_values (gs_tiles s)). ti_status t = Entry_loading \<and> ti_controller t \<and> ti_ref t = r)"
proof -
  have "live_request (renewed s) task r = live_request (give_up (map_values (gs_tiles s)) (s\<lparr>gs_generation := gs_generation s + 1\<rparr>)) task r"
    by (simp add: renewed_def live_request_def)
  also have "\<dots> \<longleftrightarrow> live_request (s\<lparr>gs_generation := gs_generation s + 1\<rparr>) task r
      \<and> \<not> (\<exists>t \<in> set (map_values (gs_tiles s)). ti_status t = Entry_loading \<and> ti_controller t \<and> ti_ref t = r)"
    by (rule give_up_live)
  finally show ?thesis by (simp add: live_request_def)
qed

section \<open>It is sound\<close>

lemma renewed_page_live:
  assumes "res_ok o' s" "page_at s p page"
  shows "live_request (renewed s) task (pg_ref page) = live_request s task (pg_ref page)"
proof -
  have "ti_ref t \<noteq> pg_ref page" if h: "t \<in> set (map_values (gs_tiles s))" for t
  proof -
    obtain x where x: "x \<in> set (gs_tiles s)" "t = snd x" using h unfolding set_map image_iff by blast
    define k where "k = fst x"
    have "(k, t) \<in> set (gs_tiles s)" using x by (simp add: k_def)
    then have "tile_at s k t" using res_ok_parts [OF assms(1)] by (simp add: map_wf_def)
    then show ?thesis using refs_apartD(3) [OF assms(1,2)] by metis
  qed
  then show ?thesis unfolding renewed_live by blast
qed

lemma renewed_ready:
  assumes ready: "plan_ready o' s"
  shows "plan_ready o' (renewed s)"
proof -
  note parts = ready [unfolded plan_ready_def]
  have res: "res_ok o' s" using parts by blast
  have wf: "map_wf (gs_pages s)" "map_wf (gs_tiles s)" using res_ok_parts [OF res] by blast+
  have "res_ok o' (renewed s)"
  proof (rule res_okI)
    show "map_wf (gs_pages (renewed s))" using wf by (simp add: renewed_frame)
    show "map_wf (gs_tiles (renewed s))" by (rule renewed_tiles(2) [OF wf(2)])
    show "page_ok o' (renewed s) p page" if "page_at (renewed s) p page" for p page
    proof -
      have at: "page_at s p page" using that by (simp add: renewed_frame)
      show ?thesis using res_ok_page [OF res at] unfolding page_ok_def renewed_frame renewed_page_live [OF res at] .
    qed
    show "tile_ok o' (renewed s) k tile" if "tile_at (renewed s) k tile" for k tile
    proof (rule renewed_at [OF wf(2) that])
      fix t assume t: "tile_at s k t" "ti_data t \<noteq> None" "tile = stale_tile t"
      then show ?thesis
        using res_ok_tile [OF res t(1)] by (cases "ti_status t") (simp_all add: tile_ok_def renewed_frame stale_tile_def)
    qed
    have "refs_apart s" using res_ok_parts [OF res] by blast
    show "refs_apart (renewed s)"
      unfolding refs_apart_def renewed_frame
    proof (intro conjI allI impI; elim conjE)
      show "p = p'" if "page_at s p a" "page_at s p' b" "pg_ref a = pg_ref b" for p p' a b using that by (rule refs_apartD(1) [OF res])
      fix k k' a b assume h: "tile_at (renewed s) k a" "tile_at (renewed s) k' b" "ti_ref a = ti_ref b"
      obtain t t' where "tile_at s k t" "ti_ref t = ti_ref a" "tile_at s k' t'" "ti_ref t' = ti_ref b"
        using renewed_at [OF wf(2) h(1)] renewed_at [OF wf(2) h(2)] by (metis stale_tile_keeps(1))
      then show "k = k'" using refs_apartD(2) [OF res] h(3) by metis
    next
      fix p k a b assume h: "page_at s p a" "tile_at (renewed s) k b"
      obtain t where "tile_at s k t" "ti_ref t = ti_ref b" using renewed_at [OF wf(2) h(2)] by (metis stale_tile_keeps(1))
      then show "pg_ref a \<noteq> ti_ref b" using refs_apartD(3) [OF res h(1)] by metis
    qed
    show "guide_books_ok (renewed s)" by (rule books_fewer [of s]) (use res_ok_parts [OF res] in \<open>simp_all add: renewed_frame del: map_map\<close>)
  qed
  moreover have "tiles_paged (renewed s)"
    unfolding tiles_paged_def renewed_frame
  proof (intro allI impI)
    fix k tile assume "tile_at (renewed s) k tile"
    then show "page_ready s (fst k)" using parts tiles_pagedD by (elim renewed_at [OF wf(2)]) blast
  qed
  moreover have "queue_ok (renewed s)" using parts unfolding queue_ok_def renewed_frame by blast
  ultimately show ?thesis using parts unfolding plan_ready_def renewed_frame by blast
qed

lemma renewed_calls:
  assumes calls: "calls_ok s" and res: "res_ok o' s"
  shows "calls_ok (renewed s)"
proof (rule calls_okI)
  have wf: "map_wf (gs_tiles s)" using res_ok_parts [OF res] by blast
  show "timers_ok (renewed s)" using calls_okD(1) [OF calls] by (simp add: renewed_frame)
  show "page_calls (renewed s) p page" if "page_at (renewed s) p page" for p page
  proof -
    have at: "page_at s p page" using that by (simp add: renewed_frame)
    show ?thesis using calls_okD(2) [OF calls at] unfolding page_calls_def renewed_frame renewed_page_live [OF res at] .
  qed
  show "tile_calls (renewed s) k tile" if "tile_at (renewed s) k tile" for k tile
  proof (rule renewed_at [OF wf that])
    fix t assume t: "tile_at s k t" "ti_data t \<noteq> None" "tile = stale_tile t"
    have old: "tile_calls s k t" by (rule calls_okD(3) [OF calls t(1)])
    have "t \<in> set (map_values (gs_tiles s))" using map_of_SomeD [OF t(1)] by force
    then have "\<not> live_request (renewed s) (Tile_task (fst k) (snd k)) (ti_ref t)"
      using old unfolding renewed_live tile_calls_def by blast
    moreover have "ti_status t = Entry_error \<Longrightarrow> ti_status (stale_tile t) = Entry_error" "ti_status t \<noteq> Entry_error \<Longrightarrow> ti_status (stale_tile t) \<noteq> Entry_error"
      using t(2) by (auto simp: stale_tile_def)
    ultimately show ?thesis using old unfolding t(3) tile_calls_def renewed_frame stale_tile_keeps by blast
  qed
qed

lemma gs_invalidate_ok:
  assumes ok: "store_ok o' s" and config: "guide_config_ok o'"
  shows "store_ok o' (gs_invalidate o' s)"
proof (cases "active s")
  case True
  note parts = store_parts [OF ok]
  have "res_ok o' s" using parts(1) unfolding plan_ready_def by blast
  then have "calls_ok (renewed s)" by (rule renewed_calls [OF parts(2)])
  then show ?thesis
    unfolding invalidate_plans using True by (intro store_plan renewed_ready parts config) (simp_all add: renewed_frame)
next
  case False
  note e = store_idle [OF ok False]
  have "gs_invalidate o' s = renewed s" unfolding invalidate_plans using False by (intro plan_idle) (auto simp: renewed_frame active_def)
  moreover have "store_ok o' (renewed s)"
  proof (rule store_idleI)
    show "guide_books_ok (renewed s)" by (rule books_fewer [of s]) (use e in \<open>simp_all add: renewed_frame del: map_map\<close>)
    show "gs_tiles (renewed s) = []" using e by (simp add: renewed_def)
  qed (use e False in \<open>simp_all only: renewed_frame not_False_eq_True\<close>)
  ultimately show ?thesis by simp
qed

text \<open>What is shown does not change.\<close>

lemma renewed_shown: "map_wf (gs_tiles s) \<Longrightarrow> shown (renewed s) k = shown s k"
  by (simp add: shown_def renewed_tiles(1) split: option.split)

end
