(* ===== verification/Guide_Machine.thy ===== *)
theory Guide_Machine
  imports Guide_Generation
begin

text \<open>The guide store as a machine: what can happen to it, the states it reaches, and its invariant there.\<close>

section \<open>Events\<close>

text \<open>An operation of the client, an answer of the source, the end of a request, or a timer.\<close>

datatype guide_event =
  Set_viewport guide_viewport
| Read_channel int
| Read_programs int rat rat
| Retry_failed
| New_generation
| Start_over
| Dispose_store
| Listen nat
| Unlisten nat
| Listen_page int nat
| Unlisten_page int nat
| Answer guide_answer guide_request
| Finish guide_request
| Fire guide_timer

fun event_enabled :: "guide_store \<Rightarrow> guide_event \<Rightarrow> bool" where
  "event_enabled s (Answer answer q) = (q \<in> set (gs_requests s) \<and> \<not> rq_handled q \<and> answer_fits (rq_task q) answer)"
| "event_enabled s (Finish q) = (q \<in> set (gs_requests s) \<and> rq_handled q)"
| "event_enabled s (Fire t) = (t \<in> set (gs_timers s))"
| "event_enabled s _ = True"

fun event_result :: "guide_config \<Rightarrow> (jsval \<Rightarrow> int \<Rightarrow> rat) \<Rightarrow> guide_event \<Rightarrow> guide_store \<Rightarrow> guide_store" where
  "event_result o' delay (Set_viewport v) s = setViewport o' v s"
| "event_result o' delay (Read_channel row) s = fst (channelAt o' row s)"
| "event_result o' delay (Read_programs row start stop) s = fst (programsFor o' row start stop s)"
| "event_result o' delay Retry_failed s = gs_retry o' s"
| "event_result o' delay New_generation s = gs_invalidate o' s"
| "event_result o' delay Start_over s = gs_reset o' s"
| "event_result o' delay Dispose_store s = gs_dispose o' s"
| "event_result o' delay (Listen l) s = gs_subscribe l s"
| "event_result o' delay (Unlisten l) s = gs_unsubscribe l s"
| "event_result o' delay (Listen_page p l) s = gs_subscribePage p l s"
| "event_result o' delay (Unlisten_page p l) s = gs_unsubscribePage p l s"
| "event_result o' delay (Answer answer q) s = request_answers o' delay answer q s"
| "event_result o' delay (Finish q) s = request_finishes o' (rq_ref q) s"
| "event_result o' delay (Fire t) s = guide_timer_fires o' t s"

inductive guide_reach :: "guide_config \<Rightarrow> (jsval \<Rightarrow> int \<Rightarrow> rat) \<Rightarrow> guide_store \<Rightarrow> bool" for o' delay where
  reach_new: "guide_reach o' delay new_guide_store"
| reach_step: "guide_reach o' delay s \<Longrightarrow> event_enabled s e \<Longrightarrow> guide_reach o' delay (event_result o' delay e s)"

section \<open>The invariant\<close>

lemma new_store_ok: "guide_config_ok o' \<Longrightarrow> store_ok o' new_guide_store"
  by (rule store_idleI) (simp_all add: active_def new_guide_store_def timers_ok_def guide_books_ok_def guide_config_ok_def)

lemma event_ok:
  assumes ok: "store_ok o' s" and config: "guide_config_ok o'" and enabled: "event_enabled s e"
  shows "store_ok o' (event_result o' delay e s)"
proof (cases e)
  case (Answer answer q)
  then show ?thesis using request_answers_ok [OF ok config] enabled by simp
next
  case (Finish q)
  then show ?thesis using request_finishes_ok [OF ok] enabled by simp
next
  case (Fire t)
  then show ?thesis using guide_timer_fires_ok [OF ok config] enabled by simp
qed (simp_all add: ok config setViewport_ok channelAt_ok programsFor_ok gs_retry_ok gs_invalidate_ok gs_reset_ok gs_dispose_ok listeners_ok)

lemma reach_ok: "guide_reach o' delay s \<Longrightarrow> guide_config_ok o' \<Longrightarrow> store_ok o' s"
  by (induction rule: guide_reach.induct) (simp_all add: new_store_ok event_ok)

section \<open>What is on its way\<close>

text \<open>The source or a timer will bring the page, or it was tried too often, or it waits for a slot.\<close>

definition page_coming :: "guide_config \<Rightarrow> guide_store \<Rightarrow> int \<Rightarrow> bool" where
  "page_coming o' s p \<longleftrightarrow> Page_task p \<in> set (gs_queue s) \<or> (\<exists>page. map_of (gs_pages s) p = Some page \<and>
     (case pg_status page of
        Entry_ready \<Rightarrow> True
      | Entry_loading \<Rightarrow> live_request s (Page_task p) (pg_ref page) \<or> live_timer s (pg_timer page) (Page_rate p (pg_ref page))
      | Entry_error \<Rightarrow> live_timer s (pg_timer page) (Page_retry p (pg_ref page)) \<or> pg_attempts page > length (go_retryMs o')))"

definition tile_coming :: "guide_config \<Rightarrow> guide_store \<Rightarrow> tile_key \<Rightarrow> bool" where
  "tile_coming o' s k \<longleftrightarrow> Tile_task (fst k) (snd k) \<in> set (gs_queue s) \<or> (\<exists>tile. map_of (gs_tiles s) k = Some tile \<and>
     (case ti_status tile of
        Entry_ready \<Rightarrow> \<not> ti_stale tile
      | Entry_loading \<Rightarrow> live_request s (Tile_task (fst k) (snd k)) (ti_ref tile) \<or> live_timer s (ti_timer tile) (Tile_rate k (ti_ref tile))
      | Entry_error \<Rightarrow> live_timer s (ti_timer tile) (Tile_retry k (ti_ref tile)) \<or> ti_attempts tile > length (go_retryMs o')))"

lemma served_page: "pump_ready o' s \<Longrightarrow> p \<in> set (gs_interestPages s) \<Longrightarrow> page_coming o' s p"
proof -
  assume ready: "pump_ready o' s" and p: "p \<in> set (gs_interestPages s)"
  note parts = ready [unfolded pump_ready_def]
  consider "Page_task p \<in> set (gs_queue s)" | page where "page_at s p page" using parts p unfolding pages_served_def by auto
  then show ?thesis
  proof cases
    case 2
    then have "page_ok o' s p page" using parts res_ok_page by blast
    then show ?thesis using 2 by (cases "pg_status page") (auto simp: page_coming_def page_ok_def split: if_splits)
  qed (simp add: page_coming_def)
qed

lemma served_tile: "pump_ready o' s \<Longrightarrow> k \<in> set (gs_interestTiles s) \<Longrightarrow> page_ready s (fst k) \<Longrightarrow> tile_coming o' s k"
proof -
  assume ready: "pump_ready o' s" and k: "k \<in> set (gs_interestTiles s)" "page_ready s (fst k)"
  note parts = ready [unfolded pump_ready_def]
  consider "Tile_task (fst k) (snd k) \<in> set (gs_queue s)" | tile where "tile_at s k tile" "tile_settled o' s k tile"
    using parts k unfolding tiles_served_def by blast
  then show ?thesis
  proof cases
    case 2
    then have "tile_ok o' s k tile" using parts res_ok_tile by blast
    then show ?thesis
      using 2 unfolding tile_coming_def by (intro disjI2 exI [of _ tile]) (cases "ti_status tile"; auto simp: tile_ok_def tile_settled_def split: if_splits)
  qed (simp add: tile_coming_def)
qed

section \<open>The interest of the plan\<close>

lemma plan_interest:
  assumes ready: "plan_ready o' s" and config: "guide_config_ok o'" and v: "\<not> gs_disposed s" "gs_viewport s = Some v"
  shows "gs_interestPages (gs_plan o' s) = planned_pages o' v s" "gs_interestTiles (gs_plan o' s) = List.product (planned_pages o' v s) (planned_blocks o' v)"
    "p \<in> set (planned_pages o' v s) \<Longrightarrow> page_ready (gs_plan o' s) p \<Longrightarrow> page_ready s p"
proof -
  let ?s3 = "plan_queued o' v s"
  let ?s4 = "gs_evict o' ?s3"
  have ok: "res_ok o' s" using ready unfolding plan_ready_def by blast
  obtain s2 where touched: "touched (plan_base o' v s) s2" and ready2: "plan_ready o' s2" and s3: "?s3 = s2\<lparr>gs_queue := gs_queue ?s3\<rparr>"
    and served: "queue_ok ?s3" "pages_served ?s3" "tiles_served o' ?s3"
    using plan_queued_ready [OF ready config] by blast
  note part = steady_partD [OF touchedD(1) [OF touched]]
  have fields: "gs_interestPages (s2\<lparr>gs_queue := q\<rparr>) = gs_interestPages s2" "gs_interestTiles (s2\<lparr>gs_queue := q\<rparr>) = gs_interestTiles s2"
    "res_ok o' (s2\<lparr>gs_queue := q\<rparr>) = res_ok o' s2" "tiles_paged (s2\<lparr>gs_queue := q\<rparr>) = tiles_paged s2" "gs_inFlight (s2\<lparr>gs_queue := q\<rparr>) = gs_inFlight s2"
    "page_ready (s2\<lparr>gs_queue := q\<rparr>) r = page_ready s2 r" for q r
    by simp_all
  note fields3 = fields [of "gs_queue ?s3", folded s3]
  have ready4: "pump_ready o' ?s4"
    using ready2 served fields3 unfolding plan_ready_def by (intro evict_pump_ready) simp_all
  have keep: "entries_kept {} ?s3 ?s4" using ready2 fields3 unfolding plan_ready_def by (intro evict_keeps) simp
  have pumped: "entries_kept UNIV ?s4 (gs_plan o' s)" using pump_ready_pump [OF ready4] plan_split [OF v] by simp
  have interest: "gs_interestPages ?s3 = planned_pages o' v s" "gs_interestTiles ?s3 = List.product (planned_pages o' v s) (planned_blocks o' v)"
    unfolding fields3 part plan_base_frame(1,2) [OF ok] by (rule refl)+
  show "gs_interestPages (gs_plan o' s) = planned_pages o' v s" "gs_interestTiles (gs_plan o' s) = List.product (planned_pages o' v s) (planned_blocks o' v)"
    using keep pumped interest unfolding entries_kept_def by simp_all
  show "page_ready s p" if h: "p \<in> set (planned_pages o' v s)" "page_ready (gs_plan o' s) p"
  proof -
    have "page_ready ?s3 p" using keep pumped h interest unfolding entries_kept_def by metis
    then show ?thesis unfolding fields3 facts_page(3) [OF touchedD(2) [OF touched]] plan_base_frame(5) [OF ok] .
  qed
qed

end
