(* ===== verification/Guide_Screen.thy ===== *)
theory Guide_Screen
  imports Guide_Machine
begin

text \<open>Programs stay on screen: only an answer for a tile changes what that tile shows.\<close>

section \<open>Plans and pumps\<close>

lemma plan_screen:
  assumes ready: "plan_ready o' s" and config: "guide_config_ok o'" and active: "active s" and on: "guide_on_screen (gs_plan o' s) k"
  shows "page_ready s (fst k)" "shown (gs_plan o' s) k = shown s k"
proof -
  obtain v where v: "\<not> gs_disposed s" "gs_viewport s = Some v" using active by (auto simp: active_def)
  note interest = plan_interest [OF ready config v]
  show "page_ready s (fst k)" using on interest unfolding guide_on_screen_def by metis
  show "shown (gs_plan o' s) k = shown s k" by (rule plan_serves(5) [OF ready config active on])
qed

lemma blank_screen: "gs_pages s = [] \<Longrightarrow> \<not> guide_on_screen s k"
  by (simp add: guide_on_screen_def page_ready_def)

lemma replans_screen:
  assumes "replans o' s s1" "guide_config_ok o'" "guide_on_screen s1 k"
  shows "shown s1 k = shown s k"
  using assms plan_screen(2) unfolding replans_def by metis

lemma reset_screen:
  assumes base: "sound_base o' s" and config: "guide_config_ok o'"
  shows "\<not> guide_on_screen (gs_reset o' s) k"
proof -
  obtain s' where s': "gs_reset o' s = gs_plan o' s'" "gs_pages s' = []" "plan_ready o' s'" using reset_plans [OF base] by blast
  show ?thesis
  proof (cases "active s'")
    case True
    have "\<not> page_ready s' (fst k)" using s'(2) by (simp add: page_ready_def)
    then show ?thesis unfolding s'(1) using plan_screen(1) [OF s'(3) config True] by blast
  next
    case False
    then have "gs_plan o' s' = s'" by (intro plan_idle) (auto simp: active_def)
    then show ?thesis unfolding s'(1) using blank_screen [OF s'(2)] by simp
  qed
qed

section \<open>Operations\<close>

lemma readings_shown: "shown (fst (channelAt o' row s)) k = shown s k" "shown (fst (programsFor o' row start stop s)) k = shown s k"
proof -
  have tile: "shown (use_tile j s) k = shown s k" for j s by (rule touched_shows [OF touched_use(2) [OF touched_refl]])
  show channel: "shown (fst (channelAt o' row s)) k = shown s k"
    by (simp add: channelAt_def Let_def touched_shows [OF touched_use(1) [OF touched_refl]] split: option.split)
  have "shown (fst (merge_blocks p channel start stop bs s)) k = shown s k" for p channel bs s
    by (induction bs arbitrary: s) (simp_all add: Let_def case_prod_beta tile split: option.split)
  then show "shown (fst (programsFor o' row start stop s)) k = shown s k"
    using channel by (auto simp: programsFor_def case_prod_beta split: option.split)
qed

lemma viewport_screen:
  assumes ok: "store_ok o' s" and config: "guide_config_ok o'" and on: "guide_on_screen (setViewport o' v s) k"
  shows "shown (setViewport o' v s) k = shown s k"
proof (cases "gs_disposed s")
  case False
  then have set: "setViewport o' v s = gs_plan o' (s\<lparr>gs_viewport := Some v\<rparr>)" by (simp add: setViewport_def)
  have "active (s\<lparr>gs_viewport := Some v\<rparr>)" using False by (simp add: active_def)
  then have "shown (setViewport o' v s) k = shown (s\<lparr>gs_viewport := Some v\<rparr>) k"
    using on unfolding set by (intro plan_screen(2) [OF viewport_ready(1) [OF ok] config])
  then show ?thesis by (simp add: shown_def)
qed (simp add: setViewport_def)

lemma planned_screen:
  assumes "plan_ready o' s'" "guide_config_ok o'" "active s' = active s" "\<not> active s \<Longrightarrow> gs_plan o' s' = s'" "shown s' k = shown s k" "guide_on_screen (gs_plan o' s') k"
  shows "shown (gs_plan o' s') k = shown s k"
  using assms plan_screen(2) by (cases "active s") metis+

lemma retry_screen:
  assumes ok: "store_ok o' s" and config: "guide_config_ok o'" and on: "guide_on_screen (gs_retry o' s) k"
  shows "shown (gs_retry o' s) k = shown s k"
  unfolding gs_retry_def
proof (rule planned_screen [OF _ config])
  have kept: "retry_kept o' s (retry_tiles (retry_pages s))" by (rule retry_all_kept [OF ok])
  then show "plan_ready o' (retry_tiles (retry_pages s))" and same: "active (retry_tiles (retry_pages s)) = active s" unfolding retry_kept_def by blast+
  show "gs_plan o' (retry_tiles (retry_pages s)) = retry_tiles (retry_pages s)" if "\<not> active s"
    using same that by (intro plan_idle) (auto simp: active_def)
qed (use on in \<open>simp_all add: retry_shown gs_retry_def\<close>)

lemma invalidate_screen:
  assumes ok: "store_ok o' s" and config: "guide_config_ok o'" and on: "guide_on_screen (gs_invalidate o' s) k"
  shows "shown (gs_invalidate o' s) k = shown s k"
  unfolding invalidate_plans
proof (rule planned_screen [OF renewed_ready [OF store_parts(1) [OF ok]] config])
  have "map_wf (gs_tiles s)" using store_parts(1) [OF ok] unfolding plan_ready_def res_ok_def by blast
  then show "shown (renewed s) k = shown s k" by (rule renewed_shown)
  show "gs_plan o' (renewed s) = renewed s" if "\<not> active s" using that by (intro plan_idle) (auto simp: renewed_frame active_def)
qed (use on in \<open>simp_all add: renewed_frame invalidate_plans\<close>)

section \<open>Answers and ends\<close>

lemma changed_tiles: "gs_tiles (gs_changed page s) = gs_tiles s"
  using core_partD(2) [OF changed_core] .

lemma later_tiles: "gs_tiles (snd (retryLater o' n a s)) = gs_tiles s"
  by (simp add: retryLater_def set_timer_eq)

lemma page_refused_tiles: "page_refused o' delay p r generation e s = gs_reset o' s \<or> gs_tiles (page_refused o' delay p r generation e s) = gs_tiles s"
proof (cases "map_of (gs_pages s) p")
  case (Some page)
  show ?thesis
    unfolding page_refused_def Some option.case Let_def set_timer_eq prod.case case_prod_beta
    by (auto simp: changed_tiles later_tiles split: option.split)
qed (simp add: page_refused_def)

lemma page_refused_screen:
  assumes base: "sound_base o' s" and config: "guide_config_ok o'" and on: "guide_on_screen (page_refused o' delay p r generation e s) k"
  shows "shown (page_refused o' delay p r generation e s) k = shown s k"
  using page_refused_tiles [of o' delay p r generation e s] reset_screen [OF base config] on unfolding shown_def by metis

lemma put_tile_shown: "tile_at s j tile \<Longrightarrow> ti_data tile' = ti_data tile \<Longrightarrow> gs_tiles b = gs_tiles s \<Longrightarrow> shown (put_tile j tile' b) k = shown s k"
  by (cases "k = j") (simp_all add: shown_def map_of_map_set)

lemma put_twice_shown:
  assumes "tile_at s j tile" "ti_data tile' = ti_data tile" "gs_tiles b = map_set j tile0 (gs_tiles s)"
  shows "shown (put_tile j tile' b) k = shown s k"
  using assms by (cases "k = j") (simp_all add: shown_def map_of_map_set)

lemma shown_same: "gs_tiles b = gs_tiles s \<Longrightarrow> shown b k = shown s k"
  by (simp add: shown_def)

lemma tile_refused_shown: "shown (tile_refused o' delay j r e s) k = shown s k"
proof (cases "map_of (gs_tiles s) j")
  case (Some tile)
  let ?tile2 = "tile\<lparr>ti_controller := False, ti_attempts := ti_attempts tile + 1, ti_status := Entry_error\<rparr>"
  let ?s1 = "gs_changed (Some (fst j)) (put_tile j ?tile2 s)"
  have first: "shown (put_tile j (tile\<lparr>ti_controller := False, ti_attempts := ti_attempts tile + 1, ti_timer := i\<rparr>) (with_timer ms a s)) k = shown s k" for i ms a
    by (rule put_tile_shown [OF Some]) simp_all
  have later: "gs_tiles (snd (retryLater o' n a ?s1)) = map_set j ?tile2 (gs_tiles s)" for n a unfolding later_tiles changed_tiles by simp
  have none: "shown (snd (retryLater o' n a ?s1)) k = shown s k" for n a
  proof -
    have "shown (snd (retryLater o' n a ?s1)) k = shown (put_tile j ?tile2 s) k" by (rule shown_same) (simp only: later put_frame)
    also have "\<dots> = shown s k" by (rule put_tile_shown [OF Some]) simp_all
    finally show ?thesis .
  qed
  have timed: "shown (put_tile j (?tile2\<lparr>ti_timer := i\<rparr>) (snd (retryLater o' n a ?s1))) k = shown s k" for i n a
    by (rule put_twice_shown [OF Some _ later]) simp
  show ?thesis
    unfolding tile_refused_def Some option.case Let_def set_timer_eq prod.case case_prod_beta
    using first none timed by (cases "fst (retryLater o' (ti_attempts ?tile2) (Tile_retry j r) ?s1)") simp_all
qed (simp add: tile_refused_def)

lemma finish_screen:
  assumes ok: "store_ok o' s" and q: "q \<in> set (gs_requests s)" "rq_handled q" and on: "guide_on_screen (request_finishes o' (rq_ref q) s) k"
  shows "shown (request_finishes o' (rq_ref q) s) k = shown s k"
proof (cases "active s")
  case True
  let ?s = "request_gone (rq_ref q) s"
  have finish: "request_finishes o' (rq_ref q) s = gs_pump o' ?s" by (simp add: request_finishes_def request_gone_def)
  have ready: "pump_ready o' ?s" by (rule request_gone_ready [OF ok q True])
  have "guide_on_screen ?s k" using on pump_ready_pump [OF ready] unfolding finish guide_on_screen_def entries_kept_def by metis
  then show ?thesis unfolding finish using pump_shows [OF ready] by (simp add: shown_def)
next
  case False
  then have "gs_queue s = []" using store_idle [OF ok] by blast
  then have "request_finishes o' (rq_ref q) s = request_gone (rq_ref q) s"
    unfolding request_finishes_def request_gone_def by (subst gs_pump.simps) simp
  then show ?thesis by (simp add: shown_def)
qed

definition brings :: "guide_event \<Rightarrow> tile_key \<Rightarrow> bool" where
  "brings e k \<longleftrightarrow> (\<exists>data q. e = Answer (Tile_arrives data) q \<and> rq_task q = Tile_task (fst k) (snd k))"

lemma answer_screen:
  assumes ok: "store_ok o' s" and config: "guide_config_ok o'" and q: "q \<in> set (gs_requests s)" "\<not> rq_handled q" "answer_fits (rq_task q) answer"
    and other: "\<not> brings (Answer answer q) k" and on: "guide_on_screen (request_answers o' delay answer q s) k"
  shows "shown (request_answers o' delay answer q s) k = shown s k"
proof (cases "waits s q")
  case False
  then show ?thesis by (simp add: request_unawaited shown_def)
next
  case True
  let ?s = "request_handled (rq_ref q) s"
  have live: "\<not> rq_aborted q" using True unfolding waits_def by blast
  have base: "sound_base o' ?s" using store_base [OF ok] books_handled unfolding sound_base_def timers_ok_def by simp
  have same: "shown ?s k = shown s k" by (simp add: shown_def)
  show ?thesis
  proof (cases "rq_task q")
    case (Page_task p)
    show ?thesis
    proof (cases answer)
      case (Page_arrives items total')
      obtain page where awaits: "awaits_page s p page (rq_ref q)"
        using awaited_page [OF ok q(1,2) True Page_task] unfolding awaits_page_def by blast
      obtain s' where s': "page_answered o' p (rq_ref q) items total' ?s = gs_plan o' s'" "gs_tiles s' = gs_tiles s" "plan_ready o' s'" "active s'"
        using page_arrives_plans [OF ok awaits] by blast
      have answers: "request_answers o' delay answer q s = gs_plan o' s'" using s'(1) live by (simp add: request_answers_def Page_task Page_arrives)
      have "shown (gs_plan o' s') k = shown s' k" by (rule plan_screen(2) [OF s'(3) config s'(4)]) (use on answers in simp)
      then show ?thesis unfolding answers using s'(2) by (simp add: shown_def)
    next
      case (Request_fails e)
      then have "request_answers o' delay answer q s = page_refused o' delay p (rq_ref q) (rq_generation q) e ?s" using live by (simp add: request_answers_def Page_task)
      then show ?thesis using page_refused_screen [OF base config] on same by simp
    qed (use q(3) Page_task in simp)
  next
    case (Tile_task p b)
    show ?thesis
    proof (cases answer)
      case (Tile_arrives data)
      have "k \<noteq> (p, b)" using other Tile_task Tile_arrives by (auto simp: brings_def)
      then show ?thesis
        using live by (simp add: request_answers_def Tile_task Tile_arrives tile_answered_def shown_def gs_changed_def put_tile_def Let_def map_of_map_set split: option.split)
    next
      case (Request_fails e)
      then show ?thesis using live same by (simp add: request_answers_def Tile_task tile_refused_shown)
    qed (use q(3) Tile_task in simp)
  qed
qed

lemma event_screen:
  assumes ok: "store_ok o' s" and config: "guide_config_ok o'" and enabled: "event_enabled s e" and other: "\<not> brings e k"
    and on: "guide_on_screen (event_result o' delay e s) k"
  shows "shown (event_result o' delay e s) k = shown s k"
proof (cases e)
  case (Answer answer q)
  then show ?thesis using answer_screen [OF ok config _ _ _ other [unfolded Answer]] enabled on by simp
next
  case (Finish q)
  then show ?thesis using finish_screen [OF ok] enabled on by simp
next
  case (Fire t)
  then show ?thesis using replans_screen [OF guide_timer_replans [OF ok] config] enabled on by simp
next
  case Start_over
  then show ?thesis using reset_screen [OF store_base [OF ok] config] on by simp
next
  case Dispose_store
  have "sound_base o' (s\<lparr>gs_disposed := True, gs_listeners := [], gs_pageListeners := []\<rparr>)"
    using store_base [OF ok] by (simp add: sound_base_def guide_books_ok_def timers_ok_def)
  then show ?thesis using Dispose_store on reset_screen [OF _ config] by (simp add: gs_dispose_def)
qed (use on in \<open>simp_all add: viewport_screen [OF ok config] retry_screen [OF ok config] invalidate_screen [OF ok config] readings_shown,
    simp_all add: shown_def gs_subscribe_def gs_unsubscribe_def gs_subscribePage_def gs_unsubscribePage_def\<close>)

end
