(* ===== verification/Guide_Store_Properties.thy ===== *)
theory Guide_Store_Properties
  imports Guide_Screen
begin

text \<open>What the guide store promises in every state it reaches, and an example run of the machine.\<close>

section \<open>An example run\<close>

text \<open>One page of one channel, one block, one request at a time.\<close>

definition example_guide :: guide_config where
  "example_guide = \<lparr>go_pageSize = 1, go_blockMs = 1, go_maxChannelPages = 2, go_maxTiles = 2, go_maxInFlight = 1, go_marginPages = 0, go_marginBlocks = 0, go_retryMs = []\<rparr>"

definition example_row :: guide_channel_row where
  "example_row = \<lparr>gr_id = ''c'', gr_sourceId = None, gr_kind = Live_channel, gr_number = ''1'', gr_name = ''c'', gr_group = '''', gr_logoUrl = None, gr_mark = None,
     gr_favorite = False, gr_tuneAvailable = True, gr_tuneUnavailableReason = None, gr_recordAvailable = False, gr_guide = Guide_full, gr_native = None\<rparr>"

definition page_call :: guide_request where
  "page_call = \<lparr>rq_ref = 0, rq_task = Page_task 0, rq_ids = [], rq_generation = 0, rq_aborted = False, rq_handled = False\<rparr>"

definition tile_call :: guide_request where
  "tile_call = \<lparr>rq_ref = 1, rq_task = Tile_task 0 0, rq_ids = [''c''], rq_generation = 0, rq_aborted = False, rq_handled = False\<rparr>"

definition guide_opened :: guide_store where
  "guide_opened = event_result example_guide (\<lambda>e n. 0) (Set_viewport \<lparr>vp_firstRow = 0, vp_lastRow = 0, vp_start = 0, vp_end = 1\<rparr>) new_guide_store"

definition page_brought :: guide_store where
  "page_brought = event_result example_guide (\<lambda>e n. 0) (Answer (Page_arrives [example_row] 1) page_call) guide_opened"

definition tile_asked :: guide_store where
  "tile_asked = event_result example_guide (\<lambda>e n. 0) (Finish (page_call\<lparr>rq_handled := True\<rparr>)) page_brought"

definition tile_brought :: guide_store where
  "tile_brought = event_result example_guide (\<lambda>e n. 0) (Answer (Tile_arrives [(''c'', [])]) tile_call) tile_asked"

lemma page_ready_code [code]: "page_ready s p \<longleftrightarrow> (case map_of (gs_pages s) p of None \<Rightarrow> False | Some page \<Rightarrow> pg_status page = Entry_ready)"
  by (simp add: page_ready_def split: option.split)

lemma example_config_ok: "guide_config_ok example_guide"
  by (simp add: guide_config_ok_def example_guide_def)

lemma example_enabled:
  "event_enabled guide_opened (Answer (Page_arrives [example_row] 1) page_call)"
  "event_enabled page_brought (Finish (page_call\<lparr>rq_handled := True\<rparr>))"
  "event_enabled tile_asked (Answer (Tile_arrives [(''c'', [])]) tile_call)"
  "event_enabled tile_brought (Finish (tile_call\<lparr>rq_handled := True\<rparr>))"
  by code_simp+

lemma example_reached: "guide_reach example_guide (\<lambda>e n. 0) tile_brought"
proof -
  have "guide_reach example_guide (\<lambda>e n. 0) guide_opened" unfolding guide_opened_def by (intro reach_step reach_new) simp
  then have "guide_reach example_guide (\<lambda>e n. 0) page_brought" unfolding page_brought_def by (rule reach_step [OF _ example_enabled(1)])
  then have "guide_reach example_guide (\<lambda>e n. 0) tile_asked" unfolding tile_asked_def by (rule reach_step [OF _ example_enabled(2)])
  then show ?thesis unfolding tile_brought_def by (rule reach_step [OF _ example_enabled(3)])
qed

lemma example_shows:
  "gs_disposed tile_brought = False" "gs_viewport tile_brought \<noteq> None" "guide_on_screen tile_brought (0, 0)" "gs_requests tile_brought \<noteq> []"
  "guide_on_screen (event_result example_guide (\<lambda>e n. 0) (Finish (tile_call\<lparr>rq_handled := True\<rparr>)) tile_brought) (0, 0)"
  "shown tile_brought (0, 0) = Some [(''c'', [])]"
  by code_simp+

section \<open>Nothing is forgotten\<close>

lemma viewport_interest:
  assumes ok: "store_ok o' s" and config: "guide_config_ok o'" and live: "\<not> gs_disposed s"
  shows "gs_interestPages (setViewport o' v s) = planned_pages o' v s"
    "gs_interestTiles (setViewport o' v s) = List.product (planned_pages o' v s) (planned_blocks o' v)"
proof -
  have same: "planned_pages o' v (s\<lparr>gs_viewport := Some v\<rparr>) = planned_pages o' v s" by (simp add: planned_pages_def visiblePages_def lastPage_def)
  show "gs_interestPages (setViewport o' v s) = planned_pages o' v s"
    "gs_interestTiles (setViewport o' v s) = List.product (planned_pages o' v s) (planned_blocks o' v)"
    using plan_interest(1,2) [OF viewport_ready(1) [OF ok] config, of v] live by (simp_all add: setViewport_def same)
qed

text \<open>C2. Nothing the viewport wants is forgotten, in every state the store reaches. A new viewport makes the
  store interested in exactly the pages and blocks around it. Every such page is loaded, on its way (queued,
  asked of the source by a request whose answer will be used, or held by a timer that will ask again), or was
  refused more often than the retry delays allow; every tile of a loaded page likewise; and while something
  is queued, every slot for requests is used.\<close>

theorem guide_nothing_forgotten:
  assumes "guide_reach o' delay s" "guide_config_ok o'" "\<not> gs_disposed s" "gs_viewport s \<noteq> None"
  shows "(\<forall>p \<in> set (gs_interestPages s). page_coming o' s p)
    \<and> (\<forall>k \<in> set (gs_interestTiles s). page_ready s (fst k) \<longrightarrow> tile_coming o' s k)
    \<and> (gs_queue s \<noteq> [] \<longrightarrow> int (length (gs_requests s)) = go_maxInFlight o')
    \<and> (\<forall>v. gs_interestPages (setViewport o' v s) = planned_pages o' v s
         \<and> gs_interestTiles (setViewport o' v s) = List.product (planned_pages o' v s) (planned_blocks o' v))"
proof -
  have ok: "store_ok o' s" by (rule reach_ok [OF assms(1,2)])
  have ready: "pump_ready o' s" "saturated o' s" using store_active [OF ok] assms(3,4) by (simp_all add: active_def)
  have books: "gs_inFlight s = int (length (gs_requests s))" "gs_inFlight s \<le> go_maxInFlight o'"
    using store_parts(3,4) [OF ok] unfolding guide_books_ok_def by blast+
  show ?thesis
    using served_page [OF ready(1)] served_tile [OF ready(1)] ready(2) books viewport_interest [OF ok assms(2,3)] assms(3)
    unfolding saturated_def by auto
qed

theorem guide_nothing_forgotten_witness:
  "page_coming example_guide tile_brought 0 \<and> tile_coming example_guide tile_brought (0, 0)"
  using guide_nothing_forgotten [OF example_reached example_config_ok] example_shows(1-3) by (auto simp: guide_on_screen_def)

section \<open>Limits\<close>

lemma live_requests_differ:
  assumes books: "guide_books_ok s" and q: "q \<in> set (gs_requests s)" "q' \<in> set (gs_requests s)" "waits s q" "waits s q'" "rq_task q = rq_task q'"
  shows "q = q'"
proof -
  have "rq_ref q = rq_ref q'" using q(3-5) by (auto simp: waits_def split: guide_task.splits)
  then show ?thesis using books q(1,2) unfolding guide_books_ok_def distinct_map by (auto dest: inj_onD)
qed

text \<open>C5. The store keeps its limits in every state it reaches: never more requests at once than allowed, and
  exactly as many are counted as are open; never more pages or tiles than the caps, unless the viewport itself
  wants more; nothing at all without a viewport or once disposed; no task queued twice, and no two requests whose
  answers will be used for the same page or tile.\<close>

theorem guide_within_limits:
  assumes "guide_reach o' delay s" "guide_config_ok o'"
  shows "int (length (gs_requests s)) \<le> go_maxInFlight o' \<and> gs_inFlight s = int (length (gs_requests s))
    \<and> int (length (gs_pages s)) \<le> max (go_maxChannelPages o') (int (card (set (gs_interestPages s))))
    \<and> int (length (gs_tiles s)) \<le> max (go_maxTiles o') (int (card (set (gs_interestTiles s))))
    \<and> (gs_disposed s \<or> gs_viewport s = None \<longrightarrow> gs_pages s = [] \<and> gs_tiles s = [] \<and> gs_queue s = [])
    \<and> distinct (gs_queue s)
    \<and> (\<forall>q \<in> set (gs_requests s). \<forall>q' \<in> set (gs_requests s). waits s q \<and> waits s q' \<and> rq_task q = rq_task q' \<longrightarrow> q = q')"
proof -
  have ok: "store_ok o' s" by (rule reach_ok [OF assms])
  have books: "guide_books_ok s" "gs_inFlight s \<le> go_maxInFlight o'" by (rule store_parts [OF ok])+
  have caps: "caps_ok o' s"
    using store_active [OF ok] store_idle [OF ok] by (cases "active s") (auto simp: pump_ready_def caps_ok_def)
  have queue: "queue_ok s" using store_parts(1) [OF ok] unfolding plan_ready_def by blast
  show ?thesis
    using books caps queue live_requests_differ [OF books(1)] store_idle [OF ok]
    unfolding caps_ok_def queue_ok_def guide_books_ok_def active_def by auto
qed

theorem guide_within_limits_witness:
  "int (length (gs_requests tile_brought)) \<le> go_maxInFlight example_guide"
  using guide_within_limits [OF example_reached example_config_ok] by blast

section \<open>Programs stay\<close>

text \<open>C9. Programs on the screen stay there: whatever happens to the store (a refusal by the source, a retry, a
  new generation, another viewport, an eviction, the end of a request), a tile that is still wanted afterwards
  on a loaded page shows what it showed before. Only an answer for that very tile changes what it shows.\<close>

theorem guide_keeps_programs:
  assumes "guide_reach o' delay s" "guide_config_ok o'" "event_enabled s e" "\<not> brings e k"
    and "guide_on_screen (event_result o' delay e s) k"
  shows "shown (event_result o' delay e s) k = shown s k"
  by (rule event_screen [OF reach_ok [OF assms(1,2)] assms(2-5)])

theorem guide_keeps_programs_witness:
  "shown (event_result example_guide (\<lambda>e n. 0) (Finish (tile_call\<lparr>rq_handled := True\<rparr>)) tile_brought) (0, 0) = Some [(''c'', [])]"
  using guide_keeps_programs [OF example_reached example_config_ok example_enabled(4) _ example_shows(5)] example_shows(6)
  by (simp add: brings_def)

end
