(* ===== verification/Playback_Identity.thy ===== *)
theory Playback_Identity
  imports JS_Result
begin

text \<open>
  What a playback is (\<open>packages/player-core/src/identity.ts\<close>, \<open>local-playback-identity.ts\<close>, \<open>validation.ts\<close> and
  the scope of \<open>queues.ts\<close>): the fence of a queue occurrence, of a channel, or of a downloaded file. Fences are
  values of their declared types, so only the tests that such a value can fail are written; copying and
  freezing a value gives the value.
\<close>

section \<open>Tests\<close>

datatype player_state_error = Invalid_player_state

definition absent_or :: "('a \<Rightarrow> bool) \<Rightarrow> 'a option \<Rightarrow> bool" where
  "absent_or ok v = (case v of None \<Rightarrow> True | Some x \<Rightarrow> ok x)"

definition wireId :: "string \<Rightarrow> bool" where
  "wireId s \<longleftrightarrow> sizedWithin 1 128 s \<and> list_all is_word_char s"

definition queueOccurrenceId :: "string \<Rightarrow> bool" where
  "queueOccurrenceId s \<longleftrightarrow> sizedWithin 1 128 s \<and> list_all (\<lambda>c. is_word_char c \<or> c = CHR ''.'') s"

definition seconds_ok :: "js_num \<Rightarrow> bool" where
  "seconds_ok n = (case n of Fin r \<Rightarrow> 0 \<le> r \<and> r \<le> 1000000000 | _ \<Rightarrow> False)"

definition clockMs :: "js_num \<Rightarrow> player_state_error + int" where
  "clockMs n = (if isSafeInteger n \<and> 0 \<le> int_of n then Inr (int_of n) else Inl Invalid_player_state)"

definition positive_integer :: "js_num \<Rightarrow> bool" where
  "positive_integer n \<longleftrightarrow> isSafeInteger n \<and> 1 \<le> int_of n"

text \<open>\<open>counter\<close> of \<open>validation.ts\<close>: a decimal numeral below 2 to the 63.\<close>

definition counter_ok :: "string \<Rightarrow> bool" where
  "counter_ok s \<longleftrightarrow> s \<noteq> [] \<and> list_all is_digit s \<and> (s = ''0'' \<or> hd s \<noteq> CHR ''0'' \<and> length s \<le> 19) \<and> int (numeral_value s) \<le> 9223372036854775807"

section \<open>Identities\<close>

datatype session_authority = Local_session | Hosted_session

record queue_scope =
  sc_serverId :: string
  sc_authority :: session_authority
  sc_accountId :: string
  sc_profileId :: string
  sc_controllerId :: string
  sc_controllerEpoch :: string
  sc_commandLaneId :: string

definition queueScope :: "queue_scope \<Rightarrow> player_state_error + queue_scope" where
  "queueScope v =
     (if list_all wireId [sc_serverId v, sc_accountId v, sc_profileId v, sc_controllerId v, sc_controllerEpoch v, sc_commandLaneId v]
      then Inr v else Inl Invalid_player_state)"

definition sameScope :: "queue_scope \<Rightarrow> queue_scope \<Rightarrow> bool" where
  "sameScope a b \<longleftrightarrow> sc_serverId a = sc_serverId b \<and> sc_authority a = sc_authority b \<and> sc_accountId a = sc_accountId b \<and> sc_profileId a = sc_profileId b
     \<and> sc_controllerId a = sc_controllerId b \<and> sc_controllerEpoch a = sc_controllerEpoch b \<and> sc_commandLaneId a = sc_commandLaneId b"

record playback_identity =
  pi_scope :: queue_scope
  pi_run :: js_num

record local_scope =
  ls_serverId :: string
  ls_authority :: session_authority
  ls_accountId :: string
  ls_profileId :: string
  ls_sessionFamilyId :: string

record local_identity =
  li_scope :: local_scope
  li_run :: js_num

definition playbackIdentity :: "playback_identity \<Rightarrow> player_state_error + playback_identity" where
  "playbackIdentity v =
     and_then (require Invalid_player_state (positive_integer (pi_run v))) (\<lambda>_.
     and_then (queueScope (pi_scope v)) (\<lambda>scope. Inr \<lparr>pi_scope = scope, pi_run = pi_run v\<rparr>))"

definition localPlaybackScope :: "local_scope \<Rightarrow> player_state_error + local_scope" where
  "localPlaybackScope v =
     (if list_all wireId [ls_serverId v, ls_accountId v, ls_profileId v, ls_sessionFamilyId v] then Inr v else Inl Invalid_player_state)"

definition localPlaybackIdentity :: "local_identity \<Rightarrow> player_state_error + local_identity" where
  "localPlaybackIdentity v =
     and_then (require Invalid_player_state (positive_integer (li_run v))) (\<lambda>_.
     and_then (localPlaybackScope (li_scope v)) (\<lambda>scope. Inr \<lparr>li_scope = scope, li_run = li_run v\<rparr>))"

definition sameLocalScope :: "local_scope \<Rightarrow> local_scope \<Rightarrow> bool" where
  "sameLocalScope a b \<longleftrightarrow> ls_serverId a = ls_serverId b \<and> ls_authority a = ls_authority b \<and> ls_accountId a = ls_accountId b \<and> ls_profileId a = ls_profileId b
     \<and> ls_sessionFamilyId a = ls_sessionFamilyId b"

section \<open>Fences\<close>

record queue_fence =
  qf_playback :: playback_identity
  qf_sessionId :: string
  qf_itemId :: string
  qf_sourceId :: string
  qf_entryId :: string
  qf_showId :: "string option"
  qf_seasonId :: "string option"
  qf_generation :: js_num

datatype channel_reference = Live_source | Library_channel

record channel_fence =
  cf_playback :: playback_identity
  cf_sessionId :: string
  cf_channelId :: string
  cf_channelGeneration :: string
  cf_channelKind :: channel_reference
  cf_sourceId :: "string option"
  cf_generation :: js_num

record local_fence =
  lf_playback :: local_identity
  lf_sessionId :: string
  lf_itemId :: string
  lf_entryId :: string
  lf_playId :: string
  lf_sha256 :: string
  lf_bytes :: js_num
  lf_generation :: js_num

datatype playback_fence = Queue_fence queue_fence | Channel_fence channel_fence | Local_fence local_fence

definition local_session_ok :: "string \<Rightarrow> string \<Rightarrow> bool" where
  "local_session_ok sessionId entryId =
     (let prefix = ''local:'' @ entryId @ '':''; suffix = drop (length prefix) sessionId
      in take (length prefix) sessionId = prefix \<and> sizedWithin 1 16 suffix \<and> list_all is_digit suffix \<and> hd suffix \<noteq> CHR ''0''
         \<and> int (numeral_value suffix) \<le> MAX_SAFE_INTEGER)"

definition localPlaybackFence :: "local_fence \<Rightarrow> player_state_error + local_fence" where
  "localPlaybackFence v =
     and_then (require Invalid_player_state (wireId (lf_entryId v) \<and> wireId (lf_itemId v) \<and> wireId (lf_playId v) \<and> positive_integer (lf_generation v)
       \<and> local_session_ok (lf_sessionId v) (lf_entryId v)
       \<and> length (lf_sha256 v) = 64 \<and> list_all is_lower_hex (lf_sha256 v) \<and> positive_integer (lf_bytes v))) (\<lambda>_.
     and_then (localPlaybackIdentity (lf_playback v)) (\<lambda>playback. Inr (v\<lparr>lf_playback := playback\<rparr>)))"

definition queuePlaybackFence :: "queue_fence \<Rightarrow> player_state_error + queue_fence" where
  "queuePlaybackFence v =
     and_then (require Invalid_player_state (wireId (qf_sessionId v) \<and> positive_integer (qf_generation v))) (\<lambda>_.
     and_then (playbackIdentity (qf_playback v)) (\<lambda>playback.
     and_then (require Invalid_player_state (wireId (qf_itemId v) \<and> wireId (qf_sourceId v) \<and> queueOccurrenceId (qf_entryId v)
       \<and> absent_or wireId (qf_showId v) \<and> absent_or wireId (qf_seasonId v))) (\<lambda>_. Inr (v\<lparr>qf_playback := playback\<rparr>))))"

definition channelPlaybackFence :: "channel_fence \<Rightarrow> player_state_error + channel_fence" where
  "channelPlaybackFence v =
     and_then (require Invalid_player_state (wireId (cf_sessionId v) \<and> positive_integer (cf_generation v))) (\<lambda>_.
     and_then (playbackIdentity (cf_playback v)) (\<lambda>playback.
     and_then (require Invalid_player_state (wireId (cf_channelId v) \<and> wireId (cf_channelGeneration v)
       \<and> (case cf_channelKind v of
            Live_source \<Rightarrow> (case cf_sourceId v of Some i \<Rightarrow> wireId i | None \<Rightarrow> False)
          | Library_channel \<Rightarrow> (case cf_sourceId v of Some i \<Rightarrow> i = [] \<or> i = cf_channelId v | None \<Rightarrow> True)))) (\<lambda>_.
     Inr (v\<lparr>cf_playback := playback\<rparr>))))"

fun playbackFence :: "playback_fence \<Rightarrow> player_state_error + playback_fence" where
  "playbackFence (Local_fence v) = and_then (localPlaybackFence v) (\<lambda>f. Inr (Local_fence f))"
| "playbackFence (Queue_fence v) = and_then (queuePlaybackFence v) (\<lambda>f. Inr (Queue_fence f))"
| "playbackFence (Channel_fence v) = and_then (channelPlaybackFence v) (\<lambda>f. Inr (Channel_fence f))"

text \<open>\<open>samePlayback\<close>, on two identities of the same kind.\<close>

definition samePlayback :: "playback_identity \<Rightarrow> playback_identity \<Rightarrow> bool" where
  "samePlayback a b \<longleftrightarrow> pi_run a = pi_run b \<and> sameScope (pi_scope a) (pi_scope b)"

definition sameLocalPlayback :: "local_identity \<Rightarrow> local_identity \<Rightarrow> bool" where
  "sameLocalPlayback a b \<longleftrightarrow> li_run a = li_run b \<and> sameLocalScope (li_scope a) (li_scope b)"

definition same_queue_fence :: "queue_fence \<Rightarrow> queue_fence \<Rightarrow> bool" where
  "same_queue_fence a b \<longleftrightarrow> samePlayback (qf_playback a) (qf_playback b) \<and> qf_sessionId a = qf_sessionId b \<and> qf_generation a = qf_generation b
     \<and> qf_sourceId a = qf_sourceId b \<and> qf_itemId a = qf_itemId b \<and> qf_entryId a = qf_entryId b"

definition same_channel_fence :: "channel_fence \<Rightarrow> channel_fence \<Rightarrow> bool" where
  "same_channel_fence a b \<longleftrightarrow> samePlayback (cf_playback a) (cf_playback b) \<and> cf_sessionId a = cf_sessionId b \<and> cf_generation a = cf_generation b
     \<and> cf_sourceId a = cf_sourceId b \<and> cf_channelKind a = cf_channelKind b \<and> cf_channelId a = cf_channelId b \<and> cf_channelGeneration a = cf_channelGeneration b"

definition same_local_fence :: "local_fence \<Rightarrow> local_fence \<Rightarrow> bool" where
  "same_local_fence a b \<longleftrightarrow> sameLocalPlayback (lf_playback a) (lf_playback b) \<and> lf_sessionId a = lf_sessionId b \<and> lf_generation a = lf_generation b
     \<and> lf_itemId a = lf_itemId b \<and> lf_entryId a = lf_entryId b \<and> lf_playId a = lf_playId b \<and> lf_sha256 a = lf_sha256 b \<and> lf_bytes a = lf_bytes b"

fun sameFence :: "playback_fence option \<Rightarrow> playback_fence \<Rightarrow> bool" where
  "sameFence (Some (Queue_fence a)) (Queue_fence b) = same_queue_fence a b"
| "sameFence (Some (Channel_fence a)) (Channel_fence b) = same_channel_fence a b"
| "sameFence (Some (Local_fence a)) (Local_fence b) = same_local_fence a b"
| "sameFence _ _ = False"

section \<open>Fences as an equivalence\<close>

lemma queueScope_id: "queueScope v = Inr w \<Longrightarrow> w = v"
  by (simp add: queueScope_def split: if_splits)

lemma playbackIdentity_id: "playbackIdentity v = Inr w \<Longrightarrow> w = v"
  by (auto simp: playbackIdentity_def result_simps split: if_splits dest: queueScope_id)

lemma queuePlaybackFence_id: "queuePlaybackFence v = Inr w \<Longrightarrow> w = v"
  by (auto simp: queuePlaybackFence_def result_simps split: if_splits dest: playbackIdentity_id)

lemma same_queue_fence_refl [simp]: "same_queue_fence a a"
  by (simp add: same_queue_fence_def samePlayback_def sameScope_def)

lemma same_queue_fence_sym: "same_queue_fence a b \<Longrightarrow> same_queue_fence b a"
  by (simp add: same_queue_fence_def samePlayback_def sameScope_def)

lemma same_queue_fence_trans: "same_queue_fence a b \<Longrightarrow> same_queue_fence b c \<Longrightarrow> same_queue_fence a c"
  by (simp add: same_queue_fence_def samePlayback_def sameScope_def)

end
