(* ===== verification/Playback_Segments.thy ===== *)
theory Playback_Segments
  imports Playback_Identity
begin

text \<open>
  Segments of a title and the offer of the next one (\<open>packages/player-core/src/segment-markers.ts\<close>,
  \<open>segment-skip.ts\<close>, \<open>up-next.ts\<close>). Positions and durations are finite numbers of seconds.
\<close>

section \<open>Markers\<close>

text \<open>\<open>sm_kind\<close> is the value itself: the check reads its text, \<open>String(v.kind)\<close>.\<close>

record segment_marker =
  sm_id :: string
  sm_kind :: jsval
  sm_start :: rat
  sm_end :: rat
  sm_automaticSafe :: bool

definition segment_kinds :: "string list" where
  "segment_kinds = [''intro'', ''recap'', ''credits'', ''commercial'', ''outro'']"

definition marker_id :: "jsval \<Rightarrow> bool" where
  "marker_id v = (case v of JStr s \<Rightarrow> sizedWithin 1 256 s \<and> list_all is_word_char s | _ \<Rightarrow> False)"

definition marker_seconds :: "jsval \<Rightarrow> bool" where
  "marker_seconds v = (case v of JNum n \<Rightarrow> seconds_ok n | _ \<Rightarrow> False)"

definition rat_of_num :: "js_num \<Rightarrow> rat" where
  "rat_of_num n = (case n of Fin r \<Rightarrow> r | _ \<Rightarrow> 0)"

definition number_of :: "jsval \<Rightarrow> rat" where
  "number_of v = (case v of JNum n \<Rightarrow> rat_of_num n | _ \<Rightarrow> 0)"

definition marker_ok :: "rat option \<Rightarrow> string list \<Rightarrow> rat \<Rightarrow> jsval \<Rightarrow> bool" where
  "marker_ok duration seen previous v \<longleftrightarrow>
     is_record v \<and> only_keys (obj_of v) [''id'', ''kind'', ''startSeconds'', ''endSeconds'', ''automaticSafe'']
     \<and> marker_id (at_key v ''id'') \<and> str_of (at_key v ''id'') \<notin> set seen
     \<and> string_text (at_key v ''kind'') \<in> Some ` set segment_kinds
     \<and> marker_seconds (at_key v ''startSeconds'') \<and> marker_seconds (at_key v ''endSeconds'')
     \<and> number_of (at_key v ''startSeconds'') < number_of (at_key v ''endSeconds'')
     \<and> previous \<le> number_of (at_key v ''startSeconds'')
     \<and> (case at_key v ''automaticSafe'' of JBool _ \<Rightarrow> True | _ \<Rightarrow> False)
     \<and> (case duration of None \<Rightarrow> True | Some d \<Rightarrow> number_of (at_key v ''endSeconds'') \<le> d + 1 / 1000)"

definition marker_of :: "jsval \<Rightarrow> segment_marker" where
  "marker_of v = \<lparr>sm_id = str_of (at_key v ''id''), sm_kind = at_key v ''kind'', sm_start = number_of (at_key v ''startSeconds''),
     sm_end = number_of (at_key v ''endSeconds''), sm_automaticSafe = (at_key v ''automaticSafe'' = JBool True)\<rparr>"

fun scan_markers :: "rat option \<Rightarrow> string list \<Rightarrow> rat \<Rightarrow> jsval list \<Rightarrow> player_state_error + segment_marker list" where
  "scan_markers duration seen previous [] = Inr []"
| "scan_markers duration seen previous (v # vs) =
     (if marker_ok duration seen previous v
      then and_then (scan_markers duration (sm_id (marker_of v) # seen) (sm_start (marker_of v)) vs) (\<lambda>ms. Inr (marker_of v # ms))
      else Inl Invalid_player_state)"

definition parseSegmentMarkers :: "jsval \<Rightarrow> js_num option \<Rightarrow> player_state_error + segment_marker list" where
  "parseSegmentMarkers raw duration =
     and_then (require Invalid_player_state (is_array raw \<and> length (arr_of raw) \<le> 512
       \<and> (case duration of None \<Rightarrow> True | Some d \<Rightarrow> seconds_ok d \<and> d \<noteq> Fin 0))) (\<lambda>_.
     scan_markers (map_option rat_of_num duration) [] (-1) (arr_of raw))"

section \<open>Skipping\<close>

datatype skip_mode = Skip_ask | Skip_auto | Skip_off

type_synonym skip_modes = "string \<Rightarrow> skip_mode option"

definition SKIP_LEAD_SECONDS :: rat where "SKIP_LEAD_SECONDS = 1"
definition UNDO_SECONDS :: rat where "UNDO_SECONDS = 6"
definition TAIL_SECONDS :: rat where "TAIL_SECONDS = 1 / 2"

definition closingKind :: "jsval \<Rightarrow> bool" where
  "closingKind kind \<longleftrightarrow> kind = JStr ''credits'' \<or> kind = JStr ''outro''"

text \<open>\<open>modes[kind] ?? 'ask'\<close>: a property is read by the text of its key.\<close>

definition mode_of :: "skip_modes \<Rightarrow> jsval \<Rightarrow> skip_mode" where
  "mode_of modes kind = (case Option.bind (string_text kind) modes of None \<Rightarrow> Skip_ask | Some m \<Rightarrow> m)"

definition activeSegment :: "segment_marker list \<Rightarrow> rat \<Rightarrow> skip_modes \<Rightarrow> string list \<Rightarrow> segment_marker option" where
  "activeSegment markers position modes dismissed =
     find (\<lambda>m. sm_start m \<le> position \<and> position < sm_end m - TAIL_SECONDS \<and> sm_id m \<notin> set dismissed \<and> mode_of modes (sm_kind m) \<noteq> Skip_off) markers"

definition skipsAutomatically :: "segment_marker \<Rightarrow> skip_modes \<Rightarrow> bool" where
  "skipsAutomatically m modes \<longleftrightarrow> mode_of modes (sm_kind m) = Skip_auto \<and> sm_automaticSafe m"

text \<open>The duration is an argument the callers have checked, so it is a finite number.\<close>

definition skipTarget :: "segment_marker \<Rightarrow> rat option \<Rightarrow> rat" where
  "skipTarget m duration =
     (if closingKind (sm_kind m) then sm_end m
      else let target = max (sm_start m) (sm_end m - SKIP_LEAD_SECONDS)
           in case duration of Some d \<Rightarrow> if 0 < d then min target d else target | None \<Rightarrow> target)"

definition followedByScene :: "segment_marker \<Rightarrow> rat \<Rightarrow> bool" where
  "followedByScene m duration \<longleftrightarrow> 0 < duration \<and> 3 < duration - sm_end m"

section \<open>The next title\<close>

record up_next_offer =
  uo_id :: string
  uo_marker :: "segment_marker option"

record up_next_input =
  ui_markers :: "segment_marker list"
  ui_position :: rat
  ui_duration :: rat
  ui_kind :: string
  ui_mode :: skip_mode
  ui_nextAvailable :: bool
  ui_passoutDue :: bool

definition closing_markers :: "segment_marker list \<Rightarrow> rat \<Rightarrow> segment_marker list" where
  "closing_markers markers duration = filter (\<lambda>m. closingKind (sm_kind m) \<and> duration / 2 \<le> sm_start m \<and> sm_start m < sm_end m) markers"

definition upNextOffer :: "up_next_input \<Rightarrow> up_next_offer option" where
  "upNextOffer i =
     (if \<not> ui_nextAvailable i \<or> ui_passoutDue i \<or> ui_mode i = Skip_off \<or> \<not> 0 < ui_duration i \<or> \<not> 0 \<le> ui_position i then None
      else let closing = closing_markers (ui_markers i) (ui_duration i)
      in if closing \<noteq> []
         then case find (\<lambda>m. sm_start m \<le> ui_position i \<and> ui_position i < sm_end m - 1 / 2) closing of
                None \<Rightarrow> None
              | Some m \<Rightarrow> if ui_mode i = Skip_auto \<and> sm_automaticSafe m then None
                          else Some \<lparr>uo_id = ''marker:'' @ sm_id m, uo_marker = Some m\<rparr>
         else if ui_kind i = ''episode'' \<and> 600 \<le> ui_duration i \<and> ui_duration i - 30 \<le> ui_position i \<and> ui_position i < ui_duration i - 1
         then Some \<lparr>uo_id = ''tail'', uo_marker = None\<rparr>
         else None)"

record up_next_countdown =
  uc_automatic :: bool
  uc_seconds :: int

record countdown_input =
  ci_offer :: up_next_offer
  ci_position :: rat
  ci_duration :: rat
  ci_rate :: rat
  ci_autoplay :: bool
  ci_countdownSeconds :: rat
  ci_elapsedSeconds :: rat
  ci_startDuringCredits :: bool

definition upNextCountdown :: "countdown_input \<Rightarrow> up_next_countdown option" where
  "upNextCountdown i =
     (if \<not> ci_autoplay i then None
      else let countdown = max 0 (ci_countdownSeconds i)
      in if ci_startDuringCredits i \<and> (case uo_marker (ci_offer i) of None \<Rightarrow> False
              | Some m \<Rightarrow> sm_automaticSafe m \<and> \<not> followedByScene m (ci_duration i))
         then Some \<lparr>uc_automatic = True, uc_seconds = max 0 \<lceil>countdown - ci_elapsedSeconds i\<rceil>\<rparr>
         else let left = max 0 (ci_duration i - ci_position i) / max (1 / 4) (if ci_rate i = 0 then 1 else ci_rate i)
              in Some \<lparr>uc_automatic = False, uc_seconds = \<lceil>left + countdown\<rceil>\<rparr>)"

section \<open>What a parsed list of markers is\<close>

definition markers_wf :: "rat option \<Rightarrow> segment_marker list \<Rightarrow> bool" where
  "markers_wf duration ms \<longleftrightarrow> distinct (List.map sm_id ms) \<and> sorted (List.map sm_start ms)
     \<and> (\<forall>m \<in> set ms. marker_id (JStr (sm_id m)) \<and> 0 \<le> sm_start m \<and> sm_start m < sm_end m \<and> sm_end m \<le> 1000000000
          \<and> (case duration of None \<Rightarrow> True | Some d \<Rightarrow> sm_end m \<le> d + 1 / 1000))"

lemma marker_ok_wf:
  assumes "marker_ok duration seen previous v"
  shows "marker_id (JStr (sm_id (marker_of v))) \<and> 0 \<le> sm_start (marker_of v) \<and> sm_start (marker_of v) < sm_end (marker_of v) \<and> sm_end (marker_of v) \<le> 1000000000
    \<and> (case duration of None \<Rightarrow> True | Some d \<Rightarrow> sm_end (marker_of v) \<le> d + 1 / 1000) \<and> sm_id (marker_of v) \<notin> set seen \<and> previous \<le> sm_start (marker_of v)"
  using assms
  by (auto simp: marker_ok_def marker_of_def marker_id_def marker_seconds_def number_of_def rat_of_num_def seconds_ok_def str_of_def
      split: jsval.splits js_num.splits option.splits)

lemma scan_markers_wf:
  "scan_markers duration seen previous vs = Inr ms \<Longrightarrow> length ms = length vs \<and> markers_wf duration ms \<and> set (List.map sm_id ms) \<inter> set seen = {} \<and> (\<forall>m \<in> set ms. previous \<le> sm_start m)"
proof (induction duration seen previous vs arbitrary: ms rule: scan_markers.induct)
  case (2 duration seen previous v vs)
  then obtain rest where ok: "marker_ok duration seen previous v" and rest: "scan_markers duration (sm_id (marker_of v) # seen) (sm_start (marker_of v)) vs = Inr rest" "ms = marker_of v # rest"
    by (auto simp: result_simps split: if_splits)
  note later = "2.IH" [OF ok rest(1)]
  show ?case using later marker_ok_wf [OF ok] unfolding rest(2) markers_wf_def by (auto intro: order_trans)
qed (simp add: markers_wf_def)

lemma parseSegmentMarkers_wf:
  "parseSegmentMarkers raw duration = Inr ms \<Longrightarrow> length ms \<le> 512 \<and> markers_wf (map_option rat_of_num duration) ms"
  using scan_markers_wf by (auto simp: parseSegmentMarkers_def result_simps split: if_splits)

section \<open>Where a skip lands\<close>

lemma activeSegment_in:
  "activeSegment markers position modes dismissed = Some m \<Longrightarrow>
     m \<in> set markers \<and> sm_start m \<le> position \<and> position < sm_end m - 1 / 2 \<and> sm_id m \<notin> set dismissed \<and> mode_of modes (sm_kind m) \<noteq> Skip_off"
  by (auto simp: activeSegment_def find_Some_iff TAIL_SECONDS_def)

end
