(* ===== verification/Playback_Policy.thy ===== *)
theory Playback_Policy
  imports Playback_Segments
begin

text \<open>
  The playback policy (\<open>PlaybackPolicy\<close> of \<open>packages/player-core/src/playback-policy.ts\<close>): from the frames of a
  player it decides what to skip, when to offer the next title and when to start it. An operation that throws
  gives \<open>Inl\<close> and leaves the state; \<open>Inr None\<close> is the null the code returns. Arguments have their declared
  types; numbers that a player may report as NaN or infinite are \<open>js_num\<close>. The fence every command carries is
  the one of the state, \<open>po_fence\<close>, so it is not written in the command.
\<close>

section \<open>The server's post-play policy\<close>

datatype next_reason = Next_ready | Next_end | Next_unavailable

record post_play =
  pp_nextEntryId :: "string option"
  pp_available :: bool
  pp_reason :: next_reason
  pp_countdownSeconds :: rat
  pp_autoplay :: bool
  pp_passoutCheckDue :: bool
  pp_automaticAdvances :: js_num
  pp_startDuringCredits :: bool

text \<open>\<open>parseQueuePostPlay\<close> on the object \<open>update\<close> builds from a typed policy.\<close>

definition parseQueuePostPlay :: "post_play \<Rightarrow> player_state_error + post_play" where
  "parseQueuePostPlay raw =
     (if absent_or queueOccurrenceId (pp_nextEntryId raw)
         \<and> pp_countdownSeconds raw * 1000 \<in> {0, 5000, 10000, 15000}
         \<and> isSafeInteger (pp_automaticAdvances raw) \<and> 0 \<le> int_of (pp_automaticAdvances raw) \<and> int_of (pp_automaticAdvances raw) \<le> 10000
         \<and> (pp_available raw \<longrightarrow> pp_nextEntryId raw \<noteq> None \<and> pp_reason raw = Next_ready)
      then Inr raw else Inl Invalid_player_state)"

section \<open>Frames, commands and views\<close>

datatype attention = Still_watching | Playback_error | Owner_stopped | Host_only

record policy_frame =
  fr_fence :: playback_fence
  fr_nowMs :: js_num
  fr_position :: js_num
  fr_duration :: js_num
  fr_rate :: js_num
  fr_playing :: bool
  fr_expanded :: bool
  fr_ended :: bool
  fr_kind :: string
  fr_modes :: skip_modes
  fr_postPlay :: "post_play option"
  fr_attention :: "attention option"

datatype seek_reason = Automatic_skip | Manual_skip | Undo_skip
datatype advance_mode = Automatic_advance | Manual_advance | Still_watching_advance

datatype policy_command =
  Seek rat seek_reason string
| Advance advance_mode string
| Expand attention

record skip_undo =
  un_marker :: segment_marker
  un_from :: rat
  un_until :: rat

datatype policy_prompt =
  Skip_prompt segment_marker
| Up_next_prompt up_next_offer "up_next_countdown option" bool

record policy_view =
  vw_prompt :: "policy_prompt option"
  vw_undo :: "(segment_marker \<times> rat) option"
  vw_markers :: "segment_marker list"
  vw_finished :: bool
  vw_replay :: bool
  vw_attention :: "attention option"
  vw_endCountdown :: "rat option"

section \<open>State\<close>

record playback_policy =
  po_fence :: "playback_fence option"
  po_markers :: "segment_marker list"
  po_dismissed :: "string list"
  po_undo :: "skip_undo option"
  po_lastNow :: int
  po_offerId :: string
  po_offerElapsed :: rat
  po_endElapsed :: rat
  po_watchedCredits :: string
  po_advanced :: bool
  po_cancelled :: bool
  po_frame :: "policy_frame option"

definition new_policy :: playback_policy where
  "new_policy = \<lparr>po_fence = None, po_markers = [], po_dismissed = [], po_undo = None, po_lastNow = -1, po_offerId = [], po_offerElapsed = 0,
     po_endElapsed = 0, po_watchedCredits = [], po_advanced = False, po_cancelled = False, po_frame = None\<rparr>"

definition policy_begin :: "queue_fence \<Rightarrow> jsval \<Rightarrow> js_num option \<Rightarrow> playback_policy \<Rightarrow> (player_state_error + unit) \<times> playback_policy" where
  "policy_begin fence markers duration s =
     (case queuePlaybackFence fence of
        Inl e \<Rightarrow> (Inl e, s)
      | Inr f \<Rightarrow>
        (case parseSegmentMarkers markers duration of
           Inl e \<Rightarrow> (Inl e, s)
         | Inr parsed \<Rightarrow>
           (Inr (), if sameFence (po_fence s) (Queue_fence f)
             then let ids = List.map sm_id parsed
                  in s\<lparr>po_markers := parsed, po_dismissed := filter (\<lambda>i. i \<in> set ids) (po_dismissed s),
                       po_undo := (case po_undo s of None \<Rightarrow> None | Some u \<Rightarrow> if sm_id (un_marker u) \<in> set ids then Some u else None)\<rparr>
             else new_policy\<lparr>po_fence := Some (Queue_fence f), po_markers := parsed\<rparr>)))"

definition policy_stop :: "playback_fence \<Rightarrow> playback_policy \<Rightarrow> playback_policy" where
  "policy_stop fence s =
     (if sameFence (po_fence s) fence
      then s\<lparr>po_fence := None, po_frame := None, po_markers := [], po_dismissed := [], po_undo := None\<rparr> else s)"

section \<open>A frame of the player\<close>

text \<open>The checks of \<open>update\<close>: None is the null it returns for a foreign fence or a clock that runs back.\<close>

definition frame_checked :: "policy_frame \<Rightarrow> playback_policy \<Rightarrow> player_state_error + (int \<times> post_play option) option" where
  "frame_checked i s =
     (if \<not> sameFence (po_fence s) (fr_fence i) then Inr None
      else case clockMs (fr_nowMs i) of
        Inl e \<Rightarrow> Inl e
      | Inr now \<Rightarrow>
          if now < po_lastNow s then Inr None
          else if \<not> seconds_ok (fr_position i) \<or> \<not> seconds_ok (fr_duration i) \<or> \<not> isFinite (fr_rate i) \<or> rat_of_num (fr_rate i) < 1 / 4 \<or> 4 < rat_of_num (fr_rate i)
             \<or> (0 < rat_of_num (fr_duration i) \<and> rat_of_num (fr_duration i) + 1 / 1000 < rat_of_num (fr_position i))
          then Inl Invalid_player_state
          else case fr_postPlay i of
                 None \<Rightarrow> Inr (Some (now, None))
               | Some raw \<Rightarrow> (case parseQueuePostPlay raw of Inl e \<Rightarrow> Inl e | Inr post \<Rightarrow> Inr (Some (now, Some post))))"

definition frame_attention :: "policy_frame \<Rightarrow> post_play option \<Rightarrow> attention option" where
  "frame_attention i post =
     (case fr_attention i of
        Some a \<Rightarrow> Some a
      | None \<Rightarrow> if fr_ended i \<and> (case post of Some p \<Rightarrow> pp_passoutCheckDue p | None \<Rightarrow> False) then Some Still_watching else None)"

definition elapsed_since :: "int \<Rightarrow> playback_policy \<Rightarrow> rat" where
  "elapsed_since now s = (if po_lastNow s < 0 then 0 else of_int (now - po_lastNow s) / 1000)"

definition undo_ended :: "int \<Rightarrow> playback_policy \<Rightarrow> playback_policy" where
  "undo_ended now s = (case po_undo s of Some u \<Rightarrow> if un_until u \<le> of_int now then s\<lparr>po_undo := None\<rparr> else s | None \<Rightarrow> s)"

text \<open>The unattended skip: it is remembered as dismissed, and can be undone while the player is expanded.\<close>

definition auto_skip :: "policy_frame \<Rightarrow> int \<Rightarrow> attention option \<Rightarrow> playback_policy \<Rightarrow> policy_command list \<times> playback_policy" where
  "auto_skip i now att s =
     (case activeSegment (po_markers s) (rat_of_num (fr_position i)) (fr_modes i) (po_dismissed s) of
        None \<Rightarrow> ([], s)
      | Some m \<Rightarrow>
          if fr_playing i \<and> \<not> fr_ended i \<and> att = None \<and> skipsAutomatically m (fr_modes i)
          then ([Seek (skipTarget m (Some (rat_of_num (fr_duration i)))) Automatic_skip (sm_id m)],
                s\<lparr>po_dismissed := set_add (sm_id m) (po_dismissed s),
                  po_undo := if fr_expanded i then Some \<lparr>un_marker = m, un_from = rat_of_num (fr_position i), un_until = of_int now + UNDO_SECONDS * 1000\<rparr> else None\<rparr>)
          else ([], s))"

definition frame_offer :: "policy_frame \<Rightarrow> post_play option \<Rightarrow> attention option \<Rightarrow> segment_marker list \<Rightarrow> up_next_offer option" where
  "frame_offer i post att markers =
     (case post of
        Some p \<Rightarrow> if \<not> fr_ended i \<and> att = None
          then upNextOffer \<lparr>ui_markers = markers, ui_position = rat_of_num (fr_position i), ui_duration = rat_of_num (fr_duration i), ui_kind = fr_kind i,
                 ui_mode = mode_of (fr_modes i) (JStr ''credits''), ui_nextAvailable = pp_available p, ui_passoutDue = pp_passoutCheckDue p\<rparr>
          else None
      | None \<Rightarrow> None)"

definition count_offer :: "policy_frame \<Rightarrow> rat \<Rightarrow> policy_frame option \<Rightarrow> up_next_offer option \<Rightarrow> playback_policy \<Rightarrow> playback_policy" where
  "count_offer i elapsed before offer s =
     (case offer of
        None \<Rightarrow> s\<lparr>po_offerId := [], po_offerElapsed := 0\<rparr>
      | Some off \<Rightarrow>
          if uo_id off \<noteq> po_offerId s then s\<lparr>po_offerId := uo_id off, po_offerElapsed := 0\<rparr>
          else if fr_playing i \<and> (case before of Some b \<Rightarrow> fr_playing b | None \<Rightarrow> False) then s\<lparr>po_offerElapsed := po_offerElapsed s + elapsed\<rparr>
          else s)"

definition visible_offer :: "up_next_offer option \<Rightarrow> playback_policy \<Rightarrow> up_next_offer option" where
  "visible_offer offer s = (case offer of Some off \<Rightarrow> if uo_id off \<noteq> po_watchedCredits s then Some off else None | None \<Rightarrow> None)"

definition offer_countdown :: "policy_frame \<Rightarrow> post_play option \<Rightarrow> up_next_offer option \<Rightarrow> playback_policy \<Rightarrow> up_next_countdown option" where
  "offer_countdown i post offer s =
     (case (offer, post) of
        (Some off, Some p) \<Rightarrow> upNextCountdown \<lparr>ci_offer = off, ci_position = rat_of_num (fr_position i), ci_duration = rat_of_num (fr_duration i), ci_rate = rat_of_num (fr_rate i),
             ci_autoplay = pp_autoplay p, ci_countdownSeconds = pp_countdownSeconds p, ci_elapsedSeconds = po_offerElapsed s, ci_startDuringCredits = pp_startDuringCredits p\<rparr>
      | _ \<Rightarrow> None)"

text \<open>The automatic start of the next title: at the end of this one, or by the countdown during its credits.\<close>

definition auto_advance :: "policy_frame \<Rightarrow> rat \<Rightarrow> policy_frame option \<Rightarrow> post_play option \<Rightarrow> attention option \<Rightarrow> up_next_countdown option
    \<Rightarrow> playback_policy \<Rightarrow> policy_command list \<times> playback_policy" where
  "auto_advance i elapsed before post att countdown s =
     (case post of
        Some p \<Rightarrow>
          (case pp_nextEntryId p of
             Some n \<Rightarrow>
               if po_advanced s \<or> po_cancelled s \<or> att \<noteq> None \<or> \<not> pp_available p \<or> n = [] then ([], s)
               else if fr_ended i
               then let s1 = (if (case before of Some b \<Rightarrow> fr_ended b | None \<Rightarrow> False) then s\<lparr>po_endElapsed := po_endElapsed s + elapsed\<rparr> else s)
                    in if pp_autoplay p \<and> \<not> pp_passoutCheckDue p \<and> pp_countdownSeconds p \<le> po_endElapsed s1
                       then ([Advance Automatic_advance n], s1\<lparr>po_advanced := True\<rparr>) else ([], s1)
               else if (case countdown of Some c \<Rightarrow> uc_automatic c \<and> uc_seconds c \<le> 0 | None \<Rightarrow> False)
               then ([Advance Automatic_advance n], s\<lparr>po_advanced := True\<rparr>)
               else ([], s)
           | None \<Rightarrow> ([], s))
      | None \<Rightarrow> ([], s))"

definition policy_viewed :: "policy_frame \<Rightarrow> int \<Rightarrow> post_play option \<Rightarrow> attention option \<Rightarrow> segment_marker option \<Rightarrow> up_next_offer option
    \<Rightarrow> up_next_countdown option \<Rightarrow> playback_policy \<Rightarrow> policy_view" where
  "policy_viewed i now post att marker offer countdown s =
     (let show' = (fr_expanded i \<and> att = None)
      in \<lparr>vw_prompt = (if \<not> show' then None
             else case offer of
               Some off \<Rightarrow> Some (Up_next_prompt off countdown (case uo_marker off of Some m \<Rightarrow> followedByScene m (rat_of_num (fr_duration i)) | None \<Rightarrow> False))
             | None \<Rightarrow> (case marker of Some m \<Rightarrow> if sm_id m \<notin> set (po_dismissed s) then Some (Skip_prompt m) else None | None \<Rightarrow> None)),
          vw_undo = (if show' then map_option (\<lambda>u. (un_marker u, (un_until u - of_int now) / 1000)) (po_undo s) else None),
          vw_markers = (if fr_expanded i then po_markers s else []),
          vw_finished = fr_ended i,
          vw_replay = (fr_ended i \<and> ((case post of Some p \<Rightarrow> \<not> pp_available p \<or> \<not> pp_autoplay p | None \<Rightarrow> True) \<or> po_cancelled s)),
          vw_attention = att,
          vw_endCountdown = (if show' \<and> fr_ended i \<and> \<not> po_advanced s \<and> \<not> po_cancelled s
             then (case post of
                     Some p \<Rightarrow> if pp_available p \<and> pp_nextEntryId p \<notin> {None, Some []} \<and> pp_autoplay p \<and> \<not> pp_passoutCheckDue p
                               then Some (max 0 (pp_countdownSeconds p - po_endElapsed s)) else None
                   | None \<Rightarrow> None)
             else None)\<rparr>)"

definition policy_update :: "policy_frame \<Rightarrow> playback_policy \<Rightarrow> (player_state_error + (policy_view \<times> policy_command list) option) \<times> playback_policy" where
  "policy_update i s =
     (case frame_checked i s of
        Inl e \<Rightarrow> (Inl e, s)
      | Inr None \<Rightarrow> (Inr None, s)
      | Inr (Some (now, post)) \<Rightarrow>
          let elapsed = elapsed_since now s; before = po_frame s;
              s1 = s\<lparr>po_lastNow := now, po_frame := Some (i\<lparr>fr_postPlay := post\<rparr>)\<rparr>;
              att = frame_attention i post;
              expand = (case att of Some a \<Rightarrow> if fr_expanded i then [] else [Expand a] | None \<Rightarrow> []);
              s2 = undo_ended now s1;
              marker = activeSegment (po_markers s2) (rat_of_num (fr_position i)) (fr_modes i) (po_dismissed s2);
              (skips, s3) = auto_skip i now att s2;
              offer = frame_offer i post att (po_markers s3);
              s4 = count_offer i elapsed before offer s3;
              shown = visible_offer offer s4;
              countdown = offer_countdown i post shown s4;
              (advances, s5) = auto_advance i elapsed before post att countdown s4;
              s6 = (if fr_ended i then s5 else s5\<lparr>po_endElapsed := 0\<rparr>)
          in (Inr (Some (policy_viewed i now post att marker shown countdown s6, expand @ skips @ advances)), s6))"

section \<open>What the viewer does\<close>

definition policy_frame_open :: "playback_fence \<Rightarrow> playback_policy \<Rightarrow> policy_frame option" where
  "policy_frame_open fence s =
     (if sameFence (po_fence s) fence
      then (case po_frame s of Some f \<Rightarrow> if fr_expanded f then Some f else None | None \<Rightarrow> None)
      else None)"

definition policy_dismiss :: "playback_fence \<Rightarrow> playback_policy \<Rightarrow> bool \<times> playback_policy" where
  "policy_dismiss fence s =
     (case policy_frame_open fence s of
        None \<Rightarrow> (False, s)
      | Some f \<Rightarrow>
          if fr_attention f \<noteq> None \<or> fr_ended f then (False, s)
          else let marker = activeSegment (po_markers s) (rat_of_num (fr_position f)) (fr_modes f) (po_dismissed s);
                   s1 = (case marker of Some m \<Rightarrow> s\<lparr>po_dismissed := set_add (sm_id m) (po_dismissed s)\<rparr> | None \<Rightarrow> s);
                   s2 = (if po_offerId s \<noteq> [] then s1\<lparr>po_watchedCredits := po_offerId s\<rparr> else s1)
               in (marker \<noteq> None \<or> po_offerId s \<noteq> [], s2))"

definition policy_skip :: "playback_fence \<Rightarrow> string option \<Rightarrow> playback_policy \<Rightarrow> policy_command option \<times> playback_policy" where
  "policy_skip fence expected s =
     (case policy_frame_open fence s of
        None \<Rightarrow> (None, s)
      | Some f \<Rightarrow>
          if fr_attention f \<noteq> None \<or> fr_ended f then (None, s)
          else case activeSegment (po_markers s) (rat_of_num (fr_position f)) (fr_modes f) (po_dismissed s) of
                 None \<Rightarrow> (None, s)
               | Some m \<Rightarrow>
                   if (case expected of Some i \<Rightarrow> sm_id m \<noteq> i | None \<Rightarrow> False) then (None, s)
                   else (Some (Seek (skipTarget m (Some (rat_of_num (fr_duration f)))) Manual_skip (sm_id m)),
                         s\<lparr>po_dismissed := set_add (sm_id m) (po_dismissed s)\<rparr>))"

definition policy_undoSkip :: "playback_fence \<Rightarrow> js_num \<Rightarrow> playback_policy \<Rightarrow> (player_state_error + policy_command option) \<times> playback_policy" where
  "policy_undoSkip fence nowMs s =
     (case policy_frame_open fence s of
        None \<Rightarrow> (Inr None, s)
      | Some f \<Rightarrow>
          if fr_attention f \<noteq> None then (Inr None, s)
          else case po_undo s of
                 None \<Rightarrow> (Inr None, s)
               | Some u \<Rightarrow>
                   (case clockMs nowMs of
                      Inl e \<Rightarrow> (Inl e, s)
                    | Inr now \<Rightarrow>
                        if now < po_lastNow s \<or> un_until u \<le> of_int now then (Inr None, s)
                        else (Inr (Some (Seek (un_from u) Undo_skip (sm_id (un_marker u)))),
                              s\<lparr>po_undo := None, po_dismissed := set_add (sm_id (un_marker u)) (po_dismissed s)\<rparr>)))"

definition policy_cancelAutoplay :: "playback_fence \<Rightarrow> playback_policy \<Rightarrow> playback_policy" where
  "policy_cancelAutoplay fence s = (if sameFence (po_fence s) fence then s\<lparr>po_cancelled := True\<rparr> else s)"

text \<open>\<open>advance\<close> takes the modes manual and still-watching.\<close>

definition policy_advance :: "playback_fence \<Rightarrow> advance_mode \<Rightarrow> playback_policy \<Rightarrow> policy_command option \<times> playback_policy" where
  "policy_advance fence mode s =
     (case policy_frame_open fence s of
        None \<Rightarrow> (None, s)
      | Some f \<Rightarrow>
          if po_advanced s then (None, s)
          else let post = fr_postPlay f;
                   passout = (case post of Some p \<Rightarrow> pp_passoutCheckDue p | None \<Rightarrow> False)
               in if (fr_attention f \<noteq> None \<and> fr_attention f \<noteq> Some Still_watching)
                     \<or> (passout \<or> fr_attention f = Some Still_watching) \<and> mode \<noteq> Still_watching_advance
                  then (None, s)
                  else case post of
                         None \<Rightarrow> (None, s)
                       | Some p \<Rightarrow>
                           (case pp_nextEntryId p of
                              Some n \<Rightarrow> if pp_available p \<and> n \<noteq> [] then (Some (Advance mode n), s\<lparr>po_advanced := True\<rparr>) else (None, s)
                            | None \<Rightarrow> (None, s)))"

end
