(* ===== verification/Playback_Promises.thy ===== *)
theory Playback_Promises
  imports Playback_Policy
begin

text \<open>What the playback policy promises, over every sequence of frames and of actions of the viewer in one playback.\<close>

section \<open>Runs\<close>

datatype policy_event =
  Player_frame policy_frame
| Viewer_dismisses playback_fence
| Viewer_skips playback_fence "string option"
| Viewer_undoes playback_fence js_num
| Viewer_cancels playback_fence
| Viewer_advances playback_fence advance_mode
| Markers_again queue_fence jsval "js_num option"

text \<open>What an event makes the player do, and the state after it.\<close>

fun policy_step :: "policy_event \<Rightarrow> playback_policy \<Rightarrow> policy_command list \<times> playback_policy" where
  "policy_step (Player_frame i) s = (case policy_update i s of (Inr (Some (view, commands)), s') \<Rightarrow> (commands, s') | (_, s') \<Rightarrow> ([], s'))"
| "policy_step (Viewer_dismisses f) s = ([], snd (policy_dismiss f s))"
| "policy_step (Viewer_skips f expected) s = (case policy_skip f expected s of (Some c, s') \<Rightarrow> ([c], s') | (None, s') \<Rightarrow> ([], s'))"
| "policy_step (Viewer_undoes f now) s = (case policy_undoSkip f now s of (Inr (Some c), s') \<Rightarrow> ([c], s') | (_, s') \<Rightarrow> ([], s'))"
| "policy_step (Viewer_cancels f) s = ([], policy_cancelAutoplay f s)"
| "policy_step (Viewer_advances f mode) s = (case policy_advance f mode s of (Some c, s') \<Rightarrow> ([c], s') | (None, s') \<Rightarrow> ([], s'))"
| "policy_step (Markers_again f markers duration) s = ([], snd (policy_begin f markers duration s))"

text \<open>The frames that were heard: those of this playback, in time, with sound numbers.\<close>

fun frame_heard :: "policy_event \<Rightarrow> playback_policy \<Rightarrow> policy_frame list" where
  "frame_heard (Player_frame i) s = (case frame_checked i s of Inr (Some _) \<Rightarrow> [i] | _ \<Rightarrow> [])"
| "frame_heard _ s = []"

fun same_playback_event :: "policy_event \<Rightarrow> playback_policy \<Rightarrow> bool" where
  "same_playback_event (Markers_again f _ _) s = sameFence (po_fence s) (Queue_fence f)"
| "same_playback_event _ s = True"

definition is_again :: "policy_event \<Rightarrow> bool" where
  "is_again e \<longleftrightarrow> (case e of Markers_again _ _ _ \<Rightarrow> True | _ \<Rightarrow> False)"

text \<open>
  One playback, from the \<open>begin\<close> with its fence: the state, the frames heard (newest first), the commands
  given, and how often the markers were read again.
\<close>

inductive playback_run :: "playback_policy \<Rightarrow> policy_frame list \<Rightarrow> policy_command list \<Rightarrow> nat \<Rightarrow> bool" where
  run_begin: "policy_begin f markers duration s = (Inr (), s') \<Longrightarrow> \<not> sameFence (po_fence s) (Queue_fence f) \<Longrightarrow> playback_run s' [] [] 0"
| run_step: "playback_run s frames commands n \<Longrightarrow> same_playback_event e s \<Longrightarrow>
     playback_run (snd (policy_step e s)) (frame_heard e s @ frames) (commands @ fst (policy_step e s)) (if is_again e then Suc n else n)"

section \<open>The parts of an update\<close>

lemma auto_skip_parts:
  "po_advanced (snd (auto_skip i now att s)) = po_advanced s" "po_cancelled (snd (auto_skip i now att s)) = po_cancelled s"
  "po_endElapsed (snd (auto_skip i now att s)) = po_endElapsed s" "po_offerElapsed (snd (auto_skip i now att s)) = po_offerElapsed s"
  "po_markers (snd (auto_skip i now att s)) = po_markers s" "po_lastNow (snd (auto_skip i now att s)) = po_lastNow s"
  "po_frame (snd (auto_skip i now att s)) = po_frame s" "po_fence (snd (auto_skip i now att s)) = po_fence s"
  "po_offerId (snd (auto_skip i now att s)) = po_offerId s"
  by (auto simp: auto_skip_def split: option.split)

lemma count_offer_parts:
  "po_advanced (count_offer i e b off s) = po_advanced s" "po_cancelled (count_offer i e b off s) = po_cancelled s"
  "po_endElapsed (count_offer i e b off s) = po_endElapsed s" "po_markers (count_offer i e b off s) = po_markers s"
  "po_lastNow (count_offer i e b off s) = po_lastNow s" "po_frame (count_offer i e b off s) = po_frame s"
  "po_dismissed (count_offer i e b off s) = po_dismissed s" "po_fence (count_offer i e b off s) = po_fence s"
  by (auto simp: count_offer_def split: option.split)

lemma auto_advance_parts:
  "po_cancelled (snd (auto_advance i e b post att c s)) = po_cancelled s" "po_markers (snd (auto_advance i e b post att c s)) = po_markers s"
  "po_lastNow (snd (auto_advance i e b post att c s)) = po_lastNow s" "po_frame (snd (auto_advance i e b post att c s)) = po_frame s"
  "po_dismissed (snd (auto_advance i e b post att c s)) = po_dismissed s" "po_offerElapsed (snd (auto_advance i e b post att c s)) = po_offerElapsed s"
  "po_fence (snd (auto_advance i e b post att c s)) = po_fence s"
  by (auto simp: auto_advance_def Let_def split: option.split)

lemmas update_parts = auto_skip_parts count_offer_parts auto_advance_parts

text \<open>An update that is heard, with its parts named.\<close>

lemma undo_ended_parts:
  "po_advanced (undo_ended now s) = po_advanced s" "po_cancelled (undo_ended now s) = po_cancelled s" "po_endElapsed (undo_ended now s) = po_endElapsed s"
  "po_offerElapsed (undo_ended now s) = po_offerElapsed s" "po_markers (undo_ended now s) = po_markers s" "po_lastNow (undo_ended now s) = po_lastNow s"
  "po_frame (undo_ended now s) = po_frame s" "po_dismissed (undo_ended now s) = po_dismissed s" "po_fence (undo_ended now s) = po_fence s" "po_offerId (undo_ended now s) = po_offerId s"
  by (auto simp: undo_ended_def split: option.split)

definition attention_commands :: "policy_frame \<Rightarrow> attention option \<Rightarrow> policy_command list" where
  "attention_commands i att = (case att of Some a \<Rightarrow> if fr_expanded i then [] else [Expand a] | None \<Rightarrow> [])"

lemma update_heard:
  assumes "frame_checked i s = Inr (Some (now, post))"
  obtains s2 s3 s4 offer countdown adv where
    "s2 = undo_ended now (s\<lparr>po_lastNow := now, po_frame := Some (i\<lparr>fr_postPlay := post\<rparr>)\<rparr>)"
    "s3 = snd (auto_skip i now (frame_attention i post) s2)"
    "offer = frame_offer i post (frame_attention i post) (po_markers s3)"
    "s4 = count_offer i (elapsed_since now s) (po_frame s) offer s3"
    "countdown = offer_countdown i post (visible_offer offer s4) s4"
    "adv = auto_advance i (elapsed_since now s) (po_frame s) post (frame_attention i post) countdown s4"
    "policy_step (Player_frame i) s =
       (attention_commands i (frame_attention i post) @ fst (auto_skip i now (frame_attention i post) s2) @ fst adv, if fr_ended i then snd adv else (snd adv)\<lparr>po_endElapsed := 0\<rparr>)"
    "\<exists>view. policy_update i s = (Inr (Some (view, fst (policy_step (Player_frame i) s))), snd (policy_step (Player_frame i) s))"
  by (rule that [OF refl refl refl refl refl refl]) (simp_all add: policy_update_def assms attention_commands_def Let_def case_prod_beta)

lemma update_unheard: "(\<And>r. frame_checked i s \<noteq> Inr (Some r)) \<Longrightarrow> policy_step (Player_frame i) s = ([], s) \<and> frame_heard (Player_frame i) s = []"
  by (simp add: policy_update_def split: sum.split option.split)

lemma heard_cases:
  obtains "policy_step (Player_frame i) s = ([], s)" "frame_heard (Player_frame i) s = []"
  | now post where "frame_checked i s = Inr (Some (now, post))"
  using update_unheard [of i s] by (cases "frame_checked i s") (auto split: option.splits simp: option.split_sel)

lemma begin_cases:
  assumes "policy_begin f markers duration s = (Inr (), s')"
  shows "\<exists>parsed. parseSegmentMarkers markers duration = Inr parsed \<and> po_markers s' = parsed
    \<and> (\<not> sameFence (po_fence s) (Queue_fence f) \<longrightarrow> s' = new_policy\<lparr>po_fence := Some (Queue_fence f), po_markers := parsed\<rparr>)"
  using assms
  by (cases "queuePlaybackFence f"; cases "parseSegmentMarkers markers duration") (auto simp: policy_begin_def Let_def dest: queuePlaybackFence_id)

lemma begin_new:
  assumes "policy_begin f markers duration s = (Inr (), s')" "\<not> sameFence (po_fence s) (Queue_fence f)"
  shows "po_fence s' = Some (Queue_fence f)" "po_dismissed s' = []" "po_undo s' = None" "po_lastNow s' = -1" "po_offerElapsed s' = 0" "po_endElapsed s' = 0"
    "\<not> po_advanced s'" "\<not> po_cancelled s'" "po_frame s' = None"
proof -
  obtain parsed where s': "s' = new_policy\<lparr>po_fence := Some (Queue_fence f), po_markers := parsed\<rparr>" using begin_cases [OF assms(1)] assms(2) by blast
  show "po_fence s' = Some (Queue_fence f)" "po_dismissed s' = []" "po_undo s' = None" "po_lastNow s' = -1" "po_offerElapsed s' = 0" "po_endElapsed s' = 0"
    "\<not> po_advanced s'" "\<not> po_cancelled s'" "po_frame s' = None"
    by (simp_all add: s' new_policy_def)
qed

section \<open>One advance\<close>

definition is_advance :: "policy_command \<Rightarrow> bool" where
  "is_advance c \<longleftrightarrow> (case c of Advance _ _ \<Rightarrow> True | _ \<Rightarrow> False)"

definition advances :: "policy_command list \<Rightarrow> nat" where
  "advances cs = length (filter is_advance cs)"

lemma advances_simps [simp]:
  "advances [] = 0" "advances (xs @ ys) = advances xs + advances ys"
  "advances [Seek t r i] = 0" "advances [Expand a] = 0" "advances [Advance m n] = 1"
  by (simp_all add: advances_def is_advance_def)

lemma auto_skip_advances: "advances (fst (auto_skip i now att s)) = 0"
  by (auto simp: auto_skip_def split: option.split)

lemma auto_advance_advances:
  "advances (fst (auto_advance i e b post att c s)) + (if po_advanced s then 1 else 0) = (if po_advanced (snd (auto_advance i e b post att c s)) then 1 else 0)"
  by (auto simp: auto_advance_def Let_def split: option.split)

lemma update_advances:
  assumes "frame_checked i s = Inr (Some (now, post))"
  shows "advances (fst (policy_step (Player_frame i) s)) + (if po_advanced s then 1 else 0) = (if po_advanced (snd (policy_step (Player_frame i) s)) then 1 else 0)"
proof (rule update_heard [OF assms])
  fix s2 s3 s4 offer countdown adv
  assume parts: "s2 = undo_ended now (s\<lparr>po_lastNow := now, po_frame := Some (i\<lparr>fr_postPlay := post\<rparr>)\<rparr>)"
      "s3 = snd (auto_skip i now (frame_attention i post) s2)" "s4 = count_offer i (elapsed_since now s) (po_frame s) offer s3"
      "adv = auto_advance i (elapsed_since now s) (po_frame s) post (frame_attention i post) countdown s4"
    and step: "policy_step (Player_frame i) s =
       (attention_commands i (frame_attention i post) @ fst (auto_skip i now (frame_attention i post) s2) @ fst adv, if fr_ended i then snd adv else (snd adv)\<lparr>po_endElapsed := 0\<rparr>)"
  have "po_advanced s4 = po_advanced s" by (simp add: parts update_parts undo_ended_parts)
  moreover have "advances (attention_commands i att) = 0" for att by (simp add: attention_commands_def split: option.split)
  ultimately show ?thesis
    using auto_advance_advances [of i "elapsed_since now s" "po_frame s" post "frame_attention i post" countdown s4]
    unfolding step parts(4) by (simp add: auto_skip_advances)
qed

lemma step_advances:
  "advances (fst (policy_step e s)) + (if po_advanced s then 1 else 0) = (if po_advanced (snd (policy_step e s)) then 1 else 0)" if "same_playback_event e s"
proof (cases e)
  case (Player_frame i)
  then show ?thesis by (cases rule: heard_cases [of i s]) (simp_all del: policy_step.simps add: update_advances)
next
  case (Markers_again f markers duration)
  then show ?thesis using that
    by (cases "queuePlaybackFence f"; cases "parseSegmentMarkers markers duration") (auto simp: policy_begin_def Let_def dest: queuePlaybackFence_id)
qed (auto simp: policy_dismiss_def policy_skip_def policy_undoSkip_def policy_cancelAutoplay_def policy_advance_def Let_def split: option.split sum.split)

lemma run_advances: "playback_run s frames commands n \<Longrightarrow> advances commands = (if po_advanced s then 1 else 0)"
proof (induction rule: playback_run.induct)
  case (run_begin f markers duration s s')
  then show ?case by (simp add: begin_new(7))
next
  case (run_step s frames commands n e)
  then show ?case using step_advances [of e s] by simp
qed

section \<open>Time\<close>

definition frame_time :: "policy_frame \<Rightarrow> int" where
  "frame_time i = int_of (fr_nowMs i)"

text \<open>Frames are newest first: how long the title has been over, and how long it has been playing.\<close>

fun ended_span :: "policy_frame list \<Rightarrow> int" where
  "ended_span (a # b # rest) = (if fr_ended a \<and> fr_ended b then frame_time a - frame_time b + ended_span (b # rest) else 0)"
| "ended_span _ = 0"

fun playing_time :: "policy_frame list \<Rightarrow> int" where
  "playing_time (a # b # rest) = (if fr_playing a \<and> fr_playing b then frame_time a - frame_time b else 0) + playing_time (b # rest)"
| "playing_time _ = 0"

definition policy_clock_ok :: "playback_policy \<Rightarrow> policy_frame list \<Rightarrow> bool" where
  "policy_clock_ok s frames \<longleftrightarrow>
     (case frames of [] \<Rightarrow> po_lastNow s = -1 \<and> po_frame s = None
        | i # _ \<Rightarrow> po_lastNow s = frame_time i \<and> 0 \<le> frame_time i \<and> (\<exists>post. po_frame s = Some (i\<lparr>fr_postPlay := post\<rparr>)))
     \<and> 0 \<le> ended_span frames \<and> 0 \<le> playing_time frames
     \<and> po_endElapsed s * 1000 \<le> of_int (ended_span frames) \<and> po_offerElapsed s * 1000 \<le> of_int (playing_time frames)"

lemma frame_checked_time: "frame_checked i s = Inr (Some (now, post)) \<Longrightarrow> now = frame_time i \<and> 0 \<le> now \<and> po_lastNow s \<le> now"
  by (auto simp: frame_checked_def clockMs_def frame_time_def split: if_splits sum.splits option.splits)

lemma count_offer_elapsed:
  "po_offerElapsed (count_offer i e before off s) \<in> {0, po_offerElapsed s} \<or>
   po_offerElapsed (count_offer i e before off s) = po_offerElapsed s + e \<and> fr_playing i \<and> (\<exists>b. before = Some b \<and> fr_playing b)"
  by (auto simp: count_offer_def split: option.splits)

lemma auto_advance_elapsed:
  "po_endElapsed (snd (auto_advance i e before post att c s)) = po_endElapsed s \<or>
   po_endElapsed (snd (auto_advance i e before post att c s)) = po_endElapsed s + e \<and> fr_ended i \<and> (\<exists>b. before = Some b \<and> fr_ended b)"
  by (auto simp: auto_advance_def Let_def split: option.splits)

lemma not_ended_span: "\<not> fr_ended b \<Longrightarrow> ended_span (b # rest) = 0"
  by (cases rest) simp_all

text \<open>The counters never run ahead of the clock.\<close>

lemma counters_grow:
  assumes ok: "policy_clock_ok s frames" and now: "now = frame_time i" "0 \<le> now" "po_lastNow s \<le> now"
  shows "0 \<le> ended_span (i # frames)" "0 \<le> playing_time (i # frames)"
    "po_endElapsed s * 1000 \<le> of_int (ended_span (i # frames)) \<or> \<not> fr_ended i"
    "po_frame s = Some b \<Longrightarrow> fr_ended b \<Longrightarrow> fr_ended i \<Longrightarrow> (po_endElapsed s + elapsed_since now s) * 1000 \<le> of_int (ended_span (i # frames))"
    "po_offerElapsed s * 1000 \<le> of_int (playing_time (i # frames))"
    "po_frame s = Some b \<Longrightarrow> fr_playing b \<Longrightarrow> fr_playing i \<Longrightarrow> (po_offerElapsed s + elapsed_since now s) * 1000 \<le> of_int (playing_time (i # frames))"
proof -
  have parts: "0 \<le> ended_span frames" "0 \<le> playing_time frames" "po_endElapsed s * 1000 \<le> of_int (ended_span frames)" "po_offerElapsed s * 1000 \<le> of_int (playing_time frames)"
    using ok by (simp_all add: policy_clock_ok_def)
  have gap: "elapsed_since now s * 1000 = of_int (now - po_lastNow s)" if "0 \<le> po_lastNow s" using that by (simp add: elapsed_since_def)
  show "0 \<le> ended_span (i # frames)" "0 \<le> playing_time (i # frames)"
    "po_endElapsed s * 1000 \<le> of_int (ended_span (i # frames)) \<or> \<not> fr_ended i" "po_offerElapsed s * 1000 \<le> of_int (playing_time (i # frames))"
    using parts ok now not_ended_span by (cases frames; auto simp: policy_clock_ok_def)+
  show "(po_endElapsed s + elapsed_since now s) * 1000 \<le> of_int (ended_span (i # frames))" if h: "po_frame s = Some b" "fr_ended b" "fr_ended i"
  proof (cases frames)
    case (Cons a rest)
    then have "po_lastNow s = frame_time a" "0 \<le> frame_time a" "fr_ended a" using ok h by (auto simp: policy_clock_ok_def)
    then show ?thesis using parts gap h now unfolding Cons by (simp add: distrib_right)
  qed (use ok h in \<open>simp add: policy_clock_ok_def\<close>)
  show "(po_offerElapsed s + elapsed_since now s) * 1000 \<le> of_int (playing_time (i # frames))" if h: "po_frame s = Some b" "fr_playing b" "fr_playing i"
  proof (cases frames)
    case (Cons a rest)
    then have "po_lastNow s = frame_time a" "0 \<le> frame_time a" "fr_playing a" using ok h by (auto simp: policy_clock_ok_def)
    then show ?thesis using parts gap h now unfolding Cons by (simp add: distrib_right)
  qed (use ok h in \<open>simp add: policy_clock_ok_def\<close>)
qed

lemma update_clock:
  assumes heard: "frame_checked i s = Inr (Some (now, post))" and ok: "policy_clock_ok s frames"
  shows "policy_clock_ok (snd (policy_step (Player_frame i) s)) (i # frames)"
proof (rule update_heard [OF heard])
  fix s2 s3 s4 offer countdown adv
  assume parts: "s2 = undo_ended now (s\<lparr>po_lastNow := now, po_frame := Some (i\<lparr>fr_postPlay := post\<rparr>)\<rparr>)"
      "s3 = snd (auto_skip i now (frame_attention i post) s2)" "s4 = count_offer i (elapsed_since now s) (po_frame s) offer s3"
      "adv = auto_advance i (elapsed_since now s) (po_frame s) post (frame_attention i post) countdown s4"
    and step: "policy_step (Player_frame i) s =
       (attention_commands i (frame_attention i post) @ fst (auto_skip i now (frame_attention i post) s2) @ fst adv, if fr_ended i then snd adv else (snd adv)\<lparr>po_endElapsed := 0\<rparr>)"
  note now = frame_checked_time [OF heard]
  note grow = counters_grow [OF ok now [THEN conjunct1] now [THEN conjunct2, THEN conjunct1] now [THEN conjunct2, THEN conjunct2]]
  have same: "po_lastNow (snd adv) = now" "po_frame (snd adv) = Some (i\<lparr>fr_postPlay := post\<rparr>)" "po_offerElapsed (snd adv) = po_offerElapsed s4"
      "po_endElapsed s4 = po_endElapsed s" "po_offerElapsed s3 = po_offerElapsed s"
    by (simp_all add: parts update_parts undo_ended_parts)
  have offer: "po_offerElapsed s4 * 1000 \<le> of_int (playing_time (i # frames))"
    using count_offer_elapsed [of i "elapsed_since now s" "po_frame s" offer s3] grow(2,5,6) unfolding parts(3) [symmetric] same(5) by auto
  have ended: "po_endElapsed (snd adv) * 1000 \<le> of_int (ended_span (i # frames))" if "fr_ended i"
    using auto_advance_elapsed [of i "elapsed_since now s" "po_frame s" post "frame_attention i post" countdown s4] grow(3,4) that unfolding parts(4) [symmetric] same(4) by auto
  show ?thesis
    using grow(1,2) offer ended now same(1-3) unfolding step by (auto simp: policy_clock_ok_def)
qed

section \<open>The invariant of a playback\<close>

definition frame_position :: "policy_frame \<Rightarrow> rat" where
  "frame_position i = rat_of_num (fr_position i)"

definition frame_sound :: "policy_frame \<Rightarrow> bool" where
  "frame_sound i \<longleftrightarrow> 0 \<le> frame_position i \<and> (0 < rat_of_num (fr_duration i) \<longrightarrow> frame_position i \<le> rat_of_num (fr_duration i) + 1 / 1000)"

definition run_ok :: "playback_policy \<Rightarrow> policy_frame list \<Rightarrow> bool" where
  "run_ok s frames \<longleftrightarrow> policy_clock_ok s frames \<and> list_all frame_sound frames \<and> (\<exists>d. markers_wf d (po_markers s))"

lemma frame_checked_sound: "frame_checked i s = Inr (Some r) \<Longrightarrow> frame_sound i"
  by (auto simp: frame_checked_def frame_sound_def frame_position_def seconds_ok_def rat_of_num_def
      split: if_splits sum.splits option.splits js_num.splits)

lemma offer_undo [simp]: "po_undo (count_offer i e b off s) = po_undo s"
  by (auto simp: count_offer_def split: option.split)

lemma advance_undo [simp]: "po_undo (snd (auto_advance i e b post att c s)) = po_undo s"
  by (auto simp: auto_advance_def Let_def split: option.split)

lemma update_ok:
  assumes heard: "frame_checked i s = Inr (Some (now, post))" and ok: "run_ok s frames"
  shows "run_ok (snd (policy_step (Player_frame i) s)) (i # frames)"
proof (rule update_heard [OF heard])
  fix s2 s3 s4 offer countdown adv
  assume parts: "s2 = undo_ended now (s\<lparr>po_lastNow := now, po_frame := Some (i\<lparr>fr_postPlay := post\<rparr>)\<rparr>)"
      "s3 = snd (auto_skip i now (frame_attention i post) s2)" "s4 = count_offer i (elapsed_since now s) (po_frame s) offer s3"
      "adv = auto_advance i (elapsed_since now s) (po_frame s) post (frame_attention i post) countdown s4"
    and step: "policy_step (Player_frame i) s =
       (attention_commands i (frame_attention i post) @ fst (auto_skip i now (frame_attention i post) s2) @ fst adv, if fr_ended i then snd adv else (snd adv)\<lparr>po_endElapsed := 0\<rparr>)"
  have markers: "po_markers (snd adv) = po_markers s" by (simp add: parts update_parts undo_ended_parts)
  have "po_markers (snd (policy_step (Player_frame i) s)) = po_markers s" using markers unfolding step by simp
  then show ?thesis using update_clock [OF heard] ok frame_checked_sound [OF heard] by (simp add: run_ok_def)
qed

text \<open>The other events leave the clock; the undo they keep is the old one.\<close>

lemma quiet_step:
  assumes "\<And>i. e \<noteq> Player_frame i" "same_playback_event e s"
  shows "po_lastNow (snd (policy_step e s)) = po_lastNow s" "po_frame (snd (policy_step e s)) = po_frame s" "po_endElapsed (snd (policy_step e s)) = po_endElapsed s"
    "po_offerElapsed (snd (policy_step e s)) = po_offerElapsed s" "po_undo (snd (policy_step e s)) \<in> {po_undo s, None}"
    "po_markers (snd (policy_step e s)) = po_markers s \<or> (\<exists>d. markers_wf d (po_markers (snd (policy_step e s))))" "frame_heard e s = []"
proof -
  show "po_lastNow (snd (policy_step e s)) = po_lastNow s" "po_frame (snd (policy_step e s)) = po_frame s" "po_endElapsed (snd (policy_step e s)) = po_endElapsed s"
    "po_offerElapsed (snd (policy_step e s)) = po_offerElapsed s" "po_undo (snd (policy_step e s)) \<in> {po_undo s, None}"
    "po_markers (snd (policy_step e s)) = po_markers s \<or> (\<exists>d. markers_wf d (po_markers (snd (policy_step e s))))" "frame_heard e s = []"
    using assms
    by (cases e; auto simp: policy_dismiss_def policy_skip_def policy_undoSkip_def policy_cancelAutoplay_def policy_advance_def policy_begin_def Let_def
        dest: queuePlaybackFence_id parseSegmentMarkers_wf split: option.splits sum.splits; fail)+
qed

lemma step_ok:
  assumes ok: "run_ok s frames" and same: "same_playback_event e s"
  shows "run_ok (snd (policy_step e s)) (frame_heard e s @ frames)"
proof (cases "\<exists>i. e = Player_frame i")
  case True
  then obtain i where i: "e = Player_frame i" ..
  show ?thesis unfolding i
  proof (cases rule: heard_cases [of i s])
    case 1
    then show "run_ok (snd (policy_step (Player_frame i) s)) (frame_heard (Player_frame i) s @ frames)" using ok by (simp only: append_Nil snd_conv)
  next
    case (2 now post)
    then show "run_ok (snd (policy_step (Player_frame i) s)) (frame_heard (Player_frame i) s @ frames)" using update_ok [OF 2 ok] by (simp del: policy_step.simps)
  qed
next
  case False
  then have "\<And>i. e \<noteq> Player_frame i" by blast
  note quiet = quiet_step [OF this same]
  have "policy_clock_ok (snd (policy_step e s)) frames" using ok unfolding run_ok_def policy_clock_ok_def quiet(1-4) by blast
  then show ?thesis using ok quiet(6,7) by (auto simp: run_ok_def)
qed

lemma run_sound: "playback_run s frames commands n \<Longrightarrow> run_ok s frames"
proof (induction rule: playback_run.induct)
  case (run_begin f markers duration s s')
  have "\<exists>d. markers_wf d (po_markers s')" using begin_cases [OF run_begin(1)] parseSegmentMarkers_wf by blast
  then show ?case using begin_new [OF run_begin] by (simp add: run_ok_def policy_clock_ok_def)
qed (rule step_ok)

section \<open>Skips\<close>

definition auto_skips :: "string \<Rightarrow> policy_command list \<Rightarrow> nat" where
  "auto_skips j cs = length (filter (\<lambda>c. case c of Seek t r k \<Rightarrow> r = Automatic_skip \<and> k = j | _ \<Rightarrow> False) cs)"

lemma auto_skips_simps [simp]:
  "auto_skips j [] = 0" "auto_skips j (xs @ ys) = auto_skips j xs + auto_skips j ys" "auto_skips j [Expand a] = 0" "auto_skips j [Advance m n] = 0"
  "auto_skips j [Seek t r k] = (if r = Automatic_skip \<and> k = j then 1 else 0)"
  by (simp_all add: auto_skips_def)

lemma advance_skips: "auto_skips j (fst (auto_advance i e b post att c s)) = 0"
  by (auto simp: auto_advance_def Let_def split: option.split)

lemma skip_counts:
  "auto_skips j (fst (auto_skip i now att s)) + (if j \<in> set (po_dismissed s) then 1 else 0) \<le> (if j \<in> set (po_dismissed (snd (auto_skip i now att s))) then 1 else 0)"
  by (auto simp: auto_skip_def dest: activeSegment_in split: option.split)

lemma update_skips:
  assumes heard: "frame_checked i s = Inr (Some (now, post))"
  shows "auto_skips j (fst (policy_step (Player_frame i) s)) + (if j \<in> set (po_dismissed s) then 1 else 0) \<le> (if j \<in> set (po_dismissed (snd (policy_step (Player_frame i) s))) then 1 else 0)"
proof (rule update_heard [OF heard])
  fix s2 s3 s4 offer countdown adv
  assume parts: "s2 = undo_ended now (s\<lparr>po_lastNow := now, po_frame := Some (i\<lparr>fr_postPlay := post\<rparr>)\<rparr>)"
      "s3 = snd (auto_skip i now (frame_attention i post) s2)" "s4 = count_offer i (elapsed_since now s) (po_frame s) offer s3"
      "adv = auto_advance i (elapsed_since now s) (po_frame s) post (frame_attention i post) countdown s4"
    and step: "policy_step (Player_frame i) s =
       (attention_commands i (frame_attention i post) @ fst (auto_skip i now (frame_attention i post) s2) @ fst adv, if fr_ended i then snd adv else (snd adv)\<lparr>po_endElapsed := 0\<rparr>)"
  have same: "po_dismissed s2 = po_dismissed s" "po_dismissed (snd adv) = po_dismissed s3" by (simp_all add: parts update_parts undo_ended_parts)
  have none: "auto_skips j (fst adv) = 0" "auto_skips j (attention_commands i (frame_attention i post)) = 0"
    by (simp_all add: parts(4) advance_skips attention_commands_def split: option.split)
  show ?thesis
    using skip_counts [of j i now "frame_attention i post" s2] same none unfolding step parts(2) [symmetric] by (auto split: if_splits)
qed

lemma step_skips:
  assumes "same_playback_event e s"
  shows "auto_skips j (fst (policy_step e s)) + (if j \<in> set (po_dismissed s) then 1 else 0)
    \<le> (if is_again e then 1 else 0) + (if j \<in> set (po_dismissed (snd (policy_step e s))) then 1 else 0)"
proof (cases "\<exists>i. e = Player_frame i")
  case True
  then obtain i where i: "e = Player_frame i" ..
  show ?thesis unfolding i
    by (cases rule: heard_cases [of i s]) (use update_skips [of i s] in \<open>simp_all del: policy_step.simps add: is_again_def\<close>)
next
  case False
  then show ?thesis
    by (cases e) (auto simp: is_again_def policy_dismiss_def policy_skip_def policy_undoSkip_def policy_cancelAutoplay_def policy_advance_def Let_def split: option.split sum.split)
qed

lemma run_skips: "playback_run s frames commands n \<Longrightarrow> auto_skips j commands \<le> n + (if j \<in> set (po_dismissed s) then 1 else 0)"
proof (induction rule: playback_run.induct)
  case (run_step s frames commands n e)
  then show ?case using step_skips [of e s j] by (auto split: if_splits)
qed simp

section \<open>The skip an undo takes back\<close>

text \<open>Neither an unattended skip nor an undo.\<close>

definition other_command :: "policy_command \<Rightarrow> bool" where
  "other_command c \<longleftrightarrow> (case c of Seek t r j \<Rightarrow> r = Manual_skip | _ \<Rightarrow> True)"

text \<open>
  In a run with these frames and commands, the latest unattended skip that is not undone: the player, expanded, skipped the
  segment \<open>j\<close> at the frame \<open>i\<close>.
\<close>

definition last_skip :: "policy_frame list \<Rightarrow> policy_command list \<Rightarrow> policy_frame \<Rightarrow> string \<Rightarrow> bool" where
  "last_skip frames commands i j \<longleftrightarrow>
     (\<exists>s frames0 commands0 n newer later t. playback_run s frames0 commands0 n
        \<and> frames = newer @ i # frames0 \<and> commands = commands0 @ fst (policy_step (Player_frame i) s) @ later
        \<and> Seek t Automatic_skip j \<in> set (fst (policy_step (Player_frame i) s)) \<and> fr_expanded i \<and> list_all other_command later)"

lemma last_skip_later:
  "last_skip frames commands i j \<Longrightarrow> list_all other_command cs \<Longrightarrow> last_skip (fs @ frames) (commands @ cs) i j"
  unfolding last_skip_def by (metis append.assoc list_all_append)

lemma auto_skip_cases:
  "auto_skip i now att s = ([], s)
   \<or> (\<exists>m t. fst (auto_skip i now att s) = [Seek t Automatic_skip (sm_id m)]
        \<and> po_undo (snd (auto_skip i now att s)) = (if fr_expanded i then Some \<lparr>un_marker = m, un_from = frame_position i, un_until = of_int now + 6000\<rparr> else None))"
  by (auto simp: auto_skip_def frame_position_def UNDO_SECONDS_def split: option.split)

lemma auto_advance_other: "list_all other_command (fst (auto_advance i e b post att c s))"
  by (auto simp: auto_advance_def Let_def other_command_def split: option.split)

lemma attention_other: "list_all other_command (attention_commands i att)"
  by (simp add: attention_commands_def other_command_def split: option.split)

lemma update_undo:
  assumes heard: "frame_checked i s = Inr (Some (now, post))" and undo: "po_undo (snd (policy_step (Player_frame i) s)) = Some u"
  shows "po_undo s = Some u \<and> list_all other_command (fst (policy_step (Player_frame i) s))
    \<or> fr_expanded i \<and> (\<exists>t. Seek t Automatic_skip (sm_id (un_marker u)) \<in> set (fst (policy_step (Player_frame i) s)))
      \<and> un_from u = frame_position i \<and> un_until u = of_int (frame_time i) + 6000"
proof (rule update_heard [OF heard])
  fix s2 s3 s4 offer countdown adv
  assume parts: "s2 = undo_ended now (s\<lparr>po_lastNow := now, po_frame := Some (i\<lparr>fr_postPlay := post\<rparr>)\<rparr>)"
      "s3 = snd (auto_skip i now (frame_attention i post) s2)" "s4 = count_offer i (elapsed_since now s) (po_frame s) offer s3"
      "adv = auto_advance i (elapsed_since now s) (po_frame s) post (frame_attention i post) countdown s4"
    and step: "policy_step (Player_frame i) s =
       (attention_commands i (frame_attention i post) @ fst (auto_skip i now (frame_attention i post) s2) @ fst adv, if fr_ended i then snd adv else (snd adv)\<lparr>po_endElapsed := 0\<rparr>)"
  have now: "now = frame_time i" using frame_checked_time [OF heard] by simp
  have old: "po_undo s2 = Some u \<Longrightarrow> po_undo s = Some u" by (auto simp: parts(1) undo_ended_def split: option.splits if_splits)
  have after: "po_undo s3 = Some u" using undo unfolding step by (simp add: parts(3,4) split: if_splits)
  have adv: "list_all other_command (fst adv)" unfolding parts(4) by (rule auto_advance_other)
  from auto_skip_cases [of i now "frame_attention i post" s2] show ?thesis
  proof (elim disjE exE conjE)
    assume none: "auto_skip i now (frame_attention i post) s2 = ([], s2)"
    then show ?thesis using after old adv attention_other unfolding step parts(2) by simp
  next
    fix m t
    assume skip: "fst (auto_skip i now (frame_attention i post) s2) = [Seek t Automatic_skip (sm_id m)]"
      "po_undo (snd (auto_skip i now (frame_attention i post) s2))
         = (if fr_expanded i then Some \<lparr>un_marker = m, un_from = frame_position i, un_until = of_int now + 6000\<rparr> else None)"
    then show ?thesis using after now unfolding step parts(2) by (auto split: if_splits)
  qed
qed

text \<open>What can be undone is the latest unattended skip.\<close>

definition undo_origin :: "playback_policy \<Rightarrow> policy_frame list \<Rightarrow> policy_command list \<Rightarrow> bool" where
  "undo_origin s frames commands \<longleftrightarrow> (\<forall>u. po_undo s = Some u \<longrightarrow>
     (\<exists>i. last_skip frames commands i (sm_id (un_marker u)) \<and> un_from u = frame_position i \<and> un_until u = of_int (frame_time i) + 6000))"

lemma update_origin:
  assumes run: "playback_run s frames commands n" and origin: "undo_origin s frames commands" and heard: "frame_checked i s = Inr (Some (now, post))"
  shows "undo_origin (snd (policy_step (Player_frame i) s)) (i # frames) (commands @ fst (policy_step (Player_frame i) s))"
  unfolding undo_origin_def
proof (intro allI impI)
  fix u assume "po_undo (snd (policy_step (Player_frame i) s)) = Some u"
  from update_undo [OF heard this]
  show "\<exists>i'. last_skip (i # frames) (commands @ fst (policy_step (Player_frame i) s)) i' (sm_id (un_marker u))
      \<and> un_from u = frame_position i' \<and> un_until u = of_int (frame_time i') + 6000"
  proof (elim disjE conjE exE)
    assume "po_undo s = Some u" "list_all other_command (fst (policy_step (Player_frame i) s))"
    then show ?thesis using origin last_skip_later [of frames commands _ _ "fst (policy_step (Player_frame i) s)" "[i]"] unfolding undo_origin_def by fastforce
  next
    fix t
    assume new: "fr_expanded i" "Seek t Automatic_skip (sm_id (un_marker u)) \<in> set (fst (policy_step (Player_frame i) s))"
      "un_from u = frame_position i" "un_until u = of_int (frame_time i) + 6000"
    have "i # frames = [] @ i # frames" "commands @ fst (policy_step (Player_frame i) s) = commands @ fst (policy_step (Player_frame i) s) @ []" "list_all other_command []" by simp_all
    then have "last_skip (i # frames) (commands @ fst (policy_step (Player_frame i) s)) i (sm_id (un_marker u))"
      unfolding last_skip_def using run new(1,2) by blast
    then show ?thesis using new(3,4) by blast
  qed
qed

lemma quiet_undo:
  assumes "\<And>i. e \<noteq> Player_frame i" "same_playback_event e s" "po_undo (snd (policy_step e s)) = Some u"
  shows "po_undo s = Some u \<and> list_all other_command (fst (policy_step e s))"
proof
  show "po_undo s = Some u" using quiet_step(5) [OF assms(1,2)] assms(3) by auto
  show "list_all other_command (fst (policy_step e s))"
    using assms(1,3) by (cases e) (auto simp: policy_skip_def policy_undoSkip_def policy_advance_def other_command_def Let_def split: option.splits sum.splits if_splits)
qed

lemma run_origin: "playback_run s frames commands n \<Longrightarrow> undo_origin s frames commands"
proof (induction rule: playback_run.induct)
  case (run_begin f markers duration s s')
  then show ?case using begin_new(3) by (simp add: undo_origin_def)
next
  case (run_step s frames commands n e)
  show ?case
  proof (cases "\<exists>i. e = Player_frame i")
    case True
    then obtain i where i: "e = Player_frame i" ..
    show ?thesis unfolding i
    proof (cases rule: heard_cases [of i s])
      case 1
      then show "undo_origin (snd (policy_step (Player_frame i) s)) (frame_heard (Player_frame i) s @ frames) (commands @ fst (policy_step (Player_frame i) s))"
        using run_step.IH by (simp only: append_Nil append_Nil2 fst_conv snd_conv)
    next
      case (2 now post)
      then show "undo_origin (snd (policy_step (Player_frame i) s)) (frame_heard (Player_frame i) s @ frames) (commands @ fst (policy_step (Player_frame i) s))"
        using update_origin [OF run_step.hyps(1) run_step.IH 2] by (simp del: policy_step.simps)
    qed
  next
    case False
    then have "\<And>i. e \<noteq> Player_frame i" by blast
    note quiet = quiet_undo [OF this run_step.hyps(2)] quiet_step(7) [OF this run_step.hyps(2)]
    show ?thesis unfolding undo_origin_def quiet(2) append_Nil
    proof (intro allI impI)
      fix u assume "po_undo (snd (policy_step e s)) = Some u"
      from quiet(1) [OF this]
      show "\<exists>i. last_skip frames (commands @ fst (policy_step e s)) i (sm_id (un_marker u)) \<and> un_from u = frame_position i \<and> un_until u = of_int (frame_time i) + 6000"
        using run_step.IH last_skip_later [of frames commands _ _ "fst (policy_step e s)" "[]"] unfolding undo_origin_def by fastforce
    qed
  qed
qed

end
