(* ===== verification/Playback_Properties.thy ===== *)
theory Playback_Properties
  imports Playback_Promises
begin

text \<open>The properties of the playback policy, and a playback in which each is applied.\<close>

section \<open>The reasons of a command\<close>

lemma auto_advance_reason:
  assumes "Advance mode n \<in> set (fst (auto_advance i e before post att c s))"
  shows "mode = Automatic_advance \<and> \<not> po_advanced s \<and> \<not> po_cancelled s \<and> att = None \<and> (\<exists>p. post = Some p \<and> pp_available p \<and> pp_nextEntryId p = Some n
    \<and> (fr_ended i \<and> pp_autoplay p \<and> \<not> pp_passoutCheckDue p \<and> pp_countdownSeconds p \<le> po_endElapsed (snd (auto_advance i e before post att c s))
       \<or> \<not> fr_ended i \<and> (\<exists>k. c = Some k \<and> uc_automatic k \<and> uc_seconds k \<le> 0)))"
  using assms by (auto simp: auto_advance_def Let_def split: option.splits if_splits)

lemma countdown_reason:
  assumes "offer_countdown i post off s = Some k" "uc_automatic k" "uc_seconds k \<le> 0"
  shows "\<exists>p m o'. post = Some p \<and> off = Some o' \<and> uo_marker o' = Some m \<and> pp_autoplay p \<and> pp_startDuringCredits p \<and> sm_automaticSafe m
    \<and> \<not> followedByScene m (rat_of_num (fr_duration i)) \<and> pp_countdownSeconds p \<le> po_offerElapsed s"
  using assms
  by (auto simp: offer_countdown_def upNextCountdown_def Let_def ceiling_le_iff max_def split: option.splits if_splits)

lemma offer_reason:
  assumes "upNextOffer u = Some o'" "uo_marker o' = Some m"
  shows "m \<in> set (ui_markers u) \<and> closingKind (sm_kind m) \<and> ui_duration u / 2 \<le> sm_start m \<and> sm_start m \<le> ui_position u \<and> ui_position u < sm_end m - 1 / 2
    \<and> \<not> ui_passoutDue u"
  using assms by (auto simp: upNextOffer_def Let_def closing_markers_def find_Some_iff split: option.splits if_splits dest!: nth_mem)

lemma checked_post: "frame_checked i s = Inr (Some (now, post)) \<Longrightarrow> post = fr_postPlay i"
  by (auto simp: frame_checked_def parseQueuePostPlay_def split: if_splits sum.splits option.splits)

lemma no_attention: "frame_attention i post = None \<Longrightarrow> fr_attention i = None"
  by (simp add: frame_attention_def split: option.splits)

lemma auto_skip_reason:
  assumes "Seek t r j \<in> set (fst (auto_skip i now att s))"
  shows "r = Automatic_skip \<and> fr_playing i \<and> (\<exists>m. activeSegment (po_markers s) (frame_position i) (fr_modes i) (po_dismissed s) = Some m
    \<and> sm_id m = j \<and> skipsAutomatically m (fr_modes i) \<and> t = skipTarget m (Some (rat_of_num (fr_duration i))))"
  using assms by (auto simp: auto_skip_def frame_position_def split: option.splits if_splits)

lemma auto_advance_seeks: "Seek t r j \<notin> set (fst (auto_advance i e before post att c s))"
  by (auto simp: auto_advance_def Let_def split: option.split)

lemma auto_skip_advance: "Advance mode n \<notin> set (fst (auto_skip i now att s))"
  by (auto simp: auto_skip_def split: option.split)

section \<open>The advance of an update\<close>

lemma update_advance_reason:
  assumes heard: "frame_checked i s = Inr (Some (now, post))" and ok: "run_ok s frames"
    and advance: "Advance mode n \<in> set (fst (policy_step (Player_frame i) s))"
  shows "mode = Automatic_advance \<and> \<not> po_advanced s \<and> \<not> po_cancelled s \<and> fr_attention i = None \<and> (\<exists>p. fr_postPlay i = Some p \<and> pp_available p \<and> pp_nextEntryId p = Some n
    \<and> pp_autoplay p \<and> \<not> pp_passoutCheckDue p
    \<and> (if fr_ended i then pp_countdownSeconds p * 1000 \<le> of_int (ended_span (i # frames))
       else pp_startDuringCredits p \<and> pp_countdownSeconds p * 1000 \<le> of_int (playing_time (i # frames))
         \<and> (\<exists>m \<in> set (po_markers s). closingKind (sm_kind m) \<and> sm_automaticSafe m \<and> rat_of_num (fr_duration i) / 2 \<le> sm_start m
              \<and> sm_start m \<le> frame_position i \<and> frame_position i < sm_end m - 1 / 2 \<and> \<not> followedByScene m (rat_of_num (fr_duration i)))))"
proof (rule update_heard [OF heard])
  fix s2 s3 s4 offer countdown adv
  assume parts: "s2 = undo_ended now (s\<lparr>po_lastNow := now, po_frame := Some (i\<lparr>fr_postPlay := post\<rparr>)\<rparr>)"
      "s3 = snd (auto_skip i now (frame_attention i post) s2)" "offer = frame_offer i post (frame_attention i post) (po_markers s3)"
      "s4 = count_offer i (elapsed_since now s) (po_frame s) offer s3" "countdown = offer_countdown i post (visible_offer offer s4) s4"
      "adv = auto_advance i (elapsed_since now s) (po_frame s) post (frame_attention i post) countdown s4"
    and step: "policy_step (Player_frame i) s =
       (attention_commands i (frame_attention i post) @ fst (auto_skip i now (frame_attention i post) s2) @ fst adv, if fr_ended i then snd adv else (snd adv)\<lparr>po_endElapsed := 0\<rparr>)"
  have clock: "policy_clock_ok (snd (policy_step (Player_frame i) s)) (i # frames)" using update_clock [OF heard] ok by (simp add: run_ok_def)
  have same: "po_advanced s4 = po_advanced s" "po_cancelled s4 = po_cancelled s" "po_markers s3 = po_markers s" "po_offerElapsed (snd adv) = po_offerElapsed s4"
    by (simp_all add: parts(1,2,4,6) update_parts undo_ended_parts)
  have "Advance mode n \<in> set (fst adv)"
    using advance auto_skip_advance unfolding step by (auto simp: attention_commands_def split: option.splits if_splits)
  note reason = auto_advance_reason [OF this [unfolded parts(6)], folded parts(6), unfolded same(1,2)]
  have attention: "fr_attention i = None" using reason no_attention by blast
  note post = checked_post [OF heard]
  obtain p where p: "fr_postPlay i = Some p" "pp_available p" "pp_nextEntryId p = Some n" using reason post by auto
  show ?thesis
  proof (cases "fr_ended i")
    case True
    have "po_endElapsed (snd adv) * 1000 \<le> of_int (ended_span (i # frames))" using clock True unfolding step by (simp add: policy_clock_ok_def)
    moreover have "pp_autoplay p \<and> \<not> pp_passoutCheckDue p \<and> pp_countdownSeconds p \<le> po_endElapsed (snd adv)" using reason p True post by auto
    ultimately show ?thesis using reason attention p True by auto
  next
    case False
    obtain k where k: "countdown = Some k" "uc_automatic k" "uc_seconds k \<le> 0" using reason False by auto
    obtain m o' where m: "visible_offer offer s4 = Some o'" "uo_marker o' = Some m" "pp_autoplay p" "pp_startDuringCredits p" "sm_automaticSafe m"
        "\<not> followedByScene m (rat_of_num (fr_duration i))" "pp_countdownSeconds p \<le> po_offerElapsed s4"
      using countdown_reason [OF k(1) [unfolded parts(5)] k(2,3)] p(1) post by auto
    have "offer = Some o'" using m(1) by (auto simp: visible_offer_def split: option.splits if_splits)
    then have "m \<in> set (po_markers s) \<and> closingKind (sm_kind m) \<and> rat_of_num (fr_duration i) / 2 \<le> sm_start m \<and> sm_start m \<le> frame_position i \<and> frame_position i < sm_end m - 1 / 2
        \<and> \<not> pp_passoutCheckDue p"
      using offer_reason [OF _ m(2)] p(1) post same(3) unfolding parts(3) by (fastforce simp: frame_offer_def frame_position_def split: option.splits if_splits)
    moreover have "po_offerElapsed s4 * 1000 \<le> of_int (playing_time (i # frames))" using clock False same(4) unfolding step by (simp add: policy_clock_ok_def)
    ultimately show ?thesis using reason attention p m False by auto
  qed
qed

section \<open>Where a command lands\<close>

text \<open>
  Where a skip of \<open>m\<close> from the position \<open>p\<close> lands, in a title of the duration \<open>d\<close> (0 while it is not known). Closing
  segments are left at their end; the others a second before it, or at the start of a segment that is shorter, and never
  behind the end of the title. That end may be up to a millisecond before the segment, as the position may be behind it by that much.
\<close>

definition lands_in :: "segment_marker \<Rightarrow> rat \<Rightarrow> rat \<Rightarrow> rat \<Rightarrow> bool" where
  "lands_in m d p t \<longleftrightarrow>
     sm_start m - 1 / 1000 \<le> t \<and> t \<le> sm_end m \<and> p - 1 / 2 < t
     \<and> (if closingKind (sm_kind m) then t = sm_end m
        else t < sm_end m \<and> (t = max (sm_start m) (sm_end m - 1) \<or> 0 < d \<and> t = d \<and> t < max (sm_start m) (sm_end m - 1)))"

lemma skipTarget_lands:
  assumes "sm_start m \<le> p" "p < sm_end m - 1 / 2" "sm_start m < sm_end m" "0 < d \<Longrightarrow> p \<le> d + 1 / 1000"
  shows "lands_in m d p (skipTarget m (Some d))"
  using assms by (auto simp: lands_in_def skipTarget_def Let_def SKIP_LEAD_SECONDS_def max_def min_def)

abbreviation frame_duration :: "policy_frame \<Rightarrow> rat" where
  "frame_duration i \<equiv> rat_of_num (fr_duration i)"

lemma lands_in_segment:
  assumes "activeSegment markers (frame_position i) modes dismissed = Some m" "markers_wf d markers" "frame_sound i"
  shows "m \<in> set markers \<and> sm_id m \<notin> set dismissed \<and> mode_of modes (sm_kind m) \<noteq> Skip_off \<and> sm_start m \<le> frame_position i \<and> frame_position i < sm_end m - 1 / 2
    \<and> lands_in m (frame_duration i) (frame_position i) (skipTarget m (Some (frame_duration i)))"
proof -
  note m = activeSegment_in [OF assms(1)]
  have "sm_start m < sm_end m" using m assms(2) by (auto simp: markers_wf_def)
  then show ?thesis using m skipTarget_lands [of m "frame_position i" "frame_duration i"] assms(3) by (auto simp: frame_sound_def)
qed

text \<open>What a seek may be: an unattended skip, a skip the viewer asked for, or its undoing.\<close>

definition seek_justified :: "playback_policy \<Rightarrow> policy_frame list \<Rightarrow> policy_command list \<Rightarrow> policy_event \<Rightarrow> rat \<Rightarrow> seek_reason \<Rightarrow> string \<Rightarrow> bool" where
  "seek_justified s frames commands e t r j \<longleftrightarrow>
     (case r of
        Automatic_skip \<Rightarrow> \<exists>i. e = Player_frame i \<and> fr_playing i \<and> (\<exists>m \<in> set (po_markers s). sm_id m = j \<and> j \<notin> set (po_dismissed s) \<and> skipsAutomatically m (fr_modes i)
          \<and> sm_start m \<le> frame_position i \<and> frame_position i < sm_end m - 1 / 2 \<and> lands_in m (frame_duration i) (frame_position i) t)
      | Manual_skip \<Rightarrow> \<exists>f expected. e = Viewer_skips f expected \<and> (\<exists>i rest. frames = i # rest \<and> fr_expanded i
          \<and> (\<exists>m \<in> set (po_markers s). sm_id m = j \<and> j \<notin> set (po_dismissed s) \<and> mode_of (fr_modes i) (sm_kind m) \<noteq> Skip_off
          \<and> sm_start m \<le> frame_position i \<and> frame_position i < sm_end m - 1 / 2 \<and> lands_in m (frame_duration i) (frame_position i) t))
      | Undo_skip \<Rightarrow> \<exists>f now i. e = Viewer_undoes f now \<and> last_skip frames commands i j \<and> t = frame_position i \<and> int_of now < frame_time i + 6000)"

lemma update_seek:
  assumes heard: "frame_checked i s = Inr (Some (now, post))" and ok: "run_ok s frames" and seek: "Seek t r j \<in> set (fst (policy_step (Player_frame i) s))"
  shows "seek_justified s frames commands (Player_frame i) t r j"
proof (rule update_heard [OF heard])
  fix s2 adv countdown s4
  assume parts: "s2 = undo_ended now (s\<lparr>po_lastNow := now, po_frame := Some (i\<lparr>fr_postPlay := post\<rparr>)\<rparr>)"
      "adv = auto_advance i (elapsed_since now s) (po_frame s) post (frame_attention i post) countdown s4"
    and step: "policy_step (Player_frame i) s =
       (attention_commands i (frame_attention i post) @ fst (auto_skip i now (frame_attention i post) s2) @ fst adv, if fr_ended i then snd adv else (snd adv)\<lparr>po_endElapsed := 0\<rparr>)"
  have same: "po_markers s2 = po_markers s" "po_dismissed s2 = po_dismissed s" by (simp_all add: parts undo_ended_parts)
  have "Seek t r j \<in> set (fst (auto_skip i now (frame_attention i post) s2))"
    using seek auto_advance_seeks unfolding step parts(2) by (auto simp: attention_commands_def split: option.splits if_splits)
  note reason = auto_skip_reason [OF this, unfolded same]
  obtain d where wf: "markers_wf d (po_markers s)" using ok by (auto simp: run_ok_def)
  show ?thesis using reason lands_in_segment [OF _ wf frame_checked_sound [OF heard]] by (fastforce simp: seek_justified_def)
qed

lemma step_seek:
  assumes run: "playback_run s frames commands n" and seek: "Seek t r j \<in> set (fst (policy_step e s))"
  shows "seek_justified s frames commands e t r j"
proof -
  note ok = run_sound [OF run]
  show ?thesis
  proof (cases e)
    case (Player_frame i)
    show ?thesis unfolding Player_frame
    proof (cases rule: heard_cases [of i s])
      case 1
      then show "seek_justified s frames commands (Player_frame i) t r j" using seek unfolding Player_frame by (simp only: fst_conv list.set empty_iff)
    next
      case (2 now post)
      show "seek_justified s frames commands (Player_frame i) t r j" by (rule update_seek [OF 2 ok seek [unfolded Player_frame]])
    qed
  next
    case (Viewer_skips f expected)
    obtain g m where g: "po_frame s = Some g" "fr_expanded g" "activeSegment (po_markers s) (frame_position g) (fr_modes g) (po_dismissed s) = Some m" "sm_id m = j"
        "t = skipTarget m (Some (rat_of_num (fr_duration g)))" "r = Manual_skip"
      using seek unfolding Viewer_skips by (auto simp: policy_skip_def policy_frame_open_def frame_position_def split: option.splits if_splits)
    obtain i rest post where i: "frames = i # rest" "g = i\<lparr>fr_postPlay := post\<rparr>" using ok g(1) by (auto simp: run_ok_def policy_clock_ok_def split: list.splits)
    obtain d where wf: "markers_wf d (po_markers s)" using ok by (auto simp: run_ok_def)
    have "frame_sound i" using ok i(1) by (simp add: run_ok_def)
    moreover have same: "frame_position g = frame_position i" "fr_duration g = fr_duration i" "fr_modes g = fr_modes i" "fr_expanded i" using i(2) g(2) by (simp_all add: frame_position_def)
    ultimately show ?thesis using lands_in_segment [OF g(3) [unfolded same] wf] g i(1) unfolding Viewer_skips by (auto simp: seek_justified_def same)
  next
    case (Viewer_undoes f nowMs)
    obtain u where u: "po_undo s = Some u" "t = un_from u" "r = Undo_skip" "j = sm_id (un_marker u)" "of_int (int_of nowMs) < un_until u"
      using seek unfolding Viewer_undoes by (auto simp: policy_undoSkip_def clockMs_def split: option.splits sum.splits if_splits)
    obtain i where i: "last_skip frames commands i (sm_id (un_marker u))" "un_from u = frame_position i" "un_until u = of_int (frame_time i) + 6000"
      using run_origin [OF run] u(1) by (auto simp: undo_origin_def)
    have "int_of nowMs < frame_time i + 6000" using u(5) i(3) by (metis of_int_add of_int_less_iff of_int_numeral)
    then show ?thesis using u i unfolding Viewer_undoes by (auto simp: seek_justified_def)
  qed (use seek in \<open>auto simp: policy_advance_def Let_def split: option.splits if_splits prod.splits\<close>)
qed

section \<open>An example playback\<close>

definition example_scope :: queue_scope where
  "example_scope = \<lparr>sc_serverId = ''a'', sc_authority = Hosted_session, sc_accountId = ''b'', sc_profileId = ''c'', sc_controllerId = ''d'', sc_controllerEpoch = ''e'', sc_commandLaneId = ''f''\<rparr>"

definition example_fence :: queue_fence where
  "example_fence = \<lparr>qf_playback = \<lparr>pi_scope = example_scope, pi_run = Fin 1\<rparr>, qf_sessionId = ''s'', qf_itemId = ''i'', qf_sourceId = ''o'', qf_entryId = ''q'', qf_showId = None,
     qf_seasonId = None, qf_generation = Fin 1\<rparr>"

definition example_marker :: "string \<Rightarrow> string \<Rightarrow> rat \<Rightarrow> rat \<Rightarrow> jsval" where
  "example_marker i k a b = JObj [(''id'', JStr i), (''kind'', JStr k), (''startSeconds'', JNum (Fin a)), (''endSeconds'', JNum (Fin b)), (''automaticSafe'', JBool True)]"

definition example_frame :: "int \<Rightarrow> rat \<Rightarrow> policy_frame" where
  "example_frame now position = \<lparr>fr_fence = Queue_fence example_fence, fr_nowMs = Fin (of_int now), fr_position = Fin position, fr_duration = Fin 200, fr_rate = Fin 1,
     fr_playing = True, fr_expanded = True, fr_ended = False, fr_kind = ''episode'', fr_modes = (\<lambda>k. if k = ''intro'' then Some Skip_auto else None),
     fr_postPlay = Some \<lparr>pp_nextEntryId = Some ''n'', pp_available = True, pp_reason = Next_ready, pp_countdownSeconds = 5, pp_autoplay = True, pp_passoutCheckDue = False,
       pp_automaticAdvances = Fin 0, pp_startDuringCredits = True\<rparr>, fr_attention = None\<rparr>"

definition example_begun :: playback_policy where
  "example_begun = snd (policy_begin example_fence (JArr [example_marker ''m'' ''intro'' 10 40, example_marker ''k'' ''credits'' 150 200]) (Some (Fin 200)) new_policy)"

text \<open>The intro is skipped; the credits begin; the countdown runs out.\<close>

definition intro_reached :: policy_event where "intro_reached = Player_frame (example_frame 1000 10)"
definition credits_reached :: policy_event where "credits_reached = Player_frame (example_frame 10000 150)"
definition credits_counted :: policy_event where "credits_counted = Player_frame (example_frame 16000 156)"

lemma example_accepted: "fst (policy_begin example_fence (JArr [example_marker ''m'' ''intro'' 10 40, example_marker ''k'' ''credits'' 150 200]) (Some (Fin 200)) new_policy) = fst (Inr (), example_begun)"
  by code_simp

lemma example_begin: "policy_begin example_fence (JArr [example_marker ''m'' ''intro'' 10 40, example_marker ''k'' ''credits'' 150 200]) (Some (Fin 200)) new_policy = (Inr (), example_begun)"
  by (rule prod_eqI [OF example_accepted]) (simp add: example_begun_def)

lemma example_run:
  "playback_run example_begun [] [] 0"
  "playback_run (snd (policy_step credits_reached example_begun)) (frame_heard credits_reached example_begun) (fst (policy_step credits_reached example_begun)) 0"
proof -
  show start: "playback_run example_begun [] [] 0" by (rule run_begin [OF example_begin]) (simp add: new_policy_def)
  show "playback_run (snd (policy_step credits_reached example_begun)) (frame_heard credits_reached example_begun) (fst (policy_step credits_reached example_begun)) 0"
    using run_step [OF start, of credits_reached] by (simp add: credits_reached_def is_again_def del: policy_step.simps frame_heard.simps)
qed

lemma example_skips: "fst (policy_step intro_reached example_begun) = [Seek 39 Automatic_skip ''m'']"
  by code_simp

lemma example_advances: "fst (policy_step credits_counted (snd (policy_step credits_reached example_begun))) = [Advance Automatic_advance ''n'']"
  by code_simp

section \<open>The properties\<close>

text \<open>C20. The next title is started at most once in a playback, however the frames of the player and the actions
  of the viewer (skipping, dismissing, cancelling, advancing, reading the markers again) follow each other.\<close>

theorem advances_at_most_once:
  assumes "playback_run s frames commands n"
  shows "advances commands \<le> 1"
  using run_advances [OF assms] by simp

theorem advances_at_most_once_witness:
  "advances (fst (policy_step credits_reached example_begun)) \<le> 1"
  by (rule advances_at_most_once [OF example_run(2)])

text \<open>C16. The next title never starts by itself unless it should: automatic starts need the server's autoplay, no
  pending still-watching check, no attention card, no earlier start and no cancellation, and they start the entry the
  server named. At the end of the title the player has been at its end for at least the countdown; before it, the
  viewer allowed starts during credits, the position is in closing credits of the second half that the server is sure
  of, no scene follows them, and the player has played for at least the countdown.\<close>

theorem automatic_advance_earned:
  assumes "playback_run s frames commands n" "Advance mode next' \<in> set (fst (policy_step (Player_frame i) s))"
  shows "mode = Automatic_advance \<and> \<not> po_advanced s \<and> \<not> po_cancelled s \<and> fr_attention i = None
    \<and> (\<exists>p. fr_postPlay i = Some p \<and> pp_available p \<and> pp_nextEntryId p = Some next' \<and> pp_autoplay p \<and> \<not> pp_passoutCheckDue p
       \<and> (if fr_ended i then pp_countdownSeconds p * 1000 \<le> of_int (ended_span (i # frames))
          else pp_startDuringCredits p \<and> pp_countdownSeconds p * 1000 \<le> of_int (playing_time (i # frames))
            \<and> (\<exists>m \<in> set (po_markers s). closingKind (sm_kind m) \<and> sm_automaticSafe m \<and> rat_of_num (fr_duration i) / 2 \<le> sm_start m
                 \<and> sm_start m \<le> frame_position i \<and> frame_position i < sm_end m - 1 / 2 \<and> \<not> followedByScene m (rat_of_num (fr_duration i)))))"
proof (cases rule: heard_cases [of i s])
  case 1
  then show ?thesis using assms(2) by (simp only: fst_conv list.set empty_iff)
next
  case (2 now post)
  show ?thesis by (rule update_advance_reason [OF 2 run_sound [OF assms(1)] assms(2)])
qed

theorem automatic_advance_earned_witness:
  "fr_attention (example_frame 16000 156) = None \<and> \<not> po_cancelled (snd (policy_step credits_reached example_begun))"
  using automatic_advance_earned [OF example_run(2), of Automatic_advance "''n''" "example_frame 16000 156"] example_advances
  unfolding credits_counted_def by (metis list.set_intros(1))

text \<open>A segment is skipped without asking at most once in a playback, once more for each time its markers are read
  again: once skipped, undone, skipped by hand or dismissed, it is left alone.\<close>

theorem skips_itself_once:
  assumes "playback_run s frames commands n"
  shows "auto_skips j commands \<le> Suc n"
  using run_skips [OF assms, of j] by (auto split: if_splits)

theorem skips_itself_once_witness:
  "auto_skips ''m'' (fst (policy_step credits_reached example_begun)) \<le> Suc 0"
  by (rule skips_itself_once [OF example_run(2)])

lemma example_undo:
  "playback_run (snd (policy_step intro_reached example_begun)) [example_frame 1000 10] [Seek 39 Automatic_skip ''m''] 0"
  "fst (policy_step (Viewer_undoes (Queue_fence example_fence) (Fin 3000)) (snd (policy_step intro_reached example_begun))) = [Seek 10 Undo_skip ''m'']"
proof -
  have "(case frame_checked (example_frame 1000 10) example_begun of Inr (Some r) \<Rightarrow> True | _ \<Rightarrow> False)" by code_simp
  then have "frame_heard intro_reached example_begun = [example_frame 1000 10]"
    by (auto simp: intro_reached_def split: sum.splits option.splits)
  moreover have "\<not> is_again intro_reached" "same_playback_event intro_reached example_begun" by (simp_all add: intro_reached_def is_again_def)
  ultimately show "playback_run (snd (policy_step intro_reached example_begun)) [example_frame 1000 10] [Seek 39 Automatic_skip ''m''] 0"
    using run_step [OF example_run(1), of intro_reached] by (simp add: example_skips)
  show "fst (policy_step (Viewer_undoes (Queue_fence example_fence) (Fin 3000)) (snd (policy_step intro_reached example_begun))) = [Seek 10 Undo_skip ''m'']"
    by code_simp
qed

text \<open>C29. Every seek is justified. An unattended skip happens while playing, inside a segment that is still offered, that
  the viewer wants skipped and the server calls safe; a skip by hand inside a segment that is still offered on the
  expanded player. Both land in the segment: closing credits at their end, anything else a second before its end (at the
  start of a shorter one), unless the title ends before that. They go back by less than half a second, and before the start of the
  segment by at most the millisecond a position may be behind the title's end. An undo takes back the latest unattended skip, which it
  names, if it happened on the expanded player, was not taken back yet and is less than six seconds old; it returns to the position that was skipped from.\<close>

theorem seeks_justified:
  assumes "playback_run s frames commands n" "Seek t r j \<in> set (fst (policy_step e s))"
  shows "seek_justified s frames commands e t r j"
  by (rule step_seek [OF assms])

theorem seeks_justified_witness:
  "last_skip [example_frame 1000 10] [Seek 39 Automatic_skip ''m''] (example_frame 1000 10) ''m''"
proof -
  have "Seek 10 Undo_skip ''m'' \<in> set (fst (policy_step (Viewer_undoes (Queue_fence example_fence) (Fin 3000)) (snd (policy_step intro_reached example_begun))))"
    unfolding example_undo(2) by simp
  from seeks_justified [OF example_undo(1) this]
  obtain i where "last_skip [example_frame 1000 10] [Seek 39 Automatic_skip ''m''] i ''m''" by (auto simp: seek_justified_def)
  moreover have "newer @ i # older = [example_frame 1000 10] \<Longrightarrow> i = example_frame 1000 10" for newer older by (cases newer) auto
  ultimately show ?thesis unfolding last_skip_def by metis
qed

end
