(* ===== verification/Playback_Dock.thy ===== *)
theory Playback_Dock
  imports Playback_Identity
begin

text \<open>
  The dock of the player (\<open>PlaybackDock\<close> of \<open>packages/player-core/src/dock.ts\<close>) and the queue snapshot it carries
  (\<open>queues.ts\<close>): who occupies the player, here or on a receiver, and what is parked behind it. A transition gives
  its effects, or \<open>Inl\<close> when it throws, which leaves the state. Arguments have their declared types.
\<close>

section \<open>Queue snapshots\<close>

datatype queue_source_kind = From_item | From_playlist | From_album | From_artist | From_book | From_collection

record queue_source =
  qo_kind :: queue_source_kind
  qo_id :: string
  qo_revision :: "string option"
  qo_entryId :: "string option"

record queue_item =
  qi_itemId :: string
  qi_editionId :: "string option"
  qi_partId :: "string option"
  qi_source :: queue_source

text \<open>A hidden entry has no item; only a hidden one may be pending.\<close>

record queue_entry =
  qe_id :: string
  qe_removed :: bool
  qe_item :: "queue_item option"
  qe_pending :: bool

record edit_receipt =
  er_operationId :: string
  er_sequence :: string
  er_accepted :: bool
  er_acceptedRevision :: "string option"
  er_replayed :: bool
  er_bodyCompacted :: bool

datatype queue_repeat = Repeat_off | Repeat_one | Repeat_all

record queue_snapshot =
  qn_id :: string
  qn_scope :: queue_scope
  qn_revision :: string
  qn_highestSeenSequence :: string
  qn_editReceipt :: "edit_receipt option"
  qn_repeat :: queue_repeat
  qn_shuffled :: bool
  qn_currentEntryId :: "string option"
  qn_currentPlaybackId :: "string option"
  qn_entries :: "queue_entry list"

text \<open>\<open>counter\<close> of \<open>queues.ts\<close> has no zero.\<close>

definition queue_counter :: "string \<Rightarrow> bool" where
  "queue_counter s \<longleftrightarrow> counter_ok s \<and> s \<noteq> ''0''"

definition queueSequence :: "string \<Rightarrow> bool" where
  "queueSequence s \<longleftrightarrow> s = ''0'' \<or> queue_counter s"

definition receipt_ok :: "string \<Rightarrow> string \<Rightarrow> edit_receipt \<Rightarrow> bool" where
  "receipt_ok revision highest r \<longleftrightarrow>
     wireId (er_operationId r) \<and> queue_counter (er_sequence r) \<and> numeral_value (er_sequence r) \<le> numeral_value highest
     \<and> (er_bodyCompacted r \<longrightarrow> er_replayed r)
     \<and> (if er_accepted r then (case er_acceptedRevision r of Some a \<Rightarrow> queue_counter a \<and> numeral_value a \<le> numeral_value revision | None \<Rightarrow> False)
        else er_acceptedRevision r = None)"

definition entry_accepted :: "queue_entry \<Rightarrow> bool" where
  "entry_accepted e \<longleftrightarrow> wireId (qe_id e) \<and> \<not> qe_pending e
     \<and> (case qe_item e of None \<Rightarrow> True
        | Some i \<Rightarrow> wireId (qi_itemId i) \<and> absent_or wireId (qi_editionId i) \<and> absent_or wireId (qi_partId i)
            \<and> wireId (qo_id (qi_source i)) \<and> absent_or queue_counter (qo_revision (qi_source i)) \<and> absent_or wireId (qo_entryId (qi_source i)))"

definition parseQueueSnapshot :: "queue_snapshot \<Rightarrow> queue_scope \<Rightarrow> string option \<Rightarrow> player_state_error + queue_snapshot" where
  "parseQueueSnapshot v bound queueId =
     and_then (queueScope bound) (\<lambda>scope.
     and_then (require Invalid_player_state (wireId (qn_id v) \<and> (case queueId of Some i \<Rightarrow> qn_id v = i | None \<Rightarrow> True) \<and> sameScope (qn_scope v) scope
       \<and> queue_counter (qn_revision v) \<and> absent_or wireId (qn_currentEntryId v) \<and> absent_or wireId (qn_currentPlaybackId v) \<and> length (qn_entries v) \<le> 1000
       \<and> queueSequence (qn_highestSeenSequence v)
       \<and> absent_or (receipt_ok (qn_revision v) (qn_highestSeenSequence v)) (qn_editReceipt v)
       \<and> list_all entry_accepted (qn_entries v)
       \<and> distinct (List.map qe_id (qn_entries v)) \<and> list_all (\<lambda>e. qe_removed e \<longrightarrow> qn_currentEntryId v = Some (qe_id e)) (qn_entries v)
       \<and> (case qn_currentEntryId v of Some c \<Rightarrow> list_ex (\<lambda>e. qe_id e = c) (qn_entries v) | None \<Rightarrow> True)
       \<and> (qn_currentEntryId v = None \<longleftrightarrow> qn_currentPlaybackId v = None))) (\<lambda>_. Inr (v\<lparr>qn_scope := scope\<rparr>)))"

section \<open>The dock\<close>

datatype dock_kind = Video_dock | Live_dock | Music_dock | Audiobook_dock

record dock_playback =
  dp_kind :: dock_kind
  dp_fence :: playback_fence
  dp_queue :: "queue_snapshot option"
  dp_position :: js_num
  dp_playing :: bool
  dp_expanded :: bool

datatype remote_kind = Cast_remote | Play_on_remote
datatype remote_phase = Remote_connecting | Remote_pairing | Remote_waiting | Remote_playing | Remote_stopped | Remote_replaced | Remote_error

record remote_dock =
  rm_id :: string
  rm_kind :: remote_kind
  rm_phase :: remote_phase
  rm_sequence :: string
  rm_playback :: dock_playback
  rm_position :: js_num
  rm_stoppedAtMs :: "int option"

record dock_state =
  ds_local :: "dock_playback option"
  ds_parkedAudio :: "dock_playback option"
  ds_resumeVideo :: "dock_playback option"
  ds_remote :: "remote_dock option"

datatype dock_effect = Pause_effect dock_playback | Stop_effect dock_playback | Restore_effect dock_playback

record playback_dock =
  pd_scope :: queue_scope
  pd_localScope :: "local_scope option"
  pd_state :: dock_state
  pd_localRetired :: bool
  pd_remoteNow :: int

type_synonym dock_transition = "(player_state_error + dock_effect list) \<times> playback_dock"

definition audio_playback :: "dock_playback \<Rightarrow> bool" where
  "audio_playback p \<longleftrightarrow> dp_kind p = Music_dock \<or> dp_kind p = Audiobook_dock"

definition paused :: "dock_playback \<Rightarrow> dock_playback" where
  "paused p = p\<lparr>dp_playing := False, dp_expanded := False\<rparr>"

definition empty_dock :: dock_state where
  "empty_dock = \<lparr>ds_local = None, ds_parkedAudio = None, ds_resumeVideo = None, ds_remote = None\<rparr>"

definition capturedLocalScope :: "queue_scope \<Rightarrow> local_scope option \<Rightarrow> player_state_error + local_scope option" where
  "capturedLocalScope scope value =
     (case value of
        None \<Rightarrow> Inr None
      | Some v \<Rightarrow> and_then (localPlaybackScope v) (\<lambda>l.
          if ls_serverId l = sc_serverId scope \<and> ls_authority l = sc_authority scope \<and> ls_accountId l = sc_accountId scope \<and> ls_profileId l = sc_profileId scope
          then Inr (Some l) else Inl Invalid_player_state))"

definition new_dock :: "queue_scope \<Rightarrow> local_scope option \<Rightarrow> player_state_error + playback_dock" where
  "new_dock scope localScope =
     and_then (queueScope scope) (\<lambda>sc. and_then (capturedLocalScope sc localScope) (\<lambda>l.
       Inr \<lparr>pd_scope = sc, pd_localScope = l, pd_state = empty_dock, pd_localRetired = False, pd_remoteNow = -1\<rparr>))"

text \<open>The fence belongs to the identity the dock is bound to.\<close>

definition fence_here :: "playback_dock \<Rightarrow> playback_fence \<Rightarrow> bool" where
  "fence_here d f = (case f of
     Local_fence l \<Rightarrow> (case pd_localScope d of Some s \<Rightarrow> sameLocalScope (li_scope (lf_playback l)) s | None \<Rightarrow> False)
   | Queue_fence q \<Rightarrow> sameScope (pi_scope (qf_playback q)) (pd_scope d)
   | Channel_fence c \<Rightarrow> sameScope (pi_scope (cf_playback c)) (pd_scope d))"

definition dock_checked :: "playback_dock \<Rightarrow> dock_playback \<Rightarrow> player_state_error + dock_playback" where
  "dock_checked d p =
     and_then (playbackFence (dp_fence p)) (\<lambda>fence.
     and_then (require Invalid_player_state (fence_here d fence \<and> seconds_ok (dp_position p))) (\<lambda>_.
     if dp_kind p = Live_dock
     then (case fence of Channel_fence _ \<Rightarrow> if dp_queue p = None then Inr (p\<lparr>dp_fence := fence\<rparr>) else Inl Invalid_player_state | _ \<Rightarrow> Inl Invalid_player_state)
     else (case fence of
             Local_fence _ \<Rightarrow> if dp_queue p = None then Inr (p\<lparr>dp_fence := fence\<rparr>) else Inl Invalid_player_state
           | Queue_fence _ \<Rightarrow> (case dp_queue p of
                None \<Rightarrow> Inr (p\<lparr>dp_fence := fence\<rparr>)
              | Some q \<Rightarrow> and_then (parseQueueSnapshot q (pd_scope d) None) (\<lambda>q'. Inr (p\<lparr>dp_fence := fence, dp_queue := Some q'\<rparr>)))
           | Channel_fence _ \<Rightarrow> Inl Invalid_player_state)))"

abbreviation dock_local :: "playback_dock \<Rightarrow> dock_playback option" where "dock_local d \<equiv> ds_local (pd_state d)"
abbreviation dock_parked :: "playback_dock \<Rightarrow> dock_playback option" where "dock_parked d \<equiv> ds_parkedAudio (pd_state d)"
abbreviation dock_resume :: "playback_dock \<Rightarrow> dock_playback option" where "dock_resume d \<equiv> ds_resumeVideo (pd_state d)"
abbreviation dock_remote :: "playback_dock \<Rightarrow> remote_dock option" where "dock_remote d \<equiv> ds_remote (pd_state d)"

definition dock_has :: "playback_dock \<Rightarrow> playback_fence \<Rightarrow> bool" where
  "dock_has d fence = sameFence (map_option dp_fence (dock_local d)) fence"

definition stop_remote :: "playback_dock \<Rightarrow> dock_effect list" where
  "stop_remote d = (case dock_remote d of Some r \<Rightarrow> [Stop_effect (paused (rm_playback r))] | None \<Rightarrow> [])"

definition dock_start :: "dock_playback \<Rightarrow> playback_dock \<Rightarrow> dock_transition" where
  "dock_start value d =
     (case dock_checked d value of
        Inl e \<Rightarrow> (Inl e, d)
      | Inr next' \<Rightarrow>
          let old = dock_local d;
              displaced = (case old of Some o' \<Rightarrow> if sameFence (Some (dp_fence o')) (dp_fence next') then None else Some o' | None \<Rightarrow> None);
              (effects, parked, resume) =
                (case displaced of
                   None \<Rightarrow> ([], dock_parked d, dock_resume d)
                 | Some o' \<Rightarrow>
                     if audio_playback o' \<and> \<not> audio_playback next' then ([Pause_effect (paused o')], Some (paused o'), dock_resume d)
                     else ([Stop_effect (paused o')], dock_parked d,
                           if \<not> audio_playback o' \<and> audio_playback next' then Some (paused o') else dock_resume d))
          in (Inr (effects @ stop_remote d),
              d\<lparr>pd_localRetired := False, pd_state := \<lparr>ds_local = Some next', ds_parkedAudio = (if audio_playback next' then None else parked), ds_resumeVideo = resume, ds_remote = None\<rparr>\<rparr>))"

definition dock_update :: "dock_playback \<Rightarrow> playback_dock \<Rightarrow> dock_transition" where
  "dock_update value d =
     (if pd_localRetired d \<or> \<not> dock_has d (dp_fence value) then (Inr [], d)
      else case dock_checked d value of
             Inl e \<Rightarrow> (Inl e, d)
           | Inr p \<Rightarrow> (Inr [], d\<lparr>pd_state := (pd_state d)\<lparr>ds_local := Some p\<rparr>\<rparr>))"

definition dock_expansion :: "bool \<Rightarrow> playback_fence \<Rightarrow> playback_dock \<Rightarrow> dock_transition" where
  "dock_expansion expanded fence d =
     (Inr [], if dock_has d fence then d\<lparr>pd_state := (pd_state d)\<lparr>ds_local := map_option (\<lambda>p. p\<lparr>dp_expanded := expanded\<rparr>) (dock_local d)\<rparr>\<rparr> else d)"

definition dock_collapse :: "playback_fence \<Rightarrow> playback_dock \<Rightarrow> dock_transition" where
  "dock_collapse = dock_expansion False"

definition dock_expand :: "playback_fence \<Rightarrow> playback_dock \<Rightarrow> dock_transition" where
  "dock_expand = dock_expansion True"

definition dock_close :: "playback_fence \<Rightarrow> playback_dock \<Rightarrow> dock_transition" where
  "dock_close fence d =
     (case dock_local d of
        Some l \<Rightarrow>
          if dock_has d fence
          then let restored = (if audio_playback l then None else dock_parked d)
               in (Inr (Stop_effect (paused l) # (case restored of Some p \<Rightarrow> [Restore_effect (paused p)] | None \<Rightarrow> [])),
                   d\<lparr>pd_localRetired := (restored \<noteq> None), pd_state := (pd_state d)\<lparr>ds_local := map_option paused restored, ds_parkedAudio := None\<rparr>\<rparr>)
          else (Inr [], d)
      | None \<Rightarrow> (Inr [], d))"

definition dock_restoreAudio :: "playback_dock \<Rightarrow> dock_transition" where
  "dock_restoreAudio d =
     (case dock_parked d of
        None \<Rightarrow> (Inr [], d)
      | Some saved \<Rightarrow>
          (Inr ((case dock_local d of Some l \<Rightarrow> [Stop_effect (paused l)] | None \<Rightarrow> []) @ stop_remote d @ [Restore_effect (paused saved)]),
           d\<lparr>pd_localRetired := True,
             pd_state := \<lparr>ds_local = Some (paused saved), ds_parkedAudio = None,
               ds_resumeVideo = (case dock_local d of Some l \<Rightarrow> if audio_playback l then dock_resume d else Some (paused l) | None \<Rightarrow> dock_resume d), ds_remote = None\<rparr>\<rparr>))"

definition dock_restoreVideo :: "playback_dock \<Rightarrow> dock_transition" where
  "dock_restoreVideo d =
     (case dock_resume d of
        None \<Rightarrow> (Inr [], d)
      | Some saved \<Rightarrow>
          (Inr ((case dock_local d of Some l \<Rightarrow> [if audio_playback l then Pause_effect (paused l) else Stop_effect (paused l)] | None \<Rightarrow> []) @ stop_remote d @ [Restore_effect (paused saved)]),
           d\<lparr>pd_localRetired := True,
             pd_state := \<lparr>ds_local = Some (paused saved),
               ds_parkedAudio = (case dock_local d of Some l \<Rightarrow> if audio_playback l then Some (paused l) else dock_parked d | None \<Rightarrow> dock_parked d),
               ds_resumeVideo = None, ds_remote = None\<rparr>\<rparr>))"

section \<open>Receivers\<close>

definition terminal_phase :: "remote_phase \<Rightarrow> bool" where
  "terminal_phase p \<longleftrightarrow> p = Remote_stopped \<or> p = Remote_replaced \<or> p = Remote_error"

text \<open>An update of a receiver that is not current, not newer, or would revive an ended one is ignored.\<close>

definition remote_stale :: "remote_dock \<Rightarrow> playback_dock \<Rightarrow> bool" where
  "remote_stale value d =
     (case dock_remote d of
        None \<Rightarrow> True
      | Some current \<Rightarrow> rm_id current \<noteq> rm_id value \<or> numeral_value (rm_sequence value) \<le> numeral_value (rm_sequence current)
          \<or> (terminal_phase (rm_phase current) \<and> \<not> terminal_phase (rm_phase value)))"

definition remote_stoppedAt :: "remote_dock \<Rightarrow> int \<Rightarrow> bool \<Rightarrow> playback_dock \<Rightarrow> int option" where
  "remote_stoppedAt value now initial d =
     (if terminal_phase (rm_phase value)
      then (if initial then Some now else case Option.bind (dock_remote d) rm_stoppedAtMs of Some t \<Rightarrow> Some t | None \<Rightarrow> Some now)
      else None)"

definition remote_adopted :: "remote_dock \<Rightarrow> int \<Rightarrow> bool \<Rightarrow> dock_playback \<Rightarrow> playback_dock \<Rightarrow> dock_transition" where
  "remote_adopted value now initial playback d =
     (let silenced = (case dock_local d of Some l \<Rightarrow> if rm_phase value = Remote_playing \<and> dp_playing l then Some (paused l) else None | None \<Rightarrow> None)
      in (Inr (case silenced of Some l \<Rightarrow> [Stop_effect l] | None \<Rightarrow> []),
          d\<lparr>pd_localRetired := (pd_localRetired d \<or> rm_phase value = Remote_playing), pd_remoteNow := now,
            pd_state := (pd_state d)\<lparr>ds_local := (case silenced of Some l \<Rightarrow> Some l | None \<Rightarrow> dock_local d),
              ds_remote := Some (value\<lparr>rm_playback := playback, rm_stoppedAtMs := remote_stoppedAt value now initial d\<rparr>)\<rparr>\<rparr>))"

definition is_local_fence :: "playback_fence \<Rightarrow> bool" where
  "is_local_fence f \<longleftrightarrow> (case f of Local_fence _ \<Rightarrow> True | _ \<Rightarrow> False)"

definition adoptRemote :: "remote_dock \<Rightarrow> js_num \<Rightarrow> bool \<Rightarrow> playback_dock \<Rightarrow> dock_transition" where
  "adoptRemote value nowMs initial d =
     (case clockMs nowMs of
        Inl e \<Rightarrow> (Inl e, d)
      | Inr now \<Rightarrow>
          if \<not> initial \<and> now < pd_remoteNow d then (Inr [], d)
          else if \<not> (wireId (rm_id value) \<and> counter_ok (rm_sequence value) \<and> seconds_ok (rm_position value)) then (Inl Invalid_player_state, d)
          else if \<not> initial \<and> remote_stale value d then (Inr [], d)
          else case dock_checked d (rm_playback value) of
                 Inl e \<Rightarrow> (Inl e, d)
               | Inr playback \<Rightarrow> if is_local_fence (dp_fence playback) then (Inl Invalid_player_state, d) else remote_adopted value now initial playback d)"

definition beginRemote :: "remote_dock \<Rightarrow> js_num \<Rightarrow> playback_dock \<Rightarrow> dock_transition" where
  "beginRemote value nowMs = adoptRemote value nowMs True"

definition dock_remoteUpdate :: "remote_dock \<Rightarrow> js_num \<Rightarrow> playback_dock \<Rightarrow> dock_transition" where
  "dock_remoteUpdate value nowMs = adoptRemote value nowMs False"

definition dismissRemote :: "string \<Rightarrow> playback_dock \<Rightarrow> dock_transition" where
  "dismissRemote i d =
     (Inr [], case dock_remote d of Some r \<Rightarrow> if rm_id r = i then d\<lparr>pd_state := (pd_state d)\<lparr>ds_remote := None\<rparr>\<rparr> else d | None \<Rightarrow> d)"

definition dock_tick :: "js_num \<Rightarrow> playback_dock \<Rightarrow> dock_transition" where
  "dock_tick nowMs d =
     (case clockMs nowMs of
        Inl e \<Rightarrow> (Inl e, d)
      | Inr now \<Rightarrow>
          (case dock_remote d of
             Some r \<Rightarrow> (case rm_stoppedAtMs r of Some t \<Rightarrow> if t + 15000 \<le> now then dismissRemote (rm_id r) d else (Inr [], d) | None \<Rightarrow> (Inr [], d))
           | None \<Rightarrow> (Inr [], d)))"

definition continueHere :: "string \<Rightarrow> playback_dock \<Rightarrow> dock_transition" where
  "continueHere i d =
     (case dock_remote d of
        None \<Rightarrow> (Inr [], d)
      | Some r \<Rightarrow>
          if rm_id r \<noteq> i \<or> rm_phase r \<noteq> Remote_stopped then (Inr [], d)
          else let restored = paused ((rm_playback r)\<lparr>dp_position := rm_position r\<rparr>)
               in (Inr [Restore_effect restored], d\<lparr>pd_localRetired := True, pd_state := (pd_state d)\<lparr>ds_local := Some restored, ds_remote := None\<rparr>\<rparr>))"

definition dock_reset :: "queue_scope \<Rightarrow> local_scope option \<Rightarrow> playback_dock \<Rightarrow> dock_transition" where
  "dock_reset scope localScope d =
     (case queueScope scope of
        Inl e \<Rightarrow> (Inl e, d)
      | Inr next' \<Rightarrow>
          (case capturedLocalScope next' localScope of
             Inl e \<Rightarrow> (Inl e, d)
           | Inr l \<Rightarrow>
               (Inr ((case dock_local d of Some p \<Rightarrow> [Stop_effect (paused p)] | None \<Rightarrow> []) @ stop_remote d),
                \<lparr>pd_scope = next', pd_localScope = l, pd_state = empty_dock, pd_localRetired = False, pd_remoteNow = -1\<rparr>)))"

datatype occupant_mode = On_remote remote_kind | Here_video | Here_audio dock_kind

definition occupant :: "playback_dock \<Rightarrow> (occupant_mode \<times> dock_playback) option" where
  "occupant d =
     (case dock_remote d of
        Some r \<Rightarrow> Some (On_remote (rm_kind r), rm_playback r)
      | None \<Rightarrow>
          (case dock_local d of
             Some l \<Rightarrow> if dp_expanded l then None else Some (if audio_playback l then Here_audio (dp_kind l) else Here_video, l)
           | None \<Rightarrow> None))"

end
