(* ===== verification/Playback_Dock_Promises.thy ===== *)
theory Playback_Dock_Promises
  imports Playback_Dock
begin

text \<open>What the dock promises: it stays within one identity, only what was started plays, and receivers come and go in order.\<close>

section \<open>Events\<close>

datatype dock_event =
  Start_playback dock_playback
| Update_playback dock_playback
| Collapse playback_fence
| Expand_dock playback_fence
| Close_playback playback_fence
| Restore_audio
| Restore_video
| Begin_remote remote_dock js_num
| Remote_update remote_dock js_num
| Dismiss_remote string
| Dock_tick js_num
| Continue_here string
| Change_identity queue_scope "local_scope option"

fun dock_step :: "dock_event \<Rightarrow> playback_dock \<Rightarrow> dock_transition" where
  "dock_step (Start_playback p) d = dock_start p d"
| "dock_step (Update_playback p) d = dock_update p d"
| "dock_step (Collapse f) d = dock_collapse f d"
| "dock_step (Expand_dock f) d = dock_expand f d"
| "dock_step (Close_playback f) d = dock_close f d"
| "dock_step Restore_audio d = dock_restoreAudio d"
| "dock_step Restore_video d = dock_restoreVideo d"
| "dock_step (Begin_remote r now) d = beginRemote r now d"
| "dock_step (Remote_update r now) d = dock_remoteUpdate r now d"
| "dock_step (Dismiss_remote i) d = dismissRemote i d"
| "dock_step (Dock_tick now) d = dock_tick now d"
| "dock_step (Continue_here i) d = continueHere i d"
| "dock_step (Change_identity sc l) d = dock_reset sc l d"

inductive dock_reach :: "playback_dock \<Rightarrow> bool" where
  dock_new: "new_dock scope localScope = Inr d \<Longrightarrow> dock_reach d"
| dock_next: "dock_reach d \<Longrightarrow> dock_reach (snd (dock_step e d))"

section \<open>Checked playbacks\<close>

lemma localPlaybackIdentity_id: "localPlaybackIdentity v = Inr w \<Longrightarrow> w = v"
  by (auto simp: localPlaybackIdentity_def localPlaybackScope_def result_simps split: if_splits)

lemma playbackFence_id: "playbackFence f = Inr g \<Longrightarrow> g = f"
  by (cases f) (auto simp: localPlaybackFence_def channelPlaybackFence_def result_simps split: if_splits
      dest: queuePlaybackFence_id localPlaybackIdentity_id playbackIdentity_id)

lemma parseQueueSnapshot_id: "parseQueueSnapshot v sc q = Inr w \<Longrightarrow> sameScope (qn_scope v) sc \<Longrightarrow> w = v"
  by (auto simp: parseQueueSnapshot_def result_simps sameScope_def split: if_splits dest: queueScope_id)

lemma dock_checked_facts:
  assumes "dock_checked d p = Inr q"
  shows "dp_fence q = dp_fence p" "dp_kind q = dp_kind p" "dp_playing q = dp_playing p" "dp_expanded q = dp_expanded p" "fence_here d (dp_fence q)"
  using assms by (auto simp: dock_checked_def result_simps dest!: playbackFence_id split: if_splits playback_fence.splits option.splits)

lemma paused_simps [simp]:
  "dp_playing (paused p) = False" "dp_expanded (paused p) = False" "dp_fence (paused p) = dp_fence p" "dp_kind (paused p) = dp_kind p"
  "audio_playback (paused p) = audio_playback p" "paused (paused p) = paused p"
  by (simp_all add: paused_def audio_playback_def)

section \<open>The invariant\<close>

text \<open>All a dock holds belongs to its identity; what is parked is silent; a playing receiver silences this device.\<close>

definition held :: "playback_dock \<Rightarrow> dock_playback set" where
  "held d = set_option (dock_local d) \<union> set_option (dock_parked d) \<union> set_option (dock_resume d) \<union> rm_playback ` set_option (dock_remote d)"

definition parked_ok :: "playback_dock \<Rightarrow> bool" where
  "parked_ok d \<longleftrightarrow> (\<forall>p. dock_parked d = Some p \<longrightarrow> audio_playback p \<and> \<not> dp_playing p \<and> \<not> dp_expanded p)
     \<and> (\<forall>p. dock_resume d = Some p \<longrightarrow> \<not> audio_playback p \<and> \<not> dp_playing p \<and> \<not> dp_expanded p)"

definition remote_ok :: "playback_dock \<Rightarrow> bool" where
  "remote_ok d \<longleftrightarrow> (\<forall>r. dock_remote d = Some r \<longrightarrow> (terminal_phase (rm_phase r) \<longleftrightarrow> rm_stoppedAtMs r \<noteq> None)
     \<and> (rm_phase r = Remote_playing \<longrightarrow> (\<forall>l. dock_local d = Some l \<longrightarrow> \<not> dp_playing l) \<and> (pd_localRetired d \<or> dock_local d = None)))"

definition dock_ok :: "playback_dock \<Rightarrow> bool" where
  "dock_ok d \<longleftrightarrow> (\<forall>p \<in> held d. fence_here d (dp_fence p)) \<and> parked_ok d \<and> remote_ok d"

lemma fence_here_same: "pd_scope d' = pd_scope d \<Longrightarrow> pd_localScope d' = pd_localScope d \<Longrightarrow> fence_here d' = fence_here d"
  by (intro ext) (simp add: fence_here_def split: playback_fence.split)

lemma dock_okI:
  assumes "pd_scope d' = pd_scope d" "pd_localScope d' = pd_localScope d" "\<And>p. p \<in> held d' \<Longrightarrow> fence_here d (dp_fence p)" "parked_ok d'" "remote_ok d'"
  shows "dock_ok d'"
  using assms fence_here_same [OF assms(1,2)] by (simp add: dock_ok_def)

lemma dock_ok_held: "dock_ok d \<Longrightarrow> p \<in> held d \<Longrightarrow> fence_here d (dp_fence p)"
  by (simp add: dock_ok_def)

lemma dock_start_ok: "dock_ok d \<Longrightarrow> dock_ok (snd (dock_start p d))"
proof (cases "dock_checked d p")
  case (Inr q)
  assume ok: "dock_ok d"
  note facts = dock_checked_facts [OF Inr]
  show ?thesis
    by (rule dock_okI [of _ d]) (use ok facts in \<open>auto simp: dock_start_def Inr Let_def dock_ok_def held_def parked_ok_def remote_ok_def split: option.splits if_splits\<close>)
qed (simp add: dock_start_def)

lemma dock_update_ok: "dock_ok d \<Longrightarrow> dock_ok (snd (dock_update p d))"
proof (cases "pd_localRetired d \<or> \<not> dock_has d (dp_fence p)")
  case False
  assume ok: "dock_ok d"
  have local: "dock_local d \<noteq> None" using False by (cases "dock_local d") (simp_all add: dock_has_def)
  show ?thesis
  proof (cases "dock_checked d p")
    case (Inr q)
    show ?thesis
      by (rule dock_okI [of _ d]) (use ok False local dock_checked_facts [OF Inr] in \<open>auto simp: dock_update_def Inr dock_ok_def held_def parked_ok_def remote_ok_def\<close>)
  qed (use ok False in \<open>simp add: dock_update_def\<close>)
qed (simp add: dock_update_def)

lemma dock_expansion_ok: "dock_ok d \<Longrightarrow> dock_ok (snd (dock_expansion b f d))"
  by (cases "dock_has d f"; rule dock_okI [of _ d]) (auto simp: dock_expansion_def dock_ok_def held_def parked_ok_def remote_ok_def)

lemma dock_close_ok: "dock_ok d \<Longrightarrow> dock_ok (snd (dock_close f d))"
  by (rule dock_okI [of _ d]) (auto simp: dock_close_def Let_def dock_ok_def held_def parked_ok_def remote_ok_def split: option.splits if_splits)

lemma dock_restore_ok: "dock_ok d \<Longrightarrow> dock_ok (snd (dock_restoreAudio d))" "dock_ok d \<Longrightarrow> dock_ok (snd (dock_restoreVideo d))"
  by (rule dock_okI [of _ d]; auto simp: dock_restoreAudio_def dock_restoreVideo_def dock_ok_def held_def parked_ok_def remote_ok_def split: option.splits if_splits)+

lemma dock_dismiss_ok: "dock_ok d \<Longrightarrow> dock_ok (snd (dismissRemote i d))"
  by (rule dock_okI [of _ d]) (auto simp: dismissRemote_def dock_ok_def held_def parked_ok_def remote_ok_def split: option.splits if_splits)

lemma dock_continue_ok: "dock_ok d \<Longrightarrow> dock_ok (snd (continueHere i d))"
  by (rule dock_okI [of _ d]) (auto simp: continueHere_def Let_def dock_ok_def held_def parked_ok_def remote_ok_def split: option.splits if_splits)

lemma reset_dock_ok: "dock_ok d \<Longrightarrow> dock_ok (snd (dock_reset sc l d))"
  by (auto simp: dock_reset_def dock_ok_def held_def parked_ok_def remote_ok_def empty_dock_def split: sum.splits)

section \<open>Receivers\<close>

text \<open>An update of a receiver is ignored or refused, or adopted.\<close>

lemma adopt_cases:
  "snd (adoptRemote v nowMs initial d) = d \<and> (fst (adoptRemote v nowMs initial d) = Inr [] \<or> (\<exists>e. fst (adoptRemote v nowMs initial d) = Inl e))
   \<or> (\<exists>now playback. (initial \<or> \<not> remote_stale v d) \<and> dock_checked d (rm_playback v) = Inr playback \<and> adoptRemote v nowMs initial d = remote_adopted v now initial playback d)"
  by (auto simp: adoptRemote_def split: sum.split)

lemma stoppedAt_terminal: "remote_stoppedAt v now initial d \<noteq> None \<longleftrightarrow> terminal_phase (rm_phase v)"
  by (simp add: remote_stoppedAt_def split: option.split)

lemma dock_adopted_ok:
  assumes ok: "dock_ok d" and sound: "dock_checked d (rm_playback v) = Inr playback"
  shows "dock_ok (snd (remote_adopted v now initial playback d))"
proof (rule dock_okI [of _ d])
  show "remote_ok (snd (remote_adopted v now initial playback d))"
    using stoppedAt_terminal [of v now initial d] by (auto simp: remote_adopted_def Let_def remote_ok_def split: option.splits if_splits)
qed (use ok dock_checked_facts [OF sound] in \<open>auto simp: remote_adopted_def Let_def dock_ok_def held_def parked_ok_def split: option.splits if_splits\<close>)

lemma dock_adopt_ok: "dock_ok d \<Longrightarrow> dock_ok (snd (adoptRemote v nowMs initial d))"
  using adopt_cases [of v nowMs initial d] dock_adopted_ok by auto

lemma dock_tick_ok: "dock_ok d \<Longrightarrow> dock_ok (snd (dock_tick now d))"
  by (auto simp: dock_tick_def dock_dismiss_ok split: sum.split option.split)

lemma dock_step_ok: "dock_ok d \<Longrightarrow> dock_ok (snd (dock_step e d))"
  by (cases e) (simp_all add: dock_start_ok dock_update_ok dock_expansion_ok dock_collapse_def dock_expand_def dock_close_ok dock_restore_ok dock_adopt_ok beginRemote_def dock_remoteUpdate_def
      dock_dismiss_ok dock_tick_ok dock_continue_ok reset_dock_ok)

lemma dock_reach_ok: "dock_reach d \<Longrightarrow> dock_ok d"
proof (induction rule: dock_reach.induct)
  case (dock_new scope localScope d)
  then show ?case by (auto simp: new_dock_def result_simps dock_ok_def held_def parked_ok_def remote_ok_def empty_dock_def)
qed (rule dock_step_ok)

section \<open>Who plays\<close>

lemma sameFence_refl [simp]: "sameFence (Some f) f"
  by (cases f) (simp_all add: same_channel_fence_def same_local_fence_def samePlayback_def sameScope_def sameLocalPlayback_def sameLocalScope_def)

text \<open>The report of the player itself on what it plays.\<close>

definition own_report :: "dock_event \<Rightarrow> playback_fence \<Rightarrow> bool" where
  "own_report e f \<longleftrightarrow> (\<exists>v. (e = Start_playback v \<or> e = Update_playback v) \<and> sameFence (Some f) (dp_fence v))"

text \<open>A playback that plays after a transition was started or reported playing, or it played before.\<close>

definition plays_on :: "dock_event \<Rightarrow> playback_dock \<Rightarrow> playback_dock \<Rightarrow> bool" where
  "plays_on e d d' \<longleftrightarrow> (\<forall>l. dock_local d' = Some l \<and> dp_playing l \<longrightarrow>
     (\<exists>l0. dock_local d = Some l0 \<and> dp_playing l0 \<and> dp_fence l0 = dp_fence l)
     \<or> (\<exists>v. (e = Start_playback v \<or> e = Update_playback v) \<and> dp_playing v \<and> dp_fence v = dp_fence l))"

text \<open>A playback that played and no longer does was told so, unless the player reported it itself.\<close>

definition told :: "dock_event \<Rightarrow> playback_dock \<Rightarrow> dock_effect list \<Rightarrow> playback_dock \<Rightarrow> bool" where
  "told e d effects d' \<longleftrightarrow> (\<forall>l0. dock_local d = Some l0 \<and> dp_playing l0 \<longrightarrow>
     (\<exists>l. dock_local d' = Some l \<and> dp_playing l \<and> dp_fence l = dp_fence l0)
     \<or> Pause_effect (paused l0) \<in> set effects \<or> Stop_effect (paused l0) \<in> set effects \<or> own_report e (dp_fence l0))"

lemma quiet_plays [simp]: "plays_on e d d" "told e d effects d"
  by (auto simp: plays_on_def told_def)

lemma start_plays: "dock_start v d = (Inr effects, d') \<Longrightarrow> plays_on (Start_playback v) d d' \<and> told (Start_playback v) d effects d'"
proof (cases "dock_checked d v")
  case (Inr q)
  assume "dock_start v d = (Inr effects, d')"
  then show ?thesis using dock_checked_facts [OF Inr]
    by (auto simp: dock_start_def Inr Let_def plays_on_def told_def own_report_def split: option.splits if_splits)
qed (simp add: dock_start_def)

lemma dock_update_plays: "dock_update v d = (Inr effects, d') \<Longrightarrow> plays_on (Update_playback v) d d' \<and> told (Update_playback v) d effects d'"
proof (cases "dock_checked d v")
  case (Inr q)
  assume "dock_update v d = (Inr effects, d')"
  then show ?thesis using dock_checked_facts [OF Inr]
    by (auto simp: dock_update_def Inr plays_on_def told_def own_report_def dock_has_def split: if_splits)
qed (auto simp: dock_update_def split: if_splits)

lemma expansion_plays: "dock_expansion b f d = (Inr effects, d') \<Longrightarrow> plays_on e d d' \<and> told e d effects d'"
  by (auto simp: dock_expansion_def plays_on_def told_def split: if_splits)

lemma close_plays: "dock_close f d = (Inr effects, d') \<Longrightarrow> plays_on e d d' \<and> told e d effects d'"
  by (auto simp: dock_close_def Let_def plays_on_def told_def split: option.splits if_splits)

lemma restore_plays:
  "dock_restoreAudio d = (Inr effects, d') \<Longrightarrow> plays_on e d d' \<and> told e d effects d'"
  "dock_restoreVideo d = (Inr effects, d') \<Longrightarrow> plays_on e d d' \<and> told e d effects d'"
  by (auto simp: dock_restoreAudio_def dock_restoreVideo_def plays_on_def told_def split: option.splits if_splits)

lemma dismiss_plays: "dismissRemote i d = (Inr effects, d') \<Longrightarrow> plays_on e d d' \<and> told e d effects d'"
  by (auto simp: dismissRemote_def plays_on_def told_def split: option.splits if_splits)

lemma adopt_plays: "adoptRemote v now initial d = (Inr effects, d') \<Longrightarrow> plays_on e d d' \<and> told e d effects d'"
  using adopt_cases [of v now initial d]
  by (auto simp: remote_adopted_def Let_def plays_on_def told_def split: option.splits if_splits)

lemma dock_reset_plays: "dock_reset sc l d = (Inr effects, d') \<Longrightarrow> plays_on e d d' \<and> told e d effects d'"
  by (auto simp: dock_reset_def plays_on_def told_def empty_dock_def split: option.splits sum.splits)

lemma tick_plays: "dock_tick now d = (Inr effects, d') \<Longrightarrow> plays_on e d d' \<and> told e d effects d'"
  using dismiss_plays [of _ d effects d' e] by (auto simp: dock_tick_def split: sum.splits option.splits if_splits)

text \<open>
  The one transition that drops a playback untold: continuing here, from a receiver that has stopped, while this
  device plays.
\<close>

definition drops_untold :: "dock_event \<Rightarrow> playback_dock \<Rightarrow> bool" where
  "drops_untold e d \<longleftrightarrow>
     (case (e, dock_remote d, dock_local d) of
        (Continue_here i, Some r, Some l) \<Rightarrow> rm_id r = i \<and> rm_phase r = Remote_stopped \<and> dp_playing l
      | _ \<Rightarrow> False)"

lemma continue_told: "continueHere i d = (Inr effects, d') \<Longrightarrow> told (Continue_here i) d effects d' \<longleftrightarrow> \<not> drops_untold (Continue_here i) d"
  by (cases "dock_local d") (auto simp: continueHere_def Let_def told_def drops_untold_def own_report_def split: option.splits if_splits)

lemma continue_plays: "continueHere i d = (Inr effects, d') \<Longrightarrow> plays_on e d d'"
  by (auto simp: continueHere_def Let_def plays_on_def split: option.splits if_splits)

lemma step_plays:
  assumes "dock_step e d = (Inr effects, d')"
  shows "plays_on e d d' \<and> (told e d effects d' \<longleftrightarrow> \<not> drops_untold e d)"
proof (cases "\<exists>i. e = Continue_here i")
  case True
  then show ?thesis using assms continue_plays continue_told by auto
next
  case False
  then have "\<not> drops_untold e d" by (cases e) (simp_all add: drops_untold_def)
  moreover have "plays_on e d d' \<and> told e d effects d'"
    using assms False
    by (cases e) (simp_all add: start_plays dock_update_plays expansion_plays dock_collapse_def dock_expand_def close_plays restore_plays adopt_plays beginRemote_def
        dock_remoteUpdate_def dismiss_plays tick_plays dock_reset_plays)
  ultimately show ?thesis by simp
qed

text \<open>Once a receiver has played, this device is silent until something is started on it.\<close>

definition retired_ok :: "playback_dock \<Rightarrow> bool" where
  "retired_ok d \<longleftrightarrow> (pd_localRetired d \<longrightarrow> (\<forall>l. dock_local d = Some l \<longrightarrow> \<not> dp_playing l))"

lemma adopt_retired: "retired_ok d \<Longrightarrow> retired_ok (snd (adoptRemote v now initial d))"
  using adopt_cases [of v now initial d] by (auto simp: remote_adopted_def Let_def retired_ok_def split: option.splits if_splits)

lemma step_retired: "retired_ok d \<Longrightarrow> retired_ok (snd (dock_step e d))"
proof (cases e)
  case (Begin_remote v now)
  assume "retired_ok d"
  then show ?thesis by (simp add: Begin_remote beginRemote_def adopt_retired)
next
  case (Remote_update v now)
  assume "retired_ok d"
  then show ?thesis by (simp add: Remote_update dock_remoteUpdate_def adopt_retired)
qed (auto simp: dock_start_def dock_update_def dock_collapse_def dock_expand_def dock_expansion_def dock_close_def dock_restoreAudio_def dock_restoreVideo_def
    dismissRemote_def dock_tick_def continueHere_def dock_reset_def empty_dock_def retired_ok_def Let_def split: sum.splits option.splits if_splits prod.splits)

lemma dock_reach_retired: "dock_reach d \<Longrightarrow> retired_ok d"
proof (induction rule: dock_reach.induct)
  case (dock_new scope localScope d)
  then show ?case by (auto simp: new_dock_def result_simps retired_ok_def empty_dock_def)
qed (rule step_retired)

section \<open>What a receiver is told\<close>

text \<open>A receiver leaves by itself when it has ended, when its bar is dismissed and when another connection is begun.\<close>

definition receiver_left :: "dock_event \<Rightarrow> remote_dock \<Rightarrow> bool" where
  "receiver_left e r \<longleftrightarrow> terminal_phase (rm_phase r) \<or> e = Dismiss_remote (rm_id r) \<or> (\<exists>v now. e = Begin_remote v now \<and> rm_id v \<noteq> rm_id r)"

definition receiver_told :: "dock_event \<Rightarrow> playback_dock \<Rightarrow> dock_effect list \<Rightarrow> playback_dock \<Rightarrow> bool" where
  "receiver_told e d effects d' \<longleftrightarrow> (\<forall>r. dock_remote d = Some r \<and> map_option rm_id (dock_remote d') \<noteq> Some (rm_id r) \<longrightarrow>
     Stop_effect (paused (rm_playback r)) \<in> set effects \<or> receiver_left e r)"

lemma adopt_receiver:
  assumes "adoptRemote v now initial d = (Inr effects, d')"
  shows "map_option rm_id (dock_remote d') = map_option rm_id (dock_remote d) \<or> initial \<and> map_option rm_id (dock_remote d') = Some (rm_id v)"
  using adopt_cases [of v now initial d] assms by (auto simp: remote_adopted_def Let_def remote_stale_def split: option.splits)

lemma step_tells_receiver:
  assumes "dock_ok d" "dock_step e d = (Inr effects, d')"
  shows "receiver_told e d effects d'"
proof (cases e)
  case (Begin_remote v now)
  then show ?thesis using adopt_receiver [of v now True d effects d'] assms(2) by (auto simp: receiver_told_def receiver_left_def beginRemote_def)
next
  case (Remote_update v now)
  then show ?thesis using adopt_receiver [of v now False d effects d'] assms(2) by (auto simp: receiver_told_def dock_remoteUpdate_def)
next
  case (Dock_tick now)
  have "terminal_phase (rm_phase r)" if "dock_remote d = Some r" "rm_stoppedAtMs r \<noteq> None" for r
    using assms(1) that by (simp add: dock_ok_def remote_ok_def)
  then show ?thesis using assms(2) Dock_tick by (auto simp: receiver_told_def receiver_left_def dock_tick_def split: sum.splits option.splits if_splits)
next
  case (Continue_here i)
  then show ?thesis using assms(2)
    by (auto simp: receiver_told_def receiver_left_def continueHere_def terminal_phase_def Let_def split: option.splits if_splits)
next
  case (Dismiss_remote i)
  then show ?thesis using assms(2) by (auto simp: receiver_told_def receiver_left_def dismissRemote_def split: option.splits if_splits)
qed (use assms(2) in \<open>auto simp: receiver_told_def dock_start_def dock_update_def dock_collapse_def dock_expand_def dock_expansion_def dock_close_def dock_restoreAudio_def
    dock_restoreVideo_def stop_remote_def dock_reset_def Let_def split: sum.splits option.splits if_splits prod.splits\<close>)

lemma step_restores: "dock_step e d = (Inr effects, d') \<Longrightarrow> Restore_effect p \<in> set effects \<Longrightarrow> \<not> dp_playing p"
proof (cases e)
  case (Begin_remote v now)
  assume "dock_step e d = (Inr effects, d')" "Restore_effect p \<in> set effects"
  then show ?thesis using adopt_cases [of v now True d] by (auto simp: Begin_remote beginRemote_def remote_adopted_def Let_def split: option.splits if_splits)
next
  case (Remote_update v now)
  assume "dock_step e d = (Inr effects, d')" "Restore_effect p \<in> set effects"
  then show ?thesis using adopt_cases [of v now False d] by (auto simp: Remote_update dock_remoteUpdate_def remote_adopted_def Let_def split: option.splits if_splits)
qed (auto simp: dock_start_def dock_update_def dock_collapse_def dock_expand_def dock_expansion_def dock_close_def dock_restoreAudio_def dock_restoreVideo_def stop_remote_def
    dismissRemote_def dock_tick_def continueHere_def dock_reset_def Let_def split: sum.splits option.splits if_splits prod.splits)

section \<open>Receivers in order\<close>

definition in_order :: "remote_dock \<Rightarrow> remote_dock \<Rightarrow> bool" where
  "in_order r r' \<longleftrightarrow> r' = r \<or> rm_id r' = rm_id r \<and> numeral_value (rm_sequence r) < numeral_value (rm_sequence r') \<and> (terminal_phase (rm_phase r) \<longrightarrow> terminal_phase (rm_phase r'))"

lemma adopt_in_order:
  assumes "dock_remote (snd (adoptRemote v now False d)) = Some r'"
  shows "\<exists>r. dock_remote d = Some r \<and> in_order r r'"
  using adopt_cases [of v now False d] assms
  by (auto simp: remote_adopted_def Let_def remote_stale_def in_order_def split: option.splits)

lemma step_in_order:
  assumes "\<And>v now. e \<noteq> Begin_remote v now" "dock_remote (snd (dock_step e d)) = Some r'"
  shows "\<exists>r. dock_remote d = Some r \<and> in_order r r'"
proof (cases e)
  case (Remote_update v now)
  then show ?thesis using assms(2) adopt_in_order by (simp add: dock_remoteUpdate_def)
next
  case (Begin_remote v now)
  then show ?thesis using assms(1) by blast
qed (use assms(2) in \<open>auto simp: dock_start_def dock_update_def dock_collapse_def dock_expand_def dock_expansion_def dock_close_def dock_restoreAudio_def dock_restoreVideo_def
    dismissRemote_def dock_tick_def continueHere_def dock_reset_def empty_dock_def Let_def in_order_def split: sum.splits option.splits if_splits prod.splits\<close>)

end
