(* ===== verification/Playback_Dock_Properties.thy ===== *)
theory Playback_Dock_Properties
  imports Playback_Dock_Promises
begin

text \<open>The properties of the dock, and a dock on which each is applied.\<close>

section \<open>An example dock\<close>

definition dock_scope :: queue_scope where
  "dock_scope = \<lparr>sc_serverId = ''a'', sc_authority = Hosted_session, sc_accountId = ''b'', sc_profileId = ''c'', sc_controllerId = ''d'', sc_controllerEpoch = ''e'', sc_commandLaneId = ''f''\<rparr>"

definition dock_film :: dock_playback where
  "dock_film = \<lparr>dp_kind = Video_dock,
     dp_fence = Queue_fence \<lparr>qf_playback = \<lparr>pi_scope = dock_scope, pi_run = Fin 1\<rparr>, qf_sessionId = ''s'', qf_itemId = ''i'', qf_sourceId = ''o'', qf_entryId = ''q'', qf_showId = None,
       qf_seasonId = None, qf_generation = Fin 1\<rparr>,
     dp_queue = None, dp_position = Fin 10, dp_playing = True, dp_expanded = True\<rparr>"

definition dock_receiver :: "remote_phase \<Rightarrow> string \<Rightarrow> remote_dock" where
  "dock_receiver phase n = \<lparr>rm_id = ''r'', rm_kind = Cast_remote, rm_phase = phase, rm_sequence = n, rm_playback = dock_film\<lparr>dp_playing := False\<rparr>, rm_position = Fin 20, rm_stoppedAtMs = None\<rparr>"

definition fresh_dock :: playback_dock where
  "fresh_dock = \<lparr>pd_scope = dock_scope, pd_localScope = None, pd_state = empty_dock, pd_localRetired = False, pd_remoteNow = -1\<rparr>"

definition film_dock :: playback_dock where
  "film_dock = fresh_dock\<lparr>pd_state := empty_dock\<lparr>ds_local := Some dock_film\<rparr>\<rparr>"

definition joined_dock :: playback_dock where
  "joined_dock = film_dock\<lparr>pd_remoteNow := 0, pd_state := (pd_state film_dock)\<lparr>ds_remote := Some (dock_receiver Remote_connecting ''1'')\<rparr>\<rparr>"

definition ended_dock :: playback_dock where
  "ended_dock = joined_dock\<lparr>pd_remoteNow := 5, pd_state := (pd_state film_dock)\<lparr>ds_remote := Some ((dock_receiver Remote_stopped ''2'')\<lparr>rm_stoppedAtMs := Some 5\<rparr>)\<rparr>\<rparr>"

lemma fresh_dock_new: "new_dock dock_scope None = Inr fresh_dock"
  by code_simp

lemma film_starts: "dock_step (Start_playback dock_film) fresh_dock = (Inr [], film_dock)"
  by code_simp

lemma receiver_joins: "dock_step (Begin_remote (dock_receiver Remote_connecting ''1'') (Fin 0)) film_dock = (Inr [], joined_dock)"
  by code_simp

lemma receiver_ends: "dock_step (Remote_update (dock_receiver Remote_stopped ''2'') (Fin 5)) joined_dock = (Inr [], ended_dock)"
  by code_simp

lemma joined_dock_reached: "dock_reach joined_dock"
proof -
  have "dock_reach film_dock" using dock_next [OF dock_new [OF fresh_dock_new], of "Start_playback dock_film"] by (simp only: film_starts snd_conv)
  then show ?thesis using dock_next [of film_dock "Begin_remote (dock_receiver Remote_connecting ''1'') (Fin 0)"] by (simp only: receiver_joins snd_conv)
qed

lemma ended_dock_reached: "dock_reach ended_dock"
proof -
  have "dock_reach joined_dock" by (rule joined_dock_reached)
  then show ?thesis using dock_next [of joined_dock "Remote_update (dock_receiver Remote_stopped ''2'') (Fin 5)"] by (simp only: receiver_ends snd_conv)
qed

lemma ended_dock_remote: "dock_remote ended_dock = Some ((dock_receiver Remote_stopped ''2'')\<lparr>rm_stoppedAtMs := Some 5\<rparr>)"
  by (simp add: ended_dock_def)

text \<open>
  The one transition that forgets a playback without stopping it: the receiver ends before it ever played, and
  the viewer continues here while this device still plays.
\<close>

lemma continue_here_untold:
  "fst (dock_step (Continue_here ''r'') ended_dock) = Inr [Restore_effect (paused (dock_film\<lparr>dp_position := Fin 20\<rparr>))]
   \<and> map_option dp_playing (dock_local ended_dock) = Some True \<and> map_option dp_playing (dock_local (snd (dock_step (Continue_here ''r'') ended_dock))) = Some False"
  by code_simp

section \<open>The properties\<close>

text \<open>C23. Everything a dock holds (the local playback, the parked music, the video to resume, the receiver's playback) belongs
  to the identity it is bound to, in every state it reaches; parked playbacks are silent and collapsed, music behind video and
  video behind music; an ended receiver has its end time; and while a receiver plays, this device does not.\<close>

theorem dock_holds_its_own:
  assumes "dock_reach d"
  shows "(\<forall>p \<in> held d. fence_here d (dp_fence p))
    \<and> (\<forall>p. dock_parked d = Some p \<longrightarrow> audio_playback p \<and> \<not> dp_playing p \<and> \<not> dp_expanded p)
    \<and> (\<forall>p. dock_resume d = Some p \<longrightarrow> \<not> audio_playback p \<and> \<not> dp_playing p \<and> \<not> dp_expanded p)
    \<and> (\<forall>r. dock_remote d = Some r \<longrightarrow> (terminal_phase (rm_phase r) \<longleftrightarrow> rm_stoppedAtMs r \<noteq> None)
         \<and> (rm_phase r = Remote_playing \<longrightarrow> (\<forall>l. dock_local d = Some l \<longrightarrow> \<not> dp_playing l)))"
  using dock_reach_ok [OF assms] unfolding dock_ok_def parked_ok_def remote_ok_def by blast

theorem dock_holds_its_own_witness:
  "\<exists>r. dock_remote ended_dock = Some r \<and> rm_stoppedAtMs r \<noteq> None"
  using dock_holds_its_own [OF ended_dock_reached] by (simp add: ended_dock_remote terminal_phase_def dock_receiver_def)

text \<open>C18. What a transition stops and starts. After it this device plays only what it
  played before or what was started or reported as playing, and what is restored is paused. What this device no longer plays was told to
  pause or stop, or the player reported it itself, in every case but one: continuing here from a receiver that has stopped
  while this device still plays, which only happens when no receiver has taken over since that playback was started. A receiver that loses its
  place is told to stop, unless it has ended, its bar was dismissed, or another connection was begun in its place.\<close>

theorem dock_takeover:
  assumes "dock_reach d" "dock_step e d = (Inr effects, d')"
  shows "plays_on e d d' \<and> (\<forall>p. Restore_effect p \<in> set effects \<longrightarrow> \<not> dp_playing p)
    \<and> (told e d effects d' \<longleftrightarrow> \<not> drops_untold e d) \<and> (drops_untold e d \<longrightarrow> \<not> pd_localRetired d)
    \<and> receiver_told e d effects d'"
proof -
  have "drops_untold e d \<longrightarrow> \<not> pd_localRetired d"
    using dock_reach_retired [OF assms(1)] by (auto simp: retired_ok_def drops_untold_def split: dock_event.splits option.splits)
  then show ?thesis
    using step_plays [OF assms(2)] step_restores [OF assms(2)] step_tells_receiver [OF dock_reach_ok [OF assms(1)] assms(2)] by blast
qed

theorem dock_takeover_witness:
  "\<exists>effects d'. dock_step (Start_playback dock_film) joined_dock = (Inr effects, d')
     \<and> Stop_effect (paused (dock_film\<lparr>dp_playing := False\<rparr>)) \<in> set effects \<and> told (Start_playback dock_film) joined_dock effects d'"
proof -
  let ?e = "Start_playback dock_film"
  have start: "dock_step ?e joined_dock = (Inr [Stop_effect (paused (dock_film\<lparr>dp_playing := False\<rparr>))], film_dock\<lparr>pd_remoteNow := 0\<rparr>)"
    by code_simp
  note takeover = dock_takeover [OF joined_dock_reached start]
  have remote: "dock_remote joined_dock = Some (dock_receiver Remote_connecting ''1'')" by (simp add: joined_dock_def)
  have "dock_remote (film_dock\<lparr>pd_remoteNow := 0\<rparr>) = None" by (simp add: film_dock_def empty_dock_def)
  then show ?thesis using takeover start remote
    by (auto simp: receiver_told_def receiver_left_def drops_untold_def dock_receiver_def terminal_phase_def)
qed

text \<open>C35. A receiver's bar appears only when a connection is begun: any other transition keeps it, removes it, or replaces
  it by a newer state of the same receiver, and a receiver that has ended never comes back.\<close>

theorem receivers_in_order:
  assumes "\<And>v now. e \<noteq> Begin_remote v now" "dock_remote (snd (dock_step e d)) = Some r'"
  shows "\<exists>r. dock_remote d = Some r \<and> (r' = r \<or> rm_id r' = rm_id r \<and> numeral_value (rm_sequence r) < numeral_value (rm_sequence r')
    \<and> (terminal_phase (rm_phase r) \<longrightarrow> terminal_phase (rm_phase r')))"
  using step_in_order [OF assms] unfolding in_order_def .

theorem receivers_in_order_witness:
  "\<exists>r. dock_remote joined_dock = Some r \<and> rm_id r = ''r''"
  using receivers_in_order [of "Remote_update (dock_receiver Remote_stopped ''2'') (Fin 5)" joined_dock "(dock_receiver Remote_stopped ''2'')\<lparr>rm_stoppedAtMs := Some 5\<rparr>"]
  unfolding receiver_ends by (auto simp: ended_dock_remote dock_receiver_def)

end
