(* ===== verification/Spec2Isabelle.thy ===== *)
theory Spec2Isabelle
  imports Artwork_Recency
  Artwork_Properties
  Player_Quality
  Player_Quality_Properties
  JS_Result
  JS_JSON
  Selection_Types
  Selection_Capabilities
  Selection_Validation
  Selection_Model
  Selection_Operations
  Selection_Summary
  Selection_Checks
  Selection_Registry
  Selection_Invariant
  Selection_Steps
  Selection_Fences
  Selection_Behaviour
  Selection_Properties
  Windowed_Collection
  Windowed_Pages
  Windowed_Pump
  Windowed_Invariant
  Windowed_Operations
  Windowed_Behaviour
  Windowed_Readings
  Windowed_Promises
  Windowed_Properties
  Audio_Plan
  Audio_Language
  Audio_Selection
  Audio_Properties
  Shuffle
  JS_Int32
  Guide_Programs
  Guide_Layout
  Guide_Time
  Guide_Retry
  Server_Clock
  Manual_Order
  Guide_Store
  Guide_Resources
  Guide_Keeping
  Guide_Loads
  Guide_Invariant
  Guide_Plan
  Guide_Wanted
  Guide_Calls
  Guide_Answers
  Guide_Handlers
  Guide_Page_Answers
  Guide_Tile_Answers
  Guide_Ends
  Guide_Timers
  Guide_Operations
  Guide_Renewal
  Guide_Generation
  Guide_Machine
  Guide_Screen
  Guide_Store_Properties
  Playback_Identity
  Playback_Segments
  Playback_Policy
  Playback_Promises
  Playback_Properties
  Playback_Dock
  Playback_Dock_Promises
  Playback_Dock_Properties
begin

text \<open>
  Portico Media Server is a media server (Go, \<open>server/\<close>) with TypeScript clients: a browser client
  (\<open>web/\<close>), a desktop shell (\<open>apps/desktop/\<close>) and the packages they share. The packages hold the logic that
  has to be right whatever the user interface does: \<open>packages/client-core\<close> (state machines between the
  server's answers and the screen) and \<open>packages/player-core\<close> (playback decisions). This library
  verifies that logic. All source paths below are under \<open>src/packages/\<close>.

  THE PARTS, AND HOW THEY INTERACT

  A screen of the client shows windows onto data that is much larger than it. Four machines do that work, and
  each is driven in the same way: the client calls operations, the environment (the server's answers,
  timers, abort signals) calls back in any order, and every step runs to its end before the next. In the model
  an operation or callback is a function from the state to the state; what the code would hand to the
  environment (a request, a timer, a notification, a settled promise) is recorded in the state, and the answer is a
  step of its own. A reachability relation over these steps (\<open>art_reachable\<close>, \<open>model_reachable\<close>, \<open>guide_reach\<close>, the
  runs of the collection) stands for every interleaving. \<open>art_history\<close> keeps with such a run the list of uses that
  led to a state, and the decisions of playback are followed over lists of events (\<open>audio_run\<close>, \<open>auto_run\<close>).

  1. Artwork loading (\<open>client-core/src/artwork\<close>). \<open>Min_Heap\<close> is \<open>heap.ts\<close>: \<open>push\<close>, \<open>pop\<close>, \<open>peek\<close>, \<open>retain\<close> on an array;
     its contract is the locale \<open>priority_queue\<close>, given by those definitions for every weak order,
     the order of the scheduler's nodes among them. \<open>Artwork_Scheduler\<close> is the
     class \<open>ArtworkScheduler\<close> of \<open>scheduler.ts\<close>, one definition per method and per callback. \<open>Artwork_Frame\<close>
     gives what each writes, \<open>Artwork_Invariant\<close> the phases of an entry and the counters kept beside them,
     \<open>Artwork_Slots\<close> the attempts and the slot limit, \<open>Artwork_Order\<close> the two lanes as heaps with stale nodes,
     \<open>Artwork_Runs\<close> that queued work always has a flush ahead, \<open>Artwork_Eviction\<close> the memory budgets,
     \<open>Artwork_Recency\<close> that the map of entries is kept in the order of their last use, which is what eviction
     follows, \<open>Artwork_Properties\<close> the promises to the client.
  2. Selection (\<open>client-core/src/selection-model\<close>, \<open>selection-basis.ts\<close>). \<open>Selection_Types\<close> is \<open>types.ts\<close>;
     \<open>Selection_Capabilities\<close> is \<open>capabilities.ts\<close>, \<open>query-summary.ts\<close>, \<open>targets.ts\<close> and the wire vocabularies;
     \<open>Selection_Validation\<close> is \<open>validation.ts\<close>; \<open>Selection_Model\<close> and \<open>Selection_Operations\<close> are \<open>model.ts\<close>, a method
     that throws giving \<open>Inl\<close> with the state it leaves. \<open>Selection_Registry\<close>, \<open>Selection_Invariant\<close>,
     \<open>Selection_Steps\<close> give the invariant of every run; \<open>Selection_Fences\<close> what generations protect;
     \<open>Selection_Summary\<close> that the incremental summaries equal a direct description;
     \<open>Selection_Behaviour\<close>, \<open>Selection_Checks\<close>, \<open>Selection_Properties\<close> the promises.
  3. Windowed collections (\<open>client-core/src/collections/windowed.ts\<close>). \<open>Windowed_Collection\<close> is the closure of
     \<open>createWindowedCollection\<close>: pages, generations, the pump, eviction, quiet readings. \<open>Windowed_Pages\<close>,
     \<open>Windowed_Pump\<close>, \<open>Windowed_Invariant\<close>, \<open>Windowed_Operations\<close> give the invariant and the limits,
     \<open>Windowed_Behaviour\<close> what stays on screen, \<open>Windowed_Readings\<close> and \<open>Windowed_Promises\<close> how a reading ends,
     \<open>Windowed_Properties\<close> the promises.
  4. The guide (\<open>client-core/src/guide\<close>). \<open>Guide_Programs\<close>, \<open>Guide_Layout\<close>, \<open>Guide_Time\<close>, \<open>Guide_Retry\<close> are the pure
     half (\<open>types.ts\<close>, \<open>layout.ts\<close>, \<open>now-next.ts\<close>, \<open>time.ts\<close>, \<open>rate-limit.ts\<close>). \<open>Guide_Store\<close> is the class
     \<open>GuideWindowStore\<close> of \<open>store.ts\<close>: pages of channels, tiles of programs, a queue, requests and timers.
     \<open>Guide_Resources\<close>, \<open>Guide_Keeping\<close>, \<open>Guide_Loads\<close>, \<open>Guide_Invariant\<close> give the invariant and show that eviction,
     the fetches and the pump keep it; \<open>Guide_Plan\<close>, \<open>Guide_Wanted\<close> that \<open>plan\<close>
     establishes it; \<open>Guide_Calls\<close> which requests and timers may still answer; \<open>Guide_Answers\<close>,
     \<open>Guide_Handlers\<close>, \<open>Guide_Page_Answers\<close>, \<open>Guide_Tile_Answers\<close>, \<open>Guide_Ends\<close>, \<open>Guide_Timers\<close>
     treat each callback, \<open>Guide_Operations\<close>, \<open>Guide_Renewal\<close>, \<open>Guide_Generation\<close> each operation; \<open>Guide_Machine\<close> puts
     them together as a step relation, \<open>Guide_Screen\<close> shows what stays on the screen and
     \<open>Guide_Store_Properties\<close> states the promises.

  Beside them are the decisions of playback, which are state machines without requests of their own:

  5. Audio selection (\<open>client-core/src/audio-selection.ts\<close>): \<open>Audio_Plan\<close> (the check of a plan from outside),
     \<open>Audio_Language\<close> (a grammar of language tags and its equivalence with the greedy scan), \<open>Audio_Selection\<close>
     (the class and its timer), \<open>Audio_Properties\<close>.
  6. Playback quality (\<open>player-core/src/quality-ladder.ts\<close>, \<open>quality.ts\<close>, \<open>choices.ts\<close>): \<open>Player_Quality\<close>,
     \<open>Player_Quality_Properties\<close>.
  7. The playback policy (\<open>player-core/src/playback-policy.ts\<close>, \<open>segment-markers.ts\<close>, \<open>segment-skip.ts\<close>,
     \<open>up-next.ts\<close>, \<open>post-play.ts\<close>) and the dock (\<open>dock.ts\<close>). \<open>Playback_Identity\<close> is \<open>identity.ts\<close> and
     \<open>local-playback-identity.ts\<close>: scopes, fences, their checks and comparisons. \<open>Playback_Segments\<close> holds the
     segments and the offer of the next title, \<open>Playback_Policy\<close> the class \<open>PlaybackPolicy\<close>,
     \<open>Playback_Promises\<close> the runs of one playback and what each step adds to them, \<open>Playback_Properties\<close> the
     promises. \<open>Playback_Dock\<close> is the class \<open>PlaybackDock\<close> and the check of a queue snapshot (\<open>queues.ts\<close>),
     \<open>Playback_Dock_Promises\<close> its reachable states, \<open>Playback_Dock_Properties\<close> the promises.
  8. Group playback and queues (\<open>client-core/src/playback-v1/shuffle.ts\<close>, \<open>clock.ts\<close>): \<open>Shuffle\<close>, \<open>Server_Clock\<close>; lists
     with their own order (\<open>presentation/manual-order.ts\<close>): \<open>Manual_Order\<close>.

  The JavaScript the sources use is in \<open>JS_Prelude\<close> (an insertion-ordered \<open>Map\<close> is an association list with
  distinct keys, a \<open>Set\<close> a distinct list), \<open>JS_Value\<close> (unknown values as trees), \<open>JS_Result\<close> (code that
  throws), \<open>JS_JSON\<close> (\<open>JSON.stringify\<close> of strings, shown injective) and \<open>JS_Int32\<close> (the 32-bit operators).

  WHAT IS SHOWN

  Liveness: queued artwork is never left without a flush ahead; every page and tile the guide's viewport
  wants is loaded, on its way, or was refused more often than the delays allow; a pending audio change has a
  deadline; a quiet reading settles its promise exactly once. Safety: generations fence off answers and
  operations captured before a change; nothing on screen disappears while it is loaded again (collection and
  guide); automatic quality never changes twice within the hold time; the
  next title starts by itself at most once, and only after an offer the viewer let run out or where the viewer allowed
  it; nothing restored to the dock plays by itself. Bounds: slots, caps and memory budgets in
  every reachable state. Equivalence and refinement: incremental summaries, the published snapshot, the language
  scan and the bounded copy of a filter equal reference definitions. Round trips, termination and error
  behaviour: the shuffle and its inverse, its cycle walk, refusals that leave the state alone.

  NUMBERS, FUEL AND TERMINATION

  Integers the validators bound to safe integers are \<open>int\<close>, other finite numbers are \<open>rat\<close>, the 32-bit
  operators convert to words and wrap. No definition uses fuel. Loops are structural or have a measure (the heap
  sifts, the pumps, whose measure is the queue); the cycle walk of the shuffle is a \<open>while_option\<close>, shown to end for
  every shuffle that can be made, as its rounds permute a finite set; the loop of \<open>blocksCovering\<close> in
  \<open>time.ts\<close>, which a negative step would never end, is a
  \<open>partial_function (option)\<close> with a proof that it returns for positive ones.

  NOT MODELLED, AND WHY

  \<^item> Listeners that call back into the machine that is notifying them: notifications are recorded, and run after the step.
  \<^item> The rounding of 53-bit floats, NaN and infinities outside the places that test for them; several readings of the
    clock within one operation (each operation reads it once); characters beyond the code units of \<open>string\<close>.
  \<^item> Prototypes, getters and cyclic values at the boundary checks: a value from outside is a tree, as decoded JSON is.
  \<^item> A data source that throws instead of returning a promise; the replacement of the source object in the
    guide's \<open>reset\<close>; the unsubscribe closure of a page's listeners kept beyond \<open>dispose\<close>.
  \<^item> Tests of a type that the declared type of an argument already gives (the policy, the dock, the identities).
  \<^item> \<open>Intl.DateTimeFormat\<close>, \<open>Date.parse\<close> and \<open>Math.random\<close>: parameters of the definitions that use them.
  \<^item> \<open>sameQuality\<close>, a comparison of two \<open>JSON.stringify\<close> texts of objects, whose key order is the caller's.
  \<^item> The rest of \<open>client-core\<close> and \<open>player-core\<close> (requests to the server and the shaping of their answers, the read
    model of freshness, sessions, settings), \<open>reader-core\<close>, the React views, the generated contracts, the message
    catalogues, the Go server and the native shells: other subsystems, not used by the parts above except as
    the environment that answers.
\<close>

end
